(* ===== verification/Prelude.thy ===== *)
theory Prelude
  imports Main "HOL-Library.Word" "HOL-Library.Stream"
begin

text \<open>
  What the component theories share: the result type of operations that can abort or fail to
  return, the loop combinators of the C++ code with their proof rules, the random source, and
  byte / machine-integer helpers.
\<close>

unbundle bit_operations_syntax

section \<open>Results of operations\<close>

text \<open>
  A C++ operation returns, aborts or runs forever. An abort is a failed \<open>CHECK\<close>, the
  \<open>std::length_error\<close> a vector throws when it outgrows \<open>max_size()\<close>, or undefined
  behaviour the model makes visible (an access out of range, signed overflow). \<open>None\<close> is an
  operation that does not return.
\<close>

datatype failure = Check_failed string | Length_error | Undefined string

type_synonym 'a res = "(failure + 'a) option"

definition ret :: "'a \<Rightarrow> 'a res" where
  "ret x = Some (Inr x)"

definition abort :: "failure \<Rightarrow> 'a res" where
  "abort e = Some (Inl e)"

definition rbind :: "'a res \<Rightarrow> ('a \<Rightarrow> 'b res) \<Rightarrow> 'b res" where
  "rbind m f = (case m of None \<Rightarrow> None | Some (Inl e) \<Rightarrow> Some (Inl e) | Some (Inr x) \<Rightarrow> f x)"

text \<open>\<open>CHECK(b)\<close>: continue when \<open>b\<close> holds, abort otherwise.\<close>

definition check :: "bool \<Rightarrow> string \<Rightarrow> unit res" where
  "check b msg = (if b then ret () else abort (Check_failed msg))"

lemma rbind_simps [simp]:
  "rbind (ret x) f = f x"
  "rbind (abort e) f = abort e"
  "rbind None f = None"
  "rbind (Some (Inr x)) f = f x"
  "rbind (Some (Inl e)) f = Some (Inl e)"
  by (simp_all add: rbind_def ret_def abort_def)

lemma ret_inject [simp]: "ret x = ret y \<longleftrightarrow> x = y"
  by (simp add: ret_def)

lemma ret_neq_abort [simp]:
  "ret x \<noteq> abort e" "abort e \<noteq> ret x" "ret x \<noteq> None" "None \<noteq> ret x" "abort e \<noteq> None"
  by (simp_all add: ret_def abort_def)

lemma check_simps [simp]: "check True m = ret ()" "check False m = abort (Check_failed m)"
  by (simp_all add: check_def)

lemma res_cases [case_names ret abort diverge]:
  obtains x where "m = ret x" | e where "m = abort e" | "m = None"
  by (cases m) (auto simp: ret_def abort_def split: sum.splits, metis sum.exhaust_sel)

lemma rbind_eq_ret: "rbind m f = ret y \<longleftrightarrow> (\<exists>x. m = ret x \<and> f x = ret y)"
  by (auto simp: rbind_def ret_def split: option.splits sum.splits)

lemma rbind_assoc: "rbind (rbind m f) g = rbind m (\<lambda>x. rbind (f x) g)"
  by (auto simp: rbind_def split: option.splits sum.splits)

subsection \<open>Safety of a result\<close>

text \<open>
  \<open>wp F P m\<close>: an abort of \<open>m\<close> is one of \<open>F\<close>, and a result \<open>m\<close> returns satisfies \<open>P\<close>. Two
  instances are used. \<open>safe P m\<close>: no \<open>CHECK\<close> of \<open>m\<close> fails and nothing undefined happens (the one
  abort left open is \<open>std::length_error\<close>, which only a vector of more than \<open>max_size()\<close>
  elements raises). \<open>post P m\<close>: any abort is allowed. \<open>returns P m\<close> says that \<open>m\<close> does return,
  with a result that satisfies \<open>P\<close>. The rules below run through an operation the way it is
  composed.
\<close>

definition wp :: "(failure \<Rightarrow> bool) \<Rightarrow> ('a \<Rightarrow> bool) \<Rightarrow> 'a res \<Rightarrow> bool" where
  "wp F P m = (case m of None \<Rightarrow> True | Some (Inl e) \<Rightarrow> F e | Some (Inr x) \<Rightarrow> P x)"

definition only_length_error :: "failure \<Rightarrow> bool" where
  "only_length_error e \<longleftrightarrow> e = Length_error"

abbreviation safe :: "('a \<Rightarrow> bool) \<Rightarrow> 'a res \<Rightarrow> bool" where
  "safe P m \<equiv> wp only_length_error P m"

abbreviation post :: "('a \<Rightarrow> bool) \<Rightarrow> 'a res \<Rightarrow> bool" where
  "post P m \<equiv> wp (\<lambda>_. True) P m"

definition returns :: "('a \<Rightarrow> bool) \<Rightarrow> 'a res \<Rightarrow> bool" where
  "returns P m = (case m of Some (Inr x) \<Rightarrow> P x | _ \<Rightarrow> False)"

lemma wp_simps [simp]:
  "wp F P (ret x) = P x"
  "wp F P (abort e) = F e"
  "wp F P None"
  by (simp_all add: wp_def ret_def abort_def)

lemma only_length_error_simps [simp]:
  "only_length_error Length_error"
  "\<not> only_length_error (Check_failed msg)"
  "\<not> only_length_error (Undefined msg)"
  by (simp_all add: only_length_error_def)

lemma returns_ret [simp]: "returns P (ret x) = P x"
  by (simp add: returns_def ret_def)

lemma returns_abort [simp]: "\<not> returns P (abort e)" "\<not> returns P None"
  by (simp_all add: returns_def abort_def)

lemma wp_rbind: "wp F P m \<Longrightarrow> (\<And>x. P x \<Longrightarrow> wp F Q (f x)) \<Longrightarrow> wp F Q (rbind m f)"
  by (cases m rule: res_cases) auto

lemmas safe_rbind = wp_rbind [where F = only_length_error]

lemma returns_rbind: "returns P m \<Longrightarrow> (\<And>x. P x \<Longrightarrow> returns Q (f x)) \<Longrightarrow> returns Q (rbind m f)"
  by (cases m rule: res_cases) auto

lemma wp_check [simp]: "wp F P (check b m) = (if b then P () else F (Check_failed m))"
  by (cases b) simp_all

lemma wp_mono: "wp F P m \<Longrightarrow> (\<And>x. P x \<Longrightarrow> Q x) \<Longrightarrow> wp F Q m"
  by (cases m rule: res_cases) auto

lemmas safe_mono = wp_mono [where F = only_length_error]

lemma wp_conj: "wp F P m \<Longrightarrow> wp F Q m \<Longrightarrow> wp F (\<lambda>x. P x \<and> Q x) m"
  by (cases m rule: res_cases) auto

lemma wp_retD: "wp F P m \<Longrightarrow> m = ret x \<Longrightarrow> P x"
  by simp

lemma post_iff: "post P m \<longleftrightarrow> (\<forall>x. m = ret x \<longrightarrow> P x)"
  by (cases m rule: res_cases) auto

lemma returns_wp: "returns P m \<Longrightarrow> wp F P m"
  by (cases m rule: res_cases) auto

lemma safe_returns: "safe P m \<Longrightarrow> returns Q m \<Longrightarrow> returns (\<lambda>x. P x \<and> Q x) m"
  by (cases m rule: res_cases) auto

lemma returns_mono: "returns P m \<Longrightarrow> (\<And>x. P x \<Longrightarrow> Q x) \<Longrightarrow> returns Q m"
  by (cases m rule: res_cases) auto

lemma returnsE: "returns P m \<Longrightarrow> (\<And>x. m = ret x \<Longrightarrow> P x \<Longrightarrow> thesis) \<Longrightarrow> thesis"
  by (cases m rule: res_cases) auto

section \<open>Loops\<close>

text \<open>\<open>for (i = k; i < k + n; ++i) body\<close> over a state; the first abort ends it.\<close>

fun for_range :: "(nat \<Rightarrow> 's \<Rightarrow> 's res) \<Rightarrow> nat \<Rightarrow> nat \<Rightarrow> 's \<Rightarrow> 's res" where
  "for_range f k 0 s = ret s"
| "for_range f k (Suc n) s = rbind (f k s) (\<lambda>s'. for_range f (Suc k) n s')"

lemma for_range_wp:
  assumes "\<And>i s. k \<le> i \<Longrightarrow> i < k + n \<Longrightarrow> I i s \<Longrightarrow> wp F (I (Suc i)) (f i s)"
    and "I k s"
  shows "wp F (I (k + n)) (for_range f k n s)"
  using assms
proof (induction n arbitrary: k s)
  case (Suc n)
  have "wp F (I (Suc k)) (f k s)" using Suc.prems by simp
  moreover have "wp F (I (k + Suc n)) (for_range f (Suc k) n s')" if "I (Suc k) s'" for s'
    using Suc.IH [of "Suc k" s'] Suc.prems(1) that by simp
  ultimately show ?case by (auto intro: wp_rbind)
qed simp

lemmas for_range_safe = for_range_wp [where F = only_length_error]

lemma for_range_returns:
  assumes "\<And>i s. k \<le> i \<Longrightarrow> i < k + n \<Longrightarrow> I i s \<Longrightarrow> returns (I (Suc i)) (f i s)"
    and "I k s"
  shows "returns (I (k + n)) (for_range f k n s)"
  using assms
proof (induction n arbitrary: k s)
  case (Suc n)
  have "returns (I (Suc k)) (f k s)" using Suc.prems by simp
  moreover have "returns (I (k + Suc n)) (for_range f (Suc k) n s')" if "I (Suc k) s'" for s'
    using Suc.IH [of "Suc k" s'] Suc.prems(1) that by simp
  ultimately show ?case by (auto intro: returns_rbind)
qed simp

text \<open>A range-based \<open>for\<close> over a vector.\<close>

fun for_each :: "('a \<Rightarrow> 's \<Rightarrow> 's res) \<Rightarrow> 'a list \<Rightarrow> 's \<Rightarrow> 's res" where
  "for_each f [] s = ret s"
| "for_each f (x # xs) s = rbind (f x s) (for_each f xs)"

text \<open>The invariant speaks of the elements that are still to be visited.\<close>

lemma for_each_returns:
  assumes "\<And>x xs s. I (x # xs) s \<Longrightarrow> returns (I xs) (f x s)" and "I xs s"
  shows "returns (I []) (for_each f xs s)"
  using assms(2)
proof (induction xs arbitrary: s)
  case (Cons x xs)
  show ?case using assms(1) [OF Cons.prems] Cons.IH by (auto intro: returns_rbind)
qed simp

text \<open>A range-based \<open>for\<close> that updates each element of a vector and threads a state.\<close>

fun map_state :: "('s \<Rightarrow> 'a \<Rightarrow> ('a \<times> 's) res) \<Rightarrow> 's \<Rightarrow> 'a list \<Rightarrow> ('a list \<times> 's) res" where
  "map_state f s [] = ret ([], s)"
| "map_state f s (x # xs) =
     rbind (f s x) (\<lambda>(y, s'). rbind (map_state f s' xs) (\<lambda>(ys, s''). ret (y # ys, s'')))"

lemma map_state_wp:
  assumes "\<And>s x. x \<in> set xs \<Longrightarrow> wp F (\<lambda>(y, s'). P x y) (f s x)"
  shows "wp F (\<lambda>(ys, s'). list_all2 P xs ys) (map_state f s xs)"
  using assms
proof (induction xs arbitrary: s)
  case (Cons x xs)
  have hd: "wp F (\<lambda>(y, s'). P x y) (f s x)" using Cons.prems by simp
  have tl: "wp F (\<lambda>(ys, s'). list_all2 P xs ys) (map_state f s' xs)" for s'
    using Cons.IH Cons.prems by simp
  show ?case
    by (auto intro!: wp_rbind [OF hd] wp_rbind [OF tl])
qed simp

text \<open>
  A \<open>while\<close> loop whose body decides whether to leave with a result or go on with a new state.
  Nothing bounds the number of rounds, so a loop that never leaves is \<open>None\<close>.
\<close>

datatype ('r, 's) iter = Break 'r | Continue 's

lemma rbind_as_bind:
  "rbind m f = Option.bind m (\<lambda>s. case s of Inl e \<Rightarrow> Some (Inl e) | Inr x \<Rightarrow> f x)"
  by (simp add: rbind_def split: option.splits)

lemma rbind_mono [partial_function_mono]:
  assumes "mono_option B" and "\<And>y. mono_option (\<lambda>f. C y f)"
  shows "mono_option (\<lambda>f. rbind (B f) (\<lambda>y. C y f))"
  unfolding rbind_as_bind
proof (rule Partial_Function.bind_mono [OF assms(1)])
  fix y
  show "mono_option (\<lambda>f. case y of Inl e \<Rightarrow> Some (Inl e) | Inr x \<Rightarrow> C x f)"
    using assms(2) by (cases y) (auto simp: monotone_def option.leq_refl)
qed

partial_function (option) rloop :: "('s \<Rightarrow> ('r, 's) iter res) \<Rightarrow> 's \<Rightarrow> 'r res" where
  "rloop step s =
     rbind (step s) (\<lambda>x. case x of Break r \<Rightarrow> ret r | Continue s' \<Rightarrow> rloop step s')"

text \<open>Partial correctness: what the body keeps holds whenever the loop is left.\<close>

lemma rloop_wp:
  assumes step: "\<And>s. I s \<Longrightarrow> wp F (\<lambda>x. case x of Break r \<Rightarrow> Q r | Continue s' \<Rightarrow> I s') (step s)"
    and init: "I s"
  shows "wp F Q (rloop step s)"
proof (cases "rloop step s")
  case (Some r)
  let ?P = "\<lambda>st s r. (\<forall>s. I s \<longrightarrow> wp F (\<lambda>x. case x of Break r \<Rightarrow> Q r | Continue s' \<Rightarrow> I s') (st s))
               \<longrightarrow> I s \<longrightarrow> wp F Q (Some r)"
  have "?P step s r"
  proof (rule rloop.raw_induct [where P = ?P, OF _ Some], intro impI)
    fix loop :: "('a \<Rightarrow> ('b, 'a) iter res) \<Rightarrow> 'a \<Rightarrow> 'b res" and st s r
    assume IH: "\<And>st s r. loop st s = Some r \<Longrightarrow> ?P st s r"
      and eq: "rbind (st s) (\<lambda>x. case x of Break r \<Rightarrow> ret r | Continue s' \<Rightarrow> loop st s') = Some r"
      and st: "\<forall>s. I s \<longrightarrow> wp F (\<lambda>x. case x of Break r \<Rightarrow> Q r | Continue s' \<Rightarrow> I s') (st s)"
      and I: "I s"
    have "wp F Q (rbind (st s) (\<lambda>x. case x of Break r \<Rightarrow> ret r | Continue s' \<Rightarrow> loop st s'))"
    proof (rule wp_rbind)
      show "wp F (\<lambda>x. case x of Break r \<Rightarrow> Q r | Continue s' \<Rightarrow> I s') (st s)" using st I by blast
    next
      fix x assume x: "case x of Break r \<Rightarrow> Q r | Continue s' \<Rightarrow> I s'"
      show "wp F Q (case x of Break r \<Rightarrow> ret r | Continue s' \<Rightarrow> loop st s')"
      proof (cases x)
        case (Continue s')
        with x IH [of st s'] st show ?thesis by (cases "loop st s'") auto
      qed (use x in simp)
    qed
    with eq show "wp F Q (Some r)" by simp
  qed
  with step init Some show ?thesis by simp
qed simp

lemmas rloop_safe = rloop_wp [where F = only_length_error]

text \<open>Total correctness: the loop returns when the body makes a measure smaller.\<close>

lemma rloop_returns:
  assumes step: "\<And>s. I s \<Longrightarrow>
      returns (\<lambda>x. case x of Break r \<Rightarrow> Q r | Continue s' \<Rightarrow> I s' \<and> (m s' :: nat) < m s) (step s)"
    and init: "I s"
  shows "returns Q (rloop step s)"
  using init
proof (induction "m s" arbitrary: s rule: less_induct)
  case less
  show ?case
    by (subst rloop.simps, rule returns_rbind [OF step [OF less.prems]])
      (auto split: iter.splits intro: less.hyps)
qed

section \<open>The random source\<close>

text \<open>
  \<open>std::mt19937_64\<close> and the distributions of the standard library are read through one
  stream of draws: each draw of a distribution consumes one element, reduced to the range the
  distribution promises. Every sequence of results the real generator and distributions can
  produce is the result of some stream, so a statement about all streams is a statement about
  all seeds and all implementations of the distributions.
\<close>

type_synonym rng = "nat stream"

text \<open>One call \<open>rng()\<close>: a 64-bit value.\<close>

definition rng_draw :: "rng \<Rightarrow> 64 word \<times> rng" where
  "rng_draw r = (of_nat (shd r), stl r)"

section \<open>Machine integers and bytes\<close>

type_synonym byte = "8 word"
type_synonym u32 = "32 word"
type_synonym u64 = "64 word"

lemma unat_of_nat_u64: "x < 2 ^ 64 \<Longrightarrow> unat (of_nat x :: u64) = x"
  by (simp add: unat_of_nat take_bit_nat_eq_self)

lemma sint_word_of_int_u64: "- (2 ^ 63) \<le> k \<Longrightarrow> k < 2 ^ 63 \<Longrightarrow> sint (word_of_int k :: u64) = k"
  by (simp add: sint_sbintrunc' signed_take_bit_int_eq_self)

lemma sint_scast_u32: "sint (scast (x :: u32) :: u64) = sint x"
proof (rule bit_eqI)
  fix n show "bit (sint (scast x :: u64)) n = bit (sint x) n"
    by (cases "n = 31") (auto simp: bit_sint_iff bit_signed_iff min_def dest: bit_imp_le_length)
qed

text \<open>\<open>size_t\<close> arithmetic on vector indices with its wrap-around written out.\<close>

definition u64_of :: "int \<Rightarrow> nat" where
  "u64_of x = nat (x mod 2 ^ 64)"

lemma u64_of_id: "0 \<le> x \<Longrightarrow> x < 2 ^ 64 \<Longrightarrow> u64_of x = nat x"
  by (simp add: u64_of_def)

text \<open>Signed 64-bit subtraction; overflow is undefined in C++.\<close>

definition i64_sub :: "u64 \<Rightarrow> u64 \<Rightarrow> u64 res" where
  "i64_sub a b =
     (let d = sint a - sint b
      in if - (2 ^ 63) \<le> d \<and> d < 2 ^ 63 then ret (word_of_int d)
         else abort (Undefined ''signed overflow''))"

text \<open>\<open>std::abs\<close> on \<open>int64_t\<close>; \<open>abs(INT64_MIN)\<close> is undefined.\<close>

definition i64_abs :: "u64 \<Rightarrow> u64 res" where
  "i64_abs a =
     (if sint a = - (2 ^ 63) then abort (Undefined ''abs of INT64_MIN'')
      else ret (if sint a < 0 then - a else a))"

text \<open>A 32-bit load / store of a little-endian host.\<close>

fun le32_load :: "byte list \<Rightarrow> u32" where
  "le32_load (b0 # b1 # b2 # b3 # _) =
     ucast b0 OR push_bit 8 (ucast b1) OR push_bit 16 (ucast b2) OR push_bit 24 (ucast b3)"
| "le32_load _ = 0"

definition le32_store :: "u32 \<Rightarrow> byte list" where
  "le32_store w = [ucast w, ucast (drop_bit 8 w), ucast (drop_bit 16 w), ucast (drop_bit 24 w)]"

lemma length_le32_store [simp]: "length (le32_store w) = 4"
  by (simp add: le32_store_def)

lemma le32_load_store [simp]: "le32_load (le32_store w @ rest) = w"
proof (rule bit_word_eqI)
  fix n assume "n < LENGTH(32)"
  then consider "n < 8" | "8 \<le> n" "n < 16" | "16 \<le> n" "n < 24" | "24 \<le> n" "n < 32" by fastforce
  then show "bit (le32_load (le32_store w @ rest)) n = bit w n"
    by cases (auto simp: le32_store_def bit_simps)
qed

lemma le32_load_store' [simp]: "le32_load (le32_store w) = w"
  using le32_load_store [of w "[]"] by simp

end
