(* ===== verification/Program_Model.thy ===== *)
theory Program_Model
  imports Prelude
begin

text \<open>
  \<open>Program<Arch>\<close> of \<open>fuzzer/program.h\<close> and \<open>fuzzer/program.cc\<close>: the instruction sequence a
  mutator edits, with the direct branches kept as instruction boundaries and re-encoded into
  the bytes afterwards. The template parameter is a record \<open>arch\<close> of the constants and the
  three functions of \<open>fuzzer/program_arch.h\<close>. Byte offsets, the program length and byte
  displacements are 64-bit words, so their arithmetic wraps as in the source; vector indices
  are \<open>nat\<close>.
\<close>

section \<open>Data\<close>

definition kInvalidByteDisplacement :: u64 where
  "kInvalidByteDisplacement = 2 ^ 63 - 1"

definition kInvalidInstructionBoundary :: nat where
  "kInvalidInstructionBoundary = 2 ^ 64 - 1"

record displacement_info =
  encoded_byte_displacement :: u64
  instruction_boundary :: nat

definition no_displacement :: displacement_info where
  "no_displacement = \<lparr>encoded_byte_displacement = kInvalidByteDisplacement,
                      instruction_boundary = kInvalidInstructionBoundary\<rparr>"

definition valid :: "displacement_info \<Rightarrow> bool" where
  "valid d \<longleftrightarrow> encoded_byte_displacement d \<noteq> kInvalidByteDisplacement"

record insn_config =
  require_valid_encoding :: bool
  filter_insns :: bool
  displacement_fixup_limit :: u64

definition default_insn_config :: insn_config where
  "default_insn_config =
     \<lparr>require_valid_encoding = True, filter_insns = True, displacement_fixup_limit = - 1\<rparr>"

text \<open>The absolute value is taken on the unsigned value, so that \<open>INT64_MIN\<close> has one too.\<close>

definition DisplacementWithinFixupLimit :: "u64 \<Rightarrow> u64 \<Rightarrow> bool" where
  "DisplacementWithinFixupLimit displacement limit =
     ((if 0 \<le> sint displacement then displacement else - displacement) < limit)"

record insn =
  encoded :: "byte list"
  direct_branch :: displacement_info
  offset :: u64

text \<open>
  A default-constructed instruction. The source leaves \<open>offset\<close> uninitialised; every path
  writes it before it is read.
\<close>

definition empty_insn :: insn where
  "empty_insn = \<lparr>encoded = [], direct_branch = no_displacement, offset = 0\<rparr>"

text \<open>
  \<open>kInstructionInfo<Arch>\<close> and the functions of \<open>fuzzer/program_arch.h\<close>.
  \<open>insn_from_bytes config must_decode_everything bytes insn\<close> is \<open>InstructionFromBytes\<close> with
  the instruction it updates in place; \<open>reencode\<close> is
  \<open>TryToReencodeInstructionDisplacements\<close>; \<open>max_insns\<close> is \<open>max_size()\<close> of a
  \<open>std::vector<Instruction<Arch>>\<close>.
\<close>

record arch =
  min_size :: nat
  max_size :: nat
  buffer_size :: nat
  max_insns :: nat
  insn_from_bytes :: "insn_config \<Rightarrow> bool \<Rightarrow> byte list \<Rightarrow> insn \<Rightarrow> (bool \<times> insn) res"
  reencode :: "insn \<Rightarrow> (bool \<times> insn) res"

text \<open>\<open>InstructionData::Copy\<close>: the bytes must fit the inline buffer.\<close>

definition insn_data_copy :: "nat \<Rightarrow> byte list \<Rightarrow> byte list res" where
  "insn_data_copy buf bytes =
     rbind (check (length bytes \<le> buf) ''num_bytes <= sizeof(bytes_)'') (\<lambda>_. ret bytes)"

record program =
  instructions :: "insn list"
  byte_len :: u64
  encodings_may_be_invalid :: bool

definition empty_program :: program where
  "empty_program = \<lparr>instructions = [], byte_len = 0, encodings_may_be_invalid = False\<rparr>"

abbreviation NumInstructions :: "program \<Rightarrow> nat" where
  "NumInstructions p \<equiv> length (instructions p)"

definition NumInstructionBoundaries :: "program \<Rightarrow> nat" where
  "NumInstructionBoundaries p = Suc (NumInstructions p)"

section \<open>Random choices\<close>

definition RandomIndex :: "rng \<Rightarrow> nat \<Rightarrow> (nat \<times> rng) res" where
  "RandomIndex r n =
     rbind (check (0 < n) ''size > 0'') (\<lambda>_. ret (shd r mod n, stl r))"

definition RandomizeInstructionDisplacementBoundary ::
    "rng \<Rightarrow> displacement_info \<Rightarrow> nat \<Rightarrow> (displacement_info \<times> rng) res" where
  "RandomizeInstructionDisplacementBoundary r info num_boundaries =
     (if valid info
      then rbind (RandomIndex r num_boundaries)
             (\<lambda>(b, r'). ret (info\<lparr>instruction_boundary := b\<rparr>, r'))
      else ret (info, r))"

definition RandomizeInstructionDisplacementBoundaries ::
    "rng \<Rightarrow> insn \<Rightarrow> nat \<Rightarrow> (insn \<times> rng) res" where
  "RandomizeInstructionDisplacementBoundaries r i num_boundaries =
     (if valid (direct_branch i)
      then rbind (RandomizeInstructionDisplacementBoundary r (direct_branch i) num_boundaries)
             (\<lambda>(d, r'). ret (i\<lparr>direct_branch := d\<rparr>, r'))
      else ret (i, r))"

section \<open>Consistency and layout\<close>

definition insn_consistent :: "nat \<Rightarrow> insn \<Rightarrow> unit res" where
  "insn_consistent num_boundaries i =
     (let d = direct_branch i in
      if valid d
      then rbind (check (encoded_byte_displacement d \<noteq> kInvalidByteDisplacement)
                    ''encoded_byte_displacement != kInvalidByteDisplacement'') (\<lambda>_.
           rbind (check (instruction_boundary d \<noteq> kInvalidInstructionBoundary)
                    ''instruction_boundary != kInvalidInstructionBoundary'') (\<lambda>_.
           check (instruction_boundary d < num_boundaries)
                    ''instruction_boundary < NumInstructionBoundaries()''))
      else rbind (check (encoded_byte_displacement d = kInvalidByteDisplacement)
                    ''encoded_byte_displacement == kInvalidByteDisplacement'') (\<lambda>_.
           check (instruction_boundary d = kInvalidInstructionBoundary)
                    ''instruction_boundary == kInvalidInstructionBoundary''))"

definition check_step :: "program \<Rightarrow> nat \<Rightarrow> u64 \<Rightarrow> u64 res" where
  "check_step p k actual_len =
     rbind (insn_consistent (NumInstructionBoundaries p) (instructions p ! k))
       (\<lambda>_. ret (actual_len + of_nat (length (encoded (instructions p ! k)))))"

definition CheckConsistency :: "program \<Rightarrow> unit res" where
  "CheckConsistency p =
     rbind (for_range (check_step p) 0 (NumInstructions p) 0)
       (\<lambda>actual_len. check (byte_len p = actual_len) ''byte_len_ == actual_len'')"

fun lay_out :: "u64 \<Rightarrow> insn list \<Rightarrow> insn list \<times> u64" where
  "lay_out off [] = ([], off)"
| "lay_out off (i # is) =
     (let (is', end) = lay_out (off + of_nat (length (encoded i))) is
      in (i\<lparr>offset := off\<rparr> # is', end))"

definition FixupInvariants :: "program \<Rightarrow> program" where
  "FixupInvariants p =
     (let (is, end) = lay_out 0 (instructions p) in p\<lparr>instructions := is, byte_len := end\<rparr>)"

text \<open>\<open>instructions_.back()\<close> of an empty vector is undefined.\<close>

definition InstructionBoundaryToProgramByteOffset :: "program \<Rightarrow> nat \<Rightarrow> u64 res" where
  "InstructionBoundaryToProgramByteOffset p boundary =
     rbind (check (boundary < NumInstructionBoundaries p) ''boundary < NumInstructionBoundaries()'')
       (\<lambda>_. if boundary < NumInstructions p then ret (offset (instructions p ! boundary))
            else if instructions p = [] then abort (Undefined ''back() of an empty vector'')
            else let i = last (instructions p) in ret (offset i + of_nat (length (encoded i))))"

definition FindClosestInstructionBoundary :: "program \<Rightarrow> u64 \<Rightarrow> nat res" where
  "FindClosestInstructionBoundary p program_offset =
     rbind (for_range (\<lambda>i (closest_boundary, smallest_diff).
              rbind (InstructionBoundaryToProgramByteOffset p i) (\<lambda>boundary_offset.
              rbind (i64_sub boundary_offset program_offset) (\<lambda>d.
              rbind (i64_abs d) (\<lambda>diff.
              ret (if sint diff < sint smallest_diff then (i, diff)
                   else (closest_boundary, smallest_diff))))))
            0 (NumInstructionBoundaries p) (kInvalidInstructionBoundary, 2 ^ 63 - 1 :: u64))
       (\<lambda>(closest_boundary, smallest_diff). ret closest_boundary)"

definition set_insn :: "nat \<Rightarrow> insn \<Rightarrow> program \<Rightarrow> program" where
  "set_insn k i p = p\<lparr>instructions := (instructions p)[k := i]\<rparr>"

definition resolve_one :: "bool \<Rightarrow> nat \<Rightarrow> program \<Rightarrow> program res" where
  "resolve_one strict k p =
     (let i = instructions p ! k; d = direct_branch i in
      if valid d \<and> instruction_boundary d = kInvalidInstructionBoundary
      then let program_offset = offset i + encoded_byte_displacement d in
           rbind (FindClosestInstructionBoundary p program_offset) (\<lambda>boundary.
           rbind (if strict
                  then rbind (InstructionBoundaryToProgramByteOffset p boundary)
                         (\<lambda>o'. check (o' = program_offset) ''strict displacement'')
                  else ret ()) (\<lambda>_.
           ret (set_insn k (i\<lparr>direct_branch := d\<lparr>instruction_boundary := boundary\<rparr>\<rparr>) p)))
      else ret p)"

definition ResolveDisplacements :: "bool \<Rightarrow> program \<Rightarrow> program res" where
  "ResolveDisplacements strict p = for_range (resolve_one strict) 0 (NumInstructions p) p"

section \<open>Re-encoding the branches\<close>

text \<open>
  \<open>SyncByteDisplacement\<close> returns whether the displacement of instruction \<open>k\<close> changed.
\<close>

definition SyncByteDisplacement ::
    "program \<Rightarrow> insn \<Rightarrow> displacement_info \<Rightarrow> (bool \<times> displacement_info) res" where
  "SyncByteDisplacement p i info =
     (if \<not> valid info then ret (False, info)
      else rbind (InstructionBoundaryToProgramByteOffset p (instruction_boundary info)) (\<lambda>target.
           let target_displacement = target - offset i in
           if target_displacement = encoded_byte_displacement info then ret (False, info)
           else ret (True, info\<lparr>encoded_byte_displacement := target_displacement\<rparr>)))"

definition SyncByteDisplacements :: "nat \<Rightarrow> program \<Rightarrow> (bool \<times> program) res" where
  "SyncByteDisplacements k p =
     (let i = instructions p ! k in
      rbind (SyncByteDisplacement p i (direct_branch i)) (\<lambda>(changed, d).
      ret (changed, set_insn k (i\<lparr>direct_branch := d\<rparr>) p)))"

text \<open>
  \<open>while (!TryToReencodeInstructionDisplacements(insn)) { randomize; sync; }\<close>. Nothing in
  the source bounds the number of rounds.
\<close>

definition reencode_round ::
    "arch \<Rightarrow> nat \<Rightarrow> program \<times> rng \<Rightarrow> (program \<times> rng, program \<times> rng) iter res" where
  "reencode_round A k = (\<lambda>(p, r).
     rbind (reencode A (instructions p ! k)) (\<lambda>(ok, i).
     let p = set_insn k i p in
     if ok then ret (Break (p, r))
     else rbind (RandomizeInstructionDisplacementBoundaries r i (NumInstructionBoundaries p))
            (\<lambda>(i', r').
          rbind (SyncByteDisplacements k (set_insn k i' p)) (\<lambda>(_, p').
          ret (Continue (p', r'))))))"

definition reencode_loop :: "arch \<Rightarrow> nat \<Rightarrow> program \<times> rng \<Rightarrow> (program \<times> rng) res" where
  "reencode_loop A k = rloop (reencode_round A k)"

record fixup_state =
  fx_program :: program
  fx_rng :: rng
  fx_offset :: u64
  fx_stable :: bool
  fx_modified :: bool

definition fixup_insn :: "arch \<Rightarrow> nat \<Rightarrow> fixup_state \<Rightarrow> fixup_state res" where
  "fixup_insn A k s =
     (let p = fx_program s; i = instructions p ! k;
          stable = (fx_stable s \<and> offset i = fx_offset s);
          p = set_insn k (i\<lparr>offset := fx_offset s\<rparr>) p in
      rbind (SyncByteDisplacements k p) (\<lambda>(changed, p).
      rbind (if changed then reencode_loop A k (p, fx_rng s) else ret (p, fx_rng s)) (\<lambda>(p, r).
      ret \<lparr>fx_program = p, fx_rng = r,
           fx_offset = fx_offset s + of_nat (length (encoded (instructions p ! k))),
           fx_stable = stable, fx_modified = (fx_modified s \<or> changed)\<rparr>)))"

text \<open>
  The outer \<open>while (!stable)\<close> loop, with the rounds its \<open>CHECK_LE(iteration,
  NumInstructions())\<close> leaves: the loop starts with \<open>NumInstructions() + 1\<close> of them.
\<close>

fun fixup_rounds :: "arch \<Rightarrow> nat \<Rightarrow> program \<Rightarrow> rng \<Rightarrow> bool \<Rightarrow> (bool \<times> program \<times> rng) res" where
  "fixup_rounds A 0 p r modified = abort (Check_failed ''iteration <= NumInstructions()'')"
| "fixup_rounds A (Suc left) p r modified =
     rbind (for_range (fixup_insn A) 0 (NumInstructions p)
              \<lparr>fx_program = p, fx_rng = r, fx_offset = 0, fx_stable = True,
               fx_modified = modified\<rparr>) (\<lambda>s.
     let stable = (fx_stable s \<and> byte_len (fx_program s) = fx_offset s);
         p' = (fx_program s)\<lparr>byte_len := fx_offset s\<rparr> in
     if stable then ret (fx_modified s, p', fx_rng s)
     else fixup_rounds A left p' (fx_rng s) (fx_modified s))"

definition FixupEncodedDisplacements ::
    "arch \<Rightarrow> rng \<Rightarrow> program \<Rightarrow> (bool \<times> program \<times> rng) res" where
  "FixupEncodedDisplacements A r p =
     (let p = FixupInvariants p in
      rbind (fixup_rounds A (Suc (NumInstructions p)) p r False) (\<lambda>(modified, p, r).
      ret (modified, p\<lparr>encodings_may_be_invalid := False\<rparr>, r)))"

section \<open>Disassembling a byte sequence\<close>

text \<open>One round of the loop of the constructor, on the bytes that are left.\<close>

definition parse_round ::
    "arch \<Rightarrow> insn_config \<Rightarrow> bool \<Rightarrow> byte list \<times> u64 \<times> insn list
       \<Rightarrow> (insn list, byte list \<times> u64 \<times> insn list) iter res" where
  "parse_round A config strict = (\<lambda>(bytes, off, acc).
     if bytes = [] then ret (Break acc)
     else rbind (insn_from_bytes A config False bytes empty_insn) (\<lambda>(ok, i).
       if ok then
         (if length acc < max_insns A
          then ret (Continue (drop (length (encoded i)) bytes,
                              off + of_nat (length (encoded i)), acc @ [i\<lparr>offset := off\<rparr>]))
          else abort Length_error)
       else if strict then abort (Check_failed ''!strict'')
       else (let n = (if encoded i = [] then min_size A else length (encoded i)) in
             ret (Continue (drop n bytes, off + of_nat n, acc)))))"

definition parse_insns :: "arch \<Rightarrow> insn_config \<Rightarrow> bool \<Rightarrow> byte list \<Rightarrow> insn list res" where
  "parse_insns A config strict bytes = rloop (parse_round A config strict) (bytes, 0, [])"

definition program_from_bytes :: "arch \<Rightarrow> insn_config \<Rightarrow> bool \<Rightarrow> byte list \<Rightarrow> program res" where
  "program_from_bytes A config strict bytes =
     rbind (parse_insns A config strict bytes) (\<lambda>is.
     rbind (ResolveDisplacements strict
              \<lparr>instructions = is, byte_len = 0, encodings_may_be_invalid = True\<rparr>) (\<lambda>p.
     ret (FixupInvariants p)))"

section \<open>Editing\<close>

definition CopyInstructionBlock :: "program \<Rightarrow> nat \<Rightarrow> nat \<Rightarrow> insn list res" where
  "CopyInstructionBlock p index n =
     rbind (check (index + n \<le> NumInstructions p) ''index + size <= instructions_.size()'')
       (\<lambda>_. ret (take n (drop index (instructions p))))"

definition SetInstructionBlock :: "nat \<Rightarrow> insn list \<Rightarrow> program \<Rightarrow> program res" where
  "SetInstructionBlock index is p =
     rbind (check (index + length is \<le> NumInstructions p) ''index + insns.size() <= NumInstructions()'')
       (\<lambda>_. rbind (for_range (\<lambda>k p.
               ret (p\<lparr>byte_len := byte_len p - of_nat (length (encoded (instructions p ! (index + k))))
                                  + of_nat (length (encoded (is ! k))),
                      instructions := (instructions p)[index + k := is ! k]\<rparr>))
             0 (length is) p) (\<lambda>p. ret (p\<lparr>encodings_may_be_invalid := True\<rparr>)))"

definition SetInstruction :: "nat \<Rightarrow> insn \<Rightarrow> program \<Rightarrow> program res" where
  "SetInstruction index i = SetInstructionBlock index [i]"

definition adjust_insn :: "nat \<Rightarrow> int \<Rightarrow> insn \<Rightarrow> insn" where
  "adjust_insn boundary amount i =
     (let d = direct_branch i in
      if valid d \<and> boundary \<le> instruction_boundary d
      then i\<lparr>direct_branch := d\<lparr>instruction_boundary :=
                                  u64_of (int (instruction_boundary d) + amount)\<rparr>\<rparr>
      else i)"

definition AdjustInstructionIndexes :: "nat \<Rightarrow> int \<Rightarrow> program \<Rightarrow> program res" where
  "AdjustInstructionIndexes boundary amount p =
     rbind (check (boundary \<le> NumInstructionBoundaries p) ''boundary <= NumInstructionBoundaries()'')
       (\<lambda>_. ret (p\<lparr>instructions := map (adjust_insn boundary amount) (instructions p)\<rparr>))"

definition InsertInstructionBlock ::
    "arch \<Rightarrow> nat \<Rightarrow> bool \<Rightarrow> insn list \<Rightarrow> program \<Rightarrow> program res" where
  "InsertInstructionBlock A boundary steal_displacements is p =
     rbind (check (boundary < NumInstructionBoundaries p) ''boundary < NumInstructionBoundaries()'')
       (\<lambda>_. let adjusted_offset = (if steal_displacements then boundary + 1 else boundary) in
     rbind (AdjustInstructionIndexes adjusted_offset (int (length is)) p) (\<lambda>p.
     if max_insns A < NumInstructions p + length is then abort Length_error
     else ret (FixupInvariants
            (p\<lparr>byte_len := byte_len p + (\<Sum>i\<leftarrow>is. of_nat (length (encoded i))),
               instructions := take boundary (instructions p) @ is @ drop boundary (instructions p),
               encodings_may_be_invalid := True\<rparr>))))"

definition InsertInstruction :: "arch \<Rightarrow> nat \<Rightarrow> bool \<Rightarrow> insn \<Rightarrow> program \<Rightarrow> program res" where
  "InsertInstruction A boundary steal_displacements i =
     InsertInstructionBlock A boundary steal_displacements [i]"

definition RemoveInstruction :: "nat \<Rightarrow> program \<Rightarrow> program res" where
  "RemoveInstruction index p =
     rbind (check (index < NumInstructions p) ''index < NumInstructions()'') (\<lambda>_.
     rbind (AdjustInstructionIndexes (index + 1) (- 1) p) (\<lambda>p.
     ret (FixupInvariants
            (p\<lparr>byte_len := byte_len p - of_nat (length (encoded (instructions p ! index))),
               instructions := take index (instructions p) @ drop (Suc index) (instructions p),
               encodings_may_be_invalid := True\<rparr>))))"

section \<open>Output\<close>

definition ToBytes :: "program \<Rightarrow> byte list res" where
  "ToBytes p =
     rbind (check (\<not> encodings_may_be_invalid p) ''!encodings_may_be_invalid'') (\<lambda>_.
     for_range (\<lambda>k output. let i = instructions p ! k in
         rbind (check (offset i = of_nat (length output)) ''insn.offset == output.size()'')
           (\<lambda>_. ret (output @ encoded i)))
       0 (NumInstructions p) [])"

definition RandomInstructionIndex :: "rng \<Rightarrow> program \<Rightarrow> (nat \<times> rng) res" where
  "RandomInstructionIndex r p = RandomIndex r (NumInstructions p)"

definition RandomInstructionBoundary :: "rng \<Rightarrow> program \<Rightarrow> (nat \<times> rng) res" where
  "RandomInstructionBoundary r p = RandomIndex r (NumInstructionBoundaries p)"

end
