(* ===== verification/Program_Invariant.thy ===== *)
theory Program_Invariant
  imports Program_Model
begin

text \<open>
  The invariant of \<open>Program<Arch>\<close>, its preservation by every operation, and the interface
  (a locale) of the architecture functions the program relies on.
\<close>

section \<open>The invariant\<close>

definition branch_ok :: "nat \<Rightarrow> insn \<Rightarrow> bool" where
  "branch_ok num_boundaries i =
     (if valid (direct_branch i)
      then instruction_boundary (direct_branch i) \<noteq> kInvalidInstructionBoundary \<and>
           instruction_boundary (direct_branch i) < num_boundaries
      else instruction_boundary (direct_branch i) = kInvalidInstructionBoundary)"

definition total_len :: "insn list \<Rightarrow> u64" where
  "total_len is = (\<Sum>i\<leftarrow>is. of_nat (length (encoded i)))"

definition program_ok :: "program \<Rightarrow> bool" where
  "program_ok p \<longleftrightarrow>
     (\<forall>i \<in> set (instructions p). branch_ok (NumInstructionBoundaries p) i) \<and>
     byte_len p = total_len (instructions p)"

lemma total_len_simps [simp]:
  "total_len [] = 0"
  "total_len (i # is) = of_nat (length (encoded i)) + total_len is"
  "total_len (is @ js) = total_len is + total_len js"
  by (simp_all add: total_len_def)

lemma total_len_of_nat: "total_len is = of_nat (\<Sum>i\<leftarrow>is. length (encoded i))"
  by (induction "is") auto

lemma total_len_cong: "map encoded is = map encoded js \<Longrightarrow> total_len is = total_len js"
proof -
  assume "map encoded is = map encoded js"
  then have "map (of_nat \<circ> length) (map encoded is) = (map (of_nat \<circ> length) (map encoded js) :: u64 list)"
    by simp
  then show ?thesis by (simp add: total_len_def comp_def)
qed

lemma total_len_list_update:
  assumes "k < length is"
  shows "total_len (is[k := j]) =
           total_len is - of_nat (length (encoded (is ! k))) + of_nat (length (encoded j))"
proof -
  have "total_len is = total_len (take k is @ is ! k # drop (Suc k) is)"
    using assms by (simp add: id_take_nth_drop [symmetric])
  then show ?thesis using assms by (simp add: upd_conv_take_nth_drop)
qed

lemma total_len_remove:
  assumes "k < length is"
  shows "total_len (take k is @ drop (Suc k) is) = total_len is - of_nat (length (encoded (is ! k)))"
proof -
  have "total_len is = total_len (take k is @ is ! k # drop (Suc k) is)"
    using assms by (simp add: id_take_nth_drop [symmetric])
  then show ?thesis by simp
qed

lemma NumInstructionBoundaries_update [simp]:
  "NumInstructionBoundaries (p\<lparr>byte_len := l\<rparr>) = NumInstructionBoundaries p"
  "NumInstructionBoundaries (p\<lparr>encodings_may_be_invalid := e\<rparr>) = NumInstructionBoundaries p"
  by (simp_all add: NumInstructionBoundaries_def)

lemma program_ok_flag [simp]: "program_ok (p\<lparr>encodings_may_be_invalid := b\<rparr>) = program_ok p"
  by (simp add: program_ok_def)

section \<open>The consistency check\<close>

lemma insn_consistent_iff: "insn_consistent n i = ret () \<longleftrightarrow> branch_ok n i"
  by (auto simp: insn_consistent_def branch_ok_def valid_def Let_def rbind_eq_ret check_def)

lemma check_step_iff:
  "check_step p k a = ret b \<longleftrightarrow>
     branch_ok (NumInstructionBoundaries p) (instructions p ! k) \<and>
     b = a + of_nat (length (encoded (instructions p ! k)))"
  by (auto simp: check_step_def rbind_eq_ret insn_consistent_iff)

lemma CheckConsistency_loop:
  "k + n \<le> NumInstructions p \<Longrightarrow> for_range (check_step p) k n a = ret b \<longleftrightarrow>
   (\<forall>i \<in> set (take n (drop k (instructions p))). branch_ok (NumInstructionBoundaries p) i) \<and>
   b = a + total_len (take n (drop k (instructions p)))"
proof (induction n arbitrary: k a)
  case (Suc n)
  have "take (Suc n) (drop k (instructions p)) =
          instructions p ! k # take n (drop (Suc k) (instructions p))"
    using Suc.prems by (metis Cons_nth_drop_Suc Suc_le_lessD add_leD1 add_Suc_right le_add1
        le_trans not_less_eq_eq take_Suc_Cons)
  then show ?case
    using Suc.prems by (auto simp: rbind_eq_ret check_step_iff Suc.IH algebra_simps)
qed auto

lemma CheckConsistency_iff: "CheckConsistency p = ret () \<longleftrightarrow> program_ok p"
  by (auto simp: CheckConsistency_def rbind_eq_ret CheckConsistency_loop program_ok_def check_def)

section \<open>Layout\<close>

lemma lay_out_Cons [simp]:
  "lay_out off (i # is) =
     (i\<lparr>offset := off\<rparr> # fst (lay_out (off + of_nat (length (encoded i))) is),
      snd (lay_out (off + of_nat (length (encoded i))) is))"
  by (simp add: case_prod_unfold Let_def)

declare lay_out.simps(2) [simp del]

lemma lay_out_map [simp]:
  "map encoded (fst (lay_out off is)) = map encoded is"
  "map direct_branch (fst (lay_out off is)) = map direct_branch is"
  by (induction "is" arbitrary: off) auto

lemma lay_out_length [simp]: "length (fst (lay_out off is)) = length is"
  by (induction "is" arbitrary: off) auto

lemma lay_out_end: "snd (lay_out off is) = off + total_len is"
  by (induction "is" arbitrary: off) (auto simp: algebra_simps)

lemma lay_out_nth:
  "k < length is \<Longrightarrow> fst (lay_out off is) ! k = (is ! k)\<lparr>offset := off + total_len (take k is)\<rparr>"
proof (induction "is" arbitrary: off k)
  case (Cons i "is")
  then show ?case by (cases k) (auto simp: algebra_simps)
qed simp

lemma lay_out_idem: "fst (lay_out off (fst (lay_out off is))) = fst (lay_out off is)"
  by (induction "is" arbitrary: off) auto

definition laid_out :: "program \<Rightarrow> bool" where
  "laid_out p \<longleftrightarrow> (\<forall>k < NumInstructions p.
       offset (instructions p ! k) = total_len (take k (instructions p)))"

lemma FixupInvariants_fields [simp]:
  "map encoded (instructions (FixupInvariants p)) = map encoded (instructions p)"
  "map direct_branch (instructions (FixupInvariants p)) = map direct_branch (instructions p)"
  "length (instructions (FixupInvariants p)) = length (instructions p)"
  "encodings_may_be_invalid (FixupInvariants p) = encodings_may_be_invalid p"
  "NumInstructionBoundaries (FixupInvariants p) = NumInstructionBoundaries p"
  "byte_len (FixupInvariants p) = total_len (instructions p)"
  by (auto simp: FixupInvariants_def Let_def case_prod_unfold lay_out_end NumInstructionBoundaries_def)

lemma FixupInvariants_nth:
  "k < NumInstructions p \<Longrightarrow>
   instructions (FixupInvariants p) ! k =
     (instructions p ! k)\<lparr>offset := total_len (take k (instructions p))\<rparr>"
  by (simp add: FixupInvariants_def Let_def case_prod_unfold lay_out_nth)

lemma laid_out_FixupInvariants: "laid_out (FixupInvariants p)"
proof -
  have "total_len (take k (instructions (FixupInvariants p))) = total_len (take k (instructions p))" for k
    by (rule total_len_cong) (simp add: take_map [symmetric])
  then show ?thesis by (simp add: laid_out_def FixupInvariants_nth)
qed

lemma branch_ok_cong: "direct_branch i = direct_branch j \<Longrightarrow> branch_ok n i = branch_ok n j"
  by (simp add: branch_ok_def)

lemma program_ok_FixupInvariants:
  assumes "\<forall>i \<in> set (instructions p). branch_ok (NumInstructionBoundaries p) i"
  shows "program_ok (FixupInvariants p)"
proof -
  have "total_len (instructions (FixupInvariants p)) = total_len (instructions p)"
    by (rule total_len_cong) simp
  moreover have "branch_ok (NumInstructionBoundaries p) (instructions (FixupInvariants p) ! k)"
    if "k < NumInstructions p" for k
    using assms that by (simp add: FixupInvariants_nth branch_ok_def)
  ultimately show ?thesis
    by (simp add: program_ok_def all_set_conv_all_nth)
qed

section \<open>Editing keeps the program consistent\<close>

lemma branch_ok_mono: "branch_ok n i \<Longrightarrow> n \<le> m \<Longrightarrow> branch_ok m i"
  by (auto simp: branch_ok_def split: if_splits)

lemma SetInstructionBlock_loop:
  assumes "index + length is \<le> NumInstructions p"
  shows "for_range (\<lambda>k p.
            ret (p\<lparr>byte_len := byte_len p - of_nat (length (encoded (instructions p ! (index + k))))
                               + of_nat (length (encoded (is ! k))),
                   instructions := (instructions p)[index + k := is ! k]\<rparr>)) 0 (length is) p
         = ret (p\<lparr>byte_len := byte_len p - total_len (take (length is) (drop index (instructions p)))
                                + total_len is,
                  instructions := take index (instructions p) @ is @
                                  drop (index + length is) (instructions p)\<rparr>)"
  (is "for_range ?f 0 (length is) p = _")
proof -
  let ?st = "\<lambda>k. p\<lparr>byte_len := byte_len p - total_len (take k (drop index (instructions p)))
                       + total_len (take k is),
                    instructions := take index (instructions p) @ take k is @
                                    drop (index + k) (instructions p)\<rparr>"
  have "k + n = length is \<Longrightarrow> for_range ?f k n (?st k) = ret (?st (length is))" for k n
  proof (induction n arbitrary: k)
    case (Suc n)
    have k: "k < length is" "index + k < NumInstructions p" using Suc.prems assms by auto
    have nth: "instructions (?st k) ! (index + k) = instructions p ! (index + k)"
      using k by (simp add: nth_append min_def)
    have tk: "take (Suc k) is = take k is @ [is ! k]"
      "take (Suc k) (drop index (instructions p)) =
         take k (drop index (instructions p)) @ [instructions p ! (index + k)]"
      "drop (index + k) (instructions p) = instructions p ! (index + k) # drop (Suc (index + k)) (instructions p)"
      using k by (simp_all add: take_Suc_conv_app_nth Cons_nth_drop_Suc)
    have "?f k (?st k) = ret (?st (Suc k))"
      unfolding nth using k by (simp add: tk list_update_append)
    then show ?case using Suc.IH [of "Suc k"] Suc.prems by simp
  qed simp
  from this [of 0 "length is"] show ?thesis by simp
qed

lemma SetInstructionBlock_eq:
  "index + length is \<le> NumInstructions p \<Longrightarrow>
   SetInstructionBlock index is p =
     ret (p\<lparr>byte_len := byte_len p - total_len (take (length is) (drop index (instructions p)))
                          + total_len is,
            instructions := take index (instructions p) @ is @
                            drop (index + length is) (instructions p),
            encodings_may_be_invalid := True\<rparr>)"
  using SetInstructionBlock_loop [of index "is" p] by (simp add: SetInstructionBlock_def)

lemma SetInstructionBlock_ok:
  assumes "program_ok p" "index + length is \<le> NumInstructions p"
    and "\<forall>i \<in> set is. branch_ok (NumInstructionBoundaries p) i"
  shows "returns program_ok (SetInstructionBlock index is p)"
proof -
  let ?xs = "instructions p"
  have "?xs = take index ?xs @ take (length is) (drop index ?xs) @ drop (index + length is) ?xs"
    by (metis append_take_drop_id drop_drop add.commute)
  then have "total_len ?xs = total_len (take index ?xs) + total_len (take (length is) (drop index ?xs))
                             + total_len (drop (index + length is) ?xs)"
    by (metis total_len_simps(3) add.assoc)
  with assms show ?thesis
    by (auto simp: SetInstructionBlock_eq program_ok_def NumInstructionBoundaries_def
             dest: in_set_takeD in_set_dropD)
qed

lemma encoded_adjust_insn [simp]: "encoded (adjust_insn b a i) = encoded i"
  by (simp add: adjust_insn_def Let_def)

lemma valid_adjust_insn [simp]: "valid (direct_branch (adjust_insn b a i)) = valid (direct_branch i)"
  by (simp add: adjust_insn_def Let_def valid_def)

lemma map_encoded_adjust [simp]: "map (encoded \<circ> adjust_insn b a) is = map encoded is"
  by simp

lemma total_len_map_adjust [simp]: "total_len (map (adjust_insn b a) is) = total_len is"
  by (rule total_len_cong) simp

lemma branch_ok_adjust_insert:
  assumes "branch_ok n i" "n + m < 2 ^ 64"
  shows "branch_ok (n + m) (adjust_insn b (int m) i)"
  using assms
  by (auto simp: branch_ok_def adjust_insn_def Let_def u64_of_def kInvalidInstructionBoundary_def
        valid_def nat_add_distrib split: if_splits)

lemma branch_ok_adjust_remove:
  assumes "branch_ok (Suc n) i" "b \<le> n" "0 < b" "Suc n < 2 ^ 64"
  shows "branch_ok n (adjust_insn b (- 1) i)"
  using assms
  by (auto simp: branch_ok_def adjust_insn_def Let_def u64_of_def kInvalidInstructionBoundary_def
        valid_def split: if_splits)


lemma AdjustInstructionIndexes_eq:
  "b \<le> NumInstructionBoundaries p \<Longrightarrow>
   AdjustInstructionIndexes b a p = ret (p\<lparr>instructions := map (adjust_insn b a) (instructions p)\<rparr>)"
  by (simp add: AdjustInstructionIndexes_def)

text \<open>What the two editing operations build, once their checks have passed.\<close>

definition inserted :: "nat \<Rightarrow> bool \<Rightarrow> insn list \<Rightarrow> program \<Rightarrow> insn list" where
  "inserted boundary steal is p =
     (let js = map (adjust_insn (if steal then boundary + 1 else boundary) (int (length is)))
                 (instructions p)
      in take boundary js @ is @ drop boundary js)"

definition removed :: "nat \<Rightarrow> program \<Rightarrow> insn list" where
  "removed index p =
     (let js = map (adjust_insn (index + 1) (- 1)) (instructions p)
      in take index js @ drop (Suc index) js)"

lemma InsertInstructionBlock_eq:
  assumes "boundary < NumInstructionBoundaries p"
  shows "InsertInstructionBlock A boundary steal is p =
    (if max_insns A < NumInstructions p + length is then abort Length_error
     else ret (FixupInvariants (p\<lparr>byte_len := byte_len p + total_len is,
                 instructions := inserted boundary steal is p, encodings_may_be_invalid := True\<rparr>)))"
proof -
  have "(if steal then boundary + 1 else boundary) \<le> NumInstructionBoundaries p"
    using assms by simp
  then show ?thesis
    using assms
    by (simp add: InsertInstructionBlock_def AdjustInstructionIndexes_eq inserted_def Let_def
          total_len_def)
qed

lemma RemoveInstruction_eq:
  assumes "index < NumInstructions p"
  shows "RemoveInstruction index p =
     ret (FixupInvariants (p\<lparr>byte_len := byte_len p - of_nat (length (encoded (instructions p ! index))),
            instructions := removed index p, encodings_may_be_invalid := True\<rparr>))"
proof -
  have "index + 1 \<le> NumInstructionBoundaries p"
    using assms by (simp add: NumInstructionBoundaries_def)
  then show ?thesis
    using assms by (simp add: RemoveInstruction_def AdjustInstructionIndexes_eq removed_def Let_def)
qed

lemma length_inserted: "boundary \<le> NumInstructions p \<Longrightarrow>
    length (inserted boundary steal is p) = NumInstructions p + length is"
  by (simp add: inserted_def Let_def)

lemma length_removed: "index < NumInstructions p \<Longrightarrow> length (removed index p) = NumInstructions p - 1"
  by (simp add: removed_def Let_def)

lemma set_inserted: "set (inserted boundary steal is p) =
    set is \<union> adjust_insn (if steal then boundary + 1 else boundary) (int (length is)) ` set (instructions p)"
proof -
  have "set (take b js @ is @ drop b js) = set is \<union> set js" for b :: nat and js :: "insn list"
    by (metis (no_types) Un_left_commute append_take_drop_id set_append)
  then show ?thesis by (simp add: inserted_def Let_def)
qed

lemma set_removed: "set (removed index p) \<subseteq> adjust_insn (index + 1) (- 1) ` set (instructions p)"
  by (auto simp: removed_def Let_def take_map drop_map dest: in_set_takeD in_set_dropD)

lemma InsertInstructionBlock_ok:
  assumes p: "program_ok p" and b: "boundary < NumInstructionBoundaries p"
    and "is": "\<forall>i \<in> set is. branch_ok (NumInstructionBoundaries p + length is) i"
    and A: "max_insns A < 2 ^ 63"
  shows "safe program_ok (InsertInstructionBlock A boundary steal is p)"
proof (cases "max_insns A < NumInstructions p + length is")
  case False
  let ?q = "p\<lparr>byte_len := byte_len p + total_len is, instructions := inserted boundary steal is p,
              encodings_may_be_invalid := True\<rparr>"
  have n: "NumInstructionBoundaries ?q = NumInstructionBoundaries p + length is"
    using b by (simp add: NumInstructionBoundaries_def length_inserted)
  have "NumInstructionBoundaries p + length is < 2 ^ 64"
    using False A by (simp add: NumInstructionBoundaries_def)
  then have "\<forall>i \<in> set (instructions ?q). branch_ok (NumInstructionBoundaries ?q) i"
    using p "is" unfolding n
    by (auto simp: set_inserted program_ok_def intro: branch_ok_adjust_insert)
  then show ?thesis
    using False b by (simp add: InsertInstructionBlock_eq program_ok_FixupInvariants)
qed (use b in \<open>simp add: InsertInstructionBlock_eq\<close>)

lemma RemoveInstruction_ok:
  assumes p: "program_ok p" and b: "index < NumInstructions p" and n: "NumInstructions p < 2 ^ 63"
  shows "returns (\<lambda>q. program_ok q \<and> Suc (NumInstructions q) = NumInstructions p)
           (RemoveInstruction index p)"
proof -
  let ?q = "p\<lparr>byte_len := byte_len p - of_nat (length (encoded (instructions p ! index))),
              instructions := removed index p, encodings_may_be_invalid := True\<rparr>"
  have q: "NumInstructionBoundaries ?q = NumInstructions p" "Suc (NumInstructions ?q) = NumInstructions p"
    using b by (simp_all add: NumInstructionBoundaries_def length_removed)
  have "\<forall>i \<in> set (instructions ?q). branch_ok (NumInstructionBoundaries ?q) i"
    unfolding q
  proof
    fix i assume "i \<in> set (instructions ?q)"
    then obtain j where j: "j \<in> set (instructions p)" "i = adjust_insn (index + 1) (- 1) j"
      using set_removed by fastforce
    with p have "branch_ok (Suc (NumInstructions p)) j"
      by (simp add: program_ok_def NumInstructionBoundaries_def)
    then show "branch_ok (NumInstructions p) i"
      using j b n by (auto intro: branch_ok_adjust_remove)
  qed
  then have "program_ok (FixupInvariants ?q)" by (rule program_ok_FixupInvariants)
  then show ?thesis
    using b q(2) by (simp add: RemoveInstruction_eq)
qed

section \<open>The bytes of a program\<close>

lemma ToBytes_loop:
  assumes "laid_out p" and "k + n = NumInstructions p"
    and "of_nat (length out) = total_len (take k (instructions p))"
  shows "for_range (\<lambda>k output. let i = instructions p ! k in
           rbind (check (offset i = of_nat (length output)) ''insn.offset == output.size()'')
             (\<lambda>_. ret (output @ encoded i))) k n out
         = ret (out @ concat (map encoded (drop k (instructions p))))"
  using assms(2,3)
proof (induction n arbitrary: k out)
  case (Suc n)
  then have k: "k < NumInstructions p" by simp
  have "of_nat (length (out @ encoded (instructions p ! k))) = total_len (take (Suc k) (instructions p))"
    using Suc.prems k by (simp add: take_Suc_conv_app_nth)
  moreover have "offset (instructions p ! k) = of_nat (length out)"
    using assms(1) k Suc.prems by (simp add: laid_out_def)
  moreover have "drop k (instructions p) = instructions p ! k # drop (Suc k) (instructions p)"
    using k by (simp add: Cons_nth_drop_Suc)
  ultimately show ?case
    using Suc.IH [of "Suc k" "out @ encoded (instructions p ! k)"] Suc.prems
    by (simp add: Let_def)
qed simp

lemma ToBytes_eq:
  assumes "laid_out p" "\<not> encodings_may_be_invalid p"
  shows "ToBytes p = ret (concat (map encoded (instructions p)))"
  using ToBytes_loop [OF assms(1), of 0 "NumInstructions p" "[]"] assms(2)
  by (simp add: ToBytes_def)

end
