(* ===== verification/Arch_Laws.thy ===== *)
theory Arch_Laws
  imports Program_Invariant
begin

text \<open>
  The interface between \<open>Program<Arch>\<close> and its architecture: what the functions of
  \<open>fuzzer/program_arch.h\<close> promise, and what the program does on top of these promises:
  disassembling is safe, re-encoding the branches of a fixed-width architecture makes every
  branch jump to its boundary, and a strictly parsed program is written back unchanged.
\<close>

section \<open>The program invariant relative to an architecture\<close>

text \<open>
  \<open>disp bytes\<close> is the displacement the bytes of a branch encode. An instruction is in sync
  when its bytes encode the displacement recorded beside them.
\<close>

definition in_sync :: "(byte list \<Rightarrow> u64 option) \<Rightarrow> insn \<Rightarrow> bool" where
  "in_sync disp i \<longleftrightarrow>
     (valid (direct_branch i) \<longrightarrow> disp (encoded i) = Some (encoded_byte_displacement (direct_branch i)))"

definition prog_inv ::
    "arch \<Rightarrow> (insn \<Rightarrow> bool) \<Rightarrow> (byte list \<Rightarrow> u64 option) \<Rightarrow> program \<Rightarrow> bool" where
  "prog_inv A good disp p \<longleftrightarrow>
     program_ok p \<and> NumInstructions p \<le> max_insns A \<and>
     (\<forall>i \<in> set (instructions p). good i \<and> in_sync disp i)"

text \<open>The branch at index \<open>k\<close> jumps, in its bytes, to the boundary it is meant to reach.\<close>

definition branch_resolved :: "(byte list \<Rightarrow> u64 option) \<Rightarrow> program \<Rightarrow> nat \<Rightarrow> bool" where
  "branch_resolved disp p k \<longleftrightarrow>
     (let is = instructions p; d = direct_branch (is ! k) in
      valid d \<longrightarrow> disp (encoded (is ! k)) =
        Some (total_len (take (instruction_boundary d) is) - total_len (take k is)))"

text \<open>What \<open>FixupEncodedDisplacements\<close> establishes.\<close>

definition finalized ::
    "arch \<Rightarrow> (insn \<Rightarrow> bool) \<Rightarrow> (byte list \<Rightarrow> u64 option) \<Rightarrow> program \<Rightarrow> bool" where
  "finalized A good disp p \<longleftrightarrow>
     prog_inv A good disp p \<and> laid_out p \<and> \<not> encodings_may_be_invalid p \<and>
     (\<forall>k < NumInstructions p. branch_resolved disp p k)"

locale arch_laws =
  fixes A :: arch and good :: "insn \<Rightarrow> bool" and disp :: "byte list \<Rightarrow> u64 option"
  assumes max_insns_bound: "max_insns A * buffer_size A < 2 ^ 62"
    and buffer_size_pos: "0 < buffer_size A"
    and min_size_pos: "0 < min_size A"
    and good_size: "good i \<Longrightarrow> 0 < length (encoded i) \<and> length (encoded i) \<le> buffer_size A"
    and good_cong: "good i \<Longrightarrow> encoded j = encoded i \<Longrightarrow>
      valid (direct_branch j) = valid (direct_branch i) \<Longrightarrow> good j"
    and from_bytes: "bytes \<noteq> [] \<Longrightarrow> returns (\<lambda>(ok, i). ok \<longrightarrow>
        good i \<and> in_sync disp i \<and>
        instruction_boundary (direct_branch i) = kInvalidInstructionBoundary \<and>
        (valid (direct_branch i) \<longrightarrow> \<bar>sint (encoded_byte_displacement (direct_branch i))\<bar> < 2 ^ 61) \<and>
        length (encoded i) \<le> length bytes \<and> encoded i = take (length (encoded i)) bytes)
      (insn_from_bytes A default_insn_config must bytes i0)"
    and reencode: "good i \<Longrightarrow> valid (direct_branch i) \<Longrightarrow> returns (\<lambda>(ok, j).
        good j \<and> direct_branch j = direct_branch i \<and> offset j = offset i \<and>
        (ok \<longrightarrow> in_sync disp j)) (reencode A i)"
begin

lemma max_insns_lt: "max_insns A < 2 ^ 62"
  using max_insns_bound buffer_size_pos
  by (metis le_less_trans less_one linorder_not_le mult.right_neutral mult_le_mono2 Suc_leI One_nat_def)

lemma good_offset [simp]: "good (i\<lparr>offset := x\<rparr>) = good i"
  by (auto intro: good_cong [of i] good_cong [of "i\<lparr>offset := x\<rparr>"])

lemma good_boundary: "good i \<Longrightarrow> good (i\<lparr>direct_branch := (direct_branch i)\<lparr>instruction_boundary := b\<rparr>\<rparr>)"
  by (rule good_cong) (simp_all add: valid_def)

lemma in_sync_offset [simp]: "in_sync disp (i\<lparr>offset := x\<rparr>) = in_sync disp i"
  by (simp add: in_sync_def)

lemma in_sync_boundary [simp]:
  "in_sync disp (i\<lparr>direct_branch := (direct_branch i)\<lparr>instruction_boundary := b\<rparr>\<rparr>) = in_sync disp i"
  by (simp add: in_sync_def valid_def)

lemma good_adjust [simp]: "good (adjust_insn b a i) = good i"
  by (rule iffI; erule good_cong) simp_all

lemma in_sync_adjust [simp]: "in_sync disp (adjust_insn b a i) = in_sync disp i"
  by (simp add: adjust_insn_def Let_def)

lemma good_in_sync_FixupInvariants:
  "(\<forall>i \<in> set (instructions (FixupInvariants p)). good i \<and> in_sync disp i) \<longleftrightarrow>
   (\<forall>i \<in> set (instructions p). good i \<and> in_sync disp i)"
  by (auto simp: all_set_conv_all_nth FixupInvariants_nth)

lemma prog_inv_FixupInvariants:
  assumes "prog_inv A good disp p"
  shows "prog_inv A good disp (FixupInvariants p)"
proof -
  have "program_ok (FixupInvariants p)"
    using assms by (intro program_ok_FixupInvariants) (simp add: prog_inv_def program_ok_def)
  then show ?thesis
    using assms by (simp add: prog_inv_def good_in_sync_FixupInvariants)
qed

text \<open>Every edit keeps the invariant.\<close>

lemma insert_inv:
  assumes p: "prog_inv A good disp p" and b: "boundary < NumInstructionBoundaries p"
    and "is": "\<forall>i \<in> set is. branch_ok (NumInstructionBoundaries p + length is) i \<and> good i \<and> in_sync disp i"
  shows "safe (\<lambda>q. prog_inv A good disp q \<and> NumInstructions q = NumInstructions p + length is)
           (InsertInstructionBlock A boundary steal is p)"
proof (cases "max_insns A < NumInstructions p + length is")
  case False
  have "safe program_ok (InsertInstructionBlock A boundary steal is p)"
    using assms max_insns_lt by (intro InsertInstructionBlock_ok) (auto simp: prog_inv_def)
  then show ?thesis
    using False assms
    by (auto simp: InsertInstructionBlock_eq prog_inv_def good_in_sync_FixupInvariants set_inserted
        length_inserted NumInstructionBoundaries_def)
qed (use b in \<open>simp add: InsertInstructionBlock_eq\<close>)

lemma remove_inv:
  assumes p: "prog_inv A good disp p" and b: "index < NumInstructions p"
  shows "returns (\<lambda>q. prog_inv A good disp q \<and> Suc (NumInstructions q) = NumInstructions p)
           (RemoveInstruction index p)"
proof -
  have "NumInstructions p < 2 ^ 63"
    using p max_insns_lt by (simp add: prog_inv_def)
  then have "returns (\<lambda>q. program_ok q \<and> Suc (NumInstructions q) = NumInstructions p)
               (RemoveInstruction index p)"
    using p b by (intro RemoveInstruction_ok) (simp_all add: prog_inv_def)
  moreover have "good i \<and> in_sync disp i" if "i \<in> set (removed index p)" for i
    using p that set_removed [of index p] by (auto simp: prog_inv_def)
  ultimately show ?thesis
    using p b by (auto simp: RemoveInstruction_eq prog_inv_def good_in_sync_FixupInvariants)
qed

lemma set_block_inv:
  assumes p: "prog_inv A good disp p" and b: "index + length is \<le> NumInstructions p"
    and "is": "\<forall>i \<in> set is. branch_ok (NumInstructionBoundaries p) i \<and> good i \<and> in_sync disp i"
  shows "returns (\<lambda>q. prog_inv A good disp q \<and> NumInstructions q = NumInstructions p)
           (SetInstructionBlock index is p)"
proof -
  have "returns program_ok (SetInstructionBlock index is p)"
    using assms by (intro SetInstructionBlock_ok) (auto simp: prog_inv_def)
  then show ?thesis
    using assms by (auto simp: SetInstructionBlock_eq prog_inv_def dest: in_set_takeD in_set_dropD)
qed

end

section \<open>Fixed-width architectures\<close>

text \<open>Two byte offsets below \<open>2 ^ 62\<close> never differ by the invalid displacement.\<close>

lemma small_difference_valid:
  assumes "x < 2 ^ 62" "y < 2 ^ 62"
  shows "(of_nat x - of_nat y :: u64) \<noteq> kInvalidByteDisplacement"
proof
  assume "(of_nat x - of_nat y :: u64) = kInvalidByteDisplacement"
  then have "(of_nat x :: u64) = of_nat (2 ^ 63 - 1 + y)"
    by (simp add: kInvalidByteDisplacement_def algebra_simps)
  moreover have "unat (of_nat x :: u64) = x" "unat (of_nat (2 ^ 63 - 1 + y) :: u64) = 2 ^ 63 - 1 + y"
    using assms by (auto intro!: unat_of_nat_u64 simp del: of_nat_add)
  ultimately have "x = 2 ^ 63 - 1 + y" by metis
  with assms show False by simp
qed

text \<open>
  During the fixup loop of a program of \<open>n\<close> instructions of width \<open>w\<close> only the branch
  displacements change. \<open>pinned\<close>: the recorded displacement leads to the boundary.
\<close>

definition fixup_shape :: "(insn \<Rightarrow> bool) \<Rightarrow> nat \<Rightarrow> nat \<Rightarrow> program \<Rightarrow> bool" where
  "fixup_shape good w n p \<longleftrightarrow> NumInstructions p = n \<and>
     (\<forall>j < n. good (instructions p ! j) \<and> branch_ok (Suc n) (instructions p ! j) \<and>
              offset (instructions p ! j) = of_nat (w * j))"

definition pinned :: "nat \<Rightarrow> nat \<Rightarrow> insn \<Rightarrow> bool" where
  "pinned w k i \<longleftrightarrow>
     (valid (direct_branch i) \<longrightarrow> encoded_byte_displacement (direct_branch i) =
        of_nat (w * instruction_boundary (direct_branch i)) - of_nat (w * k))"

lemma set_insn_simps [simp]:
  "instructions (set_insn k i p) = (instructions p)[k := i]"
  "byte_len (set_insn k i p) = byte_len p"
  "encodings_may_be_invalid (set_insn k i p) = encodings_may_be_invalid p"
  "NumInstructionBoundaries (set_insn k i p) = NumInstructionBoundaries p"
  by (simp_all add: set_insn_def NumInstructionBoundaries_def)

lemma set_insn_same: "i = instructions p ! k \<Longrightarrow> set_insn k i p = p"
  by (simp add: set_insn_def)

locale fixed_width_arch = arch_laws +
  fixes w :: nat
  assumes width: "good i \<Longrightarrow> length (encoded i) = w"
begin

lemma fixup_shape_bound:
  assumes "fixup_shape good w n p" "n \<le> max_insns A" "b \<le> n"
  shows "w * b < 2 ^ 62"
proof (cases "n = 0")
  case False
  then have "good (instructions p ! 0)" using assms(1) by (simp add: fixup_shape_def)
  then have "w \<le> buffer_size A" using width good_size by fastforce
  then have "w * b \<le> buffer_size A * max_insns A"
    using assms(2,3) by (intro mult_le_mono) auto
  then show ?thesis using max_insns_bound by (simp add: mult.commute)
qed (use assms in simp)

lemma fixup_shape_set:
  assumes "fixup_shape good w n p" "k < n" "good i" "branch_ok (Suc n) i" "offset i = of_nat (w * k)"
  shows "fixup_shape good w n (set_insn k i p)"
  using assms by (auto simp: fixup_shape_def nth_list_update)

lemma boundary_offset:
  assumes "fixup_shape good w n p" "b < Suc n" "0 < n"
  shows "InstructionBoundaryToProgramByteOffset p b = ret (of_nat (w * b))"
proof (cases "b < n")
  case False
  then have b: "b = n" using assms by simp
  have "last (instructions p) = instructions p ! (n - 1)" and "instructions p \<noteq> []"
    using assms by (auto simp: fixup_shape_def last_conv_nth)
  moreover have "good (instructions p ! (n - 1))" "offset (instructions p ! (n - 1)) = of_nat (w * (n - 1))"
    using assms by (auto simp: fixup_shape_def)
  moreover have "w * (n - 1) + w = w * n" using assms(3) by (cases n) (simp_all add: algebra_simps)
  then have "of_nat (w * (n - 1)) + of_nat w = (of_nat (w * n) :: u64)"
    by (metis of_nat_add)
  ultimately show ?thesis
    using assms b width
    by (simp add: InstructionBoundaryToProgramByteOffset_def NumInstructionBoundaries_def fixup_shape_def
          Let_def del: of_nat_mult)
qed (use assms in \<open>simp add: InstructionBoundaryToProgramByteOffset_def
        NumInstructionBoundaries_def fixup_shape_def\<close>)

lemma sync_fixed:
  assumes p: "fixup_shape good w n p" "n \<le> max_insns A" and k: "k < n"
  shows "returns (\<lambda>(c, q). fixup_shape good w n q \<and> pinned w k (instructions q ! k) \<and>
           (\<forall>j. j \<noteq> k \<longrightarrow> instructions q ! j = instructions p ! j) \<and> (\<not> c \<longrightarrow> q = p) \<and>
           (c \<longrightarrow> valid (direct_branch (instructions q ! k))) \<and>
           byte_len q = byte_len p) (SyncByteDisplacements k p)"
proof (cases "valid (direct_branch (instructions p ! k))")
  case False
  then show ?thesis
    using p k by (simp add: SyncByteDisplacements_def SyncByteDisplacement_def Let_def set_insn_same pinned_def)
next
  case True
  let ?i = "instructions p ! k" let ?d = "direct_branch ?i"
  let ?b = "instruction_boundary ?d"
  have i: "good ?i" "branch_ok (Suc n) ?i" "offset ?i = of_nat (w * k)"
    and len: "NumInstructions p = n"
    using p k by (auto simp: fixup_shape_def)
  from i True have b: "?b < Suc n" by (simp add: branch_ok_def)
  let ?t = "of_nat (w * ?b) - of_nat (w * k) :: u64"
  have ne: "?t \<noteq> kInvalidByteDisplacement"
    using fixup_shape_bound [OF p, of ?b] fixup_shape_bound [OF p, of k] b k
    by (intro small_difference_valid) auto
  have off: "InstructionBoundaryToProgramByteOffset p ?b = ret (of_nat (w * ?b))"
    using boundary_offset p b k by auto
  show ?thesis
  proof (cases "?t = encoded_byte_displacement ?d")
    case eq: True
    then show ?thesis
      using True p k off i
      by (simp add: SyncByteDisplacements_def SyncByteDisplacement_def Let_def set_insn_same pinned_def
            del: of_nat_mult)
  next
    case False
    let ?j = "?i\<lparr>direct_branch := ?d\<lparr>encoded_byte_displacement := ?t\<rparr>\<rparr>"
    have j: "good ?j" using i ne True by (intro good_cong [OF i(1)]) (simp_all add: valid_def)
    have bj: "branch_ok (Suc n) ?j" using i ne True by (simp add: branch_ok_def valid_def)
    have "fixup_shape good w n (set_insn k ?j p)"
      using p k j bj i by (intro fixup_shape_set) simp_all
    then show ?thesis
      using True False off i k len ne
      by (simp add: SyncByteDisplacements_def SyncByteDisplacement_def Let_def pinned_def valid_def
            del: of_nat_mult)
  qed
qed

end

text \<open>What the re-encoding of instruction \<open>k\<close> leaves alone, and what it keeps of it.\<close>

definition reencoding ::
    "(insn \<Rightarrow> bool) \<Rightarrow> nat \<Rightarrow> nat \<Rightarrow> nat \<Rightarrow> program \<Rightarrow> program \<Rightarrow> bool" where
  "reencoding good w n k p q \<longleftrightarrow>
     fixup_shape good w n q \<and> pinned w k (instructions q ! k) \<and>
     valid (direct_branch (instructions q ! k)) \<and>
     (\<forall>j. j \<noteq> k \<longrightarrow> instructions q ! j = instructions p ! j) \<and> byte_len q = byte_len p"

definition fixup_inv ::
    "(insn \<Rightarrow> bool) \<Rightarrow> (byte list \<Rightarrow> u64 option) \<Rightarrow> nat \<Rightarrow> nat \<Rightarrow> nat \<Rightarrow> fixup_state \<Rightarrow> bool" where
  "fixup_inv good disp w n k s \<longleftrightarrow>
     fixup_shape good w n (fx_program s) \<and> fx_offset s = of_nat (w * k) \<and> fx_stable s \<and>
     byte_len (fx_program s) = of_nat (w * n) \<and>
     (\<forall>j < n. in_sync disp (instructions (fx_program s) ! j)) \<and>
     (\<forall>j < k. pinned w j (instructions (fx_program s) ! j))"

context fixed_width_arch
begin

lemma reencoding_set:
  assumes "reencoding good w n k p q" "k < n" "good i" "offset i = of_nat (w * k)"
    and "valid (direct_branch i)" "pinned w k i" "branch_ok (Suc n) i"
  shows "reencoding good w n k p (set_insn k i q)"
  using assms by (auto simp: reencoding_def fixup_shape_set) (auto simp: fixup_shape_def)

lemma reencode_round_safe:
  assumes I: "reencoding good w n k p q" and n: "n \<le> max_insns A" and k: "k < n"
  shows "safe (\<lambda>x. case x of
             Break (q', r') \<Rightarrow> reencoding good w n k p q' \<and> in_sync disp (instructions q' ! k)
           | Continue (q', r') \<Rightarrow> reencoding good w n k p q') (reencode_round A k (q, r))"
proof -
  let ?i = "instructions q ! k"
  have i: "good ?i" "branch_ok (Suc n) ?i" "offset ?i = of_nat (w * k)" "valid (direct_branch ?i)"
      "pinned w k ?i" and len: "NumInstructions q = n"
    using I k by (auto simp: reencoding_def fixup_shape_def)
  have nb: "NumInstructionBoundaries q = Suc n" using len by (simp add: NumInstructionBoundaries_def)
  have again: "safe (\<lambda>x. case x of Break (q', r') \<Rightarrow> reencoding good w n k p q' \<and> in_sync disp (instructions q' ! k)
           | Continue (q', r') \<Rightarrow> reencoding good w n k p q')
      (rbind (RandomizeInstructionDisplacementBoundaries r j (Suc n)) (\<lambda>(i', r').
         rbind (SyncByteDisplacements k (set_insn k i' (set_insn k j q))) (\<lambda>(_, p').
         ret (Continue (p', r')))))"
    if j: "good j" "direct_branch j = direct_branch ?i" "offset j = offset ?i" for j
  proof -
    let ?j = "j\<lparr>direct_branch := (direct_branch j)\<lparr>instruction_boundary := shd r mod Suc n\<rparr>\<rparr>"
    let ?q = "set_insn k ?j (set_insn k j q)"
    have "branch_ok (Suc n) ?j"
      using i j n max_insns_lt mod_less_divisor [of "Suc n" "shd r"]
      by (simp add: branch_ok_def valid_def kInvalidInstructionBoundary_def del: mod_less_divisor)
    then have sh: "fixup_shape good w n ?q"
      using I i j k good_boundary [OF j(1)] branch_ok_cong [OF j(2)]
      by (intro fixup_shape_set) (simp_all add: reencoding_def)
    have frame: "instructions ?q ! l = instructions p ! l" if "l \<noteq> k" for l
      using I that by (simp add: reencoding_def)
    have vj: "valid (direct_branch ?j)" using i j by (simp add: valid_def)
    have "returns (\<lambda>(c, q'). reencoding good w n k p q') (SyncByteDisplacements k ?q)"
    proof (rule returns_mono [OF sync_fixed [OF sh n k]], clarify)
      fix c q' assume q': "fixup_shape good w n q'" "pinned w k (instructions q' ! k)"
        "\<forall>l. l \<noteq> k \<longrightarrow> instructions q' ! l = instructions ?q ! l" "\<not> c \<longrightarrow> q' = ?q"
        "c \<longrightarrow> valid (direct_branch (instructions q' ! k))" "byte_len q' = byte_len ?q"
      then have "valid (direct_branch (instructions q' ! k))" using vj k len by (cases c) auto
      then show "reencoding good w n k p q'"
        using q' frame I by (simp add: reencoding_def)
    qed
    then obtain c q' where "SyncByteDisplacements k ?q = ret (c, q')" "reencoding good w n k p q'"
      by (auto elim!: returnsE)
    then show ?thesis
      using i j by (simp add: RandomizeInstructionDisplacementBoundaries_def
          RandomizeInstructionDisplacementBoundary_def RandomIndex_def)
  qed
  from reencode [OF i(1,4)] obtain ok j where j: "reencode A ?i = ret (ok, j)" "good j"
      "direct_branch j = direct_branch ?i" "offset j = offset ?i" "ok \<longrightarrow> in_sync disp j"
    by (auto elim!: returnsE)
  show ?thesis
  proof (cases ok)
    case True
    have "reencoding good w n k p (set_insn k j q)"
      using I i j k branch_ok_cong [OF j(3)] by (intro reencoding_set) (simp_all add: pinned_def)
    then show ?thesis using True j k len by (simp add: reencode_round_def Let_def)
  next
    case False
    then show ?thesis using j again [of j] nb by (simp add: reencode_round_def Let_def)
  qed
qed

lemma reencode_loop_safe:
  assumes I: "reencoding good w n k p q" and n: "n \<le> max_insns A" and k: "k < n"
  shows "safe (\<lambda>(q', r'). reencoding good w n k p q' \<and> in_sync disp (instructions q' ! k))
           (reencode_loop A k (q, r))"
  unfolding reencode_loop_def
proof (rule rloop_safe [where I = "\<lambda>(q, r). reencoding good w n k p q"])
  fix s :: "program \<times> rng" assume "case s of (q, r) \<Rightarrow> reencoding good w n k p q"
  then show "safe (\<lambda>x. case x of
        Break a \<Rightarrow> (case a of (q', r') \<Rightarrow> reencoding good w n k p q' \<and> in_sync disp (instructions q' ! k))
      | Continue b \<Rightarrow> (case b of (q, r) \<Rightarrow> reencoding good w n k p q)) (reencode_round A k s)"
    using reencode_round_safe [OF _ n k] by (cases s) (auto intro!: safe_mono split: iter.splits)
qed (use I in simp)

lemma fixup_insn_safe:
  assumes I: "fixup_inv good disp w n k s" and n: "n \<le> max_insns A" and k: "k < n"
  shows "safe (fixup_inv good disp w n (Suc k)) (fixup_insn A k s)"
proof -
  let ?p = "fx_program s"
  have sh: "fixup_shape good w n ?p" using I by (simp add: fixup_inv_def)
  have off: "offset (instructions ?p ! k) = fx_offset s"
    using I k by (simp add: fixup_inv_def fixup_shape_def)
  then have same: "set_insn k ((instructions ?p ! k)\<lparr>offset := fx_offset s\<rparr>) ?p = ?p"
    by (intro set_insn_same) simp
  have step: "fixup_inv good disp w n (Suc k) \<lparr>fx_program = q, fx_rng = r,
        fx_offset = fx_offset s + of_nat (length (encoded (instructions q ! k))),
        fx_stable = fx_stable s, fx_modified = m\<rparr>"
    if q: "fixup_shape good w n q" "pinned w k (instructions q ! k)" "in_sync disp (instructions q ! k)"
        "\<forall>j. j \<noteq> k \<longrightarrow> instructions q ! j = instructions ?p ! j" "byte_len q = byte_len ?p" for q r m
  proof -
    have "length (encoded (instructions q ! k)) = w" using q(1) k width by (simp add: fixup_shape_def)
    then have "fx_offset s + of_nat (length (encoded (instructions q ! k))) = of_nat (w * Suc k)"
      using I by (simp add: fixup_inv_def algebra_simps)
    moreover have "in_sync disp (instructions q ! j)" if "j < n" for j
      using that q I by (cases "j = k") (auto simp: fixup_inv_def)
    moreover have "pinned w j (instructions q ! j)" if "j < Suc k" for j
      using that q I by (cases "j = k") (auto simp: fixup_inv_def)
    ultimately show ?thesis using q I by (simp add: fixup_inv_def del: of_nat_mult)
  qed
  from sync_fixed [OF sh n k] obtain c q where q: "SyncByteDisplacements k ?p = ret (c, q)"
      "fixup_shape good w n q" "pinned w k (instructions q ! k)" "\<not> c \<longrightarrow> q = ?p"
      "\<forall>j. j \<noteq> k \<longrightarrow> instructions q ! j = instructions ?p ! j"
      "c \<longrightarrow> valid (direct_branch (instructions q ! k))" "byte_len q = byte_len ?p"
    by (auto elim!: returnsE)
  show ?thesis
  proof (cases c)
    case False
    moreover have "in_sync disp (instructions ?p ! k)" using I k by (simp add: fixup_inv_def)
    ultimately show ?thesis
      using q step [of ?p] by (simp add: fixup_insn_def Let_def same off)
  next
    case True
    then have "reencoding good w n k ?p q" using q by (simp add: reencoding_def)
    from reencode_loop_safe [OF this n k, of "fx_rng s"] show ?thesis
      using True q step
      by (auto simp: fixup_insn_def Let_def same off reencoding_def intro!: safe_rbind)
  qed
qed

lemma laid_out_shape:
  assumes "prog_inv A good disp p" and "laid_out p"
  shows "fixup_shape good w (NumInstructions p) p"
proof -
  have "total_len (take j (instructions p)) = of_nat (w * j)" if "j \<le> NumInstructions p" for j
  proof -
    have "(\<Sum>i\<leftarrow>take j (instructions p). length (encoded i)) = (\<Sum>i\<leftarrow>take j (instructions p). w)"
      using assms(1) width
      by (intro arg_cong [where f = sum_list] map_cong) (auto simp: prog_inv_def dest: in_set_takeD)
    also have "\<dots> = w * j" using that by (simp add: sum_list_triv)
    finally show ?thesis by (simp add: total_len_of_nat)
  qed
  then show ?thesis
    using assms by (simp add: fixup_shape_def laid_out_def prog_inv_def program_ok_def
        NumInstructionBoundaries_def)
qed

lemma shape_total_len:
  assumes "fixup_shape good w n p" "j \<le> n"
  shows "total_len (take j (instructions p)) = of_nat (w * j)"
proof -
  have "(\<Sum>i\<leftarrow>take j (instructions p). length (encoded i)) = (\<Sum>i\<leftarrow>take j (instructions p). w)"
    using assms width
    by (intro arg_cong [where f = sum_list] map_cong)
      (auto simp: fixup_shape_def in_set_conv_nth)
  also have "\<dots> = w * j" using assms by (simp add: sum_list_triv fixup_shape_def)
  finally show ?thesis by (simp add: total_len_of_nat)
qed

lemma fixup_inv_finalized:
  assumes "fixup_inv good disp w n n s" "n \<le> max_insns A"
  shows "finalized A good disp ((fx_program s)\<lparr>byte_len := fx_offset s, encodings_may_be_invalid := False\<rparr>)"
proof -
  let ?p = "fx_program s"
  have sh: "fixup_shape good w n ?p" and n: "NumInstructions ?p = n"
    using assms by (auto simp: fixup_inv_def fixup_shape_def)
  have tl: "total_len (take j (instructions ?p)) = of_nat (w * j)" if "j \<le> n" for j
    using shape_total_len [OF sh that] .
  have "branch_resolved disp ?p k" if "k < n" for k
  proof (cases "valid (direct_branch (instructions ?p ! k))")
    case True
    then have "instruction_boundary (direct_branch (instructions ?p ! k)) \<le> n"
      using sh that by (auto simp: fixup_shape_def branch_ok_def)
    moreover have "in_sync disp (instructions ?p ! k)" "pinned w k (instructions ?p ! k)"
      using assms that by (simp_all add: fixup_inv_def)
    ultimately show ?thesis
      using True that by (simp add: branch_resolved_def Let_def in_sync_def pinned_def tl del: of_nat_mult)
  qed (simp add: branch_resolved_def Let_def)
  moreover have "laid_out ?p"
    using tl sh by (simp add: laid_out_def fixup_shape_def)
  moreover have "total_len (instructions ?p) = of_nat (w * n)"
    using tl [of n] n by simp
  ultimately show ?thesis
    using assms n
    by (auto simp: finalized_def prog_inv_def program_ok_def fixup_inv_def fixup_shape_def
        NumInstructionBoundaries_def all_set_conv_all_nth branch_resolved_def laid_out_def)
qed

lemma fixup_inv_init:
  assumes "prog_inv A good disp p"
  shows "fixup_inv good disp w (NumInstructions p) 0
     \<lparr>fx_program = FixupInvariants p, fx_rng = r, fx_offset = 0, fx_stable = True, fx_modified = m\<rparr>"
proof -
  let ?p = "FixupInvariants p"
  have inv: "prog_inv A good disp ?p" using assms by (rule prog_inv_FixupInvariants)
  have sh: "fixup_shape good w (NumInstructions p) ?p"
    using laid_out_shape [OF inv laid_out_FixupInvariants] by simp
  then have "byte_len ?p = of_nat (w * NumInstructions p)"
    using shape_total_len [OF sh, of "NumInstructions p"] inv
    by (simp add: prog_inv_def program_ok_def)
  then show ?thesis
    using sh inv by (auto simp: fixup_inv_def prog_inv_def all_set_conv_all_nth)
qed

text \<open>
  \<open>FixupEncodedDisplacements\<close> keeps the invariant, resolves every branch and changes neither the
  number of instructions nor the length; no \<open>CHECK\<close> can fail in it.
\<close>

lemma fixup_safe:
  assumes p: "prog_inv A good disp p"
  shows "safe (\<lambda>(m, q, r'). finalized A good disp q \<and> NumInstructions q = NumInstructions p)
           (FixupEncodedDisplacements A r p)"
proof -
  let ?n = "NumInstructions p" and ?p = "FixupInvariants p"
  let ?s = "\<lparr>fx_program = ?p, fx_rng = r, fx_offset = 0, fx_stable = True, fx_modified = False\<rparr>"
  have n: "?n \<le> max_insns A" using p by (simp add: prog_inv_def)
  have "safe (fixup_inv good disp w ?n (0 + ?n)) (for_range (fixup_insn A) 0 ?n ?s)"
    using fixup_inv_init [OF p] n by (intro for_range_safe fixup_insn_safe) auto
  then have loop: "safe (fixup_inv good disp w ?n ?n) (for_range (fixup_insn A) 0 ?n ?s)" by simp
  have main: "safe (\<lambda>(m, q, r'). finalized A good disp (q\<lparr>encodings_may_be_invalid := False\<rparr>) \<and>
                           NumInstructions q = ?n)
          (fixup_rounds A (Suc ?n) ?p r False)"
    unfolding fixup_rounds.simps FixupInvariants_fields(3) [of p]
    using fixup_inv_finalized [OF _ n]
    by (intro safe_rbind [OF loop])
      (auto simp: Let_def fixup_inv_def fixup_shape_def)
  show ?thesis
    by (auto simp: FixupEncodedDisplacements_def Let_def simp del: fixup_rounds.simps
        intro!: safe_rbind [OF main])
qed

end

text \<open>
  When every displacement of a program fits its branches, \<open>TryToReencode...\<close> succeeds at the
  first attempt: no branch is moved, no random choice is made, and the loops stop.
\<close>

locale fixed_width_reach = fixed_width_arch +
  fixes reach :: nat
  assumes reach: "good i \<Longrightarrow> valid (direct_branch i) \<Longrightarrow>
      encoded_byte_displacement (direct_branch i) = of_nat (w * a) - of_nat (w * b) \<Longrightarrow>
      w * a \<le> reach \<Longrightarrow> w * b \<le> reach \<Longrightarrow> returns fst (reencode A i)"
begin

lemma reencode_loop_returns:
  assumes I: "reencoding good w n k p q" and k: "k < n" and n: "w * n \<le> reach"
  shows "returns (\<lambda>(q', r'). r' = r) (reencode_loop A k (q, r))"
proof -
  let ?i = "instructions q ! k"
  let ?b = "instruction_boundary (direct_branch ?i)"
  have i: "good ?i" "valid (direct_branch ?i)" "?b \<le> n" "pinned w k ?i"
    using I k by (auto simp: reencoding_def fixup_shape_def branch_ok_def)
  have "w * ?b \<le> reach" "w * k \<le> reach"
    using i(3) k n by (meson le_trans mult_le_mono2 less_imp_le)+
  then have "returns fst (reencode A ?i)"
    using i by (intro reach [where a = ?b and b = k]) (simp_all add: pinned_def)
  then obtain j where "reencode A ?i = ret (True, j)"
    by (auto elim!: returnsE)
  then show ?thesis
    by (simp add: reencode_loop_def rloop.simps reencode_round_def Let_def)
qed

lemma fixup_insn_returns:
  assumes I: "fixup_inv good disp w n k s" and n: "n \<le> max_insns A" "w * n \<le> reach" and k: "k < n"
  shows "returns (\<lambda>s'. fx_rng s' = fx_rng s) (fixup_insn A k s)"
proof -
  let ?p = "fx_program s"
  have sh: "fixup_shape good w n ?p" using I by (simp add: fixup_inv_def)
  have off: "offset (instructions ?p ! k) = fx_offset s"
    using I k by (simp add: fixup_inv_def fixup_shape_def)
  then have same: "set_insn k ((instructions ?p ! k)\<lparr>offset := fx_offset s\<rparr>) ?p = ?p"
    by (intro set_insn_same) simp
  from sync_fixed [OF sh n(1) k] obtain c q where q: "SyncByteDisplacements k ?p = ret (c, q)"
      "c \<longrightarrow> reencoding good w n k ?p q"
    by (auto elim!: returnsE simp: reencoding_def)
  show ?thesis
  proof (cases c)
    case True
    with q have "reencoding good w n k ?p q" by simp
    from reencode_loop_returns [OF this k n(2), of "fx_rng s"] show ?thesis
      using True q by (auto simp: fixup_insn_def Let_def same off intro!: returns_rbind)
  qed (use q in \<open>simp add: fixup_insn_def Let_def same off\<close>)
qed

lemma fixup_returns:
  assumes p: "prog_inv A good disp p" and reach: "w * NumInstructions p \<le> reach"
  shows "returns (\<lambda>(m, q, r'). finalized A good disp q \<and> NumInstructions q = NumInstructions p \<and> r' = r)
           (FixupEncodedDisplacements A r p)"
proof -
  let ?n = "NumInstructions p" and ?p = "FixupInvariants p"
  let ?s = "\<lparr>fx_program = ?p, fx_rng = r, fx_offset = 0, fx_stable = True, fx_modified = False\<rparr>"
  let ?I = "\<lambda>k s. fixup_inv good disp w ?n k s \<and> fx_rng s = r"
  have n: "?n \<le> max_insns A" using p by (simp add: prog_inv_def)
  have "returns (?I (0 + ?n)) (for_range (fixup_insn A) 0 ?n ?s)"
  proof (rule for_range_returns)
    fix k s assume k: "0 \<le> k" "k < 0 + ?n" and I: "?I k s"
    then have inv: "fixup_inv good disp w ?n k s" and k': "k < ?n" by simp_all
    from safe_returns [OF fixup_insn_safe [OF inv n k'] fixup_insn_returns [OF inv n reach k']]
    show "returns (?I (Suc k)) (fixup_insn A k s)"
      using I by (auto elim: returns_mono)
  qed (use fixup_inv_init [OF p] in simp)
  then obtain s where s: "for_range (fixup_insn A) 0 ?n ?s = ret s" "fixup_inv good disp w ?n ?n s"
      "fx_rng s = r"
    by (auto elim!: returnsE)
  then show ?thesis
    using fixup_inv_finalized [OF s(2) n]
    by (auto simp: FixupEncodedDisplacements_def Let_def fixup_inv_def fixup_shape_def)
qed

end

end
