(* ===== verification/Insn_Filter.thy ===== *)
theory Insn_Filter
  imports Prelude
begin

text \<open>
  The static instruction filter of \<open>instruction/static_insn_filter.cc\<close> with the bit matchers of
  \<open>util/bit_matcher.h\<close>: the tables of banned instructions and of required bits, the allowed
  system registers, \<open>InstructionIsOK\<close> and \<open>StaticInstructionFilter\<close> for both architectures.
  The tables keep the order and the binary constants of the source.
\<close>

section \<open>Bit matchers (util/bit\_matcher.h)\<close>

record 'a bit_matcher =
  mask :: 'a
  bits :: 'a

record 'a required_bits =
  pattern :: "'a bit_matcher"
  expect :: "'a bit_matcher"

definition matches :: "('w::len) word bit_matcher \<Rightarrow> 'w word \<Rightarrow> bool" where
  "matches m insn \<longleftrightarrow> insn AND mask m = bits m"

definition violates_requirements :: "('w::len) word required_bits \<Rightarrow> 'w word \<Rightarrow> bool" where
  "violates_requirements r insn \<longleftrightarrow> matches (pattern r) insn \<and> \<not> matches (expect r) insn"

section \<open>The tables\<close>

text \<open>Instructions that can pass the making process and then misbehave in the runner.\<close>

definition banned_nondeterministic :: "u32 bit_matcher list" where
  "banned_nondeterministic = [
    \<lparr>mask = 0b00111111110000000000000000000000,
     bits = 0b00001000000000000000000000000000\<rparr>,
    \<lparr>mask = 0b00111011001000000000010000000000,
     bits = 0b00111000001000000000010000000000\<rparr>,
    \<lparr>mask = 0b11111110000000000000100000000000,
     bits = 0b11010110000000000000100000000000\<rparr>,
    \<lparr>mask = 0b11111111111111111111110100011111,
     bits = 0b11010101000000110010000100011111\<rparr>,
    \<lparr>mask = 0b11111111111111110000000000000000,
     bits = 0b11011010110000010000000000000000\<rparr>,
    \<lparr>mask = 0b11111111111000001111110000000000,
     bits = 0b10011010110000000011000000000000\<rparr>,
    \<lparr>mask = 0b11111111111111111111111111111111,
     bits = 0b11010101000000110010000001011111\<rparr>,
    \<lparr>mask = 0b11111111111111111111111111111111,
     bits = 0b11010101000000110010000001111111\<rparr>,
    \<lparr>mask = 0b11111111111111111111000000000000,
     bits = 0b11010101000000110001000000000000\<rparr>]"

text \<open>Parts of the instruction space that fault or hold no instruction.\<close>

definition banned_unallocated :: "u32 bit_matcher list" where
  "banned_unallocated = [
    \<lparr>mask = 0b10011110000000000000000000000000,
     bits = 0b00000000000000000000000000000000\<rparr>,
    \<lparr>mask = 0b00011110000000000000000000000000,
     bits = 0b00000010000000000000000000000000\<rparr>,
    \<lparr>mask = 0b00011110000000000000000000000000,
     bits = 0b00000110000000000000000000000000\<rparr>,
    \<lparr>mask = 0b00111111001000001110110000000000,
     bits = 0b00111000001000001110000000000000\<rparr>,
    \<lparr>mask = 0b00111111101000001111110000000000,
     bits = 0b00111000001000001100000000000000\<rparr>,
    \<lparr>mask = 0b00111111001000000000110000000000,
     bits = 0b00111100001000000000000000000000\<rparr>]"

text \<open>Non-faulting and first-faulting SVE loads.\<close>

definition banned_sve_faulting :: "u32 bit_matcher list" where
  "banned_sve_faulting = [
    \<lparr>mask = 0b11111110000100001110000000000000,
     bits = 0b10100100000100001010000000000000\<rparr>,
    \<lparr>mask = 0b11111111101000001010000000000000,
     bits = 0b10000100101000000010000000000000\<rparr>,
    \<lparr>mask = 0b11111111101000001010000000000000,
     bits = 0b10000101001000000010000000000000\<rparr>,
    \<lparr>mask = 0b11111111101000001010000000000000,
     bits = 0b10000100000000000010000000000000\<rparr>,
    \<lparr>mask = 0b11111111101000001010000000000000,
     bits = 0b10000100100000000010000000000000\<rparr>,
    \<lparr>mask = 0b11111111101000001010000000000000,
     bits = 0b10000101000000000010000000000000\<rparr>,
    \<lparr>mask = 0b11111111111000001010000000000000,
     bits = 0b10000100001000001010000000000000\<rparr>,
    \<lparr>mask = 0b11111111111000001010000000000000,
     bits = 0b10000100101000001010000000000000\<rparr>,
    \<lparr>mask = 0b11111111111000001010000000000000,
     bits = 0b10000101001000001010000000000000\<rparr>,
    \<lparr>mask = 0b11111110000000001110000000000000,
     bits = 0b10100100000000000110000000000000\<rparr>,
    \<lparr>mask = 0b11111111111000001010000000000000,
     bits = 0b11000100111000001010000000000000\<rparr>,
    \<lparr>mask = 0b11111111111000001010000000000000,
     bits = 0b11000101011000001010000000000000\<rparr>,
    \<lparr>mask = 0b11111111111000001010000000000000,
     bits = 0b11000101111000001010000000000000\<rparr>,
    \<lparr>mask = 0b11111111101000001010000000000000,
     bits = 0b11000100101000000010000000000000\<rparr>,
    \<lparr>mask = 0b11111111101000001010000000000000,
     bits = 0b11000101001000000010000000000000\<rparr>,
    \<lparr>mask = 0b11111111101000001010000000000000,
     bits = 0b11000101101000000010000000000000\<rparr>,
    \<lparr>mask = 0b11111110011000001010000000000000,
     bits = 0b11000100001000001010000000000000\<rparr>,
    \<lparr>mask = 0b11111110011000001010000000000000,
     bits = 0b11000100010000001010000000000000\<rparr>,
    \<lparr>mask = 0b11111110001000001010000000000000,
     bits = 0b11000100000000000010000000000000\<rparr>]"

definition kBannedInstructions :: "u32 bit_matcher list" where
  "kBannedInstructions = banned_nondeterministic @ banned_unallocated @ banned_sve_faulting"

definition required_system_and_memory :: "u32 required_bits list" where
  "required_system_and_memory = [
    \<lparr>pattern = \<lparr>mask = 0b11111111000000000000000000000000,
                 bits = 0b11010101000000000000000000000000\<rparr>,
      expect = \<lparr>mask = 0b00000000110000000000000000000000,
                bits = 0b00000000000000000000000000000000\<rparr>\<rparr>,
    \<lparr>pattern = \<lparr>mask = 0b10111111000000000000000000000000,
                 bits = 0b00001100000000000000000000000000\<rparr>,
      expect = \<lparr>mask = 0b00000000001000000000000000000000,
                bits = 0b00000000000000000000000000000000\<rparr>\<rparr>,
    \<lparr>pattern = \<lparr>mask = 0b10111110100000000000000000000000,
                 bits = 0b00001100000000000000000000000000\<rparr>,
      expect = \<lparr>mask = 0b00000000000111110000000000000000,
                bits = 0b00000000000000000000000000000000\<rparr>\<rparr>,
    \<lparr>pattern = \<lparr>mask = 0b10111010000000000000000000000000,
                 bits = 0b10001000000000000000000000000000\<rparr>,
      expect = \<lparr>mask = 0b00000100000000000000000000000000,
                bits = 0b00000000000000000000000000000000\<rparr>\<rparr>,
    \<lparr>pattern = \<lparr>mask = 0b00111111101000000000000000000000,
                 bits = 0b00001000101000000000000000000000\<rparr>,
      expect = \<lparr>mask = 0b00000000000000000111110000000000,
                bits = 0b00000000000000000111110000000000\<rparr>\<rparr>]"

definition required_data_processing :: "u32 required_bits list" where
  "required_data_processing = [
    \<lparr>pattern = \<lparr>mask = 0b01011111111000000000000000000000,
                 bits = 0b01011010110000000000000000000000\<rparr>,
      expect = \<lparr>mask = 0b00100000000111101000000000000000,
                bits = 0b00000000000000000000000000000000\<rparr>\<rparr>,
    \<lparr>pattern = \<lparr>mask = 0b01111111111111110000000000000000,
                 bits = 0b01011010110000000000000000000000\<rparr>,
      expect = \<lparr>mask = 0b00000000000000000110000000000000,
                bits = 0b00000000000000000000000000000000\<rparr>\<rparr>,
    \<lparr>pattern = \<lparr>mask = 0b00011111001000000000000000000000,
                 bits = 0b00001011001000000000000000000000\<rparr>,
      expect = \<lparr>mask = 0b00000000110000000000000000000000,
                bits = 0b00000000000000000000000000000000\<rparr>\<rparr>,
    \<lparr>pattern = \<lparr>mask = 0b01011111001000000000110000000000,
                 bits = 0b00011110001000000000100000000000\<rparr>,
      expect = \<lparr>mask = 0b10100000000000000000000000000000,
                bits = 0b00000000000000000000000000000000\<rparr>\<rparr>,
    \<lparr>pattern = \<lparr>mask = 0b01011111000000000000000000000000,
                 bits = 0b00011111000000000000000000000000\<rparr>,
      expect = \<lparr>mask = 0b10100000000000000000000000000000,
                bits = 0b00000000000000000000000000000000\<rparr>\<rparr>,
    \<lparr>pattern = \<lparr>mask = 0b01011111001000000001110000000000,
                 bits = 0b00011110001000000001000000000000\<rparr>,
      expect = \<lparr>mask = 0b10100000000000000000001111100000,
                bits = 0b00000000000000000000000000000000\<rparr>\<rparr>]"

definition kRequiredInstructionBits :: "u32 required_bits list" where
  "kRequiredInstructionBits = required_system_and_memory @ required_data_processing"

definition kSVEInstruction :: "u32 bit_matcher" where
  "kSVEInstruction = \<lparr>mask = 0b00011110000000000000000000000000,
                      bits = 0b00000100000000000000000000000000\<rparr>"

definition kScalarFpAndAdvancedSIMDInstruction :: "u32 bit_matcher" where
  "kScalarFpAndAdvancedSIMDInstruction = \<lparr>mask = 0b00001110000000000000000000000000,
                                          bits = 0b00001110000000000000000000000000\<rparr>"

definition kSysregInstruction :: "u32 bit_matcher" where
  "kSysregInstruction = \<lparr>mask = 0b11111111110100000000000000000000,
                         bits = 0b11010101000100000000000000000000\<rparr>"

definition kSystemInstruction :: "u32 bit_matcher" where
  "kSystemInstruction = \<lparr>mask = 0b11111111110110000000000000000000,
                         bits = 0b11010101000010000000000000000000\<rparr>"

definition kLoadStoreInstruction :: "u32 bit_matcher" where
  "kLoadStoreInstruction = \<lparr>mask = 0b00001010000000000000000000000000,
                            bits = 0b00001000000000000000000000000000\<rparr>"

definition kFpSimdLoadStoreInstruction :: "u32 bit_matcher" where
  "kFpSimdLoadStoreInstruction = \<lparr>mask = 0b00001110000000000000000000000000,
                                  bits = 0b00001100000000000000000000000000\<rparr>"

definition kSVEMemoryOperationInstruction :: "u32 bit_matcher" where
  "kSVEMemoryOperationInstruction = \<lparr>mask = 0b10011110000000000000000000000000,
                                     bits = 0b10000100000000000000000000000000\<rparr>"

definition kSMEMemoryOperationInstruction :: "u32 bit_matcher" where
  "kSMEMemoryOperationInstruction = \<lparr>mask = 0b11111110000000000000000000000000,
                                     bits = 0b11100000000000000000000000000000\<rparr>"

definition kBranchToRegisterInstructions :: "u32 bit_matcher" where
  "kBranchToRegisterInstructions = \<lparr>mask = 0b11111110000000000000000000000000,
                                    bits = 0b11010110000000000000000000000000\<rparr>"

section \<open>The filter\<close>

definition is_load_store_insn :: "u32 \<Rightarrow> bool" where
  "is_load_store_insn insn \<longleftrightarrow>
     matches kLoadStoreInstruction insn \<or> matches kSMEMemoryOperationInstruction insn \<or>
     matches kSVEMemoryOperationInstruction insn"

definition is_indirect_branch_insn :: "u32 \<Rightarrow> bool" where
  "is_indirect_branch_insn insn = matches kBranchToRegisterInstructions insn"

definition is_system_insn :: "u32 \<Rightarrow> bool" where
  "is_system_insn insn = matches kSystemInstruction insn"

definition sysreg :: "u32 \<Rightarrow> u32 \<Rightarrow> u32 \<Rightarrow> u32 \<Rightarrow> u32 \<Rightarrow> u32" where
  "sysreg op0 op1 CRn CRm op2 =
     push_bit 19 op0 OR push_bit 16 op1 OR push_bit 12 CRn OR push_bit 8 CRm OR push_bit 5 op2"

definition kSysregMask :: u32 where
  "kSysregMask = sysreg 0b11 0b111 0b1111 0b1111 0b111"

definition kAllowedSysregs :: "u32 list" where
  "kAllowedSysregs = [
    sysreg 0b11 0b011 0b0100 0b0010 0b000,
    sysreg 0b11 0b011 0b0100 0b0100 0b000,
    sysreg 0b11 0b011 0b0100 0b0100 0b001,
    sysreg 0b11 0b011 0b1101 0b0000 0b010,
    sysreg 0b11 0b011 0b1101 0b0000 0b011]"

record filter_config =
  sve_instructions_allowed :: bool
  load_store_instructions_allowed :: bool
  indirect_branches_allowed :: bool
  scalar_fp_and_advanced_simd_allowed :: bool

text \<open>\<open>InstructionFilterConfig<AArch64>{}\<close>: everything is allowed.\<close>

definition default_filter_config :: filter_config where
  "default_filter_config =
     \<lparr>sve_instructions_allowed = True, load_store_instructions_allowed = True,
      indirect_branches_allowed = True, scalar_fp_and_advanced_simd_allowed = True\<rparr>"

definition InstructionIsOK :: "u32 \<Rightarrow> filter_config \<Rightarrow> bool" where
  "InstructionIsOK insn config =
     (if list_ex (\<lambda>m. matches m insn) kBannedInstructions then False
      else if \<not> load_store_instructions_allowed config \<and> is_load_store_insn insn then False
      else if \<not> sve_instructions_allowed config \<and> matches kSVEInstruction insn then False
      else if \<not> scalar_fp_and_advanced_simd_allowed config \<and>
              (matches kScalarFpAndAdvancedSIMDInstruction insn \<or>
               matches kFpSimdLoadStoreInstruction insn) then False
      else if \<not> indirect_branches_allowed config \<and> is_indirect_branch_insn insn then False
      else if list_ex (\<lambda>r. violates_requirements r insn) kRequiredInstructionBits then False
      else if matches kSysregInstruction insn
           then list_ex (\<lambda>s. insn AND kSysregMask = s) kAllowedSysregs
      else if is_system_insn insn then False
      else True)"

text \<open>
  \<open>StaticInstructionFilter<AArch64>\<close>: the loop over the 32-bit words of the code, which a
  little-endian host reads through a \<open>uint32_t\<close> pointer, and the size check before it.
\<close>

fun all_words_ok :: "filter_config \<Rightarrow> byte list \<Rightarrow> bool" where
  "all_words_ok config (b0 # b1 # b2 # b3 # rest) =
     (if \<not> InstructionIsOK (le32_load [b0, b1, b2, b3]) config then False
      else all_words_ok config rest)"
| "all_words_ok config _ = True"

definition StaticInstructionFilter_AArch64 :: "byte list \<Rightarrow> filter_config \<Rightarrow> bool" where
  "StaticInstructionFilter_AArch64 code config =
     (if length code mod 4 \<noteq> 0 then False else all_words_ok config code)"

definition StaticInstructionFilter_X86_64 :: "byte list \<Rightarrow> bool" where
  "StaticInstructionFilter_X86_64 code = True"

section \<open>Matchers and conflicts\<close>

text \<open>Two matchers conflict when they ask for different values of a bit both look at.\<close>

definition conflicts :: "('w::len) word bit_matcher \<Rightarrow> 'w word bit_matcher \<Rightarrow> bool" where
  "conflicts a b \<longleftrightarrow> (bits a XOR bits b) AND mask a AND mask b \<noteq> 0"

lemma matches_conflict:
  assumes "matches a w" "conflicts a b"
  shows "\<not> matches b w"
proof
  assume "matches b w"
  with assms(1) have "(bits a XOR bits b) AND mask a AND mask b = 0"
    unfolding matches_def by (auto simp: bit_eq_iff bit_simps)
  with assms(2) show False by (simp add: conflicts_def)
qed

lemmas filter_tables_def =
  kBannedInstructions_def banned_nondeterministic_def banned_unallocated_def banned_sve_faulting_def
  kRequiredInstructionBits_def required_system_and_memory_def required_data_processing_def
  kSysregInstruction_def kSystemInstruction_def

end
