(* ===== verification/Program_AArch64.thy ===== *)
theory Program_AArch64
  imports Arch_Laws Insn_Filter
begin

text \<open>
  \<open>fuzzer/program_aarch64.cc\<close>: the direct branches of AArch64, the extraction and rewriting of
  their displacement fields, \<open>InstructionFromBytes\<close> and
  \<open>TryToReencodeInstructionDisplacements\<close>. The Capstone disassembler is a parameter \<open>dis\<close>: it
  says whether the bytes start with an instruction it recognises. The \<open>DCHECK\<close>s of the two
  displacement functions hold for every row of the branch table.
\<close>

section \<open>Branch displacements\<close>

record field_location =
  lsb :: nat
  field_width :: nat

record branch_info =
  matcher :: "u32 bit_matcher"
  displacement :: field_location

definition branch_b_bl :: branch_info where
  "branch_b_bl =
     \<lparr>matcher = \<lparr>mask = 0b01111100000000000000000000000000,
                bits = 0b00010100000000000000000000000000\<rparr>,
      displacement = \<lparr>lsb = 0, field_width = 26\<rparr>\<rparr>"

definition branch_b_cond :: branch_info where
  "branch_b_cond =
     \<lparr>matcher = \<lparr>mask = 0b11111111000000000000000000000000,
                bits = 0b01010100000000000000000000000000\<rparr>,
      displacement = \<lparr>lsb = 5, field_width = 19\<rparr>\<rparr>"

definition branch_cbz_cbnz :: branch_info where
  "branch_cbz_cbnz =
     \<lparr>matcher = \<lparr>mask = 0b01111110000000000000000000000000,
                bits = 0b00110100000000000000000000000000\<rparr>,
      displacement = \<lparr>lsb = 5, field_width = 19\<rparr>\<rparr>"

definition branch_tbz_tbnz :: branch_info where
  "branch_tbz_tbnz =
     \<lparr>matcher = \<lparr>mask = 0b01111110000000000000000000000000,
                bits = 0b00110110000000000000000000000000\<rparr>,
      displacement = \<lparr>lsb = 5, field_width = 14\<rparr>\<rparr>"

definition kBranchInstructionInfo :: "branch_info list" where
  "kBranchInstructionInfo = [branch_b_bl, branch_b_cond, branch_cbz_cbnz, branch_tbz_tbnz]"

text \<open>The first row of the table that matches, as the two loops over it find it.\<close>

definition branch_row :: "u32 \<Rightarrow> branch_info option" where
  "branch_row w = find (\<lambda>info. matches (matcher info) w) kBranchInstructionInfo"

text \<open>The shifts are arithmetic, on \<open>int32_t\<close>.\<close>

definition ExtractBranchDisplacement :: "u32 \<Rightarrow> nat \<Rightarrow> nat \<Rightarrow> u32" where
  "ExtractBranchDisplacement w l width =
     (let shift = 32 - width
      in signed_drop_bit (shift - 2) (push_bit shift (signed_drop_bit l w)))"

definition RewriteBranchDisplacement :: "u32 \<Rightarrow> nat \<Rightarrow> nat \<Rightarrow> u32 \<Rightarrow> u32" where
  "RewriteBranchDisplacement w l width disp =
     (let displacement_mask = push_bit l (push_bit width 1 - 1)
      in (w AND NOT displacement_mask) OR
         (push_bit l (signed_drop_bit 2 disp) AND displacement_mask))"

definition GetDirectBranchInfo :: "u32 \<Rightarrow> u64 \<Rightarrow> displacement_info" where
  "GetDirectBranchInfo w limit =
     (case branch_row w of
        None \<Rightarrow> no_displacement
      | Some info \<Rightarrow>
          (let d = scast (ExtractBranchDisplacement w (lsb (displacement info))
                            (field_width (displacement info)))
           in if DisplacementWithinFixupLimit d limit
              then no_displacement\<lparr>encoded_byte_displacement := d\<rparr>
              else no_displacement))"

section \<open>Decoding and re-encoding\<close>

definition InstructionFromBytes_AArch64 ::
    "(byte list \<Rightarrow> bool) \<Rightarrow> insn_config \<Rightarrow> bool \<Rightarrow> byte list \<Rightarrow> insn \<Rightarrow> (bool \<times> insn) res" where
  "InstructionFromBytes_AArch64 dis config must_decode_everything bytes i =
     (let i = i\<lparr>encoded := []\<rparr> in
      if length bytes < 4 then ret (False, i)
      else rbind (insn_data_copy 4 (take 4 bytes)) (\<lambda>data.
        let i = i\<lparr>encoded := data\<rparr> in
        if require_valid_encoding config \<and> \<not> dis bytes then ret (False, i)
        else let w = le32_load bytes;
                 i = i\<lparr>direct_branch := GetDirectBranchInfo w (displacement_fixup_limit config)\<rparr> in
        if must_decode_everything \<and> length bytes \<noteq> 4 then ret (False, i)
        else if filter_insns config \<and>
                \<not> StaticInstructionFilter_AArch64 (encoded i) default_filter_config
             then ret (False, i)
        else ret (True, i)))"

text \<open>The \<open>int64_t\<close> displacement is narrowed to \<open>int32_t\<close> when it is passed on.\<close>

definition TryToReencode_AArch64 :: "insn \<Rightarrow> (bool \<times> insn) res" where
  "TryToReencode_AArch64 i =
     (let w = le32_load (encoded i); d = encoded_byte_displacement (direct_branch i) in
      case branch_row w of
        None \<Rightarrow> abort (Check_failed ''Instruction was not a branch.'')
      | Some info \<Rightarrow>
          let l = lsb (displacement info); fw = field_width (displacement info);
              w' = RewriteBranchDisplacement w l fw (ucast d)
          in ret (scast (ExtractBranchDisplacement w' l fw) = d, i\<lparr>encoded := le32_store w'\<rparr>))"

text \<open>\<open>max_insns\<close> is \<open>PTRDIFF_MAX / sizeof(Instruction<AArch64>)\<close>, with 32 bytes each.\<close>

definition aarch64 :: "(byte list \<Rightarrow> bool) \<Rightarrow> arch" where
  "aarch64 dis =
     \<lparr>min_size = 4, max_size = 4, buffer_size = 4, max_insns = (2 ^ 63 - 1) div 32,
      insn_from_bytes = InstructionFromBytes_AArch64 dis,
      reencode = TryToReencode_AArch64\<rparr>"

section \<open>The displacement field\<close>

lemma displacement_mask: "bit (2 ^ width - 1 :: u32) n \<longleftrightarrow> n < 32 \<and> n < width"
  by (simp add: bit_mask_iff flip: mask_eq_exp_minus_1)

lemma bit_Extract:
  assumes "1 \<le> width" "width \<le> 30" "l + width \<le> 32" "n < 32"
  shows "bit (ExtractBranchDisplacement w l width) n \<longleftrightarrow> 2 \<le> n \<and> bit w (l + min (n - 2) (width - 1))"
  using assms
  by (auto simp: ExtractBranchDisplacement_def Let_def bit_simps min_def)

lemma bit_Rewrite:
  assumes "width \<le> 30" "l + width \<le> 32" "n < 32"
  shows "bit (RewriteBranchDisplacement w l width d) n \<longleftrightarrow>
     (if l \<le> n \<and> n < l + width then bit d (n - l + 2) else bit w n)"
  using assms
  by (auto simp: RewriteBranchDisplacement_def Let_def bit_simps displacement_mask)

text \<open>
  A displacement is encodable when it is a multiple of 4 whose quotient fits the signed field:
  re-encoding succeeds for exactly these.
\<close>

definition encodable :: "nat \<Rightarrow> int \<Rightarrow> bool" where
  "encodable width d \<longleftrightarrow> 4 dvd d \<and> - (2 ^ (width + 1)) \<le> d \<and> d < 2 ^ (width + 1)"

lemma four_dvd_bits: "4 dvd (d :: int) \<longleftrightarrow> \<not> bit d 0 \<and> \<not> bit d 1"
  by (simp add: bit_iff_odd) presburger

lemma bit_int_three: "bit (3 :: int) m \<longleftrightarrow> m < 2"
  using bit_mask_iff [of 2 m, where 'a = int] by (simp add: mask_eq_exp_minus_1)

lemma bit_int_minus_four: "bit (- 4 :: int) m \<longleftrightarrow> 2 \<le> m"
  using bit_not_iff [of "3 :: int" m] by (simp add: bit_int_three not_less)

lemma sint_Extract_Rewrite:
  fixes d :: u64
  assumes "1 \<le> width" "width \<le> 30" "l + width \<le> 32"
  shows "sint (scast (ExtractBranchDisplacement
                 (RewriteBranchDisplacement w l width (ucast d)) l width) :: u64)
         = signed_take_bit (width + 1) (sint d AND NOT 3)"
proof (rule bit_eqI)
  fix n :: nat
  let ?x = "ExtractBranchDisplacement (RewriteBranchDisplacement w l width (ucast d)) l width"
  have x: "bit ?x m \<longleftrightarrow> 2 \<le> m \<and> bit d (min m (width + 1))" if "m < 32" for m
  proof (cases "2 \<le> m")
    case True
    have "l + min (m - 2) (width - 1) - l + 2 = min m (width + 1)"
      using True assms by auto
    moreover have "min (m - 2) (width - 1) < width" using assms by simp
    ultimately show ?thesis
      using assms that True
      by (simp add: bit_Extract bit_Rewrite bit_ucast_iff)
  qed (use that assms in \<open>simp add: bit_Extract\<close>)
  have "bit (sint (scast ?x :: u64)) n \<longleftrightarrow> bit ?x (min n 31)"
    by (auto simp: bit_sint_iff bit_signed_iff min_def)
  also have "\<dots> \<longleftrightarrow> 2 \<le> n \<and> bit d (min n (width + 1))"
    using x [of "min n 31"] assms by (auto simp: min_def)
  also have "\<dots> \<longleftrightarrow> bit (signed_take_bit (width + 1) (sint d AND NOT 3)) n"
    using assms by (auto simp: bit_signed_take_bit_iff bit_and_iff bit_not_iff bit_int_three bit_int_minus_four bit_sint_iff min_def)
  finally show "bit (sint (scast ?x :: u64)) n \<longleftrightarrow> bit (signed_take_bit (width + 1) (sint d AND NOT 3)) n" .
qed

lemma Extract_Rewrite_iff:
  fixes d :: u64
  assumes "1 \<le> width" "width \<le> 30" "l + width \<le> 32"
  shows "scast (ExtractBranchDisplacement (RewriteBranchDisplacement w l width (ucast d)) l width) = d
         \<longleftrightarrow> encodable width (sint d)" (is "?x = d \<longleftrightarrow> _")
proof -
  have sx: "sint ?x = signed_take_bit (width + 1) (sint d AND NOT 3)"
    using sint_Extract_Rewrite [OF assms] .
  show ?thesis
  proof
    assume "?x = d"
    then have eq: "sint d = signed_take_bit (width + 1) (sint d AND NOT 3)" using sx by simp
    have "\<not> bit (sint d) m" if "m < 2" for m
      using that by (subst eq) (simp add: bit_signed_take_bit_iff bit_and_iff bit_not_iff bit_int_minus_four)
    then have "4 dvd sint d" by (simp add: four_dvd_bits)
    then show "encodable width (sint d)"
      using eq signed_take_bit_int_less_exp [of "width + 1" "sint d AND NOT 3"]
        signed_take_bit_int_greater_eq_minus_exp [of "width + 1" "sint d AND NOT 3"]
      by (simp add: encodable_def)
  next
    assume e: "encodable width (sint d)"
    have "sint d AND NOT 3 = sint d"
    proof (rule bit_eqI)
      fix m
      have "\<not> bit (sint d) m" if "m < 2"
        using e that unfolding encodable_def four_dvd_bits by (cases m) auto
      then show "bit (sint d AND NOT 3) m \<longleftrightarrow> bit (sint d) m"
        by (cases "m < 2") (auto simp: bit_and_iff bit_int_minus_four)
    qed
    then have "sint ?x = sint d"
      using e sx by (simp add: encodable_def signed_take_bit_int_eq_self)
    then show "?x = d" by (simp add: signed_word_eqI)
  qed
qed

section \<open>The branch table\<close>

lemmas branch_rows_def =
  branch_b_bl_def branch_b_cond_def branch_cbz_cbnz_def branch_tbz_tbnz_def kBranchInstructionInfo_def

lemma branch_rowE:
  assumes "branch_row w = Some info"
  shows "info \<in> set kBranchInstructionInfo" and "matches (matcher info) w"
  using assms by (auto simp: branch_row_def find_Some_iff)

lemma branch_table_fields:
  "info \<in> set kBranchInstructionInfo \<Longrightarrow>
     1 \<le> field_width (displacement info) \<and> 14 \<le> field_width (displacement info) \<and>
     field_width (displacement info) \<le> 30 \<and>
     lsb (displacement info) + field_width (displacement info) \<le> 32"
  by (auto simp: branch_rows_def)

text \<open>No word matches two rows, so the order of the table does not matter.\<close>

lemma branch_rows_conflict:
  "a \<in> set kBranchInstructionInfo \<Longrightarrow> b \<in> set kBranchInstructionInfo \<Longrightarrow> a \<noteq> b \<Longrightarrow>
   conflicts (matcher a) (matcher b)"
  by (auto simp: branch_rows_def conflicts_def)

lemma branch_row_eq:
  assumes "info \<in> set kBranchInstructionInfo" "matches (matcher info) w"
  shows "branch_row w = Some info"
proof -
  have "branch_row w \<noteq> None"
    using assms by (auto simp: branch_row_def find_None_iff)
  then obtain info' where i: "branch_row w = Some info'" by auto
  with assms branch_rowE [OF i] have "info' = info"
    by (metis branch_rows_conflict matches_conflict)
  with i show ?thesis by simp
qed

text \<open>Rewriting the displacement field leaves the row that matches unchanged.\<close>

lemma matcher_avoids_field:
  "info \<in> set kBranchInstructionInfo \<Longrightarrow>
   mask (matcher info) AND push_bit (lsb (displacement info)) (2 ^ field_width (displacement info) - 1) = 0"
  by (auto simp: branch_rows_def)

lemma Rewrite_keeps_matches:
  assumes "mask m AND push_bit l (2 ^ width - 1) = (0 :: u32)"
  shows "matches m (RewriteBranchDisplacement w l width d) = matches m w"
proof -
  let ?f = "push_bit l (2 ^ width - 1) :: u32"
  have "RewriteBranchDisplacement w l width d AND mask m = w AND mask m"
  proof (rule bit_word_eqI)
    fix n assume n: "n < LENGTH(32)"
    have "\<not> (bit (mask m) n \<and> bit ?f n)"
      using assms by (metis bit_0_eq bit_and_iff bot_apply bot_bool_def)
    then show "bit (RewriteBranchDisplacement w l width d AND mask m) n = bit (w AND mask m) n"
      using n by (auto simp: RewriteBranchDisplacement_def Let_def bit_and_iff bit_or_iff bit_not_iff)
  qed
  then show ?thesis by (simp add: matches_def)
qed

lemma branch_row_Rewrite:
  assumes "branch_row w = Some info"
  shows "branch_row (RewriteBranchDisplacement w (lsb (displacement info))
           (field_width (displacement info)) d) = Some info"
  using branch_rowE [OF assms] Rewrite_keeps_matches matcher_avoids_field
  by (intro branch_row_eq) auto

text \<open>The filter accepts every direct branch, whatever its displacement.\<close>

lemma branches_avoid_tables:
  "info \<in> set kBranchInstructionInfo \<Longrightarrow>
     (\<forall>m \<in> set kBannedInstructions. conflicts (matcher info) m) \<and>
     (\<forall>r \<in> set kRequiredInstructionBits. conflicts (matcher info) (pattern r)) \<and>
     conflicts (matcher info) kSysregInstruction \<and> conflicts (matcher info) kSystemInstruction"
  by (simp add: branch_rows_def)
    (elim disjE; simp add: filter_tables_def conflicts_def)

lemma branch_InstructionIsOK:
  assumes "branch_row w = Some info"
  shows "InstructionIsOK w default_filter_config"
proof -
  note row = branch_rowE [OF assms]
  note avoid = branches_avoid_tables [OF row(1)]
  have "\<not> list_ex (\<lambda>m. matches m w) kBannedInstructions"
    using avoid row(2) by (auto simp: list_ex_iff dest: matches_conflict)
  moreover have "\<not> list_ex (\<lambda>r. violates_requirements r w) kRequiredInstructionBits"
    using avoid row(2) by (auto simp: list_ex_iff violates_requirements_def dest: matches_conflict)
  moreover have "\<not> matches kSysregInstruction w" "\<not> matches kSystemInstruction w"
    using avoid row(2) by (auto dest: matches_conflict)
  ultimately show ?thesis
    by (simp add: InstructionIsOK_def default_filter_config_def is_system_insn_def)
qed

section \<open>AArch64 meets the interface\<close>

definition good_aarch64 :: "insn \<Rightarrow> bool" where
  "good_aarch64 i \<longleftrightarrow>
     length (encoded i) = 4 \<and>
     (valid (direct_branch i) \<longrightarrow> branch_row (le32_load (encoded i)) \<noteq> None) \<and>
     InstructionIsOK (le32_load (encoded i)) default_filter_config"

definition disp_aarch64 :: "byte list \<Rightarrow> u64 option" where
  "disp_aarch64 bytes =
     (case branch_row (le32_load bytes) of
        None \<Rightarrow> None
      | Some info \<Rightarrow> Some (scast (ExtractBranchDisplacement (le32_load bytes)
                                    (lsb (displacement info)) (field_width (displacement info)))))"

lemma from_bytes_aarch64:
  "returns (\<lambda>(ok, i). ok \<longrightarrow>
      good_aarch64 i \<and> in_sync disp_aarch64 i \<and>
      instruction_boundary (direct_branch i) = kInvalidInstructionBoundary \<and>
      (valid (direct_branch i) \<longrightarrow> \<bar>sint (encoded_byte_displacement (direct_branch i))\<bar> < 2 ^ 61) \<and>
      length (encoded i) \<le> length bytes \<and> encoded i = take (length (encoded i)) bytes)
    (InstructionFromBytes_AArch64 dis default_insn_config must bytes i0)"
proof (cases "length bytes < 4")
  case False
  then obtain b0 b1 b2 b3 rest where bytes: "bytes = b0 # b1 # b2 # b3 # rest"
    by (auto simp: not_less numeral_eq_Suc Suc_le_length_iff)
  let ?w = "le32_load [b0, b1, b2, b3]"
  have "\<bar>sint (scast (x :: u32) :: u64)\<bar> < 2 ^ 61" for x
    using sint_greater_eq [of x] sint_less [of x] by (simp add: abs_less_iff sint_scast_u32)
  then show ?thesis
    by (auto simp: InstructionFromBytes_AArch64_def Let_def bytes insn_data_copy_def
        default_insn_config_def good_aarch64_def in_sync_def disp_aarch64_def
        GetDirectBranchInfo_def no_displacement_def valid_def StaticInstructionFilter_AArch64_def
        split: option.splits)
qed (simp add: InstructionFromBytes_AArch64_def Let_def)

lemma reencode_aarch64:
  assumes i: "good_aarch64 i" and v: "valid (direct_branch i)"
  obtains info j where "branch_row (le32_load (encoded i)) = Some info"
    and "TryToReencode_AArch64 i =
           ret (encodable (field_width (displacement info))
                  (sint (encoded_byte_displacement (direct_branch i))), j)"
    and "good_aarch64 j" "direct_branch j = direct_branch i" "offset j = offset i"
    and "encodable (field_width (displacement info)) (sint (encoded_byte_displacement (direct_branch i)))
           \<longrightarrow> in_sync disp_aarch64 j"
proof -
  let ?w = "le32_load (encoded i)" let ?d = "encoded_byte_displacement (direct_branch i)"
  from i v obtain info where row: "branch_row ?w = Some info" by (auto simp: good_aarch64_def)
  let ?l = "lsb (displacement info)" let ?fw = "field_width (displacement info)"
  let ?w' = "RewriteBranchDisplacement ?w ?l ?fw (ucast ?d)"
  let ?j = "i\<lparr>encoded := le32_store ?w'\<rparr>"
  have row': "branch_row ?w' = Some info" using row by (rule branch_row_Rewrite)
  have ok: "scast (ExtractBranchDisplacement ?w' ?l ?fw) = ?d \<longleftrightarrow> encodable ?fw (sint ?d)"
    using branch_table_fields [OF branch_rowE(1) [OF row]] by (intro Extract_Rewrite_iff) auto
  show thesis
  proof (rule that [of info ?j])
    show "branch_row ?w = Some info" by (rule row)
    show "TryToReencode_AArch64 i = ret (encodable ?fw (sint ?d), ?j)"
      using row ok by (simp add: TryToReencode_AArch64_def Let_def)
    show "good_aarch64 ?j"
      using row' branch_InstructionIsOK [OF row'] by (simp add: good_aarch64_def)
    show "encodable ?fw (sint ?d) \<longrightarrow> in_sync disp_aarch64 ?j"
      using row' ok by (simp add: in_sync_def disp_aarch64_def)
  qed simp_all
qed

end
