(* ===== verification/Program_Parse.thy ===== *)
theory Program_Parse
  imports Arch_Laws
begin

text \<open>
  The constructor of \<open>Program<Arch>\<close> from bytes: the search for the closest boundary, the
  resolution of displacements into boundaries, the parse loop, and the round trip of a strict
  parse through \<open>FixupEncodedDisplacements\<close> and \<open>ToBytes\<close>.
\<close>

section \<open>Signed distances\<close>

lemma i64_dist:
  assumes "\<bar>sint a - sint b\<bar> < 2 ^ 63"
  obtains d v where "i64_sub a b = ret d" "i64_abs d = ret v" "sint v = \<bar>sint a - sint b\<bar>"
proof -
  let ?d = "word_of_int (sint a - sint b) :: u64"
  have d: "sint ?d = sint a - sint b"
    using assms by (intro sint_word_of_int_u64) auto
  have sub: "i64_sub a b = ret ?d"
    using assms by (simp add: i64_sub_def Let_def abs_less_iff)
  have "sint (- ?d) = - sint ?d"
  proof -
    have "- ?d = word_of_int (- (sint a - sint b))" by simp
    moreover have "sint (word_of_int (- (sint a - sint b)) :: u64) = - (sint a - sint b)"
      using assms by (intro sint_word_of_int_u64) auto
    ultimately show ?thesis using d by metis
  qed
  then have "i64_abs ?d = ret (if sint ?d < 0 then - ?d else ?d)"
    and "sint (if sint ?d < 0 then - ?d else ?d) = \<bar>sint a - sint b\<bar>"
    using assms d by (auto simp: i64_abs_def)
  with sub show thesis by (rule that)
qed

section \<open>The closest boundary\<close>

text \<open>The offset of a boundary, as the code computes it on a program that has instructions.\<close>

definition boundary_word :: "program \<Rightarrow> nat \<Rightarrow> u64" where
  "boundary_word p b = (if b < NumInstructions p then offset (instructions p ! b)
                        else let i = last (instructions p)
                             in offset i + of_nat (length (encoded i)))"

abbreviation boundary_pos :: "program \<Rightarrow> nat \<Rightarrow> int" where
  "boundary_pos p b \<equiv> sint (boundary_word p b)"

lemma boundary_word:
  assumes "instructions p \<noteq> []" "b < NumInstructionBoundaries p"
  shows "InstructionBoundaryToProgramByteOffset p b = ret (boundary_word p b)"
  using assms by (simp add: InstructionBoundaryToProgramByteOffset_def boundary_word_def Let_def)

definition closest :: "program \<Rightarrow> int \<Rightarrow> nat \<Rightarrow> bool" where
  "closest p pos c \<longleftrightarrow> c < NumInstructionBoundaries p \<and>
     (\<forall>b < NumInstructionBoundaries p. \<bar>boundary_pos p c - pos\<bar> \<le> \<bar>boundary_pos p b - pos\<bar>) \<and>
     (\<forall>b < c. \<bar>boundary_pos p c - pos\<bar> < \<bar>boundary_pos p b - pos\<bar>)"

lemma FindClosest_closest:
  assumes p: "instructions p \<noteq> []"
    and bound: "\<And>b. b < NumInstructionBoundaries p \<Longrightarrow> \<bar>boundary_pos p b - sint pos\<bar> < 2 ^ 63 - 1"
  shows "returns (closest p (sint pos)) (FindClosestInstructionBoundary p pos)"
proof -
  let ?dist = "\<lambda>b. \<bar>boundary_pos p b - sint pos\<bar>"
  let ?n = "NumInstructionBoundaries p"
  let ?I = "\<lambda>k (c, s). if k = 0 then (c, s) = (kInvalidInstructionBoundary, 2 ^ 63 - 1 :: u64)
      else c < k \<and> sint s = ?dist c \<and> (\<forall>b < k. ?dist c \<le> ?dist b) \<and> (\<forall>b < c. ?dist c < ?dist b)"
  let ?f = "\<lambda>i (closest_boundary, smallest_diff).
              rbind (InstructionBoundaryToProgramByteOffset p i) (\<lambda>boundary_offset.
              rbind (i64_sub boundary_offset pos) (\<lambda>d.
              rbind (i64_abs d) (\<lambda>diff.
              ret (if sint diff < sint smallest_diff then (i, diff)
                   else (closest_boundary, smallest_diff)))))"
  have top: "sint (2 ^ 63 - 1 :: u64) = 2 ^ 63 - 1" by simp
  have "returns (?I (0 + ?n)) (for_range ?f 0 ?n (kInvalidInstructionBoundary, 2 ^ 63 - 1))"
  proof (rule for_range_returns)
    fix k :: nat and s :: "nat \<times> u64"
    assume k: "0 \<le> k" "k < 0 + ?n" and I: "?I k s"
    have v: "InstructionBoundaryToProgramByteOffset p k = ret (boundary_word p k)"
      using boundary_word [OF p, of k] k by simp
    obtain d x where x: "i64_sub (boundary_word p k) pos = ret d" "i64_abs d = ret x" "sint x = ?dist k"
      using i64_dist [of "boundary_word p k" pos] bound [of k] k by auto
    obtain c q where s: "s = (c, q)" by (cases s)
    show "returns (?I (Suc k)) (?f k s)"
    proof (cases "k = 0")
      case True
      then show ?thesis
        using v x I s bound [of k] k top by (simp del: sint_n1)
    next
      case False
      with I s have c: "c < k" "sint q = ?dist c" "\<forall>b < k. ?dist c \<le> ?dist b" "\<forall>b < c. ?dist c < ?dist b"
        by auto
      then show ?thesis
        using v x s
        by (auto simp: less_Suc_eq intro: less_imp_le dest: less_le_trans)
    qed
  qed simp
  then show ?thesis
    unfolding FindClosestInstructionBoundary_def
    by (rule returns_rbind) (auto simp: closest_def NumInstructionBoundaries_def)
qed

section \<open>Parsing\<close>

text \<open>What the parse loop knows of an instruction it has decoded from \<open>n\<close> bytes.\<close>

definition decoded :: "(insn \<Rightarrow> bool) \<Rightarrow> (byte list \<Rightarrow> u64 option) \<Rightarrow> nat \<Rightarrow> insn \<Rightarrow> bool" where
  "decoded good disp n i \<longleftrightarrow>
     good i \<and> in_sync disp i \<and>
     (valid (direct_branch i) \<longrightarrow> \<bar>sint (encoded_byte_displacement (direct_branch i))\<bar> < 2 ^ 61) \<and>
     (\<exists>k. offset i = of_nat k \<and> k + length (encoded i) \<le> n)"

definition unresolved :: "insn \<Rightarrow> bool" where
  "unresolved i \<longleftrightarrow> instruction_boundary (direct_branch i) = kInvalidInstructionBoundary"

lemma sint_of_nat_u64: "k < 2 ^ 63 \<Longrightarrow> sint (of_nat k :: u64) = int k"
  using sint_word_of_int_u64 [of "int k"] by simp

lemma decoded_boundary_pos:
  assumes "\<forall>i \<in> set (instructions p). decoded good disp n i" "instructions p \<noteq> []" "n < 2 ^ 61"
    and "b < NumInstructionBoundaries p"
  shows "0 \<le> boundary_pos p b \<and> boundary_pos p b < 2 ^ 61"
proof (cases "b < NumInstructions p")
  case True
  then have "decoded good disp n (instructions p ! b)" using assms(1) by simp
  then obtain k where "offset (instructions p ! b) = of_nat k" "k \<le> n"
    by (auto simp: decoded_def)
  then show ?thesis using True assms(3) by (simp add: boundary_word_def sint_of_nat_u64)
next
  case False
  have "decoded good disp n (last (instructions p))" using assms(1,2) by simp
  then obtain k where k: "offset (last (instructions p)) = of_nat k"
      "k + length (encoded (last (instructions p))) \<le> n"
    by (auto simp: decoded_def)
  have "boundary_word p b = of_nat (k + length (encoded (last (instructions p))))"
    using False k by (simp add: boundary_word_def Let_def)
  then show ?thesis using k(2) assms(3) by (simp add: sint_of_nat_u64 del: of_nat_add)
qed

lemma resolve_pos:
  assumes "decoded good disp n i" "valid (direct_branch i)" "n < 2 ^ 61"
  shows "\<bar>sint (offset i + encoded_byte_displacement (direct_branch i))\<bar> < 2 ^ 62"
proof -
  let ?d = "sint (encoded_byte_displacement (direct_branch i))"
  from assms obtain k where k: "offset i = of_nat k" "k \<le> n" and d: "\<bar>?d\<bar> < 2 ^ 61"
    by (auto simp: decoded_def)
  have "offset i + encoded_byte_displacement (direct_branch i) = word_of_int (int k + ?d)"
    using k by simp
  moreover have "sint (word_of_int (int k + ?d) :: u64) = int k + ?d"
    using k d assms(3) by (intro sint_word_of_int_u64) auto
  ultimately have "sint (offset i + encoded_byte_displacement (direct_branch i)) = int k + ?d"
    by metis
  then show ?thesis using k d assms(3) by auto
qed

context arch_laws
begin

lemma decoded_boundary [simp]:
  "decoded good disp n (i\<lparr>direct_branch := (direct_branch i)\<lparr>instruction_boundary := b\<rparr>\<rparr>) \<longleftrightarrow>
   decoded good disp n i"
proof -
  have "good (i\<lparr>direct_branch := (direct_branch i)\<lparr>instruction_boundary := b\<rparr>\<rparr>) = good i"
    by (auto intro: good_cong [of i] simp: valid_def
        elim!: good_cong [of "i\<lparr>direct_branch := (direct_branch i)\<lparr>instruction_boundary := b\<rparr>\<rparr>"])
  then show ?thesis by (simp add: decoded_def valid_def)
qed

text \<open>Resolving one displacement: the closest boundary is recorded, nothing else changes.\<close>

lemma resolve_one_returns:
  assumes dec: "\<forall>i \<in> set (instructions p). decoded good disp n i" and n: "n < 2 ^ 61"
    and k: "k < NumInstructions p" and un: "unresolved (instructions p ! k)"
    and len: "NumInstructions p \<le> max_insns A"
  shows "returns (\<lambda>q. (\<exists>b. q = set_insn k ((instructions p ! k)\<lparr>direct_branch :=
             (direct_branch (instructions p ! k))\<lparr>instruction_boundary := b\<rparr>\<rparr>) p \<and>
             (valid (direct_branch (instructions p ! k)) \<longrightarrow> closest p (sint (offset (instructions p ! k)
                 + encoded_byte_displacement (direct_branch (instructions p ! k)))) b)) \<and>
           branch_ok (NumInstructionBoundaries p) (instructions q ! k)) (resolve_one False k p)"
proof (cases "valid (direct_branch (instructions p ! k))")
  case False
  then show ?thesis
    using un k
    by (auto simp: resolve_one_def Let_def set_insn_same branch_ok_def unresolved_def
        intro!: exI [of _ "instruction_boundary (direct_branch (instructions p ! k))"])
next
  case True
  let ?i = "instructions p ! k"
  let ?pos = "offset ?i + encoded_byte_displacement (direct_branch ?i)"
  have ne: "instructions p \<noteq> []" using k by auto
  have "decoded good disp n ?i" using dec k by simp
  note pos = resolve_pos [OF this True n]
  have "\<bar>boundary_pos p b - sint ?pos\<bar> < 2 ^ 63 - 1" if "b < NumInstructionBoundaries p" for b
    using decoded_boundary_pos [OF dec ne n that] pos by (auto simp: abs_less_iff)
  from FindClosest_closest [OF ne this]
  obtain b where b: "FindClosestInstructionBoundary p ?pos = ret b" "closest p (sint ?pos) b"
    by (auto elim!: returnsE)
  have "b < NumInstructionBoundaries p" using b(2) by (simp add: closest_def)
  moreover have "b \<noteq> kInvalidInstructionBoundary"
    using calculation len max_insns_lt
    by (simp add: NumInstructionBoundaries_def kInvalidInstructionBoundary_def)
  ultimately show ?thesis
    using True un k b
    by (auto simp: resolve_one_def Let_def unresolved_def branch_ok_def valid_def)
qed

lemma ResolveDisplacements_returns:
  assumes dec: "\<forall>i \<in> set (instructions p). decoded good disp n i" and n: "n < 2 ^ 61"
    and un: "\<forall>i \<in> set (instructions p). unresolved i"
    and len: "NumInstructions p \<le> max_insns A"
  shows "returns (\<lambda>q. NumInstructions q = NumInstructions p \<and>
           map encoded (instructions q) = map encoded (instructions p) \<and>
           (\<forall>i \<in> set (instructions q). decoded good disp n i \<and> branch_ok (NumInstructionBoundaries q) i) \<and>
           encodings_may_be_invalid q = encodings_may_be_invalid p)
         (ResolveDisplacements False p)"
proof -
  let ?m = "NumInstructions p"
  let ?I = "\<lambda>k q. NumInstructions q = ?m \<and> map encoded (instructions q) = map encoded (instructions p) \<and>
      (\<forall>i \<in> set (instructions q). decoded good disp n i) \<and>
      (\<forall>j < k. branch_ok (Suc ?m) (instructions q ! j)) \<and>
      (\<forall>j < ?m. k \<le> j \<longrightarrow> unresolved (instructions q ! j)) \<and>
      encodings_may_be_invalid q = encodings_may_be_invalid p"
  have "returns (?I (0 + ?m)) (for_range (resolve_one False) 0 ?m p)"
  proof (rule for_range_returns)
    fix k q assume k: "0 \<le> k" "k < 0 + ?m" and I: "?I k q"
    have k': "k < NumInstructions q" using k I by simp
    have nb: "NumInstructionBoundaries q = Suc ?m" using I by (simp add: NumInstructionBoundaries_def)
    have "returns (\<lambda>q'. (\<exists>b. q' = set_insn k ((instructions q ! k)\<lparr>direct_branch :=
             (direct_branch (instructions q ! k))\<lparr>instruction_boundary := b\<rparr>\<rparr>) q) \<and>
           branch_ok (Suc ?m) (instructions q' ! k)) (resolve_one False k q)"
      using I k len n nb
      by (intro returns_mono [OF resolve_one_returns [of q n k]]) auto
    then show "returns (?I (Suc k)) (resolve_one False k q)"
    proof (rule returns_mono, clarify)
      fix b
      let ?j = "(instructions q ! k)\<lparr>direct_branch :=
                  (direct_branch (instructions q ! k))\<lparr>instruction_boundary := b\<rparr>\<rparr>"
      assume ok: "branch_ok (Suc ?m) (instructions (set_insn k ?j q) ! k)"
      have "map encoded ((instructions q)[k := ?j]) = map encoded (instructions q)"
        using k' by (simp add: map_update list_update_same_conv)
      moreover have "decoded good disp n ?j" using I k' by simp
      ultimately show "?I (Suc k) (set_insn k ?j q)"
        using I ok k' by (auto simp: nth_list_update less_Suc_eq dest!: subsetD [OF set_update_subset_insert])
    qed
  qed (use dec un in auto)
  then show ?thesis
    unfolding ResolveDisplacements_def
    by (rule returns_mono) (auto simp: all_set_conv_all_nth NumInstructionBoundaries_def)
qed

text \<open>The parse loop on \<open>n\<close> bytes: what it holds, and that each round consumes bytes.\<close>

definition parse_inv :: "nat \<Rightarrow> byte list \<times> u64 \<times> insn list \<Rightarrow> bool" where
  "parse_inv n = (\<lambda>(left, off, acc).
     (left = [] \<or> (\<exists>k. off = of_nat k \<and> k + length left = n)) \<and>
     (\<forall>i \<in> set acc. decoded good disp n i \<and> unresolved i) \<and>
     length acc + length left \<le> n)"

lemma parse_round_returns:
  assumes I: "parse_inv n s" and n: "n \<le> max_insns A"
  shows "returns (\<lambda>x. case x of
            Break is \<Rightarrow> (\<forall>i \<in> set is. decoded good disp n i \<and> unresolved i) \<and> length is \<le> n
          | Continue s' \<Rightarrow> parse_inv n s' \<and> length (fst s') < length (fst s))
         (parse_round A default_insn_config False s)"
proof -
  obtain left off acc where s: "s = (left, off, acc)" by (cases s) auto
  show ?thesis
  proof (cases "left = []")
    case True
    then show ?thesis using I by (simp add: s parse_round_def parse_inv_def)
  next
    case False
    with I obtain k where k: "off = of_nat k" "k + length left = n" by (auto simp: s parse_inv_def)
    from from_bytes [OF False, of False empty_insn] obtain ok i where
        dec: "insn_from_bytes A default_insn_config False left empty_insn = ret (ok, i)"
      and ok: "ok \<longrightarrow> good i \<and> in_sync disp i \<and> unresolved i \<and>
        (valid (direct_branch i) \<longrightarrow> \<bar>sint (encoded_byte_displacement (direct_branch i))\<bar> < 2 ^ 61) \<and>
        length (encoded i) \<le> length left"
      by (auto elim!: returnsE simp: unresolved_def)
    show ?thesis
    proof (cases ok)
      case True
      with ok have len: "0 < length (encoded i)" "length (encoded i) \<le> length left"
        using good_size by auto
      have "decoded good disp n (i\<lparr>offset := off\<rparr>)" "unresolved (i\<lparr>offset := off\<rparr>)"
        using True ok k len by (auto simp: decoded_def unresolved_def)
      moreover have "length acc < max_insns A"
        using I n False by (cases left) (auto simp: s parse_inv_def)
      moreover have "parse_inv n (drop (length (encoded i)) left, off + of_nat (length (encoded i)),
                                  acc @ [i\<lparr>offset := off\<rparr>])"
      proof -
        have "off + of_nat (length (encoded i)) = of_nat (k + length (encoded i))"
          "k + length (encoded i) + length (drop (length (encoded i)) left) = n"
          using k len by simp_all
        moreover have "length (acc @ [i\<lparr>offset := off\<rparr>]) + length (drop (length (encoded i)) left) \<le> n"
        proof -
          have "length acc + length left \<le> n" using I by (simp add: s parse_inv_def)
          with len show ?thesis unfolding length_append length_drop list.size by arith
        qed
        ultimately show ?thesis
          using I \<open>decoded good disp n (i\<lparr>offset := off\<rparr>)\<close> \<open>unresolved (i\<lparr>offset := off\<rparr>)\<close>
          unfolding parse_inv_def s prod.case by auto
      qed
      ultimately show ?thesis
        using True False dec len by (simp add: s parse_round_def)
    next
      case notok: False
      let ?m = "if encoded i = [] then min_size A else length (encoded i)"
      have m: "0 < ?m" using min_size_pos by simp
      have "drop ?m left = [] \<or> (\<exists>l. off + of_nat ?m = of_nat l \<and> l + length (drop ?m left) = n)"
      proof (cases "?m < length left")
        case True
        then show ?thesis using k by (intro disjI2 exI [of _ "k + ?m"]) simp
      qed simp
      then show ?thesis
        using notok False dec I m
        by (auto simp: s parse_round_def parse_inv_def Let_def diff_less split: if_splits)
    qed
  qed
qed

lemma parse_insns_returns:
  assumes n: "length bytes \<le> max_insns A"
  shows "returns (\<lambda>is. (\<forall>i \<in> set is. decoded good disp (length bytes) i \<and> unresolved i) \<and>
                       length is \<le> length bytes)
           (parse_insns A default_insn_config False bytes)"
  unfolding parse_insns_def
proof (rule rloop_returns [where I = "parse_inv (length bytes)" and m = "\<lambda>s. length (fst s)"])
  fix s assume "parse_inv (length bytes) s"
  from parse_round_returns [OF this n] show "returns (\<lambda>x. case x of
        Break is \<Rightarrow> (\<forall>i \<in> set is. decoded good disp (length bytes) i \<and> unresolved i) \<and>
                     length is \<le> length bytes
      | Continue s' \<Rightarrow> parse_inv (length bytes) s' \<and> length (fst s') < length (fst s))
    (parse_round A default_insn_config False s)" .
qed (simp add: parse_inv_def)

text \<open>Every byte sequence is accepted and gives a program that satisfies the invariant.\<close>

lemma program_from_bytes_returns:
  assumes n: "length bytes \<le> max_insns A" "length bytes < 2 ^ 61"
  shows "returns (\<lambda>p. prog_inv A good disp p \<and> laid_out p)
           (program_from_bytes A default_insn_config False bytes)"
proof -
  let ?n = "length bytes"
  let ?P = "\<lambda>p. (\<forall>i \<in> set (instructions p). decoded good disp ?n i \<and>
                branch_ok (NumInstructionBoundaries p) i) \<and> NumInstructions p \<le> max_insns A"
  have inv: "prog_inv A good disp (FixupInvariants p) \<and> laid_out (FixupInvariants p)" if "?P p" for p
  proof -
    have "program_ok (FixupInvariants p)" using that by (intro program_ok_FixupInvariants) blast
    then show ?thesis
      using that by (auto simp: prog_inv_def good_in_sync_FixupInvariants laid_out_FixupInvariants
          decoded_def)
  qed
  have "returns ?P (ResolveDisplacements False
          \<lparr>instructions = is, byte_len = 0, encodings_may_be_invalid = True\<rparr>)" 
      (is "returns _ (ResolveDisplacements _ ?p)")
    if "\<forall>i \<in> set is. decoded good disp ?n i \<and> unresolved i" "length is \<le> ?n" for "is"
    using that n ResolveDisplacements_returns [of ?p ?n]
    by (auto elim!: returns_mono)
  then have "returns ?P (rbind (parse_insns A default_insn_config False bytes) (\<lambda>is.
       ResolveDisplacements False \<lparr>instructions = is, byte_len = 0, encodings_may_be_invalid = True\<rparr>))"
    by (intro returns_rbind [OF parse_insns_returns [OF n(1)]]) blast
  then show ?thesis
    unfolding program_from_bytes_def rbind_assoc [symmetric]
    using inv by (elim returns_rbind) simp
qed

end

section \<open>A strict parse is written back unchanged\<close>

definition same_layout :: "program \<Rightarrow> program \<Rightarrow> bool" where
  "same_layout p q \<longleftrightarrow> map encoded (instructions p) = map encoded (instructions q) \<and>
                      map offset (instructions p) = map offset (instructions q)"

lemma same_layout_boundary:
  assumes "same_layout p q"
  shows "InstructionBoundaryToProgramByteOffset p b = InstructionBoundaryToProgramByteOffset q b"
proof -
  have len: "NumInstructions p = NumInstructions q"
    using assms unfolding same_layout_def by (metis length_map)
  have nth: "encoded (instructions p ! k) = encoded (instructions q ! k)"
    "offset (instructions p ! k) = offset (instructions q ! k)" if "k < NumInstructions q" for k
    using assms len that unfolding same_layout_def by (metis nth_map)+
  show ?thesis
    using nth [of b] nth [of "NumInstructions q - 1"] len
    by (cases "instructions q = []")
      (auto simp: InstructionBoundaryToProgramByteOffset_def NumInstructionBoundaries_def Let_def
        last_conv_nth)
qed

text \<open>The displacement of instruction \<open>k\<close> is the one its boundary asks for.\<close>

definition exact_branch :: "program \<Rightarrow> nat \<Rightarrow> bool" where
  "exact_branch p k \<longleftrightarrow> (let i = instructions p ! k in valid (direct_branch i) \<longrightarrow>
     InstructionBoundaryToProgramByteOffset p (instruction_boundary (direct_branch i)) =
       ret (offset i + encoded_byte_displacement (direct_branch i)))"

lemma resolve_one_strict:
  assumes "k < NumInstructions p" "unresolved (instructions p ! k)"
  shows "post (\<lambda>q. \<exists>b. q = set_insn k ((instructions p ! k)\<lparr>direct_branch :=
             (direct_branch (instructions p ! k))\<lparr>instruction_boundary := b\<rparr>\<rparr>) p \<and>
           (if valid (direct_branch (instructions p ! k))
            then InstructionBoundaryToProgramByteOffset p b =
                   ret (offset (instructions p ! k)
                        + encoded_byte_displacement (direct_branch (instructions p ! k)))
            else b = kInvalidInstructionBoundary)) (resolve_one True k p)"
proof -
  have id: "p = set_insn k ((instructions p ! k)\<lparr>direct_branch := (direct_branch (instructions p ! k))
              \<lparr>instruction_boundary := kInvalidInstructionBoundary\<rparr>\<rparr>) p"
  proof -
    have "(direct_branch (instructions p ! k))\<lparr>instruction_boundary := kInvalidInstructionBoundary\<rparr> =
          direct_branch (instructions p ! k)"
      using assms(2) by (simp add: unresolved_def)
    then show ?thesis by (simp add: set_insn_same)
  qed
  show ?thesis
  proof (cases "valid (direct_branch (instructions p ! k))")
    case True
    then show ?thesis
      using assms(2) unfolding unresolved_def
      by (auto simp: post_iff resolve_one_def Let_def rbind_eq_ret check_def split: if_splits)
  qed (use id in \<open>auto simp: resolve_one_def Let_def\<close>)
qed

context arch_laws
begin

lemma parse_strict:
  "post (\<lambda>is. concat (map encoded is) = bytes \<and>
     (\<forall>i \<in> set is. good i \<and> in_sync disp i \<and> unresolved i) \<and>
     (\<forall>k < length is. offset (is ! k) = total_len (take k is)) \<and> length is \<le> max_insns A)
   (parse_insns A default_insn_config True bytes)"
proof -
  let ?G = "\<lambda>is. (\<forall>i \<in> set is. good i \<and> in_sync disp i \<and> unresolved i) \<and>
     (\<forall>k < length is. offset (is ! k) = total_len (take k is)) \<and> length is \<le> max_insns A"
  let ?Q = "\<lambda>is. concat (map encoded is) = bytes \<and> ?G is"
  let ?I = "\<lambda>(left, off, acc). concat (map encoded acc) @ left = bytes \<and> off = total_len acc \<and> ?G acc"
  have "post ?Q (rloop (parse_round A default_insn_config True) (bytes, 0, []))"
  proof (rule rloop_wp [where I = ?I])
    fix s assume "?I s"
    then obtain left acc where s: "s = (left, total_len acc, acc)"
        and I: "concat (map encoded acc) @ left = bytes" "?G acc"
      by (cases s) auto
    show "post (\<lambda>x. case x of Break is \<Rightarrow> ?Q is | Continue s' \<Rightarrow> ?I s')
            (parse_round A default_insn_config True s)"
    proof (cases "left = []")
      case False
      from from_bytes [OF False, of False empty_insn] obtain ok i where
          dec: "insn_from_bytes A default_insn_config False left empty_insn = ret (ok, i)"
        and ok: "ok \<longrightarrow> good i \<and> in_sync disp i \<and> unresolved i \<and>
          encoded i = take (length (encoded i)) left"
        by (auto elim!: returnsE simp: unresolved_def)
      have "encoded i @ drop (length (encoded i)) left = left" if ok
        using that ok by (metis append_take_drop_id)
      then show ?thesis
        using dec ok I False
        by (cases ok) (auto simp: s parse_round_def nth_append less_Suc_eq unresolved_def)
    qed (use I in \<open>simp add: s parse_round_def\<close>)
  qed simp
  then show ?thesis by (simp add: parse_insns_def)
qed

lemma resolve_strict:
  assumes un: "\<forall>i \<in> set (instructions p). unresolved i" and len: "NumInstructions p \<le> max_insns A"
    and g: "\<forall>i \<in> set (instructions p). good i \<and> in_sync disp i"
  shows "post (\<lambda>q. same_layout q p \<and> NumInstructions q = NumInstructions p \<and>
           (\<forall>k < NumInstructions q. exact_branch q k \<and> branch_ok (NumInstructionBoundaries q) (instructions q ! k) \<and>
              good (instructions q ! k) \<and> in_sync disp (instructions q ! k)))
         (ResolveDisplacements True p)"
proof -
  let ?m = "NumInstructions p"
  let ?I = "\<lambda>k q. same_layout q p \<and> NumInstructions q = ?m \<and>
      (\<forall>i \<in> set (instructions q). good i \<and> in_sync disp i) \<and>
      (\<forall>j < k. exact_branch q j \<and> branch_ok (Suc ?m) (instructions q ! j)) \<and>
      (\<forall>j < ?m. k \<le> j \<longrightarrow> unresolved (instructions q ! j))"
  have "post (?I (0 + ?m)) (for_range (resolve_one True) 0 ?m p)"
  proof (rule for_range_wp)
    fix k q assume k: "0 \<le> k" "k < 0 + ?m" and I: "?I k q"
    have k': "k < NumInstructions q" "unresolved (instructions q ! k)" using k I by simp_all
    show "post (?I (Suc k)) (resolve_one True k q)"
    proof (rule wp_mono [OF resolve_one_strict [OF k']], clarify)
      fix b
      let ?i = "instructions q ! k"
      let ?j = "?i\<lparr>direct_branch := (direct_branch ?i)\<lparr>instruction_boundary := b\<rparr>\<rparr>"
      let ?q = "set_insn k ?j q"
      assume b: "if valid (direct_branch ?i)
            then InstructionBoundaryToProgramByteOffset q b =
                   ret (offset ?i + encoded_byte_displacement (direct_branch ?i))
            else b = kInvalidInstructionBoundary"
      have lay: "same_layout ?q q"
        using k' by (simp add: same_layout_def map_update list_update_same_conv)
      then have lay': "same_layout ?q p" using I by (simp add: same_layout_def)
      have j: "good ?j" "in_sync disp ?j" using I k' good_boundary by simp_all
      have bok: "branch_ok (Suc ?m) ?j"
      proof (cases "valid (direct_branch ?i)")
        case True
        with b have "b < NumInstructionBoundaries q"
          by (auto simp: InstructionBoundaryToProgramByteOffset_def rbind_eq_ret check_def split: if_splits)
        then show ?thesis
          using True I len max_insns_lt
          by (simp add: branch_ok_def valid_def NumInstructionBoundaries_def kInvalidInstructionBoundary_def)
      next
        case False
        then show ?thesis using b by (simp add: branch_ok_def valid_def)
      qed
      have ex: "exact_branch ?q l" if "l < Suc k" for l
      proof (cases "l = k")
        case True
        then show ?thesis
          using b k' same_layout_boundary [OF lay] by (simp add: exact_branch_def valid_def split: if_splits)
      next
        case False
        then show ?thesis
          using that I k' same_layout_boundary [OF lay] by (simp add: exact_branch_def)
      qed
      show "?I (Suc k) ?q"
        using I j bok ex lay' k'
        by (auto simp: nth_list_update less_Suc_eq dest!: subsetD [OF set_update_subset_insert])
    qed
  qed (use un g in \<open>auto simp: same_layout_def\<close>)
  then show ?thesis
    unfolding ResolveDisplacements_def
    by (rule wp_mono) (auto simp: NumInstructionBoundaries_def)
qed

end

text \<open>
  When every branch already carries the displacement of its boundary the fixup changes nothing,
  on any architecture.
\<close>

lemma FixupInvariants_laid_out:
  assumes "laid_out p" "byte_len p = total_len (instructions p)"
  shows "FixupInvariants p = p"
proof -
  have "instructions (FixupInvariants p) = instructions p"
    using assms(1) by (intro nth_equalityI) (simp_all add: FixupInvariants_nth laid_out_def)
  then show ?thesis
    using assms(2) by (intro program.equality)
      (simp_all add: FixupInvariants_def Let_def case_prod_unfold lay_out_end)
qed

lemma SyncByteDisplacements_exact:
  "exact_branch p k \<Longrightarrow> SyncByteDisplacements k p = ret (False, p)"
  by (cases "valid (direct_branch (instructions p ! k))")
    (auto simp: exact_branch_def SyncByteDisplacements_def SyncByteDisplacement_def Let_def set_insn_same)

lemma fixup_noop:
  assumes lay: "laid_out p" "byte_len p = total_len (instructions p)"
    and ex: "\<forall>k < NumInstructions p. exact_branch p k"
  shows "FixupEncodedDisplacements A r p = ret (False, p\<lparr>encodings_may_be_invalid := False\<rparr>, r)"
proof -
  let ?s = "\<lambda>k. \<lparr>fx_program = p, fx_rng = r, fx_offset = total_len (take k (instructions p)),
                 fx_stable = True, fx_modified = False\<rparr>"
  have "k + m = NumInstructions p \<Longrightarrow> for_range (fixup_insn A) k m (?s k) = ret (?s (k + m))" for k m
  proof (induction m arbitrary: k)
    case (Suc m)
    then have k: "k < NumInstructions p" by simp
    then have "set_insn k ((instructions p ! k)\<lparr>offset := total_len (take k (instructions p))\<rparr>) p = p"
      using lay(1) by (intro set_insn_same) (simp add: laid_out_def)
    then have "fixup_insn A k (?s k) = ret (?s (Suc k))"
      using SyncByteDisplacements_exact [of p k] ex k lay(1)
      by (simp add: fixup_insn_def Let_def laid_out_def take_Suc_conv_app_nth)
    then show ?case using Suc.IH [of "Suc k"] Suc.prems by simp
  qed simp
  from this [of 0 "NumInstructions p"]
  have "for_range (fixup_insn A) 0 (NumInstructions p) (?s 0) = ret (?s (NumInstructions p))" by simp
  then show ?thesis
    using lay(2) by (simp add: FixupEncodedDisplacements_def Let_def FixupInvariants_laid_out [OF lay])
qed

context arch_laws
begin

lemma strict_round_trip:
  assumes "program_from_bytes A default_insn_config True bytes = ret p"
  shows "prog_inv A good disp p \<and>
         FixupEncodedDisplacements A r p = ret (False, p\<lparr>encodings_may_be_invalid := False\<rparr>, r) \<and>
         ToBytes (p\<lparr>encodings_may_be_invalid := False\<rparr>) = ret bytes"
proof -
  from assms obtain "is" q where "is": "parse_insns A default_insn_config True bytes = ret is"
    and q: "ResolveDisplacements True
              \<lparr>instructions = is, byte_len = 0, encodings_may_be_invalid = True\<rparr> = ret q"
    and p: "p = FixupInvariants q"
    by (auto simp: program_from_bytes_def rbind_eq_ret)
  let ?p0 = "\<lparr>instructions = is, byte_len = 0, encodings_may_be_invalid = True\<rparr>"
  note parsed = wp_retD [OF parse_strict "is"]
  have q': "same_layout q ?p0" "NumInstructions q = length is"
      "\<forall>k < NumInstructions q. exact_branch q k \<and> branch_ok (NumInstructionBoundaries q) (instructions q ! k) \<and>
          good (instructions q ! k) \<and> in_sync disp (instructions q ! k)"
    using wp_retD [OF resolve_strict q] parsed by auto
  have lens: "total_len (take k (instructions q)) = total_len (take k is)" for k
    using q'(1) by (intro total_len_cong) (simp add: same_layout_def take_map [symmetric])
  have lay: "laid_out q"
    unfolding laid_out_def
  proof (intro allI impI)
    fix k assume k: "k < NumInstructions q"
    have "offset (instructions q ! k) = map offset (instructions q) ! k" using k by simp
    also have "\<dots> = offset (is ! k)" using q' k by (simp add: same_layout_def)
    also have "\<dots> = total_len (take k (instructions q))" using parsed q'(2) k lens by simp
    finally show "offset (instructions q ! k) = total_len (take k (instructions q))" .
  qed
  have insns: "instructions p = instructions q"
    using lay unfolding p by (intro nth_equalityI) (simp_all add: FixupInvariants_nth laid_out_def)
  have layp: "laid_out p" unfolding p by (rule laid_out_FixupInvariants)
  have "program_ok p"
    unfolding p using q'(3) by (intro program_ok_FixupInvariants) (simp add: all_set_conv_all_nth)
  then have inv: "prog_inv A good disp p" and len: "byte_len p = total_len (instructions p)"
    using q' parsed insns by (auto simp: prog_inv_def all_set_conv_all_nth program_ok_def)
  have "same_layout p q" using insns by (simp add: same_layout_def)
  then have "\<forall>k < NumInstructions p. exact_branch p k"
    using q'(3) insns same_layout_boundary [of p q] by (simp add: exact_branch_def)
  from fixup_noop [OF layp len this]
  have "FixupEncodedDisplacements A r p = ret (False, p\<lparr>encodings_may_be_invalid := False\<rparr>, r)" .
  moreover have "concat (map encoded (instructions p)) = bytes"
    using parsed q'(1) insns by (simp add: same_layout_def)
  then have "ToBytes (p\<lparr>encodings_may_be_invalid := False\<rparr>) = ret bytes"
    using layp ToBytes_eq [of "p\<lparr>encodings_may_be_invalid := False\<rparr>"] by (simp add: laid_out_def)
  ultimately show ?thesis using inv by simp
qed

end

end
