(* ===== verification/Mutation_Ops.thy ===== *)
theory Mutation_Ops
  imports Program_Model
begin

text \<open>
  \<open>fuzzer/program_mutation_ops.h\<close> and \<open>.cc\<close>: the operations that edit a program at random
  places. A mutation takes the program and the random source and returns whether it
  succeeded with both updated. \<open>other\<close> may be the mutated program itself in the source; the
  two mutations that read it copy the block first, so passing it by value is the same.
\<close>

type_synonym mstate = "program \<times> rng"
type_synonym mutation = "mstate \<Rightarrow> (bool \<times> mstate) res"

section \<open>Random bytes\<close>

text \<open>
  \<open>RandomizeBuffer\<close> writes words of the granularity the buffer and the 8-byte draws share;
  a draw is truncated to it. The host is little-endian.
\<close>

fun randomize_words :: "nat \<Rightarrow> nat \<Rightarrow> rng \<Rightarrow> byte list \<times> rng" where
  "randomize_words granularity 0 r = ([], r)"
| "randomize_words granularity (Suc n) r =
     (let (x, r) = rng_draw r;
          (rest, r) = randomize_words granularity n r
      in (map (\<lambda>j. ucast (drop_bit (8 * j) x)) [0..<granularity] @ rest, r))"

definition RandomizeBuffer :: "nat \<Rightarrow> rng \<Rightarrow> byte list \<times> rng" where
  "RandomizeBuffer n r = (let g = gcd n 8 in randomize_words g (n div g) r)"

definition FlipBit :: "byte list \<Rightarrow> nat \<Rightarrow> byte list" where
  "FlipBit buffer b = buffer[b div 8 := buffer ! (b div 8) XOR push_bit (b mod 8) 1]"

definition FlipRandomBit :: "rng \<Rightarrow> byte list \<Rightarrow> nat \<Rightarrow> (byte list \<times> rng) res" where
  "FlipRandomBit r buffer n =
     rbind (RandomIndex r (n * 8)) (\<lambda>(b, r). ret (FlipBit buffer b, r))"

section \<open>Branch targets of new and moved instructions\<close>

definition CopyOrRandomizeInstructionDisplacementBoundary ::
    "rng \<Rightarrow> displacement_info \<Rightarrow> displacement_info \<Rightarrow> nat \<Rightarrow> (displacement_info \<times> rng) res" where
  "CopyOrRandomizeInstructionDisplacementBoundary r original mutated num_boundaries =
     (if valid mutated
      then (if valid original \<and>
               encoded_byte_displacement mutated = encoded_byte_displacement original
            then ret (mutated\<lparr>instruction_boundary := instruction_boundary original\<rparr>, r)
            else RandomizeInstructionDisplacementBoundary r mutated num_boundaries)
      else ret (mutated, r))"

definition CopyOrRandomizeInstructionDisplacementBoundaries ::
    "rng \<Rightarrow> insn \<Rightarrow> insn \<Rightarrow> nat \<Rightarrow> (insn \<times> rng) res" where
  "CopyOrRandomizeInstructionDisplacementBoundaries r original mutated num_boundaries =
     rbind (CopyOrRandomizeInstructionDisplacementBoundary r (direct_branch original)
              (direct_branch mutated) num_boundaries)
       (\<lambda>(d, r). ret (mutated\<lparr>direct_branch := d\<rparr>, r))"

text \<open>The cast of a \<open>size_t\<close> to \<open>int64_t\<close>.\<close>

definition i64_of_size :: "nat \<Rightarrow> int" where
  "i64_of_size n = sint (of_nat n :: u64)"

definition ShiftOrRandomizeInstructionDisplacementBoundary ::
    "rng \<Rightarrow> displacement_info \<Rightarrow> int \<Rightarrow> nat \<Rightarrow> (displacement_info \<times> rng) res" where
  "ShiftOrRandomizeInstructionDisplacementBoundary r info index_offset num_boundaries =
     (if valid info
      then let shifted = i64_of_size (instruction_boundary info) + index_offset in
           if shifted < 0 \<or> int num_boundaries \<le> shifted
           then rbind (RandomIndex r num_boundaries)
                  (\<lambda>(b, r). ret (info\<lparr>instruction_boundary := b\<rparr>, r))
           else ret (info\<lparr>instruction_boundary := nat shifted\<rparr>, r)
      else ret (info, r))"

definition ShiftOrRandomizeInstructionDisplacementBoundaries ::
    "int \<Rightarrow> nat \<Rightarrow> rng \<Rightarrow> insn \<Rightarrow> (insn \<times> rng) res" where
  "ShiftOrRandomizeInstructionDisplacementBoundaries index_offset num_boundaries r i =
     rbind (ShiftOrRandomizeInstructionDisplacementBoundary r (direct_branch i) index_offset
              num_boundaries)
       (\<lambda>(d, r). ret (i\<lparr>direct_branch := d\<rparr>, r))"

definition ShiftOrRandomizeBlock :: "rng \<Rightarrow> insn list \<Rightarrow> int \<Rightarrow> nat \<Rightarrow> (insn list \<times> rng) res" where
  "ShiftOrRandomizeBlock r block index_offset num_boundaries =
     map_state (ShiftOrRandomizeInstructionDisplacementBoundaries index_offset num_boundaries) r block"

section \<open>Mutating and generating one instruction\<close>

text \<open>Up to \<open>n\<close> bit flips; each result is decoded, the first that decodes is taken.\<close>

fun flip_and_decode ::
    "arch \<Rightarrow> nat \<Rightarrow> nat \<Rightarrow> byte list \<Rightarrow> insn \<Rightarrow> rng \<Rightarrow> (bool \<times> byte list \<times> insn \<times> rng) res" where
  "flip_and_decode A 0 num_old_bytes bytes mutated r = ret (False, bytes, mutated, r)"
| "flip_and_decode A (Suc n) num_old_bytes bytes mutated r =
     rbind (FlipRandomBit r bytes num_old_bytes) (\<lambda>(bytes, r).
     rbind (insn_from_bytes A default_insn_config False bytes mutated) (\<lambda>(ok, mutated).
     if ok then ret (True, bytes, mutated, r)
     else flip_and_decode A n num_old_bytes bytes mutated r))"

fun mutate_attempts ::
    "arch \<Rightarrow> nat \<Rightarrow> byte list \<Rightarrow> insn \<Rightarrow> insn \<Rightarrow> rng \<Rightarrow> (bool \<times> insn \<times> rng) res" where
  "mutate_attempts A 0 bytes original mutated r = ret (False, mutated, r)"
| "mutate_attempts A (Suc n) bytes original mutated r =
     (let (bytes, r) = (if max_size A \<noteq> min_size A then RandomizeBuffer (buffer_size A) r
                        else (bytes, r));
          old = encoded original;
          bytes = old @ drop (length old) bytes
      in rbind (flip_and_decode A 3 (length old) bytes mutated r) (\<lambda>(ok, bytes, mutated, r).
         if ok then ret (True, mutated, r)
         else mutate_attempts A n bytes original mutated r))"

text \<open>
  The buffer starts uninitialised. An architecture whose instructions vary in size randomises
  it; for the others the original instruction overwrites all of it.
\<close>

definition MutateSingleInstruction ::
    "arch \<Rightarrow> rng \<Rightarrow> insn \<Rightarrow> insn \<Rightarrow> (bool \<times> insn \<times> rng) res" where
  "MutateSingleInstruction A r original mutated =
     mutate_attempts A 64 (replicate (buffer_size A) 0) original mutated r"

fun generate_attempts :: "arch \<Rightarrow> nat \<Rightarrow> insn \<Rightarrow> rng \<Rightarrow> (bool \<times> insn \<times> rng) res" where
  "generate_attempts A 0 i r = ret (False, i, r)"
| "generate_attempts A (Suc n) i r =
     (let (bytes, r) = RandomizeBuffer (buffer_size A) r in
      rbind (insn_from_bytes A default_insn_config False bytes i) (\<lambda>(ok, i).
      if ok then ret (True, i, r) else generate_attempts A n i r))"

definition GenerateSingleInstruction :: "arch \<Rightarrow> rng \<Rightarrow> insn \<Rightarrow> (bool \<times> insn \<times> rng) res" where
  "GenerateSingleInstruction A r i = generate_attempts A 64 i r"

section \<open>The mutations\<close>

definition InsertGeneratedInstruction_Mutate :: "arch \<Rightarrow> mutation" where
  "InsertGeneratedInstruction_Mutate A = (\<lambda>(p, r).
     rbind (GenerateSingleInstruction A r empty_insn) (\<lambda>(success, i, r).
     if \<not> success then ret (False, p, r)
     else rbind (RandomizeInstructionDisplacementBoundaries r i (NumInstructionBoundaries p + 1))
            (\<lambda>(i, r).
          rbind (RandomInstructionBoundary r p) (\<lambda>(insert_boundary, r).
          rbind (RandomIndex r 2) (\<lambda>(steal, r).
          rbind (InsertInstruction A insert_boundary (steal \<noteq> 0) i p) (\<lambda>p.
          ret (True, p, r)))))))"

definition MutateInstruction_Mutate :: "arch \<Rightarrow> mutation" where
  "MutateInstruction_Mutate A = (\<lambda>(p, r).
     if NumInstructions p = 0 then ret (False, p, r)
     else rbind (RandomInstructionIndex r p) (\<lambda>(target, r).
          let original = instructions p ! target in
          rbind (MutateSingleInstruction A r original empty_insn) (\<lambda>(ok, mutated, r).
          if ok
          then rbind (CopyOrRandomizeInstructionDisplacementBoundaries r original mutated
                        (NumInstructionBoundaries p)) (\<lambda>(mutated, r).
               rbind (SetInstruction target mutated p) (\<lambda>p.
               ret (True, p, r)))
          else ret (False, p, r))))"

definition DeleteInstruction_Mutate :: "nat \<Rightarrow> mutation" where
  "DeleteInstruction_Mutate minimum_instructions = (\<lambda>(p, r).
     if NumInstructions p \<le> minimum_instructions then ret (False, p, r)
     else rbind (RandomInstructionIndex r p) (\<lambda>(victim, r).
          rbind (RemoveInstruction victim p) (\<lambda>p. ret (True, p, r))))"

text \<open>\<open>while (a == b) b = RandomInstructionIndex(rng)\<close>\<close>

definition redraw_round :: "program \<Rightarrow> nat \<Rightarrow> nat \<times> rng \<Rightarrow> (nat \<times> rng, nat \<times> rng) iter res" where
  "redraw_round p a = (\<lambda>(b, r).
     if a = b then rbind (RandomInstructionIndex r p) (\<lambda>s. ret (Continue s)) else ret (Break (b, r)))"

definition SwapInstructions_Mutate :: mutation where
  "SwapInstructions_Mutate = (\<lambda>(p, r).
     if NumInstructions p < 2 then ret (False, p, r)
     else rbind (RandomInstructionIndex r p) (\<lambda>(a, r).
          rbind (RandomInstructionIndex r p) (\<lambda>br.
          rbind (rloop (redraw_round p a) br) (\<lambda>(b, r).
          let a_instruction = instructions p ! a; b_instruction = instructions p ! b in
          rbind (SetInstruction a b_instruction p) (\<lambda>p.
          rbind (SetInstruction b a_instruction p) (\<lambda>p.
          ret (True, p, r)))))))"

definition CrossoverInsert_Mutate :: "arch \<Rightarrow> program \<Rightarrow> mutation" where
  "CrossoverInsert_Mutate A other = (\<lambda>(p, r).
     if NumInstructions other = 0 then ret (False, p, r)
     else rbind (RandomIndex r (NumInstructions other)) (\<lambda>(n, r).
          let src_size = n + 1 in
          rbind (RandomIndex r (NumInstructions other - src_size + 1)) (\<lambda>(src_index, r).
          rbind (CopyInstructionBlock other src_index src_size) (\<lambda>block.
          rbind (RandomInstructionBoundary r p) (\<lambda>(dst_boundary, r).
          let index_offset = int dst_boundary - int src_index in
          rbind (ShiftOrRandomizeBlock r block index_offset
                   (NumInstructionBoundaries p + length block)) (\<lambda>(block, r).
          rbind (RandomIndex r 2) (\<lambda>(steal, r).
          rbind (InsertInstructionBlock A dst_boundary (steal \<noteq> 0) block p) (\<lambda>p.
          ret (True, p, r)))))))))"

definition CrossoverOverwrite_Mutate :: "program \<Rightarrow> mutation" where
  "CrossoverOverwrite_Mutate other = (\<lambda>(p, r).
     if NumInstructions p = 0 then ret (False, p, r)
     else if NumInstructions other = 0 then ret (False, p, r)
     else let limit = min (max 1 (NumInstructions p div 2)) (NumInstructions other) in
          rbind (RandomIndex r limit) (\<lambda>(n, r).
          let src_size = n + 1 in
          rbind (RandomIndex r (NumInstructions other - src_size + 1)) (\<lambda>(src_index, r).
          rbind (CopyInstructionBlock other src_index src_size) (\<lambda>block.
          rbind (RandomIndex r (NumInstructions p - length block + 1)) (\<lambda>(dst_index, r).
          let index_offset = int dst_index - int src_index in
          rbind (ShiftOrRandomizeBlock r block index_offset (NumInstructionBoundaries p))
            (\<lambda>(block, r).
          rbind (SetInstructionBlock dst_index block p) (\<lambda>p.
          ret (True, p, r))))))))"

section \<open>Limiting the length\<close>

definition limit_round ::
    "u64 \<Rightarrow> bool \<times> mstate \<Rightarrow> (bool \<times> mstate, bool \<times> mstate) iter res" where
  "limit_round max_len = (\<lambda>(modified, p, r).
     if max_len < byte_len p
     then rbind (check (0 < NumInstructions p) ''program.NumInstructions() > 0'') (\<lambda>_.
          rbind (DeleteInstruction_Mutate 0 (p, r)) (\<lambda>(_, s).
          ret (Continue (True, s))))
     else ret (Break (modified, p, r)))"

definition LimitProgramLength :: "u64 \<Rightarrow> mutation" where
  "LimitProgramLength max_len s = rloop (limit_round max_len) (False, s)"

end
