(* ===== verification/Program_Mutators.thy ===== *)
theory Program_Mutators
  imports Mutation_Ops Complex_Main
begin

text \<open>
  \<open>fuzzer/program_mutator.h\<close> and \<open>fuzzer/program_batch_mutator.*\<close>: the combinators that build
  a mutation policy, the policy of the batch mutator, and the production of one output.
  The class hierarchy \<open>ProgramMutator\<close> is a datatype and its virtual \<open>Mutate\<close> a recursive
  function. Weights are rational numbers (the source uses \<open>double\<close>).
\<close>

section \<open>Mutators\<close>

datatype mutator =
    InsertGeneratedInstruction
  | MutateInstruction
  | DeleteInstruction nat
  | SwapInstructions
  | CrossoverInsert
  | CrossoverOverwrite
  | RetryMutation nat mutator
  | RepeatMutation "rat list" mutator
  | SelectMutation "rat list" "mutator list"

text \<open>
  \<open>std::discrete_distribution\<close>: an index whose weight is positive. With no positive weight
  the behaviour is undefined.
\<close>

definition discrete_draw :: "rat list \<Rightarrow> rng \<Rightarrow> (nat \<times> rng) res" where
  "discrete_draw weights r =
     (let candidates = filter (\<lambda>i. 0 < weights ! i) [0..<length weights] in
      if candidates = [] then abort (Undefined ''discrete_distribution without a positive weight'')
      else ret (candidates ! (shd r mod length candidates), stl r))"

fun retry :: "nat \<Rightarrow> mutation \<Rightarrow> mutation" where
  "retry 0 f s = ret (False, s)"
| "retry (Suc n) f s = rbind (f s) (\<lambda>(ok, s). if ok then ret (True, s) else retry n f s)"

fun repeat_mutation :: "nat \<Rightarrow> mutation \<Rightarrow> bool \<Rightarrow> mutation" where
  "repeat_mutation 0 f mutated s = ret (mutated, s)"
| "repeat_mutation (Suc n) f mutated s =
     rbind (f s) (\<lambda>(ok, s). repeat_mutation n f (mutated \<or> ok) s)"

definition RepeatMutation_Mutate :: "rat list \<Rightarrow> mutation \<Rightarrow> mutation" where
  "RepeatMutation_Mutate weights f = (\<lambda>(p, r).
     rbind (discrete_draw weights r) (\<lambda>(repeat_count, r).
     repeat_mutation repeat_count f False (p, r)))"

definition SelectMutation_Mutate :: "rat list \<Rightarrow> mutation list \<Rightarrow> mutation" where
  "SelectMutation_Mutate weights fs = (\<lambda>(p, r).
     rbind (discrete_draw weights r) (\<lambda>(which, r). (fs ! which) (p, r)))"

primrec Mutate :: "arch \<Rightarrow> program \<Rightarrow> mutator \<Rightarrow> mutation" where
  "Mutate A other InsertGeneratedInstruction = InsertGeneratedInstruction_Mutate A"
| "Mutate A other MutateInstruction = MutateInstruction_Mutate A"
| "Mutate A other (DeleteInstruction n) = DeleteInstruction_Mutate n"
| "Mutate A other SwapInstructions = SwapInstructions_Mutate"
| "Mutate A other CrossoverInsert = CrossoverInsert_Mutate A other"
| "Mutate A other CrossoverOverwrite = CrossoverOverwrite_Mutate other"
| "Mutate A other (RetryMutation limit m) = retry limit (Mutate A other m)"
| "Mutate A other (RepeatMutation weights m) = RepeatMutation_Mutate weights (Mutate A other m)"
| "Mutate A other (SelectMutation weights ms) =
     SelectMutation_Mutate weights (map (Mutate A other) ms)"

section \<open>The batch mutator\<close>

definition clamp_weight :: "rat \<Rightarrow> rat" where
  "clamp_weight w = max (min w 1) 0"

definition batch_mutator :: "rat \<Rightarrow> mutator" where
  "batch_mutator crossover_weight =
     (let w = clamp_weight crossover_weight in
      RetryMutation 128
        (SelectMutation [1 - w, 1 / 2 * w, 1 / 2 * w]
           [RepeatMutation [0, 1, 1, 1, 1]
              (RetryMutation 128
                 (SelectMutation [2, 5, 1, 2]
                    [InsertGeneratedInstruction, MutateInstruction, SwapInstructions,
                     DeleteInstruction 3])),
            CrossoverInsert,
            CrossoverOverwrite]))"

definition add_round :: "arch \<Rightarrow> mstate \<Rightarrow> (mstate, mstate) iter res" where
  "add_round A = (\<lambda>(p, r).
     if byte_len p = 0
     then rbind (InsertGeneratedInstruction_Mutate A (p, r)) (\<lambda>(_, s). ret (Continue s))
     else ret (Break (p, r)))"

definition AddInstructionIfZeroLength :: "arch \<Rightarrow> mstate \<Rightarrow> mstate res" where
  "AddInstructionIfZeroLength A = rloop (add_round A)"

definition finalize_round :: "arch \<Rightarrow> u64 \<Rightarrow> mstate \<Rightarrow> (mstate, mstate) iter res" where
  "finalize_round A max_len = (\<lambda>(p, r).
     rbind (FixupEncodedDisplacements A r p) (\<lambda>(modified, p, r).
     if \<not> modified then ret (Break (p, r))
     else rbind (LimitProgramLength max_len (p, r)) (\<lambda>(limited, s).
          if \<not> limited then ret (Break s) else ret (Continue s))))"

definition FinalizeProgram :: "arch \<Rightarrow> u64 \<Rightarrow> mstate \<Rightarrow> mstate res" where
  "FinalizeProgram A max_len s =
     rbind (AddInstructionIfZeroLength A s) (\<lambda>s.
     rbind (LimitProgramLength max_len s) (\<lambda>(_, s).
     rloop (finalize_round A max_len) s))"

definition GenerateSingleOutput ::
    "arch \<Rightarrow> mutator \<Rightarrow> u64 \<Rightarrow> program \<Rightarrow> program \<Rightarrow> rng \<Rightarrow> (byte list \<times> rng) res" where
  "GenerateSingleOutput A m max_len input other r =
     rbind (Mutate A other m (input, r)) (\<lambda>(_, s).
     rbind (FinalizeProgram A max_len s) (\<lambda>(p, r).
     rbind (ToBytes p) (\<lambda>output. ret (output, r))))"

fun parse_inputs :: "arch \<Rightarrow> byte list list \<Rightarrow> program list res" where
  "parse_inputs A [] = ret []"
| "parse_inputs A (bytes # inputs) =
     rbind (program_from_bytes A default_insn_config False bytes) (\<lambda>p.
     rbind (parse_inputs A inputs) (\<lambda>ps. ret (p # ps)))"

fun generate_mutants ::
    "arch \<Rightarrow> mutator \<Rightarrow> u64 \<Rightarrow> program list \<Rightarrow> nat \<Rightarrow> rng \<Rightarrow> (byte list list \<times> rng) res" where
  "generate_mutants A m max_len programs 0 r = ret ([], r)"
| "generate_mutants A m max_len programs (Suc n) r =
     rbind (RandomIndex r (length programs)) (\<lambda>(base, r).
     rbind (RandomIndex r (length programs)) (\<lambda>(other, r).
     rbind (GenerateSingleOutput A m max_len (programs ! base) (programs ! other) r) (\<lambda>(output, r).
     rbind (generate_mutants A m max_len programs n r) (\<lambda>(outputs, r).
     ret (output # outputs, r)))))"

text \<open>\<open>ProgramBatchMutator::Mutate\<close>; the caller provides one slot per mutant.\<close>

definition BatchMutate ::
    "arch \<Rightarrow> rat \<Rightarrow> u64 \<Rightarrow> byte list list \<Rightarrow> nat \<Rightarrow> rng \<Rightarrow> (byte list list \<times> rng) res" where
  "BatchMutate A crossover_weight max_len inputs num_mutants r =
     rbind (parse_inputs A inputs) (\<lambda>programs.
     generate_mutants A (batch_mutator crossover_weight) max_len programs num_mutants r)"

end
