(* ===== verification/Mutation_Safety.thy ===== *)
theory Mutation_Safety
  imports Program_Parse Program_Mutators
begin

text \<open>
  Every mutation keeps the program invariant and fails no \<open>CHECK\<close>, on every architecture that
  meets the interface; the combinators keep what their children keep; the length limit holds
  afterwards. On a fixed-width architecture the finished program is within the limit, resolved
  and ready for output.
\<close>

section \<open>Random choices\<close>

lemma RandomIndex_returns: "0 < n \<Longrightarrow> returns (\<lambda>(i, r'). i < n) (RandomIndex r n)"
  by (simp add: RandomIndex_def)

lemma RandomIndex_ret: "0 < n \<Longrightarrow> RandomIndex r n = ret (shd r mod n, stl r)"
  by (simp add: RandomIndex_def)

lemma length_randomize_words: "length (fst (randomize_words g n r)) = g * n"
  by (induction n arbitrary: r) (simp_all add: case_prod_unfold Let_def)

lemma length_RandomizeBuffer: "length (fst (RandomizeBuffer n r)) = n"
  by (simp add: RandomizeBuffer_def Let_def length_randomize_words)

lemma length_FlipBit [simp]: "length (FlipBit bytes b) = length bytes"
  by (simp add: FlipBit_def)

lemma FlipRandomBit_returns:
  "0 < n \<Longrightarrow> returns (\<lambda>(bytes', r'). length bytes' = length bytes) (FlipRandomBit r bytes n)"
  by (auto simp: FlipRandomBit_def RandomIndex_def)

context arch_laws
begin

section \<open>New and moved instructions\<close>

definition fresh :: "insn \<Rightarrow> bool" where
  "fresh i \<longleftrightarrow> good i \<and> in_sync disp i \<and> unresolved i"

definition placed :: "nat \<Rightarrow> insn \<Rightarrow> bool" where
  "placed num_boundaries i \<longleftrightarrow> branch_ok num_boundaries i \<and> good i \<and> in_sync disp i"

lemma decode_returns:
  "bytes \<noteq> [] \<Longrightarrow>
   returns (\<lambda>(ok, i). ok \<longrightarrow> fresh i) (insn_from_bytes A default_insn_config must bytes i0)"
  by (rule returns_mono [OF from_bytes]) (auto simp: fresh_def unresolved_def)

lemma flip_and_decode_returns:
  assumes "0 < n" "bytes \<noteq> []"
  shows "returns (\<lambda>(ok, bytes', i, r'). ok \<longrightarrow> fresh i) (flip_and_decode A k n bytes m r)"
  using assms(2)
proof (induction k arbitrary: bytes m r)
  case (Suc k)
  obtain bytes' r' where f: "FlipRandomBit r bytes n = ret (bytes', r')" "length bytes' = length bytes"
    using FlipRandomBit_returns [OF assms(1), of bytes r] by (auto elim!: returnsE)
  then have ne: "bytes' \<noteq> []" using Suc.prems by auto
  obtain ok i where d: "insn_from_bytes A default_insn_config False bytes' m = ret (ok, i)" "ok \<longrightarrow> fresh i"
    using decode_returns [OF ne, of False m] by (auto elim!: returnsE)
  show ?case using f d Suc.IH [OF ne] by (cases ok) simp_all
qed simp

lemma mutate_attempts_returns:
  assumes "good original"
  shows "returns (\<lambda>(ok, i, r'). ok \<longrightarrow> fresh i) (mutate_attempts A k bytes original m r)"
proof (induction k arbitrary: bytes m r)
  case (Suc k)
  have n: "0 < length (encoded original)" using good_size [OF assms] by simp
  obtain bytes' r' where b: "(if max_size A \<noteq> min_size A then RandomizeBuffer (buffer_size A) r
                               else (bytes, r)) = (bytes', r')"
    by (metis surj_pair)
  have ne: "encoded original @ drop (length (encoded original)) bytes' \<noteq> []" using n by simp
  obtain ok bs i r2 where "flip_and_decode A 3 (length (encoded original))
      (encoded original @ drop (length (encoded original)) bytes') m r' = ret (ok, bs, i, r2)"
      "ok \<longrightarrow> fresh i"
    using flip_and_decode_returns [OF n ne, of 3 m r'] by (auto elim!: returnsE)
  then show ?case using Suc.IH by (simp add: b Let_def)
qed simp

lemma generate_attempts_returns:
  "returns (\<lambda>(ok, i, r'). ok \<longrightarrow> fresh i) (generate_attempts A k i0 r)"
proof (induction k arbitrary: i0 r)
  case (Suc k)
  obtain bytes r' where b: "RandomizeBuffer (buffer_size A) r = (bytes, r')" by (metis surj_pair)
  then have ne: "bytes \<noteq> []"
    using length_RandomizeBuffer [of "buffer_size A" r] buffer_size_pos by auto
  obtain ok i where "insn_from_bytes A default_insn_config False bytes i0 = ret (ok, i)" "ok \<longrightarrow> fresh i"
    using decode_returns [OF ne, of False i0] by (auto elim!: returnsE)
  then show ?case using Suc.IH by (simp add: b)
qed simp

lemma randomize_placed:
  assumes "fresh i" "0 < n" "n < kInvalidInstructionBoundary"
  shows "returns (\<lambda>(j, r'). placed n j) (RandomizeInstructionDisplacementBoundaries r i n)"
proof (cases "valid (direct_branch i)")
  case True
  have "shd r mod n < n" using assms(2) by simp
  then have "shd r mod n < n \<and> shd r mod n \<noteq> kInvalidInstructionBoundary" using assms(3) by linarith
  then have "placed n (i\<lparr>direct_branch := (direct_branch i)\<lparr>instruction_boundary := shd r mod n\<rparr>\<rparr>)"
    using assms True good_boundary by (simp add: placed_def fresh_def branch_ok_def valid_def)
  then show ?thesis
    using True assms(2) by (simp add: RandomizeInstructionDisplacementBoundaries_def
        RandomizeInstructionDisplacementBoundary_def RandomIndex_def)
qed (use assms in \<open>simp add: RandomizeInstructionDisplacementBoundaries_def placed_def fresh_def
        branch_ok_def unresolved_def\<close>)

lemma copy_or_randomize_placed:
  assumes i: "fresh i" and o: "branch_ok n original" and n: "0 < n" "n < kInvalidInstructionBoundary"
  shows "returns (\<lambda>(j, r'). placed n j)
           (CopyOrRandomizeInstructionDisplacementBoundaries r original i n)"
proof (cases "valid (direct_branch i)")
  case True
  have upd: "placed n (i\<lparr>direct_branch := (direct_branch i)\<lparr>instruction_boundary := b\<rparr>\<rparr>)"
    if "b < n" for b
    using i n True that good_boundary by (simp add: placed_def fresh_def branch_ok_def valid_def)
  show ?thesis
  proof (cases "valid (direct_branch original) \<and>
      encoded_byte_displacement (direct_branch i) = encoded_byte_displacement (direct_branch original)")
    case same: True
    then have "instruction_boundary (direct_branch original) < n" using o by (simp add: branch_ok_def)
    then show ?thesis
      using True same upd by (simp add: CopyOrRandomizeInstructionDisplacementBoundaries_def
          CopyOrRandomizeInstructionDisplacementBoundary_def)
  next
    case False
    have "shd r mod n < n" using n by simp
    then show ?thesis
      using True False upd n
      by (auto simp: CopyOrRandomizeInstructionDisplacementBoundaries_def
          CopyOrRandomizeInstructionDisplacementBoundary_def
          RandomizeInstructionDisplacementBoundary_def RandomIndex_def)
  qed
qed (use i in \<open>simp add: CopyOrRandomizeInstructionDisplacementBoundaries_def
      CopyOrRandomizeInstructionDisplacementBoundary_def placed_def fresh_def branch_ok_def unresolved_def\<close>)

lemma shift_or_randomize_placed:
  assumes i: "placed m i" and n: "0 < n" "n < kInvalidInstructionBoundary"
  shows "returns (\<lambda>(j, r'). placed n j)
           (ShiftOrRandomizeInstructionDisplacementBoundaries offs n r i)"
proof (cases "valid (direct_branch i)")
  case True
  have upd: "placed n (i\<lparr>direct_branch := (direct_branch i)\<lparr>instruction_boundary := b\<rparr>\<rparr>)"
    if "b < n" for b
    using i n True that good_boundary by (simp add: placed_def branch_ok_def valid_def)
  have "shd r mod n < n" using n by simp
  then show ?thesis
    using True upd n
    by (auto simp: ShiftOrRandomizeInstructionDisplacementBoundaries_def
        ShiftOrRandomizeInstructionDisplacementBoundary_def RandomIndex_def Let_def)
qed (use i in \<open>simp add: ShiftOrRandomizeInstructionDisplacementBoundaries_def
      ShiftOrRandomizeInstructionDisplacementBoundary_def placed_def branch_ok_def\<close>)

lemma shift_block_placed:
  assumes "\<forall>i \<in> set block. placed m i" and n: "0 < n" "n < kInvalidInstructionBoundary"
  shows "returns (\<lambda>(block', r'). length block' = length block \<and> (\<forall>i \<in> set block'. placed n i))
           (ShiftOrRandomizeBlock r block offs n)"
  unfolding ShiftOrRandomizeBlock_def
  using assms(1)
proof (induction block arbitrary: r)
  case (Cons i block)
  obtain j r1 where "ShiftOrRandomizeInstructionDisplacementBoundaries offs n r i = ret (j, r1)" "placed n j"
    using shift_or_randomize_placed [of m i n offs r] Cons.prems n by (auto elim!: returnsE)
  moreover obtain js r2 where
      "map_state (ShiftOrRandomizeInstructionDisplacementBoundaries offs n) r1 block = ret (js, r2)"
      "length js = length block" "\<forall>i \<in> set js. placed n i"
    using Cons.IH [of r1] Cons.prems by (auto elim!: returnsE)
  ultimately show ?case by simp
qed simp

section \<open>The mutations\<close>

abbreviation inv :: "program \<Rightarrow> bool" where
  "inv \<equiv> prog_inv A good disp"

lemma inv_placed: "inv p \<Longrightarrow> i \<in> set (instructions p) \<Longrightarrow> placed (NumInstructionBoundaries p) i"
  by (simp add: prog_inv_def program_ok_def placed_def)

lemma inv_boundaries: "inv p \<Longrightarrow> m \<le> max_insns A \<Longrightarrow>
    NumInstructionBoundaries p + m < kInvalidInstructionBoundary"
  using max_insns_lt
  by (simp add: prog_inv_def NumInstructionBoundaries_def kInvalidInstructionBoundary_def)

abbreviation keeps :: "(bool \<times> mstate) res \<Rightarrow> bool" where
  "keeps m \<equiv> safe (\<lambda>(ok, p, r). inv p) m"

lemma insert_generated_keeps:
  assumes "inv p"
  shows "safe (\<lambda>(ok, q, r'). inv q \<and> (ok \<longrightarrow> NumInstructions q = NumInstructions p + 1))
           (InsertGeneratedInstruction_Mutate A (p, r))"
proof -
  have nb: "NumInstructionBoundaries p + 1 < kInvalidInstructionBoundary"
    using assms max_insns_lt
    by (simp add: prog_inv_def NumInstructionBoundaries_def kInvalidInstructionBoundary_def)
  obtain ok i r1 where g: "GenerateSingleInstruction A r empty_insn = ret (ok, i, r1)" "ok \<longrightarrow> fresh i"
    using generate_attempts_returns [of 64 empty_insn r]
    by (auto elim!: returnsE simp: GenerateSingleInstruction_def)
  show ?thesis
  proof (cases ok)
    case True
    then obtain j r2 where j: "RandomizeInstructionDisplacementBoundaries r1 i
        (NumInstructionBoundaries p + 1) = ret (j, r2)" "placed (NumInstructionBoundaries p + 1) j"
      using randomize_placed [of i "NumInstructionBoundaries p + 1" r1] g nb
      by (auto elim!: returnsE)
    have "safe (\<lambda>q. inv q \<and> NumInstructions q = NumInstructions p + 1)
            (InsertInstruction A b steal j p)" if "b < NumInstructionBoundaries p" for b steal
      using insert_inv [OF assms that, of "[j]" steal] j
      by (simp add: InsertInstruction_def placed_def)
    then have "safe (\<lambda>q. inv q \<and> NumInstructions q = NumInstructions p + 1)
        (InsertInstruction A (shd r2 mod NumInstructionBoundaries p) steal j p)" for steal
      by (simp add: NumInstructionBoundaries_def)
    then show ?thesis
      using True g j
      by (auto simp: InsertGeneratedInstruction_Mutate_def RandomInstructionBoundary_def RandomIndex_def
          NumInstructionBoundaries_def intro!: safe_rbind)
  qed (use g assms in \<open>simp add: InsertGeneratedInstruction_Mutate_def\<close>)
qed

lemma mutate_instruction_keeps:
  assumes "inv p"
  shows "keeps (MutateInstruction_Mutate A (p, r))"
proof (cases "NumInstructions p = 0")
  case False
  let ?n = "NumInstructionBoundaries p"
  let ?t = "shd r mod NumInstructions p"
  have t: "?t < NumInstructions p" using False by simp
  then have mem: "instructions p ! ?t \<in> set (instructions p)" by simp
  then have good: "good (instructions p ! ?t)" "branch_ok ?n (instructions p ! ?t)"
    using inv_placed [OF assms mem] by (simp_all add: placed_def)
  have nb: "0 < ?n" "?n < kInvalidInstructionBoundary"
    using inv_boundaries [OF assms, of 0] by (simp_all add: NumInstructionBoundaries_def)
  obtain ok i r1 where m: "MutateSingleInstruction A (stl r) (instructions p ! ?t) empty_insn
      = ret (ok, i, r1)" "ok \<longrightarrow> fresh i"
    using mutate_attempts_returns [OF good(1), of 64 "replicate (buffer_size A) 0" empty_insn "stl r"]
    by (auto elim!: returnsE simp: MutateSingleInstruction_def)
  show ?thesis
  proof (cases ok)
    case True
    then obtain j r2 where j: "CopyOrRandomizeInstructionDisplacementBoundaries r1
        (instructions p ! ?t) i ?n = ret (j, r2)" "placed ?n j"
      using copy_or_randomize_placed [OF _ good(2) nb, of i r1] m by (auto elim!: returnsE)
    have "returns (\<lambda>q. inv q \<and> NumInstructions q = NumInstructions p) (SetInstructionBlock ?t [j] p)"
      using set_block_inv [OF assms, of ?t "[j]"] t j by (simp add: placed_def)
    then obtain q where "SetInstructionBlock ?t [j] p = ret q" "inv q" by (auto elim!: returnsE)
    then show ?thesis
      using True False m j by (simp add: MutateInstruction_Mutate_def RandomInstructionIndex_def
          RandomIndex_def Let_def SetInstruction_def)
  qed (use False m assms in \<open>simp add: MutateInstruction_Mutate_def RandomInstructionIndex_def
          RandomIndex_def Let_def\<close>)
qed (use assms in \<open>simp add: MutateInstruction_Mutate_def\<close>)

lemma delete_keeps:
  assumes "inv p"
  shows "returns (\<lambda>(ok, q, r'). inv q \<and> (if n < NumInstructions p
                     then ok \<and> Suc (NumInstructions q) = NumInstructions p else \<not> ok \<and> q = p))
           (DeleteInstruction_Mutate n (p, r))"
proof (cases "n < NumInstructions p")
  case True
  then have N: "0 < NumInstructions p" by linarith
  then have "shd r mod NumInstructions p < NumInstructions p" by (rule mod_less_divisor)
  from remove_inv [OF assms this] obtain q where
      "RemoveInstruction (shd r mod NumInstructions p) p = ret q" "inv q"
      "Suc (NumInstructions q) = NumInstructions p"
    by (auto elim!: returnsE)
  then show ?thesis
    using True RandomIndex_ret [OF N] by (simp add: DeleteInstruction_Mutate_def RandomInstructionIndex_def)
qed (use assms in \<open>simp add: DeleteInstruction_Mutate_def\<close>)

lemma redraw_safe:
  assumes "0 < NumInstructions p" "b < NumInstructions p"
  shows "safe (\<lambda>(b', r'). b' < NumInstructions p \<and> b' \<noteq> a) (rloop (redraw_round p a) (b, r))"
proof (rule rloop_safe [where I = "\<lambda>(b, r). b < NumInstructions p"])
  fix s :: "nat \<times> rng" assume "case s of (b, r) \<Rightarrow> b < NumInstructions p"
  then show "safe (\<lambda>x. case x of Break (b', r') \<Rightarrow> b' < NumInstructions p \<and> b' \<noteq> a
        | Continue (b, r) \<Rightarrow> b < NumInstructions p) (redraw_round p a s)"
    using assms(1) by (auto simp: redraw_round_def RandomInstructionIndex_def RandomIndex_def split: prod.splits)
qed (use assms in simp)

lemma swap_keeps:
  assumes "inv p"
  shows "keeps (SwapInstructions_Mutate (p, r))"
proof (cases "NumInstructions p < 2")
  case False
  let ?n = "NumInstructions p"
  have set: "returns (\<lambda>q'. inv q' \<and> NumInstructions q' = ?n) (SetInstruction k i q)"
    if "inv q" "NumInstructions q = ?n" "k < ?n" "i \<in> set (instructions p)" for q k i
    using set_block_inv [OF that(1), of k "[i]"] inv_placed [OF assms that(4)] that
    by (simp add: SetInstruction_def placed_def NumInstructionBoundaries_def)
  have step: "keeps (rbind (SetInstruction a (instructions p ! b) p) (\<lambda>q.
      rbind (SetInstruction b (instructions p ! a) q) (\<lambda>q. ret (True, q, r'))))"
    if ab: "a < ?n" "b < ?n" for a b r'
  proof -
    obtain q where q: "SetInstruction a (instructions p ! b) p = ret q" "inv q" "NumInstructions q = ?n"
      using set [OF assms refl ab(1), of "instructions p ! b"] ab by (auto elim!: returnsE)
    obtain q' where "SetInstruction b (instructions p ! a) q = ret q'" "inv q'"
      using set [OF q(2,3) ab(2), of "instructions p ! a"] ab by (auto elim!: returnsE)
    with q show ?thesis by simp
  qed
  have pos: "0 < ?n" using False by linarith
  then have "shd r mod ?n < ?n" "shd (stl r) mod ?n < ?n" by (rule mod_less_divisor)+
  note lt = this(1,2)
  note redraw = redraw_safe [OF pos lt(2), of "shd r mod ?n" "stl (stl r)"]
  show ?thesis
    using False RandomIndex_ret [OF pos]
    by (simp add: SwapInstructions_Mutate_def RandomInstructionIndex_def Let_def)
      (rule safe_rbind [OF redraw], auto simp del: wp_simps intro: step lt)
qed (use assms in \<open>simp add: SwapInstructions_Mutate_def\<close>)

subsection \<open>Crossover\<close>

lemma copy_block_placed:
  assumes "inv other" "src + n \<le> NumInstructions other"
  shows "returns (\<lambda>block. length block = n \<and>
           (\<forall>i \<in> set block. placed (NumInstructionBoundaries other) i))
         (CopyInstructionBlock other src n)"
  using assms inv_placed [OF assms(1)]
  by (auto simp: CopyInstructionBlock_def dest!: in_set_takeD in_set_dropD)

lemma crossover_insert_keeps:
  assumes p: "inv p" and other: "inv other"
  shows "keeps (CrossoverInsert_Mutate A other (p, r))"
proof (cases "NumInstructions other = 0")
  case False
  let ?n = "NumInstructions other"
  obtain sz src dst where def: "Suc (shd r mod ?n) = sz" "shd (stl r) mod Suc (?n - sz) = src"
      "shd (stl (stl r)) mod NumInstructionBoundaries p = dst"
    by blast
  have n: "0 < ?n" using False by linarith
  then have "shd r mod ?n < ?n" by (rule mod_less_divisor)
  then have sz: "sz \<le> ?n" using def(1) by linarith
  have "src < Suc (?n - sz)" unfolding def(2) [symmetric] by (rule mod_less_divisor) simp
  then have "src + sz \<le> ?n" using sz by linarith
  from copy_block_placed [OF other this] obtain block where
      block: "CopyInstructionBlock other src sz = ret block" "length block = sz"
        "\<forall>i \<in> set block. placed (NumInstructionBoundaries other) i"
    by (auto elim!: returnsE)
  have "length block \<le> max_insns A" using block(2) sz other by (simp add: prog_inv_def)
  from inv_boundaries [OF p this] have
      nb: "NumInstructionBoundaries p + sz < kInvalidInstructionBoundary" using block(2) by simp
  have pos: "0 < NumInstructionBoundaries p" by (simp add: NumInstructionBoundaries_def)
  then have dst: "dst < NumInstructionBoundaries p" using def(3) mod_less_divisor by blast
  obtain moved r' where moved: "ShiftOrRandomizeBlock (stl (stl (stl r))) block (int dst - int src)
        (NumInstructionBoundaries p + sz) = ret (moved, r')" "length moved = length block"
        "\<forall>i \<in> set moved. placed (NumInstructionBoundaries p + sz) i"
    using shift_block_placed [OF block(3) _ nb, of "stl (stl (stl r))" "int dst - int src"] pos
    by (auto elim!: returnsE)
  have ins: "safe inv (InsertInstructionBlock A dst steal moved p)" for steal
    using insert_inv [OF p dst, of moved steal] moved block(2) by (auto simp: placed_def elim: safe_mono)
  show ?thesis
    unfolding CrossoverInsert_Mutate_def RandomInstructionBoundary_def
    using n pos
    by (simp add: RandomIndex_ret def block(1,2) moved(1) Let_def)
      (rule safe_rbind [OF ins], simp)
qed (use p in \<open>simp add: CrossoverInsert_Mutate_def\<close>)

lemma crossover_overwrite_keeps:
  assumes p: "inv p" and other: "inv other"
  shows "keeps (CrossoverOverwrite_Mutate other (p, r))"
proof (cases "NumInstructions p = 0 \<or> NumInstructions other = 0")
  case False
  let ?n = "NumInstructions other" and ?m = "NumInstructions p"
  obtain lim where lim: "min (max 1 (?m div 2)) ?n = lim" by blast
  obtain sz src dst where def: "Suc (shd r mod lim) = sz" "shd (stl r) mod Suc (?n - sz) = src"
      "shd (stl (stl r)) mod Suc (?m - sz) = dst"
    by blast
  have pos: "0 < lim" "lim \<le> ?n" "lim \<le> ?m" using False unfolding lim [symmetric] by linarith+
  then have "shd r mod lim < lim" by simp
  then have sz: "sz \<le> ?n" "sz \<le> ?m" using def(1) pos by linarith+
  have "src < Suc (?n - sz)" unfolding def(2) [symmetric] by (rule mod_less_divisor) simp
  then have "src + sz \<le> ?n" using sz by linarith
  from copy_block_placed [OF other this] obtain block where
      block: "CopyInstructionBlock other src sz = ret block" "length block = sz"
        "\<forall>i \<in> set block. placed (NumInstructionBoundaries other) i"
    by (auto elim!: returnsE)
  have nb: "0 < NumInstructionBoundaries p" "NumInstructionBoundaries p < kInvalidInstructionBoundary"
    using inv_boundaries [OF p, of 0] by (simp_all add: NumInstructionBoundaries_def)
  have "dst < Suc (?m - sz)" unfolding def(3) [symmetric] by (rule mod_less_divisor) simp
  then have dst: "dst + sz \<le> ?m" using sz by linarith
  obtain moved r' where moved: "ShiftOrRandomizeBlock (stl (stl (stl r))) block (int dst - int src)
        (NumInstructionBoundaries p) = ret (moved, r')" "length moved = length block"
        "\<forall>i \<in> set moved. placed (NumInstructionBoundaries p) i"
    using shift_block_placed [OF block(3) nb, of "stl (stl (stl r))" "int dst - int src"]
    by (auto elim!: returnsE)
  obtain q where q: "SetInstructionBlock dst moved p = ret q" "inv q"
    using set_block_inv [OF p, of dst moved] moved dst block(2) by (auto elim!: returnsE simp: placed_def)
  have ne: "?n \<noteq> 0" "?m \<noteq> 0" using False by simp_all
  show ?thesis
    unfolding CrossoverOverwrite_Mutate_def Let_def split if_not_P [OF ne(1)] if_not_P [OF ne(2)] lim
    using pos(1)
    by (simp add: RandomIndex_ret def block(1,2) moved(1) q)
qed (use p in \<open>auto simp: CrossoverOverwrite_Mutate_def\<close>)

end

end
