(* ===== verification/Batch_Safety.thy ===== *)
theory Batch_Safety
  imports Mutation_Safety
begin

text \<open>
  The mutation policy and the production of one output: the combinators keep what their children
  keep, the length limit is met and its loop stops, and the finished program is resolved, within
  the limit and ready for output.
\<close>

section \<open>Well-formed policies\<close>

text \<open>Every weighted choice has a positive weight, and a child for every weight.\<close>

definition has_positive :: "rat list \<Rightarrow> bool" where
  "has_positive weights \<longleftrightarrow> (\<exists>w \<in> set weights. 0 < w)"

fun wf_mutator :: "mutator \<Rightarrow> bool" where
  "wf_mutator (RetryMutation limit m) = wf_mutator m"
| "wf_mutator (RepeatMutation weights m) = (has_positive weights \<and> wf_mutator m)"
| "wf_mutator (SelectMutation weights ms) =
     (has_positive weights \<and> length weights = length ms \<and> (\<forall>m \<in> set ms. wf_mutator m))"
| "wf_mutator _ = True"

lemma discrete_draw_returns:
  assumes "has_positive weights"
  shows "returns (\<lambda>(i, r'). i < length weights \<and> 0 < weights ! i) (discrete_draw weights r)"
proof -
  let ?c = "filter (\<lambda>i. 0 < weights ! i) [0..<length weights]"
  have ne: "?c \<noteq> []"
    using assms by (force simp: has_positive_def filter_empty_conv in_set_conv_nth)
  then have "shd r mod length ?c < length ?c" by simp
  then have "?c ! (shd r mod length ?c) \<in> set ?c" by (rule nth_mem)
  then have "?c ! (shd r mod length ?c) < length weights \<and> 0 < weights ! (?c ! (shd r mod length ?c))"
    by simp
  then show ?thesis using ne unfolding discrete_draw_def Let_def by simp
qed

lemma clamp_weight_range: "0 \<le> clamp_weight w \<and> clamp_weight w \<le> 1"
  by (simp add: clamp_weight_def)

lemma wf_batch_mutator: "wf_mutator (batch_mutator w)"
proof -
  have "0 < 1 - clamp_weight w \<or> 0 < 1 / 2 * clamp_weight w"
    using clamp_weight_range [of w] by auto
  then show ?thesis by (auto simp: batch_mutator_def Let_def has_positive_def)
qed

context arch_laws
begin

section \<open>Combinators\<close>

text \<open>A mutation that keeps the invariant from every state.\<close>

definition keeper :: "mutation \<Rightarrow> bool" where
  "keeper f \<longleftrightarrow> (\<forall>p r. inv p \<longrightarrow> keeps (f (p, r)))"

lemma keeperD: "keeper f \<Longrightarrow> inv p \<Longrightarrow> keeps (f (p, r))"
  by (simp add: keeper_def)

lemma retry_keeps: "keeper f \<Longrightarrow> keeper (retry n f)"
proof (induction n)
  case (Suc n)
  show ?case
    unfolding keeper_def
  proof (intro allI impI)
    fix p r assume "inv p"
    then show "keeps (retry (Suc n) f (p, r))"
      using Suc by (auto simp: keeper_def intro!: safe_rbind [where P = "\<lambda>(ok, p, r). inv p"])
  qed
qed (simp add: keeper_def)

lemma repeat_keeps: "keeper f \<Longrightarrow> keeper (repeat_mutation n f mutated)"
proof (induction n arbitrary: mutated)
  case (Suc n)
  show ?case
    unfolding keeper_def
  proof (intro allI impI)
    fix p r assume "inv p"
    then show "keeps (repeat_mutation (Suc n) f mutated (p, r))"
      using Suc by (auto simp: keeper_def intro!: safe_rbind [where P = "\<lambda>(ok, p, r). inv p"])
  qed
qed (simp add: keeper_def)

lemma RepeatMutation_keeps:
  assumes "has_positive weights" "keeper f"
  shows "keeper (RepeatMutation_Mutate weights f)"
  unfolding keeper_def
proof (intro allI impI)
  fix p r assume p: "inv p"
  obtain n r' where "discrete_draw weights r = ret (n, r')"
    using discrete_draw_returns [OF assms(1), of r] by (auto elim!: returnsE)
  then show "keeps (RepeatMutation_Mutate weights f (p, r))"
    using keeperD [OF repeat_keeps [OF assms(2)] p] by (simp add: RepeatMutation_Mutate_def)
qed

lemma SelectMutation_keeps:
  assumes "has_positive weights" "length weights = length fs" "\<forall>f \<in> set fs. keeper f"
  shows "keeper (SelectMutation_Mutate weights fs)"
  unfolding keeper_def
proof (intro allI impI)
  fix p r assume p: "inv p"
  obtain i r' where "discrete_draw weights r = ret (i, r')" "i < length fs"
    using discrete_draw_returns [OF assms(1), of r] assms(2) by (auto elim!: returnsE)
  then show "keeps (SelectMutation_Mutate weights fs (p, r))"
    using assms(3) p by (auto simp: SelectMutation_Mutate_def keeper_def)
qed

lemma Mutate_keeps:
  assumes "inv other"
  shows "wf_mutator m \<Longrightarrow> keeper (Mutate A other m)"
proof (induction m)
  case InsertGeneratedInstruction
  show ?case
    unfolding keeper_def by (auto intro!: safe_mono [OF insert_generated_keeps])
next
  case (DeleteInstruction n)
  show ?case
    by (auto simp: keeper_def intro!: returns_wp elim!: returns_mono [OF delete_keeps [of _ n]])
next
  case (SelectMutation weights ms)
  then show ?case by (auto intro!: SelectMutation_keeps)
qed (use assms in \<open>auto simp: keeper_def mutate_instruction_keeps swap_keeps crossover_insert_keeps
      crossover_overwrite_keeps intro!: keeperD [OF retry_keeps] keeperD [OF RepeatMutation_keeps]\<close>)

section \<open>The length limit\<close>

lemma byte_len_pos: "inv p \<Longrightarrow> byte_len p \<noteq> 0 \<Longrightarrow> 0 < NumInstructions p"
  by (cases "instructions p") (auto simp: prog_inv_def program_ok_def)

text \<open>
  The loop stops because every round removes an instruction; its \<open>CHECK\<close> holds because a
  program without instructions has length 0.
\<close>

lemma limit_returns:
  assumes "inv p"
  shows "returns (\<lambda>(limited, q, r'). inv q \<and> byte_len q \<le> max_len \<and>
           NumInstructions q \<le> NumInstructions p \<and>
           (if limited then max_len < byte_len p else q = p \<and> r' = r))
         (LimitProgramLength max_len (p, r))"
  unfolding LimitProgramLength_def
proof (rule rloop_returns [where m = "\<lambda>(l, q, r). NumInstructions q"
      and I = "\<lambda>(l, q, r'). inv q \<and> NumInstructions q \<le> NumInstructions p \<and>
                 (if l then max_len < byte_len p else q = p \<and> r' = r)"])
  fix s :: "bool \<times> mstate"
  assume "case s of (l, q, r') \<Rightarrow> inv q \<and> NumInstructions q \<le> NumInstructions p \<and>
                 (if l then max_len < byte_len p else q = p \<and> r' = r)"
  then obtain l q r' where s: "s = (l, q, r')" and I: "inv q" "NumInstructions q \<le> NumInstructions p"
      "if l then max_len < byte_len p else q = p \<and> r' = r"
    by (cases s) auto
  show "returns (\<lambda>x. case x of
        Break (limited, q, r') \<Rightarrow> inv q \<and> byte_len q \<le> max_len \<and>
           NumInstructions q \<le> NumInstructions p \<and> (if limited then max_len < byte_len p else q = p \<and> r' = r)
      | Continue s' \<Rightarrow> (case s' of (l, q, r') \<Rightarrow> inv q \<and> NumInstructions q \<le> NumInstructions p \<and>
                 (if l then max_len < byte_len p else q = p \<and> r' = r)) \<and>
            (case s' of (l, q, r) \<Rightarrow> NumInstructions q) < (case s of (l, q, r) \<Rightarrow> NumInstructions q))
      (limit_round max_len s)"
  proof (cases "max_len < byte_len q")
    case True
    then have "byte_len q \<noteq> 0" by auto
    then have n: "0 < NumInstructions q" using byte_len_pos [OF I(1)] by blast
    obtain q' r2 where d: "DeleteInstruction_Mutate 0 (q, r') = ret (True, q', r2)" "inv q'"
        "Suc (NumInstructions q') = NumInstructions q"
      using delete_keeps [OF I(1), of 0 r'] n by (auto elim!: returnsE)
    then show ?thesis
      using True n I by (auto simp: s limit_round_def split: if_splits)
  qed (use I in \<open>auto simp: s limit_round_def not_less\<close>)
qed (use assms in simp)

section \<open>Finishing a program\<close>

lemma add_instruction_safe:
  assumes "inv p"
  shows "safe (\<lambda>(q, r'). inv q \<and> byte_len q \<noteq> 0 \<and> (byte_len p \<noteq> 0 \<longrightarrow> q = p \<and> r' = r))
           (AddInstructionIfZeroLength A (p, r))"
  unfolding AddInstructionIfZeroLength_def
proof (rule rloop_safe [where I = "\<lambda>(q, r'). inv q \<and> (byte_len p \<noteq> 0 \<longrightarrow> q = p \<and> r' = r)"])
  fix s :: mstate assume "case s of (q, r') \<Rightarrow> inv q \<and> (byte_len p \<noteq> 0 \<longrightarrow> q = p \<and> r' = r)"
  then obtain q r' where s: "s = (q, r')" and I: "inv q" "byte_len p \<noteq> 0 \<longrightarrow> q = p \<and> r' = r"
    by (cases s) auto
  have "safe (\<lambda>(ok, q', r2). inv q') (InsertGeneratedInstruction_Mutate A (q, r'))"
    using insert_generated_keeps [OF I(1), of r'] by (rule safe_mono) auto
  then show "safe (\<lambda>x. case x of
        Break (q, r') \<Rightarrow> inv q \<and> byte_len q \<noteq> 0 \<and> (byte_len p \<noteq> 0 \<longrightarrow> q = p \<and> r' = r)
      | Continue s' \<Rightarrow> (case s' of (q, r') \<Rightarrow> inv q \<and> (byte_len p \<noteq> 0 \<longrightarrow> q = p \<and> r' = r)))
      (add_round A s)"
    using I by (cases "byte_len q = 0") (auto simp: s add_round_def elim!: safe_rbind)
qed (use assms in simp)

end

context fixed_width_arch
begin

lemma inv_byte_len:
  assumes "inv p"
  shows "byte_len p = of_nat (w * NumInstructions p)" and "w * NumInstructions p < 2 ^ 62"
proof -
  have "(\<Sum>i\<leftarrow>instructions p. length (encoded i)) = (\<Sum>i\<leftarrow>instructions p. w)"
    using assms width by (intro arg_cong [where f = sum_list] map_cong) (auto simp: prog_inv_def)
  then show "byte_len p = of_nat (w * NumInstructions p)"
    using assms by (simp add: prog_inv_def program_ok_def total_len_of_nat sum_list_triv mult.commute)
  have "fixup_shape good w (NumInstructions p) (FixupInvariants p)"
    using laid_out_shape [OF prog_inv_FixupInvariants [OF assms] laid_out_FixupInvariants] by simp
  then show "w * NumInstructions p < 2 ^ 62"
    using assms by (intro fixup_shape_bound) (auto simp: prog_inv_def)
qed

lemma finalized_bytes:
  assumes "finalized A good disp p"
  obtains out where "ToBytes p = ret out" "out = concat (map encoded (instructions p))"
    "length out = w * NumInstructions p" "byte_len p = of_nat (length out)"
    "length out < 2 ^ 62"
proof -
  have inv: "inv p" and "laid_out p" "\<not> encodings_may_be_invalid p"
    using assms by (simp_all add: finalized_def)
  then have "ToBytes p = ret (concat (map encoded (instructions p)))" by (intro ToBytes_eq)
  moreover have "length (concat (map encoded (instructions p))) = w * NumInstructions p"
  proof -
    have "(\<Sum>i\<leftarrow>instructions p. length (encoded i)) = (\<Sum>i\<leftarrow>instructions p. w)"
      using inv width by (intro arg_cong [where f = sum_list] map_cong) (auto simp: prog_inv_def)
    then show ?thesis by (simp add: length_concat comp_def sum_list_triv mult.commute)
  qed
  ultimately show thesis using inv_byte_len [OF inv] that by metis
qed

lemma finalize_round_safe:
  assumes p: "inv p" "byte_len p \<le> max_len"
  shows "safe (\<lambda>x. case x of
            Break (q, r') \<Rightarrow> finalized A good disp q \<and> byte_len q \<le> max_len
          | Continue (q, r') \<Rightarrow> False) (finalize_round A max_len (p, r))"
proof -
  have limit: "LimitProgramLength max_len (q, r') = ret (False, q, r')"
    if "inv q" "byte_len q \<le> max_len" for q r'
    using that limit_returns [OF that(1), of max_len r'] by (auto elim!: returnsE split: if_splits)
  have "safe (\<lambda>(m, q, r'). finalized A good disp q \<and> byte_len q \<le> max_len)
          (FixupEncodedDisplacements A r p)"
  proof (rule safe_mono [OF fixup_safe [OF p(1)]], clarify)
    fix m q r' assume q: "finalized A good disp q" "NumInstructions q = NumInstructions p"
    then have "byte_len q = byte_len p"
      using inv_byte_len [OF p(1)] inv_byte_len [of q] by (simp add: finalized_def)
    then show "byte_len q \<le> max_len" using p by simp
  qed
  then show ?thesis
    unfolding finalize_round_def split
    by (rule safe_rbind) (auto simp: limit finalized_def)
qed

text \<open>
  On a fixed-width architecture the loop of \<open>FinalizeProgram\<close> ends in its first round: the
  fixup does not change the length.
\<close>

lemma finalize_safe:
  assumes "inv p"
  shows "safe (\<lambda>(q, r'). finalized A good disp q \<and> byte_len q \<le> max_len)
           (FinalizeProgram A max_len (p, r))"
proof -
  have loop: "safe (\<lambda>(q, r'). finalized A good disp q \<and> byte_len q \<le> max_len)
      (rloop (finalize_round A max_len) (p, r))" if "inv p" "byte_len p \<le> max_len" for p r
    using that
    by (intro rloop_safe [where I = "\<lambda>(q, r'). inv q \<and> byte_len q \<le> max_len"])
      (auto intro!: safe_mono [OF finalize_round_safe] split: iter.splits)
  have limited: "safe (\<lambda>(l, q, r'). inv q \<and> byte_len q \<le> max_len) (LimitProgramLength max_len (p, r))"
    if "inv p" for p r
    using limit_returns [OF that, of max_len r] by (auto intro!: returns_wp elim: returns_mono)
  show ?thesis
    unfolding FinalizeProgram_def
    by (rule safe_rbind [OF add_instruction_safe [OF assms]])
      (auto intro!: safe_rbind [OF limited] loop)
qed

text \<open>One output: the bytes of a finished program.\<close>

definition output_of :: "u64 \<Rightarrow> byte list \<Rightarrow> bool" where
  "output_of max_len output \<longleftrightarrow> length output \<le> unat max_len \<and>
     (\<exists>p. finalized A good disp p \<and> output = concat (map encoded (instructions p)))"

lemma single_output_safe:
  assumes "inv p" "inv other" "wf_mutator m"
  shows "safe (\<lambda>(output, r'). output_of max_len output) (GenerateSingleOutput A m max_len p other r)"
proof -
  have "keeps (Mutate A other m (p, r))"
    using keeperD [OF Mutate_keeps [OF assms(2,3)] assms(1)] .
  moreover have "safe (\<lambda>(output, r'). output_of max_len output)
      (rbind (FinalizeProgram A max_len (q, r')) (\<lambda>(p, r).
       rbind (ToBytes p) (\<lambda>output. ret (output, r))))" if "inv q" for q r'
  proof (rule safe_rbind [OF finalize_safe [OF that]], clarsimp)
    fix q r' assume q: "finalized A good disp q" "byte_len q \<le> max_len"
    from finalized_bytes [OF q(1)] obtain out where out: "ToBytes q = ret out"
        "out = concat (map encoded (instructions q))" "byte_len q = of_nat (length out)"
        "length out < 2 ^ 62"
      by metis
    then have "length out \<le> unat max_len"
      using q(2) by (simp add: word_le_nat_alt unat_of_nat_u64)
    then show "safe (\<lambda>(output, r'). output_of max_len output)
        (rbind (ToBytes q) (\<lambda>output. ret (output, r')))"
      using q out by (auto simp: output_of_def)
  qed
  ultimately show ?thesis
    unfolding GenerateSingleOutput_def by (auto elim!: safe_rbind)
qed

lemma generate_mutants_safe:
  assumes "\<forall>p \<in> set programs. inv p" "programs \<noteq> []" "wf_mutator m"
  shows "safe (\<lambda>(outputs, r'). length outputs = n \<and> (\<forall>out \<in> set outputs. output_of max_len out))
           (generate_mutants A m max_len programs n r)"
proof (induction n arbitrary: r)
  case (Suc n)
  have len: "0 < length programs" using assms(2) by simp
  let ?base = "programs ! (shd r mod length programs)"
  let ?other = "programs ! (shd (stl r) mod length programs)"
  have pos: "inv ?base" "inv ?other" using assms(1) len by auto
  have "safe (\<lambda>(outputs, r'). length outputs = Suc n \<and> (\<forall>out \<in> set outputs. output_of max_len out))
     (rbind (GenerateSingleOutput A m max_len ?base ?other (stl (stl r))) (\<lambda>(output, r).
      rbind (generate_mutants A m max_len programs n r) (\<lambda>(outputs, r).
      ret (output # outputs, r))))"
    by (rule safe_rbind [OF single_output_safe [OF pos assms(3)]])
      (auto intro!: safe_rbind [OF Suc.IH])
  then show ?case using len by (simp add: RandomIndex_ret)
qed simp

lemma parse_inputs_returns:
  assumes "\<forall>bytes \<in> set inputs. length bytes \<le> max_insns A \<and> length bytes < 2 ^ 61"
  shows "returns (\<lambda>ps. length ps = length inputs \<and> (\<forall>p \<in> set ps. inv p)) (parse_inputs A inputs)"
  using assms
proof (induction inputs)
  case (Cons bytes inputs)
  obtain p where "program_from_bytes A default_insn_config False bytes = ret p" "inv p"
    using program_from_bytes_returns [of bytes] Cons.prems by (auto elim!: returnsE)
  moreover obtain ps where "parse_inputs A inputs = ret ps" "length ps = length inputs"
      "\<forall>p \<in> set ps. inv p"
    using Cons by (auto elim!: returnsE)
  ultimately show ?case by simp
qed simp

text \<open>\<open>ProgramBatchMutator\<close>: every requested mutant is produced and is a well-formed output.\<close>

lemma batch_safe:
  assumes "\<forall>bytes \<in> set inputs. length bytes \<le> max_insns A \<and> length bytes < 2 ^ 61" "inputs \<noteq> []"
  shows "safe (\<lambda>(outputs, r'). length outputs = n \<and> (\<forall>out \<in> set outputs. output_of max_len out))
           (BatchMutate A weight max_len inputs n r)"
proof -
  from parse_inputs_returns [OF assms(1)] obtain ps where
      "parse_inputs A inputs = ret ps" "length ps = length inputs" "\<forall>p \<in> set ps. inv p"
    by (auto elim!: returnsE)
  moreover from this(2) have "ps \<noteq> []" using assms(2) by auto
  ultimately show ?thesis
    using generate_mutants_safe [OF _ _ wf_batch_mutator] by (simp add: BatchMutate_def)
qed

end

text \<open>
  A program that already has instructions and whose branches all reach is finished in bounded
  time and without another draw.
\<close>

context fixed_width_reach
begin

lemma finalize_returns:
  assumes p: "inv p" "byte_len p \<noteq> 0" and reach: "w * NumInstructions p \<le> reach"
  shows "returns (\<lambda>(q, r'). finalized A good disp q \<and> byte_len q \<le> max_len \<and>
                   (byte_len p \<le> max_len \<longrightarrow> NumInstructions q = NumInstructions p \<and> r' = r))
           (FinalizeProgram A max_len (p, r))"
proof -
  have "returns (\<lambda>(l, q, r1). inv q \<and> byte_len q \<le> max_len \<and> NumInstructions q \<le> NumInstructions p \<and>
          (byte_len p \<le> max_len \<longrightarrow> q = p \<and> r1 = r)) (LimitProgramLength max_len (p, r))"
    by (rule returns_mono [OF limit_returns [OF p(1)]]) (auto split: if_splits)
  then obtain l q r1 where q: "LimitProgramLength max_len (p, r) = ret (l, q, r1)" "inv q"
      "byte_len q \<le> max_len" "NumInstructions q \<le> NumInstructions p"
      "byte_len p \<le> max_len \<longrightarrow> q = p \<and> r1 = r"
    by (elim returnsE) (clarsimp split: prod.splits)
  have "w * NumInstructions q \<le> reach" using q(4) reach by (meson le_trans mult_le_mono2)
  from fixup_returns [OF q(2) this, of r1] obtain m f where
      f: "FixupEncodedDisplacements A r1 q = ret (m, f, r1)" "finalized A good disp f"
        "NumInstructions f = NumInstructions q"
    by (auto elim!: returnsE)
  have "inv f" using f(2) by (simp add: finalized_def)
  then have len: "byte_len f = byte_len q" using inv_byte_len [of f] inv_byte_len [OF q(2)] f(3) by simp
  then have "LimitProgramLength max_len (f, r1) = ret (False, f, r1)"
    using limit_returns [OF \<open>inv f\<close>, of max_len r1] q(3) by (auto elim!: returnsE split: if_splits)
  then have "rloop (finalize_round A max_len) (q, r1) = ret (f, r1)"
    using f by (cases m) (simp_all add: rloop.simps finalize_round_def)
  moreover have "AddInstructionIfZeroLength A (p, r) = ret (p, r)"
    using p(2) by (simp add: AddInstructionIfZeroLength_def rloop.simps add_round_def)
  ultimately show ?thesis
    using q f len by (auto simp: FinalizeProgram_def)
qed

end

end
