(* ===== verification/Program_Edits.thy ===== *)
theory Program_Edits
  imports Program_Parse
begin

text \<open>
  What the edits of a program do to its instructions and to the targets of its branches, the
  consistency check and the search for the closest boundary: the properties of
  \<open>fuzzer/program.cc\<close> that hold for every architecture.
\<close>

section \<open>Instructions up to their offset\<close>

definition strip :: "insn \<Rightarrow> insn" where
  "strip i = i\<lparr>offset := 0\<rparr>"

text \<open>The branch target of an instruction, renumbered by \<open>f\<close>.\<close>

definition retarget :: "(nat \<Rightarrow> nat) \<Rightarrow> insn \<Rightarrow> insn" where
  "retarget f i =
     (if valid (direct_branch i)
      then i\<lparr>direct_branch := (direct_branch i)\<lparr>instruction_boundary :=
                                 f (instruction_boundary (direct_branch i))\<rparr>\<rparr>
      else i)"

text \<open>Where boundary \<open>t\<close> is after \<open>n\<close> instructions came in, or after one was removed.\<close>

definition after_insert :: "nat \<Rightarrow> nat \<Rightarrow> nat \<Rightarrow> nat" where
  "after_insert adj n t = (if t < adj then t else t + n)"

definition after_remove :: "nat \<Rightarrow> nat \<Rightarrow> nat" where
  "after_remove index t = (if t \<le> index then t else t - 1)"

lemma strip_simps [simp]:
  "encoded (strip i) = encoded i" "direct_branch (strip i) = direct_branch i"
  "offset (strip i) = 0"
  by (simp_all add: strip_def)

lemma strip_lay_out [simp]: "map strip (fst (lay_out off is)) = map strip is"
  by (induction "is" arbitrary: off) (simp_all add: strip_def)

lemma instructions_FixupInvariants: "instructions (FixupInvariants p) = fst (lay_out 0 (instructions p))"
  by (simp add: FixupInvariants_def split: prod.split)

lemma FixupInvariants_eq:
  "FixupInvariants p = p\<lparr>instructions := fst (lay_out 0 (instructions p)), byte_len := total_len (instructions p)\<rparr>"
  by (simp add: FixupInvariants_def lay_out_end split: prod.split) (metis fst_conv snd_conv lay_out_end add_0)

lemma lay_out_cong: "map strip is = map strip js \<Longrightarrow> lay_out off is = lay_out off js"
proof (induction "is" arbitrary: js off)
  case (Cons i "is")
  then obtain j js' where js: "js = j # js'" "strip i = strip j" "map strip is = map strip js'"
    by (cases js) auto
  have "i\<lparr>offset := off\<rparr> = j\<lparr>offset := off\<rparr>" "encoded i = encoded j"
    using js(2) by (cases i; cases j; simp add: strip_def)+
  then show ?case using Cons.IH [OF js(3)] by (simp add: js(1))
qed simp

lemma FixupInvariants_cong:
  assumes "map strip (instructions p) = map strip (instructions q)"
    and "encodings_may_be_invalid p = encodings_may_be_invalid q"
  shows "FixupInvariants p = FixupInvariants q"
proof -
  have "total_len (instructions p) = total_len (instructions q)"
    using arg_cong [OF assms(1), of "map encoded"] by (intro total_len_cong) (simp add: comp_def)
  then show ?thesis
    using lay_out_cong [OF assms(1)] assms(2) by (cases p; cases q) (simp add: FixupInvariants_eq)
qed

lemma adjust_insert_retarget:
  assumes "branch_ok n i" "n + m < 2 ^ 64"
  shows "adjust_insn b (int m) i = retarget (after_insert b m) i"
  using assms
  by (auto simp: adjust_insn_def retarget_def after_insert_def branch_ok_def Let_def u64_of_def
      nat_add_distrib)

lemma adjust_remove_retarget:
  assumes "branch_ok n i" "n < 2 ^ 64"
  shows "adjust_insn (Suc b) (- 1) i = retarget (after_remove b) i"
proof -
  have "u64_of (int t - 1) = t - 1" if "Suc b \<le> t" "t < n" for t
    using that assms(2) by (simp add: u64_of_def nat_diff_distrib')
  then show ?thesis
    using assms(1)
    by (auto simp: adjust_insn_def retarget_def after_remove_def branch_ok_def Let_def)
qed

lemma retarget_retarget:
  assumes "\<And>t. g (f t) = t"
  shows "retarget g (retarget f i) = i"
  using assms by (simp add: retarget_def valid_def)

lemma after_remove_insert:
  "b \<le> adj \<Longrightarrow> adj \<le> Suc b \<Longrightarrow> after_remove b (after_insert adj (Suc 0) t) = t"
  by (auto simp: after_remove_def after_insert_def)

lemma strip_adjust: "strip (adjust_insn b a i) = adjust_insn b a (strip i)"
  by (simp add: adjust_insn_def strip_def Let_def)

lemma uint_sint_nonneg: "0 \<le> sint (d :: u64) \<Longrightarrow> uint d = sint d"
proof -
  assume "0 \<le> sint d"
  then have "sint d mod 2 ^ 64 = sint d" using sint_less [of d] by (intro mod_pos_pos_trivial) auto
  then show "uint d = sint d" using uint_sint [of d] by (simp add: take_bit_eq_mod)
qed

lemma uint_minus_sint_neg:
  assumes "sint (d :: u64) < 0"
  shows "uint (- d) = - sint d"
proof -
  have "- d = word_of_int (- sint d)" by simp
  moreover have "- sint d mod 2 ^ 64 = - sint d"
    using assms sint_greater_eq [of d] by (intro mod_pos_pos_trivial) auto
  ultimately show ?thesis
    using uint_word_of_int [of "- sint d", where 'a = 64] by simp
qed

section \<open>Sample programs\<close>

text \<open>
  An instruction of four bytes without a branch, and one with a branch to boundary \<open>b\<close>; a
  program of two of them.
\<close>

definition plain_insn :: "byte list \<Rightarrow> u64 \<Rightarrow> insn" where
  "plain_insn bytes off = \<lparr>encoded = bytes, direct_branch = no_displacement, offset = off\<rparr>"

definition branch_insn :: "byte list \<Rightarrow> u64 \<Rightarrow> nat \<Rightarrow> u64 \<Rightarrow> insn" where
  "branch_insn bytes d b off =
     \<lparr>encoded = bytes,
      direct_branch = \<lparr>encoded_byte_displacement = d, instruction_boundary = b\<rparr>, offset = off\<rparr>"

text \<open>\<open>b +4\<close> and \<open>b -4\<close>: each jumps to the other's place.\<close>

definition two_branches :: program where
  "two_branches =
     \<lparr>instructions = [branch_insn [1, 0, 0, 0x14] 4 1 0, branch_insn [0xff, 0xff, 0xff, 0x17] (- 4) 0 4],
      byte_len = 8, encodings_may_be_invalid = False\<rparr>"

definition tiny_arch :: arch where
  "tiny_arch = \<lparr>min_size = 4, max_size = 4, buffer_size = 4, max_insns = 2 ^ 20,
     insn_from_bytes = \<lambda>_ _ _ i. ret (False, i), reencode = \<lambda>i. ret (True, i)\<rparr>"

lemmas samples = two_branches_def branch_insn_def plain_insn_def

lemma two_branches_ok: "program_ok two_branches"
  by (simp add: program_ok_def samples branch_ok_def valid_def NumInstructionBoundaries_def
      kInvalidByteDisplacement_def kInvalidInstructionBoundary_def total_len_def)

lemma two_branches_N: "NumInstructions two_branches = 2"
  by (simp add: samples)

section \<open>Properties\<close>

text \<open>\<open>CheckConsistency\<close> passes exactly the consistent programs: every valid branch has a target
  inside the program, every other one has none, and \<open>byte_len_\<close> is the sum of the encodings.\<close>

theorem check_consistency_decides: "CheckConsistency p = ret () \<longleftrightarrow> program_ok p"
  by (rule CheckConsistency_iff)

text \<open>\<open>FixupInvariants\<close> gives each instruction the sum of the lengths before it as its
  offset, sets \<open>byte_len_\<close> to the sum of all, changes nothing else, and is idempotent.\<close>

theorem fixup_invariants_layout:
  "laid_out (FixupInvariants p) \<and> byte_len (FixupInvariants p) = total_len (instructions p) \<and>
   map strip (instructions (FixupInvariants p)) = map strip (instructions p) \<and>
   encodings_may_be_invalid (FixupInvariants p) = encodings_may_be_invalid p \<and>
   FixupInvariants (FixupInvariants p) = FixupInvariants p"
proof -
  have "FixupInvariants (FixupInvariants p) = FixupInvariants p"
    by (rule FixupInvariants_cong) (simp_all add: instructions_FixupInvariants)
  then show ?thesis
    by (simp add: laid_out_FixupInvariants) (simp add: instructions_FixupInvariants)
qed

text \<open>C6: inserting a block puts its instructions at the boundary, keeps all others in order, and
  redirects every branch of the old program to where its target instruction is now; a branch to
  the boundary itself goes to the first new instruction exactly when displacements are stolen.\<close>

theorem insert_block_result:
  assumes "program_ok p" "boundary \<le> NumInstructions p"
    and "NumInstructions p + length is \<le> max_insns A" "max_insns A < 2 ^ 63"
  shows "\<exists>q. InsertInstructionBlock A boundary steal is p = ret q \<and>
     laid_out q \<and> encodings_may_be_invalid q \<and> byte_len q = byte_len p + total_len is \<and>
     map strip (instructions q) = map strip
       (let js = map (retarget (after_insert (if steal then boundary + 1 else boundary) (length is)))
                   (instructions p)
        in take boundary js @ is @ drop boundary js)"
proof -
  let ?adj = "if steal then boundary + 1 else boundary"
  have ok: "branch_ok (NumInstructionBoundaries p) i" if "i \<in> set (instructions p)" for i
    using assms(1) that by (simp add: program_ok_def)
  have "map (adjust_insn ?adj (int (length is))) (instructions p) =
      map (retarget (after_insert ?adj (length is))) (instructions p)"
    using ok assms(2-4)
    by (intro map_cong refl adjust_insert_retarget [of "NumInstructionBoundaries p"])
      (auto simp: NumInstructionBoundaries_def)
  then have ins: "inserted boundary steal is p =
      (let js = map (retarget (after_insert ?adj (length is))) (instructions p)
       in take boundary js @ is @ drop boundary js)"
    unfolding inserted_def by (simp only:)
  let ?p = "p\<lparr>byte_len := byte_len p + total_len is, instructions := inserted boundary steal is p,
              encodings_may_be_invalid := True\<rparr>"
  have "total_len (take boundary js @ ks @ drop boundary js) = total_len js + total_len ks" for js ks
    using total_len_simps(3) [of "take boundary js" "drop boundary js"]
    by (simp add: algebra_simps del: total_len_simps(3)) (simp add: algebra_simps)
  then have len: "total_len (inserted boundary steal is p) = byte_len p + total_len is"
    using assms(1) by (simp add: inserted_def Let_def program_ok_def)
  have "InsertInstructionBlock A boundary steal is p = ret (FixupInvariants ?p)"
    using assms(2,3) by (simp add: InsertInstructionBlock_eq NumInstructionBoundaries_def)
  moreover have "map strip (instructions (FixupInvariants ?p)) = map strip (inserted boundary steal is p)"
    by (simp add: instructions_FixupInvariants)
  ultimately show ?thesis
    using len ins by (intro exI [of _ "FixupInvariants ?p"]) (simp add: laid_out_FixupInvariants)
qed

theorem insert_block_result_witness:
  "\<exists>q. InsertInstructionBlock tiny_arch 1 True [plain_insn [0, 0, 0, 0] 0] two_branches = ret q \<and>
     laid_out q \<and> byte_len q = 12"
proof -
  have "\<exists>q. InsertInstructionBlock tiny_arch 1 True [plain_insn [0, 0, 0, 0] 0] two_branches = ret q \<and>
      laid_out q \<and> encodings_may_be_invalid q \<and>
      byte_len q = byte_len two_branches + total_len [plain_insn [0, 0, 0, 0] 0] \<and>
      map strip (instructions q) = map strip
       (let js = map (retarget (after_insert (if True then 1 + 1 else 1) (length [plain_insn [0, 0, 0, 0] 0])))
                   (instructions two_branches)
        in take 1 js @ [plain_insn [0, 0, 0, 0] 0] @ drop 1 js)"
    by (rule insert_block_result [OF two_branches_ok]) (simp_all add: two_branches_N tiny_arch_def)
  moreover have "byte_len two_branches + total_len [plain_insn [0, 0, 0, 0] 0] = 12"
    by (simp add: samples)
  ultimately show ?thesis by metis
qed

text \<open>C7: removing an instruction keeps all others in order and redirects every branch to where
  its target is now; a branch to the removed instruction goes to the one behind it.\<close>

theorem remove_result:
  assumes "program_ok p" "index < NumInstructions p" "NumInstructions p < 2 ^ 63"
  shows "\<exists>q. RemoveInstruction index p = ret q \<and>
     laid_out q \<and> encodings_may_be_invalid q \<and>
     byte_len q = byte_len p - of_nat (length (encoded (instructions p ! index))) \<and>
     map strip (instructions q) = map strip
       (let js = map (retarget (after_remove index)) (instructions p)
        in take index js @ drop (Suc index) js)"
proof -
  have ok: "branch_ok (NumInstructionBoundaries p) i" if "i \<in> set (instructions p)" for i
    using assms(1) that by (simp add: program_ok_def)
  have "map (adjust_insn (index + 1) (- 1)) (instructions p) =
      map (retarget (after_remove index)) (instructions p)"
    using ok assms(2,3) adjust_remove_retarget [of "NumInstructionBoundaries p"]
    by (intro map_cong refl) (auto simp: NumInstructionBoundaries_def)
  then have rem: "removed index p =
      (let js = map (retarget (after_remove index)) (instructions p)
       in take index js @ drop (Suc index) js)"
    unfolding removed_def by (simp only:)
  let ?p = "p\<lparr>byte_len := byte_len p - of_nat (length (encoded (instructions p ! index))),
            instructions := removed index p, encodings_may_be_invalid := True\<rparr>"
  have len: "total_len (removed index p) = byte_len p - of_nat (length (encoded (instructions p ! index)))"
    using assms(1,2) by (simp add: removed_def Let_def total_len_remove program_ok_def del: total_len_simps(3))
  have "RemoveInstruction index p = ret (FixupInvariants ?p)"
    using assms(2) by (rule RemoveInstruction_eq)
  moreover have "map strip (instructions (FixupInvariants ?p)) = map strip (removed index p)"
    by (simp add: instructions_FixupInvariants)
  ultimately show ?thesis
    using len rem by (intro exI [of _ "FixupInvariants ?p"]) (simp add: laid_out_FixupInvariants)
qed

theorem remove_result_witness: "\<exists>q. RemoveInstruction 0 two_branches = ret q \<and> laid_out q \<and> byte_len q = 4"
  using remove_result [OF two_branches_ok, of 0] by (auto simp: samples)

text \<open>C8: removing an instruction right after it was inserted gives the program back, branch
  targets included, whether or not the insertion stole displacements: it is the program laid out again,
  marked as one whose encodings may be invalid.\<close>

theorem insert_then_remove:
  assumes "program_ok p" "boundary \<le> NumInstructions p"
    and "NumInstructions p < max_insns A" "max_insns A < 2 ^ 63"
  shows "rbind (InsertInstruction A boundary steal i p) (RemoveInstruction boundary) =
     ret (FixupInvariants (p\<lparr>encodings_may_be_invalid := True\<rparr>))"
proof -
  let ?f = "adjust_insn (if steal then boundary + 1 else boundary) 1"
  let ?g = "adjust_insn (boundary + 1) (- 1)"
  let ?ins = "inserted boundary steal [i] p"
  let ?q = "FixupInvariants (p\<lparr>byte_len := byte_len p + total_len [i], instructions := ?ins,
              encodings_may_be_invalid := True\<rparr>)"
  let ?r = "?q\<lparr>byte_len := byte_len ?q - of_nat (length (encoded (instructions ?q ! boundary))),
            instructions := removed boundary ?q, encodings_may_be_invalid := True\<rparr>"
  have len: "length ?ins = Suc (NumInstructions p)"
    using assms(2) by (simp add: length_inserted)
  have undo: "map ?g (map ?f (instructions p)) = instructions p"
  proof -
    have "?g (?f j) = j" if j: "j \<in> set (instructions p)" for j
    proof -
      have ok: "branch_ok (NumInstructionBoundaries p) j" using assms(1) j by (simp add: program_ok_def)
      moreover have "branch_ok (NumInstructionBoundaries p + 1) (?f j)"
        using branch_ok_adjust_insert [OF ok, of 1] assms(3,4) by (simp add: NumInstructionBoundaries_def)
      ultimately show ?thesis
        using adjust_insert_retarget [OF ok, of 1] adjust_remove_retarget [of _ "?f j" boundary] assms(3,4)
          retarget_retarget [of "after_remove boundary", OF after_remove_insert]
        by (simp add: NumInstructionBoundaries_def)
    qed
    then show ?thesis by (simp add: map_idI)
  qed
  have "map strip (instructions ?q) = map strip ?ins"
    by (simp add: instructions_FixupInvariants)
  then have "map ?g (map strip (instructions ?q)) = map ?g (map strip ?ins)"
    by (rule arg_cong)
  then have "map strip (map ?g (instructions ?q)) = map strip (map ?g ?ins)"
    by (simp add: comp_def strip_adjust)
  then have "map strip (removed boundary ?q) =
      take boundary (map strip (map ?g ?ins)) @ drop (Suc boundary) (map strip (map ?g ?ins))"
    unfolding removed_def Let_def map_append take_map [symmetric] drop_map [symmetric] by (simp only:)
  also have "\<dots> = map strip (map ?g (map ?f (instructions p)))"
  proof -
    have "map ?g ?ins = take boundary (map ?g (map ?f (instructions p))) @ ?g i #
        drop boundary (map ?g (map ?f (instructions p)))"
      by (simp add: inserted_def Let_def take_map drop_map)
    then show ?thesis
      using assms(2) by (simp only: undo) (simp add: take_map drop_map flip: map_append)
  qed
  finally have "FixupInvariants ?r = FixupInvariants (p\<lparr>encodings_may_be_invalid := True\<rparr>)"
    unfolding undo by (intro FixupInvariants_cong) simp_all
  moreover have "InsertInstruction A boundary steal i p = ret ?q"
    unfolding InsertInstruction_def
    using assms(2,3) by (subst InsertInstructionBlock_eq) (simp_all add: NumInstructionBoundaries_def)
  moreover have "RemoveInstruction boundary ?q = ret (FixupInvariants ?r)"
    using len assms(2) by (intro RemoveInstruction_eq) simp
  ultimately show ?thesis by simp
qed

theorem insert_then_remove_witness:
  "rbind (InsertInstruction tiny_arch 1 True (plain_insn [0, 0, 0, 0] 0) two_branches) (RemoveInstruction 1) =
     ret (FixupInvariants (two_branches\<lparr>encodings_may_be_invalid := True\<rparr>))"
  by (rule insert_then_remove [OF two_branches_ok]) (simp_all add: two_branches_N tiny_arch_def)

text \<open>Overwriting a block replaces exactly those instructions, keeps \<open>byte_len_\<close> the sum of the
  encodings and marks the encodings as possibly invalid.\<close>

theorem set_block_result:
  assumes "index + length is \<le> NumInstructions p" "byte_len p = total_len (instructions p)"
  shows "\<exists>q. SetInstructionBlock index is p = ret q \<and> byte_len q = total_len (instructions q) \<and>
     encodings_may_be_invalid q \<and>
     instructions q = take index (instructions p) @ is @ drop (index + length is) (instructions p)"
proof -
  let ?is = "instructions p"
  have "?is = take index ?is @ take (length is) (drop index ?is) @ drop (index + length is) ?is"
    by (metis add.commute append_take_drop_id drop_drop)
  then have "total_len ?is = total_len (take index ?is) + total_len (take (length is) (drop index ?is))
      + total_len (drop (index + length is) ?is)"
    by (metis total_len_simps(3) add.assoc)
  then show ?thesis
    using SetInstructionBlock_eq [OF assms(1)] assms(2) by (simp add: algebra_simps)
qed

theorem set_block_result_witness:
  "\<exists>q. SetInstructionBlock 1 [plain_insn [] 0] two_branches = ret q \<and> byte_len q = total_len (instructions q)"
  using set_block_result [of 1 "[plain_insn [] 0]" two_branches]
  by (auto simp: samples total_len_def)

text \<open>\<open>FindClosestInstructionBoundary\<close> returns the first boundary among those nearest to the
  offset, for every program whose boundaries are less than \<open>2 ^ 63 - 1\<close> away from it.\<close>

theorem find_closest_boundary:
  assumes "instructions p \<noteq> []"
    and "\<And>b. b < NumInstructionBoundaries p \<Longrightarrow> \<bar>boundary_pos p b - sint pos\<bar> < 2 ^ 63 - 1"
  shows "returns (\<lambda>c. c < NumInstructionBoundaries p \<and>
       (\<forall>b < NumInstructionBoundaries p. \<bar>boundary_pos p c - sint pos\<bar> \<le> \<bar>boundary_pos p b - sint pos\<bar>) \<and>
       (\<forall>b < c. \<bar>boundary_pos p c - sint pos\<bar> < \<bar>boundary_pos p b - sint pos\<bar>))
     (FindClosestInstructionBoundary p pos)"
  using FindClosest_closest [OF assms] unfolding closest_def .

theorem find_closest_boundary_witness:
  "\<exists>c. FindClosestInstructionBoundary two_branches 5 = ret c \<and> c < 3"
proof -
  have b: "boundary_pos two_branches 0 = 0" "boundary_pos two_branches (Suc 0) = 4"
      "boundary_pos two_branches 2 = 8"
    by (simp_all add: boundary_word_def samples)
  have "\<bar>boundary_pos two_branches b - sint (5 :: u64)\<bar> < 2 ^ 63 - 1"
    if "b < NumInstructionBoundaries two_branches" for b
  proof -
    from that consider "b = 0" | "b = Suc 0" | "b = 2"
      by (fastforce simp: NumInstructionBoundaries_def samples)
    then show ?thesis by cases (simp_all only: b, simp_all)
  qed
  then have "returns (\<lambda>c. c < NumInstructionBoundaries two_branches \<and>
       (\<forall>b < NumInstructionBoundaries two_branches.
          \<bar>boundary_pos two_branches c - sint (5 :: u64)\<bar> \<le> \<bar>boundary_pos two_branches b - sint (5 :: u64)\<bar>) \<and>
       (\<forall>b < c. \<bar>boundary_pos two_branches c - sint (5 :: u64)\<bar> < \<bar>boundary_pos two_branches b - sint (5 :: u64)\<bar>))
     (FindClosestInstructionBoundary two_branches 5)"
    by (intro find_closest_boundary) (simp add: samples)
  then show ?thesis
    by (auto elim!: returnsE simp: NumInstructionBoundaries_def samples)
qed

text \<open>\<open>DisplacementWithinFixupLimit\<close> compares the absolute value, \<open>INT64_MIN\<close> included.\<close>

theorem displacement_within_limit:
  "DisplacementWithinFixupLimit d limit \<longleftrightarrow> \<bar>sint d\<bar> < uint limit"
proof (cases "0 \<le> sint d")
  case True
  then show ?thesis
    by (simp add: DisplacementWithinFixupLimit_def word_less_def uint_sint_nonneg)
next
  case False
  then have "uint (- d) = - sint d" by (simp add: uint_minus_sint_neg)
  then show ?thesis using False by (simp add: DisplacementWithinFixupLimit_def word_less_def)
qed

end
