(* ===== verification/Filter_Facts.thy ===== *)
theory Filter_Facts
  imports Insn_Filter
begin

text \<open>
  What \<open>instruction/static_insn_filter.cc\<close> accepts: the filter word by word, its monotonicity in the
  configuration, the system registers that can be named, and the soundness of its tables.
\<close>

section \<open>Words and bytes\<close>

lemma le32_store_load: "le32_store (le32_load [b0, b1, b2, b3]) = [b0, b1, b2, b3]"
proof -
  let ?w = "le32_load [b0, b1, b2, b3]"
  have "ucast ?w = b0"
    by (rule bit_word_eqI) (auto simp: bit_simps dest: bit_imp_le_length)
  moreover have "ucast (drop_bit 8 ?w) = b1"
    by (rule bit_word_eqI) (auto simp: bit_simps dest: bit_imp_le_length)
  moreover have "ucast (drop_bit 16 ?w) = b2"
    by (rule bit_word_eqI) (auto simp: bit_simps dest: bit_imp_le_length)
  moreover have "ucast (drop_bit 24 ?w) = b3"
    by (rule bit_word_eqI) (auto simp: bit_simps dest: bit_imp_le_length)
  ultimately show ?thesis by (simp only: le32_store_def)
qed

lemma all_words_ok_append_word:
  "all_words_ok config (le32_store w @ code) \<longleftrightarrow> InstructionIsOK w config \<and> all_words_ok config code"
  using le32_load_store' [of w] by (simp add: le32_store_def del: le32_load.simps)

lemma filter_words:
  "StaticInstructionFilter_AArch64 (concat (map le32_store ws)) config \<longleftrightarrow>
   list_all (\<lambda>w. InstructionIsOK w config) ws"
proof -
  have "length (concat (map le32_store ws)) = 4 * length ws" by (induction ws) simp_all
  moreover have "all_words_ok config (concat (map le32_store ws)) \<longleftrightarrow> list_all (\<lambda>w. InstructionIsOK w config) ws"
    by (induction ws) (simp_all add: all_words_ok_append_word)
  ultimately show ?thesis by (simp add: StaticInstructionFilter_AArch64_def)
qed

lemma split_words: "length code mod 4 = 0 \<Longrightarrow> \<exists>ws. code = concat (map le32_store ws)"
proof (induction "length code" arbitrary: code rule: less_induct)
  case less
  show ?case
  proof (cases "code = []")
    case True
    then show ?thesis by (intro exI [of _ "[]"]) simp
  next
    case False
    with less.prems have "4 \<le> length code" by (cases "length code < 4") auto
    then obtain b0 b1 b2 b3 rest where code: "code = b0 # b1 # b2 # b3 # rest"
      by (auto simp: numeral_eq_Suc Suc_le_length_iff)
    have "length rest mod 4 = 0" using less.prems by (simp add: code)
    then obtain ws where "rest = concat (map le32_store ws)"
      using less.hyps [of rest] by (auto simp: code)
    then show ?thesis
      by (intro exI [of _ "le32_load [b0, b1, b2, b3] # ws"]) (simp add: code le32_store_load del: le32_load.simps)
  qed
qed

text \<open>A configuration that allows at most what another one does.\<close>

definition stricter :: "filter_config \<Rightarrow> filter_config \<Rightarrow> bool" where
  "stricter c d \<longleftrightarrow>
     (sve_instructions_allowed c \<longrightarrow> sve_instructions_allowed d) \<and>
     (load_store_instructions_allowed c \<longrightarrow> load_store_instructions_allowed d) \<and>
     (indirect_branches_allowed c \<longrightarrow> indirect_branches_allowed d) \<and>
     (scalar_fp_and_advanced_simd_allowed c \<longrightarrow> scalar_fp_and_advanced_simd_allowed d)"

lemma InstructionIsOK_mono: "stricter c d \<Longrightarrow> InstructionIsOK w c \<Longrightarrow> InstructionIsOK w d"
  by (auto simp: stricter_def InstructionIsOK_def split: if_splits)

text \<open>The fields of an \<open>MRS\<close> or \<open>MSR\<close> that name the register: \<open>(op1, CRn, CRm, op2)\<close>.\<close>

definition sysreg_fields :: "u32 \<Rightarrow> u32 \<times> u32 \<times> u32 \<times> u32" where
  "sysreg_fields w = (drop_bit 16 w AND 7, drop_bit 12 w AND 15, drop_bit 8 w AND 15, drop_bit 5 w AND 7)"

lemma and_drop_bit_mask:
  fixes w M :: u32
  assumes "M AND push_bit n m = push_bit n m" "drop_bit n (push_bit n m) = m"
  shows "drop_bit n (w AND M) AND m = drop_bit n w AND m"
proof -
  have "drop_bit n (w AND M AND push_bit n m) = drop_bit n (w AND push_bit n m)"
    using assms(1) by (simp add: and.assoc)
  then show ?thesis using assms(2) by (simp add: drop_bit_and and.assoc)
qed

lemma sysreg_fields_mask: "sysreg_fields (w AND kSysregMask) = sysreg_fields w"
proof -
  have M: "kSysregMask = 0x1fffe0" by (simp add: kSysregMask_def sysreg_def)
  have "drop_bit 16 (w AND kSysregMask) AND 7 = drop_bit 16 w AND 7"
    "drop_bit 12 (w AND kSysregMask) AND 15 = drop_bit 12 w AND 15"
    "drop_bit 8 (w AND kSysregMask) AND 15 = drop_bit 8 w AND 15"
    "drop_bit 5 (w AND kSysregMask) AND 7 = drop_bit 5 w AND 7"
    unfolding M by (rule and_drop_bit_mask; simp)+
  then show ?thesis by (simp only: sysreg_fields_def)
qed

lemma allowed_sysreg_fields:
  "s \<in> set kAllowedSysregs \<Longrightarrow> sysreg_fields s \<in>
     {(3, 4, 2, 0), (3, 4, 4, 0), (3, 4, 4, 1), (3, 13, 0, 2), (3, 13, 0, 3)}"
proof -
  have "list_all (\<lambda>s. sysreg_fields s \<in>
     set [(3, 4, 2, 0), (3, 4, 4, 0), (3, 4, 4, 1), (3, 13, 0, 2), (3, 13, 0, 3)]) kAllowedSysregs"
    by code_simp
  then show "s \<in> set kAllowedSysregs \<Longrightarrow> ?thesis" by (simp add: list_all_iff)
qed

section \<open>Soundness of the tables\<close>

text \<open>
  A matcher whose bits lie outside its mask never matches, a required pattern whose expected bits
  overlap it could never be violated or never be met.
\<close>

definition matcher_ok :: "u32 bit_matcher \<Rightarrow> bool" where
  "matcher_ok m \<longleftrightarrow> bits m AND NOT (mask m) = 0"

definition required_ok :: "u32 required_bits \<Rightarrow> bool" where
  "required_ok r \<longleftrightarrow> matcher_ok (pattern r) \<and> matcher_ok (expect r) \<and>
     mask (pattern r) AND mask (expect r) = 0 \<and> mask (expect r) \<noteq> 0"

text \<open>Row \<open>a\<close> adds nothing to row \<open>b\<close>: all it matches, \<open>b\<close> matches.\<close>

definition implied_by :: "u32 bit_matcher \<Rightarrow> u32 bit_matcher \<Rightarrow> bool" where
  "implied_by a b \<longleftrightarrow> mask b AND NOT (mask a) = 0 \<and> bits a AND mask b = bits b"

lemma matcher_ok_matches: "matcher_ok m \<Longrightarrow> matches m (bits m)"
proof -
  assume "matcher_ok m"
  then have "\<not> (bit (bits m) n \<and> \<not> bit (mask m) n)" if "n < 32" for n
    using that unfolding matcher_ok_def by (auto simp: bit_eq_iff bit_simps)
  then show ?thesis unfolding matches_def by (auto simp: bit_eq_iff bit_simps)
qed

lemma not_implied_by:
  assumes "matcher_ok a" "\<not> implied_by a b"
  shows "\<exists>w. matches a w \<and> \<not> matches b w"
proof (cases "matches b (bits a)")
  case False
  then show ?thesis using matcher_ok_matches [OF assms(1)] by blast
next
  case True
  then obtain n where n: "n < 32" "bit (mask b) n" "\<not> bit (mask a) n"
    using assms(2) by (auto simp: implied_by_def matches_def bit_eq_iff bit_simps)
  let ?w = "bits a XOR push_bit n 1"
  have w: "bit ?w k \<longleftrightarrow> bit (bits a) k \<noteq> (k = n)" if "k < 32" for k
    using that n(1) by (auto simp: bit_simps)
  have "matches a ?w"
    unfolding matches_def
  proof (rule bit_word_eqI)
    fix k assume k: "k < LENGTH(32)"
    have "bit (bits a AND mask a) k = bit (bits a) k"
      using matcher_ok_matches [OF assms(1)] by (simp add: matches_def)
    then show "bit (?w AND mask a) k = bit (bits a) k"
      using w [of k] k n(3) by (auto simp: bit_and_iff simp del: bit_xor_iff)
  qed
  moreover have "bit (?w AND mask b) n \<noteq> bit (bits a AND mask b) n"
    using n w [of n] by (simp add: bit_and_iff del: bit_xor_iff)
  then have "\<not> matches b ?w" using True unfolding matches_def by metis
  ultimately show ?thesis by blast
qed

lemma tables_ok:
  "list_all matcher_ok kBannedInstructions" "list_all required_ok kRequiredInstructionBits"
  by code_simp+

lemma banned_not_implied:
  "list_all (\<lambda>b. list_all (\<lambda>a. a = b \<or> \<not> implied_by a b) kBannedInstructions) banned_nondeterministic"
  "list_all (\<lambda>b. list_all (\<lambda>a. a = b \<or> \<not> implied_by a b) kBannedInstructions) banned_unallocated"
  by code_simp+

lemma banned_sve_not_implied:
  "list_all (\<lambda>b. list_all (\<lambda>a. a = b \<or> \<not> implied_by a b) kBannedInstructions) banned_sve_faulting"
  by code_simp

section \<open>Properties\<close>

text \<open>\<open>StaticInstructionFilter<AArch64>\<close> accepts exactly the code that is a sequence of 32-bit
  little-endian words each of which is an acceptable instruction.\<close>

theorem filter_wordwise:
  "StaticInstructionFilter_AArch64 code config \<longleftrightarrow>
   (\<exists>ws. code = concat (map le32_store ws) \<and> list_all (\<lambda>w. InstructionIsOK w config) ws)"
proof
  assume ok: "StaticInstructionFilter_AArch64 code config"
  then have "length code mod 4 = 0" by (auto simp: StaticInstructionFilter_AArch64_def split: if_splits)
  from split_words [OF this] obtain ws where "code = concat (map le32_store ws)" ..
  then show "\<exists>ws. code = concat (map le32_store ws) \<and> list_all (\<lambda>w. InstructionIsOK w config) ws"
    using ok filter_words by blast
qed (auto simp: filter_words)

text \<open>Two pieces of code can be joined exactly when each is acceptable, if the first is a whole
  number of instructions.\<close>

theorem filter_append:
  assumes "length a mod 4 = 0"
  shows "StaticInstructionFilter_AArch64 (a @ b) config \<longleftrightarrow>
     StaticInstructionFilter_AArch64 a config \<and> StaticInstructionFilter_AArch64 b config"
proof (cases "length b mod 4 = 0")
  case True
  from split_words [OF assms] obtain ws where "a = concat (map le32_store ws)" ..
  moreover from split_words [OF True] obtain vs where "b = concat (map le32_store vs)" ..
  ultimately show ?thesis using filter_words [of "ws @ vs"] by (simp add: filter_words)
next
  case False
  then have "length (a @ b) mod 4 \<noteq> 0" using assms by (simp add: mod_add_left_eq [symmetric])
  then show ?thesis using False by (simp add: StaticInstructionFilter_AArch64_def)
qed

theorem filter_append_witness:
  "StaticInstructionFilter_AArch64 ([1, 0, 0, 0x14] @ [1, 0, 0]) default_filter_config \<longleftrightarrow>
   StaticInstructionFilter_AArch64 [1, 0, 0, 0x14] default_filter_config \<and>
   StaticInstructionFilter_AArch64 [1, 0, 0] default_filter_config"
  by (rule filter_append) simp

text \<open>Allowing more instruction classes never makes the filter reject code it accepted.\<close>

theorem filter_config_monotone:
  assumes "stricter c d" "StaticInstructionFilter_AArch64 code c"
  shows "StaticInstructionFilter_AArch64 code d"
proof -
  have "length code mod 4 = 0" using assms(2) by (auto simp: StaticInstructionFilter_AArch64_def split: if_splits)
  from split_words [OF this] obtain ws where code: "code = concat (map le32_store ws)" ..
  then show ?thesis
    using assms InstructionIsOK_mono by (auto simp: filter_words list_all_iff)
qed

theorem filter_config_monotone_witness:
  "StaticInstructionFilter_AArch64 [1, 0, 0, 0x14] default_filter_config"
proof (rule filter_config_monotone)
  let ?c = "default_filter_config\<lparr>sve_instructions_allowed := False, indirect_branches_allowed := False\<rparr>"
  show "stricter ?c default_filter_config" by (simp add: stricter_def default_filter_config_def)
  show "StaticInstructionFilter_AArch64 [1, 0, 0, 0x14] ?c" by code_simp
qed

text \<open>An accepted \<open>MRS\<close> or \<open>MSR\<close> names one of five registers: \<open>NZCV\<close>, \<open>FPCR\<close>, \<open>FPSR\<close>,
  \<open>TPIDR_EL0\<close> and \<open>TPIDRRO_EL0\<close>, whatever the configuration.\<close>

theorem accepted_sysregs:
  assumes "InstructionIsOK w config" "matches kSysregInstruction w"
  shows "sysreg_fields w \<in> {(3, 4, 2, 0), (3, 4, 4, 0), (3, 4, 4, 1), (3, 13, 0, 2), (3, 13, 0, 3)}"
proof -
  have "w AND kSysregMask \<in> set kAllowedSysregs"
    using assms by (auto simp: InstructionIsOK_def list_ex_iff split: if_splits)
  then show ?thesis using allowed_sysreg_fields sysreg_fields_mask by metis
qed

text \<open>\<open>msr NZCV, x0\<close>\<close>

theorem accepted_sysregs_witness: "sysreg_fields 0xd51b4200 = (3, 4, 2, 0)"
proof -
  have "sysreg_fields 0xd51b4200 \<in> {(3, 4, 2, 0), (3, 4, 4, 0), (3, 4, 4, 1), (3, 13, 0, 2), (3, 13, 0, 3)}"
    by (rule accepted_sysregs [of _ default_filter_config]) code_simp+
  then show ?thesis by (simp add: sysreg_fields_def)
qed

text \<open>No row of the table of banned instructions is dead or redundant: each matches some word
  that none given other row matches.\<close>

theorem banned_rows_independent:
  assumes "a \<in> set kBannedInstructions" "b \<in> set kBannedInstructions" "a \<noteq> b"
  shows "\<exists>w. matches a w \<and> \<not> matches b w"
proof (rule not_implied_by)
  show "matcher_ok a" using assms(1) tables_ok(1) by (simp add: list_all_iff)
  show "\<not> implied_by a b"
    using assms banned_not_implied banned_sve_not_implied
    unfolding list_all_iff kBannedInstructions_def [of] set_append by blast
qed

theorem banned_rows_independent_witness:
  "\<exists>w. matches (kBannedInstructions ! 0) w \<and> \<not> matches (kBannedInstructions ! 1) w"
  by (rule banned_rows_independent) (simp_all add: filter_tables_def)

end
