(* ===== verification/Fuzzer_AArch64.thy ===== *)
theory Fuzzer_AArch64
  imports Program_AArch64 Batch_Safety Program_Edits Filter_Facts
begin

text \<open>
  AArch64 meets the interface of \<open>Arch_Laws\<close>, for every disassembler, so that everything proved
  about programs, mutations and the batch mutator holds of it.
\<close>

section \<open>The interface\<close>

interpretation a64: fixed_width_reach "aarch64 dis" good_aarch64 disp_aarch64 4 "2 ^ 15 - 4"
  for dis
proof unfold_locales
  fix i j a b must bytes i0
  show "max_insns (aarch64 dis) * buffer_size (aarch64 dis) < 2 ^ 62"
    and "0 < buffer_size (aarch64 dis)" and "0 < min_size (aarch64 dis)"
    by (simp_all add: aarch64_def)
  show "good_aarch64 i \<Longrightarrow> 0 < length (encoded i) \<and> length (encoded i) \<le> buffer_size (aarch64 dis)"
    and "good_aarch64 i \<Longrightarrow> length (encoded i) = 4"
    by (simp_all add: aarch64_def good_aarch64_def)
  show "good_aarch64 i \<Longrightarrow> encoded j = encoded i \<Longrightarrow>
      valid (direct_branch j) = valid (direct_branch i) \<Longrightarrow> good_aarch64 j"
    by (simp add: good_aarch64_def)
  show "bytes \<noteq> [] \<Longrightarrow> returns (\<lambda>(ok, i). ok \<longrightarrow>
      good_aarch64 i \<and> in_sync disp_aarch64 i \<and>
      instruction_boundary (direct_branch i) = kInvalidInstructionBoundary \<and>
      (valid (direct_branch i) \<longrightarrow> \<bar>sint (encoded_byte_displacement (direct_branch i))\<bar> < 2 ^ 61) \<and>
      length (encoded i) \<le> length bytes \<and> encoded i = take (length (encoded i)) bytes)
    (insn_from_bytes (aarch64 dis) default_insn_config must bytes i0)"
    using from_bytes_aarch64 by (simp add: aarch64_def)
  assume i: "good_aarch64 i" "valid (direct_branch i)"
  show "returns (\<lambda>(ok, j). good_aarch64 j \<and>
      direct_branch j = direct_branch i \<and> offset j = offset i \<and> (ok \<longrightarrow> in_sync disp_aarch64 j))
    (reencode (aarch64 dis) i)"
    by (rule reencode_aarch64 [OF i]) (simp add: aarch64_def)
  assume d: "encoded_byte_displacement (direct_branch i) = of_nat (4 * a) - of_nat (4 * b)"
    and ab: "4 * a \<le> 2 ^ 15 - 4" "4 * b \<le> 2 ^ 15 - (4 :: nat)"
  have sd: "sint (encoded_byte_displacement (direct_branch i)) = 4 * (int a - int b)"
  proof -
    have "encoded_byte_displacement (direct_branch i) = word_of_int (4 * (int a - int b))"
      unfolding d by (simp add: algebra_simps)
    moreover have "sint (word_of_int (4 * (int a - int b)) :: u64) = 4 * (int a - int b)"
      using ab by (intro sint_word_of_int_u64) auto
    ultimately show ?thesis by metis
  qed
  have "encodable fw (sint (encoded_byte_displacement (direct_branch i)))" if "14 \<le> fw" for fw
  proof -
    have "(2 :: int) ^ 15 \<le> 2 ^ (fw + 1)" using that by (intro power_increasing) auto
    then show ?thesis using ab unfolding sd by (simp add: encodable_def)
  qed
  moreover obtain info j where row: "branch_row (le32_load (encoded i)) = Some info"
      and re: "TryToReencode_AArch64 i = ret (encodable (field_width (displacement info))
                 (sint (encoded_byte_displacement (direct_branch i))), j)"
    by (rule reencode_aarch64 [OF i]) blast
  moreover have "14 \<le> field_width (displacement info)"
    using branch_table_fields branch_rowE(1) [OF row] by blast
  ultimately show "returns fst (reencode (aarch64 dis) i)"
    by (simp add: aarch64_def)
qed

section \<open>Finished programs\<close>

abbreviation inv_aarch64 :: "(byte list \<Rightarrow> bool) \<Rightarrow> program \<Rightarrow> bool" where
  "inv_aarch64 dis \<equiv> prog_inv (aarch64 dis) good_aarch64 disp_aarch64"

abbreviation finalized_aarch64 :: "(byte list \<Rightarrow> bool) \<Rightarrow> program \<Rightarrow> bool" where
  "finalized_aarch64 dis \<equiv> finalized (aarch64 dis) good_aarch64 disp_aarch64"

text \<open>
  What every produced byte sequence satisfies: it fits the limit and the AArch64 filter accepts it,
  so that it is a whole number of acceptable instructions.
\<close>

definition acceptable_output :: "u64 \<Rightarrow> byte list \<Rightarrow> bool" where
  "acceptable_output max_len output \<longleftrightarrow>
     length output \<le> unat max_len \<and> length output mod 4 = 0 \<and>
     StaticInstructionFilter_AArch64 output default_filter_config"

lemma good_word: "good_aarch64 i \<Longrightarrow> \<exists>w. encoded i = le32_store w \<and> InstructionIsOK w default_filter_config"
proof -
  assume i: "good_aarch64 i"
  then obtain b0 b1 b2 b3 where "encoded i = [b0, b1, b2, b3]"
    by (auto simp: good_aarch64_def numeral_eq_Suc length_Suc_conv)
  then show ?thesis using i le32_store_load [of b0 b1 b2 b3] by (metis good_aarch64_def)
qed

lemma good_concat:
  "\<forall>i \<in> set is. good_aarch64 i \<Longrightarrow> \<exists>ws. concat (map encoded is) = concat (map le32_store ws) \<and>
     list_all (\<lambda>w. InstructionIsOK w default_filter_config) ws"
proof (induction "is")
  case (Cons i "is")
  then obtain ws where "concat (map encoded is) = concat (map le32_store ws)"
      "list_all (\<lambda>w. InstructionIsOK w default_filter_config) ws" by auto
  moreover obtain w where "encoded i = le32_store w" "InstructionIsOK w default_filter_config"
    using good_word Cons.prems by auto
  ultimately show ?case by (intro exI [of _ "w # ws"]) simp
qed (auto intro: exI [of _ "[]"])

lemma length_store_words: "length (concat (map le32_store ws)) = 4 * length ws"
  by (induction ws) simp_all

lemma acceptable_outputI:
  assumes "a64.output_of dis max_len output"
  shows "acceptable_output max_len output"
proof -
  from assms obtain p where p: "finalized_aarch64 dis p" "output = concat (map encoded (instructions p))"
      "length output \<le> unat max_len"
    by (auto simp: a64.output_of_def)
  then have "\<forall>i \<in> set (instructions p). good_aarch64 i" by (simp add: finalized_def prog_inv_def)
  from good_concat [OF this] p show ?thesis
    by (auto simp: acceptable_output_def filter_words length_store_words)
qed

section \<open>A sample\<close>

lemma two_branches_good:
  "branch_row 0x14000001 = Some branch_b_bl" "branch_row 0x17ffffff = Some branch_b_bl"
  by (simp_all add: branch_row_def branch_rows_def matches_def)

lemma two_branches_inv: "inv_aarch64 dis two_branches"
proof -
  have w: "le32_load [1, 0, 0, 0x14] = 0x14000001" "le32_load [0xff, 0xff, 0xff, 0x17] = 0x17ffffff"
    by simp_all
  have "good_aarch64 (branch_insn [1, 0, 0, 0x14] 4 1 0)"
      "good_aarch64 (branch_insn [0xff, 0xff, 0xff, 0x17] (- 4) 0 4)"
    using branch_InstructionIsOK [OF two_branches_good(1)] branch_InstructionIsOK [OF two_branches_good(2)]
    by (simp_all add: good_aarch64_def branch_insn_def w two_branches_good del: le32_load.simps)
  moreover have "in_sync disp_aarch64 (branch_insn [1, 0, 0, 0x14] 4 1 0)"
      "in_sync disp_aarch64 (branch_insn [0xff, 0xff, 0xff, 0x17] (- 4) 0 4)"
    unfolding in_sync_def disp_aarch64_def branch_insn_def insn.simps w two_branches_good option.case
    by (simp_all add: branch_b_bl_def ExtractBranchDisplacement_def)
  ultimately show ?thesis
    using two_branches_ok by (simp add: prog_inv_def aarch64_def two_branches_def)
qed

end
