(* ===== verification/AArch64_Properties.thy ===== *)
theory AArch64_Properties
  imports Fuzzer_AArch64
begin

text \<open>
  The properties of the fuzzer's program model and mutations for AArch64: decoding and
  re-encoding of branches, parsing, the fixup of encodings, the mutations and the outputs of the
  batch mutator.
\<close>

section \<open>Branch displacements\<close>

text \<open>\<open>ExtractBranchDisplacement\<close> is four times the field read as a signed number.\<close>

theorem extract_displacement_value:
  assumes "1 \<le> width" "width \<le> 30" "l + width \<le> 32"
  shows "sint (ExtractBranchDisplacement w l width) = 4 * signed_take_bit (width - 1) (uint (drop_bit l w))"
proof (rule bit_eqI)
  fix n
  have "bit (4 * signed_take_bit (width - 1) (uint (drop_bit l w))) n \<longleftrightarrow>
      2 \<le> n \<and> bit w (l + min (n - 2) (width - 1))"
    using assms bit_push_bit_iff_int [of 2 "signed_take_bit (width - 1) (uint (drop_bit l w))" n]
    by (simp add: push_bit_eq_mult bit_signed_take_bit_iff bit_uint_iff bit_drop_bit_eq mult.commute)
      (auto simp: min_def)
  moreover have "bit (sint (ExtractBranchDisplacement w l width)) n \<longleftrightarrow>
      2 \<le> n \<and> bit w (l + min (n - 2) (width - 1))"
  proof -
    let ?x = "ExtractBranchDisplacement w l width"
    have "min (min n 31 - 2) (width - 1) = min (n - 2) (width - 1)" "2 \<le> min n 31 \<longleftrightarrow> 2 \<le> n"
      using assms by auto
    moreover have "bit (sint ?x) n \<longleftrightarrow> bit ?x (min n 31)"
      by (auto simp: bit_sint_iff min_def dest: bit_imp_le_length)
    ultimately show ?thesis using bit_Extract [OF assms, of "min n 31" w] by simp
  qed
  ultimately show "bit (sint (ExtractBranchDisplacement w l width)) n \<longleftrightarrow>
      bit (4 * signed_take_bit (width - 1) (uint (drop_bit l w))) n" by simp
qed

theorem extract_displacement_value_witness:
  "sint (ExtractBranchDisplacement 0x17ffffff 0 26) = - 4"
  using extract_displacement_value [of 26 0 "0x17ffffff"] by simp

text \<open>C28: a displacement written into the field of a branch is read back unchanged exactly when it is
  a multiple of four that fits the signed field, on either side of zero.\<close>

theorem displacement_round_trip:
  assumes "branch_row w = Some info"
  shows "scast (ExtractBranchDisplacement
           (RewriteBranchDisplacement w (lsb (displacement info)) (field_width (displacement info)) (ucast d))
           (lsb (displacement info)) (field_width (displacement info))) = (d :: u64) \<longleftrightarrow>
     4 dvd sint d \<and> - (2 ^ (field_width (displacement info) + 1)) \<le> sint d \<and>
     sint d < 2 ^ (field_width (displacement info) + 1)"
  using branch_table_fields [OF branch_rowE(1) [OF assms]]
  by (subst Extract_Rewrite_iff) (auto simp: encodable_def)

theorem displacement_round_trip_witness:
  "scast (ExtractBranchDisplacement (RewriteBranchDisplacement 0x14000001 0 26 (ucast (- 8 :: u64))) 0 26)
     = (- 8 :: u64)"
  using displacement_round_trip [OF two_branches_good(1), of "- 8"] by (simp add: branch_b_bl_def)

text \<open>Rewriting a displacement changes no bit outside the field: the word stays the same kind of
  branch, and stays acceptable to the filter.\<close>

theorem rewrite_keeps_instruction:
  assumes "branch_row w = Some info"
    and "w' = RewriteBranchDisplacement w (lsb (displacement info)) (field_width (displacement info)) d"
  shows "branch_row w' = Some info \<and> InstructionIsOK w' default_filter_config \<and>
    (\<forall>n. \<not> (lsb (displacement info) \<le> n \<and> n < lsb (displacement info) + field_width (displacement info)) \<longrightarrow>
      bit w' n = bit w n)"
proof -
  have "branch_row w' = Some info" using branch_row_Rewrite [OF assms(1)] assms(2) by simp
  moreover have "bit w' n = bit w n"
    if "\<not> (lsb (displacement info) \<le> n \<and> n < lsb (displacement info) + field_width (displacement info))" for n
    using bit_Rewrite [of "field_width (displacement info)" "lsb (displacement info)" n w d]
      branch_table_fields [OF branch_rowE(1) [OF assms(1)]] that assms(2)
    by (cases "n < 32") (auto dest: bit_imp_le_length)
  ultimately show ?thesis using branch_InstructionIsOK by blast
qed

theorem rewrite_keeps_instruction_witness:
  "branch_row (RewriteBranchDisplacement 0x14000001 0 26 400) = Some branch_b_bl"
  using rewrite_keeps_instruction [OF two_branches_good(1) refl, of 400] by (simp add: branch_b_bl_def)

text \<open>A word has branch information exactly when it is a direct branch whose displacement is
  within the limit, and the information then is that displacement.\<close>

theorem branch_info_spec:
  "GetDirectBranchInfo w limit =
     (case disp_aarch64 (le32_store w) of
        None \<Rightarrow> no_displacement
      | Some d \<Rightarrow> if \<bar>sint d\<bar> < uint limit
                   then no_displacement\<lparr>encoded_byte_displacement := d\<rparr> else no_displacement)"
proof -
  have "DisplacementWithinFixupLimit d limit \<longleftrightarrow> \<bar>sint d\<bar> < uint limit" for d
    by (cases "0 \<le> sint d")
      (simp_all add: DisplacementWithinFixupLimit_def word_less_def uint_sint_nonneg uint_minus_sint_neg)
  then show ?thesis
    by (simp add: GetDirectBranchInfo_def disp_aarch64_def Let_def split: option.split)
qed

section \<open>Decoding\<close>

text \<open>\<open>InstructionFromBytes\<close> always returns; it accepts exactly the byte sequences that hold a
  whole instruction, pass the disassembler and the filter when asked to, and contain nothing else
  when everything must be decoded; what it accepts is the first four bytes.\<close>

theorem instruction_from_bytes_spec:
  "\<exists>ok j. InstructionFromBytes_AArch64 dis config must bytes i = ret (ok, j) \<and>
     (ok \<longleftrightarrow> 4 \<le> length bytes \<and> (require_valid_encoding config \<longrightarrow> dis bytes) \<and>
             (must \<longrightarrow> length bytes = 4) \<and>
             (filter_insns config \<longrightarrow> InstructionIsOK (le32_load bytes) default_filter_config)) \<and>
     (ok \<longrightarrow> j = i\<lparr>encoded := take 4 bytes,
                   direct_branch := GetDirectBranchInfo (le32_load bytes) (displacement_fixup_limit config)\<rparr>)"
proof (cases "length bytes < 4")
  case False
  then obtain b0 b1 b2 b3 rest where bytes: "bytes = b0 # b1 # b2 # b3 # rest"
    by (auto simp: not_less numeral_eq_Suc Suc_le_length_iff)
  then show ?thesis
    by (auto simp: InstructionFromBytes_AArch64_def Let_def insn_data_copy_def
        StaticInstructionFilter_AArch64_def)
qed (auto simp: InstructionFromBytes_AArch64_def Let_def)

theorem instruction_from_bytes_spec_witness:
  "\<exists>j. InstructionFromBytes_AArch64 (\<lambda>_. True) default_insn_config False [1, 0, 0, 0x14, 7] empty_insn = ret (True, j)
     \<and> encoded j = [1, 0, 0, 0x14]"
proof -
  have "le32_load [1, 0, 0, 0x14, 7] = 0x14000001" by simp
  then have "InstructionIsOK (le32_load [1, 0, 0, 0x14, 7]) default_filter_config"
    using branch_InstructionIsOK [OF two_branches_good(1)] by (simp only:)
  then show ?thesis
    using instruction_from_bytes_spec [of "\<lambda>_. True" default_insn_config False "[1, 0, 0, 0x14, 7]" empty_insn]
    by (auto simp: take_Cons' simp del: le32_load.simps)
qed

text \<open>Re-encoding a branch never aborts; it succeeds exactly for the displacements the field can
  hold, and changes the encoding only.\<close>

theorem reencode_spec:
  assumes "length (encoded i) = 4" "branch_row (le32_load (encoded i)) = Some info"
  shows "TryToReencode_AArch64 i = ret
     (encodable (field_width (displacement info)) (sint (encoded_byte_displacement (direct_branch i))),
      i\<lparr>encoded := le32_store (RewriteBranchDisplacement (le32_load (encoded i))
         (lsb (displacement info)) (field_width (displacement info))
         (ucast (encoded_byte_displacement (direct_branch i))))\<rparr>)"
  using Extract_Rewrite_iff [of "field_width (displacement info)" "lsb (displacement info)"]
    branch_table_fields [OF branch_rowE(1) [OF assms(2)]] assms(2)
  by (simp add: TryToReencode_AArch64_def Let_def)

theorem reencode_spec_witness:
  "\<exists>j. TryToReencode_AArch64 (branch_insn [1, 0, 0, 0x14] 3 1 0) = ret (False, j)"
proof -
  have "le32_load [1, 0, 0, 0x14] = 0x14000001" by simp
  then have "branch_row (le32_load (encoded (branch_insn [1, 0, 0, 0x14] 3 1 0))) = Some branch_b_bl"
    using two_branches_good(1) by (simp add: branch_insn_def del: le32_load.simps)
  from reencode_spec [OF _ this] show ?thesis
    by (simp add: branch_insn_def encodable_def)
qed


section \<open>Parsing\<close>

text \<open>C5: parsing never aborts and always returns a consistent, laid out program of acceptable
  instructions, whatever the bytes.\<close>

theorem parse_total:
  assumes "length bytes < 2 ^ 58"
  shows "returns (\<lambda>p. inv_aarch64 dis p \<and> laid_out p)
           (program_from_bytes (aarch64 dis) default_insn_config False bytes)"
  by (rule a64.program_from_bytes_returns) (use assms in \<open>simp_all add: aarch64_def\<close>)

theorem parse_total_witness:
  "returns (\<lambda>p. inv_aarch64 (\<lambda>_. True) p \<and> laid_out p)
     (program_from_bytes (aarch64 (\<lambda>_. True)) default_insn_config False [1, 0, 0, 0x14, 7])"
  by (rule parse_total) simp

text \<open>C4: what a strict parse accepts is written back byte for byte, and the fixup of its encodings
  has nothing to do.\<close>

theorem strict_parse_round_trip:
  assumes "program_from_bytes (aarch64 dis) default_insn_config True bytes = ret p"
  shows "inv_aarch64 dis p \<and>
     FixupEncodedDisplacements (aarch64 dis) r p = ret (False, p\<lparr>encodings_may_be_invalid := False\<rparr>, r) \<and>
     ToBytes (p\<lparr>encodings_may_be_invalid := False\<rparr>) = ret bytes"
  by (rule a64.strict_round_trip [OF assms])

lemma for_range_numeral:
  "for_range f k (numeral n) s = rbind (f k s) (\<lambda>s'. for_range f (Suc k) (pred_numeral n) s')"
  by (simp add: numeral_eq_Suc)

lemma parse_two_branches:
  "program_from_bytes (aarch64 (\<lambda>_. True)) default_insn_config True [1, 0, 0, 0x14, 0xff, 0xff, 0xff, 0x17] =
     ret (two_branches\<lparr>encodings_may_be_invalid := True\<rparr>)"
proof -
  let ?A = "aarch64 (\<lambda>_. True)" let ?c = default_insn_config
  let ?i = "branch_insn [1, 0, 0, 0x14] 4 kInvalidInstructionBoundary 0"
  let ?j = "branch_insn [0xff, 0xff, 0xff, 0x17] (- 4) kInvalidInstructionBoundary 4"
  have w: "le32_load (1 # 0 # 0 # 0x14 # xs) = 0x14000001" "le32_load (0xff # 0xff # 0xff # 0x17 # xs) = 0x17ffffff" for xs
    by simp_all
  have info: "GetDirectBranchInfo 0x14000001 (- 1) = no_displacement\<lparr>encoded_byte_displacement := 4\<rparr>"
      "GetDirectBranchInfo 0x17ffffff (- 1) = no_displacement\<lparr>encoded_byte_displacement := - 4\<rparr>"
    unfolding GetDirectBranchInfo_def two_branches_good
    by (simp_all add: branch_b_bl_def ExtractBranchDisplacement_def DisplacementWithinFixupLimit_def)
  note ok = branch_InstructionIsOK [OF two_branches_good(1)] branch_InstructionIsOK [OF two_branches_good(2)]
  have "parse_insns ?A ?c True [1, 0, 0, 0x14, 0xff, 0xff, 0xff, 0x17] = ret [?i, ?j]"
    unfolding parse_insns_def
    by (subst rloop.simps, simp add: parse_round_def aarch64_def InstructionFromBytes_AArch64_def
        insn_data_copy_def w info ok default_insn_config_def StaticInstructionFilter_AArch64_def
        empty_insn_def no_displacement_def del: le32_load.simps)+
      (simp add: branch_insn_def)
  moreover have "ResolveDisplacements True
      \<lparr>instructions = [?i, ?j], byte_len = 0, encodings_may_be_invalid = True\<rparr> =
      ret \<lparr>instructions = instructions two_branches, byte_len = 0, encodings_may_be_invalid = True\<rparr>"
    by (simp add: ResolveDisplacements_def resolve_one_def FindClosestInstructionBoundary_def
        InstructionBoundaryToProgramByteOffset_def NumInstructionBoundaries_def set_insn_def samples
        valid_def kInvalidByteDisplacement_def kInvalidInstructionBoundary_def i64_sub_def i64_abs_def
        Let_def check_def for_range_numeral)
  ultimately show ?thesis
    by (simp add: program_from_bytes_def FixupInvariants_def samples)
qed

text \<open>\<open>b +4\<close> followed by \<open>b -4\<close>\<close>

theorem strict_parse_round_trip_witness:
  "ToBytes (two_branches\<lparr>encodings_may_be_invalid := False\<rparr>) = ret [1, 0, 0, 0x14, 0xff, 0xff, 0xff, 0x17]"
  using strict_parse_round_trip [OF parse_two_branches] by simp

section \<open>The fixup of encodings\<close>

text \<open>C2: \<open>FixupEncodedDisplacements\<close> fails no \<open>CHECK\<close>: its rounds are enough, and whenever it
  returns, every branch encodes the distance to its target boundary, the offsets are the sums of
  the lengths, and no instruction was added or lost.\<close>

theorem fixup_finalizes:
  assumes "inv_aarch64 dis p"
  shows "safe (\<lambda>(modified, q, r'). finalized_aarch64 dis q \<and> NumInstructions q = NumInstructions p)
           (FixupEncodedDisplacements (aarch64 dis) r p)"
  by (rule a64.fixup_safe [OF assms])

theorem fixup_finalizes_witness:
  "safe (\<lambda>(modified, q, r'). finalized_aarch64 (\<lambda>_. True) q \<and> NumInstructions q = 2)
     (FixupEncodedDisplacements (aarch64 (\<lambda>_. True)) (sconst 0) two_branches)"
  using fixup_finalizes [OF two_branches_inv] by (simp add: two_branches_N)

text \<open>C3: for a program of at most 8191 instructions every branch can reach every boundary, so the
  fixup returns and draws nothing from the random source.\<close>

theorem fixup_returns_small:
  assumes "inv_aarch64 dis p" "NumInstructions p \<le> 8191"
  shows "returns (\<lambda>(modified, q, r'). finalized_aarch64 dis q \<and> NumInstructions q = NumInstructions p \<and> r' = r)
           (FixupEncodedDisplacements (aarch64 dis) r p)"
  by (rule a64.fixup_returns [OF assms(1)]) (use assms(2) in simp)

theorem fixup_returns_small_witness:
  "\<exists>modified q. FixupEncodedDisplacements (aarch64 (\<lambda>_. True)) (sconst 0) two_branches = ret (modified, q, sconst 0)"
  using fixup_returns_small [OF two_branches_inv, of "\<lambda>_. True" "sconst 0"] two_branches_N
  by (auto elim!: returnsE)

lemma finalized_exact:
  assumes p: "finalized_aarch64 dis p" and k: "k < NumInstructions p"
  shows "exact_branch p k"
proof -
  let ?i = "instructions p ! k" let ?is = "instructions p"
  have ne: "?is \<noteq> []" using k by auto
  have i: "in_sync disp_aarch64 ?i" "branch_ok (NumInstructionBoundaries p) ?i"
    using p k by (auto simp: finalized_def prog_inv_def program_ok_def)
  have off: "offset (?is ! j) = total_len (take j ?is)" if "j < NumInstructions p" for j
    using p that by (simp add: finalized_def laid_out_def)
  have bd: "InstructionBoundaryToProgramByteOffset p b = ret (total_len (take b ?is))"
    if "b \<le> NumInstructions p" for b
  proof (cases "b < NumInstructions p")
    case True
    then show ?thesis using off by (simp add: InstructionBoundaryToProgramByteOffset_def NumInstructionBoundaries_def)
  next
    case False
    let ?n = "NumInstructions p - 1"
    have "?is = take ?n ?is @ [last ?is]" using ne 
      by (metis append_butlast_last_id butlast_conv_take)
    then have "total_len ?is = total_len (take ?n ?is) + of_nat (length (encoded (last ?is)))"
      by (metis total_len_simps(1,2,3) add.right_neutral)
    moreover have "offset (last ?is) = total_len (take ?n ?is)"
      using off [of ?n] ne by (simp add: last_conv_nth)
    ultimately show ?thesis
      using False that ne by (simp add: InstructionBoundaryToProgramByteOffset_def NumInstructionBoundaries_def)
  qed
  have "branch_resolved disp_aarch64 p k" using p k by (simp add: finalized_def)
  then show ?thesis
    using i bd off [OF k]
    by (auto simp: exact_branch_def branch_resolved_def in_sync_def branch_ok_def Let_def
        NumInstructionBoundaries_def diff_eq_eq add.commute)
qed

text \<open>A second fixup changes nothing.\<close>

theorem fixup_idempotent:
  assumes "finalized_aarch64 dis p"
  shows "FixupEncodedDisplacements (aarch64 dis) r p = ret (False, p, r)"
proof -
  have "p\<lparr>encodings_may_be_invalid := False\<rparr> = p" using assms by (cases p) (simp add: finalized_def)
  then show ?thesis
    using fixup_noop [of p "aarch64 dis" r] finalized_exact [OF assms] assms
    by (simp add: finalized_def prog_inv_def program_ok_def)
qed

lemma two_branches_finalized: "finalized_aarch64 dis two_branches"
proof -
  have w: "le32_load [1, 0, 0, 0x14] = 0x14000001" "le32_load [0xff, 0xff, 0xff, 0x17] = 0x17ffffff"
    by simp_all
  have "disp_aarch64 [1, 0, 0, 0x14] = Some 4" "disp_aarch64 [0xff, 0xff, 0xff, 0x17] = Some (- 4)"
    unfolding disp_aarch64_def w two_branches_good option.case
    by (simp_all add: branch_b_bl_def ExtractBranchDisplacement_def)
  moreover have all: "(\<forall>k < NumInstructions two_branches. Q k) \<longleftrightarrow> Q 0 \<and> Q (Suc 0)" for Q
    unfolding two_branches_N by (auto simp: numeral_2_eq_2 less_Suc_eq)
  moreover have "laid_out two_branches"
    unfolding laid_out_def all by (simp add: samples total_len_def)
  moreover have "branch_resolved disp_aarch64 two_branches 0 \<and> branch_resolved disp_aarch64 two_branches (Suc 0)"
    using calculation(1,2) by (simp add: branch_resolved_def samples total_len_def)
  moreover have "\<not> encodings_may_be_invalid two_branches" by (simp add: samples)
  ultimately show ?thesis using two_branches_inv unfolding finalized_def all by blast
qed

theorem fixup_idempotent_witness:
  "FixupEncodedDisplacements (aarch64 (\<lambda>_. True)) (sconst 0) two_branches = ret (False, two_branches, sconst 0)"
  by (rule fixup_idempotent [OF two_branches_finalized])

end
