(* ===== verification/Mutator_Properties.thy ===== *)
theory Mutator_Properties
  imports AArch64_Properties
begin

text \<open>
  The properties of the mutation operations, the mutation policies and the batch mutator, for
  AArch64 programs and for every random source.
\<close>

section \<open>Single mutations\<close>

text \<open>\<open>FlipBit\<close> inverts the requested bit and no other, so that flipping it twice changes
  nothing.\<close>

theorem flip_bit_exact:
  assumes "b < 8 * length bytes"
  shows "FlipBit (FlipBit bytes b) b = bytes \<and> length (FlipBit bytes b) = length bytes \<and>
    (\<forall>k < length bytes. \<forall>n < 8. bit (FlipBit bytes b ! k) n = (bit (bytes ! k) n \<noteq> (8 * k + n = b)))"
proof -
  have d: "b div 8 < length bytes" using assms by (simp add: div_less_iff_less_mult mult.commute)
  have "FlipBit (FlipBit bytes b) b = bytes"
    using d by (simp add: FlipBit_def xor.assoc)
  moreover have "bit (FlipBit bytes b ! k) n = (bit (bytes ! k) n \<noteq> (8 * k + n = b))"
    if "k < length bytes" "n < 8" for k n
  proof -
    have "8 * k + n = b \<longleftrightarrow> b div 8 = k \<and> b mod 8 = n" using that(2) by auto
    then show ?thesis
      using that d by (cases "b div 8 = k") (auto simp: FlipBit_def bit_simps)
  qed
  ultimately show ?thesis by simp
qed

theorem flip_bit_exact_witness: "FlipBit (FlipBit [1, 2, 3] 17) 17 = [1, 2, 3]"
  using flip_bit_exact [of 17 "[1, 2, 3]"] by simp

text \<open>C9: every mutation policy keeps every program consistent, with instructions the filter accepts
  and branches in step with their encodings; no \<open>CHECK\<close> of a mutation fails.\<close>

theorem mutate_keeps_invariant:
  assumes "inv_aarch64 dis p" "inv_aarch64 dis other" "wf_mutator m"
  shows "safe (\<lambda>(ok, q, r'). inv_aarch64 dis q) (Mutate (aarch64 dis) other m (p, r))"
  using a64.keeperD [OF a64.Mutate_keeps [OF assms(2,3)] assms(1)] .

theorem mutate_keeps_invariant_witness:
  "safe (\<lambda>(ok, q, r'). inv_aarch64 (\<lambda>_. True) q)
     (Mutate (aarch64 (\<lambda>_. True)) two_branches (SelectMutation [1, 1] [CrossoverInsert, SwapInstructions])
        (two_branches, sconst 0))"
  by (rule mutate_keeps_invariant [OF two_branches_inv two_branches_inv]) (simp add: has_positive_def)

text \<open>The policy of the batch mutator never asks \<open>std::discrete_distribution\<close> for an index when
  no weight is positive, whatever the crossover weight.\<close>

theorem batch_policy_well_formed: "wf_mutator (batch_mutator crossover_weight)"
  by (rule wf_batch_mutator)

text \<open>Deleting an instruction succeeds exactly above the minimum, removes exactly one, and leaves
  the program alone when it fails.\<close>

theorem delete_instruction_result:
  assumes "inv_aarch64 dis p"
  shows "returns (\<lambda>(ok, q, r'). inv_aarch64 dis q \<and> (ok \<longleftrightarrow> minimum < NumInstructions p) \<and>
             (if ok then Suc (NumInstructions q) = NumInstructions p else q = p))
           (DeleteInstruction_Mutate minimum (p, r))"
  using a64.delete_keeps [OF assms, of minimum r]
  by (rule returns_mono) (auto split: if_splits)

theorem delete_instruction_result_witness:
  "returns (\<lambda>(ok, q, r'). ok \<and> NumInstructions q = 1) (DeleteInstruction_Mutate 1 (two_branches, sconst 0))"
  using delete_instruction_result [OF two_branches_inv, of "\<lambda>_. True" 1 "sconst 0"]
  by (rule returns_mono) (auto simp: two_branches_N)

lemma redraw_returns:
  assumes "0 < NumInstructions p" "a < NumInstructions p"
  shows "b = shd r' mod NumInstructions p \<Longrightarrow> shd (sdrop k r') mod NumInstructions p \<noteq> a \<Longrightarrow>
    \<exists>c s. rloop (redraw_round p a) (b, stl r') = ret (c, s) \<and> c < NumInstructions p"
proof (induction k arbitrary: b r')
  case 0
  then show ?case using assms by (subst rloop.simps) (auto simp: redraw_round_def)
next
  case (Suc k)
  show ?case
  proof (cases "a = b")
    case True
    have "RandomInstructionIndex (stl r') p = ret (shd (stl r') mod NumInstructions p, stl (stl r'))"
      using assms(1) by (simp add: RandomInstructionIndex_def RandomIndex_ret)
    moreover have "\<exists>c s. rloop (redraw_round p a) (shd (stl r') mod NumInstructions p, stl (stl r')) = ret (c, s)
        \<and> c < NumInstructions p"
      using Suc.prems(2) by (intro Suc.IH [OF refl]) simp
    ultimately show ?thesis using True by (subst rloop.simps) (simp add: redraw_round_def)
  next
    case False
    then show ?thesis using Suc.prems(1) assms by (subst rloop.simps) (simp add: redraw_round_def)
  qed
qed

text \<open>The redrawing loop of the swap has no bound, but it ends as soon as one draw differs from
  the first index; the swap then succeeds.\<close>

theorem swap_returns:
  assumes "inv_aarch64 dis p" "2 \<le> NumInstructions p"
    and "shd (sdrop (Suc k) r) mod NumInstructions p \<noteq> shd r mod NumInstructions p"
  shows "\<exists>q r'. SwapInstructions_Mutate (p, r) = ret (True, q, r') \<and> inv_aarch64 dis q"
proof -
  let ?n = "NumInstructions p" let ?a = "shd r mod ?n"
  have pos: "0 < ?n" using assms(2) by linarith
  from redraw_returns [OF pos, of ?a "shd (stl r) mod ?n" "stl r" k] assms(3) pos
  obtain c s where c: "rloop (redraw_round p ?a) (shd (stl r) mod ?n, stl (stl r)) = ret (c, s)" "c < ?n"
    by auto
  have set: "\<exists>q. SetInstruction j i q' = ret q \<and> NumInstructions q = ?n"
    if "j < ?n" "NumInstructions q' = ?n" for j i q'
    using that by (simp add: SetInstruction_def SetInstructionBlock_eq)
  have a: "?a < ?n" using pos by simp
  obtain q1 where q1: "SetInstruction ?a (instructions p ! c) p = ret q1" "NumInstructions q1 = ?n"
    using set [OF a refl] by blast
  obtain q2 where q2: "SetInstruction c (instructions p ! ?a) q1 = ret q2"
    using set [OF c(2) q1(2)] by blast
  have "SwapInstructions_Mutate (p, r) = ret (True, q2, s)"
    using assms(2) c(1) q1(1) q2
    by (simp add: SwapInstructions_Mutate_def RandomInstructionIndex_def RandomIndex_ret [OF pos] Let_def)
  then show ?thesis using a64.swap_keeps [OF assms(1), of r] by simp
qed

theorem swap_returns_witness:
  "\<exists>q r'. SwapInstructions_Mutate (two_branches, 0 ## 0 ## 1 ## sconst 0) = ret (True, q, r')"
  using swap_returns [OF two_branches_inv [of "\<lambda>_. True"], of 1 "0 ## 0 ## 1 ## sconst 0"]
  by (auto simp: two_branches_N)

section \<open>Producing an output\<close>

text \<open>\<open>LimitProgramLength\<close> always ends with a program within the limit, reports whether it
  removed anything, and leaves a program that fits alone.\<close>

theorem limit_program_length:
  assumes "inv_aarch64 dis p"
  shows "returns (\<lambda>(limited, q, r'). inv_aarch64 dis q \<and> byte_len q \<le> max_len \<and>
           NumInstructions q \<le> NumInstructions p \<and>
           (if limited then max_len < byte_len p else q = p \<and> r' = r))
         (LimitProgramLength max_len (p, r))"
  by (rule a64.limit_returns [OF assms])

theorem limit_program_length_witness:
  "returns (\<lambda>(limited, q, r'). byte_len q \<le> 5) (LimitProgramLength 5 (two_branches, sconst 0))"
  using limit_program_length [OF two_branches_inv, of "\<lambda>_. True" 5 "sconst 0"]
  by (rule returns_mono) auto

text \<open>C27: finishing a non-empty program of at most 8191 instructions always returns, with a program
  within the limit all of whose branches are encoded; it draws no random number when the program
  already fits.\<close>

theorem finalize_program_returns:
  assumes "inv_aarch64 dis p" "byte_len p \<noteq> 0" "NumInstructions p \<le> 8191"
  shows "returns (\<lambda>(q, r'). finalized_aarch64 dis q \<and> byte_len q \<le> max_len \<and>
           (byte_len p \<le> max_len \<longrightarrow> NumInstructions q = NumInstructions p \<and> r' = r))
         (FinalizeProgram (aarch64 dis) max_len (p, r))"
  by (rule a64.finalize_returns [OF assms(1,2)]) (use assms(3) in simp)

theorem finalize_program_returns_witness:
  "\<exists>q. FinalizeProgram (aarch64 (\<lambda>_. True)) 100 (two_branches, sconst 0) = ret (q, sconst 0)"
proof -
  have "byte_len two_branches = 8" by (simp add: samples)
  then show ?thesis
    using finalize_program_returns [OF two_branches_inv, of "\<lambda>_. True" 100 "sconst 0"] two_branches_N
    by (auto elim!: returnsE)
qed

text \<open>C1: whatever the inputs (at least one, each shorter than \<open>2^58\<close> bytes), the random source and the crossover weight, the batch mutator fails no
  \<open>CHECK\<close>, and the outputs it returns are as many as asked for, within the length limit, and
  accepted by the instruction filter.\<close>

theorem batch_mutate_outputs:
  assumes "inputs \<noteq> []" "\<forall>bytes \<in> set inputs. length bytes < 2 ^ 58"
  shows "safe (\<lambda>(outputs, r'). length outputs = n \<and> list_all (acceptable_output max_len) outputs)
           (BatchMutate (aarch64 dis) crossover_weight max_len inputs n r)"
proof -
  have "safe (\<lambda>(outputs, r'). length outputs = n \<and> (\<forall>out \<in> set outputs. a64.output_of dis max_len out))
      (BatchMutate (aarch64 dis) crossover_weight max_len inputs n r)"
    by (rule a64.batch_safe) (use assms in \<open>auto simp: aarch64_def\<close>)
  then show ?thesis
    by (rule safe_mono) (auto simp: list_all_iff intro: acceptable_outputI)
qed

theorem batch_mutate_outputs_witness:
  "safe (\<lambda>(outputs, r'). length outputs = 3 \<and> list_all (acceptable_output 64) outputs)
     (BatchMutate (aarch64 (\<lambda>_. True)) (1 / 5) 64 [[1, 0, 0, 0x14, 0xff, 0xff, 0xff, 0x17], [0]] 3 (sconst 0))"
  by (rule batch_mutate_outputs) simp_all

end
