(* ===== verification/Memory_Perms.thy ===== *)
theory Memory_Perms
  imports Prelude
begin

text \<open>
  \<open>MemoryPerms\<close> of \<open>common/memory_perms.h\<close> and \<open>.cc\<close>: the permissions of a region of memory as a
  word of bits, and its refinement of sets of permissions. \<open>DCHECK\<close> is modelled as in a debug
  build, where it is \<open>CHECK\<close>.
\<close>

section \<open>The class\<close>

datatype permission = kReadable | kWritable | kExecutable | kMapped

definition ToInt :: "permission \<Rightarrow> u32" where
  "ToInt p = (case p of kReadable \<Rightarrow> 1 | kWritable \<Rightarrow> 2 | kExecutable \<Rightarrow> 4 | kMapped \<Rightarrow> 8)"

record memory_perms =
  permission_bits :: u32

definition MemoryPerms_None :: memory_perms where
  "MemoryPerms_None = \<lparr>permission_bits = 0\<rparr>"

definition MemoryPerms_All :: memory_perms where
  "MemoryPerms_All = \<lparr>permission_bits = ToInt kReadable OR ToInt kWritable OR ToInt kExecutable\<rparr>"

definition MemoryPerms_AllPlusMapped :: memory_perms where
  "MemoryPerms_AllPlusMapped =
     \<lparr>permission_bits = ToInt kReadable OR ToInt kWritable OR ToInt kExecutable OR ToInt kMapped\<rparr>"

definition MemoryPerms_R :: memory_perms where
  "MemoryPerms_R = \<lparr>permission_bits = ToInt kReadable\<rparr>"

definition MemoryPerms_W :: memory_perms where
  "MemoryPerms_W = \<lparr>permission_bits = ToInt kWritable\<rparr>"

definition MemoryPerms_X :: memory_perms where
  "MemoryPerms_X = \<lparr>permission_bits = ToInt kExecutable\<rparr>"

definition MemoryPerms_RW :: memory_perms where
  "MemoryPerms_RW = \<lparr>permission_bits = ToInt kReadable OR ToInt kWritable\<rparr>"

definition MemoryPerms_XR :: memory_perms where
  "MemoryPerms_XR = \<lparr>permission_bits = ToInt kReadable OR ToInt kExecutable\<rparr>"

definition MemoryPerms_XW :: memory_perms where
  "MemoryPerms_XW = \<lparr>permission_bits = ToInt kWritable OR ToInt kExecutable\<rparr>"

definition MemoryPerms_RWX :: memory_perms where
  "MemoryPerms_RWX = \<lparr>permission_bits = ToInt kReadable OR ToInt kWritable OR ToInt kExecutable\<rparr>"

section \<open>Mutators\<close>

definition MemoryPerms_AddPermission :: "permission \<Rightarrow> memory_perms \<Rightarrow> memory_perms" where
  "MemoryPerms_AddPermission p x = x\<lparr>permission_bits := permission_bits x OR ToInt p\<rparr>"

definition MemoryPerms_Add :: "memory_perms \<Rightarrow> memory_perms \<Rightarrow> memory_perms" where
  "MemoryPerms_Add y x = x\<lparr>permission_bits := permission_bits x OR permission_bits y\<rparr>"

text \<open>The constructor from an initializer list.\<close>

fun add_permissions :: "permission list \<Rightarrow> memory_perms \<Rightarrow> memory_perms" where
  "add_permissions [] x = x"
| "add_permissions (p # ps) x = add_permissions ps (MemoryPerms_AddPermission p x)"

definition MemoryPerms_of :: "permission list \<Rightarrow> memory_perms" where
  "MemoryPerms_of ps = add_permissions ps MemoryPerms_None"

definition MemoryPerms_Plus :: "memory_perms \<Rightarrow> memory_perms \<Rightarrow> memory_perms" where
  "MemoryPerms_Plus x y = MemoryPerms_Add y x"

definition MemoryPerms_PlusPermission :: "memory_perms \<Rightarrow> permission \<Rightarrow> memory_perms" where
  "MemoryPerms_PlusPermission x p = MemoryPerms_Plus x (MemoryPerms_of [p])"

definition MemoryPerms_Intersect :: "memory_perms \<Rightarrow> memory_perms \<Rightarrow> memory_perms" where
  "MemoryPerms_Intersect y x = x\<lparr>permission_bits := permission_bits x AND permission_bits y\<rparr>"

datatype join_mode = kOr | kAnd

definition MemoryPerms_Join :: "memory_perms \<Rightarrow> join_mode \<Rightarrow> memory_perms \<Rightarrow> memory_perms" where
  "MemoryPerms_Join y mode x =
     (case mode of kOr \<Rightarrow> MemoryPerms_Add y x | kAnd \<Rightarrow> MemoryPerms_Intersect y x)"

definition MemoryPerms_ClearPermission :: "permission \<Rightarrow> memory_perms \<Rightarrow> memory_perms" where
  "MemoryPerms_ClearPermission p x = x\<lparr>permission_bits := permission_bits x AND NOT (ToInt p)\<rparr>"

definition MemoryPerms_Clear :: "memory_perms \<Rightarrow> memory_perms \<Rightarrow> memory_perms" where
  "MemoryPerms_Clear y x = x\<lparr>permission_bits := permission_bits x AND NOT (permission_bits y)\<rparr>"

definition MemoryPerms_ClearAll :: "memory_perms \<Rightarrow> memory_perms" where
  "MemoryPerms_ClearAll x = MemoryPerms_None"

definition MemoryPerms_set_bits :: "u32 \<Rightarrow> memory_perms \<Rightarrow> memory_perms" where
  "MemoryPerms_set_bits bits x = x\<lparr>permission_bits := bits\<rparr>"

section \<open>Accessors\<close>

definition MemoryPerms_IsEmpty :: "memory_perms \<Rightarrow> bool" where
  "MemoryPerms_IsEmpty x \<longleftrightarrow> permission_bits x = 0"

definition MemoryPerms_HasPermission :: "memory_perms \<Rightarrow> permission \<Rightarrow> bool" where
  "MemoryPerms_HasPermission x p \<longleftrightarrow> permission_bits x AND ToInt p \<noteq> 0"

definition MemoryPerms_HasNo :: "memory_perms \<Rightarrow> permission \<Rightarrow> bool" where
  "MemoryPerms_HasNo x p \<longleftrightarrow> \<not> MemoryPerms_HasPermission x p"

definition MemoryPerms_HasAllOf :: "memory_perms \<Rightarrow> memory_perms \<Rightarrow> bool" where
  "MemoryPerms_HasAllOf x y \<longleftrightarrow> permission_bits x AND permission_bits y = permission_bits y"

definition MemoryPerms_HasSomeOf :: "memory_perms \<Rightarrow> memory_perms \<Rightarrow> bool" where
  "MemoryPerms_HasSomeOf x y \<longleftrightarrow> permission_bits x AND permission_bits y \<noteq> 0"

definition MemoryPerms_HasNoneOf :: "memory_perms \<Rightarrow> memory_perms \<Rightarrow> bool" where
  "MemoryPerms_HasNoneOf x y \<longleftrightarrow> \<not> MemoryPerms_HasSomeOf x y"

section \<open>Convertors\<close>

text \<open>The constants of \<open>sys/mman.h\<close> on Linux.\<close>

definition PROT_READ :: u32 where "PROT_READ = 1"
definition PROT_WRITE :: u32 where "PROT_WRITE = 2"
definition PROT_EXEC :: u32 where "PROT_EXEC = 4"

definition set_if :: "bool \<Rightarrow> permission \<Rightarrow> memory_perms \<Rightarrow> memory_perms" where
  "set_if b p r = (if b then r\<lparr>permission_bits := permission_bits r OR ToInt p\<rparr> else r)"

definition MemoryPerms_FromMProtect :: "u32 \<Rightarrow> memory_perms" where
  "MemoryPerms_FromMProtect prot =
     (let r = MemoryPerms_None;
          r = set_if (prot AND PROT_READ \<noteq> 0) kReadable r;
          r = set_if (prot AND PROT_WRITE \<noteq> 0) kWritable r
      in set_if (prot AND PROT_EXEC \<noteq> 0) kExecutable r)"

definition MemoryPerms_ToMProtect :: "memory_perms \<Rightarrow> u32" where
  "MemoryPerms_ToMProtect x =
     (let r = 0;
          r = (if MemoryPerms_HasPermission x kReadable then r OR PROT_READ else r);
          r = (if MemoryPerms_HasPermission x kWritable then r OR PROT_WRITE else r)
      in if MemoryPerms_HasPermission x kExecutable then r OR PROT_EXEC else r)"

definition MemoryPerms_FromProcMaps :: "string \<Rightarrow> memory_perms res" where
  "MemoryPerms_FromProcMaps perms =
     rbind (check (length perms = 4) ''perms.size() == 4'') (\<lambda>_.
     let r = MemoryPerms_None;
         r = set_if (CHR ''r'' \<in> set perms) kReadable r;
         r = set_if (CHR ''w'' \<in> set perms) kWritable r
     in ret (set_if (CHR ''x'' \<in> set perms) kExecutable r))"

definition MemoryPerms_ToString :: "memory_perms \<Rightarrow> string" where
  "MemoryPerms_ToString x =
     (let r = ''---'';
          r = (if MemoryPerms_HasPermission x kReadable then r[0 := CHR ''r''] else r);
          r = (if MemoryPerms_HasPermission x kWritable then r[1 := CHR ''w''] else r)
      in if MemoryPerms_HasPermission x kExecutable then r[2 := CHR ''x''] else r)"

definition MemoryPerms_DebugString :: "memory_perms \<Rightarrow> string" where
  "MemoryPerms_DebugString x =
     MemoryPerms_ToString x @ [if MemoryPerms_HasPermission x kMapped then CHR ''m'' else CHR ''-'']"

lemmas perms_defs =
  MemoryPerms_None_def MemoryPerms_All_def MemoryPerms_AllPlusMapped_def MemoryPerms_AddPermission_def
  MemoryPerms_Add_def MemoryPerms_Plus_def MemoryPerms_PlusPermission_def MemoryPerms_Intersect_def
  MemoryPerms_Join_def MemoryPerms_ClearPermission_def MemoryPerms_Clear_def MemoryPerms_IsEmpty_def
  MemoryPerms_HasPermission_def MemoryPerms_HasAllOf_def MemoryPerms_HasSomeOf_def
  MemoryPerms_HasNoneOf_def MemoryPerms_of_def

section \<open>Sets of permissions\<close>

text \<open>
  The abstraction: the permissions that are set. A value is well formed when no other bit is.
\<close>

definition perms_set :: "memory_perms \<Rightarrow> permission set" where
  "perms_set x = {p. MemoryPerms_HasPermission x p}"

definition perms_ok :: "memory_perms \<Rightarrow> bool" where
  "perms_ok x \<longleftrightarrow> take_bit 4 (permission_bits x) = permission_bits x"

definition perm_bit :: "permission \<Rightarrow> nat" where
  "perm_bit p = (case p of kReadable \<Rightarrow> 0 | kWritable \<Rightarrow> 1 | kExecutable \<Rightarrow> 2 | kMapped \<Rightarrow> 3)"

lemma ToInt_bit: "ToInt p = push_bit (perm_bit p) 1"
  by (cases p) (simp_all add: ToInt_def perm_bit_def)

lemma HasPermission_bit: "MemoryPerms_HasPermission x p \<longleftrightarrow> bit (permission_bits x) (perm_bit p)"
proof -
  have "perm_bit p < 32" by (cases p) (simp_all add: perm_bit_def)
  then show ?thesis
    unfolding MemoryPerms_HasPermission_def ToInt_bit
    using bit_iff_and_push_bit_not_eq_0 [of "permission_bits x" "perm_bit p"] by simp
qed

lemma mem_perms_set: "p \<in> perms_set x \<longleftrightarrow> bit (permission_bits x) (perm_bit p)"
  by (simp add: perms_set_def HasPermission_bit)

lemma perm_bit_cases: "n < 4 \<Longrightarrow> \<exists>p. n = perm_bit p"
proof -
  assume "n < 4"
  then consider "n = 0" | "n = 1" | "n = 2" | "n = 3" by fastforce
  then show ?thesis by cases (metis perm_bit_def permission.case)+
qed

lemma perm_bit_inject [simp]: "perm_bit p = perm_bit q \<longleftrightarrow> p = q"
  by (cases p; cases q) (simp_all add: perm_bit_def)

lemma perm_bit_lt [simp]: "perm_bit p < 4" "perm_bit p < 32"
  by (cases p; simp add: perm_bit_def)+

lemma perms_ok_bit: "perms_ok x \<Longrightarrow> bit (permission_bits x) n \<longleftrightarrow> (\<exists>p. n = perm_bit p \<and> p \<in> perms_set x)"
proof -
  assume ok: "perms_ok x"
  have "n < 4" if "bit (permission_bits x) n"
    using that ok unfolding perms_ok_def by (metis bit_take_bit_iff)
  then show ?thesis using perm_bit_cases by (auto simp: mem_perms_set)
qed

lemma perms_eq_iff: "perms_ok x \<Longrightarrow> perms_ok y \<Longrightarrow> x = y \<longleftrightarrow> perms_set x = perms_set y"
proof
  assume ok: "perms_ok x" "perms_ok y" and eq: "perms_set x = perms_set y"
  have "permission_bits x = permission_bits y"
    using perms_ok_bit [OF ok(1)] perms_ok_bit [OF ok(2)] eq by (simp add: bit_eq_iff)
  then show "x = y" by (cases x; cases y) simp
qed simp

lemma perms_okI: "(\<And>n. bit (permission_bits x) n \<Longrightarrow> n < 4) \<Longrightarrow> perms_ok x"
  unfolding perms_ok_def by (rule bit_eqI) (auto simp: bit_take_bit_iff)

lemma perms_ok_lt: "perms_ok x \<Longrightarrow> bit (permission_bits x) n \<Longrightarrow> n < 4"
  using perms_ok_bit by auto

lemma perms_ok_simps [simp]:
  "perms_ok MemoryPerms_None" "perms_ok MemoryPerms_All" "perms_ok MemoryPerms_AllPlusMapped"
  by (simp_all add: perms_ok_def perms_defs ToInt_def)

lemma perms_ok_ops [simp]:
  "perms_ok x \<Longrightarrow> perms_ok y \<Longrightarrow> perms_ok (MemoryPerms_Add y x)"
  "perms_ok x \<Longrightarrow> perms_ok (MemoryPerms_Intersect y x)"
  "perms_ok x \<Longrightarrow> perms_ok (MemoryPerms_Clear y x)"
  "perms_ok x \<Longrightarrow> perms_ok y \<Longrightarrow> perms_ok (MemoryPerms_Plus x y)"
  "perms_ok x \<Longrightarrow> perms_ok (MemoryPerms_AddPermission p x)"
  "perms_ok x \<Longrightarrow> perms_ok (MemoryPerms_ClearPermission p x)"
  by (auto intro!: perms_okI simp: perms_defs ToInt_bit bit_simps dest: perms_ok_lt)

lemma permission_UNIV: "{kReadable, kWritable, kExecutable, kMapped} = UNIV"
  using permission.exhaust by auto

lemma perms_set_simps [simp]:
  "perms_set MemoryPerms_None = {}"
  "perms_set MemoryPerms_All = {kReadable, kWritable, kExecutable}"
  "perms_set MemoryPerms_AllPlusMapped = UNIV"
proof -
  have "p \<in> perms_set MemoryPerms_None \<longleftrightarrow> p \<in> {}"
    "p \<in> perms_set MemoryPerms_All \<longleftrightarrow> p \<in> {kReadable, kWritable, kExecutable}"
    "p \<in> perms_set MemoryPerms_AllPlusMapped" for p
    by (cases p; simp add: perms_set_def perms_defs ToInt_def)+
  then show "perms_set MemoryPerms_None = {}"
    "perms_set MemoryPerms_All = {kReadable, kWritable, kExecutable}"
    "perms_set MemoryPerms_AllPlusMapped = UNIV" by blast+
qed

lemma perms_set_ops [simp]:
  "perms_set (MemoryPerms_Add y x) = perms_set x \<union> perms_set y"
  "perms_set (MemoryPerms_Plus x y) = perms_set x \<union> perms_set y"
  "perms_set (MemoryPerms_Intersect y x) = perms_set x \<inter> perms_set y"
  "perms_set (MemoryPerms_Clear y x) = perms_set x - perms_set y"
  "perms_set (MemoryPerms_AddPermission p x) = insert p (perms_set x)"
  "perms_set (MemoryPerms_ClearPermission p x) = perms_set x - {p}"
  "perms_set (MemoryPerms_PlusPermission x p) = insert p (perms_set x)"
  by (auto simp: mem_perms_set perms_defs ToInt_bit bit_simps dest: bit_imp_le_length)

lemma perms_ok_PlusPermission [simp]: "perms_ok x \<Longrightarrow> perms_ok (MemoryPerms_PlusPermission x p)"
  by (simp add: MemoryPerms_PlusPermission_def MemoryPerms_of_def)

lemma perms_set_empty: "perms_ok x \<Longrightarrow> MemoryPerms_IsEmpty x \<longleftrightarrow> perms_set x = {}"
proof -
  assume "perms_ok x"
  then have "x = MemoryPerms_None \<longleftrightarrow> perms_set x = {}" using perms_eq_iff [of x MemoryPerms_None] by simp
  moreover have "MemoryPerms_IsEmpty x \<longleftrightarrow> x = MemoryPerms_None"
    by (cases x) (simp add: MemoryPerms_IsEmpty_def MemoryPerms_None_def)
  ultimately show ?thesis by simp
qed

lemma bit_u32_eq_iff: "(a :: u32) = b \<longleftrightarrow> (\<forall>n. bit a n \<longleftrightarrow> bit b n)"
  by (auto intro: bit_eqI)

lemma perms_set_subset:
  assumes "perms_ok y"
  shows "MemoryPerms_HasAllOf x y \<longleftrightarrow> perms_set y \<subseteq> perms_set x"
proof -
  have "MemoryPerms_HasAllOf x y \<longleftrightarrow> (\<forall>n. bit (permission_bits y) n \<longrightarrow> bit (permission_bits x) n)"
    unfolding MemoryPerms_HasAllOf_def bit_u32_eq_iff bit_and_iff by blast
  also have "\<dots> \<longleftrightarrow> (\<forall>p. p \<in> perms_set y \<longrightarrow> p \<in> perms_set x)"
    unfolding mem_perms_set using perms_ok_bit [OF assms] by metis
  finally show ?thesis by blast
qed

lemma perms_set_meet:
  assumes "perms_ok y"
  shows "MemoryPerms_HasSomeOf x y \<longleftrightarrow> perms_set x \<inter> perms_set y \<noteq> {}"
proof -
  have "MemoryPerms_HasSomeOf x y \<longleftrightarrow> (\<exists>n. bit (permission_bits x) n \<and> bit (permission_bits y) n)"
    unfolding MemoryPerms_HasSomeOf_def bit_u32_eq_iff bit_and_iff bit_0_eq bot_fun_def bot_bool_def by blast
  also have "\<dots> \<longleftrightarrow> (\<exists>p. p \<in> perms_set x \<and> p \<in> perms_set y)"
    unfolding mem_perms_set using perms_ok_bit [OF assms] by metis
  finally show ?thesis by blast
qed

lemma add_changes_perms: "MemoryPerms_HasAllOf x y \<longleftrightarrow> MemoryPerms_Add y x = x"
  by (cases x; cases y) (auto simp: MemoryPerms_HasAllOf_def MemoryPerms_Add_def bit_eq_iff bit_simps)

section \<open>Properties\<close>

text \<open>C31: on well-formed permissions the bit operations (\<open>Join\<close> in the mode \<open>kAnd\<close>) are those of sets of permissions, and two
  values are equal exactly when the same permissions are set.\<close>

theorem perms_refine_sets:
  assumes "perms_ok x" "perms_ok y"
  shows "perms_set (MemoryPerms_Plus x y) = perms_set x \<union> perms_set y \<and>
    perms_set (MemoryPerms_Join y kAnd x) = perms_set x \<inter> perms_set y \<and>
    perms_set (MemoryPerms_Clear y x) = perms_set x - perms_set y \<and>
    (MemoryPerms_HasAllOf x y \<longleftrightarrow> perms_set y \<subseteq> perms_set x) \<and>
    (MemoryPerms_HasSomeOf x y \<longleftrightarrow> perms_set x \<inter> perms_set y \<noteq> {}) \<and>
    (MemoryPerms_IsEmpty x \<longleftrightarrow> perms_set x = {}) \<and> (x = y \<longleftrightarrow> perms_set x = perms_set y)"
  using perms_set_subset [OF assms(2)] perms_set_meet [OF assms(2)] perms_set_empty [OF assms(1)]
    perms_eq_iff [OF assms]
  by (simp add: MemoryPerms_Join_def)

theorem perms_refine_sets_witness:
  "perms_set (MemoryPerms_Clear MemoryPerms_All MemoryPerms_AllPlusMapped) = {kMapped}"
proof -
  have "perms_set (MemoryPerms_Clear MemoryPerms_All MemoryPerms_AllPlusMapped) =
      UNIV - {kReadable, kWritable, kExecutable}"
    using perms_refine_sets [OF perms_ok_simps(3,2)] by (simp del: perms_set_ops)
  also have "\<dots> = {kMapped}" unfolding permission_UNIV [symmetric] by auto
  finally show ?thesis .
qed

text \<open>Translating permissions to \<open>mprotect()\<close> bits and back, or to the text of
  \<open>/proc/self/maps\<close> and back, loses the \<open>kMapped\<close> bit only.\<close>

theorem perms_round_trips:
  assumes "perms_ok x" "share \<in> {CHR ''p'', CHR ''s''}"
  shows "MemoryPerms_FromMProtect (MemoryPerms_ToMProtect x) = MemoryPerms_ClearPermission kMapped x \<and>
    MemoryPerms_FromProcMaps (MemoryPerms_ToString x @ [share]) = ret (MemoryPerms_ClearPermission kMapped x)"
proof -
  let ?m = "\<lparr>permission_bits = (if kReadable \<in> perms_set x then 1 else 0) OR
      (if kWritable \<in> perms_set x then 2 else 0) OR (if kExecutable \<in> perms_set x then 4 else 0)\<rparr>"
  have "?m = MemoryPerms_ClearPermission kMapped x"
  proof (subst perms_eq_iff)
    show "perms_ok ?m" by (simp add: perms_ok_def)
    show "perms_ok (MemoryPerms_ClearPermission kMapped x)" using assms(1) by simp
    have "perms_set ?m = perms_set x - {kMapped}"
    proof (rule set_eqI)
      fix p show "p \<in> perms_set ?m \<longleftrightarrow> p \<in> perms_set x - {kMapped}"
        by (cases p) (simp_all add: perms_set_def MemoryPerms_HasPermission_def ToInt_def)
    qed
    then show "perms_set ?m = perms_set (MemoryPerms_ClearPermission kMapped x)" by simp
  qed
  moreover have "MemoryPerms_FromMProtect (MemoryPerms_ToMProtect x) = ?m"
    by (simp add: MemoryPerms_FromMProtect_def MemoryPerms_ToMProtect_def set_if_def PROT_READ_def
        PROT_WRITE_def PROT_EXEC_def MemoryPerms_None_def ToInt_def perms_set_def)
  moreover have "MemoryPerms_FromProcMaps (MemoryPerms_ToString x @ [share]) = ret ?m"
    using assms(2)
    by (auto simp: MemoryPerms_FromProcMaps_def MemoryPerms_ToString_def set_if_def
        MemoryPerms_None_def ToInt_def perms_set_def Let_def)
  ultimately show ?thesis by simp
qed

theorem perms_round_trips_witness:
  "MemoryPerms_FromProcMaps (MemoryPerms_ToString MemoryPerms_AllPlusMapped @ ''p'') = ret MemoryPerms_RWX"
proof -
  have "MemoryPerms_ClearPermission kMapped MemoryPerms_AllPlusMapped = MemoryPerms_RWX"
    by (simp add: MemoryPerms_ClearPermission_def MemoryPerms_AllPlusMapped_def MemoryPerms_RWX_def ToInt_def)
  then show ?thesis
    using perms_round_trips [OF perms_ok_simps(3), of "CHR ''p''"] by simp
qed

end
