(* ===== verification/Memory_Mapping.thy ===== *)
theory Memory_Mapping
  imports Memory_Perms
begin

text \<open>
  \<open>MemoryMapping\<close> of \<open>common/memory_mapping.h\<close> and \<open>.cc\<close>: one contiguous range of mapped memory with
  its permissions. Addresses and sizes are 64-bit words, so the limit address is computed with
  wrap-around; the constructor's check rules the wrap-around out. \<open>absl::Status\<close> is modelled by its
  code and message, without the addresses the messages print.
\<close>

section \<open>Status\<close>

datatype status = OkStatus | InvalidArgument string

text \<open>\<open>RETURN_IF_NOT_OK(s)\<close> in front of the rest of a function.\<close>

definition if_ok :: "status \<Rightarrow> status \<Rightarrow> status" where
  "if_ok s rest = (case s of OkStatus \<Rightarrow> rest | InvalidArgument msg \<Rightarrow> InvalidArgument msg)"

definition dcheck_status :: "status \<Rightarrow> unit res" where
  "dcheck_status s = check (s = OkStatus) ''DCHECK_STATUS''"

lemma if_ok_eq_Ok [simp]: "if_ok s rest = OkStatus \<longleftrightarrow> s = OkStatus \<and> rest = OkStatus"
  by (simp add: if_ok_def split: status.splits)

lemma dcheck_status_simps [simp]: "dcheck_status OkStatus = ret ()"
  by (simp add: dcheck_status_def)

section \<open>The class\<close>

type_synonym address = u64
type_synonym byte_size = u64

definition kMinAddress :: address where "kMinAddress = 0"
definition kMaxAddress :: address where "kMaxAddress = - 1"

record memory_mapping =
  mm_start :: address
  mm_num_bytes :: byte_size
  mm_perms :: memory_perms

definition mm_limit :: "memory_mapping \<Rightarrow> address" where
  "mm_limit m = mm_start m + mm_num_bytes m"

definition CanMakeSized :: "address \<Rightarrow> byte_size \<Rightarrow> status" where
  "CanMakeSized start_address num_bytes =
     (if num_bytes \<le> 0 then InvalidArgument ''Non-positive num_bytes''
      else if kMaxAddress - num_bytes < start_address then InvalidArgument ''start_address + num_bytes is too large''
      else OkStatus)"

definition CanMakeRanged :: "address \<Rightarrow> address \<Rightarrow> status" where
  "CanMakeRanged start_address limit_address = CanMakeSized start_address (limit_address - start_address)"

definition new_memory_mapping :: "address \<Rightarrow> byte_size \<Rightarrow> memory_perms \<Rightarrow> memory_mapping res" where
  "new_memory_mapping start_address num_bytes perms =
     rbind (dcheck_status (CanMakeSized start_address num_bytes)) (\<lambda>_.
     rbind (check (\<not> MemoryPerms_HasPermission perms kMapped) ''!perms.Has(kMapped)'') (\<lambda>_.
     ret \<lparr>mm_start = start_address, mm_num_bytes = num_bytes, mm_perms = perms\<rparr>))"

definition MakeSized :: "address \<Rightarrow> byte_size \<Rightarrow> memory_perms \<Rightarrow> memory_mapping res" where
  "MakeSized start_address num_bytes perms = new_memory_mapping start_address num_bytes perms"

definition MakeRanged :: "address \<Rightarrow> address \<Rightarrow> memory_perms \<Rightarrow> memory_mapping res" where
  "MakeRanged start_address limit_address perms =
     new_memory_mapping start_address (limit_address - start_address) perms"

definition set_perms :: "memory_perms \<Rightarrow> memory_mapping \<Rightarrow> memory_mapping res" where
  "set_perms perms m =
     rbind (check (\<not> MemoryPerms_HasPermission perms kMapped) ''!perms.Has(kMapped)'') (\<lambda>_.
     ret (m\<lparr>mm_perms := perms\<rparr>))"

definition MemoryMapping_eq :: "memory_mapping \<Rightarrow> memory_mapping \<Rightarrow> bool" where
  "MemoryMapping_eq x y \<longleftrightarrow>
     mm_start x = mm_start y \<and> mm_num_bytes x = mm_num_bytes y \<and> mm_perms x = mm_perms y"

section \<open>Well-formed mappings\<close>

definition mapping_ok :: "memory_mapping \<Rightarrow> bool" where
  "mapping_ok m \<longleftrightarrow> CanMakeSized (mm_start m) (mm_num_bytes m) = OkStatus \<and>
     \<not> MemoryPerms_HasPermission (mm_perms m) kMapped \<and> perms_ok (mm_perms m)"

lemma MemoryMapping_eq_iff [simp]: "MemoryMapping_eq x y \<longleftrightarrow> x = y"
  by (cases x; cases y) (simp add: MemoryMapping_eq_def)

lemma HasPermission_iff: "MemoryPerms_HasPermission x p \<longleftrightarrow> p \<in> perms_set x"
  by (simp add: perms_set_def)

lemma unat_u64_lt: "unat (x :: u64) < 2 ^ 64"
proof -
  have "unat x < 2 ^ LENGTH(64)" by (rule unsigned_less)
  then show ?thesis by simp
qed

lemma unat_kMaxAddress: "unat kMaxAddress = 2 ^ 64 - 1"
proof -
  have "- 1 = (of_nat (2 ^ 64 - 1) :: u64)" by simp
  then show ?thesis unfolding kMaxAddress_def by (simp only: unat_of_nat) simp
qed

lemma CanMakeSized_iff:
  "CanMakeSized s n = OkStatus \<longleftrightarrow> n \<noteq> 0 \<and> unat s + unat n < 2 ^ 64"
proof -
  have "n \<le> kMaxAddress" by (simp add: kMaxAddress_def)
  then have "unat (kMaxAddress - n) = 2 ^ 64 - 1 - unat n"
    by (simp add: unat_sub unat_kMaxAddress)
  moreover have "unat n < 2 ^ 64" by (rule unat_u64_lt)
  ultimately have "\<not> kMaxAddress - n < s \<longleftrightarrow> unat s + unat n < 2 ^ 64"
    by (simp add: word_less_nat_alt not_less) linarith
  then show ?thesis by (auto simp: CanMakeSized_def)
qed

lemma CanMakeRanged_iff: "CanMakeRanged s l = OkStatus \<longleftrightarrow> s < l"
proof (cases "s \<le> l")
  case True
  then have "unat (l - s) = unat l - unat s" by (simp add: unat_sub)
  then show ?thesis
    using True unat_u64_lt [of l] by (auto simp: CanMakeRanged_def CanMakeSized_iff word_le_nat_alt order.not_eq_order_implies_strict)
next
  case False
  then have lt: "l < s" by simp
  have "unat (l - s) = 2 ^ 64 + unat l - unat s"
    using lt unat_sub_if' [of l s] by (simp add: word_less_nat_alt)
  then show ?thesis
    using lt unat_u64_lt [of s] by (auto simp: CanMakeRanged_def CanMakeSized_iff word_less_nat_alt)
qed

lemma new_memory_mapping_ret:
  "new_memory_mapping s n p = ret m \<longleftrightarrow>
     CanMakeSized s n = OkStatus \<and> kMapped \<notin> perms_set p \<and> m = \<lparr>mm_start = s, mm_num_bytes = n, mm_perms = p\<rparr>"
  by (auto simp: new_memory_mapping_def dcheck_status_def check_def HasPermission_iff)

lemma MakeRanged_ret:
  "MakeRanged s l p = ret m \<longleftrightarrow>
     s < l \<and> kMapped \<notin> perms_set p \<and> m = \<lparr>mm_start = s, mm_num_bytes = l - s, mm_perms = p\<rparr>"
  using CanMakeRanged_iff [of s l] by (simp add: MakeRanged_def new_memory_mapping_ret CanMakeRanged_def)

lemma MakeRanged_ok:
  "s < l \<Longrightarrow> kMapped \<notin> perms_set p \<Longrightarrow>
   MakeRanged s l p = ret \<lparr>mm_start = s, mm_num_bytes = l - s, mm_perms = p\<rparr>"
  by (simp add: MakeRanged_ret)

lemma mapping_ok_limit:
  assumes "mapping_ok m"
  shows "mm_start m < mm_limit m" "unat (mm_limit m) = unat (mm_start m) + unat (mm_num_bytes m)"
proof -
  have n: "mm_num_bytes m \<noteq> 0" "unat (mm_start m) + unat (mm_num_bytes m) < 2 ^ 64"
    using assms by (simp_all add: mapping_ok_def CanMakeSized_iff)
  then show u: "unat (mm_limit m) = unat (mm_start m) + unat (mm_num_bytes m)"
    unfolding mm_limit_def by (simp add: unat_word_ariths)
  show "mm_start m < mm_limit m"
    using n(1) unfolding word_less_nat_alt u by (simp add: unat_eq_0 word_neq_0_conv unat_gt_0)
qed

lemma mapping_ok_mapped: "mapping_ok m \<Longrightarrow> kMapped \<notin> perms_set (mm_perms m)"
  by (simp add: mapping_ok_def HasPermission_iff)

section \<open>Properties\<close>

text \<open>A mapping is made from a range of addresses exactly when the start is below the limit and
  \<open>kMapped\<close> is not among the permissions; its limit address is then the given one, although sizes and
  limits are computed with wrap-around.\<close>

theorem make_ranged_spec:
  "MakeRanged s l p = ret m \<longleftrightarrow>
     CanMakeRanged s l = OkStatus \<and> s < l \<and> \<not> MemoryPerms_HasPermission p kMapped \<and>
     mm_start m = s \<and> mm_limit m = l \<and> mm_perms m = p \<and> unat l = unat s + unat (mm_num_bytes m)"
proof -
  have "unat l = unat s + unat (l - s)" if "s < l"
    using that by (simp add: unat_sub word_less_nat_alt word_le_nat_alt)
  then show ?thesis
    by (cases m) (auto simp: MakeRanged_ret CanMakeRanged_iff mm_limit_def HasPermission_iff)
qed

end
