(* ===== verification/Range_Map.thy ===== *)
theory Range_Map
  imports Prelude
begin

text \<open>
  \<open>RangeMap<Key, Value, Methods>\<close> of \<open>util/range_map.h\<close>: a map from half-open ranges of keys to
  values. The \<open>std::map\<close> it keeps is the list of its elements in key order; an iterator is the
  index of the element it points to, \<open>end()\<close> the length of the list. The template argument
  \<open>Methods\<close> is a record of functions; \<open>Methods::Compare\<close> is the order of the key type. The
  \<open>Size* usage\<close> arguments are \<open>None\<close> for a null pointer.

  \<open>Change\<close>, \<open>Merge\<close> and \<open>ChangeEach\<close> edit the map through iterators while they walk over a
  range of elements; what they put in the place of an element lies where the element was, so
  each is a function on the elements of the range, with the rest of the list on both sides
  left alone. The conversion of other value types (\<open>ValueX\<close>) is not used in the repository and
  not modelled.
\<close>

section \<open>Data\<close>

record ('k, 'v) methods =
  UsageOf :: "'k \<Rightarrow> 'k \<Rightarrow> 'v \<Rightarrow> int"
  Slice :: "'k \<Rightarrow> 'k \<Rightarrow> 'v \<Rightarrow> 'k \<Rightarrow> 'k \<Rightarrow> 'v"
  AddTo :: "'v \<Rightarrow> 'v \<Rightarrow> bool \<times> 'v \<times> bool"
  RemoveFrom :: "'v \<Rightarrow> 'v \<Rightarrow> bool \<times> 'v \<times> bool"
  CanMerge :: "'v \<Rightarrow> 'v \<Rightarrow> bool"
  MergeInto :: "'v \<Rightarrow> 'v \<Rightarrow> 'v"
  MakeIntersection :: "'v \<Rightarrow> 'v \<Rightarrow> 'v \<times> bool"
  MakeDifference :: "'v \<Rightarrow> 'v \<Rightarrow> 'v \<times> bool"

text \<open>
  \<open>AddTo\<close> and \<open>RemoveFrom\<close> give the returned \<open>bool\<close>, the new \<open>*dest\<close> and \<open>*empty\<close>;
  \<open>MakeIntersection\<close> and \<open>MakeDifference\<close> give \<open>*dest\<close> and \<open>*empty\<close>.
\<close>

type_synonym ('k, 'v) entry = "('k \<times> 'k) \<times> 'v"
type_synonym ('k, 'v) range_map = "('k, 'v) entry list"

abbreviation entry_start :: "('k, 'v) entry \<Rightarrow> 'k" where
  "entry_start e \<equiv> fst (fst e)"

abbreviation entry_limit :: "('k, 'v) entry \<Rightarrow> 'k" where
  "entry_limit e \<equiv> snd (fst e)"

text \<open>\<open>key_compare\<close>\<close>

definition key_less :: "'k::linorder \<times> 'k \<Rightarrow> 'k \<times> 'k \<Rightarrow> bool" where
  "key_less x y \<longleftrightarrow> fst x < fst y \<or> (fst x = fst y \<and> snd x < snd y)"

section \<open>Usage accounting\<close>

definition entry_usage :: "('k, 'v) methods \<Rightarrow> ('k, 'v) entry \<Rightarrow> int" where
  "entry_usage M e = UsageOf M (entry_start e) (entry_limit e) (snd e)"

definition AddUsage :: "('k, 'v) methods \<Rightarrow> ('k, 'v) entry \<Rightarrow> int option \<Rightarrow> int option" where
  "AddUsage M e usage = map_option (\<lambda>u. u + entry_usage M e) usage"

definition SubUsage :: "('k, 'v) methods \<Rightarrow> ('k, 'v) entry \<Rightarrow> int option \<Rightarrow> int option" where
  "SubUsage M e usage = map_option (\<lambda>u. u - entry_usage M e) usage"

definition RangeMap_Usage :: "('k, 'v) methods \<Rightarrow> ('k, 'v) range_map \<Rightarrow> int" where
  "RangeMap_Usage M m = (\<Sum>e\<leftarrow>m. entry_usage M e)"

section \<open>Searching\<close>

text \<open>\<open>std::map::lower_bound\<close> and \<open>upper_bound\<close> with the key \<open>{k, k}\<close>.\<close>

definition map_lower_bound :: "('k::linorder, 'v) range_map \<Rightarrow> 'k \<Rightarrow> nat" where
  "map_lower_bound m k = length (takeWhile (\<lambda>e. key_less (fst e) (k, k)) m)"

definition map_upper_bound :: "('k::linorder, 'v) range_map \<Rightarrow> 'k \<Rightarrow> nat" where
  "map_upper_bound m k = length (takeWhile (\<lambda>e. \<not> key_less (k, k) (fst e)) m)"

definition LowerBound :: "('k::linorder, 'v) range_map \<Rightarrow> 'k \<Rightarrow> nat" where
  "LowerBound m k =
     (let i = map_lower_bound m k in
      if i \<noteq> 0
      then let p = i - 1 in if k < entry_limit (m ! p) then p else i
      else i)"

definition UpperBound :: "('k::linorder, 'v) range_map \<Rightarrow> 'k \<Rightarrow> nat" where
  "UpperBound m k = map_upper_bound m k"

definition Find :: "('k::linorder, 'v) range_map \<Rightarrow> 'k \<Rightarrow> 'k \<Rightarrow> (nat \<times> nat) res" where
  "Find m start limit =
     rbind (check (start \<le> limit) ''cmp <= 0'') (\<lambda>_.
     if limit \<le> start then ret (length m, length m)
     else ret (LowerBound m start, UpperBound m limit))"

definition FindAt :: "('k::linorder, 'v) range_map \<Rightarrow> 'k \<Rightarrow> nat" where
  "FindAt m key =
     (let i = map_upper_bound m key in
      if i \<noteq> length m \<and> entry_start (m ! i) = key then i
      else if i = 0 then length m
      else let i = i - 1 in if entry_limit (m ! i) \<le> key then length m else i)"

text \<open>The elements of an iterator range.\<close>

definition in_range :: "('k, 'v) range_map \<Rightarrow> nat \<times> nat \<Rightarrow> ('k, 'v) entry list" where
  "in_range m r = take (snd r - fst r) (drop (fst r) m)"

text \<open>
  \<open>Covers\<close>: the accumulator is a function of the element and a state, which stands for what
  the closure of the caller captures.
\<close>

fun covers_loop ::
    "(('k::linorder, 'v) entry \<Rightarrow> 's \<Rightarrow> bool \<times> 's) \<Rightarrow> ('k, 'v) entry list \<Rightarrow> 'k \<Rightarrow> bool \<Rightarrow> 's
       \<Rightarrow> bool \<times> 'k \<times> 's" where
  "covers_loop f [] prev result s = (result, prev, s)"
| "covers_loop f (e # es) prev result s =
     (let result = (if prev < entry_start e then False else result);
          (ok, s) = f e s;
          result = (if \<not> ok then False else result)
      in covers_loop f es (entry_limit e) result s)"

definition Covers ::
    "('k::linorder, 'v) range_map \<Rightarrow> 'k \<Rightarrow> 'k \<Rightarrow> (('k, 'v) entry \<Rightarrow> 's \<Rightarrow> bool \<times> 's) \<Rightarrow> 's
       \<Rightarrow> (bool \<times> 's) res" where
  "Covers m start limit accumulator s =
     rbind (Find m start limit) (\<lambda>rg.
     if fst rg = snd rg then ret (start = limit, s)
     else let (result, prev, s) = covers_loop accumulator (in_range m rg) start True s;
              result = (if prev < limit then False else result)
          in ret (result, s))"

section \<open>Merging\<close>

text \<open>The loop of \<open>Merge\<close>: \<open>prev\<close> is the element before the ones still to be visited.\<close>

fun merge_loop ::
    "('k, 'v) methods \<Rightarrow> ('k, 'v) entry \<Rightarrow> ('k, 'v) entry list \<Rightarrow> int option
       \<Rightarrow> ('k, 'v) entry list \<times> int option" where
  "merge_loop M prev [] usage = ([prev], usage)"
| "merge_loop M prev (e # es) usage =
     (if entry_limit prev = entry_start e \<and> CanMerge M (snd prev) (snd e)
      then let usage = SubUsage M e (SubUsage M prev usage);
               merged = ((entry_start prev, entry_limit e), MergeInto M (snd prev) (snd e));
               usage = AddUsage M merged usage
           in merge_loop M merged es usage
      else let (rest, usage) = merge_loop M e es usage in (prev # rest, usage))"

definition RangeMap_Merge ::
    "('k, 'v) methods \<Rightarrow> nat \<times> nat \<Rightarrow> ('k, 'v) range_map \<Rightarrow> int option
       \<Rightarrow> ('k, 'v) range_map \<times> int option" where
  "RangeMap_Merge M rg m usage =
     (let first = fst rg;
          second = (if snd rg \<noteq> length m then Suc (snd rg) else snd rg)
      in if first = 0 \<and> first = second then (m, usage)
         else let first = (if first \<noteq> 0 then first else Suc first);
                  prev = first - 1;
                  (merged, usage) = merge_loop M (m ! prev) (in_range m (first, second)) usage
              in (take prev m @ merged @ drop second m, usage))"

section \<open>Adding and removing\<close>

datatype change_mode = kAdd | kRemove

text \<open>\<open>ChangeValue\<close>: whether the record is kept, the new \<open>*dest\<close> and \<open>*result\<close>.\<close>

definition ChangeValue ::
    "('k, 'v) methods \<Rightarrow> change_mode \<Rightarrow> 'v \<Rightarrow> 'v \<Rightarrow> bool \<Rightarrow> bool \<times> 'v \<times> bool" where
  "ChangeValue M mode dest v result =
     (case mode of
        kAdd \<Rightarrow> (let (changed, dest, empty) = AddTo M dest v
                 in (\<not> empty, dest, if changed then True else result))
      | kRemove \<Rightarrow> (let (removed, dest, empty) = RemoveFrom M dest v
                    in (\<not> empty, dest, if \<not> removed then False else result)))"

record 'k change_state =
  prev_start :: 'k
  change_result :: bool
  change_usage :: "int option"

text \<open>
  The gap in front of element \<open>i\<close>: \<open>kAdd\<close> puts a new element there, \<open>kRemove\<close> reports failure.
\<close>

definition change_gap ::
    "('k, 'v) methods \<Rightarrow> change_mode \<Rightarrow> 'k \<Rightarrow> 'k \<Rightarrow> 'v \<Rightarrow> 'k \<Rightarrow> 'k change_state
       \<Rightarrow> ('k, 'v) entry list \<times> 'k change_state" where
  "change_gap M mode start limit v gap_limit st =
     (case mode of
        kAdd \<Rightarrow>
          (let n = ((prev_start st, gap_limit), Slice M start limit v (prev_start st) gap_limit)
           in ([n], st\<lparr>change_usage := AddUsage M n (change_usage st), change_result := True\<rparr>))
      | kRemove \<Rightarrow> ([], st\<lparr>change_result := False\<rparr>))"

text \<open>The part \<open>n\<close> of an element the change applies to, with the value \<open>v\<close> of that part.\<close>

definition change_part ::
    "('k, 'v) methods \<Rightarrow> change_mode \<Rightarrow> ('k, 'v) entry \<Rightarrow> 'v \<Rightarrow> 'k change_state
       \<Rightarrow> ('k, 'v) entry list \<times> 'k change_state" where
  "change_part M mode n v st =
     (let (keep, dest, result) = ChangeValue M mode (snd n) v (change_result st);
          st = st\<lparr>change_result := result\<rparr>
      in if keep
         then ([(fst n, dest)], st\<lparr>change_usage := AddUsage M (fst n, dest) (change_usage st)\<rparr>)
         else ([], st))"

text \<open>A part \<open>[s, l)\<close> of element \<open>i\<close> that is split off unchanged.\<close>

definition split_off ::
    "('k, 'v) methods \<Rightarrow> ('k, 'v) entry \<Rightarrow> 'k \<Rightarrow> 'k \<Rightarrow> ('k, 'v) entry" where
  "split_off M i s l = ((s, l), Slice M (entry_start i) (entry_limit i) (snd i) s l)"

definition keep_part ::
    "('k, 'v) methods \<Rightarrow> ('k, 'v) entry \<Rightarrow> 'k change_state \<Rightarrow> 'k change_state" where
  "keep_part M n st = st\<lparr>change_usage := AddUsage M n (change_usage st)\<rparr>"

definition drop_part ::
    "('k, 'v) methods \<Rightarrow> ('k, 'v) entry \<Rightarrow> 'k change_state \<Rightarrow> 'k change_state" where
  "drop_part M n st = st\<lparr>change_usage := SubUsage M n (change_usage st)\<rparr>"

text \<open>One round of the loop of \<open>Change\<close>: what replaces element \<open>i\<close>.\<close>

definition change_entry ::
    "('k::linorder, 'v) methods \<Rightarrow> change_mode \<Rightarrow> 'k \<Rightarrow> 'k \<Rightarrow> 'v \<Rightarrow> ('k, 'v) entry
       \<Rightarrow> 'k change_state \<Rightarrow> ('k, 'v) entry list \<times> 'k change_state" where
  "change_entry M mode start limit v i st =
     (let p = prev_start st;
          (gap, st) = (if p < entry_start i then change_gap M mode start limit v (entry_start i) st
                       else ([], st));
          st = st\<lparr>prev_start := entry_limit i\<rparr>
      in if p \<le> entry_start i \<and> entry_limit i \<le> limit
         then let st = drop_part M i st;
                  (n, st) = change_part M mode i
                              (Slice M start limit v (entry_start i) (entry_limit i)) st
              in (gap @ n, st)
         else if p \<le> entry_start i \<and> limit < entry_limit i
         then let (n, st) = change_part M mode (split_off M i (entry_start i) limit)
                              (Slice M start limit v (entry_start i) limit) st;
                  n2 = split_off M i limit (entry_limit i)
              in (gap @ n @ [n2], drop_part M i (keep_part M n2 st))
         else if entry_start i < p \<and> limit < entry_limit i
         then let n1 = split_off M i (entry_start i) start;
                  (n, st) = change_part M mode (split_off M i start limit) v (keep_part M n1 st);
                  n3 = split_off M i limit (entry_limit i)
              in (gap @ [n1] @ n @ [n3], drop_part M i (keep_part M n3 st))
         else let n1 = split_off M i (entry_start i) start;
                  (n, st) = change_part M mode (split_off M i start (entry_limit i))
                              (Slice M start limit v start (entry_limit i)) (keep_part M n1 st)
              in (gap @ [n1] @ n, drop_part M i st))"

fun change_loop ::
    "('k::linorder, 'v) methods \<Rightarrow> change_mode \<Rightarrow> 'k \<Rightarrow> 'k \<Rightarrow> 'v \<Rightarrow> ('k, 'v) entry list
       \<Rightarrow> 'k change_state \<Rightarrow> ('k, 'v) entry list \<times> 'k change_state" where
  "change_loop M mode start limit v [] st = ([], st)"
| "change_loop M mode start limit v (i # is) st =
     (let (n, st) = change_entry M mode start limit v i st;
          (ns, st) = change_loop M mode start limit v is st
      in (n @ ns, st))"

text \<open>The last gap, behind the elements of the range.\<close>

definition change_tail ::
    "('k::linorder, 'v) methods \<Rightarrow> change_mode \<Rightarrow> 'k \<Rightarrow> 'k \<Rightarrow> 'v \<Rightarrow> 'k change_state
       \<Rightarrow> ('k, 'v) entry list \<times> 'k change_state" where
  "change_tail M mode start limit v st =
     (if prev_start st < limit then change_gap M mode start limit v limit st else ([], st))"

definition Change ::
    "('k::linorder, 'v) methods \<Rightarrow> 'k \<Rightarrow> 'k \<Rightarrow> 'v \<Rightarrow> change_mode \<Rightarrow> bool
       \<Rightarrow> ('k, 'v) range_map \<Rightarrow> int option \<Rightarrow> (bool \<times> ('k, 'v) range_map \<times> int option) res" where
  "Change M start limit v mode post_merge m usage =
     rbind (check (start < limit) ''Methods::Compare(start, limit) < 0'') (\<lambda>_.
     rbind (Find m start limit) (\<lambda>rg.
     let st = \<lparr>prev_start = start, change_result = (mode = kRemove), change_usage = usage\<rparr>;
         (ns, st) = change_loop M mode start limit v (in_range m rg) st;
         (tl, st) = change_tail M mode start limit v st;
         m = take (fst rg) m @ ns @ tl @ drop (snd rg) m;
         usage = change_usage st
     in if post_merge
        then rbind (Find m start limit) (\<lambda>rg.
             let (m, usage) = RangeMap_Merge M rg m usage in ret (change_result st, m, usage))
        else ret (change_result st, m, usage)))"

definition RangeMap_Add ::
    "('k::linorder, 'v) methods \<Rightarrow> 'k \<Rightarrow> 'k \<Rightarrow> 'v \<Rightarrow> ('k, 'v) range_map \<Rightarrow> int option
       \<Rightarrow> (bool \<times> ('k, 'v) range_map \<times> int option) res" where
  "RangeMap_Add M start limit v m usage = Change M start limit v kAdd True m usage"

definition RangeMap_Remove ::
    "('k::linorder, 'v) methods \<Rightarrow> 'k \<Rightarrow> 'k \<Rightarrow> 'v \<Rightarrow> ('k, 'v) range_map \<Rightarrow> int option
       \<Rightarrow> (bool \<times> ('k, 'v) range_map \<times> int option) res" where
  "RangeMap_Remove M start limit v m usage = Change M start limit v kRemove True m usage"

section \<open>Whole maps\<close>

definition RangeMap_clear ::
    "('k, 'v) methods \<Rightarrow> ('k, 'v) range_map \<Rightarrow> int option \<Rightarrow> ('k, 'v) range_map \<times> int option" where
  "RangeMap_clear M m usage = ([], fold (SubUsage M) m usage)"

text \<open>\<open>ChangeEach\<close>: the value covers all keys from the first to the last.\<close>

fun change_each_loop ::
    "('k, 'v) methods \<Rightarrow> change_mode \<Rightarrow> 'k \<Rightarrow> 'k \<Rightarrow> 'v \<Rightarrow> ('k, 'v) entry list \<Rightarrow> bool \<Rightarrow> int option
       \<Rightarrow> ('k, 'v) entry list \<times> bool \<times> int option" where
  "change_each_loop M mode start limit v [] result usage = ([], result, usage)"
| "change_each_loop M mode start limit v (i # is) result usage =
     (let usage = SubUsage M i usage;
          (keep, dest, result) = ChangeValue M mode (snd i)
             (Slice M start limit v (entry_start i) (entry_limit i)) result;
          usage = (if keep then AddUsage M (fst i, dest) usage else usage);
          (ns, result, usage) = change_each_loop M mode start limit v is result usage
      in (if keep then (fst i, dest) # ns else ns, result, usage))"

definition ChangeEach ::
    "('k, 'v) methods \<Rightarrow> 'v \<Rightarrow> change_mode \<Rightarrow> ('k, 'v) range_map \<Rightarrow> int option
       \<Rightarrow> bool \<times> ('k, 'v) range_map \<times> int option" where
  "ChangeEach M v mode m usage =
     (if m = [] then (mode = kRemove, m, usage)
      else let (m, result, usage) = change_each_loop M mode (entry_start (hd m)) (entry_limit (last m))
                                      v m (mode = kRemove) usage;
               (m, usage) = RangeMap_Merge M (0, length m) m usage
           in (result, m, usage))"

fun ChangeRangeMap ::
    "('k::linorder, 'v) methods \<Rightarrow> change_mode \<Rightarrow> bool \<Rightarrow> ('k, 'v) range_map \<Rightarrow> bool
       \<Rightarrow> ('k, 'v) range_map \<Rightarrow> int option \<Rightarrow> (bool \<times> ('k, 'v) range_map \<times> int option) res" where
  "ChangeRangeMap M mode post_merge [] result m usage = ret (result, m, usage)"
| "ChangeRangeMap M mode post_merge (i # x) result m usage =
     rbind (Change M (entry_start i) (entry_limit i) (snd i) mode post_merge m usage)
       (\<lambda>(changed, m, usage).
     ChangeRangeMap M mode post_merge x
       (case mode of kAdd \<Rightarrow> if changed then True else result
                   | kRemove \<Rightarrow> if \<not> changed then False else result) m usage)"

definition AddRangeMap ::
    "('k::linorder, 'v) methods \<Rightarrow> ('k, 'v) range_map \<Rightarrow> ('k, 'v) range_map \<Rightarrow> int option
       \<Rightarrow> (bool \<times> ('k, 'v) range_map \<times> int option) res" where
  "AddRangeMap M x m usage = ChangeRangeMap M kAdd True x False m usage"

definition RemoveRangeMap ::
    "('k::linorder, 'v) methods \<Rightarrow> ('k, 'v) range_map \<Rightarrow> ('k, 'v) range_map \<Rightarrow> int option
       \<Rightarrow> (bool \<times> ('k, 'v) range_map \<times> int option) res" where
  "RemoveRangeMap M x m usage = ChangeRangeMap M kRemove True x True m usage"

section \<open>Intersection and difference\<close>

fun intersect_loop ::
    "('k::linorder, 'v) methods \<Rightarrow> 'k \<Rightarrow> 'k \<Rightarrow> 'v \<Rightarrow> bool \<Rightarrow> ('k, 'v) entry list
       \<Rightarrow> ('k, 'v) range_map \<Rightarrow> int option \<Rightarrow> (('k, 'v) range_map \<times> int option) res" where
  "intersect_loop M start limit y post_merge [] m usage = ret (m, usage)"
| "intersect_loop M start limit y post_merge (i # is) m usage =
     (let s = (if start < entry_start i then entry_start i else start);
          l = (if entry_limit i < limit then entry_limit i else limit);
          i_v = Slice M (entry_start i) (entry_limit i) (snd i) s l;
          v_y = Slice M start limit y s l;
          (intersection, empty) = MakeIntersection M i_v v_y
      in rbind (if \<not> empty then Change M s l intersection kAdd post_merge m usage
                else ret (False, m, usage))
           (\<lambda>(_, m, usage). intersect_loop M start limit y post_merge is m usage))"

definition AddIntersectionOfRange ::
    "('k::linorder, 'v) methods \<Rightarrow> ('k, 'v) range_map \<Rightarrow> 'k \<Rightarrow> 'k \<Rightarrow> 'v
       \<Rightarrow> ('k, 'v) range_map \<Rightarrow> int option \<Rightarrow> (('k, 'v) range_map \<times> int option) res" where
  "AddIntersectionOfRange M x start limit y m usage =
     rbind (Find x start limit) (\<lambda>rg.
     intersect_loop M start limit y True (in_range x rg) m usage)"

fun AddIntersectionOf ::
    "('k::linorder, 'v) methods \<Rightarrow> ('k, 'v) range_map \<Rightarrow> ('k, 'v) range_map
       \<Rightarrow> ('k, 'v) range_map \<Rightarrow> int option \<Rightarrow> (('k, 'v) range_map \<times> int option) res" where
  "AddIntersectionOf M x [] m usage = ret (m, usage)"
| "AddIntersectionOf M x (i # y) m usage =
     rbind (AddIntersectionOfRange M x (entry_start i) (entry_limit i) (snd i) m usage)
       (\<lambda>(m, usage). AddIntersectionOf M x y m usage)"

fun difference_loop ::
    "('k::linorder, 'v) methods \<Rightarrow> 'k \<Rightarrow> 'k \<Rightarrow> 'v \<Rightarrow> bool \<Rightarrow> ('k, 'v) entry list \<Rightarrow> 'k
       \<Rightarrow> ('k, 'v) range_map \<Rightarrow> int option \<Rightarrow> ('k \<times> ('k, 'v) range_map \<times> int option) res" where
  "difference_loop M start limit x post_merge [] prev m usage = ret (prev, m, usage)"
| "difference_loop M start limit x post_merge (i # is) prev m usage =
     (let s = (if start < entry_start i then entry_start i else start);
          l = (if entry_limit i < limit then entry_limit i else limit);
          i_v = Slice M (entry_start i) (entry_limit i) (snd i) s l;
          v_x = Slice M start limit x s l;
          (difference, empty) = MakeDifference M v_x i_v
      in rbind (if \<not> empty then Change M s l difference kAdd post_merge m usage
                else ret (False, m, usage)) (\<lambda>(_, m, usage).
         rbind (if prev < entry_start i
                then Change M prev (entry_start i) (Slice M start limit x prev (entry_start i))
                       kAdd post_merge m usage
                else ret (False, m, usage)) (\<lambda>(_, m, usage).
         difference_loop M start limit x post_merge is (entry_limit i) m usage)))"

definition AddDifferenceOfRange ::
    "('k::linorder, 'v) methods \<Rightarrow> 'k \<Rightarrow> 'k \<Rightarrow> 'v \<Rightarrow> ('k, 'v) range_map
       \<Rightarrow> ('k, 'v) range_map \<Rightarrow> int option \<Rightarrow> (('k, 'v) range_map \<times> int option) res" where
  "AddDifferenceOfRange M start limit x y m usage =
     rbind (Find y start limit) (\<lambda>rg.
     rbind (difference_loop M start limit x True (in_range y rg) start m usage) (\<lambda>(prev, m, usage).
     if prev < limit
     then rbind (Change M prev limit (Slice M start limit x prev limit) kAdd True m usage)
            (\<lambda>(_, m, usage). ret (m, usage))
     else ret (m, usage)))"

fun AddDifferenceOf ::
    "('k::linorder, 'v) methods \<Rightarrow> ('k, 'v) range_map \<Rightarrow> ('k, 'v) range_map
       \<Rightarrow> ('k, 'v) range_map \<Rightarrow> int option \<Rightarrow> (('k, 'v) range_map \<times> int option) res" where
  "AddDifferenceOf M [] y m usage = ret (m, usage)"
| "AddDifferenceOf M (i # x) y m usage =
     rbind (AddDifferenceOfRange M (entry_start i) (entry_limit i) (snd i) y m usage)
       (\<lambda>(m, usage). AddDifferenceOf M x y m usage)"

end
