(* ===== verification/Range_Map_Laws.thy ===== *)
theory Range_Map_Laws
  imports Range_Map
begin

text \<open>
  The contract of \<open>RangeMap\<close>: what its \<open>Methods\<close> must promise (a locale), and what the map then
  does at each key. A map is well formed when its elements are non-empty, ordered and disjoint;
  \<open>lookup\<close> is the value it gives a key; it is canonical when no two neighbours could be merged.
\<close>

section \<open>Well-formed maps\<close>

definition ranges_ok ::
    "('k::linorder \<Rightarrow> 'k \<Rightarrow> 'v \<Rightarrow> bool) \<Rightarrow> ('k, 'v) range_map \<Rightarrow> bool" where
  "ranges_ok okv m \<longleftrightarrow>
     sorted_wrt (\<lambda>e f. entry_limit e \<le> entry_start f) m \<and>
     (\<forall>e \<in> set m. entry_start e < entry_limit e \<and> okv (entry_start e) (entry_limit e) (snd e))"

fun lookup ::
    "('k::linorder \<Rightarrow> 'k \<Rightarrow> 'v \<Rightarrow> 'k \<Rightarrow> 'p) \<Rightarrow> ('k, 'v) range_map \<Rightarrow> 'k \<Rightarrow> 'p option" where
  "lookup point [] k = None"
| "lookup point (e # m) k =
     (if entry_start e \<le> k \<and> k < entry_limit e
      then Some (point (entry_start e) (entry_limit e) (snd e) k) else lookup point m k)"

lemma ranges_ok_pos: "ranges_ok okv m \<Longrightarrow> e \<in> set m \<Longrightarrow> entry_start e < entry_limit e"
  by (simp add: ranges_ok_def)

lemma ranges_ok_Nil [simp]: "ranges_ok okv []"
  by (simp add: ranges_ok_def)

lemma ranges_ok_Cons:
  "ranges_ok okv (e # m) \<longleftrightarrow>
     entry_start e < entry_limit e \<and> okv (entry_start e) (entry_limit e) (snd e) \<and>
     (\<forall>f \<in> set m. entry_limit e \<le> entry_start f) \<and> ranges_ok okv m"
  by (auto simp: ranges_ok_def)

lemma limit_le_last: "ranges_ok okv m \<Longrightarrow> e \<in> set m \<Longrightarrow> entry_limit e \<le> entry_limit (last m)"
proof (induction m)
  case (Cons f m)
  show ?case
  proof (cases "m = []")
    case False
    then have "entry_limit f \<le> entry_start (last m)" "entry_start (last m) < entry_limit (last m)"
      using Cons.prems(1) ranges_ok_pos [of okv m "last m"] by (simp_all add: ranges_ok_Cons)
    then have "entry_limit f \<le> entry_limit (last m)" by order
    then show ?thesis using False Cons by (auto simp: ranges_ok_Cons)
  qed (use Cons in simp)
qed simp

lemma ranges_ok_append:
  "ranges_ok okv (xs @ ys) \<longleftrightarrow>
     ranges_ok okv xs \<and> ranges_ok okv ys \<and>
     (\<forall>e \<in> set xs. \<forall>f \<in> set ys. entry_limit e \<le> entry_start f)"
  by (auto simp: ranges_ok_def sorted_wrt_append)

lemma lookup_None: "(\<And>e. e \<in> set m \<Longrightarrow> k < entry_start e \<or> entry_limit e \<le> k) \<Longrightarrow> lookup point m k = None"
proof (induction m)
  case (Cons e m)
  then have "k < entry_start e \<or> entry_limit e \<le> k" by (meson list.set_intros(1))
  moreover have "lookup point m k = None"
    using Cons by (meson list.set_intros(2))
  ultimately show ?case by auto
qed simp

lemma lookup_append:
  "lookup point (xs @ ys) k = (case lookup point xs k of None \<Rightarrow> lookup point ys k | Some p \<Rightarrow> Some p)"
  by (induction xs) auto

text \<open>A list cut at a key \<open>b\<close>.\<close>

lemma lookup_cut:
  assumes "\<And>e. e \<in> set xs \<Longrightarrow> entry_limit e \<le> b" "\<And>e. e \<in> set ys \<Longrightarrow> b \<le> entry_start e"
  shows "lookup point (xs @ ys) k = (if k < b then lookup point xs k else lookup point ys k)"
proof (cases "k < b")
  case True
  then have "lookup point ys k = None" using assms(2) by (intro lookup_None) fastforce
  then show ?thesis using True by (simp add: lookup_append split: option.splits)
next
  case False
  then have "lookup point xs k = None" using assms(1) by (intro lookup_None) fastforce
  then show ?thesis using False by (simp add: lookup_append)
qed

lemma lookup_Some_iff:
  "ranges_ok okv m \<Longrightarrow> lookup point m k = Some p \<longleftrightarrow>
     (\<exists>e \<in> set m. entry_start e \<le> k \<and> k < entry_limit e \<and>
                  p = point (entry_start e) (entry_limit e) (snd e) k)"
  by (induction m) (auto simp: ranges_ok_Cons)

section \<open>Searching\<close>

lemma takeWhile_length_append:
  "(\<And>x. x \<in> set xs \<Longrightarrow> P x) \<Longrightarrow> (\<And>y ys'. ys = y # ys' \<Longrightarrow> \<not> P y) \<Longrightarrow>
   length (takeWhile P (xs @ ys)) = length xs"
  by (cases ys) (auto simp: takeWhile_eq_all_conv [THEN iffD2])

lemma LowerBound_eq:
  assumes ok: "ranges_ok okv (pre @ rest)"
    and pre: "\<And>e. e \<in> set pre \<Longrightarrow> entry_limit e \<le> k" and rest: "\<And>e. e \<in> set rest \<Longrightarrow> k < entry_limit e"
  shows "LowerBound (pre @ rest) k = length pre"
proof -
  have p: "key_less (fst e) (k, k)" if "e \<in> set pre" for e
  proof -
    have "entry_start e < entry_limit e" using ranges_ok_pos [OF ok, of e] that by simp
    with pre [OF that] have "entry_start e < k" by order
    then show ?thesis by (simp add: key_less_def)
  qed
  show ?thesis
  proof (cases "rest = [] \<or> k \<le> entry_start (hd rest)")
    case True
    then have "map_lower_bound (pre @ rest) k = length pre"
      unfolding map_lower_bound_def using p rest
      by (intro takeWhile_length_append) (fastforce simp: key_less_def)+
    moreover have "\<not> k < entry_limit ((pre @ rest) ! (length pre - 1))" if "pre \<noteq> []"
      using that pre [of "last pre"] by (simp add: nth_append last_conv_nth not_less)
    ultimately show ?thesis by (auto simp: LowerBound_def Let_def)
  next
    case False
    then obtain e es where rest': "rest = e # es" "entry_start e < k" by (cases rest) auto
    have e: "key_less (fst e) (k, k)" using rest' by (simp add: key_less_def)
    have "k < entry_limit e" using rest rest' by simp
    then have "k \<le> entry_start f" if "f \<in> set es" for f
      using ok that rest' by (fastforce simp: ranges_ok_append ranges_ok_Cons)
    then have "\<not> key_less (fst f) (k, k)" if "f \<in> set es" for f
      using rest rest' that by (fastforce simp: key_less_def)
    then have "length (takeWhile (\<lambda>e. key_less (fst e) (k, k)) ((pre @ [e]) @ es)) = length (pre @ [e])"
      using p e by (intro takeWhile_length_append) auto
    then have "map_lower_bound (pre @ rest) k = Suc (length pre)"
      by (simp add: map_lower_bound_def rest')
    then show ?thesis using rest rest' by (simp add: LowerBound_def nth_append)
  qed
qed

lemma UpperBound_eq:
  assumes ok: "ranges_ok okv (pre @ rest)"
    and pre: "\<And>e. e \<in> set pre \<Longrightarrow> entry_start e < k" and rest: "\<And>e. e \<in> set rest \<Longrightarrow> k \<le> entry_start e"
  shows "UpperBound (pre @ rest) k = length pre"
  unfolding UpperBound_def map_upper_bound_def
proof (rule takeWhile_length_append)
  fix y ys assume y: "rest = y # ys"
  then have "entry_start y < entry_limit y" using ok by (simp add: ranges_ok_append ranges_ok_Cons)
  then show "\<not> \<not> key_less (k, k) (fst y)" using y rest [of y] by (auto simp: key_less_def)
qed (use pre in \<open>fastforce simp: key_less_def\<close>)

text \<open>The elements in front of, in and behind the range \<open>[start, limit)\<close>.\<close>

definition range_split ::
    "'k::linorder \<Rightarrow> 'k \<Rightarrow> ('k, 'v) range_map \<Rightarrow> ('k, 'v) range_map \<Rightarrow> ('k, 'v) range_map \<Rightarrow> bool" where
  "range_split start limit pre mid suf \<longleftrightarrow>
     (\<forall>e \<in> set pre. entry_limit e \<le> start) \<and>
     (\<forall>e \<in> set mid. entry_start e < limit \<and> start < entry_limit e) \<and>
     (\<forall>e \<in> set suf. limit \<le> entry_start e)"

lemma in_range_append [simp]:
  "in_range (pre @ mid @ suf) (length pre, length pre + length mid) = mid"
  by (simp add: in_range_def)

lemma Find_eq:
  assumes ok: "ranges_ok okv (pre @ mid @ suf)" and sp: "range_split start limit pre mid suf"
    and lt: "start < limit"
  shows "Find (pre @ mid @ suf) start limit = ret (length pre, length pre + length mid)"
proof -
  have "start < entry_limit e" if "e \<in> set suf" for e
  proof -
    have "limit \<le> entry_start e" using sp that by (simp add: range_split_def)
    then show ?thesis using ranges_ok_pos [OF ok, of e] that lt by simp
  qed
  then have "LowerBound (pre @ mid @ suf) start = length pre"
    using ok sp by (intro LowerBound_eq) (auto simp: range_split_def)
  moreover have "entry_start e < limit" if "e \<in> set pre" for e
  proof -
    have "entry_limit e \<le> start" using sp that by (simp add: range_split_def)
    then show ?thesis using ranges_ok_pos [OF ok, of e] that lt by simp
  qed
  then have "UpperBound ((pre @ mid) @ suf) limit = length (pre @ mid)"
    using ok sp by (intro UpperBound_eq) (auto simp: range_split_def)
  moreover have "start \<le> limit" "\<not> limit \<le> start" using lt by order+
  ultimately show ?thesis by (simp add: Find_def)
qed

lemma range_split_exists:
  assumes ok: "ranges_ok okv m" and lt: "start < limit"
  obtains pre mid suf where "m = pre @ mid @ suf" "range_split start limit pre mid suf"
proof -
  let ?pre = "takeWhile (\<lambda>e. entry_limit e \<le> start) m"
  let ?rest = "dropWhile (\<lambda>e. entry_limit e \<le> start) m"
  let ?mid = "takeWhile (\<lambda>e. entry_start e < limit) ?rest"
  let ?suf = "dropWhile (\<lambda>e. entry_start e < limit) ?rest"
  have m: "m = ?pre @ ?mid @ ?suf" by simp
  have rest: "start < entry_limit e" if e: "e \<in> set ?rest" for e
  proof (cases ?rest)
    case (Cons f fs)
    then have "start < entry_limit f" by (metis dropWhile_eq_Cons_conv not_le)
    moreover have r: "ranges_ok okv (f # fs)"
      using ok Cons takeWhile_dropWhile_id [of "\<lambda>e. entry_limit e \<le> start" m] ranges_ok_append
      by metis
    have "e = f \<or> entry_limit f \<le> entry_start e \<and> entry_start e < entry_limit e"
      using e Cons r ranges_ok_pos [OF r, of e] by (auto simp: ranges_ok_Cons simp del: split_paired_All)
    ultimately show ?thesis by auto
  qed (use e in \<open>simp only: list.set empty_iff\<close>)
  have suf: "limit \<le> entry_start e" if e: "e \<in> set ?suf" for e
  proof (cases ?suf)
    case (Cons f fs)
    then have "limit \<le> entry_start f" by (metis dropWhile_eq_Cons_conv not_le)
    moreover have r: "ranges_ok okv (f # fs)" using ok Cons m ranges_ok_append by metis
    have "e = f \<or> entry_limit f \<le> entry_start e"
      using e Cons r by (auto simp: ranges_ok_Cons)
    moreover have "entry_start f < entry_limit f" using ranges_ok_pos [OF r, of f] by simp
    ultimately show ?thesis by auto
  qed (use e in \<open>simp only: list.set empty_iff\<close>)
  have "range_split start limit ?pre ?mid ?suf"
    using rest suf unfolding range_split_def
    by (auto dest: set_takeWhileD)
  with m show thesis by (rule that)
qed

text \<open>\<open>FindAt\<close> finds the element that holds the key.\<close>

lemma FindAt_cases:
  assumes ok: "ranges_ok okv m"
  obtains "FindAt m k = length m" "\<forall>e \<in> set m. \<not> (entry_start e \<le> k \<and> k < entry_limit e)"
  | "FindAt m k < length m" "entry_start (m ! FindAt m k) \<le> k" "k < entry_limit (m ! FindAt m k)"
proof -
  let ?i = "map_upper_bound m k"
  have le: "?i \<le> length m" by (simp add: map_upper_bound_def length_takeWhile_le)
  have below: "\<not> key_less (k, k) (fst (m ! j))" if "j < ?i" for j
    using that nth_length_takeWhile takeWhile_nth unfolding map_upper_bound_def
    by (metis (no_types, lifting) nth_mem set_takeWhileD)
  have above: "key_less (k, k) (fst (m ! ?i))" if "?i < length m"
    using that nth_length_takeWhile unfolding map_upper_bound_def by fastforce
  have pos: "entry_start (m ! j) < entry_limit (m ! j)" if "j < length m" for j
    using ok that by (simp add: ranges_ok_def)
  have ord: "entry_limit (m ! a) \<le> entry_start (m ! b)" if "a < b" "b < length m" for a b
    using ok that by (simp add: ranges_ok_def sorted_wrt_iff_nth_less)
  show thesis
  proof (cases "?i \<noteq> length m \<and> entry_start (m ! ?i) = k")
    case True
    then have "FindAt m k = ?i" "?i < length m" using le by (simp_all add: FindAt_def Let_def)
    then show ?thesis using that(2) True pos [of ?i] by simp
  next
    case False
    have after: "k < entry_start (m ! j)" if "?i \<le> j" "j < length m" for j
    proof -
      have "k < entry_start (m ! ?i)" using above that False by (auto simp: key_less_def)
      also have "\<dots> \<le> entry_start (m ! j)"
        using that ord [of ?i j] pos [of ?i] by (cases "?i = j") auto
      finally show ?thesis .
    qed
    have before: "entry_start (m ! j) \<le> k" if "j < ?i" for j
      using below [OF that] by (auto simp: key_less_def)
    show ?thesis
    proof (cases "?i = 0 \<or> entry_limit (m ! (?i - 1)) \<le> k")
      case True
      then have "FindAt m k = length m" using False le by (auto simp: FindAt_def Let_def)
      moreover have "\<not> (entry_start (m ! j) \<le> k \<and> k < entry_limit (m ! j))" if j: "j < length m" for j
      proof (cases "?i \<le> j")
        case lt: False
        then have l: "entry_limit (m ! (?i - 1)) \<le> k" using True by auto
        show ?thesis
        proof (cases "j = ?i - 1")
          case ne: False
          then have "entry_limit (m ! j) \<le> entry_start (m ! (?i - 1))"
            using lt le by (intro ord) auto
          moreover have "entry_start (m ! (?i - 1)) < entry_limit (m ! (?i - 1))"
            using lt le j by (intro pos) linarith
          ultimately show ?thesis using l by auto
        qed (use l in auto)
      qed (use after j in fastforce)
      then have "\<forall>e \<in> set m. \<not> (entry_start e \<le> k \<and> k < entry_limit e)"
        by (metis in_set_conv_nth)
      ultimately show ?thesis using that(1) by blast
    next
      case nc: False
      then have "FindAt m k = ?i - 1" using False le by (auto simp: FindAt_def Let_def)
      then show ?thesis using that(2) nc before [of "?i - 1"] le by auto
    qed
  qed
qed

section \<open>What the methods promise\<close>

text \<open>
  \<open>okv s l v\<close>: \<open>v\<close> is a proper value for the keys of \<open>[s, l)\<close>; \<open>point s l v k\<close> is the part of it at
  key \<open>k\<close>. \<open>okr\<close> and \<open>rpoint\<close> are the same for the values passed to \<open>Remove\<close>. \<open>padd\<close> and \<open>prem\<close> say
  what \<open>AddTo\<close> and \<open>RemoveFrom\<close> do at one key, \<open>None\<close> where they empty it.
\<close>

locale range_methods =
  fixes M :: "('k::linorder, 'v) methods"
    and okv :: "'k \<Rightarrow> 'k \<Rightarrow> 'v \<Rightarrow> bool" and point :: "'k \<Rightarrow> 'k \<Rightarrow> 'v \<Rightarrow> 'k \<Rightarrow> 'p"
    and okr :: "'k \<Rightarrow> 'k \<Rightarrow> 'v \<Rightarrow> bool" and rpoint :: "'k \<Rightarrow> 'k \<Rightarrow> 'v \<Rightarrow> 'k \<Rightarrow> 'q"
    and padd :: "'p \<Rightarrow> 'p \<Rightarrow> 'p option" and prem :: "'p \<Rightarrow> 'q \<Rightarrow> 'p option"
  assumes slice: "okv s l v \<Longrightarrow> s \<le> s' \<Longrightarrow> s' < l' \<Longrightarrow> l' \<le> l \<Longrightarrow>
      okv s' l' (Slice M s l v s' l') \<and>
      (\<forall>k. s' \<le> k \<and> k < l' \<longrightarrow> point s' l' (Slice M s l v s' l') k = point s l v k)"
    and slice_removed: "okr s l v \<Longrightarrow> s \<le> s' \<Longrightarrow> s' < l' \<Longrightarrow> l' \<le> l \<Longrightarrow>
      okr s' l' (Slice M s l v s' l') \<and>
      (\<forall>k. s' \<le> k \<and> k < l' \<longrightarrow> rpoint s' l' (Slice M s l v s' l') k = rpoint s l v k)"
    and add_to: "okv s l d \<Longrightarrow> okv s l v \<Longrightarrow> s < l \<Longrightarrow> AddTo M d v = (c, d', e) \<Longrightarrow>
      (\<not> e \<longrightarrow> okv s l d') \<and>
      (\<forall>k. s \<le> k \<and> k < l \<longrightarrow>
         padd (point s l d k) (point s l v k) = (if e then None else Some (point s l d' k)))"
    and remove_from: "okv s l d \<Longrightarrow> okr s l v \<Longrightarrow> s < l \<Longrightarrow> RemoveFrom M d v = (c, d', e) \<Longrightarrow>
      (\<not> e \<longrightarrow> okv s l d') \<and>
      (\<forall>k. s \<le> k \<and> k < l \<longrightarrow>
         prem (point s l d k) (rpoint s l v k) = (if e then None else Some (point s l d' k)))"
    and add_changes: "okv s l d \<Longrightarrow> okv s l v \<Longrightarrow> s < l \<Longrightarrow> fst (AddTo M d v) \<longleftrightarrow>
      (\<exists>k. s \<le> k \<and> k < l \<and> padd (point s l d k) (point s l v k) \<noteq> Some (point s l d k))"
    and remove_succeeds: "okv s l d \<Longrightarrow> okr s l v \<Longrightarrow> fst (RemoveFrom M d v)"
    and merge_into: "CanMerge M a b \<Longrightarrow> okv s m a \<Longrightarrow> okv m l b \<Longrightarrow> s < m \<Longrightarrow> m < l \<Longrightarrow>
      okv s l (MergeInto M a b) \<and>
      (\<forall>k. s \<le> k \<and> k < l \<longrightarrow>
         point s l (MergeInto M a b) k = (if k < m then point s m a k else point m l b k))"
    and merge_left: "CanMerge M a b \<Longrightarrow> CanMerge M x (MergeInto M a b) = CanMerge M x a"
    and merge_right: "CanMerge M a b \<Longrightarrow> CanMerge M (MergeInto M a b) x = CanMerge M b x"
    and slice_merge: "CanMerge M x (Slice M s l v s' l') = CanMerge M x v"
      "CanMerge M (Slice M s l v s' l') x = CanMerge M v x"
begin

text \<open>An argument that is proper for the mode, and what it does to the value of key \<open>k\<close>.\<close>

definition okarg :: "change_mode \<Rightarrow> 'k \<Rightarrow> 'k \<Rightarrow> 'v \<Rightarrow> bool" where
  "okarg mode s l v = (case mode of kAdd \<Rightarrow> okv s l v | kRemove \<Rightarrow> okr s l v)"

definition changed :: "change_mode \<Rightarrow> 'k \<Rightarrow> 'k \<Rightarrow> 'v \<Rightarrow> 'k \<Rightarrow> 'p option \<Rightarrow> 'p option" where
  "changed mode s l v k q =
     (case mode of
        kAdd \<Rightarrow> (case q of None \<Rightarrow> Some (point s l v k) | Some p \<Rightarrow> padd p (point s l v k))
      | kRemove \<Rightarrow> (case q of None \<Rightarrow> None | Some p \<Rightarrow> prem p (rpoint s l v k)))"

lemma okarg_slice:
  assumes "okarg mode s l v" "s \<le> s'" "s' < l'" "l' \<le> l"
  shows "okarg mode s' l' (Slice M s l v s' l')"
    and "s' \<le> k \<Longrightarrow> k < l' \<Longrightarrow>
         changed mode s' l' (Slice M s l v s' l') k q = changed mode s l v k q"
  using assms slice [of s l v s' l'] slice_removed [of s l v s' l']
  by (auto simp: okarg_def changed_def split: change_mode.splits option.splits)

section \<open>Changing one element\<close>

lemma change_part_spec:
  assumes n: "okv a b d" "a < b" and v: "okarg mode a b v"
    and c: "change_part M mode ((a, b), d) v st = (ns, st')"
  shows "prev_start st' = prev_start st" and "ranges_ok okv ns"
    and "\<And>e. e \<in> set ns \<Longrightarrow> fst e = (a, b)"
    and "lookup point ns k =
           (if a \<le> k \<and> k < b then changed mode a b v k (Some (point a b d k)) else None)"
proof -
  obtain keep dest result where cv: "ChangeValue M mode d v (change_result st) = (keep, dest, result)"
    by (metis prod_cases3)
  have sem: "(keep \<longrightarrow> okv a b dest) \<and> (\<forall>k. a \<le> k \<and> k < b \<longrightarrow>
      changed mode a b v k (Some (point a b d k)) = (if keep then Some (point a b dest k) else None))"
  proof (cases mode)
    case kAdd
    then show ?thesis
      using cv add_to [OF n(1) _ n(2), of v] v
      by (auto simp: ChangeValue_def okarg_def changed_def split: prod.splits if_splits)
  next
    case kRemove
    then show ?thesis
      using cv remove_from [OF n(1) _ n(2), of v] v
      by (auto simp: ChangeValue_def okarg_def changed_def split: prod.splits if_splits)
  qed
  have ns: "ns = (if keep then [((a, b), dest)] else [])" "prev_start st' = prev_start st"
    using c by (auto simp: change_part_def cv Let_def split: if_splits)
  show "prev_start st' = prev_start st" by (rule ns(2))
  show "ranges_ok okv ns" using sem n by (simp add: ns(1) ranges_ok_Cons)
  show "\<And>e. e \<in> set ns \<Longrightarrow> fst e = (a, b)" by (simp add: ns(1) split: if_splits)
  show "lookup point ns k =
      (if a \<le> k \<and> k < b then changed mode a b v k (Some (point a b d k)) else None)"
    using sem by (auto simp: ns(1))
qed

lemma split_off_spec:
  assumes "okv a b d" "a \<le> s" "s < l" "l \<le> b"
  shows "\<exists>d'. split_off M ((a, b), d) s l = ((s, l), d') \<and> okv s l d' \<and>
           (\<forall>k. s \<le> k \<and> k < l \<longrightarrow> point s l d' k = point a b d k)"
  using slice [of a b d s l] assms by (auto simp: split_off_def)

lemma change_gap_spec:
  assumes v: "okarg mode start limit v" and "start \<le> prev_start st" "prev_start st < g" "g \<le> limit"
    and c: "change_gap M mode start limit v g st = (ns, st')"
  shows "prev_start st' = prev_start st" and "ranges_ok okv ns"
    and "\<And>e. e \<in> set ns \<Longrightarrow> fst e = (prev_start st, g)"
    and "lookup point ns k =
           (if prev_start st \<le> k \<and> k < g then changed mode start limit v k None else None)"
  using assms slice [of start limit v "prev_start st" g]
  by (auto simp: change_gap_def okarg_def changed_def ranges_ok_Cons Let_def
      split: change_mode.splits)

lemma prev_start_part [simp]:
  "prev_start (keep_part M n st) = prev_start st" "prev_start (drop_part M n st) = prev_start st"
  by (simp_all add: keep_part_def drop_part_def)

lemma change_entry_spec:
  assumes i: "okv a b d" "a < b" and v: "okarg mode start limit v"
    and p: "start \<le> prev_start st" "prev_start st < b" "prev_start st < limit" "a < limit"
      "prev_start st \<le> a \<or> prev_start st = start"
    and c: "change_entry M mode start limit v ((a, b), d) st = (ns, st')"
  shows "prev_start st' = b" and "ranges_ok okv ns"
    and "\<And>e. e \<in> set ns \<Longrightarrow> min (prev_start st) a \<le> entry_start e \<and> entry_limit e \<le> b"
    and "lookup point ns k =
           (let q = (if a \<le> k \<and> k < b then Some (point a b d k) else None)
            in if prev_start st \<le> k \<and> k < limit \<and> k < b then changed mode start limit v k q else q)"
proof -
  let ?p = "prev_start st"
  let ?goal = "prev_start st' = b \<and> ranges_ok okv ns \<and>
      (\<forall>e \<in> set ns. min ?p a \<le> entry_start e \<and> entry_limit e \<le> b) \<and>
      (\<forall>k. lookup point ns k =
           (let q = (if a \<le> k \<and> k < b then Some (point a b d k) else None)
            in if ?p \<le> k \<and> k < limit \<and> k < b then changed mode start limit v k q else q))"
  obtain gap st1 where gap: "(if ?p < a then change_gap M mode start limit v a st else ([], st)) = (gap, st1)"
    by (metis surj_pair)
  have g: "ranges_ok okv gap" "\<forall>e \<in> set gap. fst e = (?p, a)"
      "lookup point gap k = (if ?p \<le> k \<and> k < a then changed mode start limit v k None else None)" for k
  proof -
    have "ranges_ok okv gap \<and> (\<forall>e \<in> set gap. fst e = (?p, a)) \<and>
        (\<forall>k. lookup point gap k =
           (if ?p \<le> k \<and> k < a then changed mode start limit v k None else None))"
    proof (cases "?p < a")
      case True
      then have "change_gap M mode start limit v a st = (gap, st1)" using gap by simp
      from change_gap_spec [OF v p(1) True _ this] show ?thesis using p(4) by auto
    qed (use gap in auto)
    then show "ranges_ok okv gap" "\<forall>e \<in> set gap. fst e = (?p, a)"
      "lookup point gap k = (if ?p \<le> k \<and> k < a then changed mode start limit v k None else None)" for k
      by auto
  qed
  let ?st = "st1\<lparr>prev_start := b\<rparr>"
  consider (whole) "?p \<le> a" "b \<le> limit" "\<not> limit < b"
    | (prefix) "?p \<le> a" "limit < b" "\<not> b \<le> limit"
    | (inner) "a < ?p" "limit < b" "\<not> b \<le> limit" "\<not> ?p \<le> a" "\<not> ?p < a"
    | (suffix) "a < ?p" "b \<le> limit" "\<not> limit < b" "\<not> ?p \<le> a" "\<not> ?p < a"
    by (meson not_le less_imp_le)
  then have ?goal
  proof cases
    case whole
    obtain n st2 where n: "change_part M mode ((a, b), d) (Slice M start limit v a b)
        (drop_part M ((a, b), d) ?st) = (n, st2)"
      by (metis surj_pair)
    have sa: "start \<le> a" using whole p by order
    note arg = okarg_slice [OF v sa i(2) whole(2)]
    note part = change_part_spec [OF i arg(1) n]
    have ns: "ns = gap @ n" "st' = st2"
      using c whole gap n by (auto simp: change_entry_def Let_def cong: if_cong)
    have cut: "lookup point (gap @ n) k = (if k < a then lookup point gap k else lookup point n k)" for k
      using g(2) part(3) by (intro lookup_cut) auto
    have "prev_start st' = b" using ns part(1) by simp
    moreover have "ranges_ok okv ns"
      using g part(2,3) whole i unfolding ns ranges_ok_append by auto
    moreover have "\<forall>e \<in> set ns. min ?p a \<le> entry_start e \<and> entry_limit e \<le> b"
      using g(2) part(3) i whole by (auto simp: ns)
    ultimately show ?goal
      using whole i p by (auto simp: ns cut g(3) part(4) arg(2) Let_def)
  next
    case prefix
    let ?i = "((a, b), d)"
    obtain d1 where d1: "split_off M ?i a limit = ((a, limit), d1)" "okv a limit d1"
        "\<And>k. a \<le> k \<Longrightarrow> k < limit \<Longrightarrow> point a limit d1 k = point a b d k"
      using split_off_spec [OF i(1) order_refl p(4) less_imp_le [OF prefix(2)]] by blast
    obtain d2 where d2: "split_off M ?i limit b = ((limit, b), d2)" "okv limit b d2"
        "\<And>k. limit \<le> k \<Longrightarrow> k < b \<Longrightarrow> point limit b d2 k = point a b d k"
      using split_off_spec [OF i(1) less_imp_le [OF p(4)] prefix(2) order_refl] by blast
    obtain n st2 where n: "change_part M mode ((a, limit), d1) (Slice M start limit v a limit) ?st = (n, st2)"
      by (metis surj_pair)
    have sa: "start \<le> a" using prefix p by order
    note arg = okarg_slice [OF v sa p(4) order_refl]
    note part = change_part_spec [OF d1(2) p(4) arg(1) n]
    have ns: "ns = gap @ n @ [((limit, b), d2)]" "prev_start st' = prev_start st2"
      using c prefix gap n d1(1) d2(1) by (auto simp: change_entry_def Let_def cong: if_cong)
    have "lookup point ((gap @ n) @ [((limit, b), d2)]) k =
        (if k < limit then lookup point (gap @ n) k else lookup point [((limit, b), d2)] k)" for k
      using g(2) part(3) p(4) by (intro lookup_cut) auto
    moreover have "lookup point (gap @ n) k = (if k < a then lookup point gap k else lookup point n k)" for k
      using g(2) part(3) by (intro lookup_cut) auto
    ultimately have cut: "lookup point ns k = (if k < a then lookup point gap k else
        if k < limit then lookup point n k else lookup point [((limit, b), d2)] k)" for k
      using p(4) by (auto simp: ns)
    have "prev_start st' = b" using ns part(1) by simp
    moreover have "ranges_ok okv ns"
      using g part(2,3) prefix i d2(2) p(4) unfolding ns ranges_ok_append ranges_ok_Cons by auto
    moreover have "\<forall>e \<in> set ns. min ?p a \<le> entry_start e \<and> entry_limit e \<le> b"
      using g(2) part(3) i prefix p(4) by (auto simp: ns)
    ultimately show ?goal
      using prefix i p d1(3) d2(3) by (auto simp: cut g(3) part(4) arg(2) Let_def)
  next
    case inner
    let ?i = "((a, b), d)"
    have pe: "?p = start" "a < start" "start < limit" "start < b" using inner p by auto
    have noval: "gap = []" "st1 = st" using gap inner by auto
    obtain d1 where d1: "split_off M ?i a start = ((a, start), d1)" "okv a start d1"
        "\<And>k. a \<le> k \<Longrightarrow> k < start \<Longrightarrow> point a start d1 k = point a b d k"
      using split_off_spec [OF i(1) order_refl pe(2) less_imp_le [OF pe(4)]] by blast
    obtain d2 where d2: "split_off M ?i start limit = ((start, limit), d2)" "okv start limit d2"
        "\<And>k. start \<le> k \<Longrightarrow> k < limit \<Longrightarrow> point start limit d2 k = point a b d k"
      using split_off_spec [OF i(1) less_imp_le [OF pe(2)] pe(3) less_imp_le [OF inner(2)]] by blast
    obtain d3 where d3: "split_off M ?i limit b = ((limit, b), d3)" "okv limit b d3"
        "\<And>k. limit \<le> k \<Longrightarrow> k < b \<Longrightarrow> point limit b d3 k = point a b d k"
      using split_off_spec [OF i(1) less_imp_le [OF p(4)] inner(2) order_refl] by blast
    obtain n st2 where n: "change_part M mode ((start, limit), d2) v
        (keep_part M ((a, start), d1) ?st) = (n, st2)"
      by (metis surj_pair)
    note part = change_part_spec [OF d2(2) pe(3) v n]
    have ns: "ns = [((a, start), d1)] @ n @ [((limit, b), d3)]" "prev_start st' = prev_start st2"
      using c inner gap n d1(1) d2(1) d3(1) pe noval by (auto simp: change_entry_def Let_def cong: if_cong)
    have "lookup point ([((a, start), d1)] @ (n @ [((limit, b), d3)])) k =
        (if k < start then lookup point [((a, start), d1)] k else lookup point (n @ [((limit, b), d3)]) k)" for k
      using part(3) pe by (intro lookup_cut) auto
    moreover have "lookup point (n @ [((limit, b), d3)]) k =
        (if k < limit then lookup point n k else lookup point [((limit, b), d3)] k)" for k
      using part(3) by (intro lookup_cut) auto
    ultimately have cut: "lookup point ns k = (if k < start then lookup point [((a, start), d1)] k else
        if k < limit then lookup point n k else lookup point [((limit, b), d3)] k)" for k
      by (simp only: ns)
    have "prev_start st' = b" using ns part(1) by simp
    moreover have "ranges_ok okv ns"
      using part(2,3) inner i d1(2) d3(2) pe unfolding ns ranges_ok_append ranges_ok_Cons by auto
    moreover have "\<forall>e \<in> set ns. min ?p a \<le> entry_start e \<and> entry_limit e \<le> b"
      using part(3) i inner pe by (auto simp: ns)
    ultimately show ?goal
      using inner i p pe d1(3) d2(3) d3(3) by (auto simp: cut part(4) Let_def)
  next
    case suffix
    let ?i = "((a, b), d)"
    have pe: "?p = start" "a < start" "start < b" using suffix p by auto
    have noval: "gap = []" "st1 = st" using gap suffix by auto
    obtain d1 where d1: "split_off M ?i a start = ((a, start), d1)" "okv a start d1"
        "\<And>k. a \<le> k \<Longrightarrow> k < start \<Longrightarrow> point a start d1 k = point a b d k"
      using split_off_spec [OF i(1) order_refl pe(2) less_imp_le [OF pe(3)]] by blast
    obtain d2 where d2: "split_off M ?i start b = ((start, b), d2)" "okv start b d2"
        "\<And>k. start \<le> k \<Longrightarrow> k < b \<Longrightarrow> point start b d2 k = point a b d k"
      using split_off_spec [OF i(1) less_imp_le [OF pe(2)] pe(3) order_refl] by blast
    obtain n st2 where n: "change_part M mode ((start, b), d2) (Slice M start limit v start b)
        (keep_part M ((a, start), d1) ?st) = (n, st2)"
      by (metis surj_pair)
    note arg = okarg_slice [OF v order_refl pe(3) suffix(2)]
    note part = change_part_spec [OF d2(2) pe(3) arg(1) n]
    have ns: "ns = [((a, start), d1)] @ n" "prev_start st' = prev_start st2"
      using c suffix gap n d1(1) d2(1) pe noval by (auto simp: change_entry_def Let_def cong: if_cong)
    have cut: "lookup point ([((a, start), d1)] @ n) k =
        (if k < start then lookup point [((a, start), d1)] k else lookup point n k)" for k
      using part(3) pe by (intro lookup_cut) auto
    have "prev_start st' = b" using ns part(1) by simp
    moreover have "ranges_ok okv ns"
      using part(2,3) suffix i d1(2) pe unfolding ns ranges_ok_append ranges_ok_Cons by auto
    moreover have "\<forall>e \<in> set ns. min ?p a \<le> entry_start e \<and> entry_limit e \<le> b"
      using part(3) i suffix pe by (auto simp: ns)
    ultimately show ?goal
      using suffix i p pe d1(3) d2(3) by (auto simp: cut ns(1) part(4) arg(2) Let_def)
  qed
  then show "prev_start st' = b" and "ranges_ok okv ns"
    and "\<And>e. e \<in> set ns \<Longrightarrow> min ?p a \<le> entry_start e \<and> entry_limit e \<le> b"
    and "lookup point ns k =
           (let q = (if a \<le> k \<and> k < b then Some (point a b d k) else None)
            in if ?p \<le> k \<and> k < limit \<and> k < b then changed mode start limit v k q else q)"
    by auto
qed

text \<open>The loop: \<open>p\<close> is where the part still to be changed starts.\<close>

definition loop_pre :: "'k \<Rightarrow> 'k \<Rightarrow> 'k \<Rightarrow> ('k, 'v) range_map \<Rightarrow> bool" where
  "loop_pre start limit p es \<longleftrightarrow>
     ranges_ok okv es \<and> start \<le> p \<and> (\<forall>e \<in> set es. entry_start e < limit \<and> p < entry_limit e) \<and>
     (es \<noteq> [] \<longrightarrow> p < limit \<and> (p \<le> entry_start (hd es) \<or> p = start))"

lemma change_loop_spec:
  assumes "okarg mode start limit v" "loop_pre start limit (prev_start st) es"
    and "change_loop M mode start limit v es st = (ns, st')"
  shows "prev_start st \<le> prev_start st' \<and> ranges_ok okv ns \<and>
     (\<forall>e \<in> set ns. entry_limit e \<le> prev_start st' \<and>
        (\<forall>lo. lo \<le> prev_start st \<and> (\<forall>f \<in> set es. lo \<le> entry_start f) \<longrightarrow> lo \<le> entry_start e)) \<and>
     prev_start st' = (if es = [] then prev_start st else entry_limit (last es)) \<and>
     (\<forall>k. lookup point ns k =
        (if prev_start st \<le> k \<and> k < limit \<and> k < prev_start st'
         then changed mode start limit v k (lookup point es k) else lookup point es k))"
  using assms(2,3)
proof (induction es arbitrary: st ns st')
  case (Cons i es)
  obtain a b d where i: "i = ((a, b), d)" by (metis surj_pair)
  let ?p = "prev_start st"
  have pre: "okv a b d" "a < b" "start \<le> ?p" "?p < b" "?p < limit" "a < limit" "?p \<le> a \<or> ?p = start"
    and es: "ranges_ok okv es" "\<forall>e \<in> set es. b \<le> entry_start e \<and> entry_start e < limit"
    using Cons.prems(1) by (auto simp: loop_pre_def ranges_ok_Cons i)
  obtain n st1 where n: "change_entry M mode start limit v ((a, b), d) st = (n, st1)" by (metis surj_pair)
  obtain ms st2 where ms: "change_loop M mode start limit v es st1 = (ms, st2)" by (metis surj_pair)
  have ns: "ns = n @ ms" "st' = st2" using Cons.prems(2) by (simp_all add: i n ms)
  note E = change_entry_spec [OF pre(1,2) assms(1) pre(3,4,5,6,7) n]
  have "loop_pre start limit (prev_start st1) es"
  proof -
    have "start \<le> b" using pre by order
    moreover have "b < entry_limit e" if "e \<in> set es" for e
      using ranges_ok_pos [OF es(1) that] es(2) that by fastforce
    moreover have "b < limit \<and> b \<le> entry_start (hd es)" if "es \<noteq> []"
    proof -
      have "b \<le> entry_start (hd es)" "entry_start (hd es) < limit" using es(2) that by simp_all
      then show ?thesis by (metis le_less_trans)
    qed
    ultimately show ?thesis using es by (auto simp: loop_pre_def E(1))
  qed
  note L = Cons.IH [OF this ms, unfolded E(1)]
  have lo: "b \<le> entry_start e" if "e \<in> set ms" for e using L es(2) that by auto
  have hi: "entry_limit e \<le> b" if "e \<in> set n" for e using E(3) [OF that] by simp
  have cut: "lookup point (n @ ms) k = (if k < b then lookup point n k else lookup point ms k)" for k
    using hi lo by (intro lookup_cut)
  have cut': "lookup point ([i] @ es) k = (if k < b then lookup point [i] k else lookup point es k)" for k
    using es by (intro lookup_cut) (auto simp: i)
  have b2: "b \<le> prev_start st2" using L by (rule conjunct1)
  have R: "ranges_ok okv (n @ ms)"
    using E(2) L hi lo unfolding ranges_ok_append by (meson order_trans)
  have B: "entry_limit e \<le> prev_start st2 \<and>
      (\<forall>lo. lo \<le> ?p \<and> (\<forall>f \<in> set (i # es). lo \<le> entry_start f) \<longrightarrow> lo \<le> entry_start e)" if "e \<in> set (n @ ms)" for e
  proof (cases "e \<in> set n")
    case True
    then have "min ?p a \<le> entry_start e" "entry_limit e \<le> b" using E(3) by blast+
    then show ?thesis using b2 by (auto simp: i min_le_iff_disj intro: order_trans)
  next
    case False
    then have e: "e \<in> set ms" using that by simp
    then have "b \<le> entry_start e" "entry_limit e \<le> prev_start st2" using lo L by auto
    moreover have "a \<le> entry_start e" using calculation(1) pre(2) by order
    ultimately show ?thesis by (auto simp: i intro: order_trans)
  qed
  have K: "lookup point (n @ ms) k =
      (if ?p \<le> k \<and> k < limit \<and> k < prev_start st2
       then changed mode start limit v k (lookup point (i # es) k) else lookup point (i # es) k)" for k
  proof (cases "k < b")
    case True
    then have "lookup point (i # es) k = lookup point [i] k" using cut' [of k] by simp
    moreover have "k < prev_start st2" using True b2 by order
    ultimately show ?thesis using True E(4) [of k] by (simp add: cut i Let_def)
  next
    case False
    then have "lookup point (i # es) k = lookup point es k" using cut' [of k] by simp
    moreover have "?p \<le> k" "b \<le> k" using False pre(4) by order+
    ultimately show ?thesis using False L by (simp add: cut)
  qed
  have P: "?p \<le> prev_start st2" using b2 pre(4) by order
  have Q: "prev_start st2 = entry_limit (last (i # es))" using L by (auto simp: i)
  show ?case
    unfolding ns by (intro conjI ballI P R B [THEN conjunct1] B [THEN conjunct2]) (simp_all only: Q K if_True simp_thms, simp_all)
qed (auto dest: leD)

section \<open>The change before merging\<close>

lemma change_spec:
  assumes ok: "ranges_ok okv m" and v: "okarg mode start limit v" and lt: "start < limit"
  obtains pre mid suf n1 st1 n2 st2 where "m = pre @ mid @ suf" "range_split start limit pre mid suf"
    "Find m start limit = ret (length pre, length pre + length mid)"
    "change_loop M mode start limit v mid
       \<lparr>prev_start = start, change_result = (mode = kRemove), change_usage = usage\<rparr> = (n1, st1)"
    "change_tail M mode start limit v st1 = (n2, st2)"
    "ranges_ok okv (pre @ (n1 @ n2) @ suf)"
    "\<And>k. lookup point (pre @ (n1 @ n2) @ suf) k =
       (if start \<le> k \<and> k < limit then changed mode start limit v k (lookup point m k)
        else lookup point m k)"
proof -
  obtain pre mid suf where m: "m = pre @ mid @ suf" and sp: "range_split start limit pre mid suf"
    using range_split_exists [OF ok lt] by blast
  let ?st = "\<lparr>prev_start = start, change_result = (mode = kRemove), change_usage = usage\<rparr>"
  obtain n1 st1 where n1: "change_loop M mode start limit v mid ?st = (n1, st1)" by (metis surj_pair)
  obtain n2 st2 where n2: "change_tail M mode start limit v st1 = (n2, st2)" by (metis surj_pair)
  have okm: "ranges_ok okv mid" using ok by (simp add: m ranges_ok_append)
  have "loop_pre start limit (prev_start ?st) mid"
    using okm sp lt by (simp add: loop_pre_def range_split_def)
  note L = change_loop_spec [OF v this n1, simplified]
  have T: "ranges_ok okv n2 \<and> (\<forall>e \<in> set n2. prev_start st1 \<le> entry_start e \<and> entry_limit e \<le> limit) \<and>
      (\<forall>k. lookup point n2 k = (if prev_start st1 \<le> k \<and> k < limit then changed mode start limit v k None else None))"
  proof (cases "prev_start st1 < limit")
    case True
    then have "change_gap M mode start limit v limit st1 = (n2, st2)" using n2 by (simp add: change_tail_def)
    from change_gap_spec [OF v _ True order_refl this] L show ?thesis by auto
  qed (use n2 in \<open>auto simp: change_tail_def\<close>)
  let ?p = "prev_start st1"
  have cut: "lookup point (n1 @ n2) k = (if k < ?p then lookup point n1 k else lookup point n2 k)" for k
    using L T by (intro lookup_cut) auto
  have midlim: "entry_limit e \<le> ?p" if "e \<in> set mid" for e
    using limit_le_last [OF okm that] L that by (auto split: if_splits)
  have look: "lookup point (n1 @ n2) k =
      (if start \<le> k \<and> k < limit then changed mode start limit v k (lookup point mid k) else lookup point mid k)" for k
  proof (cases "k < ?p")
    case False
    then have "lookup point mid k = None" using midlim by (intro lookup_None) (meson not_le order_trans)
    moreover have "start \<le> ?p" using L by (rule conjunct1)
    then have "start \<le> k" "?p \<le> k" using False by order+
    ultimately show ?thesis using False T by (simp add: cut)
  qed (use L in \<open>simp add: cut\<close>)
  have okn: "ranges_ok okv (n1 @ n2)"
    using L T unfolding ranges_ok_append by (meson order_trans)
  have X: "entry_limit e \<le> entry_start f" if "e \<in> set pre" "f \<in> set (n1 @ n2)" for e f
  proof -
    have "entry_limit e \<le> start" "\<forall>f \<in> set mid. entry_limit e \<le> entry_start f"
      using sp ok that by (auto simp: range_split_def m ranges_ok_append)
    then show ?thesis using that(2) L T by (auto intro: order_trans)
  qed
  have Y: "entry_limit e \<le> entry_start f" if "e \<in> set (n1 @ n2)" "f \<in> set suf" for e f
  proof -
    have f: "limit \<le> entry_start f" "\<forall>e \<in> set mid. entry_limit e \<le> entry_start f"
      using sp ok that by (auto simp: range_split_def m ranges_ok_append)
    have "?p \<le> entry_start f"
      using L f lt by (cases "mid = []") auto
    then show ?thesis using that(1) f L T by (auto intro: order_trans)
  qed
  have okall: "ranges_ok okv (pre @ (n1 @ n2) @ suf)"
    unfolding ranges_ok_append [of _ pre] ranges_ok_append [of _ "n1 @ n2" suf]
    using ok okn X Y by (simp add: m ranges_ok_append ball_Un)
  have "lookup point (pre @ (n1 @ n2) @ suf) k =
      (if start \<le> k \<and> k < limit then changed mode start limit v k (lookup point m k) else lookup point m k)" for k
  proof -
    have "lookup point pre k = None" if "start \<le> k"
      using sp that by (intro lookup_None) (auto simp: range_split_def)
    moreover have "lookup point suf k = None" if "k < limit"
      using sp that by (intro lookup_None) (auto simp: range_split_def)
    moreover have "lookup point (pre @ N @ suf) k =
        (case lookup point pre k of None \<Rightarrow> (case lookup point N k of None \<Rightarrow> lookup point suf k | Some q \<Rightarrow> Some q)
         | Some q \<Rightarrow> Some q)" for N
      by (simp only: lookup_append [of _ pre] lookup_append [of _ N])
    ultimately show ?thesis
      by (cases "start \<le> k"; cases "k < limit")
        (simp_all add: m look case_prod_unfold split: option.splits del: append_assoc)
  qed
  moreover have "Find m start limit = ret (length pre, length pre + length mid)"
    unfolding m using ok sp lt by (intro Find_eq) (simp_all add: m)
  ultimately show thesis
    using that [OF m sp _ n1 n2 okall] by blast
qed

section \<open>Merging\<close>

definition mergeable :: "('k, 'v) entry \<Rightarrow> ('k, 'v) entry \<Rightarrow> bool" where
  "mergeable e f \<longleftrightarrow> entry_limit e = entry_start f \<and> CanMerge M (snd e) (snd f)"

definition canonical :: "('k, 'v) range_map \<Rightarrow> bool" where
  "canonical m \<longleftrightarrow> successively (\<lambda>e f. \<not> mergeable e f) m"

lemma merge_two:
  assumes "ranges_ok okv (e # f # es)" "mergeable e f"
  shows "ranges_ok okv (((entry_start e, entry_limit f), MergeInto M (snd e) (snd f)) # es)"
    and "lookup point (((entry_start e, entry_limit f), MergeInto M (snd e) (snd f)) # es) k =
         lookup point (e # f # es) k"
proof -
  obtain s c a c' l b where e: "e = ((s, c), a)" and f: "f = ((c', l), b)" by (metis surj_pair)
  have eq: "c' = c" "CanMerge M a b" using assms(2) by (auto simp: mergeable_def e f)
  have ok: "okv s c a" "okv c l b" "s < c" "c < l" "s < l"
    using assms(1) eq by (auto simp: ranges_ok_Cons e f)
  note merged = merge_into [OF eq(2) ok(1-4)]
  show "ranges_ok okv (((entry_start e, entry_limit f), MergeInto M (snd e) (snd f)) # es)"
    using merged assms(1) ok eq by (auto simp: ranges_ok_Cons e f)
  show "lookup point (((entry_start e, entry_limit f), MergeInto M (snd e) (snd f)) # es) k =
        lookup point (e # f # es) k"
    using merged ok eq by (cases "k < c") (auto simp: e f)
qed

lemma merge_loop_spec:
  assumes "ranges_ok okv (prev # es)" "merge_loop M prev es u = (ns, u')"
  shows "ranges_ok okv ns \<and> canonical ns \<and> ns \<noteq> [] \<and> (\<forall>k. lookup point ns k = lookup point (prev # es) k) \<and>
    (\<forall>x. mergeable x (hd ns) = mergeable x prev) \<and> entry_start (hd ns) = entry_start prev \<and>
    (\<forall>x. mergeable (last ns) x = mergeable (last (prev # es)) x) \<and>
    entry_limit (last ns) = entry_limit (last (prev # es)) \<and>
    u' = map_option (\<lambda>x. x + RangeMap_Usage M ns - RangeMap_Usage M (prev # es)) u"
  using assms
proof (induction es arbitrary: prev u ns u')
  case (Cons e es)
  show ?case
  proof (cases "mergeable prev e")
    case True
    let ?m = "((entry_start prev, entry_limit e), MergeInto M (snd prev) (snd e))"
    have run: "merge_loop M ?m es (AddUsage M ?m (SubUsage M e (SubUsage M prev u))) = (ns, u')"
      using Cons.prems(2) True by (simp add: mergeable_def Let_def)
    have "CanMerge M (snd prev) (snd e)" using True by (simp add: mergeable_def)
    then have l: "mergeable x ?m = mergeable x prev" and r: "mergeable ?m x = mergeable e x" for x
      using merge_left merge_right by (simp_all add: mergeable_def)
    have ne: "mergeable (last (?m # es)) x = mergeable (last (prev # e # es)) x"
      "entry_limit (last (?m # es)) = entry_limit (last (prev # e # es))" for x
      using r by simp_all
    have us: "AddUsage M ?m (SubUsage M e (SubUsage M prev u)) =
        map_option (\<lambda>x. x + RangeMap_Usage M (?m # es) - RangeMap_Usage M (prev # e # es)) u"
      by (cases u) (simp_all add: AddUsage_def SubUsage_def RangeMap_Usage_def)
    note IH = Cons.IH [OF merge_two(1) [OF Cons.prems(1) True] run]
    show ?thesis
      using IH unfolding merge_two(2) [OF Cons.prems(1) True] l ne us
      by (cases u) simp_all
  next
    case False
    obtain rest u2 where run: "merge_loop M e es u = (rest, u2)" by (metis surj_pair)
    have ns: "ns = prev # rest" "u' = u2"
      using Cons.prems(2) False run by (auto simp: mergeable_def)
    have ok: "ranges_ok okv (e # es)" using Cons.prems(1) by (simp add: ranges_ok_Cons)
    note IH = Cons.IH [OF ok run]
    have pos: "entry_limit prev \<le> entry_start f" if "f \<in> set rest" for f
    proof -
      have "rest \<noteq> []" "entry_start (hd rest) = entry_start e" "ranges_ok okv rest" using IH by simp_all
      then have "f = hd rest \<or> entry_limit (hd rest) \<le> entry_start f \<and> entry_start (hd rest) < entry_limit (hd rest)"
        using that by (cases rest) (auto simp: ranges_ok_Cons)
      moreover have "entry_limit prev \<le> entry_start e" using Cons.prems(1) by (simp add: ranges_ok_Cons)
      ultimately show ?thesis using \<open>entry_start (hd rest) = entry_start e\<close> by auto
    qed
    have "mergeable prev (hd rest) = mergeable prev e" "rest \<noteq> []" "canonical rest" using IH by blast+
    then have "canonical ns"
      using False unfolding ns canonical_def successively_Cons by blast
    moreover have "ranges_ok okv ns"
      using IH pos Cons.prems(1) by (simp add: ns ranges_ok_Cons)
    moreover have "u2 = map_option (\<lambda>x. x + RangeMap_Usage M (prev # rest) - RangeMap_Usage M (prev # e # es)) u"
      using IH by (cases u) (simp_all add: RangeMap_Usage_def)
    ultimately show ?thesis using IH by (simp add: ns)
  qed
qed (auto simp: canonical_def RangeMap_Usage_def option.map_ident)

text \<open>\<open>Merge\<close> as a function of the elements in front of, in and behind the range.\<close>

lemma RangeMap_Merge_eq:
  fixes pre mid suf :: "('k, 'v) range_map"
  defines "seg \<equiv> (if pre = [] then [] else [last pre]) @ mid @ take 1 suf"
  shows "RangeMap_Merge M (length pre, length pre + length mid) (pre @ mid @ suf) u =
     (if seg = [] then (pre @ mid @ suf, u)
      else let (merged, u') = merge_loop M (hd seg) (tl seg) u in (butlast pre @ merged @ drop 1 suf, u'))"
proof (cases "pre = []")
  case True
  show ?thesis
  proof (cases "mid = []")
    case m: True
    then show ?thesis using True by (cases suf) (auto simp: RangeMap_Merge_def seg_def in_range_def)
  next
    case False
    then obtain x xs where "mid = x # xs" by (cases mid) auto
    then show ?thesis
      using True by (cases suf) (auto simp: RangeMap_Merge_def seg_def in_range_def Let_def case_prod_unfold)
  qed
next
  case False
  then obtain ps p where p: "pre = ps @ [p]" by (metis rev_exhaust)
  then show ?thesis
    by (cases suf) (auto simp: RangeMap_Merge_def seg_def in_range_def Let_def case_prod_unfold)
qed

lemma RangeMap_Merge_spec:
  assumes ok: "ranges_ok okv (pre @ mid @ suf)"
    and run: "RangeMap_Merge M (length pre, length pre + length mid) (pre @ mid @ suf) u = (m', u')"
  shows "ranges_ok okv m' \<and> (\<forall>k. lookup point m' k = lookup point (pre @ mid @ suf) k) \<and>
    (canonical pre \<and> canonical suf \<longrightarrow> canonical m') \<and>
    u' = map_option (\<lambda>x. x + RangeMap_Usage M m' - RangeMap_Usage M (pre @ mid @ suf)) u"
proof -
  obtain seg where seg: "(if pre = [] then [] else [last pre]) @ mid @ take 1 suf = seg" by blast
  show ?thesis
  proof (cases "seg = []")
    case True
    then have "pre = []" "mid = []" "suf = []" using seg by (auto split: if_splits)
    then show ?thesis
      using run by (auto simp: RangeMap_Merge_def canonical_def option.map_ident)
  next
    case False
    obtain merged u2 where l: "merge_loop M (hd seg) (tl seg) u = (merged, u2)" by (metis surj_pair)
    have m': "m' = butlast pre @ merged @ drop 1 suf" "u' = u2"
      using run False l unfolding RangeMap_Merge_eq seg by (simp_all add: Let_def)
    have whole: "pre @ mid @ suf = butlast pre @ seg @ drop 1 suf"
      unfolding seg [symmetric] by (cases suf; cases "pre = []") simp_all
    have segC: "hd seg # tl seg = seg" using False by simp
    have okseg: "ranges_ok okv (hd seg # tl seg)"
      using ok unfolding whole segC ranges_ok_append by blast
    note L = merge_loop_spec [OF okseg l, unfolded segC]
    have "ranges_ok okv m'"
    proof -
      have okw: "ranges_ok okv (butlast pre @ seg @ drop 1 suf)" using ok whole by simp
      have first: "entry_start (hd seg) \<le> entry_start f" if f: "f \<in> set merged" for f
      proof -
        obtain g gs where g: "merged = g # gs" using L by (cases merged) auto
        then have "f = g \<or> entry_limit g \<le> entry_start f \<and> entry_start g < entry_limit g"
          using L f by (auto simp: ranges_ok_Cons)
        moreover have "entry_start g = entry_start (hd seg)" using L g by auto
        ultimately show ?thesis by auto
      qed
      have lasts: "entry_limit f \<le> entry_limit (last seg)" if "f \<in> set merged" for f
        using limit_le_last [of okv merged f] L that by auto
      have hd: "hd seg \<in> set seg" and last: "last seg \<in> set seg"
        using False by (metis hd_in_set, metis last_in_set)
      have a: "entry_limit e \<le> entry_start f" if "e \<in> set (butlast pre)" "f \<in> set merged" for e f
      proof -
        have "entry_limit e \<le> entry_start (hd seg)"
          using okw that(1) hd unfolding ranges_ok_append set_append by blast
        then show ?thesis using first [OF that(2)] by order
      qed
      have b: "entry_limit e \<le> entry_start f" if "e \<in> set merged" "f \<in> set (drop 1 suf)" for e f
      proof -
        have "entry_limit (last seg) \<le> entry_start f"
          using okw that(2) last unfolding ranges_ok_append set_append by blast
        then show ?thesis using lasts [OF that(1)] by order
      qed
      have c: "entry_limit e \<le> entry_start f" if "e \<in> set (butlast pre)" "f \<in> set (drop 1 suf)" for e f
        using okw that unfolding ranges_ok_append set_append by blast
      have "ranges_ok okv merged" using L by blast
      then show ?thesis
        unfolding m' ranges_ok_append using okw a b c unfolding ranges_ok_append set_append ball_Un by blast
    qed
    moreover have "lookup point m' k = lookup point (pre @ mid @ suf) k" for k
    proof -
      have "lookup point merged k = lookup point seg k" using L by blast
      then show ?thesis unfolding m' whole lookup_append by (simp split: option.splits)
    qed
    moreover have "canonical m'" if can: "canonical pre" "canonical suf"
    proof -
      have "canonical merged" "merged \<noteq> []" using L by blast+
      moreover have "\<not> mergeable (last (butlast pre)) (hd merged)" if "butlast pre \<noteq> []"
      proof -
        obtain ps p where p: "pre = ps @ [p]" using \<open>butlast pre \<noteq> []\<close> by (metis append_butlast_last_id butlast.simps(1))
        then have "\<not> mergeable (last ps) p"
          using can(1) that by (auto simp: canonical_def successively_append_iff)
        moreover have "mergeable (last ps) (hd merged) = mergeable (last ps) (hd seg)" using L by blast
        moreover have "hd seg = p" unfolding seg [symmetric] p by simp
        ultimately show ?thesis by (simp add: p)
      qed
      moreover have "\<not> mergeable (last merged) (hd (drop 1 suf))" if ne: "drop 1 suf \<noteq> []"
      proof -
        obtain x y ys where x: "suf = x # y # ys" using ne by (cases suf; cases "tl suf") auto
        then have "\<not> mergeable x y" using can(2) by (simp add: canonical_def)
        moreover have "mergeable (last merged) y = mergeable (last seg) y" using L by blast
        moreover have "last seg = x" unfolding seg [symmetric] x by simp
        ultimately show ?thesis by (simp add: x)
      qed
      moreover have "canonical (butlast pre)" "canonical (drop 1 suf)"
        using can unfolding canonical_def
        by (metis append_butlast_last_id butlast.simps(1) successively_append_iff)
          (cases suf; use can in \<open>auto simp: canonical_def successively_Cons\<close>)
      ultimately show ?thesis
        unfolding m' canonical_def by (auto simp: successively_append_iff)
    qed
    moreover have "u' = map_option (\<lambda>x. x + RangeMap_Usage M m' - RangeMap_Usage M (pre @ mid @ suf)) u"
    proof -
      have "u2 = map_option (\<lambda>x. x + RangeMap_Usage M merged - RangeMap_Usage M seg) u" using L by blast
      then show ?thesis unfolding m' whole by (cases u) (simp_all add: RangeMap_Usage_def)
    qed
    ultimately show ?thesis by blast
  qed
qed

end

end
