(* ===== verification/Range_Map_Ops.thy ===== *)
theory Range_Map_Ops
  imports Range_Map_Laws
begin

text \<open>
  The operations of \<open>RangeMap\<close> at each key: \<open>Add\<close>, \<open>Remove\<close>, whole-map changes, intersection and
  difference; that they keep the map well formed and canonical, account for the usage exactly
  and return what their comments promise.
\<close>

section \<open>Usage\<close>

text \<open>A step whose usage grows by the usage of what it puts in the map.\<close>

definition accounts ::
    "('k, 'v) methods \<Rightarrow> int \<Rightarrow> ('k, 'v) entry list \<times> 'k change_state \<Rightarrow> 'k change_state \<Rightarrow> bool" where
  "accounts M removed x st \<longleftrightarrow>
     change_usage (snd x) = map_option (\<lambda>u. u + RangeMap_Usage M (fst x) - removed) (change_usage st)"

lemma RangeMap_Usage_simps [simp]:
  "RangeMap_Usage M [] = 0"
  "RangeMap_Usage M (e # m) = entry_usage M e + RangeMap_Usage M m"
  "RangeMap_Usage M (xs @ ys) = RangeMap_Usage M xs + RangeMap_Usage M ys"
  by (simp_all add: RangeMap_Usage_def)

lemma accounts_gap: "accounts M 0 (change_gap M mode start limit v g st) st"
  by (cases "change_usage st")
    (auto simp: accounts_def change_gap_def AddUsage_def Let_def split: change_mode.splits)

lemma accounts_part: "accounts M 0 (change_part M mode n v st) st"
  by (cases "change_usage st")
    (auto simp: accounts_def change_part_def AddUsage_def Let_def split: prod.splits)

lemma accounts_tail: "accounts M 0 (change_tail M mode start limit v st) st"
  using accounts_gap [of M mode start limit v limit st]
  by (cases "change_usage st") (auto simp: change_tail_def accounts_def)

lemma change_usage_update [simp]:
  "change_usage (st\<lparr>prev_start := x\<rparr>) = change_usage st"
  "change_usage (keep_part M n st) = map_option (\<lambda>u. u + entry_usage M n) (change_usage st)"
  "change_usage (drop_part M n st) = map_option (\<lambda>u. u - entry_usage M n) (change_usage st)"
  by (simp_all add: keep_part_def drop_part_def AddUsage_def SubUsage_def)

lemma accounts_entry: "accounts M (entry_usage M i) (change_entry M mode start limit v i st) st"
proof -
  let ?gap = "if prev_start st < entry_start i then change_gap M mode start limit v (entry_start i) st
              else ([], st)"
  obtain gap st1 where g: "?gap = (gap, st1)" by (metis surj_pair)
  have "accounts M 0 ?gap st"
    using accounts_gap [of M mode start limit v "entry_start i" st]
    by (auto simp: accounts_def option.map_ident)
  then have g1: "change_usage st1 = map_option (\<lambda>u. u + RangeMap_Usage M gap) (change_usage st)"
    by (simp add: g accounts_def)
  have part: "change_usage st2 = map_option (\<lambda>u. u + RangeMap_Usage M n) (change_usage st')"
    if "change_part M mode e w st' = (n, st2)" for e w st' n st2
    using accounts_part [of M mode e w st'] that by (simp add: accounts_def)
  show ?thesis
    unfolding change_entry_def Let_def g
    by (cases "change_usage st")
      (auto simp: accounts_def g1 dest!: part split: prod.splits)
qed

lemma accounts_loop: "accounts M (RangeMap_Usage M is) (change_loop M mode start limit v is st) st"
proof (induction "is" arbitrary: st)
  case (Cons i "is")
  obtain n st1 where n: "change_entry M mode start limit v i st = (n, st1)" by (metis surj_pair)
  obtain ns st2 where ns: "change_loop M mode start limit v is st1 = (ns, st2)" by (metis surj_pair)
  show ?case
    using accounts_entry [of M i mode start limit v st] Cons.IH [of st1]
    by (cases "change_usage st") (simp_all add: accounts_def n ns)
qed (simp add: accounts_def option.map_ident)

section \<open>The shape of a change\<close>

lemma change_gap_keys: "change_gap M mode start limit v g st = (ns, st') \<Longrightarrow> e \<in> set ns \<Longrightarrow> fst e = (prev_start st, g)"
  by (auto simp: change_gap_def Let_def split: change_mode.splits)

lemma change_part_keys: "change_part M mode n v st = (ns, st') \<Longrightarrow> e \<in> set ns \<Longrightarrow> fst e = fst n"
  by (auto simp: change_part_def Let_def split: prod.splits if_splits)

text \<open>Everything a change puts in the map lies in \<open>[start, limit)\<close> except for the two remainders.\<close>

definition left_part where
  "left_part M start es = (if es \<noteq> [] \<and> entry_start (hd es) < start
     then [split_off M (hd es) (entry_start (hd es)) start] else [])"

definition right_part where
  "right_part M limit es = (if es \<noteq> [] \<and> limit < entry_limit (last es)
     then [split_off M (last es) limit (entry_limit (last es))] else [])"

definition within :: "'k::linorder \<Rightarrow> 'k \<Rightarrow> ('k, 'v) entry list \<Rightarrow> bool" where
  "within start limit es \<longleftrightarrow> (\<forall>e \<in> set es. start \<le> entry_start e \<and> entry_limit e \<le> limit)"

lemma change_entry_shape:
  assumes "prev_start st < limit" "entry_start i < limit" "entry_start i < entry_limit i" "start \<le> prev_start st"
    and "prev_start st \<le> entry_start i \<or> prev_start st = start"
    and c: "change_entry M mode start limit v i st = (ns, st')"
  shows "\<exists>core. ns = (if entry_start i < prev_start st then left_part M start [i] else []) @ core @
                    right_part M limit [i] \<and> within start limit core"
proof -
  let ?p = "prev_start st"
  obtain gap st1 where gap: "(if ?p < entry_start i then change_gap M mode start limit v (entry_start i) st
      else ([], st)) = (gap, st1)"
    by (metis surj_pair)
  then have g: "within start limit gap"
    using assms(2,4) by (auto simp: within_def dest: change_gap_keys split: if_splits)
  consider "?p \<le> entry_start i" "entry_limit i \<le> limit" "\<not> limit < entry_limit i"
    | "?p \<le> entry_start i" "limit < entry_limit i" "\<not> entry_limit i \<le> limit"
    | "entry_start i < ?p" "limit < entry_limit i" "\<not> ?p \<le> entry_start i" "\<not> entry_limit i \<le> limit"
    | "entry_start i < ?p" "entry_limit i \<le> limit" "\<not> ?p \<le> entry_start i" "\<not> limit < entry_limit i"
    by (meson not_le)
  then show ?thesis
  proof cases
    case 1
    obtain n st2 where n: "change_part M mode i (Slice M start limit v (entry_start i) (entry_limit i))
        (drop_part M i (st1\<lparr>prev_start := entry_limit i\<rparr>)) = (n, st2)" by (metis surj_pair)
    have "ns = gap @ n" using c 1 gap n by (auto simp: change_entry_def Let_def cong: if_cong)
    moreover have "within start limit n"
      using 1 assms(4) by (auto simp: within_def dest!: change_part_keys [OF n])
    ultimately show ?thesis using g 1 by (intro exI [of _ "gap @ n"]) (auto simp: right_part_def within_def)
  next
    case 2
    obtain n st2 where n: "change_part M mode (split_off M i (entry_start i) limit)
        (Slice M start limit v (entry_start i) limit) (st1\<lparr>prev_start := entry_limit i\<rparr>) = (n, st2)"
      by (metis surj_pair)
    have "ns = gap @ n @ [split_off M i limit (entry_limit i)]"
      using c 2 gap n by (auto simp: change_entry_def Let_def cong: if_cong)
    moreover have "within start limit n"
      using 2 assms(4) by (auto simp: within_def split_off_def dest!: change_part_keys [OF n])
    ultimately show ?thesis using g 2 by (intro exI [of _ "gap @ n"]) (auto simp: right_part_def within_def)
  next
    case 3
    then have p: "?p = start" using assms(5) by auto
    have noval: "gap = []" "st1 = st" using gap 3 by (auto split: if_splits)
    obtain n st2 where n: "change_part M mode (split_off M i start limit) v
        (keep_part M (split_off M i (entry_start i) start) (st1\<lparr>prev_start := entry_limit i\<rparr>)) = (n, st2)"
      by (metis surj_pair)
    have "ns = [split_off M i (entry_start i) start] @ n @ [split_off M i limit (entry_limit i)]"
      using c 3 gap n noval by (auto simp: change_entry_def Let_def p cong: if_cong)
    moreover have "within start limit n"
      by (auto simp: within_def split_off_def dest!: change_part_keys [OF n])
    ultimately show ?thesis using 3 p by (intro exI [of _ n]) (auto simp: left_part_def right_part_def)
  next
    case 4
    then have p: "?p = start" using assms(5) by auto
    have noval: "gap = []" "st1 = st" using gap 4 by (auto split: if_splits)
    obtain n st2 where n: "change_part M mode (split_off M i start (entry_limit i))
        (Slice M start limit v start (entry_limit i))
        (keep_part M (split_off M i (entry_start i) start) (st1\<lparr>prev_start := entry_limit i\<rparr>)) = (n, st2)"
      by (metis surj_pair)
    have "ns = [split_off M i (entry_start i) start] @ n"
      using c 4 gap n noval by (auto simp: change_entry_def Let_def p cong: if_cong)
    moreover have "within start limit n"
      using 4 by (auto simp: within_def split_off_def dest!: change_part_keys [OF n])
    ultimately show ?thesis using 4 p by (intro exI [of _ n]) (auto simp: left_part_def right_part_def)
  qed
qed

context range_methods
begin

lemma loop_pre_Cons:
  assumes "loop_pre start limit p (i # es)"
  shows "loop_pre start limit (entry_limit i) es"
    and "es \<noteq> [] \<Longrightarrow> entry_limit i < limit"
    and "p < limit" "entry_start i < limit" "entry_start i < entry_limit i" "start \<le> p"
      "p \<le> entry_start i \<or> p = start" "start \<le> entry_limit i" "p < entry_limit i"
proof -
  have ok: "ranges_ok okv (i # es)" "start \<le> p" "p < limit" "p \<le> entry_start i \<or> p = start"
      "p < entry_limit i" "entry_start i < limit" "\<forall>e \<in> set es. entry_start e < limit"
    using assms by (auto simp: loop_pre_def)
  have es: "ranges_ok okv es" "\<forall>f \<in> set es. entry_limit i \<le> entry_start f" "entry_start i < entry_limit i"
    using ok(1) by (simp_all add: ranges_ok_Cons)
  show "p < limit" "entry_start i < limit" "entry_start i < entry_limit i" "start \<le> p"
      "p \<le> entry_start i \<or> p = start" "p < entry_limit i" by (fact ok es)+
  show se: "start \<le> entry_limit i" using ok(2,5) by order
  show lt: "entry_limit i < limit" if "es \<noteq> []"
  proof -
    have "entry_limit i \<le> entry_start (hd es)" "entry_start (hd es) < limit"
      using es(2) ok(7) that by simp_all
    then show ?thesis by order
  qed
  have "entry_limit i < entry_limit e" if "e \<in> set es" for e
  proof -
    have "entry_limit i \<le> entry_start e" "entry_start e < entry_limit e"
      using es that ranges_ok_pos [OF es(1) that] by simp_all
    then show ?thesis by order
  qed
  moreover have "entry_limit i \<le> entry_start (hd es)" if "es \<noteq> []" using es(2) that by simp
  ultimately show "loop_pre start limit (entry_limit i) es"
    using es ok(7) se lt by (simp add: loop_pre_def)
qed

lemma change_loop_shape:
  assumes "okarg mode start limit v" "loop_pre start limit (prev_start st) es"
    and "change_loop M mode start limit v es st = (ns, st')"
  shows "\<exists>core. ns = (if es \<noteq> [] \<and> entry_start (hd es) < prev_start st then left_part M start es else []) @ core @
                    right_part M limit es \<and> within start limit core"
  using assms(2,3)
proof (induction es arbitrary: st ns st')
  case (Cons i es)
  obtain n st1 where n: "change_entry M mode start limit v i st = (n, st1)" by (metis surj_pair)
  obtain ms st2 where ms: "change_loop M mode start limit v es st1 = (ms, st2)" by (metis surj_pair)
  have ns: "ns = n @ ms" using Cons.prems(2) by (simp add: n ms)
  note pre = loop_pre_Cons [OF Cons.prems(1)]
  have st1: "prev_start st1 = entry_limit i"
  proof -
    have ok: "okv (entry_start i) (entry_limit i) (snd i)"
      using Cons.prems(1) by (auto simp: loop_pre_def ranges_ok_Cons)
    have "change_entry M mode start limit v ((entry_start i, entry_limit i), snd i) st = (n, st1)"
      using n by simp
    from change_entry_spec(1) [OF ok pre(5) assms(1) pre(6,9,3,4,7) this] show ?thesis .
  qed
  obtain core1 where c1: "n = (if entry_start i < prev_start st then left_part M start [i] else []) @ core1 @
      right_part M limit [i]" "within start limit core1"
    using change_entry_shape [OF pre(3,4,5,6,7) n] by blast
  show ?case
  proof (cases "es = []")
    case True
    then have "ms = []" using ms by simp
    then show ?thesis using c1 by (simp add: ns True left_part_def)
  next
    case False
    obtain core2 where c2: "ms = (if entry_start (hd es) < prev_start st1 then left_part M start es else []) @
        core2 @ right_part M limit es" "within start limit core2"
      using Cons.IH [OF _ ms] pre(1) False by (auto simp: st1)
    have "\<not> entry_start (hd es) < entry_limit i"
      using Cons.prems(1) False by (auto simp: loop_pre_def ranges_ok_Cons not_less)
    then have "ms = core2 @ right_part M limit es" using c2 st1 by simp
    moreover have "right_part M limit [i] = []" using pre(2) False by (simp add: right_part_def)
    ultimately have "ns = (if entry_start i < prev_start st then left_part M start (i # es) else []) @
        (core1 @ core2) @ right_part M limit (i # es)"
      using c1 False by (simp add: ns left_part_def right_part_def)
    moreover have "within start limit (core1 @ core2)" using c1 c2 by (auto simp: within_def)
    ultimately show ?thesis by auto
  qed
qed (auto simp: right_part_def within_def)

section \<open>The result\<close>

definition result_at :: "change_mode \<Rightarrow> bool \<Rightarrow> ('k \<Rightarrow> bool) \<Rightarrow> ('k \<Rightarrow> 'p option) \<Rightarrow> ('k \<Rightarrow> 'p option) \<Rightarrow> bool" where
  "result_at mode r keys old new \<longleftrightarrow>
     (case mode of kAdd \<Rightarrow> r \<or> (\<exists>k. keys k \<and> new k \<noteq> old k) | kRemove \<Rightarrow> r \<and> (\<forall>k. keys k \<longrightarrow> old k \<noteq> None))"

lemma result_at_cong:
  "(\<And>k. keys k \<Longrightarrow> Q k = Q' k) \<Longrightarrow>
   result_at mode r keys Q (\<lambda>k. F k (Q k)) = result_at mode r keys Q' (\<lambda>k. F k (Q' k))"
  by (cases mode) (auto simp: result_at_def)

lemma change_part_result:
  assumes n: "okv a b d" "a < b" and v: "okarg mode a b v"
    and c: "change_part M mode ((a, b), d) v st = (ns, st')"
  shows "change_result st' = result_at mode (change_result st) (\<lambda>k. a \<le> k \<and> k < b)
           (\<lambda>k. Some (point a b d k)) (\<lambda>k. changed mode a b v k (Some (point a b d k)))"
proof (cases mode)
  case kAdd
  then show ?thesis
    using c add_changes [OF n(1) _ n(2), of v] v
    by (cases "AddTo M d v") (auto simp: change_part_def ChangeValue_def okarg_def changed_def result_at_def Let_def
        split: if_splits)
next
  case kRemove
  then show ?thesis
    using c remove_succeeds [OF n(1), of v] v
    by (cases "RemoveFrom M d v") (auto simp: change_part_def ChangeValue_def okarg_def result_at_def Let_def
        split: if_splits)
qed

lemma change_entry_result:
  assumes i: "okv a b d" "a < b" and v: "okarg mode start limit v"
    and p: "start \<le> prev_start st" "prev_start st < b" "prev_start st < limit" "a < limit"
      "prev_start st \<le> a \<or> prev_start st = start"
    and c: "change_entry M mode start limit v ((a, b), d) st = (ns, st')"
  defines "Q \<equiv> lookup point [((a, b), d)]"
  shows "change_result st' = result_at mode (change_result st) (\<lambda>k. prev_start st \<le> k \<and> k < limit \<and> k < b)
           Q (\<lambda>k. changed mode start limit v k (Q k))"
proof -
  let ?p = "prev_start st" and ?i = "((a, b), d)"
  obtain gap st1 where gap: "(if ?p < a then change_gap M mode start limit v a st else ([], st)) = (gap, st1)"
    by (metis surj_pair)
  then have r1: "change_result st1 = (case mode of kAdd \<Rightarrow> change_result st \<or> ?p < a
                                      | kRemove \<Rightarrow> change_result st \<and> \<not> ?p < a)"
    by (auto simp: change_gap_def Let_def split: if_splits change_mode.splits)
  have "\<exists>lo hi e w st2 n st3. change_part M mode ((lo, hi), e) w st2 = (n, st3) \<and>
      change_result st2 = change_result st1 \<and> change_result st' = change_result st3 \<and>
      okv lo hi e \<and> lo < hi \<and> okarg mode lo hi w \<and>
      (\<forall>k. (lo \<le> k \<and> k < hi) = (?p \<le> k \<and> k < limit \<and> a \<le> k \<and> k < b)) \<and>
      (\<forall>k. lo \<le> k \<and> k < hi \<longrightarrow> point lo hi e k = point a b d k \<and>
           (\<forall>q. changed mode lo hi w k q = changed mode start limit v k q))"
    (is "\<exists>lo hi e w st2 n st3. ?part lo hi e w st2 n st3")
  proof -
    consider "?p \<le> a" "b \<le> limit" "\<not> limit < b"
      | "?p \<le> a" "limit < b" "\<not> b \<le> limit"
      | "a < ?p" "limit < b" "\<not> ?p \<le> a" "\<not> b \<le> limit" "\<not> ?p < a"
      | "a < ?p" "b \<le> limit" "\<not> ?p \<le> a" "\<not> limit < b" "\<not> ?p < a"
      by (meson not_le less_imp_le)
    then show ?thesis
    proof cases
      case 1
      obtain n st3 where n: "change_part M mode ?i (Slice M start limit v a b)
          (drop_part M ?i (st1\<lparr>prev_start := b\<rparr>)) = (n, st3)" by (metis surj_pair)
      obtain st2 where st2: "drop_part M ?i (st1\<lparr>prev_start := b\<rparr>) = st2" by blast
      then have r2: "change_result st2 = change_result st1" by (auto simp: drop_part_def)
      have sa: "start \<le> a" using 1 p by order
      have res: "st' = st3" using c 1 gap n by (auto simp: change_entry_def Let_def cong: if_cong)
      have keys: "\<forall>k. (a \<le> k \<and> k < b) = (?p \<le> k \<and> k < limit \<and> a \<le> k \<and> k < b)"
        using 1 by auto
      have "?part a b d (Slice M start limit v a b) st2 n st3"
        by (intro conjI keys) (use n [unfolded st2] res r2 okarg_slice [OF v sa i(2) 1(2)] i in simp_all)
      then show ?thesis by blast
    next
      case 2
      have sa: "start \<le> a" using 2 p by order
      obtain e where e: "split_off M ?i a limit = ((a, limit), e)" "okv a limit e"
          "\<forall>k. a \<le> k \<and> k < limit \<longrightarrow> point a limit e k = point a b d k"
        using split_off_spec [OF i(1) order_refl p(4) less_imp_le [OF 2(2)]] by blast
      obtain n st3 where n: "change_part M mode ((a, limit), e) (Slice M start limit v a limit)
          (st1\<lparr>prev_start := b\<rparr>) = (n, st3)" by (metis surj_pair)
      obtain st2 where st2: "st1\<lparr>prev_start := b\<rparr> = st2" by blast
      then have r2: "change_result st2 = change_result st1" by auto
      have res: "change_result st' = change_result st3"
        using c 2 gap n e(1) by (auto simp: change_entry_def Let_def drop_part_def keep_part_def cong: if_cong)
      have keys: "\<forall>k. (a \<le> k \<and> k < limit) = (?p \<le> k \<and> k < limit \<and> a \<le> k \<and> k < b)"
        using 2 by auto
      have "?part a limit e (Slice M start limit v a limit) st2 n st3"
        by (intro conjI keys) (use n [unfolded st2] res r2 okarg_slice [OF v sa p(4) order_refl] e p(4) in simp_all)
      then show ?thesis by blast
    next
      case 3
      then have pe: "?p = start" "a < start" "start < limit" using p by auto
      have noval: "gap = []" "st1 = st" using gap 3 by auto
      obtain e where e: "split_off M ?i start limit = ((start, limit), e)" "okv start limit e"
          "\<forall>k. start \<le> k \<and> k < limit \<longrightarrow> point start limit e k = point a b d k"
        using split_off_spec [OF i(1) less_imp_le [OF pe(2)] pe(3) less_imp_le [OF 3(2)]] by blast
      obtain n st3 where n: "change_part M mode ((start, limit), e) v
          (keep_part M (split_off M ?i a start) (st1\<lparr>prev_start := b\<rparr>)) = (n, st3)" by (metis surj_pair)
      obtain st2 where st2: "keep_part M (split_off M ?i a start) (st1\<lparr>prev_start := b\<rparr>) = st2" by blast
      then have r2: "change_result st2 = change_result st1" by (auto simp: keep_part_def)
      have res: "change_result st' = change_result st3"
        using c 3 gap n e(1) noval pe
        by (auto simp: change_entry_def Let_def drop_part_def keep_part_def cong: if_cong)
      have keys: "\<forall>k. (start \<le> k \<and> k < limit) = (?p \<le> k \<and> k < limit \<and> a \<le> k \<and> k < b)"
        using 3 pe by auto
      have "?part start limit e v st2 n st3"
        by (intro conjI keys) (use n [unfolded st2] res r2 v e pe(3) in simp_all)
      then show ?thesis by blast
    next
      case 4
      then have pe: "?p = start" "a < start" "start < b" using p by auto
      have noval: "gap = []" "st1 = st" using gap 4 by auto
      obtain e where e: "split_off M ?i start b = ((start, b), e)" "okv start b e"
          "\<forall>k. start \<le> k \<and> k < b \<longrightarrow> point start b e k = point a b d k"
        using split_off_spec [OF i(1) less_imp_le [OF pe(2)] pe(3) order_refl] by blast
      obtain n st3 where n: "change_part M mode ((start, b), e) (Slice M start limit v start b)
          (keep_part M (split_off M ?i a start) (st1\<lparr>prev_start := b\<rparr>)) = (n, st3)" by (metis surj_pair)
      obtain st2 where st2: "keep_part M (split_off M ?i a start) (st1\<lparr>prev_start := b\<rparr>) = st2" by blast
      then have r2: "change_result st2 = change_result st1" by (auto simp: keep_part_def)
      have res: "change_result st' = change_result st3"
        using c 4 gap n e(1) noval pe
        by (auto simp: change_entry_def Let_def drop_part_def keep_part_def cong: if_cong)
      have keys: "\<forall>k. (start \<le> k \<and> k < b) = (?p \<le> k \<and> k < limit \<and> a \<le> k \<and> k < b)"
        using 4 pe by auto
      have "?part start b e (Slice M start limit v start b) st2 n st3"
        by (intro conjI keys) (use n [unfolded st2] res r2 okarg_slice [OF v order_refl pe(3) 4(2)] e pe(3) in simp_all)
      then show ?thesis by blast
    qed
  qed
  then obtain lo hi e w st2 n st3 where part: "?part lo hi e w st2 n st3" by blast
  then have "change_result st' = result_at mode (change_result st1) (\<lambda>k. lo \<le> k \<and> k < hi)
           (\<lambda>k. Some (point lo hi e k)) (\<lambda>k. changed mode lo hi w k (Some (point lo hi e k)))"
    using change_part_result [of lo hi e mode w st2 n st3] by simp
  also have "\<dots> = result_at mode (change_result st1) (\<lambda>k. ?p \<le> k \<and> k < limit \<and> a \<le> k \<and> k < b)
           (\<lambda>k. Some (point a b d k)) (\<lambda>k. changed mode start limit v k (Some (point a b d k)))"
    using part by (cases mode) (auto simp: result_at_def)
  also have "\<dots> = result_at mode (change_result st) (\<lambda>k. ?p \<le> k \<and> k < limit \<and> k < b)
           Q (\<lambda>k. changed mode start limit v k (Q k))"
  proof (cases "?p < a")
    case True
    have "Q ?p = None" using True by (auto simp: Q_def dest: leD)
    then show ?thesis
      using True p r1 by (cases mode) (auto simp: result_at_def changed_def intro!: exI [of _ ?p])
  next
    case False
    have keys: "(\<lambda>k. ?p \<le> k \<and> k < limit \<and> a \<le> k \<and> k < b) = (\<lambda>k. ?p \<le> k \<and> k < limit \<and> k < b)"
      using False by (intro ext) auto
    have Q: "Some (point a b d k) = Q k" if "?p \<le> k \<and> k < limit \<and> k < b" for k
      using that False by (auto simp: Q_def)
    have "change_result st1 = change_result st" using False r1 by (cases mode) simp_all
    then show ?thesis
      using result_at_cong [OF Q, where F = "changed mode start limit v"] by (simp only: keys)
  qed
  finally show ?thesis .
qed

lemma change_gap_result:
  assumes "change_gap M mode start limit v g st = (ns, st')" "prev_start st < g" "\<forall>k. Q k = None"
  shows "change_result st' = result_at mode (change_result st) (\<lambda>k. prev_start st \<le> k \<and> k < g)
           Q (\<lambda>k. changed mode start limit v k (Q k))"
proof (cases mode)
  case kAdd
  have "changed mode start limit v (prev_start st) (Q (prev_start st)) \<noteq> Q (prev_start st)"
    using assms(3) kAdd by (simp add: changed_def)
  then have "\<exists>k. (prev_start st \<le> k \<and> k < g) \<and> changed mode start limit v k (Q k) \<noteq> Q k"
    using assms(2) by blast
  moreover have "change_result st'" using assms(1) kAdd by (auto simp: change_gap_def Let_def)
  ultimately show ?thesis by (simp add: result_at_def kAdd)
next
  case kRemove
  have "\<not> (\<forall>k. prev_start st \<le> k \<and> k < g \<longrightarrow> Q k \<noteq> None)" using assms(2,3) by blast
  moreover have "\<not> change_result st'" using assms(1) kRemove by (auto simp: change_gap_def)
  ultimately show ?thesis by (simp add: result_at_def kRemove)
qed

text \<open>Two adjacent stretches of keys.\<close>

lemma result_at_join:
  assumes "r1 = result_at mode r (\<lambda>k. p \<le> k \<and> k < limit \<and> k < b) Q N"
    and "r2 = result_at mode r1 (\<lambda>k. b \<le> k \<and> k < limit \<and> k < c) Q N" "p \<le> b" "b \<le> c"
  shows "r2 = result_at mode r (\<lambda>k. p \<le> k \<and> k < limit \<and> k < c) Q N"
proof -
  have "(p \<le> k \<and> k < limit \<and> k < c) = (p \<le> k \<and> k < limit \<and> k < b \<or> b \<le> k \<and> k < limit \<and> k < c)" for k
    using assms(3,4) by (auto intro: order_trans less_le_trans simp: not_less)
  then show ?thesis using assms(1,2) by (cases mode) (auto simp: result_at_def)
qed

lemma change_loop_result:
  assumes "okarg mode start limit v" "loop_pre start limit (prev_start st) es"
    and "change_loop M mode start limit v es st = (ns, st')"
  shows "change_result st' = result_at mode (change_result st)
           (\<lambda>k. prev_start st \<le> k \<and> k < limit \<and> k < prev_start st')
           (lookup point es) (\<lambda>k. changed mode start limit v k (lookup point es k))"
  using assms(2,3)
proof (induction es arbitrary: st ns st')
  case (Cons i es)
  let ?p = "prev_start st" and ?b = "entry_limit i"
  obtain n st1 where n: "change_entry M mode start limit v i st = (n, st1)" by (metis surj_pair)
  obtain ms st2 where ms: "change_loop M mode start limit v es st1 = (ms, st2)" by (metis surj_pair)
  have st': "st' = st2" using Cons.prems(2) by (simp add: n ms)
  note pre = loop_pre_Cons [OF Cons.prems(1)]
  have ok: "okv (entry_start i) ?b (snd i)" "ranges_ok okv (i # es)"
    using Cons.prems(1) by (auto simp: loop_pre_def ranges_ok_Cons)
  have n': "change_entry M mode start limit v ((entry_start i, ?b), snd i) st = (n, st1)" using n by simp
  note E = change_entry_spec(1) [OF ok(1) pre(5) assms(1) pre(6,9,3,4,7) n']
    change_entry_result [OF ok(1) pre(5) assms(1) pre(6,9,3,4,7) n', unfolded prod.collapse]
  have IH: "change_result st2 = result_at mode (change_result st1)
      (\<lambda>k. ?b \<le> k \<and> k < limit \<and> k < prev_start st2)
      (lookup point es) (\<lambda>k. changed mode start limit v k (lookup point es k))"
    using Cons.IH [of st1 ms st2] pre(1) ms by (simp add: E(1))
  have cut: "lookup point ([i] @ es) k = (if k < ?b then lookup point [i] k else lookup point es k)" for k
    using ok(2) by (intro lookup_cut) (auto simp: ranges_ok_Cons)
  have B: "?b \<le> prev_start st2"
    using change_loop_spec [OF assms(1) _ ms] pre(1) by (auto simp: E(1) split: if_splits)
  have R1: "change_result st1 = result_at mode (change_result st) (\<lambda>k. ?p \<le> k \<and> k < limit \<and> k < ?b)
      (lookup point (i # es)) (\<lambda>k. changed mode start limit v k (lookup point (i # es) k))"
    unfolding E(2)
    by (intro result_at_cong [where F = "changed mode start limit v"]) (use cut in \<open>simp del: lookup.simps\<close>)
  have R2: "change_result st2 = result_at mode (change_result st1)
      (\<lambda>k. ?b \<le> k \<and> k < limit \<and> k < prev_start st2)
      (lookup point (i # es)) (\<lambda>k. changed mode start limit v k (lookup point (i # es) k))"
    unfolding IH
    by (intro result_at_cong [where F = "changed mode start limit v"])
      (use cut in \<open>simp add: not_less [symmetric] del: lookup.simps\<close>)
  show ?case
    unfolding st' by (rule result_at_join [OF R1 R2 less_imp_le [OF pre(9)] B])
next
  case Nil
  have keys: "(prev_start st \<le> k \<and> k < limit \<and> k < prev_start st) = False" for k by (meson not_le)
  have "st' = st" using Nil(2) by simp
  then show ?case
    unfolding result_at_def by (cases mode) (simp_all only: keys change_mode.case simp_thms)
qed

section \<open>Adding and removing\<close>

lemma mergeable_split_off:
  "mergeable e (split_off M i (entry_start i) l) = mergeable e i"
  "mergeable (split_off M i s (entry_limit i)) e = mergeable i e"
  by (simp_all add: mergeable_def split_off_def slice_merge)

lemma canonical_left:
  assumes "canonical (pre @ mid @ suf)"
  shows "canonical (pre @ left_part M start mid)"
proof -
  have "canonical pre" "pre \<noteq> [] \<Longrightarrow> mid \<noteq> [] \<Longrightarrow> \<not> mergeable (last pre) (hd mid)"
    using assms by (auto simp: canonical_def successively_append_iff)
  then show ?thesis
    by (auto simp: left_part_def canonical_def successively_append_iff mergeable_split_off)
qed

lemma canonical_right:
  assumes "canonical (pre @ mid @ suf)"
  shows "canonical (right_part M limit mid @ suf)"
proof -
  have "canonical suf" "suf \<noteq> [] \<Longrightarrow> mid \<noteq> [] \<Longrightarrow> \<not> mergeable (last mid) (hd suf)"
    using assms by (auto simp: canonical_def successively_append_iff)
  then show ?thesis
    by (auto simp: right_part_def canonical_def successively_Cons mergeable_split_off)
qed

lemma Change_spec:
  assumes ok: "ranges_ok okv m" and v: "okarg mode start limit v" and lt: "start < limit"
  obtains result m' u' where "Change M start limit v mode post_merge m u = ret (result, m', u')"
    "ranges_ok okv m'"
    "\<And>k. lookup point m' k = (if start \<le> k \<and> k < limit
            then changed mode start limit v k (lookup point m k) else lookup point m k)"
    "post_merge \<Longrightarrow> canonical m \<Longrightarrow> canonical m'"
    "u' = map_option (\<lambda>x. x + RangeMap_Usage M m' - RangeMap_Usage M m) u"
    "result = result_at mode (mode = kRemove) (\<lambda>k. start \<le> k \<and> k < limit) (lookup point m)
       (\<lambda>k. changed mode start limit v k (lookup point m k))"
proof -
  let ?st = "\<lparr>prev_start = start, change_result = (mode = kRemove), change_usage = u\<rparr>"
  obtain pre mid suf n1 st1 n2 st2 where m: "m = pre @ mid @ suf"
    and sp: "range_split start limit pre mid suf"
    and fnd: "Find m start limit = ret (length pre, length pre + length mid)"
    and n1: "change_loop M mode start limit v mid ?st = (n1, st1)"
    and n2: "change_tail M mode start limit v st1 = (n2, st2)"
    and ok1: "ranges_ok okv (pre @ (n1 @ n2) @ suf)"
    and look1: "\<And>k. lookup point (pre @ (n1 @ n2) @ suf) k = (if start \<le> k \<and> k < limit
            then changed mode start limit v k (lookup point m k) else lookup point m k)"
    using change_spec [OF assms, of u] by metis
  let ?m1 = "pre @ (n1 @ n2) @ suf"
  have okmid: "ranges_ok okv mid" using ok by (simp add: m ranges_ok_append)
  then have lp: "loop_pre start limit (prev_start ?st) mid"
    using sp lt by (simp add: loop_pre_def range_split_def)
  note L = change_loop_spec [OF v lp n1]
  have p1: "prev_start st1 = (if mid = [] then start else entry_limit (last mid))" using L by auto
  obtain core where core: "n1 = left_part M start mid @ core @ right_part M limit mid" "within start limit core"
    using change_loop_shape [OF v lp n1] by (auto simp: left_part_def)
  have tail: "within start limit n2 \<and> (right_part M limit mid = [] \<or> n2 = [])"
  proof (cases "prev_start st1 < limit")
    case True
    then have "change_gap M mode start limit v limit st1 = (n2, st2)" using n2 by (simp add: change_tail_def)
    moreover have "start \<le> prev_start st1" using conjunct1 [OF L] by simp
    moreover have "right_part M limit mid = []" using True p1 by (auto simp: right_part_def)
    ultimately show ?thesis by (auto simp: within_def dest: change_gap_keys)
  qed (use n2 in \<open>auto simp: change_tail_def within_def\<close>)
  have u1: "change_usage st2 = map_option (\<lambda>x. x + RangeMap_Usage M ?m1 - RangeMap_Usage M m) u"
    using accounts_loop [of M mid mode start limit v ?st, unfolded n1]
      accounts_tail [of M mode start limit v st1, unfolded n2]
    by (cases u) (simp_all add: accounts_def m)
  have result: "change_result st2 = result_at mode (mode = kRemove) (\<lambda>k. start \<le> k \<and> k < limit)
      (lookup point m) (\<lambda>k. changed mode start limit v k (lookup point m k))"
  proof -
    let ?N = "\<lambda>k q. changed mode start limit v k q" and ?p = "prev_start st1"
    have mid: "lookup point mid k = lookup point m k" if "start \<le> k \<and> k < limit" for k
    proof -
      have "lookup point pre k = None" "lookup point suf k = None"
        using sp that by (auto intro!: lookup_None simp: range_split_def intro: order_trans less_le_trans)
      then show ?thesis by (simp add: m lookup_append split: option.splits)
    qed
    have R1: "change_result st1 = result_at mode (mode = kRemove) (\<lambda>k. start \<le> k \<and> k < limit \<and> k < ?p)
        (lookup point mid) (\<lambda>k. ?N k (lookup point mid k))"
      using change_loop_result [OF v lp n1] by simp
    have "change_result st2 = result_at mode (mode = kRemove) (\<lambda>k. start \<le> k \<and> k < limit)
        (lookup point mid) (\<lambda>k. ?N k (lookup point mid k))"
    proof (cases "?p < limit")
      case True
      then have gap: "change_gap M mode start limit v limit st1 = (n2, st2)" using n2 by (simp add: change_tail_def)
      have none: "None = lookup point mid k" if "?p \<le> k \<and> k < limit" for k
      proof (rule sym, rule lookup_None)
        fix e assume "e \<in> set mid"
        then have "entry_limit e \<le> ?p" using limit_le_last [OF okmid, of e] p1 by (auto split: if_splits)
        then show "k < entry_start e \<or> entry_limit e \<le> k" using that by auto
      qed
      have "change_result st2 = result_at mode (change_result st1) (\<lambda>k. ?p \<le> k \<and> k < limit)
          (\<lambda>_. None) (\<lambda>k. ?N k None)"
        by (rule change_gap_result [OF gap True]) simp
      also have "\<dots> = result_at mode (change_result st1) (\<lambda>k. ?p \<le> k \<and> k < limit)
          (lookup point mid) (\<lambda>k. ?N k (lookup point mid k))"
        by (rule result_at_cong [OF none])
      finally have R2: "change_result st2 = result_at mode (change_result st1)
          (\<lambda>k. ?p \<le> k \<and> k < limit \<and> k < limit) (lookup point mid) (\<lambda>k. ?N k (lookup point mid k))"
        by simp
      from result_at_join [OF R1 R2 conjunct1 [OF L, simplified] less_imp_le [OF True]] show ?thesis by simp
    next
      case False
      then have keys: "(\<lambda>k. start \<le> k \<and> k < limit \<and> k < ?p) = (\<lambda>k. start \<le> k \<and> k < limit)"
        by (intro ext) auto
      have "st2 = st1" using False n2 by (simp add: change_tail_def)
      then show ?thesis using R1 by (simp only: keys)
    qed
    also have "\<dots> = result_at mode (mode = kRemove) (\<lambda>k. start \<le> k \<and> k < limit)
        (lookup point m) (\<lambda>k. ?N k (lookup point m k))"
      by (rule result_at_cong [OF mid])
    finally show ?thesis .
  qed
  let ?L = "left_part M start mid" and ?R = "right_part M limit mid"
  have split1: "?m1 = (pre @ ?L) @ (core @ n2) @ (?R @ suf)"
    using core(1) tail by auto
  have sp1: "range_split start limit (pre @ ?L) (core @ n2) (?R @ suf)"
  proof -
    have "entry_start e < limit \<and> start < entry_limit e" if "e \<in> set (core @ n2)" for e
    proof -
      have "start \<le> entry_start e" "entry_limit e \<le> limit" using core(2) tail that by (auto simp: within_def)
      moreover have "entry_start e < entry_limit e" using ranges_ok_pos [OF ok1, of e] that core(1) by auto
      ultimately have "entry_start e < limit" "start < entry_limit e" by order+
      then show ?thesis ..
    qed
    then show ?thesis
      using sp by (auto simp: range_split_def left_part_def right_part_def split_off_def)
  qed
  show thesis
  proof (cases post_merge)
    case False
    then have "Change M start limit v mode post_merge m u = ret (change_result st2, ?m1, change_usage st2)"
      using lt fnd n1 n2 by (simp add: Change_def Let_def m in_range_def)
    then show thesis using that ok1 look1 u1 result False by blast
  next
    case True
    have ok2: "ranges_ok okv ((pre @ ?L) @ (core @ n2) @ (?R @ suf))"
      using ok1 unfolding split1 .
    note find2 = Find_eq [OF ok2 sp1 lt, folded split1]
    obtain m2 u2 where mrg: "RangeMap_Merge M (length (pre @ ?L), length (pre @ ?L) + length (core @ n2))
        ?m1 (change_usage st2) = (m2, u2)"
      by (metis surj_pair)
    note S = RangeMap_Merge_spec [OF ok2 mrg [unfolded split1], folded split1]
    have "Change M start limit v mode post_merge m u = ret (change_result st2, m2, u2)"
      using True lt fnd n1 n2 find2 mrg by (simp add: Change_def Let_def m in_range_def)
    moreover have "canonical m2" if "canonical m"
    proof -
      have "canonical (pre @ ?L)" "canonical (?R @ suf)"
        using that unfolding m by (rule canonical_left, rule canonical_right)
      then show ?thesis using S by blast
    qed
    moreover have "u2 = map_option (\<lambda>x. x + RangeMap_Usage M m2 - RangeMap_Usage M m) u"
    proof -
      have "u2 = map_option (\<lambda>x. x + RangeMap_Usage M m2 - RangeMap_Usage M ?m1) (change_usage st2)"
        using S by blast
      then show ?thesis unfolding u1 by (cases u) simp_all
    qed
    moreover have "lookup point m2 k = (if start \<le> k \<and> k < limit
        then changed mode start limit v k (lookup point m k) else lookup point m k)" for k
    proof -
      have "lookup point m2 k = lookup point ?m1 k" using S by blast
      then show ?thesis using look1 [of k] by simp
    qed
    moreover have "ranges_ok okv m2" using S by blast
    ultimately show thesis using that [of "change_result st2" m2 u2] result by blast
  qed
qed

end

end
