(* ===== verification/Range_Map_Sets.thy ===== *)
theory Range_Map_Sets
  imports Range_Map_Ops
begin

text \<open>
  Queries and whole-map operations of \<open>RangeMap\<close>: \<open>FindAt\<close>, \<open>Find\<close> and \<open>Covers\<close> read the value
  of each key; adding or removing a map, an intersection or a difference act at each key.
\<close>

section \<open>Queries\<close>

lemma lookup_FindAt:
  assumes ok: "ranges_ok okv m"
  shows "lookup point m k =
    (if FindAt m k = length m then None
     else let e = m ! FindAt m k in Some (point (entry_start e) (entry_limit e) (snd e) k))"
proof (cases rule: FindAt_cases [OF ok, of k, case_names none some])
  case none
  then have "lookup point m k = None" by (intro lookup_None) auto
  then show ?thesis using none by simp
next
  case some
  let ?e = "m ! FindAt m k"
  have "lookup point m k = Some (point (entry_start ?e) (entry_limit ?e) (snd ?e) k)"
    unfolding lookup_Some_iff [OF ok] using some nth_mem by blast
  then show ?thesis using some by (simp add: Let_def)
qed

lemma range_split_filter:
  assumes ok: "ranges_ok okv (pre @ mid @ suf)" and sp: "range_split start limit pre mid suf"
  shows "filter (\<lambda>e. entry_start e < limit \<and> start < entry_limit e) (pre @ mid @ suf) = mid"
  using sp by (auto simp: range_split_def filter_empty_conv not_less filter_id_conv)

lemma Find_entries:
  assumes ok: "ranges_ok okv m" and lt: "start < limit"
  obtains rg where "Find m start limit = ret rg"
    "in_range m rg = filter (\<lambda>e. entry_start e < limit \<and> start < entry_limit e) m"
    "fst rg = snd rg \<longleftrightarrow> in_range m rg = []"
proof -
  obtain pre mid suf where m: "m = pre @ mid @ suf" "range_split start limit pre mid suf"
    using range_split_exists [OF ok lt] by blast
  have ok': "ranges_ok okv (pre @ mid @ suf)" using ok m by simp
  show thesis
    using that [OF _ _ _, of "(length pre, length pre + length mid)"]
      Find_eq [OF ok' m(2) lt] range_split_filter [OF ok' m(2)] m(1) by simp
qed

text \<open>\<open>Find\<close> returns an empty range exactly when no key of \<open>[start, limit)\<close> is in the map.\<close>

lemma overlap_iff:
  assumes ok: "ranges_ok okv m" and lt: "start < limit"
  shows "filter (\<lambda>e. entry_start e < limit \<and> start < entry_limit e) m \<noteq> [] \<longleftrightarrow>
         (\<exists>k. start \<le> k \<and> k < limit \<and> lookup point m k \<noteq> None)"
proof
  assume "filter (\<lambda>e. entry_start e < limit \<and> start < entry_limit e) m \<noteq> []"
  then obtain e where e: "e \<in> set m" "entry_start e < limit" "start < entry_limit e"
    by (auto simp: filter_empty_conv)
  have pos: "entry_start e < entry_limit e" by (rule ranges_ok_pos [OF ok e(1)])
  obtain k where k: "entry_start e \<le> k" "k < entry_limit e" "start \<le> k" "k < limit"
  proof (cases "start \<le> entry_start e")
    case True
    then show thesis using that [OF order_refl pos _ e(2)] by blast
  next
    case False
    then have "entry_start e \<le> start" by order
    then show thesis using that [OF _ e(3) order_refl lt] by blast
  qed
  then have "lookup point m k \<noteq> None"
    using lookup_Some_iff [OF ok, of point k] e(1) by blast
  with k show "\<exists>k. start \<le> k \<and> k < limit \<and> lookup point m k \<noteq> None" by blast
next
  assume "\<exists>k. start \<le> k \<and> k < limit \<and> lookup point m k \<noteq> None"
  then obtain k p where k: "start \<le> k" "k < limit" "lookup point m k = Some p" by blast
  then obtain e where e: "e \<in> set m" "entry_start e \<le> k" "k < entry_limit e"
    using lookup_Some_iff [OF ok, of point k p] by blast
  then have "entry_start e < limit" "start < entry_limit e" using k by order+
  then show "filter (\<lambda>e. entry_start e < limit \<and> start < entry_limit e) m \<noteq> []"
    using e(1) by (auto simp: filter_empty_conv)
qed

subsection \<open>Covers\<close>

fun gapless :: "'k::linorder \<Rightarrow> ('k, 'v) entry list \<Rightarrow> bool" where
  "gapless prev [] = True"
| "gapless prev (e # es) \<longleftrightarrow> entry_start e \<le> prev \<and> gapless (entry_limit e) es"

definition accepting :: "(('k, 'v) entry \<Rightarrow> 's \<Rightarrow> bool \<times> 's) \<Rightarrow> bool" where
  "accepting f \<longleftrightarrow> (\<forall>e s. fst (f e s))"

lemma covers_loop_spec:
  assumes "accepting f"
  shows "covers_loop f es prev r s =
    (r \<and> gapless prev es, if es = [] then prev else entry_limit (last es), fold (\<lambda>e s. snd (f e s)) es s)"
proof (induction es arbitrary: prev r s)
  case (Cons e es)
  have "f e s = (True, snd (f e s))" using assms by (metis accepting_def prod.collapse)
  then show ?case using Cons by (auto simp: Let_def not_less split: prod.splits)
qed simp

lemma gapless_lookup:
  assumes "gapless prev es" "es \<noteq> []" "prev \<le> k" "k < entry_limit (last es)"
  shows "lookup point es k \<noteq> None"
  using assms
proof (induction es arbitrary: prev)
  case (Cons e es)
  show ?case
  proof (cases "k < entry_limit e")
    case True
    moreover have "entry_start e \<le> prev" using Cons.prems(1) by simp
    then have "entry_start e \<le> k" using Cons.prems(3) by order
    ultimately show ?thesis by simp
  next
    case False
    then have "es \<noteq> []" "entry_limit e \<le> k" using Cons.prems(4) by auto
    then show ?thesis using Cons.IH [of "entry_limit e"] Cons.prems False by simp
  qed
qed simp

lemma covers_iff:
  assumes ok: "ranges_ok okv es" and es: "\<forall>e \<in> set es. entry_start e < limit \<and> prev < entry_limit e"
    and ne: "es \<noteq> []"
  shows "gapless prev es \<and> \<not> entry_limit (last es) < limit \<longleftrightarrow>
         (\<forall>k. prev \<le> k \<and> k < limit \<longrightarrow> lookup point es k \<noteq> None)"
proof (intro iffI)
  assume g: "gapless prev es \<and> \<not> entry_limit (last es) < limit"
  show "\<forall>k. prev \<le> k \<and> k < limit \<longrightarrow> lookup point es k \<noteq> None"
  proof (intro allI impI)
    fix k assume k: "prev \<le> k \<and> k < limit"
    then have "k < entry_limit (last es)" using g by auto
    then show "lookup point es k \<noteq> None" using gapless_lookup [of prev es k point] ne g k by blast
  qed
next
  assume all: "\<forall>k. prev \<le> k \<and> k < limit \<longrightarrow> lookup point es k \<noteq> None"
  show "gapless prev es \<and> \<not> entry_limit (last es) < limit"
    using ok es ne all
  proof (induction es arbitrary: prev)
    case (Cons e es)
    have e: "entry_start e < limit" "prev < entry_limit e" "entry_start e < entry_limit e"
      and es: "ranges_ok okv es" "\<forall>f \<in> set es. entry_limit e \<le> entry_start f"
      using Cons.prems(1,2) by (simp_all add: ranges_ok_Cons)
    have start: "entry_start e \<le> prev"
    proof (rule ccontr)
      assume "\<not> entry_start e \<le> prev"
      then have p: "prev < entry_start e" by order
      then have "prev < limit" using e(1) by order
      moreover have "lookup point (e # es) prev = None"
      proof (rule lookup_None)
        fix f assume "f \<in> set (e # es)"
        then have "entry_start e \<le> entry_start f"
          using es(2) e(3) by (auto dest: less_imp_le intro: order_trans)
        then show "prev < entry_start f \<or> entry_limit f \<le> prev" using p by auto
      qed
      ultimately show False using Cons.prems(4) by (metis order_refl)
    qed
    show ?case
    proof (cases "es = []")
      case True
      have "\<not> entry_limit e < limit"
      proof
        assume lt: "entry_limit e < limit"
        have "lookup point (e # es) (entry_limit e) = None" using True by simp
        moreover have "prev \<le> entry_limit e" using e(2) by order
        ultimately show False using Cons.prems(4) lt by metis
      qed
      then show ?thesis using start True by simp
    next
      case False
      have "\<forall>f \<in> set es. entry_start f < limit \<and> entry_limit e < entry_limit f"
      proof
        fix f assume f: "f \<in> set es"
        then have "entry_limit e \<le> entry_start f" "entry_start f < entry_limit f" "entry_start f < limit"
          using es ranges_ok_pos [OF es(1) f] Cons.prems(2) by auto
        then have "entry_limit e < entry_limit f" by order
        then show "entry_start f < limit \<and> entry_limit e < entry_limit f" using \<open>entry_start f < limit\<close> by simp
      qed
      moreover have "lookup point es k \<noteq> None" if "entry_limit e \<le> k \<and> k < limit" for k
      proof -
        have "entry_limit e \<le> k" using that ..
        then have "prev \<le> k" using e(2) by order
        then have "lookup point (e # es) k \<noteq> None" using Cons.prems(4) that by blast
        then show ?thesis using that by (simp split: if_splits)
      qed
      ultimately show ?thesis using Cons.IH [OF es(1) _ False] start False by auto
    qed
  qed simp
qed

text \<open>
  \<open>Covers\<close> with an accumulator that accepts everything: whether every key is in the map, and the
  state after all the overlapping elements in order.
\<close>

lemma Covers_spec:
  assumes ok: "ranges_ok okv m" and lt: "start < limit" and f: "accepting f"
  shows "Covers m start limit f s =
    ret ((\<forall>k. start \<le> k \<and> k < limit \<longrightarrow> lookup point m k \<noteq> None),
         fold (\<lambda>e s. snd (f e s)) (filter (\<lambda>e. entry_start e < limit \<and> start < entry_limit e) m) s)"
proof -
  obtain pre mid suf where m: "m = pre @ mid @ suf" and sp: "range_split start limit pre mid suf"
    using range_split_exists [OF ok lt] by blast
  have ok': "ranges_ok okv (pre @ mid @ suf)" "ranges_ok okv mid" using ok m by (simp_all add: ranges_ok_append)
  have fnd: "Find m start limit = ret (length pre, length pre + length mid)"
    using Find_eq [OF ok'(1) sp lt] m by simp
  have flt: "filter (\<lambda>e. entry_start e < limit \<and> start < entry_limit e) m = mid"
    using range_split_filter [OF ok'(1) sp] m by simp
  have look: "lookup point m k = lookup point mid k" if "start \<le> k \<and> k < limit" for k
  proof -
    have "lookup point pre k = None" "lookup point suf k = None"
      using sp that by (auto intro!: lookup_None simp: range_split_def intro: order_trans less_le_trans)
    then show ?thesis by (simp add: m lookup_append split: option.splits)
  qed
  show ?thesis
  proof (cases "mid = []")
    case True
    have "\<not> (\<forall>k. start \<le> k \<and> k < limit \<longrightarrow> lookup point m k \<noteq> None)"
      using look [of start] lt True by auto
    then show ?thesis
      unfolding Covers_def fnd flt using True less_imp_neq [OF lt] by auto
  next
    case False
    have "(\<forall>k. start \<le> k \<and> k < limit \<longrightarrow> lookup point m k \<noteq> None) \<longleftrightarrow>
          gapless start mid \<and> \<not> entry_limit (last mid) < limit"
      using covers_iff [OF ok'(2) _ False, of limit start point] sp look by (auto simp: range_split_def)
    then show ?thesis
      unfolding Covers_def fnd flt using False
      by (simp add: m covers_loop_spec [OF f] in_range_append)
  qed
qed

section \<open>Whole maps\<close>

context range_methods
begin

text \<open>
  What an operation that changes the map establishes: the new map is well formed, has value
  \<open>f k\<close> at key \<open>k\<close>, is canonical if the old one was, and \<open>usage\<close> grew by what the map grew.
\<close>

definition updates ::
    "('k, 'v) range_map \<Rightarrow> int option \<Rightarrow> ('k \<Rightarrow> 'p option) \<Rightarrow> ('k, 'v) range_map \<times> int option \<Rightarrow> bool" where
  "updates m u f = (\<lambda>(m', u'). ranges_ok okv m' \<and> (\<forall>k. lookup point m' k = f k) \<and>
     (canonical m \<longrightarrow> canonical m') \<and>
     u' = map_option (\<lambda>x. x + RangeMap_Usage M m' - RangeMap_Usage M m) u)"

lemma updates_refl: "ranges_ok okv m \<Longrightarrow> (\<And>k. f k = lookup point m k) \<Longrightarrow> updates m u f (m, u)"
  by (simp add: updates_def option.map_ident)

lemma updates_trans:
  assumes "updates m u f (m1, u1)" "updates m1 u1 g y"
  shows "updates m u g y"
  using assms by (cases u; cases y) (auto simp: updates_def)

lemma updates_cong: "updates m u f x \<Longrightarrow> (\<And>k. f k = g k) \<Longrightarrow> updates m u g x"
  by (simp add: updates_def)

lemma Change_returns:
  assumes "ranges_ok okv m" "okarg mode start limit v" "start < limit"
  shows "returns (\<lambda>(result, x). updates m u (\<lambda>k. if start \<le> k \<and> k < limit
              then changed mode start limit v k (lookup point m k) else lookup point m k) x \<and>
            (result \<longleftrightarrow> result_at mode (mode = kRemove) (\<lambda>k. start \<le> k \<and> k < limit) (lookup point m)
               (\<lambda>k. changed mode start limit v k (lookup point m k))))
         (Change M start limit v mode True m u)"
proof (rule Change_spec [OF assms, of True u])
  fix result m' u'
  assume "Change M start limit v mode True m u = ret (result, m', u')"
    "ranges_ok okv m'"
    "\<And>k. lookup point m' k = (if start \<le> k \<and> k < limit
            then changed mode start limit v k (lookup point m k) else lookup point m k)"
    "True \<Longrightarrow> canonical m \<Longrightarrow> canonical m'"
    "u' = map_option (\<lambda>x. x + RangeMap_Usage M m' - RangeMap_Usage M m) u"
    "result = result_at mode (mode = kRemove) (\<lambda>k. start \<le> k \<and> k < limit) (lookup point m)
       (\<lambda>k. changed mode start limit v k (lookup point m k))"
  then show ?thesis by (simp only: returns_ret split updates_def simp_thms) blast
qed

text \<open>\<open>Add\<close> at one key: \<open>q\<close> is the value there, \<open>a\<close> the one that is added, if any.\<close>

definition addopt :: "'p option \<Rightarrow> 'p option \<Rightarrow> 'p option" where
  "addopt q a = (case a of None \<Rightarrow> q | Some a \<Rightarrow> (case q of None \<Rightarrow> Some a | Some p \<Rightarrow> padd p a))"

lemma changed_add: "changed kAdd s l v k q = addopt q (Some (point s l v k))"
  by (simp add: changed_def addopt_def)

lemma addopt_None [simp]: "addopt q None = q"
  by (simp add: addopt_def)

text \<open>A loop of additions of disjoint ranges.\<close>

lemma add_then:
  assumes m: "ranges_ok okv m" and v: "okv s l v" "s < l"
    and f: "\<And>k. s \<le> k \<and> k < l \<Longrightarrow> g k = None"
    and rest: "\<And>m' u'. ranges_ok okv m' \<Longrightarrow>
       returns (\<lambda>z. P z \<and> updates m' u' (\<lambda>k. addopt (lookup point m' k) (g k)) (proj z)) (rest m' u')"
  shows "returns (\<lambda>z. P z \<and> updates m u (\<lambda>k. addopt (lookup point m k)
             (if s \<le> k \<and> k < l then Some (point s l v k) else g k)) (proj z))
           (rbind (Change M s l v kAdd True m u) (\<lambda>(_, m, u). rest m u))"
proof -
  have "okarg kAdd s l v" using v by (simp add: okarg_def)
  from Change_returns [OF m this v(2), of u] obtain r m1 u1 where
      c: "Change M s l v kAdd True m u = ret (r, m1, u1)"
        "updates m u (\<lambda>k. if s \<le> k \<and> k < l then changed kAdd s l v k (lookup point m k) else lookup point m k) (m1, u1)"
    by (auto elim!: returnsE)
  have m1: "ranges_ok okv m1" "\<And>k. lookup point m1 k =
      (if s \<le> k \<and> k < l then changed kAdd s l v k (lookup point m k) else lookup point m k)"
    using c(2) by (simp_all add: updates_def)
  have "returns (\<lambda>z. P z \<and> updates m1 u1 (\<lambda>k. addopt (lookup point m k)
             (if s \<le> k \<and> k < l then Some (point s l v k) else g k)) (proj z)) (rest m1 u1)"
    by (rule returns_mono [OF rest [OF m1(1)]], erule conjE, rule conjI, assumption, erule updates_cong)
      (simp add: m1(2) changed_add f)
  then show ?thesis
    using c(1) by (auto elim!: returns_mono intro: updates_trans [OF c(2)])
qed

text \<open>The addition is left out when the operation found nothing to add.\<close>

lemma add_unless_then:
  assumes m: "ranges_ok okv m" and v: "b \<Longrightarrow> okv s l v" "b \<Longrightarrow> s < l"
    and f: "\<And>k. b \<Longrightarrow> s \<le> k \<and> k < l \<Longrightarrow> g k = None"
    and h: "\<And>k. h k = (if b \<and> s \<le> k \<and> k < l then Some (point s l v k) else g k)"
    and rest: "\<And>m' u'. ranges_ok okv m' \<Longrightarrow>
       returns (\<lambda>z. P z \<and> updates m' u' (\<lambda>k. addopt (lookup point m' k) (g k)) (proj z)) (rest m' u')"
  shows "returns (\<lambda>z. P z \<and> updates m u (\<lambda>k. addopt (lookup point m k) (h k)) (proj z))
           (rbind (if b then Change M s l v kAdd True m u else ret (False, m, u)) (\<lambda>(_, m, u). rest m u))"
proof (cases b)
  case True
  then show ?thesis
    using add_then [OF m v(1,2) f rest, OF True True True] by (simp add: h)
next
  case False
  then show ?thesis using rest [OF m] by (simp add: h)
qed

text \<open>\<open>AddRangeMap\<close> and \<open>RemoveRangeMap\<close>\<close>

lemma ChangeRangeMap_add:
  assumes "ranges_ok okv x" "ranges_ok okv m"
  shows "returns (\<lambda>(result, y). updates m u (\<lambda>k. addopt (lookup point m k) (lookup point x k)) y)
           (ChangeRangeMap M kAdd True x r m u)"
  using assms
proof (induction x arbitrary: r m u)
  case (Cons i x)
  have i: "okarg kAdd (entry_start i) (entry_limit i) (snd i)" "entry_start i < entry_limit i"
    and x: "ranges_ok okv x" "\<forall>f \<in> set x. entry_limit i \<le> entry_start f"
    using Cons.prems(1) by (simp_all add: ranges_ok_Cons okarg_def)
  from Change_returns [OF Cons.prems(2) i, of u] obtain r1 m1 u1 where
      c: "Change M (entry_start i) (entry_limit i) (snd i) kAdd True m u = ret (r1, m1, u1)"
        "updates m u (\<lambda>k. if entry_start i \<le> k \<and> k < entry_limit i
           then changed kAdd (entry_start i) (entry_limit i) (snd i) k (lookup point m k)
           else lookup point m k) (m1, u1)"
    by (auto elim!: returnsE)
  have m1: "ranges_ok okv m1" using c(2) by (simp add: updates_def)
  have look: "addopt (lookup point m1 k) (lookup point x k) = addopt (lookup point m k) (lookup point (i # x) k)" for k
  proof (cases "entry_start i \<le> k \<and> k < entry_limit i")
    case True
    then have "lookup point x k = None" using x(2) by (intro lookup_None) fastforce
    then show ?thesis using True c(2) by (simp add: updates_def changed_add)
  next
    case False
    then show ?thesis using c(2) by (simp add: updates_def del: lookup.simps) (simp add: False)
  qed
  have "returns (\<lambda>(result, y). updates m u (\<lambda>k. addopt (lookup point m k) (lookup point (i # x) k)) y)
      (ChangeRangeMap M kAdd True x r' m1 u1)" for r'
    using Cons.IH [OF x(1) m1, of u1 r'] unfolding look
    by (rule returns_mono) (auto intro: updates_trans [OF c(2)])
  then show ?case using c(1) by simp
qed (simp add: updates_refl)

end

text \<open>What \<open>MakeIntersection\<close> and \<open>MakeDifference\<close> must promise on top.\<close>

locale range_methods_sets = range_methods M okv point okr rpoint padd prem
  for M :: "('k::linorder, 'v) methods" and okv and point :: "'k \<Rightarrow> 'k \<Rightarrow> 'v \<Rightarrow> 'k \<Rightarrow> 'p"
    and okr and rpoint :: "'k \<Rightarrow> 'k \<Rightarrow> 'v \<Rightarrow> 'k \<Rightarrow> 'q" and padd prem +
  fixes pinter pdiff :: "'p \<Rightarrow> 'p \<Rightarrow> 'p option"
  assumes intersection: "okv s l a \<Longrightarrow> okv s l b \<Longrightarrow> s < l \<Longrightarrow> MakeIntersection M a b = (d, e) \<Longrightarrow>
      (\<not> e \<longrightarrow> okv s l d) \<and> (\<forall>k. s \<le> k \<and> k < l \<longrightarrow>
         pinter (point s l a k) (point s l b k) = (if e then None else Some (point s l d k)))"
    and difference: "okv s l a \<Longrightarrow> okv s l b \<Longrightarrow> s < l \<Longrightarrow> MakeDifference M a b = (d, e) \<Longrightarrow>
      (\<not> e \<longrightarrow> okv s l d) \<and> (\<forall>k. s \<le> k \<and> k < l \<longrightarrow>
         pdiff (point s l a k) (point s l b k) = (if e then None else Some (point s l d k)))"
begin

text \<open>The intersection and the difference of two values of one key.\<close>

definition interopt :: "'p option \<Rightarrow> 'p option \<Rightarrow> 'p option" where
  "interopt a b = (case a of None \<Rightarrow> None | Some a \<Rightarrow> (case b of None \<Rightarrow> None | Some b \<Rightarrow> pinter a b))"

definition diffopt :: "'p option \<Rightarrow> 'p option \<Rightarrow> 'p option" where
  "diffopt a b = (case a of None \<Rightarrow> None | Some a \<Rightarrow> (case b of None \<Rightarrow> Some a | Some b \<Rightarrow> pdiff a b))"

text \<open>A range with one value, as a map.\<close>

definition on_range :: "'k \<Rightarrow> 'k \<Rightarrow> 'v \<Rightarrow> 'k \<Rightarrow> 'p option" where
  "on_range start limit v k = (if start \<le> k \<and> k < limit then Some (point start limit v k) else None)"

lemma clip:
  fixes start :: 'k
  assumes "a < limit" "start < b" "start < limit" "a < b"
  defines "s \<equiv> (if start < a then a else start)" and "l \<equiv> (if b < limit then b else limit)"
  shows "a \<le> s" "start \<le> s" "s < l" "l \<le> b" "l \<le> limit"
    and "s \<le> k \<and> k < l \<longleftrightarrow> a \<le> k \<and> k < b \<and> start \<le> k \<and> k < limit"
  using assms by (auto simp: s_def l_def not_less)

lemma lookup_Cons_cases:
  assumes "ranges_ok okv (i # es)"
  shows "entry_start i \<le> k \<and> k < entry_limit i \<Longrightarrow>
      lookup point (i # es) k = Some (point (entry_start i) (entry_limit i) (snd i) k)"
    and "k < entry_limit i \<Longrightarrow> lookup point es k = None"
    and "\<not> (entry_start i \<le> k \<and> k < entry_limit i) \<Longrightarrow> lookup point (i # es) k = lookup point es k"
proof -
  assume k: "k < entry_limit i"
  have "\<forall>f \<in> set es. entry_limit i \<le> entry_start f" using assms by (simp add: ranges_ok_Cons)
  then show "lookup point es k = None" using k by (intro lookup_None) fastforce
next
  assume "\<not> (entry_start i \<le> k \<and> k < entry_limit i)"
  then show "lookup point (i # es) k = lookup point es k" by (simp only: lookup.simps if_False)
qed simp

lemma intersect_loop_returns:
  assumes y: "okv start limit y" "start < limit"
  shows "ranges_ok okv es \<Longrightarrow> \<forall>e \<in> set es. entry_start e < limit \<and> start < entry_limit e \<Longrightarrow>
    ranges_ok okv m \<Longrightarrow>
    returns (\<lambda>z. True \<and> updates m u (\<lambda>k. addopt (lookup point m k)
                 (interopt (lookup point es k) (on_range start limit y k))) z)
      (intersect_loop M start limit y True es m u)"
proof (induction es arbitrary: m u)
  case (Cons i es)
  let ?a = "entry_start i" and ?b = "entry_limit i"
  let ?s = "if start < ?a then ?a else start" and ?l = "if ?b < limit then ?b else limit"
  have i: "?a < limit" "start < ?b" "?a < ?b" "okv ?a ?b (snd i)"
    and es: "ranges_ok okv es" "\<forall>e \<in> set es. entry_start e < limit \<and> start < entry_limit e"
    using Cons.prems by (simp_all add: ranges_ok_Cons)
  note C = clip [OF i(1,2) y(2) i(3)]
  obtain d e where d: "MakeIntersection M (Slice M ?a ?b (snd i) ?s ?l) (Slice M start limit y ?s ?l) = (d, e)"
    by (metis surj_pair)
  note sl = slice [OF i(4) C(1,3,4)] slice [OF y(1) C(2,3,5)]
  have I: "(\<not> e \<longrightarrow> okv ?s ?l d)" "\<And>k. ?s \<le> k \<and> k < ?l \<Longrightarrow>
      pinter (point ?a ?b (snd i) k) (point start limit y k) = (if e then None else Some (point ?s ?l d k))"
    using intersection [OF conjunct1 [OF sl(1)] conjunct1 [OF sl(2)] C(3) d] sl by metis+
  let ?g = "\<lambda>k. interopt (lookup point es k) (on_range start limit y k)"
  have none: "?g k = None" if "?s \<le> k \<and> k < ?l" for k
  proof -
    have "k < ?b" using that C(6) [of k] by blast
    then show ?thesis using lookup_Cons_cases(2) [OF Cons.prems(1)] by (simp add: interopt_def)
  qed
  have h: "interopt (lookup point (i # es) k) (on_range start limit y k) =
      (if \<not> e \<and> ?s \<le> k \<and> k < ?l then Some (point ?s ?l d k) else ?g k)" for k
  proof (cases "?s \<le> k \<and> k < ?l")
    case True
    then have "?a \<le> k \<and> k < ?b" "start \<le> k \<and> k < limit" using C(6) [of k] by blast+
    then have "interopt (lookup point (i # es) k) (on_range start limit y k) =
        pinter (point ?a ?b (snd i) k) (point start limit y k)"
      unfolding lookup_Cons_cases(1) [OF Cons.prems(1) \<open>?a \<le> k \<and> k < ?b\<close>]
      by (simp add: interopt_def on_range_def)
    then show ?thesis using True none [OF True] I(2) [OF True] by (simp only: simp_thms if_True if_False) (simp split: if_splits)
  next
    case False
    show ?thesis
    proof (cases "?a \<le> k \<and> k < ?b")
      case True
      then have "\<not> (start \<le> k \<and> k < limit)" using False C(6) [of k] by blast
      then have "on_range start limit y k = None" unfolding on_range_def by (rule if_not_P)
      then have "interopt q (on_range start limit y k) = None" for q
        by (simp add: interopt_def split: option.splits)
      then show ?thesis using False by (simp only: simp_thms if_False)
    next
      case out: False
      have "lookup point (i # es) k = lookup point es k" by (rule lookup_Cons_cases(3) [OF Cons.prems(1) out])
      then show ?thesis using False by (simp only: simp_thms if_False if_not_P [OF False])
    qed
  qed
  show ?case
    using add_unless_then [where b = "\<not> e" and proj = "\<lambda>z. z" and P = "\<lambda>_. True",
        OF Cons.prems(3) _ C(3) none h Cons.IH [OF es]] I(1)
    by (simp add: d Let_def)
qed (simp add: updates_refl interopt_def)

lemma AddIntersectionOfRange_returns:
  assumes "ranges_ok okv x" "ranges_ok okv m" "okv start limit y" "start < limit"
  shows "returns (updates m u (\<lambda>k. addopt (lookup point m k)
             (interopt (lookup point x k) (on_range start limit y k))))
           (AddIntersectionOfRange M x start limit y m u)"
proof -
  let ?f = "filter (\<lambda>e. entry_start e < limit \<and> start < entry_limit e) x"
  obtain rg where rg: "Find x start limit = ret rg" "in_range x rg = ?f"
    using Find_entries [OF assms(1,4)] by blast
  have f: "ranges_ok okv ?f" using assms(1) by (auto simp: ranges_ok_def sorted_wrt_filter)
  have "lookup point x k = lookup point ?f k" if "start \<le> k \<and> k < limit" for k
  proof -
    have "lookup point m k = lookup point (filter (\<lambda>e. entry_start e < limit \<and> start < entry_limit e) m) k" for m :: "('k, 'v) range_map"
      using that by (induction m) auto
    then show ?thesis .
  qed
  then have look: "interopt (lookup point ?f k) (on_range start limit y k) =
      interopt (lookup point x k) (on_range start limit y k)" for k
    by (cases "start \<le> k \<and> k < limit") (auto simp: on_range_def interopt_def split: option.splits)
  show ?thesis
    using intersect_loop_returns [OF assms(3,4) f _ assms(2), of u] rg
    by (simp add: AddIntersectionOfRange_def look)
qed

lemma AddIntersectionOf_returns:
  assumes "ranges_ok okv x"
  shows "ranges_ok okv y \<Longrightarrow> ranges_ok okv m \<Longrightarrow>
    returns (updates m u (\<lambda>k. addopt (lookup point m k) (interopt (lookup point x k) (lookup point y k))))
      (AddIntersectionOf M x y m u)"
proof (induction y arbitrary: m u)
  case (Cons i y)
  let ?on = "on_range (entry_start i) (entry_limit i) (snd i)"
  have i: "okv (entry_start i) (entry_limit i) (snd i)" "entry_start i < entry_limit i" "ranges_ok okv y"
    using Cons.prems(1) by (simp_all add: ranges_ok_Cons)
  from AddIntersectionOfRange_returns [OF assms Cons.prems(2) i(1,2), of u] obtain m1 u1 where
      c: "AddIntersectionOfRange M x (entry_start i) (entry_limit i) (snd i) m u = ret (m1, u1)"
        "updates m u (\<lambda>k. addopt (lookup point m k) (interopt (lookup point x k) (?on k))) (m1, u1)"
    by (auto elim!: returnsE)
  have m1: "ranges_ok okv m1" "\<And>k. lookup point m1 k =
      addopt (lookup point m k) (interopt (lookup point x k) (?on k))"
    using c(2) by (simp_all add: updates_def)
  have none: "interopt q None = None" for q
    by (simp add: interopt_def split: option.splits)
  have "addopt (lookup point m1 k) (interopt (lookup point x k) (lookup point y k)) =
      addopt (lookup point m k) (interopt (lookup point x k) (lookup point (i # y) k))" for k
  proof (cases "entry_start i \<le> k \<and> k < entry_limit i")
    case True
    then have "lookup point y k = None" using lookup_Cons_cases(2) [OF Cons.prems(1)] by blast
    moreover have "?on k = lookup point (i # y) k"
      unfolding lookup_Cons_cases(1) [OF Cons.prems(1) True] on_range_def using True by (rule if_P)
    ultimately show ?thesis by (simp only: m1(2) none addopt_None)
  next
    case False
    have "?on k = None" unfolding on_range_def using False by (rule if_not_P)
    then show ?thesis
      by (simp only: m1(2) lookup_Cons_cases(3) [OF Cons.prems(1) False] none addopt_None)
  qed
  then have "returns (updates m1 u1 (\<lambda>k. addopt (lookup point m k)
      (interopt (lookup point x k) (lookup point (i # y) k)))) (AddIntersectionOf M x y m1 u1)"
    using Cons.IH [OF i(3) m1(1), of u1] by (simp only:)
  then show ?case
    using c(1) by (auto elim!: returns_mono intro: updates_trans [OF c(2)] simp del: lookup.simps)
qed (simp add: updates_refl interopt_def split: option.splits)

text \<open>
  The loop of \<open>AddDifferenceOf\<close> has settled the keys up to \<open>prev\<close>; what is left behind the last
  overlapping element is added after it.
\<close>

definition loop_end :: "('k, 'v) range_map \<Rightarrow> 'k \<Rightarrow> 'k" where
  "loop_end es prev = (if es = [] then prev else entry_limit (last es))"

lemma diffopt_None: "diffopt None q = None" "diffopt q None = q"
  by (simp_all add: diffopt_def split: option.splits)

lemma difference_step:
  assumes x: "okv start limit x" "start < limit"
    and ok: "ranges_ok okv (i # es)" and ov: "entry_start i < limit" "start < entry_limit i"
    and prev: "start \<le> prev" "prev \<le> entry_start i \<or> prev = start"
    and s: "s = (if start < entry_start i then entry_start i else start)"
    and l: "l = (if entry_limit i < limit then entry_limit i else limit)"
    and d: "MakeDifference M (Slice M start limit x s l)
              (Slice M (entry_start i) (entry_limit i) (snd i) s l) = (d, e)"
    and g: "g = (\<lambda>k. if entry_limit i \<le> k \<and> k < loop_end es (entry_limit i)
                     then diffopt (on_range start limit x k) (lookup point es k) else None)"
    and gap: "g1 = (\<lambda>k. if prev < entry_start i \<and> prev \<le> k \<and> k < entry_start i
         then Some (point prev (entry_start i) (Slice M start limit x prev (entry_start i)) k) else g k)"
  shows "s < l" "\<not> e \<Longrightarrow> okv s l d"
    and "prev < entry_start i \<Longrightarrow> okv prev (entry_start i) (Slice M start limit x prev (entry_start i))"
    and "s \<le> k \<and> k < l \<Longrightarrow> g1 k = None"
    and "k < entry_start i \<Longrightarrow> g k = None"
    and "(if prev \<le> k \<and> k < loop_end (i # es) prev
          then diffopt (on_range start limit x k) (lookup point (i # es) k) else None) =
         (if \<not> e \<and> s \<le> k \<and> k < l then Some (point s l d k) else g1 k)"
proof -
  let ?a = "entry_start i" and ?b = "entry_limit i"
  have i: "okv ?a ?b (snd i)" "?a < ?b" and es: "\<forall>f \<in> set es. ?b \<le> entry_start f" "ranges_ok okv es"
    using ok by (simp_all add: ranges_ok_Cons)
  note C = clip [OF ov x(2) i(2), folded s l]
  note sl = slice [OF i(1) C(1,3,4)] slice [OF x(1) C(2,3,5)]
  have D: "(\<not> e \<longrightarrow> okv s l d)" "\<And>k. s \<le> k \<and> k < l \<Longrightarrow>
      pdiff (point start limit x k) (point ?a ?b (snd i) k) = (if e then None else Some (point s l d k))"
    using difference [OF conjunct1 [OF sl(2)] conjunct1 [OF sl(1)] C(3) d] sl by metis+
  have gp: "okv prev ?a (Slice M start limit x prev ?a) \<and>
      (\<forall>k. prev \<le> k \<and> k < ?a \<longrightarrow> point prev ?a (Slice M start limit x prev ?a) k = point start limit x k)"
    if "prev < ?a"
    using slice [OF x(1) prev(1) that less_imp_le [OF ov(1)]] .
  show "s < l" by (rule C(3))
  show "\<not> e \<Longrightarrow> okv s l d" using D(1) by blast
  show "prev < ?a \<Longrightarrow> okv prev ?a (Slice M start limit x prev ?a)" using gp by blast
  show "g k = None" if "k < ?a"
  proof -
    have "\<not> ?b \<le> k" using that i(2) by order
    then show ?thesis by (simp add: g)
  qed
  have g1_None: "g1 k = None" if "?a \<le> k" "k < ?b" for k
  proof -
    have "\<not> ?b \<le> k" "\<not> k < ?a" using that by order+
    then show ?thesis by (simp add: gap g)
  qed
  show "s \<le> k \<and> k < l \<Longrightarrow> g1 k = None" using C(6) [of k] g1_None by blast
  have pb: "prev < ?b" using prev(2) ov i(2) by (meson le_less_trans)
  have ends: "?b \<le> loop_end (i # es) prev" "k < loop_end (i # es) prev \<longleftrightarrow> k < ?b \<or> k < loop_end es ?b" for k
  proof -
    show "?b \<le> loop_end (i # es) prev" using limit_le_last [OF ok, of i] by (simp add: loop_end_def)
    then show "k < loop_end (i # es) prev \<longleftrightarrow> k < ?b \<or> k < loop_end es ?b"
      by (auto simp: loop_end_def)
  qed
  have on: "on_range start limit x k = Some (point start limit x k)" if "start \<le> k" "k < limit" for k
    using that by (simp add: on_range_def)
  consider (part) "s \<le> k \<and> k < l" | (high) "?b \<le> k" | (low) "k < prev" "\<not> ?b \<le> k" "\<not> (s \<le> k \<and> k < l)"
    | (hole) "prev \<le> k" "k < ?a" | (beyond) "prev \<le> k" "?a \<le> k" "k < ?b" "\<not> (s \<le> k \<and> k < l)"
    by fastforce
  then show "(if prev \<le> k \<and> k < loop_end (i # es) prev
          then diffopt (on_range start limit x k) (lookup point (i # es) k) else None) =
         (if \<not> e \<and> s \<le> k \<and> k < l then Some (point s l d k) else g1 k)"
  proof cases
    case part
    then have k: "?a \<le> k \<and> k < ?b" "start \<le> k" "k < limit" using C(6) [of k] by blast+
    have "prev \<le> k" using prev(2) k by (meson order_trans)
    moreover have "k < loop_end (i # es) prev" using ends k by blast
    moreover have "diffopt (on_range start limit x k) (lookup point (i # es) k) =
        (if e then None else Some (point s l d k))"
      unfolding lookup_Cons_cases(1) [OF ok k(1)] on [OF k(2,3)] using D(2) [OF part]
      by (simp add: diffopt_def)
    moreover have "g1 k = None" using g1_None k(1) by blast
    ultimately show ?thesis using part by (simp del: lookup.simps)
  next
    case high
    then have "lookup point (i # es) k = lookup point es k"
      by (intro lookup_Cons_cases(3) [OF ok]) (simp add: not_less)
    moreover have "\<not> k < l" "\<not> k < ?a" "prev \<le> k" using high C(4) i(2) pb by order+
    ultimately show ?thesis using high
      by (simp only: simp_thms if_True if_False gap g ends not_less [symmetric])
  next
    case low
    then have "\<not> (prev \<le> k)" by order
    then show ?thesis using low by (simp only: gap g simp_thms if_False if_cancel)
  next
    case hole
    have lt: "prev < ?a" using hole by order
    have k: "start \<le> k" "k < limit" "\<not> s \<le> k" "k < ?b" using hole prev(1) ov(1) C(1) i(2) by order+
    have "lookup point (i # es) k = None"
      using lookup_Cons_cases(2) [OF ok k(4)] hole by (simp add: not_le)
    moreover have "g1 k = Some (point start limit x k)"
      using gp [OF lt] hole lt by (simp add: gap)
    moreover have "k < loop_end (i # es) prev" using ends k by blast
    ultimately show ?thesis using hole k by (simp add: on diffopt_None)
  next
    case beyond
    then have "\<not> (start \<le> k \<and> k < limit)" using C(6) [of k] by blast
    then have "on_range start limit x k = None" unfolding on_range_def by (rule if_not_P)
    then show ?thesis using g1_None [OF beyond(2,3)] beyond(4)
      by (simp only: diffopt_None simp_thms if_False if_cancel)
  qed
qed

lemma difference_loop_returns:
  assumes x: "okv start limit x" "start < limit"
  shows "ranges_ok okv es \<Longrightarrow> \<forall>e \<in> set es. entry_start e < limit \<and> start < entry_limit e \<Longrightarrow>
    start \<le> prev \<Longrightarrow> prev = start \<or> (\<forall>e \<in> set es. prev \<le> entry_start e) \<Longrightarrow>
    ranges_ok okv m \<Longrightarrow>
    returns (\<lambda>z. fst z = loop_end es prev \<and> updates m u (\<lambda>k. addopt (lookup point m k)
                 (if prev \<le> k \<and> k < loop_end es prev
                  then diffopt (on_range start limit x k) (lookup point es k) else None)) (snd z))
      (difference_loop M start limit x True es prev m u)"
proof (induction es arbitrary: prev m u)
  case Nil
  have "(if prev \<le> k \<and> k < prev then diffopt (on_range start limit x k) (lookup point [] k) else None) = None"
    for k by (simp only: lookup.simps diffopt_None(2)) (metis not_less)
  then show ?case using Nil by (simp add: updates_refl loop_end_def del: lookup.simps)
next
  case (Cons i es)
  let ?a = "entry_start i" and ?b = "entry_limit i"
  obtain s l where s: "s = (if start < ?a then ?a else start)" and l: "l = (if ?b < limit then ?b else limit)"
    by blast
  obtain d e where d: "MakeDifference M (Slice M start limit x s l) (Slice M ?a ?b (snd i) s l) = (d, e)"
    by (metis surj_pair)
  obtain g where g: "g = (\<lambda>k. if ?b \<le> k \<and> k < loop_end es ?b
      then diffopt (on_range start limit x k) (lookup point es k) else None)" by blast
  obtain g1 where g1: "g1 = (\<lambda>k. if prev < ?a \<and> prev \<le> k \<and> k < ?a
      then Some (point prev ?a (Slice M start limit x prev ?a) k) else g k)" by blast
  have ov: "?a < limit" "start < ?b" and es: "ranges_ok okv es"
      "\<forall>e \<in> set es. entry_start e < limit \<and> start < entry_limit e" "\<forall>e \<in> set es. ?b \<le> entry_start e"
    using Cons.prems by (simp_all add: ranges_ok_Cons)
  have prev: "prev \<le> ?a \<or> prev = start" using Cons.prems(4) by auto
  note S = difference_step [OF x Cons.prems(1) ov Cons.prems(3) prev s l d g g1]
  let ?P = "\<lambda>z. fst z = loop_end (i # es) prev"
  have rest: "returns (\<lambda>z. ?P z \<and> updates m' u' (\<lambda>k. addopt (lookup point m' k) (g k)) (snd z))
      (difference_loop M start limit x True es ?b m' u')" if "ranges_ok okv m'" for m' u'
  proof -
    have "loop_end (i # es) prev = loop_end es ?b" by (simp add: loop_end_def)
    then show ?thesis
      using Cons.IH [OF es(1,2) less_imp_le [OF ov(2)] _ that, of u'] es(3) by (simp add: g)
  qed
  have mid: "returns (\<lambda>z. ?P z \<and> updates m' u' (\<lambda>k. addopt (lookup point m' k) (g1 k)) (snd z))
      (rbind (if prev < ?a then Change M prev ?a (Slice M start limit x prev ?a) kAdd True m' u'
              else ret (False, m', u'))
        (\<lambda>(_, m, u). difference_loop M start limit x True es ?b m u))" if "ranges_ok okv m'" for m' u'
    by (rule add_unless_then [where g = g, OF that S(3) _ _ _ rest]) (use S(5) in \<open>simp_all add: g1\<close>)
  have "returns (\<lambda>z. ?P z \<and> updates m u (\<lambda>k. addopt (lookup point m k)
       (if prev \<le> k \<and> k < loop_end (i # es) prev
        then diffopt (on_range start limit x k) (lookup point (i # es) k) else None)) (snd z))
      (rbind (if \<not> e then Change M s l d kAdd True m u else ret (False, m, u)) (\<lambda>(_, m, u).
         rbind (if prev < ?a then Change M prev ?a (Slice M start limit x prev ?a) kAdd True m u
                else ret (False, m, u))
           (\<lambda>(_, m, u). difference_loop M start limit x True es ?b m u)))"
    by (rule add_unless_then [where g = g1, OF Cons.prems(5) S(2) S(1) S(4) S(6) mid])
  then show ?case by (simp only: difference_loop.simps Let_def d split s [symmetric] l [symmetric])
qed

lemma AddDifferenceOfRange_returns:
  assumes "okv start limit x" "start < limit" "ranges_ok okv y" "ranges_ok okv m"
  shows "returns (updates m u (\<lambda>k. addopt (lookup point m k)
             (diffopt (on_range start limit x k) (lookup point y k))))
           (AddDifferenceOfRange M start limit x y m u)"
proof -
  let ?f = "filter (\<lambda>e. entry_start e < limit \<and> start < entry_limit e) y"
  let ?e = "loop_end ?f start"
  obtain rg where rg: "Find y start limit = ret rg" "in_range y rg = ?f"
    using Find_entries [OF assms(3,2)] by blast
  have f: "ranges_ok okv ?f" using assms(3) by (auto simp: ranges_ok_def sorted_wrt_filter)
  have "lookup point (filter (\<lambda>e. entry_start e < limit \<and> start < entry_limit e) y) k = lookup point y k"
    if "start \<le> k \<and> k < limit" for k and y :: "('k, 'v) range_map"
    using that by (induction y) auto
  then have look: "diffopt (on_range start limit x k) (lookup point ?f k) =
      diffopt (on_range start limit x k) (lookup point y k)" for k
    by (cases "start \<le> k \<and> k < limit") (auto simp: on_range_def diffopt_None)
  from difference_loop_returns [OF assms(1,2) f _ order_refl _ assms(4), of u]
  obtain m1 u1 where c: "difference_loop M start limit x True ?f start m u = ret (?e, m1, u1)"
      "updates m u (\<lambda>k. addopt (lookup point m k)
         (if start \<le> k \<and> k < ?e then diffopt (on_range start limit x k) (lookup point y k) else None)) (m1, u1)"
    unfolding look by (fastforce elim!: returnsE)
  have m1: "ranges_ok okv m1" "\<And>k. lookup point m1 k = addopt (lookup point m k)
      (if start \<le> k \<and> k < ?e then diffopt (on_range start limit x k) (lookup point y k) else None)"
    using c(2) by (simp_all add: updates_def)
  have e: "start \<le> ?e"
  proof (cases "?f = []")
    case False
    then have "last ?f \<in> set ?f" by (rule last_in_set)
    then show ?thesis using False by (simp add: loop_end_def less_imp_le)
  qed (simp add: loop_end_def)
  have off: "on_range start limit x k = None" if "\<not> (start \<le> k \<and> k < limit)" for k
    unfolding on_range_def using that by (rule if_not_P)
  have D: "AddDifferenceOfRange M start limit x y m u =
      (if ?e < limit
       then rbind (Change M ?e limit (Slice M start limit x ?e limit) kAdd True m1 u1)
              (\<lambda>(_, m, u). ret (m, u))
       else ret (m1, u1))"
    by (simp add: AddDifferenceOfRange_def rg c(1))
  show ?thesis
  proof (cases "?e < limit")
    case True
    have sl: "okv ?e limit (Slice M start limit x ?e limit)"
        "\<And>k. ?e \<le> k \<and> k < limit \<Longrightarrow> point ?e limit (Slice M start limit x ?e limit) k = point start limit x k"
      using slice [OF assms(1) e True order_refl] by blast+
    have none: "lookup point y k = None" if k: "?e \<le> k \<and> k < limit" for k
    proof -
      have "lookup point ?f k = None"
      proof (cases "?f = []")
        case False
        then have "entry_limit (last ?f) \<le> k" using k by (simp add: loop_end_def)
        then show ?thesis using limit_le_last [OF f] by (intro lookup_None) (meson order_trans)
      qed simp
      moreover have "start \<le> k \<and> k < limit" using k e by (meson order_trans)
      ultimately show ?thesis by (induction y) (auto split: if_splits)
    qed
    have "returns (\<lambda>z. True \<and> updates m1 u1 (\<lambda>k. addopt (lookup point m1 k)
          (if ?e \<le> k \<and> k < limit then Some (point ?e limit (Slice M start limit x ?e limit) k) else None)) z)
        (rbind (Change M ?e limit (Slice M start limit x ?e limit) kAdd True m1 u1) (\<lambda>(_, m, u). ret (m, u)))"
      by (rule add_then [OF m1(1) sl(1) True refl]) (simp add: updates_refl)
    moreover have "addopt (lookup point m1 k)
          (if ?e \<le> k \<and> k < limit then Some (point ?e limit (Slice M start limit x ?e limit) k) else None) =
        addopt (lookup point m k) (diffopt (on_range start limit x k) (lookup point y k))" for k
    proof (cases "?e \<le> k")
      case True
      then have "start \<le> k" "\<not> k < ?e" using e by order+
      then show ?thesis
        using True sl(2) [of k] none [of k] by (simp add: m1(2) on_range_def diffopt_None)
    next
      case False
      have "(if start \<le> k \<and> k < ?e then diffopt (on_range start limit x k) (lookup point y k) else None) =
          diffopt (on_range start limit x k) (lookup point y k)"
        using off [of k] False by (cases "start \<le> k") (simp_all add: diffopt_None)
      then show ?thesis using False by (simp only: m1(2) simp_thms if_False addopt_None)
    qed
    ultimately show ?thesis
      unfolding D if_P [OF True] by (auto elim!: returns_mono intro: updates_trans [OF c(2)])
  next
    case False
    have "(if start \<le> k \<and> k < ?e then diffopt (on_range start limit x k) (lookup point y k) else None) =
        diffopt (on_range start limit x k) (lookup point y k)"
      for k
    proof (cases "start \<le> k \<and> k < ?e")
      case outside: False
      have "\<not> (start \<le> k \<and> k < limit)" using outside False by (meson less_le_trans not_less)
      then show ?thesis using outside by (simp only: off diffopt_None simp_thms if_False if_cancel)
    qed simp
    then show ?thesis unfolding D if_not_P [OF False] using c(2) by (simp only: returns_ret)
  qed
qed

lemma AddDifferenceOf_returns:
  assumes "ranges_ok okv y"
  shows "ranges_ok okv x \<Longrightarrow> ranges_ok okv m \<Longrightarrow>
    returns (updates m u (\<lambda>k. addopt (lookup point m k) (diffopt (lookup point x k) (lookup point y k))))
      (AddDifferenceOf M x y m u)"
proof (induction x arbitrary: m u)
  case (Cons i x)
  let ?on = "on_range (entry_start i) (entry_limit i) (snd i)"
  have i: "okv (entry_start i) (entry_limit i) (snd i)" "entry_start i < entry_limit i" "ranges_ok okv x"
    using Cons.prems(1) by (simp_all add: ranges_ok_Cons)
  from AddDifferenceOfRange_returns [OF i(1,2) assms Cons.prems(2), of u] obtain m1 u1 where
      c: "AddDifferenceOfRange M (entry_start i) (entry_limit i) (snd i) y m u = ret (m1, u1)"
        "updates m u (\<lambda>k. addopt (lookup point m k) (diffopt (?on k) (lookup point y k))) (m1, u1)"
    by (auto elim!: returnsE)
  have m1: "ranges_ok okv m1" "\<And>k. lookup point m1 k =
      addopt (lookup point m k) (diffopt (?on k) (lookup point y k))"
    using c(2) by (simp_all add: updates_def)
  have "addopt (lookup point m1 k) (diffopt (lookup point x k) (lookup point y k)) =
      addopt (lookup point m k) (diffopt (lookup point (i # x) k) (lookup point y k))" for k
  proof (cases "entry_start i \<le> k \<and> k < entry_limit i")
    case True
    then have "lookup point x k = None" using lookup_Cons_cases(2) [OF Cons.prems(1)] by blast
    moreover have "?on k = lookup point (i # x) k"
      unfolding lookup_Cons_cases(1) [OF Cons.prems(1) True] on_range_def using True by (rule if_P)
    ultimately show ?thesis by (simp only: m1(2) diffopt_None addopt_None)
  next
    case False
    have "?on k = None" unfolding on_range_def using False by (rule if_not_P)
    then show ?thesis
      by (simp only: m1(2) lookup_Cons_cases(3) [OF Cons.prems(1) False] diffopt_None addopt_None)
  qed
  then have "returns (updates m1 u1 (\<lambda>k. addopt (lookup point m k)
      (diffopt (lookup point (i # x) k) (lookup point y k)))) (AddDifferenceOf M x y m1 u1)"
    using Cons.IH [OF i(3) m1(1), of u1] by (simp only:)
  then show ?case
    using c(1) by (auto elim!: returns_mono intro: updates_trans [OF c(2)] simp del: lookup.simps)
qed (simp add: updates_refl diffopt_None)

end

end
