(* ===== verification/Range_Map_Equality.thy ===== *)
theory Range_Map_Equality
  imports Range_Map_Sets
begin

text \<open>
  The representation of a \<open>RangeMap\<close> is unique: two canonical maps that give every key the same value
  are the same list of elements, so \<open>operator==\<close> of the maps decides equality of what they hold.
\<close>

locale range_methods_ext = range_methods M okv point okr rpoint padd prem
  for M :: "('k::linorder, 'v) methods" and okv and point :: "'k \<Rightarrow> 'k \<Rightarrow> 'v \<Rightarrow> 'k \<Rightarrow> 'p"
    and okr and rpoint :: "'k \<Rightarrow> 'k \<Rightarrow> 'v \<Rightarrow> 'k \<Rightarrow> 'q" and padd prem +
  assumes point_ext: "okv s l a \<Longrightarrow> okv s l b \<Longrightarrow> s < l \<Longrightarrow>
      (\<And>k. s \<le> k \<Longrightarrow> k < l \<Longrightarrow> point s l a k = point s l b k) \<Longrightarrow> a = b"
    and merge_self: "okv s l v \<Longrightarrow> CanMerge M v v"
begin

lemma lookup_first:
  assumes "ranges_ok okv (e # m)" "entry_start e \<le> k" "k < entry_limit e"
  shows "lookup point (e # m) k = Some (point (entry_start e) (entry_limit e) (snd e) k)"
  using assms by simp

lemma lookup_before_first:
  assumes "ranges_ok okv (e # m)" "k < entry_start e"
  shows "lookup point (e # m) k = None"
proof (rule lookup_None)
  fix f assume f: "f \<in> set (e # m)"
  have "entry_start e < entry_limit e" "\<forall>f \<in> set m. entry_limit e \<le> entry_start f"
    using assms(1) by (simp_all add: ranges_ok_Cons)
  then have "entry_start e \<le> entry_start f" using f by (auto intro: order_trans less_imp_le)
  then have "k < entry_start f" using assms(2) by order
  then show "k < entry_start f \<or> entry_limit f \<le> k" ..
qed

lemma lookup_gap_after_first:
  assumes "ranges_ok okv (e # m)" "lookup point (e # m) (entry_limit e) \<noteq> None"
  obtains f fs where "m = f # fs" "entry_start f = entry_limit e"
proof -
  have "lookup point m (entry_limit e) \<noteq> None" using assms(2) by (simp split: if_splits)
  moreover have "ranges_ok okv m" "\<forall>f \<in> set m. entry_limit e \<le> entry_start f"
    using assms(1) by (simp_all add: ranges_ok_Cons)
  ultimately obtain f fs where f: "m = f # fs" "\<not> entry_limit e < entry_start f"
    using lookup_before_first by (cases m) force+
  then have "entry_start f = entry_limit e"
    using \<open>\<forall>f \<in> set m. entry_limit e \<le> entry_start f\<close> by (simp add: order.antisym)
  with f(1) show thesis by (rule that)
qed

lemma first_limit_not_less:
  assumes ok: "ranges_ok okv (e # m)" "ranges_ok okv (e' # m')" and can: "canonical (e # m)"
    and eq: "\<And>k. lookup point (e # m) k = lookup point (e' # m') k"
    and start: "entry_start e = entry_start e'"
  shows "\<not> entry_limit e < entry_limit e'"
proof
  assume lt: "entry_limit e < entry_limit e'"
  let ?s = "entry_start e" and ?c = "entry_limit e" and ?l = "entry_limit e'"
  have okv: "okv ?s ?c (snd e)" "okv ?s ?l (snd e')" "?s < ?c"
    using ok start by (simp_all add: ranges_ok_Cons)
  have at_e': "lookup point (e # m) k = Some (point ?s ?l (snd e') k)" if "?s \<le> k" "k < ?l" for k
    using lookup_first [OF ok(2), of k] that eq [of k] start by (simp del: lookup.simps)
  have "lookup point (e # m) ?c \<noteq> None"
    using at_e' [OF less_imp_le [OF okv(3)] lt] by (simp del: lookup.simps)
  from lookup_gap_after_first [OF ok(1) this]
  obtain f fs where f: "m = f # fs" "entry_start f = ?c" .
  have okf: "okv ?c (entry_limit f) (snd f)" "?c < entry_limit f"
    using ok(1) f by (simp_all add: ranges_ok_Cons)
  let ?d = "min (entry_limit f) ?l"
  have d: "?c < ?d" using okf lt by simp
  have first: "snd e = Slice M ?s ?l (snd e') ?s ?c"
  proof (rule point_ext [OF okv(1) _ okv(3)])
    note sl = slice [OF okv(2) order_refl okv(3) less_imp_le [OF lt]]
    then show "okv ?s ?c (Slice M ?s ?l (snd e') ?s ?c)" by blast
    fix k assume k: "?s \<le> k" "k < ?c"
    then have "Some (point ?s ?c (snd e) k) = Some (point ?s ?l (snd e') k)"
      using at_e' [of k] lookup_first [OF ok(1)] lt by (metis order.strict_trans)
    then show "point ?s ?c (snd e) k = point ?s ?c (Slice M ?s ?l (snd e') ?s ?c) k" using sl k by simp
  qed
  have second: "Slice M ?c (entry_limit f) (snd f) ?c ?d = Slice M ?s ?l (snd e') ?c ?d"
  proof (rule point_ext [OF _ _ d])
    have sf: "okv ?c ?d (Slice M ?c (entry_limit f) (snd f) ?c ?d)"
      "\<forall>k. ?c \<le> k \<and> k < ?d \<longrightarrow> point ?c ?d (Slice M ?c (entry_limit f) (snd f) ?c ?d) k = point ?c (entry_limit f) (snd f) k"
      using slice [OF okf(1) order_refl d] by simp_all
    have se: "okv ?c ?d (Slice M ?s ?l (snd e') ?c ?d)"
      "\<forall>k. ?c \<le> k \<and> k < ?d \<longrightarrow> point ?c ?d (Slice M ?s ?l (snd e') ?c ?d) k = point ?s ?l (snd e') k"
      using slice [OF okv(2) less_imp_le [OF okv(3)] d] by simp_all
    show "okv ?c ?d (Slice M ?c (entry_limit f) (snd f) ?c ?d)" "okv ?c ?d (Slice M ?s ?l (snd e') ?c ?d)"
      by (fact sf(1) se(1))+
    fix k assume k: "?c \<le> k" "k < ?d"
    have "lookup point (f # fs) k = Some (point ?c (entry_limit f) (snd f) k)" "\<not> k < ?c"
      using k f by (simp_all add: not_less)
    moreover have "lookup point (e # m) k = lookup point (f # fs) k"
      using f \<open>\<not> k < ?c\<close> by (simp only: lookup.simps simp_thms if_False)
    moreover have "lookup point (e # m) k = Some (point ?s ?l (snd e') k)"
      using k okv(3) by (intro at_e') (auto intro: order_trans less_imp_le)
    ultimately show "point ?c ?d (Slice M ?c (entry_limit f) (snd f) ?c ?d) k =
        point ?c ?d (Slice M ?s ?l (snd e') ?c ?d) k"
      using sf(2) se(2) k by simp
  qed
  have "CanMerge M (snd e) (snd f) = CanMerge M (snd e') (snd f)"
    unfolding first by (rule slice_merge)
  also have "\<dots> = CanMerge M (snd e') (Slice M ?c (entry_limit f) (snd f) ?c ?d)"
    by (rule slice_merge(1) [symmetric])
  also have "\<dots> = CanMerge M (snd e') (snd e')" unfolding second by (rule slice_merge)
  finally have "CanMerge M (snd e) (snd f)" using merge_self [OF okv(2)] by simp
  then show False using can f by (simp add: canonical_def mergeable_def)
qed

theorem canonical_ext:
  assumes "ranges_ok okv m" "ranges_ok okv m'" "canonical m" "canonical m'"
    and "\<And>k. lookup point m k = lookup point m' k"
  shows "m = m'"
  using assms
proof (induction m arbitrary: m')
  case Nil
  show ?case
  proof (cases m')
    case (Cons e' es)
    then have "entry_start e' < entry_limit e'" using Nil.prems(2) by (simp add: ranges_ok_Cons)
    then show ?thesis using Nil.prems(5) [of "entry_start e'"] Cons by simp
  qed simp
next
  case (Cons e m)
  have pos: "entry_start e < entry_limit e" using Cons.prems(1) by (simp add: ranges_ok_Cons)
  obtain e' es where m': "m' = e' # es"
    using Cons.prems(5) [of "entry_start e"] pos by (cases m') auto
  have pos': "entry_start e' < entry_limit e'" using Cons.prems(2) m' by (simp add: ranges_ok_Cons)
  have eq: "lookup point (e # m) k = lookup point (e' # es) k" for k using Cons.prems(5) m' by simp
  have ok: "ranges_ok okv (e # m)" "ranges_ok okv (e' # es)" using Cons.prems(1,2) m' by simp_all
  have "\<not> entry_start e < entry_start e'"
    using lookup_before_first [OF ok(2), of "entry_start e"] lookup_first [OF ok(1) order_refl pos]
      eq [of "entry_start e"] by (auto simp del: lookup.simps)
  moreover have "\<not> entry_start e' < entry_start e"
    using lookup_before_first [OF ok(1), of "entry_start e'"] lookup_first [OF ok(2) order_refl pos']
      eq [of "entry_start e'"] by (auto simp del: lookup.simps)
  ultimately have start: "entry_start e = entry_start e'" by order
  have "\<not> entry_limit e < entry_limit e'"
    using first_limit_not_less [OF ok _ eq start] Cons.prems(3) by simp
  moreover have "\<not> entry_limit e' < entry_limit e"
    using first_limit_not_less [OF ok(2,1) _ eq [symmetric] start [symmetric]] Cons.prems(4) m' by simp
  ultimately have limit: "entry_limit e = entry_limit e'" by order
  have "snd e = snd e'"
  proof (rule point_ext [OF _ _ pos])
    show "okv (entry_start e) (entry_limit e) (snd e)" "okv (entry_start e) (entry_limit e) (snd e')"
      using ok start limit by (simp_all add: ranges_ok_Cons)
    fix k assume "entry_start e \<le> k" "k < entry_limit e"
    then show "point (entry_start e) (entry_limit e) (snd e) k = point (entry_start e) (entry_limit e) (snd e') k"
      using lookup_first [OF ok(1), of k] lookup_first [OF ok(2), of k] eq [of k] start limit by simp
  qed
  then have e: "e = e'" using start limit by (metis prod.collapse)
  have tail: "lookup point m k = lookup point es k" for k
  proof (cases "entry_start e \<le> k \<and> k < entry_limit e")
    case True
    have "lookup point m k = None" "lookup point es k = None"
      using ok True e by (auto intro!: lookup_None simp: ranges_ok_Cons)
    then show ?thesis by simp
  next
    case False
    then show ?thesis using eq [of k] e by (simp only: lookup.simps if_False)
  qed
  have "ranges_ok okv m" "ranges_ok okv es" using ok by (simp_all add: ranges_ok_Cons)
  moreover have "canonical m" "canonical es"
    using Cons.prems(3,4) m' by (cases m; cases es; simp add: canonical_def)+
  ultimately show ?case using Cons.IH [OF _ _ _ _ tail] m' e by blast
qed

end

end
