(* ===== verification/Mapped_Memory_Map.thy ===== *)
theory Mapped_Memory_Map
  imports Memory_Mapping Range_Map_Equality
begin

text \<open>
  \<open>MappedMemoryMap\<close> of \<open>common/mapped_memory_map.h\<close> and \<open>.cc\<close>: a \<open>RangeMap\<close> from addresses to
  permissions. \<open>DCHECK\<close> is modelled as in a debug build. A member function that only reads takes the
  map, one that changes it gives the new map.
\<close>

section \<open>MemoryPermsMethods\<close>

definition perms_methods :: "(address, memory_perms) methods" where
  "perms_methods = \<lparr>
     UsageOf = (\<lambda>_ _ _. 24),
     Slice = (\<lambda>start limit v s l. v),
     AddTo = (\<lambda>dest v. (\<not> MemoryPerms_HasAllOf dest v, MemoryPerms_Add v dest, False)),
     RemoveFrom = (\<lambda>dest v. let dest = MemoryPerms_Clear v dest in (True, dest, MemoryPerms_IsEmpty dest)),
     CanMerge = (\<lambda>v1 v2. v1 = v2),
     MergeInto = (\<lambda>dest v. dest),
     MakeIntersection = (\<lambda>v1 v2. let dest = MemoryPerms_Intersect v2 v1 in (dest, MemoryPerms_IsEmpty dest)),
     MakeDifference = (\<lambda>v1 v2. if v1 = v2 then (MemoryPerms_None, True) else (MemoryPerms_Clear v2 v1, False))\<rparr>"

type_synonym mapped_map = "(address, memory_perms) range_map"

section \<open>Operations\<close>

definition MappedMemoryMap_empty :: mapped_map where
  "MappedMemoryMap_empty = []"

definition MappedMemoryMap_Copy :: "mapped_map \<Rightarrow> mapped_map" where
  "MappedMemoryMap_Copy m = m"

definition MappedMemoryMap_IsEmpty :: "mapped_map \<Rightarrow> bool" where
  "MappedMemoryMap_IsEmpty m \<longleftrightarrow> m = []"

definition MappedMemoryMap_Clear :: "mapped_map \<Rightarrow> mapped_map" where
  "MappedMemoryMap_Clear m = fst (RangeMap_clear perms_methods m None)"

definition MappedMemoryMap_size :: "mapped_map \<Rightarrow> nat" where
  "MappedMemoryMap_size m = length m"

definition MappedMemoryMap_eq :: "mapped_map \<Rightarrow> mapped_map \<Rightarrow> bool" where
  "MappedMemoryMap_eq x y \<longleftrightarrow> x = y"

definition MappedMemoryMap_Overlaps :: "address \<Rightarrow> address \<Rightarrow> mapped_map \<Rightarrow> bool res" where
  "MappedMemoryMap_Overlaps start_address limit_address m =
     rbind (Find m start_address limit_address) (\<lambda>rg. ret (fst rg \<noteq> snd rg))"

definition MappedMemoryMap_Add :: "address \<Rightarrow> address \<Rightarrow> memory_perms \<Rightarrow> mapped_map \<Rightarrow> mapped_map res" where
  "MappedMemoryMap_Add start_address limit_address perms m =
     rbind (check (\<not> MemoryPerms_IsEmpty perms) ''!perms.IsEmpty()'') (\<lambda>_.
     rbind (RangeMap_Add perms_methods start_address limit_address perms m None) (\<lambda>(_, m, _). ret m))"

definition MappedMemoryMap_AddMap :: "mapped_map \<Rightarrow> mapped_map \<Rightarrow> mapped_map res" where
  "MappedMemoryMap_AddMap y m = rbind (AddRangeMap perms_methods y m None) (\<lambda>(_, m, _). ret m)"

definition MappedMemoryMap_AddNew :: "address \<Rightarrow> address \<Rightarrow> memory_perms \<Rightarrow> mapped_map \<Rightarrow> mapped_map res" where
  "MappedMemoryMap_AddNew start_address limit_address perms m =
     rbind (MappedMemoryMap_Overlaps start_address limit_address m) (\<lambda>overlaps.
     rbind (check (\<not> overlaps) ''!Overlaps(start_address, limit_address)'') (\<lambda>_.
     MappedMemoryMap_Add start_address limit_address perms m))"

definition MappedMemoryMap_Remove :: "address \<Rightarrow> address \<Rightarrow> memory_perms \<Rightarrow> mapped_map \<Rightarrow> mapped_map res" where
  "MappedMemoryMap_Remove start_address limit_address perms m =
     rbind (RangeMap_Remove perms_methods start_address limit_address perms m None) (\<lambda>(_, m, _). ret m)"

definition MappedMemoryMap_Set :: "address \<Rightarrow> address \<Rightarrow> memory_perms \<Rightarrow> mapped_map \<Rightarrow> mapped_map res" where
  "MappedMemoryMap_Set start_address limit_address perms m =
     rbind (check (\<not> MemoryPerms_IsEmpty perms) ''!perms.IsEmpty()'') (\<lambda>_.
     rbind (MappedMemoryMap_Remove start_address limit_address MemoryPerms_AllPlusMapped m) (\<lambda>m.
     rbind (RangeMap_Add perms_methods start_address limit_address perms m None) (\<lambda>(_, m, _). ret m)))"

text \<open>\<open>RemoveRangesOf\<close>: the inner loop, one round of the outer one over \<open>(r, rep_)\<close>, and the loop.\<close>

definition remove_each :: "memory_perms \<Rightarrow> (address, memory_perms) entry list \<Rightarrow> mapped_map \<Rightarrow> mapped_map res" where
  "remove_each perms is m = for_each (\<lambda>i. MappedMemoryMap_Remove (entry_start i) (entry_limit i) perms) is m"

definition remove_ranges_round ::
    "mapped_map \<Rightarrow> memory_perms \<Rightarrow> nat \<times> mapped_map \<Rightarrow> (mapped_map, nat \<times> mapped_map) iter res" where
  "remove_ranges_round y perms = (\<lambda>(r, m).
     if r = length m then ret (Break m)
     else rbind (Find y (entry_start (m ! r)) (entry_limit (m ! r))) (\<lambda>iter_range.
          let r_limit = entry_limit (m ! r) in
          rbind (remove_each perms (in_range y iter_range) m) (\<lambda>m.
          ret (Continue (LowerBound m r_limit, m)))))"

definition MappedMemoryMap_RemoveRangesOf :: "mapped_map \<Rightarrow> memory_perms \<Rightarrow> mapped_map \<Rightarrow> mapped_map res" where
  "MappedMemoryMap_RemoveRangesOf y perms m = rloop (remove_ranges_round y perms) (0, m)"

definition MappedMemoryMap_AddIntersectionOf :: "mapped_map \<Rightarrow> mapped_map \<Rightarrow> mapped_map \<Rightarrow> mapped_map res" where
  "MappedMemoryMap_AddIntersectionOf x y m =
     rbind (AddIntersectionOf perms_methods x y m None) (\<lambda>(m, _). ret m)"

definition MappedMemoryMap_AddDifferenceOfRange ::
    "address \<Rightarrow> address \<Rightarrow> memory_perms \<Rightarrow> mapped_map \<Rightarrow> mapped_map \<Rightarrow> mapped_map res" where
  "MappedMemoryMap_AddDifferenceOfRange start_address limit_address perms y m =
     rbind (AddDifferenceOfRange perms_methods start_address limit_address perms y m None) (\<lambda>(m, _). ret m)"

definition MappedMemoryMap_AddDifferenceOf :: "mapped_map \<Rightarrow> mapped_map \<Rightarrow> mapped_map \<Rightarrow> mapped_map res" where
  "MappedMemoryMap_AddDifferenceOf x y m =
     rbind (AddDifferenceOf perms_methods x y m None) (\<lambda>(m, _). ret m)"

section \<open>Queries\<close>

definition MappedMemoryMap_ContainsAt :: "address \<Rightarrow> mapped_map \<Rightarrow> bool" where
  "MappedMemoryMap_ContainsAt a m \<longleftrightarrow> FindAt m a \<noteq> length m"

definition MappedMemoryMap_PermsAt :: "address \<Rightarrow> mapped_map \<Rightarrow> memory_perms" where
  "MappedMemoryMap_PermsAt a m =
     (let it = FindAt m a in if it \<noteq> length m then snd (m ! it) else MemoryPerms_None)"

definition MappedMemoryMap_MappingAt :: "address \<Rightarrow> mapped_map \<Rightarrow> memory_mapping option res" where
  "MappedMemoryMap_MappingAt a m =
     (let it = FindAt m a in
      if it \<noteq> length m
      then let perms = MemoryPerms_ClearPermission kMapped (snd (m ! it)) in
           rbind (MakeRanged (entry_start (m ! it)) (entry_limit (m ! it)) perms) (\<lambda>x. ret (Some x))
      else ret None)"

definition MappedMemoryMap_Contains :: "address \<Rightarrow> address \<Rightarrow> mapped_map \<Rightarrow> bool res" where
  "MappedMemoryMap_Contains start_address limit_address m =
     rbind (Covers m start_address limit_address (\<lambda>i s. (True, s)) ()) (\<lambda>(covers, _). ret covers)"

definition MappedMemoryMap_Perms :: "address \<Rightarrow> address \<Rightarrow> join_mode \<Rightarrow> mapped_map \<Rightarrow> memory_perms res" where
  "MappedMemoryMap_Perms start_address limit_address mode m =
     rbind (check (start_address \<le> limit_address) ''start_address <= limit_address'') (\<lambda>_.
     if limit_address \<le> start_address then ret MemoryPerms_None
     else let r = (if mode = kOr then MemoryPerms_None else MemoryPerms_AllPlusMapped) in
          rbind (Covers m start_address limit_address (\<lambda>i r. (True, MemoryPerms_Join (snd i) mode r)) r)
            (\<lambda>(covers, r). ret (if \<not> covers then MemoryPerms_Join MemoryPerms_None mode r else r)))"

definition MappedMemoryMap_Iterate ::
    "(address \<Rightarrow> address \<Rightarrow> memory_perms \<Rightarrow> 's \<Rightarrow> 's res) \<Rightarrow> mapped_map \<Rightarrow> 's \<Rightarrow> 's res" where
  "MappedMemoryMap_Iterate func m s = for_each (\<lambda>i. func (entry_start i) (entry_limit i) (snd i)) m s"

definition MappedMemoryMap_IterateRange ::
    "(address \<Rightarrow> address \<Rightarrow> memory_perms \<Rightarrow> 's \<Rightarrow> 's) \<Rightarrow> address \<Rightarrow> address \<Rightarrow> mapped_map \<Rightarrow> 's \<Rightarrow> 's res" where
  "MappedMemoryMap_IterateRange func start limit m s =
     rbind (Covers m start limit (\<lambda>i s. (True, func (entry_start i) (entry_limit i) (snd i) s)) s)
       (\<lambda>(_, s). ret s)"

section \<open>The contract of RangeMap for permissions\<close>

definition add_perms :: "memory_perms \<Rightarrow> memory_perms \<Rightarrow> memory_perms option" where
  "add_perms p q = Some (MemoryPerms_Add q p)"

definition nonempty_perms :: "memory_perms \<Rightarrow> memory_perms option" where
  "nonempty_perms p = (if MemoryPerms_IsEmpty p then None else Some p)"

definition diff_perms :: "memory_perms \<Rightarrow> memory_perms \<Rightarrow> memory_perms option" where
  "diff_perms p q = (if p = q then None else Some (MemoryPerms_Clear q p))"

interpretation pm: range_methods_sets perms_methods "\<lambda>_ _ v. perms_ok v" "\<lambda>_ _ v _. v"
    "\<lambda>_ _ _. True" "\<lambda>_ _ v _. v" add_perms "\<lambda>p q. nonempty_perms (MemoryPerms_Clear q p)"
    "\<lambda>p q. nonempty_perms (MemoryPerms_Intersect q p)" diff_perms
  by unfold_locales
    (auto simp: perms_methods_def add_perms_def nonempty_perms_def diff_perms_def Let_def
      add_changes_perms split: if_splits)

interpretation pm_ext: range_methods_ext perms_methods "\<lambda>_ _ v. perms_ok v" "\<lambda>_ _ v _. v"
    "\<lambda>_ _ _. True" "\<lambda>_ _ v _. v" add_perms "\<lambda>p q. nonempty_perms (MemoryPerms_Clear q p)"
  by unfold_locales (auto simp: perms_methods_def)

end
