(* ===== verification/Mapped_Map_Spec.thy ===== *)
theory Mapped_Map_Spec
  imports Mapped_Memory_Map
begin

text \<open>
  What the operations of \<open>MappedMemoryMap\<close> do at each address. The abstraction of a map is the function
  \<open>perms_at\<close> from addresses to permissions; \<open>holds f m\<close> says that \<open>m\<close> is a well-formed canonical map
  that holds \<open>f\<close>.
\<close>

section \<open>The abstraction\<close>

definition perms_at :: "mapped_map \<Rightarrow> address \<Rightarrow> memory_perms option" where
  "perms_at m k = lookup (\<lambda>_ _ v _. v) m k"

definition mapped_map_ok :: "mapped_map \<Rightarrow> bool" where
  "mapped_map_ok m \<longleftrightarrow> ranges_ok (\<lambda>_ _ v. perms_ok v) m \<and> pm.canonical m"

definition holds :: "(address \<Rightarrow> memory_perms option) \<Rightarrow> mapped_map \<Rightarrow> bool" where
  "holds f m \<longleftrightarrow> mapped_map_ok m \<and> perms_at m = f"

definition add_at :: "memory_perms \<Rightarrow> memory_perms option \<Rightarrow> memory_perms option" where
  "add_at p q = Some (case q of None \<Rightarrow> p | Some q \<Rightarrow> MemoryPerms_Add p q)"

definition remove_at :: "memory_perms \<Rightarrow> memory_perms option \<Rightarrow> memory_perms option" where
  "remove_at p q = (case q of None \<Rightarrow> None | Some q \<Rightarrow> nonempty_perms (MemoryPerms_Clear p q))"

definition intersect_at :: "memory_perms option \<Rightarrow> memory_perms option \<Rightarrow> memory_perms option" where
  "intersect_at x y = (case x of None \<Rightarrow> None
     | Some x \<Rightarrow> (case y of None \<Rightarrow> None | Some y \<Rightarrow> nonempty_perms (MemoryPerms_Intersect y x)))"

definition difference_at :: "memory_perms option \<Rightarrow> memory_perms option \<Rightarrow> memory_perms option" where
  "difference_at x y = (case x of None \<Rightarrow> None
     | Some x \<Rightarrow> (case y of None \<Rightarrow> Some x | Some y \<Rightarrow> diff_perms x y))"

text \<open>A function changed on the range \<open>[s, l)\<close>.\<close>

definition on_keys ::
    "address \<Rightarrow> address \<Rightarrow> (address \<Rightarrow> 'p) \<Rightarrow> (address \<Rightarrow> 'p) \<Rightarrow> address \<Rightarrow> 'p" where
  "on_keys s l f g k = (if s \<le> k \<and> k < l then f k else g k)"

lemma holds_self: "mapped_map_ok m \<Longrightarrow> holds (perms_at m) m"
  by (simp add: holds_def)

lemma holds_ok: "holds f m \<Longrightarrow> mapped_map_ok m"
  by (simp add: holds_def)

lemma holds_at: "holds f m \<Longrightarrow> perms_at m = f"
  by (simp add: holds_def)

lemma holds_cong: "holds f m \<Longrightarrow> (\<And>k. f k = g k) \<Longrightarrow> holds g m"
  by (simp add: holds_def fun_eq_iff)

lemma ranges_of_ok: "mapped_map_ok m \<Longrightarrow> ranges_ok (\<lambda>_ _ v. perms_ok v) m"
  by (simp add: mapped_map_ok_def)

lemma mapped_map_ok_Nil [simp]: "mapped_map_ok []"
  by (simp add: mapped_map_ok_def pm.canonical_def)

lemma perms_at_Nil [simp]: "perms_at [] k = None"
  by (simp add: perms_at_def)

lemma perms_at_Some_iff:
  "mapped_map_ok m \<Longrightarrow> perms_at m k = Some p \<longleftrightarrow>
     (\<exists>e \<in> set m. entry_start e \<le> k \<and> k < entry_limit e \<and> p = snd e)"
  unfolding perms_at_def by (rule lookup_Some_iff [OF ranges_of_ok])

lemma entry_pos: "mapped_map_ok m \<Longrightarrow> e \<in> set m \<Longrightarrow> entry_start e < entry_limit e"
  by (rule ranges_ok_pos [OF ranges_of_ok])

lemma entry_perms_ok: "mapped_map_ok m \<Longrightarrow> e \<in> set m \<Longrightarrow> perms_ok (snd e)"
  by (auto simp: mapped_map_ok_def ranges_ok_def)

lemma perms_at_ok: "mapped_map_ok m \<Longrightarrow> perms_at m k = Some p \<Longrightarrow> perms_ok p"
  unfolding perms_at_Some_iff by (elim bexE conjE) (simp add: entry_perms_ok)

lemma perms_at_entry:
  "mapped_map_ok m \<Longrightarrow> e \<in> set m \<Longrightarrow> entry_start e \<le> k \<Longrightarrow> k < entry_limit e \<Longrightarrow> perms_at m k = Some (snd e)"
  by (auto simp: perms_at_Some_iff)

lemma updates_holds:
  "pm.updates m None f (m', u) \<Longrightarrow> mapped_map_ok m \<Longrightarrow> holds f m'"
  by (auto simp: pm.updates_def holds_def mapped_map_ok_def perms_at_def)

text \<open>Two maps with the same content are equal: \<open>operator==\<close> decides equality of content.\<close>

lemma perms_at_ext: "mapped_map_ok m \<Longrightarrow> mapped_map_ok m' \<Longrightarrow> perms_at m = perms_at m' \<Longrightarrow> m = m'"
  by (rule pm_ext.canonical_ext) (auto simp: mapped_map_ok_def perms_at_def fun_eq_iff)

lemma holds_unique: "holds f m \<Longrightarrow> holds f m' \<Longrightarrow> m = m'"
  by (rule perms_at_ext) (auto simp: holds_def)

section \<open>Adding and removing\<close>

lemma Clear_holds [simp]: "MappedMemoryMap_Clear m = []"
  by (simp add: MappedMemoryMap_Clear_def RangeMap_clear_def)

lemma range_change_returns:
  assumes "mapped_map_ok m" "s < l" "case mode of kAdd \<Rightarrow> perms_ok p | kRemove \<Rightarrow> True"
  shows "returns (holds (on_keys s l (\<lambda>k. (case mode of kAdd \<Rightarrow> add_at | kRemove \<Rightarrow> remove_at) p (perms_at m k)) (perms_at m)))
    (rbind (Change perms_methods s l p mode True m None) (\<lambda>(_, m, _). ret m))"
proof -
  have "pm.okarg mode s l p" using assms(3) by (simp add: pm.okarg_def split: change_mode.splits)
  from pm.Change_returns [OF ranges_of_ok [OF assms(1)] this assms(2), of None] show ?thesis
  proof (rule returns_rbind, clarify)
    fix r m' u
    assume "pm.updates m None (\<lambda>k. if s \<le> k \<and> k < l then pm.changed mode s l p k (lookup (\<lambda>_ _ v _. v) m k)
        else lookup (\<lambda>_ _ v _. v) m k) (m', u)"
    from updates_holds [OF this assms(1)]
    show "returns (holds (on_keys s l (\<lambda>k. (case mode of kAdd \<Rightarrow> add_at | kRemove \<Rightarrow> remove_at) p (perms_at m k))
        (perms_at m))) (ret m')"
      by (auto elim!: holds_cong simp: on_keys_def pm.changed_def add_at_def remove_at_def perms_at_def add_perms_def
          split: change_mode.splits option.splits)
  qed
qed

lemma RangeMap_Add_returns:
  assumes "mapped_map_ok m" "s < l" "perms_ok p"
  shows "returns (holds (on_keys s l (\<lambda>k. add_at p (perms_at m k)) (perms_at m)))
    (rbind (RangeMap_Add perms_methods s l p m None) (\<lambda>(_, m, _). ret m))"
  unfolding RangeMap_Add_def using range_change_returns [where mode = kAdd] assms by fastforce

lemma Add_returns:
  assumes "mapped_map_ok m" "s < l" "perms_ok p" "\<not> MemoryPerms_IsEmpty p"
  shows "returns (holds (on_keys s l (\<lambda>k. add_at p (perms_at m k)) (perms_at m))) (MappedMemoryMap_Add s l p m)"
  using RangeMap_Add_returns [OF assms(1-3)] assms(4) by (simp add: MappedMemoryMap_Add_def)

lemma Remove_returns:
  assumes "mapped_map_ok m" "s < l"
  shows "returns (holds (on_keys s l (\<lambda>k. remove_at p (perms_at m k)) (perms_at m))) (MappedMemoryMap_Remove s l p m)"
  unfolding MappedMemoryMap_Remove_def RangeMap_Remove_def
  using range_change_returns [where mode = kRemove] assms by fastforce

lemma remove_at_all: "(\<And>p. q = Some p \<Longrightarrow> perms_ok p) \<Longrightarrow> remove_at MemoryPerms_AllPlusMapped q = None"
  by (cases q) (simp_all add: remove_at_def nonempty_perms_def perms_set_empty)

lemma Set_returns:
  assumes "mapped_map_ok m" "s < l" "perms_ok p" "\<not> MemoryPerms_IsEmpty p"
  shows "returns (holds (on_keys s l (\<lambda>_. Some p) (perms_at m))) (MappedMemoryMap_Set s l p m)"
  unfolding MappedMemoryMap_Set_def
proof (simp add: assms(4), rule returns_rbind [OF Remove_returns [OF assms(1,2), of MemoryPerms_AllPlusMapped]])
  fix m'
  assume m': "holds (on_keys s l (\<lambda>k. remove_at MemoryPerms_AllPlusMapped (perms_at m k)) (perms_at m)) m'"
  have "on_keys s l (\<lambda>k. add_at p (perms_at m' k)) (perms_at m') k = on_keys s l (\<lambda>_. Some p) (perms_at m) k" for k
    unfolding holds_at [OF m'] using remove_at_all [of "perms_at m k"] perms_at_ok [OF assms(1), of k]
    by (simp add: on_keys_def add_at_def)
  then show "returns (holds (on_keys s l (\<lambda>_. Some p) (perms_at m)))
      (rbind (RangeMap_Add perms_methods s l p m' None) (\<lambda>(_, m, _). ret m))"
    using RangeMap_Add_returns [OF holds_ok [OF m'] assms(2,3)] by (auto elim!: returns_mono holds_cong)
qed

section \<open>Queries\<close>

lemma Overlaps_eq:
  assumes "mapped_map_ok m" "s < l"
  shows "MappedMemoryMap_Overlaps s l m = ret (\<exists>k. s \<le> k \<and> k < l \<and> perms_at m k \<noteq> None)"
proof -
  obtain rg where rg: "Find m s l = ret rg"
    "in_range m rg = filter (\<lambda>e. entry_start e < l \<and> s < entry_limit e) m"
    "fst rg = snd rg \<longleftrightarrow> in_range m rg = []"
    using Find_entries [OF ranges_of_ok [OF assms(1)] assms(2)] .
  then show ?thesis
    using overlap_iff [OF ranges_of_ok [OF assms(1)] assms(2), of "\<lambda>_ _ v _. v"]
    by (simp add: MappedMemoryMap_Overlaps_def perms_at_def)
qed

lemma AddNew_returns:
  assumes "mapped_map_ok m" "s < l" "perms_ok p" "\<not> MemoryPerms_IsEmpty p"
    and "\<And>k. s \<le> k \<Longrightarrow> k < l \<Longrightarrow> perms_at m k = None"
  shows "returns (holds (on_keys s l (\<lambda>_. Some p) (perms_at m))) (MappedMemoryMap_AddNew s l p m)"
proof -
  have "MappedMemoryMap_Overlaps s l m = ret False" using Overlaps_eq [OF assms(1,2)] assms(5) by auto
  moreover have "on_keys s l (\<lambda>k. add_at p (perms_at m k)) (perms_at m) k = on_keys s l (\<lambda>_. Some p) (perms_at m) k" for k
    using assms(5) [of k] by (simp add: on_keys_def add_at_def)
  ultimately show ?thesis
    using Add_returns [OF assms(1-4)] by (simp add: MappedMemoryMap_AddNew_def) (auto elim!: returns_mono holds_cong)
qed

lemma ContainsAt_iff: "mapped_map_ok m \<Longrightarrow> MappedMemoryMap_ContainsAt k m \<longleftrightarrow> perms_at m k \<noteq> None"
  unfolding MappedMemoryMap_ContainsAt_def perms_at_def
  by (subst lookup_FindAt [OF ranges_of_ok]) (simp_all add: Let_def)

lemma PermsAt_eq:
  "mapped_map_ok m \<Longrightarrow> MappedMemoryMap_PermsAt k m = (case perms_at m k of None \<Rightarrow> MemoryPerms_None | Some p \<Rightarrow> p)"
  unfolding MappedMemoryMap_PermsAt_def perms_at_def
  by (subst lookup_FindAt [OF ranges_of_ok]) (simp_all add: Let_def)

lemma Contains_eq:
  assumes "mapped_map_ok m" "s < l"
  shows "MappedMemoryMap_Contains s l m = ret (\<forall>k. s \<le> k \<and> k < l \<longrightarrow> perms_at m k \<noteq> None)"
  unfolding MappedMemoryMap_Contains_def perms_at_def
  by (subst Covers_spec [OF ranges_of_ok [OF assms(1)] assms(2), where point = "\<lambda>_ _ v _. v"])
    (simp_all add: accepting_def)

lemma fold_join:
  "perms_set (fold (\<lambda>e r. MemoryPerms_Join (snd e) mode r) es r) =
     (case mode of kOr \<Rightarrow> perms_set r \<union> (\<Union>e \<in> set es. perms_set (snd e))
                 | kAnd \<Rightarrow> perms_set r \<inter> (\<Inter>e \<in> set es. perms_set (snd e)))"
  by (induction es arbitrary: r) (auto simp: MemoryPerms_Join_def split: join_mode.splits)

lemma overlapping_entry:
  assumes "mapped_map_ok m" "s < l"
  shows "(\<exists>e \<in> set (filter (\<lambda>e. entry_start e < l \<and> s < entry_limit e) m). P (snd e)) \<longleftrightarrow>
         (\<exists>k p. s \<le> k \<and> k < l \<and> perms_at m k = Some p \<and> P p)"
proof
  assume "\<exists>e \<in> set (filter (\<lambda>e. entry_start e < l \<and> s < entry_limit e) m). P (snd e)"
  then obtain e where e: "e \<in> set m" "entry_start e < l" "s < entry_limit e" "P (snd e)" by auto
  let ?k = "max s (entry_start e)"
  have "perms_at m ?k = Some (snd e)"
    using e entry_pos [OF assms(1) e(1)] by (intro perms_at_entry [OF assms(1)]) auto
  then show "\<exists>k p. s \<le> k \<and> k < l \<and> perms_at m k = Some p \<and> P p"
    using e assms(2) by (intro exI [of _ ?k] exI [of _ "snd e"]) auto
next
  assume "\<exists>k p. s \<le> k \<and> k < l \<and> perms_at m k = Some p \<and> P p"
  then obtain k e where "s \<le> k" "k < l" "e \<in> set m" "entry_start e \<le> k" "k < entry_limit e" "P (snd e)"
    by (elim exE conjE) (auto simp: perms_at_Some_iff [OF assms(1)])
  then show "\<exists>e \<in> set (filter (\<lambda>e. entry_start e < l \<and> s < entry_limit e) m). P (snd e)"
    by (intro bexI [of _ e]) (auto intro: le_less_trans)
qed

lemma Perms_returns:
  assumes "mapped_map_ok m" "s < l"
  shows "returns (\<lambda>r. perms_ok r \<and> perms_set r =
     (case mode of
        kOr \<Rightarrow> {p. \<exists>k q. s \<le> k \<and> k < l \<and> perms_at m k = Some q \<and> p \<in> perms_set q}
      | kAnd \<Rightarrow> {p. \<forall>k. s \<le> k \<and> k < l \<longrightarrow> (\<exists>q. perms_at m k = Some q \<and> p \<in> perms_set q)}))
    (MappedMemoryMap_Perms s l mode m)"
proof -
  let ?es = "filter (\<lambda>e. entry_start e < l \<and> s < entry_limit e) m"
  let ?init = "if mode = kOr then MemoryPerms_None else MemoryPerms_AllPlusMapped"
  let ?r = "fold (\<lambda>e r. MemoryPerms_Join (snd e) mode r) ?es ?init"
  let ?cov = "\<forall>k. s \<le> k \<and> k < l \<longrightarrow> perms_at m k \<noteq> None"
  have run: "MappedMemoryMap_Perms s l mode m =
      ret (if \<not> ?cov then MemoryPerms_Join MemoryPerms_None mode ?r else ?r)"
    unfolding MappedMemoryMap_Perms_def perms_at_def
    by (subst Covers_spec [OF ranges_of_ok [OF assms(1)] assms(2), where point = "\<lambda>_ _ v _. v"])
      (use assms(2) in \<open>simp_all add: accepting_def Let_def less_imp_le not_le\<close>)
  have okjoin: "perms_ok (MemoryPerms_Join MemoryPerms_None mode r)" if "perms_ok r" for r
    using that by (simp add: MemoryPerms_Join_def split: join_mode.splits)
  have okfold: "perms_ok (fold (\<lambda>e r. MemoryPerms_Join (snd e) mode r) es r)"
    if "perms_ok r" "\<forall>e \<in> set es. perms_ok (snd e)" for es :: "(address, memory_perms) entry list" and r
    using that by (induction es arbitrary: r) (auto simp: MemoryPerms_Join_def split: join_mode.splits)
  have ok: "perms_ok ?r"
    using entry_perms_ok [OF assms(1)] by (intro okfold) auto
  then have okj: "perms_ok (if \<not> ?cov then MemoryPerms_Join MemoryPerms_None mode ?r else ?r)"
    using okjoin by (simp del: Un_iff)
  show ?thesis
  proof (cases mode)
    case kOr
    have "p \<in> perms_set ?r \<longleftrightarrow> (\<exists>k q. s \<le> k \<and> k < l \<and> perms_at m k = Some q \<and> p \<in> perms_set q)" for p
      using overlapping_entry [OF assms, of "\<lambda>q. p \<in> perms_set q"] kOr by (simp add: fold_join)
    then have "perms_set (if \<not> ?cov then MemoryPerms_Join MemoryPerms_None mode ?r else ?r) =
        {p. \<exists>k q. s \<le> k \<and> k < l \<and> perms_at m k = Some q \<and> p \<in> perms_set q}"
      using kOr by (auto simp: MemoryPerms_Join_def)
    from trans [OF this] show ?thesis unfolding run returns_ret by (rule conjI [OF okj]) (simp only: kOr join_mode.case)
  next
    case kAnd
    have "p \<in> perms_set ?r \<longleftrightarrow> \<not> (\<exists>k q. s \<le> k \<and> k < l \<and> perms_at m k = Some q \<and> p \<notin> perms_set q)" for p
      using overlapping_entry [OF assms, of "\<lambda>q. p \<notin> perms_set q"] kAnd by (simp add: fold_join) blast
    then have all: "perms_set ?r = {p. \<not> (\<exists>k q. s \<le> k \<and> k < l \<and> perms_at m k = Some q \<and> p \<notin> perms_set q)}"
      by (simp only: set_eq_iff mem_Collect_eq) blast
    have "perms_set (if \<not> ?cov then MemoryPerms_Join MemoryPerms_None mode ?r else ?r) =
        {p. \<forall>k. s \<le> k \<and> k < l \<longrightarrow> (\<exists>q. perms_at m k = Some q \<and> p \<in> perms_set q)}"
    proof (cases ?cov)
      case True
      then have "(\<forall>k. s \<le> k \<and> k < l \<longrightarrow> (\<exists>q. perms_at m k = Some q \<and> p \<in> perms_set q)) \<longleftrightarrow>
          \<not> (\<exists>k q. s \<le> k \<and> k < l \<and> perms_at m k = Some q \<and> p \<notin> perms_set q)" for p
        by (metis option.exhaust option.inject)
      then show ?thesis unfolding if_not_P [OF not_not [THEN iffD2, OF True]] all by (simp only:)
    next
      case False
      then show ?thesis unfolding if_P [OF False] by (auto simp: MemoryPerms_Join_def kAnd)
    qed
    from trans [OF this] show ?thesis unfolding run returns_ret by (rule conjI [OF okj]) (simp only: kAnd join_mode.case)
  qed
qed

section \<open>Removing the ranges of another map\<close>

lemma remove_at_idem [simp]: "remove_at p (remove_at p q) = remove_at p q"
proof (cases q)
  case (Some q)
  have "MemoryPerms_Clear p (MemoryPerms_Clear p q) = MemoryPerms_Clear p q"
    by (simp add: MemoryPerms_Clear_def and.assoc)
  then show ?thesis by (simp add: Some remove_at_def nonempty_perms_def)
qed (simp add: remove_at_def)

lemma remove_at_None [simp]: "remove_at p None = None"
  by (simp add: remove_at_def)

definition covered :: "(address, memory_perms) entry list \<Rightarrow> address \<Rightarrow> bool" where
  "covered es k \<longleftrightarrow> (\<exists>e \<in> set es. entry_start e \<le> k \<and> k < entry_limit e)"

lemma remove_each_returns:
  assumes "mapped_map_ok m" "\<forall>e \<in> set es. entry_start e < entry_limit e"
  shows "returns (holds (\<lambda>k. if covered es k then remove_at p (perms_at m k) else perms_at m k)) (remove_each p es m)"
  using assms
proof (induction es arbitrary: m)
  case (Cons e es)
  have e: "entry_start e < entry_limit e" using Cons.prems(2) by simp
  have "returns (holds (\<lambda>k. if covered (e # es) k then remove_at p (perms_at m k) else perms_at m k))
      (remove_each p es m')"
    if m': "holds (on_keys (entry_start e) (entry_limit e) (\<lambda>k. remove_at p (perms_at m k)) (perms_at m)) m'" for m'
  proof -
    have "returns (holds (\<lambda>k. if covered es k then remove_at p (perms_at m' k) else perms_at m' k)) (remove_each p es m')"
      using Cons.IH [OF holds_ok [OF m']] Cons.prems(2) by simp
    then show ?thesis
      by (rule returns_mono, elim holds_cong) (auto simp: holds_at [OF m'] on_keys_def covered_def)
  qed
  then show ?case
    unfolding remove_each_def for_each.simps by (rule returns_rbind [OF Remove_returns [OF Cons.prems(1) e]])
qed (simp add: remove_each_def covered_def holds_self)

lemma LowerBound_split:
  assumes "ranges_ok okv m"
  shows "LowerBound m k \<le> length m" "\<And>j. j < LowerBound m k \<Longrightarrow> entry_limit (m ! j) \<le> k"
    "\<And>j. LowerBound m k \<le> j \<Longrightarrow> j < length m \<Longrightarrow> k < entry_limit (m ! j)"
proof -
  let ?P = "\<lambda>e. entry_limit e \<le> k"
  have m: "takeWhile ?P m @ dropWhile ?P m = m" by simp
  have above: "k < entry_limit e" if e: "e \<in> set (dropWhile ?P m)" for e
  proof -
    obtain f fs where f: "dropWhile ?P m = f # fs" "\<not> entry_limit f \<le> k"
      using e hd_dropWhile [of ?P m] by (cases "dropWhile ?P m") auto
    have "ranges_ok okv (f # fs)" using assms m f by (metis ranges_ok_append)
    then have "e = f \<or> entry_limit f \<le> entry_start e \<and> entry_start e < entry_limit e"
      using e f ranges_ok_pos [of okv "f # fs" e] by (auto simp: ranges_ok_Cons)
    then show ?thesis using f(2) by auto
  qed
  have lb: "LowerBound m k = length (takeWhile ?P m)"
    using LowerBound_eq [of okv "takeWhile ?P m" "dropWhile ?P m" k] assms above m
    by (auto dest: set_takeWhileD)
  then show "LowerBound m k \<le> length m" by (simp add: length_takeWhile_le)
  show "entry_limit (m ! j) \<le> k" if "j < LowerBound m k" for j
    using that takeWhile_nth [of j ?P m] nth_mem [of j "takeWhile ?P m"] by (auto simp: lb dest: set_takeWhileD)
  show "k < entry_limit (m ! j)" if "LowerBound m k \<le> j" "j < length m" for j
  proof -
    have "m ! j = dropWhile ?P m ! (j - length (takeWhile ?P m))"
      using that lb by (metis m nth_append not_le)
    moreover have "j - length (takeWhile ?P m) < length (dropWhile ?P m)"
    proof -
      have "length m = length (takeWhile ?P m) + length (dropWhile ?P m)" by (metis m length_append)
      then show ?thesis using that lb by linarith
    qed
    ultimately show ?thesis using above by (metis nth_mem)
  qed
qed

lemma perms_at_after_LowerBound:
  assumes ok: "mapped_map_ok m" and k: "a \<le> k" "LowerBound m a < length m \<Longrightarrow> k < entry_start (m ! LowerBound m a)"
  shows "perms_at m k = None"
  unfolding perms_at_def
proof (rule lookup_None)
  fix e assume "e \<in> set m"
  then obtain j where j: "j < length m" "e = m ! j" by (metis in_set_conv_nth)
  note lb = LowerBound_split [OF ranges_of_ok [OF ok], where k = a]
  show "k < entry_start e \<or> entry_limit e \<le> k"
  proof (cases "j < LowerBound m a")
    case True
    then show ?thesis using lb(2) [of j] j k(1) by (auto intro: order_trans)
  next
    case False
    let ?r = "LowerBound m a"
    have r: "?r < length m" using False j by simp
    have "entry_start (m ! ?r) \<le> entry_start (m ! j)"
    proof (cases "j = ?r")
      case ne: False
      then have "entry_limit (m ! ?r) \<le> entry_start (m ! j)"
        using False j ranges_of_ok [OF ok] by (auto simp: ranges_ok_def sorted_wrt_iff_nth_less)
      then show ?thesis using entry_pos [OF ok nth_mem [OF r]] by order
    qed simp
    then show ?thesis using k(2) [OF r] j by auto
  qed
qed

definition without_ranges :: "mapped_map \<Rightarrow> memory_perms \<Rightarrow> (address \<Rightarrow> memory_perms option) \<Rightarrow> address \<Rightarrow> memory_perms option" where
  "without_ranges y p f k = (if perms_at y k = None then f k else remove_at p (f k))"

definition rounds_inv :: "mapped_map \<Rightarrow> memory_perms \<Rightarrow> mapped_map \<Rightarrow> nat \<times> mapped_map \<Rightarrow> bool" where
  "rounds_inv y p m0 = (\<lambda>(r, m). mapped_map_ok m \<and> r \<le> length m \<and>
     (\<forall>k. perms_at m k = perms_at m0 k \<or> perms_at m k = without_ranges y p (perms_at m0) k) \<and>
     (\<forall>k. (r < length m \<longrightarrow> k < entry_start (m ! r)) \<longrightarrow> perms_at m k = without_ranges y p (perms_at m0) k))"

definition rounds_left :: "nat \<times> mapped_map \<Rightarrow> nat" where
  "rounds_left = (\<lambda>(r, m). if r < length m then 2 ^ 64 - unat (entry_limit (m ! r)) else 0)"

lemma remove_ranges_round_returns:
  assumes y: "mapped_map_ok y" and inv: "rounds_inv y p m0 (r, m)"
  shows "returns (\<lambda>x. case x of Break m' \<Rightarrow> holds (without_ranges y p (perms_at m0)) m'
      | Continue s \<Rightarrow> rounds_inv y p m0 s \<and> rounds_left s < rounds_left (r, m)) (remove_ranges_round y p (r, m))"
proof (cases "r = length m")
  case True
  then have "perms_at m = without_ranges y p (perms_at m0)" "mapped_map_ok m"
    using inv by (auto simp: rounds_inv_def fun_eq_iff)
  then show ?thesis using True by (simp add: remove_ranges_round_def holds_def)
next
  case False
  let ?s = "entry_start (m ! r)" and ?l = "entry_limit (m ! r)"
  let ?g = "without_ranges y p (perms_at m0)"
  have r: "r < length m" and m: "mapped_map_ok m"
    and eith: "\<And>k. perms_at m k = perms_at m0 k \<or> perms_at m k = ?g k"
    and below: "\<And>k. k < ?s \<Longrightarrow> perms_at m k = ?g k"
    using inv False by (auto simp: rounds_inv_def)
  have lt: "?s < ?l" using entry_pos [OF m nth_mem [OF r]] .
  let ?es = "filter (\<lambda>e. entry_start e < ?l \<and> ?s < entry_limit e) y"
  obtain rg where rg: "Find y ?s ?l = ret rg" "in_range y rg = ?es"
    using Find_entries [OF ranges_of_ok [OF y] lt] by blast
  have cov: "perms_at y k \<noteq> None" if "covered ?es k" for k
    using that perms_at_entry [OF y] by (auto simp: covered_def)
  have cov': "covered ?es k" if k: "?s \<le> k" "k < ?l" and ne: "perms_at y k \<noteq> None" for k
  proof -
    obtain e where e: "e \<in> set y" "entry_start e \<le> k" "k < entry_limit e"
      using ne perms_at_Some_iff [OF y] by auto
    then have "entry_start e < ?l" "?s < entry_limit e" using k by order+
    then show ?thesis unfolding covered_def using e by (intro bexI [of _ e]) simp_all
  qed
  let ?f = "\<lambda>k. if covered ?es k then remove_at p (perms_at m k) else perms_at m k"
  have step: "rounds_inv y p m0 (LowerBound m1 ?l, m1) \<and> rounds_left (LowerBound m1 ?l, m1) < rounds_left (r, m)"
    if m1: "holds ?f m1" for m1
  proof -
    note at = holds_at [OF m1] and ok1 = holds_ok [OF m1]
    note lb = LowerBound_split [OF ranges_of_ok [OF ok1], where k = ?l]
    have e1: "perms_at m1 k = perms_at m0 k \<or> perms_at m1 k = ?g k" for k
      using eith [of k] cov [of k] by (auto simp: at without_ranges_def)
    have low: "perms_at m1 k = ?g k" if "k < ?l" for k
    proof (cases "k < ?s")
      case True
      then show ?thesis using below [of k] cov [of k] by (auto simp: at without_ranges_def)
    next
      case False
      then show ?thesis using eith [of k] cov' [of k] cov [of k] that by (auto simp: at without_ranges_def)
    qed
    have "perms_at m1 k = ?g k" if "LowerBound m1 ?l < length m1 \<longrightarrow> k < entry_start (m1 ! LowerBound m1 ?l)" for k
    proof (cases "k < ?l")
      case False
      then have "perms_at m1 k = None" using that by (intro perms_at_after_LowerBound [OF ok1, of ?l]) auto
      then show ?thesis using e1 [of k] by (auto simp: without_ranges_def)
    qed (rule low)
    then have "rounds_inv y p m0 (LowerBound m1 ?l, m1)"
      using ok1 lb(1) e1 by (simp add: rounds_inv_def)
    moreover have "rounds_left (LowerBound m1 ?l, m1) < rounds_left (r, m)"
    proof (cases "LowerBound m1 ?l < length m1")
      case True
      then have "?l < entry_limit (m1 ! LowerBound m1 ?l)" by (intro lb(3)) simp_all
      then have "unat ?l < unat (entry_limit (m1 ! LowerBound m1 ?l))" by (simp add: word_less_nat_alt)
      then show ?thesis
        using True r unat_u64_lt [of "entry_limit (m1 ! LowerBound m1 ?l)"] by (simp add: rounds_left_def)
    next
      case False
      then show ?thesis using r unat_u64_lt [of ?l] by (simp add: rounds_left_def)
    qed
    ultimately show ?thesis by blast
  qed
  have "returns (holds ?f) (remove_each p ?es m)"
    using entry_pos [OF y] by (intro remove_each_returns [OF m]) auto
  then have "returns (\<lambda>x. case x of Break m' \<Rightarrow> holds ?g m'
      | Continue s \<Rightarrow> rounds_inv y p m0 s \<and> rounds_left s < rounds_left (r, m))
      (rbind (remove_each p ?es m) (\<lambda>m1. ret (Continue (LowerBound m1 ?l, m1))))"
    by (rule returns_rbind) (use step in simp)
  then show ?thesis using False rg by (simp add: remove_ranges_round_def Let_def)
qed

lemma RemoveRangesOf_returns:
  assumes "mapped_map_ok m" "mapped_map_ok y"
  shows "returns (holds (without_ranges y p (perms_at m))) (MappedMemoryMap_RemoveRangesOf y p m)"
  unfolding MappedMemoryMap_RemoveRangesOf_def
proof (rule rloop_returns [where I = "rounds_inv y p m" and m = rounds_left])
  show "rounds_inv y p m (0, m)"
  proof -
    have "perms_at m k = without_ranges y p (perms_at m) k" if "0 < length m \<longrightarrow> k < entry_start (m ! 0)" for k
    proof -
      have "perms_at m k = None"
      proof (cases m)
        case (Cons e es)
        then have "ranges_ok (\<lambda>_ _ v. perms_ok v) (e # es)" "k < entry_start e"
          using ranges_of_ok [OF assms(1)] that by simp_all
        then show ?thesis unfolding perms_at_def Cons by (rule pm_ext.lookup_before_first)
      qed simp
      then show ?thesis by (simp add: without_ranges_def)
    qed
    then show ?thesis using assms(1) by (simp add: rounds_inv_def)
  qed
next
  fix s assume "rounds_inv y p m s"
  then show "returns (\<lambda>x. case x of Break r \<Rightarrow> holds (without_ranges y p (perms_at m)) r
      | Continue s' \<Rightarrow> rounds_inv y p m s' \<and> rounds_left s' < rounds_left s) (remove_ranges_round y p s)"
    using remove_ranges_round_returns [OF assms(2)] by (cases s) blast
qed

section \<open>Whole maps\<close>

definition add_option :: "memory_perms option \<Rightarrow> memory_perms option \<Rightarrow> memory_perms option" where
  "add_option a q = (case a of None \<Rightarrow> q | Some a \<Rightarrow> add_at a q)"

lemma addopt_perms: "pm.addopt q a = add_option a q"
  by (simp add: pm.addopt_def add_option_def add_at_def add_perms_def split: option.splits)

lemma interopt_perms: "pm.interopt a b = intersect_at a b"
  by (simp add: pm.interopt_def intersect_at_def split: option.splits)

lemma diffopt_perms: "pm.diffopt a b = difference_at a b"
  by (simp add: pm.diffopt_def difference_at_def split: option.splits)

lemmas pointwise_perms = addopt_perms interopt_perms diffopt_perms

lemma add_option_None [simp]: "add_option a None = a"
  by (simp add: add_option_def add_at_def split: option.splits)

lemma AddMap_returns:
  assumes "mapped_map_ok y" "mapped_map_ok m"
  shows "returns (holds (\<lambda>k. add_option (perms_at y k) (perms_at m k))) (MappedMemoryMap_AddMap y m)"
  unfolding MappedMemoryMap_AddMap_def AddRangeMap_def
  by (rule returns_rbind [OF pm.ChangeRangeMap_add [OF ranges_of_ok [OF assms(1)] ranges_of_ok [OF assms(2)]]])
    (use assms in \<open>auto intro!: holds_cong [OF updates_holds] simp: pointwise_perms perms_at_def\<close>)

lemma AddIntersection_returns:
  assumes "mapped_map_ok x" "mapped_map_ok y" "mapped_map_ok m"
  shows "returns (holds (\<lambda>k. add_option (intersect_at (perms_at x k) (perms_at y k)) (perms_at m k)))
    (MappedMemoryMap_AddIntersectionOf x y m)"
  unfolding MappedMemoryMap_AddIntersectionOf_def
  by (rule returns_rbind [OF pm.AddIntersectionOf_returns [OF ranges_of_ok [OF assms(1)] ranges_of_ok [OF assms(2)]
      ranges_of_ok [OF assms(3)]]])
    (use assms in \<open>auto intro!: holds_cong [OF updates_holds] simp: pointwise_perms perms_at_def\<close>)

lemma AddDifference_returns:
  assumes "mapped_map_ok x" "mapped_map_ok y" "mapped_map_ok m"
  shows "returns (holds (\<lambda>k. add_option (difference_at (perms_at x k) (perms_at y k)) (perms_at m k)))
    (MappedMemoryMap_AddDifferenceOf x y m)"
  unfolding MappedMemoryMap_AddDifferenceOf_def
  by (rule returns_rbind [OF pm.AddDifferenceOf_returns [OF ranges_of_ok [OF assms(2)] ranges_of_ok [OF assms(1)]
      ranges_of_ok [OF assms(3)]]])
    (use assms in \<open>auto intro!: holds_cong [OF updates_holds] simp: pointwise_perms perms_at_def\<close>)

lemma AddDifferenceRange_returns:
  assumes "s < l" "perms_ok p" "mapped_map_ok y" "mapped_map_ok m"
  shows "returns (holds (\<lambda>k. add_option (difference_at (if s \<le> k \<and> k < l then Some p else None) (perms_at y k)) (perms_at m k)))
    (MappedMemoryMap_AddDifferenceOfRange s l p y m)"
  unfolding MappedMemoryMap_AddDifferenceOfRange_def
  by (rule returns_rbind [OF pm.AddDifferenceOfRange_returns [OF assms(2,1) ranges_of_ok [OF assms(3)]
      ranges_of_ok [OF assms(4)]]])
    (use assms in \<open>auto intro!: holds_cong [OF updates_holds] simp: pointwise_perms perms_at_def pm.on_range_def\<close>)

text \<open>\<open>MappingAt\<close>: the element that holds the address, without \<open>kMapped\<close>.\<close>

lemma MappingAt_cases:
  assumes "mapped_map_ok m"
  obtains "MappedMemoryMap_MappingAt k m = ret None" "perms_at m k = None"
  | e where "e \<in> set m" "entry_start e \<le> k" "k < entry_limit e"
      "MappedMemoryMap_MappingAt k m = ret (Some \<lparr>mm_start = entry_start e,
         mm_num_bytes = entry_limit e - entry_start e,
         mm_perms = MemoryPerms_ClearPermission kMapped (snd e)\<rparr>)"
proof (cases rule: FindAt_cases [OF ranges_of_ok [OF assms], of k, case_names none some])
  case none
  then have "perms_at m k = None" by (auto simp: perms_at_def intro!: lookup_None)
  moreover have "MappedMemoryMap_MappingAt k m = ret None"
    using none by (simp add: MappedMemoryMap_MappingAt_def)
  ultimately show thesis using that(1) by blast
next
  case some
  let ?e = "m ! FindAt m k"
  have e: "?e \<in> set m" using some by simp
  have "MappedMemoryMap_MappingAt k m = ret (Some \<lparr>mm_start = entry_start ?e,
      mm_num_bytes = entry_limit ?e - entry_start ?e, mm_perms = MemoryPerms_ClearPermission kMapped (snd ?e)\<rparr>)"
    using some entry_pos [OF assms e] by (simp add: MappedMemoryMap_MappingAt_def Let_def MakeRanged_ok)
  then show thesis using that(2) [OF e] some by blast
qed

section \<open>A small map\<close>

definition code_and_data :: mapped_map where
  "code_and_data = [((0x1000, 0x2000), MemoryPerms_XR), ((0x3000, 0x4000), MemoryPerms_RW)]"

lemma perms_ok_constants [simp]:
  "perms_ok MemoryPerms_R" "perms_ok MemoryPerms_W" "perms_ok MemoryPerms_X" "perms_ok MemoryPerms_RW"
  "perms_ok MemoryPerms_XR" "perms_ok MemoryPerms_XW" "perms_ok MemoryPerms_RWX"
  by (simp_all add: perms_ok_def MemoryPerms_R_def MemoryPerms_W_def MemoryPerms_X_def MemoryPerms_RW_def
      MemoryPerms_XR_def MemoryPerms_XW_def MemoryPerms_RWX_def ToInt_def)

lemma code_and_data_ok: "mapped_map_ok code_and_data"
  by (simp add: mapped_map_ok_def code_and_data_def ranges_ok_def pm.canonical_def pm.mergeable_def)

section \<open>Properties\<close>

text \<open>Setting, adding, adding new and removing permissions on a range act on exactly the addresses
  of the range, fail no check, and keep the map well formed and minimal.\<close>

theorem mapped_map_operations:
  assumes "mapped_map_ok m" "perms_ok p" "\<not> MemoryPerms_IsEmpty p" "s < l"
  shows "returns (holds (\<lambda>k. if s \<le> k \<and> k < l then Some p else perms_at m k)) (MappedMemoryMap_Set s l p m) \<and>
    returns (holds (\<lambda>k. if s \<le> k \<and> k < l then add_at p (perms_at m k) else perms_at m k)) (MappedMemoryMap_Add s l p m) \<and>
    returns (holds (\<lambda>k. if s \<le> k \<and> k < l then remove_at p (perms_at m k) else perms_at m k)) (MappedMemoryMap_Remove s l p m) \<and>
    MappedMemoryMap_AddNew s l p m =
      (if \<exists>k. s \<le> k \<and> k < l \<and> perms_at m k \<noteq> None then abort (Check_failed ''!Overlaps(start_address, limit_address)'')
       else MappedMemoryMap_Set s l p m)"
proof -
  have "MappedMemoryMap_AddNew s l p m = MappedMemoryMap_Set s l p m"
    if none: "\<And>k. s \<le> k \<Longrightarrow> k < l \<Longrightarrow> perms_at m k = None"
  proof -
    obtain a where "MappedMemoryMap_AddNew s l p m = ret a" "holds (on_keys s l (\<lambda>_. Some p) (perms_at m)) a"
      using AddNew_returns [OF assms(1,4,2,3) none] by (auto elim!: returnsE)
    moreover obtain b where "MappedMemoryMap_Set s l p m = ret b" "holds (on_keys s l (\<lambda>_. Some p) (perms_at m)) b"
      using Set_returns [OF assms(1,4,2,3)] by (auto elim!: returnsE)
    ultimately show ?thesis by (simp add: holds_unique)
  qed
  moreover have "MappedMemoryMap_AddNew s l p m = abort (Check_failed ''!Overlaps(start_address, limit_address)'')"
    if "\<exists>k. s \<le> k \<and> k < l \<and> perms_at m k \<noteq> None"
    unfolding MappedMemoryMap_AddNew_def Overlaps_eq [OF assms(1,4)] using that by simp
  ultimately show ?thesis
    using Set_returns [OF assms(1,4,2,3)] Add_returns [OF assms(1,4,2,3)] Remove_returns [OF assms(1,4), of p]
    unfolding on_keys_def by (simp only: split: if_splits) blast
qed

theorem mapped_map_operations_witness:
  "MappedMemoryMap_AddNew 0x1800 0x2800 MemoryPerms_RW code_and_data =
     abort (Check_failed ''!Overlaps(start_address, limit_address)'') \<and>
   MappedMemoryMap_AddNew 0x2000 0x3000 MemoryPerms_RW code_and_data =
     MappedMemoryMap_Set 0x2000 0x3000 MemoryPerms_RW code_and_data"
proof -
  have ne: "\<not> MemoryPerms_IsEmpty MemoryPerms_RW"
    by (simp add: MemoryPerms_IsEmpty_def MemoryPerms_RW_def ToInt_def)
  have "perms_at code_and_data 0x1800 \<noteq> None" by (simp add: perms_at_def code_and_data_def)
  then have "\<exists>k. 0x1800 \<le> k \<and> k < 0x2800 \<and> perms_at code_and_data k \<noteq> None"
    by (intro exI [of _ "0x1800"]) simp
  moreover have "perms_at code_and_data k = None" if "0x2000 \<le> k" "k < 0x3000" for k
    using that by (auto simp: perms_at_def code_and_data_def)
  ultimately show ?thesis
    using mapped_map_operations [OF code_and_data_ok perms_ok_constants(4) ne, of "0x1800" "0x2800"]
      mapped_map_operations [OF code_and_data_ok perms_ok_constants(4) ne, of "0x2000" "0x3000"] by auto
qed

text \<open>\<open>RemoveRangesOf\<close> ends although its loop looks its position up again after every round, and
  removes the permissions at exactly the addresses the other map holds.\<close>

theorem remove_ranges_of_spec:
  assumes "mapped_map_ok m" "mapped_map_ok y"
  shows "returns (\<lambda>m'. mapped_map_ok m' \<and>
      (\<forall>k. perms_at m' k = (if perms_at y k = None then perms_at m k else remove_at p (perms_at m k))))
    (MappedMemoryMap_RemoveRangesOf y p m)"
  using RemoveRangesOf_returns [OF assms] by (rule returns_mono) (auto simp: holds_def without_ranges_def)

theorem remove_ranges_of_spec_witness:
  "returns (\<lambda>m. perms_at m 0x1000 = Some MemoryPerms_XR \<and> perms_at m 0x3800 = None)
     (MappedMemoryMap_RemoveRangesOf [((0x3400, 0x9000), MemoryPerms_R)] MemoryPerms_AllPlusMapped code_and_data)"
proof -
  have ok: "mapped_map_ok [((0x3400, 0x9000), MemoryPerms_R)]"
    by (simp add: mapped_map_ok_def ranges_ok_def pm.canonical_def)
  have "perms_at code_and_data 0x1000 = Some MemoryPerms_XR" "perms_at [((0x3400, 0x9000), MemoryPerms_R)] 0x1000 = None"
    "perms_at [((0x3400, 0x9000), MemoryPerms_R)] 0x3800 \<noteq> None"
    "remove_at MemoryPerms_AllPlusMapped (perms_at code_and_data 0x3800) = None"
    using remove_at_all [of "Some MemoryPerms_RW"] by (simp_all add: perms_at_def code_and_data_def)
  then show ?thesis
    using remove_ranges_of_spec [OF code_and_data_ok ok, of MemoryPerms_AllPlusMapped] by (auto elim!: returns_mono)
qed

text \<open>Two maps are equal exactly when they hold the same permissions at every address: the elements
  are always merged as far as possible.\<close>

theorem mapped_map_eq_iff:
  assumes "mapped_map_ok x" "mapped_map_ok y"
  shows "MappedMemoryMap_eq x y \<longleftrightarrow> (\<forall>k. perms_at x k = perms_at y k)"
  using perms_at_ext [OF assms] by (auto simp: MappedMemoryMap_eq_def fun_eq_iff)

theorem mapped_map_eq_iff_witness: "\<not> (\<forall>k. perms_at code_and_data k = perms_at [] k)"
  using mapped_map_eq_iff [OF code_and_data_ok mapped_map_ok_Nil]
  by (simp add: MappedMemoryMap_eq_def code_and_data_def)

text \<open>\<open>Perms\<close> over a range is the union, or with \<open>kAnd\<close> the intersection, of the permissions at its
  addresses; an address outside the map has none.\<close>

theorem perms_of_range:
  assumes "mapped_map_ok m" "s < l"
  shows "returns (\<lambda>r. \<forall>p. MemoryPerms_HasPermission r p \<longleftrightarrow>
      (\<exists>k. s \<le> k \<and> k < l \<and> MemoryPerms_HasPermission (MappedMemoryMap_PermsAt k m) p)) (MappedMemoryMap_Perms s l kOr m) \<and>
    returns (\<lambda>r. \<forall>p. MemoryPerms_HasPermission r p \<longleftrightarrow>
      (\<forall>k. s \<le> k \<and> k < l \<longrightarrow> MemoryPerms_HasPermission (MappedMemoryMap_PermsAt k m) p)) (MappedMemoryMap_Perms s l kAnd m)"
proof -
  have at: "p \<in> perms_set (MappedMemoryMap_PermsAt k m) \<longleftrightarrow> (\<exists>q. perms_at m k = Some q \<and> p \<in> perms_set q)" for p k
    by (simp add: PermsAt_eq [OF assms(1)] split: option.splits)
  show ?thesis
    unfolding HasPermission_iff at
    using Perms_returns [OF assms, of kOr] Perms_returns [OF assms, of kAnd] by (auto elim!: returns_mono)
qed

theorem perms_of_range_witness:
  "returns (\<lambda>r. MemoryPerms_HasPermission r kReadable) (MappedMemoryMap_Perms 0x1000 0x4000 kOr code_and_data) \<and>
   returns (\<lambda>r. \<not> MemoryPerms_HasPermission r kReadable) (MappedMemoryMap_Perms 0x1000 0x4000 kAnd code_and_data)"
proof -
  have "MappedMemoryMap_PermsAt 0x1000 code_and_data = MemoryPerms_XR"
    "MappedMemoryMap_PermsAt 0x2000 code_and_data = MemoryPerms_None"
    using PermsAt_eq [OF code_and_data_ok] by (simp_all add: perms_at_def code_and_data_def)
  then have "MemoryPerms_HasPermission (MappedMemoryMap_PermsAt 0x1000 code_and_data) kReadable"
    "\<not> MemoryPerms_HasPermission (MappedMemoryMap_PermsAt 0x2000 code_and_data) kReadable"
    by (simp_all add: MemoryPerms_HasPermission_def MemoryPerms_XR_def MemoryPerms_None_def ToInt_def)
  moreover have "(0x1000 :: u64) \<le> 0x2000 \<and> (0x2000 :: u64) < 0x4000" "(0x1000 :: u64) \<le> 0x1000 \<and> (0x1000 :: u64) < 0x4000"
    by simp_all
  ultimately have "\<exists>k. (0x1000 :: u64) \<le> k \<and> k < 0x4000 \<and> MemoryPerms_HasPermission (MappedMemoryMap_PermsAt k code_and_data) kReadable"
    "\<not> (\<forall>k. (0x1000 :: u64) \<le> k \<and> k < 0x4000 \<longrightarrow> MemoryPerms_HasPermission (MappedMemoryMap_PermsAt k code_and_data) kReadable)"
    by blast+
  then show ?thesis
    using perms_of_range [OF code_and_data_ok, of "0x1000" "0x4000"] by (auto elim!: returns_mono)
qed

end
