(* ===== verification/Memory_Bytes_Set.thy ===== *)
theory Memory_Bytes_Set
  imports Memory_Mapping Range_Map_Equality
begin

text \<open>
  \<open>MemoryBytesSet\<close> of \<open>common/memory_bytes_set.h\<close> and \<open>.cc\<close>: a set of addresses kept as a \<open>RangeMap\<close>
  whose values do not matter. The abstraction is the set of addresses, and the operations are those
  of sets; \<open>byte_size\<close> is computed with 64-bit wrap-around and never wraps.
\<close>

section \<open>MemoryBytesSetMethods\<close>

definition kDummyMappedValue :: bool where
  "kDummyMappedValue = False"

definition bytes_set_methods :: "(address, bool) methods" where
  "bytes_set_methods = \<lparr>
     UsageOf = (\<lambda>_ _ _. 24),
     Slice = (\<lambda>start limit v s l. v),
     AddTo = (\<lambda>dest v. (False, kDummyMappedValue, False)),
     RemoveFrom = (\<lambda>dest v. (True, kDummyMappedValue, True)),
     CanMerge = (\<lambda>v1 v2. True),
     MergeInto = (\<lambda>dest v. kDummyMappedValue),
     MakeIntersection = (\<lambda>v1 v2. (kDummyMappedValue, False)),
     MakeDifference = (\<lambda>v1 v2. (kDummyMappedValue, True))\<rparr>"

type_synonym bytes_set = "(address, bool) range_map"

section \<open>Operations\<close>

definition MemoryBytesSet_empty :: "bytes_set \<Rightarrow> bool" where
  "MemoryBytesSet_empty m \<longleftrightarrow> m = []"

definition MemoryBytesSet_clear :: "bytes_set \<Rightarrow> bytes_set" where
  "MemoryBytesSet_clear m = fst (RangeMap_clear bytes_set_methods m None)"

definition MemoryBytesSet_size :: "bytes_set \<Rightarrow> nat" where
  "MemoryBytesSet_size m = length m"

fun byte_size_loop :: "bytes_set \<Rightarrow> byte_size \<Rightarrow> byte_size" where
  "byte_size_loop [] n = n"
| "byte_size_loop (i # is) n = byte_size_loop is (n + (entry_limit i - entry_start i))"

definition MemoryBytesSet_byte_size :: "bytes_set \<Rightarrow> byte_size" where
  "MemoryBytesSet_byte_size m = byte_size_loop m 0"

definition MemoryBytesSet_eq :: "bytes_set \<Rightarrow> bytes_set \<Rightarrow> bool" where
  "MemoryBytesSet_eq x y \<longleftrightarrow> x = y"

definition MemoryBytesSet_Add :: "address \<Rightarrow> address \<Rightarrow> bytes_set \<Rightarrow> bytes_set res" where
  "MemoryBytesSet_Add start_address limit_address m =
     rbind (RangeMap_Add bytes_set_methods start_address limit_address kDummyMappedValue m None) (\<lambda>(_, m, _). ret m)"

definition MemoryBytesSet_AddSet :: "bytes_set \<Rightarrow> bytes_set \<Rightarrow> bytes_set res" where
  "MemoryBytesSet_AddSet y m = rbind (AddRangeMap bytes_set_methods y m None) (\<lambda>(_, m, _). ret m)"

definition MemoryBytesSet_Remove :: "address \<Rightarrow> address \<Rightarrow> bytes_set \<Rightarrow> bytes_set res" where
  "MemoryBytesSet_Remove start_address limit_address m =
     rbind (RangeMap_Remove bytes_set_methods start_address limit_address False m None) (\<lambda>(_, m, _). ret m)"

definition MemoryBytesSet_Intersect :: "bytes_set \<Rightarrow> bytes_set \<Rightarrow> bytes_set res" where
  "MemoryBytesSet_Intersect y m = rbind (AddIntersectionOf bytes_set_methods m y [] None) (\<lambda>(m, _). ret m)"

definition MemoryBytesSet_IsDisjoint :: "address \<Rightarrow> address \<Rightarrow> bytes_set \<Rightarrow> bool res" where
  "MemoryBytesSet_IsDisjoint start_address limit_address m =
     rbind (Find m start_address limit_address) (\<lambda>rg. ret (fst rg = snd rg))"

definition MemoryBytesSet_Iterate :: "(address \<Rightarrow> address \<Rightarrow> 's \<Rightarrow> 's res) \<Rightarrow> bytes_set \<Rightarrow> 's \<Rightarrow> 's res" where
  "MemoryBytesSet_Iterate func m s = for_each (\<lambda>i. func (entry_start i) (entry_limit i)) m s"

section \<open>The contract of RangeMap for sets\<close>

definition present :: "unit \<Rightarrow> unit \<Rightarrow> unit option" where
  "present a b = Some ()"

definition absent :: "unit \<Rightarrow> unit \<Rightarrow> unit option" where
  "absent a b = None"

interpretation bs: range_methods_sets bytes_set_methods "\<lambda>_ _ v. v = kDummyMappedValue" "\<lambda>_ _ _ _. ()"
    "\<lambda>_ _ _. True" "\<lambda>_ _ _ _. ()" present absent present absent
  by unfold_locales (auto simp: bytes_set_methods_def present_def absent_def)

interpretation bs_ext: range_methods_ext bytes_set_methods "\<lambda>_ _ v. v = kDummyMappedValue" "\<lambda>_ _ _ _. ()"
    "\<lambda>_ _ _. True" "\<lambda>_ _ _ _. ()" present absent
  by unfold_locales (auto simp: bytes_set_methods_def present_def absent_def)

section \<open>The abstraction\<close>

definition addresses :: "bytes_set \<Rightarrow> address set" where
  "addresses m = {k. lookup (\<lambda>_ _ _ _. ()) m k \<noteq> None}"

definition bytes_set_ok :: "bytes_set \<Rightarrow> bool" where
  "bytes_set_ok m \<longleftrightarrow> ranges_ok (\<lambda>_ _ v. v = kDummyMappedValue) m \<and> bs.canonical m"

definition holds_set :: "address set \<Rightarrow> bytes_set \<Rightarrow> bool" where
  "holds_set A m \<longleftrightarrow> bytes_set_ok m \<and> addresses m = A"

lemma bytes_set_ok_Nil [simp]: "bytes_set_ok []"
  by (simp add: bytes_set_ok_def bs.canonical_def)

lemma addresses_Nil [simp]: "addresses [] = {}"
  by (simp add: addresses_def)

lemma addresses_Cons: "addresses (e # m) = {entry_start e..<entry_limit e} \<union> addresses m"
  by (auto simp: addresses_def)

lemma MemoryBytesSet_clear_Nil [simp]: "MemoryBytesSet_clear m = []"
  by (simp add: MemoryBytesSet_clear_def RangeMap_clear_def)

lemma bytes_ranges: "bytes_set_ok m \<Longrightarrow> ranges_ok (\<lambda>_ _ v. v = kDummyMappedValue) m"
  by (simp add: bytes_set_ok_def)

lemma holds_set_updates:
  assumes "bs.updates m None f (m', u)" "bytes_set_ok m" "A = {k. f k \<noteq> None}"
  shows "holds_set A m'"
  using assms by (auto simp: bs.updates_def holds_set_def bytes_set_ok_def addresses_def)

lemma holds_set_ok: "holds_set A m \<Longrightarrow> bytes_set_ok m" "holds_set A m \<Longrightarrow> addresses m = A"
  by (simp_all add: holds_set_def)

lemma addresses_ext: "bytes_set_ok x \<Longrightarrow> bytes_set_ok y \<Longrightarrow> addresses x = addresses y \<Longrightarrow> x = y"
proof (rule bs_ext.canonical_ext)
  assume "addresses x = addresses y"
  then have "lookup (\<lambda>_ _ _ _. ()) x k \<noteq> None \<longleftrightarrow> lookup (\<lambda>_ _ _ _. ()) y k \<noteq> None" for k
    by (auto simp: addresses_def)
  then show "lookup (\<lambda>_ _ _ _. ()) x k = lookup (\<lambda>_ _ _ _. ()) y k" for k
    using option.exhaust [of "lookup (\<lambda>_ _ _ _. ()) x k"] option.exhaust [of "lookup (\<lambda>_ _ _ _. ()) y k"]
    by (metis (full_types) old.unit.exhaust)
qed (simp_all add: bytes_set_ok_def)

section \<open>What the operations do\<close>

lemma bytes_change_returns:
  assumes "bytes_set_ok m" "s < l"
  shows "returns (holds_set (case mode of kAdd \<Rightarrow> addresses m \<union> {s..<l} | kRemove \<Rightarrow> addresses m - {s..<l}))
    (rbind (Change bytes_set_methods s l kDummyMappedValue mode True m None) (\<lambda>(_, m, _). ret m))"
proof -
  have "bs.okarg mode s l kDummyMappedValue" by (simp add: bs.okarg_def split: change_mode.splits)
  from bs.Change_returns [OF bytes_ranges [OF assms(1)] this assms(2), of None] show ?thesis
    by (rule returns_rbind)
      (auto intro!: holds_set_updates [OF _ assms(1)] simp: addresses_def bs.changed_def present_def absent_def
        split: change_mode.splits option.splits if_splits)
qed

lemma MemoryBytesSet_Add_returns:
  "bytes_set_ok m \<Longrightarrow> s < l \<Longrightarrow> returns (holds_set (addresses m \<union> {s..<l})) (MemoryBytesSet_Add s l m)"
  unfolding MemoryBytesSet_Add_def RangeMap_Add_def using bytes_change_returns [where mode = kAdd] by fastforce

lemma MemoryBytesSet_Remove_returns:
  "bytes_set_ok m \<Longrightarrow> s < l \<Longrightarrow> returns (holds_set (addresses m - {s..<l})) (MemoryBytesSet_Remove s l m)"
  unfolding MemoryBytesSet_Remove_def RangeMap_Remove_def
  using bytes_change_returns [where mode = kRemove] by (fastforce simp: kDummyMappedValue_def)

lemma MemoryBytesSet_AddSet_returns:
  assumes "bytes_set_ok y" "bytes_set_ok m"
  shows "returns (holds_set (addresses m \<union> addresses y)) (MemoryBytesSet_AddSet y m)"
  unfolding MemoryBytesSet_AddSet_def AddRangeMap_def
  by (rule returns_rbind [OF bs.ChangeRangeMap_add [OF bytes_ranges [OF assms(1)] bytes_ranges [OF assms(2)]]])
    (auto intro!: holds_set_updates [OF _ assms(2)] simp: addresses_def bs.addopt_def present_def split: option.splits)

lemma MemoryBytesSet_Intersect_returns:
  assumes "bytes_set_ok y" "bytes_set_ok m"
  shows "returns (holds_set (addresses m \<inter> addresses y)) (MemoryBytesSet_Intersect y m)"
  unfolding MemoryBytesSet_Intersect_def
  by (rule returns_rbind [OF bs.AddIntersectionOf_returns [OF bytes_ranges [OF assms(2)] bytes_ranges [OF assms(1)] ranges_ok_Nil]])
    (auto intro!: holds_set_updates simp: addresses_def bs.addopt_def bs.interopt_def present_def split: option.splits)

lemma IsDisjoint_eq:
  assumes "bytes_set_ok m" "s < l"
  shows "MemoryBytesSet_IsDisjoint s l m = ret (addresses m \<inter> {s..<l} = {})"
proof -
  obtain rg where "Find m s l = ret rg"
    "in_range m rg = filter (\<lambda>e. entry_start e < l \<and> s < entry_limit e) m"
    "fst rg = snd rg \<longleftrightarrow> in_range m rg = []"
    using Find_entries [OF bytes_ranges [OF assms(1)] assms(2)] .
  moreover have "addresses m \<inter> {s..<l} = {} \<longleftrightarrow>
      \<not> (\<exists>k. s \<le> k \<and> k < l \<and> lookup (\<lambda>_ _ _ _. ()) m k \<noteq> None)"
    by (auto simp only: addresses_def atLeastLessThan_iff)
  ultimately have "fst rg = snd rg \<longleftrightarrow> addresses m \<inter> {s..<l} = {}"
    using overlap_iff [OF bytes_ranges [OF assms(1)] assms(2), of "\<lambda>_ _ _ _. ()"] by argo
  then show ?thesis using \<open>Find m s l = ret rg\<close> by (simp add: MemoryBytesSet_IsDisjoint_def)
qed

lemma card_range_u64: "s \<le> l \<Longrightarrow> card {s..<l} = unat l - unat (s :: u64)"
proof -
  assume "s \<le> l"
  have "unat ` {s..<l} = {unat s..<unat l}"
  proof
    show "{unat s..<unat l} \<subseteq> unat ` {s..<l}"
    proof
      fix n assume n: "n \<in> {unat s..<unat l}"
      then have "unat (of_nat n :: u64) = n"
        using unat_u64_lt [of l] by (intro unat_of_nat_u64) simp
      then have "of_nat n \<in> {s..<l}" using n by (simp add: word_le_nat_alt word_less_nat_alt)
      then show "n \<in> unat ` {s..<l}" using \<open>unat (of_nat n :: u64) = n\<close> by force
    qed
  qed (auto simp: word_le_nat_alt word_less_nat_alt)
  moreover have "inj_on unat {s..<l}" by (intro inj_onI) (simp only: word_unat_eq_iff)
  ultimately have "card {unat s..<unat l} = card {s..<l}" by (metis card_image)
  then show ?thesis by simp
qed

lemma byte_size_loop_eq: "byte_size_loop m n = n + byte_size_loop m 0"
proof (induction m arbitrary: n)
  case (Cons e m)
  show ?case
    using Cons.IH [of "n + (entry_limit e - entry_start e)"] Cons.IH [of "entry_limit e - entry_start e"]
    by (simp add: add.assoc)
qed simp

lemma byte_size_card:
  assumes "ranges_ok okv m" "\<And>e. e \<in> set m \<Longrightarrow> b \<le> entry_start e"
  shows "unat (byte_size_loop m 0) = card (addresses m) \<and> unat b + card (addresses m) < 2 ^ 64"
  using assms
proof (induction m arbitrary: b)
  case (Cons e m)
  let ?s = "entry_start e" and ?l = "entry_limit e"
  have e: "?s < ?l" "\<forall>f \<in> set m. ?l \<le> entry_start f" "ranges_ok okv m" using Cons.prems(1) by (simp_all add: ranges_ok_Cons)
  have IH: "unat (byte_size_loop m 0) = card (addresses m)" "unat ?l + card (addresses m) < 2 ^ 64"
    using Cons.IH [of ?l] e by auto
  have "{?s..<?l} \<inter> addresses m = {}"
  proof -
    have "lookup (\<lambda>_ _ _ _. ()) m k = None" if "k < ?l" for k
      using e(2) that by (intro lookup_None) (auto intro: less_le_trans)
    then show ?thesis by (auto simp: addresses_def)
  qed
  then have card: "card (addresses (e # m)) = (unat ?l - unat ?s) + card (addresses m)"
    using card_range_u64 [of ?s ?l] e(1) by (simp add: addresses_Cons card_Un_disjoint)
  have sub: "unat (?l - ?s) = unat ?l - unat ?s" and le: "unat ?s \<le> unat ?l" "unat b \<le> unat ?s"
    using e(1) Cons.prems(2) [of e] by (simp_all add: unat_sub word_le_nat_alt word_less_nat_alt)
  have "byte_size_loop (e # m) 0 = (?l - ?s) + byte_size_loop m 0"
    using byte_size_loop_eq [of m "?l - ?s"] by simp
  moreover have "unat ((?l - ?s) + byte_size_loop m 0) = (unat ?l - unat ?s) + card (addresses m)"
    using IH sub by (subst unat_add_lem [THEN iffD1]) auto
  ultimately show ?case using card IH(2) le by simp
qed (use unat_u64_lt in simp)

section \<open>Properties\<close>

text \<open>The operations of the set are those of sets of addresses, fail no check on a non-empty range,
  and keep the ranges minimal, so that \<open>operator==\<close> is equality of the sets.\<close>

theorem bytes_set_refines_sets:
  assumes "bytes_set_ok m" "bytes_set_ok y" "s < l"
  shows "returns (holds_set (addresses m \<union> {s..<l})) (MemoryBytesSet_Add s l m) \<and>
    returns (holds_set (addresses m - {s..<l})) (MemoryBytesSet_Remove s l m) \<and>
    returns (holds_set (addresses m \<union> addresses y)) (MemoryBytesSet_AddSet y m) \<and>
    returns (holds_set (addresses m \<inter> addresses y)) (MemoryBytesSet_Intersect y m) \<and>
    MemoryBytesSet_IsDisjoint s l m = ret (addresses m \<inter> {s..<l} = {}) \<and>
    (MemoryBytesSet_eq m y \<longleftrightarrow> addresses m = addresses y)"
  using MemoryBytesSet_Add_returns [OF assms(1,3)] MemoryBytesSet_Remove_returns [OF assms(1,3)]
    MemoryBytesSet_AddSet_returns [OF assms(2,1)] MemoryBytesSet_Intersect_returns [OF assms(2,1)]
    IsDisjoint_eq [OF assms(1,3)] addresses_ext [OF assms(1,2)]
  by (auto simp: MemoryBytesSet_eq_def)

theorem bytes_set_refines_sets_witness:
  "MemoryBytesSet_IsDisjoint 0x1800 0x2000 [((0x1000, 0x1800), False), ((0x2000, 0x3000), False)] = ret True"
proof -
  have ok: "bytes_set_ok [((0x1000, 0x1800), False), ((0x2000, 0x3000), False)]"
    by (simp add: bytes_set_ok_def ranges_ok_def bs.canonical_def bs.mergeable_def kDummyMappedValue_def)
  have "addresses [((0x1000, 0x1800), False), ((0x2000, 0x3000), False)] \<inter> {0x1800..<0x2000} = {}"
    by (auto simp: addresses_Cons)
  then show ?thesis
    using bytes_set_refines_sets [OF ok ok, of "0x1800" "0x2000"] by simp
qed

text \<open>\<open>byte_size\<close>, a sum of 64-bit differences, is the number of addresses in the set: it does not
  wrap around.\<close>

theorem byte_size_counts:
  assumes "bytes_set_ok m"
  shows "unat (MemoryBytesSet_byte_size m) = card (addresses m)"
  using byte_size_card [OF bytes_ranges [OF assms], of 0] by (simp add: MemoryBytesSet_byte_size_def)

theorem byte_size_counts_witness:
  "card (addresses [((0x1000, 0x1800), False), ((0x2000, 0x3000), False)]) = 0x1800"
proof -
  have "bytes_set_ok [((0x1000, 0x1800), False), ((0x2000, 0x3000), False)]"
    by (simp add: bytes_set_ok_def ranges_ok_def bs.canonical_def bs.mergeable_def kDummyMappedValue_def)
  from byte_size_counts [OF this] show ?thesis by (simp add: MemoryBytesSet_byte_size_def)
qed

end
