(* ===== verification/Snapshot_Data.thy ===== *)
theory Snapshot_Data
  imports Mapped_Map_Spec Memory_Bytes_Set
begin

text \<open>
  The data a \<open>Snapshot\<close> is made of, from \<open>common/snapshot.h\<close>, \<open>snapshot.cc\<close> and \<open>snapshot_enums.h\<close>:
  \<open>MemoryBytes\<close>, \<open>RegisterState\<close>, \<open>Endpoint\<close>, \<open>EndState\<close> and the fields of \<open>Snapshot\<close>. Byte strings
  are lists of bytes; a length is converted to the 64-bit word \<open>size()\<close> returns. \<open>std::sort\<close> may order
  elements that compare equal in any way; the model keeps their order.
\<close>

section \<open>MemoryBytes\<close>

type_synonym byte_data = "byte list"

record memory_bytes =
  mb_start :: address
  mb_values :: byte_data

definition data_size :: "byte_data \<Rightarrow> byte_size" where
  "data_size bs = of_nat (length bs)"

definition mb_num_bytes :: "memory_bytes \<Rightarrow> byte_size" where
  "mb_num_bytes b = data_size (mb_values b)"

definition mb_limit :: "memory_bytes \<Rightarrow> address" where
  "mb_limit b = mb_start b + data_size (mb_values b)"

definition CanConstruct :: "address \<Rightarrow> byte_data \<Rightarrow> status" where
  "CanConstruct start_address byte_values =
     (if byte_values = [] then InvalidArgument ''Empty byte_values''
      else if kMaxAddress - data_size byte_values < start_address
      then InvalidArgument ''start_address + byte_values.size is too large''
      else OkStatus)"

definition new_memory_bytes :: "address \<Rightarrow> byte_data \<Rightarrow> memory_bytes res" where
  "new_memory_bytes start_address byte_values =
     rbind (dcheck_status (CanConstruct start_address byte_values)) (\<lambda>_.
     ret \<lparr>mb_start = start_address, mb_values = byte_values\<rparr>)"

definition MemoryBytes_eq :: "memory_bytes \<Rightarrow> memory_bytes \<Rightarrow> bool" where
  "MemoryBytes_eq x y \<longleftrightarrow> mb_start x = mb_start y \<and> mb_values x = mb_values y"

definition MemoryBytes_less :: "memory_bytes \<Rightarrow> memory_bytes \<Rightarrow> bool" where
  "MemoryBytes_less x y \<longleftrightarrow>
     mb_start x < mb_start y \<or> (mb_start x = mb_start y \<and> mb_limit x < mb_limit y)"

definition append_bytes :: "byte_data \<Rightarrow> memory_bytes \<Rightarrow> memory_bytes res" where
  "append_bytes bytes b =
     (let b = b\<lparr>mb_values := mb_values b @ bytes\<rparr>
      in rbind (dcheck_status (CanConstruct (mb_start b) (mb_values b))) (\<lambda>_. ret b))"

text \<open>\<open>std::string::substr(offset, length)\<close>: an offset behind the end throws.\<close>

definition substr :: "byte_data \<Rightarrow> byte_size \<Rightarrow> byte_size \<Rightarrow> byte_data res" where
  "substr bs offset len =
     (if unat offset \<le> length bs then ret (take (unat len) (drop (unat offset) bs))
      else abort (Undefined ''std::out_of_range''))"

definition MemoryBytes_Range :: "address \<Rightarrow> address \<Rightarrow> memory_bytes \<Rightarrow> memory_bytes res" where
  "MemoryBytes_Range start limit b =
     rbind (check (mb_start b \<le> start) ''start >= start_address_'') (\<lambda>_.
     rbind (check (limit \<le> mb_limit b) ''limit <= limit_address()'') (\<lambda>_.
     rbind (substr (mb_values b) (start - mb_start b) (limit - start)) (\<lambda>bs.
     new_memory_bytes start bs)))"

text \<open>The order \<open>operator<\<close> sorts by.\<close>

definition sort_memory_bytes :: "memory_bytes list \<Rightarrow> memory_bytes list" where
  "sort_memory_bytes xs = sort_key mb_start (sort_key mb_limit xs)"

definition MemoryBytesListEq :: "memory_bytes list \<Rightarrow> memory_bytes list \<Rightarrow> bool" where
  "MemoryBytesListEq x y \<longleftrightarrow>
     length x = length y \<and> list_all2 MemoryBytes_eq (sort_memory_bytes x) (sort_memory_bytes y)"

section \<open>RegisterState and Endpoint\<close>

record register_state =
  rs_gregs :: byte_data
  rs_fpregs :: byte_data

definition RegisterState_eq :: "register_state \<Rightarrow> register_state \<Rightarrow> bool" where
  "RegisterState_eq x y \<longleftrightarrow> rs_gregs x = rs_gregs y \<and> rs_fpregs x = rs_fpregs y"

definition RegisterState_IsUnset :: "register_state \<Rightarrow> bool" where
  "RegisterState_IsUnset x \<longleftrightarrow> rs_gregs x = [] \<and> rs_fpregs x = []"

datatype sig_num = kSigSegv | kSigTrap | kSigFPE | kSigIll | kSigBus

datatype sig_cause = kGenericSigCause | kSegvCantExec | kSegvCantWrite | kSegvCantRead
  | kSegvOverflow | kSegvGeneralProtection

datatype endpoint = kInstruction address | kSignal sig_num sig_cause address address

definition signal_endpoint :: "sig_num \<Rightarrow> sig_cause \<Rightarrow> address \<Rightarrow> address \<Rightarrow> endpoint res" where
  "signal_endpoint sig_num sig_cause sig_address sig_instruction_address =
     rbind (check ((sig_cause \<noteq> kGenericSigCause) = (sig_num = kSigSegv))
         ''(sig_cause != kGenericSigCause) == (sig_num == kSigSegv)'') (\<lambda>_.
     ret (kSignal sig_num sig_cause sig_address sig_instruction_address))"

section \<open>EndState\<close>

record end_state =
  es_changed_memory_set :: bytes_set
  es_endpoint :: endpoint
  es_registers :: register_state
  es_memory_bytes :: "memory_bytes list"
  es_platforms :: "bool list"
  es_register_checksum :: byte_data

text \<open>\<open>ToInt(kMaxPlatformId)\<close>, that is \<open>PlatformId::kNonExistent\<close>.\<close>

definition kMaxPlatformId :: nat where
  "kMaxPlatformId = 50"

definition new_end_state :: "endpoint \<Rightarrow> register_state \<Rightarrow> end_state" where
  "new_end_state endpoint registers =
     \<lparr>es_changed_memory_set = [], es_endpoint = endpoint, es_registers = registers, es_memory_bytes = [],
      es_platforms = replicate (kMaxPlatformId + 1) False, es_register_checksum = []\<rparr>"

definition EndState_DataEquals :: "end_state \<Rightarrow> end_state \<Rightarrow> bool" where
  "EndState_DataEquals x y \<longleftrightarrow>
     es_endpoint x = es_endpoint y \<and> RegisterState_eq (es_registers x) (es_registers y) \<and>
     es_register_checksum x = es_register_checksum y \<and>
     MemoryBytesListEq (es_memory_bytes x) (es_memory_bytes y)"

definition EndState_eq :: "end_state \<Rightarrow> end_state \<Rightarrow> bool" where
  "EndState_eq x y \<longleftrightarrow> EndState_DataEquals x y \<and> es_platforms x = es_platforms y"

datatype snapshot_state = kUndefinedEndState | kNormalState | kMakingState

definition EndState_empty_platforms :: "end_state \<Rightarrow> bool" where
  "EndState_empty_platforms e \<longleftrightarrow> \<not> (\<exists>x \<in> set (es_platforms e). x)"

definition EndState_IsComplete :: "snapshot_state \<Rightarrow> end_state \<Rightarrow> status" where
  "EndState_IsComplete state e =
     (if state = kUndefinedEndState \<or> state = kMakingState
      then if rs_gregs (es_registers e) \<noteq> [] \<or> rs_fpregs (es_registers e) \<noteq> []
           then InvalidArgument ''Non empty registers in EndState''
           else if es_memory_bytes e \<noteq> [] then InvalidArgument ''Non empty memory_bytes in EndState''
           else if \<not> EndState_empty_platforms e then InvalidArgument ''Non empty platforms in an EndState''
           else OkStatus
      else if rs_gregs (es_registers e) = [] \<or> rs_fpregs (es_registers e) = []
      then InvalidArgument ''Empty registers in an EndState''
      else if EndState_empty_platforms e then InvalidArgument ''Empty platforms in an EndState''
      else OkStatus)"

text \<open>A status that a function computes while it may abort.\<close>

definition EndState_can_add_memory_bytes :: "memory_bytes \<Rightarrow> end_state \<Rightarrow> status res" where
  "EndState_can_add_memory_bytes x e =
     rbind (MemoryBytesSet_IsDisjoint (mb_start x) (mb_limit x) (es_changed_memory_set e)) (\<lambda>disjoint.
     ret (if \<not> disjoint then InvalidArgument ''Overlaps with existing memory_bytes'' else OkStatus))"

definition EndState_add_memory_bytes :: "memory_bytes \<Rightarrow> end_state \<Rightarrow> end_state res" where
  "EndState_add_memory_bytes x e =
     rbind (EndState_can_add_memory_bytes x e) (\<lambda>s.
     rbind (dcheck_status s) (\<lambda>_.
     rbind (MemoryBytesSet_Add (mb_start x) (mb_limit x) (es_changed_memory_set e)) (\<lambda>set.
     ret (e\<lparr>es_changed_memory_set := set, es_memory_bytes := es_memory_bytes e @ [x]\<rparr>))))"

definition EndState_add_memory_bytes_list :: "memory_bytes list \<Rightarrow> end_state \<Rightarrow> end_state res" where
  "EndState_add_memory_bytes_list xs e = for_each EndState_add_memory_bytes xs e"

text \<open>\<open>ReplaceMemoryBytes\<close>: the loop stops at the first item that cannot be added.\<close>

fun EndState_replace_loop :: "memory_bytes list \<Rightarrow> end_state \<Rightarrow> (status \<times> end_state) res" where
  "EndState_replace_loop [] e = ret (OkStatus, e)"
| "EndState_replace_loop (x # xs) e =
     rbind (EndState_can_add_memory_bytes x e) (\<lambda>s.
     if s \<noteq> OkStatus then ret (s, e)
     else rbind (EndState_add_memory_bytes x e) (EndState_replace_loop xs))"

definition EndState_ReplaceMemoryBytes :: "memory_bytes list \<Rightarrow> end_state \<Rightarrow> (status \<times> end_state) res" where
  "EndState_ReplaceMemoryBytes xs e =
     EndState_replace_loop xs
       (e\<lparr>es_changed_memory_set := MemoryBytesSet_clear (es_changed_memory_set e), es_memory_bytes := []\<rparr>)"

text \<open>Platforms are given by \<open>ToInt(platform)\<close>; an access out of the vector is undefined.\<close>

definition EndState_has_platform :: "nat \<Rightarrow> end_state \<Rightarrow> bool res" where
  "EndState_has_platform p e =
     (if p < length (es_platforms e) then ret (es_platforms e ! p) else abort (Undefined ''platforms_[i]''))"

definition EndState_add_platform :: "nat \<Rightarrow> end_state \<Rightarrow> end_state res" where
  "EndState_add_platform p e =
     (if p < length (es_platforms e) then ret (e\<lparr>es_platforms := (es_platforms e)[p := True]\<rparr>)
      else abort (Undefined ''platforms_[i]''))"

definition EndState_platforms :: "end_state \<Rightarrow> nat list" where
  "EndState_platforms e = filter (\<lambda>p. es_platforms e ! p) [0..<length (es_platforms e)]"

definition set_one_platform :: "nat \<Rightarrow> end_state \<Rightarrow> end_state res" where
  "set_one_platform i e =
     rbind (check (i < kMaxPlatformId) ''i < ToInt(kMaxPlatformId)'') (\<lambda>_.
     ret (e\<lparr>es_platforms := (es_platforms e)[i := True]\<rparr>))"

definition EndState_set_platforms :: "nat list \<Rightarrow> end_state \<Rightarrow> end_state res" where
  "EndState_set_platforms platforms e =
     for_each set_one_platform platforms (e\<lparr>es_platforms := replicate (kMaxPlatformId + 1) False\<rparr>)"

definition EndState_set_registers :: "register_state \<Rightarrow> end_state \<Rightarrow> end_state" where
  "EndState_set_registers registers e = e\<lparr>es_registers := registers\<rparr>"

definition EndState_set_register_checksum :: "byte_data \<Rightarrow> end_state \<Rightarrow> end_state" where
  "EndState_set_register_checksum c e = e\<lparr>es_register_checksum := c\<rparr>"

section \<open>Well-formed bytes\<close>

definition bytes_ok :: "memory_bytes \<Rightarrow> bool" where
  "bytes_ok b \<longleftrightarrow> mb_values b \<noteq> [] \<and> unat (mb_start b) + length (mb_values b) < 2 ^ 64"

definition bytes_range :: "memory_bytes \<Rightarrow> address set" where
  "bytes_range b = {mb_start b..<mb_limit b}"

lemma MemoryBytes_eq_iff [simp]: "MemoryBytes_eq x y \<longleftrightarrow> x = y"
  by (cases x; cases y) (simp add: MemoryBytes_eq_def)

lemma RegisterState_eq_iff [simp]: "RegisterState_eq x y \<longleftrightarrow> x = y"
  by (cases x; cases y) (simp add: RegisterState_eq_def)

lemma data_size_unat: "length bs < 2 ^ 64 \<Longrightarrow> unat (data_size bs) = length bs"
  by (simp add: data_size_def unat_of_nat_u64)

lemma CanConstruct_iff:
  assumes "length bs < 2 ^ 64"
  shows "CanConstruct s bs = OkStatus \<longleftrightarrow> bs \<noteq> [] \<and> unat s + length bs < 2 ^ 64"
proof (cases "bs = []")
  case False
  then have "CanConstruct s bs = OkStatus \<longleftrightarrow> CanMakeSized s (data_size bs) = OkStatus"
    using data_size_unat [OF assms] by (auto simp: CanConstruct_def CanMakeSized_def)
  then show ?thesis using False data_size_unat [OF assms] by (auto simp: CanMakeSized_iff)
qed (simp add: CanConstruct_def)

lemma bytes_ok_length: "bytes_ok b \<Longrightarrow> length (mb_values b) < 2 ^ 64"
  by (simp add: bytes_ok_def)

lemma bytes_ok_limit:
  assumes "bytes_ok b"
  shows "mb_start b < mb_limit b" "unat (mb_limit b) = unat (mb_start b) + length (mb_values b)"
proof -
  have b: "mb_values b \<noteq> []" "unat (mb_start b) + length (mb_values b) < 2 ^ 64"
    using assms by (simp_all add: bytes_ok_def)
  then show u: "unat (mb_limit b) = unat (mb_start b) + length (mb_values b)"
    using data_size_unat [OF bytes_ok_length [OF assms]]
    unfolding mb_limit_def by (subst unat_add_lem [THEN iffD1]) simp_all
  show "mb_start b < mb_limit b" using b(1) unfolding word_less_nat_alt u by simp
qed

lemma new_memory_bytes_ok:
  assumes "length bs < 2 ^ 64" "bs \<noteq> []" "unat s + length bs < 2 ^ 64"
  shows "new_memory_bytes s bs = ret \<lparr>mb_start = s, mb_values = bs\<rparr>" "bytes_ok \<lparr>mb_start = s, mb_values = bs\<rparr>"
  using assms CanConstruct_iff [of bs s] by (simp_all add: new_memory_bytes_def bytes_ok_def)

lemma append_bytes_ok:
  assumes "bytes_ok b" "unat (mb_limit b) + length bs < 2 ^ 64"
  shows "append_bytes bs b = ret (b\<lparr>mb_values := mb_values b @ bs\<rparr>)" "bytes_ok (b\<lparr>mb_values := mb_values b @ bs\<rparr>)"
proof -
  have "unat (mb_start b) + length (mb_values b @ bs) < 2 ^ 64"
    using assms bytes_ok_limit(2) [OF assms(1)] by simp
  then show "append_bytes bs b = ret (b\<lparr>mb_values := mb_values b @ bs\<rparr>)" "bytes_ok (b\<lparr>mb_values := mb_values b @ bs\<rparr>)"
    using assms(1) CanConstruct_iff [of "mb_values b @ bs" "mb_start b"]
    by (simp_all add: append_bytes_def bytes_ok_def Let_def)
qed

end
