(* ===== verification/Snapshot_Model.thy ===== *)
theory Snapshot_Model
  imports Snapshot_Data
begin

text \<open>
  \<open>Snapshot\<close> of \<open>common/snapshot.h\<close> and \<open>snapshot.cc\<close>: its fields and the operations on its memory
  mappings, negative mappings, memory bytes and the endpoints of its end states. A member function
  that reads gives a value, one that changes the snapshot the new snapshot. The registers are kept as
  serialised bytes; what checks them is not part of this theory.
\<close>

section \<open>The data\<close>

datatype architecture = kUnsupported | kX86_64 | kAArch64

record architecture_descr =
  ad_id :: architecture
  ad_name :: string
  ad_page_size :: u64
  ad_required_stack_size :: u64

definition kSupportedArchitectures :: "architecture_descr list" where
  "kSupportedArchitectures =
     [\<lparr>ad_id = kX86_64, ad_name = ''x86_64'', ad_page_size = 4096, ad_required_stack_size = 8 * 2\<rparr>,
      \<lparr>ad_id = kAArch64, ad_name = ''aarch64'', ad_page_size = 4096, ad_required_stack_size = 32\<rparr>]"

type_synonym snapshot_id = string

record trace_data =
  td_num_instructions :: u64
  td_disassembly :: string
  td_platforms :: "nat list"

record snapshot =
  snap_id :: snapshot_id
  snap_architecture :: architecture
  snap_mapped_memory_map :: mapped_map
  snap_negative_mapped_memory_map :: mapped_map
  snap_written_memory_set :: bytes_set
  snap_memory_mappings :: "memory_mapping list"
  snap_negative_memory_mappings :: "memory_mapping list"
  snap_memory_bytes :: "memory_bytes list"
  snap_registers :: "register_state option"
  snap_expected_end_states :: "end_state list"
  snap_metadata :: "nat \<times> string"
  snap_trace_metadata :: "trace_data list"

definition UnsetId :: snapshot_id where
  "UnsetId = ''has_not_been_set''"

definition ascii_isalnum :: "char \<Rightarrow> bool" where
  "ascii_isalnum c \<longleftrightarrow>
     (let n = of_char c :: nat in 48 \<le> n \<and> n \<le> 57 \<or> 65 \<le> n \<and> n \<le> 90 \<or> 97 \<le> n \<and> n \<le> 122)"

definition IsValidId :: "snapshot_id \<Rightarrow> status" where
  "IsValidId i =
     (if i = UnsetId then OkStatus
      else if i = [] then InvalidArgument ''Snapshot.id cannot be empty''
      else if \<exists>c \<in> set i. \<not> ascii_isalnum c \<and> c \<noteq> CHR ''_'' \<and> c \<noteq> CHR ''-''
      then InvalidArgument ''is not a valid Snapshot.id character''
      else OkStatus)"

definition architecture_descr :: "architecture \<Rightarrow> architecture_descr option" where
  "architecture_descr a = find (\<lambda>d. ad_id d = a) kSupportedArchitectures"

definition new_snapshot :: "architecture \<Rightarrow> snapshot_id \<Rightarrow> snapshot res" where
  "new_snapshot a i =
     rbind (dcheck_status (IsValidId i)) (\<lambda>_.
     rbind (check (a \<noteq> kUnsupported \<and> architecture_descr a \<noteq> None) ''Unsupported architecture'') (\<lambda>_.
     ret \<lparr>snap_id = i, snap_architecture = a, snap_mapped_memory_map = [],
          snap_negative_mapped_memory_map = [], snap_written_memory_set = [], snap_memory_mappings = [],
          snap_negative_memory_mappings = [], snap_memory_bytes = [], snap_registers = None,
          snap_expected_end_states = [], snap_metadata = (0, []), snap_trace_metadata = []\<rparr>))"

definition page_size :: "snapshot \<Rightarrow> u64" where
  "page_size s = (case architecture_descr (snap_architecture s) of None \<Rightarrow> 0 | Some d \<Rightarrow> ad_page_size d)"

definition required_stack_size :: "snapshot \<Rightarrow> u64" where
  "required_stack_size s =
     (case architecture_descr (snap_architecture s) of None \<Rightarrow> 0 | Some d \<Rightarrow> ad_required_stack_size d)"

definition set_id :: "snapshot_id \<Rightarrow> snapshot \<Rightarrow> snapshot res" where
  "set_id i s = rbind (dcheck_status (IsValidId i)) (\<lambda>_. ret (s\<lparr>snap_id := i\<rparr>))"

section \<open>Statuses in operations that may abort\<close>

text \<open>\<open>if (b) return error;\<close> in front of the rest.\<close>

definition reject_if :: "bool \<Rightarrow> string \<Rightarrow> status res \<Rightarrow> status res" where
  "reject_if b msg rest = (if b then ret (InvalidArgument msg) else rest)"

lemma reject_if_Ok [simp]: "reject_if b msg rest = ret OkStatus \<longleftrightarrow> \<not> b \<and> rest = ret OkStatus"
  by (simp add: reject_if_def)

text \<open>\<open>DCHECK_STATUS(f())\<close>\<close>

definition dcheck_res :: "status res \<Rightarrow> unit res" where
  "dcheck_res m = rbind m dcheck_status"

section \<open>Memory mappings\<close>

definition can_add_memory_mapping :: "memory_mapping \<Rightarrow> snapshot \<Rightarrow> status res" where
  "can_add_memory_mapping x s =
     reject_if (MemoryPerms_IsEmpty (mm_perms x)) ''Has empty perms''
     (reject_if (mm_start x = mm_limit x) ''Is empty''
     (reject_if (mm_start x mod page_size s \<noteq> 0 \<or> mm_limit x mod page_size s \<noteq> 0) ''Is not page-aligned''
     (rbind (MappedMemoryMap_Overlaps (mm_start x) (mm_limit x) (snap_mapped_memory_map s)) (\<lambda>overlaps.
      reject_if overlaps ''Overlaps with existing memory_mappings''
     (rbind (MappedMemoryMap_Perms (mm_start x) (mm_limit x) kOr (snap_negative_mapped_memory_map s)) (\<lambda>negative.
      reject_if (MemoryPerms_HasSomeOf (mm_perms x) negative) ''Conflicts with existing negative_memory_mappings''
     (ret OkStatus)))))))"

definition add_memory_mapping :: "memory_mapping \<Rightarrow> snapshot \<Rightarrow> snapshot res" where
  "add_memory_mapping x s =
     rbind (dcheck_res (can_add_memory_mapping x s)) (\<lambda>_.
     rbind (MappedMemoryMap_AddNew (mm_start x) (mm_limit x) (mm_perms x) (snap_mapped_memory_map s)) (\<lambda>m.
     ret (s\<lparr>snap_mapped_memory_map := m, snap_memory_mappings := snap_memory_mappings s @ [x]\<rparr>)))"

definition set_memory_mapping_perms :: "memory_mapping \<Rightarrow> int \<Rightarrow> snapshot \<Rightarrow> snapshot res" where
  "set_memory_mapping_perms x i s =
     rbind (check (\<not> MemoryPerms_IsEmpty (mm_perms x)) ''!x.perms().IsEmpty()'') (\<lambda>_.
     rbind (check (0 \<le> i \<and> i < int (length (snap_memory_mappings s))) ''memory_mappings_index'') (\<lambda>_.
     let m = snap_memory_mappings s ! nat i in
     rbind (check (mm_start m = mm_start x \<and> mm_limit m = mm_limit x) ''m matches x'') (\<lambda>_.
     rbind (MappedMemoryMap_Set (mm_start x) (mm_limit x) (mm_perms x) (snap_mapped_memory_map s)) (\<lambda>map.
     ret (s\<lparr>snap_memory_mappings := (snap_memory_mappings s)[nat i := x], snap_mapped_memory_map := map\<rparr>)))))"

definition can_add_negative_memory_mapping :: "memory_mapping \<Rightarrow> bool \<Rightarrow> snapshot \<Rightarrow> status res" where
  "can_add_negative_memory_mapping x overlap_ok s =
     reject_if (MemoryPerms_IsEmpty (mm_perms x)) ''Has empty perms''
     (reject_if (mm_start x = mm_limit x) ''Is empty''
     (reject_if (mm_start x mod page_size s \<noteq> 0 \<or> (mm_limit x mod page_size s \<noteq> 0 \<and> mm_limit x \<noteq> kMaxAddress))
        ''Negative is not page-aligned''
     (rbind (if \<not> overlap_ok
             then MappedMemoryMap_Overlaps (mm_start x) (mm_limit x) (snap_negative_mapped_memory_map s)
             else ret False) (\<lambda>overlaps.
      reject_if overlaps ''Overlaps with existing negative_memory_mappings''
     (rbind (MappedMemoryMap_Perms (mm_start x) (mm_limit x) kOr (snap_mapped_memory_map s)) (\<lambda>mapped.
      reject_if (MemoryPerms_HasSomeOf (mm_perms x) mapped) ''Conflicts with existing memory_mappings''
     (ret OkStatus)))))))"

definition add_negative_memory_mapping :: "memory_mapping \<Rightarrow> snapshot \<Rightarrow> snapshot res" where
  "add_negative_memory_mapping x s =
     rbind (dcheck_res (can_add_negative_memory_mapping x False s)) (\<lambda>_.
     rbind (MappedMemoryMap_AddNew (mm_start x) (mm_limit x) (mm_perms x) (snap_negative_mapped_memory_map s)) (\<lambda>m.
     ret (s\<lparr>snap_negative_mapped_memory_map := m,
            snap_negative_memory_mappings := snap_negative_memory_mappings s @ [x]\<rparr>)))"

text \<open>A list of mappings made from a map: \<open>SortedMemoryMappingList\<close>, and the same loop elsewhere.\<close>

definition SortedMemoryMappingList :: "mapped_map \<Rightarrow> memory_mapping list res" where
  "SortedMemoryMappingList m =
     MappedMemoryMap_Iterate (\<lambda>start limit perms ms.
       rbind (MakeRanged start limit perms) (\<lambda>x. ret (ms @ [x]))) m []"

definition add_negative_memory_mapping_overlap_ok :: "memory_mapping \<Rightarrow> snapshot \<Rightarrow> snapshot res" where
  "add_negative_memory_mapping_overlap_ok x s =
     rbind (dcheck_res (can_add_negative_memory_mapping x True s)) (\<lambda>_.
     rbind (MappedMemoryMap_Overlaps (mm_start x) (mm_limit x) (snap_negative_mapped_memory_map s)) (\<lambda>overlaps.
     if overlaps
     then rbind (MappedMemoryMap_Add (mm_start x) (mm_limit x) (mm_perms x) (snap_negative_mapped_memory_map s)) (\<lambda>m.
          rbind (SortedMemoryMappingList m) (\<lambda>ms.
          ret (s\<lparr>snap_negative_mapped_memory_map := m, snap_negative_memory_mappings := ms\<rparr>)))
     else rbind (MappedMemoryMap_AddNew (mm_start x) (mm_limit x) (mm_perms x) (snap_negative_mapped_memory_map s)) (\<lambda>m.
          ret (s\<lparr>snap_negative_mapped_memory_map := m,
                 snap_negative_memory_mappings := snap_negative_memory_mappings s @ [x]\<rparr>))))"

definition set_negative_memory_mappings :: "memory_mapping list \<Rightarrow> snapshot \<Rightarrow> snapshot res" where
  "set_negative_memory_mappings xs s =
     for_each add_negative_memory_mapping xs
       (s\<lparr>snap_negative_mapped_memory_map := MappedMemoryMap_Clear (snap_negative_mapped_memory_map s),
          snap_negative_memory_mappings := []\<rparr>)"

text \<open>\<open>AddNegativeMemoryMappingsFor\<close>: what the signal needs to be unmapped, and the page it is for.\<close>

definition segv_negative_perms :: "sig_cause \<Rightarrow> memory_perms option res" where
  "segv_negative_perms cause =
     (case cause of
        kSegvGeneralProtection \<Rightarrow> ret None
      | kSegvOverflow \<Rightarrow> ret None
      | kSegvCantExec \<Rightarrow> ret (Some (MemoryPerms_AddPermission kExecutable MemoryPerms_None))
      | kSegvCantWrite \<Rightarrow> ret (Some (MemoryPerms_AddPermission kWritable MemoryPerms_None))
      | kSegvCantRead \<Rightarrow> ret (Some (MemoryPerms_AddPermission kReadable MemoryPerms_None))
      | kGenericSigCause \<Rightarrow> abort (Check_failed ''unreachable''))"

definition fixup_negative_perms :: "architecture \<Rightarrow> sig_cause \<Rightarrow> memory_perms \<Rightarrow> memory_perms res" where
  "fixup_negative_perms a cause perms =
     (if a = kAArch64 \<or> a = kX86_64
      then ret (if cause = kSegvCantRead
                then MemoryPerms_AddPermission kWritable (MemoryPerms_AddPermission kExecutable perms) else perms)
      else abort (Check_failed ''Implement proper fixups if any''))"

definition AddNegativeMemoryMappingsFor :: "end_state \<Rightarrow> snapshot \<Rightarrow> (status \<times> snapshot) res" where
  "AddNegativeMemoryMappingsFor x s =
     (case es_endpoint x of
        kSignal kSigSegv cause sig_address _ \<Rightarrow>
          rbind (segv_negative_perms cause) (\<lambda>p. case p of None \<Rightarrow> ret (OkStatus, s) | Some p \<Rightarrow>
          rbind (fixup_negative_perms (snap_architecture s) cause p) (\<lambda>p.
          let is_last_page = sig_address \<ge> kMaxAddress - page_size s + 1;
              page = sig_address div page_size s;
              start = page * page_size s;
              size = (if is_last_page then page_size s - 1 else page_size s)
          in if CanMakeSized start size \<noteq> OkStatus then ret (CanMakeSized start size, s)
             else rbind (MakeSized start size p) (\<lambda>m.
                  rbind (can_add_negative_memory_mapping m True s) (\<lambda>st.
                  if st \<noteq> OkStatus then ret (st, s)
                  else rbind (add_negative_memory_mapping_overlap_ok m s) (\<lambda>s. ret (OkStatus, s))))))
      | _ \<Rightarrow> ret (OkStatus, s))"

section \<open>Memory bytes\<close>

definition can_add_memory_bytes :: "memory_bytes \<Rightarrow> snapshot \<Rightarrow> status res" where
  "can_add_memory_bytes x s =
     rbind (MappedMemoryMap_Contains (mb_start x) (mb_limit x) (snap_mapped_memory_map s)) (\<lambda>contained.
     reject_if (\<not> contained) ''Not fully contained in existing memory_mappings''
     (rbind (MemoryBytesSet_IsDisjoint (mb_start x) (mb_limit x) (snap_written_memory_set s)) (\<lambda>disjoint.
      reject_if (\<not> disjoint) ''Overlaps with existing memory_bytes'' (ret OkStatus))))"

definition add_memory_bytes :: "memory_bytes \<Rightarrow> snapshot \<Rightarrow> snapshot res" where
  "add_memory_bytes x s =
     rbind (dcheck_res (can_add_memory_bytes x s)) (\<lambda>_.
     rbind (MemoryBytesSet_Add (mb_start x) (mb_limit x) (snap_written_memory_set s)) (\<lambda>w.
     ret (s\<lparr>snap_written_memory_set := w, snap_memory_bytes := snap_memory_bytes s @ [x]\<rparr>)))"

fun replace_memory_bytes_loop :: "memory_bytes list \<Rightarrow> snapshot \<Rightarrow> (status \<times> snapshot) res" where
  "replace_memory_bytes_loop [] s = ret (OkStatus, s)"
| "replace_memory_bytes_loop (x # xs) s =
     rbind (can_add_memory_bytes x s) (\<lambda>st.
     if st \<noteq> OkStatus then ret (st, s)
     else rbind (add_memory_bytes x s) (replace_memory_bytes_loop xs))"

definition ReplaceMemoryBytes :: "memory_bytes list \<Rightarrow> snapshot \<Rightarrow> (status \<times> snapshot) res" where
  "ReplaceMemoryBytes xs s =
     replace_memory_bytes_loop xs
       (s\<lparr>snap_written_memory_set := MemoryBytesSet_clear (snap_written_memory_set s), snap_memory_bytes := []\<rparr>)"

definition MappedMemoryIsDefined :: "snapshot \<Rightarrow> bool res" where
  "MappedMemoryIsDefined s =
     rbind (for_each (\<lambda>b. MappedMemoryMap_Remove (mb_start b) (mb_limit b) MemoryPerms_AllPlusMapped)
              (snap_memory_bytes s) (MappedMemoryMap_Copy (snap_mapped_memory_map s)))
       (\<lambda>copy. ret (MappedMemoryMap_IsEmpty copy))"

section \<open>Normalisation\<close>

definition NormalizeMemoryMappings :: "snapshot \<Rightarrow> snapshot res" where
  "NormalizeMemoryMappings s =
     rbind (SortedMemoryMappingList (snap_mapped_memory_map s)) (\<lambda>ms.
     rbind (SortedMemoryMappingList (snap_negative_mapped_memory_map s)) (\<lambda>ns.
     ret (s\<lparr>snap_memory_mappings := ms, snap_negative_memory_mappings := ns\<rparr>)))"

text \<open>
  \<open>NormalizeMemoryBytes\<close>: the state is the address of the next chunk, the permissions of the last element and
  the new list. One round of the inner loop over the old element \<open>b\<close>.
\<close>

definition normalize_chunk ::
    "mapped_map \<Rightarrow> memory_bytes \<Rightarrow> address \<times> memory_perms \<times> memory_bytes list
       \<Rightarrow> (memory_perms \<times> memory_bytes list, address \<times> memory_perms \<times> memory_bytes list) iter res" where
  "normalize_chunk memory_map b = (\<lambda>(chunk_start, perms, bs).
     if \<not> chunk_start < mb_limit b then ret (Break (perms, bs))
     else rbind (MappedMemoryMap_MappingAt chunk_start memory_map) (\<lambda>m.
          case m of None \<Rightarrow> abort (Check_failed ''memory_mapping.has_value()'') | Some m \<Rightarrow>
          let chunk_limit = min (mb_limit b) (mm_limit m) in
          rbind (if chunk_start = mb_start b \<and> chunk_limit = mb_limit b then ret b
                 else MemoryBytes_Range chunk_start chunk_limit b) (\<lambda>chunk.
          if bs \<noteq> [] \<and> mb_start chunk = mb_limit (last bs) \<and> mm_perms m = perms
          then rbind (append_bytes (mb_values chunk) (last bs)) (\<lambda>l.
               ret (Continue (chunk_limit, perms, butlast bs @ [l])))
          else ret (Continue (chunk_limit, mm_perms m, bs @ [chunk])))))"

definition normalize_one ::
    "mapped_map \<Rightarrow> memory_bytes \<Rightarrow> memory_perms \<times> memory_bytes list \<Rightarrow> (memory_perms \<times> memory_bytes list) res" where
  "normalize_one memory_map b = (\<lambda>(perms, bs). rloop (normalize_chunk memory_map b) (mb_start b, perms, bs))"

definition NormalizeMemoryBytes_list :: "mapped_map \<Rightarrow> memory_bytes list \<Rightarrow> memory_bytes list res" where
  "NormalizeMemoryBytes_list memory_map xs =
     rbind (for_each (normalize_one memory_map) (sort_memory_bytes xs) (MemoryPerms_None, []))
       (\<lambda>(_, bs). ret bs)"

definition normalize_end_states :: "mapped_map \<Rightarrow> end_state list \<Rightarrow> end_state list res" where
  "normalize_end_states memory_map es =
     for_each (\<lambda>e done_states. rbind (NormalizeMemoryBytes_list memory_map (es_memory_bytes e)) (\<lambda>bs.
       ret (done_states @ [e\<lparr>es_memory_bytes := bs\<rparr>]))) es []"

definition NormalizeMemoryBytes :: "snapshot \<Rightarrow> snapshot res" where
  "NormalizeMemoryBytes s =
     rbind (NormalizeMemoryBytes_list (snap_mapped_memory_map s) (snap_memory_bytes s)) (\<lambda>bs.
     rbind (normalize_end_states (snap_mapped_memory_map s) (snap_expected_end_states s)) (\<lambda>es.
     ret (s\<lparr>snap_memory_bytes := bs, snap_expected_end_states := es\<rparr>)))"

definition NormalizeAll :: "snapshot \<Rightarrow> snapshot res" where
  "NormalizeAll s = rbind (NormalizeMemoryMappings s) NormalizeMemoryBytes"

section \<open>End states\<close>

definition TryRemoveUndefinedEndStates :: "snapshot \<Rightarrow> bool \<times> snapshot" where
  "TryRemoveUndefinedEndStates s =
     (let states = snap_expected_end_states s;
          new = (if \<exists>x \<in> set states. EndState_IsComplete kNormalState x = OkStatus
                 then filter (\<lambda>x. EndState_IsComplete kUndefinedEndState x \<noteq> OkStatus) states else states)
      in (length states \<noteq> length new, s\<lparr>snap_expected_end_states := new\<rparr>))"

definition Snapshot_PermsAt :: "address \<Rightarrow> snapshot \<Rightarrow> memory_perms" where
  "Snapshot_PermsAt a s = MappedMemoryMap_PermsAt a (snap_mapped_memory_map s)"

definition Snapshot_Perms :: "address \<Rightarrow> address \<Rightarrow> join_mode \<Rightarrow> snapshot \<Rightarrow> memory_perms res" where
  "Snapshot_Perms start limit mode s = MappedMemoryMap_Perms start limit mode (snap_mapped_memory_map s)"

definition IsExecutable :: "address \<Rightarrow> byte_size \<Rightarrow> snapshot \<Rightarrow> (status + bool) res" where
  "IsExecutable a n s =
     (if CanMakeSized a n \<noteq> OkStatus then ret (Inl (CanMakeSized a n))
      else rbind (MappedMemoryMap_Perms a (a + n) kAnd (snap_mapped_memory_map s)) (\<lambda>p.
           ret (Inr (MemoryPerms_HasPermission p kExecutable))))"

text \<open>\<open>num_pages\<close>: the sum is an \<open>int\<close>, the sizes are 64-bit and unsigned, so each addition is made
  on 64 bits and truncated to 32.\<close>

fun num_pages_loop :: "memory_mapping list \<Rightarrow> u32 \<Rightarrow> u32" where
  "num_pages_loop [] r = r"
| "num_pages_loop (m # ms) r = num_pages_loop ms (ucast (scast r + mm_num_bytes m :: u64))"

definition num_pages :: "snapshot \<Rightarrow> u32 res" where
  "num_pages s =
     (let r = num_pages_loop (snap_memory_mappings s) 0
      in rbind (check ((scast r :: u64) mod page_size s = 0) ''r % page_size() == 0'') (\<lambda>_.
         ret (ucast (scast r div page_size s :: u64))))"

end
