(* ===== verification/Snapshot_Invariant.thy ===== *)
theory Snapshot_Invariant
  imports Snapshot_Model
begin

text \<open>
  The invariant of a \<open>Snapshot\<close>: the two maps hold exactly the mappings of the two lists, the mappings of
  each list are disjoint, positive and negative mappings do not conflict, and the memory bytes are
  disjoint, inside the mappings, and their addresses are the written set. The operations that add
  mappings and bytes succeed exactly under the conditions their checks are meant to express and keep it.
\<close>

section \<open>Lists of mappings\<close>

definition mapping_range :: "memory_mapping \<Rightarrow> address set" where
  "mapping_range m = {mm_start m..<mm_limit m}"

definition mappings_at :: "memory_mapping list \<Rightarrow> address \<Rightarrow> memory_perms option" where
  "mappings_at ms k = map_option mm_perms (find (\<lambda>m. k \<in> mapping_range m) ms)"

definition mappings_ok :: "memory_mapping list \<Rightarrow> bool" where
  "mappings_ok ms \<longleftrightarrow> (\<forall>m \<in> set ms. mapping_ok m \<and> \<not> MemoryPerms_IsEmpty (mm_perms m)) \<and>
     sorted_wrt (\<lambda>m n. mapping_range m \<inter> mapping_range n = {}) ms"

lemma mappings_at_Nil [simp]: "mappings_at [] k = None"
  by (simp add: mappings_at_def)

lemma mappings_at_Cons:
  "mappings_at (m # ms) k = (if k \<in> mapping_range m then Some (mm_perms m) else mappings_at ms k)"
  by (simp add: mappings_at_def)

lemma mappings_at_append:
  "mappings_at (xs @ ys) k = (case mappings_at xs k of None \<Rightarrow> mappings_at ys k | Some p \<Rightarrow> Some p)"
  by (induction xs) (simp_all add: mappings_at_Cons)

lemma mappings_at_None: "mappings_at ms k = None \<longleftrightarrow> (\<forall>m \<in> set ms. k \<notin> mapping_range m)"
  by (auto simp: mappings_at_def find_None_iff)

lemma mappings_at_SomeD: "mappings_at ms k = Some p \<Longrightarrow> \<exists>m \<in> set ms. k \<in> mapping_range m \<and> mm_perms m = p"
  by (induction ms) (auto simp: mappings_at_Cons split: if_splits)

lemma mappings_ok_Nil [simp]: "mappings_ok []"
  by (simp add: mappings_ok_def)

lemma mappings_ok_append1:
  "mappings_ok (ms @ [x]) \<longleftrightarrow> mappings_ok ms \<and> mapping_ok x \<and> \<not> MemoryPerms_IsEmpty (mm_perms x) \<and>
     (\<forall>m \<in> set ms. mapping_range m \<inter> mapping_range x = {})"
  by (auto simp: mappings_ok_def sorted_wrt_append)

lemma mappings_at_no_kMapped: "mappings_ok ms \<Longrightarrow> mappings_at ms k = Some p \<Longrightarrow> kMapped \<notin> perms_set p"
  using mappings_at_SomeD [of ms k p] by (auto simp: mappings_ok_def dest!: mapping_ok_mapped)

lemma mappings_at_nonempty: "mappings_ok ms \<Longrightarrow> mappings_at ms k = Some p \<Longrightarrow> perms_set p \<noteq> {} \<and> perms_ok p"
  using mappings_at_SomeD [of ms k p] by (auto simp: mappings_ok_def mapping_ok_def perms_set_empty)

lemma disjoint_from_mappings:
  "(\<forall>m \<in> set ms. mapping_range m \<inter> A = {}) \<longleftrightarrow> (\<forall>k \<in> A. mappings_at ms k = None)"
  by (auto simp: mappings_at_None)

text \<open>A map and a list with the same content.\<close>

definition represents :: "memory_mapping list \<Rightarrow> mapped_map \<Rightarrow> bool" where
  "represents ms m \<longleftrightarrow> mappings_ok ms \<and> mapped_map_ok m \<and> (\<forall>k. perms_at m k = mappings_at ms k)"

lemma represents_Nil [simp]: "represents [] []"
  by (simp add: represents_def)

lemma mapping_params:
  assumes "mapping_ok x"
  shows "mm_start x < mm_limit x" "perms_ok (mm_perms x)" "kMapped \<notin> perms_set (mm_perms x)"
  using assms mapping_ok_limit [OF assms] mapping_ok_mapped [OF assms] by (simp_all add: mapping_ok_def)

lemma mem_mapping_range: "k \<in> mapping_range m \<longleftrightarrow> mm_start m \<le> k \<and> k < mm_limit m"
  by (simp add: mapping_range_def)

lemma represents_add:
  assumes r: "represents ms m" and x: "mapping_ok x" "\<not> MemoryPerms_IsEmpty (mm_perms x)"
    and free: "\<forall>k \<in> mapping_range x. mappings_at ms k = None"
  shows "returns (represents (ms @ [x])) (MappedMemoryMap_AddNew (mm_start x) (mm_limit x) (mm_perms x) m)"
proof -
  note p = mapping_params [OF x(1)]
  have m: "mapped_map_ok m" "\<And>k. perms_at m k = mappings_at ms k" using r by (simp_all add: represents_def)
  have "returns (holds (on_keys (mm_start x) (mm_limit x) (\<lambda>_. Some (mm_perms x)) (perms_at m)))
      (MappedMemoryMap_AddNew (mm_start x) (mm_limit x) (mm_perms x) m)"
    using free by (intro AddNew_returns [OF m(1) p(1,2) x(2)]) (simp add: m(2) mem_mapping_range)
  moreover have "represents (ms @ [x]) m'"
    if "holds (on_keys (mm_start x) (mm_limit x) (\<lambda>_. Some (mm_perms x)) (perms_at m)) m'" for m'
  proof -
    have "perms_at m' k = mappings_at (ms @ [x]) k" for k
      using free holds_at [OF that]
      by (auto simp: on_keys_def m(2) mappings_at_append mappings_at_Cons mem_mapping_range split: option.splits)
    moreover have "\<forall>n \<in> set ms. mapping_range n \<inter> mapping_range x = {}"
      using free disjoint_from_mappings by blast
    ultimately show ?thesis
      using r x holds_ok [OF that] by (simp add: represents_def mappings_ok_append1)
  qed
  ultimately show ?thesis by (rule returns_mono)
qed

lemma represents_overlaps:
  assumes "represents ms m" "mapping_ok x"
  shows "MappedMemoryMap_Overlaps (mm_start x) (mm_limit x) m = ret (\<exists>k \<in> mapping_range x. mappings_at ms k \<noteq> None)"
  using assms Overlaps_eq [of m "mm_start x" "mm_limit x"] mapping_params(1) [OF assms(2)]
  by (auto simp: represents_def mapping_range_def Bex_def)

text \<open>Permissions that some address of a range and a mapping share.\<close>

definition conflicts :: "memory_mapping \<Rightarrow> memory_mapping list \<Rightarrow> bool" where
  "conflicts x ms \<longleftrightarrow> (\<exists>k \<in> mapping_range x. \<exists>q. mappings_at ms k = Some q \<and> perms_set (mm_perms x) \<inter> perms_set q \<noteq> {})"

lemma represents_conflicts:
  assumes "represents ms m" "mapping_ok x"
  shows "returns (\<lambda>r. MemoryPerms_HasSomeOf (mm_perms x) r \<longleftrightarrow> conflicts x ms)
    (MappedMemoryMap_Perms (mm_start x) (mm_limit x) kOr m)"
proof -
  have m: "mapped_map_ok m" "\<And>k. perms_at m k = mappings_at ms k" using assms(1) by (simp_all add: represents_def)
  show ?thesis
    using Perms_returns [OF m(1) mapping_params(1) [OF assms(2)], of kOr]
    by (rule returns_mono)
      (auto simp: perms_set_meet conflicts_def mapping_range_def m(2) set_eq_iff Bex_def)
qed

text \<open>The list of a map.\<close>

definition entry_mapping :: "(address, memory_perms) entry \<Rightarrow> memory_mapping" where
  "entry_mapping e = \<lparr>mm_start = entry_start e, mm_num_bytes = entry_limit e - entry_start e, mm_perms = snd e\<rparr>"

lemma entry_mapping_simps [simp]:
  "mm_start (entry_mapping e) = entry_start e" "mm_limit (entry_mapping e) = entry_limit e"
  "mm_perms (entry_mapping e) = snd e"
  by (simp_all add: entry_mapping_def mm_limit_def)

lemma mapping_range_entry [simp]: "mapping_range (entry_mapping e) = {entry_start e..<entry_limit e}"
  by (simp add: mapping_range_def)

lemma sorted_list_loop:
  assumes "\<forall>e \<in> set es. entry_start e < entry_limit e \<and> kMapped \<notin> perms_set (snd e)"
  shows "for_each (\<lambda>i ms. rbind (MakeRanged (entry_start i) (entry_limit i) (snd i)) (\<lambda>x. ret (ms @ [x]))) es ms =
    ret (ms @ map entry_mapping es)"
  using assms by (induction es arbitrary: ms) (simp_all add: MakeRanged_ok entry_mapping_def)

lemma SortedMemoryMappingList_eq:
  assumes "mapped_map_ok m" "\<forall>e \<in> set m. kMapped \<notin> perms_set (snd e)"
  shows "SortedMemoryMappingList m = ret (map entry_mapping m)"
  unfolding SortedMemoryMappingList_def MappedMemoryMap_Iterate_def
  using sorted_list_loop [of m "[]"] assms entry_pos [OF assms(1)] by simp

lemma mappings_at_entries: "mappings_at (map entry_mapping m) k = perms_at m k"
  by (induction m) (simp_all add: mappings_at_Cons perms_at_def)

lemma mappings_ok_entries:
  assumes "mapped_map_ok m" "\<forall>e \<in> set m. kMapped \<notin> perms_set (snd e) \<and> \<not> MemoryPerms_IsEmpty (snd e)"
  shows "mappings_ok (map entry_mapping m)"
proof -
  have "mapping_ok (entry_mapping e)" if "e \<in> set m" for e
    using that assms entry_pos [OF assms(1) that] entry_perms_ok [OF assms(1) that]
      CanMakeRanged_iff [of "entry_start e" "entry_limit e"]
    by (simp add: mapping_ok_def entry_mapping_def HasPermission_iff CanMakeRanged_def)
  moreover have "sorted_wrt (\<lambda>e f. entry_limit e \<le> entry_start f) m"
    using ranges_of_ok [OF assms(1)] by (simp add: ranges_ok_def)
  then have "sorted_wrt (\<lambda>e f. {entry_start e..<entry_limit e} \<inter> {entry_start f..<entry_limit f} = {}) m"
    by (rule sorted_wrt_mono_rel [rotated]) (auto simp: not_less intro: order_trans)
  ultimately show ?thesis using assms(2) by (simp add: mappings_ok_def sorted_wrt_map)
qed

lemma represents_entries:
  assumes "represents ms m"
  shows "represents (map entry_mapping m) m" "SortedMemoryMappingList m = ret (map entry_mapping m)"
proof -
  have m: "mapped_map_ok m" "mappings_ok ms" "\<And>k. perms_at m k = mappings_at ms k"
    using assms by (simp_all add: represents_def)
  have e: "kMapped \<notin> perms_set (snd e) \<and> perms_set (snd e) \<noteq> {} \<and> perms_ok (snd e)" if "e \<in> set m" for e
  proof -
    have "perms_at m (entry_start e) = Some (snd e)"
      using perms_at_entry [OF m(1) that] entry_pos [OF m(1) that] by simp
    then show ?thesis using mappings_at_no_kMapped [OF m(2)] mappings_at_nonempty [OF m(2)] m(3) by metis
  qed
  then show "represents (map entry_mapping m) m"
    using m(1) by (simp add: represents_def mappings_ok_entries mappings_at_entries perms_set_empty)
  show "SortedMemoryMappingList m = ret (map entry_mapping m)"
    using SortedMemoryMappingList_eq [OF m(1)] e by blast
qed

section \<open>The invariant\<close>

definition no_conflict :: "memory_mapping list \<Rightarrow> memory_mapping list \<Rightarrow> bool" where
  "no_conflict ms ns \<longleftrightarrow> (\<forall>k p q. mappings_at ms k = Some p \<and> mappings_at ns k = Some q \<longrightarrow> perms_set p \<inter> perms_set q = {})"

definition bytes_represent :: "memory_bytes list \<Rightarrow> bytes_set \<Rightarrow> bool" where
  "bytes_represent bs w \<longleftrightarrow> bytes_set_ok w \<and> (\<forall>b \<in> set bs. bytes_ok b) \<and>
     sorted_wrt (\<lambda>a b. bytes_range a \<inter> bytes_range b = {}) bs \<and> addresses w = \<Union> (bytes_range ` set bs)"

definition mapped_addresses :: "memory_mapping list \<Rightarrow> address set" where
  "mapped_addresses ms = {k. mappings_at ms k \<noteq> None}"

definition snapshot_ok :: "snapshot \<Rightarrow> bool" where
  "snapshot_ok s \<longleftrightarrow>
     represents (snap_memory_mappings s) (snap_mapped_memory_map s) \<and>
     represents (snap_negative_memory_mappings s) (snap_negative_mapped_memory_map s) \<and>
     no_conflict (snap_memory_mappings s) (snap_negative_memory_mappings s) \<and>
     bytes_represent (snap_memory_bytes s) (snap_written_memory_set s) \<and>
     addresses (snap_written_memory_set s) \<subseteq> mapped_addresses (snap_memory_mappings s) \<and>
     snap_architecture s \<noteq> kUnsupported"

lemma page_size_4096: "snap_architecture s \<noteq> kUnsupported \<Longrightarrow> page_size s = 4096"
  by (cases "snap_architecture s") (simp_all add: page_size_def architecture_descr_def kSupportedArchitectures_def)

lemma bytes_represent_Nil [simp]: "bytes_represent [] []"
  by (simp add: bytes_represent_def)

lemma new_snapshot_ok:
  assumes "new_snapshot a i = ret s"
  shows "snapshot_ok s \<and> snap_architecture s = a"
  using assms
  by (auto simp: new_snapshot_def rbind_eq_ret check_def snapshot_ok_def no_conflict_def split: if_splits)

lemma no_conflict_append1:
  assumes "no_conflict ms ns" "\<not> conflicts x ns"
  shows "no_conflict (ms @ [x]) ns"
  unfolding no_conflict_def
proof (intro allI impI)
  fix k p q assume k: "mappings_at (ms @ [x]) k = Some p \<and> mappings_at ns k = Some q"
  show "perms_set p \<inter> perms_set q = {}"
  proof (cases "mappings_at ms k")
    case None
    then have "k \<in> mapping_range x" "p = mm_perms x"
      using k by (auto simp: mappings_at_append mappings_at_Cons split: if_splits)
    then show ?thesis using assms(2) k by (auto simp: conflicts_def)
  next
    case (Some r)
    then have "r = p" using k by (simp add: mappings_at_append)
    then show ?thesis using assms(1) Some k unfolding no_conflict_def by blast
  qed
qed

lemma no_conflict_sym: "no_conflict ms ns \<longleftrightarrow> no_conflict ns ms"
  by (auto simp: no_conflict_def)

lemma mapped_addresses_append: "mapped_addresses (xs @ ys) = mapped_addresses xs \<union> mapped_addresses ys"
  by (auto simp: mapped_addresses_def mappings_at_append split: option.splits)

section \<open>Adding a mapping\<close>

definition page_aligned :: "address \<Rightarrow> bool" where
  "page_aligned a \<longleftrightarrow> a mod 4096 = 0"

lemma can_add_memory_mapping_returns:
  assumes "snapshot_ok s" "mapping_ok x"
  shows "returns (\<lambda>st. st = OkStatus \<longleftrightarrow> \<not> MemoryPerms_IsEmpty (mm_perms x) \<and>
      page_aligned (mm_start x) \<and> page_aligned (mm_limit x) \<and>
      (\<forall>k \<in> mapping_range x. mappings_at (snap_memory_mappings s) k = None) \<and>
      \<not> conflicts x (snap_negative_memory_mappings s)) (can_add_memory_mapping x s)"
proof -
  have reps: "represents (snap_memory_mappings s) (snap_mapped_memory_map s)"
    "represents (snap_negative_memory_mappings s) (snap_negative_mapped_memory_map s)"
    and page: "page_size s = 4096"
    using assms(1) page_size_4096 by (simp_all add: snapshot_ok_def)
  obtain r where r: "MappedMemoryMap_Perms (mm_start x) (mm_limit x) kOr (snap_negative_mapped_memory_map s) = ret r"
    "MemoryPerms_HasSomeOf (mm_perms x) r \<longleftrightarrow> conflicts x (snap_negative_memory_mappings s)"
    using represents_conflicts [OF reps(2) assms(2)] by (auto elim: returnsE)
  have "mm_start x \<noteq> mm_limit x" using mapping_params(1) [OF assms(2)] by simp
  then show ?thesis
    unfolding can_add_memory_mapping_def represents_overlaps [OF reps(1) assms(2)] rbind_simps r(1) page
      page_aligned_def [symmetric]
    by (auto simp: reject_if_def r(2))
qed

lemma dcheck_res_ok: "returns (\<lambda>st. st = OkStatus) m \<Longrightarrow> dcheck_res m = ret ()"
  by (auto simp: dcheck_res_def elim!: returnsE)

lemma add_memory_mapping_returns:
  assumes s: "snapshot_ok s" and x: "mapping_ok x" and ok: "can_add_memory_mapping x s = ret OkStatus"
  shows "returns (\<lambda>s'. snapshot_ok s' \<and> (\<exists>m. s' = s\<lparr>snap_mapped_memory_map := m,
      snap_memory_mappings := snap_memory_mappings s @ [x]\<rparr>)) (add_memory_mapping x s)"
proof -
  have c: "\<not> MemoryPerms_IsEmpty (mm_perms x)" "\<forall>k \<in> mapping_range x. mappings_at (snap_memory_mappings s) k = None"
    "\<not> conflicts x (snap_negative_memory_mappings s)"
    using can_add_memory_mapping_returns [OF s x] ok by simp_all
  have "returns (represents (snap_memory_mappings s @ [x]))
      (MappedMemoryMap_AddNew (mm_start x) (mm_limit x) (mm_perms x) (snap_mapped_memory_map s))"
    using s by (intro represents_add x c) (simp add: snapshot_ok_def)
  then show ?thesis
    unfolding add_memory_mapping_def ok
    using s c(3)
    by (auto simp: dcheck_res_def snapshot_ok_def no_conflict_append1 mapped_addresses_append
        intro!: returns_rbind [where P = "represents (snap_memory_mappings s @ [x])"])
qed

section \<open>Adding a negative mapping\<close>

lemma can_add_negative_returns:
  assumes "snapshot_ok s" "mapping_ok x"
  shows "returns (\<lambda>st. st = OkStatus \<longleftrightarrow> \<not> MemoryPerms_IsEmpty (mm_perms x) \<and>
      page_aligned (mm_start x) \<and> (page_aligned (mm_limit x) \<or> mm_limit x = kMaxAddress) \<and>
      (overlap_ok \<or> (\<forall>k \<in> mapping_range x. mappings_at (snap_negative_memory_mappings s) k = None)) \<and>
      \<not> conflicts x (snap_memory_mappings s)) (can_add_negative_memory_mapping x overlap_ok s)"
proof -
  have reps: "represents (snap_memory_mappings s) (snap_mapped_memory_map s)"
    "represents (snap_negative_memory_mappings s) (snap_negative_mapped_memory_map s)"
    and page: "page_size s = 4096"
    using assms(1) page_size_4096 by (simp_all add: snapshot_ok_def)
  obtain r where r: "MappedMemoryMap_Perms (mm_start x) (mm_limit x) kOr (snap_mapped_memory_map s) = ret r"
    "MemoryPerms_HasSomeOf (mm_perms x) r \<longleftrightarrow> conflicts x (snap_memory_mappings s)"
    using represents_conflicts [OF reps(1) assms(2)] by (auto elim: returnsE)
  have "mm_start x \<noteq> mm_limit x" using mapping_params(1) [OF assms(2)] by simp
  then show ?thesis
    unfolding can_add_negative_memory_mapping_def represents_overlaps [OF reps(2) assms(2)] r(1) page
      page_aligned_def [symmetric]
    by (auto simp: reject_if_def r(2))
qed

text \<open>Widening an existing negative mapping: \<open>Add\<close> on the map, and the list is made anew.\<close>

lemma represents_widen:
  assumes r: "represents ms m" and x: "mapping_ok x" "\<not> MemoryPerms_IsEmpty (mm_perms x)"
  shows "returns (\<lambda>m'. represents (map entry_mapping m') m' \<and>
      (\<forall>k. perms_at m' k = (if k \<in> mapping_range x then add_at (mm_perms x) (mappings_at ms k) else mappings_at ms k)))
    (MappedMemoryMap_Add (mm_start x) (mm_limit x) (mm_perms x) m)"
proof -
  note p = mapping_params [OF x(1)]
  have m: "mapped_map_ok m" "\<And>k. perms_at m k = mappings_at ms k" "mappings_ok ms" using r by (simp_all add: represents_def)
  show ?thesis
  proof (rule returns_mono [OF Add_returns [OF m(1) p(1,2) x(2)]])
    fix m' assume h: "holds (on_keys (mm_start x) (mm_limit x) (\<lambda>k. add_at (mm_perms x) (perms_at m k)) (perms_at m)) m'"
    have at: "perms_at m' k = (if k \<in> mapping_range x then add_at (mm_perms x) (mappings_at ms k) else mappings_at ms k)" for k
      unfolding holds_at [OF h] by (simp add: on_keys_def m(2) mem_mapping_range)
    have "kMapped \<notin> perms_set (snd e) \<and> \<not> MemoryPerms_IsEmpty (snd e)" if e: "e \<in> set m'" for e
    proof -
      have "perms_at m' (entry_start e) = Some (snd e)"
        using perms_at_entry [OF holds_ok [OF h] e] entry_pos [OF holds_ok [OF h] e] by simp
      moreover have "perms_ok (snd e)" by (rule entry_perms_ok [OF holds_ok [OF h] e])
      moreover have "perms_set (mm_perms x) \<noteq> {}" using x p(2) by (simp add: perms_set_empty)
      ultimately have "perms_set (snd e) = (if entry_start e \<in> mapping_range x then perms_set (mm_perms x) else {}) \<union>
          (case mappings_at ms (entry_start e) of None \<Rightarrow> {} | Some q \<Rightarrow> perms_set q)" "perms_ok (snd e)"
          "entry_start e \<in> mapping_range x \<or> mappings_at ms (entry_start e) \<noteq> None"
        by (auto simp: at add_at_def split: if_splits option.splits dest!: sym [where s = "MemoryPerms_Add _ _"])
      then show ?thesis
        using p(3) \<open>perms_set (mm_perms x) \<noteq> {}\<close> mappings_at_no_kMapped [OF m(3), of "entry_start e"]
          mappings_at_nonempty [OF m(3), of "entry_start e"]
        by (auto simp: perms_set_empty split: if_splits option.splits)
    qed
    then have "represents (map entry_mapping m') m'"
      using holds_ok [OF h] by (simp add: represents_def mappings_ok_entries mappings_at_entries)
    with at show "represents (map entry_mapping m') m' \<and>
        (\<forall>k. perms_at m' k = (if k \<in> mapping_range x then add_at (mm_perms x) (mappings_at ms k) else mappings_at ms k))" by blast
  qed
qed

text \<open>What an operation that adds a negative mapping establishes.\<close>

definition negative_added :: "memory_mapping \<Rightarrow> snapshot \<Rightarrow> snapshot \<Rightarrow> bool" where
  "negative_added x s s' \<longleftrightarrow> snapshot_ok s' \<and>
     (\<exists>m ns. s' = s\<lparr>snap_negative_mapped_memory_map := m, snap_negative_memory_mappings := ns\<rparr>) \<and>
     (\<forall>k. mappings_at (snap_negative_memory_mappings s') k =
        (if k \<in> mapping_range x then add_at (mm_perms x) (mappings_at (snap_negative_memory_mappings s) k)
         else mappings_at (snap_negative_memory_mappings s) k))"

lemma negative_addedI:
  assumes s: "snapshot_ok s" and nc: "\<not> conflicts x (snap_memory_mappings s)"
    and r: "represents ns m"
    and at: "\<And>k. mappings_at ns k = (if k \<in> mapping_range x then add_at (mm_perms x) (mappings_at (snap_negative_memory_mappings s) k)
         else mappings_at (snap_negative_memory_mappings s) k)"
  shows "negative_added x s (s\<lparr>snap_negative_mapped_memory_map := m, snap_negative_memory_mappings := ns\<rparr>)"
proof -
  have "no_conflict (snap_memory_mappings s) ns"
    unfolding no_conflict_def
  proof (intro allI impI)
    fix k p q assume k: "mappings_at (snap_memory_mappings s) k = Some p \<and> mappings_at ns k = Some q"
    have old: "perms_set p \<inter> perms_set q' = {}" if "mappings_at (snap_negative_memory_mappings s) k = Some q'" for q'
      using s k that unfolding snapshot_ok_def no_conflict_def by blast
    show "perms_set p \<inter> perms_set q = {}"
    proof (cases "k \<in> mapping_range x")
      case True
      then have "perms_set (mm_perms x) \<inter> perms_set p = {}" using nc k by (auto simp: conflicts_def)
      then show ?thesis
        using True k old by (auto simp: at add_at_def split: option.splits)
    qed (use k old at in auto)
  qed
  then show ?thesis using s r at by (auto simp: negative_added_def snapshot_ok_def)
qed

lemma mappings_at_append_free:
  assumes "\<forall>k \<in> mapping_range x. mappings_at ns k = None"
  shows "mappings_at (ns @ [x]) k = (if k \<in> mapping_range x then add_at (mm_perms x) (mappings_at ns k) else mappings_at ns k)"
  using assms by (auto simp: mappings_at_append mappings_at_Cons add_at_def split: option.splits)

lemma add_negative_overlap_ok_returns:
  assumes s: "snapshot_ok s" and x: "mapping_ok x" and ok: "can_add_negative_memory_mapping x True s = ret OkStatus"
  shows "returns (negative_added x s) (add_negative_memory_mapping_overlap_ok x s)"
proof -
  let ?ns = "snap_negative_memory_mappings s" and ?m = "snap_negative_mapped_memory_map s"
  have c: "\<not> MemoryPerms_IsEmpty (mm_perms x)" "\<not> conflicts x (snap_memory_mappings s)"
    using can_add_negative_returns [OF s x, of True] ok by simp_all
  have rep: "represents ?ns ?m" using s by (simp add: snapshot_ok_def)
  show ?thesis
  proof (cases "\<exists>k \<in> mapping_range x. mappings_at ?ns k \<noteq> None")
    case True
    have "returns (negative_added x s) (rbind (MappedMemoryMap_Add (mm_start x) (mm_limit x) (mm_perms x) ?m)
        (\<lambda>m. rbind (SortedMemoryMappingList m) (\<lambda>ms.
           ret (s\<lparr>snap_negative_mapped_memory_map := m, snap_negative_memory_mappings := ms\<rparr>))))"
    proof (rule returns_rbind [OF represents_widen [OF rep x c(1)]], elim conjE)
      fix m assume m: "represents (map entry_mapping m) m"
        "\<forall>k. perms_at m k = (if k \<in> mapping_range x then add_at (mm_perms x) (mappings_at ?ns k) else mappings_at ?ns k)"
      then show "returns (negative_added x s) (rbind (SortedMemoryMappingList m) (\<lambda>ms.
          ret (s\<lparr>snap_negative_mapped_memory_map := m, snap_negative_memory_mappings := ms\<rparr>)))"
        by (simp add: represents_entries(2) [OF m(1)] negative_addedI [OF s c(2) m(1)] mappings_at_entries)
    qed
    then show ?thesis
      using True by (simp add: add_negative_memory_mapping_overlap_ok_def ok dcheck_res_def represents_overlaps [OF rep x])
  next
    case False
    then have free: "\<forall>k \<in> mapping_range x. mappings_at ?ns k = None" by blast
    have "returns (negative_added x s) (rbind (MappedMemoryMap_AddNew (mm_start x) (mm_limit x) (mm_perms x) ?m)
        (\<lambda>m. ret (s\<lparr>snap_negative_mapped_memory_map := m, snap_negative_memory_mappings := ?ns @ [x]\<rparr>)))"
      by (rule returns_rbind [OF represents_add [OF rep x c(1) free]])
        (simp add: negative_addedI [OF s c(2)] mappings_at_append_free [OF free])
    then show ?thesis
      using False by (simp add: add_negative_memory_mapping_overlap_ok_def ok dcheck_res_def represents_overlaps [OF rep x])
  qed
qed

lemma add_negative_returns:
  assumes s: "snapshot_ok s" and x: "mapping_ok x" and ok: "can_add_negative_memory_mapping x False s = ret OkStatus"
  shows "returns (negative_added x s) (add_negative_memory_mapping x s)"
proof -
  have c: "\<not> MemoryPerms_IsEmpty (mm_perms x)" "\<not> conflicts x (snap_memory_mappings s)"
    "\<forall>k \<in> mapping_range x. mappings_at (snap_negative_memory_mappings s) k = None"
    using can_add_negative_returns [OF s x, of False] ok by simp_all
  have rep: "represents (snap_negative_memory_mappings s) (snap_negative_mapped_memory_map s)"
    using s by (simp add: snapshot_ok_def)
  show ?thesis
    unfolding add_negative_memory_mapping_def ok
    by (simp add: dcheck_res_def, rule returns_rbind [OF represents_add [OF rep x c(1,3)]])
      (simp add: negative_addedI [OF s c(2)] mappings_at_append_free [OF c(3)])
qed

section \<open>Adding memory bytes\<close>

lemma can_add_memory_bytes_eq:
  assumes "snapshot_ok s" "bytes_ok b"
  shows "can_add_memory_bytes b s = ret
    (if \<not> bytes_range b \<subseteq> mapped_addresses (snap_memory_mappings s)
     then InvalidArgument ''Not fully contained in existing memory_mappings''
     else if \<exists>c \<in> set (snap_memory_bytes s). bytes_range c \<inter> bytes_range b \<noteq> {}
     then InvalidArgument ''Overlaps with existing memory_bytes'' else OkStatus)"
proof -
  have m: "mapped_map_ok (snap_mapped_memory_map s)" "bytes_set_ok (snap_written_memory_set s)"
    "\<And>k. perms_at (snap_mapped_memory_map s) k = mappings_at (snap_memory_mappings s) k"
    "addresses (snap_written_memory_set s) = \<Union> (bytes_range ` set (snap_memory_bytes s))"
    using assms(1) by (simp_all add: snapshot_ok_def represents_def bytes_represent_def)
  have lt: "mb_start b < mb_limit b" by (rule bytes_ok_limit(1) [OF assms(2)])
  have "MappedMemoryMap_Contains (mb_start b) (mb_limit b) (snap_mapped_memory_map s) =
      ret (bytes_range b \<subseteq> mapped_addresses (snap_memory_mappings s))"
    unfolding Contains_eq [OF m(1) lt] m(3)
    by (auto simp: bytes_range_def mapped_addresses_def)
  moreover have "MemoryBytesSet_IsDisjoint (mb_start b) (mb_limit b) (snap_written_memory_set s) =
      ret (\<not> (\<exists>c \<in> set (snap_memory_bytes s). bytes_range c \<inter> bytes_range b \<noteq> {}))"
    unfolding IsDisjoint_eq [OF m(2) lt] m(4) bytes_range_def [of b, symmetric] ret_inject by blast
  ultimately show ?thesis by (simp add: can_add_memory_bytes_def reject_if_def)
qed

lemma bytes_represent_add:
  assumes "bytes_represent bs w" "bytes_ok b" "\<forall>c \<in> set bs. bytes_range c \<inter> bytes_range b = {}"
  shows "returns (bytes_represent (bs @ [b])) (MemoryBytesSet_Add (mb_start b) (mb_limit b) w)"
proof -
  have "returns (holds_set (addresses w \<union> {mb_start b..<mb_limit b})) (MemoryBytesSet_Add (mb_start b) (mb_limit b) w)"
    using assms(1) by (intro MemoryBytesSet_Add_returns bytes_ok_limit(1) [OF assms(2)]) (simp add: bytes_represent_def)
  then show ?thesis
    by (rule returns_mono)
      (use assms in \<open>auto simp: bytes_represent_def holds_set_def sorted_wrt_append bytes_range_def\<close>)
qed

lemma add_memory_bytes_returns:
  assumes s: "snapshot_ok s" and b: "bytes_ok b" and ok: "can_add_memory_bytes b s = ret OkStatus"
  shows "returns (\<lambda>s'. snapshot_ok s' \<and> (\<exists>w. s' = s\<lparr>snap_written_memory_set := w,
      snap_memory_bytes := snap_memory_bytes s @ [b]\<rparr>)) (add_memory_bytes b s)"
proof -
  have c: "bytes_range b \<subseteq> mapped_addresses (snap_memory_mappings s)"
    "\<forall>c \<in> set (snap_memory_bytes s). bytes_range c \<inter> bytes_range b = {}"
    using ok unfolding can_add_memory_bytes_eq [OF s b] by (auto split: if_splits)
  have "bytes_represent (snap_memory_bytes s) (snap_written_memory_set s)" using s by (simp add: snapshot_ok_def)
  from bytes_represent_add [OF this b c(2)] show ?thesis
    unfolding add_memory_bytes_def ok
    using s c(1)
    by (auto simp: dcheck_res_def snapshot_ok_def bytes_represent_def
        intro!: returns_rbind [where P = "bytes_represent (snap_memory_bytes s @ [b])"])
qed

end
