(* ===== verification/Memory_State.thy ===== *)
theory Memory_State
  imports Snapshot_Invariant
begin

text \<open>
  \<open>MemoryState\<close> of \<open>common/memory_state.h\<close> and \<open>.cc\<close>: what is mapped with which permissions, and which
  bytes are known. \<open>DCHECK\<close> and \<open>kDebugMode\<close> are modelled as in a debug build. The \<open>DCHECK\<close>s inside
  \<open>MemoryBytesMethods\<close> are the contract of \<open>RangeMap\<close> for its values, which the interpretation below
  states; \<open>MemoryBytesMethods\<close> has no \<open>MakeDifference\<close>, so that field is left open.
\<close>

section \<open>MemoryBytesMethods\<close>

definition bytes_methods :: "(address, byte_data) methods" where
  "bytes_methods = \<lparr>
     UsageOf = (\<lambda>_ _ v. 48 + int (length v)),
     Slice = (\<lambda>start limit v s l. if v = [] then v else take (unat (l - s)) (drop (unat (s - start)) v)),
     AddTo = (\<lambda>dest v. let change = (dest \<noteq> v) in (change, if change then v else dest, False)),
     RemoveFrom = (\<lambda>dest v. (True, dest, True)),
     CanMerge = (\<lambda>v1 v2. True),
     MergeInto = (\<lambda>dest v. dest @ v),
     MakeIntersection = (\<lambda>v1 v2. (v1, False)),
     MakeDifference = (\<lambda>v1 v2. undefined)\<rparr>"

type_synonym bytes_map = "(address, byte_data) range_map"

section \<open>Commands and the state\<close>

datatype action = kMap | kProtect | kUnmap

record mapping_cmd =
  cmd_mapping :: memory_mapping
  cmd_action :: action

datatype mapped_zeroing = kZeroMappedBytes | kIgnoreMappedBytes

datatype exactness_mode = kUnmapUnused | kProtectUnused

record memory_state =
  ms_mapped_memory_map :: mapped_map
  ms_written_memory_set :: bytes_set
  ms_written_memory_bytes :: bytes_map

definition new_memory_state :: memory_state where
  "new_memory_state = \<lparr>ms_mapped_memory_map = [], ms_written_memory_set = [], ms_written_memory_bytes = []\<rparr>"

definition MemoryState_Copy :: "memory_state \<Rightarrow> memory_state" where
  "MemoryState_Copy st =
     new_memory_state\<lparr>ms_mapped_memory_map := MappedMemoryMap_Copy (ms_mapped_memory_map st),
       ms_written_memory_set := ms_written_memory_set st,
       ms_written_memory_bytes := ms_written_memory_bytes st\<rparr>"

definition MemoryState_eq :: "memory_state \<Rightarrow> memory_state \<Rightarrow> bool" where
  "MemoryState_eq x y \<longleftrightarrow>
     MappedMemoryMap_eq (ms_mapped_memory_map x) (ms_mapped_memory_map y) \<and>
     ms_written_memory_bytes x = ms_written_memory_bytes y"

definition MemoryBytesEq :: "memory_state \<Rightarrow> memory_state \<Rightarrow> bool" where
  "MemoryBytesEq x y \<longleftrightarrow> ms_written_memory_bytes x = ms_written_memory_bytes y"

definition MemoryState_IsEmpty :: "memory_state \<Rightarrow> bool" where
  "MemoryState_IsEmpty st \<longleftrightarrow> MappedMemoryMap_IsEmpty (ms_mapped_memory_map st) \<and>
     MemoryBytesSet_empty (ms_written_memory_set st) \<and> ms_written_memory_bytes st = []"

definition MemoryState_Clear :: "memory_state \<Rightarrow> memory_state" where
  "MemoryState_Clear st = new_memory_state"

section \<open>Mutators\<close>

definition AddNewMemoryMapping :: "memory_mapping \<Rightarrow> memory_state \<Rightarrow> memory_state res" where
  "AddNewMemoryMapping m st =
     rbind (check (\<not> MemoryPerms_IsEmpty (mm_perms m)) ''!mapping.perms().IsEmpty()'') (\<lambda>_.
     rbind (check (\<not> MemoryPerms_HasPermission (mm_perms m) kMapped) ''!mapping.perms().Has(kMapped)'') (\<lambda>_.
     rbind (MappedMemoryMap_AddNew (mm_start m) (mm_limit m)
              (MemoryPerms_PlusPermission (mm_perms m) kMapped) (ms_mapped_memory_map st)) (\<lambda>map.
     ret (st\<lparr>ms_mapped_memory_map := map\<rparr>))))"

definition AddNewMemoryMappings :: "memory_mapping list \<Rightarrow> memory_state \<Rightarrow> memory_state res" where
  "AddNewMemoryMappings ms st = for_each AddNewMemoryMapping ms st"

definition SetMemoryMappingEmptyPermsOk :: "memory_mapping \<Rightarrow> memory_state \<Rightarrow> memory_state res" where
  "SetMemoryMappingEmptyPermsOk m st =
     rbind (check (\<not> MemoryPerms_HasPermission (mm_perms m) kMapped) ''!mapping.perms().Has(kMapped)'') (\<lambda>_.
     rbind (MappedMemoryMap_Set (mm_start m) (mm_limit m)
              (MemoryPerms_PlusPermission (mm_perms m) kMapped) (ms_mapped_memory_map st)) (\<lambda>map.
     ret (st\<lparr>ms_mapped_memory_map := map\<rparr>)))"

definition SetMemoryMapping :: "memory_mapping \<Rightarrow> memory_state \<Rightarrow> memory_state res" where
  "SetMemoryMapping m st =
     rbind (check (\<not> MemoryPerms_IsEmpty (mm_perms m)) ''!mapping.perms().IsEmpty()'') (\<lambda>_.
     SetMemoryMappingEmptyPermsOk m st)"

definition RemoveMemoryMapping :: "address \<Rightarrow> address \<Rightarrow> memory_state \<Rightarrow> memory_state res" where
  "RemoveMemoryMapping start_address limit_address st =
     rbind (MappedMemoryMap_Remove start_address limit_address MemoryPerms_AllPlusMapped (ms_mapped_memory_map st)) (\<lambda>map.
     rbind (MemoryBytesSet_Remove start_address limit_address (ms_written_memory_set st)) (\<lambda>set.
     rbind (RangeMap_Remove bytes_methods start_address limit_address [] (ms_written_memory_bytes st) None) (\<lambda>(_, bytes, _).
     ret (st\<lparr>ms_mapped_memory_map := map, ms_written_memory_set := set, ms_written_memory_bytes := bytes\<rparr>))))"

definition RemoveMemoryMappingsNotIn :: "snapshot \<Rightarrow> memory_state \<Rightarrow> memory_state res" where
  "RemoveMemoryMappingsNotIn s st =
     rbind (MappedMemoryMap_RemoveRangesOf (snap_mapped_memory_map s) MemoryPerms_AllPlusMapped
              (MappedMemoryMap_Copy (ms_mapped_memory_map st))) (\<lambda>extra_mappings.
     MappedMemoryMap_Iterate (\<lambda>start limit perms. RemoveMemoryMapping start limit) extra_mappings st)"

definition ClearMemoryMappingsPermsNotIn :: "snapshot \<Rightarrow> memory_state \<Rightarrow> memory_state res" where
  "ClearMemoryMappingsPermsNotIn s st =
     rbind (MappedMemoryMap_RemoveRangesOf (snap_mapped_memory_map s) MemoryPerms_AllPlusMapped
              (MappedMemoryMap_Copy (ms_mapped_memory_map st))) (\<lambda>extra_mappings.
     MappedMemoryMap_Iterate (\<lambda>start limit perms st.
       rbind (MappedMemoryMap_Remove start limit MemoryPerms_All (ms_mapped_memory_map st)) (\<lambda>map.
       ret (st\<lparr>ms_mapped_memory_map := map\<rparr>))) extra_mappings st)"

definition SetMemoryBytes :: "memory_bytes \<Rightarrow> memory_state \<Rightarrow> memory_state res" where
  "SetMemoryBytes b st =
     rbind (MappedMemoryMap_Contains (mb_start b) (mb_limit b) (ms_mapped_memory_map st)) (\<lambda>contained.
     rbind (check contained ''mapped_memory_map_.Contains(bytes)'') (\<lambda>_.
     rbind (MemoryBytesSet_Add (mb_start b) (mb_limit b) (ms_written_memory_set st)) (\<lambda>set.
     rbind (RangeMap_Add bytes_methods (mb_start b) (mb_limit b) (mb_values b) (ms_written_memory_bytes st) None)
       (\<lambda>(_, bytes, _).
     ret (st\<lparr>ms_written_memory_set := set, ms_written_memory_bytes := bytes\<rparr>)))))"

definition SetMemoryBytes_list :: "memory_bytes list \<Rightarrow> memory_state \<Rightarrow> memory_state res" where
  "SetMemoryBytes_list bs st = for_each SetMemoryBytes bs st"

definition ForgetMemoryBytes :: "address \<Rightarrow> address \<Rightarrow> memory_state \<Rightarrow> memory_state res" where
  "ForgetMemoryBytes start_address limit_address st =
     rbind (RangeMap_Remove bytes_methods start_address limit_address [] (ms_written_memory_bytes st) None) (\<lambda>(_, bytes, _).
     ret (st\<lparr>ms_written_memory_bytes := bytes\<rparr>))"

definition SetMemoryBytes_snapshot :: "snapshot \<Rightarrow> memory_state \<Rightarrow> memory_state res" where
  "SetMemoryBytes_snapshot s st = SetMemoryBytes_list (snap_memory_bytes s) st"

definition SetMemoryBytes_end_state :: "end_state \<Rightarrow> memory_state \<Rightarrow> memory_state res" where
  "SetMemoryBytes_end_state e st = SetMemoryBytes_list (es_memory_bytes e) st"

definition ZeroMappedMemoryBytes :: "memory_mapping \<Rightarrow> memory_state \<Rightarrow> memory_state res" where
  "ZeroMappedMemoryBytes m st =
     rbind (check (\<not> MemoryPerms_IsEmpty (mm_perms m)) ''!mapping.perms().IsEmpty()'') (\<lambda>_.
     rbind (new_memory_bytes (mm_start m) (replicate (unat (mm_num_bytes m)) 0)) (\<lambda>b.
     SetMemoryBytes b st))"

definition ZeroMappedMemoryBytes_list :: "memory_mapping list \<Rightarrow> memory_state \<Rightarrow> memory_state res" where
  "ZeroMappedMemoryBytes_list ms st = for_each ZeroMappedMemoryBytes ms st"

definition remove_negative_perms :: "snapshot \<Rightarrow> memory_state \<Rightarrow> memory_state res" where
  "remove_negative_perms s st =
     rbind (MappedMemoryMap_RemoveRangesOf (snap_mapped_memory_map s) MemoryPerms_AllPlusMapped
              (MappedMemoryMap_Copy (snap_negative_mapped_memory_map s))) (\<lambda>filtered_negative.
     rbind (MappedMemoryMap_AddIntersectionOf (ms_mapped_memory_map st) filtered_negative []) (\<lambda>delta.
     MappedMemoryMap_Iterate (\<lambda>start limit perms st.
       rbind (check (\<not> MemoryPerms_HasPermission perms kMapped) ''!perms.Has(kMapped)'') (\<lambda>_.
       rbind (MappedMemoryMap_Remove start limit perms (ms_mapped_memory_map st)) (\<lambda>map.
       ret (st\<lparr>ms_mapped_memory_map := map\<rparr>)))) delta st))"

definition zero_new_mappings :: "mapped_map \<Rightarrow> memory_state \<Rightarrow> memory_state res" where
  "zero_new_mappings new_mappings st =
     MappedMemoryMap_Iterate (\<lambda>start limit perms st.
       rbind (new_memory_bytes start (replicate (unat (limit - start)) 0)) (\<lambda>b. SetMemoryBytes b st)) new_mappings st"

definition SetInitialState :: "snapshot \<Rightarrow> mapped_zeroing \<Rightarrow> memory_state \<Rightarrow> memory_state res" where
  "SetInitialState s zeroing st =
     rbind (MappedMemoryMap_RemoveRangesOf (ms_mapped_memory_map st) MemoryPerms_AllPlusMapped
              (MappedMemoryMap_Copy (snap_mapped_memory_map s))) (\<lambda>new_mappings.
     rbind (for_each SetMemoryMapping (snap_memory_mappings s) st) (\<lambda>st.
     rbind (remove_negative_perms s st) (\<lambda>st.
     rbind (if zeroing = kZeroMappedBytes then zero_new_mappings new_mappings st else ret st) (\<lambda>st.
     SetMemoryBytes_snapshot s st))))"

section \<open>Factories\<close>

definition MakeInitial :: "snapshot \<Rightarrow> mapped_zeroing \<Rightarrow> memory_state res" where
  "MakeInitial s zeroing = SetInitialState s zeroing new_memory_state"

definition MakeEnd :: "snapshot \<Rightarrow> int \<Rightarrow> mapped_zeroing \<Rightarrow> memory_state res" where
  "MakeEnd s i zeroing =
     rbind (check (0 \<le> i) ''end_state_index >= 0'') (\<lambda>_.
     rbind (check (i < int (length (snap_expected_end_states s))) ''end_state_index < size()'') (\<lambda>_.
     rbind (AddNewMemoryMappings (snap_memory_mappings s) new_memory_state) (\<lambda>st.
     rbind (if zeroing = kZeroMappedBytes then ZeroMappedMemoryBytes_list (snap_memory_mappings s) st else ret st) (\<lambda>st.
     rbind (SetMemoryBytes_snapshot s st) (\<lambda>st.
     SetMemoryBytes_end_state (snap_expected_end_states s ! nat i) st)))))"

section \<open>Accessors\<close>

definition num_written_bytes :: "memory_state \<Rightarrow> byte_size" where
  "num_written_bytes st = MemoryBytesSet_byte_size (ms_written_memory_set st)"

text \<open>\<open>ByteData(p + offset, n)\<close> for the data of a string; reading outside it is undefined.\<close>

definition data_at :: "byte_data \<Rightarrow> byte_size \<Rightarrow> byte_size \<Rightarrow> byte_data res" where
  "data_at bs offset n =
     (if unat offset + unat n \<le> length bs then ret (take (unat n) (drop (unat offset) bs))
      else abort (Undefined ''read outside the data''))"

definition memory_bytes_at :: "address \<Rightarrow> byte_size \<Rightarrow> memory_state \<Rightarrow> byte_data res" where
  "memory_bytes_at start_address num_bytes st =
     (let limit_address = start_address + num_bytes; m = ms_written_memory_bytes st
      in rbind (Find m start_address limit_address) (\<lambda>iters.
         rbind (check (fst iters \<noteq> length m) ''iters.first != end()'') (\<lambda>_.
         let it = m ! fst iters in
         rbind (check (Suc (fst iters) = snd iters) ''iters.first == iters.second'') (\<lambda>_.
         rbind (check (entry_start it \<le> start_address) ''it.start() <= start_address'') (\<lambda>_.
         rbind (check (limit_address \<le> entry_limit it) ''limit_address <= it.limit()'') (\<lambda>_.
         data_at (snd it) (start_address - entry_start it) num_bytes))))))"

definition memory_byte_at :: "address \<Rightarrow> memory_state \<Rightarrow> byte res" where
  "memory_byte_at a st = rbind (memory_bytes_at a 1 st) (\<lambda>bs. ret (hd bs))"

definition memory_bytes_list :: "bytes_set \<Rightarrow> memory_state \<Rightarrow> memory_bytes list res" where
  "memory_bytes_list bytes st =
     MemoryBytesSet_Iterate (\<lambda>start limit r.
       rbind (memory_bytes_at start (limit - start) st) (\<lambda>bs.
       rbind (new_memory_bytes start bs) (\<lambda>b. ret (r @ [b])))) bytes []"

section \<open>Deltas of the mappings\<close>

definition DeltaMemoryMapping :: "memory_mapping \<Rightarrow> memory_perms \<Rightarrow> memory_state \<Rightarrow> mapping_cmd list res" where
  "DeltaMemoryMapping mapping added_perms st =
     rbind (set_perms (MemoryPerms_Plus (mm_perms mapping) added_perms) mapping) (\<lambda>m.
     rbind (check (\<not> MemoryPerms_IsEmpty (mm_perms m)) ''!m.perms().IsEmpty()'') (\<lambda>_.
     if MappedMemoryMap_IsEmpty (ms_mapped_memory_map st)
     then ret [\<lparr>cmd_mapping = m, cmd_action = kMap\<rparr>]
     else let m_perms = MemoryPerms_PlusPermission (mm_perms m) kMapped in
       rbind (MappedMemoryMap_AddDifferenceOfRange (mm_start m) (mm_limit m) m_perms (ms_mapped_memory_map st) []) (\<lambda>delta.
       MappedMemoryMap_Iterate (\<lambda>start limit perms result.
         rbind (MakeRanged start limit (mm_perms m)) (\<lambda>d.
         ret (result @ [\<lparr>cmd_mapping = d, cmd_action = (if perms = m_perms then kMap else kProtect)\<rparr>]))) delta [])))"

definition delta_each :: "memory_mapping list \<Rightarrow> memory_perms \<Rightarrow> memory_state \<Rightarrow> mapping_cmd list res" where
  "delta_each ms added_perms st =
     for_each (\<lambda>m result. rbind (DeltaMemoryMapping m added_perms st) (\<lambda>xs. ret (result @ xs))) ms []"

definition DeltaMemoryMappings :: "snapshot \<Rightarrow> memory_perms \<Rightarrow> memory_state \<Rightarrow> mapping_cmd list res" where
  "DeltaMemoryMappings s added_perms st =
     rbind (delta_each (snap_memory_mappings s) added_perms st) (\<lambda>result.
     if snap_negative_memory_mappings s \<noteq> [] \<and> \<not> MappedMemoryMap_IsEmpty (ms_mapped_memory_map st)
     then rbind (MappedMemoryMap_RemoveRangesOf (snap_mapped_memory_map s) MemoryPerms_AllPlusMapped
                   (MappedMemoryMap_Copy (snap_negative_mapped_memory_map s))) (\<lambda>filtered_negative.
          rbind (MappedMemoryMap_AddIntersectionOf (ms_mapped_memory_map st) filtered_negative []) (\<lambda>delta.
          MappedMemoryMap_Iterate (\<lambda>start limit perms result.
            rbind (MappedMemoryMap_Perms start limit kAnd (ms_mapped_memory_map st)) (\<lambda>p.
            let p = MemoryPerms_ClearPermission kMapped (MemoryPerms_Clear perms p) in
            rbind (MakeRanged start limit p) (\<lambda>d.
            ret (result @ [\<lparr>cmd_mapping = d, cmd_action = kProtect\<rparr>])))) delta result))
     else ret result)"

definition unused_cmd ::
    "exactness_mode \<Rightarrow> address \<Rightarrow> address \<Rightarrow> memory_perms \<Rightarrow> mapping_cmd list \<Rightarrow> mapping_cmd list res" where
  "unused_cmd mode start limit perms result =
     (case mode of
        kUnmapUnused \<Rightarrow>
          rbind (MakeRanged start limit MemoryPerms_R) (\<lambda>d.
          ret (result @ [\<lparr>cmd_mapping = d, cmd_action = kUnmap\<rparr>]))
      | kProtectUnused \<Rightarrow>
          if MemoryPerms_HasSomeOf perms MemoryPerms_All
          then rbind (MakeRanged start limit MemoryPerms_None) (\<lambda>d.
               ret (result @ [\<lparr>cmd_mapping = d, cmd_action = kProtect\<rparr>]))
          else ret result)"

definition DeltaMemoryMappingsExact ::
    "snapshot \<Rightarrow> memory_perms \<Rightarrow> exactness_mode \<Rightarrow> memory_state \<Rightarrow> mapping_cmd list res" where
  "DeltaMemoryMappingsExact s added_perms mode st =
     rbind (delta_each (snap_memory_mappings s) added_perms st) (\<lambda>result.
     if \<not> MappedMemoryMap_IsEmpty (ms_mapped_memory_map st)
     then rbind (MappedMemoryMap_RemoveRangesOf (snap_mapped_memory_map s) MemoryPerms_AllPlusMapped
                   (MappedMemoryMap_Copy (ms_mapped_memory_map st))) (\<lambda>to_remove.
          MappedMemoryMap_Iterate (unused_cmd mode) to_remove result)
     else ret result)"

section \<open>Deltas of the bytes\<close>

definition kMinSkipOverBytes :: u64 where
  "kMinSkipOverBytes = 8 * 2 - 1"

definition GrowResultChunk ::
    "memory_bytes \<Rightarrow> address \<Rightarrow> byte_size \<Rightarrow> memory_bytes option \<times> memory_bytes list
       \<Rightarrow> (memory_bytes option \<times> memory_bytes list) res" where
  "GrowResultChunk bytes addr n = (\<lambda>(chunk, result).
     let offset = addr - mb_start bytes;
         new_chunk = rbind (data_at (mb_values bytes) offset n) (new_memory_bytes addr)
     in case chunk of
          None \<Rightarrow> rbind new_chunk (\<lambda>c. ret (Some c, result))
        | Some c \<Rightarrow>
            if mb_limit c = addr
            then rbind (substr (mb_values bytes) offset n) (\<lambda>bs.
                 rbind (append_bytes bs c) (\<lambda>c. ret (Some c, result)))
            else rbind (check (mb_limit c < addr) ''chunk.value().limit_address() < addr'') (\<lambda>_.
                 if addr - mb_limit c < kMinSkipOverBytes
                 then rbind (substr (mb_values bytes) (mb_limit c - mb_start bytes) (addr - mb_limit c + n)) (\<lambda>bs.
                      rbind (append_bytes bs c) (\<lambda>c. ret (Some c, result)))
                 else rbind new_chunk (\<lambda>c'. ret (Some c', result @ [c]))))"

text \<open>An iterator that is read must not be \<open>end()\<close>.\<close>

definition deref :: "nat \<Rightarrow> bytes_map \<Rightarrow> (address, byte_data) entry res" where
  "deref it m = (if it < length m then ret (m ! it) else abort (Undefined ''end()''))"

definition delta_bytes_round ::
    "memory_bytes \<Rightarrow> bytes_map \<Rightarrow> nat
       \<Rightarrow> address \<times> nat \<times> memory_bytes option \<times> memory_bytes list
       \<Rightarrow> (memory_bytes option \<times> memory_bytes list, address \<times> nat \<times> memory_bytes option \<times> memory_bytes list) iter res" where
  "delta_bytes_round bytes m end_it = (\<lambda>(addr, it, out).
     if \<not> addr < mb_limit bytes then ret (Break out)
     else rbind (deref it m) (\<lambda>e.
       let old_byte = (if entry_start e \<le> addr \<and> addr < entry_limit e
                       then Some (snd e ! unat (addr - entry_start e)) else None);
           new_byte = mb_values bytes ! unat (addr - mb_start bytes)
       in rbind (if old_byte = None \<or> old_byte \<noteq> Some new_byte then GrowResultChunk bytes addr 1 out else ret out) (\<lambda>out.
          let addr = addr + 1 in
          if entry_limit e \<le> addr
          then rbind (check (addr = entry_limit e) ''addr == it.limit()'') (\<lambda>_.
               let it = it + 1 in
               if it = end_it
               then let tail_size = data_size (mb_values bytes) - (addr - mb_start bytes) in
                    rbind (if tail_size \<noteq> 0 then GrowResultChunk bytes addr tail_size out else ret out) (\<lambda>out.
                    ret (Break out))
               else ret (Continue (addr, it, out)))
          else ret (Continue (addr, it, out)))))"

definition DeltaMemoryBytes :: "memory_bytes \<Rightarrow> memory_state \<Rightarrow> memory_bytes list res" where
  "DeltaMemoryBytes bytes st =
     (let m = ms_written_memory_bytes st in
      if m = [] then ret [bytes]
      else rbind (Find m (mb_start bytes) (mb_limit bytes)) (\<lambda>iters.
           if fst iters = length m then ret [bytes]
           else rbind (rloop (delta_bytes_round bytes m (snd iters)) (mb_start bytes, fst iters, None, [])) (\<lambda>(chunk, result).
                ret (case chunk of None \<Rightarrow> result | Some c \<Rightarrow> result @ [c]))))"

definition check_disjoint :: "memory_bytes list \<Rightarrow> bytes_set \<Rightarrow> bytes_set res" where
  "check_disjoint bs bytes_set =
     for_each (\<lambda>b set. rbind (MemoryBytesSet_IsDisjoint (mb_start b) (mb_limit b) set) (\<lambda>d.
       rbind (check d ''bytes_set.IsDisjoint'') (\<lambda>_. MemoryBytesSet_Add (mb_start b) (mb_limit b) set))) bs bytes_set"

definition delta_bytes_each :: "memory_bytes list \<Rightarrow> memory_state \<Rightarrow> memory_bytes list res" where
  "delta_bytes_each bs st =
     for_each (\<lambda>b r. rbind (DeltaMemoryBytes b st) (\<lambda>xs. ret (r @ xs))) bs []"

definition DeltaMemoryBytes_list :: "memory_bytes list \<Rightarrow> memory_state \<Rightarrow> memory_bytes list res" where
  "DeltaMemoryBytes_list bs st = rbind (check_disjoint bs []) (\<lambda>_. delta_bytes_each bs st)"

definition DeltaMemoryBytes_snapshot :: "snapshot \<Rightarrow> memory_state \<Rightarrow> memory_bytes list res" where
  "DeltaMemoryBytes_snapshot s st = delta_bytes_each (snap_memory_bytes s) st"

section \<open>The contract of RangeMap for bytes\<close>

definition overwrite :: "byte \<Rightarrow> byte \<Rightarrow> byte option" where
  "overwrite p q = Some q"

definition forget :: "byte \<Rightarrow> unit \<Rightarrow> byte option" where
  "forget p q = None"

lemma unat_diff: "(s :: u64) \<le> k \<Longrightarrow> unat (k - s) = unat k - unat s"
  by (simp add: unat_sub)

lemma unat_offset:
  assumes "(s :: u64) < l" "i < unat (l - s)"
  shows "unat (s + of_nat i) = unat s + i" "s \<le> s + of_nat i" "s + of_nat i < l" "unat (s + of_nat i - s) = i"
proof -
  have ii: "i < unat l - unat s" using assms by (simp add: unat_diff)
  show u: "unat (s + of_nat i) = unat s + i"
    using ii unat_u64_lt [of l] by (subst unat_add_lem [THEN iffD1]) (auto simp: unat_of_nat_u64)
  then show le: "s \<le> s + of_nat i" "s + of_nat i < l" using ii by (simp_all add: word_le_nat_alt word_less_nat_alt)
  show "unat (s + of_nat i - s) = i" using u unat_diff [OF le(1)] by linarith
qed

interpretation mb: range_methods bytes_methods "\<lambda>s l v. length v = unat (l - s)" "\<lambda>s l v k. v ! unat (k - s)"
    "\<lambda>_ _ v. v = []" "\<lambda>_ _ _ _. ()" overwrite forget
proof unfold_locales
  fix s l s' l' :: address and v :: byte_data
  assume v: "length v = unat (l - s)" and r: "s \<le> s'" "s' < l'" "l' \<le> l"
  have u: "unat s \<le> unat s'" "unat s' < unat l'" "unat l' \<le> unat l" using r by (simp_all add: word_le_nat_alt word_less_nat_alt)
  have len: "length v = unat l - unat s" using v r by (simp add: unat_diff)
  have sl: "Slice bytes_methods s l v s' l' = take (unat l' - unat s') (drop (unat s' - unat s) v)"
    using r by (simp add: bytes_methods_def unat_diff)
  show "length (Slice bytes_methods s l v s' l') = unat (l' - s') \<and>
      (\<forall>k. s' \<le> k \<and> k < l' \<longrightarrow> Slice bytes_methods s l v s' l' ! unat (k - s') = v ! unat (k - s))"
  proof (intro conjI allI impI)
    show "length (Slice bytes_methods s l v s' l') = unat (l' - s')"
      unfolding sl using u len r by (simp add: unat_diff)
    fix k assume k: "s' \<le> k \<and> k < l'"
    then have "unat s' \<le> unat k" "unat k < unat l'" "s \<le> k"
      using r(1) by (auto simp: word_le_nat_alt word_less_nat_alt)
    then show "Slice bytes_methods s l v s' l' ! unat (k - s') = v ! unat (k - s)"
      unfolding sl using u len k r by (simp add: unat_diff)
  qed
next
  fix a b :: byte_data and s m l :: address
  assume ab: "length a = unat (m - s)" "length b = unat (l - m)" and r: "s < m" "m < l"
  have u: "unat s < unat m" "unat m < unat l" using r by (simp_all add: word_less_nat_alt)
  show "length (MergeInto bytes_methods a b) = unat (l - s) \<and>
      (\<forall>k. s \<le> k \<and> k < l \<longrightarrow> MergeInto bytes_methods a b ! unat (k - s) =
         (if k < m then a ! unat (k - s) else b ! unat (k - m)))"
  proof (intro conjI allI impI)
    show "length (MergeInto bytes_methods a b) = unat (l - s)"
      using ab r u by (simp add: bytes_methods_def unat_diff)
    fix k assume k: "s \<le> k \<and> k < l"
    then have "unat s \<le> unat k" "unat k < unat l" by (simp_all add: word_le_nat_alt word_less_nat_alt)
    then show "MergeInto bytes_methods a b ! unat (k - s) = (if k < m then a ! unat (k - s) else b ! unat (k - m))"
      using ab r u k by (auto simp: bytes_methods_def unat_diff nth_append word_less_nat_alt not_less word_le_nat_alt)
  qed
next
  fix s l :: address and d v :: byte_data
  assume dv: "length d = unat (l - s)" "length v = unat (l - s)" "s < l"
  show "fst (AddTo bytes_methods d v) \<longleftrightarrow> (\<exists>k\<ge>s. k < l \<and> overwrite (d ! unat (k - s)) (v ! unat (k - s)) \<noteq> Some (d ! unat (k - s)))"
  proof
    assume "fst (AddTo bytes_methods d v)"
    then have "d \<noteq> v" by (simp add: bytes_methods_def Let_def)
    then obtain i where i: "i < length d" "d ! i \<noteq> v ! i" using nth_equalityI [of d v] dv by auto
    let ?k = "s + of_nat i"
    have "i < unat (l - s)" using i dv by simp
    note o = unat_offset [OF dv(3) this]
    have "s \<le> ?k" "?k < l" "unat (?k - s) = i" by (fact o(2-4))+
    then show "\<exists>k\<ge>s. k < l \<and> overwrite (d ! unat (k - s)) (v ! unat (k - s)) \<noteq> Some (d ! unat (k - s))"
      using i(2) by (intro exI [of _ ?k]) (auto simp: overwrite_def)
  qed (auto simp: bytes_methods_def Let_def overwrite_def)
qed (auto simp: bytes_methods_def overwrite_def forget_def Let_def split: if_splits)

interpretation mb_ext: range_methods_ext bytes_methods "\<lambda>s l v. length v = unat (l - s)" "\<lambda>s l v k. v ! unat (k - s)"
    "\<lambda>_ _ v. v = []" "\<lambda>_ _ _ _. ()" overwrite forget
proof unfold_locales
  fix s l :: address and a b :: byte_data
  assume ab: "length a = unat (l - s)" "length b = unat (l - s)" "s < l"
    and eq: "\<And>k. s \<le> k \<Longrightarrow> k < l \<Longrightarrow> a ! unat (k - s) = b ! unat (k - s)"
  show "a = b"
  proof (rule nth_equalityI)
    fix i assume "i < length a"
    then have "i < unat (l - s)" using ab by simp
    note o = unat_offset [OF ab(3) this]
    show "a ! i = b ! i" using eq [OF o(2,3)] by (simp only: o(4))
  qed (use ab in simp)
qed (simp add: bytes_methods_def)

end
