(* ===== verification/Memory_State_Spec.thy ===== *)
theory Memory_State_Spec
  imports Memory_State
begin

text \<open>
  What the operations of \<open>MemoryState\<close> do at each address: its invariant, the effect of each operation
  on permissions, written set and bytes, and what \<open>SetInitialState\<close> leaves. A state is determined by
  these three functions, so two operations with the same effect give equal states.
\<close>

section \<open>The abstraction\<close>

definition byte_at :: "bytes_map \<Rightarrow> address \<Rightarrow> byte option" where
  "byte_at m k = lookup (\<lambda>s l v k. v ! unat (k - s)) m k"

definition bytes_map_ok :: "bytes_map \<Rightarrow> bool" where
  "bytes_map_ok m \<longleftrightarrow> ranges_ok (\<lambda>s l v. length v = unat (l - s)) m \<and> mb.canonical m"

definition state_ok :: "memory_state \<Rightarrow> bool" where
  "state_ok st \<longleftrightarrow>
     mapped_map_ok (ms_mapped_memory_map st) \<and>
     (\<forall>k p. perms_at (ms_mapped_memory_map st) k = Some p \<longrightarrow> kMapped \<in> perms_set p) \<and>
     bytes_set_ok (ms_written_memory_set st) \<and> bytes_map_ok (ms_written_memory_bytes st) \<and>
     dom (byte_at (ms_written_memory_bytes st)) \<subseteq> addresses (ms_written_memory_set st) \<and>
     addresses (ms_written_memory_set st) \<subseteq> dom (perms_at (ms_mapped_memory_map st))"

definition has_state ::
    "(address \<rightharpoonup> memory_perms) \<Rightarrow> address set \<Rightarrow> (address \<rightharpoonup> byte) \<Rightarrow> memory_state \<Rightarrow> bool" where
  "has_state f A g st \<longleftrightarrow> state_ok st \<and> perms_at (ms_mapped_memory_map st) = f \<and>
     addresses (ms_written_memory_set st) = A \<and> byte_at (ms_written_memory_bytes st) = g"

text \<open>The bytes a \<open>MemoryBytes\<close> puts at its addresses.\<close>

definition bytes_at :: "memory_bytes \<Rightarrow> address \<rightharpoonup> byte" where
  "bytes_at b k = (if k \<in> bytes_range b then Some (mb_values b ! unat (k - mb_start b)) else None)"

definition put_bytes :: "memory_bytes list \<Rightarrow> (address \<rightharpoonup> byte) \<Rightarrow> (address \<rightharpoonup> byte)" where
  "put_bytes bs g = fold (\<lambda>b g. g ++ bytes_at b) bs g"

lemma has_state_self:
  "state_ok st \<Longrightarrow> has_state (perms_at (ms_mapped_memory_map st)) (addresses (ms_written_memory_set st))
     (byte_at (ms_written_memory_bytes st)) st"
  by (simp add: has_state_def)

lemma has_state_ok: "has_state f A g st \<Longrightarrow> state_ok st"
  by (simp add: has_state_def)

lemma has_state_eqs:
  "has_state f A g st \<Longrightarrow> perms_at (ms_mapped_memory_map st) = f"
  "has_state f A g st \<Longrightarrow> addresses (ms_written_memory_set st) = A"
  "has_state f A g st \<Longrightarrow> byte_at (ms_written_memory_bytes st) = g"
  by (simp_all add: has_state_def)

lemma has_state_cong: "has_state f A g st \<Longrightarrow> f = f' \<Longrightarrow> A = A' \<Longrightarrow> g = g' \<Longrightarrow> has_state f' A' g' st"
  by simp

lemma bytes_map_ext: "bytes_map_ok x \<Longrightarrow> bytes_map_ok y \<Longrightarrow> byte_at x = byte_at y \<Longrightarrow> x = y"
  by (rule mb_ext.canonical_ext) (auto simp: bytes_map_ok_def byte_at_def fun_eq_iff)

text \<open>A state is determined by its three functions: equality of states is equality of content.\<close>

lemma has_state_unique: "has_state f A g x \<Longrightarrow> has_state f A g y \<Longrightarrow> x = y"
proof -
  assume x: "has_state f A g x" and y: "has_state f A g y"
  have "ms_mapped_memory_map x = ms_mapped_memory_map y"
    by (rule perms_at_ext) (use x y in \<open>auto simp: has_state_def state_ok_def\<close>)
  moreover have "ms_written_memory_set x = ms_written_memory_set y"
    by (rule addresses_ext) (use x y in \<open>auto simp: has_state_def state_ok_def\<close>)
  moreover have "ms_written_memory_bytes x = ms_written_memory_bytes y"
    by (rule bytes_map_ext) (use x y in \<open>auto simp: has_state_def state_ok_def\<close>)
  ultimately show "x = y" by (cases x; cases y) simp
qed

lemma has_state_ret_eq:
  assumes "returns (has_state f A g) m" "returns (has_state f A g) n"
  shows "m = n"
  using assms by (auto elim!: returnsE dest: has_state_unique)

lemma new_memory_state_ok: "has_state (\<lambda>_. None) {} (\<lambda>_. None) new_memory_state"
  by (auto simp: has_state_def state_ok_def new_memory_state_def bytes_map_ok_def mb.canonical_def byte_at_def fun_eq_iff)

lemma bytes_ranges_ok: "bytes_map_ok m \<Longrightarrow> ranges_ok (\<lambda>s l v. length v = unat (l - s)) m"
  by (simp add: bytes_map_ok_def)

section \<open>Bytes\<close>

lemma bytes_updates:
  assumes "mb.updates m None f (m', u)" "bytes_map_ok m"
  shows "bytes_map_ok m' \<and> byte_at m' = f"
  using assms by (auto simp: mb.updates_def bytes_map_ok_def byte_at_def fun_eq_iff)

lemma bytes_add_returns:
  assumes "bytes_map_ok m" "s < l" "length v = unat (l - s)"
  shows "returns (\<lambda>(_, m', _). bytes_map_ok m' \<and>
      byte_at m' = (\<lambda>k. if s \<le> k \<and> k < l then Some (v ! unat (k - s)) else byte_at m k))
    (RangeMap_Add bytes_methods s l v m None)"
proof -
  have "mb.okarg kAdd s l v" using assms(3) by (simp add: mb.okarg_def)
  from mb.Change_returns [OF bytes_ranges_ok [OF assms(1)] this assms(2), of None] show ?thesis
    unfolding RangeMap_Add_def
    by (rule returns_mono)
      (auto dest!: bytes_updates [OF _ assms(1)] simp: mb.changed_def overwrite_def byte_at_def fun_eq_iff split: option.splits)
qed

lemma bytes_remove_returns:
  assumes "bytes_map_ok m" "s < l"
  shows "returns (\<lambda>(_, m', _). bytes_map_ok m' \<and>
      byte_at m' = (\<lambda>k. if s \<le> k \<and> k < l then None else byte_at m k))
    (RangeMap_Remove bytes_methods s l [] m None)"
proof -
  have "mb.okarg kRemove s l []" by (simp add: mb.okarg_def)
  from mb.Change_returns [OF bytes_ranges_ok [OF assms(1)] this assms(2), of None] show ?thesis
    unfolding RangeMap_Remove_def
    by (rule returns_mono)
      (auto dest!: bytes_updates [OF _ assms(1)] simp: mb.changed_def forget_def byte_at_def fun_eq_iff split: option.splits)
qed

lemma dom_bytes_at: "dom (bytes_at b) = bytes_range b"
  by (auto simp: bytes_at_def split: if_splits)

lemma bytes_ok_values: "bytes_ok b \<Longrightarrow> length (mb_values b) = unat (mb_limit b - mb_start b)"
  using bytes_ok_limit [of b] unat_diff [of "mb_start b" "mb_limit b"] by simp

lemma SetMemoryBytes_returns:
  assumes st: "has_state f A g st" and b: "bytes_ok b" "bytes_range b \<subseteq> dom f"
  shows "returns (has_state f (A \<union> bytes_range b) (g ++ bytes_at b)) (SetMemoryBytes b st)"
proof -
  have ok: "mapped_map_ok (ms_mapped_memory_map st)" "bytes_set_ok (ms_written_memory_set st)"
    "bytes_map_ok (ms_written_memory_bytes st)"
    using st by (simp_all add: has_state_def state_ok_def)
  note eqs = has_state_eqs [OF st] and lt = bytes_ok_limit(1) [OF b(1)]
  have c: "MappedMemoryMap_Contains (mb_start b) (mb_limit b) (ms_mapped_memory_map st) = ret True"
    using b(2) unfolding Contains_eq [OF ok(1) lt] eqs(1) by (auto simp: bytes_range_def)
  obtain w where w: "MemoryBytesSet_Add (mb_start b) (mb_limit b) (ms_written_memory_set st) = ret w"
    "holds_set (A \<union> bytes_range b) w"
    using MemoryBytesSet_Add_returns [OF ok(2) lt] by (auto elim!: returnsE simp: eqs bytes_range_def)
  obtain r m u where m: "RangeMap_Add bytes_methods (mb_start b) (mb_limit b) (mb_values b) (ms_written_memory_bytes st) None = ret (r, m, u)"
    "bytes_map_ok m" "byte_at m = (\<lambda>k. if mb_start b \<le> k \<and> k < mb_limit b then Some (mb_values b ! unat (k - mb_start b)) else g k)"
    using bytes_add_returns [OF ok(3) lt bytes_ok_values [OF b(1)]] unfolding eqs(3) by (auto elim!: returnsE)
  have g: "byte_at m = g ++ bytes_at b"
    unfolding m(3) by (auto simp: map_add_def bytes_at_def bytes_range_def fun_eq_iff)
  have "dom (g ++ bytes_at b) = dom g \<union> bytes_range b" by (auto simp: dom_bytes_at)
  then show ?thesis
    using st b(2) w(2) m(2) g
    by (auto simp: SetMemoryBytes_def c w(1) m(1) has_state_def state_ok_def holds_set_def)
qed

lemma put_bytes_simps [simp]: "put_bytes [] g = g" "put_bytes (b # bs) g = put_bytes bs (g ++ bytes_at b)"
  by (simp_all add: put_bytes_def)

lemma SetMemoryBytes_list_returns:
  assumes "has_state f A g st" "\<forall>b \<in> set bs. bytes_ok b \<and> bytes_range b \<subseteq> dom f"
  shows "returns (has_state f (A \<union> \<Union> (bytes_range ` set bs)) (put_bytes bs g)) (SetMemoryBytes_list bs st)"
  using assms
proof (induction bs arbitrary: st A g)
  case (Cons b bs)
  have b: "bytes_ok b" "bytes_range b \<subseteq> dom f" using Cons.prems(2) by simp_all
  show ?case
    unfolding SetMemoryBytes_list_def for_each.simps
  proof (rule returns_rbind [OF SetMemoryBytes_returns [OF Cons.prems(1) b]])
    fix st' assume st': "has_state f (A \<union> bytes_range b) (g ++ bytes_at b) st'"
    show "returns (has_state f (A \<union> \<Union> (bytes_range ` set (b # bs))) (put_bytes (b # bs) g)) (for_each SetMemoryBytes bs st')"
      using Cons.IH [OF st'] Cons.prems(2) by (simp add: SetMemoryBytes_list_def Un_assoc)
  qed
qed (simp add: SetMemoryBytes_list_def)

lemma ForgetMemoryBytes_returns:
  assumes "has_state f A g st" "s < l"
  shows "returns (has_state f A (on_keys s l (\<lambda>_. None) g)) (ForgetMemoryBytes s l st)"
proof -
  have ok: "bytes_map_ok (ms_written_memory_bytes st)" using assms(1) by (simp add: has_state_def state_ok_def)
  obtain r m u where m: "RangeMap_Remove bytes_methods s l [] (ms_written_memory_bytes st) None = ret (r, m, u)"
    "bytes_map_ok m" "byte_at m = (\<lambda>k. if s \<le> k \<and> k < l then None else g k)"
    using bytes_remove_returns [OF ok assms(2)] unfolding has_state_eqs(3) [OF assms(1)] by (auto elim!: returnsE)
  have "byte_at m = on_keys s l (\<lambda>_. None) g" unfolding m(3) by (simp add: on_keys_def fun_eq_iff)
  moreover have "dom (on_keys s l (\<lambda>_. None) g) \<subseteq> A"
    using assms(1) by (auto simp: on_keys_def has_state_def state_ok_def split: if_splits)
  moreover have "A \<subseteq> dom f" using assms(1) by (auto simp: has_state_def state_ok_def)
  ultimately show ?thesis
    using assms(1) m(2) by (simp add: ForgetMemoryBytes_def m(1) has_state_def state_ok_def)
qed

section \<open>Mappings\<close>

definition with_mapped :: "memory_perms \<Rightarrow> memory_perms" where
  "with_mapped p = MemoryPerms_PlusPermission p kMapped"

lemma with_mapped_simps [simp]:
  "perms_ok p \<Longrightarrow> perms_ok (with_mapped p)" "perms_set (with_mapped p) = insert kMapped (perms_set p)"
  by (simp_all add: with_mapped_def)

lemma with_mapped_nonempty: "perms_ok p \<Longrightarrow> \<not> MemoryPerms_IsEmpty (with_mapped p)"
  by (simp add: perms_set_empty)

lemma has_state_mapped:
  assumes "has_state f A g st" "holds f' m" "A \<subseteq> dom f'" "\<And>k p. f' k = Some p \<Longrightarrow> kMapped \<in> perms_set p"
  shows "has_state f' A g (st\<lparr>ms_mapped_memory_map := m\<rparr>)"
  using assms by (auto simp: has_state_def state_ok_def holds_def)

lemma state_kMapped: "has_state f A g st \<Longrightarrow> f k = Some p \<Longrightarrow> kMapped \<in> perms_set p"
  unfolding has_state_def state_ok_def by blast

lemma state_written: "has_state f A g st \<Longrightarrow> A \<subseteq> dom f" "has_state f A g st \<Longrightarrow> dom g \<subseteq> A"
  by (auto simp: has_state_def state_ok_def)

lemma state_mapped: "has_state f A g st \<Longrightarrow> mapped_map_ok (ms_mapped_memory_map st)"
  by (simp add: has_state_def state_ok_def)

definition set_at :: "memory_mapping \<Rightarrow> (address \<rightharpoonup> memory_perms) \<Rightarrow> (address \<rightharpoonup> memory_perms)" where
  "set_at m f k = (if k \<in> mapping_range m then Some (with_mapped (mm_perms m)) else f k)"

lemma on_keys_range: "on_keys (mm_start m) (mm_limit m) h f k = (if k \<in> mapping_range m then h k else f k)"
  by (simp add: on_keys_def mapping_range_def)

lemma SetEmptyPermsOk_returns:
  assumes st: "has_state f A g st" and m: "mapping_ok m"
  shows "returns (has_state (set_at m f) A g) (SetMemoryMappingEmptyPermsOk m st)"
proof -
  note p = mapping_params [OF m]
  have "returns (holds (on_keys (mm_start m) (mm_limit m) (\<lambda>_. Some (with_mapped (mm_perms m))) f))
      (MappedMemoryMap_Set (mm_start m) (mm_limit m) (with_mapped (mm_perms m)) (ms_mapped_memory_map st))"
    using Set_returns [OF state_mapped [OF st] p(1)] p(2) has_state_eqs(1) [OF st] by (simp add: with_mapped_nonempty)
  then show ?thesis
    unfolding SetMemoryMappingEmptyPermsOk_def with_mapped_def [symmetric] using p(3)
  proof (simp add: HasPermission_iff, elim returns_rbind)
    fix x assume "holds (on_keys (mm_start m) (mm_limit m) (\<lambda>_. Some (with_mapped (mm_perms m))) f) x"
    then have "holds (set_at m f) x" by (rule holds_cong) (simp add: on_keys_range set_at_def)
    then show "returns (has_state (set_at m f) A g) (ret (st\<lparr>ms_mapped_memory_map := x\<rparr>))"
      using state_written(1) [OF st] state_kMapped [OF st]
      by (auto intro!: has_state_mapped [OF st] simp: set_at_def split: if_splits)
  qed
qed

lemma SetMemoryMapping_returns:
  assumes "has_state f A g st" "mapping_ok m" "\<not> MemoryPerms_IsEmpty (mm_perms m)"
  shows "returns (has_state (set_at m f) A g) (SetMemoryMapping m st)"
  using SetEmptyPermsOk_returns [OF assms(1,2)] assms(3) by (simp add: SetMemoryMapping_def)

lemma AddNewMemoryMapping_returns:
  assumes st: "has_state f A g st" and m: "mapping_ok m" "\<not> MemoryPerms_IsEmpty (mm_perms m)"
    and free: "\<forall>k \<in> mapping_range m. f k = None"
  shows "returns (has_state (set_at m f) A g) (AddNewMemoryMapping m st)"
proof -
  note p = mapping_params [OF m(1)]
  have "returns (holds (on_keys (mm_start m) (mm_limit m) (\<lambda>_. Some (with_mapped (mm_perms m))) f))
      (MappedMemoryMap_AddNew (mm_start m) (mm_limit m) (with_mapped (mm_perms m)) (ms_mapped_memory_map st))"
    using AddNew_returns [OF state_mapped [OF st] p(1), of "with_mapped (mm_perms m)"] p(2) has_state_eqs(1) [OF st] free
    by (simp add: with_mapped_nonempty mapping_range_def)
  then show ?thesis
    unfolding AddNewMemoryMapping_def with_mapped_def [symmetric] using p(3) m(2)
  proof (simp add: HasPermission_iff, elim returns_rbind)
    fix x assume "holds (on_keys (mm_start m) (mm_limit m) (\<lambda>_. Some (with_mapped (mm_perms m))) f) x"
    then have "holds (set_at m f) x" by (rule holds_cong) (simp add: on_keys_range set_at_def)
    then show "returns (has_state (set_at m f) A g) (ret (st\<lparr>ms_mapped_memory_map := x\<rparr>))"
      using state_written(1) [OF st] state_kMapped [OF st]
      by (auto intro!: has_state_mapped [OF st] simp: set_at_def split: if_splits)
  qed
qed

lemma RemoveMemoryMapping_returns:
  assumes st: "has_state f A g st" and lt: "s < l"
  shows "returns (has_state (on_keys s l (\<lambda>_. None) f) (A - {s..<l}) (on_keys s l (\<lambda>_. None) g)) (RemoveMemoryMapping s l st)"
proof -
  have ok: "bytes_set_ok (ms_written_memory_set st)" "bytes_map_ok (ms_written_memory_bytes st)"
    using st by (simp_all add: has_state_def state_ok_def)
  note eqs = has_state_eqs [OF st]
  obtain m where m: "MappedMemoryMap_Remove s l MemoryPerms_AllPlusMapped (ms_mapped_memory_map st) = ret m"
    "holds (on_keys s l (\<lambda>k. remove_at MemoryPerms_AllPlusMapped (f k)) f) m"
    using Remove_returns [OF state_mapped [OF st] lt, of MemoryPerms_AllPlusMapped] by (auto elim!: returnsE simp: eqs)
  have "perms_ok p" if "f k = Some p" for k p
    using that perms_at_ok [OF state_mapped [OF st]] eqs(1) by metis
  then have "holds (on_keys s l (\<lambda>_. None) f) m"
    using m(2) by (elim holds_cong) (simp add: on_keys_def remove_at_all)
  moreover obtain w where w: "MemoryBytesSet_Remove s l (ms_written_memory_set st) = ret w" "holds_set (A - {s..<l}) w"
    using MemoryBytesSet_Remove_returns [OF ok(1) lt] by (auto elim!: returnsE simp: eqs)
  moreover obtain r b u where b: "RangeMap_Remove bytes_methods s l [] (ms_written_memory_bytes st) None = ret (r, b, u)"
    "bytes_map_ok b" "byte_at b = on_keys s l (\<lambda>_. None) g"
    using bytes_remove_returns [OF ok(2) lt] by (auto elim!: returnsE simp: eqs on_keys_def fun_eq_iff)
  moreover have "dom (on_keys s l (\<lambda>_. None) g) \<subseteq> A - {s..<l}" "A - {s..<l} \<subseteq> dom (on_keys s l (\<lambda>_. None) f)"
    using state_written [OF st] by (auto simp: on_keys_def split: if_splits)
  moreover have "kMapped \<in> perms_set p" if "on_keys s l (\<lambda>_. None) f k = Some p" for k p
    using that state_kMapped [OF st] by (auto simp: on_keys_def split: if_splits)
  ultimately show ?thesis
    by (simp add: RemoveMemoryMapping_def m(1) has_state_def state_ok_def holds_def holds_set_def)
qed

text \<open>Setting a list of mappings.\<close>

definition put_mappings :: "memory_mapping list \<Rightarrow> (address \<rightharpoonup> memory_perms) \<Rightarrow> (address \<rightharpoonup> memory_perms)" where
  "put_mappings ms f = fold set_at ms f"

lemma put_mappings_simps [simp]: "put_mappings [] f = f" "put_mappings (m # ms) f = put_mappings ms (set_at m f)"
  by (simp_all add: put_mappings_def)

lemma put_mappings_at:
  assumes "mappings_ok ms"
  shows "put_mappings ms f k = (case mappings_at ms k of None \<Rightarrow> f k | Some p \<Rightarrow> Some (with_mapped p))"
  using assms
proof (induction ms arbitrary: f)
  case (Cons m ms)
  have "mappings_ok ms" and dis: "\<forall>n \<in> set ms. mapping_range m \<inter> mapping_range n = {}"
    using Cons.prems by (simp_all add: mappings_ok_def)
  moreover have "mappings_at ms k = None" if "k \<in> mapping_range m"
    using dis that by (auto simp: mappings_at_None)
  moreover have "set_at m f k = (if k \<in> mapping_range m then Some (with_mapped (mm_perms m)) else f k)"
    by (rule set_at_def)
  ultimately show ?case using Cons.IH [of "set_at m f"] by (auto simp: mappings_at_Cons split: option.splits)
qed simp

lemma set_mappings_returns:
  assumes "has_state f A g st" "mappings_ok ms"
  shows "returns (has_state (put_mappings ms f) A g) (for_each SetMemoryMapping ms st)"
  using assms
proof (induction ms arbitrary: st f)
  case (Cons m ms)
  have m: "mapping_ok m" "\<not> MemoryPerms_IsEmpty (mm_perms m)" "mappings_ok ms"
    using Cons.prems(2) by (simp_all add: mappings_ok_def)
  show ?case
    unfolding for_each.simps put_mappings_simps
    by (rule returns_rbind [OF SetMemoryMapping_returns [OF Cons.prems(1) m(1,2)]]) (rule Cons.IH [OF _ m(3)])
qed simp

lemma add_mappings_returns:
  assumes "has_state f A g st" "mappings_ok ms" "\<forall>m \<in> set ms. \<forall>k \<in> mapping_range m. f k = None"
  shows "returns (has_state (put_mappings ms f) A g) (AddNewMemoryMappings ms st)"
  unfolding AddNewMemoryMappings_def using assms
proof (induction ms arbitrary: st f)
  case (Cons m ms)
  have m: "mapping_ok m" "\<not> MemoryPerms_IsEmpty (mm_perms m)" "mappings_ok ms" "\<forall>k \<in> mapping_range m. f k = None"
    using Cons.prems by (simp_all add: mappings_ok_def)
  have free: "\<forall>n \<in> set ms. \<forall>k \<in> mapping_range n. set_at m f k = None"
    using Cons.prems(2,3) by (auto simp: mappings_ok_def set_at_def)
  show ?case
    unfolding for_each.simps put_mappings_simps
    by (rule returns_rbind [OF AddNewMemoryMapping_returns [OF Cons.prems(1) m(1,2,4)]]) (rule Cons.IH [OF _ m(3) free])
qed simp

end
