(* ===== verification/Memory_Initial.thy ===== *)
theory Memory_Initial
  imports Memory_State_Spec
begin

text \<open>
  The state of memory when a snapshot starts and ends, from \<open>common/memory_state.cc\<close>:
  \<open>SetInitialState\<close> and \<open>MakeEnd\<close>. First the loops over the elements of a map: a body that acts on one range
  acts, over the whole map, at each address by the element that holds it.
\<close>

section \<open>Iterating over a map\<close>

lemma ranges_loop_returns:
  assumes "ranges_ok okv es" "I h st"
    and step: "\<And>e h st. e \<in> set es \<Longrightarrow> I h st \<Longrightarrow>
      returns (I (on_keys (entry_start e) (entry_limit e) (\<lambda>k. F (snd e) (h k)) h)) (f e st)"
  shows "returns (I (\<lambda>k. case lookup (\<lambda>_ _ v _. v) es k of None \<Rightarrow> h k | Some v \<Rightarrow> F v (h k))) (for_each f es st)"
  using assms
proof (induction es arbitrary: h st)
  case (Cons e es)
  have ok: "ranges_ok okv es" using Cons.prems(1) by (simp add: ranges_ok_Cons)
  let ?h = "on_keys (entry_start e) (entry_limit e) (\<lambda>k. F (snd e) (h k)) h"
  have at: "(case lookup (\<lambda>_ _ v _. v) es k of None \<Rightarrow> ?h k | Some v \<Rightarrow> F v (?h k)) =
      (case lookup (\<lambda>_ _ v _. v) (e # es) k of None \<Rightarrow> h k | Some v \<Rightarrow> F v (h k))" for k
  proof (cases "entry_start e \<le> k \<and> k < entry_limit e")
    case True
    then have "lookup (\<lambda>_ _ v _. v) es k = None"
      using Cons.prems(1) by (intro lookup_None) (auto simp: ranges_ok_Cons)
    then show ?thesis using True by (simp add: on_keys_def)
  qed (auto simp: on_keys_def split: option.splits)
  show ?case
    unfolding for_each.simps at [symmetric]
    by (rule returns_rbind [OF Cons.prems(3) [OF _ Cons.prems(2)]])
      (use ok Cons.prems(3) in \<open>auto intro!: Cons.IH\<close>)
qed simp

lemma Iterate_returns:
  assumes "mapped_map_ok m" "I h st"
    and step: "\<And>s l v h st. ((s, l), v) \<in> set m \<Longrightarrow> s < l \<Longrightarrow> I h st \<Longrightarrow>
      returns (I (on_keys s l (\<lambda>k. F v (h k)) h)) (f s l v st)"
  shows "returns (I (\<lambda>k. case perms_at m k of None \<Rightarrow> h k | Some v \<Rightarrow> F v (h k))) (MappedMemoryMap_Iterate f m st)"
  unfolding MappedMemoryMap_Iterate_def perms_at_def
  by (rule ranges_loop_returns [where F = F and I = I, OF ranges_of_ok [OF assms(1)] assms(2)])
    (use entry_pos [OF assms(1)] step in fastforce)

text \<open>The permissions, the written set and the bytes of a state as one function.\<close>

definition content ::
    "(address \<Rightarrow> memory_perms option \<times> bool \<times> byte option) \<Rightarrow> memory_state \<Rightarrow> bool" where
  "content h st \<longleftrightarrow> has_state (\<lambda>k. fst (h k)) {k. fst (snd (h k))} (\<lambda>k. snd (snd (h k))) st"

lemma content_has_state: "has_state f A g st \<longleftrightarrow> content (\<lambda>k. (f k, k \<in> A, g k)) st"
  by (simp add: content_def)

lemma content_returns:
  assumes "returns (content h) m" "\<And>k. fst (h k) = f k" "\<And>k. fst (snd (h k)) \<longleftrightarrow> k \<in> A" "\<And>k. snd (snd (h k)) = g k"
  shows "returns (has_state f A g) m"
  using assms(1) by (rule returns_mono) (simp add: content_def assms(2-4))

section \<open>Removing what the snapshot does not map\<close>

lemma not_in_snapshot_returns:
  assumes "mapped_map_ok y" "mapped_map_ok m"
  shows "returns (holds (\<lambda>k. if perms_at y k = None then perms_at m k else None))
    (MappedMemoryMap_RemoveRangesOf y MemoryPerms_AllPlusMapped (MappedMemoryMap_Copy m))"
proof -
  have "returns (holds (without_ranges y MemoryPerms_AllPlusMapped (perms_at m)))
      (MappedMemoryMap_RemoveRangesOf y MemoryPerms_AllPlusMapped (MappedMemoryMap_Copy m))"
    using RemoveRangesOf_returns [OF assms(2,1)] by (simp add: MappedMemoryMap_Copy_def)
  then show ?thesis
    by (rule returns_mono) (auto elim!: holds_cong simp: without_ranges_def intro!: remove_at_all perms_at_ok [OF assms(2)])
qed

lemma RemoveMemoryMappingsNotIn_returns:
  assumes "has_state f A g st" "mapped_map_ok (snap_mapped_memory_map s)"
  defines "in_snapshot \<equiv> \<lambda>k. perms_at (snap_mapped_memory_map s) k \<noteq> None"
  shows "returns (has_state (\<lambda>k. if in_snapshot k then f k else None) {k \<in> A. in_snapshot k}
      (\<lambda>k. if in_snapshot k then g k else None)) (RemoveMemoryMappingsNotIn s st)"
  unfolding RemoveMemoryMappingsNotIn_def
proof (rule returns_rbind [OF not_in_snapshot_returns [OF assms(2) state_mapped [OF assms(1)]]])
  fix m
  assume m: "holds (\<lambda>k. if perms_at (snap_mapped_memory_map s) k = None then perms_at (ms_mapped_memory_map st) k else None) m"
  let ?h = "\<lambda>k. (f k, k \<in> A, g k)"
  have "returns (content (\<lambda>k. case perms_at m k of None \<Rightarrow> ?h k | Some v \<Rightarrow> (None, False, None)))
      (MappedMemoryMap_Iterate (\<lambda>start limit perms. RemoveMemoryMapping start limit) m st)"
  proof (rule Iterate_returns [OF holds_ok [OF m], where F = "\<lambda>v _. (None, False, None)"])
    show "content ?h st" using assms(1) by (simp add: content_def)
    fix a l v h st assume "a < (l :: address)" "content h st"
    then show "returns (content (on_keys a l (\<lambda>k. (None, False, None)) h)) (RemoveMemoryMapping a l st)"
      unfolding content_def
      by (intro returns_mono [OF RemoveMemoryMapping_returns])
        (auto elim!: has_state_cong simp: on_keys_def fun_eq_iff split: if_splits)
  qed
  then show "returns (has_state (\<lambda>k. if in_snapshot k then f k else None) {k \<in> A. in_snapshot k}
      (\<lambda>k. if in_snapshot k then g k else None))
      (MappedMemoryMap_Iterate (\<lambda>start limit perms. RemoveMemoryMapping start limit) m st)"
    by (rule content_returns)
      (use state_written [OF assms(1)] in
        \<open>auto simp: holds_at [OF m] has_state_eqs(1) [OF assms(1)] in_snapshot_def split: option.splits\<close>)
qed

text \<open>Only the permissions go, the mapping stays.\<close>

lemma remove_perms_returns:
  assumes "has_state f A g st" "s < l" "kMapped \<notin> perms_set p"
  shows "returns (has_state (on_keys s l (\<lambda>k. map_option (MemoryPerms_Clear p) (f k)) f) A g)
    (rbind (MappedMemoryMap_Remove s l p (ms_mapped_memory_map st)) (\<lambda>m. ret (st\<lparr>ms_mapped_memory_map := m\<rparr>)))"
proof (rule returns_rbind [OF Remove_returns [OF state_mapped [OF assms(1)] assms(2)]])
  fix m assume "holds (on_keys s l (\<lambda>k. remove_at p (perms_at (ms_mapped_memory_map st) k)) (perms_at (ms_mapped_memory_map st))) m"
  note m = this [unfolded has_state_eqs(1) [OF assms(1)]]
  have keeps: "remove_at p (f k) = map_option (MemoryPerms_Clear p) (f k)" for k
  proof (cases "f k")
    case (Some q)
    have "perms_ok q" using perms_at_ok [OF state_mapped [OF assms(1)], of k q] has_state_eqs(1) [OF assms(1)] Some by simp
    moreover have "kMapped \<in> perms_set q" using state_kMapped [OF assms(1) Some] .
    ultimately have "\<not> MemoryPerms_IsEmpty (MemoryPerms_Clear p q)"
      using assms(3) perms_set_empty [of "MemoryPerms_Clear p q"] by auto
    then show ?thesis using Some by (simp add: remove_at_def nonempty_perms_def)
  qed simp
  have "holds (on_keys s l (\<lambda>k. map_option (MemoryPerms_Clear p) (f k)) f) m"
    using m unfolding keeps .
  then show "returns (has_state (on_keys s l (\<lambda>k. map_option (MemoryPerms_Clear p) (f k)) f) A g)
      (ret (st\<lparr>ms_mapped_memory_map := m\<rparr>))"
    using state_written(1) [OF assms(1)] state_kMapped [OF assms(1)] assms(3)
    by (auto intro!: has_state_mapped [OF assms(1)] simp: on_keys_def split: if_splits)
qed

lemma ClearMemoryMappingsPermsNotIn_returns:
  assumes "has_state f A g st" "mapped_map_ok (snap_mapped_memory_map s)"
  defines "in_snapshot \<equiv> \<lambda>k. perms_at (snap_mapped_memory_map s) k \<noteq> None"
  shows "returns (has_state (\<lambda>k. if in_snapshot k then f k else map_option (MemoryPerms_Clear MemoryPerms_All) (f k)) A g)
    (ClearMemoryMappingsPermsNotIn s st)"
  unfolding ClearMemoryMappingsPermsNotIn_def
proof (rule returns_rbind [OF not_in_snapshot_returns [OF assms(2) state_mapped [OF assms(1)]]])
  fix m
  assume m: "holds (\<lambda>k. if perms_at (snap_mapped_memory_map s) k = None then perms_at (ms_mapped_memory_map st) k else None) m"
  let ?body = "\<lambda>start limit perms st. rbind (MappedMemoryMap_Remove start limit MemoryPerms_All (ms_mapped_memory_map st))
      (\<lambda>map. ret (st\<lparr>ms_mapped_memory_map := map\<rparr>))"
  have "returns (has_state (\<lambda>k. case perms_at m k of None \<Rightarrow> f k | Some v \<Rightarrow> map_option (MemoryPerms_Clear MemoryPerms_All) (f k)) A g)
      (MappedMemoryMap_Iterate ?body m st)"
    by (rule Iterate_returns [OF holds_ok [OF m], where I = "\<lambda>h. has_state h A g" and
        F = "\<lambda>v. map_option (MemoryPerms_Clear MemoryPerms_All)"])
      (use assms(1) in \<open>auto intro!: remove_perms_returns\<close>)
  moreover have "(case perms_at m k of None \<Rightarrow> f k | Some v \<Rightarrow> map_option (MemoryPerms_Clear MemoryPerms_All) (f k)) =
      (if in_snapshot k then f k else map_option (MemoryPerms_Clear MemoryPerms_All) (f k))" for k
    by (auto simp: holds_at [OF m] has_state_eqs(1) [OF assms(1)] in_snapshot_def split: option.splits)
  ultimately show "returns (has_state (\<lambda>k. if in_snapshot k then f k else map_option (MemoryPerms_Clear MemoryPerms_All) (f k)) A g)
      (MappedMemoryMap_Iterate ?body m st)" by simp
qed

section \<open>SetInitialState\<close>

text \<open>The permissions that \<open>remove_negative_perms\<close> leaves: negative permissions count where the snapshot
  maps nothing.\<close>

definition minus_negative :: "snapshot \<Rightarrow> (address \<rightharpoonup> memory_perms) \<Rightarrow> (address \<rightharpoonup> memory_perms)" where
  "minus_negative s f k =
     (case mappings_at (snap_memory_mappings s) k of Some _ \<Rightarrow> f k
      | None \<Rightarrow> (case mappings_at (snap_negative_memory_mappings s) k of None \<Rightarrow> f k
          | Some n \<Rightarrow> map_option (MemoryPerms_Clear n) (f k)))"

lemma snapshot_maps:
  assumes "snapshot_ok s"
  shows "mapped_map_ok (snap_mapped_memory_map s)" "mapped_map_ok (snap_negative_mapped_memory_map s)"
    "perms_at (snap_mapped_memory_map s) k = mappings_at (snap_memory_mappings s) k"
    "perms_at (snap_negative_mapped_memory_map s) k = mappings_at (snap_negative_memory_mappings s) k"
    "mappings_ok (snap_memory_mappings s)" "mappings_ok (snap_negative_memory_mappings s)"
  using assms by (simp_all add: snapshot_ok_def represents_def)

lemma clear_intersection:
  assumes "perms_ok q"
  shows "(case intersect_at (Some q) (Some n) of None \<Rightarrow> Some q | Some v \<Rightarrow> Some (MemoryPerms_Clear v q)) =
    Some (MemoryPerms_Clear n q)"
proof -
  have ok: "perms_ok (MemoryPerms_Intersect n q)" using assms by simp
  have "MemoryPerms_Clear (MemoryPerms_Intersect n q) q = MemoryPerms_Clear n q"
    using assms by (subst perms_eq_iff) auto
  moreover have "MemoryPerms_Clear n q = q" if "perms_set q \<inter> perms_set n = {}"
    using that assms by (subst perms_eq_iff) auto
  ultimately show ?thesis by (simp add: intersect_at_def nonempty_perms_def perms_set_empty [OF ok])
qed

lemma remove_negative_returns:
  assumes st: "has_state f A g st" and s: "snapshot_ok s"
  shows "returns (has_state (minus_negative s f) A g) (remove_negative_perms s st)"
  unfolding remove_negative_perms_def
proof (rule returns_rbind [OF not_in_snapshot_returns [OF snapshot_maps(1,2) [OF s]]])
  note ok = state_mapped [OF st] and f = has_state_eqs(1) [OF st]
  fix filtered
  assume filtered: "holds (\<lambda>k. if perms_at (snap_mapped_memory_map s) k = None then perms_at (snap_negative_mapped_memory_map s) k else None) filtered"
  let ?body = "\<lambda>start limit perms st. rbind (check (\<not> MemoryPerms_HasPermission perms kMapped) ''!perms.Has(kMapped)'') (\<lambda>_.
       rbind (MappedMemoryMap_Remove start limit perms (ms_mapped_memory_map st)) (\<lambda>map. ret (st\<lparr>ms_mapped_memory_map := map\<rparr>)))"
  show "returns (has_state (minus_negative s f) A g)
      (rbind (MappedMemoryMap_AddIntersectionOf (ms_mapped_memory_map st) filtered []) (\<lambda>delta.
         MappedMemoryMap_Iterate ?body delta st))"
  proof (rule returns_rbind [OF AddIntersection_returns [OF ok holds_ok [OF filtered] mapped_map_ok_Nil]])
    fix delta
    assume "holds (\<lambda>k. add_option (intersect_at (perms_at (ms_mapped_memory_map st) k) (perms_at filtered k)) (perms_at [] k)) delta"
    then have d: "mapped_map_ok delta" "\<And>k. perms_at delta k = intersect_at (f k) (perms_at filtered k)"
      by (simp_all add: holds_def f fun_eq_iff)
    have noM: "kMapped \<notin> perms_set v" if e: "((a, l), v) \<in> set delta" for a l v
    proof -
      have "perms_at delta a = Some v" using perms_at_entry [OF d(1) e, of a] entry_pos [OF d(1) e] by simp
      then obtain q n where "v = MemoryPerms_Intersect n q" "mappings_at (snap_negative_memory_mappings s) a = Some n"
        by (auto simp: d(2) holds_at [OF filtered] intersect_at_def nonempty_perms_def snapshot_maps(4) [OF s]
            split: option.splits if_splits)
      then show ?thesis using mappings_at_no_kMapped [OF snapshot_maps(6) [OF s]] by simp
    qed
    have "returns (has_state (\<lambda>k. case perms_at delta k of None \<Rightarrow> f k | Some v \<Rightarrow> map_option (MemoryPerms_Clear v) (f k)) A g)
        (MappedMemoryMap_Iterate ?body delta st)"
      by (rule Iterate_returns [OF d(1), where I = "\<lambda>h. has_state h A g" and F = "\<lambda>v. map_option (MemoryPerms_Clear v)"])
        (use st noM in \<open>auto simp: HasPermission_iff intro!: remove_perms_returns\<close>)
    moreover have "(case perms_at delta k of None \<Rightarrow> f k | Some v \<Rightarrow> map_option (MemoryPerms_Clear v) (f k)) = minus_negative s f k" for k
    proof (cases "f k")
      case (Some q)
      have "perms_ok q" using perms_at_ok [OF ok, of k q] f Some by simp
      note inter = clear_intersection [OF this]
      have "perms_at filtered k = (case mappings_at (snap_memory_mappings s) k of
          None \<Rightarrow> mappings_at (snap_negative_memory_mappings s) k | Some _ \<Rightarrow> None)"
        by (simp add: holds_at [OF filtered] snapshot_maps(3,4) [OF s] split: option.splits)
      then show ?thesis
        unfolding minus_negative_def d(2) Some option.map
        by (cases "perms_at filtered k") (auto simp: inter intersect_at_def [of "Some q" None] split: option.splits)
    qed (auto simp: minus_negative_def d(2) intersect_at_def split: option.splits)
    ultimately show "returns (has_state (minus_negative s f) A g) (MappedMemoryMap_Iterate ?body delta st)"
      by (simp add: fun_eq_iff)
  qed
qed

text \<open>A range of zeroes.\<close>

lemma zero_bytes_returns:
  assumes st: "has_state f A g st" and lt: "s < l" "{s..<l} \<subseteq> dom f"
  shows "returns (has_state f (A \<union> {s..<l}) (on_keys s l (\<lambda>_. Some 0) g))
    (rbind (new_memory_bytes s (replicate (unat (l - s)) 0)) (\<lambda>b. SetMemoryBytes b st))"
proof -
  let ?b = "\<lparr>mb_start = s, mb_values = replicate (unat (l - s)) (0 :: byte)\<rparr>"
  have u: "unat s < unat l" "unat (l - s) = unat l - unat s" "unat l < 2 ^ 64"
    using lt(1) unat_u64_lt [of l] unat_diff [OF less_imp_le [OF lt(1)]] by (simp_all add: word_less_nat_alt)
  have new: "new_memory_bytes s (replicate (unat (l - s)) 0) = ret ?b" "bytes_ok ?b"
    by (rule new_memory_bytes_ok; use u in simp)+
  have "unat (mb_limit ?b) = unat l" using bytes_ok_limit(2) [OF new(2)] u by simp
  then have lim: "mb_limit ?b = l" by (simp only: word_unat_eq_iff)
  have range: "bytes_range ?b = {s..<l}" using lim by (simp add: bytes_range_def)
  have "g ++ bytes_at ?b = on_keys s l (\<lambda>_. Some 0) g"
  proof
    fix k
    have "unat (k - s) < unat (l - s)" if "s \<le> k" "k < l"
      using that u by (simp add: unat_diff word_less_nat_alt word_le_nat_alt)
    then show "(g ++ bytes_at ?b) k = on_keys s l (\<lambda>_. Some 0) g k"
      by (simp add: map_add_def bytes_at_def range on_keys_def)
  qed
  then show ?thesis
    using SetMemoryBytes_returns [OF st new(2)] lt(2) by (simp add: new(1) range)
qed

lemma zero_new_returns:
  assumes st: "has_state f A g st" and m: "holds new m" "dom new \<subseteq> dom f"
  shows "returns (has_state f (A \<union> dom new) (\<lambda>k. if new k = None then g k else Some 0)) (zero_new_mappings m st)"
proof -
  let ?h = "\<lambda>k. (f k, k \<in> A, g k)"
  have "returns (content (\<lambda>k. case perms_at m k of None \<Rightarrow> ?h k | Some v \<Rightarrow> (fst (?h k), True, Some 0)))
      (zero_new_mappings m st)"
    unfolding zero_new_mappings_def
  proof (rule Iterate_returns [OF holds_ok [OF m(1)], where I = "\<lambda>h st. (\<forall>k. fst (h k) = f k) \<and> content h st" and
        F = "\<lambda>v h. (fst h, True, Some 0)", THEN returns_mono])
    show "(\<forall>k. fst (?h k) = f k) \<and> content ?h st" using st by (simp add: content_def)
    fix a l v h st assume e: "((a, l), v) \<in> set m" "a < l" and h: "(\<forall>k. fst (h k) = f k) \<and> content h st"
    have "{a..<l} \<subseteq> dom f"
    proof
      fix k assume "k \<in> {a..<l}"
      then have "new k = Some v"
        using perms_at_entry [OF holds_ok [OF m(1)] e(1), of k] by (simp add: holds_at [OF m(1)])
      then show "k \<in> dom f" using m(2) by blast
    qed
    note zero = zero_bytes_returns [OF _ e(2) this]
    have hf: "(\<lambda>k. fst (h k)) = f" using h by auto
    show "returns (\<lambda>st. (\<forall>k. fst (on_keys a l (\<lambda>k. (fst (h k), True, Some 0)) h k) = f k) \<and>
        content (on_keys a l (\<lambda>k. (fst (h k), True, Some 0)) h) st)
        (rbind (new_memory_bytes a (replicate (unat (l - a)) 0)) (\<lambda>b. SetMemoryBytes b st))"
    proof (rule returns_mono [OF zero])
      show "has_state f {k. fst (snd (h k))} (\<lambda>k. snd (snd (h k))) st" using h by (simp add: content_def hf)
      fix x assume x: "has_state f ({k. fst (snd (h k))} \<union> {a..<l}) (on_keys a l (\<lambda>_. Some 0) (\<lambda>k. snd (snd (h k)))) x"
      let ?h = "on_keys a l (\<lambda>k. (fst (h k), True, Some 0)) h"
      have f: "fst (?h k) = f k" for k using h by (simp add: on_keys_def)
      have "content ?h x"
        unfolding content_def
      proof (rule has_state_cong [OF x])
        show "f = (\<lambda>k. fst (?h k))" using f by (simp add: fun_eq_iff)
        show "{k. fst (snd (h k))} \<union> {a..<l} = {k. fst (snd (?h k))}" by (auto simp: on_keys_def split: if_splits)
        show "on_keys a l (\<lambda>_. Some 0) (\<lambda>k. snd (snd (h k))) = (\<lambda>k. snd (snd (?h k)))" by (simp add: on_keys_def fun_eq_iff)
      qed
      with f show "(\<forall>k. fst (?h k) = f k) \<and> content ?h x" by blast
    qed
  qed simp
  then show ?thesis
    by (rule content_returns) (auto simp: holds_at [OF m(1)] split: option.splits)
qed

text \<open>The bytes of a list of \<open>MemoryBytes\<close>.\<close>

definition listed_bytes :: "memory_bytes list \<Rightarrow> address \<rightharpoonup> byte" where
  "listed_bytes bs k = (case find (\<lambda>b. k \<in> bytes_range b) bs of None \<Rightarrow> None | Some b \<Rightarrow> bytes_at b k)"

lemma listed_bytes_simps [simp]:
  "listed_bytes [] k = None"
  "listed_bytes (b # bs) k = (if k \<in> bytes_range b then bytes_at b k else listed_bytes bs k)"
  by (simp_all add: listed_bytes_def)

lemma bytes_at_in: "k \<in> bytes_range b \<Longrightarrow> bytes_at b k = Some (mb_values b ! unat (k - mb_start b))"
  by (simp add: bytes_at_def)

lemma bytes_at_out: "k \<notin> bytes_range b \<Longrightarrow> bytes_at b k = None"
  by (simp add: bytes_at_def)

lemma listed_bytes_None: "listed_bytes bs k = None \<longleftrightarrow> (\<forall>b \<in> set bs. k \<notin> bytes_range b)"
  by (induction bs) (simp_all add: bytes_at_in)

lemma put_bytes_disjoint:
  assumes "sorted_wrt (\<lambda>a b. bytes_range a \<inter> bytes_range b = {}) bs"
  shows "put_bytes bs g = g ++ listed_bytes bs"
  using assms
proof (induction bs arbitrary: g)
  case (Cons b bs)
  have "listed_bytes bs k = None" if "k \<in> bytes_range b" for k
    using Cons.prems that by (auto simp: listed_bytes_None)
  then show ?case
    using Cons by (auto simp: fun_eq_iff map_add_def bytes_at_in bytes_at_out split: option.splits)
qed (simp add: map_add_def fun_eq_iff)

lemma dom_listed_bytes: "dom (listed_bytes bs) = \<Union> (bytes_range ` set bs)"
  using listed_bytes_None [of bs] by (auto simp: dom_def)

text \<open>What the snapshot sets: permissions at each address, and bytes over those of \<open>g\<close>.\<close>

definition initial_perms :: "snapshot \<Rightarrow> (address \<rightharpoonup> memory_perms) \<Rightarrow> (address \<rightharpoonup> memory_perms)" where
  "initial_perms s f k =
     (case mappings_at (snap_memory_mappings s) k of Some p \<Rightarrow> Some (with_mapped p)
      | None \<Rightarrow> (case mappings_at (snap_negative_memory_mappings s) k of None \<Rightarrow> f k
          | Some n \<Rightarrow> map_option (MemoryPerms_Clear n) (f k)))"

definition newly_mapped :: "snapshot \<Rightarrow> (address \<rightharpoonup> memory_perms) \<Rightarrow> address set" where
  "newly_mapped s f = mapped_addresses (snap_memory_mappings s) - dom f"

definition initial_bytes ::
    "snapshot \<Rightarrow> mapped_zeroing \<Rightarrow> (address \<rightharpoonup> memory_perms) \<Rightarrow> (address \<rightharpoonup> byte) \<Rightarrow> (address \<rightharpoonup> byte)" where
  "initial_bytes s zeroing f g k =
     (case listed_bytes (snap_memory_bytes s) k of Some v \<Rightarrow> Some v
      | None \<Rightarrow> if zeroing = kZeroMappedBytes \<and> k \<in> newly_mapped s f then Some 0 else g k)"

lemma snapshot_bytes:
  assumes "snapshot_ok s"
  shows "\<forall>b \<in> set (snap_memory_bytes s). bytes_ok b \<and> bytes_range b \<subseteq> mapped_addresses (snap_memory_mappings s)"
    "sorted_wrt (\<lambda>a b. bytes_range a \<inter> bytes_range b = {}) (snap_memory_bytes s)"
    "addresses (snap_written_memory_set s) = \<Union> (bytes_range ` set (snap_memory_bytes s))"
  using assms by (auto simp: snapshot_ok_def bytes_represent_def)

lemma initial_perms_mapped:
  assumes "snapshot_ok s"
  shows "minus_negative s (put_mappings (snap_memory_mappings s) f) = initial_perms s f"
    "dom f \<union> mapped_addresses (snap_memory_mappings s) = dom (initial_perms s f)"
  by (auto simp: fun_eq_iff minus_negative_def initial_perms_def put_mappings_at [OF snapshot_maps(5) [OF assms]]
      mapped_addresses_def dom_def split: option.splits)

lemma SetInitialState_returns:
  assumes st: "has_state f A g st" and s: "snapshot_ok s"
  shows "returns (has_state (initial_perms s f)
      (A \<union> (if zeroing = kZeroMappedBytes then newly_mapped s f else {}) \<union> addresses (snap_written_memory_set s))
      (initial_bytes s zeroing f g)) (SetInitialState s zeroing st)"
  unfolding SetInitialState_def
proof (rule returns_rbind [OF not_in_snapshot_returns [OF state_mapped [OF st] snapshot_maps(1) [OF s]]],
    rule returns_rbind [OF set_mappings_returns [OF st snapshot_maps(5) [OF s]]],
    rule returns_rbind [OF remove_negative_returns [OF _ s]], assumption, unfold initial_perms_mapped(1) [OF s])
  let ?f = "initial_perms s f" and ?new = "\<lambda>k. if f k = None then mappings_at (snap_memory_mappings s) k else None"
  let ?z = "if zeroing = kZeroMappedBytes then newly_mapped s f else {}"
  let ?g = "\<lambda>k. if k \<in> ?z then Some 0 else g k"
  fix m x
  assume "holds (\<lambda>k. if perms_at (ms_mapped_memory_map st) k = None then perms_at (snap_mapped_memory_map s) k else None) m"
  then have m: "holds ?new m"
    unfolding has_state_eqs(1) [OF st] snapshot_maps(3) [OF s] .
  assume x: "has_state ?f A g x"
  have new: "dom ?new = newly_mapped s f" by (auto simp: newly_mapped_def mapped_addresses_def split: if_splits)
  have sub: "mapped_addresses (snap_memory_mappings s) \<subseteq> dom ?f" using initial_perms_mapped(2) [OF s, of f] by blast
  have zero: "returns (has_state ?f (A \<union> ?z) ?g) (if zeroing = kZeroMappedBytes then zero_new_mappings m x else ret x)"
  proof (cases "zeroing = kZeroMappedBytes")
    case True
    have "dom ?new \<subseteq> dom ?f" using sub unfolding new newly_mapped_def by blast
    from zero_new_returns [OF x m this] show ?thesis
    proof (simp add: True, elim returns_mono has_state_cong)
      show "A \<union> dom ?new = A \<union> newly_mapped s f" by (simp only: new)
      show "(\<lambda>k. if ?new k = None then g k else Some 0) = (\<lambda>k. if k \<in> newly_mapped s f then Some 0 else g k)"
        unfolding new [symmetric] by (auto simp: fun_eq_iff)
    qed simp
  qed (use x in simp)
  have "put_bytes (snap_memory_bytes s) ?g = initial_bytes s zeroing f g"
    unfolding put_bytes_disjoint [OF snapshot_bytes(2) [OF s]]
    by (auto simp: fun_eq_iff map_add_def initial_bytes_def split: option.splits)
  moreover have "\<forall>b \<in> set (snap_memory_bytes s). bytes_ok b \<and> bytes_range b \<subseteq> dom ?f"
    using snapshot_bytes(1) [OF s] sub by blast
  ultimately show "returns (has_state ?f (A \<union> ?z \<union> addresses (snap_written_memory_set s)) (initial_bytes s zeroing f g))
      (rbind (if zeroing = kZeroMappedBytes then zero_new_mappings m x else ret x) (SetMemoryBytes_snapshot s))"
    unfolding SetMemoryBytes_snapshot_def snapshot_bytes(3) [OF s]
    by (intro returns_rbind [OF zero]) (use SetMemoryBytes_list_returns in fastforce)
qed

section \<open>MakeEnd\<close>

lemma ZeroMapped_returns:
  assumes st: "has_state f A g st" and m: "mapping_ok m" "\<not> MemoryPerms_IsEmpty (mm_perms m)" "mapping_range m \<subseteq> dom f"
  shows "returns (has_state f (A \<union> mapping_range m) (\<lambda>k. if k \<in> mapping_range m then Some 0 else g k))
    (ZeroMappedMemoryBytes m st)"
proof -
  have n: "mm_num_bytes m = mm_limit m - mm_start m" by (simp add: mm_limit_def)
  have eq: "on_keys (mm_start m) (mm_limit m) (\<lambda>_. Some 0) g = (\<lambda>k. if k \<in> mapping_range m then Some 0 else g k)"
    by (simp add: on_keys_range fun_eq_iff)
  have "{mm_start m..<mm_limit m} \<subseteq> dom f" using m(3) by (simp add: mapping_range_def)
  from zero_bytes_returns [OF st mapping_params(1) [OF m(1)] this] show ?thesis
    unfolding ZeroMappedMemoryBytes_def n eq using m(2) by (simp add: mapping_range_def)
qed

lemma ZeroMapped_list_returns:
  assumes "has_state f A g st" "\<forall>m \<in> set ms. mapping_ok m \<and> \<not> MemoryPerms_IsEmpty (mm_perms m) \<and> mapping_range m \<subseteq> dom f"
  shows "returns (has_state f (A \<union> mapped_addresses ms) (\<lambda>k. if k \<in> mapped_addresses ms then Some 0 else g k))
    (ZeroMappedMemoryBytes_list ms st)"
  unfolding ZeroMappedMemoryBytes_list_def using assms
proof (induction ms arbitrary: st A g)
  case (Cons m ms)
  have "mapped_addresses (m # ms) = mapping_range m \<union> mapped_addresses ms"
    by (auto simp: mapped_addresses_def mappings_at_Cons)
  then have eq: "A \<union> mapped_addresses (m # ms) = A \<union> mapping_range m \<union> mapped_addresses ms"
    "(\<lambda>k. if k \<in> mapped_addresses (m # ms) then Some 0 else g k) =
     (\<lambda>k. if k \<in> mapped_addresses ms then Some 0 else if k \<in> mapping_range m then Some 0 else g k)"
    by auto
  have m: "mapping_ok m" "\<not> MemoryPerms_IsEmpty (mm_perms m)" "mapping_range m \<subseteq> dom f" using Cons.prems(2) by simp_all
  show ?case
    unfolding for_each.simps eq
    by (rule returns_rbind [OF ZeroMapped_returns [OF Cons.prems(1) m]], rule Cons.IH) (use Cons.prems(2) in simp_all)
qed (simp add: mapped_addresses_def)

lemma MakeEnd_returns:
  fixes zeroing :: mapped_zeroing
  assumes s: "snapshot_ok s" and i: "0 \<le> i" "i < int (length (snap_expected_end_states s))"
    and e: "\<forall>b \<in> set (es_memory_bytes (snap_expected_end_states s ! nat i)).
      bytes_ok b \<and> bytes_range b \<subseteq> mapped_addresses (snap_memory_mappings s)"
  defines "f \<equiv> \<lambda>k. map_option with_mapped (mappings_at (snap_memory_mappings s) k)"
    and "bs \<equiv> es_memory_bytes (snap_expected_end_states s ! nat i)"
    and "z \<equiv> if zeroing = kZeroMappedBytes then mapped_addresses (snap_memory_mappings s) else {}"
  shows "returns (has_state f (z \<union> addresses (snap_written_memory_set s) \<union> \<Union> (bytes_range ` set bs))
     (put_bytes bs (initial_bytes s zeroing (\<lambda>_. None) (\<lambda>_. None)))) (MakeEnd s i zeroing)"
proof -
  let ?ms = "snap_memory_mappings s" and ?bs = "snap_memory_bytes s"
  have ok: "mappings_ok ?ms" by (rule snapshot_maps(5) [OF s])
  have put: "put_mappings ?ms (\<lambda>_. None) = f"
    by (simp add: fun_eq_iff put_mappings_at [OF ok] f_def split: option.splits)
  have dom: "dom f = mapped_addresses ?ms" by (auto simp: f_def mapped_addresses_def)
  have ms: "\<forall>m \<in> set ?ms. mapping_ok m \<and> \<not> MemoryPerms_IsEmpty (mm_perms m) \<and> mapping_range m \<subseteq> dom f"
    using ok by (auto simp: dom mapped_addresses_def mappings_at_None mappings_ok_def)
  have add: "returns (has_state f {} (\<lambda>_. None)) (AddNewMemoryMappings ?ms new_memory_state)"
    using add_mappings_returns [OF new_memory_state_ok ok] unfolding put by simp
  have zero: "returns (has_state f z (\<lambda>k. if k \<in> z then Some 0 else None))
      (if zeroing = kZeroMappedBytes then ZeroMappedMemoryBytes_list ?ms st else ret st)" if "has_state f {} (\<lambda>_. None) st" for st
    using ZeroMapped_list_returns [OF that ms] that by (simp add: z_def)
  have b: "\<forall>b \<in> set ?bs. bytes_ok b \<and> bytes_range b \<subseteq> dom f" using snapshot_bytes(1) [OF s] unfolding dom .
  have "put_bytes ?bs (\<lambda>k. if k \<in> z then Some 0 else None) = initial_bytes s zeroing (\<lambda>_. None) (\<lambda>_. None)"
    unfolding put_bytes_disjoint [OF snapshot_bytes(2) [OF s]]
    by (auto simp: fun_eq_iff map_add_def initial_bytes_def z_def newly_mapped_def split: option.splits)
  then have snap: "returns (has_state f (z \<union> addresses (snap_written_memory_set s)) (initial_bytes s zeroing (\<lambda>_. None) (\<lambda>_. None)))
      (SetMemoryBytes_snapshot s st)" if "has_state f z (\<lambda>k. if k \<in> z then Some 0 else None) st" for st
    using SetMemoryBytes_list_returns [OF that b] by (simp add: SetMemoryBytes_snapshot_def snapshot_bytes(3) [OF s])
  have last: "returns (has_state f (B \<union> \<Union> (bytes_range ` set bs)) (put_bytes bs g)) (SetMemoryBytes_end_state (snap_expected_end_states s ! nat i) st)"
    if "has_state f B g st" for B g st
    unfolding SetMemoryBytes_end_state_def bs_def by (rule SetMemoryBytes_list_returns [OF that]) (use e in \<open>simp add: dom\<close>)
  show ?thesis
    unfolding MakeEnd_def using i
    by (simp, intro returns_rbind [OF add] returns_rbind [OF zero] returns_rbind [OF snap] last)
qed

end
