(* ===== verification/Memory_Bytes_At.thy ===== *)
theory Memory_Bytes_At
  imports Memory_Initial
begin

text \<open>
  Reading bytes back from a \<open>MemoryState\<close>: \<open>memory_bytes_at\<close>, \<open>memory_byte_at\<close> and the list of
  \<open>MemoryBytes\<close> of a set of addresses. Adjacent elements of \<open>written_memory_bytes_\<close> are always merged, so a
  range whose bytes are all known lies in one element, which is what \<open>memory_bytes_at\<close> checks.
\<close>

section \<open>A known range lies in one element\<close>

lemma bytes_always_merge: "CanMerge bytes_methods v w"
  by (simp add: bytes_methods_def)

lemma bytes_canonical_Cons: "mb.canonical (e # f # m) \<Longrightarrow> entry_limit e \<noteq> entry_start f"
  by (simp add: mb.canonical_def mb.mergeable_def bytes_always_merge)

lemma canonical_part: "mb.canonical (xs @ ys @ zs) \<Longrightarrow> mb.canonical ys"
  by (simp add: mb.canonical_def successively_append_iff)

lemma byte_at_entry:
  assumes "bytes_map_ok m" "e \<in> set m" "entry_start e \<le> k" "k < entry_limit e"
  shows "byte_at m k = Some (snd e ! unat (k - entry_start e))"
  using assms lookup_Some_iff [OF bytes_ranges_ok [OF assms(1)], of "\<lambda>s l v k. v ! unat (k - s)" k]
  by (auto simp: byte_at_def)

lemma bytes_entry:
  assumes "bytes_map_ok m" "e \<in> set m"
  shows "entry_start e < entry_limit e" "length (snd e) = unat (entry_limit e - entry_start e)"
  using bytes_ranges_ok [OF assms(1)] assms(2) by (auto simp: ranges_ok_def)

lemma known_in_mid:
  assumes m: "bytes_map_ok (pre @ mid @ suf)" and sp: "range_split s l pre mid suf" and k: "s \<le> k" "k < l"
  shows "byte_at (pre @ mid @ suf) k = byte_at mid k"
proof -
  have "lookup (\<lambda>s l v k. v ! unat (k - s)) pre k = None" "lookup (\<lambda>s l v k. v ! unat (k - s)) suf k = None"
    using sp k by (auto intro!: lookup_None simp: range_split_def intro: order_trans less_le_trans)
  then show ?thesis by (simp add: byte_at_def lookup_append split: option.splits)
qed

lemma known_single:
  assumes m: "bytes_map_ok (pre @ mid @ suf)" and sp: "range_split s l pre mid suf" and lt: "s < l"
    and known: "\<And>k. s \<le> k \<Longrightarrow> k < l \<Longrightarrow> byte_at (pre @ mid @ suf) k \<noteq> None"
  obtains e where "mid = [e]" "entry_start e \<le> s" "l \<le> entry_limit e"
proof -
  have at: "byte_at mid k \<noteq> None" if "s \<le> k" "k < l" for k
    using known [OF that] known_in_mid [OF m sp that] by simp
  have ok: "ranges_ok (\<lambda>s l v. length v = unat (l - s)) mid"
    using bytes_ranges_ok [OF m] by (simp add: ranges_ok_append)
  have can: "mb.canonical mid" using m canonical_part by (auto simp: bytes_map_ok_def)
  obtain e es where mid: "mid = e # es" using at [OF order_refl lt] by (cases mid) (auto simp: byte_at_def)
  have e: "entry_start e < l" "s < entry_limit e" using sp mid by (simp_all add: range_split_def)
  have start: "entry_start e \<le> s"
  proof (rule ccontr)
    assume "\<not> entry_start e \<le> s"
    then have "byte_at mid s = None"
      unfolding byte_at_def mid using ok mid by (intro mb_ext.lookup_before_first) auto
    then show False using at [OF order_refl lt] by simp
  qed
  have limit: "l \<le> entry_limit e"
  proof (rule ccontr)
    assume "\<not> l \<le> entry_limit e"
    then have "byte_at mid (entry_limit e) \<noteq> None" using at [of "entry_limit e"] e(2) by simp
    then obtain f fs where "es = f # fs" "entry_start f = entry_limit e"
      using mb_ext.lookup_gap_after_first [of e es] ok unfolding byte_at_def mid by metis
    then show False using can mid bytes_canonical_Cons by metis
  qed
  have "es = []"
  proof (rule ccontr)
    assume "es \<noteq> []"
    then have "hd es \<in> set es" "entry_start (hd es) < l" using sp mid by (auto simp: range_split_def)
    moreover have "entry_limit e \<le> entry_start (hd es)" using ok calculation(1) mid by (simp add: ranges_ok_Cons)
    ultimately show False using limit by order
  qed
  with mid start limit show thesis by (intro that) auto
qed

section \<open>memory_bytes_at\<close>

definition known :: "memory_state \<Rightarrow> address \<Rightarrow> byte_size \<Rightarrow> bool" where
  "known st a n \<longleftrightarrow> (\<forall>i < unat n. byte_at (ms_written_memory_bytes st) (a + of_nat i) \<noteq> None)"

definition bytes_of :: "memory_state \<Rightarrow> address \<Rightarrow> byte_size \<Rightarrow> byte_data" where
  "bytes_of st a n = map (\<lambda>i. the (byte_at (ms_written_memory_bytes st) (a + of_nat i))) [0..<unat n]"

lemma unat_limit:
  assumes "unat (a :: u64) + unat n < 2 ^ 64"
  shows "unat (a + n) = unat a + unat n"
  using assms by (simp add: unat_word_ariths)

lemma range_offsets:
  assumes "unat (a :: u64) + unat n < 2 ^ 64"
  shows "(\<forall>k. a \<le> k \<and> k < a + n \<longrightarrow> P k) \<longleftrightarrow> (\<forall>i < unat n. P (a + of_nat i))"
proof
  assume all: "\<forall>k. a \<le> k \<and> k < a + n \<longrightarrow> P k"
  show "\<forall>i < unat n. P (a + of_nat i)"
  proof (intro allI impI)
    fix i assume i: "i < unat n"
    have "a < a + n" "i < unat (a + n - a)" using assms i by (simp_all add: word_less_nat_alt unat_limit)
    from unat_offset [OF this] all show "P (a + of_nat i)" by blast
  qed
next
  assume all: "\<forall>i < unat n. P (a + of_nat i)"
  show "\<forall>k. a \<le> k \<and> k < a + n \<longrightarrow> P k"
  proof (intro allI impI)
    fix k assume k: "a \<le> k \<and> k < a + n"
    then have "unat (k - a) < unat n"
      using assms by (auto simp: unat_diff word_less_nat_alt word_le_nat_alt unat_limit)
    moreover have "a + of_nat (unat (k - a)) = k" by simp
    ultimately show "P k" using all by metis
  qed
qed

lemma known_range:
  assumes "unat a + unat n < 2 ^ 64"
  shows "known st a n \<longleftrightarrow> (\<forall>k. a \<le> k \<and> k < a + n \<longrightarrow> byte_at (ms_written_memory_bytes st) k \<noteq> None)"
  unfolding range_offsets [OF assms] known_def ..

lemma memory_bytes_at_cases:
  assumes ok: "bytes_map_ok (ms_written_memory_bytes st)" and n: "0 < n" "unat a + unat n < 2 ^ 64"
  obtains "known st a n" "memory_bytes_at a n st = ret (bytes_of st a n)"
  | msg where "\<not> known st a n" "memory_bytes_at a n st = abort (Check_failed msg)"
proof -
  let ?m = "ms_written_memory_bytes st"
  have lim: "unat (a + n) = unat a + unat n" by (rule unat_limit [OF n(2)])
  have lt: "a < a + n" using n lim by (simp add: word_less_nat_alt)
  obtain pre mid suf where m: "?m = pre @ mid @ suf" "range_split a (a + n) pre mid suf"
    using range_split_exists [OF bytes_ranges_ok [OF ok] lt] by blast
  have okm: "bytes_map_ok (pre @ mid @ suf)" using ok m(1) by simp
  have f: "Find ?m a (a + n) = ret (length pre, length pre + length mid)"
    using Find_eq [OF bytes_ranges_ok [OF okm] m(2) lt] m(1) by simp
  show thesis
  proof (cases "known st a n")
    case True
    obtain e where e: "mid = [e]" "entry_start e \<le> a" "a + n \<le> entry_limit e"
      using known_single [OF okm m(2) lt] True unfolding known_range [OF n(2)] m(1) by blast
    have em: "e \<in> set ?m" using m(1) e(1) by simp
    have u: "unat (entry_start e) \<le> unat a" "unat a + unat n \<le> unat (entry_limit e)"
      "length (snd e) = unat (entry_limit e) - unat (entry_start e)" "unat (a - entry_start e) = unat a - unat (entry_start e)"
      using e(2,3) bytes_entry [OF ok em] lim by (simp_all add: word_le_nat_alt unat_diff)
    have it: "?m ! length pre = e" using m(1) e(1) by simp
    have "take (unat n) (drop (unat (a - entry_start e)) (snd e)) = bytes_of st a n"
    proof (rule nth_equalityI)
      show "length (take (unat n) (drop (unat (a - entry_start e)) (snd e))) = length (bytes_of st a n)"
        using u by (simp add: bytes_of_def)
      fix i assume "i < length (take (unat n) (drop (unat (a - entry_start e)) (snd e)))"
      then have i: "i < unat n" by simp
      have lt': "i < unat (a + n - a)" using i by simp
      note o = unat_offset [OF lt lt']
      have "unat (a + of_nat i - entry_start e) = unat (a - entry_start e) + i"
        using e(2) o(1,2) u(1,4) unat_diff [of "entry_start e" "a + of_nat i"] by (simp add: word_le_nat_alt)
      moreover have "byte_at ?m (a + of_nat i) = Some (snd e ! unat (a + of_nat i - entry_start e))"
        using e(2,3) o by (intro byte_at_entry [OF ok em]) order+
      ultimately show "take (unat n) (drop (unat (a - entry_start e)) (snd e)) ! i = bytes_of st a n ! i"
        using i u by (simp add: bytes_of_def)
    qed
    moreover have "unat (a - entry_start e) + unat n \<le> length (snd e)" using u by simp
    moreover have "length pre \<noteq> length ?m" using m(1) e(1) by simp
    ultimately have "memory_bytes_at a n st = ret (bytes_of st a n)"
      using e by (simp add: memory_bytes_at_def Let_def f it data_at_def)
    with True show thesis by (rule that(1))
  next
    case False
    then obtain k where k: "a \<le> k" "k < a + n" "byte_at ?m k = None" unfolding known_range [OF n(2)] by blast
    have "\<exists>msg. memory_bytes_at a n st = abort (Check_failed msg)"
    proof (rule ccontr)
      assume none: "\<nexists>msg. memory_bytes_at a n st = abort (Check_failed msg)"
      have len: "Suc (length pre) = length pre + length mid" "length pre \<noteq> length ?m"
        and cov: "entry_start (?m ! length pre) \<le> a" "a + n \<le> entry_limit (?m ! length pre)"
        using none by (auto simp: memory_bytes_at_def Let_def f check_def split: if_splits)
      have em: "?m ! length pre \<in> set ?m" using len(2) m(1) by (intro nth_mem) simp
      have "byte_at ?m k \<noteq> None" using byte_at_entry [OF ok em, of k] k(1,2) cov by auto
      then show False using k(3) by simp
    qed
    with False show thesis using that(2) by blast
  qed
qed

section \<open>The bytes of a set of addresses\<close>

definition bytes_of_entry :: "memory_state \<Rightarrow> (address, bool) entry \<Rightarrow> memory_bytes" where
  "bytes_of_entry st e =
     \<lparr>mb_start = entry_start e, mb_values = bytes_of st (entry_start e) (entry_limit e - entry_start e)\<rparr>"

lemma range_size:
  assumes "(a :: u64) < l"
  shows "0 < l - a" "unat a + unat (l - a) = unat l" "unat a + unat (l - a) < 2 ^ 64"
proof -
  have "unat a < unat l" using assms by (simp add: word_less_nat_alt)
  then show s: "unat a + unat (l - a) = unat l" using unat_diff [OF less_imp_le [OF assms]] by simp
  show "unat a + unat (l - a) < 2 ^ 64" using s unat_u64_lt [of l] by simp
  show "0 < l - a" using \<open>unat a < unat l\<close> s by (simp add: word_less_nat_alt)
qed

lemma bytes_of_entry_ok:
  assumes "entry_start e < entry_limit e"
  shows "new_memory_bytes (entry_start e) (bytes_of st (entry_start e) (entry_limit e - entry_start e)) = ret (bytes_of_entry st e)"
    "bytes_ok (bytes_of_entry st e)" "bytes_range (bytes_of_entry st e) = {entry_start e..<entry_limit e}"
proof -
  let ?n = "entry_limit e - entry_start e"
  note z = range_size [OF assms]
  have n: "0 < unat ?n" using z(1) by (simp add: word_less_nat_alt)
  have len: "length (bytes_of st (entry_start e) ?n) = unat ?n" by (simp add: bytes_of_def)
  have ne: "bytes_of st (entry_start e) ?n \<noteq> []" using n len by (metis length_0_conv less_irrefl)
  show "new_memory_bytes (entry_start e) (bytes_of st (entry_start e) ?n) = ret (bytes_of_entry st e)"
    and ok: "bytes_ok (bytes_of_entry st e)"
    unfolding bytes_of_entry_def by (rule new_memory_bytes_ok; use len ne z in simp)+
  have "unat (mb_limit (bytes_of_entry st e)) = unat (entry_limit e)"
    using bytes_ok_limit(2) [OF ok] z(2) by (simp add: bytes_of_entry_def len)
  then have "mb_limit (bytes_of_entry st e) = entry_limit e" by (simp only: word_unat_eq_iff)
  then show "bytes_range (bytes_of_entry st e) = {entry_start e..<entry_limit e}"
    by (simp add: bytes_range_def) (simp add: bytes_of_entry_def)
qed

lemma bytes_of_entry_at:
  assumes "entry_start e < entry_limit e" "entry_start e \<le> k" "k < entry_limit e"
    and known: "byte_at (ms_written_memory_bytes st) k \<noteq> None"
  shows "bytes_at (bytes_of_entry st e) k = byte_at (ms_written_memory_bytes st) k"
proof -
  have k: "k \<in> bytes_range (bytes_of_entry st e)" using bytes_of_entry_ok(3) [OF assms(1)] assms(2,3) by simp
  have "unat (k - entry_start e) < unat (entry_limit e - entry_start e)"
    using assms(1-3) by (simp add: unat_diff word_less_nat_alt word_le_nat_alt)
  moreover have "entry_start e + of_nat (unat (k - entry_start e)) = k" by simp
  ultimately show ?thesis
    using known unfolding bytes_at_in [OF k] by (simp add: bytes_of_entry_def bytes_of_def)
qed

lemma memory_bytes_list_eq:
  assumes st: "state_ok st" and w: "bytes_set_ok w" "addresses w \<subseteq> dom (byte_at (ms_written_memory_bytes st))"
  shows "memory_bytes_list w st = ret (map (bytes_of_entry st) w)"
proof -
  have ok: "bytes_map_ok (ms_written_memory_bytes st)" using st by (simp add: state_ok_def)
  let ?f = "\<lambda>i r. rbind (memory_bytes_at (entry_start i) (entry_limit i - entry_start i) st) (\<lambda>bs.
      rbind (new_memory_bytes (entry_start i) bs) (\<lambda>b. ret (r @ [b])))"
  have step: "?f e r = ret (r @ [bytes_of_entry st e])" if e: "e \<in> set w" for e r
  proof -
    have lt: "entry_start e < entry_limit e" using ranges_ok_pos [OF bytes_ranges [OF w(1)] e] .
    have "{entry_start e..<entry_limit e} \<subseteq> addresses w" 
      using e lookup_Some_iff [OF bytes_ranges [OF w(1)], of "\<lambda>_ _ _ _. ()"] by (auto simp: addresses_def)
    then have "known st (entry_start e) (entry_limit e - entry_start e)"
      unfolding known_range [OF range_size(3) [OF lt]] using w(2) by auto
    then have "memory_bytes_at (entry_start e) (entry_limit e - entry_start e) st =
        ret (bytes_of st (entry_start e) (entry_limit e - entry_start e))"
      using memory_bytes_at_cases [OF ok range_size(1,3) [OF lt]] by metis
    then show ?thesis using bytes_of_entry_ok(1) [OF lt] by simp
  qed
  have "for_each ?f es r = ret (r @ map (bytes_of_entry st) es)" if "set es \<subseteq> set w" for es r
    using that by (induction es arbitrary: r) (simp_all add: step del: rbind_assoc)
  from this [of w "[]"] show ?thesis by (simp add: memory_bytes_list_def MemoryBytesSet_Iterate_def)
qed

lemma bytes_of_entries:
  assumes st: "state_ok st" and w: "bytes_set_ok w" "addresses w \<subseteq> dom (byte_at (ms_written_memory_bytes st))"
  shows "\<forall>b \<in> set (map (bytes_of_entry st) w). bytes_ok b" "\<Union> (bytes_range ` set (map (bytes_of_entry st) w)) = addresses w"
    "put_bytes (map (bytes_of_entry st) w) (\<lambda>_. None) = byte_at (ms_written_memory_bytes st) |` addresses w"
proof -
  let ?bs = "map (bytes_of_entry st) w" and ?g = "byte_at (ms_written_memory_bytes st)"
  have lt: "entry_start e < entry_limit e" if "e \<in> set w" for e
    by (rule ranges_ok_pos [OF bytes_ranges [OF w(1)] that])
  have range: "bytes_range (bytes_of_entry st e) = {entry_start e..<entry_limit e}" if "e \<in> set w" for e
    by (rule bytes_of_entry_ok(3) [OF lt [OF that]])
  have at: "k \<in> addresses w \<longleftrightarrow> (\<exists>e \<in> set w. k \<in> bytes_range (bytes_of_entry st e))" for k
    using lookup_Some_iff [OF bytes_ranges [OF w(1)], of "\<lambda>_ _ _ _. ()" k] by (auto simp: addresses_def range)
  show "\<forall>b \<in> set ?bs. bytes_ok b" using bytes_of_entry_ok(2) lt by auto
  show "\<Union> (bytes_range ` set ?bs) = addresses w" using at by auto
  have "sorted_wrt (\<lambda>e f. entry_limit e \<le> entry_start f) w"
    using bytes_ranges [OF w(1)] by (simp add: ranges_ok_def)
  then have "sorted_wrt (\<lambda>e f. bytes_range (bytes_of_entry st e) \<inter> bytes_range (bytes_of_entry st f) = {}) w"
    by (rule sorted_wrt_mono_rel [rotated]) (auto simp: range not_less intro: order_trans)
  then have dis: "sorted_wrt (\<lambda>a b. bytes_range a \<inter> bytes_range b = {}) ?bs" by (simp add: sorted_wrt_map)
  have "listed_bytes (map (bytes_of_entry st) es) k =
      (if \<exists>e \<in> set es. k \<in> bytes_range (bytes_of_entry st e) then ?g k else None)"
    if "set es \<subseteq> set w" for es k
    using that
  proof (induction es)
    case (Cons e es)
    have e: "e \<in> set w" using Cons.prems by simp
    show ?case
    proof (cases "k \<in> bytes_range (bytes_of_entry st e)")
      case True
      then have "k \<in> addresses w" using at e by blast
      then have "?g k \<noteq> None" using w(2) by blast
      then show ?thesis using True bytes_of_entry_at [OF lt [OF e]] range [OF e] by simp
    qed (use Cons in auto)
  qed simp
  from this [OF order_refl] show "put_bytes ?bs (\<lambda>_. None) = ?g |` addresses w"
    unfolding put_bytes_disjoint [OF dis] by (auto simp: fun_eq_iff map_add_def restrict_map_def at split: option.splits)
qed

section \<open>Properties\<close>

text \<open>\<open>memory_bytes_at\<close> gives the byte known at each address of the range, and fails a check exactly
  when the byte of some address is not known, however the bytes were set.\<close>

theorem memory_bytes_at_spec:
  assumes "state_ok st" "0 < n" "unat a + unat n < 2 ^ 64"
  shows "if \<forall>i < unat n. byte_at (ms_written_memory_bytes st) (a + of_nat i) \<noteq> None
    then memory_bytes_at a n st = ret (map (\<lambda>i. the (byte_at (ms_written_memory_bytes st) (a + of_nat i))) [0..<unat n])
    else \<exists>msg. memory_bytes_at a n st = abort (Check_failed msg)"
proof -
  have ok: "bytes_map_ok (ms_written_memory_bytes st)" using assms(1) by (simp add: state_ok_def)
  show ?thesis
    unfolding known_def [symmetric] bytes_of_def [symmetric]
    by (cases rule: memory_bytes_at_cases [OF ok assms(2,3)]) auto
qed

definition three_bytes :: memory_state where
  "three_bytes = \<lparr>ms_mapped_memory_map = [((0x1000, 0x2000), MemoryPerms_AllPlusMapped)],
     ms_written_memory_set = [((0x1000, 0x1003), kDummyMappedValue)],
     ms_written_memory_bytes = [((0x1000, 0x1003), [1, 2, 3])]\<rparr>"

lemma three_bytes_ok: "state_ok three_bytes"
proof -
  have "mapped_map_ok (ms_mapped_memory_map three_bytes)"
    by (simp add: three_bytes_def mapped_map_ok_def ranges_ok_def pm.canonical_def)
  moreover have "bytes_set_ok (ms_written_memory_set three_bytes)" "bytes_map_ok (ms_written_memory_bytes three_bytes)"
    by (simp_all add: three_bytes_def bytes_set_ok_def bytes_map_ok_def ranges_ok_def bs.canonical_def mb.canonical_def)
  moreover have "x < 0x2000" if "x < (0x1003 :: address)" for x using that by (rule less_trans) simp
  ultimately show ?thesis
    unfolding state_ok_def by (auto simp: three_bytes_def perms_at_def byte_at_def addresses_def split: if_splits)
qed

theorem memory_bytes_at_spec_witness:
  "memory_bytes_at 0x1001 2 three_bytes = ret [2, 3] \<and> (\<exists>msg. memory_bytes_at 0x1001 3 three_bytes = abort (Check_failed msg))"
proof -
  have at: "byte_at (ms_written_memory_bytes three_bytes) 0x1001 = Some 2" "byte_at (ms_written_memory_bytes three_bytes) 0x1002 = Some 3"
    "byte_at (ms_written_memory_bytes three_bytes) 0x1003 = None"
    by (simp_all add: byte_at_def three_bytes_def)
  have two: "(\<forall>i < (2 :: nat). P i) \<longleftrightarrow> P 0 \<and> P 1" "(\<forall>i < (3 :: nat). P i) \<longrightarrow> P 2" for P
    by (auto simp: less_2_cases_iff)
  have upt: "[0..<2] = [0 :: nat, 1]" by (simp add: upt_rec)
  have "memory_bytes_at 0x1001 2 three_bytes = ret [2, 3]"
    using memory_bytes_at_spec [OF three_bytes_ok, of 2 "0x1001"] at by (simp add: two(1) upt)
  moreover have "\<not> (\<forall>i < unat (3 :: byte_size). byte_at (ms_written_memory_bytes three_bytes) (0x1001 + of_nat i) \<noteq> None)"
    using two(2) [of "\<lambda>i. byte_at (ms_written_memory_bytes three_bytes) (0x1001 + of_nat i) \<noteq> None"] at by simp
  then have "\<exists>msg. memory_bytes_at 0x1001 3 three_bytes = abort (Check_failed msg)"
    using memory_bytes_at_spec [OF three_bytes_ok, of 3 "0x1001"] by simp
  ultimately show ?thesis ..
qed

text \<open>C32: the bytes read back from a state as a list of \<open>MemoryBytes\<close> give the same bytes when they are set
  in a state with the same mappings and nothing written, provided every written byte is known: the list is a
  lossless form of what is known.\<close>

theorem memory_bytes_roundtrip:
  assumes "state_ok st" "addresses (ms_written_memory_set st) \<subseteq> dom (byte_at (ms_written_memory_bytes st))"
    and "state_ok st'" "ms_written_memory_set st' = []" "ms_mapped_memory_map st' = ms_mapped_memory_map st"
  shows "rbind (memory_bytes_list (ms_written_memory_set st) st) (\<lambda>bs. SetMemoryBytes_list bs st') = ret st"
proof -
  let ?w = "ms_written_memory_set st" and ?f = "perms_at (ms_mapped_memory_map st)" and ?g = "byte_at (ms_written_memory_bytes st)"
  have w: "bytes_set_ok ?w" "addresses ?w \<subseteq> dom ?f" "dom ?g \<subseteq> addresses ?w" using assms(1) by (simp_all add: state_ok_def)
  note L = bytes_of_entries [OF assms(1) w(1) assms(2)]
  have st': "has_state ?f {} (\<lambda>_. None) st'"
    using assms(3) unfolding has_state_def by (auto simp: state_ok_def assms(4,5))
  have "\<forall>b \<in> set (map (bytes_of_entry st) ?w). bytes_ok b \<and> bytes_range b \<subseteq> dom ?f" using L(1,2) w(2) by blast
  from SetMemoryBytes_list_returns [OF st' this]
  have "returns (has_state ?f (addresses ?w) (?g |` addresses ?w)) (SetMemoryBytes_list (map (bytes_of_entry st) ?w) st')"
    unfolding L(2,3) by simp
  moreover have "?g x = None" if "x \<notin> addresses ?w" for x using w(3) that by blast
  then have "?g |` addresses ?w = ?g" by (simp add: fun_eq_iff restrict_map_def)
  ultimately have "returns (has_state ?f (addresses ?w) ?g) (SetMemoryBytes_list (map (bytes_of_entry st) ?w) st')" by simp
  moreover have "returns (has_state ?f (addresses ?w) ?g) (ret st)" using has_state_self [OF assms(1)] by simp
  ultimately have "SetMemoryBytes_list (map (bytes_of_entry st) ?w) st' = ret st" by (rule has_state_ret_eq)
  then show ?thesis by (simp add: memory_bytes_list_eq [OF assms(1) w(1) assms(2)])
qed

theorem memory_bytes_roundtrip_witness:
  "rbind (memory_bytes_list (ms_written_memory_set three_bytes) three_bytes)
     (\<lambda>bs. SetMemoryBytes_list bs (three_bytes\<lparr>ms_written_memory_set := [], ms_written_memory_bytes := []\<rparr>)) = ret three_bytes"
proof (rule memory_bytes_roundtrip [OF three_bytes_ok])
  show "addresses (ms_written_memory_set three_bytes) \<subseteq> dom (byte_at (ms_written_memory_bytes three_bytes))"
    by (auto simp: three_bytes_def byte_at_def addresses_def split: if_splits)
  show "state_ok (three_bytes\<lparr>ms_written_memory_set := [], ms_written_memory_bytes := []\<rparr>)"
    using three_bytes_ok by (simp add: state_ok_def bytes_map_ok_def mb.canonical_def byte_at_def dom_def)
qed simp_all

end
