(* ===== verification/Memory_State_Properties.thy ===== *)
theory Memory_State_Properties
  imports Memory_Bytes_At
begin

text \<open>
  The properties of \<open>MemoryState\<close>: its invariant and the effect of each operation at each address, and the
  states at the start and at the end of a snapshot, with a sample snapshot for their instances.
\<close>

section \<open>A sample snapshot\<close>

definition code_mapping :: memory_mapping where
  "code_mapping = \<lparr>mm_start = 0x1000, mm_num_bytes = 0x1000, mm_perms = MemoryPerms_XR\<rparr>"

definition negative_mapping :: memory_mapping where
  "negative_mapping = \<lparr>mm_start = 0x3000, mm_num_bytes = 0x1000, mm_perms = MemoryPerms_W\<rparr>"

definition code_bytes :: memory_bytes where
  "code_bytes = \<lparr>mb_start = 0x1000, mb_values = [1, 2, 3]\<rparr>"

definition sample_snapshot :: snapshot where
  "sample_snapshot = \<lparr>snap_id = ''sample'', snap_architecture = kX86_64,
     snap_mapped_memory_map = [((0x1000, 0x2000), MemoryPerms_XR)],
     snap_negative_mapped_memory_map = [((0x3000, 0x4000), MemoryPerms_W)],
     snap_written_memory_set = [((0x1000, 0x1003), kDummyMappedValue)],
     snap_memory_mappings = [code_mapping], snap_negative_memory_mappings = [negative_mapping],
     snap_memory_bytes = [code_bytes], snap_registers = None, snap_expected_end_states = [],
     snap_metadata = (0, []), snap_trace_metadata = []\<rparr>"

lemma sample_mappings:
  "mapping_range code_mapping = {0x1000..<0x2000}" "mm_perms code_mapping = MemoryPerms_XR"
  "mapping_range negative_mapping = {0x3000..<0x4000}" "mm_perms negative_mapping = MemoryPerms_W"
  "bytes_range code_bytes = {0x1000..<0x1003}"
  by (simp_all add: mapping_range_def mm_limit_def code_mapping_def negative_mapping_def bytes_range_def code_bytes_def
      mb_limit_def mb_num_bytes_def data_size_def)

lemma sample_perms:
  "perms_set MemoryPerms_XR = {kExecutable, kReadable}" "perms_set MemoryPerms_W = {kWritable}"
  "\<not> MemoryPerms_IsEmpty MemoryPerms_XR" "\<not> MemoryPerms_IsEmpty MemoryPerms_W"
proof -
  have "p \<in> perms_set MemoryPerms_XR \<longleftrightarrow> p \<in> {kExecutable, kReadable}" "p \<in> perms_set MemoryPerms_W \<longleftrightarrow> p \<in> {kWritable}" for p
    by (cases p; simp add: perms_set_def MemoryPerms_HasPermission_def MemoryPerms_XR_def MemoryPerms_W_def ToInt_def)+
  then show "perms_set MemoryPerms_XR = {kExecutable, kReadable}" "perms_set MemoryPerms_W = {kWritable}" by blast+
  show "\<not> MemoryPerms_IsEmpty MemoryPerms_XR" "\<not> MemoryPerms_IsEmpty MemoryPerms_W"
    by (simp_all add: MemoryPerms_IsEmpty_def MemoryPerms_XR_def MemoryPerms_W_def ToInt_def)
qed

lemma sample_snapshot_ok: "snapshot_ok sample_snapshot"
proof -
  have maps: "mapped_map_ok [((0x1000, 0x2000), MemoryPerms_XR)]" "mapped_map_ok [((0x3000, 0x4000), MemoryPerms_W)]"
    by (simp_all add: mapped_map_ok_def ranges_ok_def pm.canonical_def)
  have m: "mapping_ok code_mapping" "mapping_ok negative_mapping"
    by (simp_all add: mapping_ok_def HasPermission_iff sample_perms sample_mappings CanMakeSized_def)
      (simp_all add: code_mapping_def negative_mapping_def kMaxAddress_def)
  then have "represents [code_mapping] [((0x1000, 0x2000), MemoryPerms_XR)]" "represents [negative_mapping] [((0x3000, 0x4000), MemoryPerms_W)]"
    using maps by (simp_all add: represents_def mappings_ok_def sample_perms sample_mappings mappings_at_Cons perms_at_def)
  moreover have "bytes_ok code_bytes" by (simp add: bytes_ok_def code_bytes_def)
  then have "bytes_represent [code_bytes] [((0x1000, 0x1003), kDummyMappedValue)]"
    by (simp add: bytes_represent_def sample_mappings bytes_set_ok_def ranges_ok_def bs.canonical_def addresses_Cons)
  moreover have "x < 0x2000" if "x < (0x1003 :: address)" for x using that by (rule less_trans) simp
  then have "addresses [((0x1000, 0x1003), kDummyMappedValue)] \<subseteq> mapped_addresses [code_mapping]"
    by (auto simp: addresses_Cons mapped_addresses_def mappings_at_Cons sample_mappings)
  ultimately show ?thesis
    by (simp add: snapshot_ok_def sample_snapshot_def no_conflict_def mappings_at_Cons sample_mappings sample_perms)
qed

section \<open>Properties\<close>

text \<open>C26: the operations of \<open>MemoryState\<close> keep its invariant (bytes are only known inside the written set, the
  written set lies inside the mappings, every mapping has \<open>kMapped\<close>) and act on exactly the addresses they are
  given; a mapping that goes takes the written set and the bytes with it.\<close>

theorem memory_state_operations:
  assumes "state_ok st"
  defines "perms \<equiv> \<lambda>st. perms_at (ms_mapped_memory_map st)" and "written \<equiv> \<lambda>st. addresses (ms_written_memory_set st)"
    and "known_byte \<equiv> \<lambda>st. byte_at (ms_written_memory_bytes st)"
  shows "(mapping_ok m \<and> \<not> MemoryPerms_IsEmpty (mm_perms m) \<longrightarrow> returns (\<lambda>st'. state_ok st' \<and>
      (\<forall>k. perms st' k = (if k \<in> mapping_range m then Some (MemoryPerms_PlusPermission (mm_perms m) kMapped) else perms st k)) \<and>
      written st' = written st \<and> known_byte st' = known_byte st) (SetMemoryMapping m st)) \<and>
    (s < l \<longrightarrow> returns (\<lambda>st'. state_ok st' \<and> written st' = written st - {s..<l} \<and>
      (\<forall>k. perms st' k = (if k \<in> {s..<l} then None else perms st k) \<and>
           known_byte st' k = (if k \<in> {s..<l} then None else known_byte st k))) (RemoveMemoryMapping s l st)) \<and>
    (bytes_ok b \<and> bytes_range b \<subseteq> dom (perms st) \<longrightarrow> returns (\<lambda>st'. state_ok st' \<and> perms st' = perms st \<and>
      written st' = written st \<union> bytes_range b \<and>
      (\<forall>k. known_byte st' k = (if k \<in> bytes_range b then Some (mb_values b ! unat (k - mb_start b)) else known_byte st k)))
      (SetMemoryBytes b st)) \<and>
    (s < l \<longrightarrow> returns (\<lambda>st'. state_ok st' \<and> perms st' = perms st \<and> written st' = written st \<and>
      (\<forall>k. known_byte st' k = (if k \<in> {s..<l} then None else known_byte st k))) (ForgetMemoryBytes s l st))"
proof -
  have st: "has_state (perms st) (written st) (known_byte st) st"
    using has_state_self [OF assms(1)] by (simp add: perms_def written_def known_byte_def)
  have unpack: "returns (\<lambda>st'. state_ok st' \<and> perms st' = f \<and> written st' = A \<and> known_byte st' = g) x"
    if "returns (has_state f A g) x" for f A g x
    using that by (rule returns_mono) (simp add: has_state_def perms_def written_def known_byte_def)
  have one: "returns (\<lambda>st'. state_ok st' \<and> perms st' = set_at m (perms st) \<and> written st' = written st \<and> known_byte st' = known_byte st)
      (SetMemoryMapping m st)" if "mapping_ok m" "\<not> MemoryPerms_IsEmpty (mm_perms m)"
    by (rule unpack [OF SetMemoryMapping_returns [OF st that]])
  have two: "returns (\<lambda>st'. state_ok st' \<and> perms st' = on_keys s l (\<lambda>_. None) (perms st) \<and> written st' = written st - {s..<l} \<and>
      known_byte st' = on_keys s l (\<lambda>_. None) (known_byte st)) (RemoveMemoryMapping s l st)" if "s < l"
    by (rule unpack [OF RemoveMemoryMapping_returns [OF st that]])
  have three: "returns (\<lambda>st'. state_ok st' \<and> perms st' = perms st \<and> written st' = written st \<union> bytes_range b \<and>
      known_byte st' = known_byte st ++ bytes_at b) (SetMemoryBytes b st)" if "bytes_ok b" "bytes_range b \<subseteq> dom (perms st)"
    by (rule unpack [OF SetMemoryBytes_returns [OF st that]])
  have four: "returns (\<lambda>st'. state_ok st' \<and> perms st' = perms st \<and> written st' = written st \<and>
      known_byte st' = on_keys s l (\<lambda>_. None) (known_byte st)) (ForgetMemoryBytes s l st)" if "s < l"
    by (rule unpack [OF ForgetMemoryBytes_returns [OF st that]])
  show ?thesis
  proof (intro conjI impI)
    assume "mapping_ok m \<and> \<not> MemoryPerms_IsEmpty (mm_perms m)"
    with one show "returns (\<lambda>st'. state_ok st' \<and>
      (\<forall>k. perms st' k = (if k \<in> mapping_range m then Some (MemoryPerms_PlusPermission (mm_perms m) kMapped) else perms st k)) \<and>
      written st' = written st \<and> known_byte st' = known_byte st) (SetMemoryMapping m st)"
      by (auto elim!: returns_mono simp: set_at_def with_mapped_def)
  next
    assume "s < l"
    with two show "returns (\<lambda>st'. state_ok st' \<and> written st' = written st - {s..<l} \<and>
      (\<forall>k. perms st' k = (if k \<in> {s..<l} then None else perms st k) \<and>
           known_byte st' k = (if k \<in> {s..<l} then None else known_byte st k))) (RemoveMemoryMapping s l st)"
      by (auto elim!: returns_mono simp: on_keys_def)
  next
    assume "bytes_ok b \<and> bytes_range b \<subseteq> dom (perms st)"
    with three show "returns (\<lambda>st'. state_ok st' \<and> perms st' = perms st \<and> written st' = written st \<union> bytes_range b \<and>
      (\<forall>k. known_byte st' k = (if k \<in> bytes_range b then Some (mb_values b ! unat (k - mb_start b)) else known_byte st k)))
      (SetMemoryBytes b st)"
      by (auto elim!: returns_mono simp: map_add_def bytes_at_def)
  next
    assume "s < l"
    with four show "returns (\<lambda>st'. state_ok st' \<and> perms st' = perms st \<and> written st' = written st \<and>
      (\<forall>k. known_byte st' k = (if k \<in> {s..<l} then None else known_byte st k))) (ForgetMemoryBytes s l st)"
      by (auto elim!: returns_mono simp: on_keys_def)
  qed
qed

theorem memory_state_operations_witness:
  "returns (\<lambda>st. byte_at (ms_written_memory_bytes st) 0x1001 = None \<and> perms_at (ms_mapped_memory_map st) 0x1001 = None)
     (RemoveMemoryMapping 0x1001 0x1002 three_bytes)"
proof -
  have "returns (\<lambda>st'. state_ok st' \<and> addresses (ms_written_memory_set st') = addresses (ms_written_memory_set three_bytes) - {0x1001..<0x1002} \<and>
      (\<forall>k. perms_at (ms_mapped_memory_map st') k = (if k \<in> {0x1001..<0x1002} then None else perms_at (ms_mapped_memory_map three_bytes) k) \<and>
           byte_at (ms_written_memory_bytes st') k = (if k \<in> {0x1001..<0x1002} then None else byte_at (ms_written_memory_bytes three_bytes) k)))
      (RemoveMemoryMapping 0x1001 0x1002 three_bytes)"
    using memory_state_operations [OF three_bytes_ok, where s = "0x1001" and l = "0x1002"] by simp
  then show ?thesis by (rule returns_mono) simp
qed

text \<open>C10: \<open>SetInitialState\<close> fails no check on any state and any well-formed snapshot: each address gets the
  permissions of the snapshot's mapping and \<open>kMapped\<close>, loses those of its negative mapping, or keeps what it had;
  its byte is that of the snapshot, zero if it has just been mapped and zeroing is on, or what it was.\<close>

theorem set_initial_state:
  assumes "state_ok st" "snapshot_ok s"
  shows "returns (\<lambda>st'. state_ok st' \<and> (\<forall>k.
      perms_at (ms_mapped_memory_map st') k =
        (case mappings_at (snap_memory_mappings s) k of
           Some p \<Rightarrow> Some (MemoryPerms_PlusPermission p kMapped)
         | None \<Rightarrow> (case mappings_at (snap_negative_memory_mappings s) k of
             Some n \<Rightarrow> map_option (MemoryPerms_Clear n) (perms_at (ms_mapped_memory_map st) k)
           | None \<Rightarrow> perms_at (ms_mapped_memory_map st) k)) \<and>
      byte_at (ms_written_memory_bytes st') k =
        (case listed_bytes (snap_memory_bytes s) k of
           Some v \<Rightarrow> Some v
         | None \<Rightarrow> if zeroing = kZeroMappedBytes \<and> mappings_at (snap_memory_mappings s) k \<noteq> None \<and>
               perms_at (ms_mapped_memory_map st) k = None
             then Some 0 else byte_at (ms_written_memory_bytes st) k)))
    (SetInitialState s zeroing st)"
  using SetInitialState_returns [OF has_state_self [OF assms(1)] assms(2)]
  by (rule returns_mono)
    (auto simp: has_state_def initial_perms_def initial_bytes_def newly_mapped_def mapped_addresses_def with_mapped_def
      split: option.splits)

theorem set_initial_state_witness:
  "returns (\<lambda>st. byte_at (ms_written_memory_bytes st) 0x1001 = Some 2 \<and> byte_at (ms_written_memory_bytes st) 0x1fff = Some 0 \<and>
      byte_at (ms_written_memory_bytes st) 0x2000 = None) (SetInitialState sample_snapshot kZeroMappedBytes new_memory_state)"
proof -
  have ok: "state_ok new_memory_state" using new_memory_state_ok by (rule has_state_ok)
  have at: "listed_bytes (snap_memory_bytes sample_snapshot) 0x1001 = Some 2"
    "listed_bytes (snap_memory_bytes sample_snapshot) 0x1fff = None" "listed_bytes (snap_memory_bytes sample_snapshot) 0x2000 = None"
    by (simp_all add: sample_snapshot_def sample_mappings bytes_at_def) (simp add: code_bytes_def)
  have maps: "mappings_at (snap_memory_mappings sample_snapshot) 0x1fff \<noteq> None" "mappings_at (snap_memory_mappings sample_snapshot) 0x2000 = None"
    by (simp_all add: sample_snapshot_def mappings_at_Cons sample_mappings)
  have new: "perms_at (ms_mapped_memory_map new_memory_state) k = None" "byte_at (ms_written_memory_bytes new_memory_state) k = None" for k
    by (simp_all add: new_memory_state_def byte_at_def)
  show ?thesis
    by (rule returns_mono [OF set_initial_state [OF ok sample_snapshot_ok, where zeroing = kZeroMappedBytes]], elim conjE)
      (simp add: at maps new)
qed

end
