(* ===== verification/Range_Boundaries.thy ===== *)
theory Range_Boundaries
  imports Mapped_Map_Spec Memory_Bytes_Set
begin

text \<open>
  Where the elements of a map begin and end: a map whose content changes only at addresses with a property
  has all its boundaries there, because equal neighbours are always merged. So an element of a map of
  permissions is exactly a maximal run of addresses with the same permissions.
\<close>

section \<open>Functions that change at some addresses only\<close>

definition changes_at :: "(address \<Rightarrow> bool) \<Rightarrow> (address \<Rightarrow> 'a) \<Rightarrow> bool" where
  "changes_at P f \<longleftrightarrow> P 0 \<and> (\<forall>k. \<not> P k \<longrightarrow> f k = f (k - 1))"

lemma changes_atD: "changes_at P f \<Longrightarrow> \<not> P k \<Longrightarrow> f k = f (k - 1)" "changes_at P f \<Longrightarrow> P 0"
  by (simp_all add: changes_at_def)

lemma changes_at_comp:
  assumes "changes_at P f" "\<And>j k. f j = f k \<Longrightarrow> g j = g k"
  shows "changes_at P g"
  using assms unfolding changes_at_def by blast

lemma changes_at_pair:
  assumes "changes_at P f" "changes_at P g"
  shows "changes_at P (\<lambda>k. h (f k) (g k))"
  unfolding changes_at_def
proof (intro conjI allI impI)
  show "P 0" using assms(1) by (rule changes_atD)
  fix k assume "\<not> P k"
  then show "h (f k) (g k) = h (f (k - 1)) (g (k - 1))" using assms by (simp add: changes_at_def)
qed

lemma changes_at_mono: "changes_at P f \<Longrightarrow> (\<And>k. P k \<Longrightarrow> Q k) \<Longrightarrow> changes_at Q f"
  unfolding changes_at_def by blast

section \<open>Boundaries of a map\<close>

lemma neighbours:
  fixes m :: "(address, 'v) range_map"
  assumes ok: "ranges_ok okv m" and e: "e \<in> set m" "f \<in> set m" "entry_limit e = entry_start f"
  obtains xs ys where "m = xs @ e # f # ys"
proof -
  have s: "sorted_wrt (\<lambda>e f. entry_limit e \<le> entry_start f) m" using ok by (simp add: ranges_ok_def)
  note pos = ranges_ok_pos [OF ok]
  obtain xs ys where m: "m = xs @ e # ys" using e(1) by (meson split_list)
  have "\<not> entry_limit f \<le> entry_start e" "f \<noteq> e" using pos [OF e(1)] pos [OF e(2)] e(3) by auto
  then have f: "f \<in> set ys" using s e(2) unfolding m by (auto simp: sorted_wrt_append)
  then obtain g zs where ys: "ys = g # zs" by (cases ys) auto
  have "g = f"
  proof (rule ccontr)
    assume "g \<noteq> f"
    then have "f \<in> set zs" using f ys by simp
    then have "entry_limit e \<le> entry_start g" "entry_limit g \<le> entry_start f" "g \<in> set m"
      using s unfolding m ys by (auto simp: sorted_wrt_append)
    then show False using pos [of g] e(3) by auto
  qed
  with m ys show thesis by (auto intro: that)
qed

lemma predecessor:
  assumes "(a :: address) < l"
  shows "a \<le> l - 1" "l - 1 < l"
proof -
  have "l \<noteq> 0" "unat a < unat l" using assms by (auto simp: word_less_nat_alt)
  moreover from this have "unat (l - 1) = unat l - 1" by (simp add: unat_minus_one)
  ultimately
  show "a \<le> l - 1" "l - 1 < l" by (simp_all add: word_le_nat_alt word_less_nat_alt)
qed

lemma sorted_pair: "sorted_wrt R m \<Longrightarrow> d \<in> set m \<Longrightarrow> g \<in> set m \<Longrightarrow> d \<noteq> g \<Longrightarrow> R d g \<or> R g d"
  by (induction m) auto

lemma boundaries:
  fixes m :: "(address, 'v) range_map"
  assumes ok: "ranges_ok okv m" and can: "successively (\<lambda>e f. \<not> (entry_limit e = entry_start f \<and> C (snd e) (snd f))) m"
    and refl: "\<And>v. C v v" and ch: "changes_at P (lookup (\<lambda>_ _ v _. v) m)" and e: "e \<in> set m"
  shows "P (entry_start e)" "P (entry_limit e)"
proof -
  let ?f = "lookup (\<lambda>_ _ v _. v) m"
  note pos = ranges_ok_pos [OF ok]
  have at: "?f k = Some v \<longleftrightarrow> (\<exists>e \<in> set m. entry_start e \<le> k \<and> k < entry_limit e \<and> v = snd e)" for k v
    by (rule lookup_Some_iff [OF ok])
  have no: False if a: "d \<in> set m" "g \<in> set m" "entry_limit d = entry_start g" "snd d = snd g" for d g
  proof -
    obtain xs ys where "m = xs @ d # g # ys" by (rule neighbours [OF ok a(1-3)])
    then show False using can a(3,4) refl by (simp add: successively_append_iff)
  qed
  have apart: "entry_limit d \<le> entry_start g \<or> entry_limit g \<le> entry_start d" if "d \<in> set m" "g \<in> set m" "d \<noteq> g" for d g
    using ok that sorted_pair [of "\<lambda>e f. entry_limit e \<le> entry_start f" m d g] by (simp add: ranges_ok_def)
  show "P (entry_limit e)"
  proof (rule ccontr)
    assume nP: "\<not> P (entry_limit e)"
    let ?l = "entry_limit e"
    note p = predecessor [OF pos [OF e]]
    have "?f (?l - 1) = Some (snd e)" using at e p by blast
    then have "?f ?l = Some (snd e)" using changes_atD(1) [OF ch nP] by simp
    then obtain g where g: "g \<in> set m" "entry_start g \<le> ?l" "?l < entry_limit g" "snd e = snd g" unfolding at by blast
    have "entry_limit e \<le> entry_start g"
      using apart [OF e g(1)] g(3) pos [OF e] by fastforce
    then have "?l = entry_start g" using g(2) by simp
    then show False by (rule no [OF e g(1) _ g(4)])
  qed
  show "P (entry_start e)"
  proof (rule ccontr)
    assume nP: "\<not> P (entry_start e)"
    let ?s = "entry_start e"
    have "?s \<noteq> 0" using nP changes_atD(2) [OF ch] by auto
    then have "0 < ?s" by (simp add: word_neq_0_conv)
    note p = predecessor [OF this]
    have "?f ?s = Some (snd e)" using at e pos [OF e] by blast
    then have "?f (?s - 1) = Some (snd e)" using changes_atD(1) [OF ch nP] by simp
    then obtain g where g: "g \<in> set m" "entry_start g \<le> ?s - 1" "?s - 1 < entry_limit g" "snd e = snd g" unfolding at by blast
    have "g \<noteq> e" using g(2) p(2) by auto
    from apart [OF g(1) e this] have "entry_limit g \<le> ?s"
    proof
      assume "entry_limit e \<le> entry_start g"
      then show ?thesis using g(2) p(2) pos [OF e] by order
    qed
    moreover have "?s \<le> entry_limit g" using g(3) p(2)
      by (metis inc_le diff_add_cancel)
    ultimately have "entry_limit g = ?s" by simp
    then show False by (rule no [OF g(1) e _ g(4) [symmetric]])
  qed
qed

lemma mapped_map_boundaries:
  assumes "mapped_map_ok m" "changes_at P (perms_at m)" "e \<in> set m"
  shows "P (entry_start e)" "P (entry_limit e)"
proof -
  have "successively (\<lambda>e f. \<not> (entry_limit e = entry_start f \<and> snd e = snd f)) m"
    using assms(1) unfolding mapped_map_ok_def pm.canonical_def pm.mergeable_def by (simp add: perms_methods_def)
  note b = boundaries [OF ranges_of_ok [OF assms(1)] this _ _ assms(3)]
  have "changes_at P (lookup (\<lambda>_ _ v _. v) m)" using assms(2) by (simp add: perms_at_def [abs_def])
  then show "P (entry_start e)" "P (entry_limit e)" by (simp_all add: b)
qed

text \<open>An element is the maximal run of addresses with its value: \<open>same_run f k j\<close> says that \<open>f\<close> is the same at
  all addresses from \<open>k\<close> to \<open>j\<close>.\<close>

definition same_run :: "(address \<Rightarrow> 'a) \<Rightarrow> address \<Rightarrow> address \<Rightarrow> bool" where
  "same_run f k j \<longleftrightarrow> (\<forall>i. min k j \<le> i \<and> i \<le> max k j \<longrightarrow> f i = f k)"

lemma same_run_self [simp]: "same_run f k k"
  by (auto simp: same_run_def dest: antisym)

lemma same_runD: "same_run f k j \<Longrightarrow> f j = f k"
  unfolding same_run_def by (metis max.cobounded2 min.cobounded2)

lemma same_run_cong: "(\<And>i. f i = f k \<longleftrightarrow> g i = g k) \<Longrightarrow> same_run f k j \<longleftrightarrow> same_run g k j"
  by (simp add: same_run_def)

lemma mapped_map_run:
  assumes ok: "mapped_map_ok m" and e: "e \<in> set m" and k: "entry_start e \<le> k" "k < entry_limit e"
  shows "entry_start e \<le> j \<and> j < entry_limit e \<longleftrightarrow> same_run (perms_at m) k j"
  unfolding same_run_def
proof
  assume j: "entry_start e \<le> j \<and> j < entry_limit e"
  have at: "perms_at m i = Some (snd e)" if "entry_start e \<le> i" "i < entry_limit e" for i
    using perms_at_Some_iff [OF ok] e that by auto
  show "\<forall>i. min k j \<le> i \<and> i \<le> max k j \<longrightarrow> perms_at m i = perms_at m k"
    using at j k by (auto simp: min_def max_def not_le split: if_splits)
next
  assume same: "\<forall>i. min k j \<le> i \<and> i \<le> max k j \<longrightarrow> perms_at m i = perms_at m k"
  have between: "perms_at m i = perms_at m k" if "j \<le> i \<and> i \<le> k \<or> k \<le> i \<and> i \<le> j" for i
  proof -
    have "min k j \<le> i \<and> i \<le> max k j" using that unfolding min_le_iff_disj le_max_iff_disj by blast
    then show ?thesis using same by blast
  qed
  then have down: "\<And>i. j \<le> i \<Longrightarrow> i \<le> k \<Longrightarrow> perms_at m i = perms_at m k"
    and up: "\<And>i. k \<le> i \<Longrightarrow> i \<le> j \<Longrightarrow> perms_at m i = perms_at m k" by blast+
  let ?P = "\<lambda>i. i = 0 \<or> perms_at m i \<noteq> perms_at m (i - 1)"
  have "changes_at ?P (perms_at m)" by (auto simp: changes_at_def)
  note b = mapped_map_boundaries [OF ok this e]
  have "entry_start e \<le> j"
  proof (rule ccontr)
    assume "\<not> entry_start e \<le> j"
    then have j: "j < entry_start e" by simp
    note p = predecessor [OF j]
    have "perms_at m (entry_start e) = perms_at m k" by (rule down; use j k(1) in order)
    moreover have "perms_at m (entry_start e - 1) = perms_at m k" by (rule down; use j k(1) p in order)
    ultimately show False using b(1) j by auto
  qed
  moreover have "j < entry_limit e"
  proof (rule ccontr)
    assume "\<not> j < entry_limit e"
    then have j: "entry_limit e \<le> j" by simp
    note p = predecessor [OF k(2)]
    have "perms_at m (entry_limit e) = perms_at m k" by (rule up; use j k(2) in order)
    moreover have "perms_at m (entry_limit e - 1) = perms_at m k" by (rule up; use j k(2) p in order)
    ultimately show False using b(2) k(2) by auto
  qed
  ultimately show "entry_start e \<le> j \<and> j < entry_limit e" ..
qed

lemma bytes_set_boundaries:
  assumes "bytes_set_ok w" "changes_at P (\<lambda>k. k \<in> addresses w)" "e \<in> set w"
  shows "P (entry_start e)" "P (entry_limit e)"
proof -
  note ok = bytes_ranges [OF assms(1)]
  have "successively (\<lambda>e f. \<not> (entry_limit e = entry_start f \<and> snd e = snd f)) w"
    using assms(1) unfolding bytes_set_ok_def bs.canonical_def bs.mergeable_def
    by (elim conjE successively_mono) (simp add: bytes_set_methods_def)
  note b = boundaries [OF ok this _ _ assms(3)]
  have "lookup (\<lambda>_ _ v _. v) w k = (if k \<in> addresses w then Some kDummyMappedValue else None)" for k
    using ok by (induction w) (auto simp: addresses_Cons ranges_ok_Cons)
  then have "changes_at P (lookup (\<lambda>_ _ v _. v) w)"
    by (intro changes_at_comp [OF assms(2)]) simp
  then show "P (entry_start e)" "P (entry_limit e)" by (simp_all add: b)
qed

end
