(* ===== verification/Memory_Deltas.thy ===== *)
theory Memory_Deltas
  imports Memory_State_Properties Range_Boundaries
begin

text \<open>
  The commands that \<open>DeltaMemoryMapping\<close> and its variants compute: what they are at each address, that they
  are disjoint, that a \<open>kMap\<close> only meets unmapped and a \<open>kProtect\<close> or \<open>kUnmap\<close> only mapped addresses, and the
  state that applying them leaves. \<open>apply_cmd\<close> is what the commands stand for: \<open>mmap\<close>, \<open>mprotect\<close> and \<open>munmap\<close>.
\<close>

section \<open>Commands as a function of the address\<close>

definition cmd_range :: "mapping_cmd \<Rightarrow> address set" where
  "cmd_range c = mapping_range (cmd_mapping c)"

definition cmds_at :: "mapping_cmd list \<Rightarrow> address \<Rightarrow> (action \<times> memory_perms) option" where
  "cmds_at cs k = map_option (\<lambda>c. (cmd_action c, mm_perms (cmd_mapping c))) (find (\<lambda>c. k \<in> cmd_range c) cs)"

definition cmds_ok :: "mapping_cmd list \<Rightarrow> bool" where
  "cmds_ok cs \<longleftrightarrow> (\<forall>c \<in> set cs. mapping_ok (cmd_mapping c)) \<and> sorted_wrt (\<lambda>c d. cmd_range c \<inter> cmd_range d = {}) cs"

lemma cmds_at_simps [simp]:
  "cmds_at [] k = None"
  "cmds_at (c # cs) k = (if k \<in> cmd_range c then Some (cmd_action c, mm_perms (cmd_mapping c)) else cmds_at cs k)"
  by (simp_all add: cmds_at_def)

lemma cmds_ok_simps [simp]:
  "cmds_ok []"
  "cmds_ok (c # cs) \<longleftrightarrow> mapping_ok (cmd_mapping c) \<and> (\<forall>d \<in> set cs. cmd_range c \<inter> cmd_range d = {}) \<and> cmds_ok cs"
  by (auto simp: cmds_ok_def)

lemma cmds_at_append: "cmds_at (xs @ ys) k = (case cmds_at xs k of None \<Rightarrow> cmds_at ys k | Some x \<Rightarrow> Some x)"
  by (induction xs) simp_all

lemma cmds_at_None: "cmds_at cs k = None \<longleftrightarrow> (\<forall>c \<in> set cs. k \<notin> cmd_range c)"
  by (induction cs) auto

lemma cmds_ok_append:
  assumes "cmds_ok xs" "cmds_ok ys" "\<And>k. cmds_at xs k = None \<or> cmds_at ys k = None"
  shows "cmds_ok (xs @ ys)"
proof -
  have "cmd_range c \<inter> cmd_range d = {}" if "c \<in> set xs" "d \<in> set ys" for c d
    using assms(3) that unfolding cmds_at_None by blast
  then show ?thesis using assms(1,2) by (auto simp: cmds_ok_def sorted_wrt_append)
qed

text \<open>Commands made from the elements of a map.\<close>

lemma cmds_of_entries:
  fixes a :: "memory_perms \<Rightarrow> action"
  assumes m: "mapped_map_ok m" and p: "\<And>v. perms_ok (p v) \<and> kMapped \<notin> perms_set (p v)"
  defines "cmd \<equiv> \<lambda>e. \<lparr>cmd_mapping = (entry_mapping e)\<lparr>mm_perms := p (snd e)\<rparr>, cmd_action = a (snd e)\<rparr>"
  shows "cmds_ok (map cmd (filter (\<lambda>e. P (snd e)) m))"
    "cmds_at (map cmd (filter (\<lambda>e. P (snd e)) m)) k =
       (case perms_at m k of None \<Rightarrow> None | Some v \<Rightarrow> if P v then Some (a v, p v) else None)"
proof -
  have range: "cmd_range (cmd e) = {entry_start e..<entry_limit e}" for e
    by (simp add: cmd_range_def cmd_def mapping_range_def mm_limit_def entry_mapping_def)
  have parts: "cmd_action (cmd e) = a (snd e)" "mm_perms (cmd_mapping (cmd e)) = p (snd e)" for e
    by (simp_all add: cmd_def)
  have "mapping_ok (cmd_mapping (cmd e))" if "e \<in> set m" for e
    using p [of "snd e"] entry_pos [OF m that] CanMakeRanged_iff [of "entry_start e" "entry_limit e"]
    by (simp add: mapping_ok_def cmd_def entry_mapping_def HasPermission_iff CanMakeRanged_def)
  moreover have "sorted_wrt (\<lambda>e f. entry_limit e \<le> entry_start f) m"
    using ranges_of_ok [OF m] by (simp add: ranges_ok_def)
  then have "sorted_wrt (\<lambda>e f. cmd_range (cmd e) \<inter> cmd_range (cmd f) = {}) m"
    by (rule sorted_wrt_mono_rel [rotated]) (auto simp: range not_less intro: order_trans)
  then have "sorted_wrt (\<lambda>e f. cmd_range (cmd e) \<inter> cmd_range (cmd f) = {}) (filter (\<lambda>e. P (snd e)) m)"
    by (rule sorted_wrt_filter)
  ultimately show "cmds_ok (map cmd (filter (\<lambda>e. P (snd e)) m))" by (simp add: cmds_ok_def sorted_wrt_map)
  have "ranges_ok (\<lambda>_ _ v. perms_ok v) es \<Longrightarrow> cmds_at (map cmd (filter (\<lambda>e. P (snd e)) es)) k =
      (case lookup (\<lambda>_ _ v _. v) es k of None \<Rightarrow> None | Some v \<Rightarrow> if P v then Some (a v, p v) else None)" for es
  proof (induction es)
    case (Cons e es)
    have ok: "ranges_ok (\<lambda>_ _ v. perms_ok v) es" using Cons.prems by (simp add: ranges_ok_Cons)
    have "lookup (\<lambda>_ _ v _. v) es k = None" if "entry_start e \<le> k" "k < entry_limit e"
      using Cons.prems that by (intro lookup_None) (auto simp: ranges_ok_Cons)
    then show ?case using Cons.IH [OF ok] by (auto simp: range parts)
  qed simp
  from this [OF ranges_of_ok [OF m]] show "cmds_at (map cmd (filter (\<lambda>e. P (snd e)) m)) k =
      (case perms_at m k of None \<Rightarrow> None | Some v \<Rightarrow> if P v then Some (a v, p v) else None)"
    by (simp add: perms_at_def)
qed

section \<open>Applying commands\<close>

definition apply_cmd :: "mapping_cmd \<Rightarrow> memory_state \<Rightarrow> memory_state res" where
  "apply_cmd c st =
     (case cmd_action c of
        kUnmap \<Rightarrow> RemoveMemoryMapping (mm_start (cmd_mapping c)) (mm_limit (cmd_mapping c)) st
      | _ \<Rightarrow> SetMemoryMappingEmptyPermsOk (cmd_mapping c) st)"

definition cmd_effect :: "action \<times> memory_perms \<Rightarrow> memory_perms option \<times> bool \<times> byte option
    \<Rightarrow> memory_perms option \<times> bool \<times> byte option" where
  "cmd_effect x h = (if fst x = kUnmap then (None, False, None) else (Some (with_mapped (snd x)), snd h))"

lemma apply_cmd_returns:
  assumes "content h st" "mapping_ok (cmd_mapping c)"
  shows "returns (content (\<lambda>k. if k \<in> cmd_range c then cmd_effect (cmd_action c, mm_perms (cmd_mapping c)) (h k) else h k))
    (apply_cmd c st)"
proof -
  note lt = mapping_params(1) [OF assms(2)]
  have st: "has_state (\<lambda>k. fst (h k)) {k. fst (snd (h k))} (\<lambda>k. snd (snd (h k))) st" using assms(1) by (simp add: content_def)
  show ?thesis
  proof (cases "cmd_action c = kUnmap")
    case True
    show ?thesis
      unfolding apply_cmd_def True content_def action.case
      by (rule returns_mono [OF RemoveMemoryMapping_returns [OF st lt]], erule has_state_cong)
        (auto simp: on_keys_def cmd_effect_def cmd_range_def mapping_range_def fun_eq_iff split: if_splits)
  next
    case False
    then have "apply_cmd c st = SetMemoryMappingEmptyPermsOk (cmd_mapping c) st"
      by (cases "cmd_action c") (simp_all add: apply_cmd_def)
    then show ?thesis
      unfolding content_def using SetEmptyPermsOk_returns [OF st assms(2)]
      by simp (erule returns_mono, erule has_state_cong;
        auto simp: set_at_def cmd_effect_def cmd_range_def False fun_eq_iff)
  qed
qed

lemma apply_cmds_returns:
  assumes "content h st" "cmds_ok cs"
  shows "returns (content (\<lambda>k. case cmds_at cs k of None \<Rightarrow> h k | Some x \<Rightarrow> cmd_effect x (h k))) (for_each apply_cmd cs st)"
  using assms
proof (induction cs arbitrary: h st)
  case (Cons c cs)
  let ?h = "\<lambda>k. if k \<in> cmd_range c then cmd_effect (cmd_action c, mm_perms (cmd_mapping c)) (h k) else h k"
  have c: "mapping_ok (cmd_mapping c)" "cmds_ok cs" using Cons.prems(2) by simp_all
  have none: "cmds_at cs k = None" if "k \<in> cmd_range c" for k
    using Cons.prems(2) that by (auto simp: cmds_at_None)
  have eq: "(\<lambda>k. case cmds_at (c # cs) k of None \<Rightarrow> h k | Some x \<Rightarrow> cmd_effect x (h k)) =
      (\<lambda>k. case cmds_at cs k of None \<Rightarrow> ?h k | Some x \<Rightarrow> cmd_effect x (?h k))"
    using none by (auto simp: fun_eq_iff split: option.splits)
  show ?case
    unfolding for_each.simps eq
    by (rule returns_rbind [OF apply_cmd_returns [OF Cons.prems(1) c(1)]]) (rule Cons.IH [OF _ c(2)])
qed simp

section \<open>DeltaMemoryMapping\<close>

text \<open>What the commands do at an address that has the permissions \<open>x\<close> (if it is mapped) and shall have \<open>p\<close>.\<close>

definition delta_action :: "memory_perms option \<Rightarrow> memory_perms \<Rightarrow> (action \<times> memory_perms) option" where
  "delta_action x p =
     (case x of None \<Rightarrow> Some (kMap, p) | Some q \<Rightarrow> if q = with_mapped p then None else Some (kProtect, p))"

definition target_perms_ok :: "memory_perms \<Rightarrow> bool" where
  "target_perms_ok p \<longleftrightarrow> perms_ok p \<and> kMapped \<notin> perms_set p \<and> \<not> MemoryPerms_IsEmpty p"

lemma delta_of_perms:
  assumes "kMapped \<in> perms_set q"
  shows "(case diff_perms (with_mapped p) q of None \<Rightarrow> None
      | Some v \<Rightarrow> Some (if v = with_mapped p then kMap else kProtect, p)) = delta_action (Some q) p"
proof (cases "with_mapped p = q")
  case False
  have "MemoryPerms_Clear q (with_mapped p) \<noteq> with_mapped p"
  proof
    assume "MemoryPerms_Clear q (with_mapped p) = with_mapped p"
    then have "perms_set (MemoryPerms_Clear q (with_mapped p)) = perms_set (with_mapped p)" by simp
    then show False using assms by auto
  qed
  then show ?thesis using False by (auto simp: diff_perms_def delta_action_def)
qed (auto simp: diff_perms_def delta_action_def)

lemma DeltaMemoryMapping_returns:
  assumes st: "has_state f A g st" and m: "mapping_ok m" and p: "target_perms_ok (MemoryPerms_Plus (mm_perms m) added)"
  shows "returns (\<lambda>cs. cmds_ok cs \<and> (\<forall>k. cmds_at cs k =
      (if k \<in> mapping_range m then delta_action (f k) (MemoryPerms_Plus (mm_perms m) added) else None)))
    (DeltaMemoryMapping m added st)"
proof -
  let ?p = "MemoryPerms_Plus (mm_perms m) added" and ?mp = "with_mapped (MemoryPerms_Plus (mm_perms m) added)"
  let ?m = "m\<lparr>mm_perms := ?p\<rparr>"
  note lt = mapping_params(1) [OF m]
  have p': "perms_ok ?p" "kMapped \<notin> perms_set ?p" "\<not> MemoryPerms_IsEmpty ?p" using p by (simp_all add: target_perms_ok_def)
  have sm: "set_perms ?p m = ret ?m" using p'(2) by (simp add: set_perms_def HasPermission_iff)
  have range: "mm_start ?m = mm_start m" "mm_limit ?m = mm_limit m" "mapping_range ?m = mapping_range m" "mm_perms ?m = ?p"
    by (simp_all add: mm_limit_def mapping_range_def)
  show ?thesis
  proof (cases "MappedMemoryMap_IsEmpty (ms_mapped_memory_map st)")
    case True
    then have "ms_mapped_memory_map st = []" by (simp add: MappedMemoryMap_IsEmpty_def)
    then have f: "f k = None" for k using has_state_eqs(1) [OF st] by (metis perms_at_Nil)
    have "mapping_ok ?m" using m p' by (simp add: mapping_ok_def HasPermission_iff)
    then show ?thesis
      using True by (simp add: DeltaMemoryMapping_def sm p'(3) cmd_range_def range f delta_action_def)
  next
    case False
    let ?cmd = "\<lambda>e. \<lparr>cmd_mapping = (entry_mapping e)\<lparr>mm_perms := ?p\<rparr>, cmd_action = (if snd e = ?mp then kMap else kProtect)\<rparr>"
    have run: "for_each (\<lambda>i r. rbind (MakeRanged (entry_start i) (entry_limit i) ?p) (\<lambda>d.
         ret (r @ [\<lparr>cmd_mapping = d, cmd_action = (if snd i = ?mp then kMap else kProtect)\<rparr>]))) es r = ret (r @ map ?cmd es)"
      if "\<forall>e \<in> set es. entry_start e < entry_limit e" for es r
      using that p'(2) by (induction es arbitrary: r) (simp_all add: MakeRanged_ok entry_mapping_def)
    have "returns (\<lambda>cs. cmds_ok cs \<and> (\<forall>k. cmds_at cs k = (if k \<in> mapping_range m then delta_action (f k) ?p else None)))
        (rbind (MappedMemoryMap_AddDifferenceOfRange (mm_start m) (mm_limit m) ?mp (ms_mapped_memory_map st) []) (\<lambda>d.
          MappedMemoryMap_Iterate (\<lambda>start limit perms result. rbind (MakeRanged start limit ?p) (\<lambda>d.
             ret (result @ [\<lparr>cmd_mapping = d, cmd_action = (if perms = ?mp then kMap else kProtect)\<rparr>]))) d []))"
    proof (rule returns_rbind [OF AddDifferenceRange_returns [OF lt _ state_mapped [OF st] mapped_map_ok_Nil]])
      show "perms_ok ?mp" using p'(1) by simp
      fix d assume "holds (\<lambda>k. add_option (difference_at (if mm_start m \<le> k \<and> k < mm_limit m then Some ?mp else None)
          (perms_at (ms_mapped_memory_map st) k)) (perms_at [] k)) d"
      then have d: "mapped_map_ok d" "\<And>k. perms_at d k = difference_at (if k \<in> mapping_range m then Some ?mp else None) (f k)"
        by (simp_all add: holds_def fun_eq_iff mem_mapping_range has_state_eqs(1) [OF st])
      have it: "MappedMemoryMap_Iterate (\<lambda>start limit perms result. rbind (MakeRanged start limit ?p) (\<lambda>d.
             ret (result @ [\<lparr>cmd_mapping = d, cmd_action = (if perms = ?mp then kMap else kProtect)\<rparr>]))) d [] = ret (map ?cmd d)"
        using run [of d "[]"] entry_pos [OF d(1)] by (simp add: MappedMemoryMap_Iterate_def)
      have c: "cmds_ok (map ?cmd d)"
        "\<And>k. cmds_at (map ?cmd d) k = (case perms_at d k of None \<Rightarrow> None | Some v \<Rightarrow> Some (if v = ?mp then kMap else kProtect, ?p))"
        using cmds_of_entries [OF d(1), where P = "\<lambda>_. True" and p = "\<lambda>_. ?p" and a = "\<lambda>v. if v = ?mp then kMap else kProtect"] p'(1,2)
        by (simp_all split: option.splits)
      have "(case perms_at d k of None \<Rightarrow> None | Some v \<Rightarrow> Some (if v = ?mp then kMap else kProtect, ?p)) =
          (if k \<in> mapping_range m then delta_action (f k) ?p else None)" for k
      proof (cases "f k")
        case (Some q)
        show ?thesis
          using delta_of_perms [OF state_kMapped [OF st Some], of ?p] Some by (simp add: d(2) difference_at_def)
      qed (simp add: d(2) difference_at_def delta_action_def)
      then show "returns (\<lambda>cs. cmds_ok cs \<and> (\<forall>k. cmds_at cs k = (if k \<in> mapping_range m then delta_action (f k) ?p else None)))
          (MappedMemoryMap_Iterate (\<lambda>start limit perms result. rbind (MakeRanged start limit ?p) (\<lambda>d.
             ret (result @ [\<lparr>cmd_mapping = d, cmd_action = (if perms = ?mp then kMap else kProtect)\<rparr>]))) d [])"
        unfolding it by (simp add: c)
    qed
    then show ?thesis
      using False by (simp add: DeltaMemoryMapping_def sm p'(3) Let_def with_mapped_def range)
  qed
qed

text \<open>Over a list of disjoint mappings.\<close>

lemma delta_each_returns:
  assumes st: "has_state f A g st" and ms: "mappings_ok ms"
    and p: "\<forall>m \<in> set ms. target_perms_ok (MemoryPerms_Plus (mm_perms m) added)"
  shows "returns (\<lambda>cs. cmds_ok cs \<and> (\<forall>k. cmds_at cs k =
      (case mappings_at ms k of None \<Rightarrow> None | Some q \<Rightarrow> delta_action (f k) (MemoryPerms_Plus q added)))) (delta_each ms added st)"
proof -
  let ?f = "\<lambda>m result. rbind (DeltaMemoryMapping m added st) (\<lambda>xs. ret (result @ xs))"
  have "returns (\<lambda>cs. cmds_ok cs \<and> (\<forall>k. cmds_at cs k =
      (case cmds_at r k of Some x \<Rightarrow> Some x | None \<Rightarrow>
        (case mappings_at ms k of None \<Rightarrow> None | Some q \<Rightarrow> delta_action (f k) (MemoryPerms_Plus q added))))) (for_each ?f ms r)"
    if "cmds_ok r" "\<forall>k. mappings_at ms k \<noteq> None \<longrightarrow> cmds_at r k = None" for r
    using ms p that
  proof (induction ms arbitrary: r)
    case (Cons m ms)
    have m: "mapping_ok m" "target_perms_ok (MemoryPerms_Plus (mm_perms m) added)" "mappings_ok ms"
      using Cons.prems(1,2) by (simp_all add: mappings_ok_def)
    have dis: "mappings_at ms k = None" if "k \<in> mapping_range m" for k
      using Cons.prems(1) that by (auto simp: mappings_ok_def mappings_at_None)
    have free: "cmds_at r k = None" if "k \<in> mapping_range m" for k
      using Cons.prems(4) that by (simp add: mappings_at_Cons)
    obtain xs where xs: "DeltaMemoryMapping m added st = ret xs" "cmds_ok xs"
      "\<And>k. cmds_at xs k = (if k \<in> mapping_range m then delta_action (f k) (MemoryPerms_Plus (mm_perms m) added) else None)"
      using DeltaMemoryMapping_returns [OF st m(1,2)] by (auto elim!: returnsE)
    have ok: "cmds_ok (r @ xs)" using Cons.prems(3) xs(2) free by (intro cmds_ok_append) (auto simp: xs(3))
    have "\<forall>k. mappings_at ms k \<noteq> None \<longrightarrow> cmds_at (r @ xs) k = None"
      using Cons.prems(4) dis by (auto simp: cmds_at_append xs(3) mappings_at_Cons split: option.splits)
    from Cons.IH [OF m(3) _ ok this] Cons.prems(2) show ?case
      unfolding for_each.simps xs(1) rbind_simps
      by simp (erule returns_mono, use free dis in \<open>auto simp: cmds_at_append xs(3) mappings_at_Cons split: option.splits\<close>)
  qed (simp split: option.splits)
  from this [of "[]"] show ?thesis by (simp add: delta_each_def)
qed

section \<open>DeltaMemoryMappingsExact\<close>

definition unused_action :: "exactness_mode \<Rightarrow> memory_perms \<Rightarrow> (action \<times> memory_perms) option" where
  "unused_action mode v =
     (case mode of
        kUnmapUnused \<Rightarrow> Some (kUnmap, MemoryPerms_R)
      | kProtectUnused \<Rightarrow> if perms_set v \<inter> perms_set MemoryPerms_All \<noteq> {} then Some (kProtect, MemoryPerms_None) else None)"

lemma perms_set_R: "kMapped \<notin> perms_set MemoryPerms_R"
  by (simp add: perms_set_def MemoryPerms_HasPermission_def MemoryPerms_R_def ToInt_def)

lemma unused_cmds:
  assumes d: "mapped_map_ok d"
  obtains cs where "MappedMemoryMap_Iterate (unused_cmd mode) d r = ret (r @ cs)" "cmds_ok cs"
    "\<And>k. cmds_at cs k = (case perms_at d k of None \<Rightarrow> None | Some v \<Rightarrow> unused_action mode v)"
proof -
  let ?P = "\<lambda>v. mode = kUnmapUnused \<or> MemoryPerms_HasSomeOf v MemoryPerms_All"
  let ?p = "if mode = kUnmapUnused then MemoryPerms_R else MemoryPerms_None"
  let ?a = "if mode = kUnmapUnused then kUnmap else kProtect"
  let ?cmd = "\<lambda>e. \<lparr>cmd_mapping = (entry_mapping e)\<lparr>mm_perms := ?p\<rparr>, cmd_action = ?a\<rparr>"
  have "for_each (\<lambda>i. unused_cmd mode (entry_start i) (entry_limit i) (snd i)) es r = ret (r @ map ?cmd (filter (\<lambda>e. ?P (snd e)) es))"
    if "\<forall>e \<in> set es. entry_start e < entry_limit e" for es r
    using that by (induction es arbitrary: r; cases mode) (simp_all add: unused_cmd_def MakeRanged_ok entry_mapping_def perms_set_R)
  from this [of d r] entry_pos [OF d]
  have it: "MappedMemoryMap_Iterate (unused_cmd mode) d r = ret (r @ map ?cmd (filter (\<lambda>e. ?P (snd e)) d))"
    by (simp add: MappedMemoryMap_Iterate_def)
  have p: "perms_ok ?p \<and> kMapped \<notin> perms_set ?p" by (simp add: perms_set_R)
  note C = cmds_of_entries [where P = ?P and p = "\<lambda>_. ?p" and a = "\<lambda>_. ?a", OF d p]
  have "cmds_at (map ?cmd (filter (\<lambda>e. ?P (snd e)) d)) k = (case perms_at d k of None \<Rightarrow> None | Some v \<Rightarrow> unused_action mode v)" for k
    unfolding C(2) by (cases mode) (auto simp: unused_action_def perms_set_meet split: option.splits)
  with it C(1) show thesis by (rule that)
qed

text \<open>What the addresses shall hold.\<close>

definition exact_perms :: "snapshot \<Rightarrow> memory_perms \<Rightarrow> exactness_mode \<Rightarrow> (address \<rightharpoonup> memory_perms) \<Rightarrow> (address \<rightharpoonup> memory_perms)" where
  "exact_perms s added mode f k =
     (case mappings_at (snap_memory_mappings s) k of
        Some q \<Rightarrow> Some (with_mapped (MemoryPerms_Plus q added))
      | None \<Rightarrow> (case mode of kUnmapUnused \<Rightarrow> None | kProtectUnused \<Rightarrow> map_option (\<lambda>_. with_mapped MemoryPerms_None) (f k)))"

lemma DeltaMemoryMappingsExact_returns:
  assumes st: "has_state f A g st" and s: "snapshot_ok s"
    and p: "\<forall>m \<in> set (snap_memory_mappings s). target_perms_ok (MemoryPerms_Plus (mm_perms m) added)"
  shows "returns (\<lambda>cs. cmds_ok cs \<and> (\<forall>k. cmds_at cs k =
      (case mappings_at (snap_memory_mappings s) k of
         Some q \<Rightarrow> delta_action (f k) (MemoryPerms_Plus q added)
       | None \<Rightarrow> (case f k of None \<Rightarrow> None | Some v \<Rightarrow> unused_action mode v)))) (DeltaMemoryMappingsExact s added mode st)"
  unfolding DeltaMemoryMappingsExact_def
proof (rule returns_rbind [OF delta_each_returns [OF st snapshot_maps(5) [OF s] p]], elim conjE)
  let ?ms = "snap_memory_mappings s"
  fix r
  assume r: "cmds_ok r" "\<forall>k. cmds_at r k = (case mappings_at ?ms k of None \<Rightarrow> None | Some q \<Rightarrow> delta_action (f k) (MemoryPerms_Plus q added))"
  show "returns (\<lambda>cs. cmds_ok cs \<and> (\<forall>k. cmds_at cs k =
      (case mappings_at ?ms k of Some q \<Rightarrow> delta_action (f k) (MemoryPerms_Plus q added)
       | None \<Rightarrow> (case f k of None \<Rightarrow> None | Some v \<Rightarrow> unused_action mode v))))
    (if \<not> MappedMemoryMap_IsEmpty (ms_mapped_memory_map st)
     then rbind (MappedMemoryMap_RemoveRangesOf (snap_mapped_memory_map s) MemoryPerms_AllPlusMapped
                   (MappedMemoryMap_Copy (ms_mapped_memory_map st))) (\<lambda>to_remove.
          MappedMemoryMap_Iterate (unused_cmd mode) to_remove r)
     else ret r)" (is "returns ?Q _")
  proof (cases "MappedMemoryMap_IsEmpty (ms_mapped_memory_map st)")
    case True
    then have "ms_mapped_memory_map st = []" by (simp add: MappedMemoryMap_IsEmpty_def)
    then have "f k = None" for k using has_state_eqs(1) [OF st] by (metis perms_at_Nil)
    then show ?thesis using True r by (auto split: option.splits)
  next
    case False
    show ?thesis
      unfolding if_P [OF False]
    proof (rule returns_rbind [OF not_in_snapshot_returns [OF snapshot_maps(1) [OF s] state_mapped [OF st]]])
      fix d
      assume "holds (\<lambda>k. if perms_at (snap_mapped_memory_map s) k = None then perms_at (ms_mapped_memory_map st) k else None) d"
      then have d: "mapped_map_ok d" "\<And>k. perms_at d k = (if mappings_at ?ms k = None then f k else None)"
        by (simp_all add: holds_def fun_eq_iff snapshot_maps(3) [OF s] has_state_eqs(1) [OF st])
      obtain cs where cs: "MappedMemoryMap_Iterate (unused_cmd mode) d r = ret (r @ cs)" "cmds_ok cs"
        "\<And>k. cmds_at cs k = (case perms_at d k of None \<Rightarrow> None | Some v \<Rightarrow> unused_action mode v)"
        by (rule unused_cmds [OF d(1), of mode r]) (rule that)
      have "cmds_ok (r @ cs)"
        by (rule cmds_ok_append [OF r(1) cs(2)]) (auto simp: r(2) cs(3) d(2) split: option.splits)
      then show "returns ?Q (MappedMemoryMap_Iterate (unused_cmd mode) d r)"
        unfolding cs(1) by (auto simp: cmds_at_append r(2) cs(3) d(2) split: option.splits)
    qed
  qed
qed

section \<open>DeltaMemoryMappings\<close>

text \<open>Where negative permissions have to go, the command leaves what all addresses of the run have, without them:
  \<open>d\<close> says which permissions have to go, and the code makes one command for each run of equal ones.\<close>

definition common_perms :: "(address \<rightharpoonup> memory_perms) \<Rightarrow> (address \<Rightarrow> 'a) \<Rightarrow> address \<Rightarrow> permission set" where
  "common_perms f d k = {a. \<forall>j. same_run d k j \<longrightarrow> (\<exists>q. f j = Some q \<and> a \<in> perms_set q)}"

definition negative_cmd :: "permission set \<Rightarrow> memory_perms \<Rightarrow> (action \<times> memory_perms) option \<Rightarrow> bool" where
  "negative_cmd x v c \<longleftrightarrow> (\<exists>p. c = Some (kProtect, p) \<and> perms_ok p \<and> perms_set p = x - perms_set v - {kMapped})"

lemma negative_cmds:
  assumes st: "has_state f A g st" and d: "mapped_map_ok d"
    and r: "cmds_ok r" "\<And>k. perms_at d k \<noteq> None \<Longrightarrow> cmds_at r k = None"
  shows "returns (\<lambda>cs. cmds_ok cs \<and> (\<forall>k. case perms_at d k of None \<Rightarrow> cmds_at cs k = cmds_at r k
      | Some v \<Rightarrow> negative_cmd (common_perms f (perms_at d) k) v (cmds_at cs k)))
    (MappedMemoryMap_Iterate (\<lambda>start limit perms result.
       rbind (MappedMemoryMap_Perms start limit kAnd (ms_mapped_memory_map st)) (\<lambda>p.
       let p = MemoryPerms_ClearPermission kMapped (MemoryPerms_Clear perms p) in
       rbind (MakeRanged start limit p) (\<lambda>d.
       ret (result @ [\<lparr>cmd_mapping = d, cmd_action = kProtect\<rparr>])))) d r)"
proof -
  note ok = state_mapped [OF st] and f = has_state_eqs(1) [OF st]
  let ?f = "\<lambda>i result.
       rbind (MappedMemoryMap_Perms (entry_start i) (entry_limit i) kAnd (ms_mapped_memory_map st)) (\<lambda>p.
       let p = MemoryPerms_ClearPermission kMapped (MemoryPerms_Clear (snd i) p) in
       rbind (MakeRanged (entry_start i) (entry_limit i) p) (\<lambda>d.
       ret (result @ [\<lparr>cmd_mapping = d, cmd_action = kProtect\<rparr>])))"
  let ?at = "lookup (\<lambda>_ _ v _. v)"
  have "returns (\<lambda>cs. cmds_ok cs \<and> (\<forall>k. case ?at es k of None \<Rightarrow> cmds_at cs k = cmds_at r k
      | Some v \<Rightarrow> negative_cmd (common_perms f (perms_at d) k) v (cmds_at cs k))) (for_each ?f es r)"
    if "ranges_ok (\<lambda>_ _ v. perms_ok v) es" "set es \<subseteq> set d" "cmds_ok r"
      "\<And>k. ?at es k \<noteq> None \<Longrightarrow> cmds_at r k = None" for es r
    using that
  proof (induction es arbitrary: r)
    case (Cons e es)
    have lt: "entry_start e < entry_limit e" and oks: "ranges_ok (\<lambda>_ _ v. perms_ok v) es"
      using Cons.prems(1) by (simp_all add: ranges_ok_Cons)
    have out: "?at es k = None" if "entry_start e \<le> k" "k < entry_limit e" for k
      using Cons.prems(1) that by (intro lookup_None) (auto simp: ranges_ok_Cons)
    obtain p where p: "MappedMemoryMap_Perms (entry_start e) (entry_limit e) kAnd (ms_mapped_memory_map st) = ret p" "perms_ok p"
      "perms_set p = {p. \<forall>k. entry_start e \<le> k \<and> k < entry_limit e \<longrightarrow> (\<exists>q. f k = Some q \<and> p \<in> perms_set q)}"
      using Perms_returns [OF ok lt, of kAnd] unfolding f by (auto elim!: returnsE)
    let ?p = "MemoryPerms_ClearPermission kMapped (MemoryPerms_Clear (snd e) p)"
    let ?m = "\<lparr>mm_start = entry_start e, mm_num_bytes = entry_limit e - entry_start e, mm_perms = ?p\<rparr>"
    let ?c = "\<lparr>cmd_mapping = ?m, cmd_action = kProtect\<rparr>"
    have p': "perms_ok ?p" "perms_set ?p = perms_set p - perms_set (snd e) - {kMapped}" using p(2) by auto
    then have mk: "MakeRanged (entry_start e) (entry_limit e) ?p = ret ?m" using lt by (simp add: MakeRanged_ok)
    have mok: "mapping_ok ?m"
      using p' lt CanMakeRanged_iff [of "entry_start e" "entry_limit e"] by (simp add: mapping_ok_def HasPermission_iff CanMakeRanged_def)
    have range: "cmd_range ?c = {entry_start e..<entry_limit e}"
      by (simp add: cmd_range_def mapping_range_def mm_limit_def)
    have free: "cmds_at r k = None" if "k \<in> cmd_range ?c" for k
      using Cons.prems(4) [of k] that by (simp add: range)
    have ok': "cmds_ok (r @ [?c])" using Cons.prems(3) mok free by (intro cmds_ok_append) auto
    have neg: "negative_cmd (common_perms f (perms_at d) k) (snd e) (Some (kProtect, ?p))" if "k \<in> cmd_range ?c" for k
      using that p' mapped_map_run [OF d, of e k] Cons.prems(2) by (simp add: range negative_cmd_def common_perms_def p(3))
    have IH: "returns (\<lambda>cs. cmds_ok cs \<and> (\<forall>k. case ?at es k of None \<Rightarrow> cmds_at cs k = cmds_at (r @ [?c]) k
      | Some v \<Rightarrow> negative_cmd (common_perms f (perms_at d) k) v (cmds_at cs k))) (for_each ?f es (r @ [?c]))"
    proof (rule Cons.IH [OF oks _ ok'])
      show "set es \<subseteq> set d" using Cons.prems(2) by simp
      fix k assume k: "?at es k \<noteq> None"
      then have nk: "\<not> (entry_start e \<le> k \<and> k < entry_limit e)" using out [of k] by auto
      then have "k \<notin> cmd_range ?c" unfolding range by simp
      moreover have "?at (e # es) k \<noteq> None" using k nk by (simp only: lookup.simps if_False) simp
      ultimately show "cmds_at (r @ [?c]) k = None"
        using Cons.prems(4) by (auto simp: cmds_at_append simp del: lookup.simps)
    qed
    have run: "for_each ?f (e # es) r = for_each ?f es (r @ [?c])" by (simp add: p(1) mk Let_def)
    show ?case
      unfolding run
    proof (rule returns_mono [OF IH], elim conjE, intro conjI allI)
      fix cs k
      assume cs: "\<forall>k. case ?at es k of None \<Rightarrow> cmds_at cs k = cmds_at (r @ [?c]) k | Some v \<Rightarrow> negative_cmd (common_perms f (perms_at d) k) v (cmds_at cs k)"
      show "case ?at (e # es) k of None \<Rightarrow> cmds_at cs k = cmds_at r k | Some v \<Rightarrow> negative_cmd (common_perms f (perms_at d) k) v (cmds_at cs k)"
      proof (cases "entry_start e \<le> k \<and> k < entry_limit e")
        case True
        then have "cmds_at cs k = Some (kProtect, ?p)" using spec [OF cs, of k] out [of k] free [of k]
          by (auto simp: cmds_at_append range)
        then show ?thesis using True neg [of k] by (simp add: range)
      next
        case False
        then have "?at (e # es) k = ?at es k" "cmds_at (r @ [?c]) k = cmds_at r k"
          by (auto simp: cmds_at_append range split: option.splits)
        then show ?thesis using spec [OF cs, of k] by (cases "?at es k") (simp_all del: lookup.simps)
      qed
    qed
  qed simp
  from this [OF ranges_of_ok [OF d] subset_refl r(1)] show ?thesis
    using r(2) unfolding MappedMemoryMap_Iterate_def perms_at_def by blast
qed

text \<open>The permissions that negative mappings forbid at an address; those that the address has and has to lose,
  because the snapshot maps nothing there; and the permissions an address shall have in the end.\<close>

definition negative_perms :: "snapshot \<Rightarrow> address \<Rightarrow> permission set" where
  "negative_perms s k = (case mappings_at (snap_negative_memory_mappings s) k of None \<Rightarrow> {} | Some n \<Rightarrow> perms_set n)"

definition denied :: "snapshot \<Rightarrow> (address \<rightharpoonup> memory_perms) \<Rightarrow> address \<Rightarrow> permission set" where
  "denied s f k =
     (if mappings_at (snap_memory_mappings s) k = None
      then (case f k of None \<Rightarrow> {} | Some q \<Rightarrow> perms_set q \<inter> negative_perms s k) else {})"

definition perms_after :: "snapshot \<Rightarrow> memory_perms \<Rightarrow> (address \<rightharpoonup> memory_perms) \<Rightarrow> address \<Rightarrow> permission set option" where
  "perms_after s added f k =
     (case mappings_at (snap_memory_mappings s) k of
        Some q \<Rightarrow> Some (insert kMapped (perms_set q \<union> perms_set added))
      | None \<Rightarrow> if denied s f k = {} then map_option perms_set (f k)
          else Some (common_perms f (denied s f) k - negative_perms s k))"

lemma negative_no_kMapped: "snapshot_ok s \<Longrightarrow> kMapped \<notin> negative_perms s k"
  using mappings_at_no_kMapped [OF snapshot_maps(6)] by (auto simp: negative_perms_def split: option.splits)

lemma denied_map:
  assumes d: "mapped_map_ok d" and at: "\<And>k. denied s f k = (case perms_at d k of None \<Rightarrow> {} | Some v \<Rightarrow> perms_set v)"
    and ne: "\<And>k v. perms_at d k = Some v \<Longrightarrow> perms_set v \<noteq> {}"
  shows "common_perms f (perms_at d) k = common_perms f (denied s f) k"
proof -
  have "perms_at d i = perms_at d k \<longleftrightarrow> denied s f i = denied s f k" for i
    using ne [of i] ne [of k] perms_at_ok [OF d] perms_eq_iff unfolding at by (cases "perms_at d i"; cases "perms_at d k") auto
  then show ?thesis unfolding common_perms_def by (subst same_run_cong) auto
qed

lemma DeltaMemoryMappings_returns:
  assumes st: "has_state f A g st" and s: "snapshot_ok s"
    and p: "\<forall>m \<in> set (snap_memory_mappings s). target_perms_ok (MemoryPerms_Plus (mm_perms m) added)"
  shows "returns (\<lambda>cs. cmds_ok cs \<and> (\<forall>k. case mappings_at (snap_memory_mappings s) k of
      Some q \<Rightarrow> cmds_at cs k = delta_action (f k) (MemoryPerms_Plus q added)
    | None \<Rightarrow> if denied s f k = {} then cmds_at cs k = None
        else \<exists>p. cmds_at cs k = Some (kProtect, p) \<and> perms_ok p \<and>
          perms_set p = common_perms f (denied s f) k - negative_perms s k - {kMapped}))
    (DeltaMemoryMappings s added st)" (is "returns ?Q _")
  unfolding DeltaMemoryMappings_def
proof (rule returns_rbind [OF delta_each_returns [OF st snapshot_maps(5) [OF s] p]], elim conjE)
  let ?ms = "snap_memory_mappings s" and ?ns = "snap_negative_memory_mappings s"
  fix r
  assume r: "cmds_ok r" "\<forall>k. cmds_at r k = (case mappings_at ?ms k of None \<Rightarrow> None | Some q \<Rightarrow> delta_action (f k) (MemoryPerms_Plus q added))"
  let ?body = "\<lambda>start limit perms result.
      rbind (MappedMemoryMap_Perms start limit kAnd (ms_mapped_memory_map st)) (\<lambda>p.
      let p = MemoryPerms_ClearPermission kMapped (MemoryPerms_Clear perms p) in
      rbind (MakeRanged start limit p) (\<lambda>d. ret (result @ [\<lparr>cmd_mapping = d, cmd_action = kProtect\<rparr>])))"
  show "returns ?Q (if ?ns \<noteq> [] \<and> \<not> MappedMemoryMap_IsEmpty (ms_mapped_memory_map st)
     then rbind (MappedMemoryMap_RemoveRangesOf (snap_mapped_memory_map s) MemoryPerms_AllPlusMapped
                   (MappedMemoryMap_Copy (snap_negative_mapped_memory_map s))) (\<lambda>filtered_negative.
          rbind (MappedMemoryMap_AddIntersectionOf (ms_mapped_memory_map st) filtered_negative []) (\<lambda>delta.
          MappedMemoryMap_Iterate ?body delta r))
     else ret r)"
  proof (cases "?ns \<noteq> [] \<and> \<not> MappedMemoryMap_IsEmpty (ms_mapped_memory_map st)")
    case False
    have "denied s f k = {}" for k
    proof (cases "?ns = []")
      case False
      then have "ms_mapped_memory_map st = []"
        using \<open>\<not> (?ns \<noteq> [] \<and> \<not> MappedMemoryMap_IsEmpty (ms_mapped_memory_map st))\<close> by (simp add: MappedMemoryMap_IsEmpty_def)
      then have "f k = None" using has_state_eqs(1) [OF st] by (metis perms_at_Nil)
      then show ?thesis by (simp add: denied_def)
    qed (simp add: denied_def negative_perms_def split: option.split)
    then show ?thesis
      unfolding if_not_P [OF False] returns_ret
      by (intro conjI allI r(1)) (simp add: r(2) split: option.splits)
  next
    case True
    show ?thesis
      unfolding if_P [OF True]
    proof (rule returns_rbind [OF not_in_snapshot_returns [OF snapshot_maps(1,2) [OF s]]],
        rule returns_rbind [OF AddIntersection_returns [OF state_mapped [OF st] holds_ok mapped_map_ok_Nil]], assumption)
      fix n d
      assume n: "holds (\<lambda>k. if perms_at (snap_mapped_memory_map s) k = None then perms_at (snap_negative_mapped_memory_map s) k else None) n"
        and "holds (\<lambda>k. add_option (intersect_at (perms_at (ms_mapped_memory_map st) k) (perms_at n k)) (perms_at [] k)) d"
      then have d: "mapped_map_ok d" "\<And>k. perms_at d k = intersect_at (f k) (perms_at n k)"
        by (simp_all add: holds_def has_state_eqs(1) [OF st] fun_eq_iff)
      have nk: "perms_at n k = (if mappings_at ?ms k = None then mappings_at ?ns k else None)" for k
        by (simp add: holds_at [OF n] snapshot_maps(3,4) [OF s])
      have at_d: "denied s f k = (case perms_at d k of None \<Rightarrow> {} | Some v \<Rightarrow> perms_set v) \<and>
          (\<forall>v. perms_at d k = Some v \<longrightarrow> perms_set v \<noteq> {})" for k
      proof (cases "f k")
        case (Some q)
        have "perms_ok q" using perms_at_ok [OF state_mapped [OF st], of k q] has_state_eqs(1) [OF st] Some by simp
        then have "MemoryPerms_IsEmpty (MemoryPerms_Intersect x q) \<longleftrightarrow> perms_set q \<inter> perms_set x = {}" for x
          using perms_set_empty [of "MemoryPerms_Intersect x q"] by simp
        then show ?thesis
          by (auto simp: d(2) nk Some intersect_at_def nonempty_perms_def denied_def negative_perms_def split: option.splits if_splits)
      qed (simp add: d(2) intersect_at_def denied_def)
      have common: "common_perms f (perms_at d) k = common_perms f (denied s f) k" for k
        using at_d by (intro denied_map [OF d(1)]) auto
      have free: "cmds_at r k = None" if "perms_at d k \<noteq> None" for k
        using at_d [of k] that r(2) by (auto simp: denied_def split: option.splits if_splits)
      show "returns ?Q (MappedMemoryMap_Iterate ?body d r)"
      proof (rule returns_mono [OF negative_cmds [OF st d(1) r(1)]], rule free, assumption, elim conjE, intro conjI allI)
        fix cs k
        assume cs: "\<forall>k. case perms_at d k of None \<Rightarrow> cmds_at cs k = cmds_at r k
          | Some v \<Rightarrow> negative_cmd (common_perms f (perms_at d) k) v (cmds_at cs k)"
        show "case mappings_at ?ms k of
            Some q \<Rightarrow> cmds_at cs k = delta_action (f k) (MemoryPerms_Plus q added)
          | None \<Rightarrow> if denied s f k = {} then cmds_at cs k = None
              else \<exists>p. cmds_at cs k = Some (kProtect, p) \<and> perms_ok p \<and>
                perms_set p = common_perms f (denied s f) k - negative_perms s k - {kMapped}"
        proof (cases "perms_at d k")
          case (Some v)
          have v: "denied s f k = perms_set v" "perms_set v \<noteq> {}" using at_d [of k] Some by auto
          then obtain q where q: "mappings_at ?ms k = None" "f k = Some q" "perms_set v = perms_set q \<inter> negative_perms s k"
            by (auto simp: denied_def split: option.splits if_splits)
          have "common_perms f (denied s f) k \<subseteq> perms_set q" using q(2) by (auto simp: common_perms_def dest: spec [of _ k])
          then have "common_perms f (denied s f) k - perms_set v = common_perms f (denied s f) k - negative_perms s k"
            using q(3) by blast
          then show ?thesis using spec [OF cs, of k] Some v q(1) by (auto simp: negative_cmd_def common)
        qed (use spec [OF cs, of k] at_d [of k] r(2) in \<open>auto split: option.splits\<close>)
      qed
    qed
  qed
qed

end
