(* ===== verification/Delta_Properties.thy ===== *)
theory Delta_Properties
  imports Memory_Deltas
begin

text \<open>
  The properties of the commands that turn one state of the mappings into another.
\<close>

section \<open>Commands and addresses\<close>

lemma cmd_at: "cmds_ok cs \<Longrightarrow> c \<in> set cs \<Longrightarrow> k \<in> cmd_range c \<Longrightarrow> cmds_at cs k = Some (cmd_action c, mm_perms (cmd_mapping c))"
  by (induction cs) (auto split: if_splits)

lemma applied:
  assumes "has_state f A g st" "cmds_ok cs"
  shows "returns (content (\<lambda>k. case cmds_at cs k of None \<Rightarrow> (f k, k \<in> A, g k) | Some x \<Rightarrow> cmd_effect x (f k, k \<in> A, g k)))
    (for_each apply_cmd cs st)"
  using apply_cmds_returns [of "\<lambda>k. (f k, k \<in> A, g k)"] assms by (simp add: content_has_state)

lemma applied_perms:
  assumes "has_state f A g st" "cmds_ok cs"
  shows "returns (\<lambda>st'. state_ok st' \<and> (\<forall>k. perms_at (ms_mapped_memory_map st') k =
      (case cmds_at cs k of None \<Rightarrow> f k | Some (a, p) \<Rightarrow> if a = kUnmap then None else Some (with_mapped p))))
    (for_each apply_cmd cs st)"
  using applied [OF assms] by (rule returns_mono) (auto simp: content_def has_state_def cmd_effect_def split: option.splits)

lemma with_mapped_None: "perms_ok q \<Longrightarrow> with_mapped MemoryPerms_None = q \<longleftrightarrow> perms_set q = {kMapped}"
  by (subst perms_eq_iff) auto

section \<open>Properties\<close>

text \<open>C21: applying the commands of \<open>DeltaMemoryMapping\<close> gives exactly the state of \<open>SetMemoryMapping\<close> with the
  added permissions. The commands are disjoint, map what is not mapped, protect what is, and none touches an
  address that already has the permissions.\<close>

theorem delta_mapping_equivalent:
  assumes "state_ok st" "mapping_ok m" "target_perms_ok (MemoryPerms_Plus (mm_perms m) added)"
  defines "old \<equiv> perms_at (ms_mapped_memory_map st)" and "p \<equiv> MemoryPerms_Plus (mm_perms m) added"
  shows "returns (\<lambda>cs. cmds_ok cs \<and> for_each apply_cmd cs st = SetMemoryMapping (m\<lparr>mm_perms := p\<rparr>) st \<and>
      (\<forall>c \<in> set cs. \<forall>k \<in> cmd_range c. old k \<noteq> Some (MemoryPerms_PlusPermission p kMapped) \<and>
         cmd_action c = (if old k = None then kMap else kProtect)))
    (DeltaMemoryMapping m added st)"
proof -
  let ?A = "addresses (ms_written_memory_set st)" and ?g = "byte_at (ms_written_memory_bytes st)" and ?m = "m\<lparr>mm_perms := p\<rparr>"
  have st: "has_state old ?A ?g st" using has_state_self [OF assms(1)] by (simp add: old_def)
  have p: "perms_ok p" "kMapped \<notin> perms_set p" "\<not> MemoryPerms_IsEmpty p" using assms(3) by (simp_all add: target_perms_ok_def p_def)
  have m: "mapping_ok ?m" "mapping_range ?m = mapping_range m"
    using assms(2) p by (simp_all add: mapping_ok_def HasPermission_iff mapping_range_def mm_limit_def)
  have set: "returns (has_state (set_at ?m old) ?A ?g) (SetMemoryMapping ?m st)"
    using SetMemoryMapping_returns [OF st m(1)] p(3) by simp
  show ?thesis
  proof (rule returns_mono [OF DeltaMemoryMapping_returns [OF st assms(2,3)]], elim conjE, intro conjI)
    fix cs
    assume cs: "cmds_ok cs" and at: "\<forall>k. cmds_at cs k =
        (if k \<in> mapping_range m then delta_action (old k) (MemoryPerms_Plus (mm_perms m) added) else None)"
    note at = spec [OF at, folded p_def]
    have "returns (has_state (set_at ?m old) ?A ?g) (for_each apply_cmd cs st)"
      by (rule content_returns [OF applied [OF st cs]])
        (auto simp: at set_at_def m(2) delta_action_def cmd_effect_def split: option.splits if_splits)
    then show "for_each apply_cmd cs st = SetMemoryMapping ?m st" using set by (rule has_state_ret_eq)
    show "\<forall>c \<in> set cs. \<forall>k \<in> cmd_range c. old k \<noteq> Some (MemoryPerms_PlusPermission p kMapped) \<and>
        cmd_action c = (if old k = None then kMap else kProtect)"
    proof (intro ballI)
      fix c k assume "c \<in> set cs" "k \<in> cmd_range c"
      from cmd_at [OF cs this] at [of k] show "old k \<noteq> Some (MemoryPerms_PlusPermission p kMapped) \<and>
          cmd_action c = (if old k = None then kMap else kProtect)"
        by (auto simp: delta_action_def with_mapped_def split: if_splits option.splits)
    qed
  qed
qed

theorem delta_mapping_equivalent_witness:
  "returns (\<lambda>cs. for_each apply_cmd cs three_bytes = SetMemoryMapping (code_mapping\<lparr>mm_perms := MemoryPerms_Plus MemoryPerms_XR MemoryPerms_W\<rparr>) three_bytes)
     (DeltaMemoryMapping code_mapping MemoryPerms_W three_bytes)"
proof -
  have m: "mapping_ok code_mapping"
    using sample_snapshot_ok by (simp add: snapshot_ok_def represents_def mappings_ok_def sample_snapshot_def)
  have p: "target_perms_ok (MemoryPerms_Plus (mm_perms code_mapping) MemoryPerms_W)"
    using perms_set_empty [of "MemoryPerms_Plus MemoryPerms_XR MemoryPerms_W"]
    by (simp add: target_perms_ok_def sample_mappings sample_perms)
  show ?thesis
    by (rule returns_mono [OF delta_mapping_equivalent [OF three_bytes_ok m p]]) (simp add: sample_mappings)
qed

text \<open>C20: applying the commands of \<open>DeltaMemoryMappingsExact\<close> to any state leaves exactly the mappings of the
  snapshot, with the added permissions, and elsewhere nothing, or with \<open>kProtectUnused\<close> mappings without
  permissions; a command is given for exactly the addresses that have to change.\<close>

theorem delta_mappings_exact:
  fixes mode :: exactness_mode
  assumes "state_ok st" "snapshot_ok s" "\<forall>m \<in> set (snap_memory_mappings s). target_perms_ok (MemoryPerms_Plus (mm_perms m) added)"
  defines "old \<equiv> perms_at (ms_mapped_memory_map st)"
    and "target \<equiv> \<lambda>k. case mappings_at (snap_memory_mappings s) k of
        Some q \<Rightarrow> Some (MemoryPerms_PlusPermission (MemoryPerms_Plus q added) kMapped)
      | None \<Rightarrow> (case mode of kUnmapUnused \<Rightarrow> None
          | kProtectUnused \<Rightarrow> map_option (\<lambda>_. MemoryPerms_PlusPermission MemoryPerms_None kMapped) (perms_at (ms_mapped_memory_map st) k))"
  shows "returns (\<lambda>cs. cmds_ok cs \<and> (\<forall>k. (\<exists>c \<in> set cs. k \<in> cmd_range c) \<longleftrightarrow> old k \<noteq> target k) \<and>
      returns (\<lambda>st'. state_ok st' \<and> (\<forall>k. perms_at (ms_mapped_memory_map st') k = target k)) (for_each apply_cmd cs st))
    (DeltaMemoryMappingsExact s added mode st)"
proof -
  have st: "has_state old (addresses (ms_written_memory_set st)) (byte_at (ms_written_memory_bytes st)) st"
    using has_state_self [OF assms(1)] by (simp add: old_def)
  have ok: "perms_ok q \<and> kMapped \<in> perms_set q" if "old k = Some q" for k q
    using state_kMapped [OF st that] perms_at_ok [OF state_mapped [OF st]] that by (auto simp: old_def)
  have target: "target k = (case mappings_at (snap_memory_mappings s) k of Some q \<Rightarrow> Some (with_mapped (MemoryPerms_Plus q added))
      | None \<Rightarrow> (case mode of kUnmapUnused \<Rightarrow> None | kProtectUnused \<Rightarrow> map_option (\<lambda>_. with_mapped MemoryPerms_None) (old k)))" for k
    unfolding target_def with_mapped_def old_def ..
  have unused: "unused_action kProtectUnused q = None \<longleftrightarrow> q = with_mapped MemoryPerms_None" if "old k = Some q" for k q
  proof -
    have "perms_set q \<inter> perms_set MemoryPerms_All = {} \<longleftrightarrow> perms_set q = {kMapped}"
    proof -
      have "perms_set MemoryPerms_All = - {kMapped}"
      proof
        show "- {kMapped} \<subseteq> perms_set MemoryPerms_All" using permission.exhaust by auto
      qed auto
      then show ?thesis using ok [OF that] by auto
    qed
    then show ?thesis using with_mapped_None [of q] ok [OF that] by (auto simp: unused_action_def)
  qed
  show ?thesis
  proof (rule returns_mono [OF DeltaMemoryMappingsExact_returns [OF st assms(2,3), of mode]], elim conjE, intro conjI allI)
    fix cs k
    assume cs: "cmds_ok cs" and at: "\<forall>k. cmds_at cs k = (case mappings_at (snap_memory_mappings s) k of
        Some q \<Rightarrow> delta_action (old k) (MemoryPerms_Plus q added)
      | None \<Rightarrow> (case old k of None \<Rightarrow> None | Some v \<Rightarrow> unused_action mode v))"
    have new: "(case cmds_at cs k of None \<Rightarrow> old k | Some (a, p) \<Rightarrow> if a = kUnmap then None else Some (with_mapped p)) = target k
        \<and> (cmds_at cs k = None \<longleftrightarrow> old k = target k)" for k
    proof (cases "mappings_at (snap_memory_mappings s) k")
      case None
      show ?thesis
      proof (cases "old k")
        case (Some q)
        have "cmds_at cs k = unused_action mode q" using at None Some by simp
        then show ?thesis
          using unused [OF Some] None Some
          by (cases mode) (auto simp: target unused_action_def split: if_splits)
      qed (use None at in \<open>simp add: target split: exactness_mode.splits\<close>)
    next
      case (Some p)
      then have "cmds_at cs k = delta_action (old k) (MemoryPerms_Plus p added)" using at by simp
      then show ?thesis using Some by (auto simp: target delta_action_def split: option.splits)
    qed
    show "(\<exists>c \<in> set cs. k \<in> cmd_range c) \<longleftrightarrow> old k \<noteq> target k"
      using new [of k] cmds_at_None [of cs k] by auto
    show "returns (\<lambda>st'. state_ok st' \<and> (\<forall>k. perms_at (ms_mapped_memory_map st') k = target k)) (for_each apply_cmd cs st)"
      using applied_perms [OF st cs] by (simp only: conjunct1 [OF new])
  qed
qed

lemma sample_target: "\<forall>m \<in> set (snap_memory_mappings sample_snapshot). target_perms_ok (MemoryPerms_Plus (mm_perms m) MemoryPerms_W)"
  using perms_set_empty [of "MemoryPerms_Plus MemoryPerms_XR MemoryPerms_W"]
  by (simp add: target_perms_ok_def sample_mappings sample_perms sample_snapshot_def)

theorem delta_mappings_exact_witness:
  "returns (\<lambda>cs. returns (\<lambda>st. perms_at (ms_mapped_memory_map st) 0x1000 =
         Some (MemoryPerms_PlusPermission (MemoryPerms_Plus MemoryPerms_XR MemoryPerms_W) kMapped) \<and>
         perms_at (ms_mapped_memory_map st) 0x2000 = None) (for_each apply_cmd cs three_bytes))
     (DeltaMemoryMappingsExact sample_snapshot MemoryPerms_W kUnmapUnused three_bytes)"
proof -
  have at: "mappings_at (snap_memory_mappings sample_snapshot) 0x1000 = Some MemoryPerms_XR"
    "mappings_at (snap_memory_mappings sample_snapshot) 0x2000 = None"
    by (simp_all add: sample_snapshot_def mappings_at_Cons sample_mappings)
  show ?thesis
    by (rule returns_mono [OF delta_mappings_exact [OF three_bytes_ok sample_snapshot_ok sample_target, of kUnmapUnused]],
        elim conjE, erule returns_mono) (simp add: at)
qed

text \<open>What \<open>perms_after\<close> promises: no negative permission but an added one, and no loss of other permissions
  where a run has the same permissions everywhere.\<close>

lemma perms_after_negative:
  assumes s: "snapshot_ok s" and x: "perms_after s added f k = Some x"
  shows "x \<inter> negative_perms s k \<subseteq> (if mappings_at (snap_memory_mappings s) k = None then {} else perms_set added)"
proof (cases "mappings_at (snap_memory_mappings s) k")
  case None
  then show ?thesis using x by (auto simp: perms_after_def denied_def split: if_splits option.splits)
next
  case (Some q)
  have "perms_set q \<inter> negative_perms s k = {}"
    using s Some by (auto simp: snapshot_ok_def no_conflict_def negative_perms_def split: option.splits)
  then show ?thesis using x Some negative_no_kMapped [OF s, of k] by (auto simp: perms_after_def)
qed

lemma perms_after_uniform:
  assumes "mappings_at (snap_memory_mappings s) k = None" "\<forall>j. same_run (denied s f) k j \<longrightarrow> f j = f k"
  shows "perms_after s added f k = map_option (\<lambda>q. perms_set q - negative_perms s k) (f k)"
proof (cases "denied s f k = {}")
  case False
  then obtain q where q: "f k = Some q" by (auto simp: denied_def split: if_splits option.splits)
  have "common_perms f (denied s f) k = perms_set q"
    using assms(2) q same_run_self [of "denied s f" k] unfolding common_perms_def by (auto; metis option.inject)
  then show ?thesis using False assms(1) q by (simp add: perms_after_def)
qed (use assms(1) in \<open>auto simp: perms_after_def denied_def split: option.splits\<close>)

lemma mappings_at_targets:
  assumes "snapshot_ok s" "\<forall>m \<in> set (snap_memory_mappings s). target_perms_ok (MemoryPerms_Plus (mm_perms m) added)"
    and "mappings_at (snap_memory_mappings s) k = Some q"
  shows "perms_ok q \<and> perms_ok (MemoryPerms_Plus q added)"
  using mappings_at_nonempty [OF snapshot_maps(5) [OF assms(1)] assms(3)] mappings_at_SomeD [OF assms(3)] assms(2)
  by (auto simp: target_perms_ok_def)

text \<open>The permissions after the commands, and where there are commands.\<close>

lemma negative_applied:
  assumes st: "has_state f A g st" and s: "snapshot_ok s" and at: "case mappings_at (snap_memory_mappings s) k of
      Some q \<Rightarrow> c = delta_action (f k) (MemoryPerms_Plus q added)
    | None \<Rightarrow> if denied s f k = {} then c = None
        else \<exists>p. c = Some (kProtect, p) \<and> perms_ok p \<and> perms_set p = common_perms f (denied s f) k - negative_perms s k - {kMapped}"
    and p: "\<And>q. mappings_at (snap_memory_mappings s) k = Some q \<Longrightarrow> perms_ok q \<and> perms_ok (MemoryPerms_Plus q added)"
  shows "map_option perms_set (case c of None \<Rightarrow> f k | Some (a, p) \<Rightarrow> if a = kUnmap then None else Some (with_mapped p)) =
      perms_after s added f k" (is "?new = _")
    and "c \<noteq> None \<longleftrightarrow> map_option perms_set (f k) \<noteq> perms_after s added f k"
proof -
  have f_ok: "perms_ok x" "kMapped \<in> perms_set x" if "f j = Some x" for j x
    using perms_at_ok [OF state_mapped [OF st], of j x] has_state_eqs(1) [OF st] that state_kMapped [OF st that] by simp_all
  have "?new = perms_after s added f k \<and> (c \<noteq> None \<longleftrightarrow> map_option perms_set (f k) \<noteq> perms_after s added f k)"
  proof (cases "mappings_at (snap_memory_mappings s) k")
    case (Some q)
    have target: "perms_after s added f k = Some (perms_set (with_mapped (MemoryPerms_Plus q added)))"
      using Some by (auto simp: perms_after_def)
    have "x = with_mapped (MemoryPerms_Plus q added) \<longleftrightarrow> perms_set x = perms_set (with_mapped (MemoryPerms_Plus q added))"
      if "f k = Some x" for x using f_ok(1) [OF that] p [OF Some] by (intro perms_eq_iff) auto
    then show ?thesis using at Some unfolding target by (auto simp: delta_action_def split: option.splits)
  next
    case None
    show ?thesis
    proof (cases "denied s f k = {}")
      case False
      then obtain q where q: "f k = Some q" "denied s f k = perms_set q \<inter> negative_perms s k"
        using None by (auto simp: denied_def split: option.splits)
      obtain p where p: "c = Some (kProtect, p)" "perms_set p = common_perms f (denied s f) k - negative_perms s k - {kMapped}"
        using at None False by auto
      have "f j \<noteq> None" if "same_run (denied s f) k j" for j
        using same_runD [OF that] False by (auto simp: denied_def split: if_splits option.splits)
      then have "kMapped \<in> common_perms f (denied s f) k" using f_ok(2) by (fastforce simp: common_perms_def)
      then have new: "perms_set (with_mapped p) = common_perms f (denied s f) k - negative_perms s k"
        using p(2) negative_no_kMapped [OF s, of k] by auto
      then have "perms_set q \<noteq> perms_set (with_mapped p)" using False q(2) by auto
      then show ?thesis using new p(1) None False q(1) by (simp add: perms_after_def)
    qed (use at None in \<open>simp add: perms_after_def split: option.splits\<close>)
  qed
  then show "?new = perms_after s added f k" "c \<noteq> None \<longleftrightarrow> map_option perms_set (f k) \<noteq> perms_after s added f k" by blast+
qed

text \<open>C22: applying the commands of \<open>DeltaMemoryMappings\<close> gives the snapshot's mappings the added permissions and
  keeps every other mapping; where the snapshot maps nothing, an address that has permissions its negative mappings
  forbid is left with exactly the permissions that all addresses of its run (the addresses around it that have to
  lose the same permissions) have, without the forbidden ones. So where the snapshot maps nothing no forbidden
  permission stays, elsewhere only an added one can be forbidden, and only the forbidden ones go when the
  addresses of the run have the same permissions. The commands are for exactly the addresses that have to change.\<close>

theorem delta_mappings_negative:
  assumes "state_ok st" "snapshot_ok s" "\<forall>m \<in> set (snap_memory_mappings s). target_perms_ok (MemoryPerms_Plus (mm_perms m) added)"
  defines "old \<equiv> perms_at (ms_mapped_memory_map st)"
    and "new \<equiv> \<lambda>st' k. map_option perms_set (perms_at (ms_mapped_memory_map st') k)"
    and "mapped \<equiv> \<lambda>k. mappings_at (snap_memory_mappings s) k \<noteq> None"
  shows "returns (\<lambda>cs. cmds_ok cs \<and>
      (\<forall>k. (\<exists>c \<in> set cs. k \<in> cmd_range c) \<longleftrightarrow> map_option perms_set (old k) \<noteq> perms_after s added old k) \<and>
      returns (\<lambda>st'. state_ok st' \<and> (\<forall>k. new st' k = perms_after s added old k \<and>
          (\<forall>x. new st' k = Some x \<longrightarrow> x \<inter> negative_perms s k \<subseteq> (if mapped k then perms_set added else {})) \<and>
          (\<not> mapped k \<and> (\<forall>j. same_run (denied s old) k j \<longrightarrow> old j = old k) \<longrightarrow>
             new st' k = map_option (\<lambda>q. perms_set q - negative_perms s k) (old k))))
        (for_each apply_cmd cs st)) (DeltaMemoryMappings s added st)"
proof -
  have st: "has_state old (addresses (ms_written_memory_set st)) (byte_at (ms_written_memory_bytes st)) st"
    using has_state_self [OF assms(1)] by (simp add: old_def)
  have p: "perms_ok q \<and> perms_ok (MemoryPerms_Plus q added)" if "mappings_at (snap_memory_mappings s) k = Some q" for k q
    using mappings_at_targets [OF assms(2,3) that] .
  show ?thesis
  proof (rule returns_mono [OF DeltaMemoryMappings_returns [OF st assms(2,3)]], elim conjE, intro conjI allI)
    fix cs k
    assume cs: "cmds_ok cs" and at: "\<forall>k. case mappings_at (snap_memory_mappings s) k of
        Some q \<Rightarrow> cmds_at cs k = delta_action (old k) (MemoryPerms_Plus q added)
      | None \<Rightarrow> if denied s old k = {} then cmds_at cs k = None
          else \<exists>p. cmds_at cs k = Some (kProtect, p) \<and> perms_ok p \<and>
            perms_set p = common_perms old (denied s old) k - negative_perms s k - {kMapped}"
    note after = negative_applied [OF st assms(2) spec [OF at] p]
    show "(\<exists>c \<in> set cs. k \<in> cmd_range c) \<longleftrightarrow> map_option perms_set (old k) \<noteq> perms_after s added old k"
      using after(2) [of k] cmds_at_None [of cs k] by auto
    show "returns (\<lambda>st'. state_ok st' \<and> (\<forall>k. new st' k = perms_after s added old k \<and>
          (\<forall>x. new st' k = Some x \<longrightarrow> x \<inter> negative_perms s k \<subseteq> (if mapped k then perms_set added else {})) \<and>
          (\<not> mapped k \<and> (\<forall>j. same_run (denied s old) k j \<longrightarrow> old j = old k) \<longrightarrow>
             new st' k = map_option (\<lambda>q. perms_set q - negative_perms s k) (old k)))) (for_each apply_cmd cs st)"
    proof (rule returns_mono [OF applied_perms [OF st cs]], elim conjE, intro conjI allI impI)
      fix st' :: memory_state and k
      assume "\<forall>k. perms_at (ms_mapped_memory_map st') k =
          (case cmds_at cs k of None \<Rightarrow> old k | Some (a, p) \<Rightarrow> if a = kUnmap then None else Some (with_mapped p))"
      then show eq: "new st' k = perms_after s added old k" unfolding new_def using after(1) [of k] by simp
      show "x \<inter> negative_perms s k \<subseteq> (if mapped k then perms_set added else {})" if "new st' k = Some x" for x
        using perms_after_negative [OF assms(2), of added old k x] that unfolding eq mapped_def by (auto split: if_splits)
      show "new st' k = map_option (\<lambda>q. perms_set q - negative_perms s k) (old k)"
        if "\<not> mapped k \<and> (\<forall>j. same_run (denied s old) k j \<longrightarrow> old j = old k)"
        using that unfolding eq mapped_def not_not by (elim conjE) (rule perms_after_uniform)
    qed
  qed
qed

definition loose_state :: memory_state where
  "loose_state = three_bytes\<lparr>ms_mapped_memory_map := [((0x3000, 0x4000), MemoryPerms_AllPlusMapped)],
     ms_written_memory_set := [], ms_written_memory_bytes := []\<rparr>"

lemma loose_state_ok: "state_ok loose_state"
proof -
  have "mapped_map_ok (ms_mapped_memory_map loose_state)"
    by (simp add: loose_state_def mapped_map_ok_def ranges_ok_def pm.canonical_def)
  then show ?thesis
    unfolding state_ok_def by (auto simp: loose_state_def perms_at_def byte_at_def bytes_map_ok_def mb.canonical_def split: if_splits)
qed

theorem delta_mappings_negative_witness:
  "returns (\<lambda>cs. returns (\<lambda>st. map_option perms_set (perms_at (ms_mapped_memory_map st) 0x1000) = Some UNIV \<and>
         map_option perms_set (perms_at (ms_mapped_memory_map st) 0x3000) = Some {kReadable, kExecutable, kMapped} \<and>
         perms_at (ms_mapped_memory_map st) 0x4000 = None) (for_each apply_cmd cs loose_state))
     (DeltaMemoryMappings sample_snapshot MemoryPerms_W loose_state)"
proof -
  have at: "mappings_at (snap_memory_mappings sample_snapshot) 0x1000 = Some MemoryPerms_XR"
    "mappings_at (snap_memory_mappings sample_snapshot) 0x3000 = None" "mappings_at (snap_memory_mappings sample_snapshot) 0x4000 = None"
    "negative_perms sample_snapshot 0x3000 = {kWritable}" "negative_perms sample_snapshot 0x4000 = {}"
    by (simp_all add: sample_snapshot_def mappings_at_Cons sample_mappings negative_perms_def sample_perms)
  have old: "perms_at (ms_mapped_memory_map loose_state) k = (if 0x3000 \<le> k \<and> k < 0x4000 then Some MemoryPerms_AllPlusMapped else None)" for k
    by (simp add: loose_state_def perms_at_def)
  let ?old = "perms_at (ms_mapped_memory_map loose_state)"
  have denied: "denied sample_snapshot ?old 0x3000 = {kWritable}" "denied sample_snapshot ?old 0x4000 = {}"
    by (auto simp: denied_def at old)
  have "?old j = ?old 0x3000" if "same_run (denied sample_snapshot ?old) 0x3000 j" for j
    using same_runD [OF that] denied(1) by (auto simp: denied_def old split: if_splits)
  then have three: "perms_after sample_snapshot MemoryPerms_W ?old 0x3000 = Some (perms_set MemoryPerms_AllPlusMapped - {kWritable})"
    using perms_after_uniform [OF at(2), of ?old MemoryPerms_W] by (simp add: old at)
  have "perms_set MemoryPerms_AllPlusMapped - {kWritable} = {kReadable, kExecutable, kMapped}"
    "insert kMapped (perms_set MemoryPerms_XR \<union> perms_set MemoryPerms_W) = UNIV"
    using permission_UNIV by (auto simp: sample_perms)
  with three have target: "perms_after sample_snapshot MemoryPerms_W ?old 0x1000 = Some UNIV"
    "perms_after sample_snapshot MemoryPerms_W ?old 0x3000 = Some {kReadable, kExecutable, kMapped}"
    "perms_after sample_snapshot MemoryPerms_W ?old 0x4000 = None"
    by (simp_all add: perms_after_def at denied(2) old)
  have "map_option perms_set (perms_at (ms_mapped_memory_map st) 0x1000) = Some UNIV \<and>
         map_option perms_set (perms_at (ms_mapped_memory_map st) 0x3000) = Some {kReadable, kExecutable, kMapped} \<and>
         perms_at (ms_mapped_memory_map st) 0x4000 = None"
    if "\<forall>k. map_option perms_set (perms_at (ms_mapped_memory_map st) k) = perms_after sample_snapshot MemoryPerms_W ?old k \<and> P k" for st P
    using spec [OF that, of "0x1000"] spec [OF that, of "0x3000"] spec [OF that, of "0x4000"] target by simp
  then show ?thesis
    by (intro returns_mono [OF delta_mappings_negative [OF loose_state_ok sample_snapshot_ok sample_target]])
      (elim conjE, erule returns_mono, elim conjE, assumption)
qed

text \<open>The code computes one command for the whole run, so permissions that are not forbidden go as well: here
  \<open>[0x3000, 0x4000)\<close> has read and write, \<open>[0x4000, 0x5000)\<close> also execute, and only write is forbidden, but the one
  command leaves read only.\<close>

lemma negative_run_loses_permission:
  "DeltaMemoryMappings (sample_snapshot\<lparr>snap_memory_mappings := [], snap_mapped_memory_map := [],
       snap_negative_memory_mappings := [negative_mapping\<lparr>mm_num_bytes := 0x2000\<rparr>],
       snap_negative_mapped_memory_map := [((0x3000, 0x5000), MemoryPerms_W)]\<rparr>) MemoryPerms_None
     (loose_state\<lparr>ms_mapped_memory_map := [((0x3000, 0x4000), MemoryPerms_ClearPermission kExecutable MemoryPerms_AllPlusMapped),
       ((0x4000, 0x5000), MemoryPerms_AllPlusMapped)]\<rparr>) =
   ret [\<lparr>cmd_mapping = \<lparr>mm_start = 0x3000, mm_num_bytes = 0x2000, mm_perms = MemoryPerms_R\<rparr>, cmd_action = kProtect\<rparr>]"
proof -
  let ?m = "[((0x3000, 0x4000), MemoryPerms_ClearPermission kExecutable MemoryPerms_AllPlusMapped), ((0x4000, 0x5000), MemoryPerms_AllPlusMapped)]"
  let ?n = "[((0x3000, 0x5000), MemoryPerms_W)]"
  have "remove_ranges_round [] MemoryPerms_AllPlusMapped (0, ?n) = ret (Continue (1, ?n))"
    "remove_ranges_round [] MemoryPerms_AllPlusMapped (1, ?n) = ret (Break ?n)" by code_simp+
  then have rem: "MappedMemoryMap_RemoveRangesOf [] MemoryPerms_AllPlusMapped ?n = ret ?n"
    by (simp add: MappedMemoryMap_RemoveRangesOf_def rloop.simps)
  have inter: "MappedMemoryMap_AddIntersectionOf ?m ?n [] = ret ?n" by code_simp
  have perms: "MappedMemoryMap_Perms 0x3000 0x5000 kAnd ?m = ret (MemoryPerms_ClearPermission kExecutable MemoryPerms_AllPlusMapped)"
    "MemoryPerms_ClearPermission kMapped (MemoryPerms_Clear MemoryPerms_W
       (MemoryPerms_ClearPermission kExecutable MemoryPerms_AllPlusMapped)) = MemoryPerms_R" by code_simp+
  have "MakeRanged 0x3000 0x5000 MemoryPerms_R = ret \<lparr>mm_start = 0x3000, mm_num_bytes = 0x2000, mm_perms = MemoryPerms_R\<rparr>"
    by code_simp
  then show ?thesis
    by (simp add: DeltaMemoryMappings_def delta_each_def MappedMemoryMap_Copy_def MappedMemoryMap_IsEmpty_def
        MappedMemoryMap_Iterate_def rem inter perms)
qed

end
