(* ===== verification/Bytes_Delta.thy ===== *)
theory Bytes_Delta
  imports Delta_Properties
begin

text \<open>
  \<open>DeltaMemoryBytes\<close>: the chunks of a \<open>MemoryBytes\<close> that have to be written. Inside one \<open>MemoryBytes\<close> addresses
  are offsets, so a chunk is a pair of offsets; \<open>chunks_ok\<close> is the invariant of the loop over the addresses.
\<close>

section \<open>Offsets and blocks\<close>

definition at_offset :: "memory_bytes \<Rightarrow> nat \<Rightarrow> address" where
  "at_offset b i = mb_start b + of_nat i"

definition block :: "memory_bytes \<Rightarrow> nat \<times> nat \<Rightarrow> memory_bytes" where
  "block b p = \<lparr>mb_start = at_offset b (fst p), mb_values = take (snd p - fst p) (drop (fst p) (mb_values b))\<rparr>"

lemma unat_of_nat_ok: "n < 2 ^ 64 \<Longrightarrow> unat (of_nat n :: u64) = n"
  by (simp add: unat_of_nat_u64)

lemma total: "bytes_ok b \<Longrightarrow> unat (mb_start b) + length (mb_values b) < 2 ^ 64"
  by (simp add: bytes_ok_def)

lemma unat_at_offset: "bytes_ok b \<Longrightarrow> i \<le> length (mb_values b) \<Longrightarrow> unat (at_offset b i) = unat (mb_start b) + i"
  using total [of b] unfolding at_offset_def by (subst unat_add_lem [THEN iffD1]) (simp_all add: unat_of_nat_ok)

lemma offset_limit: "bytes_ok b \<Longrightarrow> mb_limit b = at_offset b (length (mb_values b))"
  using bytes_ok_limit(2) [of b] unat_at_offset [of b, OF _ order_refl] by (simp only: word_unat_eq_iff)

lemma offset_less:
  "bytes_ok b \<Longrightarrow> i \<le> length (mb_values b) \<Longrightarrow> j \<le> length (mb_values b) \<Longrightarrow> at_offset b i < at_offset b j \<longleftrightarrow> i < j"
  by (simp add: word_less_nat_alt unat_at_offset)

lemma offset_le:
  "bytes_ok b \<Longrightarrow> i \<le> length (mb_values b) \<Longrightarrow> j \<le> length (mb_values b) \<Longrightarrow> at_offset b i \<le> at_offset b j \<longleftrightarrow> i \<le> j"
  by (simp add: word_le_nat_alt unat_at_offset)

lemma offset_eq:
  "bytes_ok b \<Longrightarrow> i \<le> length (mb_values b) \<Longrightarrow> j \<le> length (mb_values b) \<Longrightarrow> at_offset b i = at_offset b j \<longleftrightarrow> i = j"
  by (simp add: word_unat_eq_iff unat_at_offset)

lemma offset_diff: "i \<le> j \<Longrightarrow> at_offset b j - at_offset b i = of_nat (j - i)"
  by (simp add: at_offset_def of_nat_diff)

lemma offset_start: "at_offset b i - mb_start b = of_nat i" "at_offset b 0 = mb_start b" "at_offset b i + 1 = at_offset b (Suc i)"
  by (simp_all add: at_offset_def)

lemma offset_small: "bytes_ok b \<Longrightarrow> i \<le> length (mb_values b) \<Longrightarrow> unat (of_nat i :: u64) = i"
  using total [of b] by (simp add: unat_of_nat_ok)

lemma offset_of:
  assumes "bytes_ok b" "mb_start b \<le> k" "k < mb_limit b"
  obtains i where "i < length (mb_values b)" "k = at_offset b i"
proof
  have "unat (mb_start b) \<le> unat k" "unat k < unat (mb_start b) + length (mb_values b)"
    using assms(2,3) bytes_ok_limit(2) [OF assms(1)] by (simp_all add: word_le_nat_alt word_less_nat_alt)
  then show "unat (k - mb_start b) < length (mb_values b)" using unat_diff [OF assms(2)] by simp
  show "k = at_offset b (unat (k - mb_start b))" by (simp add: at_offset_def)
qed

lemma data_at_offset:
  assumes "bytes_ok b" "i + n \<le> length (mb_values b)"
  shows "data_at (mb_values b) (of_nat i) (of_nat n) = ret (take n (drop i (mb_values b)))"
    "substr (mb_values b) (of_nat i) (of_nat n) = ret (take n (drop i (mb_values b)))"
  using assms offset_small [of b i] offset_small [of b n] by (simp_all add: data_at_def substr_def)

lemma block_ok:
  assumes "bytes_ok b" "i < j" "j \<le> length (mb_values b)"
  shows "new_memory_bytes (at_offset b i) (take (j - i) (drop i (mb_values b))) = ret (block b (i, j))"
    "bytes_ok (block b (i, j))" "mb_limit (block b (i, j)) = at_offset b j"
    "bytes_range (block b (i, j)) = {at_offset b i..<at_offset b j}"
proof -
  let ?v = "take (j - i) (drop i (mb_values b))"
  have len: "length ?v = j - i" using assms by simp
  then have ne: "?v \<noteq> []" using assms by auto
  have u: "unat (at_offset b i) + length ?v = unat (at_offset b j)" using assms len by (simp add: unat_at_offset)
  show new: "new_memory_bytes (at_offset b i) ?v = ret (block b (i, j))" and okb: "bytes_ok (block b (i, j))"
    unfolding block_def fst_conv snd_conv
    by (rule new_memory_bytes_ok; use len ne u total [OF assms(1)] unat_u64_lt [of "at_offset b j"] assms in simp)+
  have "unat (mb_limit (block b (i, j))) = unat (at_offset b j)"
    using bytes_ok_limit(2) [OF okb] u by (simp add: block_def)
  then show lim: "mb_limit (block b (i, j)) = at_offset b j" by (simp only: word_unat_eq_iff)
  show "bytes_range (block b (i, j)) = {at_offset b i..<at_offset b j}"
    unfolding bytes_range_def lim by (simp add: block_def)
qed

lemma block_append:
  assumes "bytes_ok b" "i < j" "j \<le> l" "l \<le> length (mb_values b)"
  shows "append_bytes (take (l - j) (drop j (mb_values b))) (block b (i, j)) = ret (block b (i, l))"
proof -
  have bl: "bytes_ok (block b (i, j))" "mb_limit (block b (i, j)) = at_offset b j" using block_ok assms by simp_all
  have "unat (mb_limit (block b (i, j))) + length (take (l - j) (drop j (mb_values b))) < 2 ^ 64"
    using assms total [OF assms(1)] by (simp add: bl(2) unat_at_offset)
  moreover have "take (j - i) (drop i (mb_values b)) @ take (l - j) (drop j (mb_values b)) = take (l - i) (drop i (mb_values b))"
  proof -
    have "l - i = (j - i) + (l - j)" "drop (j - i) (drop i (mb_values b)) = drop j (mb_values b)" using assms by simp_all
    then show ?thesis by (metis take_add)
  qed
  ultimately show ?thesis using append_bytes_ok(1) [OF bl(1)] by (simp add: block_def)
qed

lemma offset_value: "bytes_ok b \<Longrightarrow> i < length (mb_values b) \<Longrightarrow> bytes_at b (at_offset b i) = Some (mb_values b ! i)"
  using offset_less [of b i "length (mb_values b)"] offset_le [of b 0 i] offset_small [of b i]
  by (simp add: bytes_at_def bytes_range_def offset_limit offset_start)

lemma block_value:
  assumes "bytes_ok b" "i \<le> x" "x < j" "j \<le> length (mb_values b)"
  shows "bytes_at (block b (i, j)) (at_offset b x) = Some (mb_values b ! x)"
proof -
  have "at_offset b x \<in> bytes_range (block b (i, j))"
    using assms block_ok(4) [of b i j] by (simp add: offset_less offset_le)
  moreover have "unat (at_offset b x - mb_start (block b (i, j))) = x - i"
    using assms offset_small [of b "x - i"] by (simp add: block_def offset_diff)
  ultimately show ?thesis using assms by (simp add: bytes_at_def) (simp add: block_def)
qed

section \<open>Growing the chunks\<close>

definition chunk_state :: "memory_bytes \<Rightarrow> (nat \<times> nat) list \<Rightarrow> memory_bytes option \<times> memory_bytes list" where
  "chunk_state b ps = (if ps = [] then (None, []) else (Some (block b (last ps)), map (block b) (butlast ps)))"

definition grow :: "(nat \<times> nat) list \<Rightarrow> nat \<Rightarrow> nat \<Rightarrow> (nat \<times> nat) list" where
  "grow ps a n =
     (if ps \<noteq> [] \<and> a - snd (last ps) < 15 then butlast ps @ [(fst (last ps), a + n)] else ps @ [(a, a + n)])"

definition chunks_ok :: "(nat \<Rightarrow> bool) \<Rightarrow> nat \<Rightarrow> (nat \<times> nat) list \<Rightarrow> bool" where
  "chunks_ok differs a ps \<longleftrightarrow> (\<forall>p \<in> set ps. fst p < snd p \<and> snd p \<le> a \<and> differs (fst p)) \<and>
     sorted_wrt (\<lambda>p q. snd p + 15 \<le> fst q) ps \<and>
     (\<forall>x < a. differs x \<longrightarrow> (\<exists>p \<in> set ps. fst p \<le> x \<and> x < snd p))"

lemma chunks_ok_skip: "chunks_ok d a ps \<Longrightarrow> \<not> d a \<Longrightarrow> chunks_ok d (Suc a) ps"
  by (auto simp: chunks_ok_def less_Suc_eq)

lemma chunks_ok_grow:
  assumes "chunks_ok d a ps" "d a" "0 < n"
  shows "chunks_ok d (a + n) (grow ps a n)"
proof (cases "ps = []")
  case True
  have "\<exists>p \<in> set (grow ps a n). fst p \<le> x \<and> x < snd p" if "x < a + n" "d x" for x
    using assms(1) that True by (cases "x < a") (auto simp: chunks_ok_def grow_def)
  then show ?thesis using assms True by (auto simp: chunks_ok_def grow_def)
next
  case False
  then obtain qs i j where ps: "ps = qs @ [(i, j)]" by (metis rev_exhaust surj_pair)
  have q: "i < j" "j \<le> a" "d i" "\<forall>q \<in> set qs. fst q < snd q \<and> snd q \<le> a \<and> d (fst q)" "\<forall>q \<in> set qs. snd q + 15 \<le> i"
    "sorted_wrt (\<lambda>p q. snd p + 15 \<le> fst q) qs"
    using assms(1) by (auto simp: chunks_ok_def ps sorted_wrt_append)
  have cov: "\<exists>p \<in> set ps. fst p \<le> x \<and> x < snd p" if "x < a" "d x" for x
    using assms(1) that by (simp add: chunks_ok_def)
  show ?thesis
  proof (cases "a - j < 15")
    case True
    then have g: "grow ps a n = qs @ [(i, a + n)]" by (simp add: grow_def ps)
    have "\<exists>p \<in> set (grow ps a n). fst p \<le> x \<and> x < snd p" if "x < a + n" "d x" for x
      using cov [of x, unfolded ps] that q(1,2) unfolding g by (cases "x < a") auto
    then show ?thesis unfolding chunks_ok_def using q assms(3) by (auto simp: g sorted_wrt_append)
  next
    case False
    then have g: "grow ps a n = ps @ [(a, a + n)]" by (simp add: grow_def ps)
    have "\<exists>p \<in> set (grow ps a n). fst p \<le> x \<and> x < snd p" if "x < a + n" "d x" for x
      using cov [of x] that by (cases "x < a") (auto simp: g)
    moreover have "\<forall>p \<in> set ps. snd p + 15 \<le> a" using False q(1,2,5) by (fastforce simp: ps)
    ultimately show ?thesis unfolding chunks_ok_def using assms by (auto simp: g sorted_wrt_append chunks_ok_def)
  qed
qed

lemma GrowResultChunk_eq:
  assumes b: "bytes_ok b" and ps: "chunks_ok d a ps" and n: "0 < n" "a + n \<le> length (mb_values b)"
  shows "GrowResultChunk b (at_offset b a) (of_nat n) (chunk_state b ps) = ret (chunk_state b (grow ps a n))"
proof (cases "ps = []")
  case True
  then show ?thesis
    using data_at_offset(1) [OF b n(2)] block_ok(1) [OF b, of a "a + n"] n
    by (simp add: GrowResultChunk_def chunk_state_def grow_def offset_start Let_def)
next
  case False
  then obtain qs i j where p: "ps = qs @ [(i, j)]" by (metis rev_exhaust surj_pair)
  have q: "i < j" "j \<le> a" using ps by (auto simp: chunks_ok_def p)
  have le: "i \<le> length (mb_values b)" "j \<le> length (mb_values b)" "a \<le> length (mb_values b)" using q n by simp_all
  have lim: "mb_limit (block b (i, j)) = at_offset b j" by (rule block_ok(3) [OF b q(1) le(2)])
  have st: "chunk_state b ps = (Some (block b (i, j)), map (block b) qs)" by (simp add: chunk_state_def p)
  consider "j = a" | "j < a" "a - j < 15" | "15 \<le> a - j" using q(2) by linarith
  then show ?thesis
  proof cases
    case 1
    then show ?thesis
      using data_at_offset(2) [OF b n(2)] block_append [OF b q(1), of "a + n"] q n
      by (simp add: GrowResultChunk_def st lim [unfolded 1] offset_start Let_def grow_def p chunk_state_def)
  next
    case 2
    have lt: "at_offset b j < at_offset b a" "at_offset b j \<noteq> at_offset b a"
      using 2 le offset_less [OF b] offset_eq [OF b] by simp_all
    have gap: "at_offset b a - at_offset b j = of_nat (a - j)" using offset_diff [OF q(2)] .
    have small: "(of_nat (a - j) :: u64) < kMinSkipOverBytes"
      using 2 offset_small [OF b, of "a - j"] le by (simp add: kMinSkipOverBytes_def word_less_nat_alt)
    have len: "(of_nat (a - j) :: u64) + of_nat n = of_nat (a + n - j)" using 2 by (simp flip: of_nat_add)
    have "substr (mb_values b) (of_nat j) (of_nat (a + n - j)) = ret (take (a + n - j) (drop j (mb_values b)))"
      using data_at_offset(2) [OF b, of j "a + n - j"] 2 n by simp
    moreover have "append_bytes (take (a + n - j) (drop j (mb_values b))) (block b (i, j)) = ret (block b (i, a + n))"
      using block_append [OF b q(1), of "a + n"] 2 n by simp
    ultimately show ?thesis
      using 2 lt by (simp add: GrowResultChunk_def st lim offset_start gap small len Let_def grow_def p chunk_state_def
        del: of_nat_diff)
  next
    case 3
    have lt: "at_offset b j < at_offset b a" "at_offset b j \<noteq> at_offset b a"
      using 3 le offset_less [OF b] offset_eq [OF b] by simp_all
    have gap: "at_offset b a - at_offset b j = of_nat (a - j)" using offset_diff [OF q(2)] .
    have "unat (of_nat (a - j) :: u64) = a - j" using offset_small [OF b, of "a - j"] le by simp
    then have big: "\<not> (of_nat (a - j) :: u64) < kMinSkipOverBytes"
      using 3 by (simp add: kMinSkipOverBytes_def word_less_nat_alt)
    show ?thesis
      using 3 lt data_at_offset(1) [OF b n(2)] block_ok(1) [OF b, of a "a + n"] n
      by (simp add: GrowResultChunk_def st lim offset_start gap big Let_def grow_def p chunk_state_def
        butlast_append del: of_nat_diff)
  qed
qed

section \<open>The loop\<close>

definition differs :: "bytes_map \<Rightarrow> memory_bytes \<Rightarrow> nat \<Rightarrow> bool" where
  "differs m b x \<longleftrightarrow> byte_at m (at_offset b x) \<noteq> Some (mb_values b ! x)"

definition delta_inv :: "memory_bytes \<Rightarrow> bytes_map \<Rightarrow> nat \<Rightarrow> address \<times> nat \<times> memory_bytes option \<times> memory_bytes list \<Rightarrow> bool" where
  "delta_inv b m end_it = (\<lambda>(addr, it, out). \<exists>a ps. addr = at_offset b a \<and> a \<le> length (mb_values b) \<and>
     out = chunk_state b ps \<and> chunks_ok (differs m b) a ps \<and>
     it < length m \<and> addr < entry_limit (m ! it) \<and> (\<forall>j < it. entry_limit (m ! j) \<le> addr) \<and>
     (it < end_it \<or> mb_limit b \<le> entry_start (m ! it)))"

definition delta_result :: "memory_bytes \<Rightarrow> bytes_map \<Rightarrow> memory_bytes option \<times> memory_bytes list \<Rightarrow> bool" where
  "delta_result b m out \<longleftrightarrow> (\<exists>ps. out = chunk_state b ps \<and> chunks_ok (differs m b) (length (mb_values b)) ps)"

lemma entries_sorted:
  assumes "bytes_map_ok m" "i < j" "j < length m"
  shows "entry_limit (m ! i) \<le> entry_start (m ! j)"
  using bytes_ranges_ok [OF assms(1)] assms(2,3) sorted_wrt_nth_less [of "\<lambda>e f. entry_limit e \<le> entry_start f" m i j]
  by (simp add: ranges_ok_def)

lemma byte_at_iterator:
  assumes m: "bytes_map_ok m" and it: "it < length m" "k < entry_limit (m ! it)" "\<forall>j < it. entry_limit (m ! j) \<le> k"
  shows "byte_at m k = (if entry_start (m ! it) \<le> k then Some (snd (m ! it) ! unat (k - entry_start (m ! it))) else None)"
proof (cases "entry_start (m ! it) \<le> k")
  case True
  then show ?thesis using byte_at_entry [OF m nth_mem [OF it(1)] True it(2)] by simp
next
  case False
  have "byte_at m k = None"
    unfolding byte_at_def
  proof (rule lookup_None)
    fix f assume "f \<in> set m"
    then obtain j where j: "j < length m" "f = m ! j" by (auto simp: in_set_conv_nth)
    consider "j < it" | "j = it" | "it < j" by linarith
    then show "k < entry_start f \<or> entry_limit f \<le> k"
    proof cases
      case 3
      then show ?thesis using entries_sorted [OF m 3 j(1)] it(2) j(2) by auto
    qed (use it(3) j(2) False in auto)
  qed
  then show ?thesis using False by simp
qed

lemma byte_at_none:
  assumes m: "bytes_map_ok m" and low: "\<forall>j < n. entry_limit (m ! j) \<le> k" and high: "\<forall>j < length m. n \<le> j \<longrightarrow> k < entry_start (m ! j)"
  shows "byte_at m k = None"
  unfolding byte_at_def
proof (rule lookup_None)
  fix f assume "f \<in> set m"
  then obtain j where j: "j < length m" "f = m ! j" by (auto simp: in_set_conv_nth)
  then show "k < entry_start f \<or> entry_limit f \<le> k" using low high by (cases "j < n") auto
qed

lemma grow_step:
  assumes b: "bytes_ok b" and ps: "chunks_ok (differs m b) a ps" and a: "a < length (mb_values b)"
  obtains qs where "(if differs m b a then GrowResultChunk b (at_offset b a) 1 (chunk_state b ps) else ret (chunk_state b ps)) =
      ret (chunk_state b qs)" "chunks_ok (differs m b) (Suc a) qs"
proof (cases "differs m b a")
  case True
  have "GrowResultChunk b (at_offset b a) 1 (chunk_state b ps) = ret (chunk_state b (grow ps a 1))"
    using GrowResultChunk_eq [OF b ps, of 1] a by simp
  moreover have "chunks_ok (differs m b) (Suc a) (grow ps a 1)" using chunks_ok_grow [OF ps True, of 1] by simp
  ultimately show thesis using that True by simp
next
  case False
  with chunks_ok_skip [OF ps False] show thesis using that by simp
qed

lemma delta_bytes_round_returns:
  assumes b: "bytes_ok b" and m: "bytes_map_ok m" and inv: "delta_inv b m end_it (addr, it, out)"
    and tail: "\<forall>j < length m. end_it \<le> j \<longrightarrow> mb_limit b \<le> entry_start (m ! j)" and "end_it \<le> length m"
  shows "returns (\<lambda>x. case x of Break r \<Rightarrow> delta_result b m r
      | Continue s \<Rightarrow> delta_inv b m end_it s \<and> unat (mb_limit b) - unat (fst s) < unat (mb_limit b) - unat addr)
    (delta_bytes_round b m end_it (addr, it, out))"
proof -
  let ?n = "length (mb_values b)"
  obtain a ps where I: "addr = at_offset b a" "a \<le> ?n" "out = chunk_state b ps" "chunks_ok (differs m b) a ps"
    "it < length m" "addr < entry_limit (m ! it)" "\<forall>j < it. entry_limit (m ! j) \<le> addr"
    "it < end_it \<or> mb_limit b \<le> entry_start (m ! it)"
    using inv by (auto simp: delta_inv_def)
  note lim = offset_limit [OF b]
  show ?thesis
  proof (cases "addr < mb_limit b")
    case False
    then have "a = ?n" using I(2) offset_less [OF b I(2) order_refl] by (simp add: I(1) lim)
    then show ?thesis using False I(3,4) by (auto simp: delta_bytes_round_def delta_result_def)
  next
    case True
    then have a: "a < ?n" using offset_less [OF b I(2) order_refl] by (simp add: I(1) lim)
    let ?e = "m ! it"
    let ?old = "if entry_start ?e \<le> addr \<and> addr < entry_limit ?e then Some (snd ?e ! unat (addr - entry_start ?e)) else None"
    have new: "mb_values b ! unat (addr - mb_start b) = mb_values b ! a"
      using offset_small [OF b I(2)] by (simp add: I(1) offset_start)
    have old: "?old = byte_at m addr" using byte_at_iterator [OF m I(5-7)] I(6) by simp
    have d: "(?old = None \<or> ?old \<noteq> Some (mb_values b ! a)) = differs m b a"
      unfolding old by (auto simp: differs_def I(1))
    obtain qs where q: "(if differs m b a then GrowResultChunk b addr 1 out else ret out) = ret (chunk_state b qs)"
      "chunks_ok (differs m b) (Suc a) qs"
      using grow_step [OF b I(4) a] unfolding I(1,3) by blast
    let ?next = "at_offset b (Suc a)"
    have Suc: "addr + 1 = ?next" by (simp add: I(1) offset_start)
    have next_le: "?next \<le> mb_limit b" using a offset_le [OF b, of "Suc a" ?n] by (simp add: lim)
    have lt: "addr < ?next" using a offset_less [OF b, of a "Suc a"] by (simp add: I(1))
    have dec: "unat (mb_limit b) - unat ?next < unat (mb_limit b) - unat addr"
      using lt next_le by (simp add: word_less_nat_alt word_le_nat_alt)
    have run: "delta_bytes_round b m end_it (addr, it, out) =
       (if entry_limit ?e \<le> ?next
        then rbind (check (?next = entry_limit ?e) ''addr == it.limit()'') (\<lambda>_.
             if it + 1 = end_it
             then let tail_size = data_size (mb_values b) - (?next - mb_start b) in
                  rbind (if tail_size \<noteq> 0 then GrowResultChunk b ?next tail_size (chunk_state b qs) else ret (chunk_state b qs)) (\<lambda>out.
                  ret (Break out))
             else ret (Continue (?next, it + 1, chunk_state b qs)))
        else ret (Continue (?next, it, chunk_state b qs)))"
      using True I(5) unfolding delta_bytes_round_def deref_def
      by (simp only: prod.case if_True not_not Let_def simp_thms rbind_simps new d q Suc if_False)
    have step_inv: "delta_inv b m end_it (?next, it', chunk_state b qs)"
      if "it' < length m" "?next < entry_limit (m ! it')" "\<forall>j < it'. entry_limit (m ! j) \<le> ?next"
        "it' < end_it \<or> mb_limit b \<le> entry_start (m ! it')" for it'
      unfolding delta_inv_def prod.case using a q(2) that by (intro exI [of _ "Suc a"] exI [of _ qs]) simp
    show ?thesis
    proof (cases "entry_limit ?e \<le> ?next")
      case False
      have "\<forall>j < it. entry_limit (m ! j) \<le> ?next" using I(7) lt by (meson less_imp_le order_trans)
      then show ?thesis using step_inv [OF I(5)] I(8) dec False by (simp add: run)
    next
      case end_e: True
      have "unat addr < unat (entry_limit ?e)" "unat (entry_limit ?e) \<le> unat ?next" "unat ?next = unat addr + 1"
        using I(6) end_e a unat_at_offset [OF b, of a] unat_at_offset [OF b, of "Suc a"]
        by (simp_all add: word_less_nat_alt word_le_nat_alt I(1))
      then have eq: "?next = entry_limit ?e" by (simp add: word_unat_eq_iff)
      have pos: "entry_start ?e < entry_limit ?e" using bytes_entry(1) [OF m nth_mem [OF I(5)]] .
      have it: "it < end_it" using I(8) next_le pos eq by (auto simp: not_le [symmetric])
      have low: "\<forall>j < Suc it. entry_limit (m ! j) \<le> ?next"
        using I(7) lt eq by (auto simp: less_Suc_eq intro: order_trans less_imp_le)
      show ?thesis
      proof (cases "it + 1 = end_it")
        case False
        then have next_it: "Suc it < end_it" "Suc it < length m" using it assms(5) by simp_all
        have "entry_limit ?e \<le> entry_start (m ! Suc it)" by (rule entries_sorted [OF m _ next_it(2)]) simp
        then have "?next < entry_limit (m ! Suc it)"
          using bytes_entry(1) [OF m nth_mem [OF next_it(2)]] unfolding eq by order
        then show ?thesis using step_inv [OF next_it(2)] low next_it(1) dec end_e eq False by (simp add: run)
      next
        case last: True
        let ?k = "?n - Suc a"
        have size: "data_size (mb_values b) - (?next - mb_start b) = of_nat ?k"
          using a by (simp add: data_size_def offset_start of_nat_diff)
        have zero: "(of_nat ?k :: u64) \<noteq> 0 \<longleftrightarrow> ?k \<noteq> 0"
          using offset_small [OF b, of ?k] by (simp add: word_unat_eq_iff)
        show ?thesis
        proof (cases "?k = 0")
          case True
          then have "Suc a = ?n" using a by simp
          then have "delta_result b m (chunk_state b qs)" using q(2) by (auto simp: delta_result_def)
          then show ?thesis using end_e eq last True unfolding run size Let_def zero by simp
        next
          case False
          then have less: "Suc a < ?n" by simp
          have "?next < mb_limit b" using less offset_less [OF b, of "Suc a" ?n] by (simp add: lim)
          then have "byte_at m ?next = None"
            using tail last by (intro byte_at_none [OF m low]) (auto intro: less_le_trans)
          then have "differs m b (Suc a)" by (simp add: differs_def)
          have "Suc a + ?k = ?n" using less by simp
          then have "delta_result b m (chunk_state b (grow qs (Suc a) ?k))"
            using chunks_ok_grow [OF q(2) \<open>differs m b (Suc a)\<close>, of ?k] less unfolding delta_result_def by auto
          moreover have "GrowResultChunk b ?next (of_nat ?k) (chunk_state b qs) = ret (chunk_state b (grow qs (Suc a) ?k))"
            using less by (intro GrowResultChunk_eq [OF b q(2)]) simp_all
          ultimately show ?thesis using end_e eq last False unfolding run size Let_def zero by simp
        qed
      qed
    qed
  qed
qed

section \<open>DeltaMemoryBytes\<close>

lemma block_all: "block b (0, length (mb_values b)) = b"
  by (cases b) (simp add: block_def at_offset_def)

lemma all_unknown:
  assumes "bytes_ok b" "byte_at m (mb_start b) = None"
  shows "chunks_ok (differs m b) (length (mb_values b)) [(0, length (mb_values b))]"
  using assms by (auto simp: chunks_ok_def differs_def at_offset_def bytes_ok_def)

lemma DeltaMemoryBytes_returns:
  assumes b: "bytes_ok b" and m: "bytes_map_ok (ms_written_memory_bytes st)"
  shows "returns (\<lambda>xs. \<exists>ps. xs = map (block b) ps \<and>
      chunks_ok (differs (ms_written_memory_bytes st) b) (length (mb_values b)) ps) (DeltaMemoryBytes b st)"
proof -
  let ?m = "ms_written_memory_bytes st" and ?n = "length (mb_values b)"
  have whole: "returns (\<lambda>xs. \<exists>ps. xs = map (block b) ps \<and> chunks_ok (differs ?m b) ?n ps) (ret [b])"
    if "byte_at ?m (mb_start b) = None"
    unfolding returns_ret by (rule exI [of _ "[(0, ?n)]"]) (simp add: block_all all_unknown [OF b that])
  show ?thesis
  proof (cases "?m = []")
    case True
    then show ?thesis using whole by (simp add: DeltaMemoryBytes_def byte_at_def)
  next
    case ne: False
    note lt = bytes_ok_limit(1) [OF b]
    obtain pre mid suf where s: "?m = pre @ mid @ suf" "range_split (mb_start b) (mb_limit b) pre mid suf"
      using range_split_exists [OF bytes_ranges_ok [OF m] lt] by blast
    have f: "Find ?m (mb_start b) (mb_limit b) = ret (length pre, length pre + length mid)"
      using Find_eq [of _ pre mid suf, OF _ s(2) lt] bytes_ranges_ok [OF m] s(1) by simp
    have low: "entry_limit (?m ! j) \<le> mb_start b" if "j < length pre" for j
      using s that by (simp add: nth_append range_split_def)
    show ?thesis
    proof (cases "length pre = length ?m")
      case True
      then have "byte_at ?m (mb_start b) = None" using low by (intro byte_at_none [OF m, of "length pre"]) auto
      then show ?thesis using whole ne f True by (simp add: DeltaMemoryBytes_def Let_def)
    next
      case False
      then have it: "length pre < length ?m" using s(1) by simp
      let ?e = "?m ! length pre" and ?stop = "length pre + length mid"
      have pos: "entry_start ?e < entry_limit ?e" using bytes_entry(1) [OF m nth_mem [OF it]] .
      have tail: "\<forall>j < length ?m. ?stop \<le> j \<longrightarrow> mb_limit b \<le> entry_start (?m ! j)"
        using s by (auto simp: nth_append range_split_def)
      have first: "mb_start b < entry_limit ?e \<and> (length pre < ?stop \<or> mb_limit b \<le> entry_start ?e)"
      proof (cases mid)
        case Nil
        then have "mb_limit b \<le> entry_start ?e" using tail it by simp
        then show ?thesis using lt pos by (auto intro: less_le_trans less_trans)
      next
        case (Cons e es)
        then show ?thesis using s by (simp add: nth_append range_split_def)
      qed
      have "delta_inv b ?m ?stop (mb_start b, length pre, None, [])"
        unfolding delta_inv_def prod.case
        by (intro exI [of _ 0] exI [of _ "[]"]) (use it first low in \<open>simp add: at_offset_def chunk_state_def chunks_ok_def\<close>)
      then have "returns (delta_result b ?m) (rloop (delta_bytes_round b ?m ?stop) (mb_start b, length pre, None, []))"
      proof (rule rloop_returns [where I = "delta_inv b ?m ?stop" and m = "\<lambda>s. unat (mb_limit b) - unat (fst s)", rotated])
        fix x assume "delta_inv b ?m ?stop x"
        then show "returns (\<lambda>y. case y of Break r \<Rightarrow> delta_result b ?m r
            | Continue s' \<Rightarrow> delta_inv b ?m ?stop s' \<and> unat (mb_limit b) - unat (fst s') < unat (mb_limit b) - unat (fst x))
            (delta_bytes_round b ?m ?stop x)"
        proof -
          obtain addr it out where x: "x = (addr, it, out)" by (cases x) auto
          have "?stop \<le> length ?m" using s(1) by simp
          then show ?thesis using delta_bytes_round_returns [OF b m _ tail] \<open>delta_inv b ?m ?stop x\<close> unfolding x fst_conv by blast
        qed
      qed
      then have "returns (\<lambda>xs. \<exists>ps. xs = map (block b) ps \<and> chunks_ok (differs ?m b) ?n ps)
          (rbind (rloop (delta_bytes_round b ?m ?stop) (mb_start b, length pre, None, [])) (\<lambda>(chunk, result).
             ret (case chunk of None \<Rightarrow> result | Some c \<Rightarrow> result @ [c])))"
      proof (rule returns_rbind)
        fix out assume "delta_result b ?m out"
        then obtain ps where ps: "out = chunk_state b ps" "chunks_ok (differs ?m b) ?n ps" by (auto simp: delta_result_def)
        have "(case fst (chunk_state b ps) of None \<Rightarrow> snd (chunk_state b ps) | Some c \<Rightarrow> snd (chunk_state b ps) @ [c]) = map (block b) ps"
          by (cases ps rule: rev_cases) (simp_all add: chunk_state_def)
        then show "returns (\<lambda>xs. \<exists>ps. xs = map (block b) ps \<and> chunks_ok (differs ?m b) ?n ps)
            (case out of (chunk, result) \<Rightarrow> ret (case chunk of None \<Rightarrow> result | Some c \<Rightarrow> result @ [c]))"
          using ps by (auto simp: case_prod_unfold)
      qed
      then show ?thesis using ne f False by (simp add: DeltaMemoryBytes_def Let_def)
    qed
  qed
qed

text \<open>Setting the chunks has the effect of setting all the bytes.\<close>

lemma put_chunks:
  assumes b: "bytes_ok b" and x: "x < length (mb_values b)"
    and ps: "\<forall>p \<in> set ps. fst p < snd p \<and> snd p \<le> length (mb_values b)"
  shows "put_bytes (map (block b) ps) g (at_offset b x) =
      (if \<exists>p \<in> set ps. fst p \<le> x \<and> x < snd p then Some (mb_values b ! x) else g (at_offset b x))"
  using ps
proof (induction ps arbitrary: g)
  case (Cons p ps)
  have p: "fst p < snd p" "snd p \<le> length (mb_values b)" using Cons.prems by simp_all
  have "(g ++ bytes_at (block b p)) (at_offset b x) = (if fst p \<le> x \<and> x < snd p then Some (mb_values b ! x) else g (at_offset b x))"
    using p x block_value [OF b, of "fst p" x "snd p"] block_ok(4) [OF b p]
    by (auto simp: map_add_def bytes_at_out offset_less [OF b] offset_le [OF b])
  then show ?case using Cons by auto
qed simp

lemma chunks_in_range:
  assumes b: "bytes_ok b" and ps: "chunks_ok d (length (mb_values b)) ps" and p: "p \<in> set ps"
  shows "bytes_ok (block b p)" "bytes_range (block b p) = {at_offset b (fst p)..<at_offset b (snd p)}"
    "bytes_range (block b p) \<subseteq> bytes_range b"
proof -
  have q: "fst p < snd p" "snd p \<le> length (mb_values b)" using ps p by (auto simp: chunks_ok_def)
  show "bytes_ok (block b p)" and range: "bytes_range (block b p) = {at_offset b (fst p)..<at_offset b (snd p)}"
    using block_ok(2,4) [OF b q] by simp_all
  have "at_offset b 0 \<le> at_offset b (fst p)" "at_offset b (snd p) \<le> mb_limit b"
    using q offset_le [OF b] by (simp_all add: offset_limit [OF b])
  then show "bytes_range (block b p) \<subseteq> bytes_range b"
    unfolding range unfolding bytes_range_def by (auto simp: offset_start intro: order_trans less_le_trans)
qed

lemma set_chunks_returns:
  assumes st: "has_state f A g st" and b: "bytes_ok b" "bytes_range b \<subseteq> dom f"
    and ps: "chunks_ok (\<lambda>x. g (at_offset b x) \<noteq> Some (mb_values b ! x)) (length (mb_values b)) ps"
  shows "returns (has_state f (A \<union> bytes_range b) (g ++ bytes_at b)) (SetMemoryBytes_list (map (block b) ps) st)"
proof -
  let ?xs = "map (block b) ps"
  note q = chunks_in_range [OF b(1) ps]
  have "\<forall>x \<in> set ?xs. bytes_ok x \<and> bytes_range x \<subseteq> dom f" using q(1) order_trans [OF q(3) b(2)] by auto
  from SetMemoryBytes_list_returns [OF st this] show ?thesis
  proof (rule returns_mono, elim has_state_cong)
    have same: "x < length (mb_values b) \<Longrightarrow> \<not> (\<exists>p \<in> set ps. fst p \<le> x \<and> x < snd p) \<Longrightarrow> g (at_offset b x) = Some (mb_values b ! x)" for x
      using ps by (auto simp: chunks_ok_def)
    have cover: "k \<in> A \<union> \<Union> (bytes_range ` set ?xs)" if k: "k \<in> bytes_range b" for k
    proof -
      obtain x where x: "x < length (mb_values b)" "k = at_offset b x"
        using k offset_of [OF b(1), of k] by (auto simp: bytes_range_def)
      show ?thesis
      proof (cases "\<exists>p \<in> set ps. fst p \<le> x \<and> x < snd p")
        case True
        then obtain p where p: "p \<in> set ps" "fst p \<le> x" "x < snd p" by blast
        then have "snd p \<le> length (mb_values b)" using ps by (auto simp: chunks_ok_def)
        then have "k \<in> bytes_range (block b p)"
          using p x by (simp add: q(2) offset_le [OF b(1)] offset_less [OF b(1)])
        then show ?thesis using p(1) by auto
      next
        case False
        then have "k \<in> dom g" using same [OF x(1)] x(2) by blast
        then show ?thesis using state_written(2) [OF st] by blast
      qed
    qed
    then show "A \<union> \<Union> (bytes_range ` set ?xs) = A \<union> bytes_range b" using q(3) by fastforce
    show "put_bytes ?xs g = g ++ bytes_at b"
    proof
      fix k
      show "put_bytes ?xs g k = (g ++ bytes_at b) k"
      proof (cases "k \<in> bytes_range b")
        case True
        then obtain x where x: "x < length (mb_values b)" "k = at_offset b x"
          using offset_of [OF b(1), of k] by (auto simp: bytes_range_def)
        have "\<forall>p \<in> set ps. fst p < snd p \<and> snd p \<le> length (mb_values b)" using ps by (simp add: chunks_ok_def)
        then show ?thesis
          using put_chunks [OF b(1) x(1)] same [OF x(1)] offset_value [OF b(1) x(1)] by (simp add: x(2) map_add_def)
      next
        case False
        have "put_bytes zs h k = h k" if "\<forall>z \<in> set zs. k \<notin> bytes_range z" for zs h
          using that by (induction zs arbitrary: h) (simp_all add: map_add_def bytes_at_out)
        moreover have "k \<notin> bytes_range z" if "z \<in> set ?xs" for z
          using that q(3) False unfolding set_map by (elim imageE) blast
        ultimately have "put_bytes ?xs g k = g k" by blast
        then show ?thesis using False by (simp add: map_add_def bytes_at_out)
      qed
    qed
  qed auto
qed

section \<open>Properties\<close>

text \<open>C19: setting the chunks of \<open>DeltaMemoryBytes\<close> gives exactly the state of setting all the bytes. Each
  chunk lies inside the bytes and begins with one that changes, and two chunks are at least
  \<open>kMinSkipOverBytes\<close> apart; in particular nothing is written when nothing changes.\<close>

theorem delta_bytes_equivalent:
  assumes "state_ok st" "bytes_ok b" "bytes_range b \<subseteq> dom (perms_at (ms_mapped_memory_map st))"
  shows "returns (\<lambda>xs. SetMemoryBytes_list xs st = SetMemoryBytes b st \<and>
      (\<forall>x \<in> set xs. bytes_ok x \<and> bytes_range x \<subseteq> bytes_range b \<and>
         byte_at (ms_written_memory_bytes st) (mb_start x) \<noteq> bytes_at b (mb_start x)) \<and>
      sorted_wrt (\<lambda>x y. unat (mb_limit x) + unat kMinSkipOverBytes \<le> unat (mb_start y)) xs)
    (DeltaMemoryBytes b st)"
proof -
  let ?m = "ms_written_memory_bytes st" and ?n = "length (mb_values b)"
  have m: "bytes_map_ok ?m" using assms(1) by (simp add: state_ok_def)
  note st = has_state_self [OF assms(1)]
  show ?thesis
  proof (rule returns_mono [OF DeltaMemoryBytes_returns [OF assms(2) m]], elim exE conjE, intro conjI ballI)
    fix xs ps
    assume xs: "xs = map (block b) ps" and ps: "chunks_ok (differs ?m b) ?n ps"
    have "returns (has_state (perms_at (ms_mapped_memory_map st)) (addresses (ms_written_memory_set st) \<union> bytes_range b)
        (byte_at ?m ++ bytes_at b)) (SetMemoryBytes_list xs st)"
      unfolding xs using ps by (intro set_chunks_returns [OF st assms(2,3)]) (simp add: differs_def [abs_def])
    then show "SetMemoryBytes_list xs st = SetMemoryBytes b st"
      by (rule has_state_ret_eq) (rule SetMemoryBytes_returns [OF st assms(2,3)])
    have q: "fst p < snd p" "snd p \<le> ?n" "differs ?m b (fst p)" if "p \<in> set ps" for p
      using ps that by (auto simp: chunks_ok_def)
    show "bytes_ok x" "bytes_range x \<subseteq> bytes_range b" "byte_at ?m (mb_start x) \<noteq> bytes_at b (mb_start x)" if x: "x \<in> set xs" for x
    proof -
      obtain p where "x = block b p" "p \<in> set ps" using x unfolding xs set_map by (elim imageE)
      then have p: "p \<in> set ps" "x = block b p" by simp_all
      show "bytes_ok x" "bytes_range x \<subseteq> bytes_range b" using chunks_in_range [OF assms(2) ps p(1)] p(2) by simp_all
      have "mb_start x = at_offset b (fst p)" by (simp add: p(2) block_def)
      moreover have "fst p < ?n" using q(1,2) [OF p(1)] by simp
      ultimately show "byte_at ?m (mb_start x) \<noteq> bytes_at b (mb_start x)"
        using q(3) [OF p(1)] offset_value [OF assms(2)] by (simp add: differs_def)
    qed
    have "sorted_wrt (\<lambda>p q. snd p + 15 \<le> fst q) ps" using ps by (simp add: chunks_ok_def)
    then have "sorted_wrt (\<lambda>p q. unat (mb_limit (block b p)) + 15 \<le> unat (mb_start (block b q))) ps"
    proof (rule sorted_wrt_mono_rel [rotated])
      fix p r assume pr: "p \<in> set ps" "r \<in> set ps" "snd p + 15 \<le> fst r"
      have "mb_limit (block b p) = at_offset b (snd p)" using block_ok(3) [OF assms(2) q(1,2) [OF pr(1)]] by simp
      moreover have "mb_start (block b r) = at_offset b (fst r)" by (simp add: block_def)
      ultimately show "unat (mb_limit (block b p)) + 15 \<le> unat (mb_start (block b r))"
        using pr q(1,2) [OF pr(1)] q(1,2) [OF pr(2)] by (simp add: unat_at_offset [OF assms(2)])
    qed
    then show "sorted_wrt (\<lambda>x y. unat (mb_limit x) + unat kMinSkipOverBytes \<le> unat (mb_start y)) xs"
      by (simp add: xs sorted_wrt_map kMinSkipOverBytes_def)
  qed
qed

theorem delta_bytes_equivalent_witness:
  "returns (\<lambda>xs. SetMemoryBytes_list xs three_bytes = SetMemoryBytes (code_bytes\<lparr>mb_values := [1, 9, 3, 4]\<rparr>) three_bytes)
     (DeltaMemoryBytes (code_bytes\<lparr>mb_values := [1, 9, 3, 4]\<rparr>) three_bytes)"
proof -
  let ?b = "code_bytes\<lparr>mb_values := [1, 9, 3, 4]\<rparr>"
  have b: "bytes_ok ?b" by (simp add: bytes_ok_def code_bytes_def)
  have "bytes_range ?b = {0x1000..<0x1004}" by (simp add: bytes_range_def mb_limit_def mb_num_bytes_def data_size_def code_bytes_def)
  moreover have "k < 0x2000" if "k < (0x1004 :: address)" for k using that by (rule less_trans) simp
  ultimately have "bytes_range ?b \<subseteq> dom (perms_at (ms_mapped_memory_map three_bytes))"
    by (auto simp: three_bytes_def perms_at_def)
  from delta_bytes_equivalent [OF three_bytes_ok b this] show ?thesis by (rule returns_mono) blast
qed

end
