(* ===== verification/Snapshot_Properties.thy ===== *)
theory Snapshot_Properties
  imports Bytes_Delta
begin

text \<open>
  The properties of \<open>Snapshot\<close>: when mappings, negative mappings and bytes are accepted and that adding them
  keeps the invariant, the negative mappings made for a signal, the platforms of an end state, the number of
  pages and whether all the mapped memory is defined.
\<close>

section \<open>Statuses\<close>

lemma reject_if_cases: "reject_if c msg rest = (if c then ret (InvalidArgument msg) else rest)"
  by (simp add: reject_if_def)

lemma dcheck_fails: "m = ret s \<Longrightarrow> s \<noteq> OkStatus \<Longrightarrow> \<exists>e. dcheck_res m = abort e"
  by (cases s) (auto simp: dcheck_res_def dcheck_status_def check_def)

lemma can_add_total:
  assumes "snapshot_ok s" "mapping_ok x"
  obtains st where "can_add_memory_mapping x s = ret st"
    "st = OkStatus \<longleftrightarrow> \<not> MemoryPerms_IsEmpty (mm_perms x) \<and> page_aligned (mm_start x) \<and> page_aligned (mm_limit x) \<and>
       (\<forall>k \<in> mapping_range x. mappings_at (snap_memory_mappings s) k = None) \<and> \<not> conflicts x (snap_negative_memory_mappings s)"
  using can_add_memory_mapping_returns [OF assms] by (rule returnsE)

section \<open>Platforms\<close>

lemma set_platforms_loop:
  assumes "\<forall>p \<in> set ps. p < kMaxPlatformId" "length (es_platforms e) = kMaxPlatformId + 1"
  shows "returns (\<lambda>e'. length (es_platforms e') = kMaxPlatformId + 1 \<and>
      (\<forall>i \<le> kMaxPlatformId. es_platforms e' ! i \<longleftrightarrow> es_platforms e ! i \<or> i \<in> set ps) \<and>
      (\<exists>v. e' = e\<lparr>es_platforms := v\<rparr>)) (for_each set_one_platform ps e)"
  using assms
proof (induction ps arbitrary: e)
  case Nil
  show ?case using Nil.prems by (auto intro!: exI [of _ "es_platforms e"])
next
  case (Cons p ps)
  let ?e = "e\<lparr>es_platforms := (es_platforms e)[p := True]\<rparr>"
  have p: "p < kMaxPlatformId" "set_one_platform p e = ret ?e" using Cons.prems(1) by (simp_all add: set_one_platform_def)
  have "returns (\<lambda>e'. length (es_platforms e') = kMaxPlatformId + 1 \<and>
      (\<forall>i \<le> kMaxPlatformId. es_platforms e' ! i \<longleftrightarrow> es_platforms ?e ! i \<or> i \<in> set ps) \<and>
      (\<exists>v. e' = ?e\<lparr>es_platforms := v\<rparr>)) (for_each set_one_platform ps ?e)"
    using Cons.prems by (intro Cons.IH) simp_all
  then show ?case
    unfolding for_each.simps p(2) rbind_simps
    by (rule returns_mono) (use p(1) Cons.prems(2) in \<open>auto simp: nth_list_update\<close>)
qed

section \<open>The number of pages\<close>

lemma unat_scast_small:
  assumes "unat (r :: u32) < 2 ^ 31"
  shows "unat (scast r :: u64) = unat r"
proof -
  have "int (unat r) < int (2 ^ 31)" using assms by (simp only: of_nat_less_iff)
  then have u: "uint r < 2 ^ 31" by (simp only: uint_nat of_nat_power of_nat_numeral)
  have "sint r = signed_take_bit 31 (uint r)" by (simp only: sint_uint) simp
  also have "\<dots> = uint r"
    by (rule signed_take_bit_int_eq_self [OF _ u]) (rule order_trans [OF _ uint_ge_0], simp)
  finally have "(scast r :: u64) = of_nat (unat r)" by (simp only: scast_eq uint_nat of_int_of_nat_eq)
  moreover have "unat r < 2 ^ 64" using assms by (rule less_trans) simp
  ultimately show ?thesis by (simp only: unat_of_nat_ok)
qed

lemma num_pages_loop_exact:
  assumes "unat r + (\<Sum>m \<leftarrow> ms. unat (mm_num_bytes m)) < 2 ^ 31"
  shows "unat (num_pages_loop ms r) = unat r + (\<Sum>m \<leftarrow> ms. unat (mm_num_bytes m))"
  using assms
proof (induction ms arbitrary: r)
  case (Cons m ms)
  have lt: "unat r < 2 ^ 31" "unat r + unat (mm_num_bytes m) < 2 ^ 31" using Cons.prems by simp_all
  have "unat (scast r + mm_num_bytes m :: u64) = unat r + unat (mm_num_bytes m)"
    using lt unat_scast_small [OF lt(1)] by (subst unat_add_lem [THEN iffD1]) simp_all
  then have "unat (ucast (scast r + mm_num_bytes m :: u64) :: u32) = unat r + unat (mm_num_bytes m)"
    using lt(2) by (simp add: unsigned_ucast_eq take_bit_nat_eq_self)
  then show ?case using Cons.IH [of "ucast (scast r + mm_num_bytes m :: u64)"] Cons.prems by simp
qed simp

section \<open>Properties\<close>

text \<open>A mapping is accepted exactly when it has permissions, is page-aligned, overlaps no other mapping
  and has no permission that a negative mapping forbids at some of its addresses. Adding it then keeps the
  invariant and changes nothing else; adding it otherwise fails the check.\<close>

theorem snapshot_add_mapping:
  assumes "snapshot_ok s" "mapping_ok x"
  defines "ok \<equiv> \<not> MemoryPerms_IsEmpty (mm_perms x) \<and> page_aligned (mm_start x) \<and> page_aligned (mm_limit x) \<and>
      (\<forall>k \<in> mapping_range x. mappings_at (snap_memory_mappings s) k = None) \<and> \<not> conflicts x (snap_negative_memory_mappings s)"
  shows "if ok
    then can_add_memory_mapping x s = ret OkStatus \<and>
      returns (\<lambda>s'. snapshot_ok s' \<and> (\<exists>m. s' = s\<lparr>snap_mapped_memory_map := m,
        snap_memory_mappings := snap_memory_mappings s @ [x]\<rparr>)) (add_memory_mapping x s)
    else (\<exists>st. can_add_memory_mapping x s = ret st \<and> st \<noteq> OkStatus) \<and> (\<exists>e. add_memory_mapping x s = abort e)"
proof -
  obtain st where st: "can_add_memory_mapping x s = ret st" "st = OkStatus \<longleftrightarrow> ok"
    using can_add_total [OF assms(1,2)] unfolding ok_def by blast
  show ?thesis
  proof (cases ok)
    case True
    then have "can_add_memory_mapping x s = ret OkStatus" using st by simp
    with add_memory_mapping_returns [OF assms(1,2) this] True show ?thesis by simp
  next
    case False
    then have "st \<noteq> OkStatus" using st(2) by simp
    then obtain e where "dcheck_res (can_add_memory_mapping x s) = abort e" using dcheck_fails [OF st(1)] by blast
    then have "add_memory_mapping x s = abort e" by (simp add: add_memory_mapping_def)
    with False st(1) \<open>st \<noteq> OkStatus\<close> show ?thesis by auto
  qed
qed

theorem snapshot_add_mapping_witness:
  "\<exists>e. add_memory_mapping (code_mapping\<lparr>mm_start := 0x1800\<rparr>) sample_snapshot = abort e"
proof -
  let ?x = "code_mapping\<lparr>mm_start := 0x1800\<rparr>"
  have "mapping_ok ?x"
    by (simp add: mapping_ok_def HasPermission_iff CanMakeSized_def kMaxAddress_def code_mapping_def sample_perms)
  moreover have "\<not> page_aligned (mm_start ?x)" by (simp add: page_aligned_def)
  ultimately show ?thesis using snapshot_add_mapping [OF sample_snapshot_ok, of ?x] by simp
qed

text \<open>Memory bytes are accepted exactly when they lie inside the mappings and apart from the other bytes,
  with the error of the condition that fails first; adding them keeps the invariant.\<close>

theorem snapshot_add_bytes:
  assumes "snapshot_ok s" "bytes_ok b"
  defines "inside \<equiv> bytes_range b \<subseteq> mapped_addresses (snap_memory_mappings s)"
    and "apart \<equiv> \<forall>c \<in> set (snap_memory_bytes s). bytes_range c \<inter> bytes_range b = {}"
  shows "can_add_memory_bytes b s = ret
      (if \<not> inside then InvalidArgument ''Not fully contained in existing memory_mappings''
       else if \<not> apart then InvalidArgument ''Overlaps with existing memory_bytes'' else OkStatus) \<and>
    (if inside \<and> apart
     then returns (\<lambda>s'. snapshot_ok s' \<and> (\<exists>w. s' = s\<lparr>snap_written_memory_set := w,
        snap_memory_bytes := snap_memory_bytes s @ [b]\<rparr>)) (add_memory_bytes b s)
     else \<exists>e. add_memory_bytes b s = abort e)"
proof -
  have can: "can_add_memory_bytes b s = ret
      (if \<not> inside then InvalidArgument ''Not fully contained in existing memory_mappings''
       else if \<not> apart then InvalidArgument ''Overlaps with existing memory_bytes'' else OkStatus)"
    unfolding can_add_memory_bytes_eq [OF assms(1,2)] inside_def apart_def by (auto split: if_splits)
  show ?thesis
  proof (cases "inside \<and> apart")
    case True
    then have "can_add_memory_bytes b s = ret OkStatus" using can by simp
    with add_memory_bytes_returns [OF assms(1,2) this] True show ?thesis by simp
  next
    case False
    then have "(if \<not> inside then InvalidArgument ''Not fully contained in existing memory_mappings''
       else if \<not> apart then InvalidArgument ''Overlaps with existing memory_bytes'' else OkStatus) \<noteq> OkStatus" by auto
    then obtain e where "dcheck_res (can_add_memory_bytes b s) = abort e" using dcheck_fails [OF can] by blast
    then have "add_memory_bytes b s = abort e" by (simp add: add_memory_bytes_def)
    with can False show ?thesis by auto
  qed
qed

theorem snapshot_add_bytes_witness:
  "can_add_memory_bytes code_bytes sample_snapshot = ret (InvalidArgument ''Overlaps with existing memory_bytes'')"
proof -
  have b: "bytes_ok code_bytes" using snapshot_bytes(1) [OF sample_snapshot_ok] by (simp add: sample_snapshot_def)
  have "bytes_range code_bytes \<subseteq> mapped_addresses (snap_memory_mappings sample_snapshot)"
    using snapshot_bytes(1) [OF sample_snapshot_ok] by (simp add: sample_snapshot_def)
  moreover have "\<not> (\<forall>c \<in> set (snap_memory_bytes sample_snapshot). bytes_range c \<inter> bytes_range code_bytes = {})"
    by (simp add: sample_snapshot_def sample_mappings)
  ultimately show ?thesis
    using snapshot_add_bytes [OF sample_snapshot_ok b] by (simp only: simp_thms if_False if_True)
qed

text \<open>Setting platforms and reading them back gives the distinct platforms in increasing order, and
  replaces those that were there; an id that is not below the largest one fails the check.\<close>

theorem end_state_platforms:
  "if \<forall>p \<in> set ps. p < kMaxPlatformId
   then returns (\<lambda>e'. EndState_platforms e' = sorted_list_of_set (set ps) \<and> (\<exists>v. e' = e\<lparr>es_platforms := v\<rparr>))
     (EndState_set_platforms ps e)
   else \<exists>msg. EndState_set_platforms ps e = abort (Check_failed msg)"
proof (cases "\<forall>p \<in> set ps. p < kMaxPlatformId")
  case True
  let ?e = "e\<lparr>es_platforms := replicate (kMaxPlatformId + 1) False\<rparr>"
  have "returns (\<lambda>e'. length (es_platforms e') = kMaxPlatformId + 1 \<and>
      (\<forall>i \<le> kMaxPlatformId. es_platforms e' ! i \<longleftrightarrow> es_platforms ?e ! i \<or> i \<in> set ps) \<and>
      (\<exists>v. e' = ?e\<lparr>es_platforms := v\<rparr>)) (EndState_set_platforms ps e)"
    unfolding EndState_set_platforms_def by (rule set_platforms_loop [OF True]) simp
  then show ?thesis
    unfolding if_P [OF True]
  proof (rule returns_mono, elim conjE exE, intro conjI)
    fix e' v
    assume e': "length (es_platforms e') = kMaxPlatformId + 1"
      "\<forall>i \<le> kMaxPlatformId. es_platforms e' ! i \<longleftrightarrow> es_platforms ?e ! i \<or> i \<in> set ps" "e' = ?e\<lparr>es_platforms := v\<rparr>"
    have at: "es_platforms e' ! i \<longleftrightarrow> i \<in> set ps" if "i < kMaxPlatformId + 1" for i
      using e'(2) that by (simp add: less_Suc_eq_le del: replicate_Suc)
    have "EndState_platforms e' = filter (\<lambda>i. i \<in> set ps) [0..<kMaxPlatformId + 1]"
      unfolding EndState_platforms_def e'(1) by (rule filter_cong [OF refl]) (simp only: at set_upt atLeastLessThan_iff)
    moreover have "set (filter (\<lambda>i. i \<in> set ps) [0..<kMaxPlatformId + 1]) = set ps" using True by auto
    moreover have "sorted_list_of_set (set (filter (\<lambda>i. i \<in> set ps) [0..<kMaxPlatformId + 1])) =
        filter (\<lambda>i. i \<in> set ps) [0..<kMaxPlatformId + 1]"
      by (rule sorted_list_of_set.idem_if_sorted_distinct) (simp_all add: sorted_wrt_filter del: upt_Suc)
    ultimately show "EndState_platforms e' = sorted_list_of_set (set ps)" by simp
    show "\<exists>v. e' = e\<lparr>es_platforms := v\<rparr>" using e'(3) by auto
  qed
next
  case False
  have "\<exists>msg. for_each set_one_platform qs e = abort (Check_failed msg)" if "\<exists>p \<in> set qs. \<not> p < kMaxPlatformId" for qs e
    using that
  proof (induction qs arbitrary: e)
    case (Cons q qs)
    then show ?case by (cases "q < kMaxPlatformId") (auto simp: set_one_platform_def)
  qed simp
  then have "\<exists>msg. EndState_set_platforms ps e = abort (Check_failed msg)"
    using False unfolding EndState_set_platforms_def by blast
  then show ?thesis unfolding if_not_P [OF False] .
qed

definition empty_end_state :: end_state where
  "empty_end_state = new_end_state (kInstruction 0) \<lparr>rs_gregs = [], rs_fpregs = []\<rparr>"

theorem end_state_platforms_witness:
  "returns (\<lambda>e. EndState_platforms e = [1, 3]) (EndState_set_platforms [3, 1, 3] empty_end_state) \<and>
   (\<exists>msg. EndState_set_platforms [50] empty_end_state = abort (Check_failed msg))"
proof
  have "set [3, 1, 3] = set [1, 3 :: nat]" by auto
  then have l: "sorted_list_of_set (set [3, 1, 3]) = [1, 3 :: nat]"
    using sorted_list_of_set.idem_if_sorted_distinct [of "[1, 3 :: nat]"] by simp
  have "\<forall>p \<in> set [3, 1, 3]. p < kMaxPlatformId" by (simp add: kMaxPlatformId_def)
  then have "returns (\<lambda>e'. EndState_platforms e' = sorted_list_of_set (set [3, 1, 3]) \<and>
      (\<exists>v. e' = empty_end_state\<lparr>es_platforms := v\<rparr>)) (EndState_set_platforms [3, 1, 3] empty_end_state)"
    using end_state_platforms [of "[3, 1, 3]" empty_end_state] by (simp only: if_True simp_thms)
  then show "returns (\<lambda>e. EndState_platforms e = [1, 3]) (EndState_set_platforms [3, 1, 3] empty_end_state)"
    unfolding l by (rule returns_mono) blast
  have "\<not> (\<forall>p \<in> set [50]. p < kMaxPlatformId)" by (simp add: kMaxPlatformId_def)
  then show "\<exists>msg. EndState_set_platforms [50] empty_end_state = abort (Check_failed msg)"
    using end_state_platforms [of "[50]" empty_end_state] by (simp only: if_False)
qed

text \<open>\<open>num_pages\<close> is the total size of the mappings in pages while that size is below \<open>2^31\<close>, the range
  of the \<open>int\<close> the sum is kept in.\<close>

theorem num_pages_spec:
  assumes "snap_architecture s \<noteq> kUnsupported" "(\<Sum>m \<leftarrow> snap_memory_mappings s. unat (mm_num_bytes m)) < 2 ^ 31"
    and "\<forall>m \<in> set (snap_memory_mappings s). 4096 dvd unat (mm_num_bytes m)"
  shows "returns (\<lambda>n. unat n = (\<Sum>m \<leftarrow> snap_memory_mappings s. unat (mm_num_bytes m)) div 4096) (num_pages s)"
proof -
  let ?sum = "\<Sum>m \<leftarrow> snap_memory_mappings s. unat (mm_num_bytes m)" and ?r = "num_pages_loop (snap_memory_mappings s) 0"
  have r: "unat ?r = ?sum" using num_pages_loop_exact [of 0] assms(2) by simp
  then have sr: "unat (scast ?r :: u64) = ?sum" using unat_scast_small [of ?r] assms(2) by simp
  have "4096 dvd (\<Sum>m \<leftarrow> ms. unat (mm_num_bytes m))" if "\<forall>m \<in> set ms. 4096 dvd unat (mm_num_bytes m)" for ms
    using that by (induction ms) auto
  then have "4096 dvd ?sum" using assms(3) by blast
  then have "unat ((scast ?r :: u64) mod 4096) = 0" by (simp add: unat_mod sr)
  then have z: "(scast ?r :: u64) mod 4096 = 0" by (simp only: unat_eq_zero)
  have "unat ((scast ?r :: u64) div 4096) = ?sum div 4096" by (simp add: unat_div sr)
  moreover have "?sum div 4096 < 2 ^ 32" using le_less_trans [OF div_le_dividend assms(2), of 4096] by simp
  ultimately have "unat (ucast ((scast ?r :: u64) div 4096) :: u32) = ?sum div 4096"
    by (simp add: unsigned_ucast_eq take_bit_nat_eq_self)
  then show ?thesis by (simp add: num_pages_def Let_def page_size_4096 [OF assms(1)] z)
qed

theorem num_pages_spec_witness:
  "returns (\<lambda>n. unat n = 1) (num_pages sample_snapshot)"
proof -
  have "snap_architecture sample_snapshot \<noteq> kUnsupported" "snap_memory_mappings sample_snapshot = [code_mapping]"
    "mm_num_bytes code_mapping = 0x1000"
    by (simp_all add: sample_snapshot_def code_mapping_def)
  then show ?thesis using num_pages_spec [of sample_snapshot] by simp
qed

text \<open>Above that size the result is wrong: a mapping of \<open>2^32\<close> bytes counts as no page.\<close>

lemma num_pages_overflow:
  "num_pages (sample_snapshot\<lparr>snap_memory_mappings := [code_mapping\<lparr>mm_num_bytes := 0x100000000\<rparr>]\<rparr>) = ret 0"
proof -
  have "page_size (sample_snapshot\<lparr>snap_memory_mappings := ms\<rparr>) = 4096" for ms
    by (rule page_size_4096) (simp add: sample_snapshot_def)
  then show ?thesis by (simp add: num_pages_def Let_def)
qed






text \<open>\<open>MappedMemoryIsDefined\<close> holds exactly when the memory bytes cover every mapped address.\<close>

theorem mapped_memory_is_defined:
  assumes "snapshot_ok s"
  shows "MappedMemoryIsDefined s = ret (\<forall>k. mappings_at (snap_memory_mappings s) k \<noteq> None \<longrightarrow>
      (\<exists>b \<in> set (snap_memory_bytes s). k \<in> bytes_range b))"
proof -
  let ?rm = "\<lambda>b. MappedMemoryMap_Remove (mb_start b) (mb_limit b) MemoryPerms_AllPlusMapped"
  have loop: "returns (holds (\<lambda>k. if \<exists>b \<in> set bs. k \<in> bytes_range b then None else perms_at m k)) (for_each ?rm bs m)"
    if "\<forall>b \<in> set bs. bytes_ok b" "mapped_map_ok m" for bs m
    using that
  proof (induction bs arbitrary: m)
    case (Cons b bs)
    show ?case
      unfolding for_each.simps
    proof (rule returns_rbind [OF Remove_returns [OF Cons.prems(2) bytes_ok_limit(1)]])
      show "bytes_ok b" using Cons.prems(1) by simp
      fix m' assume m': "holds (on_keys (mb_start b) (mb_limit b) (\<lambda>k. remove_at MemoryPerms_AllPlusMapped (perms_at m k)) (perms_at m)) m'"
      have "perms_at m' k = (if k \<in> bytes_range b then None else perms_at m k)" for k
        unfolding holds_at [OF m'] using remove_at_all [of "perms_at m k"] perms_at_ok [OF Cons.prems(2), of k]
        by (simp add: on_keys_def bytes_range_def)
      then show "returns (holds (\<lambda>k. if \<exists>b \<in> set (b # bs). k \<in> bytes_range b then None else perms_at m k)) (for_each ?rm bs m')"
        using Cons.prems(1) by (intro returns_mono [OF Cons.IH [OF _ holds_ok [OF m']]]) (auto elim!: holds_cong)
    qed
  qed (simp add: holds_self)
  have empty_iff: "MappedMemoryMap_IsEmpty m \<longleftrightarrow> (\<forall>k. perms_at m k = None)" if "mapped_map_ok m" for m
  proof (cases m)
    case (Cons e es)
    have "perms_at m (entry_start e) = Some (snd e)"
      using perms_at_entry [OF that, of e] entry_pos [OF that, of e] Cons by simp
    then show ?thesis using Cons by (auto simp: MappedMemoryMap_IsEmpty_def)
  qed (simp add: MappedMemoryMap_IsEmpty_def)
  have ok: "mapped_map_ok (snap_mapped_memory_map s)" "\<forall>b \<in> set (snap_memory_bytes s). bytes_ok b"
    using snapshot_maps(1) [OF assms] snapshot_bytes(1) [OF assms] by auto
  obtain m where m: "for_each ?rm (snap_memory_bytes s) (snap_mapped_memory_map s) = ret m"
    "holds (\<lambda>k. if \<exists>b \<in> set (snap_memory_bytes s). k \<in> bytes_range b then None else mappings_at (snap_memory_mappings s) k) m"
    using loop [OF ok(2,1)] unfolding snapshot_maps(3) [OF assms] by (rule returnsE)
  show ?thesis
    by (auto simp: MappedMemoryIsDefined_def MappedMemoryMap_Copy_def m(1) empty_iff [OF holds_ok [OF m(2)]] holds_at [OF m(2)])
qed

theorem mapped_memory_is_defined_witness: "MappedMemoryIsDefined sample_snapshot = ret False"
proof -
  have "mappings_at (snap_memory_mappings sample_snapshot) 0x1800 \<noteq> None" "\<forall>b \<in> set (snap_memory_bytes sample_snapshot). 0x1800 \<notin> bytes_range b"
    by (simp_all add: sample_snapshot_def mappings_at_Cons sample_mappings)
  then show ?thesis unfolding mapped_memory_is_defined [OF sample_snapshot_ok] by auto
qed

end
