(* ===== verification/Le_Bytes.thy ===== *)
theory Le_Bytes
  imports Prelude
begin

text \<open>
  Words in the memory of a little-endian host: \<open>memcpy\<close> between an integer of \<open>n\<close> bytes and a buffer.
\<close>

fun le_load :: "byte list \<Rightarrow> 'a :: len word" where
  "le_load [] = 0"
| "le_load (b # bs) = push_bit 8 (le_load bs) OR ucast b"

fun le_store :: "nat \<Rightarrow> 'a :: len word \<Rightarrow> byte list" where
  "le_store 0 w = []"
| "le_store (Suc n) w = ucast w # le_store n (drop_bit 8 w)"

lemma length_le_store [simp]: "length (le_store n w) = n"
  by (induction n arbitrary: w) simp_all

lemma bit_le_load: "8 * length bs \<le> i \<Longrightarrow> \<not> bit (le_load bs :: 'a :: len word) i"
  by (induction bs arbitrary: i) (auto simp: bit_simps dest: bit_imp_le_length)

lemma le_load_store_take: "le_load (le_store n w) = (take_bit (8 * n) w :: 'a :: len word)"
proof (induction n arbitrary: w)
  case (Suc n)
  show ?case
  proof (rule bit_word_eqI)
    fix i assume i: "i < LENGTH('a)"
    show "bit (le_load (le_store (Suc n) w) :: 'a word) i = bit (take_bit (8 * Suc n) w) i"
      using i by (cases "i < 8") (auto simp: Suc.IH bit_simps not_less dest: bit_imp_le_length)
  qed
qed simp

lemma le_load_store: "LENGTH('a :: len) \<le> 8 * n \<Longrightarrow> le_load (le_store n w) = (w :: 'a word)"
  by (simp add: le_load_store_take take_bit_word_eq_self)

lemma le_store_load:
  "8 * length bs \<le> LENGTH('a :: len) \<Longrightarrow> le_store (length bs) (le_load bs :: 'a word) = bs"
proof (induction bs)
  case (Cons b bs)
  let ?w = "le_load bs :: 'a word"
  have "drop_bit 8 (push_bit 8 ?w OR ucast b) = ?w"
  proof (rule bit_word_eqI)
    fix i assume "i < LENGTH('a)"
    show "bit (drop_bit 8 (push_bit 8 ?w OR ucast b)) i = bit ?w i"
      using bit_le_load [of bs i, where 'a = 'a] Cons.prems
      by (cases "8 * length bs \<le> i") (auto simp: bit_simps dest: bit_imp_le_length)
  qed
  moreover have "ucast (push_bit 8 ?w OR ucast b) = b"
    using Cons.prems by (intro bit_word_eqI) (auto simp: bit_simps)
  ultimately show ?case using Cons by simp
qed simp

lemma le_load_inject:
  assumes "length bs = length cs" "8 * length bs \<le> LENGTH('a :: len)" "(le_load bs :: 'a word) = le_load cs"
  shows "bs = cs"
  by (metis assms le_store_load)

end
