(* ===== verification/Crc32c.thy ===== *)
theory Crc32c
  imports Le_Bytes
begin

text \<open>
  The CRC-32C checksum of \<open>util/crc32c.h\<close>, \<open>crc32c.cc\<close>, \<open>crc32c_internal.h/.cc\<close> and the generator
  \<open>gen_crc32c_zero_extension_tables.cc\<close>: the table driven algorithm, the zero extension of a checksum in
  logarithmic time, and the accelerated algorithm, which reads three streams at once and joins their
  checksums. The instructions of the processor are parameters.
\<close>

section \<open>The table driven algorithm\<close>

definition crctable :: "u32 list" where
  "crctable =
     [0x00000000, 0xf26b8303, 0xe13b70f7, 0x1350f3f4, 0xc79a971f, 0x35f1141c,
      0x26a1e7e8, 0xd4ca64eb, 0x8ad958cf, 0x78b2dbcc, 0x6be22838, 0x9989ab3b,
      0x4d43cfd0, 0xbf284cd3, 0xac78bf27, 0x5e133c24, 0x105ec76f, 0xe235446c,
      0xf165b798, 0x030e349b, 0xd7c45070, 0x25afd373, 0x36ff2087, 0xc494a384,
      0x9a879fa0, 0x68ec1ca3, 0x7bbcef57, 0x89d76c54, 0x5d1d08bf, 0xaf768bbc,
      0xbc267848, 0x4e4dfb4b, 0x20bd8ede, 0xd2d60ddd, 0xc186fe29, 0x33ed7d2a,
      0xe72719c1, 0x154c9ac2, 0x061c6936, 0xf477ea35, 0xaa64d611, 0x580f5512,
      0x4b5fa6e6, 0xb93425e5, 0x6dfe410e, 0x9f95c20d, 0x8cc531f9, 0x7eaeb2fa,
      0x30e349b1, 0xc288cab2, 0xd1d83946, 0x23b3ba45, 0xf779deae, 0x05125dad,
      0x1642ae59, 0xe4292d5a, 0xba3a117e, 0x4851927d, 0x5b016189, 0xa96ae28a,
      0x7da08661, 0x8fcb0562, 0x9c9bf696, 0x6ef07595, 0x417b1dbc, 0xb3109ebf,
      0xa0406d4b, 0x522bee48, 0x86e18aa3, 0x748a09a0, 0x67dafa54, 0x95b17957,
      0xcba24573, 0x39c9c670, 0x2a993584, 0xd8f2b687, 0x0c38d26c, 0xfe53516f,
      0xed03a29b, 0x1f682198, 0x5125dad3, 0xa34e59d0, 0xb01eaa24, 0x42752927,
      0x96bf4dcc, 0x64d4cecf, 0x77843d3b, 0x85efbe38, 0xdbfc821c, 0x2997011f,
      0x3ac7f2eb, 0xc8ac71e8, 0x1c661503, 0xee0d9600, 0xfd5d65f4, 0x0f36e6f7,
      0x61c69362, 0x93ad1061, 0x80fde395, 0x72966096, 0xa65c047d, 0x5437877e,
      0x4767748a, 0xb50cf789, 0xeb1fcbad, 0x197448ae, 0x0a24bb5a, 0xf84f3859,
      0x2c855cb2, 0xdeeedfb1, 0xcdbe2c45, 0x3fd5af46, 0x7198540d, 0x83f3d70e,
      0x90a324fa, 0x62c8a7f9, 0xb602c312, 0x44694011, 0x5739b3e5, 0xa55230e6,
      0xfb410cc2, 0x092a8fc1, 0x1a7a7c35, 0xe811ff36, 0x3cdb9bdd, 0xceb018de,
      0xdde0eb2a, 0x2f8b6829, 0x82f63b78, 0x709db87b, 0x63cd4b8f, 0x91a6c88c,
      0x456cac67, 0xb7072f64, 0xa457dc90, 0x563c5f93, 0x082f63b7, 0xfa44e0b4,
      0xe9141340, 0x1b7f9043, 0xcfb5f4a8, 0x3dde77ab, 0x2e8e845f, 0xdce5075c,
      0x92a8fc17, 0x60c37f14, 0x73938ce0, 0x81f80fe3, 0x55326b08, 0xa759e80b,
      0xb4091bff, 0x466298fc, 0x1871a4d8, 0xea1a27db, 0xf94ad42f, 0x0b21572c,
      0xdfeb33c7, 0x2d80b0c4, 0x3ed04330, 0xccbbc033, 0xa24bb5a6, 0x502036a5,
      0x4370c551, 0xb11b4652, 0x65d122b9, 0x97baa1ba, 0x84ea524e, 0x7681d14d,
      0x2892ed69, 0xdaf96e6a, 0xc9a99d9e, 0x3bc21e9d, 0xef087a76, 0x1d63f975,
      0x0e330a81, 0xfc588982, 0xb21572c9, 0x407ef1ca, 0x532e023e, 0xa145813d,
      0x758fe5d6, 0x87e466d5, 0x94b49521, 0x66df1622, 0x38cc2a06, 0xcaa7a905,
      0xd9f75af1, 0x2b9cd9f2, 0xff56bd19, 0x0d3d3e1a, 0x1e6dcdee, 0xec064eed,
      0xc38d26c4, 0x31e6a5c7, 0x22b65633, 0xd0ddd530, 0x0417b1db, 0xf67c32d8,
      0xe52cc12c, 0x1747422f, 0x49547e0b, 0xbb3ffd08, 0xa86f0efc, 0x5a048dff,
      0x8ecee914, 0x7ca56a17, 0x6ff599e3, 0x9d9e1ae0, 0xd3d3e1ab, 0x21b862a8,
      0x32e8915c, 0xc083125f, 0x144976b4, 0xe622f5b7, 0xf5720643, 0x07198540,
      0x590ab964, 0xab613a67, 0xb831c993, 0x4a5a4a90, 0x9e902e7b, 0x6cfbad78,
      0x7fab5e8c, 0x8dc0dd8f, 0xe330a81a, 0x115b2b19, 0x020bd8ed, 0xf0605bee,
      0x24aa3f05, 0xd6c1bc06, 0xc5914ff2, 0x37faccf1, 0x69e9f0d5, 0x9b8273d6,
      0x88d28022, 0x7ab90321, 0xae7367ca, 0x5c18e4c9, 0x4f48173d, 0xbd23943e,
      0xf36e6f75, 0x0105ec76, 0x12551f82, 0xe03e9c81, 0x34f4f86a, 0xc69f7b69,
      0xd5cf889d, 0x27a40b9e, 0x79b737ba, 0x8bdcb4b9, 0x988c474d, 0x6ae7c44e,
      0xbe2da0a5, 0x4c4623a6, 0x5f16d052, 0xad7d5351]"

text \<open>The body of the loop of \<open>crc32c_unaccelerated\<close>.\<close>

definition crc32c_table_step :: "u32 \<Rightarrow> byte \<Rightarrow> u32" where
  "crc32c_table_step crc b = crctable ! unat ((crc XOR ucast b) AND 0xff) XOR drop_bit 8 crc"

definition crc32c_unaccelerated :: "u32 \<Rightarrow> byte list \<Rightarrow> u32" where
  "crc32c_unaccelerated seed data =
     foldl crc32c_table_step (seed XOR 0xffffffff) data XOR 0xffffffff"

section \<open>Zero extension\<close>

definition kBitsPerGroup :: nat where "kBitsPerGroup = 4"
definition kNumGroups :: nat where "kNumGroups = 32 div kBitsPerGroup"
definition kGroupTableSize :: nat where "kGroupTableSize = 2 ^ kBitsPerGroup"

record zero_extension_table =
  zt_n :: u64
  zt_table :: "u32 list list"

definition extend_group :: "zero_extension_table \<Rightarrow> u32 \<Rightarrow> u32 \<Rightarrow> nat \<Rightarrow> u32" where
  "extend_group t crc zero_extended grp =
     (let idx = unat (drop_bit (grp * kBitsPerGroup) crc) mod kGroupTableSize
      in zero_extended XOR zt_table t ! grp ! idx)"

definition Extend :: "zero_extension_table \<Rightarrow> u32 \<Rightarrow> u32" where
  "Extend t crc = foldl (extend_group t crc) 0 [0..<kNumGroups]"

text \<open>A table whose entries a function of the group and the index fills in.\<close>

definition fill_table :: "(nat \<Rightarrow> nat \<Rightarrow> u32) \<Rightarrow> u32 list list" where
  "fill_table f = map (\<lambda>grp. map (f grp) [0..<kGroupTableSize]) [0..<kNumGroups]"

definition ZeroExtension_Zero :: zero_extension_table where
  "ZeroExtension_Zero =
     \<lparr>zt_n = 0, zt_table = fill_table (\<lambda>grp idx. push_bit (grp * kBitsPerGroup) (of_nat idx))\<rparr>"

definition ZeroExtension_One :: zero_extension_table where
  "ZeroExtension_One =
     \<lparr>zt_n = 1,
      zt_table = fill_table (\<lambda>grp idx.
        let crc = push_bit (grp * kBitsPerGroup) (of_nat idx)
        in crc32c_unaccelerated (crc XOR 0xffffffff) [0] XOR 0xffffffff)\<rparr>"

definition ZeroExtension_Add ::
    "zero_extension_table \<Rightarrow> zero_extension_table \<Rightarrow> zero_extension_table" where
  "ZeroExtension_Add a b =
     \<lparr>zt_n = zt_n a + zt_n b,
      zt_table = fill_table (\<lambda>grp idx. Extend b (zt_table a ! grp ! idx))\<rparr>"

text \<open>The tables the generator prints, by repeated doubling.\<close>

definition kNumCRC32CZeroExtensionTables :: nat where
  "kNumCRC32CZeroExtensionTables = 64"

primrec kCRC32CZeroExtensionTables :: "nat \<Rightarrow> zero_extension_table" where
  "kCRC32CZeroExtensionTables 0 = ZeroExtension_One"
| "kCRC32CZeroExtensionTables (Suc i) =
     (let t = kCRC32CZeroExtensionTables i in ZeroExtension_Add t t)"

definition GetCRC32CZeroExtensionTableForBit :: "nat \<Rightarrow> zero_extension_table" where
  "GetCRC32CZeroExtensionTableForBit i =
     kCRC32CZeroExtensionTables (i mod kNumCRC32CZeroExtensionTables)"

text \<open>\<open>for (i = ...; n != 0 && i < kNumCRC32CZeroExtensionTables; ++i)\<close>, with the \<open>k\<close> values of \<open>i\<close> left.\<close>

fun zero_extend_loop :: "nat \<Rightarrow> nat \<Rightarrow> u32 \<Rightarrow> u64 \<Rightarrow> u32" where
  "zero_extend_loop 0 i crc n = crc"
| "zero_extend_loop (Suc k) i crc n =
     (if n = 0 then crc
      else if bit n i
      then zero_extend_loop k (Suc i) (Extend (GetCRC32CZeroExtensionTableForBit i) crc) (n AND NOT (push_bit i 1))
      else zero_extend_loop k (Suc i) crc n)"

definition internal_crc32c_zero_extend :: "u32 \<Rightarrow> u64 \<Rightarrow> u32" where
  "internal_crc32c_zero_extend crc n = zero_extend_loop kNumCRC32CZeroExtensionTables 0 crc n"

definition crc32c_zero_extend :: "u32 \<Rightarrow> u64 \<Rightarrow> u32" where
  "crc32c_zero_extend crc n = internal_crc32c_zero_extend (crc XOR 0xffffffff) n XOR 0xffffffff"

section \<open>The accelerated algorithm\<close>

text \<open>\<open>u64_data[i]\<close>: a load of eight bytes of a little-endian host.\<close>

definition le64_load :: "byte list \<Rightarrow> u64" where
  "le64_load bs = le_load (take 8 bs)"

text \<open>
  The loop over the quadwords of the three streams, which
  start at the offsets \<open>0\<close>, \<open>block_byte_size\<close> and \<open>2 * block_byte_size\<close> of the data; then the loop over what is left of one stream.
\<close>

fun crc_streams ::
    "(u32 \<Rightarrow> u64 \<Rightarrow> u32) \<Rightarrow> nat \<Rightarrow> byte list \<Rightarrow> byte list \<Rightarrow> byte list \<Rightarrow> u32 \<times> u32 \<times> u32 \<Rightarrow> u32 \<times> u32 \<times> u32" where
  "crc_streams u64 0 d1 d2 d3 v = v"
| "crc_streams u64 (Suc k) d1 d2 d3 (value, value2, value3) =
     crc_streams u64 k (drop 8 d1) (drop 8 d2) (drop 8 d3)
       (u64 value (le64_load d1), u64 value2 (le64_load d2), u64 value3 (le64_load d3))"

function crc_quadwords :: "(u32 \<Rightarrow> u64 \<Rightarrow> u32) \<Rightarrow> u32 \<Rightarrow> byte list \<Rightarrow> u32 \<times> byte list" where
  "crc_quadwords u64 value data =
     (if 8 \<le> length data then crc_quadwords u64 (u64 value (le64_load data)) (drop 8 data)
      else (value, data))"
  by pat_completeness auto
termination by (relation "measure (\<lambda>(u, v, d). length d)") auto

declare crc_quadwords.simps [simp del]

definition kBigBlockSize :: nat where "kBigBlockSize = 512"
definition kNumStreams :: nat where "kNumStreams = 3"

definition crc32c_accelerated_impl ::
    "(u32 \<Rightarrow> byte \<Rightarrow> u32) \<Rightarrow> (u32 \<Rightarrow> u64 \<Rightarrow> u32) \<Rightarrow> u64 \<Rightarrow> u32 \<Rightarrow> byte list \<Rightarrow> u32" where
  "crc32c_accelerated_impl u8 u64 address seed data =
     (let value = seed XOR 0xffffffff;
          offset_in_qword = unat (address mod 8);
          bytes = (if offset_in_qword \<noteq> 0 then min (length data) (8 - offset_in_qword) else 0);
          value = foldl u8 value (take bytes data);
          data = drop bytes data;
          (value, data) =
            (if kBigBlockSize \<le> length data
             then let block_size = length data div 8 div kNumStreams;
                      block_byte_size = block_size * 8;
                      (value, value2, value3) =
                        crc_streams u64 block_size data (drop block_byte_size data)
                          (drop (block_byte_size * 2) data) (value, 0, 0);
                      value = internal_crc32c_zero_extend value (of_nat block_byte_size);
                      value = value XOR value2;
                      value = internal_crc32c_zero_extend value (of_nat block_byte_size);
                      value = value XOR value3
                  in (value, drop (block_byte_size * kNumStreams) data)
             else (value, data));
          (value, data) = crc_quadwords u64 value data
      in foldl u8 value data XOR 0xffffffff)"

section \<open>The choice of the implementation\<close>

text \<open>
  \<open>best_crc32c_impl\<close> points to \<open>crc32c_init\<close> until the first call, which replaces it by what the
  processor has. A call gives the checksum and the new pointer.
\<close>

datatype crc32c_impl = Crc32c_init | Crc32c_accelerated | Crc32c_unaccelerated

definition crc32c_init_choice :: "bool \<Rightarrow> crc32c_impl" where
  "crc32c_init_choice has_crc32c_accelerated =
     (if has_crc32c_accelerated then Crc32c_accelerated else Crc32c_unaccelerated)"

definition call_crc32c_impl ::
    "(u32 \<Rightarrow> byte \<Rightarrow> u32) \<Rightarrow> (u32 \<Rightarrow> u64 \<Rightarrow> u32) \<Rightarrow> crc32c_impl \<Rightarrow> u64 \<Rightarrow> u32 \<Rightarrow> byte list \<Rightarrow> u32" where
  "call_crc32c_impl u8 u64 impl address seed data =
     (if impl = Crc32c_accelerated then crc32c_accelerated_impl u8 u64 address seed data
      else crc32c_unaccelerated seed data)"

definition crc32c ::
    "bool \<Rightarrow> (u32 \<Rightarrow> byte \<Rightarrow> u32) \<Rightarrow> (u32 \<Rightarrow> u64 \<Rightarrow> u32) \<Rightarrow> crc32c_impl \<Rightarrow> u64 \<Rightarrow> u32 \<Rightarrow> byte list
       \<Rightarrow> u32 \<times> crc32c_impl" where
  "crc32c has_accelerated u8 u64 best_impl address seed data =
     (let impl = (if best_impl = Crc32c_init then crc32c_init_choice has_accelerated else best_impl)
      in (call_crc32c_impl u8 u64 impl address seed data, impl))"

end
