(* ===== verification/Crc32c_Laws.thy ===== *)
theory Crc32c_Laws
  imports Crc32c
begin

text \<open>
  The checksum as the remainder of a polynomial division, one bit at a time; the table driven
  algorithm computes it, it is linear, and appending zero bytes to the data is what the extension
  tables do. The interface of the processor's instructions is a locale.
\<close>

section \<open>The bitwise checksum\<close>

text \<open>One step of the division by the polynomial 0x11EDC6F41, with the bits reflected.\<close>

definition crc32c_bit :: "u32 \<Rightarrow> u32" where
  "crc32c_bit x = drop_bit 1 x XOR (if bit x 0 then 0x82f63b78 else 0)"

definition crc32c_step :: "u32 \<Rightarrow> byte \<Rightarrow> u32" where
  "crc32c_step crc b = (crc32c_bit ^^ 8) (crc XOR ucast b)"

abbreviation crc_run :: "u32 \<Rightarrow> byte list \<Rightarrow> u32" where
  "crc_run \<equiv> foldl crc32c_step"

lemma crc32c_bit_xor: "crc32c_bit (x XOR y) = crc32c_bit x XOR crc32c_bit y"
  by (rule bit_word_eqI) (auto simp: crc32c_bit_def bit_simps)

lemma crc32c_bits_xor: "(crc32c_bit ^^ n) (x XOR y) = (crc32c_bit ^^ n) x XOR (crc32c_bit ^^ n) y"
  by (induction n) (simp_all add: crc32c_bit_xor)

lemma crc32c_bit_0 [simp]: "crc32c_bit 0 = 0"
  by (simp add: crc32c_bit_def)

lemma crc32c_bits_0 [simp]: "(crc32c_bit ^^ n) 0 = 0"
  by (induction n) simp_all

lemma crc32c_bits_shift: "(\<And>i. i < n \<Longrightarrow> \<not> bit x i) \<Longrightarrow> (crc32c_bit ^^ n) x = drop_bit n x"
proof (induction n)
  case (Suc n)
  have "(crc32c_bit ^^ n) x = drop_bit n x" using Suc by simp
  moreover have "\<not> bit x n" using Suc.prems by simp
  ultimately have "(crc32c_bit ^^ Suc n) x = drop_bit 1 (drop_bit n x)"
    by (simp add: crc32c_bit_def [of "drop_bit n x"] bit_simps)
  then show ?case by simp
qed simp

lemma crc32c_step_xor: "crc32c_step (x XOR y) (a XOR b) = crc32c_step x a XOR crc32c_step y b"
proof -
  have "(x XOR y) XOR ucast (a XOR b) = (x XOR ucast a) XOR ((y XOR ucast b) :: u32)"
    by (rule bit_word_eqI) (auto simp: bit_simps)
  then show ?thesis by (simp only: crc32c_step_def crc32c_bits_xor [of 8 "x XOR ucast a", symmetric])
qed

lemma crc32c_step_0 [simp]: "crc32c_step 0 0 = 0"
  by (simp add: crc32c_step_def)

text \<open>The checksum is linear in the initial value and the data.\<close>

lemma crc_run_xor:
  "length xs = length ys \<Longrightarrow>
     crc_run (x XOR y) (map2 (XOR) xs ys) = crc_run x xs XOR crc_run y ys"
  by (induction xs ys arbitrary: x y rule: list_induct2) (simp_all add: crc32c_step_xor)

lemma map2_xor_zeros: "map2 (XOR) (replicate (length ys) 0) ys = (ys :: byte list)"
  by (induction ys) simp_all

lemma crc_run_zeros: "crc_run x ys = crc_run x (replicate (length ys) 0) XOR crc_run 0 ys"
  using crc_run_xor [of "replicate (length ys) 0" ys x 0] by (simp add: map2_xor_zeros)

definition zero_run :: "nat \<Rightarrow> u32 \<Rightarrow> u32" where
  "zero_run n x = crc_run x (replicate n 0)"

lemma crc_run_append: "crc_run x (xs @ ys) = zero_run (length ys) (crc_run x xs) XOR crc_run 0 ys"
  by (simp add: zero_run_def crc_run_zeros [of _ ys, symmetric])

lemma zero_run_xor: "zero_run n (x XOR y) = zero_run n x XOR zero_run n y"
proof -
  have "map2 (XOR) (replicate n (0 :: byte)) (replicate n 0) = replicate n 0" by (simp add: zip_replicate)
  then show ?thesis using crc_run_xor [of "replicate n 0" "replicate n 0" x y] by (simp add: zero_run_def)
qed

lemma zero_run_0 [simp]: "zero_run n 0 = 0"
  using zero_run_xor [of n 0 0] by simp

lemma zero_run_add: "zero_run n (zero_run m x) = zero_run (m + n) x"
  by (simp add: zero_run_def replicate_add)

section \<open>The table\<close>

lemma length_crctable [simp]: "length crctable = 256"
  by (simp add: crctable_def)

text \<open>The eight bits of an index contribute one after the other.\<close>

definition double_table :: "nat \<Rightarrow> u32 list \<Rightarrow> u32 list" where
  "double_table k t = t @ map (\<lambda>y. (crc32c_bit ^^ 8) (push_bit k 1) XOR y) t"

lemma of_nat_add_power: "i < 2 ^ k \<Longrightarrow> of_nat (2 ^ k + i) = push_bit k 1 XOR (of_nat i :: u32)"
proof (rule bit_word_eqI)
  fix n assume i: "i < 2 ^ k" and n: "n < LENGTH(32)"
  have k: "\<not> bit i k" using i by (simp add: bit_iff_odd)
  moreover have "2 ^ k + i = 2 ^ k OR i"
    using k by (intro disjunctive_add [where 'a = nat]) (auto simp: bit_exp_iff)
  ultimately show "bit (of_nat (2 ^ k + i) :: u32) n = bit (push_bit k 1 XOR (of_nat i :: u32)) n"
    using n by (auto simp: bit_simps)
qed

lemma double_table:
  "double_table k (map (\<lambda>i. (crc32c_bit ^^ 8) (of_nat i)) [0..<2 ^ k]) =
     map (\<lambda>i. (crc32c_bit ^^ 8) (of_nat i)) [0..<2 ^ Suc k]"
proof -
  have "[0..<2 ^ Suc k] = [0..<2 ^ k] @ map (\<lambda>i. 2 ^ k + i) [0..<2 ^ k]"
    using upt_add_eq_append [of 0 "2 ^ k" "2 ^ k"] by (simp add: mult_2 map_add_upt [of "2 ^ k", symmetric] add.commute)
  then show ?thesis
    by (simp add: double_table_def of_nat_add_power crc32c_bits_xor del: of_nat_add)
qed

lemma crc32c_bit_half: "crc32c_bit x = (if even x then x div 2 else (x div 2) XOR 0x82f63b78)"
  by (simp add: crc32c_bit_def drop_bit_Suc bit_0)

lemma funpow_8: "(f ^^ 8) x = f (f (f (f (f (f (f (f x)))))))"
  by (simp add: eval_nat_numeral)

lemma crc32c_bits_8:
  "(crc32c_bit ^^ 8) 0x1 = 0xf26b8303" "(crc32c_bit ^^ 8) 0x2 = 0xe13b70f7"
  "(crc32c_bit ^^ 8) 0x4 = 0xc79a971f" "(crc32c_bit ^^ 8) 0x8 = 0x8ad958cf"
  "(crc32c_bit ^^ 8) 0x10 = 0x105ec76f" "(crc32c_bit ^^ 8) 0x20 = 0x20bd8ede"
  "(crc32c_bit ^^ 8) 0x40 = 0x417b1dbc" "(crc32c_bit ^^ 8) 0x80 = 0x82f63b78"
  by (simp_all add: funpow_8 crc32c_bit_half)

lemma crctable_bits: "map (\<lambda>i. (crc32c_bit ^^ 8) (of_nat i)) [0..<2 ^ 8] = crctable"
proof -
  have "map (\<lambda>i. (crc32c_bit ^^ 8) (of_nat i)) [0..<2 ^ 0] = [0]" by simp
  then have "map (\<lambda>i. (crc32c_bit ^^ 8) (of_nat i)) [0..<2 ^ 8] =
      double_table 7 (double_table 6 (double_table 5 (double_table 4 (double_table 3
        (double_table 2 (double_table 1 (double_table 0 [0])))))))"
    using double_table [of 0] double_table [of 1] double_table [of 2] double_table [of 3]
      double_table [of 4] double_table [of 5] double_table [of 6] double_table [of 7]
    by (simp add: eval_nat_numeral del: upt_Suc)
  also have "\<dots> = crctable"
    by (simp add: double_table_def crctable_def push_bit_eq_mult crc32c_bits_8)
  finally show ?thesis .
qed

lemma crctable_nth: "unat y < 256 \<Longrightarrow> crctable ! unat y = (crc32c_bit ^^ 8) y"
  by (subst crctable_bits [symmetric]) simp

lemma table_step [simp]: "crc32c_table_step = crc32c_step"
proof (intro ext)
  fix crc and b :: byte
  let ?w = "crc XOR ucast b :: u32"
  have low: "?w AND 0xff = take_bit 8 ?w" by (simp add: take_bit_eq_mask mask_eq_exp_minus_1)
  have "unat (?w AND 0xff) < 256" unfolding low unsigned_take_bit_eq using take_bit_nat_less_exp [of 8 "unat ?w"] by simp
  then have table: "crctable ! unat (?w AND 0xff) = (crc32c_bit ^^ 8) (take_bit 8 ?w)"
    unfolding low by (rule crctable_nth)
  let ?high = "?w AND NOT (mask 8)"
  have "?w = take_bit 8 ?w XOR ?high" by (rule bit_word_eqI) (auto simp: bit_simps)
  moreover have "(crc32c_bit ^^ 8) ?high = drop_bit 8 ?high"
    by (rule crc32c_bits_shift) (simp add: bit_simps)
  moreover have "drop_bit 8 ?high = drop_bit 8 crc"
    by (rule bit_word_eqI) (auto simp: bit_simps dest: bit_imp_le_length)
  ultimately have "(crc32c_bit ^^ 8) ?w = (crc32c_bit ^^ 8) (take_bit 8 ?w) XOR drop_bit 8 crc"
    by (metis crc32c_bits_xor)
  then show "crc32c_table_step crc b = crc32c_step crc b"
    by (simp add: crc32c_table_step_def crc32c_step_def table)
qed

lemma unaccelerated_run: "crc32c_unaccelerated seed data = crc_run (seed XOR 0xffffffff) data XOR 0xffffffff"
  by (simp add: crc32c_unaccelerated_def)

section \<open>Zero extension\<close>

definition table_ok :: "zero_extension_table \<Rightarrow> bool" where
  "table_ok t \<longleftrightarrow>
     zt_table t = fill_table (\<lambda>g i. zero_run (unat (zt_n t)) (push_bit (g * kBitsPerGroup) (of_nat i)))"

lemmas table_sizes = kBitsPerGroup_def kNumGroups_def kGroupTableSize_def

lemma fill_table_nth: "g < kNumGroups \<Longrightarrow> i < kGroupTableSize \<Longrightarrow> fill_table f ! g ! i = f g i"
  by (simp add: fill_table_def)

lemma fill_table_cong:
  "(\<And>g i. g < kNumGroups \<Longrightarrow> i < kGroupTableSize \<Longrightarrow> f g i = f' g i) \<Longrightarrow> fill_table f = fill_table f'"
  by (simp add: fill_table_def)

lemma Extend_run:
  assumes "table_ok t"
  shows "Extend t crc = zero_run (unat (zt_n t)) crc"
proof -
  have "foldl (extend_group t crc) 0 [0..<k] = zero_run (unat (zt_n t)) (take_bit (k * 4) crc)"
    if "k \<le> kNumGroups" for k
    using that
  proof (induction k)
    case (Suc k)
    let ?i = "unat (drop_bit (k * 4) crc) mod 16"
    have i: "of_nat ?i = take_bit 4 (drop_bit (k * 4) crc)"
    proof -
      have "?i = unat (take_bit 4 (drop_bit (k * 4) crc))"
        unfolding unsigned_take_bit_eq by (simp add: take_bit_eq_mod)
      then show ?thesis by simp
    qed
    have "take_bit (Suc k * 4) crc = take_bit (k * 4) crc XOR push_bit (k * 4) (take_bit 4 (drop_bit (k * 4) crc))"
      by (rule bit_word_eqI) (auto simp: bit_simps not_less le_diff_conv2)
    moreover have "zt_table t ! k ! ?i = zero_run (unat (zt_n t)) (push_bit (k * 4) (of_nat ?i))"
      using assms Suc.prems by (simp add: table_ok_def fill_table_nth table_sizes)
    ultimately show ?case using Suc by (simp add: extend_group_def table_sizes i zero_run_xor)
  qed simp
  from this [of kNumGroups] show ?thesis by (simp add: Extend_def table_sizes take_bit_word_eq_self)
qed

lemma One_ok: "table_ok ZeroExtension_One"
proof -
  have "crc32c_unaccelerated (c XOR 0xffffffff) [0] XOR 0xffffffff = zero_run 1 c" for c
    by (simp add: unaccelerated_run zero_run_def xor.assoc)
  then show ?thesis by (simp add: table_ok_def ZeroExtension_One_def Let_def)
qed

lemma Zero_ok: "table_ok ZeroExtension_Zero"
  by (simp add: table_ok_def ZeroExtension_Zero_def zero_run_def)

lemma Add_ok:
  assumes "table_ok a" "table_ok b" "unat (zt_n a) + unat (zt_n b) < 2 ^ 64"
  shows "table_ok (ZeroExtension_Add a b)"
proof -
  have "unat (zt_n a + zt_n b) = unat (zt_n a) + unat (zt_n b)"
    using assms(3) by (simp add: unat_plus_if')
  then have "zt_table (ZeroExtension_Add a b) = fill_table (\<lambda>g i.
      zero_run (unat (zt_n (ZeroExtension_Add a b))) (push_bit (g * kBitsPerGroup) (of_nat i)))"
    using assms(1,2)
    by (auto simp: ZeroExtension_Add_def Extend_run table_ok_def [of a] fill_table_nth zero_run_add
        intro!: fill_table_cong)
  then show ?thesis unfolding table_ok_def .
qed

lemma extension_tables_ok: "i < 64 \<Longrightarrow> table_ok (kCRC32CZeroExtensionTables i) \<and> unat (zt_n (kCRC32CZeroExtensionTables i)) = 2 ^ i"
proof (induction i)
  case 0
  then show ?case by (simp add: One_ok) (simp add: ZeroExtension_One_def)
next
  case (Suc i)
  let ?t = "kCRC32CZeroExtensionTables i"
  have t: "table_ok ?t" "unat (zt_n ?t) = 2 ^ i" using Suc by simp_all
  have "(2 :: nat) ^ Suc i < 2 ^ 64" using Suc.prems by (intro power_strict_increasing) simp_all
  then have n: "unat (zt_n ?t) + unat (zt_n ?t) < 2 ^ 64" using t(2) by simp
  then show ?case
    using Add_ok [OF t(1) t(1) n] t(2) unat_plus_if' [of "zt_n ?t" "zt_n ?t"]
    by (simp add: Let_def) (simp add: ZeroExtension_Add_def)
qed

lemma zero_extend_loop_run:
  "k + i = 64 \<Longrightarrow> (\<And>j. j < i \<Longrightarrow> \<not> bit n j) \<Longrightarrow> zero_extend_loop k i crc n = zero_run (unat n) crc"
proof (induction k i crc n rule: zero_extend_loop.induct)
  case (1 i crc n)
  then have "n = 0" by (intro bit_word_eqI) simp
  then show ?case by (simp add: zero_run_def)
next
  case (2 k i crc n)
  have i: "i < 64" using 2 by simp
  let ?n = "n AND NOT (push_bit i 1)"
  have low: "\<not> bit ?n j" if "j < Suc i" for j
    using that 2(4) [of j] by (auto simp: bit_simps less_Suc_eq)
  show ?case
  proof (cases "n = 0")
    case True
    then show ?thesis by (simp add: zero_run_def)
  next
    case False
    show ?thesis
    proof (cases "bit n i")
      case True
      have "unat n = 2 ^ i OR unat ?n"
        by (rule bit_eqI) (use True i in \<open>auto simp: bit_simps dest: bit_imp_le_length\<close>)
      also have "\<dots> = 2 ^ i + unat ?n"
        by (rule disjunctive_add [symmetric]) (auto simp: bit_simps)
      finally have "unat n = 2 ^ i + unat ?n" .
      then show ?thesis
        using True False 2(1) [OF False True] 2(3) low extension_tables_ok [OF i]
        by (simp add: GetCRC32CZeroExtensionTableForBit_def kNumCRC32CZeroExtensionTables_def Extend_run zero_run_add)
    next
      case no: False
      then show ?thesis using False 2 by (auto simp: less_Suc_eq)
    qed
  qed
qed

lemma zero_extend_run: "internal_crc32c_zero_extend crc n = zero_run (unat n) crc"
  by (simp add: internal_crc32c_zero_extend_def kNumCRC32CZeroExtensionTables_def zero_extend_loop_run)

end
