(* ===== verification/Crc32c_Properties.thy ===== *)
theory Crc32c_Properties
  imports Crc32c_Laws
begin

text \<open>
  The accelerated checksum: whatever the alignment and the length of the data, the split into a head,
  three streams, quadwords and a tail computes what the table driven algorithm does.
\<close>

section \<open>Quadwords\<close>

lemma le_store_le64_load: "8 \<le> length bs \<Longrightarrow> le_store 8 (le64_load bs) = take 8 bs"
  using le_store_load [of "take 8 bs", where 'a = 64] by (simp add: le64_load_def min_absorb2)

section \<open>The interface of the instructions\<close>

text \<open>
  What the reference manuals promise of the CRC-32C instructions: the instruction on a byte divides its
  eight bits, the one on a quadword consumes its bytes from the least significant one.
\<close>

locale crc32c_functions =
  fixes u8 :: "u32 \<Rightarrow> byte \<Rightarrow> u32" and u64 :: "u32 \<Rightarrow> u64 \<Rightarrow> u32"
  assumes u8_step: "u8 crc b = (crc32c_bit ^^ 8) (crc XOR ucast b)"
    and u64_steps: "u64 crc w = foldl u8 crc (le_store 8 w)"
begin

lemma u8_eq [simp]: "u8 = crc32c_step"
  by (intro ext) (simp add: u8_step crc32c_step_def)

lemma u64_load: "8 \<le> length bs \<Longrightarrow> u64 crc (le64_load bs) = crc_run crc (take 8 bs)"
  by (simp add: u64_steps le_store_le64_load)

lemma quadwords: "crc_quadwords u64 v data =
    (crc_run v (take (8 * (length data div 8)) data), drop (8 * (length data div 8)) data)"
proof (induction "length data" arbitrary: v data rule: less_induct)
  case less
  show ?case
  proof (cases "8 \<le> length data")
    case True
    let ?k = "length (drop 8 data) div 8"
    have k: "length data div 8 = Suc ?k" using True by simp
    have "crc_run (crc_run v (take 8 data)) (take (8 * ?k) (drop 8 data)) = crc_run v (take (8 * Suc ?k) data)"
      by (simp add: foldl_append [symmetric] take_add [symmetric] del: foldl_append)
    then show ?thesis
      unfolding k using True less [of "drop 8 data"]
      by (simp add: crc_quadwords.simps [of u64 v data] u64_load add.commute)
  qed (simp add: crc_quadwords.simps [of u64 v data])
qed

lemma streams:
  "8 * k \<le> length d1 \<Longrightarrow> 8 * k \<le> length d2 \<Longrightarrow> 8 * k \<le> length d3 \<Longrightarrow>
     crc_streams u64 k d1 d2 d3 (v, value2, value3) =
       (crc_run v (take (8 * k) d1), crc_run value2 (take (8 * k) d2), crc_run value3 (take (8 * k) d3))"
proof (induction k arbitrary: d1 d2 d3 v value2 value3)
  case (Suc k)
  have step: "crc_run (crc_run x (take 8 d)) (take (8 * k) (drop 8 d)) = crc_run x (take (8 * Suc k) d)" for x and d :: "byte list"
    by (simp add: foldl_append [symmetric] take_add [symmetric] del: foldl_append)
  show ?case using Suc by (simp add: u64_load step)
qed simp

lemma three_streams:
  assumes "length data < 2 ^ 64" "3 * b \<le> length data"
  shows "internal_crc32c_zero_extend
      (internal_crc32c_zero_extend (crc_run v (take b data)) (of_nat b) XOR crc_run 0 (take b (drop b data))) (of_nat b)
      XOR crc_run 0 (take b (drop (b * 2) data)) = crc_run v (take (3 * b) data)"
proof -
  have "unat (of_nat b :: u64) = b" using assms by (simp add: unat_of_nat_u64)
  moreover have "take (3 * b) data = (take b data @ take b (drop b data)) @ take b (drop (b * 2) data)"
  proof -
    have b: "3 * b = b + b + b" "b * 2 = b + b" by simp_all
    show ?thesis unfolding b by (simp only: take_add append_assoc)
  qed
  moreover have "length (take b (drop (b * 2) data)) = b" "length (take b (drop b data)) = b" using assms by auto
  ultimately show ?thesis by (simp only: zero_extend_run crc_run_append)
qed

lemma accelerated:
  assumes "length data < 2 ^ 64"
  shows "crc32c_accelerated_impl u8 u64 address seed data = crc32c_unaccelerated seed data"
proof -
  define x where "x = seed XOR 0xffffffff"
  define n where "n = (if unat (address mod 8) \<noteq> 0 then min (length data) (8 - unat (address mod 8)) else 0)"
  define rest where "rest = drop n data"
  define b where "b = length rest div 8 div kNumStreams * 8"
  define m where "m = (if kBigBlockSize \<le> length rest then 3 * b else 0)"
  define v where "v = crc_run x (take n data)"
  have b: "3 * b \<le> length rest" "b = 8 * (b div 8)"
    by (simp_all add: b_def kNumStreams_def)
  have rest: "length rest < 2 ^ 64" using assms by (simp add: rest_def)
  let ?tail = "drop m rest" and ?k = "8 * (length (drop m rest) div 8)"
  have joined: "crc_run (crc_run (crc_run v (take m rest)) (take ?k ?tail)) (drop ?k ?tail) = crc_run x data"
    by (simp only: v_def rest_def foldl_append [symmetric] append_assoc append_take_drop_id)
  have streams: "crc_streams u64 (b div 8) rest (drop b rest) (drop (b * 2) rest) (v, 0, 0) =
      (crc_run v (take b rest), crc_run 0 (take b (drop b rest)), crc_run 0 (take b (drop (b * 2) rest)))"
    using streams [of "b div 8" rest "drop b rest" "drop (b * 2) rest" v 0 0] b by simp
  have head: "foldl u8 (seed XOR 0xffffffff) (take n data) = v"
    by (simp add: v_def x_def)
  have block: "(if kBigBlockSize \<le> length rest
      then let block_size = length rest div 8 div kNumStreams; block_byte_size = block_size * 8;
               (v, v2, v3) = crc_streams u64 block_size rest (drop block_byte_size rest) (drop (block_byte_size * 2) rest) (v, 0, 0);
               v = internal_crc32c_zero_extend v (of_nat block_byte_size); v = v XOR v2;
               v = internal_crc32c_zero_extend v (of_nat block_byte_size); v = v XOR v3
           in (v, drop (block_byte_size * kNumStreams) rest)
      else (v, rest)) = (crc_run v (take m rest), ?tail)"
  proof (cases "kBigBlockSize \<le> length rest")
    case True
    have "length rest div 8 div kNumStreams = b div 8" "b div 8 * 8 = b" "b * kNumStreams = 3 * b"
      using b by (simp_all add: b_def kNumStreams_def)
    then show ?thesis
      using True three_streams [OF rest b(1), of v]
      by (simp only: streams Let_def prod.case if_True m_def)
  qed (simp add: m_def)
  show ?thesis
    unfolding crc32c_accelerated_impl_def Let_def
    unfolding n_def [symmetric] head rest_def [symmetric] block [unfolded Let_def] prod.case quadwords
    by (simp only: u8_eq joined unaccelerated_run x_def)
qed

end

text \<open>
  The instructions as the manuals define them: the division of the operand of 8 or 64 bits, combined
  with the checksum in its low bits.
\<close>

definition crc32cb :: "u32 \<Rightarrow> byte \<Rightarrow> u32" where
  "crc32cb crc b = (crc32c_bit ^^ 8) (crc XOR ucast b)"

definition crc32c_bit64 :: "u64 \<Rightarrow> u64" where
  "crc32c_bit64 x = drop_bit 1 x XOR (if bit x 0 then 0x82f63b78 else 0)"

definition crc32cd :: "u32 \<Rightarrow> u64 \<Rightarrow> u32" where
  "crc32cd crc w = ucast ((crc32c_bit64 ^^ 64) (ucast crc XOR w))"

lemma crc32c_bit64_xor: "(crc32c_bit64 ^^ n) (x XOR y) = (crc32c_bit64 ^^ n) x XOR (crc32c_bit64 ^^ n) y"
proof (induction n)
  case (Suc n)
  have "crc32c_bit64 (x XOR y) = crc32c_bit64 x XOR crc32c_bit64 y" for x y
    by (rule bit_word_eqI) (auto simp: crc32c_bit64_def bit_simps)
  then show ?case by (simp add: Suc)
qed simp

lemma crc32c_bit64_ucast: "(crc32c_bit64 ^^ n) (ucast x) = ucast ((crc32c_bit ^^ n) x)"
proof (induction n)
  case (Suc n)
  have "crc32c_bit64 (ucast x) = ucast (crc32c_bit x)" for x
  proof -
    have "drop_bit 1 (ucast x) XOR ucast y = (ucast (drop_bit 1 x XOR y) :: u64)" for y
      by (rule bit_word_eqI) (auto simp: bit_simps dest: bit_imp_le_length)
    from this [of 0] this [of "0x82f63b78"] show ?thesis
      by (simp add: crc32c_bit64_def crc32c_bit_def bit_simps)
  qed
  then show ?case by (simp add: Suc)
qed simp

lemma crc32c_bit64_shift: "(\<And>i. i < n \<Longrightarrow> \<not> bit x i) \<Longrightarrow> (crc32c_bit64 ^^ n) x = drop_bit n x"
proof (induction n)
  case (Suc n)
  then have "(crc32c_bit64 ^^ Suc n) x = drop_bit 1 (drop_bit n x)"
    by (simp add: crc32c_bit64_def [of "drop_bit n x"] bit_simps)
  then show ?case by simp
qed simp

lemma crc32c_bit64_8:
  "(crc32c_bit64 ^^ 8) (ucast crc XOR w) = ucast (crc32cb crc (ucast w)) XOR drop_bit 8 w"
proof -
  have "ucast crc XOR w = ucast (crc XOR ucast (ucast w :: byte)) XOR (w AND NOT (mask 8))"
    by (rule bit_word_eqI) (auto simp: bit_simps dest: bit_imp_le_length)
  moreover have "(crc32c_bit64 ^^ 8) (w AND NOT (mask 8)) = drop_bit 8 (w AND NOT (mask 8))"
    by (rule crc32c_bit64_shift) (simp add: bit_simps)
  moreover have "drop_bit 8 (w AND NOT (mask 8)) = drop_bit 8 w"
    by (rule bit_word_eqI) (auto simp: bit_simps dest: bit_imp_le_length)
  ultimately show ?thesis by (simp only: crc32c_bit64_xor crc32c_bit64_ucast crc32cb_def)
qed

lemma crc32c_bit64_bytes:
  "(crc32c_bit64 ^^ (8 * n)) (ucast crc XOR w) = ucast (foldl crc32cb crc (le_store n w)) XOR drop_bit (8 * n) w"
proof (induction n arbitrary: crc w)
  case (Suc n)
  have "8 * Suc n = 8 * n + 8" by simp
  then have "(crc32c_bit64 ^^ (8 * Suc n)) (ucast crc XOR w) = (crc32c_bit64 ^^ (8 * n)) ((crc32c_bit64 ^^ 8) (ucast crc XOR w))"
    by (simp only: funpow_add comp_apply)
  then show ?case by (simp only: crc32c_bit64_8 Suc.IH le_store.simps foldl.simps drop_bit_drop_bit mult_Suc_right add.commute)
qed simp

lemma ucast_down: "ucast (ucast (x :: u32) :: u64) = x"
  by (rule bit_word_eqI) (auto simp: bit_simps)

interpretation crc: crc32c_functions crc32cb crc32cd
proof unfold_locales
  fix crc and w :: u64
  have "drop_bit 64 w = 0" by (rule bit_word_eqI) (auto simp: bit_simps dest: bit_imp_le_length)
  then show "crc32cd crc w = foldl crc32cb crc (le_store 8 w)"
    using crc32c_bit64_bytes [of 8 crc w] ucast_down [of "foldl crc32cb crc (le_store 8 w)"]
    by (simp add: crc32cd_def)
qed (simp add: crc32cb_def)

section \<open>Properties\<close>

text \<open>C38: on a processor whose CRC-32C instructions do what the manuals say, the accelerated checksum, which
  splits the data by its alignment, runs three streams over large blocks and joins them with the zero
  extension tables, equals the table driven one, for every seed, address and data; so does \<open>crc32c\<close>,
  whichever implementation it has chosen or chooses.\<close>

theorem accelerated_checksum:
  assumes "crc32c_functions u8 u64" "length data < 2 ^ 64"
  shows "crc32c_accelerated_impl u8 u64 address seed data = crc32c_unaccelerated seed data \<and>
    fst (crc32c has_accelerated u8 u64 best_impl address seed data) = crc32c_unaccelerated seed data"
  using crc32c_functions.accelerated [OF assms] by (simp_all add: crc32c_def call_crc32c_impl_def Let_def)

theorem accelerated_checksum_witness:
  "crc32c_accelerated_impl crc32cb crc32cd 3 0 (replicate 1000 7) = crc32c_unaccelerated 0 (replicate 1000 7)"
  using accelerated_checksum [OF crc.crc32c_functions_axioms, of "replicate 1000 7"] by simp

text \<open>Extending a checksum by \<open>n\<close> zeros in a logarithmic number of steps gives the checksum of the
  data followed by \<open>n\<close> zero bytes, for every \<open>n\<close> of 64 bits.\<close>

theorem zero_extension:
  "crc32c_zero_extend (crc32c_unaccelerated seed data) n = crc32c_unaccelerated seed (data @ replicate (unat n) 0)"
proof -
  have "(crc32c_unaccelerated seed data) XOR 0xffffffff = crc_run (seed XOR 0xffffffff) data"
    by (simp add: unaccelerated_run xor.assoc)
  then show ?thesis by (simp add: crc32c_zero_extend_def zero_extend_run unaccelerated_run zero_run_def)
qed

text \<open>The table driven checksum is the remainder of the bitwise division by the CRC-32C polynomial, and
  it continues: the checksum of a part seeds the checksum of the rest.\<close>

theorem checksum_is_remainder:
  "crc32c_unaccelerated seed [] = seed"
  "crc32c_unaccelerated seed [b] = (crc32c_bit ^^ 8) ((seed XOR 0xffffffff) XOR ucast b) XOR 0xffffffff"
  "crc32c_unaccelerated seed (xs @ ys) = crc32c_unaccelerated (crc32c_unaccelerated seed xs) ys"
  by (simp_all add: unaccelerated_run crc32c_step_def xor.assoc)

end
