(* ===== verification/Reg_Checksum.thy ===== *)
theory Reg_Checksum
  imports Crc32c_Properties
begin

text \<open>
  Register groups and register checksums: \<open>util/reg_group_bits.h\<close>, \<open>reg_group_set.h\<close>, \<open>sve_constants.h\<close>,
  \<open>reg_group_io.h/.cc\<close> (the checksum of a buffer of registers), \<open>reg_checksum.h/.cc\<close> (the serialised form)
  and \<open>reg_checksum_util.h/.cc\<close>. The \<open>uint64_t\<close> mask of a register group set stands for the object.
\<close>

section \<open>Architectures\<close>

datatype architecture_id = ArchUndefined | ArchX86_64 | ArchAArch64

definition architecture_id_byte :: "architecture_id \<Rightarrow> byte" where
  "architecture_id_byte a = (case a of ArchUndefined \<Rightarrow> 0 | ArchX86_64 \<Rightarrow> 1 | ArchAArch64 \<Rightarrow> 2)"

section \<open>Register group sets\<close>

definition X86_REG_GROUP_GPR :: u64 where "X86_REG_GROUP_GPR = 0x1"
definition X86_REG_GROUP_FPR_AND_SSE :: u64 where "X86_REG_GROUP_FPR_AND_SSE = 0x2"
definition X86_REG_GROUP_AVX :: u64 where "X86_REG_GROUP_AVX = 0x4"
definition X86_REG_GROUP_AVX512 :: u64 where "X86_REG_GROUP_AVX512 = 0x8"
definition X86_REG_GROUP_AMX :: u64 where "X86_REG_GROUP_AMX = 0x10"
definition AARCH64_REG_GROUP_GPR :: u64 where "AARCH64_REG_GROUP_GPR = 0x1"
definition AARCH64_REG_GROUP_FPR :: u64 where "AARCH64_REG_GROUP_FPR = 0x2"
definition AARCH64_SVE_VECTOR_WIDTH_OFFSET :: nat where "AARCH64_SVE_VECTOR_WIDTH_OFFSET = 2"
definition AARCH64_SVE_VECTOR_WIDTH_MASK :: u64 where "AARCH64_SVE_VECTOR_WIDTH_MASK = 0x7FC"

definition RegisterGroupSet_Empty :: "u64 \<Rightarrow> bool" where
  "RegisterGroupSet_Empty bits = (bits = 0)"

definition GetBit :: "u64 \<Rightarrow> u64 \<Rightarrow> bool" where
  "GetBit b bits = ((b AND bits) \<noteq> 0)"

definition SetBit :: "u64 \<Rightarrow> bool \<Rightarrow> u64 \<Rightarrow> u64" where
  "SetBit b v bits = (if v then bits OR b else bits AND NOT b)"

definition GetGPR_x86 :: "u64 \<Rightarrow> bool" where "GetGPR_x86 = GetBit X86_REG_GROUP_GPR"
definition SetGPR_x86 :: "bool \<Rightarrow> u64 \<Rightarrow> u64" where "SetGPR_x86 = SetBit X86_REG_GROUP_GPR"
definition GetFPRAndSSE :: "u64 \<Rightarrow> bool" where "GetFPRAndSSE = GetBit X86_REG_GROUP_FPR_AND_SSE"
definition SetFPRAndSSE :: "bool \<Rightarrow> u64 \<Rightarrow> u64" where "SetFPRAndSSE = SetBit X86_REG_GROUP_FPR_AND_SSE"
definition GetAVX :: "u64 \<Rightarrow> bool" where "GetAVX = GetBit X86_REG_GROUP_AVX"
definition SetAVX :: "bool \<Rightarrow> u64 \<Rightarrow> u64" where "SetAVX = SetBit X86_REG_GROUP_AVX"
definition GetAVX512 :: "u64 \<Rightarrow> bool" where "GetAVX512 = GetBit X86_REG_GROUP_AVX512"
definition SetAVX512 :: "bool \<Rightarrow> u64 \<Rightarrow> u64" where "SetAVX512 = SetBit X86_REG_GROUP_AVX512"
definition GetAMX :: "u64 \<Rightarrow> bool" where "GetAMX = GetBit X86_REG_GROUP_AMX"
definition SetAMX :: "bool \<Rightarrow> u64 \<Rightarrow> u64" where "SetAMX = SetBit X86_REG_GROUP_AMX"
definition GetGPR_aarch64 :: "u64 \<Rightarrow> bool" where "GetGPR_aarch64 = GetBit AARCH64_REG_GROUP_GPR"
definition SetGPR_aarch64 :: "bool \<Rightarrow> u64 \<Rightarrow> u64" where "SetGPR_aarch64 = SetBit AARCH64_REG_GROUP_GPR"
definition GetFPR_aarch64 :: "u64 \<Rightarrow> bool" where "GetFPR_aarch64 = GetBit AARCH64_REG_GROUP_FPR"
definition SetFPR_aarch64 :: "bool \<Rightarrow> u64 \<Rightarrow> u64" where "SetFPR_aarch64 = SetBit AARCH64_REG_GROUP_FPR"

definition GetBits :: "nat \<Rightarrow> u64 \<Rightarrow> u64 \<Rightarrow> u64 res" where
  "GetBits offset bit_mask bits =
     rbind (check (offset < 64) ''offset < 64'') (\<lambda>_. ret (drop_bit offset (bits AND bit_mask)))"

definition SetBits :: "nat \<Rightarrow> u64 \<Rightarrow> u64 \<Rightarrow> u64 \<Rightarrow> u64 res" where
  "SetBits offset bit_mask v bits =
     rbind (check (offset < 64) ''offset < 64'') (\<lambda>_.
     rbind (check (push_bit offset v AND NOT bit_mask = 0) ''(value << offset) & ~mask == 0'') (\<lambda>_.
     ret ((bits AND NOT bit_mask) OR push_bit offset v)))"

type_synonym u16 = "16 word"

definition GetSVEVectorWidth :: "u64 \<Rightarrow> u16 res" where
  "GetSVEVectorWidth bits =
     rbind (GetBits AARCH64_SVE_VECTOR_WIDTH_OFFSET AARCH64_SVE_VECTOR_WIDTH_MASK bits) (\<lambda>w. ret (ucast w))"

definition SetSVEVectorWidth :: "u16 \<Rightarrow> u64 \<Rightarrow> u64 res" where
  "SetSVEVectorWidth vector_width bits =
     SetBits AARCH64_SVE_VECTOR_WIDTH_OFFSET AARCH64_SVE_VECTOR_WIDTH_MASK (ucast vector_width) bits"

section \<open>Register checksums\<close>

record register_checksum =
  rc_register_groups :: u64
  rc_checksum :: u64

definition RegisterChecksum_eq :: "register_checksum \<Rightarrow> register_checksum \<Rightarrow> bool" where
  "RegisterChecksum_eq x y \<longleftrightarrow> rc_register_groups x = rc_register_groups y \<and> rc_checksum x = rc_checksum y"

definition empty_register_checksum :: register_checksum where
  "empty_register_checksum = \<lparr>rc_register_groups = 0, rc_checksum = 0\<rparr>"

definition kRegisterChecksumMagic :: "byte list" where
  "kRegisterChecksumMagic = [0x52, 0x43]"

text \<open>\<open>RegisterChecksumHeader\<close>: its fields and its eight bytes.\<close>

record register_checksum_header =
  rh_magic :: "byte list"
  rh_arch :: byte
  rh_version :: byte
  rh_unused :: u32

definition kChecksumHeaderSize :: nat where "kChecksumHeaderSize = 8"
definition kChecksumSerializedSize :: nat where "kChecksumSerializedSize = kChecksumHeaderSize + 2 * 8"

definition checksum_header_bytes :: "register_checksum_header \<Rightarrow> byte list" where
  "checksum_header_bytes h = rh_magic h @ [rh_arch h, rh_version h] @ le_store 4 (rh_unused h)"

definition checksum_header_read :: "byte list \<Rightarrow> register_checksum_header" where
  "checksum_header_read src =
     \<lparr>rh_magic = take 2 src, rh_arch = src ! 2, rh_version = src ! 3, rh_unused = le_load (take 4 (drop 4 src))\<rparr>"

text \<open>\<open>memcpy(dst + offset, bytes, ...)\<close>\<close>

definition write_at :: "nat \<Rightarrow> byte list \<Rightarrow> byte list \<Rightarrow> byte list" where
  "write_at offset bytes dst = take offset dst @ bytes @ drop (offset + length bytes) dst"

text \<open>A buffer \<open>dst\<close> of \<open>n\<close> bytes is the list of its bytes; -1 is failure.\<close>

definition RegisterChecksum_Serialize ::
    "architecture_id \<Rightarrow> register_checksum \<Rightarrow> byte list \<Rightarrow> int \<times> byte list" where
  "RegisterChecksum_Serialize arch src dst =
     (if length dst < kChecksumSerializedSize then (- 1, dst)
      else let header = \<lparr>rh_magic = kRegisterChecksumMagic, rh_arch = architecture_id_byte arch, rh_version = 0, rh_unused = 0\<rparr>;
               dst = write_at 0 (checksum_header_bytes header) dst;
               dst = write_at kChecksumHeaderSize (le_store 8 (rc_register_groups src) @ le_store 8 (rc_checksum src)) dst
           in (int kChecksumSerializedSize, dst))"

definition RegisterChecksum_Deserialize ::
    "architecture_id \<Rightarrow> byte list \<Rightarrow> register_checksum \<Rightarrow> int \<times> register_checksum" where
  "RegisterChecksum_Deserialize arch src dst =
     (if length src < kChecksumSerializedSize then (- 1, dst)
      else let header = checksum_header_read src in
        if rh_magic header \<noteq> kRegisterChecksumMagic then (- 1, dst)
        else if rh_arch header \<noteq> architecture_id_byte arch then (- 1, dst)
        else if rh_version header \<noteq> 0 then (- 1, dst)
        else (int kChecksumSerializedSize,
              \<lparr>rc_register_groups = le_load (take 8 (drop kChecksumHeaderSize src)),
               rc_checksum = le_load (take 8 (drop (kChecksumHeaderSize + 8) src))\<rparr>))"

text \<open>\<open>DeserializeRegisterChecksum\<close> on a string: \<open>None\<close> is the \<open>InvalidArgument\<close> status.\<close>

definition DeserializeRegisterChecksum :: "architecture_id \<Rightarrow> byte list \<Rightarrow> register_checksum option" where
  "DeserializeRegisterChecksum arch data =
     (if data = [] then Some empty_register_checksum
      else let (bytes_consumed, register_checksum) = RegisterChecksum_Deserialize arch data empty_register_checksum
           in if bytes_consumed = - 1 then None else Some register_checksum)"

definition IsValidRegisterChecksumForArch :: "architecture_id \<Rightarrow> byte list \<Rightarrow> bool res" where
  "IsValidRegisterChecksumForArch arch data =
     (if arch = ArchUndefined then abort (Check_failed ''Unsupported architecture'')
      else ret (DeserializeRegisterChecksum arch data \<noteq> None))"

section \<open>Checksums of register buffers\<close>

definition kSveNumZReg :: nat where "kSveNumZReg = 32"
definition kSveNumPReg :: nat where "kSveNumPReg = 16"
definition kSveZRegMaxSizeBytes :: nat where "kSveZRegMaxSizeBytes = 256"
definition kSvePRegSizeZRegFactor :: nat where "kSvePRegSizeZRegFactor = 8"
definition kSvePRegMaxSizeBytes :: nat where "kSvePRegMaxSizeBytes = kSveZRegMaxSizeBytes div kSvePRegSizeZRegFactor"

definition SveZRegActiveSizeBytes :: "nat \<Rightarrow> nat" where
  "SveZRegActiveSizeBytes vl = vl * kSveNumZReg"
definition SvePRegActiveSizeBytes :: "nat \<Rightarrow> nat" where
  "SvePRegActiveSizeBytes vl = vl div kSvePRegSizeZRegFactor * kSveNumPReg"
definition SveFfrActiveSizeBytes :: "nat \<Rightarrow> nat" where
  "SveFfrActiveSizeBytes vl = vl div kSvePRegSizeZRegFactor"

text \<open>\<open>RegisterGroupIOBuffer\<close>: the arrays as the bytes they occupy.\<close>

record io_buffer_x86 =
  bx_register_groups :: u64
  bx_ymm :: "byte list"
  bx_zmm :: "byte list"
  bx_opmask :: "u64 list"

record io_buffer_aarch64 =
  ba_register_groups :: u64
  ba_ffr :: "byte list"
  ba_p :: "byte list"
  ba_z :: "byte list"

text \<open>
  \<open>crc32c\<close> is written as the table driven algorithm, which every choice of its implementation computes
  (theorem \<open>accelerated_checksum\<close>).
\<close>

definition GetRegisterGroupsChecksum_x86 :: "io_buffer_x86 \<Rightarrow> register_checksum" where
  "GetRegisterGroupsChecksum_x86 buffer =
     (let crc = 0; groups = 0;
          (crc, groups) =
            (if GetAVX (bx_register_groups buffer)
             then (crc32c_unaccelerated crc (bx_ymm buffer), SetAVX True groups) else (crc, groups));
          (crc, groups) =
            (if GetAVX512 (bx_register_groups buffer)
             then (crc32c_unaccelerated (crc32c_unaccelerated crc (bx_zmm buffer))
                     (concat (map (le_store 8) (bx_opmask buffer))), SetAVX512 True groups)
             else (crc, groups))
      in \<lparr>rc_register_groups = groups, rc_checksum = ucast crc\<rparr>)"

definition GetRegisterGroupsChecksum_aarch64 :: "io_buffer_aarch64 \<Rightarrow> register_checksum res" where
  "GetRegisterGroupsChecksum_aarch64 buffer =
     rbind (GetSVEVectorWidth (ba_register_groups buffer)) (\<lambda>sve_vector_width.
     if sve_vector_width \<noteq> 0
     then rbind (check (16 \<le> unat sve_vector_width) ''sve_vector_width >= 16'') (\<lambda>_.
          rbind (check (unat sve_vector_width \<le> kSveZRegMaxSizeBytes) ''sve_vector_width <= kSveZRegMaxSizeBytes'') (\<lambda>_.
          let vl = unat sve_vector_width;
              ffr_with_padding = write_at 0 (take (SveFfrActiveSizeBytes vl) (ba_ffr buffer)) (replicate kSvePRegMaxSizeBytes 0);
              crc = crc32c_unaccelerated 0 ffr_with_padding;
              crc = crc32c_unaccelerated crc (take (SvePRegActiveSizeBytes vl) (ba_p buffer));
              crc = crc32c_unaccelerated crc (take (SveZRegActiveSizeBytes vl) (ba_z buffer))
          in rbind (SetSVEVectorWidth sve_vector_width 0) (\<lambda>groups.
             ret \<lparr>rc_register_groups = groups, rc_checksum = ucast crc\<rparr>)))
     else ret \<lparr>rc_register_groups = 0, rc_checksum = 0\<rparr>)"

definition io_buffer_x86_eq :: "io_buffer_x86 \<Rightarrow> io_buffer_x86 \<Rightarrow> bool" where
  "io_buffer_x86_eq x y \<longleftrightarrow>
     RegisterChecksum_eq (GetRegisterGroupsChecksum_x86 x) (GetRegisterGroupsChecksum_x86 y)"

definition io_buffer_aarch64_eq :: "io_buffer_aarch64 \<Rightarrow> io_buffer_aarch64 \<Rightarrow> bool res" where
  "io_buffer_aarch64_eq x y =
     rbind (GetRegisterGroupsChecksum_aarch64 x) (\<lambda>cx.
     rbind (GetRegisterGroupsChecksum_aarch64 y) (\<lambda>cy. ret (RegisterChecksum_eq cx cy)))"

section \<open>Register group sets as sets\<close>

lemmas reg_group_masks = X86_REG_GROUP_GPR_def X86_REG_GROUP_FPR_AND_SSE_def X86_REG_GROUP_AVX_def
  X86_REG_GROUP_AVX512_def X86_REG_GROUP_AMX_def AARCH64_REG_GROUP_GPR_def AARCH64_REG_GROUP_FPR_def
  AARCH64_SVE_VECTOR_WIDTH_MASK_def

lemma GetBit_SetBit_same [simp]: "b \<noteq> 0 \<Longrightarrow> GetBit b (SetBit b v bits) = v"
proof -
  assume "b \<noteq> 0"
  moreover have "b AND (bits OR b) = b" "b AND (bits AND NOT b) = 0"
    by (rule bit_word_eqI, auto simp: bit_simps)+
  ultimately show ?thesis by (simp add: GetBit_def SetBit_def)
qed

lemma GetBit_SetBit_other: "b AND c = 0 \<Longrightarrow> GetBit b (SetBit c v bits) = GetBit b bits"
proof -
  assume d: "b AND c = 0"
  have "\<not> (bit b i \<and> bit c i)" for i
    using arg_cong [OF d, of "\<lambda>w. bit w i"] by (simp add: bit_and_iff)
  then have "b AND (bits OR c) = b AND bits" "b AND (bits AND NOT c) = b AND bits"
    by (auto intro!: bit_word_eqI simp: bit_simps)
  then show ?thesis by (simp add: GetBit_def SetBit_def)
qed

lemma unat_drop_bit_9: "unat (drop_bit 9 (w :: u16)) = unat w div 512"
  unfolding unsigned_drop_bit_eq using unsigned_less [of w, where 'a = nat]
  by (simp add: drop_bit_eq_div take_bit_nat_eq_self)

lemma SVE_width_fits: "push_bit 2 (ucast (w :: u16)) AND NOT 0x7FC = (0 :: u64) \<longleftrightarrow> unat w < 512"
proof -
  let ?h = "drop_bit 9 w"
  have m: "(0x7FC :: u64) = push_bit 2 (mask 9)" by (simp add: mask_eq_exp_minus_1 push_bit_eq_mult)
  have "push_bit 2 (ucast w) AND NOT 0x7FC = (push_bit 11 (ucast ?h) :: u64)"
    unfolding m by (rule bit_word_eqI) (auto simp: bit_simps dest: bit_imp_le_length)
  moreover have "push_bit 11 (ucast ?h) = (0 :: u64) \<longleftrightarrow> ?h = 0"
  proof
    assume "push_bit 11 (ucast ?h) = (0 :: u64)"
    then have "ucast (drop_bit 11 (push_bit 11 (ucast ?h) :: u64)) = (0 :: u16)" by simp
    moreover have "ucast (drop_bit 11 (push_bit 11 (ucast x) :: u64)) = x" for x :: u16
      by (rule bit_word_eqI) (auto simp: bit_simps)
    ultimately show "?h = 0" by metis
  qed simp
  moreover have "?h = 0 \<longleftrightarrow> unat w < 512"
  proof -
    have "?h = 0 \<longleftrightarrow> unat w div 512 = 0" by (simp only: unat_drop_bit_9 [symmetric] unat_eq_zero)
    then show ?thesis by (simp add: div_eq_0_iff)
  qed
  ultimately show ?thesis by simp
qed

lemma SVE_width_read:
  assumes "unat w < 512"
  shows "ucast (drop_bit 2 (((bits AND NOT 0x7FC) OR push_bit 2 (ucast (w :: u16))) AND 0x7FC) :: u64) = w"
proof (rule bit_word_eqI)
  have m: "(0x7FC :: u64) = push_bit 2 (mask 9)" by (simp add: mask_eq_exp_minus_1 push_bit_eq_mult)
  fix i assume i: "i < LENGTH(16)"
  have h: "drop_bit 9 w = 0"
    using assms by (simp only: word_unat_eq_iff unat_drop_bit_9) simp
  then have "\<not> bit w i" if "9 \<le> i" using that bit_drop_bit_eq [of 9 w] by (simp add: h fun_eq_iff) (metis le_add_diff_inverse)
  then show "bit (ucast (drop_bit 2 (((bits AND NOT 0x7FC) OR push_bit 2 (ucast w)) AND 0x7FC) :: u64) :: u16) i = bit w i"
    unfolding m using i by (cases "9 \<le> i") (auto simp: bit_simps)
qed

lemma register_group_set_width:
  "SetSVEVectorWidth w s = (if unat w < 512 then ret ((s AND NOT 0x7FC) OR push_bit 2 (ucast w))
      else abort (Check_failed ''(value << offset) & ~mask == 0''))"
  by (simp add: SetSVEVectorWidth_def SetBits_def AARCH64_SVE_VECTOR_WIDTH_OFFSET_def AARCH64_SVE_VECTOR_WIDTH_MASK_def
      SVE_width_fits [simplified] check_def)

section \<open>Properties\<close>

text \<open>An accessor of a register group set reads what was last set for its group and is untouched by
  the other groups, on both architectures; the width of the SVE vectors reads back while it is below
  512, a larger one fails the check and is never stored, and setting it keeps the other groups.\<close>

theorem register_group_accessors:
  "GetGPR_x86 (SetGPR_x86 v s) = v" "GetAVX (SetAVX v s) = v" "GetAVX512 (SetAVX512 v s) = v"
  "GetFPRAndSSE (SetFPRAndSSE v s) = v" "GetAMX (SetAMX v s) = v"
  "GetAVX (SetAVX512 v s) = GetAVX s" "GetAVX512 (SetAVX v s) = GetAVX512 s"
  "GetGPR_aarch64 (SetGPR_aarch64 v s) = v" "GetFPR_aarch64 (SetFPR_aarch64 v s) = v"
  "SetSVEVectorWidth w s =
     (if unat w < 512 then ret ((s AND NOT 0x7FC) OR push_bit 2 (ucast w))
      else abort (Check_failed ''(value << offset) & ~mask == 0''))"
  "rbind (SetSVEVectorWidth w s) GetSVEVectorWidth =
     (if unat w < 512 then ret w else abort (Check_failed ''(value << offset) & ~mask == 0''))"
  "rbind (SetSVEVectorWidth w s) (\<lambda>t. ret (GetFPR_aarch64 t, GetGPR_aarch64 t)) =
     (if unat w < 512 then ret (GetFPR_aarch64 s, GetGPR_aarch64 s)
      else abort (Check_failed ''(value << offset) & ~mask == 0''))"
proof -
  have keep: "m AND ((s AND NOT 0x7FC) OR push_bit 2 (ucast w)) = m AND s" if "m = 1 \<or> m = 2" for m :: u64
  proof (rule bit_word_eqI)
    have c: "(0x7FC :: u64) = push_bit 2 (mask 9)" by (simp add: mask_eq_exp_minus_1 push_bit_eq_mult)
    fix i assume "i < LENGTH(64)"
    have "bit m i \<longrightarrow> i < 2" using that bit_exp_iff [of 0 i, where 'a = "64 word"] bit_exp_iff [of 1 i, where 'a = "64 word"] by auto
    then show "bit (m AND ((s AND NOT 0x7FC) OR push_bit 2 (ucast w))) i = bit (m AND s) i"
      unfolding c by (auto simp: bit_simps)
  qed
  show "SetSVEVectorWidth w s = (if unat w < 512 then ret ((s AND NOT 0x7FC) OR push_bit 2 (ucast w))
      else abort (Check_failed ''(value << offset) & ~mask == 0''))"
    by (rule register_group_set_width)
  then show "rbind (SetSVEVectorWidth w s) GetSVEVectorWidth =
     (if unat w < 512 then ret w else abort (Check_failed ''(value << offset) & ~mask == 0''))"
    "rbind (SetSVEVectorWidth w s) (\<lambda>t. ret (GetFPR_aarch64 t, GetGPR_aarch64 t)) =
     (if unat w < 512 then ret (GetFPR_aarch64 s, GetGPR_aarch64 s)
      else abort (Check_failed ''(value << offset) & ~mask == 0''))"
    by (simp_all add: GetSVEVectorWidth_def GetBits_def AARCH64_SVE_VECTOR_WIDTH_OFFSET_def
        AARCH64_SVE_VECTOR_WIDTH_MASK_def SVE_width_read [simplified] GetFPR_aarch64_def GetGPR_aarch64_def GetBit_def
        AARCH64_REG_GROUP_FPR_def AARCH64_REG_GROUP_GPR_def keep [simplified])
qed (simp_all add: GetGPR_x86_def SetGPR_x86_def GetAVX_def SetAVX_def GetAVX512_def SetAVX512_def GetFPRAndSSE_def
    SetFPRAndSSE_def GetAMX_def SetAMX_def GetGPR_aarch64_def SetGPR_aarch64_def GetFPR_aarch64_def SetFPR_aarch64_def
    GetBit_SetBit_other reg_group_masks)

lemma checksum_header_read_bytes:
  "length (rh_magic h) = 2 \<Longrightarrow> checksum_header_read (checksum_header_bytes h @ rest) = h"
  by (cases h) (auto simp: checksum_header_read_def checksum_header_bytes_def le_load_store nth_append
      numeral_2_eq_2 length_Suc_conv)

lemmas checksum_sizes = kChecksumSerializedSize_def kChecksumHeaderSize_def kRegisterChecksumMagic_def

definition checksum_bytes :: "architecture_id \<Rightarrow> register_checksum \<Rightarrow> byte list" where
  "checksum_bytes arch c = [0x52, 0x43, architecture_id_byte arch, 0, 0, 0, 0, 0]
     @ le_store 8 (rc_register_groups c) @ le_store 8 (rc_checksum c)"

lemma Serialize_bytes:
  "24 \<le> length dst \<Longrightarrow> RegisterChecksum_Serialize arch c dst = (24, checksum_bytes arch c @ drop 24 dst)"
  by (simp add: RegisterChecksum_Serialize_def checksum_sizes checksum_header_bytes_def write_at_def checksum_bytes_def
      eval_nat_numeral Let_def)

lemma Deserialize_iff:
  "fst (RegisterChecksum_Deserialize arch src c) \<noteq> - 1 \<longleftrightarrow>
     24 \<le> length src \<and> take 4 src = [0x52, 0x43, architecture_id_byte arch, 0]"
proof (cases "24 \<le> length src")
  case True
  then obtain a b c' d rest where src: "src = a # b # c' # d # rest"
    by (auto simp: numeral_eq_Suc Suc_le_length_iff)
  show ?thesis
    using True by (auto simp: src RegisterChecksum_Deserialize_def checksum_sizes checksum_header_read_def Let_def)
qed (simp add: RegisterChecksum_Deserialize_def checksum_sizes)

lemma Deserialize_bytes:
  "RegisterChecksum_Deserialize arch (checksum_bytes arch c @ rest) d = (24, c)"
  by (cases c) (simp add: RegisterChecksum_Deserialize_def checksum_sizes checksum_header_read_def checksum_bytes_def
      le_load_store Let_def)

text \<open>A register checksum that is serialised into a buffer that can hold it is read back, whatever
  follows in the buffer; too small a buffer is refused and left alone; and what is read back is
  accepted exactly when the length, the magic number, the architecture and the version are right, so
  that no checksum of one architecture is taken for one of another.\<close>

theorem register_checksum_round_trip:
  assumes "24 \<le> length dst" "arch' \<noteq> arch" "length small < 24"
  shows "fst (RegisterChecksum_Serialize arch c dst) = 24 \<and>
    RegisterChecksum_Deserialize arch (snd (RegisterChecksum_Serialize arch c dst)) d = (24, c) \<and>
    RegisterChecksum_Deserialize arch' (snd (RegisterChecksum_Serialize arch c dst)) d = (- 1, d) \<and>
    RegisterChecksum_Serialize arch c small = (- 1, small) \<and>
    (fst (RegisterChecksum_Deserialize arch dst d) \<noteq> - 1 \<longleftrightarrow> take 4 dst = [0x52, 0x43, architecture_id_byte arch, 0])"
proof -
  have "RegisterChecksum_Deserialize arch' (snd (RegisterChecksum_Serialize arch c dst)) d = (- 1, d)"
    using assms by (cases arch; cases arch')
      (simp_all add: Serialize_bytes RegisterChecksum_Deserialize_def checksum_sizes checksum_header_read_def checksum_bytes_def
        architecture_id_byte_def Let_def)
  moreover have "RegisterChecksum_Serialize arch c small = (- 1, small)"
    using assms(3) by (simp add: RegisterChecksum_Serialize_def checksum_sizes)
  ultimately show ?thesis using assms(1) by (simp add: Serialize_bytes Deserialize_bytes Deserialize_iff)
qed

theorem register_checksum_round_trip_witness:
  "RegisterChecksum_Deserialize ArchX86_64
     (snd (RegisterChecksum_Serialize ArchX86_64 \<lparr>rc_register_groups = 4, rc_checksum = 7\<rparr> (replicate 30 1))) empty_register_checksum
   = (24, \<lparr>rc_register_groups = 4, rc_checksum = 7\<rparr>)"
  using register_checksum_round_trip [of "replicate 30 1" ArchAArch64 ArchX86_64 "[]"] by simp

text \<open>The checksum of the SVE registers depends on the vector width and the active bytes only: two
  buffers that agree on them are equal in the sense of \<open>operator==\<close>, whatever else they hold; a width
  that is neither zero nor between 16 and 256 fails a check.\<close>

theorem sve_checksum_active_bytes:
  assumes "GetSVEVectorWidth (ba_register_groups x) = ret w" "GetSVEVectorWidth (ba_register_groups y) = ret w"
    and "take (unat w div 8) (ba_ffr x) = take (unat w div 8) (ba_ffr y)"
    and "take (unat w div 8 * 16) (ba_p x) = take (unat w div 8 * 16) (ba_p y)"
    and "take (unat w * 32) (ba_z x) = take (unat w * 32) (ba_z y)"
  shows "io_buffer_aarch64_eq x y =
      (if w = 0 \<or> 16 \<le> unat w \<and> unat w \<le> 256 then ret True
       else if unat w < 16 then abort (Check_failed ''sve_vector_width >= 16'')
       else abort (Check_failed ''sve_vector_width <= kSveZRegMaxSizeBytes''))"
proof -
  have eq: "GetRegisterGroupsChecksum_aarch64 x = GetRegisterGroupsChecksum_aarch64 y"
    using assms by (simp add: GetRegisterGroupsChecksum_aarch64_def SveFfrActiveSizeBytes_def SvePRegActiveSizeBytes_def
        SveZRegActiveSizeBytes_def kSvePRegSizeZRegFactor_def kSveNumPReg_def kSveNumZReg_def)
  have width: "SetSVEVectorWidth w 0 = ret (push_bit 2 (ucast w))" if "unat w \<le> 256"
    using that register_group_set_width [of w 0] by simp
  show ?thesis
    unfolding io_buffer_aarch64_eq_def eq using assms(2) width
    by (auto simp: GetRegisterGroupsChecksum_aarch64_def check_def kSveZRegMaxSizeBytes_def RegisterChecksum_eq_def Let_def)
qed

theorem sve_checksum_active_bytes_witness:
  "io_buffer_aarch64_eq
     \<lparr>ba_register_groups = 0x40, ba_ffr = [1, 2, 3], ba_p = replicate 32 4, ba_z = replicate 512 5 @ [6]\<rparr>
     \<lparr>ba_register_groups = 0x43, ba_ffr = [1, 2, 7], ba_p = replicate 32 4, ba_z = replicate 512 5 @ [8]\<rparr> = ret True"
proof -
  have w: "GetSVEVectorWidth 0x40 = ret 16" "GetSVEVectorWidth 0x43 = ret 16"
    by (simp_all add: GetSVEVectorWidth_def GetBits_def AARCH64_SVE_VECTOR_WIDTH_OFFSET_def AARCH64_SVE_VECTOR_WIDTH_MASK_def)
  show ?thesis by (subst sve_checksum_active_bytes [where w = 16]) (simp_all add: w)
qed

end
