(* ===== verification/Reg_Serialize.thy ===== *)
theory Reg_Serialize
  imports Reg_Checksum
begin

text \<open>
  The register sets of \<open>util/ucontext/ucontext_types.h\<close> and their serialised form, \<open>ucontext/serialize.h\<close>,
  \<open>simple_serialize.h\<close> and \<open>serialize.cc\<close> of both architectures. A struct in memory is the concatenation of
  its fields; none of these structs has unnamed padding.
\<close>

section \<open>Register sets\<close>

record gregs_x86 =
  gx_r8 :: u64
  gx_r9 :: u64
  gx_r10 :: u64
  gx_r11 :: u64
  gx_r12 :: u64
  gx_r13 :: u64
  gx_r14 :: u64
  gx_r15 :: u64
  gx_rdi :: u64
  gx_rsi :: u64
  gx_rbp :: u64
  gx_rbx :: u64
  gx_rdx :: u64
  gx_rax :: u64
  gx_rcx :: u64
  gx_rsp :: u64
  gx_rip :: u64
  gx_eflags :: u64
  gx_cs :: u16
  gx_gs :: u16
  gx_fs :: u16
  gx_ss :: u16
  gx_ds :: u16
  gx_es :: u16
  gx_padding :: u32
  gx_fs_base :: u64
  gx_gs_base :: u64

record gregs_aarch64 =
  ga_x :: "u64 list"
  ga_sp :: u64
  ga_pc :: u64
  ga_pstate :: u64
  ga_tpidr :: u64
  ga_tpidrro :: u64

record fpregs_x86 =
  fx_fcw :: u16
  fx_fsw :: u16
  fx_ftw :: byte
  fx_reserved0 :: byte
  fx_fop :: u16
  fx_rip :: u64
  fx_rdp :: u64
  fx_mxcsr :: u32
  fx_mxcsr_mask :: u32
  fx_st :: "128 word list"
  fx_xmm :: "128 word list"
  fx_padding :: "byte list"

record fpregs_aarch64 =
  fa_v :: "128 word list"
  fa_fpsr :: u64
  fa_fpcr :: u64

text \<open>The array members have their fixed lengths.\<close>

definition gregs_aarch64_ok :: "gregs_aarch64 \<Rightarrow> bool" where
  "gregs_aarch64_ok g \<longleftrightarrow> length (ga_x g) = 31"

definition fpregs_x86_ok :: "fpregs_x86 \<Rightarrow> bool" where
  "fpregs_x86_ok f \<longleftrightarrow> length (fx_st f) = 8 \<and> length (fx_xmm f) = 16 \<and> length (fx_padding f) = 96"

definition fpregs_aarch64_ok :: "fpregs_aarch64 \<Rightarrow> bool" where
  "fpregs_aarch64_ok f \<longleftrightarrow> length (fa_v f) = 32"

datatype gregset = GRegs_x86 gregs_x86 | GRegs_aarch64 gregs_aarch64
datatype fpregset = FPRegs_x86 fpregs_x86 | FPRegs_aarch64 fpregs_aarch64

fun GetInstructionPointer :: "gregset \<Rightarrow> u64" where
  "GetInstructionPointer (GRegs_x86 g) = gx_rip g"
| "GetInstructionPointer (GRegs_aarch64 g) = ga_pc g"

fun SetInstructionPointer :: "u64 \<Rightarrow> gregset \<Rightarrow> gregset" where
  "SetInstructionPointer v (GRegs_x86 g) = GRegs_x86 (g\<lparr>gx_rip := v\<rparr>)"
| "SetInstructionPointer v (GRegs_aarch64 g) = GRegs_aarch64 (g\<lparr>ga_pc := v\<rparr>)"

fun GetStackPointer :: "gregset \<Rightarrow> u64" where
  "GetStackPointer (GRegs_x86 g) = gx_rsp g"
| "GetStackPointer (GRegs_aarch64 g) = ga_sp g"

fun SetStackPointer :: "u64 \<Rightarrow> gregset \<Rightarrow> gregset" where
  "SetStackPointer v (GRegs_x86 g) = GRegs_x86 (g\<lparr>gx_rsp := v\<rparr>)"
| "SetStackPointer v (GRegs_aarch64 g) = GRegs_aarch64 (g\<lparr>ga_sp := v\<rparr>)"

section \<open>The structs in memory\<close>

definition field :: "nat \<Rightarrow> nat \<Rightarrow> byte list \<Rightarrow> 'a :: len word" where
  "field width off bs = le_load (take width (drop off bs))"

definition array_field :: "nat \<Rightarrow> nat \<Rightarrow> nat \<Rightarrow> byte list \<Rightarrow> 'a :: len word list" where
  "array_field width n off bs = map (\<lambda>i. field width (off + width * i) bs) [0..<n]"

definition gregs_x86_bytes :: "gregs_x86 \<Rightarrow> byte list" where
  "gregs_x86_bytes g =
     le_store 8 (gx_r8 g) @ le_store 8 (gx_r9 g) @ le_store 8 (gx_r10 g) @ le_store 8 (gx_r11 g) @ 
     le_store 8 (gx_r12 g) @ le_store 8 (gx_r13 g) @ le_store 8 (gx_r14 g) @ le_store 8 (gx_r15 g) @ 
     le_store 8 (gx_rdi g) @ le_store 8 (gx_rsi g) @ le_store 8 (gx_rbp g) @ le_store 8 (gx_rbx g) @ 
     le_store 8 (gx_rdx g) @ le_store 8 (gx_rax g) @ le_store 8 (gx_rcx g) @ le_store 8 (gx_rsp g) @ 
     le_store 8 (gx_rip g) @ le_store 8 (gx_eflags g) @ le_store 2 (gx_cs g) @ le_store 2 (gx_gs g) @ 
     le_store 2 (gx_fs g) @ le_store 2 (gx_ss g) @ le_store 2 (gx_ds g) @ le_store 2 (gx_es g) @ 
     le_store 4 (gx_padding g) @ le_store 8 (gx_fs_base g) @ le_store 8 (gx_gs_base g)"

definition gregs_x86_read :: "byte list \<Rightarrow> gregs_x86" where
  "gregs_x86_read bs =
     \<lparr>gx_r8 = field 8 0 bs, gx_r9 = field 8 8 bs, gx_r10 = field 8 16 bs, 
      gx_r11 = field 8 24 bs, gx_r12 = field 8 32 bs, gx_r13 = field 8 40 bs, 
      gx_r14 = field 8 48 bs, gx_r15 = field 8 56 bs, gx_rdi = field 8 64 bs, 
      gx_rsi = field 8 72 bs, gx_rbp = field 8 80 bs, gx_rbx = field 8 88 bs, 
      gx_rdx = field 8 96 bs, gx_rax = field 8 104 bs, gx_rcx = field 8 112 bs, 
      gx_rsp = field 8 120 bs, gx_rip = field 8 128 bs, gx_eflags = field 8 136 bs, 
      gx_cs = field 2 144 bs, gx_gs = field 2 146 bs, gx_fs = field 2 148 bs, 
      gx_ss = field 2 150 bs, gx_ds = field 2 152 bs, gx_es = field 2 154 bs, 
      gx_padding = field 4 156 bs, gx_fs_base = field 8 160 bs, gx_gs_base = field 8 168 bs\<rparr>"

definition gregs_aarch64_bytes :: "gregs_aarch64 \<Rightarrow> byte list" where
  "gregs_aarch64_bytes g =
     concat (map (le_store 8) (ga_x g)) @ le_store 8 (ga_sp g) @ le_store 8 (ga_pc g) @
     le_store 8 (ga_pstate g) @ le_store 8 (ga_tpidr g) @ le_store 8 (ga_tpidrro g)"

definition gregs_aarch64_read :: "byte list \<Rightarrow> gregs_aarch64" where
  "gregs_aarch64_read bs =
     \<lparr>ga_x = array_field 8 31 0 bs, ga_sp = field 8 248 bs, ga_pc = field 8 256 bs,
      ga_pstate = field 8 264 bs, ga_tpidr = field 8 272 bs, ga_tpidrro = field 8 280 bs\<rparr>"

definition fpregs_x86_bytes :: "fpregs_x86 \<Rightarrow> byte list" where
  "fpregs_x86_bytes f =
     le_store 2 (fx_fcw f) @ le_store 2 (fx_fsw f) @ le_store 1 (fx_ftw f) @ le_store 1 (fx_reserved0 f) @
     le_store 2 (fx_fop f) @ le_store 8 (fx_rip f) @ le_store 8 (fx_rdp f) @ le_store 4 (fx_mxcsr f) @
     le_store 4 (fx_mxcsr_mask f) @ concat (map (le_store 16) (fx_st f)) @
     concat (map (le_store 16) (fx_xmm f)) @ fx_padding f"

definition fpregs_x86_read :: "byte list \<Rightarrow> fpregs_x86" where
  "fpregs_x86_read bs =
     \<lparr>fx_fcw = field 2 0 bs, fx_fsw = field 2 2 bs, fx_ftw = field 1 4 bs, fx_reserved0 = field 1 5 bs,
      fx_fop = field 2 6 bs, fx_rip = field 8 8 bs, fx_rdp = field 8 16 bs, fx_mxcsr = field 4 24 bs,
      fx_mxcsr_mask = field 4 28 bs, fx_st = array_field 16 8 32 bs, fx_xmm = array_field 16 16 160 bs,
      fx_padding = take 96 (drop 416 bs)\<rparr>"

definition fpregs_aarch64_bytes :: "fpregs_aarch64 \<Rightarrow> byte list" where
  "fpregs_aarch64_bytes f =
     concat (map (le_store 16) (fa_v f)) @ le_store 8 (fa_fpsr f) @ le_store 8 (fa_fpcr f)"

definition fpregs_aarch64_read :: "byte list \<Rightarrow> fpregs_aarch64" where
  "fpregs_aarch64_read bs =
     \<lparr>fa_v = array_field 16 32 0 bs, fa_fpsr = field 8 512 bs, fa_fpcr = field 8 520 bs\<rparr>"

section \<open>Serialisation of a struct\<close>

definition kHeaderSize :: nat where "kHeaderSize = 8"

record serialize_header =
  sh_magic :: u16
  sh_version :: u16
  sh_reserved :: "byte list"

definition header_bytes :: "serialize_header \<Rightarrow> byte list" where
  "header_bytes h = le_store 2 (sh_magic h) @ le_store 2 (sh_version h) @ sh_reserved h"

definition header_read :: "byte list \<Rightarrow> serialize_header" where
  "header_read bs = \<lparr>sh_magic = field 2 0 bs, sh_version = field 2 2 bs, sh_reserved = take 4 (drop 4 bs)\<rparr>"

text \<open>
  \<open>SimpleSerialize\<close> writes to a buffer, \<open>SimpleDeserialize\<close> reads the struct that starts after the header;
  \<open>size_of\<close>, \<open>bytes_of\<close> and \<open>read\<close> stand for the type \<open>T\<close>. The result is the number of bytes, -1 on failure.
\<close>

definition SimpleSerialize :: "nat \<Rightarrow> ('t \<Rightarrow> byte list) \<Rightarrow> 't \<Rightarrow> u16 \<Rightarrow> byte list \<Rightarrow> int \<times> byte list" where
  "SimpleSerialize size_of bytes_of src magic dst =
     (if length dst < kHeaderSize then (- 1, dst)
      else let hdr = \<lparr>sh_magic = magic, sh_version = 0, sh_reserved = [0, 0, 0, 0]\<rparr>;
               dst = write_at 0 (header_bytes hdr) dst
           in if length dst - kHeaderSize < size_of then (- 1, dst)
              else (int (kHeaderSize + size_of), write_at kHeaderSize (bytes_of src) dst))"

definition SimpleDeserialize :: "nat \<Rightarrow> (byte list \<Rightarrow> 't) \<Rightarrow> u16 \<Rightarrow> byte list \<Rightarrow> int \<times> 't option" where
  "SimpleDeserialize size_of read expected_magic src =
     (if length src < kHeaderSize then (- 1, None)
      else let hdr = header_read src in
        if sh_magic hdr \<noteq> expected_magic then (- 1, None)
        else if sh_version hdr \<noteq> 0 then (- 1, None)
        else if length src - kHeaderSize < size_of then (- 1, None)
        else (int (kHeaderSize + size_of), Some (read (take size_of (drop kHeaderSize src)))))"

definition MayBeSimpleSerialized :: "nat \<Rightarrow> u16 \<Rightarrow> byte list \<Rightarrow> bool" where
  "MayBeSimpleSerialized size_of expected_magic src =
     (if length src < kHeaderSize then False
      else let hdr = header_read src in
        if sh_magic hdr \<noteq> expected_magic then False
        else if sh_version hdr \<noteq> 0 then False
        else if length src - kHeaderSize < size_of then False
        else True)"

text \<open>The functions on strings: a buffer of the maximal size is filled and its used part kept. The destination is
  the result: the source checks that the string it is given is empty.\<close>

definition serialize_string :: "nat \<Rightarrow> ('t \<Rightarrow> byte list) \<Rightarrow> u16 \<Rightarrow> 't \<Rightarrow> byte list option" where
  "serialize_string size_of bytes_of magic src =
     (let (sz, data) = SimpleSerialize size_of bytes_of src magic (replicate (kHeaderSize + size_of) 0)
      in if sz < 0 then None else Some (take (nat sz) data))"

definition deserialize_string :: "nat \<Rightarrow> (byte list \<Rightarrow> 't) \<Rightarrow> u16 \<Rightarrow> byte list \<Rightarrow> 't option" where
  "deserialize_string size_of read magic src =
     (let (sz, t) = SimpleDeserialize size_of read magic src in if sz = int (length src) then t else None)"

section \<open>The instances\<close>

definition kX86_64GRegsMagic :: u16 where "kX86_64GRegsMagic = 0x6769"
definition kX86_64FPRegsMagic :: u16 where "kX86_64FPRegsMagic = 0x6669"
definition kAarch64GRegsMagic :: u16 where "kAarch64GRegsMagic = 0x6761"
definition kAarch64FPRegsMagic :: u16 where "kAarch64FPRegsMagic = 0x6661"

fun SerializeGRegs :: "gregset \<Rightarrow> byte list option" where
  "SerializeGRegs (GRegs_x86 g) = serialize_string 176 gregs_x86_bytes kX86_64GRegsMagic g"
| "SerializeGRegs (GRegs_aarch64 g) = serialize_string 288 gregs_aarch64_bytes kAarch64GRegsMagic g"

fun DeserializeGRegs :: "architecture_id \<Rightarrow> byte list \<Rightarrow> gregset option" where
  "DeserializeGRegs ArchX86_64 src = map_option GRegs_x86 (deserialize_string 176 gregs_x86_read kX86_64GRegsMagic src)"
| "DeserializeGRegs ArchAArch64 src =
     map_option GRegs_aarch64 (deserialize_string 288 gregs_aarch64_read kAarch64GRegsMagic src)"
| "DeserializeGRegs ArchUndefined src = None"

fun MayBeSerializedGRegs :: "architecture_id \<Rightarrow> byte list \<Rightarrow> bool" where
  "MayBeSerializedGRegs ArchX86_64 src = MayBeSimpleSerialized 176 kX86_64GRegsMagic src"
| "MayBeSerializedGRegs ArchAArch64 src = MayBeSimpleSerialized 288 kAarch64GRegsMagic src"
| "MayBeSerializedGRegs ArchUndefined src = False"

fun SerializeFPRegs :: "fpregset \<Rightarrow> byte list option" where
  "SerializeFPRegs (FPRegs_x86 f) = serialize_string 512 fpregs_x86_bytes kX86_64FPRegsMagic f"
| "SerializeFPRegs (FPRegs_aarch64 f) = serialize_string 528 fpregs_aarch64_bytes kAarch64FPRegsMagic f"

fun DeserializeFPRegs :: "architecture_id \<Rightarrow> byte list \<Rightarrow> fpregset option" where
  "DeserializeFPRegs ArchX86_64 src = map_option FPRegs_x86 (deserialize_string 512 fpregs_x86_read kX86_64FPRegsMagic src)"
| "DeserializeFPRegs ArchAArch64 src =
     map_option FPRegs_aarch64 (deserialize_string 528 fpregs_aarch64_read kAarch64FPRegsMagic src)"
| "DeserializeFPRegs ArchUndefined src = None"

fun MayBeSerializedFPRegs :: "architecture_id \<Rightarrow> byte list \<Rightarrow> bool" where
  "MayBeSerializedFPRegs ArchX86_64 src = MayBeSimpleSerialized 512 kX86_64FPRegsMagic src"
| "MayBeSerializedFPRegs ArchAArch64 src = MayBeSimpleSerialized 528 kAarch64FPRegsMagic src"
| "MayBeSerializedFPRegs ArchUndefined src = False"

end
