(* ===== verification/Snapshot_End_States.thy ===== *)
theory Snapshot_End_States
  imports Snapshot_Model Reg_Serialize
begin

text \<open>
  The operations of \<open>Snapshot\<close> that look at registers and end states, and those that look at the whole
  snapshot: \<open>can_set_registers\<close>, \<open>can_add_expected_end_state\<close>, \<open>can_set_memory_mappings\<close>, \<open>IsComplete\<close>, equality
  and the functions around them (\<open>common/snapshot.cc\<close>, \<open>snapshot.h\<close>). Error messages are kept without the
  numbers that are spliced into them.
\<close>

section \<open>Statuses\<close>

text \<open>\<open>RETURN_IF_NOT_OK\<close> and \<open>RETURN_IF_NOT_OK_PLUS\<close> in front of the rest of a function.\<close>

definition if_ok_then :: "status res \<Rightarrow> status res \<Rightarrow> status res" where
  "if_ok_then m rest = rbind m (\<lambda>st. if st \<noteq> OkStatus then ret st else rest)"

definition plus_prefix :: "string \<Rightarrow> status res \<Rightarrow> status res" where
  "plus_prefix prefix m = rbind m (\<lambda>st. ret (case st of OkStatus \<Rightarrow> OkStatus | InvalidArgument msg \<Rightarrow> InvalidArgument (prefix @ msg)))"

text \<open>A range-based \<open>for\<close> whose body returns when its status is not ok.\<close>

fun for_each_ok :: "('a \<Rightarrow> 's \<Rightarrow> (status \<times> 's) res) \<Rightarrow> 'a list \<Rightarrow> 's \<Rightarrow> (status \<times> 's) res" where
  "for_each_ok f [] s = ret (OkStatus, s)"
| "for_each_ok f (x # xs) s = rbind (f x s) (\<lambda>(st, s'). if st \<noteq> OkStatus then ret (st, s') else for_each_ok f xs s')"

section \<open>Registers\<close>

definition to_architecture_id :: "architecture \<Rightarrow> architecture_id" where
  "to_architecture_id a = (case a of kUnsupported \<Rightarrow> ArchUndefined | kX86_64 \<Rightarrow> ArchX86_64 | kAArch64 \<Rightarrow> ArchAArch64)"

text \<open>\<open>ARCH_DISPATCH\<close>: the instance for the architecture of the snapshot, fatal for any other value.\<close>

definition arch_dispatch :: "(architecture_id \<Rightarrow> 'a res) \<Rightarrow> snapshot \<Rightarrow> 'a res" where
  "arch_dispatch f s =
     (let arch = to_architecture_id (snap_architecture s)
      in if arch = ArchUndefined then abort (Check_failed ''Unsupported architecture'') else f arch)"

definition can_set_registers_impl :: "architecture_id \<Rightarrow> register_state \<Rightarrow> bool \<Rightarrow> snapshot \<Rightarrow> status res" where
  "can_set_registers_impl arch x is_end_state s =
     (case DeserializeGRegs arch (rs_gregs x) of
        None \<Rightarrow> ret (InvalidArgument ''Failed to deserialize gregs'')
      | Some gregs \<Rightarrow>
        if DeserializeFPRegs arch (rs_fpregs x) = None then ret (InvalidArgument ''Failed to deserialize fpregs'')
        else if is_end_state then ret OkStatus
        else rbind (IsExecutable (GetInstructionPointer gregs) 1 s) (\<lambda>ex.
          case ex of
            Inl st \<Rightarrow> ret st
          | Inr b \<Rightarrow> reject_if (\<not> b) ''instruction pointer is not in an existing executable MemoryMapping''
             (let stack_pointer = GetStackPointer gregs; stack_bytes = required_stack_size s
              in if stack_pointer < stack_bytes
                 then ret (InvalidArgument ''stack pointer and bytes before it must be within a writable MemoryMapping'')
                 else rbind (MappedMemoryMap_Perms (stack_pointer - stack_bytes) stack_pointer kAnd (snap_mapped_memory_map s)) (\<lambda>p.
                   reject_if (MemoryPerms_HasNo p kWritable)
                     ''stack pointer and bytes before it must be within a writable MemoryMapping'' (ret OkStatus)))))"

definition can_set_registers :: "register_state \<Rightarrow> bool \<Rightarrow> snapshot \<Rightarrow> status res" where
  "can_set_registers x is_end_state s = arch_dispatch (\<lambda>arch. can_set_registers_impl arch x is_end_state s) s"

definition registers_match_arch :: "register_state \<Rightarrow> snapshot \<Rightarrow> bool res" where
  "registers_match_arch x s =
     arch_dispatch (\<lambda>arch. ret (MayBeSerializedGRegs arch (rs_gregs x) \<and> MayBeSerializedFPRegs arch (rs_fpregs x))) s"

definition has_registers :: "snapshot \<Rightarrow> bool" where
  "has_registers s \<longleftrightarrow> snap_registers s \<noteq> None"

definition Snapshot_registers :: "snapshot \<Rightarrow> register_state res" where
  "Snapshot_registers s = rbind (check (has_registers s) ''has_registers()'') (\<lambda>_. ret (the (snap_registers s)))"

definition set_registers :: "register_state \<Rightarrow> snapshot \<Rightarrow> snapshot res" where
  "set_registers x s =
     rbind (registers_match_arch x s) (\<lambda>b.
     rbind (check b ''registers_match_arch(x)'') (\<lambda>_.
     rbind (dcheck_res (can_set_registers x False s)) (\<lambda>_.
     ret (s\<lparr>snap_registers := Some x\<rparr>))))"

definition kUnsetRegisterValue :: u64 where "kUnsetRegisterValue = 0"

definition extract_register :: "(gregset \<Rightarrow> u64) \<Rightarrow> register_state \<Rightarrow> snapshot \<Rightarrow> address res" where
  "extract_register get x s = arch_dispatch (\<lambda>arch.
     if rs_gregs x = [] then ret kUnsetRegisterValue
     else case DeserializeGRegs arch (rs_gregs x) of
            None \<Rightarrow> abort (Check_failed ''DeserializeGRegs(x.gregs(), &gregs)'')
          | Some gregs \<Rightarrow> ret (get gregs)) s"

definition ExtractRip :: "register_state \<Rightarrow> snapshot \<Rightarrow> address res" where
  "ExtractRip = extract_register GetInstructionPointer"

definition ExtractRsp :: "register_state \<Rightarrow> snapshot \<Rightarrow> address res" where
  "ExtractRsp = extract_register GetStackPointer"

section \<open>Expected end states\<close>

text \<open>Whether a signal may report the address: it is mapped, or negatively mapped for a SIGSEGV.\<close>

definition has_negative_mapping :: "sig_num \<Rightarrow> address \<Rightarrow> snapshot \<Rightarrow> bool" where
  "has_negative_mapping sig a s \<longleftrightarrow> sig = kSigSegv \<and>
     (MappedMemoryMap_ContainsAt a (snap_negative_mapped_memory_map s) \<or>
      a = kMaxAddress \<and> MappedMemoryMap_ContainsAt (kMaxAddress - 1) (snap_negative_mapped_memory_map s))"

definition can_add_endpoint :: "endpoint \<Rightarrow> bool \<Rightarrow> snapshot \<Rightarrow> status res" where
  "can_add_endpoint e unmapped_endpoint_ok s = (case e of
     kInstruction a \<Rightarrow>
       rbind (IsExecutable a 1 s) (\<lambda>ex. case ex of
         Inl st \<Rightarrow> ret st
       | Inr b \<Rightarrow> reject_if (\<not> unmapped_endpoint_ok \<and> \<not> b)
           ''endpoint instruction_address is not in an existing executable MemoryMapping'' (ret OkStatus))
   | kSignal sig cause sig_address sig_instruction_address \<Rightarrow>
       reject_if (sig_address \<noteq> 0 \<and> \<not> MappedMemoryMap_ContainsAt sig_address (snap_mapped_memory_map s)
                    \<and> \<not> has_negative_mapping sig sig_address s)
         ''sig_address is not in an existing MemoryMapping''
      (reject_if (\<not> unmapped_endpoint_ok \<and> \<not> MappedMemoryMap_ContainsAt sig_instruction_address (snap_mapped_memory_map s)
                    \<and> \<not> has_negative_mapping sig sig_instruction_address s)
         ''signal instruction address is not in an existing MemoryMapping'' (ret OkStatus)))"

fun end_state_bytes_writable :: "memory_bytes list \<Rightarrow> snapshot \<Rightarrow> status res" where
  "end_state_bytes_writable [] s = ret OkStatus"
| "end_state_bytes_writable (r # rs) s =
     rbind (MappedMemoryMap_Perms (mb_start r) (mb_limit r) kAnd (snap_mapped_memory_map s)) (\<lambda>p.
     reject_if (MemoryPerms_HasNo p kWritable) ''memory_bytes is not in an existing writable MemoryMapping''
       (end_state_bytes_writable rs s))"

definition can_add_expected_end_state3 :: "end_state \<Rightarrow> bool \<Rightarrow> bool \<Rightarrow> snapshot \<Rightarrow> status res" where
  "can_add_expected_end_state3 x unmapped_endpoint_ok duplicate_ok s =
     if_ok_then (can_add_endpoint (es_endpoint x) unmapped_endpoint_ok s)
    (if_ok_then
       (if rs_gregs (es_registers x) = [] \<and> rs_fpregs (es_registers x) = []
        then reject_if (es_memory_bytes x \<noteq> []) ''memory_bytes must be empty if registers are'' (ret OkStatus)
        else plus_prefix ''Bad RegisterState: '' (can_set_registers (es_registers x) True s))
    (if_ok_then (end_state_bytes_writable (es_memory_bytes x) s)
    (if_ok_then
       (if es_register_checksum x \<noteq> []
        then rbind (IsValidRegisterChecksumForArch (to_architecture_id (snap_architecture s)) (es_register_checksum x)) (\<lambda>valid.
             reject_if (\<not> valid) ''Bad register checksum'' (ret OkStatus))
        else ret OkStatus)
    (reject_if (\<not> duplicate_ok \<and> (\<exists>e \<in> set (snap_expected_end_states s). EndState_DataEquals x e))
       ''Is a dup of an existing EndState'' (ret OkStatus)))))"

definition can_add_expected_end_state :: "end_state \<Rightarrow> bool \<Rightarrow> snapshot \<Rightarrow> status res" where
  "can_add_expected_end_state x unmapped_endpoint_ok s = can_add_expected_end_state3 x unmapped_endpoint_ok False s"

definition add_expected_end_state :: "end_state \<Rightarrow> bool \<Rightarrow> snapshot \<Rightarrow> snapshot res" where
  "add_expected_end_state x unmapped_endpoint_ok s =
     rbind (dcheck_res (can_add_expected_end_state x unmapped_endpoint_ok s)) (\<lambda>_.
     ret (s\<lparr>snap_expected_end_states := snap_expected_end_states s @ [x]\<rparr>))"

text \<open>\<open>expected_end_states_[i]\<close>, an access out of range is undefined.\<close>

definition update_end_state :: "nat \<Rightarrow> (end_state \<Rightarrow> end_state res) \<Rightarrow> snapshot \<Rightarrow> snapshot res" where
  "update_end_state i f s =
     (if i < length (snap_expected_end_states s)
      then rbind (f (snap_expected_end_states s ! i)) (\<lambda>e.
           ret (s\<lparr>snap_expected_end_states := (snap_expected_end_states s)[i := e]\<rparr>))
      else abort (Undefined ''expected_end_states_[i]''))"

definition add_platform_to_expected_end_state :: "nat \<Rightarrow> nat \<Rightarrow> snapshot \<Rightarrow> snapshot res" where
  "add_platform_to_expected_end_state i platform = update_end_state i (EndState_add_platform platform)"

definition add_platforms_to_expected_end_state :: "nat \<Rightarrow> end_state \<Rightarrow> snapshot \<Rightarrow> snapshot res" where
  "add_platforms_to_expected_end_state i x = update_end_state i (\<lambda>e.
     rbind (check (EndState_DataEquals e x) ''s.DataEquals(x)'') (\<lambda>_.
     for_range (\<lambda>p e. if p < length (es_platforms x)
                     then ret (if es_platforms x ! p then e\<lparr>es_platforms := (es_platforms e)[p := True]\<rparr> else e)
                     else abort (Undefined ''platforms_[p]'')) 0 (length (es_platforms e)) e))"

definition set_expected_end_states :: "end_state list \<Rightarrow> snapshot \<Rightarrow> snapshot res" where
  "set_expected_end_states xs s = for_each (\<lambda>x. add_expected_end_state x False) xs (s\<lparr>snap_expected_end_states := []\<rparr>)"

text \<open>The argument points to the \<open>i\<close>-th end state, or elsewhere.\<close>

definition remove_expected_end_state :: "nat \<Rightarrow> snapshot \<Rightarrow> snapshot res" where
  "remove_expected_end_state i s =
     (if i < length (snap_expected_end_states s)
      then ret (s\<lparr>snap_expected_end_states := take i (snap_expected_end_states s) @ drop (Suc i) (snap_expected_end_states s)\<rparr>)
      else abort (Check_failed ''Given EndState not present''))"

fun erase_without_platform :: "nat \<Rightarrow> end_state list \<Rightarrow> end_state list res" where
  "erase_without_platform platform [] = ret []"
| "erase_without_platform platform (e # es) =
     rbind (EndState_has_platform platform e) (\<lambda>b.
     rbind (erase_without_platform platform es) (\<lambda>es'. ret (if b then e # es' else es')))"

definition limit_end_states_to_platform :: "nat \<Rightarrow> snapshot \<Rightarrow> snapshot res" where
  "limit_end_states_to_platform platform s =
     rbind (erase_without_platform platform (snap_expected_end_states s)) (\<lambda>es.
     ret (s\<lparr>snap_expected_end_states := es\<rparr>))"

fun any_has_platform :: "nat \<Rightarrow> end_state list \<Rightarrow> bool res" where
  "any_has_platform platform [] = ret False"
| "any_has_platform platform (e # es) =
     rbind (EndState_has_platform platform e) (\<lambda>b. if b then ret True else any_has_platform platform es)"

definition some_has_platform :: "nat \<Rightarrow> snapshot \<Rightarrow> bool res" where
  "some_has_platform platform s = any_has_platform platform (snap_expected_end_states s)"

section \<open>Replacing the memory mappings\<close>

definition can_set_memory_mappings :: "memory_mapping list \<Rightarrow> snapshot \<Rightarrow> status res" where
  "can_set_memory_mappings x s =
     rbind (new_snapshot (snap_architecture s) (snap_id s)) (\<lambda>copy.
     rbind (for_each_ok (\<lambda>m copy. rbind (can_add_memory_mapping m copy) (\<lambda>st.
              if st \<noteq> OkStatus then ret (st, copy)
              else rbind (add_memory_mapping m copy) (\<lambda>copy. ret (OkStatus, copy)))) x copy) (\<lambda>(st, copy).
     if st \<noteq> OkStatus then ret st else
     rbind (for_each_ok (\<lambda>m copy. rbind (can_add_negative_memory_mapping m False copy) (\<lambda>st.
              if st \<noteq> OkStatus then ret (st, copy)
              else rbind (add_negative_memory_mapping m copy) (\<lambda>copy. ret (OkStatus, copy)))) (snap_negative_memory_mappings s) copy) (\<lambda>(st, copy).
     if st \<noteq> OkStatus then ret st else
     rbind (for_each_ok (\<lambda>b copy. rbind (can_add_memory_bytes b copy) (\<lambda>st.
              if st \<noteq> OkStatus then ret (st, copy)
              else rbind (add_memory_bytes b copy) (\<lambda>copy. ret (OkStatus, copy)))) (snap_memory_bytes s) copy) (\<lambda>(st, copy).
     if st \<noteq> OkStatus then ret st else
     rbind (for_each_ok (\<lambda>r copy. rbind (can_set_registers r False copy) (\<lambda>st.
              if st \<noteq> OkStatus then ret (st, copy)
              else rbind (set_registers r copy) (\<lambda>copy. ret (OkStatus, copy))))
             (case snap_registers s of None \<Rightarrow> [] | Some r \<Rightarrow> [r]) copy) (\<lambda>(st, copy).
     if st \<noteq> OkStatus then ret st else
     rbind (for_each_ok (\<lambda>e copy. rbind (can_add_expected_end_state e False copy) (\<lambda>st.
              if st \<noteq> OkStatus then ret (st, copy)
              else rbind (add_expected_end_state e False copy) (\<lambda>copy. ret (OkStatus, copy)))) (snap_expected_end_states s) copy) (\<lambda>(st, copy).
     ret st))))))"

definition set_memory_mappings :: "memory_mapping list \<Rightarrow> snapshot \<Rightarrow> snapshot res" where
  "set_memory_mappings x s =
     rbind (dcheck_res (can_set_memory_mappings x s)) (\<lambda>_.
     rbind (for_each (\<lambda>m. MappedMemoryMap_AddNew (mm_start m) (mm_limit m) (mm_perms m)) x
              (MappedMemoryMap_Clear (snap_mapped_memory_map s))) (\<lambda>map.
     ret (s\<lparr>snap_mapped_memory_map := map, snap_memory_mappings := x\<rparr>)))"

section \<open>Completeness\<close>

definition needs_negative_mapping :: "end_state \<Rightarrow> bool" where
  "needs_negative_mapping e = (case es_endpoint e of
     kInstruction a \<Rightarrow> False
   | kSignal sig cause sig_address sig_instruction_address \<Rightarrow>
       sig = kSigSegv \<and> (cause = kSegvCantRead \<or> cause = kSegvCantWrite \<or> cause = kSegvCantExec))"

fun end_states_complete :: "snapshot_state \<Rightarrow> snapshot \<Rightarrow> end_state list \<Rightarrow> status res" where
  "end_states_complete state s [] = ret OkStatus"
| "end_states_complete state s (e # es) =
     if_ok_then (plus_prefix ''In end-state: '' (ret (EndState_IsComplete state e)))
    (if_ok_then (if state \<noteq> kMakingState then plus_prefix ''In end-state: '' (can_add_expected_end_state3 e False True s) else ret OkStatus)
       (end_states_complete state s es))"

definition Snapshot_IsComplete :: "snapshot_state \<Rightarrow> snapshot \<Rightarrow> status res" where
  "Snapshot_IsComplete state s =
     reject_if (snap_memory_mappings s = []) ''No memory_mappings''
    (let needs = (\<exists>e \<in> set (snap_expected_end_states s). needs_negative_mapping e);
         has = (snap_negative_memory_mappings s \<noteq> []) in
     reject_if (needs \<and> \<not> has) ''Missing negative_memory_mappings''
    (reject_if (\<not> needs \<and> has) ''Unnecessary negative_memory_mappings''
    (reject_if (snap_memory_bytes s = []) ''No memory_bytes''
    (reject_if (\<not> has_registers s) ''No registers''
    (reject_if (snap_expected_end_states s = [] \<and> state = kNormalState) ''No expected_end_states''
    (end_states_complete state s (snap_expected_end_states s)))))))"

definition IsCompleteSomeState :: "snapshot \<Rightarrow> status res" where
  "IsCompleteSomeState s =
     rbind (Snapshot_IsComplete kNormalState s) (\<lambda>st. if st = OkStatus then ret OkStatus else
     rbind (Snapshot_IsComplete kUndefinedEndState s) (\<lambda>st. if st = OkStatus then ret OkStatus else
     Snapshot_IsComplete kMakingState s))"

section \<open>Equality and copies\<close>

definition VectorsEqualAsSet :: "('a \<Rightarrow> 'a \<Rightarrow> bool) \<Rightarrow> 'a list \<Rightarrow> 'a list \<Rightarrow> bool" where
  "VectorsEqualAsSet eq a b \<longleftrightarrow> length a = length b \<and> (\<forall>x \<in> set a. \<exists>y \<in> set b. eq y x)"

text \<open>Both pointers to registers are read when the left one is not null.\<close>

definition registers_eq :: "register_state option \<Rightarrow> register_state option \<Rightarrow> bool res" where
  "registers_eq x y = (case x of
     None \<Rightarrow> ret (y = None)
   | Some rx \<Rightarrow> (case y of None \<Rightarrow> abort (Undefined ''*y.registers_'') | Some ry \<Rightarrow> ret (RegisterState_eq rx ry)))"

definition EqualsButEndStates :: "snapshot \<Rightarrow> snapshot \<Rightarrow> bool res" where
  "EqualsButEndStates x y =
     (if snap_id x = snap_id y \<and> snap_architecture x = snap_architecture y \<and>
         MappedMemoryMap_eq (snap_mapped_memory_map x) (snap_mapped_memory_map y) \<and>
         MemoryBytesListEq (snap_memory_bytes x) (snap_memory_bytes y)
      then registers_eq (snap_registers x) (snap_registers y) else ret False)"

definition Snapshot_eq :: "snapshot \<Rightarrow> snapshot \<Rightarrow> bool res" where
  "Snapshot_eq x y =
     (let expected_end_states_eq = VectorsEqualAsSet EndState_eq (snap_expected_end_states x) (snap_expected_end_states y);
          metadata_eq = (snap_metadata x = snap_metadata y);
          trace_metadata_eq = VectorsEqualAsSet (=) (snap_trace_metadata x) (snap_trace_metadata y)
      in rbind (EqualsButEndStates x y) (\<lambda>b.
         ret (b \<and> MappedMemoryMap_eq (snap_negative_mapped_memory_map x) (snap_negative_mapped_memory_map y) \<and>
              expected_end_states_eq \<and> metadata_eq \<and> trace_metadata_eq)))"

definition Snapshot_Copy :: "snapshot \<Rightarrow> snapshot res" where
  "Snapshot_Copy s =
     rbind (new_snapshot (snap_architecture s) (snap_id s)) (\<lambda>r.
     ret (r\<lparr>snap_mapped_memory_map := MappedMemoryMap_Copy (snap_mapped_memory_map s),
            snap_negative_mapped_memory_map := MappedMemoryMap_Copy (snap_negative_mapped_memory_map s),
            snap_written_memory_set := snap_written_memory_set s,
            snap_memory_mappings := snap_memory_mappings s,
            snap_negative_memory_mappings := snap_negative_memory_mappings s,
            snap_memory_bytes := snap_memory_bytes s,
            snap_registers := snap_registers s,
            snap_expected_end_states := snap_expected_end_states s,
            snap_metadata := snap_metadata s,
            snap_trace_metadata := snap_trace_metadata s\<rparr>))"

definition Snapshot_Clear :: "snapshot \<Rightarrow> snapshot res" where
  "Snapshot_Clear s = new_snapshot (snap_architecture s) UnsetId"

section \<open>Metadata\<close>

definition set_metadata :: "nat \<times> string \<Rightarrow> snapshot \<Rightarrow> snapshot" where
  "set_metadata m s = s\<lparr>snap_metadata := m\<rparr>"

definition set_trace_data :: "trace_data list \<Rightarrow> snapshot \<Rightarrow> snapshot" where
  "set_trace_data ts s = s\<lparr>snap_trace_metadata := ts\<rparr>"

text \<open>\<open>absl::c_lower_bound\<close> on the sorted platforms, then an insertion unless it is there.\<close>

definition TraceData_add_platform :: "nat \<Rightarrow> trace_data \<Rightarrow> trace_data res" where
  "TraceData_add_platform platform t =
     rbind (check (platform \<noteq> 0 \<and> platform < 49) ''platform != kUndefined && platform < kAny'') (\<lambda>_.
     let ps = td_platforms t; pos = length (takeWhile (\<lambda>p. p < platform) ps)
     in ret (if pos = length ps \<or> ps ! pos \<noteq> platform
             then t\<lparr>td_platforms := take pos ps @ [platform] @ drop pos ps\<rparr> else t))"

definition EqualsButPlatform :: "trace_data \<Rightarrow> trace_data \<Rightarrow> bool" where
  "EqualsButPlatform x y \<longleftrightarrow>
     td_num_instructions x = td_num_instructions y \<and> td_disassembly x = td_disassembly y"

end
