(* ===== verification/Reg_Serialize_Properties.thy ===== *)
theory Reg_Serialize_Properties
  imports Reg_Serialize
begin

text \<open>
  Serialised registers: an interface for a struct that is copied to and from memory, its four instances,
  and what serialisation promises for every instance.
\<close>

section \<open>Fields\<close>

lemma field_append:
  "off = length pre \<Longrightarrow> LENGTH('a :: len) \<le> 8 * w \<Longrightarrow> field w off (pre @ le_store w (x :: 'a word) @ rest) = x"
  by (simp add: field_def le_load_store)

lemma field_drop: "field w (off + k) bs = field w k (drop off bs)"
  by (simp add: field_def add.commute)

lemma le_store_field:
  "off + w \<le> length bs \<Longrightarrow> 8 * w \<le> LENGTH('a :: len) \<Longrightarrow> le_store w (field w off bs :: 'a word) = take w (drop off bs)"
  using le_store_load [of "take w (drop off bs)", where 'a = 'a] by (simp add: field_def min_absorb2)

lemma length_array_field [simp]: "length (array_field w n off bs) = n"
  by (simp add: array_field_def)

lemma array_field_drop: "array_field w n off bs = array_field w n 0 (drop off bs)"
  by (simp add: array_field_def field_drop [symmetric])

lemma array_field_Suc: "array_field w (Suc n) 0 bs = field w 0 bs # array_field w n 0 (drop w bs)"
  by (simp add: array_field_def field_drop [symmetric] map_upt_Suc del: upt_Suc)

lemma length_concat_le_store [simp]: "length (concat (map (le_store w) xs)) = w * length xs"
  by (induction xs) simp_all

lemma array_field_read:
  "length xs = n \<Longrightarrow> LENGTH('a :: len) \<le> 8 * w \<Longrightarrow>
     array_field w n 0 (concat (map (le_store w) xs) @ rest) = (xs :: 'a word list)"
  by (induction xs arbitrary: n) (auto simp: array_field_Suc field_def le_load_store array_field_def [of w 0])

lemma array_field_write:
  "w * n \<le> length bs \<Longrightarrow> 8 * w \<le> LENGTH('a :: len) \<Longrightarrow>
     concat (map (le_store w) (array_field w n 0 bs :: 'a word list)) = take (w * n) bs"
proof (induction n arbitrary: bs)
  case (Suc n)
  then show ?case by (simp add: array_field_Suc le_store_field take_add)
qed (simp add: array_field_def)

text \<open>Adjacent parts of a buffer.\<close>

lemma take_drop_join: "b = a + w \<Longrightarrow> take w (drop a bs) @ drop b bs = drop a bs"
  by (metis add.commute append_take_drop_id drop_drop)

lemma take_drop_join': "b = a + w \<Longrightarrow> take w (drop a bs) @ take v (drop b bs) = take (w + v) (drop a bs)"
  by (simp add: take_add [of w v "drop a bs"] add.commute [of w a])

lemma le_store_2_0: "le_store 2 (0 :: u16) = [0, 0]"
  unfolding numeral_2_eq_2 le_store.simps by simp

lemma u16_inject: "le_store 2 a = le_store 2 b \<longleftrightarrow> a = (b :: u16)"
proof
  assume "le_store 2 a = le_store 2 b"
  then have "le_load (le_store 2 a) = (le_load (le_store 2 b) :: u16)" by simp
  then show "a = b" by (simp only: le_load_store [where 'a = 16 and n = 2, simplified])
qed simp

lemma replicate_6: "replicate 6 (0 :: byte) = [0, 0] @ [0, 0, 0, 0]"
  by (simp add: numeral_eq_Suc)

section \<open>The interface of a struct in memory\<close>

locale pod_struct =
  fixes size_of :: nat and bytes_of :: "'t \<Rightarrow> byte list" and read :: "byte list \<Rightarrow> 't" and ok :: "'t \<Rightarrow> bool"
  assumes length_bytes: "ok x \<Longrightarrow> length (bytes_of x) = size_of"
    and read_bytes: "ok x \<Longrightarrow> read (bytes_of x) = x"
    and bytes_read: "length bs = size_of \<Longrightarrow> ok (read bs) \<and> bytes_of (read bs) = bs"
begin

lemma simple_serialize:
  assumes "ok x" "length dst = 8 + size_of"
  shows "SimpleSerialize size_of bytes_of x magic dst = (int (8 + size_of), le_store 2 magic @ replicate 6 0 @ bytes_of x)"
proof -
  let ?hdr = "header_bytes \<lparr>sh_magic = magic, sh_version = 0, sh_reserved = [0, 0, 0, 0]\<rparr>"
  have hdr: "?hdr = le_store 2 magic @ replicate 6 0"
    by (simp only: header_bytes_def serialize_header.simps le_store_2_0 replicate_6)
  have len: "length ?hdr = 8" by (simp add: hdr)
  have one: "write_at 0 ?hdr dst = ?hdr @ drop 8 dst" using len by (simp add: write_at_def)
  have two: "write_at 8 (bytes_of x) (?hdr @ drop 8 dst) = ?hdr @ bytes_of x"
    using length_bytes [OF assms(1)] len assms(2) by (simp add: write_at_def)
  have "length (?hdr @ drop 8 dst) = 8 + size_of" using len assms(2) by simp
  then show ?thesis
    unfolding SimpleSerialize_def kHeaderSize_def Let_def one two using assms(2) hdr by simp
qed

lemma serialize: "ok x \<Longrightarrow> serialize_string size_of bytes_of magic x = Some (le_store 2 magic @ replicate 6 0 @ bytes_of x)"
proof -
  assume x: "ok x"
  have "length (replicate (kHeaderSize + size_of) 0) = 8 + size_of" by (simp add: kHeaderSize_def)
  note w = simple_serialize [OF x this, of magic]
  have "length (le_store 2 magic @ replicate 6 0 @ bytes_of x) = 8 + size_of" using length_bytes [OF x] by simp
  then show ?thesis unfolding serialize_string_def w by simp
qed

lemma deserialize_iff: "deserialize_string size_of read magic bs = Some x \<longleftrightarrow>
    length bs = 8 + size_of \<and> take 4 bs = le_store 2 magic @ [0, 0] \<and> x = read (drop 8 bs)"
proof -
  have "take 4 bs = le_store 2 magic @ [0, 0] \<longleftrightarrow> field 2 0 bs = magic \<and> field 2 2 bs = (0 :: u16)"
    if "8 \<le> length bs"
  proof -
    have "take 4 bs = le_store 2 (field 2 0 bs :: u16) @ le_store 2 (field 2 2 bs :: u16)"
      using that take_drop_join' [of 2 0 2 bs 2] by (simp add: le_store_field)
    then show ?thesis by (simp only: le_store_2_0 [symmetric] append_eq_append_conv length_le_store u16_inject simp_thms)
  qed
  then show ?thesis
    by (auto simp: deserialize_string_def SimpleDeserialize_def header_read_def kHeaderSize_def Let_def)
qed

lemma may_be_serialized: "deserialize_string size_of read magic bs = Some x \<Longrightarrow> MayBeSimpleSerialized size_of magic bs"
  by (auto simp: deserialize_string_def SimpleDeserialize_def MayBeSimpleSerialized_def Let_def split: if_splits)

lemma round_trip:
  assumes "ok x"
  shows "\<exists>bs. serialize_string size_of bytes_of magic x = Some bs \<and> deserialize_string size_of read magic bs = Some x"
proof (intro exI conjI)
  show "serialize_string size_of bytes_of magic x = Some (le_store 2 magic @ replicate 6 0 @ bytes_of x)"
    by (rule serialize [OF assms])
  show "deserialize_string size_of read magic (le_store 2 magic @ replicate 6 0 @ bytes_of x) = Some x"
    unfolding deserialize_iff replicate_6 using length_bytes [OF assms] read_bytes [OF assms] by simp
qed

lemma read_back:
  assumes "deserialize_string size_of read magic bs = Some x"
  shows "ok x \<and> serialize_string size_of bytes_of magic x = Some (take 4 bs @ [0, 0, 0, 0] @ drop 8 bs)"
proof -
  have "length bs = 8 + size_of" and bs: "take 4 bs = le_store 2 magic @ [0, 0]" and x: "x = read (drop 8 bs)"
    using assms by (simp_all add: deserialize_iff)
  then have read: "ok x \<and> bytes_of x = drop 8 bs" using bytes_read [of "drop 8 bs"] by simp
  then show ?thesis using serialize [of x magic] by (simp add: bs replicate_6)
qed

lemma same_magic:
  "deserialize_string size_of read magic bs = Some x \<Longrightarrow> MayBeSimpleSerialized size' magic' bs \<Longrightarrow> magic' = magic"
  by (auto simp: deserialize_string_def SimpleDeserialize_def MayBeSimpleSerialized_def Let_def split: if_splits)

end

interpretation gx: pod_struct 176 gregs_x86_bytes gregs_x86_read "\<lambda>_. True"
proof unfold_locales
  fix x
  show "length (gregs_x86_bytes x) = 176" by (simp add: gregs_x86_bytes_def)
  show "gregs_x86_read (gregs_x86_bytes x) = x"
    by (cases x) (simp add: gregs_x86_bytes_def gregs_x86_read_def field_def le_load_store)
next
  fix bs :: "byte list" assume "length bs = 176"
  then show "True \<and> gregs_x86_bytes (gregs_x86_read bs) = bs"
    by (simp add: gregs_x86_bytes_def gregs_x86_read_def le_store_field take_drop_join)
qed

interpretation ga: pod_struct 288 gregs_aarch64_bytes gregs_aarch64_read gregs_aarch64_ok
proof unfold_locales
  fix x assume "gregs_aarch64_ok x"
  then have x: "length (ga_x x) = 31" by (simp add: gregs_aarch64_ok_def)
  then show "length (gregs_aarch64_bytes x) = 288" by (simp add: gregs_aarch64_bytes_def)
  show "gregs_aarch64_read (gregs_aarch64_bytes x) = x"
    using x by (cases x) (simp add: gregs_aarch64_bytes_def gregs_aarch64_read_def field_def le_load_store array_field_read)
next
  fix bs :: "byte list" assume "length bs = 288"
  then show "gregs_aarch64_ok (gregs_aarch64_read bs) \<and> gregs_aarch64_bytes (gregs_aarch64_read bs) = bs"
    by (simp add: gregs_aarch64_bytes_def gregs_aarch64_read_def gregs_aarch64_ok_def le_store_field array_field_write take_drop_join)
qed

interpretation fx: pod_struct 512 fpregs_x86_bytes fpregs_x86_read fpregs_x86_ok
proof unfold_locales
  fix x assume "fpregs_x86_ok x"
  then have x: "length (fx_st x) = 8" "length (fx_xmm x) = 16" "length (fx_padding x) = 96" by (simp_all add: fpregs_x86_ok_def)
  then show "length (fpregs_x86_bytes x) = 512" by (simp add: fpregs_x86_bytes_def)
  show "fpregs_x86_read (fpregs_x86_bytes x) = x"
    using x by (cases x) (simp add: fpregs_x86_bytes_def fpregs_x86_read_def field_def le_load_store array_field_read
        array_field_drop [of 16 8 32] array_field_drop [of 16 16 160])
next
  fix bs :: "byte list" assume "length bs = 512"
  then show "fpregs_x86_ok (fpregs_x86_read bs) \<and> fpregs_x86_bytes (fpregs_x86_read bs) = bs"
    by (simp add: fpregs_x86_bytes_def fpregs_x86_read_def fpregs_x86_ok_def le_store_field array_field_write take_drop_join
        array_field_drop [of 16 8 32] array_field_drop [of 16 16 160] del: le_store.simps One_nat_def)
qed

interpretation fa: pod_struct 528 fpregs_aarch64_bytes fpregs_aarch64_read fpregs_aarch64_ok
proof unfold_locales
  fix x assume "fpregs_aarch64_ok x"
  then have x: "length (fa_v x) = 32" by (simp add: fpregs_aarch64_ok_def)
  then show "length (fpregs_aarch64_bytes x) = 528" by (simp add: fpregs_aarch64_bytes_def)
  show "fpregs_aarch64_read (fpregs_aarch64_bytes x) = x"
    using x by (cases x) (simp add: fpregs_aarch64_bytes_def fpregs_aarch64_read_def field_def le_load_store array_field_read)
next
  fix bs :: "byte list" assume "length bs = 528"
  then show "fpregs_aarch64_ok (fpregs_aarch64_read bs) \<and> fpregs_aarch64_bytes (fpregs_aarch64_read bs) = bs"
    by (simp add: fpregs_aarch64_bytes_def fpregs_aarch64_read_def fpregs_aarch64_ok_def le_store_field array_field_write take_drop_join)
qed

section \<open>Properties\<close>

fun gregset_arch :: "gregset \<Rightarrow> architecture_id" where
  "gregset_arch (GRegs_x86 g) = ArchX86_64"
| "gregset_arch (GRegs_aarch64 g) = ArchAArch64"

fun fpregset_arch :: "fpregset \<Rightarrow> architecture_id" where
  "fpregset_arch (FPRegs_x86 f) = ArchX86_64"
| "fpregset_arch (FPRegs_aarch64 f) = ArchAArch64"

fun gregset_ok :: "gregset \<Rightarrow> bool" where
  "gregset_ok (GRegs_x86 g) = True"
| "gregset_ok (GRegs_aarch64 g) = gregs_aarch64_ok g"

fun fpregset_ok :: "fpregset \<Rightarrow> bool" where
  "fpregset_ok (FPRegs_x86 f) = fpregs_x86_ok f"
| "fpregset_ok (FPRegs_aarch64 f) = fpregs_aarch64_ok f"

lemmas reg_magics = kX86_64GRegsMagic_def kX86_64FPRegsMagic_def kAarch64GRegsMagic_def kAarch64FPRegsMagic_def

lemma DeserializeGRegs_arch: "DeserializeGRegs arch bs = Some g \<Longrightarrow> gregset_arch g = arch \<and> gregset_ok g"
  using gx.read_back ga.read_back by (cases arch) fastforce+

lemma DeserializeFPRegs_arch: "DeserializeFPRegs arch bs = Some f \<Longrightarrow> fpregset_arch f = arch \<and> fpregset_ok f"
  using fx.read_back fa.read_back by (cases arch) fastforce+

lemma DeserializeGRegs_may_be: "DeserializeGRegs arch bs = Some g \<Longrightarrow> MayBeSerializedGRegs arch bs"
  by (cases arch) (auto dest: gx.may_be_serialized ga.may_be_serialized)

lemma DeserializeFPRegs_may_be: "DeserializeFPRegs arch bs = Some f \<Longrightarrow> MayBeSerializedFPRegs arch bs"
  by (cases arch) (auto dest: fx.may_be_serialized fa.may_be_serialized)

text \<open>C39: the registers of either architecture survive serialisation: the string that is written is read
  back as the same registers. A string that is read back is the one that would be written, up to the
  four reserved bytes of its header.\<close>

theorem registers_round_trip:
  assumes "gregset_ok g" "fpregset_ok f"
  shows "(\<exists>bs. SerializeGRegs g = Some bs \<and> DeserializeGRegs (gregset_arch g) bs = Some g) \<and>
    (\<exists>bs. SerializeFPRegs f = Some bs \<and> DeserializeFPRegs (fpregset_arch f) bs = Some f) \<and>
    (DeserializeGRegs arch bs = Some g \<longrightarrow> SerializeGRegs g = Some (take 4 bs @ [0, 0, 0, 0] @ drop 8 bs)) \<and>
    (DeserializeFPRegs arch bs = Some f \<longrightarrow> SerializeFPRegs f = Some (take 4 bs @ [0, 0, 0, 0] @ drop 8 bs))"
proof (intro conjI impI)
  show "\<exists>bs. SerializeGRegs g = Some bs \<and> DeserializeGRegs (gregset_arch g) bs = Some g"
    using assms(1) gx.round_trip ga.round_trip by (cases g) fastforce+
  show "\<exists>bs. SerializeFPRegs f = Some bs \<and> DeserializeFPRegs (fpregset_arch f) bs = Some f"
    using assms(2) fx.round_trip fa.round_trip by (cases f) fastforce+
  show "DeserializeGRegs arch bs = Some g \<Longrightarrow> SerializeGRegs g = Some (take 4 bs @ [0, 0, 0, 0] @ drop 8 bs)"
    using gx.read_back ga.read_back by (cases arch) fastforce+
  show "DeserializeFPRegs arch bs = Some f \<Longrightarrow> SerializeFPRegs f = Some (take 4 bs @ [0, 0, 0, 0] @ drop 8 bs)"
    using fx.read_back fa.read_back by (cases arch) fastforce+
qed

definition sample_gregs :: gregset where
  "sample_gregs = GRegs_aarch64 \<lparr>ga_x = replicate 31 7, ga_sp = 0x2000, ga_pc = 0x1000, ga_pstate = 0, ga_tpidr = 1, ga_tpidrro = 2\<rparr>"

definition sample_fpregs :: fpregset where
  "sample_fpregs = FPRegs_aarch64 \<lparr>fa_v = replicate 32 9, fa_fpsr = 3, fa_fpcr = 4\<rparr>"

theorem registers_round_trip_witness:
  "\<exists>bs. SerializeGRegs sample_gregs = Some bs \<and> DeserializeGRegs ArchAArch64 bs = Some sample_gregs"
proof -
  have "gregset_ok sample_gregs" "fpregset_ok sample_fpregs"
    by (simp_all add: sample_gregs_def sample_fpregs_def gregs_aarch64_ok_def fpregs_aarch64_ok_def)
  from registers_round_trip [OF this] show ?thesis by (simp add: sample_gregs_def)
qed

text \<open>C40: what is read back as registers of one architecture passes the lighter test \<open>MayBeSerialized\<close> of that
  architecture, has its type, and fails the test of the other architecture and the test for the other
  kind of registers.\<close>

theorem deserialized_registers_type:
  assumes "DeserializeGRegs arch gs = Some g" "DeserializeFPRegs arch fs = Some f"
  shows "gregset_arch g = arch \<and> gregset_ok g \<and> fpregset_arch f = arch \<and> fpregset_ok f \<and>
    (MayBeSerializedGRegs a gs \<longleftrightarrow> a = arch) \<and> (MayBeSerializedFPRegs a fs \<longleftrightarrow> a = arch) \<and>
    \<not> MayBeSerializedFPRegs a gs \<and> \<not> MayBeSerializedGRegs a fs"
proof -
  have "\<not> MayBeSerializedFPRegs a gs \<and> \<not> MayBeSerializedGRegs a fs"
    using assms by (cases arch; cases a)
      (auto dest: gx.same_magic ga.same_magic fx.same_magic fa.same_magic simp: reg_magics)
  moreover have "a \<noteq> arch \<Longrightarrow> \<not> MayBeSerializedGRegs a gs \<and> \<not> MayBeSerializedFPRegs a fs"
    using assms by (cases arch; cases a)
      (auto dest: gx.same_magic ga.same_magic fx.same_magic fa.same_magic simp: reg_magics)
  ultimately show ?thesis
    using assms DeserializeGRegs_arch DeserializeFPRegs_arch DeserializeGRegs_may_be DeserializeFPRegs_may_be by blast
qed

theorem deserialized_registers_type_witness:
  "\<exists>gs fs. MayBeSerializedGRegs ArchAArch64 gs \<and> MayBeSerializedFPRegs ArchAArch64 fs \<and>
     \<not> MayBeSerializedGRegs ArchX86_64 gs \<and> \<not> MayBeSerializedFPRegs ArchAArch64 gs"
proof -
  have ok: "gregset_ok sample_gregs" "fpregset_ok sample_fpregs"
    by (simp_all add: sample_gregs_def sample_fpregs_def gregs_aarch64_ok_def fpregs_aarch64_ok_def)
  obtain gs where gs: "DeserializeGRegs ArchAArch64 gs = Some sample_gregs"
    using ga.round_trip ok by (fastforce simp: sample_gregs_def)
  obtain fs where fs: "DeserializeFPRegs ArchAArch64 fs = Some sample_fpregs"
    using fa.round_trip ok by (fastforce simp: sample_fpregs_def)
  show ?thesis using deserialized_registers_type [OF gs fs, of ArchAArch64] deserialized_registers_type [OF gs fs, of ArchX86_64]
    by blast
qed

end
