(* ===== verification/Snapshot_End_State_Facts.thy ===== *)
theory Snapshot_End_State_Facts
  imports Snapshot_Properties Snapshot_End_States Reg_Serialize_Properties
begin

text \<open>
  What the checks of registers and end states mean for a snapshot that keeps its invariant, and the
  invariant of the whole snapshot: registers and end states that were accepted stay acceptable.
\<close>

section \<open>Permissions of a range\<close>

definition permits :: "permission \<Rightarrow> address \<Rightarrow> address \<Rightarrow> memory_mapping list \<Rightarrow> bool" where
  "permits p a b ms \<longleftrightarrow> (\<forall>k. a \<le> k \<and> k < b \<longrightarrow> (\<exists>q. mappings_at ms k = Some q \<and> p \<in> perms_set q))"

lemma And_perms:
  assumes "snapshot_ok s" "a < b"
  obtains r where "MappedMemoryMap_Perms a b kAnd (snap_mapped_memory_map s) = ret r"
    "\<And>p. p \<in> perms_set r \<longleftrightarrow> permits p a b (snap_memory_mappings s)"
proof -
  have "mapped_map_ok (snap_mapped_memory_map s)"
    "\<And>k. perms_at (snap_mapped_memory_map s) k = mappings_at (snap_memory_mappings s) k"
    using assms(1) by (simp_all add: snapshot_ok_def represents_def)
  with Perms_returns [OF this(1) assms(2), of kAnd] that show thesis
    by (auto simp: permits_def elim!: returnsE)
qed

lemma permits_mono:
  assumes "permits p a b ms" "\<And>k q. mappings_at ms k = Some q \<Longrightarrow> mappings_at ms' k = Some q"
  shows "permits p a b ms'"
  using assms unfolding permits_def by blast

definition executable_at :: "address \<Rightarrow> memory_mapping list \<Rightarrow> bool" where
  "executable_at a ms \<longleftrightarrow> (\<exists>q. mappings_at ms a = Some q \<and> kExecutable \<in> perms_set q)"

lemma below_kMaxAddress: "a \<noteq> kMaxAddress \<Longrightarrow> unat a + 1 < 2 ^ 64"
  using unat_u64_lt [of a] by (auto simp: word_unat_eq_iff unat_kMaxAddress)

lemma u64_suc: "a \<noteq> kMaxAddress \<Longrightarrow> a < a + 1 \<and> (\<forall>k. a \<le> k \<and> k < a + 1 \<longleftrightarrow> k = a)" for a :: u64
proof -
  assume "a \<noteq> kMaxAddress"
  then have "unat a + 1 < 2 ^ 64" by (rule below_kMaxAddress)
  then have "unat (a + 1) = unat a + 1" by (simp add: unat_word_ariths)
  then show ?thesis by (auto simp: word_less_nat_alt word_le_nat_alt word_unat_eq_iff)
qed

lemma IsExecutable_at:
  assumes "snapshot_ok s"
  obtains st where "a = kMaxAddress" "st \<noteq> OkStatus" "IsExecutable a 1 s = ret (Inl st)"
  | "a \<noteq> kMaxAddress" "IsExecutable a 1 s = ret (Inr (executable_at a (snap_memory_mappings s)))"
proof (cases "a = kMaxAddress")
  case True
  then have "CanMakeSized a 1 \<noteq> OkStatus" by (simp add: CanMakeSized_iff unat_kMaxAddress)
  then show thesis using that(1) True by (simp add: IsExecutable_def)
next
  case False
  have c: "CanMakeSized a 1 = OkStatus" using below_kMaxAddress [OF False] by (simp add: CanMakeSized_iff)
  obtain r where "MappedMemoryMap_Perms a (a + 1) kAnd (snap_mapped_memory_map s) = ret r"
    "\<And>p. p \<in> perms_set r \<longleftrightarrow> permits p a (a + 1) (snap_memory_mappings s)"
    using And_perms [OF assms] u64_suc [OF False] by blast
  then have "IsExecutable a 1 s = ret (Inr (executable_at a (snap_memory_mappings s)))"
    using u64_suc [OF False] by (simp add: IsExecutable_def c HasPermission_iff permits_def executable_at_def)
  with False that(2) show thesis by blast
qed

section \<open>Registers\<close>

definition registers_decode :: "register_state \<Rightarrow> snapshot \<Rightarrow> bool" where
  "registers_decode x s \<longleftrightarrow> DeserializeGRegs (to_architecture_id (snap_architecture s)) (rs_gregs x) \<noteq> None \<and>
     DeserializeFPRegs (to_architecture_id (snap_architecture s)) (rs_fpregs x) \<noteq> None"

definition registers_acceptable :: "register_state \<Rightarrow> snapshot \<Rightarrow> bool" where
  "registers_acceptable x s \<longleftrightarrow>
     (\<exists>g. DeserializeGRegs (to_architecture_id (snap_architecture s)) (rs_gregs x) = Some g \<and>
        DeserializeFPRegs (to_architecture_id (snap_architecture s)) (rs_fpregs x) \<noteq> None \<and>
        GetInstructionPointer g \<noteq> kMaxAddress \<and>
        executable_at (GetInstructionPointer g) (snap_memory_mappings s) \<and>
        required_stack_size s \<le> GetStackPointer g \<and>
        permits kWritable (GetStackPointer g - required_stack_size s) (GetStackPointer g) (snap_memory_mappings s))"

lemma snapshot_arch:
  assumes "snapshot_ok s"
  shows "to_architecture_id (snap_architecture s) \<noteq> ArchUndefined" "required_stack_size s \<in> {16, 32}"
  using assms
  by (cases "snap_architecture s"; simp add: snapshot_ok_def to_architecture_id_def required_stack_size_def
      architecture_descr_def kSupportedArchitectures_def)+

lemma arch_dispatch_ok: "snapshot_ok s \<Longrightarrow> arch_dispatch f s = f (to_architecture_id (snap_architecture s))"
  by (simp add: arch_dispatch_def snapshot_arch(1))

lemma can_set_end_registers:
  assumes "snapshot_ok s"
  shows "returns (\<lambda>st. st = OkStatus \<longleftrightarrow> registers_decode x s) (can_set_registers x True s)"
  unfolding can_set_registers_def arch_dispatch_ok [OF assms] can_set_registers_impl_def
  by (simp add: registers_decode_def split: option.splits)

lemma stack_below:
  assumes "snapshot_ok s" "required_stack_size s \<le> sp"
  shows "sp - required_stack_size s < sp"
proof -
  have "unat (required_stack_size s) > 0" using snapshot_arch(2) [OF assms(1)] by auto
  then show ?thesis using assms(2) by (simp add: word_less_nat_alt word_le_nat_alt unat_sub)
qed

lemma can_set_registers_returns:
  assumes s: "snapshot_ok s"
  shows "returns (\<lambda>st. st = OkStatus \<longleftrightarrow> registers_acceptable x s) (can_set_registers x False s)"
proof (cases "registers_decode x s")
  case False
  then show ?thesis
    unfolding can_set_registers_def arch_dispatch_ok [OF s] can_set_registers_impl_def
    by (auto simp: registers_decode_def registers_acceptable_def split: option.splits)
next
  case True
  then obtain g f where g: "DeserializeGRegs (to_architecture_id (snap_architecture s)) (rs_gregs x) = Some g"
    "DeserializeFPRegs (to_architecture_id (snap_architecture s)) (rs_fpregs x) = Some f"
    by (auto simp: registers_decode_def)
  have impl: "can_set_registers x False s = can_set_registers_impl (to_architecture_id (snap_architecture s)) x False s"
    by (simp add: can_set_registers_def arch_dispatch_ok [OF s])
  show ?thesis
  proof (cases rule: IsExecutable_at [OF s, of "GetInstructionPointer g"])
    case (1 st)
    then show ?thesis by (simp add: impl can_set_registers_impl_def g registers_acceptable_def)
  next
    case 2
    show ?thesis
    proof (cases "required_stack_size s \<le> GetStackPointer g")
      case False
      then show ?thesis
        by (simp add: impl can_set_registers_impl_def g registers_acceptable_def 2 Let_def not_le reject_if_def)
    next
      case True
      obtain r where "MappedMemoryMap_Perms (GetStackPointer g - required_stack_size s) (GetStackPointer g) kAnd
          (snap_mapped_memory_map s) = ret r" "\<And>p. p \<in> perms_set r \<longleftrightarrow>
          permits p (GetStackPointer g - required_stack_size s) (GetStackPointer g) (snap_memory_mappings s)"
        using And_perms [OF s stack_below [OF s True]] by blast
      then show ?thesis using True leD [OF True]
        by (simp add: impl can_set_registers_impl_def g registers_acceptable_def 2 Let_def reject_if_def
            MemoryPerms_HasNo_def HasPermission_iff)
    qed
  qed
qed

lemma registers_match:
  assumes "snapshot_ok s" "registers_acceptable x s"
  shows "registers_match_arch x s = ret True"
  using assms(2)
  by (auto simp: registers_match_arch_def arch_dispatch_ok [OF assms(1)] registers_acceptable_def
      intro: DeserializeGRegs_may_be DeserializeFPRegs_may_be)

lemma set_registers_eq:
  assumes "snapshot_ok s" "registers_acceptable x s"
  shows "set_registers x s = ret (s\<lparr>snap_registers := Some x\<rparr>)"
  using can_set_registers_returns [OF assms(1), of x] assms
  by (simp add: set_registers_def registers_match dcheck_res_ok)

section \<open>End states\<close>

text \<open>An address a signal may report.\<close>

definition reportable :: "sig_num \<Rightarrow> address \<Rightarrow> snapshot \<Rightarrow> bool" where
  "reportable sig a s \<longleftrightarrow> mappings_at (snap_memory_mappings s) a \<noteq> None \<or>
     sig = kSigSegv \<and> (mappings_at (snap_negative_memory_mappings s) a \<noteq> None \<or>
       a = kMaxAddress \<and> mappings_at (snap_negative_memory_mappings s) (kMaxAddress - 1) \<noteq> None)"

fun endpoint_fits :: "bool \<Rightarrow> endpoint \<Rightarrow> snapshot \<Rightarrow> bool" where
  "endpoint_fits unmapped_ok (kInstruction a) s \<longleftrightarrow>
     a \<noteq> kMaxAddress \<and> (unmapped_ok \<or> executable_at a (snap_memory_mappings s))"
| "endpoint_fits unmapped_ok (kSignal sig cause a i) s \<longleftrightarrow>
     (a = 0 \<or> reportable sig a s) \<and> (unmapped_ok \<or> reportable sig i s)"

definition end_state_fits :: "bool \<Rightarrow> end_state \<Rightarrow> snapshot \<Rightarrow> bool" where
  "end_state_fits unmapped_ok e s \<longleftrightarrow>
     endpoint_fits unmapped_ok (es_endpoint e) s \<and>
     (if RegisterState_IsUnset (es_registers e) then es_memory_bytes e = [] else registers_decode (es_registers e) s) \<and>
     (\<forall>b \<in> set (es_memory_bytes e). permits kWritable (mb_start b) (mb_limit b) (snap_memory_mappings s)) \<and>
     (es_register_checksum e = [] \<or>
      DeserializeRegisterChecksum (to_architecture_id (snap_architecture s)) (es_register_checksum e) \<noteq> None)"

lemma reportable_eq:
  assumes "snapshot_ok s"
  shows "MappedMemoryMap_ContainsAt a (snap_mapped_memory_map s) \<or> has_negative_mapping sig a s \<longleftrightarrow> reportable sig a s"
proof -
  have "mapped_map_ok (snap_mapped_memory_map s)" "mapped_map_ok (snap_negative_mapped_memory_map s)"
    "\<And>k. perms_at (snap_mapped_memory_map s) k = mappings_at (snap_memory_mappings s) k"
    "\<And>k. perms_at (snap_negative_mapped_memory_map s) k = mappings_at (snap_negative_memory_mappings s) k"
    using assms by (simp_all add: snapshot_ok_def represents_def)
  then show ?thesis by (simp add: has_negative_mapping_def reportable_def ContainsAt_iff)
qed

lemma can_add_endpoint_returns:
  assumes "snapshot_ok s"
  shows "returns (\<lambda>st. st = OkStatus \<longleftrightarrow> endpoint_fits u e s) (can_add_endpoint e u s)"
proof (cases e)
  case (kInstruction a)
  show ?thesis
    by (cases rule: IsExecutable_at [OF assms, of a])
      (auto simp: kInstruction can_add_endpoint_def reject_if_def)
next
  case (kSignal sig cause a i)
  show ?thesis
    using reportable_eq [OF assms, of a sig] reportable_eq [OF assms, of i sig]
    by (auto simp: kSignal can_add_endpoint_def reject_if_def)
qed

lemma end_state_bytes_returns:
  assumes "snapshot_ok s" "\<forall>b \<in> set bs. bytes_ok b"
  shows "returns (\<lambda>st. st = OkStatus \<longleftrightarrow>
    (\<forall>b \<in> set bs. permits kWritable (mb_start b) (mb_limit b) (snap_memory_mappings s))) (end_state_bytes_writable bs s)"
  using assms(2)
proof (induction bs)
  case (Cons b bs)
  obtain r where "MappedMemoryMap_Perms (mb_start b) (mb_limit b) kAnd (snap_mapped_memory_map s) = ret r"
    "\<And>p. p \<in> perms_set r \<longleftrightarrow> permits p (mb_start b) (mb_limit b) (snap_memory_mappings s)"
    using And_perms [OF assms(1) bytes_ok_limit(1)] Cons.prems by auto
  then show ?case using Cons by (auto simp: reject_if_def MemoryPerms_HasNo_def HasPermission_iff elim: returns_mono)
qed simp

lemma if_ok_then_returns:
  assumes "returns (\<lambda>st. st = OkStatus \<longleftrightarrow> P) m" "P \<Longrightarrow> returns (\<lambda>st. st = OkStatus \<longleftrightarrow> Q) n"
  shows "returns (\<lambda>st. st = OkStatus \<longleftrightarrow> P \<and> Q) (if_ok_then m n)"
  using assms by (auto simp: if_ok_then_def elim!: returnsE)

lemma plus_prefix_returns:
  assumes "returns (\<lambda>st. st = OkStatus \<longleftrightarrow> P) m"
  shows "returns (\<lambda>st. st = OkStatus \<longleftrightarrow> P) (plus_prefix p m)"
  using assms by (auto simp: plus_prefix_def elim!: returnsE split: status.splits)

lemma can_add_end_state_returns:
  assumes s: "snapshot_ok s" and b: "\<forall>b \<in> set (es_memory_bytes e). bytes_ok b"
  shows "returns (\<lambda>st. st = OkStatus \<longleftrightarrow> end_state_fits u e s \<and>
      (d \<or> (\<forall>f \<in> set (snap_expected_end_states s). \<not> EndState_DataEquals e f))) (can_add_expected_end_state3 e u d s)"
proof -
  let ?A = "to_architecture_id (snap_architecture s)" and ?c = "es_register_checksum e"
  have checksum: "returns (\<lambda>st. st = OkStatus \<longleftrightarrow> ?c = [] \<or> DeserializeRegisterChecksum ?A ?c \<noteq> None)
      (if ?c \<noteq> [] then rbind (IsValidRegisterChecksumForArch ?A ?c) (\<lambda>valid.
             reject_if (\<not> valid) ''Bad register checksum'' (ret OkStatus)) else ret OkStatus)"
    using snapshot_arch(1) [OF s] by (simp add: IsValidRegisterChecksumForArch_def reject_if_def)
  have registers: "returns (\<lambda>st. st = OkStatus \<longleftrightarrow>
      (if RegisterState_IsUnset (es_registers e) then es_memory_bytes e = [] else registers_decode (es_registers e) s))
      (if rs_gregs (es_registers e) = [] \<and> rs_fpregs (es_registers e) = []
        then reject_if (es_memory_bytes e \<noteq> []) ''memory_bytes must be empty if registers are'' (ret OkStatus)
        else plus_prefix ''Bad RegisterState: '' (can_set_registers (es_registers e) True s))"
    using can_set_end_registers [OF s] by (simp add: RegisterState_IsUnset_def reject_if_def plus_prefix_returns)
  have dup: "returns (\<lambda>st. st = OkStatus \<longleftrightarrow> d \<or> (\<forall>f \<in> set (snap_expected_end_states s). \<not> EndState_DataEquals e f))
      (reject_if (\<not> d \<and> (\<exists>f \<in> set (snap_expected_end_states s). EndState_DataEquals e f))
       ''Is a dup of an existing EndState'' (ret OkStatus))"
    by (auto simp: reject_if_def)
  show ?thesis
    unfolding can_add_expected_end_state3_def end_state_fits_def
    by (rule returns_mono [OF if_ok_then_returns [OF can_add_endpoint_returns [OF s]
          if_ok_then_returns [OF registers if_ok_then_returns [OF end_state_bytes_returns [OF s b]
          if_ok_then_returns [OF checksum dup]]]]]) blast
qed

section \<open>The invariant of a whole snapshot\<close>

definition end_states_ok :: "snapshot \<Rightarrow> bool" where
  "end_states_ok s \<longleftrightarrow>
     (\<forall>e \<in> set (snap_expected_end_states s). end_state_fits False e s \<and> (\<forall>b \<in> set (es_memory_bytes e). bytes_ok b)) \<and>
     sorted_wrt (\<lambda>e f. \<not> EndState_DataEquals f e) (snap_expected_end_states s)"

definition whole_snapshot_ok :: "snapshot \<Rightarrow> bool" where
  "whole_snapshot_ok s \<longleftrightarrow> snapshot_ok s \<and> end_states_ok s \<and>
     (case snap_registers s of None \<Rightarrow> True | Some x \<Rightarrow> registers_acceptable x s)"

text \<open>What the end states and registers depend on.\<close>

definition extends :: "snapshot \<Rightarrow> snapshot \<Rightarrow> bool" where
  "extends s s' \<longleftrightarrow> snap_architecture s' = snap_architecture s \<and>
     (\<forall>k q. mappings_at (snap_memory_mappings s) k = Some q \<longrightarrow> mappings_at (snap_memory_mappings s') k = Some q) \<and>
     (\<forall>k. mappings_at (snap_negative_memory_mappings s) k \<noteq> None \<longrightarrow> mappings_at (snap_negative_memory_mappings s') k \<noteq> None)"

lemma extends_facts:
  assumes "extends s s'"
  shows "snap_architecture s' = snap_architecture s" "required_stack_size s' = required_stack_size s"
    "executable_at a (snap_memory_mappings s) \<Longrightarrow> executable_at a (snap_memory_mappings s')"
    "permits p a b (snap_memory_mappings s) \<Longrightarrow> permits p a b (snap_memory_mappings s')"
    "reportable sig a s \<Longrightarrow> reportable sig a s'"
proof -
  show "snap_architecture s' = snap_architecture s" "required_stack_size s' = required_stack_size s"
    using assms by (simp_all add: extends_def required_stack_size_def)
  show "executable_at a (snap_memory_mappings s) \<Longrightarrow> executable_at a (snap_memory_mappings s')"
    using assms unfolding extends_def executable_at_def by blast
  show "permits p a b (snap_memory_mappings s) \<Longrightarrow> permits p a b (snap_memory_mappings s')"
    using assms unfolding extends_def permits_def by blast
  show "reportable sig a s \<Longrightarrow> reportable sig a s'"
    using assms unfolding extends_def reportable_def by blast
qed

lemma end_state_fits_extends: "extends s s' \<Longrightarrow> end_state_fits u e s \<Longrightarrow> end_state_fits u e s'"
  by (cases "es_endpoint e") (auto simp: end_state_fits_def registers_decode_def extends_facts)

lemma whole_snapshot_extends:
  assumes "whole_snapshot_ok s" "extends s s'" "snapshot_ok s'"
    "snap_expected_end_states s' = snap_expected_end_states s" "snap_registers s' = snap_registers s"
  shows "whole_snapshot_ok s'"
proof -
  have "end_states_ok s'"
    using assms(1,4) end_state_fits_extends [OF assms(2)] by (simp add: whole_snapshot_ok_def end_states_ok_def)
  moreover have "registers_acceptable x s'" if "registers_acceptable x s" for x
    using that unfolding registers_acceptable_def extends_facts(1,2) [OF assms(2)]
    by (auto intro: extends_facts(3,4) [OF assms(2)])
  ultimately show ?thesis using assms(1,3,5) by (auto simp: whole_snapshot_ok_def split: option.splits)
qed

end
