(* ===== verification/Snapshot_Remapping.thy ===== *)
theory Snapshot_Remapping
  imports Snapshot_End_State_Facts
begin

text \<open>
  Replacing the memory mappings of a snapshot: \<open>can_set_memory_mappings\<close> builds a copy with the new mappings
  step by step, and accepts exactly the mappings with which the whole snapshot keeps its invariant.
\<close>

section \<open>Lists that are accepted one element after the other\<close>

definition stepwise :: "('a list \<Rightarrow> 'a \<Rightarrow> bool) \<Rightarrow> 'a list \<Rightarrow> bool" where
  "stepwise P xs \<longleftrightarrow> (\<forall>i < length xs. P (take i xs) (xs ! i))"

lemma stepwise_Nil [simp]: "stepwise P []"
  by (simp add: stepwise_def)

lemma stepwise_snoc [simp]: "stepwise P (xs @ [x]) \<longleftrightarrow> stepwise P xs \<and> P xs x"
  by (auto simp: stepwise_def nth_append less_Suc_eq)

lemma stepwise_Cons: "stepwise (\<lambda>ys. P (zs @ ys)) (x # xs) \<longleftrightarrow> P zs x \<and> stepwise (\<lambda>ys. P ((zs @ [x]) @ ys)) xs"
  by (auto simp: stepwise_def less_Suc_eq_0_disj)

lemma stepwise_all: "stepwise (\<lambda>_. P) xs \<longleftrightarrow> (\<forall>x \<in> set xs. P x)"
  by (induction xs rule: rev_induct) auto

lemma stepwise_conj: "stepwise (\<lambda>ys x. P ys x \<and> Q ys x) xs \<longleftrightarrow> stepwise P xs \<and> stepwise Q xs"
  by (auto simp: stepwise_def)

lemma stepwise_sorted: "stepwise (\<lambda>ys x. \<forall>y \<in> set ys. R y x) xs \<longleftrightarrow> sorted_wrt R xs"
  by (induction xs rule: rev_induct) (auto simp: sorted_wrt_append)

lemma for_each_ok_from:
  assumes step: "\<And>ys x s. I ys s \<Longrightarrow> x \<in> set zs \<Longrightarrow>
      returns (\<lambda>(st, s'). (st = OkStatus \<longleftrightarrow> P ys x) \<and> (st = OkStatus \<longrightarrow> I (ys @ [x]) s')) (f x s)"
    and "I ys s"
  shows "returns (\<lambda>(st, s'). (st = OkStatus \<longleftrightarrow> stepwise (\<lambda>us. P (ys @ us)) zs) \<and> (st = OkStatus \<longrightarrow> I (ys @ zs) s'))
    (for_each_ok f zs s)"
  using assms
proof (induction zs arbitrary: ys s)
  case Nil
  then show ?case by simp
next
  case (Cons z zs)
  obtain st s' where fz: "f z s = ret (st, s')" "st = OkStatus \<longleftrightarrow> P ys z" "st = OkStatus \<longrightarrow> I (ys @ [z]) s'"
    using Cons.prems(1) [OF Cons.prems(2), of z] by (auto elim!: returnsE)
  show ?case
  proof (cases "st = OkStatus")
    case True
    have "returns (\<lambda>(st, s'). (st = OkStatus \<longleftrightarrow> stepwise (\<lambda>us. P ((ys @ [z]) @ us)) zs) \<and>
        (st = OkStatus \<longrightarrow> I ((ys @ [z]) @ zs) s')) (for_each_ok f zs s')"
      using fz(3) True by (intro Cons.IH Cons.prems(1)) simp_all
    then show ?thesis using fz(1,2) True unfolding stepwise_Cons [of P ys z zs] by simp
  next
    case False
    then show ?thesis using fz(1,2) unfolding stepwise_Cons [of P ys z zs] by simp
  qed
qed

text \<open>A check and then the operation it guards.\<close>

lemma checked_step:
  assumes "returns (\<lambda>st. st = OkStatus \<longleftrightarrow> P) can" "P \<Longrightarrow> can = ret OkStatus \<Longrightarrow> returns Q add"
  shows "returns (\<lambda>(st, s'). (st = OkStatus \<longleftrightarrow> P) \<and> (st = OkStatus \<longrightarrow> Q s'))
    (rbind can (\<lambda>st. if st \<noteq> OkStatus then ret (st, s) else rbind add (\<lambda>s'. ret (OkStatus, s'))))"
proof -
  obtain st where st: "can = ret st" "st = OkStatus \<longleftrightarrow> P" using assms(1) by (auto elim: returnsE)
  then show ?thesis using assms(2) by (cases "st = OkStatus") (auto elim!: returnsE)
qed

lemma next_phase:
  assumes "returns (\<lambda>(st, s'). (st = OkStatus \<longleftrightarrow> P) \<and> (st = OkStatus \<longrightarrow> I s')) m"
    and "\<And>s'. P \<Longrightarrow> I s' \<Longrightarrow> returns (\<lambda>st. st = OkStatus \<longleftrightarrow> Q) (f s')"
  shows "returns (\<lambda>st. st = OkStatus \<longleftrightarrow> P \<and> Q) (rbind m (\<lambda>(st, s'). if st \<noteq> OkStatus then ret st else f s'))"
proof -
  obtain st s' where "m = ret (st, s')" "st = OkStatus \<longleftrightarrow> P" "st = OkStatus \<longrightarrow> I s'"
    using assms(1) by (auto elim!: returnsE)
  then show ?thesis using assms(2) [of s'] by (cases "st = OkStatus") (auto elim: returns_mono)
qed

section \<open>The copy\<close>

definition copied :: "snapshot \<Rightarrow> memory_mapping list \<Rightarrow> memory_mapping list \<Rightarrow> memory_bytes list \<Rightarrow>
    register_state option \<Rightarrow> end_state list \<Rightarrow> snapshot \<Rightarrow> bool" where
  "copied s ms ns bs rs es c \<longleftrightarrow> snapshot_ok c \<and> snap_architecture c = snap_architecture s \<and>
     snap_memory_mappings c = ms \<and> mappings_at (snap_negative_memory_mappings c) = mappings_at ns \<and>
     snap_memory_bytes c = bs \<and> snap_registers c = rs \<and> snap_expected_end_states c = es"

lemma copied_fits:
  assumes "copied s ms (snap_negative_memory_mappings s) bs rs es c"
  shows "end_state_fits u e c \<longleftrightarrow> end_state_fits u e (s\<lparr>snap_memory_mappings := ms\<rparr>)"
    "registers_acceptable r c \<longleftrightarrow> registers_acceptable r (s\<lparr>snap_memory_mappings := ms\<rparr>)"
proof -
  have "extends c (s\<lparr>snap_memory_mappings := ms\<rparr>)" "extends (s\<lparr>snap_memory_mappings := ms\<rparr>) c"
    using assms by (simp_all add: copied_def extends_def)
  then show "end_state_fits u e c \<longleftrightarrow> end_state_fits u e (s\<lparr>snap_memory_mappings := ms\<rparr>)"
    using end_state_fits_extends by blast
  show "registers_acceptable r c \<longleftrightarrow> registers_acceptable r (s\<lparr>snap_memory_mappings := ms\<rparr>)"
    using assms by (simp add: copied_def registers_acceptable_def required_stack_size_def)
qed

definition aligned_mapping :: "memory_mapping \<Rightarrow> bool" where
  "aligned_mapping m \<longleftrightarrow> page_aligned (mm_start m) \<and> page_aligned (mm_limit m)"

definition aligned_negative :: "memory_mapping \<Rightarrow> bool" where
  "aligned_negative m \<longleftrightarrow> page_aligned (mm_start m) \<and> (page_aligned (mm_limit m) \<or> mm_limit m = kMaxAddress)"

lemma last_phase:
  assumes "returns (\<lambda>(st, s'). (st = OkStatus \<longleftrightarrow> P) \<and> (st = OkStatus \<longrightarrow> I s')) m"
  shows "returns (\<lambda>st. st = OkStatus \<longleftrightarrow> P) (rbind m (\<lambda>(st, s'). ret st))"
  using assms by (auto elim!: returnsE)

lemma copy_mapping:
  assumes "copied s ys [] [] None [] c" "mapping_ok m"
  shows "returns (\<lambda>(st, c'). (st = OkStatus \<longleftrightarrow> \<not> MemoryPerms_IsEmpty (mm_perms m) \<and> aligned_mapping m \<and>
      (\<forall>k \<in> mapping_range m. mappings_at ys k = None)) \<and> (st = OkStatus \<longrightarrow> copied s (ys @ [m]) [] [] None [] c'))
    (rbind (can_add_memory_mapping m c) (\<lambda>st. if st \<noteq> OkStatus then ret (st, c)
       else rbind (add_memory_mapping m c) (\<lambda>c'. ret (OkStatus, c'))))"
proof (rule checked_step)
  have c: "snapshot_ok c" "snap_memory_mappings c = ys" "\<And>k. mappings_at (snap_negative_memory_mappings c) k = None"
    using assms(1) by (simp_all add: copied_def)
  then show "returns (\<lambda>st. st = OkStatus \<longleftrightarrow> \<not> MemoryPerms_IsEmpty (mm_perms m) \<and> aligned_mapping m \<and>
      (\<forall>k \<in> mapping_range m. mappings_at ys k = None)) (can_add_memory_mapping m c)"
    using can_add_memory_mapping_returns [OF c(1) assms(2)]
    by (auto simp: aligned_mapping_def conflicts_def elim!: returns_mono)
  assume "can_add_memory_mapping m c = ret OkStatus"
  from add_memory_mapping_returns [OF c(1) assms(2) this] show "returns (copied s (ys @ [m]) [] [] None []) (add_memory_mapping m c)"
    by (rule returns_mono) (use assms(1) in \<open>auto simp: copied_def\<close>)
qed

lemma copy_negative:
  assumes "copied s ms ys [] None [] c" "mapping_ok m"
  shows "returns (\<lambda>(st, c'). (st = OkStatus \<longleftrightarrow> \<not> MemoryPerms_IsEmpty (mm_perms m) \<and> aligned_negative m \<and>
      (\<forall>k \<in> mapping_range m. mappings_at ys k = None) \<and> \<not> conflicts m ms) \<and>
      (st = OkStatus \<longrightarrow> copied s ms (ys @ [m]) [] None [] c'))
    (rbind (can_add_negative_memory_mapping m False c) (\<lambda>st. if st \<noteq> OkStatus then ret (st, c)
       else rbind (add_negative_memory_mapping m c) (\<lambda>c'. ret (OkStatus, c'))))"
proof (rule checked_step)
  have c: "snapshot_ok c" "snap_memory_mappings c = ms" "mappings_at (snap_negative_memory_mappings c) = mappings_at ys"
    using assms(1) by (simp_all add: copied_def)
  then show "returns (\<lambda>st. st = OkStatus \<longleftrightarrow> \<not> MemoryPerms_IsEmpty (mm_perms m) \<and> aligned_negative m \<and>
      (\<forall>k \<in> mapping_range m. mappings_at ys k = None) \<and> \<not> conflicts m ms) (can_add_negative_memory_mapping m False c)"
    using can_add_negative_returns [OF c(1) assms(2), of False]
    by (auto simp: aligned_negative_def elim!: returns_mono)
  assume free: "\<not> MemoryPerms_IsEmpty (mm_perms m) \<and> aligned_negative m \<and>
      (\<forall>k \<in> mapping_range m. mappings_at ys k = None) \<and> \<not> conflicts m ms"
  then have at: "mappings_at (ys @ [m]) = (\<lambda>k. if k \<in> mapping_range m then add_at (mm_perms m) (mappings_at ys k) else mappings_at ys k)"
    by (intro ext mappings_at_append_free) blast
  assume "can_add_negative_memory_mapping m False c = ret OkStatus"
  from add_negative_returns [OF c(1) assms(2) this] show "returns (copied s ms (ys @ [m]) [] None []) (add_negative_memory_mapping m c)"
    by (rule returns_mono) (use assms(1) in \<open>auto simp: copied_def negative_added_def at\<close>)
qed

lemma copy_bytes:
  assumes "copied s ms ns ys None [] c" "bytes_ok b"
  shows "returns (\<lambda>(st, c'). (st = OkStatus \<longleftrightarrow> bytes_range b \<subseteq> mapped_addresses ms \<and>
      (\<forall>y \<in> set ys. bytes_range y \<inter> bytes_range b = {})) \<and> (st = OkStatus \<longrightarrow> copied s ms ns (ys @ [b]) None [] c'))
    (rbind (can_add_memory_bytes b c) (\<lambda>st. if st \<noteq> OkStatus then ret (st, c)
       else rbind (add_memory_bytes b c) (\<lambda>c'. ret (OkStatus, c'))))"
proof (rule checked_step)
  have c: "snapshot_ok c" "snap_memory_mappings c = ms" "snap_memory_bytes c = ys" using assms(1) by (simp_all add: copied_def)
  then show "returns (\<lambda>st. st = OkStatus \<longleftrightarrow> bytes_range b \<subseteq> mapped_addresses ms \<and>
      (\<forall>y \<in> set ys. bytes_range y \<inter> bytes_range b = {})) (can_add_memory_bytes b c)"
    by (auto simp: can_add_memory_bytes_eq [OF c(1) assms(2)])
  assume "can_add_memory_bytes b c = ret OkStatus"
  from add_memory_bytes_returns [OF c(1) assms(2) this] show "returns (copied s ms ns (ys @ [b]) None []) (add_memory_bytes b c)"
    by (rule returns_mono) (use assms(1) in \<open>auto simp: copied_def\<close>)
qed

lemma copy_registers:
  assumes "copied s ms (snap_negative_memory_mappings s) bs None [] c"
  shows "returns (\<lambda>(st, c'). (st = OkStatus \<longleftrightarrow> registers_acceptable r (s\<lparr>snap_memory_mappings := ms\<rparr>)) \<and>
      (st = OkStatus \<longrightarrow> copied s ms (snap_negative_memory_mappings s) bs (Some r) [] c'))
    (rbind (can_set_registers r False c) (\<lambda>st. if st \<noteq> OkStatus then ret (st, c)
       else rbind (set_registers r c) (\<lambda>c'. ret (OkStatus, c'))))"
proof (rule checked_step)
  have c: "snapshot_ok c" using assms by (simp add: copied_def)
  show "returns (\<lambda>st. st = OkStatus \<longleftrightarrow> registers_acceptable r (s\<lparr>snap_memory_mappings := ms\<rparr>)) (can_set_registers r False c)"
    unfolding copied_fits(2) [OF assms, symmetric] by (rule can_set_registers_returns [OF c])
  assume "registers_acceptable r (s\<lparr>snap_memory_mappings := ms\<rparr>)"
  then have "registers_acceptable r c" by (simp add: copied_fits(2) [OF assms])
  then show "returns (copied s ms (snap_negative_memory_mappings s) bs (Some r) []) (set_registers r c)"
    using assms by (auto simp: set_registers_eq [OF c] copied_def snapshot_ok_def)
qed

lemma copy_some_registers:
  assumes "copied s ms (snap_negative_memory_mappings s) bs None [] c"
  shows "returns (\<lambda>(st, c'). (st = OkStatus \<longleftrightarrow> (\<forall>r. rs = Some r \<longrightarrow> registers_acceptable r (s\<lparr>snap_memory_mappings := ms\<rparr>))) \<and>
      (st = OkStatus \<longrightarrow> copied s ms (snap_negative_memory_mappings s) bs rs [] c'))
    (for_each_ok (\<lambda>r c. rbind (can_set_registers r False c) (\<lambda>st. if st \<noteq> OkStatus then ret (st, c)
       else rbind (set_registers r c) (\<lambda>c'. ret (OkStatus, c')))) (case rs of None \<Rightarrow> [] | Some r \<Rightarrow> [r]) c)"
proof (cases rs)
  case (Some r)
  show ?thesis using copy_registers [OF assms, of r] by (auto simp: Some elim!: returnsE)
qed (use assms in simp)

lemma copy_end_state:
  assumes "copied s ms (snap_negative_memory_mappings s) bs rs ys c" "\<forall>b \<in> set (es_memory_bytes e). bytes_ok b"
  shows "returns (\<lambda>(st, c'). (st = OkStatus \<longleftrightarrow> end_state_fits False e (s\<lparr>snap_memory_mappings := ms\<rparr>) \<and>
      (\<forall>y \<in> set ys. \<not> EndState_DataEquals e y)) \<and>
      (st = OkStatus \<longrightarrow> copied s ms (snap_negative_memory_mappings s) bs rs (ys @ [e]) c'))
    (rbind (can_add_expected_end_state e False c) (\<lambda>st. if st \<noteq> OkStatus then ret (st, c)
       else rbind (add_expected_end_state e False c) (\<lambda>c'. ret (OkStatus, c'))))"
proof (rule checked_step)
  have c: "snapshot_ok c" "snap_expected_end_states c = ys" using assms(1) by (simp_all add: copied_def)
  show "returns (\<lambda>st. st = OkStatus \<longleftrightarrow> end_state_fits False e (s\<lparr>snap_memory_mappings := ms\<rparr>) \<and>
      (\<forall>y \<in> set ys. \<not> EndState_DataEquals e y)) (can_add_expected_end_state e False c)"
    using can_add_end_state_returns [OF c(1) assms(2), of False False]
    by (simp add: can_add_expected_end_state_def copied_fits(1) [OF assms(1)] c(2))
  assume "can_add_expected_end_state e False c = ret OkStatus"
  then show "returns (copied s ms (snap_negative_memory_mappings s) bs rs (ys @ [e])) (add_expected_end_state e False c)"
    using assms(1) by (auto simp: add_expected_end_state_def dcheck_res_ok copied_def snapshot_ok_def)
qed

section \<open>The mappings that are accepted\<close>

definition settable :: "memory_mapping list \<Rightarrow> snapshot \<Rightarrow> bool" where
  "settable ms s \<longleftrightarrow>
     mappings_ok ms \<and> (\<forall>m \<in> set ms. aligned_mapping m) \<and>
     (\<forall>m \<in> set (snap_negative_memory_mappings s). aligned_negative m) \<and>
     no_conflict ms (snap_negative_memory_mappings s) \<and>
     (\<forall>b \<in> set (snap_memory_bytes s). bytes_range b \<subseteq> mapped_addresses ms) \<and>
     (\<forall>r. snap_registers s = Some r \<longrightarrow> registers_acceptable r (s\<lparr>snap_memory_mappings := ms\<rparr>)) \<and>
     (\<forall>e \<in> set (snap_expected_end_states s). end_state_fits False e (s\<lparr>snap_memory_mappings := ms\<rparr>))"

lemma stepwise_mappings:
  assumes "\<forall>m \<in> set ms. mapping_ok m"
  shows "stepwise (\<lambda>ys m. \<not> MemoryPerms_IsEmpty (mm_perms m) \<and> (\<forall>k \<in> mapping_range m. mappings_at ys k = None)) ms \<longleftrightarrow>
    mappings_ok ms"
  using assms
proof (induction ms rule: rev_induct)
  case (snoc m ms)
  have "(\<forall>k \<in> mapping_range m. mappings_at ms k = None) \<longleftrightarrow> (\<forall>n \<in> set ms. mapping_range n \<inter> mapping_range m = {})"
    by (rule disjoint_from_mappings [symmetric])
  with snoc show ?case by (auto simp: mappings_ok_append1)
qed simp

lemma mappings_at_member:
  assumes "mappings_ok ms" "m \<in> set ms" "k \<in> mapping_range m"
  shows "mappings_at ms k = Some (mm_perms m)"
  using assms
proof (induction ms)
  case (Cons n ms)
  then show ?case by (auto simp: mappings_at_Cons mappings_ok_def)
qed simp

lemma no_conflict_iff:
  assumes "mappings_ok ns"
  shows "(\<forall>n \<in> set ns. \<not> conflicts n ms) \<longleftrightarrow> no_conflict ms ns"
proof
  assume n: "\<forall>n \<in> set ns. \<not> conflicts n ms"
  show "no_conflict ms ns"
    unfolding no_conflict_def
  proof (intro allI impI)
    fix k p q assume k: "mappings_at ms k = Some p \<and> mappings_at ns k = Some q"
    then obtain m where "m \<in> set ns" "k \<in> mapping_range m" "mm_perms m = q" using mappings_at_SomeD by blast
    with n k show "perms_set p \<inter> perms_set q = {}" unfolding conflicts_def by blast
  qed
next
  assume "no_conflict ms ns"
  then show "\<forall>n \<in> set ns. \<not> conflicts n ms"
    using mappings_at_member [OF assms] unfolding no_conflict_def conflicts_def by blast
qed

lemma phases_settable:
  assumes s: "whole_snapshot_ok s" and m: "\<forall>m \<in> set ms. mapping_ok m"
  shows "settable ms s \<longleftrightarrow>
    stepwise (\<lambda>ys m. \<not> MemoryPerms_IsEmpty (mm_perms m) \<and> aligned_mapping m \<and> (\<forall>k \<in> mapping_range m. mappings_at ys k = None)) ms \<and>
    stepwise (\<lambda>ys m. \<not> MemoryPerms_IsEmpty (mm_perms m) \<and> aligned_negative m \<and>
      (\<forall>k \<in> mapping_range m. mappings_at ys k = None) \<and> \<not> conflicts m ms) (snap_negative_memory_mappings s) \<and>
    stepwise (\<lambda>ys b. bytes_range b \<subseteq> mapped_addresses ms \<and> (\<forall>y \<in> set ys. bytes_range y \<inter> bytes_range b = {})) (snap_memory_bytes s) \<and>
    (\<forall>r. snap_registers s = Some r \<longrightarrow> registers_acceptable r (s\<lparr>snap_memory_mappings := ms\<rparr>)) \<and>
    stepwise (\<lambda>ys e. end_state_fits False e (s\<lparr>snap_memory_mappings := ms\<rparr>) \<and> (\<forall>y \<in> set ys. \<not> EndState_DataEquals e y))
      (snap_expected_end_states s)"
proof -
  let ?ns = "snap_negative_memory_mappings s"
  have ns: "mappings_ok ?ns" "\<forall>m \<in> set ?ns. mapping_ok m"
    using s by (simp_all add: whole_snapshot_ok_def snapshot_ok_def represents_def mappings_ok_def)
  have es: "sorted_wrt (\<lambda>e f. \<not> EndState_DataEquals f e) (snap_expected_end_states s)"
    using s by (simp add: whole_snapshot_ok_def end_states_ok_def)
  have bs: "sorted_wrt (\<lambda>a b. bytes_range a \<inter> bytes_range b = {}) (snap_memory_bytes s)"
    using s by (simp add: whole_snapshot_ok_def snapshot_ok_def bytes_represent_def)
  show ?thesis
    using stepwise_mappings [OF m] stepwise_mappings [OF ns(2)] no_conflict_iff [OF ns(1), of ms] ns(1) es bs
    unfolding settable_def stepwise_conj stepwise_all stepwise_sorted by blast
qed

lemma can_set_memory_mappings_returns:
  assumes s: "whole_snapshot_ok s" "IsValidId (snap_id s) = OkStatus" and m: "\<forall>m \<in> set ms. mapping_ok m"
  shows "returns (\<lambda>st. st = OkStatus \<longleftrightarrow> settable ms s) (can_set_memory_mappings ms s)"
proof -
  let ?ns = "snap_negative_memory_mappings s"
  have ok: "snapshot_ok s" "end_states_ok s" using s(1) by (simp_all add: whole_snapshot_ok_def)
  then have members: "\<forall>m \<in> set ?ns. mapping_ok m" "\<forall>b \<in> set (snap_memory_bytes s). bytes_ok b"
    "\<forall>e \<in> set (snap_expected_end_states s). \<forall>b \<in> set (es_memory_bytes e). bytes_ok b"
    by (simp_all add: snapshot_ok_def represents_def mappings_ok_def bytes_represent_def end_states_ok_def)
  have "architecture_descr (snap_architecture s) \<noteq> None \<and> snap_architecture s \<noteq> kUnsupported"
    using ok(1) by (cases "snap_architecture s") (simp_all add: snapshot_ok_def architecture_descr_def kSupportedArchitectures_def)
  then obtain c where c: "new_snapshot (snap_architecture s) (snap_id s) = ret c" "copied s [] [] [] None [] c"
    using s(2) by (simp add: new_snapshot_def dcheck_status_def copied_def snapshot_ok_def no_conflict_def)
  note phase1 = for_each_ok_from [where I = "\<lambda>ys. copied s ys [] [] None []" and zs = ms and ys = "[]", OF copy_mapping, simplified append_Nil]
  note phase2 = for_each_ok_from [where I = "\<lambda>ys. copied s ms ys [] None []" and zs = ?ns and ys = "[]", OF copy_negative, simplified append_Nil]
  note phase3 = for_each_ok_from [where I = "\<lambda>ys. copied s ms ?ns ys None []" and zs = "snap_memory_bytes s" and ys = "[]", OF copy_bytes, simplified append_Nil]
  note phase5 = for_each_ok_from [where I = "\<lambda>ys. copied s ms ?ns (snap_memory_bytes s) (snap_registers s) ys"
      and zs = "snap_expected_end_states s" and ys = "[]", OF copy_end_state, simplified append_Nil]
  show ?thesis
    unfolding phases_settable [OF s(1) m] can_set_memory_mappings_def c(1) rbind_simps
  proof (intro next_phase [OF phase1] next_phase [OF phase2] next_phase [OF phase3] next_phase [OF copy_some_registers]
      last_phase [OF phase5])
  qed (use c(2) members m in simp_all)
qed

end
