(* ===== verification/Snapshot_End_State_Properties.thy ===== *)
theory Snapshot_End_State_Properties
  imports Snapshot_Remapping
begin

text \<open>
  The properties of registers and end states of a \<open>Snapshot\<close>: when they are accepted, the invariant of the
  whole snapshot, replacing the mappings, completeness, equality and the selection of end states by platform.
\<close>

section \<open>A snapshot of one page\<close>

definition sandbox_mapping :: memory_mapping where
  "sandbox_mapping = \<lparr>mm_start = 0x1000, mm_num_bytes = 0x1000, mm_perms = MemoryPerms_RWX\<rparr>"

definition sandbox_end_state :: end_state where
  "sandbox_end_state = new_end_state (kInstruction 0x1000) \<lparr>rs_gregs = [], rs_fpregs = []\<rparr>"

definition sandbox :: snapshot where
  "sandbox = \<lparr>snap_id = ''sandbox'', snap_architecture = kAArch64,
     snap_mapped_memory_map = [((0x1000, 0x2000), MemoryPerms_RWX)], snap_negative_mapped_memory_map = [],
     snap_written_memory_set = [((0x1000, 0x1003), kDummyMappedValue)],
     snap_memory_mappings = [sandbox_mapping], snap_negative_memory_mappings = [],
     snap_memory_bytes = [code_bytes], snap_registers = None, snap_expected_end_states = [],
     snap_metadata = (0, []), snap_trace_metadata = []\<rparr>"

lemma RWX_perms: "perms_set MemoryPerms_RWX = {kReadable, kWritable, kExecutable}"
proof -
  have "p \<in> perms_set MemoryPerms_RWX \<longleftrightarrow> p \<in> {kReadable, kWritable, kExecutable}" for p
    by (cases p; simp add: perms_set_def MemoryPerms_HasPermission_def MemoryPerms_RWX_def ToInt_def)
  then show ?thesis by blast
qed

lemma sandbox_mapping_simps:
  "mapping_range sandbox_mapping = {0x1000..<0x2000}" "mm_perms sandbox_mapping = MemoryPerms_RWX"
  "mm_start sandbox_mapping = 0x1000" "mm_limit sandbox_mapping = 0x2000"
  "\<not> MemoryPerms_IsEmpty MemoryPerms_RWX"
  by (simp_all add: mapping_range_def mm_limit_def sandbox_mapping_def MemoryPerms_IsEmpty_def MemoryPerms_RWX_def ToInt_def)

lemma sandbox_mapping_ok: "mapping_ok sandbox_mapping"
  by (simp add: mapping_ok_def HasPermission_iff RWX_perms sandbox_mapping_simps CanMakeSized_def)
    (simp add: sandbox_mapping_def kMaxAddress_def)

lemma sandbox_ok: "snapshot_ok sandbox"
proof -
  have "mapped_map_ok [((0x1000, 0x2000), MemoryPerms_RWX)]" by (simp add: mapped_map_ok_def ranges_ok_def pm.canonical_def)
  then have "represents [sandbox_mapping] [((0x1000, 0x2000), MemoryPerms_RWX)]"
    using sandbox_mapping_ok by (simp add: represents_def mappings_ok_def sandbox_mapping_simps mappings_at_Cons perms_at_def)
  moreover have "bytes_represent [code_bytes] [((0x1000, 0x1003), kDummyMappedValue)]"
    using sample_snapshot_ok by (simp add: snapshot_ok_def sample_snapshot_def)
  moreover have "x < 0x2000" if "x < (0x1003 :: address)" for x using that by (rule less_trans) simp
  then have "addresses [((0x1000, 0x1003), kDummyMappedValue)] \<subseteq> mapped_addresses [sandbox_mapping]"
    by (auto simp: addresses_Cons mapped_addresses_def mappings_at_Cons sandbox_mapping_simps)
  ultimately show ?thesis by (simp add: snapshot_ok_def sandbox_def no_conflict_def)
qed

lemma sandbox_whole: "whole_snapshot_ok sandbox"
  using sandbox_ok by (simp add: whole_snapshot_ok_def end_states_ok_def sandbox_def)

lemma sandbox_registers:
  obtains x where "registers_acceptable x sandbox" "ExtractRip x sandbox = ret 0x1000"
proof -
  have ok: "gregset_ok sample_gregs" "fpregset_ok sample_fpregs"
    by (simp_all add: sample_gregs_def sample_fpregs_def gregs_aarch64_ok_def fpregs_aarch64_ok_def)
  obtain gs where gs: "DeserializeGRegs ArchAArch64 gs = Some sample_gregs"
    using ga.round_trip ok by (fastforce simp: sample_gregs_def)
  obtain fs where fs: "DeserializeFPRegs ArchAArch64 fs = Some sample_fpregs"
    using fa.round_trip ok by (fastforce simp: sample_fpregs_def)
  have arch: "to_architecture_id (snap_architecture sandbox) = ArchAArch64" "required_stack_size sandbox = 32"
    by (simp_all add: sandbox_def to_architecture_id_def required_stack_size_def architecture_descr_def kSupportedArchitectures_def)
  have "permits kWritable 0x1fe0 0x2000 (snap_memory_mappings sandbox)"
    by (auto simp: permits_def sandbox_def mappings_at_Cons sandbox_mapping_simps RWX_perms intro: order_trans [rotated])
  moreover have "executable_at 0x1000 (snap_memory_mappings sandbox)"
    by (simp add: executable_at_def sandbox_def mappings_at_Cons sandbox_mapping_simps RWX_perms)
  ultimately have "registers_acceptable \<lparr>rs_gregs = gs, rs_fpregs = fs\<rparr> sandbox"
    using gs fs by (auto simp: registers_acceptable_def arch sample_gregs_def kMaxAddress_def)
  moreover have "gs \<noteq> []" using DeserializeGRegs_may_be [OF gs] by (auto simp: MayBeSimpleSerialized_def kHeaderSize_def)
  then have "ExtractRip \<lparr>rs_gregs = gs, rs_fpregs = fs\<rparr> sandbox = ret 0x1000"
    using gs by (simp add: ExtractRip_def extract_register_def arch_dispatch_ok [OF sandbox_ok] arch sample_gregs_def)
  ultimately show thesis by (rule that)
qed

section \<open>Registers and end states\<close>

text \<open>C37: registers are accepted exactly when they deserialise as registers of the architecture of the
  snapshot, the instruction pointer is in an executable mapping and the stack below the stack pointer is
  writable as far as the architecture requires. Accepted registers pass the lighter test that \<open>set_registers\<close>
  always makes, so it stores them; other registers fail a check.\<close>

theorem registers_accepted:
  assumes "snapshot_ok s"
  shows "(\<exists>st. can_set_registers x False s = ret st \<and> (st = OkStatus \<longleftrightarrow> registers_acceptable x s)) \<and>
    (if registers_acceptable x s
     then registers_match_arch x s = ret True \<and> set_registers x s = ret (s\<lparr>snap_registers := Some x\<rparr>)
     else \<exists>e. set_registers x s = abort e)"
proof -
  obtain st where st: "can_set_registers x False s = ret st" "st = OkStatus \<longleftrightarrow> registers_acceptable x s"
    using can_set_registers_returns [OF assms] by (rule returnsE)
  show ?thesis
  proof (cases "registers_acceptable x s")
    case False
    then obtain e where "dcheck_res (can_set_registers x False s) = abort e" using dcheck_fails [OF st(1)] st(2) by blast
    moreover obtain b where "registers_match_arch x s = ret b"
      by (simp add: registers_match_arch_def arch_dispatch_ok [OF assms])
    ultimately have "\<exists>e. set_registers x s = abort e" by (cases b) (auto simp: set_registers_def)
    with st False show ?thesis by simp
  qed (use st registers_match [OF assms] set_registers_eq [OF assms] in simp)
qed

theorem registers_accepted_witness:
  "\<exists>x. set_registers x sandbox = ret (sandbox\<lparr>snap_registers := Some x\<rparr>) \<and> ExtractRip x sandbox = ret 0x1000"
proof (rule sandbox_registers)
  fix x assume "registers_acceptable x sandbox" "ExtractRip x sandbox = ret 0x1000"
  then show ?thesis using registers_accepted [OF sandbox_ok, of x] by auto
qed

text \<open>C36: an end state is accepted exactly when its endpoint is mapped as its kind demands, its registers are
  unset (and then it has no bytes) or deserialise, its bytes are writable, its register checksum is absent or
  of the architecture, and no end state has the same data. Adding it then appends it and, when its endpoint
  is mapped, keeps the invariant of the whole snapshot; adding it otherwise fails a check.\<close>

theorem end_state_accepted:
  fixes u :: bool
  assumes "whole_snapshot_ok s" "\<forall>b \<in> set (es_memory_bytes e). bytes_ok b"
  defines "ok \<equiv> end_state_fits u e s \<and> (\<forall>f \<in> set (snap_expected_end_states s). \<not> EndState_DataEquals e f)"
  shows "(\<exists>st. can_add_expected_end_state e u s = ret st \<and> (st = OkStatus \<longleftrightarrow> ok)) \<and>
    (if ok then add_expected_end_state e u s = ret (s\<lparr>snap_expected_end_states := snap_expected_end_states s @ [e]\<rparr>) \<and>
       (end_state_fits False e s \<longrightarrow> whole_snapshot_ok (s\<lparr>snap_expected_end_states := snap_expected_end_states s @ [e]\<rparr>))
     else \<exists>err. add_expected_end_state e u s = abort err)"
proof -
  let ?s = "s\<lparr>snap_expected_end_states := snap_expected_end_states s @ [e]\<rparr>"
  have s: "snapshot_ok s" using assms(1) by (simp add: whole_snapshot_ok_def)
  obtain st where st: "can_add_expected_end_state e u s = ret st" "st = OkStatus \<longleftrightarrow> ok"
    using can_add_end_state_returns [OF s assms(2), of u False] unfolding can_add_expected_end_state_def ok_def
    by (auto elim: returnsE)
  show ?thesis
  proof (cases ok)
    case True
    have x: "extends s ?s" by (simp add: extends_def)
    have "whole_snapshot_ok ?s" if "end_state_fits False e s"
      using assms(1,2) True that end_state_fits_extends [OF x]
      by (auto simp: whole_snapshot_ok_def snapshot_ok_def end_states_ok_def ok_def sorted_wrt_append
          registers_acceptable_def required_stack_size_def split: option.splits)
    with st True show ?thesis by (simp add: add_expected_end_state_def dcheck_res_ok)
  next
    case False
    then have "\<exists>err. add_expected_end_state e u s = abort err"
      using dcheck_fails [OF st(1)] st(2) unfolding add_expected_end_state_def by (metis rbind_simps(2))
    with st False show ?thesis by simp
  qed
qed

lemma sandbox_end_state_fits: "end_state_fits False sandbox_end_state sandbox" "es_memory_bytes sandbox_end_state = []"
  by (simp_all add: end_state_fits_def sandbox_end_state_def new_end_state_def RegisterState_IsUnset_def kMaxAddress_def
      executable_at_def sandbox_def mappings_at_Cons sandbox_mapping_simps RWX_perms)

theorem end_state_accepted_witness:
  "\<exists>s. add_expected_end_state sandbox_end_state False sandbox = ret s \<and> whole_snapshot_ok s \<and>
     snap_expected_end_states s = [sandbox_end_state]"
proof -
  have "snap_expected_end_states sandbox = []" by (simp add: sandbox_def)
  then show ?thesis
    using end_state_accepted [OF sandbox_whole, of sandbox_end_state False] sandbox_end_state_fits by simp
qed

section \<open>The invariant of the whole snapshot\<close>

lemma whole_add_mapping:
  assumes "whole_snapshot_ok s" "mapping_ok m"
  shows "post whole_snapshot_ok (add_memory_mapping m s)"
proof (cases "can_add_memory_mapping m s = ret OkStatus")
  case True
  have s: "snapshot_ok s" using assms(1) by (simp add: whole_snapshot_ok_def)
  from add_memory_mapping_returns [OF s assms(2) True] show ?thesis
    by (rule returns_wp [OF returns_mono])
      (auto intro!: whole_snapshot_extends [OF assms(1)] simp: extends_def mappings_at_append)
next
  case False
  have "snapshot_ok s" using assms(1) by (simp add: whole_snapshot_ok_def)
  then obtain st where "can_add_memory_mapping m s = ret st" by (rule can_add_total [OF _ assms(2)])
  with False obtain e where "dcheck_res (can_add_memory_mapping m s) = abort e" using dcheck_fails by blast
  then show ?thesis by (simp add: add_memory_mapping_def)
qed

lemma whole_add_negative:
  assumes "whole_snapshot_ok s" "mapping_ok m"
  shows "post whole_snapshot_ok (add_negative_memory_mapping m s)"
proof (cases "can_add_negative_memory_mapping m False s = ret OkStatus")
  case True
  have s: "snapshot_ok s" using assms(1) by (simp add: whole_snapshot_ok_def)
  from add_negative_returns [OF s assms(2) True] show ?thesis
    by (rule returns_wp [OF returns_mono])
      (auto intro!: whole_snapshot_extends [OF assms(1)] simp: extends_def negative_added_def add_at_def split: option.splits)
next
  case False
  have "snapshot_ok s" using assms(1) by (simp add: whole_snapshot_ok_def)
  then obtain st where "can_add_negative_memory_mapping m False s = ret st"
    using can_add_negative_returns [OF _ assms(2), of s False] by (auto elim: returnsE)
  with False obtain e where "dcheck_res (can_add_negative_memory_mapping m False s) = abort e" using dcheck_fails by blast
  then show ?thesis by (simp add: add_negative_memory_mapping_def)
qed

lemma whole_add_bytes:
  assumes "whole_snapshot_ok s" "bytes_ok b"
  shows "post whole_snapshot_ok (add_memory_bytes b s)"
proof (cases "can_add_memory_bytes b s = ret OkStatus")
  case True
  have s: "snapshot_ok s" using assms(1) by (simp add: whole_snapshot_ok_def)
  from add_memory_bytes_returns [OF s assms(2) True] show ?thesis
    by (rule returns_wp [OF returns_mono])
      (auto intro!: whole_snapshot_extends [OF assms(1)] simp: extends_def)
next
  case False
  have "snapshot_ok s" using assms(1) by (simp add: whole_snapshot_ok_def)
  then obtain st where "can_add_memory_bytes b s = ret st" using can_add_memory_bytes_eq [OF _ assms(2)] by blast
  with False obtain e where "dcheck_res (can_add_memory_bytes b s) = abort e" using dcheck_fails by blast
  then show ?thesis by (simp add: add_memory_bytes_def)
qed

text \<open>Fewer end states.\<close>

lemma whole_fewer:
  assumes "whole_snapshot_ok s" "set es \<subseteq> set (snap_expected_end_states s)"
    "sorted_wrt (\<lambda>e f. \<not> EndState_DataEquals f e) es"
  shows "whole_snapshot_ok (s\<lparr>snap_expected_end_states := es\<rparr>)"
proof -
  have x: "extends s (s\<lparr>snap_expected_end_states := es\<rparr>)" by (simp add: extends_def)
  show ?thesis
    using assms end_state_fits_extends [OF x]
    by (auto simp: whole_snapshot_ok_def snapshot_ok_def end_states_ok_def
        registers_acceptable_def required_stack_size_def split: option.splits)
qed

lemma whole_end_states_sorted: "whole_snapshot_ok s \<Longrightarrow> sorted_wrt (\<lambda>e f. \<not> EndState_DataEquals f e) (snap_expected_end_states s)"
  by (simp add: whole_snapshot_ok_def end_states_ok_def)

lemma whole_remove: "whole_snapshot_ok s \<Longrightarrow> post whole_snapshot_ok (remove_expected_end_state i s)"
proof -
  assume s: "whole_snapshot_ok s"
  let ?es = "snap_expected_end_states s"
  have "sorted_wrt (\<lambda>e f. \<not> EndState_DataEquals f e) (take i ?es @ drop i ?es)"
    using whole_end_states_sorted [OF s] by simp
  then have "sorted_wrt (\<lambda>e f. \<not> EndState_DataEquals f e) (take i ?es @ drop (Suc i) ?es)"
    using set_drop_subset_set_drop [of i "Suc i" ?es] sorted_wrt_drop [OF whole_end_states_sorted [OF s]]
    unfolding sorted_wrt_append by auto
  then show ?thesis
    using whole_fewer [OF s, of "take i ?es @ drop (Suc i) ?es"] set_take_subset [of i ?es] set_drop_subset [of "Suc i" ?es]
    by (simp add: remove_expected_end_state_def)
qed

lemma erase_without_platform_eq:
  assumes "\<forall>e \<in> set es. p < length (es_platforms e)"
  shows "erase_without_platform p es = ret (filter (\<lambda>e. es_platforms e ! p) es)"
  using assms by (induction es) (simp_all add: EndState_has_platform_def)

lemma any_has_platform_eq:
  assumes "\<forall>e \<in> set es. p < length (es_platforms e)"
  shows "any_has_platform p es = ret (\<exists>e \<in> set es. es_platforms e ! p)"
  using assms by (induction es) (simp_all add: EndState_has_platform_def)

lemma erase_without_platform_post: "post (\<lambda>fs. fs = filter (\<lambda>e. es_platforms e ! p) es) (erase_without_platform p es)"
  by (induction es) (auto simp: EndState_has_platform_def elim: wp_rbind)

lemma whole_limit: "whole_snapshot_ok s \<Longrightarrow> post whole_snapshot_ok (limit_end_states_to_platform p s)"
  unfolding limit_end_states_to_platform_def
  by (rule wp_rbind [OF erase_without_platform_post])
    (auto intro!: whole_fewer sorted_wrt_filter dest: whole_end_states_sorted)

text \<open>Replacing the mappings.\<close>

lemma add_new_all:
  assumes "represents ys m" "mappings_ok (ys @ zs)"
  shows "returns (represents (ys @ zs)) (for_each (\<lambda>m. MappedMemoryMap_AddNew (mm_start m) (mm_limit m) (mm_perms m)) zs m)"
  using assms
proof (induction zs arbitrary: ys m)
  case (Cons z zs)
  have z: "mapping_ok z" "\<not> MemoryPerms_IsEmpty (mm_perms z)" "\<forall>n \<in> set ys. mapping_range n \<inter> mapping_range z = {}"
    using Cons.prems(2) by (auto simp: mappings_ok_def sorted_wrt_append)
  have "returns (represents (ys @ [z])) (MappedMemoryMap_AddNew (mm_start z) (mm_limit z) (mm_perms z) m)"
    by (rule represents_add [OF Cons.prems(1) z(1,2)]) (use z(3) disjoint_from_mappings in blast)
  then show ?case
    unfolding for_each.simps by (rule returns_rbind) (use Cons.IH [of "ys @ [z]"] Cons.prems(2) in simp)
qed simp

lemma MappedMemoryMap_Clear_eq: "MappedMemoryMap_Clear m = []"
  by (simp add: MappedMemoryMap_Clear_def RangeMap_clear_def)

lemma set_memory_mappings_returns:
  assumes s: "whole_snapshot_ok s" "IsValidId (snap_id s) = OkStatus" and m: "\<forall>m \<in> set ms. mapping_ok m"
    and ok: "settable ms s"
  shows "returns (\<lambda>s'. whole_snapshot_ok s' \<and> (\<exists>mm. s' = s\<lparr>snap_mapped_memory_map := mm, snap_memory_mappings := ms\<rparr>))
    (set_memory_mappings ms s)"
proof -
  have can: "dcheck_res (can_set_memory_mappings ms s) = ret ()"
    using can_set_memory_mappings_returns [OF s m] ok by (simp add: dcheck_res_ok)
  have add: "returns (represents ms) (for_each (\<lambda>m. MappedMemoryMap_AddNew (mm_start m) (mm_limit m) (mm_perms m)) ms [])"
    using add_new_all [of "[]" "[]" ms] ok by (simp add: settable_def)
  have "whole_snapshot_ok (s\<lparr>snap_mapped_memory_map := mm, snap_memory_mappings := ms\<rparr>)" if mm: "represents ms mm" for mm
  proof -
    let ?t = "s\<lparr>snap_memory_mappings := ms\<rparr>" and ?s = "s\<lparr>snap_mapped_memory_map := mm, snap_memory_mappings := ms\<rparr>"
    have x: "extends ?t ?s" by (simp add: extends_def)
    have "addresses (snap_written_memory_set s) = \<Union> (bytes_range ` set (snap_memory_bytes s))"
      using s(1) by (simp add: whole_snapshot_ok_def snapshot_ok_def bytes_represent_def)
    then have "addresses (snap_written_memory_set s) \<subseteq> mapped_addresses ms" using ok by (auto simp: settable_def)
    then have "snapshot_ok ?s" using s(1) mm ok by (simp add: whole_snapshot_ok_def snapshot_ok_def settable_def)
    moreover have "end_states_ok ?s"
      using s(1) ok end_state_fits_extends [OF x] by (simp add: whole_snapshot_ok_def end_states_ok_def settable_def)
    moreover have "registers_acceptable r ?s" if "snap_registers s = Some r" for r
      using ok that by (simp add: settable_def registers_acceptable_def required_stack_size_def)
    ultimately show ?thesis by (simp add: whole_snapshot_ok_def split: option.splits)
  qed
  then show ?thesis
    unfolding set_memory_mappings_def can rbind_simps MappedMemoryMap_Clear_eq
    by (intro returns_rbind [OF add]) auto
qed

text \<open>C34: every operation that adds to a snapshot, sets its registers, or removes end states keeps the invariant of
  the whole snapshot whenever it returns: in particular, the registers and end states accepted before stay
  acceptable when mappings, negative mappings and bytes are added.\<close>

theorem whole_snapshot_kept:
  assumes "whole_snapshot_ok s" "mapping_ok m" "bytes_ok b"
  shows "post whole_snapshot_ok (add_memory_mapping m s) \<and>
    post whole_snapshot_ok (add_negative_memory_mapping m s) \<and>
    post whole_snapshot_ok (add_memory_bytes b s) \<and>
    post whole_snapshot_ok (set_registers x s) \<and>
    post whole_snapshot_ok (remove_expected_end_state i s) \<and>
    post whole_snapshot_ok (limit_end_states_to_platform p s)"
proof (intro conjI)
  have s: "snapshot_ok s" using assms(1) by (simp add: whole_snapshot_ok_def)
  show "post whole_snapshot_ok (set_registers x s)"
  proof (cases "registers_acceptable x s")
    case True
    have "extends s (s\<lparr>snap_registers := Some x\<rparr>)" by (simp add: extends_def)
    from end_state_fits_extends [OF this] have "end_states_ok (s\<lparr>snap_registers := Some x\<rparr>)"
      using assms(1) by (simp add: whole_snapshot_ok_def end_states_ok_def)
    moreover have "registers_acceptable x (s\<lparr>snap_registers := Some x\<rparr>)"
      using True by (simp add: registers_acceptable_def required_stack_size_def)
    ultimately show ?thesis
      using s True by (simp add: set_registers_eq whole_snapshot_ok_def snapshot_ok_def)
  next
    case False
    have "post (\<lambda>st. st = OkStatus \<longleftrightarrow> registers_acceptable x s) (can_set_registers x False s)"
      by (rule returns_wp [OF can_set_registers_returns [OF s]])
    then have "post (\<lambda>_. False) (dcheck_res (can_set_registers x False s))"
      unfolding dcheck_res_def by (rule wp_rbind) (use False in \<open>auto simp: dcheck_status_def\<close>)
    then show ?thesis
      unfolding set_registers_def by (intro wp_rbind [where P = "\<lambda>_. True"] wp_rbind [where P = "\<lambda>_. False"])
        (auto simp: post_iff)
  qed
qed (use assms whole_add_mapping whole_add_negative whole_add_bytes whole_remove whole_limit in blast)+

theorem whole_snapshot_kept_witness:
  "post whole_snapshot_ok (add_negative_memory_mapping negative_mapping sandbox)"
proof -
  have "mapping_ok negative_mapping" "bytes_ok code_bytes"
    using sample_snapshot_ok by (simp_all add: snapshot_ok_def represents_def mappings_ok_def bytes_represent_def sample_snapshot_def)
  from whole_snapshot_kept [OF sandbox_whole this] show ?thesis by blast
qed

text \<open>C35: \<open>can_set_memory_mappings\<close> accepts exactly the lists of aligned, disjoint mappings with permissions that
  no negative mapping forbids, that cover the memory bytes and keep the registers and every end state
  acceptable. Setting such a list returns, replaces the mappings and keeps the invariant of the whole
  snapshot; setting any other fails a check.\<close>

theorem remapping_accepted:
  assumes "whole_snapshot_ok s" "IsValidId (snap_id s) = OkStatus" "\<forall>m \<in> set ms. mapping_ok m"
  shows "(\<exists>st. can_set_memory_mappings ms s = ret st \<and> (st = OkStatus \<longleftrightarrow> settable ms s)) \<and>
    (if settable ms s
     then returns (\<lambda>s'. whole_snapshot_ok s' \<and> (\<exists>mm. s' = s\<lparr>snap_mapped_memory_map := mm, snap_memory_mappings := ms\<rparr>))
       (set_memory_mappings ms s)
     else \<exists>e. set_memory_mappings ms s = abort e)"
proof -
  obtain st where st: "can_set_memory_mappings ms s = ret st" "st = OkStatus \<longleftrightarrow> settable ms s"
    using can_set_memory_mappings_returns [OF assms] by (rule returnsE)
  show ?thesis
  proof (cases "settable ms s")
    case False
    then obtain e where "dcheck_res (can_set_memory_mappings ms s) = abort e" using dcheck_fails [OF st(1)] st(2) by blast
    then have "set_memory_mappings ms s = abort e" by (simp add: set_memory_mappings_def)
    with st False show ?thesis by auto
  qed (use st set_memory_mappings_returns [OF assms] in simp)
qed

theorem remapping_accepted_witness:
  "returns (\<lambda>s. whole_snapshot_ok s \<and> snap_memory_mappings s = [sandbox_mapping\<lparr>mm_num_bytes := 0x2000\<rparr>])
     (set_memory_mappings [sandbox_mapping\<lparr>mm_num_bytes := 0x2000\<rparr>] sandbox)"
proof -
  let ?m = "sandbox_mapping\<lparr>mm_num_bytes := 0x2000\<rparr>"
  have m: "mapping_ok ?m" "mapping_range ?m = {0x1000..<0x3000}" "mm_limit ?m = 0x3000"
    by (simp_all add: mapping_ok_def HasPermission_iff RWX_perms sandbox_mapping_simps CanMakeSized_def mapping_range_def mm_limit_def)
      (simp add: kMaxAddress_def)
  have "IsValidId (snap_id sandbox) = OkStatus"
    by (simp add: IsValidId_def sandbox_def UnsetId_def ascii_isalnum_def)
  moreover have "x < 0x3000" if "x < (0x1003 :: address)" for x using that by (rule less_trans) simp
  then have "settable [?m] sandbox"
    using m by (auto simp: settable_def sandbox_def sample_mappings mapped_addresses_def mappings_at_Cons mappings_ok_def
        sandbox_mapping_simps aligned_mapping_def page_aligned_def no_conflict_def)
  ultimately show ?thesis
    using remapping_accepted [OF sandbox_whole, of "[?m]"] m(1) by (auto elim!: returns_mono)
qed

section \<open>Completeness\<close>

lemma end_states_complete_returns:
  assumes "snapshot_ok s" "\<forall>e \<in> set es. end_state_fits False e s \<and> (\<forall>b \<in> set (es_memory_bytes e). bytes_ok b)"
  shows "returns (\<lambda>st. st = OkStatus \<longleftrightarrow> (\<forall>e \<in> set es. EndState_IsComplete state e = OkStatus)) (end_states_complete state s es)"
  using assms(2)
proof (induction es)
  case (Cons e es)
  have one: "returns (\<lambda>st. st = OkStatus \<longleftrightarrow> EndState_IsComplete state e = OkStatus)
      (plus_prefix ''In end-state: '' (ret (EndState_IsComplete state e)))"
    by (rule plus_prefix_returns) simp
  have "returns (\<lambda>st. st = OkStatus \<longleftrightarrow> True) (can_add_expected_end_state3 e False True s)"
    using can_add_end_state_returns [OF assms(1), of e False True] Cons.prems by simp
  then have two: "returns (\<lambda>st. st = OkStatus \<longleftrightarrow> True) (if state \<noteq> kMakingState
      then plus_prefix ''In end-state: '' (can_add_expected_end_state3 e False True s) else ret OkStatus)"
    using plus_prefix_returns [of True] by simp
  have three: "returns (\<lambda>st. st = OkStatus \<longleftrightarrow> (\<forall>e \<in> set es. EndState_IsComplete state e = OkStatus)) (end_states_complete state s es)"
    using Cons by simp
  show ?case
    unfolding end_states_complete.simps
    by (rule returns_mono [OF if_ok_then_returns [OF one if_ok_then_returns [OF two three]]]) simp
qed simp

definition complete_snapshot :: "snapshot_state \<Rightarrow> snapshot \<Rightarrow> bool" where
  "complete_snapshot state s \<longleftrightarrow>
     snap_memory_mappings s \<noteq> [] \<and> snap_memory_bytes s \<noteq> [] \<and> has_registers s \<and>
     (snap_negative_memory_mappings s \<noteq> [] \<longleftrightarrow> (\<exists>e \<in> set (snap_expected_end_states s). needs_negative_mapping e)) \<and>
     (state = kNormalState \<longrightarrow> snap_expected_end_states s \<noteq> []) \<and>
     (\<forall>e \<in> set (snap_expected_end_states s). EndState_IsComplete state e = OkStatus)"

lemma Snapshot_IsComplete_returns:
  assumes "whole_snapshot_ok s"
  shows "returns (\<lambda>st. st = OkStatus \<longleftrightarrow> complete_snapshot state s) (Snapshot_IsComplete state s)"
proof -
  have "returns (\<lambda>st. st = OkStatus \<longleftrightarrow> (\<forall>e \<in> set (snap_expected_end_states s). EndState_IsComplete state e = OkStatus))
      (end_states_complete state s (snap_expected_end_states s))"
    using assms by (intro end_states_complete_returns) (simp_all add: whole_snapshot_ok_def end_states_ok_def)
  then show ?thesis
    by (auto simp: Snapshot_IsComplete_def complete_snapshot_def reject_if_def Let_def elim!: returnsE)
qed

text \<open>For a snapshot whose invariant holds, \<open>IsComplete\<close> never finds fault with the mapping of an endpoint
  again: it accepts exactly the snapshots with mappings, bytes, registers, negative mappings just when some end
  state needs them, an end state in the normal state, and end states that are complete by themselves.
  \<open>IsCompleteSomeState\<close> accepts when one of the states does.\<close>

theorem snapshot_complete:
  assumes "whole_snapshot_ok s"
  shows "(\<exists>st. Snapshot_IsComplete state s = ret st \<and> (st = OkStatus \<longleftrightarrow> complete_snapshot state s)) \<and>
    (\<exists>st. IsCompleteSomeState s = ret st \<and> (st = OkStatus \<longleftrightarrow> (\<exists>state. complete_snapshot state s)))"
proof -
  have one: "\<exists>st. Snapshot_IsComplete state s = ret st \<and> (st = OkStatus \<longleftrightarrow> complete_snapshot state s)" for state
    using Snapshot_IsComplete_returns [OF assms, of state] by (auto elim: returnsE)
  obtain n u m where "Snapshot_IsComplete kNormalState s = ret n" "n = OkStatus \<longleftrightarrow> complete_snapshot kNormalState s"
    "Snapshot_IsComplete kUndefinedEndState s = ret u" "u = OkStatus \<longleftrightarrow> complete_snapshot kUndefinedEndState s"
    "Snapshot_IsComplete kMakingState s = ret m" "m = OkStatus \<longleftrightarrow> complete_snapshot kMakingState s"
    using one by metis
  moreover have "(\<exists>state. complete_snapshot state s) \<longleftrightarrow>
      complete_snapshot kNormalState s \<or> complete_snapshot kUndefinedEndState s \<or> complete_snapshot kMakingState s"
    by (metis snapshot_state.exhaust)
  ultimately have "\<exists>st. IsCompleteSomeState s = ret st \<and> (st = OkStatus \<longleftrightarrow> (\<exists>state. complete_snapshot state s))"
    by (auto simp: IsCompleteSomeState_def)
  with one show ?thesis by blast
qed

theorem snapshot_complete_witness: "\<exists>st. IsCompleteSomeState sandbox = ret st \<and> st \<noteq> OkStatus"
  using snapshot_complete [OF sandbox_whole, of kNormalState] by (auto simp: complete_snapshot_def has_registers_def sandbox_def)

section \<open>Equality\<close>

lemma MemoryBytesListEq_refl: "MemoryBytesListEq bs bs"
  by (simp add: MemoryBytesListEq_def MemoryBytes_eq_def list.rel_refl)

lemma EndState_eq_refl: "EndState_eq e e"
  by (simp add: EndState_eq_def EndState_DataEquals_def RegisterState_eq_def MemoryBytesListEq_refl)

lemma registers_eq_ret: "x = None \<or> y \<noteq> None \<Longrightarrow> registers_eq x y = ret (x = y)"
  by (auto simp: registers_eq_def RegisterState_eq_def split: option.splits)

lemma registers_eq_undefined: "x \<noteq> None \<Longrightarrow> registers_eq x None = abort (Undefined ''*y.registers_'')"
  by (auto simp: registers_eq_def)

definition same_up_to_registers :: "snapshot \<Rightarrow> snapshot \<Rightarrow> bool" where
  "same_up_to_registers x y \<longleftrightarrow> snap_id x = snap_id y \<and> snap_architecture x = snap_architecture y \<and>
     MappedMemoryMap_eq (snap_mapped_memory_map x) (snap_mapped_memory_map y) \<and>
     MemoryBytesListEq (snap_memory_bytes x) (snap_memory_bytes y)"

text \<open>A snapshot equals itself and its copy, which is the same snapshot. The comparison of two snapshots is
  undefined, since it reads registers through a null pointer, exactly when the left one has registers, the right one
  has none and they agree on id, architecture, mappings and bytes; otherwise it returns, and snapshots it
  finds equal agree on these, the registers, the negative mappings and the metadata.\<close>

theorem snapshot_equality:
  "Snapshot_eq x x = ret True \<and>
   (snapshot_ok x \<and> IsValidId (snap_id x) = OkStatus \<longrightarrow> Snapshot_Copy x = ret x) \<and>
   (if has_registers x \<and> \<not> has_registers y \<and> same_up_to_registers x y
    then \<exists>msg. Snapshot_eq x y = abort (Undefined msg)
    else \<exists>b. Snapshot_eq x y = ret b \<and>
      (b \<longrightarrow> same_up_to_registers x y \<and> snap_registers x = snap_registers y \<and>
        snap_negative_mapped_memory_map x = snap_negative_mapped_memory_map y \<and> snap_metadata x = snap_metadata y))"
proof (intro conjI impI)
  have "registers_eq (snap_registers x) (snap_registers x) = ret True" by (rule trans [OF registers_eq_ret]) auto
  then show "Snapshot_eq x x = ret True"
    by (auto simp: Snapshot_eq_def EqualsButEndStates_def VectorsEqualAsSet_def MappedMemoryMap_eq_def
        MemoryBytesListEq_refl intro: EndState_eq_refl)
  assume "snapshot_ok x \<and> IsValidId (snap_id x) = OkStatus"
  moreover from this have "architecture_descr (snap_architecture x) \<noteq> None \<and> snap_architecture x \<noteq> kUnsupported"
    by (cases "snap_architecture x") (simp_all add: snapshot_ok_def architecture_descr_def kSupportedArchitectures_def)
  ultimately show "Snapshot_Copy x = ret x"
    by (simp add: Snapshot_Copy_def new_snapshot_def dcheck_status_def MappedMemoryMap_Copy_def)
next
  have eq: "EqualsButEndStates x y = (if same_up_to_registers x y then registers_eq (snap_registers x) (snap_registers y) else ret False)"
    by (simp add: EqualsButEndStates_def same_up_to_registers_def)
  show "if has_registers x \<and> \<not> has_registers y \<and> same_up_to_registers x y
    then \<exists>msg. Snapshot_eq x y = abort (Undefined msg)
    else \<exists>b. Snapshot_eq x y = ret b \<and>
      (b \<longrightarrow> same_up_to_registers x y \<and> snap_registers x = snap_registers y \<and>
        snap_negative_mapped_memory_map x = snap_negative_mapped_memory_map y \<and> snap_metadata x = snap_metadata y)"
  proof (cases "has_registers x \<and> \<not> has_registers y \<and> same_up_to_registers x y")
    case True
    then show ?thesis by (auto simp: Snapshot_eq_def eq has_registers_def registers_eq_undefined)
  next
    case False
    then show ?thesis
      by (auto simp: Snapshot_eq_def eq has_registers_def registers_eq_ret MappedMemoryMap_eq_def)
  qed
qed

theorem snapshot_equality_witness:
  "\<exists>msg. Snapshot_eq (sandbox\<lparr>snap_registers := Some \<lparr>rs_gregs = [], rs_fpregs = []\<rparr>\<rparr>) sandbox = abort (Undefined msg)"
  using snapshot_equality [of "sandbox\<lparr>snap_registers := Some \<lparr>rs_gregs = [], rs_fpregs = []\<rparr>\<rparr>" sandbox]
  by (simp add: has_registers_def same_up_to_registers_def MappedMemoryMap_eq_def MemoryBytesListEq_refl)
    (simp add: sandbox_def)

text \<open>The comparison of vectors as sets is not symmetric when the left one has duplicates.\<close>

lemma VectorsEqualAsSet_not_symmetric:
  "VectorsEqualAsSet (=) [1, 1] [1, 2 :: nat] \<and> \<not> VectorsEqualAsSet (=) [1, 2] [1, 1 :: nat]"
  by (simp add: VectorsEqualAsSet_def)

section \<open>Platforms\<close>

text \<open>\<open>limit_end_states_to_platform\<close> keeps exactly the end states of a platform, in their order;
  \<open>some_has_platform\<close> tells whether any is left, and a snapshot that is limited is not changed by limiting it
  again. An id that is not one of the platforms is out of range.\<close>

theorem limit_end_states:
  assumes "\<forall>e \<in> set (snap_expected_end_states s). length (es_platforms e) = kMaxPlatformId + 1"
    and "p \<le> kMaxPlatformId"
  defines "es \<equiv> filter (\<lambda>e. p \<in> set (EndState_platforms e)) (snap_expected_end_states s)"
  shows "limit_end_states_to_platform p s = ret (s\<lparr>snap_expected_end_states := es\<rparr>) \<and>
    some_has_platform p s = ret (es \<noteq> []) \<and>
    limit_end_states_to_platform p (s\<lparr>snap_expected_end_states := es\<rparr>) = ret (s\<lparr>snap_expected_end_states := es\<rparr>) \<and>
    (snap_expected_end_states s \<noteq> [] \<and> kMaxPlatformId < q \<longrightarrow> (\<exists>msg. some_has_platform q s = abort (Undefined msg)))"
proof -
  have len: "\<forall>e \<in> set (snap_expected_end_states s). p < length (es_platforms e)" using assms(1,2) by simp
  have es: "es = filter (\<lambda>e. es_platforms e ! p) (snap_expected_end_states s)"
    unfolding es_def by (rule filter_cong [OF refl]) (use len in \<open>auto simp: EndState_platforms_def\<close>)
  have "limit_end_states_to_platform p s = ret (s\<lparr>snap_expected_end_states := es\<rparr>)"
    by (simp add: limit_end_states_to_platform_def erase_without_platform_eq [OF len] es)
  moreover have "\<forall>e \<in> set es. p < length (es_platforms e)" using len by (auto simp: es)
  then have "limit_end_states_to_platform p (s\<lparr>snap_expected_end_states := es\<rparr>) = ret (s\<lparr>snap_expected_end_states := es\<rparr>)"
    by (simp add: limit_end_states_to_platform_def erase_without_platform_eq) (simp add: es)
  moreover have "some_has_platform p s = ret (es \<noteq> [])"
    by (simp add: some_has_platform_def any_has_platform_eq [OF len] es filter_empty_conv)
  moreover have "\<exists>msg. some_has_platform q s = abort (Undefined msg)" if "snap_expected_end_states s \<noteq> []" "kMaxPlatformId < q"
    using that assms(1) by (cases "snap_expected_end_states s") (auto simp: some_has_platform_def EndState_has_platform_def)
  ultimately show ?thesis by blast
qed

theorem limit_end_states_witness: "some_has_platform 3 (sandbox\<lparr>snap_expected_end_states := [sandbox_end_state]\<rparr>) = ret False"
proof -
  let ?s = "sandbox\<lparr>snap_expected_end_states := [sandbox_end_state]\<rparr>"
  have "\<forall>e \<in> set (snap_expected_end_states ?s). length (es_platforms e) = kMaxPlatformId + 1"
    by (simp add: sandbox_end_state_def new_end_state_def)
  from limit_end_states [OF this, of 3] show ?thesis
    by (simp add: kMaxPlatformId_def sandbox_end_state_def new_end_state_def EndState_platforms_def nth_replicate del: replicate_Suc)
qed

end
