(* ===== verification/Thread_Pool.thy ===== *)
theory Thread_Pool
  imports Prelude "HOL-Library.Multiset"
begin

text \<open>
  The thread pool of \<open>util/thread_pool.h\<close>: a queue of jobs that worker threads take in order, and the shutdown
  signals that the destructor puts behind them before it joins the threads. Every interleaving of the thread
  that fills the queue and of the steps of the workers is an execution. The memory the jobs share is a
  parameter; a client says what its jobs do to it in the locale \<open>pool_jobs\<close>.
\<close>

section \<open>The pool\<close>

text \<open>An element of the queue is a function, or null to shut a thread down.\<close>

datatype 'j item = Job 'j | Shutdown

datatype 'j worker = Waiting | Running 'j | Exited

text \<open>\<open>tp_pending\<close> is what the owner of the pool still pushes: first its jobs, then one signal per thread.\<close>

record ('j, 's) pool =
  tp_pending :: "'j item list"
  tp_queue :: "'j item list"
  tp_workers :: "'j worker list"
  tp_shared :: 's

definition new_pool :: "nat \<Rightarrow> 'j list \<Rightarrow> 's \<Rightarrow> ('j, 's) pool" where
  "new_pool num_threads jobs shared =
     \<lparr>tp_pending = map Job jobs @ replicate num_threads Shutdown, tp_queue = [],
      tp_workers = replicate num_threads Waiting, tp_shared = shared\<rparr>"

text \<open>
  One step: the owner pushes the next element (\<open>Schedule\<close>, or the destructor), a waiting thread takes the front
  of the queue, or a thread does the next step of its job, after which the job goes on or is done. A job that
  aborts ends the process.
\<close>

definition after_step :: "nat \<Rightarrow> 'j option \<times> 's \<Rightarrow> ('j, 's) pool \<Rightarrow> ('j, 's) pool" where
  "after_step i r p = p\<lparr>tp_workers := (tp_workers p)[i := (case fst r of None \<Rightarrow> Waiting | Some j \<Rightarrow> Running j)],
                        tp_shared := snd r\<rparr>"

inductive pool_step :: "('j \<Rightarrow> 's \<Rightarrow> ('j option \<times> 's) res) \<Rightarrow> ('j, 's) pool \<Rightarrow> ('j, 's) pool res \<Rightarrow> bool" for run where
  push: "tp_pending p = x # xs \<Longrightarrow> pool_step run p (ret (p\<lparr>tp_pending := xs, tp_queue := tp_queue p @ [x]\<rparr>))"
| take_job: "i < length (tp_workers p) \<Longrightarrow> tp_workers p ! i = Waiting \<Longrightarrow> tp_queue p = Job j # q \<Longrightarrow>
    pool_step run p (ret (p\<lparr>tp_queue := q, tp_workers := (tp_workers p)[i := Running j]\<rparr>))"
| take_shutdown: "i < length (tp_workers p) \<Longrightarrow> tp_workers p ! i = Waiting \<Longrightarrow> tp_queue p = Shutdown # q \<Longrightarrow>
    pool_step run p (ret (p\<lparr>tp_queue := q, tp_workers := (tp_workers p)[i := Exited]\<rparr>))"
| work: "i < length (tp_workers p) \<Longrightarrow> tp_workers p ! i = Running j \<Longrightarrow>
    pool_step run p (rbind (run j (tp_shared p)) (\<lambda>r. ret (after_step i r p)))"

inductive pool_reaches :: "('j \<Rightarrow> 's \<Rightarrow> ('j option \<times> 's) res) \<Rightarrow> ('j, 's) pool \<Rightarrow> ('j, 's) pool \<Rightarrow> bool" for run where
  refl: "pool_reaches run p p"
| step: "pool_reaches run p q \<Longrightarrow> pool_step run q (ret r) \<Longrightarrow> pool_reaches run p r"

text \<open>The destructor has pushed everything and joined all threads.\<close>

definition joined :: "('j, 's) pool \<Rightarrow> bool" where
  "joined p \<longleftrightarrow> tp_pending p = [] \<and> (\<forall>w \<in> set (tp_workers p). w = Exited)"

inductive_cases pool_stepE: "pool_step run p r"

section \<open>Jobs that are not finished\<close>

fun item_jobs :: "'j item \<Rightarrow> 'j multiset" where
  "item_jobs (Job j) = {#j#}"
| "item_jobs Shutdown = {#}"

fun worker_jobs :: "'j worker \<Rightarrow> 'j multiset" where
  "worker_jobs (Running j) = {#j#}"
| "worker_jobs Waiting = {#}"
| "worker_jobs Exited = {#}"

definition unfinished :: "('j, 's) pool \<Rightarrow> 'j multiset" where
  "unfinished p = (\<Sum>x \<leftarrow> tp_queue p @ tp_pending p. item_jobs x) + (\<Sum>w \<leftarrow> tp_workers p. worker_jobs w)"

definition exited :: "'j worker list \<Rightarrow> nat" where
  "exited ws = length (filter (\<lambda>w. w = Exited) ws)"

text \<open>What is queued or pending: jobs, then a signal for each thread that still runs.\<close>

definition pool_ok :: "('j, 's) pool \<Rightarrow> bool" where
  "pool_ok p \<longleftrightarrow> (\<exists>js. tp_queue p @ tp_pending p = map Job js @ replicate (length (tp_workers p) - exited (tp_workers p)) Shutdown \<and>
     (exited (tp_workers p) > 0 \<longrightarrow> js = []))"

lemma sum_list_update_mset:
  fixes f :: "'a \<Rightarrow> 'b multiset"
  assumes "i < length xs"
  shows "(\<Sum>x \<leftarrow> xs[i := y]. f x) + f (xs ! i) = (\<Sum>x \<leftarrow> xs. f x) + f y"
  using assms
proof (induction xs arbitrary: i)
  case (Cons x xs)
  then show ?case by (cases i) (auto simp: ac_simps)
qed simp

lemma exited_update:
  "i < length ws \<Longrightarrow> exited (ws[i := w]) + (if ws ! i = Exited then 1 else 0) = exited ws + (if w = Exited then 1 else 0)"
proof (induction ws arbitrary: i)
  case (Cons v ws)
  show ?case
  proof (cases i)
    case (Suc k)
    then show ?thesis using Cons.IH [of k] Cons.prems by (auto simp: exited_def)
  qed (auto simp: exited_def)
qed simp

lemma exited_le: "exited ws \<le> length ws"
  by (simp add: exited_def)

lemma exited_less: "i < length ws \<Longrightarrow> ws ! i \<noteq> Exited \<Longrightarrow> exited ws < length ws"
  unfolding exited_def by (rule length_filter_less) (auto intro: nth_mem)

lemma new_pool_facts: "pool_ok (new_pool n js s)" "unfinished (new_pool n js s) = mset js" "tp_shared (new_pool n js s) = s"
proof -
  have e: "exited (replicate n (Waiting :: 'a worker)) = 0" by (simp add: exited_def)
  show "pool_ok (new_pool n js s)" by (auto simp: pool_ok_def new_pool_def e intro!: exI [of _ js])
  have "(\<Sum>x \<leftarrow> map Job js. item_jobs x) = mset js" by (induction js) simp_all
  moreover have "(\<Sum>x \<leftarrow> replicate n Shutdown. item_jobs x) = ({#} :: 'a multiset)"
    "(\<Sum>w \<leftarrow> replicate n Waiting. worker_jobs w) = ({#} :: 'a multiset)" by (induction n) simp_all
  ultimately show "unfinished (new_pool n js s) = mset js" by (simp add: unfinished_def new_pool_def del: map_map)
qed (simp add: new_pool_def)

lemma joined_unfinished:
  assumes "pool_ok p" "joined p" "tp_workers p \<noteq> []"
  shows "unfinished p = {#}"
proof -
  have "exited (tp_workers p) = length (tp_workers p)"
    using assms(2) by (simp add: joined_def exited_def)
  moreover from this have "exited (tp_workers p) > 0" using assms(3) by simp
  ultimately have "tp_queue p @ tp_pending p = []" using assms(1) by (auto simp: pool_ok_def)
  moreover have "(\<Sum>w \<leftarrow> ws. worker_jobs w) = {#}" if "\<forall>w \<in> set ws. w = Exited" for ws :: "'a worker list"
    using that by (induction ws) auto
  ultimately show ?thesis using assms(2) by (simp add: unfinished_def joined_def)
qed

section \<open>What the jobs keep\<close>

text \<open>
  The contract of a client: \<open>good M s\<close> holds when the jobs \<open>M\<close> are still to be done and the memory is \<open>s\<close>. A
  step of any of these jobs returns, keeps \<open>good\<close> for the jobs that are left, and makes the job smaller.
\<close>

definition left_over :: "'j option \<Rightarrow> 'j multiset" where
  "left_over j = (case j of None \<Rightarrow> {#} | Some k \<Rightarrow> {#k#})"

fun item_weight :: "('j \<Rightarrow> nat) \<Rightarrow> 'j item \<Rightarrow> nat" where
  "item_weight w (Job j) = w j + 2"
| "item_weight w Shutdown = 1"

fun worker_weight :: "('j \<Rightarrow> nat) \<Rightarrow> 'j worker \<Rightarrow> nat" where
  "worker_weight w (Running j) = w j + 1"
| "worker_weight w Waiting = 0"
| "worker_weight w Exited = 0"

definition pool_weight :: "('j \<Rightarrow> nat) \<Rightarrow> ('j, 's) pool \<Rightarrow> nat" where
  "pool_weight w p = length (tp_pending p) + (\<Sum>x \<leftarrow> tp_queue p @ tp_pending p. item_weight w x) +
     (\<Sum>x \<leftarrow> tp_workers p. worker_weight w x)"

lemma sum_list_update_nat:
  fixes f :: "'a \<Rightarrow> nat"
  assumes "i < length xs"
  shows "(\<Sum>x \<leftarrow> xs[i := y]. f x) + f (xs ! i) = (\<Sum>x \<leftarrow> xs. f x) + f y"
  using assms
proof (induction xs arbitrary: i)
  case (Cons x xs)
  then show ?case by (cases i) auto
qed simp

lemma unfinished_worker:
  assumes "i < length (tp_workers p)"
  shows "unfinished (p\<lparr>tp_queue := q, tp_workers := (tp_workers p)[i := w]\<rparr>) + worker_jobs (tp_workers p ! i) =
    (\<Sum>x \<leftarrow> q @ tp_pending p. item_jobs x) + (\<Sum>w \<leftarrow> tp_workers p. worker_jobs w) + worker_jobs w"
  using sum_list_update_mset [OF assms, of worker_jobs w] by (simp add: unfinished_def ac_simps)

lemma push_ok:
  assumes "tp_pending p = x # xs"
  shows "pool_ok (p\<lparr>tp_pending := xs, tp_queue := tp_queue p @ [x]\<rparr>) \<longleftrightarrow> pool_ok p"
    "unfinished (p\<lparr>tp_pending := xs, tp_queue := tp_queue p @ [x]\<rparr>) = unfinished p"
    "pool_weight w (p\<lparr>tp_pending := xs, tp_queue := tp_queue p @ [x]\<rparr>) < pool_weight w p"
  using assms by (simp_all add: pool_ok_def unfinished_def pool_weight_def)

lemma take_job_ok:
  assumes ok: "pool_ok p" and i: "i < length (tp_workers p)" "tp_workers p ! i = Waiting" and q: "tp_queue p = Job j # q"
  defines "p' \<equiv> p\<lparr>tp_queue := q, tp_workers := (tp_workers p)[i := Running j]\<rparr>"
  shows "pool_ok p'" "unfinished p' = unfinished p" "pool_weight w p' < pool_weight w p"
proof -
  have e: "exited ((tp_workers p)[i := Running j]) = exited (tp_workers p)" using exited_update [OF i(1), of "Running j"] i(2) by simp
  obtain js where js: "Job j # q @ tp_pending p = map Job js @ replicate (length (tp_workers p) - exited (tp_workers p)) Shutdown"
    "exited (tp_workers p) > 0 \<longrightarrow> js = []" using ok q by (auto simp: pool_ok_def)
  then obtain js' where "js = j # js'"
    using exited_less [OF i(1)] i(2) by (cases js; cases "length (tp_workers p) - exited (tp_workers p)") auto
  with js e show "pool_ok p'" by (auto simp: pool_ok_def p'_def)
  show "unfinished p' = unfinished p"
    using unfinished_worker [OF i(1), where q = q and w = "Running j"] i(2) q by (simp add: p'_def unfinished_def ac_simps)
  show "pool_weight w p' < pool_weight w p"
    using sum_list_update_nat [OF i(1), of "worker_weight w" "Running j"] i(2) q by (simp add: p'_def pool_weight_def)
qed

lemma take_shutdown_ok:
  assumes ok: "pool_ok p" and i: "i < length (tp_workers p)" "tp_workers p ! i = Waiting" and q: "tp_queue p = Shutdown # q"
  defines "p' \<equiv> p\<lparr>tp_queue := q, tp_workers := (tp_workers p)[i := Exited]\<rparr>"
  shows "pool_ok p'" "unfinished p' = unfinished p" "pool_weight w p' < pool_weight w p"
proof -
  have e: "exited ((tp_workers p)[i := Exited]) = Suc (exited (tp_workers p))" using exited_update [OF i(1), of Exited] i(2) by simp
  obtain js where js: "Shutdown # q @ tp_pending p = map Job js @ replicate (length (tp_workers p) - exited (tp_workers p)) Shutdown"
    using ok q by (auto simp: pool_ok_def)
  then have "js = []" by (cases js) auto
  then have "q @ tp_pending p = replicate (length (tp_workers p) - Suc (exited (tp_workers p))) Shutdown"
    using js exited_less [OF i(1)] i(2) by (cases "length (tp_workers p) - exited (tp_workers p)") auto
  with e show "pool_ok p'" by (auto simp: pool_ok_def p'_def)
  show "unfinished p' = unfinished p"
    using unfinished_worker [OF i(1), where q = q and w = Exited] i(2) q by (simp add: p'_def unfinished_def ac_simps)
  show "pool_weight w p' < pool_weight w p"
    using sum_list_update_nat [OF i(1), of "worker_weight w" Exited] i(2) q by (simp add: p'_def pool_weight_def)
qed

lemma work_ok:
  assumes ok: "pool_ok p" and i: "i < length (tp_workers p)" "tp_workers p ! i = Running j"
  shows "pool_ok (after_step i r p)" "unfinished p = add_mset j (unfinished p - {#j#})"
    "unfinished (after_step i r p) = unfinished p - {#j#} + left_over (fst r)" "tp_shared (after_step i r p) = snd r"
    "(\<forall>k. fst r = Some k \<longrightarrow> w k < w j) \<Longrightarrow> pool_weight w (after_step i r p) < pool_weight w p"
proof -
  let ?w = "case fst r of None \<Rightarrow> Waiting | Some j \<Rightarrow> Running j"
  have "exited ((tp_workers p)[i := ?w]) = exited (tp_workers p)"
    using exited_update [OF i(1), of ?w] i(2) by (simp split: option.splits)
  then show "pool_ok (after_step i r p)" using ok by (simp add: pool_ok_def after_step_def)
  have "worker_jobs ?w = left_over (fst r)" by (simp add: left_over_def split: option.splits)
  then have u: "unfinished (after_step i r p) + {#j#} = unfinished p + left_over (fst r)"
    using sum_list_update_mset [OF i(1), of worker_jobs ?w] i(2) by (simp add: unfinished_def after_step_def ac_simps)
  have "Running j \<in> set (tp_workers p)" using i by (metis nth_mem)
  then have "j \<in># unfinished p" by (auto simp: unfinished_def dest!: split_list)
  then show "unfinished p = add_mset j (unfinished p - {#j#})" by simp
  with u show "unfinished (after_step i r p) = unfinished p - {#j#} + left_over (fst r)"
    by (metis add_mset_add_single add_right_cancel union_mset_add_mset_left)
  show "tp_shared (after_step i r p) = snd r" by (simp add: after_step_def)
  assume "\<forall>k. fst r = Some k \<longrightarrow> w k < w j"
  then have "worker_weight w ?w < worker_weight w (Running j)" by (simp split: option.splits)
  then show "pool_weight w (after_step i r p) < pool_weight w p"
    using sum_list_update_nat [OF i(1), of "worker_weight w" ?w] i(2) by (simp add: pool_weight_def after_step_def)
qed

locale pool_jobs =
  fixes run :: "'j \<Rightarrow> 's \<Rightarrow> ('j option \<times> 's) res" and good :: "'j multiset \<Rightarrow> 's \<Rightarrow> bool" and weight :: "'j \<Rightarrow> nat"
  assumes run_good: "good (add_mset j M) s \<Longrightarrow>
    returns (\<lambda>r. good (M + left_over (fst r)) (snd r) \<and> (\<forall>k. fst r = Some k \<longrightarrow> weight k < weight j)) (run j s)"
begin

definition sound :: "('j, 's) pool \<Rightarrow> bool" where
  "sound p \<longleftrightarrow> pool_ok p \<and> good (unfinished p) (tp_shared p)"

lemma sound_step:
  assumes "sound p" "pool_step run p r"
  shows "\<exists>p'. r = ret p' \<and> sound p' \<and> length (tp_workers p') = length (tp_workers p) \<and> pool_weight weight p' < pool_weight weight p"
  using assms(2)
proof (cases rule: pool_step.cases)
  case (push x xs)
  then show ?thesis using assms(1) push_ok [OF push(2)] by (simp add: sound_def)
next
  case (take_job i j q)
  then show ?thesis using assms(1) take_job_ok [OF _ take_job(2-4)] by (simp add: sound_def)
next
  case (take_shutdown i q)
  then show ?thesis using assms(1) take_shutdown_ok [OF _ take_shutdown(2-4)] by (simp add: sound_def)
next
  case (work i j)
  have ok: "pool_ok p" using assms(1) by (simp add: sound_def)
  note w = work_ok [OF ok work(2,3)]
  have "good (add_mset j (unfinished p - {#j#})) (tp_shared p)" using assms(1) w(2) by (simp add: sound_def)
  from run_good [OF this] obtain x where "run j (tp_shared p) = ret x"
    "good (unfinished p - {#j#} + left_over (fst x)) (snd x)" "\<forall>k. fst x = Some k \<longrightarrow> weight k < weight j"
    by (rule returnsE) blast
  then show ?thesis using work(1) w by (simp add: sound_def after_step_def)
qed

lemma sound_reaches:
  assumes "pool_reaches run p q" "sound p"
  shows "sound q \<and> length (tp_workers q) = length (tp_workers p)"
  using assms by (induction rule: pool_reaches.induct) (auto dest: sound_step)

text \<open>Nothing blocks: as long as the threads are not joined, some step is possible.\<close>

lemma no_deadlock:
  assumes "sound p" "\<not> joined p"
  shows "\<exists>r. pool_step run p r"
proof (cases "tp_pending p")
  case (Cons x xs)
  then show ?thesis by (blast intro: pool_step.push)
next
  case Nil
  then obtain w where "w \<in> set (tp_workers p)" "w \<noteq> Exited" using assms(2) by (auto simp: joined_def)
  then obtain i where i: "i < length (tp_workers p)" "tp_workers p ! i \<noteq> Exited" by (auto simp: in_set_conv_nth)
  show ?thesis
  proof (cases "tp_workers p ! i")
    case (Running j)
    show ?thesis by (rule exI, rule pool_step.work [OF i(1) Running])
  next
    case Waiting
    have "tp_queue p \<noteq> []"
      using assms(1) Nil exited_less [OF i] by (auto simp: sound_def pool_ok_def)
    then obtain x q where "tp_queue p = x # q" by (cases "tp_queue p") auto
    with Waiting i(1) show ?thesis by (cases x) (blast intro: pool_step.take_job pool_step.take_shutdown)+
  qed (use i(2) in simp)
qed

lemma ends_joined:
  assumes "sound p"
  shows "\<exists>q. pool_reaches run p q \<and> joined q"
  using assms
proof (induction "pool_weight weight p" arbitrary: p rule: less_induct)
  case less
  show ?case
  proof (cases "joined p")
    case True
    then show ?thesis using pool_reaches.refl by blast
  next
    case False
    then obtain r where r: "pool_step run p r" using no_deadlock less.prems by blast
    from sound_step [OF less.prems r] obtain p' where p': "r = ret p'" "sound p'" "pool_weight weight p' < pool_weight weight p" by blast
    then obtain q where q: "pool_reaches run p' q" "joined q" using less.hyps by blast
    have "pool_reaches run p q"
      using q(1) r p'(1) by (induction rule: pool_reaches.induct) (auto intro: pool_reaches.intros)
    with q(2) show ?thesis by blast
  qed
qed

text \<open>The destructor returns in every execution, and then every job has been done.\<close>

lemma pool_correct:
  assumes "good (mset js) s" "n > 0" and p: "pool_reaches run (new_pool n js s) p"
  shows "\<not> pool_step run p (abort e)" "\<not> pool_step run p None" "\<exists>q. pool_reaches run p q \<and> joined q" "joined p \<Longrightarrow> good {#} (tp_shared p)"
proof -
  have "sound (new_pool n js s)" using assms(1) by (simp add: sound_def new_pool_facts)
  then have ok: "sound p" "length (tp_workers p) = n"
    using sound_reaches [OF p] by (simp_all add: new_pool_def)
  show "\<not> pool_step run p (abort e)" "\<not> pool_step run p None" using sound_step [OF ok(1)] by fastforce+
  show "\<exists>q. pool_reaches run p q \<and> joined q" by (rule ends_joined [OF ok(1)])
  assume "joined p"
  moreover have "tp_workers p \<noteq> []" using ok(2) assms(2) by auto
  ultimately have "unfinished p = {#}" using ok(1) joined_unfinished [of p] unfolding sound_def by blast
  with ok(1) show "good {#} (tp_shared p)" by (simp add: sound_def)
qed

end

end
