(* ===== verification/Snap_Group.thy ===== *)
theory Snap_Group
  imports Snapshot_Model Thread_Pool "HOL-Library.List_Lexorder" "HOL-Library.Char_ord"
begin

text \<open>
  Groups of snapshots that can share a runner, and the partition of a corpus into such groups
  (\<open>tool_libs/snap_group.h\<close>, \<open>snap_group.cc\<close>, \<open>corpus_partitioner_lib.cc\<close>). The partition fills its groups in
  parallel; its jobs are jobs of the thread pool, and the sequential function runs them one after the other.
\<close>

section \<open>Summaries\<close>

datatype conflict_resolution = kNoConflictAllowed | kAllowWriteConflictsWithSamePerm

record snapshot_summary =
  ss_id :: snapshot_id
  ss_memory_mappings :: "memory_mapping list"
  ss_sort_key :: int

definition kNullSummary :: snapshot_summary where
  "kNullSummary = \<lparr>ss_id = [], ss_memory_mappings = [], ss_sort_key = 0\<rparr>"

text \<open>The comparisons look at the sort key and the id only.\<close>

definition summary_less :: "snapshot_summary \<Rightarrow> snapshot_summary \<Rightarrow> bool" where
  "summary_less x y \<longleftrightarrow>
     (if ss_sort_key x \<noteq> ss_sort_key y then ss_sort_key x < ss_sort_key y else ss_id x < ss_id y)"

definition summary_eq :: "snapshot_summary \<Rightarrow> snapshot_summary \<Rightarrow> bool" where
  "summary_eq x y \<longleftrightarrow> ss_sort_key x = ss_sort_key y \<and> ss_id x = ss_id y"

text \<open>The sort key of a snapshot: the negated set of its platforms, cut to an \<open>int\<close>.\<close>

definition platform_bits :: "nat list \<Rightarrow> u64" where
  "platform_bits ps = fold (\<lambda>p bits. bits OR push_bit p 1) ps 0"

definition summary_sort_key :: "snapshot \<Rightarrow> int res" where
  "summary_sort_key s = (case snap_expected_end_states s of
     [e] \<Rightarrow> let bits = sint (ucast (platform_bits (EndState_platforms e)) :: u32)
            in if bits = - (2 ^ 31) then abort (Undefined ''-static_cast<int>(bits)'') else ret (- bits)
   | _ \<Rightarrow> ret 0)"

definition SnapshotSummary :: "snapshot \<Rightarrow> snapshot_summary res" where
  "SnapshotSummary s = rbind (summary_sort_key s) (\<lambda>key.
     ret \<lparr>ss_id = snap_id s, ss_memory_mappings = snap_memory_mappings s, ss_sort_key = key\<rparr>)"

section \<open>Groups\<close>

text \<open>The set of ids is kept in the order of the insertions.\<close>

record snapshot_group =
  sg_conflict_resolution :: conflict_resolution
  sg_id_set :: "snapshot_id list"
  sg_mapped_memory_map :: mapped_map

definition new_group :: "conflict_resolution \<Rightarrow> mapped_map \<Rightarrow> snapshot_group" where
  "new_group conflict_resolution mapped_memory_map =
     \<lparr>sg_conflict_resolution = conflict_resolution, sg_id_set = [],
      sg_mapped_memory_map = MappedMemoryMap_Copy mapped_memory_map\<rparr>"

definition group_size :: "snapshot_group \<Rightarrow> nat" where
  "group_size g = length (sg_id_set g)"

definition id_list :: "snapshot_group \<Rightarrow> snapshot_id list" where
  "id_list g = sg_id_set g"

datatype group_status = GroupOk | AlreadyExists string

definition can_add_writable_mapping :: "memory_mapping \<Rightarrow> mapped_map \<Rightarrow> bool res" where
  "can_add_writable_mapping m mm =
     (let mapped_perms = MemoryPerms_PlusPermission (mm_perms m) kMapped in
      MappedMemoryMap_IterateRange (\<lambda>start limit perms ok. if perms \<noteq> mapped_perms then False else ok)
        (mm_start m) (mm_limit m) mm True)"

fun can_add_mappings :: "conflict_resolution \<Rightarrow> mapped_map \<Rightarrow> memory_mapping list \<Rightarrow> group_status res" where
  "can_add_mappings c mm [] = ret GroupOk"
| "can_add_mappings c mm (m # ms) =
     (if c = kAllowWriteConflictsWithSamePerm \<and> MemoryPerms_HasPermission (mm_perms m) kWritable
      then rbind (can_add_writable_mapping m mm) (\<lambda>ok.
           if \<not> ok then ret (AlreadyExists ''writable mapping conflict'') else can_add_mappings c mm ms)
      else rbind (MappedMemoryMap_Overlaps (mm_start m) (mm_limit m) mm) (\<lambda>overlaps.
           if overlaps then ret (AlreadyExists ''mapping conflict'') else can_add_mappings c mm ms))"

definition CanAddSnapshot :: "snapshot_summary \<Rightarrow> snapshot_group \<Rightarrow> group_status res" where
  "CanAddSnapshot s g =
     (if ss_id s \<in> set (sg_id_set g) then ret (AlreadyExists ''Id already exists'')
      else can_add_mappings (sg_conflict_resolution g) (sg_mapped_memory_map g) (ss_memory_mappings s))"

definition AddSnapshot :: "snapshot_summary \<Rightarrow> snapshot_group \<Rightarrow> snapshot_group res" where
  "AddSnapshot s g =
     rbind (CanAddSnapshot s g) (\<lambda>st.
     rbind (check (st = GroupOk) ''CanAddSnapshot(snapshot_summary).ok()'') (\<lambda>_.
     rbind (for_each (\<lambda>m. MappedMemoryMap_Add (mm_start m) (mm_limit m) (MemoryPerms_PlusPermission (mm_perms m) kMapped))
              (ss_memory_mappings s) (sg_mapped_memory_map g)) (\<lambda>mm.
     ret (g\<lparr>sg_mapped_memory_map := mm,
            sg_id_set := (if ss_id s \<in> set (sg_id_set g) then sg_id_set g else sg_id_set g @ [ss_id s])\<rparr>))))"

section \<open>The partition\<close>

definition new_partition :: "nat \<Rightarrow> conflict_resolution \<Rightarrow> mapped_map \<Rightarrow> snapshot_group list" where
  "new_partition num_groups conflict_resolution conflict_mapped_memory =
     replicate num_groups (new_group conflict_resolution conflict_mapped_memory)"

definition target_group_size :: "nat \<Rightarrow> nat \<Rightarrow> nat \<Rightarrow> nat" where
  "target_group_size num_snapshots num_groups i =
     num_snapshots div num_groups + (if i < num_snapshots mod num_groups then 1 else 0)"

text \<open>A job: the group, the next summary and the first one that is not of the job any more.\<close>

datatype chunk = Chunk nat nat nat

text \<open>Sizes are unsigned, their difference is taken as a signed number and added back to an unsigned one.\<close>

fun schedule_chunks :: "nat \<Rightarrow> nat \<Rightarrow> (nat \<times> nat) list \<Rightarrow> nat \<Rightarrow> chunk list res" where
  "schedule_chunks n i [] offset = ret []"
| "schedule_chunks n i ((target, sz) # rest) offset =
     (let chunk_size = int target - int sz in
      if chunk_size = 0 then schedule_chunks n (Suc i) rest offset
      else let chunk_end = nat ((int offset + chunk_size) mod 2 ^ 64) in
        rbind (check (chunk_end \<le> n) ''offset + chunk_size <= summaries.size()'') (\<lambda>_.
        rbind (schedule_chunks n (Suc i) rest chunk_end) (\<lambda>jobs. ret (Chunk i offset chunk_end # jobs))))"

definition partition_jobs :: "snapshot_group list \<Rightarrow> snapshot_summary list \<Rightarrow> chunk list res" where
  "partition_jobs groups summaries =
     (if groups = [] then abort (Undefined ''num_snapshots / snapshot_groups_.size()'')
      else let num_snapshots = length summaries + (\<Sum>g \<leftarrow> groups. group_size g);
               targets = map (target_group_size num_snapshots (length groups)) [0..<length groups]
           in schedule_chunks (length summaries) 0 (zip targets (map group_size groups)) 0)"

text \<open>One round of a job on the shared vectors.\<close>

definition process_summary ::
    "nat \<Rightarrow> nat \<Rightarrow> snapshot_group list \<times> snapshot_summary list \<Rightarrow> (snapshot_group list \<times> snapshot_summary list) res" where
  "process_summary i j shared = (case shared of (groups, summaries) \<Rightarrow>
     if i < length groups \<and> j < length summaries
     then rbind (CanAddSnapshot (summaries ! j) (groups ! i)) (\<lambda>st.
          if st = GroupOk
          then rbind (AddSnapshot (summaries ! j) (groups ! i)) (\<lambda>g. ret (groups[i := g], summaries[j := kNullSummary]))
          else ret (groups, summaries))
     else abort (Undefined ''summaries[j]''))"

fun chunk_step ::
    "chunk \<Rightarrow> snapshot_group list \<times> snapshot_summary list \<Rightarrow>
     (chunk option \<times> (snapshot_group list \<times> snapshot_summary list)) res" where
  "chunk_step (Chunk i j chunk_end) shared =
     (if j < chunk_end then rbind (process_summary i j shared) (\<lambda>shared. ret (Some (Chunk i (Suc j) chunk_end), shared))
      else ret (None, shared))"

fun run_chunk ::
    "chunk \<Rightarrow> snapshot_group list \<times> snapshot_summary list \<Rightarrow> (snapshot_group list \<times> snapshot_summary list) res" where
  "run_chunk (Chunk i j chunk_end) shared = for_range (process_summary i) j (chunk_end - j) shared"

definition remove_null :: "snapshot_summary list \<Rightarrow> snapshot_summary list" where
  "remove_null summaries = filter (\<lambda>s. \<not> summary_eq s kNullSummary) summaries"

text \<open>All executions with a pool of \<open>num_threads\<close> threads.\<close>

inductive PartitionSnapshots_runs ::
    "nat \<Rightarrow> snapshot_group list \<Rightarrow> snapshot_summary list \<Rightarrow> (snapshot_group list \<times> snapshot_summary list) res \<Rightarrow> bool" where
  refused: "partition_jobs groups summaries = abort e \<Longrightarrow> PartitionSnapshots_runs num_threads groups summaries (abort e)"
| joined: "partition_jobs groups summaries = ret jobs \<Longrightarrow>
    pool_reaches chunk_step (new_pool num_threads jobs (groups, summaries)) p \<Longrightarrow> joined p \<Longrightarrow>
    PartitionSnapshots_runs num_threads groups summaries
      (ret (fst (tp_shared p), remove_null (snd (tp_shared p))))"
| aborted: "partition_jobs groups summaries = ret jobs \<Longrightarrow>
    pool_reaches chunk_step (new_pool num_threads jobs (groups, summaries)) p \<Longrightarrow> pool_step chunk_step p (abort e) \<Longrightarrow>
    PartitionSnapshots_runs num_threads groups summaries (abort e)"

text \<open>The execution that runs the jobs one after the other.\<close>

definition PartitionSnapshots ::
    "snapshot_group list \<Rightarrow> snapshot_summary list \<Rightarrow> (snapshot_group list \<times> snapshot_summary list) res" where
  "PartitionSnapshots groups summaries =
     rbind (partition_jobs groups summaries) (\<lambda>jobs.
     rbind (for_each run_chunk jobs (groups, summaries)) (\<lambda>(groups, summaries).
     ret (groups, remove_null summaries)))"

section \<open>The corpus\<close>

definition sort_summaries :: "snapshot_summary list \<Rightarrow> snapshot_summary list" where
  "sort_summaries xs = sort_key ss_sort_key (sort_key ss_id xs)"

fun partition_iterations ::
    "nat \<Rightarrow> snapshot_group list \<Rightarrow> snapshot_summary list \<Rightarrow> (snapshot_group list \<times> snapshot_summary list) res" where
  "partition_iterations 0 groups ungrouped = ret (groups, ungrouped)"
| "partition_iterations (Suc n) groups ungrouped =
     (if ungrouped = [] then ret (groups, ungrouped)
      else rbind (PartitionSnapshots groups ungrouped) (\<lambda>(groups, ungrouped). partition_iterations n groups ungrouped))"

definition PartitionCorpus ::
    "nat \<Rightarrow> nat \<Rightarrow> snapshot_summary list \<Rightarrow> (snapshot_group list \<times> snapshot_summary list) res" where
  "PartitionCorpus num_groups num_iterations ungrouped =
     partition_iterations num_iterations (new_partition num_groups kAllowWriteConflictsWithSamePerm [])
       (sort_summaries ungrouped)"

end
