(* ===== verification/Snap_Group_Facts.thy ===== *)
theory Snap_Group_Facts
  imports Snap_Group Snapshot_Remapping
begin

text \<open>
  What one group promises: the snapshots in it agree wherever they map the same address, and the check says
  exactly whether one more snapshot agrees with all of them.
\<close>

section \<open>Mappings that agree\<close>

definition mapped_perms :: "memory_perms \<Rightarrow> memory_perms" where
  "mapped_perms p = MemoryPerms_PlusPermission p kMapped"

lemma mapped_perms_simps [simp]:
  "perms_set (mapped_perms p) = insert kMapped (perms_set p)" "perms_ok p \<Longrightarrow> perms_ok (mapped_perms p)"
  "MemoryPerms_Add p p = p"
  by (simp_all add: mapped_perms_def MemoryPerms_PlusPermission_def MemoryPerms_Add_def MemoryPerms_of_def)

lemma mapped_perms_inject:
  assumes "perms_ok p" "perms_ok q" "kMapped \<notin> perms_set p" "kMapped \<notin> perms_set q"
  shows "mapped_perms p = mapped_perms q \<longleftrightarrow> p = q"
  using assms by (simp add: perms_eq_iff insert_ident)

text \<open>The mappings fit into a map: where they meet it, both are writable mappings with the same permissions
  and the policy allows it.\<close>

definition fits :: "conflict_resolution \<Rightarrow> (address \<Rightarrow> memory_perms option) \<Rightarrow> memory_mapping list \<Rightarrow> bool" where
  "fits c f ms \<longleftrightarrow> (\<forall>k p q. mappings_at ms k = Some p \<and> f k = Some q \<longrightarrow>
     c = kAllowWriteConflictsWithSamePerm \<and> kWritable \<in> perms_set p \<and> q = mapped_perms p)"

definition share :: "conflict_resolution \<Rightarrow> memory_mapping list \<Rightarrow> memory_mapping list \<Rightarrow> bool" where
  "share c xs ys \<longleftrightarrow> (\<forall>k p q. mappings_at xs k = Some p \<and> mappings_at ys k = Some q \<longrightarrow>
     c = kAllowWriteConflictsWithSamePerm \<and> kWritable \<in> perms_set p \<and> p = q)"

lemma can_add_writable_mapping_eq:
  assumes "mapped_map_ok mm" "mapping_ok m"
  shows "can_add_writable_mapping m mm =
    ret (\<forall>k \<in> mapping_range m. \<forall>q. perms_at mm k = Some q \<longrightarrow> q = mapped_perms (mm_perms m))"
proof -
  let ?es = "filter (\<lambda>e. entry_start e < mm_limit m \<and> mm_start m < entry_limit e) mm"
  have acc: "accepting (\<lambda>i s. (True, if snd i \<noteq> mapped_perms (mm_perms m) then False else s))"
    by (simp add: accepting_def)
  have fold: "fold (\<lambda>e s. if snd e \<noteq> q then False else s) es b \<longleftrightarrow> b \<and> (\<forall>e \<in> set es. snd e = q)"
    for es :: "(address, memory_perms) entry list" and q b
    by (induction es arbitrary: b) auto
  have "can_add_writable_mapping m mm = ret (\<forall>e \<in> set ?es. snd e = mapped_perms (mm_perms m))"
    unfolding can_add_writable_mapping_def MappedMemoryMap_IterateRange_def Let_def mapped_perms_def [symmetric]
    by (subst Covers_spec [OF ranges_of_ok [OF assms(1)] mapping_params(1) [OF assms(2)] acc, where point = "\<lambda>_ _ v _. v"])
      (simp add: fold)
  also have "(\<forall>e \<in> set ?es. snd e = mapped_perms (mm_perms m)) \<longleftrightarrow>
      (\<forall>k \<in> mapping_range m. \<forall>q. perms_at mm k = Some q \<longrightarrow> q = mapped_perms (mm_perms m))"
    using overlapping_entry [OF assms(1) mapping_params(1) [OF assms(2)], of "\<lambda>q. q \<noteq> mapped_perms (mm_perms m)"]
    by (auto simp: mem_mapping_range)
  finally show ?thesis .
qed

lemma fits_Cons:
  assumes "mappings_ok (m # ms)"
  shows "fits c f (m # ms) \<longleftrightarrow> fits c f [m] \<and> fits c f ms"
proof -
  have "mappings_at ms k = None" if "k \<in> mapping_range m" for k
    using assms that by (auto simp: mappings_ok_def mappings_at_None)
  then have split: "mappings_at (m # ms) k = Some p \<longleftrightarrow> mappings_at [m] k = Some p \<or> mappings_at ms k = Some p" for k p
    by (auto simp: mappings_at_Cons)
  show ?thesis unfolding fits_def split by blast
qed

lemma fits_single: "fits c f [m] \<longleftrightarrow> (\<forall>k \<in> mapping_range m. \<forall>q. f k = Some q \<longrightarrow>
    c = kAllowWriteConflictsWithSamePerm \<and> kWritable \<in> perms_set (mm_perms m) \<and> q = mapped_perms (mm_perms m))"
  by (simp add: fits_def mappings_at_Cons) blast

lemma can_add_mappings_returns:
  assumes "mapped_map_ok mm" "mappings_ok ms"
  shows "returns (\<lambda>st. st = GroupOk \<longleftrightarrow> fits c (perms_at mm) ms) (can_add_mappings c mm ms)"
  using assms(2)
proof (induction ms)
  case Nil
  then show ?case by (simp add: fits_def)
next
  case (Cons m ms)
  have m: "mapping_ok m" "mappings_ok ms" using Cons.prems by (simp_all add: mappings_ok_def)
  have IH: "returns (\<lambda>st. st = GroupOk \<longleftrightarrow> fits c (perms_at mm) ms) (can_add_mappings c mm ms)" using Cons.IH m(2) by blast
  have "MappedMemoryMap_Overlaps (mm_start m) (mm_limit m) mm = ret (\<exists>k \<in> mapping_range m. perms_at mm k \<noteq> None)"
    unfolding Overlaps_eq [OF assms(1) mapping_params(1) [OF m(1)]] by (simp add: mem_mapping_range Bex_def conj_assoc)
  then show ?case
    using IH unfolding fits_Cons [OF Cons.prems]
    by (auto simp: can_add_writable_mapping_eq [OF assms(1) m(1)] HasPermission_iff fits_single
        elim!: returns_mono split: if_splits)
qed

section \<open>Adding the mappings of a snapshot\<close>

lemma add_mapped_returns:
  assumes "mapped_map_ok mm" "mappings_ok ms" "fits c (perms_at mm) ms"
  shows "returns (\<lambda>mm'. mapped_map_ok mm' \<and> (\<forall>k. perms_at mm' k =
      (case mappings_at ms k of None \<Rightarrow> perms_at mm k | Some p \<Rightarrow> Some (mapped_perms p))))
    (for_each (\<lambda>m. MappedMemoryMap_Add (mm_start m) (mm_limit m) (MemoryPerms_PlusPermission (mm_perms m) kMapped)) ms mm)"
  using assms
proof (induction ms arbitrary: mm)
  case (Cons m ms)
  have m: "mapping_ok m" "mappings_ok ms" "\<And>k. k \<in> mapping_range m \<Longrightarrow> mappings_at ms k = None"
    using Cons.prems(2) by (auto simp: mappings_ok_def mappings_at_None)
  note p = mapping_params [OF m(1)]
  have fit: "fits c (perms_at mm) [m]" "fits c (perms_at mm) ms" using Cons.prems(3) fits_Cons [OF Cons.prems(2)] by simp_all
  have ne: "\<not> MemoryPerms_IsEmpty (mapped_perms (mm_perms m))" using p(2) by (simp add: perms_set_empty)
  have "returns (holds (on_keys (mm_start m) (mm_limit m) (\<lambda>k. add_at (mapped_perms (mm_perms m)) (perms_at mm k)) (perms_at mm)))
      (MappedMemoryMap_Add (mm_start m) (mm_limit m) (mapped_perms (mm_perms m)) mm)"
    by (rule Add_returns [OF Cons.prems(1) p(1) _ ne]) (simp add: p(2))
  then show ?case
    unfolding for_each.simps mapped_perms_def [symmetric]
  proof (rule returns_rbind)
    fix mm' assume h: "holds (on_keys (mm_start m) (mm_limit m) (\<lambda>k. add_at (mapped_perms (mm_perms m)) (perms_at mm k)) (perms_at mm)) mm'"
    have at: "perms_at mm' k = (if k \<in> mapping_range m then Some (mapped_perms (mm_perms m)) else perms_at mm k)" for k
      using fit(1) unfolding holds_at [OF h]
      by (auto simp: on_keys_def mem_mapping_range [symmetric] add_at_def fits_single split: option.splits)
    have "perms_at mm' k = perms_at mm k" if "mappings_at ms k = Some p" for k p
      using that m(3) [of k] by (auto simp: at)
    then have "fits c (perms_at mm') ms" using fit(2) unfolding fits_def by metis
    from Cons.IH [OF holds_ok [OF h] m(2) this]
    show "returns (\<lambda>mm'. mapped_map_ok mm' \<and> (\<forall>k. perms_at mm' k =
        (case mappings_at (m # ms) k of None \<Rightarrow> perms_at mm k | Some p \<Rightarrow> Some (mapped_perms p))))
      (for_each (\<lambda>m. MappedMemoryMap_Add (mm_start m) (mm_limit m) (mapped_perms (mm_perms m))) ms mm')"
      unfolding mapped_perms_def [symmetric]
      by (rule returns_mono) (use m(3) in \<open>auto simp: at mappings_at_Cons split: option.splits\<close>)
  qed
qed simp

section \<open>The invariant of a group\<close>

definition summary_ok :: "snapshot_summary \<Rightarrow> bool" where
  "summary_ok s \<longleftrightarrow> mappings_ok (ss_memory_mappings s) \<and> ss_id s \<noteq> []"

text \<open>A group that started on the map \<open>base\<close> and to which the snapshots \<open>xs\<close> were added.\<close>

definition group_of :: "conflict_resolution \<Rightarrow> mapped_map \<Rightarrow> snapshot_group \<Rightarrow> snapshot_summary list \<Rightarrow> bool" where
  "group_of c base g xs \<longleftrightarrow>
     sg_conflict_resolution g = c \<and> sg_id_set g = map ss_id xs \<and> distinct (map ss_id xs) \<and>
     mapped_map_ok (sg_mapped_memory_map g) \<and> (\<forall>x \<in> set xs. summary_ok x \<and> fits c (perms_at base) (ss_memory_mappings x)) \<and>
     sorted_wrt (\<lambda>x y. share c (ss_memory_mappings x) (ss_memory_mappings y)) xs \<and>
     (\<forall>x \<in> set xs. \<forall>k p. mappings_at (ss_memory_mappings x) k = Some p \<longrightarrow>
        perms_at (sg_mapped_memory_map g) k = Some (mapped_perms p)) \<and>
     (\<forall>k. (\<forall>x \<in> set xs. mappings_at (ss_memory_mappings x) k = None) \<longrightarrow> perms_at (sg_mapped_memory_map g) k = perms_at base k)"

lemma new_group_of: "mapped_map_ok base \<Longrightarrow> group_of c base (new_group c base) []"
  by (simp add: group_of_def new_group_def MappedMemoryMap_Copy_def)

text \<open>A snapshot fits into the group when it fits into the map it started on and shares with each snapshot.\<close>

lemma fits_group:
  assumes g: "group_of c base g xs" and s: "mappings_ok ms"
  shows "fits c (perms_at (sg_mapped_memory_map g)) ms \<longleftrightarrow>
    fits c (perms_at base) ms \<and> (\<forall>x \<in> set xs. share c (ss_memory_mappings x) ms)"
proof -
  let ?f = "perms_at (sg_mapped_memory_map g)"
  have in_group: "?f k = Some (mapped_perms p)" if "x \<in> set xs" "mappings_at (ss_memory_mappings x) k = Some p" for x k p
    using g that by (auto simp: group_of_def)
  have outside: "?f k = perms_at base k" if "\<forall>x \<in> set xs. mappings_at (ss_memory_mappings x) k = None" for k
    using g that by (auto simp: group_of_def)
  have on_base: "fits c (perms_at base) (ss_memory_mappings x)" if "x \<in> set xs" for x using g that by (auto simp: group_of_def)
  have eq: "mapped_perms p = mapped_perms q \<longleftrightarrow> p = q"
    if "x \<in> set xs" "mappings_at (ss_memory_mappings x) k = Some p" "mappings_at ms l = Some q" for x k l p q
  proof -
    have "mappings_ok (ss_memory_mappings x)" using g that(1) by (simp add: group_of_def summary_ok_def)
    then show ?thesis
      using that mappings_at_nonempty mappings_at_no_kMapped s by (intro mapped_perms_inject) blast+
  qed
  show ?thesis
  proof (intro iffI conjI ballI)
    assume fit: "fits c ?f ms"
    fix x assume x: "x \<in> set xs"
    show "share c (ss_memory_mappings x) ms"
      unfolding share_def
    proof (intro allI impI)
      fix k p q assume "mappings_at (ss_memory_mappings x) k = Some p \<and> mappings_at ms k = Some q"
      with fit in_group [OF x] eq [OF x] show "c = kAllowWriteConflictsWithSamePerm \<and> kWritable \<in> perms_set p \<and> p = q"
        unfolding fits_def by metis
    qed
  next
    assume fit: "fits c ?f ms"
    show "fits c (perms_at base) ms"
      unfolding fits_def
    proof (intro allI impI)
      fix k p q assume k: "mappings_at ms k = Some p \<and> perms_at base k = Some q"
      show "c = kAllowWriteConflictsWithSamePerm \<and> kWritable \<in> perms_set p \<and> q = mapped_perms p"
      proof (cases "\<forall>x \<in> set xs. mappings_at (ss_memory_mappings x) k = None")
        case True
        with k fit outside show ?thesis unfolding fits_def by metis
      next
        case False
        then obtain x r where x: "x \<in> set xs" "mappings_at (ss_memory_mappings x) k = Some r" by auto
        with fit k in_group [OF x] have "c = kAllowWriteConflictsWithSamePerm \<and> kWritable \<in> perms_set p \<and> mapped_perms r = mapped_perms p"
          unfolding fits_def by blast
        moreover have "q = mapped_perms r" using on_base [OF x(1)] x(2) k unfolding fits_def by blast
        ultimately show ?thesis by simp
      qed
    qed
  next
    assume fit: "fits c (perms_at base) ms \<and> (\<forall>x \<in> set xs. share c (ss_memory_mappings x) ms)"
    show "fits c ?f ms"
      unfolding fits_def
    proof (intro allI impI)
      fix k p q assume k: "mappings_at ms k = Some p \<and> ?f k = Some q"
      show "c = kAllowWriteConflictsWithSamePerm \<and> kWritable \<in> perms_set p \<and> q = mapped_perms p"
      proof (cases "\<forall>x \<in> set xs. mappings_at (ss_memory_mappings x) k = None")
        case True
        with k fit outside show ?thesis unfolding fits_def by metis
      next
        case False
        then obtain x r where x: "x \<in> set xs" "mappings_at (ss_memory_mappings x) k = Some r" by auto
        with fit k have "c = kAllowWriteConflictsWithSamePerm \<and> kWritable \<in> perms_set r \<and> r = p" unfolding share_def by blast
        with in_group [OF x] k show ?thesis by auto
      qed
    qed
  qed
qed

section \<open>Adding a snapshot\<close>

definition can_join :: "conflict_resolution \<Rightarrow> mapped_map \<Rightarrow> snapshot_summary list \<Rightarrow> snapshot_summary \<Rightarrow> bool" where
  "can_join c base xs s \<longleftrightarrow> ss_id s \<notin> ss_id ` set xs \<and> fits c (perms_at base) (ss_memory_mappings s) \<and>
     (\<forall>x \<in> set xs. share c (ss_memory_mappings x) (ss_memory_mappings s))"

lemma CanAddSnapshot_returns:
  assumes g: "group_of c base g xs" and s: "summary_ok s"
  shows "returns (\<lambda>st. st = GroupOk \<longleftrightarrow> can_join c base xs s) (CanAddSnapshot s g)"
proof -
  have "mapped_map_ok (sg_mapped_memory_map g)" "mappings_ok (ss_memory_mappings s)" "sg_conflict_resolution g = c"
    "set (sg_id_set g) = ss_id ` set xs"
    using g s by (simp_all add: group_of_def summary_ok_def)
  with can_add_mappings_returns [OF this(1,2), of c] fits_group [OF g this(2)] show ?thesis
    by (simp add: CanAddSnapshot_def can_join_def)
qed

lemma AddSnapshot_returns:
  assumes g: "group_of c base g xs" and s: "summary_ok s" and ok: "can_join c base xs s"
  shows "returns (\<lambda>g'. group_of c base g' (xs @ [s])) (AddSnapshot s g)"
proof -
  let ?ms = "ss_memory_mappings s" and ?mm = "sg_mapped_memory_map g"
  have can: "CanAddSnapshot s g = ret GroupOk" using CanAddSnapshot_returns [OF g s] ok by (auto elim: returnsE)
  have m: "mapped_map_ok ?mm" "mappings_ok ?ms" using g s by (simp_all add: group_of_def summary_ok_def)
  have fit: "fits c (perms_at ?mm) ?ms" using fits_group [OF g m(2)] ok by (simp add: can_join_def)
  have new: "ss_id s \<notin> set (sg_id_set g)" using g ok by (simp add: group_of_def can_join_def)
  have "group_of c base (g\<lparr>sg_mapped_memory_map := mm, sg_id_set := sg_id_set g @ [ss_id s]\<rparr>) (xs @ [s])"
    if mm: "mapped_map_ok mm" "\<forall>k. perms_at mm k = (case mappings_at ?ms k of None \<Rightarrow> perms_at ?mm k | Some p \<Rightarrow> Some (mapped_perms p))" for mm
  proof -
    have "perms_at mm k = Some (mapped_perms p)" if x: "x \<in> set xs" "mappings_at (ss_memory_mappings x) k = Some p" for x k p
    proof (cases "mappings_at ?ms k")
      case None
      with mm(2) x g show ?thesis by (simp add: group_of_def)
    next
      case (Some q)
      then have "p = q" using ok x unfolding can_join_def share_def by blast
      with mm(2) Some show ?thesis by simp
    qed
    moreover have "perms_at mm k = perms_at base k"
      if "\<forall>x \<in> set xs. mappings_at (ss_memory_mappings x) k = None" "mappings_at ?ms k = None" for k
      using mm(2) that g by (simp add: group_of_def)
    moreover have "perms_at mm k = Some (mapped_perms p)" if "mappings_at ?ms k = Some p" for k p using mm(2) that by simp
    ultimately show ?thesis
      using g s ok mm(1) by (auto simp: group_of_def can_join_def sorted_wrt_append)
  qed
  then show ?thesis
    unfolding AddSnapshot_def can
    by (simp add: new) (rule returns_rbind [OF add_mapped_returns [OF m fit]], simp)
qed

section \<open>A chunk of summaries\<close>

text \<open>What a job does to its group and its part of the vector.\<close>

fun fill :: "snapshot_group \<Rightarrow> snapshot_summary list \<Rightarrow> (snapshot_group \<times> snapshot_summary list) res" where
  "fill g [] = ret (g, [])"
| "fill g (s # ss) =
     rbind (CanAddSnapshot s g) (\<lambda>st.
     rbind (if st = GroupOk then rbind (AddSnapshot s g) (\<lambda>g. ret (g, kNullSummary)) else ret (g, s)) (\<lambda>(g, s).
     rbind (fill g ss) (\<lambda>(g, ss). ret (g, s # ss))))"

lemma fill_append:
  assumes "fill g xs = ret (g', xs')" "fill g' ys = ret (g'', ys')"
  shows "fill g (xs @ ys) = ret (g'', xs' @ ys')"
  using assms(1)
proof (induction xs arbitrary: g xs')
  case Nil
  then show ?case using assms(2) by simp
next
  case (Cons x xs)
  then show ?case by (auto simp: rbind_eq_ret split: if_splits)
qed

text \<open>One round: either the summary moves into the group and is nullified, or nothing changes.\<close>

lemma process_summary_returns:
  assumes i: "i < length gs" "j < length ss" and g: "group_of c base (gs ! i) xs" and s: "summary_ok (ss ! j)"
  shows "\<exists>g s'. process_summary i j (gs, ss) = ret (gs[i := g], ss[j := s']) \<and> fill (gs ! i) [ss ! j] = ret (g, [s']) \<and>
    (if can_join c base xs (ss ! j) then s' = kNullSummary \<and> group_of c base g (xs @ [ss ! j])
     else s' = ss ! j \<and> g = gs ! i)"
proof -
  obtain st where st: "CanAddSnapshot (ss ! j) (gs ! i) = ret st" "st = GroupOk \<longleftrightarrow> can_join c base xs (ss ! j)"
    using CanAddSnapshot_returns [OF g s] by (rule returnsE)
  show ?thesis
  proof (cases "can_join c base xs (ss ! j)")
    case True
    obtain g' where "AddSnapshot (ss ! j) (gs ! i) = ret g'" "group_of c base g' (xs @ [ss ! j])"
      using AddSnapshot_returns [OF g s True] by (rule returnsE)
    with True st i show ?thesis by (auto simp: process_summary_def)
  next
    case False
    with st i show ?thesis by (auto simp: process_summary_def intro!: exI [of _ "gs ! i"] exI [of _ "ss ! j"])
  qed
qed

lemma fill_size:
  assumes "fill g ss = ret (g', ss')"
  shows "length ss' = length ss \<and> group_size g' \<le> group_size g + length ss"
  using assms
proof (induction ss arbitrary: g ss')
  case (Cons s ss)
  then obtain st g1 s1 ss1 where st: "CanAddSnapshot s g = ret st"
    "(if st = GroupOk then rbind (AddSnapshot s g) (\<lambda>g. ret (g, kNullSummary)) else ret (g, s)) = ret (g1, s1)"
    "fill g1 ss = ret (g', ss1)" "ss' = s1 # ss1" by (auto simp: rbind_eq_ret)
  have "group_size g1 \<le> Suc (group_size g)"
    using st(1,2) by (auto simp: AddSnapshot_def rbind_eq_ret group_size_def check_def split: if_splits)
  with Cons.IH [OF st(3)] st(4) show ?case by simp
qed simp

end
