(* ===== verification/Snap_Partition.thy ===== *)
theory Snap_Partition
  imports Snap_Group_Facts "HOL-Library.Sublist"
begin

text \<open>
  The jobs of a partition work on different groups and on different ranges of the summaries, so every execution
  of the thread pool gives the same result, the one of running the jobs one after the other.
\<close>

section \<open>Segments\<close>

definition segment :: "nat \<Rightarrow> nat \<Rightarrow> 'a list \<Rightarrow> 'a list" where
  "segment a b xs = take (b - a) (drop a xs)"

lemma segment_empty [simp]: "segment a a xs = []"
  by (simp add: segment_def)

lemma segment_snoc: "a \<le> p \<Longrightarrow> p < length xs \<Longrightarrow> segment a (Suc p) xs = segment a p xs @ [xs ! p]"
  by (simp add: segment_def Suc_diff_le take_Suc_conv_app_nth)

lemma segment_update_outside: "p < a \<or> b \<le> p \<Longrightarrow> segment a b (xs[p := x]) = segment a b xs"
  by (cases "p < a") (simp_all add: segment_def drop_update_cancel drop_update_swap not_less diff_le_mono)

lemma segment_update_snoc: "a \<le> p \<Longrightarrow> p < length xs \<Longrightarrow> segment a (Suc p) (xs[p := x]) = segment a p xs @ [x]"
  by (simp add: segment_snoc segment_update_outside)

lemma length_segment: "b \<le> length xs \<Longrightarrow> length (segment a b xs) = b - a"
  by (simp add: segment_def)

lemma segment_nth: "a \<le> j \<Longrightarrow> j < b \<Longrightarrow> b \<le> length xs \<Longrightarrow> segment a b xs ! (j - a) = xs ! j"
  by (simp add: segment_def)

section \<open>Summaries that are left\<close>

lemma summary_ok_live: "summary_ok s \<Longrightarrow> \<not> summary_eq s kNullSummary"
  by (simp add: summary_ok_def summary_eq_def kNullSummary_def)

lemma kNull_null [simp]: "summary_eq kNullSummary kNullSummary"
  by (simp add: summary_eq_def)

lemma remove_null_all: "\<forall>s \<in> set ss. summary_ok s \<Longrightarrow> remove_null ss = ss"
  unfolding remove_null_def by (rule filter_True) (auto dest: summary_ok_live)

lemma remove_null_update:
  assumes "j < length ss" "summary_ok (ss ! j)"
  shows "mset (remove_null ss) = add_mset (ss ! j) (mset (remove_null (ss[j := kNullSummary])))"
    "subseq (remove_null (ss[j := kNullSummary])) (remove_null ss)"
proof -
  have ss: "ss = take j ss @ ss ! j # drop (Suc j) ss" by (rule id_take_nth_drop [OF assms(1)])
  have null: "ss[j := kNullSummary] = take j ss @ kNullSummary # drop (Suc j) ss" by (rule upd_conv_take_nth_drop [OF assms(1)])
  have "remove_null ss = remove_null (take j ss) @ ss ! j # remove_null (drop (Suc j) ss)"
    using summary_ok_live [OF assms(2)] by (subst ss) (simp add: remove_null_def)
  moreover have "remove_null (ss[j := kNullSummary]) = remove_null (take j ss) @ remove_null (drop (Suc j) ss)"
    by (simp add: null remove_null_def)
  ultimately show "mset (remove_null ss) = add_mset (ss ! j) (mset (remove_null (ss[j := kNullSummary])))"
    "subseq (remove_null (ss[j := kNullSummary])) (remove_null ss)"
    by (simp_all add: list_emb_append_mono subseq_Cons')
qed

lemma mset_concat_update:
  "i < length tss \<Longrightarrow> mset (concat (tss[i := tss ! i @ [x]])) = add_mset x (mset (concat tss))"
proof (induction tss arbitrary: i)
  case (Cons t tss)
  then show ?case by (cases i) auto
qed simp

section \<open>The plan of the jobs\<close>

record plan =
  pl_policy :: conflict_resolution
  pl_base :: mapped_map
  pl_groups :: "snapshot_group list"
  pl_members :: "snapshot_summary list list"
  pl_summaries :: "snapshot_summary list"
  pl_indices :: "nat list"
  pl_start :: "nat \<Rightarrow> nat"
  pl_limit :: "nat \<Rightarrow> nat"

definition plan_jobs :: "plan \<Rightarrow> chunk list" where
  "plan_jobs P = map (\<lambda>i. Chunk i (pl_start P i) (pl_limit P i)) (pl_indices P)"

definition ranges_apart :: "nat list \<Rightarrow> (nat \<Rightarrow> nat) \<Rightarrow> (nat \<Rightarrow> nat) \<Rightarrow> bool" where
  "ranges_apart is st lm \<longleftrightarrow> distinct is \<and> (\<forall>i \<in> set is. \<forall>j \<in> set is. i \<noteq> j \<longrightarrow> lm i \<le> st j \<or> lm j \<le> st i)"

definition plan_ok :: "plan \<Rightarrow> bool" where
  "plan_ok P \<longleftrightarrow>
     ranges_apart (pl_indices P) (pl_start P) (pl_limit P) \<and>
     (\<forall>i \<in> set (pl_indices P). i < length (pl_groups P) \<and> pl_start P i \<le> pl_limit P i \<and> pl_limit P i \<le> length (pl_summaries P)) \<and>
     list_all2 (group_of (pl_policy P) (pl_base P)) (pl_groups P) (pl_members P) \<and>
     (\<forall>s \<in> set (pl_summaries P). summary_ok s)"

text \<open>How far a job is: its group and the front of its range are filled, the rest is as it was.\<close>

definition job_at :: "plan \<Rightarrow> nat \<Rightarrow> nat \<Rightarrow> snapshot_group list \<Rightarrow> snapshot_summary list \<Rightarrow> bool" where
  "job_at P i p gs ss \<longleftrightarrow> pl_start P i \<le> p \<and> p \<le> pl_limit P i \<and>
     fill (pl_groups P ! i) (segment (pl_start P i) p (pl_summaries P)) = ret (gs ! i, segment (pl_start P i) p ss) \<and>
     (\<forall>j. p \<le> j \<and> j < pl_limit P i \<longrightarrow> ss ! j = pl_summaries P ! j)"

definition untouched :: "plan \<Rightarrow> snapshot_group list \<Rightarrow> snapshot_summary list \<Rightarrow> bool" where
  "untouched P gs ss \<longleftrightarrow> length gs = length (pl_groups P) \<and> length ss = length (pl_summaries P) \<and>
     (\<forall>i. i \<notin> set (pl_indices P) \<longrightarrow> gs ! i = pl_groups P ! i) \<and>
     (\<forall>j. (\<forall>i \<in> set (pl_indices P). \<not> (pl_start P i \<le> j \<and> j < pl_limit P i)) \<longrightarrow> ss ! j = pl_summaries P ! j)"

text \<open>Nothing is lost: each summary is in a group or left, in its old order.\<close>

definition conserved :: "plan \<Rightarrow> snapshot_group list \<Rightarrow> snapshot_summary list \<Rightarrow> bool" where
  "conserved P gs ss \<longleftrightarrow> (\<exists>tss. list_all2 (group_of (pl_policy P) (pl_base P)) gs tss \<and>
     mset (concat tss) + mset (remove_null ss) = mset (concat (pl_members P)) + mset (pl_summaries P)) \<and>
     subseq (remove_null ss) (pl_summaries P)"

definition plan_good :: "plan \<Rightarrow> chunk multiset \<Rightarrow> snapshot_group list \<times> snapshot_summary list \<Rightarrow> bool" where
  "plan_good P M s \<longleftrightarrow> plan_ok P \<and> untouched P (fst s) (snd s) \<and> conserved P (fst s) (snd s) \<and>
     (\<exists>U pos. U \<subseteq> set (pl_indices P) \<and> M = image_mset (\<lambda>i. Chunk i (pos i) (pl_limit P i)) (mset_set U) \<and>
        (\<forall>i \<in> set (pl_indices P). job_at P i (pos i) (fst s) (snd s) \<and> (i \<notin> U \<longrightarrow> pos i = pl_limit P i)))"

lemma plan_goodI:
  assumes "plan_ok P" "untouched P gs ss" "conserved P gs ss" "U \<subseteq> set (pl_indices P)"
    "M = image_mset (\<lambda>i. Chunk i (pos i) (pl_limit P i)) (mset_set U)"
    "\<And>i. i \<in> set (pl_indices P) \<Longrightarrow> job_at P i (pos i) gs ss \<and> (i \<notin> U \<longrightarrow> pos i = pl_limit P i)"
  shows "plan_good P M (gs, ss)"
  unfolding plan_good_def fst_conv snd_conv
  by (intro conjI exI [of _ U] exI [of _ pos] ballI assms(1-5)) (use assms(6) in blast)+

lemma plan_goodE:
  assumes "plan_good P M (gs, ss)"
  obtains U pos where "plan_ok P" "untouched P gs ss" "conserved P gs ss" "U \<subseteq> set (pl_indices P)" "finite U"
    "M = image_mset (\<lambda>i. Chunk i (pos i) (pl_limit P i)) (mset_set U)"
    "\<forall>i \<in> set (pl_indices P). job_at P i (pos i) gs ss \<and> (i \<notin> U \<longrightarrow> pos i = pl_limit P i)"
  using assms finite_subset [OF _ finite_set] unfolding plan_good_def fst_conv snd_conv by blast

lemma plan_good_start:
  assumes "plan_ok P"
  shows "plan_good P (mset (plan_jobs P)) (pl_groups P, pl_summaries P)"
proof -
  have d: "distinct (pl_indices P)" using assms by (simp add: plan_ok_def ranges_apart_def)
  have "mset (plan_jobs P) = image_mset (\<lambda>i. Chunk i (pl_start P i) (pl_limit P i)) (mset_set (set (pl_indices P)))"
    using mset_set_set [OF d] by (simp add: plan_jobs_def)
  moreover have "remove_null (pl_summaries P) = pl_summaries P" using assms by (simp add: plan_ok_def remove_null_all)
  then have "conserved P (pl_groups P) (pl_summaries P)" using assms by (auto simp: conserved_def plan_ok_def)
  moreover have "job_at P i (pl_start P i) (pl_groups P) (pl_summaries P)" if "i \<in> set (pl_indices P)" for i
    using assms that by (simp add: job_at_def plan_ok_def)
  ultimately show ?thesis
    using assms by (auto simp: plan_good_def untouched_def intro!: exI [of _ "set (pl_indices P)"] exI [of _ "pl_start P"])
qed

lemma job_at_other:
  assumes P: "plan_ok P" and i: "i \<in> set (pl_indices P)" "i' \<in> set (pl_indices P)" "i' \<noteq> i"
    and p: "pl_start P i \<le> p" "p < pl_limit P i" and at: "job_at P i' q gs ss"
  shows "job_at P i' q (gs[i := g]) (ss[p := s])"
proof -
  have out: "p < pl_start P i' \<or> pl_limit P i' \<le> p" using P i p by (fastforce simp: plan_ok_def ranges_apart_def)
  have "segment (pl_start P i') q (ss[p := s]) = segment (pl_start P i') q ss"
    using out at by (intro segment_update_outside) (auto simp: job_at_def)
  moreover have "ss[p := s] ! j = ss ! j" if "q \<le> j" "j < pl_limit P i'" for j
  proof -
    have "j \<noteq> p" using out at that by (auto simp: job_at_def)
    then show ?thesis by simp
  qed
  ultimately show ?thesis using at i(3) by (simp add: job_at_def)
qed

lemma job_at_next:
  assumes P: "plan_ok P" "untouched P gs ss" and i: "i \<in> set (pl_indices P)" and p: "p < pl_limit P i"
    and at: "job_at P i p gs ss" and f: "fill (gs ! i) [ss ! p] = ret (g, [s])"
  shows "job_at P i (Suc p) (gs[i := g]) (ss[p := s])"
proof -
  have b: "i < length gs" "p < length ss" "p < length (pl_summaries P)" "pl_start P i \<le> p"
    using P i p at by (auto simp: plan_ok_def untouched_def job_at_def)
  have eq: "ss ! p = pl_summaries P ! p" using at p by (simp add: job_at_def)
  have "fill (pl_groups P ! i) (segment (pl_start P i) p (pl_summaries P)) = ret (gs ! i, segment (pl_start P i) p ss)"
    using at by (simp add: job_at_def)
  from fill_append [OF this f] show ?thesis
    using at p b eq by (auto simp: job_at_def segment_snoc segment_update_outside)
qed

lemma untouched_update:
  assumes "untouched P gs ss" "i \<in> set (pl_indices P)" "pl_start P i \<le> p" "p < pl_limit P i"
  shows "untouched P (gs[i := g]) (ss[p := s])"
proof -
  have "gs[i := g] ! i' = gs ! i'" if "i' \<notin> set (pl_indices P)" for i'
    using assms(2) that by (metis nth_list_update_neq)
  moreover have "ss[p := s] ! j = ss ! j" if "\<forall>i \<in> set (pl_indices P). \<not> (pl_start P i \<le> j \<and> j < pl_limit P i)" for j
    using assms(2-4) that by (metis nth_list_update_neq)
  ultimately show ?thesis using assms(1) unfolding untouched_def length_list_update by metis
qed

text \<open>One round keeps all of it.\<close>

lemma process_round:
  assumes P: "plan_ok P" "untouched P gs ss" "conserved P gs ss" and i: "i \<in> set (pl_indices P)"
    and at: "job_at P i p gs ss" and p: "p < pl_limit P i"
  shows "\<exists>g s. process_summary i p (gs, ss) = ret (gs[i := g], ss[p := s]) \<and> fill (gs ! i) [ss ! p] = ret (g, [s]) \<and>
    conserved P (gs[i := g]) (ss[p := s])"
proof -
  have b: "i < length gs" "p < length ss" "p < length (pl_summaries P)" "ss ! p = pl_summaries P ! p"
    using P(1,2) i p at by (auto simp: plan_ok_def untouched_def job_at_def)
  have s: "summary_ok (ss ! p)" using P(1) b(3,4) by (simp add: plan_ok_def)
  obtain tss where tss: "list_all2 (group_of (pl_policy P) (pl_base P)) gs tss"
    "mset (concat tss) + mset (remove_null ss) = mset (concat (pl_members P)) + mset (pl_summaries P)"
    "subseq (remove_null ss) (pl_summaries P)" using P(3) by (auto simp: conserved_def)
  have g: "group_of (pl_policy P) (pl_base P) (gs ! i) (tss ! i)" "i < length tss"
    using tss(1) b(1) by (auto simp: list_all2_conv_all_nth)
  obtain g' s' where step: "process_summary i p (gs, ss) = ret (gs[i := g'], ss[p := s'])" "fill (gs ! i) [ss ! p] = ret (g', [s'])"
    "if can_join (pl_policy P) (pl_base P) (tss ! i) (ss ! p) then s' = kNullSummary \<and> group_of (pl_policy P) (pl_base P) g' (tss ! i @ [ss ! p])
     else s' = ss ! p \<and> g' = gs ! i"
    using process_summary_returns [OF b(1,2) g(1) s] by blast
  have "conserved P (gs[i := g']) (ss[p := s'])"
  proof (cases "can_join (pl_policy P) (pl_base P) (tss ! i) (ss ! p)")
    case True
    then have g': "s' = kNullSummary" "group_of (pl_policy P) (pl_base P) g' (tss ! i @ [ss ! p])" using step(3) by simp_all
    have "list_all2 (group_of (pl_policy P) (pl_base P)) (gs[i := g']) (tss[i := tss ! i @ [ss ! p]])"
      using tss(1) g'(2) by (rule list_all2_update_cong)
    moreover have "mset (concat (tss[i := tss ! i @ [ss ! p]])) + mset (remove_null (ss[p := s'])) =
        mset (concat (pl_members P)) + mset (pl_summaries P)"
      using tss(2) remove_null_update(1) [OF b(2) s] g'(1) by (simp add: mset_concat_update [OF g(2)])
    moreover have "subseq (remove_null (ss[p := s'])) (pl_summaries P)"
      using remove_null_update(2) [OF b(2) s] tss(3) unfolding g'(1) by (rule subseq_order.order_trans)
    ultimately show ?thesis by (auto simp: conserved_def)
  next
    case False
    then have "s' = ss ! p" "g' = gs ! i" using step(3) by simp_all
    then show ?thesis using P(3) by simp
  qed
  with step(1,2) show ?thesis by blast
qed

section \<open>The jobs as a client of the pool\<close>

definition chunk_weight :: "chunk \<Rightarrow> nat" where
  "chunk_weight c = (case c of Chunk i j e \<Rightarrow> e - j)"

lemma image_mset_split:
  assumes "add_mset c M = image_mset f (mset_set U)" "finite U"
  shows "\<exists>i \<in> U. c = f i \<and> M = image_mset f (mset_set (U - {i}))"
proof -
  have "c \<in># image_mset f (mset_set U)" using assms(1) by (metis union_single_eq_member)
  then obtain i where i: "i \<in> U" "c = f i" using assms(2) by auto
  then have "mset_set U = add_mset i (mset_set (U - {i}))" using assms(2) by (metis mset_set.remove)
  with assms(1) i show ?thesis by auto
qed

lemma chunk_run_good:
  assumes "plan_good P (add_mset c M) s"
  shows "returns (\<lambda>r. plan_good P (M + left_over (fst r)) (snd r) \<and> (\<forall>k. fst r = Some k \<longrightarrow> chunk_weight k < chunk_weight c)) (chunk_step c s)"
proof -
  obtain gs ss where s: "s = (gs, ss)" by fastforce
  obtain U pos where P: "plan_ok P" "untouched P gs ss" "conserved P gs ss"
    and U: "U \<subseteq> set (pl_indices P)" "add_mset c M = image_mset (\<lambda>i. Chunk i (pos i) (pl_limit P i)) (mset_set U)"
      "\<forall>i \<in> set (pl_indices P). job_at P i (pos i) gs ss \<and> (i \<notin> U \<longrightarrow> pos i = pl_limit P i)"
    and fin: "finite U"
    using assms unfolding s by (rule plan_goodE) blast
  obtain i where i: "i \<in> U" "c = Chunk i (pos i) (pl_limit P i)"
    "M = image_mset (\<lambda>i. Chunk i (pos i) (pl_limit P i)) (mset_set (U - {i}))"
    using image_mset_split [OF U(2) fin] by blast
  have at: "i \<in> set (pl_indices P)" "job_at P i (pos i) gs ss" using i(1) U(1,3) by auto
  show ?thesis
  proof (cases "pos i < pl_limit P i")
    case True
    obtain g x where step: "process_summary i (pos i) (gs, ss) = ret (gs[i := g], ss[pos i := x])"
      "fill (gs ! i) [ss ! pos i] = ret (g, [x])" "conserved P (gs[i := g]) (ss[pos i := x])"
      using process_round [OF P at(1,2) True] by blast
    have start: "pl_start P i \<le> pos i" using at(2) by (simp add: job_at_def)
    let ?pos = "pos(i := Suc (pos i))" and ?gs = "gs[i := g]" and ?ss = "ss[pos i := x]"
    have "M = image_mset (\<lambda>i. Chunk i (?pos i) (pl_limit P i)) (mset_set (U - {i}))"
      unfolding i(3) by (rule image_mset_cong) (auto simp: fin)
    then have M: "M + {#Chunk i (Suc (pos i)) (pl_limit P i)#} = image_mset (\<lambda>i. Chunk i (?pos i) (pl_limit P i)) (mset_set U)"
      using mset_set.remove [OF fin i(1)] by simp
    have "job_at P i' (?pos i') ?gs ?ss \<and> (i' \<notin> U \<longrightarrow> ?pos i' = pl_limit P i')" if i': "i' \<in> set (pl_indices P)" for i'
    proof (cases "i' = i")
      case False
      with job_at_other [OF P(1) at(1) i' False start True] U(3) i' show ?thesis by simp
    qed (use job_at_next [OF P(1,2) at(1) True at(2) step(2)] i(1) in simp)
    moreover have "untouched P ?gs ?ss" by (rule untouched_update [OF P(2) at(1) start True])
    ultimately have "plan_good P (M + {#Chunk i (Suc (pos i)) (pl_limit P i)#}) (?gs, ?ss)"
      using M by (intro plan_goodI [OF P(1) _ step(3) U(1)])
    then show ?thesis using step(1) True by (simp add: i(2) s left_over_def chunk_weight_def)
  next
    case False
    then have "pos i = pl_limit P i" using at(2) by (simp add: job_at_def)
    then have "plan_good P M (gs, ss)"
      using U(1,3) by (intro plan_goodI [OF P _ i(3)]) auto
    with False show ?thesis by (simp add: i(2) s left_over_def)
  qed
qed

interpretation chunks: pool_jobs chunk_step "plan_good P" chunk_weight for P
  by unfold_locales (rule chunk_run_good)

text \<open>When all jobs are done, the state is determined.\<close>

lemma plan_good_jobs:
  assumes g: "plan_good P {#} (gs, ss)" and i: "i \<in> set (pl_indices P)"
  shows "job_at P i (pl_limit P i) gs ss"
proof -
  obtain U pos where U: "finite U" "{#} = image_mset (\<lambda>i. Chunk i (pos i) (pl_limit P i)) (mset_set U)"
    "\<forall>i \<in> set (pl_indices P). job_at P i (pos i) gs ss \<and> (i \<notin> U \<longrightarrow> pos i = pl_limit P i)"
    using g by (rule plan_goodE)
  then have "U = {}" using mset_set_empty_iff [of U] by simp
  with U(3) i show ?thesis by (metis empty_iff)
qed

lemma plan_good_unique:
  assumes "plan_good P {#} (gs, ss)" "plan_good P {#} (gs', ss')"
  shows "gs = gs' \<and> ss = ss'"
proof -
  have len: "length gs = length gs'" "length ss = length ss'" "length ss = length (pl_summaries P)" and P: "plan_ok P"
    and u: "untouched P gs ss" "untouched P gs' ss'"
    using assms by (simp_all add: plan_good_def untouched_def)
  have both: "gs ! i = gs' ! i \<and> segment (pl_start P i) (pl_limit P i) ss = segment (pl_start P i) (pl_limit P i) ss'"
    if "i \<in> set (pl_indices P)" for i
    using plan_good_jobs [OF assms(1) that] plan_good_jobs [OF assms(2) that] by (simp add: job_at_def)
  have "gs ! i = gs' ! i" for i using both u by (cases "i \<in> set (pl_indices P)") (auto simp: untouched_def)
  moreover have "ss ! j = ss' ! j" for j
  proof (cases "\<exists>i \<in> set (pl_indices P). pl_start P i \<le> j \<and> j < pl_limit P i")
    case True
    then obtain i where i: "i \<in> set (pl_indices P)" "pl_start P i \<le> j" "j < pl_limit P i" by blast
    moreover have "pl_limit P i \<le> length ss" using P i(1) len(3) by (simp add: plan_ok_def)
    ultimately show ?thesis using both [OF i(1)] len(2) segment_nth [of "pl_start P i" j "pl_limit P i"] by metis
  qed (use u in \<open>auto simp: untouched_def\<close>)
  ultimately show ?thesis using len by (simp add: list_eq_iff_nth_eq)
qed

text \<open>Running the jobs one after the other is one way to do them all.\<close>

lemma run_chunk_good:
  assumes "plan_good P (add_mset (Chunk i j e) M) s" "j \<le> e"
  shows "returns (plan_good P M) (run_chunk (Chunk i j e) s)"
  using assms
proof (induction "e - j" arbitrary: j s)
  case 0
  have "j = e" using "0.hyps" "0.prems"(2) by simp
  with chunk_run_good [OF "0.prems"(1)] show ?case by (simp add: left_over_def)
next
  case (Suc n)
  have lt: "j < e" using Suc.hyps(2) by simp
  obtain s' where s': "process_summary i j s = ret s'" "plan_good P (add_mset (Chunk i (Suc j) e) M) s'"
    using chunk_run_good [OF Suc.prems(1)] lt by (auto simp: left_over_def rbind_eq_ret elim!: returnsE)
  have "e - j = Suc (e - Suc j)" using lt by simp
  with Suc.hyps s' lt show ?case by simp
qed

lemma run_chunks_good:
  assumes "plan_good P (mset jobs + M) s" "\<forall>c \<in> set jobs. case c of Chunk i j e \<Rightarrow> j \<le> e"
  shows "returns (plan_good P M) (for_each run_chunk jobs s)"
  using assms
proof (induction jobs arbitrary: s)
  case (Cons c jobs)
  obtain i j e where c: "c = Chunk i j e" by (cases c)
  have "returns (plan_good P (mset jobs + M)) (run_chunk c s)"
    unfolding c using Cons.prems by (intro run_chunk_good) (simp_all add: c)
  then show ?case unfolding for_each.simps by (rule returns_rbind) (use Cons in simp)
qed simp

lemma plan_sequential:
  assumes "plan_ok P"
  shows "returns (plan_good P {#}) (for_each run_chunk (plan_jobs P) (pl_groups P, pl_summaries P))"
  using assms plan_good_start [OF assms] by (intro run_chunks_good) (auto simp: plan_jobs_def plan_ok_def)

text \<open>Every execution of the pool does what the sequential one does, and some execution is finished.\<close>

lemma plan_runs:
  assumes P: "plan_ok P" and n: "n > 0" and jobs: "partition_jobs (pl_groups P) (pl_summaries P) = ret (plan_jobs P)"
  shows "PartitionSnapshots_runs n (pl_groups P) (pl_summaries P) r \<longleftrightarrow> r = PartitionSnapshots (pl_groups P) (pl_summaries P)"
    (is "?runs r \<longleftrightarrow> r = ?seq")
proof -
  let ?p = "new_pool n (plan_jobs P) (pl_groups P, pl_summaries P)"
  obtain gs ss where seq: "for_each run_chunk (plan_jobs P) (pl_groups P, pl_summaries P) = ret (gs, ss)" "plan_good P {#} (gs, ss)"
    using plan_sequential [OF P] by (auto elim!: returnsE)
  have res: "?seq = ret (gs, remove_null ss)" by (simp add: PartitionSnapshots_def jobs seq(1))
  note ok = chunks.pool_correct [OF plan_good_start [OF P] n]
  have end_state: "tp_shared p = (gs, ss)" if "pool_reaches chunk_step ?p p" "joined p" for p
    using ok(4) [OF that] plan_good_unique seq(2) by (metis prod.collapse)
  have "?runs r \<Longrightarrow> r = ?seq"
  proof (induction rule: PartitionSnapshots_runs.cases)
    case (joined groups summaries jobs' p num_threads)
    then show ?case using jobs end_state res by auto
  next
    case (aborted groups summaries jobs' p e num_threads)
    then show ?case using jobs ok(1) by auto
  qed (use jobs in auto)
  moreover have "?runs ?seq"
  proof -
    obtain q where q: "pool_reaches chunk_step ?p q" "joined q" using ok(3) pool_reaches.refl by blast
    from PartitionSnapshots_runs.joined [OF jobs q] show ?thesis by (simp add: end_state [OF q] res)
  qed
  ultimately show ?thesis by blast
qed

end
