(* ===== verification/Partition_Properties.thy ===== *)
theory Partition_Properties
  imports Snap_Partition Snapshot_End_State_Properties
begin

text \<open>
  The properties of groups and partitions: when a snapshot may join a group, that a partition is determined
  whatever the threads do, what it keeps, and the partition of a corpus.
\<close>

section \<open>Scheduling\<close>

definition balanced :: "snapshot_group list \<Rightarrow> nat \<Rightarrow> bool" where
  "balanced gs n \<longleftrightarrow> gs \<noteq> [] \<and> n + (\<Sum>g \<leftarrow> gs. group_size g) < 2 ^ 64 \<and>
     (\<forall>i < length gs. group_size (gs ! i) \<le> target_group_size (n + (\<Sum>g \<leftarrow> gs. group_size g)) (length gs) i)"

lemma sum_targets:
  assumes "n > 0"
  shows "(\<Sum>i \<leftarrow> [0..<n]. target_group_size N n i) = N"
proof -
  have "(\<Sum>i \<leftarrow> [0..<n]. target_group_size N n i) = (\<Sum>i<n. N div n + (if i < N mod n then 1 else 0))"
    by (simp add: target_group_size_def interv_sum_list_conv_sum_set_nat atLeast0LessThan)
  also have "\<dots> = n * (N div n) + card {i. i < n \<and> i < N mod n}"
    by (simp add: sum.distrib sum.If_cases Int_def)
  also have "{i. i < n \<and> i < N mod n} = {..<N mod n}"
    using mod_less_divisor [OF assms, of N] by auto
  finally show ?thesis by simp
qed

lemma schedule_ranges:
  assumes "\<forall>(t, sz) \<in> set ts. sz \<le> t" "offset + (\<Sum>(t, sz) \<leftarrow> ts. t - sz) \<le> n" "n < 2 ^ 64"
  shows "\<exists>is st lm. schedule_chunks n i ts offset = ret (map (\<lambda>i. Chunk i (st i) (lm i)) is) \<and> ranges_apart is st lm \<and>
    (\<forall>k \<in> set is. i \<le> k \<and> k < i + length ts \<and> offset \<le> st k \<and> st k \<le> lm k \<and> lm k \<le> n \<and>
       lm k - st k = fst (ts ! (k - i)) - snd (ts ! (k - i)))"
  using assms(1,2)
proof (induction ts arbitrary: i offset)
  case Nil
  show ?case by (intro exI [of _ "[]"]) (simp add: ranges_apart_def)
next
  case (Cons x ts)
  obtain t sz where x: "x = (t, sz)" by fastforce
  have le: "sz \<le> t" "offset + (t - sz) \<le> n" using Cons.prems by (simp_all add: x)
  have "offset + (t - sz) + (\<Sum>(t, sz) \<leftarrow> ts. t - sz) \<le> n" using Cons.prems(2) by (simp add: x)
  with Cons.IH [of "offset + (t - sz)" "Suc i"] Cons.prems(1) obtain "is" st lm where
    IH: "schedule_chunks n (Suc i) ts (offset + (t - sz)) = ret (map (\<lambda>i. Chunk i (st i) (lm i)) is)" "ranges_apart is st lm"
      "\<forall>k \<in> set is. Suc i \<le> k \<and> k < Suc i + length ts \<and> offset + (t - sz) \<le> st k \<and> st k \<le> lm k \<and> lm k \<le> n \<and>
         lm k - st k = fst (ts ! (k - Suc i)) - snd (ts ! (k - Suc i))" by auto
  have nth: "(x # ts) ! (k - i) = ts ! (k - Suc i)" if "Suc i \<le> k" for k
    using that by (simp add: nth_Cons' Suc_diff_le [symmetric])
  show ?case
  proof (cases "t = sz")
    case True
    have "schedule_chunks n i (x # ts) offset = ret (map (\<lambda>i. Chunk i (st i) (lm i)) is)" using IH(1) True by (simp add: x)
    moreover have "\<forall>k \<in> set is. i \<le> k \<and> k < i + length (x # ts) \<and> offset \<le> st k \<and> st k \<le> lm k \<and> lm k \<le> n \<and>
        lm k - st k = fst ((x # ts) ! (k - i)) - snd ((x # ts) ! (k - i))"
    proof
      fix k assume "k \<in> set is"
      with IH(3) have k: "Suc i \<le> k" "k < Suc i + length ts" "offset + (t - sz) \<le> st k" "st k \<le> lm k" "lm k \<le> n"
        "lm k - st k = fst (ts ! (k - Suc i)) - snd (ts ! (k - Suc i))" by blast+
      with nth [OF k(1)] show "i \<le> k \<and> k < i + length (x # ts) \<and> offset \<le> st k \<and> st k \<le> lm k \<and> lm k \<le> n \<and>
          lm k - st k = fst ((x # ts) ! (k - i)) - snd ((x # ts) ! (k - i))" by simp
    qed
    ultimately show ?thesis using IH(2) by blast
  next
    case False
    let ?is = "i # is" and ?st = "st(i := offset)" and ?lm = "lm(i := offset + (t - sz))"
    have i: "i \<notin> set is" using IH(3) by auto
    have int_end: "int offset + (int t - int sz) = int (offset + (t - sz))" using le(1) by simp
    have "offset + (t - sz) < 2 ^ 64" using le(2) assms(3) by linarith
    then have "int (offset + (t - sz)) < 2 ^ 64" by (metis of_nat_less_iff of_nat_numeral of_nat_power)
    then have chunk_end: "nat ((int offset + (int t - int sz)) mod 2 ^ 64) = offset + (t - sz)"
      unfolding int_end by (simp only: mod_pos_pos_trivial of_nat_0_le_iff nat_int)
    have "schedule_chunks n i (x # ts) offset = ret (Chunk i offset (offset + (t - sz)) # map (\<lambda>i. Chunk i (st i) (lm i)) is)"
      unfolding x schedule_chunks.simps Let_def chunk_end using False le IH(1) by simp
    also have "Chunk i offset (offset + (t - sz)) # map (\<lambda>i. Chunk i (st i) (lm i)) is = map (\<lambda>i. Chunk i (?st i) (?lm i)) ?is"
      using i by auto
    finally have run: "schedule_chunks n i (x # ts) offset = ret (map (\<lambda>i. Chunk i (?st i) (?lm i)) ?is)" .
    have "?st k = st k \<and> ?lm k = lm k \<and> Suc i \<le> k \<and> k < Suc i + length ts \<and> offset + (t - sz) \<le> st k \<and> st k \<le> lm k \<and>
        lm k \<le> n \<and> lm k - st k = fst (ts ! (k - Suc i)) - snd (ts ! (k - Suc i))" if "k \<in> set is" for k
      using IH(3) i that by auto
    note tail = this
    have "ranges_apart ?is ?st ?lm"
      unfolding ranges_apart_def
    proof (intro conjI ballI impI)
      show "distinct ?is" using IH(2) i by (simp add: ranges_apart_def)
      fix k l assume "k \<in> set ?is" "l \<in> set ?is" "k \<noteq> l"
      then consider "k = i" "l \<in> set is" | "l = i" "k \<in> set is" | "k \<in> set is" "l \<in> set is" by auto
      then show "?lm k \<le> ?st l \<or> ?lm l \<le> ?st k"
        using tail IH(2) \<open>k \<noteq> l\<close> by cases (auto simp: ranges_apart_def)
    qed
    moreover have "\<forall>k \<in> set ?is. i \<le> k \<and> k < i + length (x # ts) \<and> offset \<le> ?st k \<and> ?st k \<le> ?lm k \<and> ?lm k \<le> n \<and>
        ?lm k - ?st k = fst ((x # ts) ! (k - i)) - snd ((x # ts) ! (k - i))"
    proof
      fix k assume "k \<in> set ?is"
      then consider "k = i" | "k \<in> set is" by auto
      then show "i \<le> k \<and> k < i + length (x # ts) \<and> offset \<le> ?st k \<and> ?st k \<le> ?lm k \<and> ?lm k \<le> n \<and>
        ?lm k - ?st k = fst ((x # ts) ! (k - i)) - snd ((x # ts) ! (k - i))"
      proof cases
        case 1
        then show ?thesis using le by (simp add: x)
      next
        case 2
        from tail [OF 2] nth [of k] show ?thesis by (auto simp del: fun_upd_apply)
      qed
    qed
    ultimately show ?thesis using run by blast
  qed
qed

lemma sum_list_minus_zip:
  assumes "length xs = length ys" "\<forall>i < length xs. ys ! i \<le> (xs ! i :: nat)"
  shows "(\<Sum>(t, sz) \<leftarrow> zip xs ys. t - sz) + sum_list ys = sum_list xs"
  using assms
proof (induction xs ys rule: list_induct2)
  case (Cons x xs y ys)
  have "y \<le> x" "\<forall>i < length xs. ys ! i \<le> xs ! i" using Cons.prems by force+
  with Cons.IH show ?case by simp
qed simp

definition summaries_ok :: "snapshot_summary list \<Rightarrow> bool" where
  "summaries_ok ss \<longleftrightarrow> (\<forall>s \<in> set ss. summary_ok s)"

lemma balanced_plan:
  assumes b: "balanced gs (length ss)" and g: "list_all2 (group_of c base) gs tss" and ss: "summaries_ok ss"
  obtains P where "plan_ok P" "pl_policy P = c" "pl_base P = base" "pl_groups P = gs" "pl_members P = tss" "pl_summaries P = ss"
    "partition_jobs gs ss = ret (plan_jobs P)"
    "\<And>i. i \<in> set (pl_indices P) \<Longrightarrow> pl_limit P i - pl_start P i =
       target_group_size (length ss + (\<Sum>g \<leftarrow> gs. group_size g)) (length gs) i - group_size (gs ! i)"
proof -
  let ?N = "length ss + (\<Sum>g \<leftarrow> gs. group_size g)" and ?n = "length gs"
  let ?targets = "map (target_group_size ?N ?n) [0..<?n]" and ?sizes = "map group_size gs"
  let ?ts = "zip ?targets ?sizes"
  have n: "?n > 0" "gs \<noteq> []" using b by (auto simp: balanced_def)
  have le: "\<forall>i < length ?targets. ?sizes ! i \<le> ?targets ! i" using b by (simp add: balanced_def)
  then have pairs: "\<forall>(t, sz) \<in> set ?ts. sz \<le> t" by (auto simp: in_set_zip)
  have "(\<Sum>(t, sz) \<leftarrow> ?ts. t - sz) + sum_list ?sizes = sum_list ?targets"
    by (rule sum_list_minus_zip [OF _ le]) simp
  then have sum: "0 + (\<Sum>(t, sz) \<leftarrow> ?ts. t - sz) \<le> length ss" using sum_targets [OF n(1), of ?N] by simp
  have lt: "length ss < 2 ^ 64" using b by (simp add: balanced_def)
  obtain "is" st lm where S: "schedule_chunks (length ss) 0 ?ts 0 = ret (map (\<lambda>i. Chunk i (st i) (lm i)) is)" "ranges_apart is st lm"
    "\<forall>k \<in> set is. k < length ?ts \<and> st k \<le> lm k \<and> lm k \<le> length ss \<and> lm k - st k = fst (?ts ! k) - snd (?ts ! k)"
    using schedule_ranges [OF pairs sum lt, of 0] by auto
  let ?P = "\<lparr>pl_policy = c, pl_base = base, pl_groups = gs, pl_members = tss, pl_summaries = ss,
      pl_indices = is, pl_start = st, pl_limit = lm\<rparr>"
  show thesis
  proof (rule that [of ?P])
    show "plan_ok ?P" using S g ss by (simp add: plan_ok_def summaries_ok_def)
    show "partition_jobs gs ss = ret (plan_jobs ?P)" using S(1) n(2) by (simp add: partition_jobs_def plan_jobs_def)
    show "pl_limit ?P i - pl_start ?P i = target_group_size ?N ?n i - group_size (gs ! i)" if "i \<in> set (pl_indices ?P)" for i
      using S(3) that by simp
  qed simp_all
qed

section \<open>Groups\<close>

definition summary_a :: snapshot_summary where
  "summary_a = \<lparr>ss_id = ''a'', ss_memory_mappings = [code_mapping], ss_sort_key = 0\<rparr>"

definition summary_b :: snapshot_summary where
  "summary_b = \<lparr>ss_id = ''b'', ss_memory_mappings = [sandbox_mapping], ss_sort_key = -2\<rparr>"

lemma sample_summaries: "summary_ok summary_a" "summary_ok summary_b" "fits c (perms_at []) ms"
proof -
  show "summary_ok summary_a"
    using sample_snapshot_ok by (simp add: snapshot_ok_def represents_def summary_ok_def summary_a_def sample_snapshot_def)
  show "summary_ok summary_b"
    using sandbox_mapping_ok by (simp add: summary_ok_def summary_b_def mappings_ok_def sandbox_mapping_simps)
qed (simp add: fits_def perms_at_def)

text \<open>C25: a snapshot is accepted by a group exactly when its id is new, it fits into the map the group started
  on, and at every address it shares with a snapshot of the group both map it writable with the same
  permissions and the policy allows that. Adding it then succeeds and keeps the invariant of the group;
  adding it otherwise fails the check.\<close>

theorem group_accepts:
  assumes "group_of c base g xs" "summary_ok s"
  shows "(\<exists>st. CanAddSnapshot s g = ret st \<and> (st = GroupOk \<longleftrightarrow> can_join c base xs s)) \<and>
    (if can_join c base xs s then returns (\<lambda>g'. group_of c base g' (xs @ [s])) (AddSnapshot s g)
     else \<exists>e. AddSnapshot s g = abort e)"
proof -
  obtain st where st: "CanAddSnapshot s g = ret st" "st = GroupOk \<longleftrightarrow> can_join c base xs s"
    using CanAddSnapshot_returns [OF assms] by (rule returnsE)
  show ?thesis
  proof (cases "can_join c base xs s")
    case True
    with st AddSnapshot_returns [OF assms True] show ?thesis by simp
  next
    case False
    with st have "\<exists>e. AddSnapshot s g = abort e" by (auto simp: AddSnapshot_def check_def)
    with st False show ?thesis by simp
  qed
qed

theorem group_accepts_witness:
  "\<exists>g. AddSnapshot summary_b (new_group kNoConflictAllowed []) = ret g \<and> (\<exists>e. AddSnapshot summary_a g = abort e)"
proof -
  have "can_join kNoConflictAllowed [] [] summary_b" by (simp add: can_join_def sample_summaries(3))
  with group_accepts [OF new_group_of [OF mapped_map_ok_Nil] sample_summaries(2), of kNoConflictAllowed]
  obtain g where g: "AddSnapshot summary_b (new_group kNoConflictAllowed []) = ret g" "group_of kNoConflictAllowed [] g [summary_b]" by (auto elim: returnsE)
  have "mappings_at [sandbox_mapping] 0x1000 = Some MemoryPerms_RWX" "mappings_at [code_mapping] 0x1000 = Some MemoryPerms_XR"
    by (simp_all add: mappings_at_Cons sandbox_mapping_simps sample_mappings)
  moreover have "MemoryPerms_RWX \<noteq> MemoryPerms_XR" using RWX_perms sample_perms(1) by force
  ultimately have "\<not> can_join kNoConflictAllowed [] [summary_b] summary_a"
    by (auto simp: can_join_def share_def summary_a_def summary_b_def intro!: exI [of _ "0x1000"])
  with g(1) group_accepts [OF g(2) sample_summaries(1)] show ?thesis by auto
qed

text \<open>The summary of a snapshot with a valid id can join groups.\<close>

lemma SnapshotSummary_ok:
  assumes "snapshot_ok s" "IsValidId (snap_id s) = OkStatus" "SnapshotSummary s = ret x"
  shows "summary_ok x"
proof -
  have "snap_id s \<noteq> []" using assms(2) by (auto simp: IsValidId_def UnsetId_def)
  with assms(1,3) show ?thesis
    by (auto simp: SnapshotSummary_def rbind_eq_ret summary_ok_def snapshot_ok_def represents_def)
qed

text \<open>The cut to an \<open>int\<close> loses the platforms from 32 on, and the key of platform 31 alone overflows.\<close>

lemma sort_key_platforms:
  "sint (ucast (platform_bits [41]) :: u32) = 0" "sint (ucast (platform_bits [31]) :: u32) = - (2 ^ 31)"
  by (simp_all add: platform_bits_def)

section \<open>Partitions\<close>

text \<open>Groups that are not balanced, as when a caller drops the summaries left over, fail the check on the sizes.\<close>

lemma unbalanced_groups:
  "\<exists>e. partition_jobs [new_group c mm\<lparr>sg_id_set := [''x'', ''y'', ''z'']\<rparr>, new_group c mm] [] = abort e"
proof -
  have "map (target_group_size 3 2) [0..<2] = [2, 1]" by (simp add: upt_rec target_group_size_def)
  then have "partition_jobs [new_group c mm\<lparr>sg_id_set := [''x'', ''y'', ''z'']\<rparr>, new_group c mm] [] =
      schedule_chunks 0 0 [(2, 3), (1, 0)] 0"
    by (simp add: partition_jobs_def group_size_def new_group_def numeral_3_eq_3 numeral_2_eq_2 Let_def)
  moreover have "nat ((int 0 + (int 2 - int 3)) mod 2 ^ 64) = 2 ^ 64 - 1" by simp
  ultimately show ?thesis by (auto simp: Let_def check_def)
qed

text \<open>C24: whatever the (positive) number of threads and however their steps interleave, \<open>PartitionSnapshots\<close> on balanced groups
  has one result, that of running the jobs one after the other; no execution aborts, and each can be
  continued until all threads are joined.\<close>

theorem partition_deterministic:
  assumes "balanced gs (length ss)" "list_all2 (group_of c base) gs tss" "summaries_ok ss" "num_threads > 0"
  shows "(PartitionSnapshots_runs num_threads gs ss r \<longleftrightarrow> r = PartitionSnapshots gs ss) \<and>
    (\<exists>jobs. partition_jobs gs ss = ret jobs \<and>
      (\<forall>p. pool_reaches chunk_step (new_pool num_threads jobs (gs, ss)) p \<longrightarrow>
        \<not> pool_step chunk_step p (abort e) \<and> (\<exists>q. pool_reaches chunk_step p q \<and> joined q)))"
proof -
  obtain P where P: "plan_ok P" "pl_groups P = gs" "pl_summaries P = ss" "partition_jobs gs ss = ret (plan_jobs P)"
    using balanced_plan [OF assms(1-3)] by metis
  have "plan_good P (mset (plan_jobs P)) (gs, ss)" using plan_good_start [OF P(1)] by (simp add: P)
  from chunks.pool_correct(1,3) [OF this assms(4)] plan_runs [OF P(1) assms(4)] P show ?thesis by auto
qed

lemma PartitionSnapshots_returns:
  assumes "balanced gs (length ss)" "list_all2 (group_of c base) gs tss" "summaries_ok ss"
  defines "N \<equiv> length ss + (\<Sum>g \<leftarrow> gs. group_size g)"
  shows "returns (\<lambda>(gs', ss'). length gs' = length gs \<and> subseq ss' ss \<and>
      (\<forall>i < length gs. group_size (gs' ! i) \<le> target_group_size N (length gs) i) \<and>
      (\<exists>tss'. list_all2 (group_of c base) gs' tss' \<and> mset (concat tss') + mset ss' = mset (concat tss) + mset ss))
    (PartitionSnapshots gs ss)"
proof -
  obtain P where P: "plan_ok P" "pl_policy P = c" "pl_base P = base" "pl_groups P = gs" "pl_members P = tss" "pl_summaries P = ss"
    "partition_jobs gs ss = ret (plan_jobs P)"
    "\<And>i. i \<in> set (pl_indices P) \<Longrightarrow> pl_limit P i - pl_start P i = target_group_size N (length gs) i - group_size (gs ! i)"
    using balanced_plan [OF assms(1-3)] unfolding N_def by metis
  obtain gs' ss' where seq: "for_each run_chunk (plan_jobs P) (gs, ss) = ret (gs', ss')" "plan_good P {#} (gs', ss')"
    using plan_sequential [OF P(1)] unfolding P(4,6) by (auto elim!: returnsE)
  have u: "untouched P gs' ss'" "conserved P gs' ss'" using seq(2) by (auto elim: plan_goodE)
  have le: "group_size (gs ! i) \<le> target_group_size N (length gs) i" if "i < length gs" for i
    using assms(1) that by (simp add: balanced_def N_def)
  have "group_size (gs' ! i) \<le> target_group_size N (length gs) i" if i: "i < length gs" for i
  proof (cases "i \<in> set (pl_indices P)")
    case True
    from plan_good_jobs [OF seq(2) True] have "fill (gs ! i) (segment (pl_start P i) (pl_limit P i) ss) =
        ret (gs' ! i, segment (pl_start P i) (pl_limit P i) ss')" by (simp add: job_at_def P(4,6))
    from fill_size [OF this] have "group_size (gs' ! i) \<le> group_size (gs ! i) + (pl_limit P i - pl_start P i)"
      using P(1) True by (simp add: plan_ok_def length_segment P(6))
    with P(8) [OF True] le [OF i] show ?thesis by simp
  next
    case False
    then show ?thesis using u(1) le [OF i] by (simp add: untouched_def P(4))
  qed
  then show ?thesis
    using u by (auto simp: PartitionSnapshots_def P(7) seq(1) untouched_def conserved_def P)
qed

text \<open>\<open>PartitionSnapshots\<close> on balanced groups fails no check. Each summary is then in exactly one group or left
  over, the ones left over keep their order, no two snapshots of a group conflict, and no group grows beyond
  its share of the snapshots.\<close>

theorem partition_result:
  assumes "balanced gs (length ss)" "list_all2 (group_of c base) gs tss" "summaries_ok ss"
  shows "returns (\<lambda>(gs', ss'). length gs' = length gs \<and> subseq ss' ss \<and>
      (\<forall>i < length gs. group_size (gs' ! i) \<le> target_group_size (length ss + (\<Sum>g \<leftarrow> gs. group_size g)) (length gs) i) \<and>
      (\<exists>tss'. list_all2 (group_of c base) gs' tss' \<and> mset (concat tss') + mset ss' = mset (concat tss) + mset ss))
    (PartitionSnapshots gs ss)"
  by (rule PartitionSnapshots_returns [OF assms])

lemma balanced_new: "n > 0 \<Longrightarrow> m < 2 ^ 64 \<Longrightarrow> balanced (new_partition n c base) m"
  by (simp add: balanced_def new_partition_def new_group_def group_size_def sum_list_replicate)

lemma new_partition_of: "mapped_map_ok base \<Longrightarrow> list_all2 (group_of c base) (new_partition n c base) (replicate n [])"
  by (simp add: new_partition_def list_all2_conv_all_nth new_group_of)

lemma two_summaries: "balanced (new_partition 2 c []) (length [summary_a, summary_b])" "summaries_ok [summary_a, summary_b]"
  using sample_summaries by (simp_all add: balanced_new summaries_ok_def)

theorem partition_deterministic_witness:
  "PartitionSnapshots_runs 8 (new_partition 2 kNoConflictAllowed []) [summary_a, summary_b]
     (PartitionSnapshots (new_partition 2 kNoConflictAllowed []) [summary_a, summary_b])"
  using partition_deterministic [OF two_summaries(1) new_partition_of [OF mapped_map_ok_Nil] two_summaries(2), of 8] by simp

theorem partition_result_witness:
  "returns (\<lambda>(gs, ss). group_size (gs ! 0) \<le> 1 \<and> group_size (gs ! 1) \<le> 1)
     (PartitionSnapshots (new_partition 2 kNoConflictAllowed []) [summary_a, summary_b])"
  by (rule returns_mono [OF partition_result [OF two_summaries(1) new_partition_of [OF mapped_map_ok_Nil] two_summaries(2)]])
    (auto simp: new_partition_def new_group_def group_size_def target_group_size_def sum_list_replicate)

section \<open>The corpus\<close>

lemma sorted_twice:
  fixes f :: "'a \<Rightarrow> 'b :: linorder" and g :: "'a \<Rightarrow> 'c :: linorder"
  assumes "sorted (map f xs)" "\<forall>k. sorted (map g (filter (\<lambda>x. f x = k) xs))"
  shows "sorted_wrt (\<lambda>x y. f x < f y \<or> f x = f y \<and> g x \<le> g y) xs"
  using assms
proof (induction xs)
  case (Cons x xs)
  have "\<forall>k. sorted (map g (filter (\<lambda>x. f x = k) xs))"
  proof
    fix k show "sorted (map g (filter (\<lambda>x. f x = k) xs))"
      using Cons.prems(2) [rule_format, of k] by (cases "f x = k") auto
  qed
  moreover have "f x < f y \<or> f x = f y \<and> g x \<le> g y" if "y \<in> set xs" for y
    using Cons.prems(1) Cons.prems(2) [rule_format, of "f x"] that by force
  ultimately show ?case using Cons.IH Cons.prems(1) by simp
qed simp

lemma sort_summaries_sorted: "sorted_wrt (\<lambda>x y. \<not> summary_less y x) (sort_summaries xs)" "mset (sort_summaries xs) = mset xs"
proof -
  have "sorted (map ss_id (filter (\<lambda>x. ss_sort_key x = k) (sort_summaries xs)))" for k
    unfolding sort_summaries_def by (subst sort_key_stable) (simp add: sorted_filter)
  then have "sorted_wrt (\<lambda>x y. ss_sort_key x < ss_sort_key y \<or> ss_sort_key x = ss_sort_key y \<and> ss_id x \<le> ss_id y) (sort_summaries xs)"
    by (intro sorted_twice) (simp_all add: sort_summaries_def)
  then show "sorted_wrt (\<lambda>x y. \<not> summary_less y x) (sort_summaries xs)"
    by (rule sorted_wrt_mono_rel [rotated]) (auto simp: summary_less_def)
  show "mset (sort_summaries xs) = mset xs" by (simp add: sort_summaries_def)
qed

lemma sorted_wrt_subseq: "subseq ys xs \<Longrightarrow> sorted_wrt R xs \<Longrightarrow> sorted_wrt R ys"
proof (induction rule: list_emb.induct)
  case (list_emb_Cons2 x y xs ys)
  then show ?case using list_emb_set [OF list_emb_Cons2.hyps(2)] by fastforce
qed simp_all

lemma subseq_set: "subseq ys xs \<Longrightarrow> set ys \<subseteq> set xs"
  by (induction rule: list_emb.induct) auto

lemma group_sizes: "list_all2 (group_of c base) gs tss \<Longrightarrow> (\<Sum>g \<leftarrow> gs. group_size g) = length (concat tss)"
  by (induction rule: list_all2_induct) (auto simp: group_of_def group_size_def)

lemma partition_iterations_returns:
  assumes "list_all2 (group_of c base) gs tss" "summaries_ok ss" "balanced gs (length ss)"
  defines "N \<equiv> length ss + (\<Sum>g \<leftarrow> gs. group_size g)"
  shows "returns (\<lambda>(gs', ss'). length gs' = length gs \<and> subseq ss' ss \<and>
      (\<forall>i < length gs. group_size (gs' ! i) \<le> target_group_size N (length gs) i) \<and>
      (\<exists>tss'. list_all2 (group_of c base) gs' tss' \<and> mset (concat tss') + mset ss' = mset (concat tss) + mset ss))
    (partition_iterations n gs ss)"
  using assms(1-3) unfolding N_def
proof (induction n arbitrary: gs ss tss)
  case 0
  then show ?case by (auto simp: balanced_def)
next
  case (Suc n)
  let ?N = "length ss + (\<Sum>g \<leftarrow> gs. group_size g)"
  show ?case
  proof (cases "ss = []")
    case True
    then show ?thesis using Suc.prems by (auto simp: balanced_def)
  next
    case False
    obtain gs1 ss1 tss1 where one: "PartitionSnapshots gs ss = ret (gs1, ss1)" "length gs1 = length gs" "subseq ss1 ss"
      "\<forall>i < length gs. group_size (gs1 ! i) \<le> target_group_size ?N (length gs) i"
      "list_all2 (group_of c base) gs1 tss1" "mset (concat tss1) + mset ss1 = mset (concat tss) + mset ss"
      using PartitionSnapshots_returns [OF Suc.prems(3,1,2)] by (auto elim!: returnsE)
    have "length (concat tss1) + length ss1 = length (concat tss) + length ss"
      using one(6) by (metis size_mset size_union)
    then have N: "length ss1 + (\<Sum>g \<leftarrow> gs1. group_size g) = ?N"
      using group_sizes [OF one(5)] group_sizes [OF Suc.prems(1)] by simp
    have ok: "summaries_ok ss1" using Suc.prems(2) subseq_set [OF one(3)] by (auto simp: summaries_ok_def)
    have "balanced gs1 (length ss1)"
      using Suc.prems(3) one(2,4) N unfolding balanced_def by (simp only: N) auto
    from Suc.IH [OF one(5) ok this] show ?thesis
      unfolding partition_iterations.simps if_not_P [OF False] one(1) rbind_simps prod.case N one(2)
      by (rule returns_mono) (use one(3,6) in \<open>auto intro: subseq_order.order_trans\<close>)
  qed
qed

text \<open>C23: \<open>PartitionCorpus\<close> into at least one group returns for every number of iterations. Each summary ends up in
  exactly one group or is left over, the left-over summaries are sorted, no two snapshots of a group conflict
  in more than writable mappings with equal permissions, and the groups are of their equal shares at most.\<close>

theorem corpus_partition:
  assumes "num_groups > 0" "summaries_ok ungrouped" "length ungrouped < 2 ^ 64"
  shows "returns (\<lambda>(gs, left). length gs = num_groups \<and> sorted_wrt (\<lambda>x y. \<not> summary_less y x) left \<and>
      (\<forall>i < num_groups. group_size (gs ! i) \<le> target_group_size (length ungrouped) num_groups i) \<and>
      (\<exists>tss. list_all2 (group_of kAllowWriteConflictsWithSamePerm []) gs tss \<and> mset (concat tss) + mset left = mset ungrouped))
    (PartitionCorpus num_groups num_iterations ungrouped)"
proof -
  let ?gs = "new_partition num_groups kAllowWriteConflictsWithSamePerm []" and ?ss = "sort_summaries ungrouped"
  have len: "length ?ss = length ungrouped" "set ?ss = set ungrouped"
    using sort_summaries_sorted(2) [of ungrouped] by (metis size_mset, metis set_mset_mset)
  have ok: "summaries_ok ?ss" using assms(2) len(2) by (simp add: summaries_ok_def)
  have b: "balanced ?gs (length ?ss)" using assms(1,3) len(1) by (simp add: balanced_new)
  have sizes: "(\<Sum>g \<leftarrow> ?gs. group_size g) = 0" "length ?gs = num_groups"
    by (simp_all add: new_partition_def new_group_def group_size_def sum_list_replicate)
  from partition_iterations_returns [OF new_partition_of [OF mapped_map_ok_Nil] ok b] show ?thesis
    unfolding PartitionCorpus_def
    by (rule returns_mono)
      (use sort_summaries_sorted sorted_wrt_subseq in \<open>fastforce simp: len(1) sizes\<close>)
qed

theorem corpus_partition_witness:
  "returns (\<lambda>(gs, left). length gs = 2 \<and> size (mset left) \<le> 2) (PartitionCorpus 2 3 [summary_a, summary_b])"
proof (rule returns_mono [OF corpus_partition])
  fix r :: "snapshot_group list \<times> snapshot_summary list"
  obtain gs left where r: "r = (gs, left)" by fastforce
  assume "case r of (gs, left) \<Rightarrow> length gs = 2 \<and> sorted_wrt (\<lambda>x y. \<not> summary_less y x) left \<and>
      (\<forall>i < 2. group_size (gs ! i) \<le> target_group_size (length [summary_a, summary_b]) 2 i) \<and>
      (\<exists>tss. list_all2 (group_of kAllowWriteConflictsWithSamePerm []) gs tss \<and> mset (concat tss) + mset left = mset [summary_a, summary_b])"
  then obtain tss where "length gs = 2" "mset (concat tss) + mset left = mset [summary_a, summary_b]" by (auto simp: r)
  then have "size (mset (concat tss) + mset left) = 2" by simp
  with \<open>length gs = 2\<close> show "case r of (gs, left) \<Rightarrow> length gs = 2 \<and> size (mset left) \<le> 2" by (simp add: r)
qed (use two_summaries in simp_all)

end
