(* ===== verification/Bit_Struct.thy ===== *)
theory Bit_Struct
  imports Prelude
begin

text \<open>
  \<open>BitStruct\<close> of \<open>proxies/page_table/bit_struct.h\<close> and the two structs of addresses built on it,
  \<open>physical_address.h\<close> and \<open>virtual_address.h\<close>. A struct is its encoded value, a field the pair of
  its shift and width that the macro \<open>SILIFUZZ_PROXY_BIT_STRUCT_FIELD\<close> declares. \<open>set_bit_field\<close>
  masks the value; its \<open>DCHECK\<close> that nothing is masked away is the predicate \<open>field_fits\<close>.
\<close>

section \<open>BitStruct\<close>

type_synonym bit_field = "nat \<times> nat"

definition bit_mask :: "nat \<Rightarrow> u64" where
  "bit_mask n = push_bit n 1 - 1"

definition get_bit_field :: "nat \<Rightarrow> nat \<Rightarrow> u64 \<Rightarrow> u64" where
  "get_bit_field lsb width bits = drop_bit lsb bits AND bit_mask width"

definition set_bit_field :: "nat \<Rightarrow> nat \<Rightarrow> u64 \<Rightarrow> u64 \<Rightarrow> u64" where
  "set_bit_field lsb width val bits =
     (let mask = bit_mask width;
          bits = bits AND NOT (push_bit lsb mask)
      in bits OR push_bit lsb (val AND mask))"

definition BIT_STRUCT_FIELD :: "nat \<Rightarrow> nat \<Rightarrow> bit_field" where
  "BIT_STRUCT_FIELD lsb msb = (lsb, msb - lsb + 1)"

definition get_field :: "bit_field \<Rightarrow> u64 \<Rightarrow> u64" where
  "get_field f bits = get_bit_field (fst f) (snd f) bits"

definition set_field :: "bit_field \<Rightarrow> u64 \<Rightarrow> u64 \<Rightarrow> u64" where
  "set_field f val bits = set_bit_field (fst f) (snd f) val bits"

definition field_fits :: "bit_field \<Rightarrow> u64 \<Rightarrow> bool" where
  "field_fits f val \<longleftrightarrow> val AND NOT (bit_mask (snd f)) = 0"

text \<open>A chain of setters, applied from the left.\<close>

definition set_fields :: "(bit_field \<times> u64) list \<Rightarrow> u64 \<Rightarrow> u64" where
  "set_fields fvs bits = fold (\<lambda>(f, v). set_field f v) fvs bits"

section \<open>PhysicalAddress\<close>

definition pa_physical_address_lsbs :: bit_field where "pa_physical_address_lsbs = BIT_STRUCT_FIELD 0 11"
definition pa_physical_address_msbs :: bit_field where "pa_physical_address_msbs = BIT_STRUCT_FIELD 12 47"

text \<open>The fields of a physical address.\<close>

definition pa_fields :: "bit_field list" where
  "pa_fields =
     [pa_physical_address_lsbs, pa_physical_address_msbs]"

section \<open>VirtualAddress\<close>

definition va_physical_address_lsbs :: bit_field where "va_physical_address_lsbs = BIT_STRUCT_FIELD 0 11"
definition va_table_index_l3 :: bit_field where "va_table_index_l3 = BIT_STRUCT_FIELD 12 20"
definition va_table_index_l2 :: bit_field where "va_table_index_l2 = BIT_STRUCT_FIELD 21 29"
definition va_table_index_l1 :: bit_field where "va_table_index_l1 = BIT_STRUCT_FIELD 30 38"
definition va_table_index_l0 :: bit_field where "va_table_index_l0 = BIT_STRUCT_FIELD 39 47"

text \<open>The fields of a virtual address, from the least significant bit up.\<close>

definition va_fields :: "bit_field list" where
  "va_fields =
     [va_physical_address_lsbs, va_table_index_l3, va_table_index_l2, va_table_index_l1,
      va_table_index_l0]"

text \<open>The accessors by level; an index that is no level is fatal.\<close>

definition table_index_l :: "nat \<Rightarrow> u64 \<Rightarrow> u64 res" where
  "table_index_l index va =
     (if index = 0 then ret (get_field va_table_index_l0 va)
      else if index = 1 then ret (get_field va_table_index_l1 va)
      else if index = 2 then ret (get_field va_table_index_l2 va)
      else if index = 3 then ret (get_field va_table_index_l3 va)
      else abort (Check_failed ''table_index_l index is invalid. ''))"

definition set_table_index_l :: "nat \<Rightarrow> u64 \<Rightarrow> u64 \<Rightarrow> u64 res" where
  "set_table_index_l index val va =
     (if index = 0 then ret (set_field va_table_index_l0 val va)
      else if index = 1 then ret (set_field va_table_index_l1 val va)
      else if index = 2 then ret (set_field va_table_index_l2 val va)
      else if index = 3 then ret (set_field va_table_index_l3 val va)
      else abort (Check_failed ''table_index_l index is invalid. ''))"

section \<open>Fields by their bits\<close>

lemma bit_bit_mask: "bit (bit_mask n) k \<longleftrightarrow> k < n \<and> k < 64"
  by (simp add: bit_mask_def mask_eq_exp_minus_1 [symmetric] push_bit_of_1 bit_mask_iff conj_commute)

lemma bit_get_field: "bit (get_field f b) n \<longleftrightarrow> n < snd f \<and> bit b (fst f + n)"
  by (auto simp: get_field_def get_bit_field_def bit_simps bit_bit_mask dest: bit_imp_le_length)

lemma bit_set_field:
  "bit (set_field f v b) n \<longleftrightarrow>
     n < 64 \<and> (if fst f \<le> n \<and> n < fst f + snd f then bit v (n - fst f) else bit b n)"
  by (auto simp: set_field_def set_bit_field_def Let_def bit_simps bit_bit_mask dest: bit_imp_le_length)

lemma field_fits_iff: "field_fits f v \<longleftrightarrow> (\<forall>n. bit v n \<longrightarrow> n < snd f)"
  using bit_imp_le_length [of v] by (auto simp: field_fits_def bit_eq_iff bit_simps bit_bit_mask)

lemma field_fits_get [simp]: "snd g \<le> snd f \<Longrightarrow> field_fits f (get_field g b)"
  by (auto simp: field_fits_iff bit_get_field)

section \<open>Layouts\<close>

text \<open>\<open>tiled n fs\<close>: from bit \<open>n\<close> to bit 63, the fields follow each other without gap or overlap.\<close>

fun tiled :: "nat \<Rightarrow> bit_field list \<Rightarrow> bool" where
  "tiled n [] \<longleftrightarrow> n = 64"
| "tiled n (f # fs) \<longleftrightarrow> fst f = n \<and> 0 < snd f \<and> tiled (n + snd f) fs"

definition apart :: "bit_field \<Rightarrow> bit_field \<Rightarrow> bool" where
  "apart f g \<longleftrightarrow> fst f + snd f \<le> fst g \<or> fst g + snd g \<le> fst f"

text \<open>Setting a field is seen by its getter and by no other field's.\<close>

lemma get_set_same:
  assumes "fst f + snd f \<le> 64" "field_fits f v"
  shows "get_field f (set_field f v b) = v"
proof (rule bit_word_eqI)
  fix n assume "n < LENGTH(64)"
  then show "bit (get_field f (set_field f v b)) n = bit v n"
    using assms by (auto simp: bit_get_field bit_set_field field_fits_iff)
qed

lemma get_set_apart:
  assumes "apart f g" shows "get_field f (set_field g v b) = get_field f b"
proof (rule bit_word_eqI)
  fix n assume "n < LENGTH(64)"
  then show "bit (get_field f (set_field g v b)) n = bit (get_field f b) n"
    using assms by (auto simp: bit_get_field bit_set_field apart_def dest: bit_imp_le_length)
qed

lemma set_set_same [simp]: "set_field f v (set_field f w b) = set_field f v b"
  by (rule bit_word_eqI) (auto simp: bit_set_field)

lemma set_set_apart:
  assumes "apart f g" shows "set_field f v (set_field g w b) = set_field g w (set_field f v b)"
  using assms by (intro bit_word_eqI) (auto simp: bit_set_field apart_def)

lemma tiled_le: "tiled n fs \<Longrightarrow> n \<le> 64"
  by (induction n fs rule: tiled.induct) auto

lemma tiled_bounds: "tiled n fs \<Longrightarrow> f \<in> set fs \<Longrightarrow> n \<le> fst f \<and> 0 < snd f \<and> fst f + snd f \<le> 64"
proof (induction n fs rule: tiled.induct)
  case (2 n g fs)
  then show ?case using tiled_le [of "n + snd g" fs] by auto
qed simp

text \<open>In a tiling, two fields at different places are apart.\<close>

lemma tiled_apart:
  "tiled n fs \<Longrightarrow> f \<in> set fs \<Longrightarrow> g \<in> set fs \<Longrightarrow> f \<noteq> g \<Longrightarrow> apart f g"
proof (induction n fs rule: tiled.induct)
  case (2 n h fs)
  then show ?case
    using tiled_bounds [of "n + snd h" fs f] tiled_bounds [of "n + snd h" fs g]
    by (auto simp: apart_def)
qed simp

end
