(* ===== verification/Page_Descriptors.thy ===== *)
theory Page_Descriptors
  imports Bit_Struct
begin

text \<open>
  The entries of a page table and the operations on them: \<open>proxies/page_table/aarch64/\<close> and
  \<open>x86_64/\<close> (\<open>page_descriptor_entry.h\<close>, \<open>table_descriptor_entry.h\<close>: fields, enums and default
  constructors) and \<open>page_table_entry_util.h\<close> and \<open>.cc\<close>. The template parameter \<open>arch\<close> is an
  argument. An \<open>absl::Status\<close> error is a value of \<open>pt_error\<close>, its code with what its message prints.
\<close>

datatype page_arch = X86_64 | AArch64

datatype pt_error =
    Unfit string u64               \<comment> \<open>\<open>InvalidArgument\<close>: does not fit in the address space\<close>
  | Unaligned string u64           \<comment> \<open>\<open>InvalidArgument\<close>: not aligned to the granule\<close>
  | Invalid_descriptor string      \<comment> \<open>\<open>InvalidArgument\<close> of a check\<close>
  | Already_exists u64             \<comment> \<open>\<open>AlreadyExists\<close> with the existing physical address\<close>
  | Failed_to_map u64 pt_error     \<comment> \<open>annotated with the virtual address\<close>

type_synonym 'a status_or = "pt_error + 'a"

section \<open>AArch64 page descriptor entries\<close>

abbreviation (input) kApTableUnprivilegedAccessPermitted_page :: u64 where "kApTableUnprivilegedAccessPermitted_page \<equiv> 1"
abbreviation (input) kApTableWriteAccessReadWrite_page :: u64 where "kApTableWriteAccessReadWrite_page \<equiv> 0"
abbreviation (input) kApTableWriteAccessReadOnly_page :: u64 where "kApTableWriteAccessReadOnly_page \<equiv> 1"
abbreviation (input) kNonSecureNonSecurePaSpace :: u64 where "kNonSecureNonSecurePaSpace \<equiv> 1"
abbreviation (input) kPxnNoEffect :: u64 where "kPxnNoEffect \<equiv> 0"
abbreviation (input) kTypePage :: u64 where "kTypePage \<equiv> 1"
abbreviation (input) kUxnNoEffect :: u64 where "kUxnNoEffect \<equiv> 0"
abbreviation (input) kUxnUnprivilegedExecuteNever :: u64 where "kUxnUnprivilegedExecuteNever \<equiv> 1"

definition arm_page_valid :: bit_field where "arm_page_valid = BIT_STRUCT_FIELD 0 0"
definition arm_page_type :: bit_field where "arm_page_type = BIT_STRUCT_FIELD 1 1"
definition arm_page_attr_index :: bit_field where "arm_page_attr_index = BIT_STRUCT_FIELD 2 4"
definition arm_page_non_secure :: bit_field where "arm_page_non_secure = BIT_STRUCT_FIELD 5 5"
definition arm_page_ap_table_unprivileged_access :: bit_field where "arm_page_ap_table_unprivileged_access = BIT_STRUCT_FIELD 6 6"
definition arm_page_ap_table_write_access :: bit_field where "arm_page_ap_table_write_access = BIT_STRUCT_FIELD 7 7"
definition arm_page_shareability :: bit_field where "arm_page_shareability = BIT_STRUCT_FIELD 8 9"
definition arm_page_access_flag :: bit_field where "arm_page_access_flag = BIT_STRUCT_FIELD 10 10"
definition arm_page_not_global :: bit_field where "arm_page_not_global = BIT_STRUCT_FIELD 11 11"
definition arm_page_output_address :: bit_field where "arm_page_output_address = BIT_STRUCT_FIELD 12 47"
definition arm_page_res0 :: bit_field where "arm_page_res0 = BIT_STRUCT_FIELD 48 49"
definition arm_page_guarded_page :: bit_field where "arm_page_guarded_page = BIT_STRUCT_FIELD 50 50"
definition arm_page_dirty :: bit_field where "arm_page_dirty = BIT_STRUCT_FIELD 51 51"
definition arm_page_contiguous :: bit_field where "arm_page_contiguous = BIT_STRUCT_FIELD 52 52"
definition arm_page_pxn :: bit_field where "arm_page_pxn = BIT_STRUCT_FIELD 53 53"
definition arm_page_uxn :: bit_field where "arm_page_uxn = BIT_STRUCT_FIELD 54 54"
definition arm_page_ignored0 :: bit_field where "arm_page_ignored0 = BIT_STRUCT_FIELD 55 58"
definition arm_page_pbha :: bit_field where "arm_page_pbha = BIT_STRUCT_FIELD 59 62"
definition arm_page_ignored1 :: bit_field where "arm_page_ignored1 = BIT_STRUCT_FIELD 63 63"

definition arm_page_fields :: "bit_field list" where
  "arm_page_fields =
     [arm_page_valid, arm_page_type, arm_page_attr_index, arm_page_non_secure,
      arm_page_ap_table_unprivileged_access, arm_page_ap_table_write_access,
      arm_page_shareability, arm_page_access_flag, arm_page_not_global,
      arm_page_output_address, arm_page_res0, arm_page_guarded_page, arm_page_dirty,
      arm_page_contiguous, arm_page_pxn, arm_page_uxn, arm_page_ignored0, arm_page_pbha,
      arm_page_ignored1]"

definition arm_page_default :: u64 where
  "arm_page_default = set_fields
     [(arm_page_type, kTypePage),
      (arm_page_non_secure, kNonSecureNonSecurePaSpace),
      (arm_page_ap_table_unprivileged_access, kApTableUnprivilegedAccessPermitted_page),
      (arm_page_ap_table_write_access, kApTableWriteAccessReadOnly_page),
      (arm_page_not_global, 0),
      (arm_page_pxn, kPxnNoEffect),
      (arm_page_uxn, kUxnUnprivilegedExecuteNever)] 0"

section \<open>AArch64 table descriptor entries\<close>

text \<open>The enum of unprivileged access is the other way round than in a page descriptor.\<close>

abbreviation (input) kApTableUnprivilegedAccessPermitted_table :: u64 where "kApTableUnprivilegedAccessPermitted_table \<equiv> 0"
abbreviation (input) kApTableWriteAccessReadWrite_table :: u64 where "kApTableWriteAccessReadWrite_table \<equiv> 0"
abbreviation (input) kApTableWriteAccessReadOnly_table :: u64 where "kApTableWriteAccessReadOnly_table \<equiv> 1"
abbreviation (input) kNsTableNonSecurePaSpace :: u64 where "kNsTableNonSecurePaSpace \<equiv> 1"
abbreviation (input) kPxnTableNoEffect :: u64 where "kPxnTableNoEffect \<equiv> 0"
abbreviation (input) kTypeTable :: u64 where "kTypeTable \<equiv> 1"
abbreviation (input) kUxnTableNoEffect :: u64 where "kUxnTableNoEffect \<equiv> 0"
abbreviation (input) kUxnTableUnprivilegedExecuteNever :: u64 where "kUxnTableUnprivilegedExecuteNever \<equiv> 1"

definition arm_table_valid :: bit_field where "arm_table_valid = BIT_STRUCT_FIELD 0 0"
definition arm_table_type :: bit_field where "arm_table_type = BIT_STRUCT_FIELD 1 1"
definition arm_table_ignored0 :: bit_field where "arm_table_ignored0 = BIT_STRUCT_FIELD 2 11"
definition arm_table_next_table_address :: bit_field where "arm_table_next_table_address = BIT_STRUCT_FIELD 12 47"
definition arm_table_res0 :: bit_field where "arm_table_res0 = BIT_STRUCT_FIELD 48 50"
definition arm_table_ignored1 :: bit_field where "arm_table_ignored1 = BIT_STRUCT_FIELD 51 58"
definition arm_table_pxn_table :: bit_field where "arm_table_pxn_table = BIT_STRUCT_FIELD 59 59"
definition arm_table_uxn_table :: bit_field where "arm_table_uxn_table = BIT_STRUCT_FIELD 60 60"
definition arm_table_ap_table_unprivileged_access :: bit_field where "arm_table_ap_table_unprivileged_access = BIT_STRUCT_FIELD 61 61"
definition arm_table_ap_table_write_access :: bit_field where "arm_table_ap_table_write_access = BIT_STRUCT_FIELD 62 62"
definition arm_table_ns_table :: bit_field where "arm_table_ns_table = BIT_STRUCT_FIELD 63 63"

definition arm_table_fields :: "bit_field list" where
  "arm_table_fields =
     [arm_table_valid, arm_table_type, arm_table_ignored0, arm_table_next_table_address,
      arm_table_res0, arm_table_ignored1, arm_table_pxn_table, arm_table_uxn_table,
      arm_table_ap_table_unprivileged_access, arm_table_ap_table_write_access,
      arm_table_ns_table]"

definition arm_table_default :: u64 where
  "arm_table_default = set_fields
     [(arm_table_type, kTypeTable),
      (arm_table_pxn_table, kPxnTableNoEffect),
      (arm_table_uxn_table, kUxnTableUnprivilegedExecuteNever),
      (arm_table_ap_table_unprivileged_access, kApTableUnprivilegedAccessPermitted_table),
      (arm_table_ap_table_write_access, kApTableWriteAccessReadOnly_table),
      (arm_table_ns_table, kNsTableNonSecurePaSpace)] 0"

section \<open>x86-64 page descriptor entries\<close>

abbreviation (input) kReadOnly :: u64 where "kReadOnly \<equiv> 0"
abbreviation (input) kReadWrite :: u64 where "kReadWrite \<equiv> 1"
abbreviation (input) kUserModeAccessAllowed :: u64 where "kUserModeAccessAllowed \<equiv> 1"

definition x86_page_present :: bit_field where "x86_page_present = BIT_STRUCT_FIELD 0 0"
definition x86_page_read_write :: bit_field where "x86_page_read_write = BIT_STRUCT_FIELD 1 1"
definition x86_page_user_supervisor :: bit_field where "x86_page_user_supervisor = BIT_STRUCT_FIELD 2 2"
definition x86_page_page_write_through :: bit_field where "x86_page_page_write_through = BIT_STRUCT_FIELD 3 3"
definition x86_page_page_cache_disable :: bit_field where "x86_page_page_cache_disable = BIT_STRUCT_FIELD 4 4"
definition x86_page_accessed :: bit_field where "x86_page_accessed = BIT_STRUCT_FIELD 5 5"
definition x86_page_dirty :: bit_field where "x86_page_dirty = BIT_STRUCT_FIELD 6 6"
definition x86_page_page_attribute_table :: bit_field where "x86_page_page_attribute_table = BIT_STRUCT_FIELD 7 7"
definition x86_page_global :: bit_field where "x86_page_global = BIT_STRUCT_FIELD 8 8"
definition x86_page_ignored0 :: bit_field where "x86_page_ignored0 = BIT_STRUCT_FIELD 9 11"
definition x86_page_physical_address :: bit_field where "x86_page_physical_address = BIT_STRUCT_FIELD 12 51"
definition x86_page_ignored1 :: bit_field where "x86_page_ignored1 = BIT_STRUCT_FIELD 52 58"
definition x86_page_protection_key :: bit_field where "x86_page_protection_key = BIT_STRUCT_FIELD 59 62"
definition x86_page_execute_disable :: bit_field where "x86_page_execute_disable = BIT_STRUCT_FIELD 63 63"

definition x86_page_fields :: "bit_field list" where
  "x86_page_fields =
     [x86_page_present, x86_page_read_write, x86_page_user_supervisor,
      x86_page_page_write_through, x86_page_page_cache_disable, x86_page_accessed,
      x86_page_dirty, x86_page_page_attribute_table, x86_page_global, x86_page_ignored0,
      x86_page_physical_address, x86_page_ignored1, x86_page_protection_key,
      x86_page_execute_disable]"

definition x86_page_default :: u64 where
  "x86_page_default = set_fields
     [(x86_page_present, 1),
      (x86_page_read_write, kReadOnly),
      (x86_page_user_supervisor, kUserModeAccessAllowed),
      (x86_page_page_write_through, 0),
      (x86_page_page_cache_disable, 0),
      (x86_page_accessed, 0),
      (x86_page_dirty, 0),
      (x86_page_page_attribute_table, 0),
      (x86_page_global, 0),
      (x86_page_protection_key, 0),
      (x86_page_execute_disable, 1)] 0"

section \<open>x86-64 table descriptor entries\<close>

definition x86_table_present :: bit_field where "x86_table_present = BIT_STRUCT_FIELD 0 0"
definition x86_table_read_write :: bit_field where "x86_table_read_write = BIT_STRUCT_FIELD 1 1"
definition x86_table_user_supervisor :: bit_field where "x86_table_user_supervisor = BIT_STRUCT_FIELD 2 2"
definition x86_table_page_write_through :: bit_field where "x86_table_page_write_through = BIT_STRUCT_FIELD 3 3"
definition x86_table_page_cache_disable :: bit_field where "x86_table_page_cache_disable = BIT_STRUCT_FIELD 4 4"
definition x86_table_accessed :: bit_field where "x86_table_accessed = BIT_STRUCT_FIELD 5 5"
definition x86_table_ignored0 :: bit_field where "x86_table_ignored0 = BIT_STRUCT_FIELD 6 6"
definition x86_table_page_size :: bit_field where "x86_table_page_size = BIT_STRUCT_FIELD 7 7"
definition x86_table_ignored1 :: bit_field where "x86_table_ignored1 = BIT_STRUCT_FIELD 8 11"
definition x86_table_physical_address :: bit_field where "x86_table_physical_address = BIT_STRUCT_FIELD 12 51"
definition x86_table_ignored2 :: bit_field where "x86_table_ignored2 = BIT_STRUCT_FIELD 52 62"
definition x86_table_execute_disable :: bit_field where "x86_table_execute_disable = BIT_STRUCT_FIELD 63 63"

definition x86_table_fields :: "bit_field list" where
  "x86_table_fields =
     [x86_table_present, x86_table_read_write, x86_table_user_supervisor,
      x86_table_page_write_through, x86_table_page_cache_disable, x86_table_accessed,
      x86_table_ignored0, x86_table_page_size, x86_table_ignored1, x86_table_physical_address,
      x86_table_ignored2, x86_table_execute_disable]"

definition x86_table_default :: u64 where
  "x86_table_default = set_fields
     [(x86_table_present, 1),
      (x86_table_read_write, kReadOnly),
      (x86_table_user_supervisor, kUserModeAccessAllowed),
      (x86_table_page_write_through, 0),
      (x86_table_page_cache_disable, 0),
      (x86_table_accessed, 0),
      (x86_table_page_size, 0),
      (x86_table_execute_disable, 1)] 0"

section \<open>Operations on entries\<close>

subsection \<open>AArch64\<close>

definition CreatePageDescriptor_AArch64 :: "u64 \<Rightarrow> u64 \<Rightarrow> bool \<Rightarrow> bool \<Rightarrow> u64 status_or" where
  "CreatePageDescriptor_AArch64 existing_entry decoded_pa writeable executable =
     (let new_descriptor = set_field arm_page_valid 1 arm_page_default;
          new_descriptor = set_field arm_page_output_address (get_field pa_physical_address_msbs decoded_pa) new_descriptor;
          new_descriptor = (if writeable
            then set_field arm_page_ap_table_write_access kApTableWriteAccessReadWrite_page new_descriptor
            else new_descriptor);
          new_descriptor = (if executable then set_field arm_page_uxn kUxnNoEffect new_descriptor else new_descriptor)
      in if get_field arm_page_valid existing_entry \<noteq> 0 \<and> existing_entry \<noteq> new_descriptor
         then Inl (Already_exists
                (set_field pa_physical_address_msbs (get_field arm_page_output_address existing_entry) 0))
         else Inr new_descriptor)"

definition UpdateTableDescriptor_AArch64 :: "u64 \<Rightarrow> u64 \<Rightarrow> bool \<Rightarrow> bool \<Rightarrow> u64" where
  "UpdateTableDescriptor_AArch64 existing_entry next_table_pa writeable executable =
     (let existing_descriptor =
            (if get_field arm_table_valid existing_entry = 0
             then set_field arm_table_next_table_address (get_field pa_physical_address_msbs next_table_pa)
                    (set_field arm_table_valid 1 arm_table_default)
             else existing_entry);
          existing_descriptor = (if writeable
            then set_field arm_table_ap_table_write_access kApTableWriteAccessReadWrite_table existing_descriptor
            else existing_descriptor)
      in if executable then set_field arm_table_uxn_table kUxnTableNoEffect existing_descriptor
         else existing_descriptor)"

definition CheckPageDescriptor_AArch64 :: "u64 \<Rightarrow> bool \<Rightarrow> bool \<Rightarrow> u64 status_or" where
  "CheckPageDescriptor_AArch64 descriptor writeable executable =
     (if get_field arm_page_valid descriptor = 0
      then Inl (Invalid_descriptor ''Page descriptor entry is invalid.'')
      else if get_field arm_page_type descriptor \<noteq> kTypePage
      then Inl (Invalid_descriptor ''Descriptor entry is not for type page.'')
      else if get_field arm_page_ap_table_unprivileged_access descriptor \<noteq> kApTableUnprivilegedAccessPermitted_page
      then Inl (Invalid_descriptor ''Page descriptor entry does not permit unprivileged access.'')
      else if get_field arm_page_pxn descriptor \<noteq> kPxnNoEffect
      then Inl (Invalid_descriptor ''Page descriptor entry has effect for pxn table.'')
      else if writeable \<and> get_field arm_page_ap_table_write_access descriptor \<noteq> kApTableWriteAccessReadWrite_page
      then Inl (Invalid_descriptor ''Page descriptor entry is not writeable.'')
      else if executable \<and> get_field arm_page_uxn descriptor \<noteq> kUxnNoEffect
      then Inl (Invalid_descriptor ''Page descriptor entry is not executable.'')
      else Inr (get_field arm_page_output_address descriptor))"

definition CheckTableDescriptor_AArch64 :: "u64 \<Rightarrow> bool \<Rightarrow> bool \<Rightarrow> u64 status_or" where
  "CheckTableDescriptor_AArch64 descriptor writeable executable =
     (if get_field arm_table_valid descriptor = 0
      then Inl (Invalid_descriptor ''Table descriptor entry is invalid.'')
      else if get_field arm_table_type descriptor \<noteq> kTypeTable
      then Inl (Invalid_descriptor ''Descriptor entry is not for type table.'')
      else if get_field arm_table_pxn_table descriptor \<noteq> kPxnTableNoEffect
      then Inl (Invalid_descriptor ''Table descriptor entry has effect for pxn table.'')
      else if get_field arm_table_ap_table_unprivileged_access descriptor \<noteq> kApTableUnprivilegedAccessPermitted_table
      then Inl (Invalid_descriptor ''Table descriptor entry does not permit unprivileged access.'')
      else if writeable \<and> get_field arm_table_ap_table_write_access descriptor \<noteq> kApTableWriteAccessReadWrite_table
      then Inl (Invalid_descriptor ''Table descriptor entry is not writeable.'')
      else if executable \<and> get_field arm_table_uxn_table descriptor \<noteq> kUxnTableNoEffect
      then Inl (Invalid_descriptor ''Table descriptor entry is not executable.'')
      else Inr (get_field arm_table_next_table_address descriptor))"

subsection \<open>x86-64\<close>

definition CreatePageDescriptor_X86_64 :: "u64 \<Rightarrow> u64 \<Rightarrow> bool \<Rightarrow> bool \<Rightarrow> u64 status_or" where
  "CreatePageDescriptor_X86_64 existing_entry decoded_pa writeable executable =
     (let new_descriptor = set_field x86_page_present 1 x86_page_default;
          new_descriptor = set_field x86_page_physical_address (get_field pa_physical_address_msbs decoded_pa) new_descriptor;
          new_descriptor = set_field x86_page_read_write (if writeable then kReadWrite else kReadOnly) new_descriptor;
          new_descriptor = set_field x86_page_execute_disable (if executable then 0 else 1) new_descriptor
      in if get_field x86_page_present existing_entry \<noteq> 0 \<and> existing_entry \<noteq> new_descriptor
         then Inl (Already_exists
                (set_field pa_physical_address_msbs (get_field x86_page_physical_address existing_entry) 0))
         else Inr new_descriptor)"

definition UpdateTableDescriptor_X86_64 :: "u64 \<Rightarrow> u64 \<Rightarrow> bool \<Rightarrow> bool \<Rightarrow> u64" where
  "UpdateTableDescriptor_X86_64 existing_entry next_table_pa writeable executable =
     (let existing_descriptor =
            (if get_field x86_table_present existing_entry = 0
             then set_field x86_table_physical_address (get_field pa_physical_address_msbs next_table_pa)
                    (set_field x86_table_present 1 x86_table_default)
             else existing_entry);
          existing_descriptor = (if writeable
            then set_field x86_table_read_write kReadWrite existing_descriptor
            else existing_descriptor)
      in if executable then set_field x86_table_execute_disable 0 existing_descriptor
         else existing_descriptor)"

definition CheckPageDescriptor_X86_64 :: "u64 \<Rightarrow> bool \<Rightarrow> bool \<Rightarrow> u64 status_or" where
  "CheckPageDescriptor_X86_64 descriptor writeable executable =
     (if get_field x86_page_present descriptor = 0
      then Inl (Invalid_descriptor ''Page descriptor entry is invalid.'')
      else if get_field x86_page_user_supervisor descriptor \<noteq> kUserModeAccessAllowed
      then Inl (Invalid_descriptor ''Page descriptor entry does not permit unprivileged access.'')
      else if writeable \<and> get_field x86_page_read_write descriptor \<noteq> kReadWrite
      then Inl (Invalid_descriptor ''Page descriptor entry is not writeable.'')
      else if executable \<and> get_field x86_page_execute_disable descriptor \<noteq> 0
      then Inl (Invalid_descriptor ''Page descriptor entry is not executable.'')
      else Inr (get_field x86_page_physical_address descriptor))"

definition CheckTableDescriptor_X86_64 :: "u64 \<Rightarrow> bool \<Rightarrow> bool \<Rightarrow> u64 status_or" where
  "CheckTableDescriptor_X86_64 descriptor writeable executable =
     (if get_field x86_table_present descriptor = 0
      then Inl (Invalid_descriptor ''Table descriptor entry is invalid.'')
      else if get_field x86_table_user_supervisor descriptor \<noteq> kUserModeAccessAllowed
      then Inl (Invalid_descriptor ''Table descriptor entry does not permit unprivileged access.'')
      else if writeable \<and> get_field x86_table_read_write descriptor \<noteq> kReadWrite
      then Inl (Invalid_descriptor ''Table descriptor entry is not writeable.'')
      else if executable \<and> get_field x86_table_execute_disable descriptor \<noteq> 0
      then Inl (Invalid_descriptor ''Table descriptor entry is not executable.'')
      else Inr (get_field x86_table_physical_address descriptor))"

subsection \<open>By architecture\<close>

fun CreatePageDescriptor :: "page_arch \<Rightarrow> u64 \<Rightarrow> u64 \<Rightarrow> bool \<Rightarrow> bool \<Rightarrow> u64 status_or" where
  "CreatePageDescriptor AArch64 = CreatePageDescriptor_AArch64"
| "CreatePageDescriptor X86_64 = CreatePageDescriptor_X86_64"

fun UpdateTableDescriptor :: "page_arch \<Rightarrow> u64 \<Rightarrow> u64 \<Rightarrow> bool \<Rightarrow> bool \<Rightarrow> u64" where
  "UpdateTableDescriptor AArch64 = UpdateTableDescriptor_AArch64"
| "UpdateTableDescriptor X86_64 = UpdateTableDescriptor_X86_64"

fun CheckPageDescriptor :: "page_arch \<Rightarrow> u64 \<Rightarrow> bool \<Rightarrow> bool \<Rightarrow> u64 status_or" where
  "CheckPageDescriptor AArch64 = CheckPageDescriptor_AArch64"
| "CheckPageDescriptor X86_64 = CheckPageDescriptor_X86_64"

fun CheckTableDescriptor :: "page_arch \<Rightarrow> u64 \<Rightarrow> bool \<Rightarrow> bool \<Rightarrow> u64 status_or" where
  "CheckTableDescriptor AArch64 = CheckTableDescriptor_AArch64"
| "CheckTableDescriptor X86_64 = CheckTableDescriptor_X86_64"

end
