(* ===== verification/Page_Descriptor_Laws.thy ===== *)
theory Page_Descriptor_Laws
  imports Page_Descriptors
begin

text \<open>
  What the creator of page tables relies on from the operations on entries, as a locale, and that
  both architectures provide it: a fresh descriptor is accepted by its check exactly for the
  accesses it was made for, a page is never silently replaced, and updating a table descriptor
  joins the permissions.
\<close>

section \<open>The contract\<close>

abbreviation msbs :: "u64 \<Rightarrow> u64" where
  "msbs pa \<equiv> get_field pa_physical_address_msbs pa"

abbreviation page_base :: "u64 \<Rightarrow> u64" where
  "page_base pa \<equiv> set_field pa_physical_address_msbs (msbs pa) 0"

text \<open>\<open>grants w x w' x'\<close>: permissions \<open>(w, x)\<close> allow an access that needs \<open>(w', x')\<close>.\<close>

definition grants :: "bool \<Rightarrow> bool \<Rightarrow> bool \<Rightarrow> bool \<Rightarrow> bool" where
  "grants w x w' x' \<longleftrightarrow> (w' \<longrightarrow> w) \<and> (x' \<longrightarrow> x)"

text \<open>
  The entries a creator writes: 0, or a descriptor of the table at \<open>t\<close>; 0, or one of a page.
  \<open>passes chk e w x\<close>: the check \<open>chk\<close> lets an access through the entry \<open>e\<close>.
\<close>

definition table_entry :: "(u64 \<Rightarrow> u64 \<Rightarrow> bool \<Rightarrow> bool \<Rightarrow> u64) \<Rightarrow> u64 \<Rightarrow> u64 \<Rightarrow> bool" where
  "table_entry update t e \<longleftrightarrow> e = 0 \<or> (\<exists>w x. e = update 0 t w x)"

definition page_entry :: "(u64 \<Rightarrow> u64 \<Rightarrow> bool \<Rightarrow> bool \<Rightarrow> u64 status_or) \<Rightarrow> u64 \<Rightarrow> bool" where
  "page_entry create e \<longleftrightarrow> e = 0 \<or> (\<exists>pa w x. create 0 pa w x = Inr e)"

definition passes :: "(u64 \<Rightarrow> bool \<Rightarrow> bool \<Rightarrow> u64 status_or) \<Rightarrow> u64 \<Rightarrow> bool \<Rightarrow> bool \<Rightarrow> bool" where
  "passes chk e w x \<longleftrightarrow> (case chk e w x of Inl _ \<Rightarrow> False | Inr _ \<Rightarrow> True)"

lemma passes_iff: "passes chk e w x \<longleftrightarrow> (\<exists>a. chk e w x = Inr a)"
  by (auto simp: passes_def split: sum.splits)

lemma grants_refl [simp]: "grants w x w x"
  by (simp add: grants_def)

locale entry_ops =
  fixes create :: "u64 \<Rightarrow> u64 \<Rightarrow> bool \<Rightarrow> bool \<Rightarrow> u64 status_or"
    and update :: "u64 \<Rightarrow> u64 \<Rightarrow> bool \<Rightarrow> bool \<Rightarrow> u64"
    and check_page :: "u64 \<Rightarrow> bool \<Rightarrow> bool \<Rightarrow> u64 status_or"
    and check_table :: "u64 \<Rightarrow> bool \<Rightarrow> bool \<Rightarrow> u64 status_or"
  assumes create_empty: "\<exists>e. create 0 pa w x = Inr e"
    and create_msbs: "msbs pa = msbs pa' \<Longrightarrow> create 0 pa w x = create 0 pa' w x"
    and create_again: "create 0 pa w x = Inr e \<Longrightarrow>
      create e pa' w' x' =
        (if create 0 pa' w' x' = Inr e then Inr e else Inl (Already_exists (page_base pa)))"
    and check_created: "create 0 pa w x = Inr e \<Longrightarrow>
      check_page e w' x' = Inr a \<longleftrightarrow> grants w x w' x' \<and> a = msbs pa"
    and check_page_empty: "check_page 0 w x \<noteq> Inr a"
    and check_table_empty: "check_table 0 w x \<noteq> Inr a"
    and check_updated: "check_table (update 0 t w x) w' x' = Inr a \<longleftrightarrow> grants w x w' x' \<and> a = msbs t"
    and update_again: "update (update 0 t w x) t' w' x' = update 0 t (w \<or> w') (x \<or> x')"
begin

lemma created_nonzero: "create 0 pa w x = Inr e \<Longrightarrow> e \<noteq> 0"
  using check_created [of pa w x e False False "msbs pa"] check_page_empty by (auto simp: grants_def)

lemma updated_nonzero: "update 0 t w x \<noteq> 0"
  using check_updated [of t w x False False "msbs t"] check_table_empty by (auto simp: grants_def)

lemma created_inject:
  assumes "create 0 pa w x = Inr e"
  shows "create 0 pa' w' x' = Inr e \<longleftrightarrow> msbs pa' = msbs pa \<and> w' = w \<and> x' = x"
proof
  assume *: "create 0 pa' w' x' = Inr e"
  have "grants w x w' x' \<and> msbs pa' = msbs pa"
    using check_created [OF assms, of w' x' "msbs pa'"] check_created [OF *, of w' x' "msbs pa'"]
    by (simp add: grants_def)
  moreover have "grants w' x' w x"
    using check_created [OF assms, of w x "msbs pa"] check_created [OF *, of w x "msbs pa"]
    by (simp add: grants_def)
  ultimately show "msbs pa' = msbs pa \<and> w' = w \<and> x' = x"
    by (auto simp: grants_def)
next
  assume "msbs pa' = msbs pa \<and> w' = w \<and> x' = x"
  then show "create 0 pa' w' x' = Inr e" using assms create_msbs [of pa' pa w x] by simp
qed

lemma create_kept:
  "create 0 pa w x = Inr e \<Longrightarrow> msbs pa' = msbs pa \<Longrightarrow> create e pa' w x = Inr e"
  using created_inject [of pa w x e pa' w x] by (simp add: create_again)

lemma create_conflict:
  "create 0 pa w x = Inr e \<Longrightarrow> \<not> (msbs pa' = msbs pa \<and> w' = w \<and> x' = x) \<Longrightarrow>
   create e pa' w' x' = Inl (Already_exists (page_base pa))"
  using created_inject [of pa w x e pa' w' x'] by (simp add: create_again)

lemma update_unchanged: "update (update 0 t w x) t' w' x' = update 0 t w x \<longleftrightarrow> grants w x w' x'"
proof -
  have "update 0 t (w \<or> w') (x \<or> x') = update 0 t w x \<Longrightarrow> grants w x w' x'"
    using check_updated [of t "w \<or> w'" "x \<or> x'" w' x' "msbs t"]
      check_updated [of t w x w' x' "msbs t"] by (auto simp: grants_def)
  then show ?thesis by (auto simp: update_again grants_def simp del: imp_disjL)
qed

lemma passes_empty [simp]: "\<not> passes check_page 0 w x" "\<not> passes check_table 0 w x"
  by (simp_all add: passes_iff check_page_empty check_table_empty)

lemma passes_updated: "passes check_table (update 0 t w x) w' x' \<longleftrightarrow> grants w x w' x'"
  by (simp add: passes_iff check_updated)

lemma passes_created: "create 0 pa w x = Inr e \<Longrightarrow> passes check_page e w' x' \<longleftrightarrow> grants w x w' x'"
  by (simp add: passes_iff check_created)

text \<open>Updating an entry of a table keeps it one, joins its permissions and is monotone in them.\<close>

lemma update_table_entry: "table_entry update t e \<Longrightarrow> table_entry update t (update e t w x)"
  unfolding table_entry_def using update_again by blast

lemma update_passes:
  assumes "table_entry update t e"
  shows "passes check_table (update e t w x) w' x' \<longleftrightarrow>
    grants w x w' x' \<or> (\<exists>u y. passes check_table e u y \<and> grants (u \<or> w) (y \<or> x) w' x')"
  using assms
proof (unfold table_entry_def, elim disjE exE)
  fix u y assume e: "e = update 0 t u y"
  show ?thesis unfolding e update_again passes_updated by (auto simp: grants_def)
qed (simp add: passes_updated)

lemma update_mono:
  assumes "table_entry update t e" "table_entry update t' e'"
    and "\<And>u y. passes check_table e u y \<Longrightarrow> passes check_table e' u y"
  shows "passes check_table (update e t w x) w' x' \<Longrightarrow> passes check_table (update e' t' w x) w' x'"
  using assms(3) by (auto simp: update_passes [OF assms(1)] update_passes [OF assms(2)])

lemma update_keeps:
  assumes "table_entry update t e" "passes check_table e w' x'"
  shows "passes check_table (update e t w x) w' x'"
  using assms(2) by (auto simp: update_passes [OF assms(1)] grants_def)

lemma update_same: "table_entry update t e \<Longrightarrow> update e t w x = e \<longleftrightarrow> passes check_table e w x"
  using updated_nonzero by (auto simp: table_entry_def update_unchanged passes_updated)

lemma update_nonzero: "table_entry update t e \<Longrightarrow> update e t w x \<noteq> 0"
  using updated_nonzero by (auto simp: table_entry_def update_again)

lemma update_target: "table_entry update t e \<Longrightarrow> e \<noteq> 0 \<Longrightarrow> update e t' w x = update e t w x"
  by (auto simp: table_entry_def update_again)

lemma table_entry_target: "table_entry update t e \<Longrightarrow> check_table e w x = Inr a \<Longrightarrow> a = msbs t"
  using check_table_empty by (auto simp: table_entry_def check_updated)

end

section \<open>Both architectures\<close>

lemmas arm_page_defs = arm_page_valid_def arm_page_type_def arm_page_non_secure_def
  arm_page_ap_table_unprivileged_access_def arm_page_ap_table_write_access_def arm_page_not_global_def
  arm_page_output_address_def arm_page_pxn_def arm_page_uxn_def

lemmas arm_table_defs = arm_table_valid_def arm_table_type_def arm_table_next_table_address_def
  arm_table_pxn_table_def arm_table_uxn_table_def arm_table_ap_table_unprivileged_access_def
  arm_table_ap_table_write_access_def arm_table_ns_table_def

lemmas x86_page_defs = x86_page_present_def x86_page_read_write_def x86_page_user_supervisor_def
  x86_page_page_write_through_def x86_page_page_cache_disable_def x86_page_accessed_def
  x86_page_dirty_def x86_page_page_attribute_table_def x86_page_global_def x86_page_physical_address_def
  x86_page_protection_key_def x86_page_execute_disable_def

lemmas x86_table_defs = x86_table_present_def x86_table_read_write_def x86_table_user_supervisor_def
  x86_table_page_write_through_def x86_table_page_cache_disable_def x86_table_accessed_def
  x86_table_page_size_def x86_table_physical_address_def x86_table_execute_disable_def

lemmas field_defs = arm_page_defs arm_table_defs x86_page_defs x86_table_defs
  pa_physical_address_msbs_def BIT_STRUCT_FIELD_def

lemma msbs_fits: "36 \<le> w \<Longrightarrow> field_fits (s, w) (msbs pa)"
  by (simp add: pa_physical_address_msbs_def BIT_STRUCT_FIELD_def)

lemma field_fits_bit: "0 < w \<Longrightarrow> field_fits (s, w) 0" "0 < w \<Longrightarrow> field_fits (s, w) 1"
  by (auto simp: field_fits_iff bit_1_iff)

lemma get_field_zero [simp]: "get_field f 0 = 0"
  by (simp add: get_field_def get_bit_field_def)

lemmas entry_simps = get_set_same get_set_apart apart_def field_fits_bit msbs_fits
  BIT_STRUCT_FIELD_def

lemma msbs_zero_or: "msbs (page_base pa) = msbs pa"
  by (simp add: entry_simps pa_physical_address_msbs_def)

text \<open>The four entries a page or a table descriptor can be, read field by field.\<close>

lemma arm_page_created:
  assumes "CreatePageDescriptor_AArch64 0 pa w x = Inr e"
  shows "get_field arm_page_valid e = 1" "get_field arm_page_type e = kTypePage"
    "get_field arm_page_ap_table_unprivileged_access e = kApTableUnprivilegedAccessPermitted_page"
    "get_field arm_page_pxn e = kPxnNoEffect"
    "get_field arm_page_ap_table_write_access e = (if w then 0 else 1)"
    "get_field arm_page_uxn e = (if x then 0 else 1)"
    "get_field arm_page_output_address e = msbs pa"
  using assms
  by (auto simp: CreatePageDescriptor_AArch64_def arm_page_default_def set_fields_def Let_def
      entry_simps arm_page_defs)

lemma x86_page_created:
  assumes "CreatePageDescriptor_X86_64 0 pa w x = Inr e"
  shows "get_field x86_page_present e = 1"
    "get_field x86_page_user_supervisor e = kUserModeAccessAllowed"
    "get_field x86_page_read_write e = (if w then 1 else 0)"
    "get_field x86_page_execute_disable e = (if x then 0 else 1)"
    "get_field x86_page_physical_address e = msbs pa"
  using assms
  by (auto simp: CreatePageDescriptor_X86_64_def x86_page_default_def set_fields_def Let_def
      entry_simps x86_page_defs)

lemma arm_table_updated:
  fixes t w x defines "e \<equiv> UpdateTableDescriptor_AArch64 0 t w x"
  shows "get_field arm_table_valid e = 1" "get_field arm_table_type e = kTypeTable"
    "get_field arm_table_pxn_table e = kPxnTableNoEffect"
    "get_field arm_table_ap_table_unprivileged_access e = kApTableUnprivilegedAccessPermitted_table"
    "get_field arm_table_ap_table_write_access e = (if w then 0 else 1)"
    "get_field arm_table_uxn_table e = (if x then 0 else 1)"
    "get_field arm_table_next_table_address e = msbs t"
  by (auto simp: e_def UpdateTableDescriptor_AArch64_def arm_table_default_def set_fields_def Let_def
      entry_simps arm_table_defs)

lemma x86_table_updated:
  fixes t w x defines "e \<equiv> UpdateTableDescriptor_X86_64 0 t w x"
  shows "get_field x86_table_present e = 1"
    "get_field x86_table_user_supervisor e = kUserModeAccessAllowed"
    "get_field x86_table_read_write e = (if w then 1 else 0)"
    "get_field x86_table_execute_disable e = (if x then 0 else 1)"
    "get_field x86_table_physical_address e = msbs t"
  by (auto simp: e_def UpdateTableDescriptor_X86_64_def x86_table_default_def set_fields_def Let_def
      entry_simps x86_table_defs)

text \<open>Updating twice.\<close>

lemma update_again_arm:
  "UpdateTableDescriptor_AArch64 (UpdateTableDescriptor_AArch64 0 t w x) t' w' x' =
     UpdateTableDescriptor_AArch64 0 t (w \<or> w') (x \<or> x')"
proof -
  have v: "get_field arm_table_valid (UpdateTableDescriptor_AArch64 0 t w x) = 1"
    by (rule arm_table_updated)
  let ?d = "set_field arm_table_next_table_address (msbs t) (set_field arm_table_valid 1 arm_table_default)"
  have c: "set_field arm_table_ap_table_write_access a (set_field arm_table_uxn_table b d) =
      set_field arm_table_uxn_table b (set_field arm_table_ap_table_write_access a d)" for a b d
    by (rule set_set_apart) (simp add: arm_table_defs entry_simps)
  show ?thesis
    using v unfolding UpdateTableDescriptor_AArch64_def [of "UpdateTableDescriptor_AArch64 0 t w x"]
    by (cases w; cases w'; cases x; cases x') (simp_all add: UpdateTableDescriptor_AArch64_def Let_def c)
qed

lemma update_again_x86:
  "UpdateTableDescriptor_X86_64 (UpdateTableDescriptor_X86_64 0 t w x) t' w' x' =
     UpdateTableDescriptor_X86_64 0 t (w \<or> w') (x \<or> x')"
proof -
  have v: "get_field x86_table_present (UpdateTableDescriptor_X86_64 0 t w x) = 1"
    by (rule x86_table_updated)
  have c: "set_field x86_table_read_write a (set_field x86_table_execute_disable b d) =
      set_field x86_table_execute_disable b (set_field x86_table_read_write a d)" for a b d
    by (rule set_set_apart) (simp add: x86_table_defs entry_simps)
  show ?thesis
    using v unfolding UpdateTableDescriptor_X86_64_def [of "UpdateTableDescriptor_X86_64 0 t w x"]
    by (cases w; cases w'; cases x; cases x') (simp_all add: UpdateTableDescriptor_X86_64_def Let_def c)
qed

interpretation arm: entry_ops CreatePageDescriptor_AArch64 UpdateTableDescriptor_AArch64
    CheckPageDescriptor_AArch64 CheckTableDescriptor_AArch64
proof
  fix pa pa' e w x w' x' a
  show "\<exists>e. CreatePageDescriptor_AArch64 0 pa w x = Inr e"
    by (simp add: CreatePageDescriptor_AArch64_def Let_def)
  show "CreatePageDescriptor_AArch64 0 pa w x = CreatePageDescriptor_AArch64 0 pa' w x" if "msbs pa = msbs pa'"
    using that by (simp add: CreatePageDescriptor_AArch64_def)
  show "CreatePageDescriptor_AArch64 e pa' w' x' =
      (if CreatePageDescriptor_AArch64 0 pa' w' x' = Inr e then Inr e else Inl (Already_exists (page_base pa)))"
    if "CreatePageDescriptor_AArch64 0 pa w x = Inr e"
    using arm_page_created [OF that] by (auto simp: CreatePageDescriptor_AArch64_def Let_def)
  show "CheckPageDescriptor_AArch64 e w' x' = Inr a \<longleftrightarrow> grants w x w' x' \<and> a = msbs pa"
    if "CreatePageDescriptor_AArch64 0 pa w x = Inr e"
    using arm_page_created [OF that] by (auto simp: CheckPageDescriptor_AArch64_def grants_def)
qed (auto simp: CheckPageDescriptor_AArch64_def CheckTableDescriptor_AArch64_def arm_table_updated
      grants_def update_again_arm)

interpretation x86: entry_ops CreatePageDescriptor_X86_64 UpdateTableDescriptor_X86_64
    CheckPageDescriptor_X86_64 CheckTableDescriptor_X86_64
proof
  fix pa pa' e w x w' x' a
  show "\<exists>e. CreatePageDescriptor_X86_64 0 pa w x = Inr e"
    by (simp add: CreatePageDescriptor_X86_64_def Let_def)
  show "CreatePageDescriptor_X86_64 0 pa w x = CreatePageDescriptor_X86_64 0 pa' w x" if "msbs pa = msbs pa'"
    using that by (simp add: CreatePageDescriptor_X86_64_def)
  show "CreatePageDescriptor_X86_64 e pa' w' x' =
      (if CreatePageDescriptor_X86_64 0 pa' w' x' = Inr e then Inr e else Inl (Already_exists (page_base pa)))"
    if "CreatePageDescriptor_X86_64 0 pa w x = Inr e"
    using x86_page_created [OF that] by (auto simp: CreatePageDescriptor_X86_64_def Let_def)
  show "CheckPageDescriptor_X86_64 e w' x' = Inr a \<longleftrightarrow> grants w x w' x' \<and> a = msbs pa"
    if "CreatePageDescriptor_X86_64 0 pa w x = Inr e"
    using x86_page_created [OF that] by (auto simp: CheckPageDescriptor_X86_64_def grants_def)
qed (auto simp: CheckPageDescriptor_X86_64_def CheckTableDescriptor_X86_64_def x86_table_updated
      grants_def update_again_x86)

text \<open>The operations by architecture.\<close>

interpretation entries: entry_ops "CreatePageDescriptor a" "UpdateTableDescriptor a"
    "CheckPageDescriptor a" "CheckTableDescriptor a" for a
  by (cases a) (simp_all add: arm.entry_ops_axioms x86.entry_ops_axioms)

end
