(* ===== verification/Page_Table_Creator.thy ===== *)
theory Page_Table_Creator
  imports Page_Descriptor_Laws Memory_Mapping
begin

text \<open>
  \<open>PageTableCreator\<close> of \<open>proxies/page_table/page_table_creator.h\<close> and \<open>.cc\<close>: the flattened vector of
  entries, per level the map from the start of an interval of virtual addresses to the index of its
  page of entries, and the operations that add a mapping. An operation of \<open>absl::Status\<close> gives the
  status with the changed creator, since an error leaves the changes made before it. Indices into
  the vector are naturals, physical addresses 64-bit words. The walker of
  \<open>proxies/page_table/page_table_test_util.h\<close> translates an address the way the processor does.
\<close>

section \<open>Statuses\<close>

definition sor_bind :: "'a status_or \<Rightarrow> ('a \<Rightarrow> 'b status_or) \<Rightarrow> 'b status_or" where
  "sor_bind m f = (case m of Inl e \<Rightarrow> Inl e | Inr x \<Rightarrow> f x)"

text \<open>\<open>RETURN_IF_NOT_OK(st)\<close> in a member function whose object is \<open>c\<close>.\<close>

definition return_if_not_ok :: "unit status_or \<Rightarrow> 'c \<Rightarrow> (unit status_or \<times> 'c) res \<Rightarrow> (unit status_or \<times> 'c) res" where
  "return_if_not_ok st c rest = (case st of Inl e \<Rightarrow> ret (Inl e, c) | Inr _ \<Rightarrow> rest)"

lemma sor_bind_simps [simp]: "sor_bind (Inl e) f = Inl e" "sor_bind (Inr x) f = f x"
  by (simp_all add: sor_bind_def)

lemma sor_bind_eq_Inr: "sor_bind m f = Inr y \<longleftrightarrow> (\<exists>x. m = Inr x \<and> f x = Inr y)"
  by (cases m) auto

lemma return_if_not_ok_simps [simp]:
  "return_if_not_ok (Inl e) c rest = ret (Inl e, c)"
  "return_if_not_ok (Inr ()) c rest = rest"
  by (simp_all add: return_if_not_ok_def)

section \<open>Decoding a virtual address\<close>

definition kAddressWidthBits :: nat where "kAddressWidthBits = 48"
definition kTranslationGranule :: u64 where "kTranslationGranule = 0x1000"
definition kNumLevels :: nat where "kNumLevels = 4"

record decoded_va =
  dva_value :: u64
  dva_starting_interval :: "u64 list"
  dva_entry_index :: "u64 list"

definition decode_level :: "u64 \<Rightarrow> nat \<Rightarrow> decoded_va \<Rightarrow> decoded_va res" where
  "decode_level virtual_addr level d =
     (let va_bit_struct = virtual_addr in
      rbind (table_index_l level va_bit_struct) (\<lambda>i.
      let d = d\<lparr>dva_entry_index := dva_entry_index d @ [i]\<rparr>;
          va_bit_struct = set_field va_physical_address_lsbs 0 va_bit_struct in
      rbind (for_each (\<lambda>l va. set_table_index_l l 0 va) [level..<kNumLevels] va_bit_struct) (\<lambda>va_bit_struct.
      ret (d\<lparr>dva_starting_interval := dva_starting_interval d @ [va_bit_struct]\<rparr>))))"

definition DecodedVirtualAddress :: "u64 \<Rightarrow> decoded_va res" where
  "DecodedVirtualAddress virtual_addr =
     for_each (decode_level virtual_addr) [0..<kNumLevels]
       \<lparr>dva_value = virtual_addr, dva_starting_interval = [], dva_entry_index = []\<rparr>"

definition CheckAlignmentAndSize :: "u64 \<Rightarrow> string \<Rightarrow> unit status_or" where
  "CheckAlignmentAndSize val descriptor =
     (if drop_bit kAddressWidthBits val \<noteq> 0 then Inl (Unfit descriptor val)
      else if val mod kTranslationGranule \<noteq> 0 then Inl (Unaligned descriptor val)
      else Inr ())"

section \<open>The creator\<close>

record page_table_creator =
  ptc_entries :: "u64 list"
  ptc_tables :: "nat \<Rightarrow> u64 \<rightharpoonup> nat"
  ptc_addr :: u64

definition kEntriesPerPage :: nat where
  "kEntriesPerPage = unat (kTranslationGranule div 8)"

definition set_table :: "nat \<Rightarrow> u64 \<Rightarrow> nat \<Rightarrow> page_table_creator \<Rightarrow> page_table_creator" where
  "set_table level start i c = c\<lparr>ptc_tables := (ptc_tables c)(level := (ptc_tables c level)(start \<mapsto> i))\<rparr>"

definition add_page :: "page_table_creator \<Rightarrow> page_table_creator" where
  "add_page c = c\<lparr>ptc_entries := ptc_entries c @ replicate kEntriesPerPage 0\<rparr>"

definition set_entry :: "nat \<Rightarrow> u64 \<Rightarrow> page_table_creator \<Rightarrow> page_table_creator" where
  "set_entry i e c = c\<lparr>ptc_entries := (ptc_entries c)[i := e]\<rparr>"

definition PageTableCreator :: "u64 \<Rightarrow> page_table_creator res" where
  "PageTableCreator page_table_addr =
     (let c = \<lparr>ptc_entries = [], ptc_tables = (\<lambda>_. Map.empty), ptc_addr = page_table_addr\<rparr> in
      rbind (check (CheckAlignmentAndSize page_table_addr ''page_table_addr'' = Inr ()) ''CHECK_OK'') (\<lambda>_.
      let l0_starting_interval = 0;
          c = set_table 0 l0_starting_interval (length (ptc_entries c)) c
      in ret (add_page c)))"

definition GetBinaryData :: "page_table_creator \<Rightarrow> u64 list" where
  "GetBinaryData c = ptc_entries c"

definition GetPageTableEntryIndex :: "decoded_va \<Rightarrow> nat \<Rightarrow> page_table_creator \<Rightarrow> (nat \<times> page_table_creator) res" where
  "GetPageTableEntryIndex d level c =
     (let starting_interval = dva_starting_interval d ! level;
          entry_index = dva_entry_index d ! level;
          (entries_index, c) =
            (case ptc_tables c level starting_interval of
               Some i \<Rightarrow> (i, c)
             | None \<Rightarrow> (length (ptc_entries c),
                        add_page (set_table level starting_interval (length (ptc_entries c)) c)));
          return_value = entries_index + unat entry_index in
      rbind (check (return_value < length (ptc_entries c)) ''return_value < entries_.size()'') (\<lambda>_.
      ret (return_value, c)))"

definition SetupPageDescriptor ::
    "page_arch \<Rightarrow> decoded_va \<Rightarrow> u64 \<Rightarrow> bool \<Rightarrow> bool \<Rightarrow> page_table_creator \<Rightarrow>
     (unit status_or \<times> page_table_creator) res" where
  "SetupPageDescriptor a d decoded_pa writeable executable c =
     rbind (GetPageTableEntryIndex d 3 c) (\<lambda>(entry_index, c).
     case CreatePageDescriptor a (ptc_entries c ! entry_index) decoded_pa writeable executable of
       Inl e \<Rightarrow> ret (Inl (Failed_to_map (dva_value d) e), c)
     | Inr new_entry \<Rightarrow> ret (Inr (), set_entry entry_index new_entry c))"

text \<open>\<open>page_tables_[level][start]\<close>: a key that is not there is inserted with 0.\<close>

definition table_at :: "nat \<Rightarrow> u64 \<Rightarrow> page_table_creator \<Rightarrow> nat \<times> page_table_creator" where
  "table_at level start c =
     (case ptc_tables c level start of Some i \<Rightarrow> (i, c) | None \<Rightarrow> (0, set_table level start 0 c))"

fun SetupTableDescriptor ::
    "page_arch \<Rightarrow> nat \<Rightarrow> decoded_va \<Rightarrow> bool \<Rightarrow> bool \<Rightarrow> page_table_creator \<Rightarrow> page_table_creator res" where
  "SetupTableDescriptor a level d writeable executable c =
     rbind (GetPageTableEntryIndex d level c) (\<lambda>(entry_index, c).
     let existing_entry = ptc_entries c ! entry_index;
         (next_table_entries_index, c) = table_at (level + 1) (dva_starting_interval d ! (level + 1)) c;
         next_table_pa = of_nat next_table_entries_index * 8 + ptc_addr c;
         modified_entry = UpdateTableDescriptor a existing_entry next_table_pa writeable executable in
     if existing_entry = modified_entry then ret c
     else let c = set_entry entry_index modified_entry c in
          if level > 0 then SetupTableDescriptor a (level - 1) d writeable executable c else ret c)"

declare SetupTableDescriptor.simps [simp del]

text \<open>One round of the loop over \<open>(byte_offset, this)\<close>.\<close>

definition map_page_round ::
    "page_arch \<Rightarrow> memory_mapping \<Rightarrow> u64 \<Rightarrow> u64 \<times> page_table_creator \<Rightarrow>
     (unit status_or \<times> page_table_creator, u64 \<times> page_table_creator) iter res" where
  "map_page_round a mapping physical_addr = (\<lambda>(byte_offset, c).
     let writeable = MemoryPerms_HasPermission (mm_perms mapping) kWritable;
         executable = MemoryPerms_HasPermission (mm_perms mapping) kExecutable in
     if \<not> byte_offset < mm_num_bytes mapping then ret (Break (Inr (), c))
     else rbind (DecodedVirtualAddress (mm_start mapping + byte_offset)) (\<lambda>decoded_va.
          let decoded_pa = physical_addr + byte_offset in
          rbind (SetupPageDescriptor a decoded_va decoded_pa writeable executable c) (\<lambda>(st, c).
          case st of
            Inl e \<Rightarrow> ret (Break (Inl e, c))
          | Inr _ \<Rightarrow> rbind (SetupTableDescriptor a 2 decoded_va writeable executable c) (\<lambda>c.
                     ret (Continue (byte_offset + kTranslationGranule, c))))))"

definition AddContiguousMapping ::
    "page_arch \<Rightarrow> memory_mapping \<Rightarrow> u64 \<Rightarrow> page_table_creator \<Rightarrow> (unit status_or \<times> page_table_creator) res" where
  "AddContiguousMapping a mapping physical_addr c =
     return_if_not_ok (CheckAlignmentAndSize (mm_start mapping) ''starting virtual_addr'') c (
     return_if_not_ok (CheckAlignmentAndSize physical_addr ''starting physical_addr'') c (
     return_if_not_ok (CheckAlignmentAndSize (mm_num_bytes mapping) ''size'') c (
     return_if_not_ok (CheckAlignmentAndSize
       (mm_start mapping + mm_num_bytes mapping - kTranslationGranule) ''ending virtual_addr'') c (
     return_if_not_ok (CheckAlignmentAndSize
       (physical_addr + mm_num_bytes mapping - kTranslationGranule) ''ending physical_addr'') c (
     rloop (map_page_round a mapping physical_addr) (0, c))))))"

section \<open>Translating an address\<close>

text \<open>
  \<open>mem\<close> gives the 64-bit word at a physical address. The pointer \<open>p + i\<close> is the address
  \<open>p + 8 * i\<close>.
\<close>

definition entry_addr :: "u64 \<Rightarrow> u64 \<Rightarrow> u64" where
  "entry_addr table i = table + 8 * i"

definition TranslateVirtualAddress ::
    "page_arch \<Rightarrow> (u64 \<Rightarrow> u64) \<Rightarrow> u64 \<Rightarrow> u64 \<Rightarrow> bool \<Rightarrow> bool \<Rightarrow> u64 status_or" where
  "TranslateVirtualAddress a mem page_table_addr va writeable executable =
     (let l0_entry_addr = entry_addr page_table_addr (get_field va_table_index_l0 va) in
      sor_bind (CheckTableDescriptor a (mem l0_entry_addr) writeable executable) (\<lambda>l1_table_addr.
      let next_table_pa = set_field pa_physical_address_msbs l1_table_addr 0;
          l1_entry_addr = entry_addr next_table_pa (get_field va_table_index_l1 va) in
      sor_bind (CheckTableDescriptor a (mem l1_entry_addr) writeable executable) (\<lambda>l2_table_addr.
      let next_table_pa = set_field pa_physical_address_msbs l2_table_addr next_table_pa;
          l2_entry_addr = entry_addr next_table_pa (get_field va_table_index_l2 va) in
      sor_bind (CheckTableDescriptor a (mem l2_entry_addr) writeable executable) (\<lambda>l3_table_addr.
      let next_table_pa = set_field pa_physical_address_msbs l3_table_addr next_table_pa;
          l3_entry_addr = entry_addr next_table_pa (get_field va_table_index_l3 va) in
      sor_bind (CheckPageDescriptor a (mem l3_entry_addr) writeable executable) (\<lambda>output_addr.
      let translated_pa = set_field pa_physical_address_lsbs (get_field va_physical_address_lsbs va) 0
      in Inr (set_field pa_physical_address_msbs output_addr translated_pa))))))"

end
