(* ===== verification/Page_Table_Facts.thy ===== *)
theory Page_Table_Facts
  imports Page_Table_Creator
begin

text \<open>
  Facts on the creator of page tables: what decoding an address gives, which entry an address reads
  at each level, and how the operations change these entries.
\<close>

section \<open>Intervals and indices\<close>

text \<open>
  \<open>interval v l\<close>: where the interval that a page of entries of level \<open>l\<close> covers starts, for the
  page \<open>v\<close> is looked up in; \<open>interval v 4\<close> is the virtual page itself.
\<close>

definition interval :: "u64 \<Rightarrow> nat \<Rightarrow> u64" where
  "interval v l = push_bit (48 - 9 * l) (drop_bit (48 - 9 * l) v)"

definition vindex :: "u64 \<Rightarrow> nat \<Rightarrow> u64" where
  "vindex v l = take_bit 9 (drop_bit (39 - 9 * l) v)"

lemma bit_interval: "bit (interval v l) n \<longleftrightarrow> 48 - 9 * l \<le> n \<and> bit v n"
  by (auto simp: interval_def bit_simps dest: bit_imp_le_length)

lemma bit_vindex: "bit (vindex v l) n \<longleftrightarrow> n < 9 \<and> bit v (39 - 9 * l + n)"
  by (auto simp: vindex_def bit_simps dest: bit_imp_le_length)

lemma levels: "(l::nat) \<le> 3 \<longleftrightarrow> l = 0 \<or> l = 1 \<or> l = 2 \<or> l = 3"
  by auto

lemma unat_vindex: "unat (vindex v l) < 512"
proof -
  have "unat (vindex v l) = take_bit 9 (unat (drop_bit (39 - 9 * l) v))"
    by (simp add: vindex_def unsigned_take_bit_eq)
  then show ?thesis by (simp add: take_bit_eq_mod)
qed

lemma interval_Suc:
  assumes "l \<le> 3"
  shows "interval u (Suc l) = interval v (Suc l) \<longleftrightarrow> interval u l = interval v l \<and> vindex u l = vindex v l"
proof
  assume *: "interval u (Suc l) = interval v (Suc l)"
  have b: "bit u n = bit v n" if "39 - 9 * l \<le> n" for n
    using arg_cong [OF *, of "\<lambda>x. bit x n"] that by (simp add: bit_interval)
  show "interval u l = interval v l \<and> vindex u l = vindex v l"
    using b by (auto intro!: bit_word_eqI simp: bit_interval bit_vindex)
next
  assume *: "interval u l = interval v l \<and> vindex u l = vindex v l"
  show "interval u (Suc l) = interval v (Suc l)"
  proof (rule bit_word_eqI)
    fix n assume "n < LENGTH(64)"
    have hi: "bit u n = bit v n" if "48 - 9 * l \<le> n"
      using arg_cong [OF conjunct1 [OF *], of "\<lambda>x. bit x n"] that by (simp add: bit_interval)
    have lo: "bit u n = bit v n" if "39 - 9 * l \<le> n" "n < 48 - 9 * l"
      using arg_cong [OF conjunct2 [OF *], of "\<lambda>x. bit x (n - (39 - 9 * l))"] that
        less_diff_conv2 [of "39 - 9 * l" n 9] assms by (simp add: bit_vindex)
    show "bit (interval u (Suc l)) n = bit (interval v (Suc l)) n"
      using hi lo by (cases "48 - 9 * l \<le> n") (auto simp: bit_interval)
  qed
qed

lemma interval_mono:
  assumes "interval u l = interval v l" "k \<le> l"
  shows "interval u k = interval v k"
proof (rule bit_word_eqI)
  fix n
  have "48 - 9 * l \<le> n \<Longrightarrow> bit u n = bit v n"
    using arg_cong [OF assms(1), of "\<lambda>x. bit x n"] by (simp only: bit_interval simp_thms)
  moreover have "48 - 9 * k \<le> n \<Longrightarrow> 48 - 9 * l \<le> n" using assms(2) by linarith
  ultimately show "bit (interval u k) n = bit (interval v k) n" by (auto simp add: bit_interval)
qed

definition fits48 :: "u64 \<Rightarrow> bool" where
  "fits48 v \<longleftrightarrow> drop_bit 48 v = 0"

lemma fits48_bit: "fits48 v \<longleftrightarrow> (\<forall>n. bit v n \<longrightarrow> n < 48)"
proof
  assume z: "fits48 v"
  show "\<forall>n. bit v n \<longrightarrow> n < 48"
  proof (intro allI impI)
    fix n assume "bit v n"
    then show "n < 48"
      using arg_cong [OF z [unfolded fits48_def], of "\<lambda>x. bit x (n - 48)"]
      by (cases "n < 48") (simp_all add: bit_simps)
  qed
next
  assume "\<forall>n. bit v n \<longrightarrow> n < 48"
  then show "fits48 v" unfolding fits48_def by (intro bit_word_eqI) (auto simp: bit_simps)
qed

lemma fits48_less: "fits48 v \<longleftrightarrow> unat v < 2 ^ 48"
proof -
  have "unat (drop_bit 48 v) = unat v div 2 ^ 48"
    by (simp add: unsigned_drop_bit_eq take_bit_nat_eq_self unat_u64_lt [simplified] drop_bit_eq_div unat_div)
  then show ?thesis by (simp add: fits48_def div_eq_0_iff flip: unat_eq_0)
qed

lemma interval_0: "fits48 v \<Longrightarrow> interval v 0 = 0"
  by (simp add: interval_def fits48_def)

section \<open>Decoding\<close>

lemmas va_defs = va_physical_address_lsbs_def va_table_index_l0_def va_table_index_l1_def
  va_table_index_l2_def va_table_index_l3_def BIT_STRUCT_FIELD_def

lemma va_index: 
  "get_field va_table_index_l0 v = vindex v 0" "get_field va_table_index_l1 v = vindex v 1"
  "get_field va_table_index_l2 v = vindex v 2" "get_field va_table_index_l3 v = vindex v 3"
  by (rule bit_word_eqI, auto simp: bit_get_field bit_vindex va_defs)+

lemma decoded_levels:
  "DecodedVirtualAddress v = ret \<lparr>dva_value = v,
     dva_starting_interval = map (interval v) [0..<4], dva_entry_index = map (vindex v) [0..<4]\<rparr>"
proof -
  let ?z = "\<lambda>v. set_field va_physical_address_lsbs 0 v"
  have up: "[0..<4] = [0,1,2,3::nat]" "[Suc 0..<4] = [1,2,3::nat]" "[2..<4] = [2,3::nat]" "[3..<4] = [3::nat]"
    by (simp_all add: upt_rec)
  have i3: "set_field va_table_index_l3 0 (?z v) = interval v 3"
    by (rule bit_word_eqI) (auto simp: bit_set_field bit_interval va_defs)
  have i2: "set_field va_table_index_l3 0 (set_field va_table_index_l2 0 (?z v)) = interval v 2"
    by (rule bit_word_eqI) (auto simp: bit_set_field bit_interval va_defs)
  have i1: "set_field va_table_index_l3 0 (set_field va_table_index_l2 0
      (set_field va_table_index_l1 0 (?z v))) = interval v 1"
    by (rule bit_word_eqI) (auto simp: bit_set_field bit_interval va_defs)
  have i0: "set_field va_table_index_l3 0 (set_field va_table_index_l2 0
      (set_field va_table_index_l1 0 (set_field va_table_index_l0 0 (?z v)))) = interval v 0"
    by (rule bit_word_eqI) (auto simp: bit_set_field bit_interval va_defs)
  show ?thesis
    by (simp add: DecodedVirtualAddress_def decode_level_def kNumLevels_def up table_index_l_def
        set_table_index_l_def va_index i0 i1 [simplified] i2 i3)
qed

definition dva :: "u64 \<Rightarrow> decoded_va" where
  "dva v = \<lparr>dva_value = v,
     dva_starting_interval = map (interval v) [0..<4], dva_entry_index = map (vindex v) [0..<4]\<rparr>"

lemma dva_simps [simp]:
  "dva_value (dva v) = v"
  "l \<le> 3 \<Longrightarrow> dva_starting_interval (dva v) ! l = interval v l"
  "l \<le> 3 \<Longrightarrow> dva_entry_index (dva v) ! l = vindex v l"
  by (simp_all add: dva_def)

lemma DecodedVirtualAddress_ret: "DecodedVirtualAddress v = ret (dva v)"
  by (simp only: decoded_levels dva_def)

section \<open>The entry an address reads\<close>

text \<open>Pages of entries are where the maps say, in the vector, apart from each other.\<close>

definition page_starts :: "u64 set" where
  "page_starts = {s. fits48 s \<and> 2 ^ 21 dvd unat s}"

definition used_pages :: "page_table_creator \<Rightarrow> (nat \<times> u64) set" where
  "used_pages c = {(l, s). ptc_tables c l s \<noteq> None}"

definition pages_ok :: "page_table_creator \<Rightarrow> bool" where
  "pages_ok c \<longleftrightarrow>
     used_pages c \<subseteq> {..3} \<times> page_starts \<and> length (ptc_entries c) = 512 * card (used_pages c) \<and>
     512 dvd length (ptc_entries c) \<and> ptc_tables c 0 0 = Some 0 \<and>
     (\<forall>l s i. ptc_tables c l s = Some i \<longrightarrow> 512 dvd i \<and> i + 512 \<le> length (ptc_entries c)) \<and>
     (\<forall>l s i k t. ptc_tables c l s = Some i \<longrightarrow> ptc_tables c k t = Some i \<longrightarrow> k = l \<and> t = s)"

text \<open>\<open>keeps_pages c c'\<close>: a later creator keeps the pages of an earlier one.\<close>

definition keeps_pages :: "page_table_creator \<Rightarrow> page_table_creator \<Rightarrow> bool" where
  "keeps_pages c c' \<longleftrightarrow> ptc_addr c' = ptc_addr c \<and>
     (\<forall>l s i. ptc_tables c l s = Some i \<longrightarrow> ptc_tables c' l s = Some i)"

definition ent :: "page_table_creator \<Rightarrow> nat \<Rightarrow> u64 \<Rightarrow> u64" where
  "ent c l v = (case ptc_tables c l (interval v l) of
     None \<Rightarrow> 0 | Some i \<Rightarrow> ptc_entries c ! (i + unat (vindex v l)))"

definition has_page :: "page_table_creator \<Rightarrow> nat \<Rightarrow> u64 \<Rightarrow> bool" where
  "has_page c l v \<longleftrightarrow> ptc_tables c l (interval v l) \<noteq> None"

definition page_addr :: "page_table_creator \<Rightarrow> nat \<Rightarrow> u64 \<Rightarrow> u64" where
  "page_addr c l v = of_nat (the (ptc_tables c l (interval v l))) * 8 + ptc_addr c"

lemma kEntriesPerPage_eq [simp]: "kEntriesPerPage = 512"
  by (simp add: kEntriesPerPage_def kTranslationGranule_def)

lemma keeps_pages_refl [simp]: "keeps_pages c c"
  by (simp add: keeps_pages_def)

lemma keeps_pages_trans: "keeps_pages c d \<Longrightarrow> keeps_pages d e \<Longrightarrow> keeps_pages c e"
  by (simp add: keeps_pages_def)

lemma keeps_pages_has_page: "keeps_pages c d \<Longrightarrow> has_page c l v \<Longrightarrow> has_page d l v"
  by (auto simp: keeps_pages_def has_page_def)

lemma keeps_pages_page_addr: "keeps_pages c d \<Longrightarrow> has_page c l v \<Longrightarrow> page_addr d l v = page_addr c l v"
  by (auto simp: keeps_pages_def has_page_def page_addr_def)

lemma has_page_0: "pages_ok c \<Longrightarrow> fits48 v \<Longrightarrow> has_page c 0 v"
  by (simp add: pages_ok_def has_page_def interval_0)

lemma ent_absent: "\<not> has_page c l v \<Longrightarrow> ent c l v = 0"
  by (simp add: ent_def has_page_def split: option.splits)

lemma pages_apart:
  assumes "pages_ok c" "ptc_tables c l s = Some i" "ptc_tables c k t = Some j" "(m::nat) < 512" "n < 512"
  shows "i + m = j + n \<longleftrightarrow> l = k \<and> s = t \<and> m = n"
proof
  assume eq: "i + m = j + n"
  have "512 dvd i" "512 dvd j" using assms(1-3) unfolding pages_ok_def by blast+
  then obtain p q where pq: "i = 512 * p" "j = 512 * q" by (elim dvdE)
  have "(512 * p + m) div 512 = (512 * q + n) div 512" using eq pq by simp
  then have "p = q" using assms(4,5) by simp
  then have "i = j" "m = n" using eq pq by simp_all
  then show "l = k \<and> s = t \<and> m = n"
    using assms(1-3) unfolding pages_ok_def by blast
next
  assume "l = k \<and> s = t \<and> m = n" then show "i + m = j + n" using assms(2,3) by simp
qed

lemma ptc_tables_set_entry [simp]: "ptc_tables (set_entry i e c) = ptc_tables c"
  by (simp add: set_entry_def)

lemma used_pages_set_entry [simp]: "used_pages (set_entry i e c) = used_pages c"
  by (simp add: used_pages_def set_entry_def)

lemma has_page_used: "has_page c l v \<longleftrightarrow> (l, interval v l) \<in> used_pages c"
  by (simp add: has_page_def used_pages_def)

lemma pages_ok_set_entry [simp]: "pages_ok (set_entry i e c) \<longleftrightarrow> pages_ok c"
  by (simp add: pages_ok_def used_pages_def set_entry_def)

lemma keeps_pages_set_entry [simp]: "keeps_pages c (set_entry i e d) \<longleftrightarrow> keeps_pages c d"
  by (simp add: keeps_pages_def set_entry_def)

lemma has_page_set_entry [simp]: "has_page (set_entry i e c) l v \<longleftrightarrow> has_page c l v"
  by (simp add: has_page_def set_entry_def)

lemma page_addr_set_entry [simp]: "page_addr (set_entry i e c) l v = page_addr c l v"
  by (simp add: page_addr_def set_entry_def)

lemma ent_set_entry:
  assumes "pages_ok c" "ptc_tables c l (interval v l) = Some i" "l \<le> 3" "k \<le> 3"
  shows "ent (set_entry (i + unat (vindex v l)) e c) k u =
    (if k = l \<and> interval u (Suc l) = interval v (Suc l) then e else ent c k u)"
proof (cases "ptc_tables c k (interval u k)")
  case None
  then have "\<not> (k = l \<and> interval u (Suc l) = interval v (Suc l))"
    using assms(2) interval_mono [of u "Suc l" v l] by auto
  then show ?thesis using None by (auto simp: ent_def set_entry_def)
next
  case (Some j)
  have "i + unat (vindex v l) < length (ptc_entries c)"
    using assms(1,2) unat_vindex [of v l] by (fastforce simp: pages_ok_def)
  moreover have "i + unat (vindex v l) = j + unat (vindex u k) \<longleftrightarrow>
      k = l \<and> interval u (Suc l) = interval v (Suc l)"
    using pages_apart [OF assms(1,2) Some unat_vindex [of v l] unat_vindex [of u k]] interval_Suc [OF assms(3), of u v]
    by (auto simp: word_unat_eq_iff)
  ultimately show ?thesis using Some by (auto simp: ent_def set_entry_def nth_list_update)
qed

section \<open>Finding the entry\<close>

lemma card_page_starts: "finite page_starts" "card page_starts \<le> 2 ^ 27"
proof -
  let ?f = "\<lambda>s :: u64. unat s div 2 ^ 21"
  have sub: "?f ` page_starts \<subseteq> {..<2 ^ 27}" by (auto simp: page_starts_def fits48_less)
  have inj: "inj_on ?f page_starts"
  proof (rule inj_onI)
    fix s t assume "s \<in> page_starts" "t \<in> page_starts" "?f s = ?f t"
    then have "unat s = unat t" unfolding page_starts_def by (metis dvd_mult_div_cancel mem_Collect_eq)
    then show "s = t" by (simp add: word_unat_eq_iff)
  qed
  show "finite page_starts" using finite_imageD [OF finite_subset [OF sub] inj] by simp
  show "card page_starts \<le> 2 ^ 27"
    using card_mono [OF _ sub] card_image [OF inj] by simp
qed

lemma finite_used_pages: "pages_ok c \<Longrightarrow> finite (used_pages c)"
  by (rule finite_subset [of _ "{..3} \<times> page_starts"]) (simp_all add: pages_ok_def card_page_starts)

text \<open>Pages of entries are at most as many as intervals: the table has at most 2 TiB.\<close>

lemma entries_bound: "pages_ok c \<Longrightarrow> 8 * length (ptc_entries c) \<le> 2 ^ 41"
proof -
  assume c: "pages_ok c"
  have "card (used_pages c) \<le> card ({..3::nat} \<times> page_starts)"
    using c card_page_starts(1) by (intro card_mono) (auto simp: pages_ok_def)
  also have "\<dots> \<le> 4 * 2 ^ 27"
    using card_page_starts(2) by (simp add: card_cartesian_product)
  finally show ?thesis using c by (simp add: pages_ok_def)
qed

lemma interval_page_starts: "fits48 v \<Longrightarrow> l \<le> 3 \<Longrightarrow> interval v l \<in> page_starts"
proof -
  assume v: "fits48 v" and l: "l \<le> 3"
  have "\<not> bit (interval v l) n" if "n < 21" for n
  proof -
    have "\<not> 48 - 9 * l \<le> n" using that l by linarith
    then show ?thesis by (simp add: bit_interval)
  qed
  then have "take_bit 21 (interval v l) = 0"
    by (intro bit_word_eqI) (auto simp: bit_take_bit_iff)
  then have "unat (take_bit 21 (interval v l)) = 0" by simp
  then have "unat (interval v l) mod 2 ^ 21 = 0" by (simp add: take_bit_eq_mod unat_mod)
  then show ?thesis using v by (auto simp: page_starts_def fits48_bit bit_interval)
qed

lemma pages_ok_add_page:
  assumes "pages_ok c" "ptc_tables c l s = None" "l \<le> 3" "s \<in> page_starts"
  shows "pages_ok (add_page (set_table l s (length (ptc_entries c)) c))"
proof -
  let ?n = "length (ptc_entries c)"
  have n: "512 dvd ?n" and z: "ptc_tables c 0 0 = Some 0"
    and b: "\<And>k t i. ptc_tables c k t = Some i \<Longrightarrow> 512 dvd i \<and> i + 512 \<le> ?n"
    and j: "\<And>k t i k' t'. ptc_tables c k t = Some i \<Longrightarrow> ptc_tables c k' t' = Some i \<Longrightarrow> k' = k \<and> t' = t"
    using assms(1) unfolding pages_ok_def by blast+
  have u: "used_pages c \<subseteq> {..3} \<times> page_starts" "?n = 512 * card (used_pages c)"
    using assms(1) unfolding pages_ok_def by blast+
  have fresh: "ptc_tables c k t \<noteq> Some ?n" for k t using b [of k t ?n] by auto
  have "\<not> (l = 0 \<and> s = 0)" using z assms(2) by auto
  let ?c = "add_page (set_table l s ?n c)"
  have t: "ptc_tables ?c k t = (if k = l \<and> t = s then Some ?n else ptc_tables c k t)" for k t
    by (simp add: add_page_def set_table_def)
  have len: "length (ptc_entries ?c) = ?n + 512"
    by (simp add: add_page_def set_table_def)
  have "512 dvd i \<and> i + 512 \<le> ?n + 512" if "ptc_tables ?c k t = Some i" for k t i
    using that n b [of k t i] by (auto simp: t split: if_splits)
  moreover have used: "used_pages ?c = insert (l, s) (used_pages c)"
    by (auto simp: used_pages_def t split: if_splits)
  moreover have "used_pages ?c \<subseteq> {..3} \<times> page_starts" unfolding used using u(1) assms(3,4) by auto
  moreover have "(l, s) \<notin> used_pages c" using assms(2) by (simp add: used_pages_def)
  then have "?n + 512 = 512 * card (used_pages ?c)"
    unfolding used using finite_used_pages [OF assms(1)] u(2) by simp
  moreover have "ptc_tables ?c 0 0 = Some 0" using z \<open>\<not> (l = 0 \<and> s = 0)\<close> by (auto simp: t)
  moreover have "512 dvd ?n + 512" using n by simp
  moreover have "k' = k \<and> t' = t" if "ptc_tables ?c k t = Some i" "ptc_tables ?c k' t' = Some i" for k t i k' t'
    using that j [of k t i k' t'] fresh by (auto simp: t split: if_splits)
  ultimately show ?thesis unfolding pages_ok_def len by blast
qed

lemma ent_add_page:
  assumes "pages_ok c" "ptc_tables c l s = None"
  shows "ent (add_page (set_table l s (length (ptc_entries c)) c)) k u = ent c k u"
proof (cases "ptc_tables c k (interval u k)")
  case None
  then show ?thesis using unat_vindex [of u k]
    by (auto simp: ent_def add_page_def set_table_def nth_append split: if_splits)
next
  case (Some j)
  have "j + unat (vindex u k) < length (ptc_entries c)"
    using assms(1) Some unat_vindex [of u k] by (fastforce simp: pages_ok_def)
  then show ?thesis using Some assms(2)
    by (auto simp: ent_def add_page_def set_table_def nth_append)
qed

lemma GetPageTableEntryIndex_ret:
  assumes "pages_ok c" "l \<le> 3" "fits48 v"
  obtains i c' where "GetPageTableEntryIndex (dva v) l c = ret (i + unat (vindex v l), c')"
    "ptc_tables c' l (interval v l) = Some i" "pages_ok c'" "keeps_pages c c'"
    "\<And>k u. ent c' k u = ent c k u" "used_pages c' = insert (l, interval v l) (used_pages c)"
    "ptc_entries c' ! (i + unat (vindex v l)) = ent c l v"
proof (cases "ptc_tables c l (interval v l)")
  case (Some i)
  have "i + unat (vindex v l) < length (ptc_entries c)"
    using assms(1) Some unat_vindex [of v l] by (fastforce simp: pages_ok_def)
  then show thesis
    using that [of i c] Some assms by (auto simp: GetPageTableEntryIndex_def ent_def used_pages_def)
next
  case None
  let ?c = "add_page (set_table l (interval v l) (length (ptc_entries c)) c)"
  have t: "ptc_tables ?c l (interval v l) = Some (length (ptc_entries c))"
    by (simp add: add_page_def set_table_def)
  show thesis
  proof (rule that)
    show "GetPageTableEntryIndex (dva v) l c = ret (length (ptc_entries c) + unat (vindex v l), ?c)"
      using None assms(2) unat_vindex [of v l]
      by (simp add: GetPageTableEntryIndex_def) (simp add: add_page_def set_table_def)
    show "keeps_pages c ?c" using None by (auto simp: keeps_pages_def add_page_def set_table_def)
    show "ptc_entries ?c ! (length (ptc_entries c) + unat (vindex v l)) = ent c l v"
      using ent_add_page [OF assms(1) None, of l v] t by (simp add: ent_def)
    show "used_pages ?c = insert (l, interval v l) (used_pages c)"
      by (auto simp: used_pages_def add_page_def set_table_def split: if_splits)
  qed (use t ent_add_page [OF assms(1) None] pages_ok_add_page [OF assms(1) None assms(2) interval_page_starts [OF assms(3,2)]] in simp_all)
qed

end
