(* ===== verification/Page_Table_Steps.thy ===== *)
theory Page_Table_Steps
  imports Page_Table_Facts
begin

text \<open>
  The steps of \<open>AddContiguousMapping\<close> on the entries that addresses read: setting up the page
  descriptor, then the table descriptors of the levels above it, up to the first that stays.
\<close>

section \<open>Setting up table descriptors\<close>

lemma ent_cong: "interval u (Suc l) = interval v (Suc l) \<Longrightarrow> l \<le> 3 \<Longrightarrow> ent c l u = ent c l v"
  using interval_Suc [of l u v] by (auto simp: ent_def split: option.split)

lemma page_cong: "interval u l = interval v l \<Longrightarrow> has_page c l u = has_page c l v \<and> page_addr c l u = page_addr c l v"
  by (simp add: has_page_def page_addr_def)

text \<open>Level \<open>l\<close> of the walk for \<open>v\<close>: the entry is empty or leads to the page of the next level.\<close>

definition level_ok :: "page_arch \<Rightarrow> page_table_creator \<Rightarrow> nat \<Rightarrow> u64 \<Rightarrow> bool" where
  "level_ok a c l v \<longleftrightarrow>
     table_entry (UpdateTableDescriptor a) (page_addr c (Suc l) v) (ent c l v) \<and>
     (ent c l v \<noteq> 0 \<longrightarrow> has_page c (Suc l) v)"

abbreviation table_passes :: "page_arch \<Rightarrow> page_table_creator \<Rightarrow> nat \<Rightarrow> u64 \<Rightarrow> bool \<Rightarrow> bool \<Rightarrow> bool" where
  "table_passes a c l v w x \<equiv> passes (CheckTableDescriptor a) (ent c l v) w x"

lemma level_ok_extends:
  assumes "keeps_pages c d" "ent d l v = ent c l v" "level_ok a c l v" shows "level_ok a d l v"
  using assms keeps_pages_has_page [OF assms(1), of "Suc l" v] keeps_pages_page_addr [OF assms(1), of "Suc l" v]
  by (cases "ent c l v = 0") (simp_all add: level_ok_def table_entry_def)

lemma table_at_has_page:
  "has_page c l v \<Longrightarrow> \<exists>i. table_at l (interval v l) c = (i, c) \<and> of_nat i * 8 + ptc_addr c = page_addr c l v"
  by (auto simp: has_page_def table_at_def page_addr_def)

definition table_chain :: "page_arch \<Rightarrow> page_table_creator \<Rightarrow> nat \<Rightarrow> u64 \<Rightarrow> bool" where
  "table_chain a c level v \<longleftrightarrow>
     (\<forall>l<level. \<forall>w x. table_passes a c (Suc l) v w x \<longrightarrow> table_passes a c l v w x)"

lemma table_chain_up:
  assumes "table_chain a c level v" "table_passes a c level v w x" "l \<le> level"
  shows "table_passes a c l v w x"
  using assms(3)
proof (induction rule: inc_induct)
  case (step n) then show ?case using assms(1) by (auto simp: table_chain_def)
qed (rule assms(2))

text \<open>
  What \<open>SetupTableDescriptor\<close> leaves: every level up to its own, the ones below \<open>n\<close>, is updated for
  the address.
\<close>

definition path :: "u64 \<Rightarrow> nat \<Rightarrow> (nat \<times> u64) set" where
  "path v n = (\<lambda>l. (l, interval v l)) ` {..<n}"

lemma path_Suc: "path v (Suc n) = insert (n, interval v n) (path v n)"
  by (simp add: path_def lessThan_Suc)

lemma path_0 [simp]: "path v 0 = {}"
  by (simp add: path_def)

definition table_levels_set ::
    "page_arch \<Rightarrow> nat \<Rightarrow> u64 \<Rightarrow> bool \<Rightarrow> bool \<Rightarrow> page_table_creator \<Rightarrow> page_table_creator \<Rightarrow> bool" where
  "table_levels_set a n v w x c c' \<longleftrightarrow>
     pages_ok c' \<and> keeps_pages c c' \<and> (\<forall>l<n. has_page c' l v) \<and>
     used_pages c' = used_pages c \<union> path v n \<and>
     (\<forall>l\<le>3. \<forall>u. ent c' l u =
       (if l < n \<and> interval u (Suc l) = interval v (Suc l)
        then UpdateTableDescriptor a (ent c l v) (page_addr c' (Suc l) v) w x else ent c l u))"

lemma table_levels_setD:
  assumes "table_levels_set a n v w x c c'"
  shows "pages_ok c'" "keeps_pages c c'" "l < n \<Longrightarrow> has_page c' l v"
    "l \<le> 3 \<Longrightarrow> ent c' l u =
       (if l < n \<and> interval u (Suc l) = interval v (Suc l)
        then UpdateTableDescriptor a (ent c l v) (page_addr c' (Suc l) v) w x else ent c l u)"
    "used_pages c' = used_pages c \<union> path v n"
  using assms unfolding table_levels_set_def by blast+

lemma levels_unchanged:
  assumes ok: "\<And>l. l \<le> level \<Longrightarrow> level_ok a c l v" and level: "level \<le> 2"
    and chain: "table_chain a c level v" and pass: "table_passes a c level v w x"
    and c': "pages_ok c'" "keeps_pages c c'" "\<And>l u. ent c' l u = ent c l u" "has_page c' level v"
      "used_pages c' = insert (level, interval v level) (used_pages c)"
  shows "table_levels_set a (Suc level) v w x c c'"
  unfolding table_levels_set_def
proof (intro conjI allI impI)
  have "has_page c l v" if "l < level" for l
  proof -
    have "table_passes a c l v w x" using that by (intro table_chain_up [OF chain pass]) simp
    then show ?thesis using ent_absent [of c l v] by (cases "has_page c l v") auto
  qed
  then have "path v level \<subseteq> used_pages c" by (auto simp: path_def has_page_used)
  then show "used_pages c' = used_pages c \<union> path v (Suc level)" by (auto simp: path_Suc c'(5))
next
  fix l assume "l < Suc level"
  then have "table_passes a c l v w x" by (intro table_chain_up [OF chain pass]) simp
  then have nz: "ent c l v \<noteq> 0" by auto
  then show "has_page c' l v" using ent_absent [of c l v] keeps_pages_has_page [OF c'(2), of l v] by auto
next
  fix l :: nat and u assume l: "l \<le> 3"
  show "ent c' l u = (if l < Suc level \<and> interval u (Suc l) = interval v (Suc l)
        then UpdateTableDescriptor a (ent c l v) (page_addr c' (Suc l) v) w x else ent c l u)"
  proof (cases "l < Suc level \<and> interval u (Suc l) = interval v (Suc l)")
    case True
    have p: "table_passes a c l v w x" using True by (intro table_chain_up [OF chain pass]) simp
    have "level_ok a c' l v" using level_ok_extends [OF c'(2) c'(3)] ok [of l] True by simp
    then have "UpdateTableDescriptor a (ent c l v) (page_addr c' (Suc l) v) w x = ent c l v"
      using entries.update_same p by (simp add: level_ok_def c'(3))
    then show ?thesis using True c'(3) ent_cong [of u l v c] l by simp
  next
    case False
    then show ?thesis by (subst if_not_P) (simp_all only: c'(3) not_False_eq_True)
  qed
qed (use c' in simp_all)

text \<open>One level is changed, then the ones above it.\<close>

lemma levels_changed:
  assumes c1: "pages_ok c1" "keeps_pages c c1" "\<And>k u. ent c1 k u = ent c k u"
      "used_pages c1 = insert (level, interval v level) (used_pages c)"
    and i: "ptc_tables c1 level (interval v level) = Some i" and level: "level \<le> 2"
    and p: "has_page c1 (Suc level) v"
    and m: "m = UpdateTableDescriptor a (ent c level v) (page_addr c1 (Suc level) v) w x"
    and set: "table_levels_set a level v w x (set_entry (i + unat (vindex v level)) m c1) c'"
  shows "table_levels_set a (Suc level) v w x c c'"
  unfolding table_levels_set_def
proof (intro conjI allI impI)
  let ?c = "set_entry (i + unat (vindex v level)) m c1"
  note D = table_levels_setD [OF set]
  show "pages_ok c'" by (rule D)
  show "keeps_pages c c'" using keeps_pages_trans [OF _ D(2), of c] c1(2) by simp
  show "used_pages c' = used_pages c \<union> path v (Suc level)" using D(5) c1(4) by (simp add: path_Suc)
  fix l assume "l < Suc level"
  then show "has_page c' l v"
    using D(3) keeps_pages_has_page [OF D(2), of level v] i by (auto simp: has_page_def less_Suc_eq)
next
  let ?c = "set_entry (i + unat (vindex v level)) m c1"
  note D = table_levels_setD [OF set]
  fix l :: nat and u assume l: "l \<le> 3"
  have ec: "ent ?c l u = (if l = level \<and> interval u (Suc l) = interval v (Suc l) then m else ent c l u)" for u
    using ent_set_entry [OF c1(1) i _ l] level c1(3) by auto
  have "page_addr c' (Suc level) v = page_addr c1 (Suc level) v"
    using keeps_pages_page_addr [OF D(2), of "Suc level" v] p by simp
  then show "ent c' l u = (if l < Suc level \<and> interval u (Suc l) = interval v (Suc l)
      then UpdateTableDescriptor a (ent c l v) (page_addr c' (Suc l) v) w x else ent c l u)"
    using D(4) [OF l, of u] ec m by (auto simp: less_Suc_eq)
qed

lemma SetupTableDescriptor_ret:
  assumes "pages_ok c" "\<And>l. l \<le> level \<Longrightarrow> level_ok a c l v" "level \<le> 2"
    "table_chain a c level v" "has_page c (Suc level) v" "fits48 v"
  obtains c' where "SetupTableDescriptor a level (dva v) w x c = ret c'"
    "table_levels_set a (Suc level) v w x c c'"
  using assms
proof (induction level arbitrary: c thesis rule: less_induct)
  case (less level c)
  note ok = \<open>\<And>l. l \<le> level \<Longrightarrow> level_ok a c l v\<close>
  obtain i c1 where get: "GetPageTableEntryIndex (dva v) level c = ret (i + unat (vindex v level), c1)"
    and i: "ptc_tables c1 level (interval v level) = Some i" and c1: "pages_ok c1" "keeps_pages c c1"
    "\<And>k u. ent c1 k u = ent c k u" "used_pages c1 = insert (level, interval v level) (used_pages c)"
    and e: "ptc_entries c1 ! (i + unat (vindex v level)) = ent c level v"
    using GetPageTableEntryIndex_ret [OF \<open>pages_ok c\<close>, of level v] \<open>level \<le> 2\<close> \<open>fits48 v\<close> by auto
  have p1: "has_page c1 (Suc level) v" using keeps_pages_has_page [OF c1(2)] less.prems by simp
  obtain j where j: "table_at (Suc level) (interval v (Suc level)) c1 = (j, c1)"
    "of_nat j * 8 + ptc_addr c1 = page_addr c1 (Suc level) v" using table_at_has_page [OF p1] by auto
  define m where "m = UpdateTableDescriptor a (ent c level v) (page_addr c1 (Suc level) v) w x"
  have si: "dva_starting_interval (dva v) ! Suc level = interval v (Suc level)"
    using \<open>level \<le> 2\<close> by simp
  let ?c = "set_entry (i + unat (vindex v level)) m c1"
  have step: "SetupTableDescriptor a level (dva v) w x c =
      (if ent c level v = m then ret c1
       else if level > 0 then SetupTableDescriptor a (level - 1) (dva v) w x ?c else ret ?c)"
    by (subst SetupTableDescriptor.simps) (simp add: get e si j Let_def flip: m_def)
  show ?case
  proof (cases "ent c level v = m")
    case True
    have "UpdateTableDescriptor a (ent c level v) (page_addr c1 (Suc level) v) w x = ent c level v"
      using True m_def by argo
    moreover have "level_ok a c1 level v" using level_ok_extends [OF c1(2) c1(3)] ok by simp
    ultimately have "table_passes a c level v w x"
      using entries.update_same [of a "page_addr c1 (Suc level) v" "ent c level v" w x]
      by (simp add: level_ok_def c1(3))
    then have "table_levels_set a (Suc level) v w x c c1"
      using levels_unchanged [of level a c v w x c1] less.prems c1 i by (simp add: has_page_def)
    moreover have "SetupTableDescriptor a level (dva v) w x c = ret c1"
      using True step by simp
    ultimately show thesis using less.prems(1) by blast
  next
    case False
    have ext: "keeps_pages c ?c" using c1 by simp
    have ec: "ent ?c l v = (if l = level then m else ent c l v)" if "l \<le> level" for l
      using ent_set_entry [OF c1(1) i, of l m v] c1(3) that \<open>level \<le> 2\<close> by auto
    have "\<exists>c'. (if level > 0 then SetupTableDescriptor a (level - 1) (dva v) w x ?c else ret ?c) = ret c' \<and>
        table_levels_set a level v w x ?c c'"
    proof (cases "level > 0")
      case True
      obtain c' where "SetupTableDescriptor a (level - 1) (dva v) w x ?c = ret c'"
        "table_levels_set a (Suc (level - 1)) v w x ?c c'"
      proof (rule less.IH [of "level - 1" ?c])
        show "level_ok a ?c l v" if "l \<le> level - 1" for l
        proof -
          have "l \<le> level" "l \<noteq> level" using that True by auto
          then show ?thesis using level_ok_extends [OF ext, of l v] ok [of l] ec [of l] by simp
        qed
        show "table_chain a ?c (level - 1) v"
          using \<open>table_chain a c level v\<close> True by (auto simp: table_chain_def ec)
      qed (use True c1 i less.prems in \<open>auto simp: has_page_def\<close>)
      then show ?thesis using True by auto
    qed (use c1 in \<open>auto simp: table_levels_set_def\<close>)
    then obtain c' where c': "(if level > 0 then SetupTableDescriptor a (level - 1) (dva v) w x ?c else ret ?c) = ret c'"
      "table_levels_set a level v w x ?c c'" by blast
    have "table_levels_set a (Suc level) v w x c c'"
      using levels_changed [OF c1 i _ p1 m_def c'(2)] less.prems by simp
    moreover have "SetupTableDescriptor a level (dva v) w x c = ret c'"
      using False c'(1) step by simp
    ultimately show thesis using less.prems(1) by blast
  qed
qed

end
