(* ===== verification/Page_Table_Map.thy ===== *)
theory Page_Table_Map
  imports Page_Table_Steps
begin

text \<open>
  The invariant of a creator, the partial map of virtual pages it stands for, and the refinement:
  mapping one page updates that map or reports the mapping that is in the way.
\<close>

section \<open>The invariant\<close>

abbreviation page_passes :: "page_arch \<Rightarrow> page_table_creator \<Rightarrow> u64 \<Rightarrow> bool \<Rightarrow> bool \<Rightarrow> bool" where
  "page_passes a c v w x \<equiv> passes (CheckPageDescriptor a) (ent c 3 v) w x"

text \<open>
  For every 48-bit address, each level leads to the page of the next one or nowhere, and lets
  through whatever the level below lets through.
\<close>

definition walk_ok :: "page_arch \<Rightarrow> page_table_creator \<Rightarrow> u64 \<Rightarrow> bool" where
  "walk_ok a c v \<longleftrightarrow> (\<forall>l\<le>2. level_ok a c l v) \<and> page_entry (CreatePageDescriptor a) (ent c 3 v) \<and>
     table_chain a c 2 v \<and> (\<forall>w x. page_passes a c v w x \<longrightarrow> table_passes a c 2 v w x)"

definition creator_ok :: "page_arch \<Rightarrow> page_table_creator \<Rightarrow> bool" where
  "creator_ok a c \<longleftrightarrow> pages_ok c \<and> (\<forall>v. fits48 v \<longrightarrow> walk_ok a c v)"

text \<open>The abstract map: the physical page and the permissions of a virtual page.\<close>

definition mapped_page :: "page_arch \<Rightarrow> page_table_creator \<Rightarrow> u64 \<Rightarrow> (u64 \<times> bool \<times> bool) option" where
  "mapped_page a c v =
     (case CheckPageDescriptor a (ent c 3 v) False False of
        Inl _ \<Rightarrow> None
      | Inr m \<Rightarrow> Some (m, page_passes a c v True False, page_passes a c v False True))"

lemma mapped_page_created:
  "CreatePageDescriptor a 0 pa w x = Inr (ent c 3 v) \<Longrightarrow> mapped_page a c v = Some (msbs pa, w, x)"
  using entries.check_created [of a pa w x "ent c 3 v" False False "msbs pa"]
  by (auto simp: mapped_page_def entries.passes_created grants_def)

lemma mapped_page_empty: "ent c 3 v = 0 \<Longrightarrow> mapped_page a c v = None"
  using entries.check_page_empty [of a False False] by (auto simp: mapped_page_def split: sum.splits)

lemma mapped_page_cases:
  assumes "page_entry (CreatePageDescriptor a) (ent c 3 v)"
  obtains "ent c 3 v = 0" "mapped_page a c v = None"
  | pa w x where "CreatePageDescriptor a 0 pa w x = Inr (ent c 3 v)" "mapped_page a c v = Some (msbs pa, w, x)"
proof (cases "ent c 3 v = 0")
  case True then show thesis using that(1) mapped_page_empty [of c v a] by simp
next
  case False
  then obtain pa w x where e: "CreatePageDescriptor a 0 pa w x = Inr (ent c 3 v)"
    using assms by (auto simp: page_entry_def)
  show thesis by (rule that(2) [OF e mapped_page_created [OF e]])
qed

lemma mapped_page_ent: "ent c' 3 u = ent c 3 v \<Longrightarrow> mapped_page a c' u = mapped_page a c v"
  by (simp add: mapped_page_def cong: sum.case_cong)

lemma walk_ok_ent:
  assumes "keeps_pages c c'" "\<And>l. l \<le> 3 \<Longrightarrow> ent c' l v = ent c l v" "walk_ok a c v"
  shows "walk_ok a c' v"
  using assms(2,3) level_ok_extends [OF assms(1)] by (auto simp: walk_ok_def table_chain_def)

section \<open>Setting up the page descriptor\<close>

text \<open>\<open>mappable a c v pa w x\<close>: the page of \<open>v\<close> is free, or mapped to \<open>pa\<close> with these permissions.\<close>

definition mappable :: "page_arch \<Rightarrow> page_table_creator \<Rightarrow> u64 \<Rightarrow> u64 \<Rightarrow> bool \<Rightarrow> bool \<Rightarrow> bool" where
  "mappable a c v pa w x \<longleftrightarrow> mapped_page a c v \<in> {None, Some (msbs pa, w, x)}"

lemma CreatePageDescriptor_cases:
  assumes "page_entry (CreatePageDescriptor a) (ent c 3 v)"
  shows "if mappable a c v pa w x
     then CreatePageDescriptor a (ent c 3 v) pa w x = CreatePageDescriptor a 0 pa w x
     else \<exists>m W X. mapped_page a c v = Some (m, W, X) \<and>
       CreatePageDescriptor a (ent c 3 v) pa w x = Inl (Already_exists (set_field pa_physical_address_msbs m 0))"
  using assms
proof (cases rule: mapped_page_cases)
  case (2 pa' w' x')
  show ?thesis
  proof (cases "msbs pa = msbs pa' \<and> w = w' \<and> x = x'")
    case True
    then have "CreatePageDescriptor a 0 pa w x = Inr (ent c 3 v)"
      by (subst entries.created_inject [OF 2(1)])
    moreover have "CreatePageDescriptor a (ent c 3 v) pa w x = Inr (ent c 3 v)"
      using entries.create_kept [OF 2(1), of pa] True by simp
    moreover have "mappable a c v pa w x" using True 2(2) by (simp add: mappable_def)
    ultimately show ?thesis by simp
  next
    case False
    then have "\<not> mappable a c v pa w x" using 2(2) by (auto simp: mappable_def)
    then show ?thesis using 2(2) entries.create_conflict [OF 2(1) False] by simp
  qed
qed (simp add: mappable_def)

text \<open>The page is mapped: the creator afterwards, level by level.\<close>

definition page_set :: "page_arch \<Rightarrow> u64 \<Rightarrow> u64 \<Rightarrow> bool \<Rightarrow> bool \<Rightarrow> page_table_creator \<Rightarrow> page_table_creator \<Rightarrow> bool" where
  "page_set a v pa w x c c' \<longleftrightarrow>
     pages_ok c' \<and> keeps_pages c c' \<and> (\<forall>l\<le>3. has_page c' l v) \<and>
     used_pages c' = used_pages c \<union> path v 4 \<and>
     (\<forall>l\<le>2. \<forall>u. ent c' l u =
       (if interval u (Suc l) = interval v (Suc l)
        then UpdateTableDescriptor a (ent c l v) (page_addr c' (Suc l) v) w x else ent c l u)) \<and>
     (\<exists>e. CreatePageDescriptor a 0 pa w x = Inr e \<and>
       (\<forall>u. ent c' 3 u = (if interval u 4 = interval v 4 then e else ent c 3 u)))"

lemma page_set_walk_ok:
  assumes set: "page_set a v pa w x c c'" and v: "walk_ok a c v" and u: "walk_ok a c u"
  shows "walk_ok a c' u"
proof -
  have ext: "keeps_pages c c'" and pages: "\<And>l. l \<le> 3 \<Longrightarrow> has_page c' l v"
    and ent: "\<And>l u. l \<le> 2 \<Longrightarrow> ent c' l u = (if interval u (Suc l) = interval v (Suc l)
        then UpdateTableDescriptor a (ent c l v) (page_addr c' (Suc l) v) w x else ent c l u)"
    using set unfolding page_set_def by blast+
  obtain e where e: "CreatePageDescriptor a 0 pa w x = Inr e"
    "\<And>u. ent c' 3 u = (if interval u 4 = interval v 4 then e else ent c 3 u)"
    using set unfolding page_set_def by blast
  have te: "table_entry (UpdateTableDescriptor a) (page_addr c' (Suc l) v) (ent c l v)" if "l \<le> 2" for l
    using v that keeps_pages_page_addr [OF ext, of "Suc l" v]
    by (cases "ent c l v = 0") (auto simp: walk_ok_def level_ok_def table_entry_def)
  have same: "ent c l u = ent c l v" if "interval u (Suc l) = interval v (Suc l)" "l \<le> 3" for l
    using ent_cong that .
  have level: "level_ok a c' l u" if l: "l \<le> 2" for l
  proof (cases "interval u (Suc l) = interval v (Suc l)")
    case True
    then show ?thesis
      using entries.update_table_entry [OF te [OF l]] pages [of "Suc l"] page_cong [OF True, of c'] ent l
      by (simp add: level_ok_def)
  next
    case False
    then show ?thesis using level_ok_extends [OF ext, of l u a] ent u l by (simp add: walk_ok_def)
  qed
  have keep: "table_passes a c l u w' x' \<Longrightarrow> table_passes a c' l u w' x'" if "l \<le> 2" for l w' x'
    using entries.update_keeps [OF te [OF that]] same [of l] that by (auto simp: ent)
  have chain: "table_passes a c' l u w' x'" if l: "l < 2" and p: "table_passes a c' (Suc l) u w' x'" for l w' x'
  proof (cases "interval u (Suc (Suc l)) = interval v (Suc (Suc l))")
    case True
    then have "interval u (Suc l) = interval v (Suc l)" by (rule interval_mono) simp
    moreover have "table_passes a c (Suc l) v w' x' \<Longrightarrow> table_passes a c l v w' x'" for w' x'
      using v l by (simp add: walk_ok_def table_chain_def)
    ultimately show ?thesis
      using entries.update_mono [OF te [of "Suc l"] te [of l], of w x w' x'] p l True by (simp add: ent)
  next
    case False
    then have "table_passes a c (Suc l) u w' x'" using p l ent [of "Suc l" u] by simp
    then have "table_passes a c l u w' x'" using u l by (simp add: walk_ok_def table_chain_def)
    then show ?thesis using keep l by simp
  qed
  have page: "table_passes a c' 2 u w' x'" if p: "page_passes a c' u w' x'" for w' x'
  proof (cases "interval u 4 = interval v 4")
    case True
    then have "interval u (Suc 2) = interval v (Suc 2)" by (rule interval_mono) simp
    moreover have "grants w x w' x'" using p True e entries.passes_created [OF e(1)] by simp
    ultimately show ?thesis using entries.update_passes [OF te [of 2], of w x w' x'] ent [of 2 u] by simp
  next
    case False
    then have "table_passes a c 2 u w' x'" using p u e by (simp add: walk_ok_def)
    then show ?thesis using keep by simp
  qed
  have "page_entry (CreatePageDescriptor a) (ent c' 3 u)"
    using u e by (auto simp: page_entry_def walk_ok_def)
  then show ?thesis
    unfolding walk_ok_def table_chain_def using level chain page by blast
qed

lemma page_set_creator_ok:
  "page_set a v pa w x c c' \<Longrightarrow> creator_ok a c \<Longrightarrow> fits48 v \<Longrightarrow> creator_ok a c'"
  using page_set_walk_ok [of a v pa w x c c'] by (auto simp: creator_ok_def page_set_def)

lemma page_set_mapped:
  assumes "page_set a v pa w x c c'"
  shows "mapped_page a c' u = (if interval u 4 = interval v 4 then Some (msbs pa, w, x) else mapped_page a c u)"
proof -
  obtain e where e: "CreatePageDescriptor a 0 pa w x = Inr e"
    "\<And>u. ent c' 3 u = (if interval u 4 = interval v 4 then e else ent c 3 u)"
    using assms unfolding page_set_def by blast
  then show ?thesis
    using mapped_page_created [of a pa w x c' u] mapped_page_ent [of c' u c u a] by simp
qed

section \<open>Mapping one page\<close>

lemma SetupPageDescriptor_conflict:
  assumes "creator_ok a c" "fits48 v" "\<not> mappable a c v pa w x"
  obtains m W X c' where "mapped_page a c v = Some (m, W, X)"
    "SetupPageDescriptor a (dva v) pa w x c =
       ret (Inl (Failed_to_map v (Already_exists (set_field pa_physical_address_msbs m 0))), c')"
    "creator_ok a c'" "keeps_pages c c'" "\<And>u. mapped_page a c' u = mapped_page a c u"
proof -
  have ok: "pages_ok c" "page_entry (CreatePageDescriptor a) (ent c 3 v)"
    using assms(1,2) by (auto simp: creator_ok_def walk_ok_def)
  obtain i c1 where get: "GetPageTableEntryIndex (dva v) 3 c = ret (i + unat (vindex v 3), c1)"
    and c1: "pages_ok c1" "keeps_pages c c1" "\<And>k u. ent c1 k u = ent c k u"
    and "used_pages c1 = insert (3, interval v 3) (used_pages c)"
    and e: "ptc_entries c1 ! (i + unat (vindex v 3)) = ent c 3 v"
    by (rule GetPageTableEntryIndex_ret [OF ok(1) _ assms(2), of 3]) simp_all
  obtain m W X where m: "mapped_page a c v = Some (m, W, X)"
    "CreatePageDescriptor a (ent c 3 v) pa w x = Inl (Already_exists (set_field pa_physical_address_msbs m 0))"
    using CreatePageDescriptor_cases [OF ok(2), of pa w x] assms(3) by auto
  have "creator_ok a c1"
    using assms(1) c1 walk_ok_ent [OF c1(2) c1(3)] by (simp add: creator_ok_def)
  then show thesis
    using that [of m W X c1] m c1 mapped_page_ent [of c1 _ c _ a]
    by (simp add: SetupPageDescriptor_def get e)
qed

lemma map_page_ret:
  assumes c: "creator_ok a c" and v: "fits48 v" and m: "mappable a c v pa w x"
  obtains c1 c' where "SetupPageDescriptor a (dva v) pa w x c = ret (Inr (), c1)"
    "SetupTableDescriptor a 2 (dva v) w x c1 = ret c'" "page_set a v pa w x c c'"
proof -
  have ok: "pages_ok c" "walk_ok a c v" "page_entry (CreatePageDescriptor a) (ent c 3 v)"
    using c v by (auto simp: creator_ok_def walk_ok_def)
  obtain i c1 where get: "GetPageTableEntryIndex (dva v) 3 c = ret (i + unat (vindex v 3), c1)"
    and i: "ptc_tables c1 3 (interval v 3) = Some i"
    and c1: "pages_ok c1" "keeps_pages c c1" "\<And>k u. ent c1 k u = ent c k u"
    and used: "used_pages c1 = insert (3, interval v 3) (used_pages c)"
    and ei: "ptc_entries c1 ! (i + unat (vindex v 3)) = ent c 3 v"
    by (rule GetPageTableEntryIndex_ret [OF ok(1) _ v, of 3]) simp_all
  obtain e where e: "CreatePageDescriptor a 0 pa w x = Inr e" using entries.create_empty by blast
  have ce: "CreatePageDescriptor a (ent c 3 v) pa w x = Inr e"
    using CreatePageDescriptor_cases [OF ok(3), of pa w x] m e by simp
  let ?c = "set_entry (i + unat (vindex v 3)) e c1"
  have ent: "ent ?c l u = (if l = 3 \<and> interval u 4 = interval v 4 then e else ent c l u)" if "l \<le> 3" for l u
    using ent_set_entry [OF c1(1) i _ that] c1(3) by (simp add: numeral_eq_Suc)
  have ext: "keeps_pages c ?c" using c1 by simp
  have page: "has_page ?c 3 v" using i by (simp add: has_page_def)
  obtain c' where c': "SetupTableDescriptor a 2 (dva v) w x ?c = ret c'"
    "table_levels_set a (Suc 2) v w x ?c c'"
  proof (rule SetupTableDescriptor_ret [of ?c 2 a v w x])
    show "level_ok a ?c l v" if "l \<le> 2" for l
      using level_ok_extends [OF ext, of l v a] ok(2) that by (simp add: ent walk_ok_def)
    show "table_chain a ?c 2 v" using ok(2) by (simp add: walk_ok_def table_chain_def ent)
  qed (use c1 page v in \<open>simp_all add: numeral_3_eq_3\<close>)
  note D = table_levels_setD [OF c'(2)]
  have "page_set a v pa w x c c'"
    unfolding page_set_def
  proof (intro conjI allI impI exI [of _ e])
    show "keeps_pages c c'" using keeps_pages_trans [OF ext D(2)] .
    have "path v 4 = insert (3, interval v 3) (path v (Suc 2))"
      using path_Suc [of v 3] by (simp add: numeral_eq_Suc)
    then show "used_pages c' = used_pages c \<union> path v 4" using D(5) used by simp
    fix l :: nat assume "l \<le> 3"
    then show "has_page c' l v"
      using D(3) [of l] keeps_pages_has_page [OF D(2) page] by (cases "l = 3") auto
  next
    fix l :: nat and u assume "l \<le> 2"
    then show "ent c' l u = (if interval u (Suc l) = interval v (Suc l)
        then UpdateTableDescriptor a (ent c l v) (page_addr c' (Suc l) v) w x else ent c l u)"
      using D(4) [of l u] by (simp add: ent)
  next
    fix u show "ent c' 3 u = (if interval u 4 = interval v 4 then e else ent c 3 u)"
      using D(4) [of 3 u] by (simp add: ent)
  qed (use D e in auto)
  moreover have "SetupPageDescriptor a (dva v) pa w x c = ret (Inr (), ?c)"
    by (simp add: SetupPageDescriptor_def get ei ce)
  ultimately show thesis using that c' by blast
qed

end
