(* ===== verification/Page_Table_Spec.thy ===== *)
theory Page_Table_Spec
  imports Page_Table_Map
begin

text \<open>
  What \<open>AddContiguousMapping\<close> does to the map of virtual pages, and that the walk over the
  entries, wherever they are loaded, computes that map.
\<close>

section \<open>Pages as aligned addresses\<close>

definition granule_aligned :: "u64 \<Rightarrow> bool" where
  "granule_aligned s \<longleftrightarrow> take_bit 12 s = 0"

lemma granule_aligned_bit: "granule_aligned s \<longleftrightarrow> (\<forall>n<12. \<not> bit s n)"
  unfolding granule_aligned_def
  by (auto simp: bit_eq_iff [where 'a = u64] bit_take_bit_iff intro!: bit_eqI)

lemma granule_aligned_mod: "granule_aligned s \<longleftrightarrow> s mod kTranslationGranule = 0"
  by (simp add: granule_aligned_def kTranslationGranule_def take_bit_eq_mod)

lemma granule_aligned_dvd: "granule_aligned s \<longleftrightarrow> 4096 dvd unat s"
proof -
  have "unat (take_bit 12 s) = unat s mod 4096"
    by (simp add: take_bit_eq_mod unat_mod)
  then show ?thesis by (simp add: granule_aligned_def dvd_eq_mod_eq_0 flip: unat_eq_0)
qed

lemma CheckAlignmentAndSize_iff: "CheckAlignmentAndSize v d = Inr () \<longleftrightarrow> fits48 v \<and> granule_aligned v"
  by (simp add: CheckAlignmentAndSize_def fits48_def kAddressWidthBits_def granule_aligned_mod)

text \<open>An aligned address and an offset below the granule: the bits do not meet.\<close>

lemma bit_page_offset:
  assumes "granule_aligned s" "d < 4096"
  shows "bit (s + d) n \<longleftrightarrow> (if n < 12 then bit d n else bit s n)"
proof -
  have d: "\<not> bit d k" if "12 \<le> k" for k
  proof -
    have "unat d < 2 ^ 12" using assms(2) by (simp add: word_less_nat_alt)
    then have "take_bit 12 (unat d) = unat d" by (simp add: take_bit_nat_eq_self_iff)
    then have "\<not> bit (unat d) k" using that by (metis bit_take_bit_iff not_less)
    then show ?thesis by (simp add: bit_unsigned_iff)
  qed
  have "s + d = s OR d"
  proof (rule disjunctive_add)
    fix k show "\<not> bit s k \<or> \<not> bit d k"
      using assms(1) d [of k] by (cases "k < 12") (auto simp: granule_aligned_bit)
  qed
  then show ?thesis using assms(1) d [of n] by (auto simp: bit_or_iff granule_aligned_bit not_less)
qed

lemma bit_interval_4: "bit (interval u 4) n \<longleftrightarrow> 12 \<le> n \<and> bit u n"
  by (simp add: bit_interval)

lemma interval_4_less: "u - interval u 4 < 4096"
proof -
  have "u - interval u 4 = take_bit 12 u"
  proof -
    have "interval u 4 + take_bit 12 u = interval u 4 OR take_bit 12 u"
      by (rule disjunctive_add) (auto simp: bit_interval_4 bit_take_bit_iff)
    also have "\<dots> = u" by (rule bit_eqI) (auto simp: bit_interval_4 bit_take_bit_iff bit_or_iff)
    finally show ?thesis by (simp add: algebra_simps)
  qed
  then show ?thesis by (simp add: take_bit_eq_mod word_less_nat_alt unat_mod)
qed

lemma granule_aligned_interval [simp]: "granule_aligned (interval u 4)"
  by (simp add: granule_aligned_bit bit_interval_4)

lemma interval_page: "granule_aligned s \<Longrightarrow> interval s 4 = s"
  by (rule bit_word_eqI) (auto simp: granule_aligned_bit bit_interval_4 intro: leI)

lemma same_page_iff:
  assumes "granule_aligned s" shows "interval u 4 = interval s 4 \<longleftrightarrow> u - s < 4096"
proof
  assume "interval u 4 = interval s 4"
  then show "u - s < 4096" using interval_4_less [of u] interval_page [OF assms] by simp
next
  assume d: "u - s < 4096"
  show "interval u 4 = interval s 4"
  proof (rule bit_word_eqI)
    fix n show "bit (interval u 4) n = bit (interval s 4) n"
      using bit_page_offset [OF assms d, of n] by (auto simp: bit_interval_4)
  qed
qed

lemma msbs_offset: "granule_aligned s \<Longrightarrow> d < 4096 \<Longrightarrow> msbs (s + d) = msbs s"
  by (rule bit_word_eqI)
    (simp add: bit_get_field bit_page_offset pa_physical_address_msbs_def BIT_STRUCT_FIELD_def)

lemma granule_aligned_add: "granule_aligned s \<Longrightarrow> granule_aligned t \<Longrightarrow> granule_aligned (s + t)"
  by (simp add: granule_aligned_dvd unat_word_ariths dvd_mod)

lemma granule_aligned_granule [simp]: "granule_aligned kTranslationGranule"
  by (simp add: granule_aligned_def kTranslationGranule_def)

lemma granule_aligned_0 [simp]: "granule_aligned 0"
  by (simp add: granule_aligned_def)

text \<open>The next page of a range.\<close>

lemma range_step:
  assumes "unat off + 4096 < 2 ^ 64"
  shows "(u :: u64) - s < off + 4096 \<longleftrightarrow> u - s < off \<or> u - (s + off) < 4096"
proof -
  have o: "unat (off + 4096) = unat off + 4096"
    using assms by (simp add: unat_add_lem [THEN iffD1])
  have e: "u - (s + off) = (u - s) - off" by simp
  show ?thesis
  proof (cases "off \<le> u - s")
    case True
    then have "unat ((u - s) - off) = unat (u - s) - unat off" by (rule unat_sub)
    then show ?thesis unfolding e using True o by (auto simp: word_less_nat_alt word_le_nat_alt)
  next
    case False
    then show ?thesis using o by (auto simp: word_less_nat_alt word_le_nat_alt)
  qed
qed

section \<open>Adding a mapping\<close>

abbreviation writeable :: "memory_mapping \<Rightarrow> bool" where
  "writeable m \<equiv> MemoryPerms_HasPermission (mm_perms m) kWritable"

abbreviation executable :: "memory_mapping \<Rightarrow> bool" where
  "executable m \<equiv> MemoryPerms_HasPermission (mm_perms m) kExecutable"

text \<open>What the checks ask for, and the abstract map with the first \<open>n\<close> bytes of a mapping in it.\<close>

definition args_ok :: "memory_mapping \<Rightarrow> u64 \<Rightarrow> bool" where
  "args_ok m pa \<longleftrightarrow> (\<forall>x \<in> {mm_start m, pa, mm_num_bytes m, mm_start m + mm_num_bytes m - kTranslationGranule,
      pa + mm_num_bytes m - kTranslationGranule}. fits48 x \<and> granule_aligned x)"

definition map_bytes ::
    "memory_mapping \<Rightarrow> u64 \<Rightarrow> u64 \<Rightarrow> (u64 \<Rightarrow> (u64 \<times> bool \<times> bool) option) \<Rightarrow> u64 \<Rightarrow> (u64 \<times> bool \<times> bool) option" where
  "map_bytes m pa n pages u =
     (if u - mm_start m < n then Some (msbs (pa + (u - mm_start m)), writeable m, executable m) else pages u)"

text \<open>The page at offset \<open>off\<close> is mapped to something else.\<close>

definition conflict_at :: "(u64 \<Rightarrow> (u64 \<times> bool \<times> bool) option) \<Rightarrow> memory_mapping \<Rightarrow> u64 \<Rightarrow> u64 \<Rightarrow> bool" where
  "conflict_at pages m pa off \<longleftrightarrow>
     pages (mm_start m + off) \<notin> {None, Some (msbs (pa + off), writeable m, executable m)}"

text \<open>The first conflict is at offset \<open>off\<close>, with the physical page \<open>q\<close>; the pages below are mapped.\<close>

definition stopped_at ::
    "page_arch \<Rightarrow> memory_mapping \<Rightarrow> u64 \<Rightarrow> page_table_creator \<Rightarrow> u64 \<Rightarrow> u64 \<Rightarrow> page_table_creator \<Rightarrow> bool" where
  "stopped_at a m pa c off q c' \<longleftrightarrow>
     granule_aligned off \<and> off < mm_num_bytes m \<and>
     (\<exists>W X. mapped_page a c (mm_start m + off) = Some (q, W, X)) \<and>
     conflict_at (mapped_page a c) m pa off \<and>
     (\<forall>off'. granule_aligned off' \<and> off' < off \<longrightarrow> \<not> conflict_at (mapped_page a c) m pa off') \<and>
     mapped_page a c' = map_bytes m pa off (mapped_page a c)"

text \<open>The pages of entries that the addresses of the first \<open>n\<close> bytes need.\<close>

definition needed_pages :: "memory_mapping \<Rightarrow> u64 \<Rightarrow> (nat \<times> u64) set" where
  "needed_pages m n = {(l, interval v l) | l v. l \<le> 3 \<and> v - mm_start m < n}"

lemma needed_pages_0 [simp]: "needed_pages m 0 = {}"
  by (simp add: needed_pages_def)

text \<open>What \<open>AddContiguousMapping\<close> promises for arguments the checks accept.\<close>

definition mapping_added ::
    "page_arch \<Rightarrow> memory_mapping \<Rightarrow> u64 \<Rightarrow> page_table_creator \<Rightarrow> unit status_or \<times> page_table_creator \<Rightarrow> bool" where
  "mapping_added a m pa c = (\<lambda>(st, c'). creator_ok a c' \<and> keeps_pages c c' \<and>
     (case st of
        Inr _ \<Rightarrow>
          mapped_page a c' = map_bytes m pa (mm_num_bytes m) (mapped_page a c) \<and>
          used_pages c' = used_pages c \<union> needed_pages m (mm_num_bytes m) \<and>
          (\<forall>off. granule_aligned off \<and> off < mm_num_bytes m \<longrightarrow> \<not> conflict_at (mapped_page a c) m pa off)
      | Inl e \<Rightarrow> (\<exists>off q. stopped_at a m pa c off q c' \<and>
          e = Failed_to_map (mm_start m + off) (Already_exists (set_field pa_physical_address_msbs q 0)))))"

lemma range_bounds:
  assumes "args_ok m pa" "off < mm_num_bytes m" "granule_aligned off"
  shows "fits48 (mm_start m + off)" "fits48 (pa + off)" "unat off + 4096 \<le> unat (mm_num_bytes m)"
proof -
  let ?n = "mm_num_bytes m"
  have n: "fits48 ?n" "granule_aligned ?n" using assms(1) by (auto simp: args_ok_def)
  have "4096 dvd unat ?n" "4096 dvd unat off" "unat off < unat ?n"
    using n(2) assms(2,3) by (simp_all add: granule_aligned_dvd word_less_nat_alt)
  then show le: "unat off + 4096 \<le> unat ?n"
    by (elim dvdE) simp
  have "fits48 (s + off)" if "fits48 s" "fits48 (s + ?n - kTranslationGranule)" for s
  proof -
    have sm: "unat s < 2 ^ 48" "unat ?n < 2 ^ 48" using that(1) n(1) by (simp_all add: fits48_less)
    then have "unat (s + ?n) = unat s + unat ?n"
      by (intro unat_add_lem [THEN iffD1]) simp
    moreover have "kTranslationGranule \<le> s + ?n"
      using le calculation by (simp add: kTranslationGranule_def word_le_nat_alt)
    ultimately have "unat (s + ?n - kTranslationGranule) = unat s + unat ?n - 4096"
      by (simp add: unat_sub kTranslationGranule_def)
    moreover have "unat (s + off) = unat s + unat off"
      using sm le by (intro unat_add_lem [THEN iffD1]) simp
    ultimately show ?thesis using that(2) le by (simp add: fits48_less)
  qed
  then show "fits48 (mm_start m + off)" "fits48 (pa + off)"
    using assms(1) by (simp_all add: args_ok_def)
qed

text \<open>One page more.\<close>

lemma map_bytes_step:
  assumes m: "args_ok m pa" and off: "off < mm_num_bytes m" "granule_aligned off"
  shows "map_bytes m pa (off + kTranslationGranule) pages u =
    (if interval u 4 = interval (mm_start m + off) 4
     then Some (msbs (pa + off), writeable m, executable m) else map_bytes m pa off pages u)"
proof -
  have al: "granule_aligned (mm_start m + off)" "granule_aligned (pa + off)"
    using m off(2) by (auto simp: args_ok_def intro: granule_aligned_add)
  have "unat off + 4096 < 2 ^ 64"
    using range_bounds(3) [OF m off] unat_u64_lt [of "mm_num_bytes m"] m by (auto simp: args_ok_def fits48_less)
  then have step: "u - mm_start m < off + kTranslationGranule \<longleftrightarrow>
      u - mm_start m < off \<or> u - (mm_start m + off) < 4096"
    by (simp add: kTranslationGranule_def range_step)
  have disj: "\<not> u - mm_start m < off" if "u - (mm_start m + off) < 4096"
  proof
    assume lt: "u - mm_start m < off"
    have "unat (u - mm_start m - off) = 2 ^ 64 + unat (u - mm_start m) - unat off"
      using lt by (simp add: unat_sub_if' word_less_nat_alt)
    moreover have "unat (u - mm_start m - off) < 4096"
      using that by (simp add: word_less_nat_alt diff_diff_eq)
    ultimately show False using \<open>unat off + 4096 < 2 ^ 64\<close> by simp
  qed
  have "msbs (pa + (u - mm_start m)) = msbs (pa + off)" if "u - (mm_start m + off) < 4096"
    using msbs_offset [OF al(2) that] by (simp add: algebra_simps)
  then show ?thesis
    using disj step unfolding map_bytes_def same_page_iff [OF al(1)] by auto
qed

lemma needed_pages_step:
  assumes m: "args_ok m pa" and off: "off < mm_num_bytes m" "granule_aligned off"
  shows "needed_pages m (off + kTranslationGranule) = needed_pages m off \<union> path (mm_start m + off) 4"
proof -
  let ?v = "mm_start m + off"
  have al: "granule_aligned ?v" using m off(2) by (auto simp: args_ok_def intro: granule_aligned_add)
  have "unat off + 4096 < 2 ^ 64"
    using range_bounds(3) [OF m off] m by (auto simp: args_ok_def fits48_less)
  then have step: "u - mm_start m < off + kTranslationGranule \<longleftrightarrow>
      u - mm_start m < off \<or> interval u 4 = interval ?v 4" for u
    by (simp add: kTranslationGranule_def range_step same_page_iff [OF al])
  have same: "interval u l = interval ?v l" if "interval u 4 = interval ?v 4" "l \<le> 3" for u l
    using interval_mono [OF that(1), of l] that(2) by simp
  have "path ?v 4 = {(l, interval u l) | l u. l \<le> 3 \<and> interval u 4 = interval ?v 4}"
  proof
    show "path ?v 4 \<subseteq> {(l, interval u l) | l u. l \<le> 3 \<and> interval u 4 = interval ?v 4}"
      unfolding path_def by auto
    show "{(l, interval u l) | l u. l \<le> 3 \<and> interval u 4 = interval ?v 4} \<subseteq> path ?v 4"
    proof clarify
      fix l u assume l: "(l :: nat) \<le> 3" and u: "interval u 4 = interval ?v 4"
      have "interval u l = interval ?v l" "l < 4" using same [OF u l] l by simp_all
      then show "(l, interval u l) \<in> path ?v 4" unfolding path_def by simp
    qed
  qed
  then show ?thesis unfolding needed_pages_def step by blast
qed

lemma map_bytes_0 [simp]: "map_bytes m pa 0 pages = pages"
  by (simp add: map_bytes_def fun_eq_iff)

lemma map_bytes_at:
  "map_bytes m pa off pages (mm_start m + off) = pages (mm_start m + off)"
  by (simp add: map_bytes_def)

definition mapped_so_far ::
    "page_arch \<Rightarrow> memory_mapping \<Rightarrow> u64 \<Rightarrow> page_table_creator \<Rightarrow> u64 \<times> page_table_creator \<Rightarrow> bool" where
  "mapped_so_far a m pa c = (\<lambda>(off, c'). creator_ok a c' \<and> keeps_pages c c' \<and>
     granule_aligned off \<and> off \<le> mm_num_bytes m \<and>
     mapped_page a c' = map_bytes m pa off (mapped_page a c) \<and>
     used_pages c' = used_pages c \<union> needed_pages m off \<and>
     (\<forall>off'. granule_aligned off' \<and> off' < off \<longrightarrow> \<not> conflict_at (mapped_page a c) m pa off'))"

lemma aligned_less_step:
  assumes "granule_aligned off" "granule_aligned off'" "off' < off + kTranslationGranule" "unat off + 4096 < 2 ^ 64"
  shows "off' < off \<or> off' = off"
proof -
  have "unat (off + kTranslationGranule) = unat off + 4096"
    using assms(4) by (simp add: kTranslationGranule_def unat_add_lem [THEN iffD1])
  then have "unat off' < unat off + 4096" "4096 dvd unat off" "4096 dvd unat off'"
    using assms by (simp_all add: word_less_nat_alt granule_aligned_dvd)
  then have "unat off' \<le> unat off" by (elim dvdE) simp
  then show ?thesis by (auto simp: word_less_nat_alt word_unat_eq_iff)
qed

lemma map_page_round_returns:
  assumes m: "args_ok m pa" and inv: "mapped_so_far a m pa c (off, c')"
  shows "returns (\<lambda>x. case x of
      Break r \<Rightarrow> mapping_added a m pa c r
    | Continue s \<Rightarrow> mapped_so_far a m pa c s \<and>
        unat (mm_num_bytes m - fst s) < unat (mm_num_bytes m - off)) (map_page_round a m pa (off, c'))"
proof (cases "off < mm_num_bytes m")
  case False
  then have "off = mm_num_bytes m" using inv by (simp add: mapped_so_far_def)
  then show ?thesis using inv by (simp add: map_page_round_def mapped_so_far_def mapping_added_def)
next
  case True
  let ?v = "mm_start m + off"
  have I: "creator_ok a c'" "keeps_pages c c'" "granule_aligned off"
    "mapped_page a c' = map_bytes m pa off (mapped_page a c)"
    "used_pages c' = used_pages c \<union> needed_pages m off"
    "\<And>off'. granule_aligned off' \<Longrightarrow> off' < off \<Longrightarrow> \<not> conflict_at (mapped_page a c) m pa off'"
    using inv by (auto simp: mapped_so_far_def)
  note B = range_bounds [OF m True I(3)]
  have at: "mapped_page a c' ?v = mapped_page a c ?v" by (simp add: I(4) map_bytes_at)
  show ?thesis
  proof (cases "mappable a c' ?v (pa + off) (writeable m) (executable m)")
    case False
    obtain q W X c1 where c1: "mapped_page a c' ?v = Some (q, W, X)"
      "SetupPageDescriptor a (dva ?v) (pa + off) (writeable m) (executable m) c' =
         ret (Inl (Failed_to_map ?v (Already_exists (set_field pa_physical_address_msbs q 0))), c1)"
      "creator_ok a c1" "keeps_pages c' c1" "\<And>u. mapped_page a c1 u = mapped_page a c' u"
        using SetupPageDescriptor_conflict [OF I(1) B(1) False] by metis
    have "stopped_at a m pa c off q c1"
      unfolding stopped_at_def
    proof (intro conjI)
      show "\<exists>W X. mapped_page a c ?v = Some (q, W, X)" using c1(1) at by simp
      show "conflict_at (mapped_page a c) m pa off"
        using False by (simp add: mappable_def conflict_at_def at)
      show "\<forall>off'. granule_aligned off' \<and> off' < off \<longrightarrow> \<not> conflict_at (mapped_page a c) m pa off'"
        using I(6) by blast
      show "mapped_page a c1 = map_bytes m pa off (mapped_page a c)"
        using c1(5) I(4) by auto
    qed (use I True in simp_all)
    then have "mapping_added a m pa c
        (Inl (Failed_to_map ?v (Already_exists (set_field pa_physical_address_msbs q 0))), c1)"
      using c1(3) keeps_pages_trans [OF I(2) c1(4)] by (auto simp: mapping_added_def)
    then show ?thesis using True c1(2) by (simp add: map_page_round_def DecodedVirtualAddress_ret)
  next
    case map: True
    obtain c1 c2 where c2: "SetupPageDescriptor a (dva ?v) (pa + off) (writeable m) (executable m) c' = ret (Inr (), c1)"
      "SetupTableDescriptor a 2 (dva ?v) (writeable m) (executable m) c1 = ret c2"
      "page_set a ?v (pa + off) (writeable m) (executable m) c' c2"
      by (rule map_page_ret [OF I(1) B(1) map])
    have lt: "unat off + 4096 < 2 ^ 64"
      using B(3) m by (auto simp: args_ok_def fits48_less)
    have step: "unat (off + kTranslationGranule) = unat off + 4096"
      using lt by (simp add: kTranslationGranule_def unat_add_lem [THEN iffD1])
    have here: "\<not> conflict_at (mapped_page a c) m pa off"
      using map by (simp add: mappable_def conflict_at_def at)
    have "mapped_so_far a m pa c (off + kTranslationGranule, c2)"
      unfolding mapped_so_far_def prod.case
    proof (intro conjI)
      show "creator_ok a c2" by (rule page_set_creator_ok [OF c2(3) I(1) B(1)])
      show "keeps_pages c c2" using keeps_pages_trans [OF I(2)] c2(3) by (simp add: page_set_def)
      show "mapped_page a c2 = map_bytes m pa (off + kTranslationGranule) (mapped_page a c)"
        using page_set_mapped [OF c2(3)] map_bytes_step [OF m True I(3)] I(4) by (simp add: fun_eq_iff)
      show "used_pages c2 = used_pages c \<union> needed_pages m (off + kTranslationGranule)"
        using c2(3) I(5) needed_pages_step [OF m True I(3)] by (auto simp: page_set_def)
      show "off + kTranslationGranule \<le> mm_num_bytes m" using B(3) step by (simp add: word_le_nat_alt)
      show "\<forall>off'. granule_aligned off' \<and> off' < off + kTranslationGranule \<longrightarrow> \<not> conflict_at (mapped_page a c) m pa off'"
        using I(6) aligned_less_step [OF I(3) _ _ lt] here by blast
    qed (use I(3) granule_aligned_add in simp)
    moreover have "unat (mm_num_bytes m - (off + kTranslationGranule)) < unat (mm_num_bytes m - off)"
      using B(3) step True by (simp add: unat_sub word_le_nat_alt word_less_nat_alt)
    ultimately show ?thesis
      using True c2 by (simp add: map_page_round_def DecodedVirtualAddress_ret)
  qed
qed

lemma AddContiguousMapping_args_ok:
  assumes "args_ok m pa" "creator_ok a c"
  shows "returns (mapping_added a m pa c) (AddContiguousMapping a m pa c)"
proof -
  have "CheckAlignmentAndSize x d = Inr ()" if "x \<in> {mm_start m, pa, mm_num_bytes m,
      mm_start m + mm_num_bytes m - kTranslationGranule, pa + mm_num_bytes m - kTranslationGranule}" for x d
    using assms(1) that unfolding CheckAlignmentAndSize_iff args_ok_def by blast
  then have "AddContiguousMapping a m pa c = rloop (map_page_round a m pa) (0, c)"
    by (simp add: AddContiguousMapping_def)
  moreover have "returns (mapping_added a m pa c) (rloop (map_page_round a m pa) (0, c))"
  proof (rule rloop_returns [where I = "mapped_so_far a m pa c" and m = "\<lambda>s. unat (mm_num_bytes m - fst s)"])
    fix s assume "mapped_so_far a m pa c s"
    then show "returns (\<lambda>x. case x of Break r \<Rightarrow> mapping_added a m pa c r
        | Continue s' \<Rightarrow> mapped_so_far a m pa c s' \<and> unat (mm_num_bytes m - fst s') < unat (mm_num_bytes m - fst s))
        (map_page_round a m pa s)"
      using map_page_round_returns [OF assms(1), of a c "fst s" "snd s"] by simp
  next
    show "mapped_so_far a m pa c (0, c)" using assms(2) by (simp add: mapped_so_far_def)
  qed
  ultimately show ?thesis by simp
qed

lemma AddContiguousMapping_bad_args:
  assumes "\<not> args_ok m pa"
  shows "\<exists>e. AddContiguousMapping a m pa c = ret (Inl e, c)"
proof -
  obtain x where x: "x \<in> {mm_start m, pa, mm_num_bytes m, mm_start m + mm_num_bytes m - kTranslationGranule,
      pa + mm_num_bytes m - kTranslationGranule}" "\<And>d. CheckAlignmentAndSize x d \<noteq> Inr ()"
    using assms unfolding args_ok_def CheckAlignmentAndSize_iff by blast
  have c: "(\<exists>e. CheckAlignmentAndSize y d = Inl e) \<or> CheckAlignmentAndSize y d = Inr ()" for y d
    by (cases "CheckAlignmentAndSize y d") auto
  have r: "\<exists>e. return_if_not_ok (CheckAlignmentAndSize y d) c rest = ret (Inl e, c)"
    if "CheckAlignmentAndSize y d \<noteq> Inr () \<or> (\<exists>e. rest = ret (Inl e, c))" for y d rest
    using that c [of y d] by auto
  show ?thesis
    unfolding AddContiguousMapping_def using x by (elim insertE emptyE) (auto intro!: r)
qed

end
