(* ===== verification/Page_Table_Walk.thy ===== *)
theory Page_Table_Walk
  imports Page_Table_Spec
begin

text \<open>
  The walk over the entries of a creator, loaded at the address it was made for, computes the map
  of virtual pages: nothing more is reachable and nothing less.
\<close>

section \<open>Entries in memory\<close>

text \<open>
  \<open>table_placed c\<close>: the table starts at a page and ends inside the 48-bit address space, which the code
  does not check. \<open>loaded c mem\<close>: the memory holds the entries from there on.
\<close>

definition table_placed :: "page_table_creator \<Rightarrow> bool" where
  "table_placed c \<longleftrightarrow> granule_aligned (ptc_addr c) \<and> unat (ptc_addr c) + 8 * length (ptc_entries c) \<le> 2 ^ 48"

definition loaded :: "page_table_creator \<Rightarrow> (u64 \<Rightarrow> u64) \<Rightarrow> bool" where
  "loaded c mem \<longleftrightarrow> (\<forall>i < length (ptc_entries c). mem (ptc_addr c + of_nat (8 * i)) = ptc_entries c ! i)"

lemma loaded_entry:
  assumes "pages_ok c" "loaded c mem" "has_page c l v"
  shows "mem (entry_addr (page_addr c l v) (vindex v l)) = ent c l v"
proof -
  obtain i where i: "ptc_tables c l (interval v l) = Some i" using assms(3) by (auto simp: has_page_def)
  have lt: "i + unat (vindex v l) < length (ptc_entries c)"
    using assms(1) i unat_vindex [of v l] by (fastforce simp: pages_ok_def)
  have "entry_addr (page_addr c l v) (vindex v l) = ptc_addr c + of_nat (8 * (i + unat (vindex v l)))"
    by (simp add: entry_addr_def page_addr_def i algebra_simps)
  then show ?thesis
    using assms(2) [unfolded loaded_def, rule_format, OF lt] by (simp only: ent_def i option.case)
qed

lemma page_addr_page:
  assumes "pages_ok c" "table_placed c" "has_page c l v"
  shows "fits48 (page_addr c l v)" "granule_aligned (page_addr c l v)"
proof -
  obtain i where i: "ptc_tables c l (interval v l) = Some i" using assms(3) by (auto simp: has_page_def)
  have b: "512 dvd i" "i + 512 \<le> length (ptc_entries c)" using assms(1) i by (auto simp: pages_ok_def)
  have lt: "unat (ptc_addr c) + 8 * i < 2 ^ 48" using assms(2) b by (simp add: table_placed_def)
  then have a: "page_addr c l v = of_nat (unat (ptc_addr c) + 8 * i)"
    by (simp add: page_addr_def i algebra_simps)
  have u: "unat (page_addr c l v) = unat (ptc_addr c) + 8 * i"
    unfolding a using lt by (intro unat_of_nat_u64) simp
  show "fits48 (page_addr c l v)" using lt u by (simp add: fits48_less)
  have "4096 dvd 8 * i" using mult_dvd_mono [OF dvd_refl b(1), of 8] by simp
  then show "granule_aligned (page_addr c l v)"
    using assms(2) u by (simp add: granule_aligned_dvd table_placed_def)
qed

text \<open>Writing the upper bits of a page address into an address without others gives it back.\<close>

definition low_clear :: "u64 \<Rightarrow> bool" where
  "low_clear b \<longleftrightarrow> granule_aligned b \<and> fits48 b"

lemma low_clear_0 [simp]: "low_clear 0"
  by (simp add: low_clear_def fits48_def)

lemma set_msbs_page:
  assumes "granule_aligned p" "fits48 p" "low_clear b"
  shows "set_field pa_physical_address_msbs (msbs p) b = p"
proof (rule bit_word_eqI)
  fix n assume "n < LENGTH(64)"
  then show "bit (set_field pa_physical_address_msbs (msbs p) b) n = bit p n"
    using assms by (auto simp: bit_set_field bit_get_field pa_physical_address_msbs_def BIT_STRUCT_FIELD_def
        granule_aligned_bit fits48_bit low_clear_def not_le intro: leI)
qed

section \<open>The walk\<close>

text \<open>One level of the walk: what the check of its entry gives, and where the next table is.\<close>

lemma walk_level:
  assumes c: "pages_ok c" "table_placed c" "level_ok a c l v"
    and t: "CheckTableDescriptor a (ent c l v) w x = Inr t" and b: "low_clear b"
  shows "has_page c (Suc l) v" "set_field pa_physical_address_msbs t b = page_addr c (Suc l) v"
    "low_clear (page_addr c (Suc l) v)"
proof -
  have "ent c l v \<noteq> 0" using t entries.check_table_empty [of a w x t] by auto
  then show page: "has_page c (Suc l) v" using c(3) by (simp add: level_ok_def)
  have "t = msbs (page_addr c (Suc l) v)"
    using entries.table_entry_target [OF _ t] c(3) by (simp add: level_ok_def)
  then show "set_field pa_physical_address_msbs t b = page_addr c (Suc l) v"
    using set_msbs_page [OF page_addr_page(2,1) [OF c(1,2) page] b] by simp
  show "low_clear (page_addr c (Suc l) v)"
    using page_addr_page [OF c(1,2) page] by (simp add: low_clear_def)
qed

text \<open>Physical page \<open>q\<close> with the offset of \<open>v\<close>.\<close>

definition phys_addr :: "u64 \<Rightarrow> u64 \<Rightarrow> u64" where
  "phys_addr q v = set_field pa_physical_address_msbs q
     (set_field pa_physical_address_lsbs (get_field va_physical_address_lsbs v) 0)"

lemma Translate_via_entries:
  assumes c: "creator_ok a c" "table_placed c" "loaded c mem" and v: "fits48 v"
  shows "TranslateVirtualAddress a mem (ptc_addr c) v w x = Inr p \<longleftrightarrow>
    table_passes a c 0 v w x \<and> table_passes a c 1 v w x \<and> table_passes a c 2 v w x \<and>
    (\<exists>q. CheckPageDescriptor a (ent c 3 v) w x = Inr q \<and> p = phys_addr q v)"
proof -
  have ok: "pages_ok c" "\<And>l. l \<le> 2 \<Longrightarrow> level_ok a c l v"
    using c(1) v by (auto simp: creator_ok_def walk_ok_def)
  have root: "ptc_addr c = page_addr c 0 v" "has_page c 0 v"
    using ok(1) has_page_0 [OF ok(1) v] v by (simp_all add: pages_ok_def page_addr_def interval_0)
  have mem: "has_page c l v \<Longrightarrow> mem (entry_addr (page_addr c l v) (vindex v l)) = ent c l v" for l
    by (rule loaded_entry [OF ok(1) c(3)])
  have step: "CheckTableDescriptor a (ent c l v) w x = Inr t \<Longrightarrow> low_clear b \<Longrightarrow>
      has_page c (Suc l) v \<and> set_field pa_physical_address_msbs t b = page_addr c (Suc l) v \<and>
      low_clear (page_addr c (Suc l) v)" if "l \<le> 2" for l t b
    using walk_level [OF ok(1) c(2) ok(2) [OF that]] by blast
  show ?thesis
  proof (cases "CheckTableDescriptor a (ent c 0 v) w x")
    case (Inl e)
    then show ?thesis
      using mem [OF root(2)] by (simp add: TranslateVirtualAddress_def Let_def root(1) va_index passes_def)
  next
    case t0: (Inr t0)
    note s0 = step [of 0, OF _ t0 low_clear_0, simplified]
    show ?thesis
    proof (cases "CheckTableDescriptor a (ent c 1 v) w x")
      case (Inl e)
      then show ?thesis
        using mem [OF root(2)] mem [of 1] s0 t0
        by (simp add: TranslateVirtualAddress_def Let_def root(1) va_index passes_def)
    next
      case t1: (Inr t1)
      have s1: "has_page c 2 v" "set_field pa_physical_address_msbs t1 0 = page_addr c 2 v"
        using step [of 1, OF _ t1 low_clear_0] by (simp_all add: numeral_2_eq_2)
      show ?thesis
      proof (cases "CheckTableDescriptor a (ent c 2 v) w x")
        case (Inl e)
        then show ?thesis
          using mem [OF root(2)] mem [of 1] mem [of 2] s0 s1 t0 t1
          by (simp add: TranslateVirtualAddress_def Let_def root(1) va_index passes_def)
      next
        case t2: (Inr t2)
        have s2: "has_page c 3 v" "set_field pa_physical_address_msbs t2 0 = page_addr c 3 v"
          using step [of 2, OF _ t2 low_clear_0] by (simp_all add: numeral_3_eq_3)
        show ?thesis
          using mem [OF root(2)] mem [of 1] mem [of 2] mem [of 3] s0 s1 s2 t0 t1 t2
          by (auto simp: TranslateVirtualAddress_def Let_def root(1) va_index passes_def phys_addr_def
              sor_bind_eq_Inr)
      qed
    qed
  qed
qed

lemma Translate_mapped:
  assumes c: "creator_ok a c" "table_placed c" "loaded c mem" and v: "fits48 v"
  shows "TranslateVirtualAddress a mem (ptc_addr c) v w x = Inr p \<longleftrightarrow>
    (\<exists>q W X. mapped_page a c v = Some (q, W, X) \<and> grants W X w x \<and> p = phys_addr q v)"
proof -
  have ok: "walk_ok a c v" using c(1) v by (simp add: creator_ok_def)
  then have "page_entry (CreatePageDescriptor a) (ent c 3 v)" by (simp add: walk_ok_def)
  then show ?thesis
  proof (cases rule: mapped_page_cases)
    case 1
    then show ?thesis
      using Translate_via_entries [OF assms, of w x p] entries.check_page_empty [of a w x] by simp
  next
    case (2 pa W X)
    have "table_passes a c l v w x" if "grants W X w x" "l \<le> 2" for l
    proof (rule table_chain_up [of a c 2 v])
      show "table_chain a c 2 v" using ok by (simp add: walk_ok_def)
      have "page_passes a c v w x" using that(1) by (simp add: entries.passes_created [OF 2(1)])
      then show "table_passes a c 2 v w x" using ok by (simp add: walk_ok_def)
    qed (rule that)
    then show ?thesis
      unfolding Translate_via_entries [OF assms] entries.check_created [OF 2(1)] 2(2) by auto
  qed
qed

section \<open>Creators made from mappings\<close>

lemma PageTableCreator_ret:
  "PageTableCreator addr = ret c \<longleftrightarrow> fits48 addr \<and> granule_aligned addr \<and>
     c = \<lparr>ptc_entries = replicate 512 0, ptc_tables = (\<lambda>_. Map.empty)(0 := [0 \<mapsto> 0]), ptc_addr = addr\<rparr>"
  by (auto simp: PageTableCreator_def Let_def check_def CheckAlignmentAndSize_iff set_table_def add_page_def)

lemma PageTableCreator_ok:
  assumes "PageTableCreator addr = ret c"
  shows "creator_ok a c" "mapped_page a c = (\<lambda>_. None)" "ptc_addr c = addr" "granule_aligned addr"
    "used_pages c = {(0, 0)}"
proof -
  have c: "c = \<lparr>ptc_entries = replicate 512 0, ptc_tables = (\<lambda>_. Map.empty)(0 := [0 \<mapsto> 0]), ptc_addr = addr\<rparr>"
    and "granule_aligned addr" using assms unfolding PageTableCreator_ret by blast+
  then show "granule_aligned addr" "ptc_addr c = addr" by simp_all
  have e: "ent c l v = 0" for l v
    using unat_vindex [of v l] unfolding ent_def c by (auto split: option.split if_splits)
  then show "mapped_page a c = (\<lambda>_. None)" using mapped_page_empty by auto
  show "used_pages c = {(0, 0)}" unfolding used_pages_def c by (auto split: if_splits)
  then have "pages_ok c" unfolding pages_ok_def by (auto simp: c page_starts_def fits48_def split: if_splits)
  then show "creator_ok a c"
    by (simp add: creator_ok_def walk_ok_def level_ok_def table_entry_def page_entry_def table_chain_def e)
qed

end
