(* ===== verification/Memory_State_Image.thy ===== *)
theory Memory_State_Image
  imports Page_Table_Walk Memory_State Le_Bytes
begin

text \<open>
  \<open>MemoryStateImage\<close> of \<open>proxies/page_table/memory_state_image.h\<close> and \<open>.cc\<close>: a block of physical memory
  with a page table followed by the contents of a \<open>MemoryState\<close>. The table is laid out twice, first
  to learn its size. A member function that fills \<open>memory_image_data\<close> gives it back with its result.
\<close>

record external_mapping =
  em_virtual_memory_mapping :: memory_mapping
  em_physical_start :: u64

record memory_state_image =
  msi_physical_address :: u64
  msi_image_data :: "byte list"
  msi_page_table_root :: u64

text \<open>\<open>status.Update(st)\<close> keeps the first error; \<open>memcpy(&to[offset], from, size)\<close>.\<close>

definition status_update :: "unit status_or \<Rightarrow> unit status_or \<Rightarrow> unit status_or" where
  "status_update status st = (case status of Inr _ \<Rightarrow> st | Inl e \<Rightarrow> Inl e)"

definition copy_to :: "byte list \<Rightarrow> nat \<Rightarrow> byte list \<Rightarrow> byte list" where
  "copy_to to offset from_data = take offset to @ from_data @ drop (offset + length from_data) to"

section \<open>LayoutPageTable\<close>

record layout =
  lay_creator :: page_table_creator
  lay_status :: "unit status_or"
  lay_offset :: u64
  lay_image :: "byte list"

text \<open>The body of \<open>Iterate\<close>: one mapped region.\<close>

definition copy_region :: "memory_state \<Rightarrow> bool \<Rightarrow> memory_mapping \<Rightarrow> layout \<Rightarrow> layout res" where
  "copy_region ms copy_data mapping s =
     (if copy_data
      then rbind (memory_bytes_at (mm_start mapping) (mm_num_bytes mapping) ms) (\<lambda>byte_data.
           rbind (check (unat (lay_offset s) + length byte_data \<le> length (lay_image s))
             ''data_offset + byte_data.size() <= memory_image_data.size()'') (\<lambda>_.
           ret (s\<lparr>lay_image := copy_to (lay_image s) (unat (lay_offset s)) byte_data\<rparr>)))
      else ret s)"

definition layout_region ::
    "page_arch \<Rightarrow> memory_state \<Rightarrow> u64 \<Rightarrow> bool \<Rightarrow> address \<Rightarrow> address \<Rightarrow> memory_perms \<Rightarrow> layout \<Rightarrow> layout res" where
  "layout_region a ms physical_address copy_data start limit perms s =
     (let perms = MemoryPerms_ClearPermission kMapped perms in
      rbind (MakeRanged start limit perms) (\<lambda>mapping.
      rbind (AddContiguousMapping a mapping (physical_address + lay_offset s) (lay_creator s)) (\<lambda>(st, c).
      rbind (copy_region ms copy_data mapping
               (s\<lparr>lay_creator := c, lay_status := status_update (lay_status s) st\<rparr>)) (\<lambda>s.
      ret (s\<lparr>lay_offset := lay_offset s + mm_num_bytes mapping\<rparr>)))))"

definition layout_external :: "page_arch \<Rightarrow> external_mapping \<Rightarrow> layout \<Rightarrow> layout res" where
  "layout_external a em s =
     rbind (AddContiguousMapping a (em_virtual_memory_mapping em) (em_physical_start em) (lay_creator s)) (\<lambda>(st, c).
     ret (s\<lparr>lay_creator := c, lay_status := status_update (lay_status s) st\<rparr>))"

definition LayoutPageTable ::
    "page_arch \<Rightarrow> memory_state \<Rightarrow> u64 \<Rightarrow> external_mapping list \<Rightarrow> bool \<Rightarrow> u64 \<Rightarrow> byte list \<Rightarrow>
     (page_table_creator status_or \<times> byte list) res" where
  "LayoutPageTable a ms physical_address external_mappings copy_data data_offset memory_image_data =
     rbind (PageTableCreator physical_address) (\<lambda>c.
     let s = \<lparr>lay_creator = c, lay_status = Inr (), lay_offset = data_offset, lay_image = memory_image_data\<rparr> in
     rbind (MappedMemoryMap_Iterate (layout_region a ms physical_address copy_data) (ms_mapped_memory_map ms) s) (\<lambda>s.
     rbind (for_each (layout_external a) external_mappings s) (\<lambda>s.
     case lay_status s of
       Inl e \<Rightarrow> ret (Inl e, lay_image s)
     | Inr _ \<Rightarrow>
         rbind (if copy_data
                then check (unat (lay_offset s) = length (lay_image s)) ''data_offset == memory_image_data.size()''
                else ret ()) (\<lambda>_.
         ret (Inr (lay_creator s), lay_image s)))))"

section \<open>Build\<close>

definition entry_bytes :: "u64 list \<Rightarrow> byte list" where
  "entry_bytes es = concat (map (le_store 8) es)"

definition Build :: "page_arch \<Rightarrow> memory_state \<Rightarrow> u64 \<Rightarrow> external_mapping list \<Rightarrow> memory_state_image status_or res" where
  "Build a ms physical_address external_mappings =
     rbind (LayoutPageTable a ms physical_address external_mappings False 0 []) (\<lambda>(r, _).
     case r of
       Inl e \<Rightarrow> ret (Inl e)
     | Inr page_table_size_measure \<Rightarrow>
         (let page_table_byte_size = of_nat (length (GetBinaryData page_table_size_measure)) * 8;
              memory_image_size = page_table_byte_size + num_written_bytes ms;
              memory_image_data = replicate (unat memory_image_size) 0 in
          rbind (LayoutPageTable a ms physical_address external_mappings True page_table_byte_size memory_image_data)
            (\<lambda>(r, memory_image_data).
          case r of
            Inl e \<Rightarrow> ret (Inl e)
          | Inr creator \<Rightarrow>
              rbind (check (length (GetBinaryData page_table_size_measure) = length (GetBinaryData creator))
                ''page_table_size_measure.GetBinaryData().size() == page_table_creator.GetBinaryData().size()'') (\<lambda>_.
              ret (Inr \<lparr>msi_physical_address = physical_address,
                msi_image_data = copy_to memory_image_data 0
                  (take (unat page_table_byte_size) (entry_bytes (GetBinaryData creator))),
                msi_page_table_root = physical_address\<rparr>)))))"

text \<open>The 64-bit word the image, loaded at its address, has at a physical address.\<close>

definition image_word :: "memory_state_image \<Rightarrow> u64 \<Rightarrow> u64" where
  "image_word img p = le_load (take 8 (drop (unat (p - msi_physical_address img)) (msi_image_data img)))"

end
