(* ===== verification/Memory_Image_Facts.thy ===== *)
theory Memory_Image_Facts
  imports Memory_State_Image Memory_Bytes_At
begin

text \<open>
  What the passes of \<open>MemoryStateImage\<close> leave: where each byte of the memory state is in the image,
  and the translation of its address.
\<close>

section \<open>Adding mappings keeps what is mapped\<close>

lemma mapped_page_same: "interval u 4 = interval v 4 \<Longrightarrow> mapped_page a c u = mapped_page a c v"
  using ent_cong [of u 3 v c] by (intro mapped_page_ent) (simp add: numeral_eq_Suc)

lemma range_page:
  assumes "granule_aligned s" "(v :: u64) - s < n"
  obtains off where "granule_aligned off" "off \<le> v - s" "interval v 4 = interval (s + off) 4"
    "v - (s + off) < 4096"
proof -
  let ?off = "interval (v - s) 4"
  have d: "(v - s) - ?off < 4096" by (rule interval_4_less)
  have e: "v - (s + ?off) = (v - s) - ?off" by simp
  have le: "?off \<le> v - s"
  proof -
    have "?off + take_bit 12 (v - s) = ?off OR take_bit 12 (v - s)"
      by (rule disjunctive_add) (auto simp: bit_interval_4 bit_take_bit_iff)
    also have "\<dots> = v - s" by (rule bit_eqI) (auto simp: bit_interval_4 bit_take_bit_iff bit_or_iff)
    finally have "?off = v - s - take_bit 12 (v - s)" by (simp add: algebra_simps)
    moreover have "take_bit 12 (v - s) \<le> v - s"
      by (simp add: word_le_nat_alt take_bit_eq_mod unat_mod)
    ultimately show ?thesis by (metis word_sub_le)
  qed
  have "granule_aligned (s + ?off)" using assms(1) by (simp add: granule_aligned_add)
  then show thesis using that [of ?off] d e le same_page_iff by simp
qed

lemma map_bytes_keeps:
  assumes m: "granule_aligned (mm_start m)" "granule_aligned pa"
    and none: "\<And>off. granule_aligned off \<Longrightarrow> off < n \<Longrightarrow> \<not> conflict_at (mapped_page a c) m pa off"
    and v: "mapped_page a c v = Some x"
  shows "map_bytes m pa n (mapped_page a c) v = Some x"
proof (cases "v - mm_start m < n")
  case True
  obtain off where off: "granule_aligned off" "off \<le> v - mm_start m" "interval v 4 = interval (mm_start m + off) 4"
    "v - (mm_start m + off) < 4096"
    by (rule range_page [OF m(1) True])
  have "mapped_page a c (mm_start m + off) = Some x"
    using mapped_page_same [OF off(3)] v by simp
  then have "x = (msbs (pa + off), writeable m, executable m)"
    using none [of off] off True by (simp add: conflict_at_def)
  moreover have "msbs (pa + (v - mm_start m)) = msbs (pa + off)"
    using msbs_offset [OF granule_aligned_add [OF m(2) off(1)] off(4)] by (simp add: algebra_simps)
  ultimately show ?thesis using True by (simp add: map_bytes_def)
qed (simp add: map_bytes_def v)

lemma args_ok_aligned: "args_ok m pa \<Longrightarrow> granule_aligned (mm_start m)" "args_ok m pa \<Longrightarrow> granule_aligned pa"
  by (auto simp: args_ok_def)

lemma mapping_added_keeps:
  assumes "args_ok m pa" "mapping_added a m pa c r" "mapped_page a c v = Some x"
  shows "mapped_page a (snd r) v = Some x"
proof -
  have keep: "map_bytes m pa n (mapped_page a c) v = Some x"
    if "\<And>off. granule_aligned off \<Longrightarrow> off < n \<Longrightarrow> \<not> conflict_at (mapped_page a c) m pa off" for n
    using map_bytes_keeps [OF args_ok_aligned [OF assms(1)] that assms(3)] .
  obtain st c' where r: "r = (st, c')" by force
  show ?thesis
  proof (cases st)
    case (Inl e)
    then obtain off q where "stopped_at a m pa c off q c'"
      using assms(2) r by (auto simp: mapping_added_def)
    then show ?thesis using keep [of off] r by (auto simp: stopped_at_def)
  next
    case (Inr u)
    then show ?thesis using keep [of "mm_num_bytes m"] assms(2) r by (auto simp: mapping_added_def)
  qed
qed

text \<open>A returned call, whatever its status, and one with status OK.\<close>

lemma Add_returned:
  assumes "AddContiguousMapping a m pa c = ret (st, c')" "creator_ok a c"
  shows "creator_ok a c'" "keeps_pages c c'" "mapped_page a c v = Some x \<Longrightarrow> mapped_page a c' v = Some x"
    "mapped_page a c' v \<noteq> None \<Longrightarrow> mapped_page a c v \<noteq> None \<or> v - mm_start m < mm_num_bytes m"
proof -
  have "creator_ok a c' \<and> keeps_pages c c' \<and> (\<forall>v x. mapped_page a c v = Some x \<longrightarrow> mapped_page a c' v = Some x) \<and>
    (\<forall>v. mapped_page a c' v \<noteq> None \<longrightarrow> mapped_page a c v \<noteq> None \<or> v - mm_start m < mm_num_bytes m)"
  proof (cases "args_ok m pa")
    case True
    then have m: "mapping_added a m pa c (st, c')"
      using AddContiguousMapping_args_ok [OF True assms(2)] assms(1) by simp
    have "mapped_page a c' v \<noteq> None \<longrightarrow> mapped_page a c v \<noteq> None \<or> v - mm_start m < mm_num_bytes m" for v
      using m by (cases st) (auto simp: mapping_added_def stopped_at_def map_bytes_def split: if_splits)
    moreover have "creator_ok a c' \<and> keeps_pages c c'" using m by (simp add: mapping_added_def)
    ultimately show ?thesis using mapping_added_keeps [OF True m] by simp
  next
    case False
    then show ?thesis using AddContiguousMapping_bad_args [OF False, of a c] assms by auto
  qed
  then show "creator_ok a c'" "keeps_pages c c'" "mapped_page a c v = Some x \<Longrightarrow> mapped_page a c' v = Some x"
    "mapped_page a c' v \<noteq> None \<Longrightarrow> mapped_page a c v \<noteq> None \<or> v - mm_start m < mm_num_bytes m"
    by blast+
qed

lemma Add_returned_ok:
  assumes "AddContiguousMapping a m pa c = ret (Inr (), c')" "creator_ok a c"
  shows "args_ok m pa" "v - mm_start m < mm_num_bytes m \<Longrightarrow>
    mapped_page a c' v = Some (msbs (pa + (v - mm_start m)), writeable m, executable m)"
proof -
  show ok: "args_ok m pa"
    using AddContiguousMapping_bad_args [of m pa a c] assms(1) by auto
  show "mapped_page a c' v = Some (msbs (pa + (v - mm_start m)), writeable m, executable m)"
    if "v - mm_start m < mm_num_bytes m"
    using AddContiguousMapping_args_ok [OF ok assms(2)] assms(1) that
    by (simp add: mapping_added_def map_bytes_def)
qed

section \<open>One region\<close>

lemma status_update_ok: "status_update s t = Inr () \<longleftrightarrow> s = Inr () \<and> t = Inr ()"
  by (auto simp: status_update_def split: sum.splits)

lemma copy_to_nth:
  assumes "off + length bs \<le> length to"
  shows "length (copy_to to off bs) = length to"
    "i < off \<Longrightarrow> copy_to to off bs ! i = to ! i"
    "i < length bs \<Longrightarrow> copy_to to off bs ! (off + i) = bs ! i"
    "off + length bs \<le> i \<Longrightarrow> i < length to \<Longrightarrow> copy_to to off bs ! i = to ! i"
  using assms by (auto simp: copy_to_def nth_append)

text \<open>
  \<open>laid a ms pa o0 s e\<close>: every byte of the region \<open>e\<close> is in the image at an index \<open>i\<close>, from \<open>o0\<close> on,
  and the table maps its address to the physical address of that index.
\<close>

definition laid_at ::
    "page_arch \<Rightarrow> memory_state \<Rightarrow> u64 \<Rightarrow> memory_perms \<Rightarrow> layout \<Rightarrow> u64 \<Rightarrow> nat \<Rightarrow> bool" where
  "laid_at a ms pa perms s v i \<longleftrightarrow>
     i < unat (lay_offset s) \<and> i < 2 ^ 63 \<and>
     byte_at (ms_written_memory_bytes ms) v = Some (lay_image s ! i) \<and>
     mapped_page a (lay_creator s) v = Some (msbs (pa + of_nat i),
       MemoryPerms_HasPermission perms kWritable, MemoryPerms_HasPermission perms kExecutable) \<and>
     fits48 v \<and> fits48 (pa + of_nat i) \<and> take_bit 12 (pa + of_nat i) = take_bit 12 v"

definition laid :: "page_arch \<Rightarrow> memory_state \<Rightarrow> u64 \<Rightarrow> nat \<Rightarrow> layout \<Rightarrow> (address, memory_perms) entry \<Rightarrow> bool" where
  "laid a ms pa o0 s e \<longleftrightarrow>
     (\<forall>v. entry_start e \<le> v \<and> v < entry_limit e \<longrightarrow> (\<exists>i\<ge>o0. laid_at a ms pa (snd e) s v i))"

definition pass_inv :: "page_arch \<Rightarrow> u64 \<Rightarrow> nat \<Rightarrow> nat \<Rightarrow> nat \<Rightarrow> layout \<Rightarrow> bool" where
  "pass_inv a pa o0 L B s \<longleftrightarrow>
     creator_ok a (lay_creator s) \<and> ptc_addr (lay_creator s) = pa \<and> length (lay_image s) = L \<and>
     o0 \<le> unat (lay_offset s) \<and> unat (lay_offset s) \<le> o0 + B"

lemma take_bit_aligned_add: "granule_aligned s \<Longrightarrow> take_bit 12 (s + d) = take_bit 12 (d :: u64)"
  using granule_aligned_dvd [of s]
  by (auto simp: word_unat_eq_iff take_bit_eq_mod unat_mod unat_word_ariths mod_mod_cancel elim!: dvdE)

lemma args_limit:
  assumes "args_ok m pa" "mm_num_bytes m \<noteq> 0"
  shows "unat (mm_start m) + unat (mm_num_bytes m) \<le> 2 ^ 48 + 4096"
proof -
  have f: "fits48 (mm_start m)" "fits48 (mm_num_bytes m)"
    "fits48 (mm_start m + mm_num_bytes m - kTranslationGranule)"
    using assms(1) by (auto simp: args_ok_def)
  then have "unat (mm_start m + mm_num_bytes m) = unat (mm_start m) + unat (mm_num_bytes m)"
    by (intro unat_limit) (simp add: fits48_less)
  then show ?thesis
    using f(3) by (simp add: fits48_less unat_sub_if' kTranslationGranule_def split: if_splits)
qed

lemma region_sizes: "(s :: u64) < l \<Longrightarrow> unat (l - s) = unat l - unat s \<and> unat s < unat l"
  by (simp add: unat_diff word_less_nat_alt word_le_nat_alt)

lemma in_region: "(s :: u64) < l \<Longrightarrow> v - s < l - s \<longleftrightarrow> s \<le> v \<and> v < l"
  using region_sizes [of s l] unat_sub_if' [of v s] unat_u64_lt [of l]
  by (auto simp: word_less_nat_alt word_le_nat_alt split: if_splits)

lemma known_byte:
  assumes "known ms s (l - s)" "s < l" "s \<le> v" "v < l"
  shows "byte_at (ms_written_memory_bytes ms) v = Some (bytes_of ms s (l - s) ! unat (v - s))"
    "unat (v - s) < length (bytes_of ms s (l - s))"
proof -
  have lt: "unat (v - s) < unat (l - s)"
    using assms(2-4) in_region [of s l v] by (simp add: word_less_nat_alt)
  then show "unat (v - s) < length (bytes_of ms s (l - s))" by (simp add: bytes_of_def)
  have "byte_at (ms_written_memory_bytes ms) (s + of_nat (unat (v - s))) \<noteq> None"
    using assms(1) lt unfolding known_def by blast
  then have "byte_at (ms_written_memory_bytes ms) v \<noteq> None" by simp
  then show "byte_at (ms_written_memory_bytes ms) v = Some (bytes_of ms s (l - s) ! unat (v - s))"
    using lt by (auto simp: bytes_of_def)
qed

lemma layout_region_copied:
  assumes run: "layout_region a ms pa True start limit perms s = ret s'"
    and ms: "bytes_map_ok (ms_written_memory_bytes ms)" "start < limit"
  obtains st c' bs where
    "AddContiguousMapping a
       \<lparr>mm_start = start, mm_num_bytes = limit - start, mm_perms = MemoryPerms_ClearPermission kMapped perms\<rparr>
       (pa + lay_offset s) (lay_creator s) = ret (st, c')"
    "known ms start (limit - start)" "bs = bytes_of ms start (limit - start)"
    "unat (lay_offset s) + length bs \<le> length (lay_image s)"
    "s' = s\<lparr>lay_creator := c', lay_status := status_update (lay_status s) st,
       lay_image := copy_to (lay_image s) (unat (lay_offset s)) bs,
       lay_offset := lay_offset s + (limit - start)\<rparr>"
proof -
  let ?m = "\<lparr>mm_start = start, mm_num_bytes = limit - start, mm_perms = MemoryPerms_ClearPermission kMapped perms\<rparr>"
  obtain m st c' where m: "MakeRanged start limit (MemoryPerms_ClearPermission kMapped perms) = ret m"
    "AddContiguousMapping a m (pa + lay_offset s) (lay_creator s) = ret (st, c')"
    and copy: "rbind (copy_region ms True m (s\<lparr>lay_creator := c', lay_status := status_update (lay_status s) st\<rparr>))
       (\<lambda>s. ret (s\<lparr>lay_offset := lay_offset s + mm_num_bytes m\<rparr>)) = ret s'"
    using run unfolding layout_region_def Let_def
    by (subst (asm) rbind_eq_ret, elim exE conjE, subst (asm) rbind_eq_ret, elim exE conjE) auto
  have mm: "m = ?m" using m(1) by (simp add: MakeRanged_ret)
  have n: "0 < limit - start" "unat start + unat (limit - start) < 2 ^ 64"
    using region_sizes [OF ms(2)] unat_u64_lt [of limit] by (simp_all add: word_less_nat_alt)
  show thesis
  proof (cases rule: memory_bytes_at_cases [OF ms(1) n])
    case 1
    then have chk: "unat (lay_offset s) + length (bytes_of ms start (limit - start)) \<le> length (lay_image s)"
      using copy by (auto simp: copy_region_def mm check_def split: if_splits)
    then show thesis
      using that [of st c' "bytes_of ms start (limit - start)"] m(2) 1 copy by (simp add: copy_region_def mm)
  next
    case (2 msg)
    then show thesis using copy by (simp add: copy_region_def mm)
  qed
qed

lemma HasPermission_Clear:
  "p \<noteq> kMapped \<Longrightarrow> MemoryPerms_HasPermission (MemoryPerms_ClearPermission kMapped q) p = MemoryPerms_HasPermission q p"
  by (cases p) (simp_all add: HasPermission_iff)

text \<open>Every address of a mapping that is accepted, and its physical address, fit 48 bits.\<close>

lemma range_fits:
  assumes ok: "args_ok m pa" and v: "v - mm_start m < mm_num_bytes m"
  shows "fits48 v" "fits48 (pa + (v - mm_start m))"
proof -
  note al = args_ok_aligned [OF ok]
  obtain o1 where o1: "granule_aligned o1" "o1 \<le> v - mm_start m" "v - mm_start m - o1 < 4096"
    using range_page [OF al(1) v] by (auto simp: diff_diff_eq)
  have "o1 < mm_num_bytes m" using o1(2) v by (rule order_le_less_trans)
  note B = range_bounds [OF ok this o1(1)]
  have "fits48 (mm_start m + o1 + (v - mm_start m - o1))"
    using B(1) unfolding fits48_bit bit_page_offset [OF granule_aligned_add [OF al(1) o1(1)] o1(3)] by (auto split: if_splits)
  then show "fits48 v" by simp
  have "fits48 (pa + o1 + (v - mm_start m - o1))"
    using B(2) unfolding fits48_bit bit_page_offset [OF granule_aligned_add [OF al(2) o1(1)] o1(3)] by (auto split: if_splits)
  then show "fits48 (pa + (v - mm_start m))" by (simp add: add.assoc)
qed

text \<open>One region of a pass whose status stays OK.\<close>

lemma layout_region_step:
  assumes run: "layout_region a ms pa True start limit perms s = ret s'" and st: "lay_status s' = Inr ()"
    and ms: "bytes_map_ok (ms_written_memory_bytes ms)" "start < limit"
    and inv: "pass_inv a pa o0 L B s" and B: "B \<le> unat start" and L: "L < 2 ^ 64" "o0 \<le> 2 ^ 62"
  shows "lay_status s = Inr ()" "pass_inv a pa o0 L (unat limit) s'" "unat (lay_offset s') \<le> L"
    "laid a ms pa o0 s' ((start, limit), perms)"
    "laid_at a ms pa q s v i \<Longrightarrow> laid_at a ms pa q s' v i"
proof -
  let ?m = "\<lparr>mm_start = start, mm_num_bytes = limit - start, mm_perms = MemoryPerms_ClearPermission kMapped perms\<rparr>"
  obtain t c' bs where c': "AddContiguousMapping a ?m (pa + lay_offset s) (lay_creator s) = ret (t, c')"
    and known: "known ms start (limit - start)" and bs: "bs = bytes_of ms start (limit - start)"
    and fit: "unat (lay_offset s) + length bs \<le> length (lay_image s)"
    and s': "s' = s\<lparr>lay_creator := c', lay_status := status_update (lay_status s) t,
       lay_image := copy_to (lay_image s) (unat (lay_offset s)) bs,
       lay_offset := lay_offset s + (limit - start)\<rparr>"
    by (rule layout_region_copied [OF run ms])
  have ok: "lay_status s = Inr ()" "t = Inr ()" using st by (simp_all add: s' status_update_ok)
  then show "lay_status s = Inr ()" by simp
  have c: "creator_ok a (lay_creator s)" "ptc_addr (lay_creator s) = pa" "length (lay_image s) = L"
    "o0 \<le> unat (lay_offset s)" "unat (lay_offset s) \<le> o0 + B"
    using inv by (auto simp: pass_inv_def)
  note A = Add_returned [OF c' c(1)]
  note A2 = Add_returned_ok [OF c' [unfolded ok] c(1)]
  have len: "length bs = unat limit - unat start" "unat start < unat limit" "unat (limit - start) = unat limit - unat start"
    using region_sizes [OF ms(2)] by (simp_all add: bs bytes_of_def)
  have off: "unat (lay_offset s') = unat (lay_offset s) + length bs"
    unfolding s' using fit c(3) L len by (simp add: unat_limit)
  have n0: "limit - start \<noteq> 0" using ms(2) by auto
  have lim: "unat limit \<le> 2 ^ 48 + 4096"
    using args_limit [OF A2(1)] n0 len by simp
  show "unat (lay_offset s') \<le> L" using off fit c(3) by simp
  have "ptc_addr c' = pa" using A(2) c(2) by (simp add: keeps_pages_def)
  then show "pass_inv a pa o0 L (unat limit) s'"
    using A(1) c off fit B len by (auto simp: pass_inv_def s' copy_to_nth)
  show "laid a ms pa o0 s' ((start, limit), perms)"
    unfolding laid_def
  proof (intro allI impI exI conjI)
    fix v assume "entry_start ((start, limit), perms) \<le> v \<and> v < entry_limit ((start, limit), perms)"
    then have v: "start \<le> v" "v < limit" by simp_all
    let ?i = "unat (lay_offset s) + unat (v - start)"
    have d: "unat (v - start) < length bs" using known_byte(2) [OF known ms(2) v] bs by simp
    show "o0 \<le> ?i" using c(4) by simp
    have in_m: "v - mm_start ?m < mm_num_bytes ?m" using v in_region [OF ms(2)] by simp
    have pa: "pa + of_nat ?i = pa + lay_offset s + (v - start)" by simp
    have al: "granule_aligned (pa + lay_offset s)" "granule_aligned start"
      using args_ok_aligned [OF A2(1)] by simp_all
    show "laid_at a ms pa (snd ((start, limit), perms)) s' v ?i"
      unfolding laid_at_def
    proof (intro conjI)
      show "?i < unat (lay_offset s')" using d off by simp
      show "?i < 2 ^ 63" using d len c(5) L(2) B lim by simp
      show "byte_at (ms_written_memory_bytes ms) v = Some (lay_image s' ! ?i)"
        using known_byte(1) [OF known ms(2) v] copy_to_nth(3) [OF fit d] by (simp add: s' bs)
      show "mapped_page a (lay_creator s') v = Some (msbs (pa + of_nat ?i),
          MemoryPerms_HasPermission (snd ((start, limit), perms)) kWritable,
          MemoryPerms_HasPermission (snd ((start, limit), perms)) kExecutable)"
        using A2(2) [OF in_m] unfolding pa by (simp add: s' HasPermission_Clear)
      show "take_bit 12 (pa + of_nat ?i) = take_bit 12 v"
        unfolding pa take_bit_aligned_add [OF al(1)]
        using take_bit_aligned_add [OF al(2), of "v - start"] by simp
      show "fits48 v" "fits48 (pa + of_nat ?i)"
        using range_fits [OF A2(1) in_m] unfolding pa by simp_all
    qed
  qed
  show "laid_at a ms pa q s v i \<Longrightarrow> laid_at a ms pa q s' v i"
    using A(3) off fit copy_to_nth(2) [OF fit, of i] by (simp add: laid_at_def s')
qed

section \<open>A pass\<close>

lemma for_each_Cons_ret: "for_each f (x # xs) s = ret s' \<longleftrightarrow> (\<exists>t. f x s = ret t \<and> for_each f xs t = ret s')"
  by (simp add: rbind_eq_ret)

abbreviation region :: "page_arch \<Rightarrow> memory_state \<Rightarrow> u64 \<Rightarrow> (address, memory_perms) entry \<Rightarrow> layout \<Rightarrow> layout res" where
  "region a ms pa e \<equiv> layout_region a ms pa True (entry_start e) (entry_limit e) (snd e)"

lemma for_each_back:
  assumes "\<And>x s s'. x \<in> set xs \<Longrightarrow> f x s = ret s' \<Longrightarrow> P s' \<Longrightarrow> P s" "for_each f xs s = ret s'" "P s'"
  shows "P s"
  using assms
proof (induction xs arbitrary: s)
  case (Cons x xs)
  then obtain t where t: "f x s = ret t" "for_each f xs t = ret s'" unfolding for_each_Cons_ret by blast
  have "P t" by (rule Cons.IH [OF _ t(2) Cons.prems(3)]) (rule Cons.prems(1), simp_all)
  then show ?case using Cons.prems(1) [of x s t] t(1) by simp
qed simp

lemma region_status:
  assumes "bytes_map_ok (ms_written_memory_bytes ms)" "entry_start e < entry_limit e"
    "region a ms pa e s = ret s'" "lay_status s' = Inr ()"
  shows "lay_status s = Inr ()"
proof -
  obtain st where "lay_status s' = status_update (lay_status s) st"
    by (rule layout_region_copied [OF assms(3,1,2)]) simp
  then have "status_update (lay_status s) st = Inr ()" using assms(4) by simp
  then show ?thesis by (simp add: status_update_ok)
qed

text \<open>What the regions leave, from any state in the middle of a pass.\<close>

definition regions_laid ::
    "page_arch \<Rightarrow> memory_state \<Rightarrow> u64 \<Rightarrow> nat \<Rightarrow> nat \<Rightarrow> (address, memory_perms) entry list \<Rightarrow> layout \<Rightarrow> layout \<Rightarrow> bool" where
  "regions_laid a ms pa o0 L es s s' \<longleftrightarrow> (\<exists>B. pass_inv a pa o0 L B s') \<and>
     (\<forall>e \<in> set es. laid a ms pa o0 s' e) \<and>
     (\<forall>q v i. laid_at a ms pa q s v i \<longrightarrow> laid_at a ms pa q s' v i)"

lemma laid_mono:
  "laid a ms pa o0 s e \<Longrightarrow> (\<And>q v i. laid_at a ms pa q s v i \<Longrightarrow> laid_at a ms pa q s' v i) \<Longrightarrow> laid a ms pa o0 s' e"
  unfolding laid_def by blast

lemma regions_pass:
  assumes "for_each (region a ms pa) es s = ret s'" "lay_status s' = Inr ()"
    and ms: "bytes_map_ok (ms_written_memory_bytes ms)"
    and es: "sorted_wrt (\<lambda>e f. entry_limit e \<le> entry_start f) es" "\<And>e. e \<in> set es \<Longrightarrow> entry_start e < entry_limit e"
    and B: "\<And>e. e \<in> set es \<Longrightarrow> B \<le> unat (entry_start e)"
    and inv: "pass_inv a pa o0 L B s" and L: "L < 2 ^ 64" "o0 \<le> 2 ^ 62"
  shows "regions_laid a ms pa o0 L es s s'"
  using assms
proof (induction es arbitrary: s B)
  case Nil
  then show ?case by (auto simp: regions_laid_def)
next
  case (Cons e es)
  obtain t where t: "region a ms pa e s = ret t" "for_each (region a ms pa) es t = ret s'"
    using Cons.prems(1) unfolding for_each_Cons_ret by blast
  have st: "lay_status t = Inr ()"
  proof (rule for_each_back [of es "region a ms pa" "\<lambda>s. lay_status s = Inr ()", OF _ t(2) Cons.prems(2)])
    fix f s s' assume "f \<in> set es" "region a ms pa f s = ret s'" "lay_status s' = Inr ()"
    then show "lay_status s = Inr ()" using region_status [OF ms Cons.prems(5) [of f]] by simp
  qed
  have rest: "unat (entry_limit e) \<le> unat (entry_start f)" if "f \<in> set es" for f
    using Cons.prems(4) that by (simp add: word_le_nat_alt)
  have e: "entry_start e < entry_limit e" "B \<le> unat (entry_start e)" using Cons.prems(5,6) by auto
  note step = layout_region_step [OF t(1) st ms e(1) Cons.prems(7) e(2) L]
  have IH: "regions_laid a ms pa o0 L es t s'"
    using Cons.IH [OF t(2) Cons.prems(2) ms _ _ rest step(2) L] Cons.prems(4,5) by simp
  have keep: "laid_at a ms pa q t v i \<Longrightarrow> laid_at a ms pa q s' v i" for q v i
    using IH by (simp add: regions_laid_def)
  have "laid a ms pa o0 t e" using step(4) by (cases e) auto
  then have "laid a ms pa o0 s' e" using keep by (rule laid_mono)
  then show ?case
    using IH keep step(5) by (auto simp: regions_laid_def)
qed

section \<open>External mappings\<close>

definition externally_mapped :: "page_arch \<Rightarrow> external_mapping \<Rightarrow> layout \<Rightarrow> bool" where
  "externally_mapped a em s \<longleftrightarrow>
     (let m = em_virtual_memory_mapping em in
      args_ok m (em_physical_start em) \<and>
      (\<forall>v. v - mm_start m < mm_num_bytes m \<longrightarrow>
        mapped_page a (lay_creator s) v =
          Some (msbs (em_physical_start em + (v - mm_start m)), writeable m, executable m)))"

definition only_more :: "page_arch \<Rightarrow> layout \<Rightarrow> layout \<Rightarrow> bool" where
  "only_more a s s' \<longleftrightarrow> creator_ok a (lay_creator s') \<and> keeps_pages (lay_creator s) (lay_creator s') \<and>
     lay_offset s' = lay_offset s \<and> lay_image s' = lay_image s \<and>
     (\<forall>v x. mapped_page a (lay_creator s) v = Some x \<longrightarrow> mapped_page a (lay_creator s') v = Some x)"

lemma only_more_trans: "only_more a s t \<Longrightarrow> only_more a t u \<Longrightarrow> only_more a s u"
  unfolding only_more_def using keeps_pages_trans by metis

lemma external_status:
  assumes "layout_external a em s = ret s'" "lay_status s' = Inr ()"
  shows "lay_status s = Inr ()"
  using assms unfolding layout_external_def
  by (subst (asm) rbind_eq_ret) (auto simp: status_update_ok)

lemma layout_external_step:
  assumes "layout_external a em s = ret s'" "creator_ok a (lay_creator s)"
  shows "only_more a s s'"
    "lay_status s' = Inr () \<Longrightarrow> lay_status s = Inr () \<and> externally_mapped a em s'"
proof -
  obtain st c' where c': "AddContiguousMapping a (em_virtual_memory_mapping em) (em_physical_start em) (lay_creator s) = ret (st, c')"
    "s' = s\<lparr>lay_creator := c', lay_status := status_update (lay_status s) st\<rparr>"
    using assms(1) unfolding layout_external_def by (subst (asm) rbind_eq_ret) auto
  show "only_more a s s'" using Add_returned [OF c'(1) assms(2)] by (simp add: only_more_def c'(2))
  assume "lay_status s' = Inr ()"
  then have "st = Inr ()" "lay_status s = Inr ()" by (simp_all add: c'(2) status_update_ok)
  then show "lay_status s = Inr () \<and> externally_mapped a em s'"
    using Add_returned_ok [OF c'(1) [unfolded \<open>st = Inr ()\<close>] assms(2)]
    by (simp add: externally_mapped_def Let_def c'(2))
qed

lemma externals_pass:
  assumes "for_each (layout_external a) ems s = ret s'" "creator_ok a (lay_creator s)"
  shows "only_more a s s' \<and> (lay_status s' = Inr () \<longrightarrow> lay_status s = Inr () \<and> (\<forall>em \<in> set ems. externally_mapped a em s'))"
  using assms
proof (induction ems arbitrary: s)
  case Nil
  then show ?case by (simp add: only_more_def)
next
  case (Cons em ems)
  obtain t where t: "layout_external a em s = ret t" "for_each (layout_external a) ems t = ret s'"
    using Cons.prems(1) unfolding for_each_Cons_ret by blast
  note step = layout_external_step [OF t(1) Cons.prems(2)]
  have IH: "only_more a t s' \<and> (lay_status s' = Inr () \<longrightarrow> lay_status t = Inr () \<and> (\<forall>em \<in> set ems. externally_mapped a em s'))"
    using Cons.IH [OF t(2)] step(1) by (simp add: only_more_def)
  have "externally_mapped a em t \<Longrightarrow> externally_mapped a em s'"
    using IH by (simp add: externally_mapped_def only_more_def Let_def)
  then show ?case using step IH only_more_trans [of a s t s'] by auto
qed

section \<open>The whole pass that copies\<close>

lemma LayoutPageTable_copied:
  assumes run: "LayoutPageTable a ms pa ems True off img = ret (Inr c, img')" and ms: "state_ok ms"
    and L: "unat off \<le> 2 ^ 62" "length img < 2 ^ 64"
  obtains s where "lay_creator s = c" "lay_image s = img'" "creator_ok a c" "ptc_addr c = pa" "granule_aligned pa"
    "fits48 pa" "length img' = length img" "unat off \<le> length img" "unat (lay_offset s) = length img'"
    "\<And>e. e \<in> set (ms_mapped_memory_map ms) \<Longrightarrow> laid a ms pa (unat off) s e"
    "\<And>em. em \<in> set ems \<Longrightarrow> externally_mapped a em s"
proof -
  let ?f = "layout_region a ms pa True"
  obtain c0 s1 s2 where c0: "PageTableCreator pa = ret c0"
    and s1: "MappedMemoryMap_Iterate ?f (ms_mapped_memory_map ms)
        \<lparr>lay_creator = c0, lay_status = Inr (), lay_offset = off, lay_image = img\<rparr> = ret s1"
    and s2: "for_each (layout_external a) ems s1 = ret s2"
    and fin: "(case lay_status s2 of Inl e \<Rightarrow> ret (Inl e, lay_image s2)
       | Inr _ \<Rightarrow> rbind (check (unat (lay_offset s2) = length (lay_image s2)) ''data_offset == memory_image_data.size()'')
           (\<lambda>_. ret (Inr (lay_creator s2), lay_image s2))) = ret (Inr c, img')"
  proof -
    obtain c0 where c0: "PageTableCreator pa = ret c0"
      using run unfolding LayoutPageTable_def by (cases "PageTableCreator pa" rule: res_cases) auto
    obtain s1 where s1: "MappedMemoryMap_Iterate ?f (ms_mapped_memory_map ms)
        \<lparr>lay_creator = c0, lay_status = Inr (), lay_offset = off, lay_image = img\<rparr> = ret s1"
      using run unfolding LayoutPageTable_def c0 rbind_simps Let_def
      by (cases "MappedMemoryMap_Iterate ?f (ms_mapped_memory_map ms)
        \<lparr>lay_creator = c0, lay_status = Inr (), lay_offset = off, lay_image = img\<rparr>" rule: res_cases) auto
    obtain s2 where s2: "for_each (layout_external a) ems s1 = ret s2"
      using run unfolding LayoutPageTable_def c0 rbind_simps Let_def s1
      by (cases "for_each (layout_external a) ems s1" rule: res_cases) auto
    show thesis
      using run unfolding LayoutPageTable_def c0 rbind_simps Let_def s1 s2 if_True by (rule that [OF c0 s1 s2])
  qed
  have st: "lay_status s2 = Inr ()" "c = lay_creator s2" "img' = lay_image s2" "unat (lay_offset s2) = length (lay_image s2)"
    using fin by (cases "lay_status s2"; simp add: check_def split: if_splits)+
  note C = PageTableCreator_ok [OF c0]
  have map: "mapped_map_ok (ms_mapped_memory_map ms)" and bm: "bytes_map_ok (ms_written_memory_bytes ms)"
    using ms by (simp_all add: state_ok_def)
  have sorted: "sorted_wrt (\<lambda>e f. entry_limit e \<le> entry_start f) (ms_mapped_memory_map ms)"
    using map by (simp add: mapped_map_ok_def ranges_ok_def)
  have f: "?f (entry_start i) (entry_limit i) (snd i) = region a ms pa i" for i by simp
  have fe: "for_each (region a ms pa) (ms_mapped_memory_map ms)
      \<lparr>lay_creator = c0, lay_status = Inr (), lay_offset = off, lay_image = img\<rparr> = ret s1"
    using s1 by (simp add: MappedMemoryMap_Iterate_def)
  have inv0: "pass_inv a pa (unat off) (length img) 0
      \<lparr>lay_creator = c0, lay_status = Inr (), lay_offset = off, lay_image = img\<rparr>"
    using C by (simp add: pass_inv_def)
  have st1: "lay_status s1 = Inr ()"
    by (rule for_each_back [where P = "\<lambda>s. lay_status s = Inr ()", OF _ s2 st(1)])
      (simp add: external_status)
  have laid1: "regions_laid a ms pa (unat off) (length img) (ms_mapped_memory_map ms)
      \<lparr>lay_creator = c0, lay_status = Inr (), lay_offset = off, lay_image = img\<rparr> s1"
    by (rule regions_pass [OF fe st1 bm sorted _ _ inv0 L(2,1)]) (simp_all add: entry_pos [OF map])
  then have ok1: "creator_ok a (lay_creator s1)" "ptc_addr (lay_creator s1) = pa"
    "length (lay_image s1) = length img" "unat off \<le> unat (lay_offset s1)"
    by (auto simp: regions_laid_def pass_inv_def)
  have ext: "only_more a s1 s2" "\<And>em. em \<in> set ems \<Longrightarrow> externally_mapped a em s2"
    using externals_pass [OF s2 ok1(1)] st(1) by auto
  have more: "laid_at a ms pa q s1 v i \<Longrightarrow> laid_at a ms pa q s2 v i" for q v i
    using ext(1) by (simp add: laid_at_def only_more_def)
  show thesis
  proof (rule that [of s2])
    show "laid a ms pa (unat off) s2 e" if "e \<in> set (ms_mapped_memory_map ms)" for e
      using laid1 that more by (auto simp: regions_laid_def intro: laid_mono)
    show "granule_aligned pa" "fits48 pa" using c0 by (simp_all add: PageTableCreator_ret)
    show "creator_ok a c" "ptc_addr c = pa" "length img' = length img" "unat off \<le> length img"
      using ext(1) ok1 st by (auto simp: only_more_def keeps_pages_def)
  qed (use st ext in auto)
qed

end
