(* ===== verification/Memory_Image_Build.thy ===== *)
theory Memory_Image_Build
  imports Memory_Image_Facts
begin

text \<open>
  Both passes of \<open>Build\<close> need the same pages of entries, so the size measured by the first is the
  size of the table of the second; and what the image holds when \<open>Build\<close> gives one.
\<close>

section \<open>The pages of entries a pass needs\<close>

definition region_needs :: "(address, memory_perms) entry \<Rightarrow> (nat \<times> u64) set" where
  "region_needs e = needed_pages \<lparr>mm_start = entry_start e, mm_num_bytes = entry_limit e - entry_start e,
     mm_perms = snd e\<rparr> (entry_limit e - entry_start e)"

definition external_needs :: "external_mapping \<Rightarrow> (nat \<times> u64) set" where
  "external_needs em = needed_pages (em_virtual_memory_mapping em) (mm_num_bytes (em_virtual_memory_mapping em))"

text \<open>The addresses a pass maps.\<close>

definition region_addresses :: "(address, memory_perms) entry \<Rightarrow> u64 set" where
  "region_addresses e = {v. v - entry_start e < entry_limit e - entry_start e}"

definition external_addresses :: "external_mapping \<Rightarrow> u64 set" where
  "external_addresses em = {v. v - mm_start (em_virtual_memory_mapping em) < mm_num_bytes (em_virtual_memory_mapping em)}"

definition uses :: "page_arch \<Rightarrow> (nat \<times> u64) set \<Rightarrow> u64 set \<Rightarrow> layout \<Rightarrow> layout \<Rightarrow> bool" where
  "uses a N D s s' \<longleftrightarrow> creator_ok a (lay_creator s') \<and>
     dom (mapped_page a (lay_creator s')) \<subseteq> dom (mapped_page a (lay_creator s)) \<union> D \<and>
     (lay_status s' = Inr () \<longrightarrow>
       lay_status s = Inr () \<and> used_pages (lay_creator s') = used_pages (lay_creator s) \<union> N)"

lemma Add_used:
  assumes "AddContiguousMapping a m pa c = ret (Inr (), c')" "creator_ok a c"
  shows "used_pages c' = used_pages c \<union> needed_pages m (mm_num_bytes m)"
  using AddContiguousMapping_args_ok [OF Add_returned_ok(1) [OF assms] assms(2)] assms(1)
  by (simp add: mapping_added_def)

lemma copy_region_ret:
  "copy_region ms b m s = ret t \<Longrightarrow> lay_creator t = lay_creator s \<and> lay_status t = lay_status s"
  by (cases "memory_bytes_at (mm_start m) (mm_num_bytes m) ms" rule: res_cases)
    (auto simp: copy_region_def check_def split: if_splits)

lemma needed_pages_cong: "mm_start m = mm_start m' \<Longrightarrow> needed_pages m n = needed_pages m' n"
  by (simp add: needed_pages_def)

lemma region_uses:
  assumes run: "layout_region a ms pa b (entry_start e) (entry_limit e) (snd e) s = ret s'"
    and c: "creator_ok a (lay_creator s)"
  shows "uses a (region_needs e) (region_addresses e) s s'"
proof -
  obtain m where m: "MakeRanged (entry_start e) (entry_limit e) (MemoryPerms_ClearPermission kMapped (snd e)) = ret m"
    using run unfolding layout_region_def Let_def
    by (cases "MakeRanged (entry_start e) (entry_limit e) (MemoryPerms_ClearPermission kMapped (snd e))" rule: res_cases) auto
  obtain st c' where add: "AddContiguousMapping a m (pa + lay_offset s) (lay_creator s) = ret (st, c')"
    using run unfolding layout_region_def Let_def m rbind_simps
    by (cases "AddContiguousMapping a m (pa + lay_offset s) (lay_creator s)" rule: res_cases) auto
  obtain t where t: "copy_region ms b m (s\<lparr>lay_creator := c', lay_status := status_update (lay_status s) st\<rparr>) = ret t"
    "s' = t\<lparr>lay_offset := lay_offset t + mm_num_bytes m\<rparr>"
    using run unfolding layout_region_def Let_def m add rbind_simps prod.case
    by (cases "copy_region ms b m (s\<lparr>lay_creator := c', lay_status := status_update (lay_status s) st\<rparr>)" rule: res_cases) auto
  have s': "lay_creator s' = c'" "lay_status s' = status_update (lay_status s) st"
    using copy_region_ret [OF t(1)] by (simp_all add: t(2))
  have mm: "mm_start m = entry_start e" "mm_num_bytes m = entry_limit e - entry_start e"
    using m by (auto simp: MakeRanged_ret)
  have "used_pages c' = used_pages (lay_creator s) \<union> region_needs e" if "st = Inr ()"
    using Add_used [OF add [unfolded that] c] mm needed_pages_cong by (simp add: region_needs_def needed_pages_def)
  moreover have "dom (mapped_page a c') \<subseteq> dom (mapped_page a (lay_creator s)) \<union> region_addresses e"
    using Add_returned(4) [OF add c] mm by (auto simp: region_addresses_def)
  ultimately show ?thesis
    using Add_returned(1) [OF add c] by (auto simp: uses_def s' status_update_ok)
qed

lemma external_uses:
  assumes "layout_external a em s = ret s'" "creator_ok a (lay_creator s)"
  shows "uses a (external_needs em) (external_addresses em) s s'"
proof -
  obtain st c' where c': "AddContiguousMapping a (em_virtual_memory_mapping em) (em_physical_start em) (lay_creator s) = ret (st, c')"
    "s' = s\<lparr>lay_creator := c', lay_status := status_update (lay_status s) st\<rparr>"
    using assms(1) unfolding layout_external_def by (subst (asm) rbind_eq_ret) auto
  have "dom (mapped_page a c') \<subseteq> dom (mapped_page a (lay_creator s)) \<union> external_addresses em"
    using Add_returned(4) [OF c'(1) assms(2)] by (auto simp: external_addresses_def)
  then show ?thesis
    using Add_returned(1) [OF c'(1) assms(2)] Add_used [OF _ assms(2)] c'
    by (auto simp: uses_def status_update_ok external_needs_def)
qed

lemma uses_trans:
  assumes st: "uses a N D s t" and tu: "uses a N' D' t u"
  shows "uses a (N \<union> N') (D \<union> D') s u"
  unfolding uses_def
proof (intro conjI impI)
  show "creator_ok a (lay_creator u)" using tu by (simp add: uses_def)
  have "dom (mapped_page a (lay_creator t)) \<subseteq> dom (mapped_page a (lay_creator s)) \<union> D"
    "dom (mapped_page a (lay_creator u)) \<subseteq> dom (mapped_page a (lay_creator t)) \<union> D'"
    using st tu by (simp_all only: uses_def)
  then show "dom (mapped_page a (lay_creator u)) \<subseteq> dom (mapped_page a (lay_creator s)) \<union> (D \<union> D')" by blast
  assume u: "lay_status u = Inr ()"
  then have t: "lay_status t = Inr ()" "used_pages (lay_creator u) = used_pages (lay_creator t) \<union> N'"
    using tu by (simp_all add: uses_def)
  then show "lay_status s = Inr ()" "used_pages (lay_creator u) = used_pages (lay_creator s) \<union> (N \<union> N')"
    using st by (simp_all add: uses_def Un_assoc)
qed

lemma for_each_uses:
  assumes "\<And>x s s'. x \<in> set xs \<Longrightarrow> f x s = ret s' \<Longrightarrow> creator_ok a (lay_creator s) \<Longrightarrow> uses a (N x) (D x) s s'"
    and "for_each f xs s = ret s'" "creator_ok a (lay_creator s)"
  shows "uses a (\<Union>x \<in> set xs. N x) (\<Union>x \<in> set xs. D x) s s'"
  using assms
proof (induction xs arbitrary: s)
  case Nil
  then show ?case by (simp add: uses_def)
next
  case (Cons x xs)
  obtain t where t: "f x s = ret t" "for_each f xs t = ret s'"
    using Cons.prems(2) unfolding for_each_Cons_ret by blast
  have st: "uses a (N x) (D x) s t" using Cons.prems(1) [OF _ t(1) Cons.prems(3)] by simp
  have "uses a (\<Union>x \<in> set xs. N x) (\<Union>x \<in> set xs. D x) t s'"
  proof (rule Cons.IH [OF _ t(2)])
    show "creator_ok a (lay_creator t)" using st by (simp add: uses_def)
    fix y s s' assume "y \<in> set xs" "f y s = ret s'" "creator_ok a (lay_creator s)"
    then show "uses a (N y) (D y) s s'" using Cons.prems(1) by simp
  qed
  then show ?case using uses_trans [OF st] by simp
qed

definition layout_needs :: "memory_state \<Rightarrow> external_mapping list \<Rightarrow> (nat \<times> u64) set" where
  "layout_needs ms ems = insert (0, 0)
     ((\<Union>e \<in> set (ms_mapped_memory_map ms). region_needs e) \<union> (\<Union>em \<in> set ems. external_needs em))"

definition layout_addresses :: "memory_state \<Rightarrow> external_mapping list \<Rightarrow> u64 set" where
  "layout_addresses ms ems =
     (\<Union>e \<in> set (ms_mapped_memory_map ms). region_addresses e) \<union> (\<Union>em \<in> set ems. external_addresses em)"

lemma LayoutPageTable_used:
  assumes run: "LayoutPageTable a ms pa ems b off img = ret (Inr c, img')"
  shows "pages_ok c" "used_pages c = layout_needs ms ems" "dom (mapped_page a c) \<subseteq> layout_addresses ms ems"
proof -
  let ?f = "\<lambda>e. layout_region a ms pa b (entry_start e) (entry_limit e) (snd e)"
  obtain c0 where c0: "PageTableCreator pa = ret c0"
    using run unfolding LayoutPageTable_def by (cases "PageTableCreator pa" rule: res_cases) auto
  let ?s = "\<lparr>lay_creator = c0, lay_status = Inr (), lay_offset = off, lay_image = img\<rparr>"
  obtain s1 where s1: "for_each ?f (ms_mapped_memory_map ms) ?s = ret s1"
    using run unfolding LayoutPageTable_def c0 rbind_simps Let_def MappedMemoryMap_Iterate_def
    by (cases "for_each ?f (ms_mapped_memory_map ms) ?s" rule: res_cases) auto
  obtain s2 where s2: "for_each (layout_external a) ems s1 = ret s2"
    using run unfolding LayoutPageTable_def c0 rbind_simps Let_def s1 MappedMemoryMap_Iterate_def
    by (cases "for_each (layout_external a) ems s1" rule: res_cases) auto
  have "(case lay_status s2 of Inl e \<Rightarrow> ret (Inl e, lay_image s2)
       | Inr _ \<Rightarrow> rbind (if b then check (unat (lay_offset s2) = length (lay_image s2)) ''data_offset == memory_image_data.size()'' else ret ())
           (\<lambda>_. ret (Inr (lay_creator s2), lay_image s2))) = ret (Inr c, img')"
    using run unfolding LayoutPageTable_def c0 rbind_simps Let_def s1 s2 MappedMemoryMap_Iterate_def .
  then have st: "lay_status s2 = Inr ()" "c = lay_creator s2"
    by (cases "lay_status s2"; simp add: check_def split: if_splits)+
  note C = PageTableCreator_ok [OF c0]
  have u1: "uses a (\<Union>e \<in> set (ms_mapped_memory_map ms). region_needs e)
      (\<Union>e \<in> set (ms_mapped_memory_map ms). region_addresses e) ?s s1"
    by (rule for_each_uses [OF region_uses s1]) (use C in simp_all)
  then have u2: "uses a (\<Union>em \<in> set ems. external_needs em) (\<Union>em \<in> set ems. external_addresses em) s1 s2"
    by (intro for_each_uses [OF external_uses s2]) (simp_all add: uses_def)
  show "pages_ok c" using u2 st by (simp add: uses_def creator_ok_def)
  show "used_pages c = layout_needs ms ems"
    using u1 u2 st C by (auto simp: uses_def layout_needs_def)
  have "dom (mapped_page a (lay_creator s1)) \<subseteq> (\<Union>e \<in> set (ms_mapped_memory_map ms). region_addresses e)"
    using u1 C(2) [of a] by (simp add: uses_def)
  then show "dom (mapped_page a c) \<subseteq> layout_addresses ms ems"
    using u2 st(2) unfolding uses_def layout_addresses_def by blast
qed

lemma passes_same_size:
  assumes "LayoutPageTable a ms pa ems b off img = ret (Inr c, img1)"
    "LayoutPageTable a ms pa ems b' off' img' = ret (Inr c', img2)"
  shows "length (ptc_entries c) = length (ptc_entries c')"
  using LayoutPageTable_used [OF assms(1)] LayoutPageTable_used [OF assms(2)] by (simp add: pages_ok_def)

section \<open>Build\<close>

text \<open>What \<open>Build\<close> does when it gives an image.\<close>

lemma Build_ret:
  assumes "Build a ms pa ems = ret (Inr img)"
  obtains c0 c img0 img1 where
    "LayoutPageTable a ms pa ems False 0 [] = ret (Inr c0, img0)"
    "LayoutPageTable a ms pa ems True (of_nat (length (ptc_entries c0)) * 8)
       (replicate (unat (of_nat (length (ptc_entries c0)) * 8 + num_written_bytes ms)) 0) = ret (Inr c, img1)"
    "length (ptc_entries c0) = length (ptc_entries c)"
    "img = \<lparr>msi_physical_address = pa,
       msi_image_data = copy_to img1 0 (take (unat (of_nat (length (ptc_entries c0)) * 8 :: u64)) (entry_bytes (ptc_entries c))),
       msi_page_table_root = pa\<rparr>"
proof -
  obtain r0 img0 where r0: "LayoutPageTable a ms pa ems False 0 [] = ret (r0, img0)"
    using assms unfolding Build_def
    by (cases "LayoutPageTable a ms pa ems False 0 []" rule: res_cases) auto
  obtain c0 where c0: "r0 = Inr c0" using assms unfolding Build_def r0 by (cases r0) auto
  let ?n = "of_nat (length (ptc_entries c0)) * 8 :: u64"
  let ?L = "LayoutPageTable a ms pa ems True ?n (replicate (unat (?n + num_written_bytes ms)) 0)"
  obtain r img1 where r: "?L = ret (r, img1)"
    using assms unfolding Build_def r0 c0 rbind_simps prod.case sum.case Let_def GetBinaryData_def
    by (cases ?L rule: res_cases) auto
  obtain c where c: "r = Inr c"
    using assms unfolding Build_def r0 c0 r rbind_simps prod.case sum.case Let_def GetBinaryData_def
    by (cases r) auto
  show thesis
    using assms that [OF r0 [unfolded c0] r [unfolded c]]
    unfolding Build_def r0 c0 r c rbind_simps prod.case sum.case Let_def GetBinaryData_def
    by (auto simp: check_def split: if_splits)
qed

lemma entry_bytes_length: "length (entry_bytes es) = 8 * length es"
  by (induction es) (simp_all add: entry_bytes_def)

lemma entry_bytes_word:
  "i < length es \<Longrightarrow> take 8 (drop (8 * i) (entry_bytes es @ rest)) = le_store 8 (es ! i)"
proof (induction es arbitrary: i)
  case (Cons e es)
  then show ?case by (cases i) (simp_all add: entry_bytes_def)
qed simp

text \<open>
  The image: the entries of a creator in order, then each byte of each mapped region at an index
  behind them; the creator maps the address of the byte to where it is loaded.
\<close>

definition image_of :: "page_arch \<Rightarrow> memory_state \<Rightarrow> u64 \<Rightarrow> external_mapping list \<Rightarrow> memory_state_image \<Rightarrow> layout \<Rightarrow> bool" where
  "image_of a ms pa ems img s \<longleftrightarrow>
     (let c = lay_creator s; n = 8 * length (ptc_entries c) in
      creator_ok a c \<and> ptc_addr c = pa \<and> granule_aligned pa \<and> fits48 pa \<and> used_pages c = layout_needs ms ems \<and>
      msi_physical_address img = pa \<and> msi_page_table_root img = pa \<and>
      n \<le> length (msi_image_data img) \<and> length (msi_image_data img) < 2 ^ 64 \<and>
      msi_image_data img = entry_bytes (ptc_entries c) @ drop n (lay_image s) \<and>
      length (lay_image s) = length (msi_image_data img) \<and> unat (lay_offset s) = length (lay_image s) \<and>
      (\<forall>e \<in> set (ms_mapped_memory_map ms). laid a ms pa n s e) \<and>
      (\<forall>em \<in> set ems. externally_mapped a em s) \<and> dom (mapped_page a c) \<subseteq> layout_addresses ms ems)"

lemma image_ofD:
  assumes "image_of a ms pa ems img s"
  defines "c \<equiv> lay_creator s" and "n \<equiv> 8 * length (ptc_entries (lay_creator s))"
  shows "creator_ok a c" "ptc_addr c = pa" "granule_aligned pa" "fits48 pa" "used_pages c = layout_needs ms ems"
    "msi_physical_address img = pa" "msi_page_table_root img = pa"
    "n \<le> length (msi_image_data img)" "length (msi_image_data img) < 2 ^ 64"
    "msi_image_data img = entry_bytes (ptc_entries c) @ drop n (lay_image s)"
    "length (lay_image s) = length (msi_image_data img)" "unat (lay_offset s) = length (lay_image s)"
    "e \<in> set (ms_mapped_memory_map ms) \<Longrightarrow> laid a ms pa n s e"
    "em \<in> set ems \<Longrightarrow> externally_mapped a em s" "dom (mapped_page a c) \<subseteq> layout_addresses ms ems"
  using assms(1) unfolding image_of_def Let_def c_def n_def by blast+

lemma Build_image:
  assumes "Build a ms pa ems = ret (Inr img)" "state_ok ms"
  obtains s where "image_of a ms pa ems img s"
proof -
  obtain c0 c img0 img1 where b: "LayoutPageTable a ms pa ems False 0 [] = ret (Inr c0, img0)"
    "LayoutPageTable a ms pa ems True (of_nat (length (ptc_entries c0)) * 8)
       (replicate (unat (of_nat (length (ptc_entries c0)) * 8 + num_written_bytes ms)) 0) = ret (Inr c, img1)"
    "length (ptc_entries c0) = length (ptc_entries c)"
    "img = \<lparr>msi_physical_address = pa,
       msi_image_data = copy_to img1 0 (take (unat (of_nat (length (ptc_entries c0)) * 8 :: u64)) (entry_bytes (ptc_entries c))),
       msi_page_table_root = pa\<rparr>"
    by (rule Build_ret [OF assms(1)])
  let ?n = "8 * length (ptc_entries c)" and ?L = "unat (of_nat (length (ptc_entries c0)) * 8 + num_written_bytes ms :: u64)"
  have "pages_ok c" by (rule LayoutPageTable_used [OF b(2)])
  then have n: "?n \<le> 2 ^ 41" by (rule entries_bound)
  have off: "unat (of_nat (length (ptc_entries c0)) * 8 :: u64) = ?n"
  proof -
    have "of_nat (length (ptc_entries c0)) * 8 = (of_nat ?n :: u64)" using b(3) by simp
    moreover have "unat (of_nat ?n :: u64) = ?n" by (rule unat_of_nat_u64) (use n in simp)
    ultimately show ?thesis by metis
  qed
  have L: "?L < 2 ^ 64" by (rule unat_u64_lt)
  obtain s where s: "lay_creator s = c" "lay_image s = img1" "creator_ok a c" "ptc_addr c = pa" "granule_aligned pa"
    "fits48 pa" "length img1 = ?L" "?n \<le> ?L" "unat (lay_offset s) = length img1"
    "\<And>e. e \<in> set (ms_mapped_memory_map ms) \<Longrightarrow> laid a ms pa ?n s e"
    "\<And>em. em \<in> set ems \<Longrightarrow> externally_mapped a em s"
    using LayoutPageTable_copied [OF b(2) assms(2)] n L unfolding off by auto
  have "msi_image_data img = entry_bytes (ptc_entries c) @ drop ?n img1"
    using off by (simp add: b(4) copy_to_def entry_bytes_length)
  then have "image_of a ms pa ems img s"
    using s n L LayoutPageTable_used(2,3) [OF b(2)]
    by (simp add: image_of_def Let_def b(4) entry_bytes_length)
  then show thesis by (rule that)
qed

section \<open>The image in memory\<close>

lemma image_loaded:
  assumes "image_of a ms pa ems img s"
  shows "loaded (lay_creator s) (image_word img)"
proof -
  let ?c = "lay_creator s" and ?n = "8 * length (ptc_entries (lay_creator s))"
  have I: "msi_image_data img = entry_bytes (ptc_entries ?c) @ drop ?n (lay_image s)"
    "msi_physical_address img = pa" "ptc_addr ?c = pa" "?n \<le> length (msi_image_data img)"
    "length (msi_image_data img) < 2 ^ 64"
    by (rule image_ofD [OF assms])+
  have "image_word img (ptc_addr ?c + of_nat (8 * i)) = ptc_entries ?c ! i" if i: "i < length (ptc_entries ?c)" for i
  proof -
    have "unat (of_nat (8 * i) :: u64) = 8 * i"
      using i I(4,5) by (intro unat_of_nat_u64) simp
    then have "image_word img (ptc_addr ?c + of_nat (8 * i)) = le_load (take 8 (drop (8 * i) (msi_image_data img)))"
      by (simp add: image_word_def I(2,3))
    also have "\<dots> = ptc_entries ?c ! i"
      unfolding I(1) entry_bytes_word [OF i] by (simp add: le_load_store)
    finally show ?thesis .
  qed
  then show ?thesis by (simp add: loaded_def)
qed

lemma image_placed:
  assumes "image_of a ms pa ems img s" "unat pa + 8 * length (ptc_entries (lay_creator s)) \<le> 2 ^ 48"
  shows "table_placed (lay_creator s)"
  using assms(2) image_ofD(2,3) [OF assms(1)] by (simp add: table_placed_def)

text \<open>A byte at an index behind the entries is where the table says.\<close>

lemma phys_addr_at:
  assumes "fits48 p" "take_bit 12 p = take_bit 12 v"
  shows "phys_addr (msbs p) v = p"
proof (rule bit_word_eqI)
  fix n assume n: "n < LENGTH(64)"
  have "n < 12 \<Longrightarrow> bit p n = bit v n"
    using arg_cong [OF assms(2), of "\<lambda>x. bit x n"] by (simp add: bit_take_bit_iff)
  then show "bit (phys_addr (msbs p) v) n = bit p n"
    using assms(1) n by (auto simp: phys_addr_def bit_set_field bit_get_field pa_physical_address_msbs_def
        pa_physical_address_lsbs_def va_physical_address_lsbs_def BIT_STRUCT_FIELD_def fits48_bit not_le intro: leI)
qed

lemma image_byte:
  assumes img: "image_of a ms pa ems img s" and e: "e \<in> set (ms_mapped_memory_map ms)" "entry_start e \<le> v" "v < entry_limit e"
  obtains i where "8 * length (ptc_entries (lay_creator s)) \<le> i" "i < length (msi_image_data img)" "unat (pa + of_nat i) = unat pa + i"
    "unat pa + i < 2 ^ 48" "fits48 v"
    "byte_at (ms_written_memory_bytes ms) v = Some (msi_image_data img ! i)"
    "mapped_page a (lay_creator s) v = Some (msbs (pa + of_nat i),
       MemoryPerms_HasPermission (snd e) kWritable, MemoryPerms_HasPermission (snd e) kExecutable)"
    "phys_addr (msbs (pa + of_nat i)) v = pa + of_nat i"
proof -
  let ?n = "8 * length (ptc_entries (lay_creator s))"
  have I: "msi_image_data img = entry_bytes (ptc_entries (lay_creator s)) @ drop ?n (lay_image s)"
    "fits48 pa" "length (lay_image s) = length (msi_image_data img)" "?n \<le> length (msi_image_data img)"
    "laid a ms pa ?n s e"
    by (rule image_ofD [OF img] e(1))+
  obtain i where i: "?n \<le> i" "laid_at a ms pa (snd e) s v i"
    using I(5) e(2,3) unfolding laid_def by blast
  have li: "i < length (lay_image s)"
  proof -
    have "i < unat (lay_offset s)" using i(2) by (simp add: laid_at_def)
    then show ?thesis using image_ofD(12) [OF img] by simp
  qed
  have u: "unat (pa + of_nat i) = unat pa + i"
  proof -
    have "unat (of_nat i :: u64) = i" using i(2) by (intro unat_of_nat_u64) (simp add: laid_at_def)
    then show ?thesis using I(2) i(2) by (subst unat_limit) (simp_all add: laid_at_def fits48_less)
  qed
  show thesis
  proof (rule that [of i])
    show "unat pa + i < 2 ^ 48" using i(2) u by (simp add: laid_at_def fits48_less)
    have "msi_image_data img ! i = lay_image s ! i"
      using i(1) li by (simp add: I(1) nth_append entry_bytes_length)
    then show "byte_at (ms_written_memory_bytes ms) v = Some (msi_image_data img ! i)"
      using i(2) by (simp add: laid_at_def)
    show "phys_addr (msbs (pa + of_nat i)) v = pa + of_nat i"
      using i(2) by (intro phys_addr_at) (simp_all add: laid_at_def)
  qed (use i u li I(3) in \<open>simp_all add: laid_at_def\<close>)
qed

end
