(* ===== verification/Page_Table_Properties.thy ===== *)
theory Page_Table_Properties
  imports Memory_Image_Build
begin

text \<open>
  The properties of page tables and memory images: entries, the creator as a map of virtual pages,
  the walk over it, and the image of a memory state.
\<close>

section \<open>One region, from beginning to end\<close>

lemma granule_aligned_diff: "granule_aligned s \<Longrightarrow> granule_aligned t \<Longrightarrow> s \<le> t \<Longrightarrow> granule_aligned (t - s)"
  by (simp add: granule_aligned_dvd unat_sub dvd_diff_nat)

lemma args_okI:
  assumes "granule_aligned (mm_start m)" "granule_aligned pa" "granule_aligned (mm_num_bytes m)"
    "mm_num_bytes m \<noteq> 0" "unat (mm_start m) + unat (mm_num_bytes m) < 2 ^ 48" "unat pa + unat (mm_num_bytes m) < 2 ^ 48"
  shows "args_ok m pa"
proof -
  have "4096 dvd unat (mm_num_bytes m)" "0 < unat (mm_num_bytes m)"
    using assms(3,4) by (simp_all add: granule_aligned_dvd unat_gt_0)
  then have n: "4096 \<le> unat (mm_num_bytes m)" by (rule dvd_imp_le)
  have e: "fits48 (x + mm_num_bytes m - kTranslationGranule) \<and> granule_aligned (x + mm_num_bytes m - kTranslationGranule)"
    if "granule_aligned x" "unat x + unat (mm_num_bytes m) < 2 ^ 48" for x
  proof -
    have u: "unat (x + mm_num_bytes m) = unat x + unat (mm_num_bytes m)" using that(2) by (intro unat_limit) simp
    then have le: "kTranslationGranule \<le> x + mm_num_bytes m"
      using n by (simp add: kTranslationGranule_def word_le_nat_alt)
    then have "unat (x + mm_num_bytes m - kTranslationGranule) = unat x + unat (mm_num_bytes m) - unat kTranslationGranule"
      by (simp only: unat_sub u)
    then show ?thesis
      using that(2) granule_aligned_diff [OF granule_aligned_granule granule_aligned_add [OF that(1) assms(3)] le]
      by (simp add: fits48_less)
  qed
  show ?thesis
    using assms e [OF assms(1,5)] e [OF assms(2,6)] by (simp add: args_ok_def fits48_less)
qed

lemma Add_fresh:
  assumes "args_ok m pa" "creator_ok a c" "mapped_page a c = (\<lambda>_. None)"
  obtains c' where "AddContiguousMapping a m pa c = ret (Inr (), c')" "creator_ok a c'"
    "mapped_page a c' = map_bytes m pa (mm_num_bytes m) (mapped_page a c)"
proof -
  obtain st c' where r: "AddContiguousMapping a m pa c = ret (st, c')" "mapping_added a m pa c (st, c')"
    using AddContiguousMapping_args_ok [OF assms(1,2)] by (auto elim: returnsE)
  show thesis
  proof (cases st)
    case (Inl e)
    then show thesis using r(2) assms(3) by (auto simp: mapping_added_def stopped_at_def)
  next
    case (Inr u)
    then show thesis using that [of c'] r by (simp add: mapping_added_def)
  qed
qed

lemma Layout_one_region:
  assumes ms: "ms_mapped_memory_map ms = [((s, l), p)]" "bytes_map_ok (ms_written_memory_bytes ms)" "s < l"
    and al: "granule_aligned s" "granule_aligned l" "granule_aligned pa" "granule_aligned off"
    and sm: "unat l < 2 ^ 48" "unat pa + unat off + unat (l - s) < 2 ^ 48"
    and cp: "b \<Longrightarrow> known ms s (l - s) \<and> length img = unat off + unat (l - s)"
  shows "\<exists>c img'. LayoutPageTable a ms pa [] b off img = ret (Inr c, img')"
proof -
  let ?p = "MemoryPerms_ClearPermission kMapped p"
  let ?m = "\<lparr>mm_start = s, mm_num_bytes = l - s, mm_perms = ?p\<rparr>"
  have f: "fits48 pa" using sm(2) by (simp add: fits48_less)
  obtain c0 where c0: "PageTableCreator pa = ret c0" using f al(3) by (simp add: PageTableCreator_ret)
  note C = PageTableCreator_ok [OF c0]
  have m: "MakeRanged s l ?p = ret ?m"
    by (rule MakeRanged_ok [OF ms(3)]) simp
  note sz = region_sizes [OF ms(3)]
  have up: "unat (pa + off) = unat pa + unat off" using sm(2) by (intro unat_limit) simp
  have "args_ok ?m (pa + off)"
    using al sm ms(3) sz up by (intro args_okI) (auto intro: granule_aligned_add granule_aligned_diff)
  then obtain c where c: "AddContiguousMapping a ?m (pa + off) c0 = ret (Inr (), c)"
    using Add_fresh C(1,2) by metis
  let ?s = "\<lparr>lay_creator = c, lay_status = Inr (), lay_offset = off, lay_image = img\<rparr>"
  obtain img' where img': "copy_region ms b ?m ?s = ret (?s\<lparr>lay_image := img'\<rparr>)"
    "b \<longrightarrow> unat (off + (l - s)) = length img'"
  proof (cases b)
    case True
    have n: "0 < l - s" "unat s + unat (l - s) < 2 ^ 64"
      using sz unat_u64_lt [of l] by (simp_all add: word_less_nat_alt)
    have "memory_bytes_at s (l - s) ms = ret (bytes_of ms s (l - s))"
      using cp [OF True] by (cases rule: memory_bytes_at_cases [OF ms(2) n]) auto
    moreover have len: "length (bytes_of ms s (l - s)) = unat (l - s)" by (simp add: bytes_of_def)
    moreover have "unat (off + (l - s)) = unat off + unat (l - s)" using sm(2) by (intro unat_limit) simp
    ultimately show thesis
      using that [of "copy_to img (unat off) (bytes_of ms s (l - s))"] True cp [OF True]
      by (simp add: copy_region_def copy_to_nth)
  next
    case False
    then show thesis using that [of img] by (simp add: copy_region_def)
  qed
  have "layout_region a ms pa b s l p \<lparr>lay_creator = c0, lay_status = Inr (), lay_offset = off, lay_image = img\<rparr> =
      ret (?s\<lparr>lay_image := img', lay_offset := off + (l - s)\<rparr>)"
    unfolding layout_region_def Let_def m rbind_simps
    using c img'(1) by (simp add: status_update_def)
  then show ?thesis
    using img'(2) by (cases b) (simp_all add: LayoutPageTable_def c0 MappedMemoryMap_Iterate_def ms(1))
qed

lemma Build_one_region:
  assumes ms: "ms_mapped_memory_map ms = [((s, l), p)]" "bytes_map_ok (ms_written_memory_bytes ms)" "s < l"
      "known ms s (l - s)" "num_written_bytes ms = l - s"
    and al: "granule_aligned s" "granule_aligned l" "granule_aligned pa"
    and sm: "unat l < 2 ^ 48" "unat pa + 2 ^ 41 + unat (l - s) < 2 ^ 48"
  shows "\<exists>img. Build a ms pa [] = ret (Inr img)"
proof -
  obtain c0 img0 where c0: "LayoutPageTable a ms pa [] False 0 [] = ret (Inr c0, img0)"
    using Layout_one_region [OF ms(1-3) al, of 0 False "[]" a] sm by auto
  let ?n = "of_nat (length (ptc_entries c0)) * 8 :: u64"
  let ?img = "replicate (unat (?n + num_written_bytes ms)) (0 :: byte)"
  have b: "8 * length (ptc_entries c0) \<le> 2 ^ 41" "512 dvd length (ptc_entries c0)"
    using LayoutPageTable_used(1) [OF c0] entries_bound by (auto simp: pages_ok_def)
  have n: "unat ?n = 8 * length (ptc_entries c0)"
  proof -
    have "?n = of_nat (8 * length (ptc_entries c0))" by simp
    moreover have "unat (of_nat (8 * length (ptc_entries c0)) :: u64) = 8 * length (ptc_entries c0)"
      by (rule unat_of_nat_u64) (use b in simp)
    ultimately show ?thesis by metis
  qed
  have "unat (?n + (l - s)) = unat ?n + unat (l - s)"
    using b sm n by (intro unat_limit) simp
  moreover have "granule_aligned ?n"
    unfolding granule_aligned_dvd n using mult_dvd_mono [OF dvd_refl b(2), of 8] by simp
  ultimately obtain c img1 where c: "LayoutPageTable a ms pa [] True ?n ?img = ret (Inr c, img1)"
    using Layout_one_region [OF ms(1-3) al, of ?n True ?img a] sm b n ms(4,5) by auto
  show ?thesis
    unfolding Build_def c0 rbind_simps prod.case sum.case Let_def GetBinaryData_def c
    using passes_same_size [OF c0 c] by simp
qed

section \<open>Entries\<close>

text \<open>
  C0: The fields of each descriptor and address struct tile the 64 bits from bit 0 up (an address
  struct stops at bit 47), so a setter is seen by the getter of its field and by no other field's.
\<close>

theorem bit_fields:
  "tiled 0 arm_page_fields \<and> tiled 0 arm_table_fields \<and> tiled 0 x86_page_fields \<and> tiled 0 x86_table_fields \<and>
   tiled 0 (va_fields @ [BIT_STRUCT_FIELD 48 63]) \<and> tiled 0 (pa_fields @ [BIT_STRUCT_FIELD 48 63]) \<and>
   (\<forall>fs f g v b. tiled 0 fs \<longrightarrow> f \<in> set fs \<longrightarrow> g \<in> set fs \<longrightarrow> field_fits f v \<longrightarrow>
      get_field g (set_field f v b) = (if g = f then v else get_field g b))"
proof (intro conjI allI impI)
  show "get_field g (set_field f v b) = (if g = f then v else get_field g b)"
    if "tiled 0 fs" "f \<in> set fs" "g \<in> set fs" "field_fits f v" for fs f g v b
    using tiled_bounds [OF that(1,2)] tiled_apart [OF that(1,3,2)] that(4)
    by (simp add: get_set_same get_set_apart)
qed code_simp+

theorem bit_fields_witness:
  "get_field x86_page_read_write (set_field x86_page_execute_disable 1 7) = 1 \<and>
   get_field x86_page_execute_disable (set_field x86_page_execute_disable 1 7) = 1"
proof -
  have mem: "x86_page_read_write \<in> set x86_page_fields" "x86_page_execute_disable \<in> set x86_page_fields"
    by (simp_all add: x86_page_fields_def)
  have fit: "field_fits x86_page_execute_disable 1" by code_simp
  have "tiled 0 x86_page_fields" and
    B: "\<And>f g v b. f \<in> set x86_page_fields \<Longrightarrow> g \<in> set x86_page_fields \<Longrightarrow> field_fits f v \<Longrightarrow>
      get_field g (set_field f v b) = (if g = f then v else get_field g b)"
    using bit_fields by blast+
  have "x86_page_read_write \<noteq> x86_page_execute_disable" "get_field x86_page_read_write 7 = 1" by code_simp+
  then show ?thesis using B [OF mem(2) mem(1) fit, of 7] B [OF mem(2) mem(2) fit, of 7] by simp
qed

text \<open>
  C0: For both architectures: a page descriptor made for an empty entry passes the check for exactly
  the accesses it was made for and gives the physical page back; made over an existing page it is
  that page or the error that names it. A table descriptor collects the permissions of all updates.
\<close>

theorem descriptor_contract:
  "(\<exists>e. CreatePageDescriptor a 0 pa w x = Inr e \<and>
      (\<forall>w' x' q. CheckPageDescriptor a e w' x' = Inr q \<longleftrightarrow> (w' \<longrightarrow> w) \<and> (x' \<longrightarrow> x) \<and> q = msbs pa) \<and>
      (\<forall>pa' w' x'. CreatePageDescriptor a e pa' w' x' =
        (if msbs pa' = msbs pa \<and> w' = w \<and> x' = x then Inr e else Inl (Already_exists (page_base pa))))) \<and>
   (\<forall>w' x' q. CheckTableDescriptor a (UpdateTableDescriptor a 0 pa w x) w' x' = Inr q \<longleftrightarrow>
      (w' \<longrightarrow> w) \<and> (x' \<longrightarrow> x) \<and> q = msbs pa) \<and>
   (\<forall>pa' w' x'. UpdateTableDescriptor a (UpdateTableDescriptor a 0 pa w x) pa' w' x' =
      UpdateTableDescriptor a 0 pa (w \<or> w') (x \<or> x'))"
proof -
  obtain e where e: "CreatePageDescriptor a 0 pa w x = Inr e" using entries.create_empty by blast
  have "CreatePageDescriptor a e pa' w' x' =
      (if msbs pa' = msbs pa \<and> w' = w \<and> x' = x then Inr e else Inl (Already_exists (page_base pa)))" for pa' w' x'
    using entries.create_again [OF e] entries.created_inject [OF e] by simp
  then show ?thesis
    using e entries.check_created [OF e] entries.check_updated entries.update_again
    by (auto simp: grants_def)
qed

text \<open>The permissions: a read-only page refuses writes, whatever the table above it grants.\<close>

theorem descriptor_contract_witness:
  "\<exists>e. CreatePageDescriptor AArch64 0 0x3000 False True = Inr e \<and>
     CheckPageDescriptor AArch64 e False True = Inr 3 \<and> \<not> (\<exists>q. CheckPageDescriptor AArch64 e True True = Inr q)"
proof -
  have "msbs 0x3000 = 3" by code_simp
  then show ?thesis using descriptor_contract [of AArch64 "0x3000" False True] by auto
qed

section \<open>The creator\<close>

text \<open>
  C0: \<open>AddContiguousMapping\<close> never fails a check and keeps the invariant of the creator. With
  arguments that are not page aligned or do not fit 48 bits it gives an error and changes nothing.
  Otherwise, when no page is mapped to something else, exactly the pages of the range are mapped, to
  consecutive physical pages with the permissions of the mapping; else the error names the first
  such page, and exactly the pages below it are mapped.
\<close>

theorem add_contiguous_mapping:
  assumes "creator_ok a c"
  shows "if args_ok m pa
    then \<exists>st c'. AddContiguousMapping a m pa c = ret (st, c') \<and> creator_ok a c' \<and>
      (if \<exists>off. granule_aligned off \<and> off < mm_num_bytes m \<and> conflict_at (mapped_page a c) m pa off
       then \<exists>off q. stopped_at a m pa c off q c' \<and>
         st = Inl (Failed_to_map (mm_start m + off) (Already_exists (set_field pa_physical_address_msbs q 0)))
       else st = Inr () \<and> mapped_page a c' = map_bytes m pa (mm_num_bytes m) (mapped_page a c))
    else \<exists>e. AddContiguousMapping a m pa c = ret (Inl e, c)"
proof (cases "args_ok m pa")
  case True
  obtain st c' where r: "AddContiguousMapping a m pa c = ret (st, c')" "mapping_added a m pa c (st, c')"
    using AddContiguousMapping_args_ok [OF True assms] by (auto elim: returnsE)
  have "if \<exists>off. granule_aligned off \<and> off < mm_num_bytes m \<and> conflict_at (mapped_page a c) m pa off
       then \<exists>off q. stopped_at a m pa c off q c' \<and>
         st = Inl (Failed_to_map (mm_start m + off) (Already_exists (set_field pa_physical_address_msbs q 0)))
       else st = Inr () \<and> mapped_page a c' = map_bytes m pa (mm_num_bytes m) (mapped_page a c)"
  proof (cases st)
    case (Inl e)
    then obtain off q where "stopped_at a m pa c off q c'"
      "e = Failed_to_map (mm_start m + off) (Already_exists (set_field pa_physical_address_msbs q 0))"
      using r(2) by (auto simp: mapping_added_def)
    then show ?thesis using Inl by (auto simp: stopped_at_def)
  next
    case (Inr u)
    then have "mapped_page a c' = map_bytes m pa (mm_num_bytes m) (mapped_page a c)"
      "\<not> (\<exists>off. granule_aligned off \<and> off < mm_num_bytes m \<and> conflict_at (mapped_page a c) m pa off)"
      using r(2) by (simp_all add: mapping_added_def)
    then show ?thesis using Inr by simp
  qed
  then show ?thesis using True r by (auto simp: mapping_added_def)
next
  case False
  then show ?thesis using AddContiguousMapping_bad_args [OF False] by simp
qed

text \<open>A concrete creator: four pages of code at 0x20000.\<close>

definition code_mapping :: memory_mapping where
  "code_mapping = \<lparr>mm_start = 0x20000, mm_num_bytes = 0x4000, mm_perms = MemoryPerms_XR\<rparr>"

lemma code_mapping_ok: "args_ok code_mapping 0x1000"
  by (rule args_okI) (simp_all add: code_mapping_def granule_aligned_dvd)

lemma fresh_creator:
  obtains c where "PageTableCreator 0x100000000 = ret c" "creator_ok a c" "mapped_page a c = (\<lambda>_. None)"
    "ptc_addr c = 0x100000000" "granule_aligned (0x100000000 :: u64)"
proof -
  have "\<exists>c. PageTableCreator 0x100000000 = ret c"
    by (simp add: PageTableCreator_ret fits48_less granule_aligned_dvd)
  then show thesis using that PageTableCreator_ok by blast
qed

theorem add_contiguous_mapping_witness:
  "\<exists>c c'. PageTableCreator 0x100000000 = ret c \<and> AddContiguousMapping AArch64 code_mapping 0x1000 c = ret (Inr (), c') \<and>
     mapped_page AArch64 c' = map_bytes code_mapping 0x1000 0x4000 (\<lambda>_. None)"
proof -
  obtain c where c: "PageTableCreator 0x100000000 = ret c" "creator_ok AArch64 c" "mapped_page AArch64 c = (\<lambda>_. None)"
    by (rule fresh_creator)
  have "\<not> conflict_at (mapped_page AArch64 c) code_mapping 0x1000 off" for off
    by (simp add: conflict_at_def c(3))
  then show ?thesis
    using add_contiguous_mapping [OF c(2), of code_mapping "0x1000"] code_mapping_ok c
    by (auto simp: code_mapping_def)
qed

text \<open>
  C0: When the entries of a creator are loaded at the address it was made for, inside the 48-bit
  address space, the walk from there translates an address exactly when its page is mapped with
  permissions that grant the access, to that physical page and the same offset.
\<close>

theorem page_walk:
  assumes "creator_ok a c" "loaded c mem" "granule_aligned (ptc_addr c)" "unat (ptc_addr c) + 2 ^ 41 \<le> 2 ^ 48" "fits48 v"
  shows "TranslateVirtualAddress a mem (ptc_addr c) v w x = Inr p \<longleftrightarrow>
    (\<exists>q W X. mapped_page a c v = Some (q, W, X) \<and> (w \<longrightarrow> W) \<and> (x \<longrightarrow> X) \<and> p = phys_addr q v)"
proof -
  have "8 * length (ptc_entries c) \<le> 2 ^ 41" using assms(1) by (intro entries_bound) (simp add: creator_ok_def)
  then have "table_placed c" using assms(3,4) by (simp add: table_placed_def)
  then show ?thesis using Translate_mapped [OF assms(1) _ assms(2,5)] by (simp add: grants_def)
qed

lemma loaded_exists: "unat (ptc_addr c) + 8 * length (ptc_entries c) < 2 ^ 64 \<Longrightarrow> \<exists>mem. loaded c mem"
  by (rule exI [of _ "\<lambda>p. ptc_entries c ! (unat (p - ptc_addr c) div 8)"])
    (auto simp: loaded_def unat_of_nat_u64 simp del: of_nat_mult)

theorem page_walk_witness:
  "\<exists>c mem. creator_ok AArch64 c \<and> loaded c mem \<and>
     TranslateVirtualAddress AArch64 mem 0x100000000 0x22345 False True = Inr 0x3345 \<and>
     (\<forall>p. TranslateVirtualAddress AArch64 mem 0x100000000 0x22345 True True \<noteq> Inr p) \<and>
     (\<forall>p. TranslateVirtualAddress AArch64 mem 0x100000000 0x24000 False False \<noteq> Inr p)"
proof -
  obtain c0 where c0: "PageTableCreator 0x100000000 = ret c0" "creator_ok AArch64 c0"
    "mapped_page AArch64 c0 = (\<lambda>_. None)" "ptc_addr c0 = 0x100000000" "granule_aligned (0x100000000 :: u64)"
    by (rule fresh_creator)
  obtain c where c: "AddContiguousMapping AArch64 code_mapping 0x1000 c0 = ret (Inr (), c)" "creator_ok AArch64 c"
    "mapped_page AArch64 c = map_bytes code_mapping 0x1000 (mm_num_bytes code_mapping) (mapped_page AArch64 c0)"
    by (rule Add_fresh [OF code_mapping_ok c0(2,3)])
  have addr: "ptc_addr c = 0x100000000"
    using Add_returned(2) [OF c(1) c0(2)] c0(4) by (simp add: keeps_pages_def)
  have "8 * length (ptc_entries c) \<le> 2 ^ 41" using c(2) by (intro entries_bound) (simp add: creator_ok_def)
  then obtain mem where mem: "loaded c mem" using loaded_exists [of c] addr by auto
  have perms: "\<not> writeable code_mapping" "executable code_mapping"
    unfolding code_mapping_def memory_mapping.simps by code_simp+
  have m: "mapped_page AArch64 c 0x22345 = Some (msbs 0x3345, False, True)" "mapped_page AArch64 c 0x24000 = None"
    unfolding c(3) map_bytes_def c0(3) using perms by (simp_all add: code_mapping_def)
  have "phys_addr (msbs 0x3345) 0x22345 = 0x3345" by code_simp
  then have "TranslateVirtualAddress AArch64 mem 0x100000000 0x22345 False True = Inr 0x3345"
    "TranslateVirtualAddress AArch64 mem 0x100000000 0x22345 True True \<noteq> Inr p"
    "TranslateVirtualAddress AArch64 mem 0x100000000 0x24000 False False \<noteq> Inr p" for p
    using page_walk [OF c(2) mem, unfolded addr, OF c0(5), of "0x22345"]
      page_walk [OF c(2) mem, unfolded addr, OF c0(5), of "0x24000"] m
    by (auto simp add: fits48_less)
  then show ?thesis using c(2) mem by blast
qed

section \<open>Images of memory states\<close>

text \<open>
  C0: The table has a page of 512 entries for each interval that some mapped or external address
  needs, and no other: its size depends on neither pass, address nor offset, so the size \<open>Build\<close>
  measures is right; and it is at most 2 TiB.
\<close>

theorem table_size:
  assumes "LayoutPageTable a ms pa ems b off img = ret (Inr c, img')"
  shows "length (GetBinaryData c) = 512 * card (layout_needs ms ems) \<and> 8 * length (GetBinaryData c) \<le> 2 ^ 41"
proof
  show "length (GetBinaryData c) = 512 * card (layout_needs ms ems)"
    using LayoutPageTable_used [OF assms] by (simp add: GetBinaryData_def pages_ok_def)
  show "8 * length (GetBinaryData c) \<le> 2 ^ 41"
    using entries_bound [OF LayoutPageTable_used(1) [OF assms]] by (simp add: GetBinaryData_def)
qed

definition one_page :: memory_state where
  "one_page = \<lparr>ms_mapped_memory_map = [((0x1000, 0x2000), MemoryPerms_AllPlusMapped)],
     ms_written_memory_set = [((0x1000, 0x2000), kDummyMappedValue)],
     ms_written_memory_bytes = [((0x1000, 0x2000), replicate 4096 0xAB)]\<rparr>"

lemma one_page_fields:
  "ms_mapped_memory_map one_page = [((0x1000, 0x2000), MemoryPerms_AllPlusMapped)]"
  "num_written_bytes one_page = 0x2000 - 0x1000"
  by (simp_all add: one_page_def num_written_bytes_def MemoryBytesSet_byte_size_def)

lemma one_page_ok: "state_ok one_page"
proof -
  have "mapped_map_ok (ms_mapped_memory_map one_page)"
    by (simp add: one_page_def mapped_map_ok_def ranges_ok_def pm.canonical_def)
  moreover have "bytes_set_ok (ms_written_memory_set one_page)" "bytes_map_ok (ms_written_memory_bytes one_page)"
    by (simp_all add: one_page_def bytes_set_ok_def bytes_map_ok_def ranges_ok_def bs.canonical_def mb.canonical_def)
  ultimately show ?thesis
    unfolding state_ok_def by (auto simp: one_page_def perms_at_def byte_at_def addresses_def split: if_splits)
qed

lemma one_page_byte: "0x1000 \<le> v \<Longrightarrow> v < 0x2000 \<Longrightarrow> byte_at (ms_written_memory_bytes one_page) v = Some 0xAB"
proof -
  assume v: "0x1000 \<le> v" "v < (0x2000 :: u64)"
  then have "unat (v - 0x1000) < 4096" by (simp add: unat_sub word_le_nat_alt word_less_nat_alt)
  then show ?thesis using v by (simp add: byte_at_def one_page_def)
qed

lemma one_page_known: "known one_page 0x1000 (0x2000 - 0x1000)"
  by (subst known_range) (simp_all add: one_page_byte)

lemma one_page_aligned: "granule_aligned 0x1000" "granule_aligned 0x2000" "granule_aligned 0x100000000"
  by (simp_all add: granule_aligned_dvd)

theorem table_size_witness:
  "\<exists>c img'. LayoutPageTable X86_64 one_page 0x100000000 [] False 0 [] = ret (Inr c, img') \<and> length (GetBinaryData c) = 2048"
proof -
  let ?m = "\<lparr>mm_start = 0x1000, mm_num_bytes = 0x1000, mm_perms = MemoryPerms_AllPlusMapped\<rparr>"
  obtain c img' where c: "LayoutPageTable X86_64 one_page 0x100000000 [] False 0 [] = ret (Inr c, img')"
    using Layout_one_region [OF one_page_fields(1) _ _ one_page_aligned, of 0 False "[]" X86_64] one_page_ok
    by (auto simp: state_ok_def)
  have "args_ok ?m 0x1000"
    by (rule args_okI) (simp_all add: granule_aligned_dvd)
  then have "needed_pages ?m (0 + kTranslationGranule) = path 0x1000 4"
    by (subst needed_pages_step) simp_all
  moreover have "path 0x1000 4 = {(0, 0), (1, 0), (2, 0), (3, 0)}"
  proof -
    have "interval 0x1000 0 = 0" "interval 0x1000 1 = 0" "interval 0x1000 2 = 0" "interval 0x1000 3 = 0"
      by code_simp+
    then show ?thesis by (simp add: path_def lessThan_Suc numeral_eq_Suc insert_commute)
  qed
  ultimately have "layout_needs one_page [] = {(0, 0), (1, 0), (2, 0), (3, 0)}"
    by (simp add: layout_needs_def region_needs_def one_page_fields kTranslationGranule_def needed_pages_def)
  then show ?thesis using table_size [OF c] c by simp
qed

text \<open>
  C0: In the image that \<open>Build\<close> gives for a memory state, loaded at its address, the walk from the
  root translates every mapped address for the accesses its region permits; the physical address
  is inside the image, and the byte there is the byte of the memory state.
\<close>

theorem image_translates:
  assumes "Build a ms pa ems = ret (Inr img)" "state_ok ms"
    and "perms_at (ms_mapped_memory_map ms) v = Some perms"
    and "w \<longrightarrow> MemoryPerms_HasPermission perms kWritable" "x \<longrightarrow> MemoryPerms_HasPermission perms kExecutable"
  shows "\<exists>i < length (msi_image_data img).
    TranslateVirtualAddress a (image_word img) (msi_page_table_root img) v w x = Inr (msi_physical_address img + of_nat i) \<and>
    unat (msi_physical_address img + of_nat i) = unat (msi_physical_address img) + i \<and>
    byte_at (ms_written_memory_bytes ms) v = Some (msi_image_data img ! i)"
proof -
  obtain s where s: "image_of a ms pa ems img s" by (rule Build_image [OF assms(1,2)])
  have map: "mapped_map_ok (ms_mapped_memory_map ms)" using assms(2) by (simp add: state_ok_def)
  obtain e where e: "e \<in> set (ms_mapped_memory_map ms)" "entry_start e \<le> v" "v < entry_limit e" "perms = snd e"
    using assms(3) perms_at_Some_iff [OF map] by auto
  obtain i where i: "8 * length (ptc_entries (lay_creator s)) \<le> i" "i < length (msi_image_data img)" "unat (pa + of_nat i) = unat pa + i"
    "unat pa + i < 2 ^ 48" "fits48 v" "byte_at (ms_written_memory_bytes ms) v = Some (msi_image_data img ! i)"
    "mapped_page a (lay_creator s) v = Some (msbs (pa + of_nat i),
       MemoryPerms_HasPermission (snd e) kWritable, MemoryPerms_HasPermission (snd e) kExecutable)"
    "phys_addr (msbs (pa + of_nat i)) v = pa + of_nat i"
    by (rule image_byte [OF s e(1-3)])
  have "table_placed (lay_creator s)" using image_placed [OF s] i(1,4) by simp
  then have "TranslateVirtualAddress a (image_word img) pa v w x = Inr (pa + of_nat i)"
    using Translate_mapped [OF image_ofD(1) [OF s] _ image_loaded [OF s] i(5), of w x "pa + of_nat i"]
      image_ofD(2) [OF s] i(7,8) assms(4,5) e(4) by (auto simp: grants_def)
  then show ?thesis using i image_ofD(6,7) [OF s] by auto
qed

lemma one_page_built: "\<exists>img. Build a one_page 0x100000000 [] = ret (Inr img)"
  by (rule Build_one_region [OF one_page_fields(1) _ _ one_page_known one_page_fields(2) one_page_aligned])
    (use one_page_ok in \<open>simp_all add: state_ok_def\<close>)

theorem image_translates_witness:
  "\<exists>img i. Build X86_64 one_page 0x100000000 [] = ret (Inr img) \<and> i < length (msi_image_data img) \<and>
     TranslateVirtualAddress X86_64 (image_word img) (msi_page_table_root img) 0x1234 True True =
       Inr (msi_physical_address img + of_nat i) \<and> msi_image_data img ! i = 0xAB"
proof -
  obtain img where img: "Build X86_64 one_page 0x100000000 [] = ret (Inr img)" using one_page_built by blast
  have "perms_at (ms_mapped_memory_map one_page) 0x1234 = Some MemoryPerms_AllPlusMapped"
    by (simp add: one_page_def perms_at_def)
  moreover have "MemoryPerms_HasPermission MemoryPerms_AllPlusMapped kWritable"
    "MemoryPerms_HasPermission MemoryPerms_AllPlusMapped kExecutable" by code_simp+
  ultimately show ?thesis
    using image_translates [OF img one_page_ok, of "0x1234" _ True True] img one_page_byte [of "0x1234"] by fastforce
qed

lemma phys_addr_range:
  assumes "args_ok m pa" "v - mm_start m < mm_num_bytes m"
  shows "phys_addr (msbs (pa + (v - mm_start m))) v = pa + (v - mm_start m)"
proof (rule phys_addr_at)
  have al: "granule_aligned (mm_start m)" "granule_aligned pa" by (rule args_ok_aligned [OF assms(1)])+
  show "take_bit 12 (pa + (v - mm_start m)) = take_bit 12 v"
    using take_bit_aligned_add [OF al(2)] take_bit_aligned_add [OF al(1), of "v - mm_start m"] by simp
  show "fits48 (pa + (v - mm_start m))"
    by (rule range_fits(2) [OF assms])
qed

text \<open>
  C0: In an image whose table ends in the 48-bit address space (it is at most 2 TiB) an external
  mapping is translated to its physical range, and nothing but the regions of the memory state and the external mappings is translated.
\<close>

theorem image_only_translates:
  assumes "Build a ms pa ems = ret (Inr img)" "state_ok ms"
    and "unat pa + 2 ^ 41 \<le> 2 ^ 48" "fits48 v"
  defines "tr \<equiv> TranslateVirtualAddress a (image_word img) (msi_page_table_root img) v"
  shows "(\<forall>em \<in> set ems. let m = em_virtual_memory_mapping em in
      v - mm_start m < mm_num_bytes m \<longrightarrow>
      tr (writeable m) (executable m) = Inr (em_physical_start em + (v - mm_start m))) \<and>
    (\<forall>w x p. tr w x = Inr p \<longrightarrow> perms_at (ms_mapped_memory_map ms) v \<noteq> None \<or>
      (\<exists>em \<in> set ems. let m = em_virtual_memory_mapping em in v - mm_start m < mm_num_bytes m))"
proof -
  obtain s where s: "image_of a ms pa ems img s" by (rule Build_image [OF assms(1,2)])
  have map: "mapped_map_ok (ms_mapped_memory_map ms)" using assms(2) by (simp add: state_ok_def)
  have "8 * length (ptc_entries (lay_creator s)) \<le> 2 ^ 41"
    using image_ofD(1) [OF s] by (intro entries_bound) (simp add: creator_ok_def)
  then have "table_placed (lay_creator s)"
    using image_placed [OF s] assms(3) by simp
  then have tr: "tr w x = Inr p \<longleftrightarrow> (\<exists>q W X. mapped_page a (lay_creator s) v = Some (q, W, X) \<and> grants W X w x \<and> p = phys_addr q v)" for w x p
    using Translate_mapped [OF image_ofD(1) [OF s] _ image_loaded [OF s] assms(4)] image_ofD(2,7) [OF s]
    by (simp add: tr_def)
  have "tr (writeable m) (executable m) = Inr (em_physical_start em + (v - mm_start m))"
    if em: "em \<in> set ems" and m: "m = em_virtual_memory_mapping em" and v: "v - mm_start m < mm_num_bytes m" for em m
  proof -
    have x: "args_ok m (em_physical_start em)"
      "mapped_page a (lay_creator s) v = Some (msbs (em_physical_start em + (v - mm_start m)), writeable m, executable m)"
      using image_ofD(14) [OF s em] v by (simp_all add: externally_mapped_def Let_def m)
    show ?thesis
      unfolding tr using x phys_addr_range [OF x(1) v] by auto
  qed
  moreover have "perms_at (ms_mapped_memory_map ms) v \<noteq> None \<or> (\<exists>em \<in> set ems. v \<in> external_addresses em)"
    if "tr w x = Inr p" for w x p
  proof -
    have "v \<in> layout_addresses ms ems" using that image_ofD(15) [OF s] unfolding tr by blast
    moreover have "perms_at (ms_mapped_memory_map ms) v \<noteq> None" if "e \<in> set (ms_mapped_memory_map ms)" "v \<in> region_addresses e" for e
      using that perms_at_entry [OF map that(1)] in_region [OF entry_pos [OF map that(1)], of v]
      by (simp add: region_addresses_def)
    ultimately show ?thesis unfolding layout_addresses_def by blast
  qed
  ultimately show ?thesis by (auto simp: Let_def external_addresses_def)
qed

text \<open>Only the page itself is translated.\<close>

theorem image_only_translates_witness:
  "\<exists>img. Build AArch64 one_page 0x100000000 [] = ret (Inr img) \<and>
     (\<forall>w x p. TranslateVirtualAddress AArch64 (image_word img) (msi_page_table_root img) 0x2000 w x \<noteq> Inr p)"
proof -
  obtain img where img: "Build AArch64 one_page 0x100000000 [] = ret (Inr img)" using one_page_built by blast
  have "perms_at (ms_mapped_memory_map one_page) 0x2000 = None"
    by (simp add: one_page_def perms_at_def)
  then show ?thesis
    using image_only_translates [OF img one_page_ok, of "0x2000"] img by (auto simp: fits48_less)
qed

end
