(* ===== verification/Mem_Util.thy ===== *)
theory Mem_Util
  imports Le_Bytes
begin

text \<open>
  The copying and comparing of memory of \<open>util/mem_util.h\<close> and \<open>mem_util.cc\<close>. A buffer is its address
  and the bytes there; words of 64 bits are used when all addresses and the size are aligned.
\<close>

section \<open>The code\<close>

definition aligned8 :: "u64 \<Rightarrow> bool" where
  "aligned8 a \<longleftrightarrow> a mod 8 = 0"

text \<open>The \<open>i\<close>-th word of a buffer, and a word written there.\<close>

definition u64_at :: "byte list \<Rightarrow> nat \<Rightarrow> u64" where
  "u64_at bs i = le_load (take 8 (drop (8 * i) bs))"

definition set_u64 :: "nat \<Rightarrow> u64 \<Rightarrow> byte list \<Rightarrow> byte list" where
  "set_u64 i w bs = take (8 * i) bs @ le_store 8 w @ drop (8 * i + 8) bs"

definition replicated :: "byte \<Rightarrow> u64" where
  "replicated c = ucast c * 0x0101010101010101"

definition MemCopy :: "u64 \<Rightarrow> byte list \<Rightarrow> u64 \<Rightarrow> byte list \<Rightarrow> byte list" where
  "MemCopy dest dest_bytes src src_bytes =
     (let n = length src_bytes in
      if \<not> aligned8 dest \<or> \<not> aligned8 src \<or> n mod 8 \<noteq> 0
      then fold (\<lambda>i d. d[i := src_bytes ! i]) [0..<n] dest_bytes
      else fold (\<lambda>i d. set_u64 i (u64_at src_bytes i) d) [0..<n div 8] dest_bytes)"

definition MemSet :: "u64 \<Rightarrow> byte list \<Rightarrow> byte \<Rightarrow> byte list" where
  "MemSet dest dest_bytes c =
     (let n = length dest_bytes in
      if \<not> aligned8 dest \<or> n mod 8 \<noteq> 0
      then fold (\<lambda>i d. d[i := c]) [0..<n] dest_bytes
      else fold (\<lambda>i d. set_u64 i (replicated c) d) [0..<n div 8] dest_bytes)"

definition MemEq :: "u64 \<Rightarrow> byte list \<Rightarrow> u64 \<Rightarrow> byte list \<Rightarrow> bool" where
  "MemEq s1 bytes1 s2 bytes2 =
     (let n = length bytes1 in
      if \<not> aligned8 s1 \<or> \<not> aligned8 s2 \<or> n mod 8 \<noteq> 0 then bytes1 = bytes2
      else fold (\<lambda>i diff. diff OR (u64_at bytes1 i XOR u64_at bytes2 i)) [0..<n div 8] 0 = 0)"

definition MemAllEqualToImpl :: "bool \<Rightarrow> u64 \<Rightarrow> byte list \<Rightarrow> byte \<Rightarrow> bool" where
  "MemAllEqualToImpl compare_with_zero src bytes c =
     (let c = if compare_with_zero then 0 else c; n = length bytes in
      if aligned8 src \<and> n mod 8 = 0
      then fold (\<lambda>i diff. diff OR (u64_at bytes i XOR replicated c)) [0..<n div 8] 0 = 0
      else list_all (\<lambda>b. b = c) bytes)"

definition MemAllEqualTo :: "u64 \<Rightarrow> byte list \<Rightarrow> byte \<Rightarrow> bool" where
  "MemAllEqualTo src bytes c =
     (if c = 0 then MemAllEqualToImpl True src bytes 0 else MemAllEqualToImpl False src bytes c)"

section \<open>Words of a buffer\<close>

lemma le_load_Cons: "le_load (b # bs) = (256 * le_load bs + ucast b :: u64)"
proof -
  have "push_bit 8 x OR ucast b = push_bit 8 x + (ucast b :: u64)" for x :: u64
    by (rule disjunctive_add [symmetric]) (auto simp: bit_simps dest: bit_imp_le_length)
  then show ?thesis by (simp add: push_bit_eq_mult)
qed

lemma replicated_le_load: "replicated c = le_load (replicate 8 c)"
  by (simp add: replicated_def le_load_Cons numeral_eq_Suc del: le_load.simps(2))

lemma u64_at_length: "8 * i + 8 \<le> length bs \<Longrightarrow> length (take 8 (drop (8 * i) bs)) = 8"
  by simp

lemma u64_at_eq:
  assumes "8 * i + 8 \<le> length bs" "length cs = 8"
  shows "u64_at bs i = le_load cs \<longleftrightarrow> take 8 (drop (8 * i) bs) = cs"
  using le_load_inject [of "take 8 (drop (8 * i) bs)" cs, where 'a = 64] assms by (auto simp: u64_at_def)

lemma or_fold_0: "fold (\<lambda>i diff. diff OR f i) xs d = (0 :: u64) \<longleftrightarrow> d = 0 \<and> (\<forall>i \<in> set xs. f i = 0)"
  by (induction xs arbitrary: d) (auto simp: or_eq_0_iff)

lemma xor_0: "x XOR y = (0 :: u64) \<longleftrightarrow> x = y"
  by (metis xor.right_neutral xor_self_eq xor.assoc xor.commute)

lemma diff_fold_0:
  "fold (\<lambda>i diff. diff OR (f i XOR g i)) [0..<n] 0 = (0 :: u64) \<longleftrightarrow> (\<forall>i < n. f i = g i)"
  by (auto simp: or_fold_0 xor_0)

lemma take_Suc8: "take (8 + 8 * n) xs = take (8 * n) xs @ take 8 (drop (8 * n) xs)"
  using take_add [of "8 * n" 8 xs] by (simp add: add.commute)

lemma words_eq:
  assumes "length bs = 8 * n" "length cs = 8 * n"
  shows "(\<forall>i < n. take 8 (drop (8 * i) bs) = take 8 (drop (8 * i) cs)) \<longleftrightarrow> bs = cs"
proof -
  have "take (8 * m) bs = take (8 * m) cs" if "\<forall>i < n. take 8 (drop (8 * i) bs) = take 8 (drop (8 * i) cs)" "m \<le> n" for m
    using that by (induction m) (simp_all add: take_Suc8)
  from this [of n] assms show ?thesis by auto
qed

lemma set_u64_le_load:
  "length cs = 8 \<Longrightarrow> set_u64 i (le_load cs) bs = take (8 * i) bs @ cs @ drop (8 * i + 8) bs"
  using le_store_load [of cs, where 'a = 64] by (simp add: set_u64_def)

text \<open>A loop that writes word \<open>i\<close> of \<open>src\<close> in round \<open>i\<close> copies \<open>src\<close>; likewise bytes.\<close>

lemma write_words:
  assumes "length src = 8 * n" "length dest = 8 * n" "m \<le> n"
  shows "fold (\<lambda>i d. set_u64 i (u64_at src i) d) [0..<m] dest = take (8 * m) src @ drop (8 * m) dest"
  using assms(3)
proof (induction m)
  case (Suc m)
  have "length (take 8 (drop (8 * m) src)) = 8" using Suc.prems assms(1) by simp
  then have "set_u64 m (u64_at src m) d = take (8 * m) d @ take 8 (drop (8 * m) src) @ drop (8 * m + 8) d" for d
    by (simp add: u64_at_def set_u64_le_load)
  then show ?case using Suc assms by (simp add: take_Suc8 add.commute)
qed simp

lemma write_bytes:
  assumes "length src = length dest" "m \<le> length src"
  shows "fold (\<lambda>i d. d[i := src ! i]) [0..<m] dest = take m src @ drop m dest"
  using assms(2)
proof (induction m)
  case (Suc m)
  then have "drop m dest = dest ! m # drop (Suc m) dest" using assms(1) by (simp add: Cons_nth_drop_Suc)
  then show ?case using Suc assms(1) by (simp add: list_update_append take_Suc_conv_app_nth)
qed simp

section \<open>Properties\<close>

lemma MemCopy_eq: "length dest_bytes = length src_bytes \<Longrightarrow> MemCopy dest dest_bytes src src_bytes = src_bytes"
  using write_words [of src_bytes "length src_bytes div 8" dest_bytes "length src_bytes div 8"]
    write_bytes [of src_bytes dest_bytes "length src_bytes"]
  by (auto simp: MemCopy_def Let_def mod_eq_0_iff_dvd)

lemma u64_at_replicate: "8 * i + 8 \<le> n \<Longrightarrow> u64_at (replicate n c) i = replicated c"
proof -
  assume "8 * i + 8 \<le> n"
  then have "min 8 (n - 8 * i) = 8" by linarith
  then show ?thesis by (simp add: u64_at_def replicated_le_load)
qed

lemma MemSet_eq: "MemSet dest dest_bytes c = replicate (length dest_bytes) c"
proof -
  let ?n = "length dest_bytes" and ?r = "replicate (length dest_bytes) c"
  have "fold (\<lambda>i d. set_u64 i (replicated c) d) [0..<?n div 8] dest_bytes =
      fold (\<lambda>i d. set_u64 i (u64_at ?r i) d) [0..<?n div 8] dest_bytes"
    by (rule fold_cong) (simp_all add: u64_at_replicate)
  moreover have "fold (\<lambda>i d. d[i := c]) [0..<?n] dest_bytes = fold (\<lambda>i d. d[i := ?r ! i]) [0..<?n] dest_bytes"
    by (rule fold_cong) simp_all
  ultimately show ?thesis
    using write_words [of ?r "?n div 8" dest_bytes "?n div 8"] write_bytes [of ?r dest_bytes ?n]
    by (auto simp: MemSet_def Let_def mod_eq_0_iff_dvd)
qed

lemma MemEq_eq: "length bytes1 = length bytes2 \<Longrightarrow> MemEq s1 bytes1 s2 bytes2 \<longleftrightarrow> bytes1 = bytes2"
proof -
  assume len: "length bytes1 = length bytes2"
  let ?n = "length bytes1 div 8"
  have u: "u64_at bytes1 i = u64_at bytes2 i \<longleftrightarrow> take 8 (drop (8 * i) bytes1) = take 8 (drop (8 * i) bytes2)" if "i < ?n" for i
    using that len by (subst (2) u64_at_def, subst u64_at_eq) auto
  have "fold (\<lambda>i diff. diff OR (u64_at bytes1 i XOR u64_at bytes2 i)) [0..<?n] 0 = 0 \<longleftrightarrow> bytes1 = bytes2"
    if "length bytes1 mod 8 = 0"
  proof -
    have n: "length bytes1 = 8 * ?n" using that by presburger
    have "(\<forall>i < ?n. u64_at bytes1 i = u64_at bytes2 i) \<longleftrightarrow> (\<forall>i < ?n. take 8 (drop (8 * i) bytes1) = take 8 (drop (8 * i) bytes2))"
      using u by blast
    also have "\<dots> \<longleftrightarrow> bytes1 = bytes2" by (rule words_eq [OF n]) (use n len in simp)
    finally show ?thesis unfolding diff_fold_0 .
  qed
  then show ?thesis unfolding MemEq_def Let_def if_bool_eq_conj by blast
qed

lemma MemAllEqualTo_eq: "MemAllEqualTo src bytes c \<longleftrightarrow> bytes = replicate (length bytes) c"
proof -
  let ?n = "length bytes div 8" and ?r = "replicate (length bytes) c"
  have u: "u64_at bytes i = replicated c \<longleftrightarrow> take 8 (drop (8 * i) bytes) = take 8 (drop (8 * i) ?r)" if "i < ?n" for i
    unfolding replicated_le_load using that by (subst u64_at_eq) (auto simp: min_def)
  have words: "fold (\<lambda>i diff. diff OR (u64_at bytes i XOR replicated c)) [0..<?n] 0 = 0 \<longleftrightarrow> bytes = ?r"
    if "length bytes mod 8 = 0"
  proof -
    have n: "length bytes = 8 * ?n" using that by presburger
    have "(\<forall>i < ?n. u64_at bytes i = replicated c) \<longleftrightarrow> (\<forall>i < ?n. take 8 (drop (8 * i) bytes) = take 8 (drop (8 * i) ?r))"
      using u by blast
    also have "\<dots> \<longleftrightarrow> bytes = ?r" by (rule words_eq [OF n]) (use n in \<open>simp only: length_replicate\<close>)
    finally show ?thesis unfolding diff_fold_0 .
  qed
  have la: "list_all (\<lambda>b. b = c) bytes \<longleftrightarrow> bytes = ?r"
    by (induction bytes) auto
  have impl: "MemAllEqualToImpl z src bytes c \<longleftrightarrow> bytes = ?r" if "(if z then 0 else c) = c" for z
    unfolding MemAllEqualToImpl_def Let_def that la
    by (cases "aligned8 src \<and> length bytes mod 8 = 0") (simp_all only: words simp_thms if_True if_False)
  show ?thesis
  proof (cases "c = 0")
    case True
    then show ?thesis using impl [of True] unfolding MemAllEqualTo_def by simp
  next
    case False
    then show ?thesis using impl [of False] unfolding MemAllEqualTo_def by simp
  qed
qed

end
