(* ===== verification/Byte_Runs.thy ===== *)
theory Byte_Runs
  imports Mem_Util Memory_Bytes_At
begin

text \<open>
  Splitting memory bytes into runs of one byte and other runs, \<open>snap/gen/repeating_byte_runs.h\<close> and
  \<open>.cc\<close>. Offsets and sizes are natural numbers below the length of the data; where the code computes
  with the wrap-around of \<open>size_t\<close>, the model uses a word.
\<close>

section \<open>Errors of the snap generator\<close>

datatype snap_error = Status_error status | FailedPrecondition string | NotFound string

type_synonym 'a snap_or = "snap_error + 'a"

section \<open>The code\<close>

definition kByteRunAlignmentSize :: nat where "kByteRunAlignmentSize = 8"
definition kMinRepeatingByteRunSize :: nat where "kMinRepeatingByteRunSize = 16"

text \<open>\<open>p\<close> is the address of the data of the string.\<close>

definition IsRepeatingByteRun :: "u64 \<Rightarrow> byte_data \<Rightarrow> bool" where
  "IsRepeatingByteRun p byte_data \<longleftrightarrow>
     length byte_data \<ge> kMinRepeatingByteRunSize \<and> length byte_data mod kByteRunAlignmentSize = 0 \<and>
     MemAllEqualTo p byte_data (byte_data ! 0)"

record byte_run_info =
  bri_offset :: nat
  bri_size :: nat
  bri_repeating :: bool

text \<open>The inner loop: how many bytes from here on are \<open>first_byte\<close>.\<close>

primrec count_equal :: "byte \<Rightarrow> byte_data \<Rightarrow> nat" where
  "count_equal first_byte [] = 0"
| "count_equal first_byte (b # bs) = (if b = first_byte then Suc (count_equal first_byte bs) else 0)"

definition run_size :: "byte_data \<Rightarrow> nat \<Rightarrow> nat" where
  "run_size byte_data offset = 1 + count_equal (byte_data ! offset) (drop (offset + 1) byte_data)"

definition round_up_run :: "nat \<Rightarrow> nat" where
  "round_up_run n = n + unat (- of_nat n AND of_nat (kByteRunAlignmentSize - 1) :: u64)"

definition byte_run_round ::
    "byte_data \<Rightarrow> nat \<times> byte_run_info list \<Rightarrow> (nat \<times> byte_run_info list, nat \<times> byte_run_info list) iter res" where
  "byte_run_round byte_data = (\<lambda>(offset, infos).
     if \<not> offset < length byte_data then ret (Break (offset, infos))
     else
       let n = run_size byte_data offset in
       if n \<ge> kMinRepeatingByteRunSize
       then let n = n - n mod kByteRunAlignmentSize in
            ret (Continue (offset + n, infos @ [\<lparr>bri_offset = offset, bri_size = n, bri_repeating = True\<rparr>]))
       else let n = round_up_run n in
            ret (Continue (offset + n,
              if infos \<noteq> [] \<and> \<not> bri_repeating (last infos)
              then butlast infos @ [(last infos)\<lparr>bri_size := bri_size (last infos) + n\<rparr>]
              else infos @ [\<lparr>bri_offset = offset, bri_size = n, bri_repeating = False\<rparr>])))"

fun split_runs :: "memory_bytes \<Rightarrow> byte_run_info list \<Rightarrow> memory_bytes list snap_or res" where
  "split_runs b [] = ret (Inr [])"
| "split_runs b (info # infos) =
     (let run_start_address = mb_start b + of_nat (bri_offset info) in
      rbind (data_at (mb_values b) (of_nat (bri_offset info)) (of_nat (bri_size info))) (\<lambda>run_byte_data.
      if CanConstruct run_start_address run_byte_data \<noteq> OkStatus
      then ret (Inl (Status_error (CanConstruct run_start_address run_byte_data)))
      else rbind (new_memory_bytes run_start_address run_byte_data) (\<lambda>run.
           rbind (split_runs b infos) (\<lambda>runs.
           ret (case runs of Inl e \<Rightarrow> Inl e | Inr runs \<Rightarrow> Inr (run # runs))))))"

definition GetRepeatingByteRuns :: "memory_bytes \<Rightarrow> memory_bytes list snap_or res" where
  "GetRepeatingByteRuns b =
     rbind (rloop (byte_run_round (mb_values b)) (0, [])) (\<lambda>(offset, infos).
     rbind (check (offset = length (mb_values b)) ''offset == memory_bytes.num_bytes()'') (\<lambda>_.
     split_runs b infos))"

fun byte_runs_loop :: "address option \<Rightarrow> memory_bytes list \<Rightarrow> memory_bytes list \<Rightarrow> memory_bytes list snap_or res" where
  "byte_runs_loop previous_limit result [] = ret (Inr result)"
| "byte_runs_loop previous_limit result (b # bs) =
     (if (\<exists>l. previous_limit = Some l \<and> l > mb_start b)
      then ret (Inl (FailedPrecondition ''GetRepeatingByteRuns: MemoryBytesList not sorted by address''))
      else if mb_start b mod of_nat kByteRunAlignmentSize \<noteq> 0
      then ret (Inl (FailedPrecondition ''GetRepeatingByteRuns: unaligned start address''))
      else if mb_limit b mod of_nat kByteRunAlignmentSize \<noteq> 0
      then ret (Inl (FailedPrecondition ''GetRepeatingByteRuns: unaligned limit address''))
      else rbind (GetRepeatingByteRuns b) (\<lambda>runs.
           case runs of Inl e \<Rightarrow> ret (Inl e)
           | Inr runs \<Rightarrow> byte_runs_loop (Some (mb_limit b)) (result @ runs) bs))"

definition GetRepeatingByteRuns_list :: "memory_bytes list \<Rightarrow> memory_bytes list snap_or res" where
  "GetRepeatingByteRuns_list bs = byte_runs_loop None [] bs"

section \<open>Runs\<close>

text \<open>\<open>k\<close> equal bytes begin at \<open>p\<close>.\<close>

definition run_at :: "byte_data \<Rightarrow> nat \<Rightarrow> nat \<Rightarrow> bool" where
  "run_at bs p k \<longleftrightarrow> p + k \<le> length bs \<and> (\<forall>i < k. bs ! (p + i) = bs ! p)"

lemma count_equal_le: "count_equal c bs \<le> length bs"
  by (induction bs) auto

lemma count_equal_nth: "i < count_equal c bs \<Longrightarrow> bs ! i = c"
  by (induction bs arbitrary: i) (auto simp: nth_Cons split: nat.splits if_splits)

lemma count_equal_stop: "count_equal c bs < length bs \<Longrightarrow> bs ! count_equal c bs \<noteq> c"
  by (induction bs) auto

lemma run_size_facts:
  assumes "p < length bs"
  shows "0 < run_size bs p" "p + run_size bs p \<le> length bs" "i < run_size bs p \<Longrightarrow> bs ! (p + i) = bs ! p"
    "p + run_size bs p < length bs \<Longrightarrow> bs ! (p + run_size bs p) \<noteq> bs ! p"
proof -
  show "0 < run_size bs p" by (simp add: run_size_def)
  show le: "p + run_size bs p \<le> length bs"
    using count_equal_le [of "bs ! p" "drop (p + 1) bs"] assms by (simp add: run_size_def)
  show "bs ! (p + i) = bs ! p" if "i < run_size bs p"
  proof (cases i)
    case (Suc j)
    then show ?thesis using count_equal_nth [of j "bs ! p" "drop (p + 1) bs"] that le by (simp add: run_size_def)
  qed simp
  show "bs ! (p + run_size bs p) \<noteq> bs ! p" if "p + run_size bs p < length bs"
    using count_equal_stop [of "bs ! p" "drop (p + 1) bs"] that by (simp add: run_size_def)
qed

lemma run_at_run_size: "p < length bs \<Longrightarrow> run_at bs p k \<longleftrightarrow> k \<le> run_size bs p"
proof -
  assume p: "p < length bs"
  note F = run_size_facts [OF p]
  have "False" if "run_at bs p k" "run_size bs p < k"
  proof -
    have "p + run_size bs p < length bs" "bs ! (p + run_size bs p) = bs ! p"
      using that by (auto simp: run_at_def)
    then show False using F(4) by simp
  qed
  moreover have "run_at bs p k" if "k \<le> run_size bs p"
    unfolding run_at_def
  proof (intro conjI allI impI)
    show "p + k \<le> length bs" using that F(2) by simp
    show "bs ! (p + i) = bs ! p" if "i < k" for i using F(3) [of i] that \<open>k \<le> run_size bs p\<close> by simp
  qed
  ultimately show ?thesis using not_le by blast
qed

lemma round_up_run_eq: "r < 16 \<Longrightarrow> round_up_run r = 8 * ((r + 7) div 8)"
proof -
  assume "r < 16"
  then have "r = 0 \<or> r = 1 \<or> r = 2 \<or> r = 3 \<or> r = 4 \<or> r = 5 \<or> r = 6 \<or> r = 7 \<or>
      r = 8 \<or> r = 9 \<or> r = 10 \<or> r = 11 \<or> r = 12 \<or> r = 13 \<or> r = 14 \<or> r = 15"
    by arith
  then show ?thesis
    by (elim disjE) (simp_all add: round_up_run_def kByteRunAlignmentSize_def)
qed

text \<open>A run that is shorter than 16 bytes hides no longer one at the aligned positions it is rounded over.\<close>

lemma no_run_inside:
  assumes p: "p < length bs" "run_size bs p < 16" "8 dvd p" and q: "p \<le> q" "q < p + round_up_run (run_size bs p)" "8 dvd q"
  shows "\<not> run_at bs q 16"
proof
  assume run: "run_at bs q 16"
  let ?r = "run_size bs p"
  have u: "round_up_run ?r = 8 * ((?r + 7) div 8)" using p(2) by (rule round_up_run_eq)
  have "\<not> run_at bs p 16" using run_at_run_size [OF p(1), of 16] p(2) by simp
  then have "q \<noteq> p" using run by metis
  moreover have "8 dvd q - p" using q p(3) by (simp add: dvd_diff_nat)
  moreover have "q - p < 8 * ((?r + 7) div 8)" "(?r + 7) div 8 \<le> 2" using q(1,2) p(2) u by linarith+
  ultimately have "q - p = 8" and r: "1 < (?r + 7) div 8" using q(1) by (auto elim!: dvdE)
  then have "q = p + 8" using q(1) by linarith
  moreover have "8 < ?r" using r by linarith
  moreover have "run_at bs p ?r" using run_at_run_size [OF p(1)] by simp
  ultimately have eq: "bs ! q = bs ! p" by (auto simp: run_at_def)
  have "run_at bs p 16"
    unfolding run_at_def
  proof (intro conjI allI impI)
    show "p + 16 \<le> length bs" using run \<open>q = p + 8\<close> by (simp add: run_at_def)
    fix i :: nat assume i: "i < 16"
    show "bs ! (p + i) = bs ! p"
    proof (cases "i < 8")
      case True
      then show ?thesis using \<open>run_at bs p ?r\<close> \<open>8 < ?r\<close> by (auto simp: run_at_def)
    next
      case False
      then have "p + i = q + (i - 8)" "i - 8 < 16" using \<open>q = p + 8\<close> i by simp_all
      then show ?thesis using run eq unfolding run_at_def by metis
    qed
  qed
  then show False using \<open>\<not> run_at bs p 16\<close> by simp
qed

section \<open>The loop\<close>

text \<open>The infos cover the data from \<open>a\<close> to \<open>b\<close> without gaps.\<close>

fun covers :: "nat \<Rightarrow> byte_run_info list \<Rightarrow> nat \<Rightarrow> bool" where
  "covers a [] b \<longleftrightarrow> a = b"
| "covers a (i # infos) b \<longleftrightarrow> bri_offset i = a \<and> 0 < bri_size i \<and> covers (a + bri_size i) infos b"

lemma covers_snoc: "covers a (infos @ [i]) b \<longleftrightarrow> covers a infos (bri_offset i) \<and> 0 < bri_size i \<and> bri_offset i + bri_size i = b"
  by (induction infos arbitrary: a) auto

lemma covers_le: "covers a infos b \<Longrightarrow> a \<le> b"
  by (induction infos arbitrary: a) fastforce+

definition info_ok :: "byte_data \<Rightarrow> byte_run_info \<Rightarrow> bool" where
  "info_ok bs i \<longleftrightarrow> 8 dvd bri_offset i \<and> 8 dvd bri_size i \<and>
     (if bri_repeating i then 16 \<le> bri_size i \<and> run_at bs (bri_offset i) (bri_size i)
      else \<forall>q. bri_offset i \<le> q \<and> q < bri_offset i + bri_size i \<and> 8 dvd q \<longrightarrow> \<not> run_at bs q 16)"

text \<open>No two neighbours are both not repeating.\<close>

fun alternating :: "byte_run_info list \<Rightarrow> bool" where
  "alternating (i # j # infos) \<longleftrightarrow> (bri_repeating i \<or> bri_repeating j) \<and> alternating (j # infos)"
| "alternating _ \<longleftrightarrow> True"

lemma alternating_snoc:
  "alternating (infos @ [i]) \<longleftrightarrow> alternating infos \<and> (infos = [] \<or> bri_repeating (last infos) \<or> bri_repeating i)"
  by (induction infos rule: alternating.induct) auto

definition infos_ok :: "byte_data \<Rightarrow> nat \<Rightarrow> byte_run_info list \<Rightarrow> bool" where
  "infos_ok bs offset infos \<longleftrightarrow> covers 0 infos offset \<and> (\<forall>i \<in> set infos. info_ok bs i) \<and> alternating infos"

lemma infos_ok_snoc:
  "infos_ok bs n (infos @ [i]) \<longleftrightarrow> infos_ok bs (bri_offset i) infos \<and> 0 < bri_size i \<and> bri_offset i + bri_size i = n \<and>
     info_ok bs i \<and> (infos = [] \<or> bri_repeating (last infos) \<or> bri_repeating i)"
  by (auto simp: infos_ok_def covers_snoc alternating_snoc)

lemma byte_run_round_step:
  assumes I: "offset < length bs" "8 dvd length bs" "8 dvd offset" "infos_ok bs offset infos"
  shows "\<exists>n infos'. byte_run_round bs (offset, infos) = ret (Continue (offset + n, infos')) \<and>
    0 < n \<and> offset + n \<le> length bs \<and> 8 dvd n \<and> infos_ok bs (offset + n) infos'"
proof -
  let ?r = "run_size bs offset"
  have le: "offset + ?r \<le> length bs" using run_at_run_size [OF I(1), of ?r] by (simp add: run_at_def)
  show ?thesis
  proof (cases "16 \<le> ?r")
    case True
    let ?n = "?r - ?r mod 8"
    have step: "byte_run_round bs (offset, infos) =
        ret (Continue (offset + ?n, infos @ [\<lparr>bri_offset = offset, bri_size = ?n, bri_repeating = True\<rparr>]))"
      using True I(1) by (simp add: byte_run_round_def Let_def kMinRepeatingByteRunSize_def kByteRunAlignmentSize_def)
    have n: "16 \<le> ?n" "8 dvd ?n" "?n \<le> ?r"
      using True by presburger+
    have "info_ok bs \<lparr>bri_offset = offset, bri_size = ?n, bri_repeating = True\<rparr>"
      using run_at_run_size [OF I(1), of ?n] I n by (simp add: info_ok_def)
    then have "infos_ok bs (offset + ?n) (infos @ [\<lparr>bri_offset = offset, bri_size = ?n, bri_repeating = True\<rparr>])"
      using I(4) n unfolding infos_ok_snoc by simp
    then show ?thesis
      using n le by (intro exI conjI) (rule step, simp_all)
  next
    case False
    let ?n = "round_up_run ?r"
    have r: "?r < 16" using False by simp
    have u: "?n = 8 * ((?r + 7) div 8)" using r by (rule round_up_run_eq)
    have n: "0 < ?n" "8 dvd ?n" "?n < ?r + 8" unfolding u using run_size_facts(1) [OF I(1)] by presburger+
    have "8 dvd length bs - offset" using I(2,3) by (simp add: dvd_diff_nat)
    then have "?n \<le> length bs - offset"
      using n(2,3) le by (auto elim!: dvdE)
    then have le': "offset + ?n \<le> length bs" using I(1) by linarith
    have no: "\<not> run_at bs q 16" if "offset \<le> q" "q < offset + ?n" "8 dvd q" for q
      using no_run_inside [OF I(1) r I(3) that] .
    show ?thesis
    proof (cases "infos \<noteq> [] \<and> \<not> bri_repeating (last infos)")
      case True
      let ?l = "last infos" and ?b = "butlast infos"
      have infos: "infos = ?b @ [?l]" using True by simp
      have l: "infos_ok bs (bri_offset ?l) ?b" "bri_offset ?l + bri_size ?l = offset" "info_ok bs ?l"
        "?b = [] \<or> bri_repeating (last ?b)"
        using I(4) True unfolding infos_ok_snoc [of bs offset ?b ?l, folded infos] by auto
      have "info_ok bs (?l\<lparr>bri_size := bri_size ?l + ?n\<rparr>)"
        unfolding info_ok_def
      proof (simp add: True, intro conjI allI impI)
        show "8 dvd bri_offset ?l" "8 dvd bri_size ?l + ?n" using l(3) n(2) by (simp_all add: info_ok_def)
        fix q assume q: "bri_offset ?l \<le> q \<and> q < bri_offset ?l + (bri_size ?l + ?n) \<and> 8 dvd q"
        show "\<not> run_at bs q 16"
        proof (cases "q < offset")
          case True
          then show ?thesis using l(2,3) q \<open>infos \<noteq> [] \<and> \<not> bri_repeating (last infos)\<close> by (simp add: info_ok_def)
        next
          case False
          then show ?thesis using no [of q] q l(2) by simp
        qed
      qed
      then have "infos_ok bs (offset + ?n) (?b @ [?l\<lparr>bri_size := bri_size ?l + ?n\<rparr>])"
        using l n unfolding infos_ok_snoc by auto
      then show ?thesis
        using False I(1) n le' True
        by (intro exI [of _ ?n] exI [of _ "?b @ [?l\<lparr>bri_size := bri_size ?l + ?n\<rparr>]"] conjI)
          (simp_all add: byte_run_round_def Let_def kMinRepeatingByteRunSize_def)
    next
      case no_merge: False
      have "info_ok bs \<lparr>bri_offset = offset, bri_size = ?n, bri_repeating = False\<rparr>"
        using no n I(3) by (simp add: info_ok_def)
      then have "infos_ok bs (offset + ?n) (infos @ [\<lparr>bri_offset = offset, bri_size = ?n, bri_repeating = False\<rparr>])"
        using I(4) n no_merge unfolding infos_ok_snoc by auto
      then show ?thesis
        using False I(1) n le' no_merge
        by (intro exI [of _ ?n] exI [of _ "infos @ [\<lparr>bri_offset = offset, bri_size = ?n, bri_repeating = False\<rparr>]"] conjI)
          (auto simp: byte_run_round_def Let_def kMinRepeatingByteRunSize_def)
    qed
  qed
qed

lemma byte_run_loop:
  assumes "8 dvd length bs"
  shows "returns (\<lambda>(offset, infos). offset = length bs \<and> infos_ok bs offset infos) (rloop (byte_run_round bs) (0, []))"
proof (rule rloop_returns [where I = "\<lambda>(offset, infos). offset \<le> length bs \<and> 8 dvd offset \<and> infos_ok bs offset infos"
      and m = "\<lambda>(offset, infos). length bs - offset"])
  fix s assume "case s of (offset, infos) \<Rightarrow> offset \<le> length bs \<and> 8 dvd offset \<and> infos_ok bs offset infos"
  then obtain offset infos where s: "s = (offset, infos)" "offset \<le> length bs" "8 dvd offset" "infos_ok bs offset infos"
    by (cases s) auto
  show "returns (\<lambda>x. case x of Break r \<Rightarrow> (case r of (offset, infos) \<Rightarrow> offset = length bs \<and> infos_ok bs offset infos)
      | Continue s' \<Rightarrow> (case s' of (offset, infos) \<Rightarrow> offset \<le> length bs \<and> 8 dvd offset \<and> infos_ok bs offset infos) \<and>
          (case s' of (offset, infos) \<Rightarrow> length bs - offset) < (case s of (offset, infos) \<Rightarrow> length bs - offset))
    (byte_run_round bs s)"
  proof (cases "offset < length bs")
    case True
    then show ?thesis using byte_run_round_step [OF True assms s(3,4)] s by (auto simp: dvd_add)
  next
    case False
    then show ?thesis using s by (simp add: byte_run_round_def)
  qed
qed (simp add: infos_ok_def)

section \<open>The runs as memory bytes\<close>

text \<open>Memory bytes that follow each other without gaps from an address on.\<close>

fun consecutive :: "address \<Rightarrow> memory_bytes list \<Rightarrow> bool" where
  "consecutive a [] \<longleftrightarrow> True"
| "consecutive a (r # rs) \<longleftrightarrow> mb_start r = a \<and> mb_values r \<noteq> [] \<and> consecutive (mb_limit r) rs"

abbreviation all_values :: "memory_bytes list \<Rightarrow> byte_data" where
  "all_values rs \<equiv> concat (map mb_values rs)"

definition ordered_bytes :: "memory_bytes list \<Rightarrow> bool" where
  "ordered_bytes rs \<longleftrightarrow> (\<forall>r \<in> set rs. bytes_ok r) \<and> sorted_wrt (\<lambda>x y. mb_limit x \<le> mb_start y) rs"

lemma consecutive_bytes:
  assumes "consecutive a rs" "unat a + length (all_values rs) < 2 ^ 64"
  shows "ordered_bytes rs" "listed_bytes rs = bytes_at \<lparr>mb_start = a, mb_values = all_values rs\<rparr>"
    "r \<in> set rs \<Longrightarrow> a \<le> mb_start r \<and> unat (mb_limit r) \<le> unat a + length (all_values rs)"
proof -
  have "ordered_bytes rs \<and> listed_bytes rs = bytes_at \<lparr>mb_start = a, mb_values = all_values rs\<rparr> \<and>
     (\<forall>r \<in> set rs. a \<le> mb_start r \<and> unat (mb_limit r) \<le> unat a + length (all_values rs))"
    using assms
  proof (induction rs arbitrary: a)
    case Nil
    then show ?case by (auto simp: ordered_bytes_def fun_eq_iff bytes_at_def bytes_range_def mb_limit_def data_size_def)
  next
    case (Cons r rs)
    let ?l = "length (mb_values r)"
    have r: "mb_start r = a" "mb_values r \<noteq> []" "consecutive (mb_limit r) rs" using Cons.prems(1) by simp_all
    have ok: "bytes_ok r" using Cons.prems(2) r by (simp add: bytes_ok_def)
    note lim = bytes_ok_limit [OF ok]
    have u: "unat (mb_limit r) = unat a + ?l" using lim(2) r(1) by simp
    have IH: "ordered_bytes rs" "listed_bytes rs = bytes_at \<lparr>mb_start = mb_limit r, mb_values = all_values rs\<rparr>"
      "\<And>q. q \<in> set rs \<Longrightarrow> mb_limit r \<le> mb_start q \<and> unat (mb_limit q) \<le> unat (mb_limit r) + length (all_values rs)"
      using Cons.IH [OF r(3)] Cons.prems(2) u by auto
    have le: "a \<le> mb_limit r" using lim(1) r(1) by simp
    have "ordered_bytes (r # rs)" using ok IH by (simp add: ordered_bytes_def)
    moreover have "listed_bytes (r # rs) k = bytes_at \<lparr>mb_start = a, mb_values = all_values (r # rs)\<rparr> k" for k
    proof -
      let ?b = "\<lparr>mb_start = a, mb_values = all_values (r # rs)\<rparr>" and ?t = "\<lparr>mb_start = mb_limit r, mb_values = all_values rs\<rparr>"
      have b: "bytes_ok ?b" using Cons.prems(2) r by (simp add: bytes_ok_def)
      have ub: "unat (mb_limit ?b) = unat a + ?l + length (all_values rs)" using bytes_ok_limit(2) [OF b] by simp
      have mt: "mb_limit ?t = mb_limit ?b"
        unfolding mb_limit_def using r(1) by (simp add: data_size_def mb_limit_def)
      show ?thesis
      proof (cases "k \<in> bytes_range r")
        case True
        then have k: "a \<le> k" "k < mb_limit r" using r(1) by (simp_all add: bytes_range_def)
        then have "unat (k - a) < ?l" using u by (simp add: unat_sub word_less_nat_alt word_le_nat_alt)
        moreover have "k \<in> bytes_range ?b" using k u ub by (simp add: bytes_range_def word_less_nat_alt)
        ultimately show ?thesis using True r(1) by (simp add: bytes_at_in nth_append)
      next
        case False
        show ?thesis
        proof (cases "mb_limit r \<le> k \<and> k < mb_limit ?b")
          case in_rest: True
          have "unat (k - a) = ?l + unat (k - mb_limit r)"
            using in_rest u le by (simp add: unat_sub word_le_nat_alt)
          moreover have "k \<in> bytes_range ?t" "k \<in> bytes_range ?b"
            using in_rest mt order_trans [OF le] by (simp_all add: bytes_range_def)
          ultimately show ?thesis using False by (simp add: IH(2) bytes_at_in nth_append)
        next
          case out: False
          then have "k \<notin> bytes_range ?t" using mt by (auto simp: bytes_range_def)
          moreover have "k \<notin> bytes_range ?b" using out False r(1) by (auto simp: bytes_range_def)
          ultimately show ?thesis using False by (simp add: IH(2) bytes_at_out)
        qed
      qed
    qed
    moreover have "a \<le> mb_start q \<and> unat (mb_limit q) \<le> unat a + length (all_values (r # rs))" if "q \<in> set (r # rs)" for q
      using that IH(3) [of q] u le r(1) by (auto simp: word_le_nat_alt)
    ultimately show ?case by (metis ext)
  qed
  then show "ordered_bytes rs" "listed_bytes rs = bytes_at \<lparr>mb_start = a, mb_values = all_values rs\<rparr>"
    "r \<in> set rs \<Longrightarrow> a \<le> mb_start r \<and> unat (mb_limit r) \<le> unat a + length (all_values rs)"
    by blast+
qed

definition run_of :: "memory_bytes \<Rightarrow> byte_run_info \<Rightarrow> memory_bytes" where
  "run_of b i = \<lparr>mb_start = mb_start b + of_nat (bri_offset i), mb_values = take (bri_size i) (drop (bri_offset i) (mb_values b))\<rparr>"

lemma split_runs_eq:
  assumes b: "bytes_ok b" and c: "covers a infos (length (mb_values b))"
  shows "split_runs b infos = ret (Inr (map (run_of b) infos))" "consecutive (mb_start b + of_nat a) (map (run_of b) infos)"
    "all_values (map (run_of b) infos) = drop a (mb_values b)"
proof -
  let ?n = "length (mb_values b)"
  have n: "?n < 2 ^ 64" "unat (mb_start b) + ?n < 2 ^ 64" using b by (simp_all add: bytes_ok_def)
  have "split_runs b infos = ret (Inr (map (run_of b) infos)) \<and> consecutive (mb_start b + of_nat a) (map (run_of b) infos) \<and>
    all_values (map (run_of b) infos) = drop a (mb_values b)"
    using c
  proof (induction infos arbitrary: a)
    case (Cons i infos)
    have i: "bri_offset i = a" "0 < bri_size i" "covers (a + bri_size i) infos ?n" using Cons.prems by simp_all
    have le: "a + bri_size i \<le> ?n" using covers_le [OF i(3)] .
    have u: "unat (of_nat a :: u64) = a" "unat (of_nat (bri_size i) :: u64) = bri_size i"
      using le n by (simp_all add: unat_of_nat_u64)
    have len: "length (mb_values (run_of b i)) = bri_size i" using le i(1) by (simp add: run_of_def)
    have ua: "unat (mb_start b + of_nat a) = unat (mb_start b) + a"
      using u(1) le n by (subst unat_add_lem [THEN iffD1]) simp_all
    have fits: "mb_values (run_of b i) \<noteq> []" "unat (mb_start b + of_nat a) + length (mb_values (run_of b i)) < 2 ^ 64"
      using len i(2) ua le n by (auto simp del: length_0_conv simp flip: length_greater_0_conv)
    have "data_at (mb_values b) (of_nat (bri_offset i)) (of_nat (bri_size i)) = ret (mb_values (run_of b i))"
      using u le i(1) by (simp add: data_at_def run_of_def)
    moreover have "CanConstruct (mb_start b + of_nat (bri_offset i)) (mb_values (run_of b i)) = OkStatus"
      using fits i(1) by (simp add: CanConstruct_iff)
    moreover have "new_memory_bytes (mb_start b + of_nat (bri_offset i)) (mb_values (run_of b i)) = ret (run_of b i)"
      using new_memory_bytes_ok(1) [of "mb_values (run_of b i)" "mb_start b + of_nat (bri_offset i)"] fits i(1)
      by (simp add: run_of_def)
    moreover have lim: "mb_limit (run_of b i) = mb_start b + of_nat (a + bri_size i)"
      using len by (simp add: mb_limit_def data_size_def) (simp add: run_of_def i(1))
    moreover have "all_values (map (run_of b) (i # infos)) = drop a (mb_values b)"
    proof -
      have "all_values (map (run_of b) (i # infos)) = mb_values (run_of b i) @ all_values (map (run_of b) infos)" by simp
      also have "mb_values (run_of b i) = take (bri_size i) (drop a (mb_values b))" by (simp add: run_of_def i(1))
      also have "all_values (map (run_of b) infos) = drop (bri_size i) (drop a (mb_values b))"
        using Cons.IH [OF i(3)] by (simp add: add.commute)
      finally show ?thesis by (simp only: append_take_drop_id)
    qed
    moreover have "mb_start (run_of b i) = mb_start b + of_nat a" using i(1) by (simp add: run_of_def)
    ultimately show ?case
      using Cons.IH [OF i(3)] fits(1) by (simp add: Let_def)
  qed simp
  then show "split_runs b infos = ret (Inr (map (run_of b) infos))" "consecutive (mb_start b + of_nat a) (map (run_of b) infos)"
    "all_values (map (run_of b) infos) = drop a (mb_values b)" by blast+
qed

text \<open>
  The runs of memory bytes whose size is a multiple of 8: they are the bytes in order; each is at least
  16 times one byte, or contains no aligned position where 16 equal bytes begin.
\<close>

definition compressed :: "memory_bytes list \<Rightarrow> bool" where
  "compressed rs \<longleftrightarrow> (\<forall>r \<in> set rs. length (mb_values r) mod 8 = 0 \<and>
     (IsRepeatingByteRun 0 (mb_values r) \<or> (\<forall>q. 8 dvd q \<longrightarrow> \<not> run_at (mb_values r) q 16)))"

lemma IsRepeating_iff:
  "IsRepeatingByteRun p bs \<longleftrightarrow> 16 \<le> length bs \<and> 8 dvd length bs \<and> run_at bs 0 (length bs)"
proof -
  have "bs = replicate (length bs) (bs ! 0) \<longleftrightarrow> (\<forall>i < length bs. bs ! i = bs ! 0)"
    by (metis nth_equalityI nth_replicate length_replicate)
  then show ?thesis
    by (auto simp: IsRepeatingByteRun_def MemAllEqualTo_eq run_at_def kMinRepeatingByteRunSize_def kByteRunAlignmentSize_def mod_eq_0_iff_dvd)
qed

lemma run_at_take_drop:
  "a + n \<le> length bs \<Longrightarrow> run_at (take n (drop a bs)) q k \<Longrightarrow> run_at bs (a + q) k"
  by (auto simp: run_at_def add.assoc)

lemma GetRepeatingByteRuns_returns:
  assumes b: "bytes_ok b" "8 dvd length (mb_values b)"
  shows "returns (\<lambda>r. case r of Inl e \<Rightarrow> False | Inr rs \<Rightarrow>
    consecutive (mb_start b) rs \<and> all_values rs = mb_values b \<and> compressed rs) (GetRepeatingByteRuns b)"
  unfolding GetRepeatingByteRuns_def
proof (rule returns_rbind [OF byte_run_loop [OF b(2)]])
  fix x assume x: "case x of (offset, infos) \<Rightarrow> offset = length (mb_values b) \<and> infos_ok (mb_values b) offset infos"
  obtain infos where i: "x = (length (mb_values b), infos)" "infos_ok (mb_values b) (length (mb_values b)) infos"
    using x by (cases x) auto
  note s = split_runs_eq [OF b(1), of 0 infos]
  have c: "covers 0 infos (length (mb_values b))" using i(2) by (simp add: infos_ok_def)
  have within: "bri_offset j + bri_size j \<le> length (mb_values b)" if "j \<in> set infos" for j
    using c that
  proof -
    have "covers a js n \<Longrightarrow> j \<in> set js \<Longrightarrow> bri_offset j + bri_size j \<le> n" for a js n
      by (induction js arbitrary: a) (auto dest: covers_le)
    then show ?thesis using c that by blast
  qed
  have "compressed (map (run_of (b)) infos)"
    unfolding compressed_def
  proof (intro ballI conjI)
    fix r assume "r \<in> set (map (run_of b) infos)"
    then obtain j where j: "j \<in> set infos" "r = run_of b j" by auto
    have ok: "info_ok (mb_values b) j" using i(2) j(1) by (simp add: infos_ok_def)
    have v: "mb_values r = take (bri_size j) (drop (bri_offset j) (mb_values b))" "length (mb_values r) = bri_size j"
      using within [OF j(1)] by (simp_all add: j(2) run_of_def)
    show "length (mb_values r) mod 8 = 0" using ok v(2) by (simp add: info_ok_def mod_eq_0_iff_dvd)
    show "IsRepeatingByteRun 0 (mb_values r) \<or> (\<forall>q. 8 dvd q \<longrightarrow> \<not> run_at (mb_values r) q 16)"
    proof (cases "bri_repeating j")
      case True
      then show ?thesis using ok v within [OF j(1)] by (auto simp: IsRepeating_iff info_ok_def run_at_def)
    next
      case False
      have "\<not> run_at (mb_values r) q 16" if "8 dvd q" for q
      proof
        assume r: "run_at (mb_values r) q 16"
        then have "run_at (mb_values b) (bri_offset j + q) 16" "q < bri_size j"
          using run_at_take_drop [OF within [OF j(1)], of q 16] v by (auto simp: run_at_def)
        then show False using ok False that by (auto simp: info_ok_def)
      qed
      then show ?thesis by blast
    qed
  qed
  then show "returns (\<lambda>r. case r of Inl e \<Rightarrow> False | Inr rs \<Rightarrow>
      consecutive (mb_start b) rs \<and> all_values rs = mb_values b \<and> compressed rs)
    (case x of (offset, infos) \<Rightarrow> rbind (check (offset = length (mb_values b)) ''offset == memory_bytes.num_bytes()'')
      (\<lambda>_. split_runs b infos))"
    using s [OF c] by (simp add: i(1))
qed

end
