(* ===== verification/Normalize_Spec.thy ===== *)
theory Normalize_Spec
  imports Byte_Runs
begin

text \<open>
  What \<open>Snapshot::NormalizeMemoryBytes\<close> does to a list of memory bytes: the same bytes in the order of
  their addresses, split where the permissions of the mappings change.
\<close>

section \<open>Parts and joins of memory bytes\<close>

lemma MemoryBytes_Range_ok:
  assumes b: "bytes_ok b" and r: "mb_start b \<le> s" "s < l" "l \<le> mb_limit b"
  obtains c where "MemoryBytes_Range s l b = ret c" "bytes_ok c" "mb_start c = s" "mb_limit c = l"
    "\<And>k. k \<in> bytes_range c \<Longrightarrow> bytes_at c k = bytes_at b k"
proof -
  let ?vs = "take (unat (l - s)) (drop (unat (s - mb_start b)) (mb_values b))"
  let ?c = "\<lparr>mb_start = s, mb_values = ?vs\<rparr>"
  note lim = bytes_ok_limit [OF b]
  have u: "unat (s - mb_start b) = unat s - unat (mb_start b)" "unat (l - s) = unat l - unat s"
    using r by (simp_all add: unat_sub less_imp_le)
  have o: "unat (mb_start b) \<le> unat s" "unat s < unat l" "unat l \<le> unat (mb_start b) + length (mb_values b)"
    using r lim(2) by (simp_all add: word_le_nat_alt word_less_nat_alt)
  have len: "length ?vs = unat l - unat s" using u o by simp
  have sub: "substr (mb_values b) (s - mb_start b) (l - s) = ret ?vs"
    using u o by (simp add: substr_def)
  have ne: "?vs \<noteq> []" using len o by (metis length_0_conv diff_is_0_eq not_le)
  have n: "new_memory_bytes s ?vs = ret ?c" "bytes_ok ?c"
    by (rule new_memory_bytes_ok; use len ne o unat_u64_lt [of l] in simp)+
  have "unat (mb_limit ?c) = unat l" using bytes_ok_limit(2) [OF n(2)] len o by simp
  then have l: "mb_limit ?c = l" by (simp only: word_unat_eq_iff)
  show thesis
  proof (rule that [of ?c])
    show "MemoryBytes_Range s l b = ret ?c" using r sub n(1) by (simp add: MemoryBytes_Range_def)
    fix k assume k: "k \<in> bytes_range ?c"
    then have kk: "s \<le> k" "k < l" using l by (simp_all add: bytes_range_def)
    then have "k \<in> bytes_range b" using r by (auto simp: bytes_range_def)
    moreover have "unat (k - s) = unat k - unat s" "unat (k - mb_start b) = unat k - unat (mb_start b)"
      "unat s \<le> unat k" "unat k < unat l"
      using kk r by (simp_all add: unat_sub word_le_nat_alt word_less_nat_alt)
    ultimately show "bytes_at ?c k = bytes_at b k" using k u o by (simp add: bytes_at_in nth_append)
  qed (use n l in simp_all)
qed

lemma append_bytes_joined:
  assumes x: "bytes_ok x" and c: "bytes_ok c" "mb_start c = mb_limit x"
  obtains y where "append_bytes (mb_values c) x = ret y" "bytes_ok y" "mb_start y = mb_start x" "mb_limit y = mb_limit c"
    "\<And>k. bytes_at y k = listed_bytes [x, c] k"
proof -
  let ?y = "x\<lparr>mb_values := mb_values x @ mb_values c\<rparr>"
  have lc: "unat (mb_limit x) + length (mb_values c) < 2 ^ 64" using c by (simp add: bytes_ok_def)
  note a = append_bytes_ok [OF x lc]
  have "consecutive (mb_start x) [x, c]" using x c by (simp add: bytes_ok_def)
  moreover have "unat (mb_start x) + length (all_values [x, c]) < 2 ^ 64"
    using a(2) by (simp add: bytes_ok_def)
  moreover have y: "?y = \<lparr>mb_start = mb_start x, mb_values = all_values [x, c]\<rparr>" by (cases x) simp
  ultimately have "listed_bytes [x, c] = bytes_at ?y" using consecutive_bytes(2) by (simp only: y)
  moreover have "unat (mb_limit ?y) = unat (mb_limit c)"
    using bytes_ok_limit(2) [OF a(2)] bytes_ok_limit(2) [OF x] bytes_ok_limit(2) [OF c(1)] c(2) by simp
  ultimately show thesis
    using that [OF a(1,2)] by (simp add: word_unat_eq_iff [symmetric])
qed

lemma listed_bytes_append:
  "listed_bytes (xs @ ys) k = (case listed_bytes xs k of None \<Rightarrow> listed_bytes ys k | Some v \<Rightarrow> Some v)"
  by (induction xs) (auto simp: bytes_at_in)

lemma ordered_bytes_snoc:
  "ordered_bytes (xs @ [x]) \<longleftrightarrow> ordered_bytes xs \<and> bytes_ok x \<and> (\<forall>y \<in> set xs. mb_limit y \<le> mb_start x)"
  by (auto simp: ordered_bytes_def sorted_wrt_append)

lemma ordered_bytes_append:
  "ordered_bytes (xs @ ys) \<longleftrightarrow> ordered_bytes xs \<and> ordered_bytes ys \<and> (\<forall>x \<in> set xs. \<forall>y \<in> set ys. mb_limit x \<le> mb_start y)"
  by (auto simp: ordered_bytes_def sorted_wrt_append)

lemma ordered_disjoint: "ordered_bytes xs \<Longrightarrow> sorted_wrt (\<lambda>a b. bytes_range a \<inter> bytes_range b = {}) xs"
  unfolding ordered_bytes_def by (auto elim!: sorted_wrt_mono_rel [rotated] simp: bytes_range_def)

text \<open>The bytes below a bound.\<close>

lemma listed_bytes_below: "\<forall>x \<in> set xs. mb_limit x \<le> a \<Longrightarrow> a \<le> k \<Longrightarrow> listed_bytes xs k = None"
  by (auto simp: listed_bytes_None bytes_range_def)

section \<open>Sorting\<close>

lemma sorted_disjoint_ordered:
  assumes "\<forall>b \<in> set xs. bytes_ok b" "sorted_wrt (\<lambda>a b. bytes_range a \<inter> bytes_range b = {}) xs" "sorted (map mb_start xs)"
  shows "ordered_bytes xs"
  using assms
proof (induction xs)
  case (Cons x xs)
  have "mb_limit x \<le> mb_start y" if "y \<in> set xs" for y
  proof (rule ccontr)
    assume "\<not> mb_limit x \<le> mb_start y"
    then have "mb_start y \<in> bytes_range x" "mb_start y \<in> bytes_range y"
      using Cons.prems that bytes_ok_limit(1) [of y] by (auto simp: bytes_range_def)
    then show False using Cons.prems that by auto
  qed
  then show ?case using Cons by (auto simp: ordered_bytes_def)
qed (simp add: ordered_bytes_def)

lemma pairs_insert:
  assumes "\<And>a b. D a b \<longleftrightarrow> D b a"
  shows "(\<forall>a \<in> insert x S. \<forall>b \<in> insert x S. a \<noteq> b \<longrightarrow> D a b) \<longleftrightarrow>
    (\<forall>b \<in> S. x \<noteq> b \<longrightarrow> D x b) \<and> (\<forall>a \<in> S. \<forall>b \<in> S. a \<noteq> b \<longrightarrow> D a b)"
    (is "?l \<longleftrightarrow> ?r")
proof
  assume ?r
  then show ?l using assms by (metis insertE)
qed blast

lemma disjoint_distinct:
  assumes "\<forall>b \<in> set xs. bytes_ok b"
  shows "sorted_wrt (\<lambda>a b. bytes_range a \<inter> bytes_range b = {}) xs \<longleftrightarrow>
    distinct xs \<and> (\<forall>x \<in> set xs. \<forall>y \<in> set xs. x \<noteq> y \<longrightarrow> bytes_range x \<inter> bytes_range y = {})"
  using assms
proof (induction xs)
  case (Cons x xs)
  have "mb_start x \<in> bytes_range x" using Cons.prems bytes_ok_limit(1) [of x] by (simp add: bytes_range_def)
  then have ne: "bytes_range x \<inter> bytes_range x \<noteq> {}" by blast
  have IH: "sorted_wrt (\<lambda>a b. bytes_range a \<inter> bytes_range b = {}) xs \<longleftrightarrow>
      distinct xs \<and> (\<forall>x \<in> set xs. \<forall>y \<in> set xs. x \<noteq> y \<longrightarrow> bytes_range x \<inter> bytes_range y = {})"
    using Cons by simp
  have sym: "bytes_range a \<inter> bytes_range b = {} \<longleftrightarrow> bytes_range b \<inter> bytes_range a = {}" for a b by (simp add: Int_commute)
  have "(\<forall>y \<in> set xs. bytes_range x \<inter> bytes_range y = {}) \<longleftrightarrow>
      x \<notin> set xs \<and> (\<forall>y \<in> set xs. x \<noteq> y \<longrightarrow> bytes_range x \<inter> bytes_range y = {})"
    using ne by metis
  then show ?case
    unfolding sorted_wrt.simps distinct.simps list.set IH pairs_insert [of "\<lambda>a b. bytes_range a \<inter> bytes_range b = {}", OF sym]
    by (simp only: conj_ac)
qed simp

lemma listed_bytes_set:
  assumes "set xs = set ys" "sorted_wrt (\<lambda>a b. bytes_range a \<inter> bytes_range b = {}) xs"
    "sorted_wrt (\<lambda>a b. bytes_range a \<inter> bytes_range b = {}) ys"
  shows "listed_bytes xs = listed_bytes ys"
proof
  have in_list: "listed_bytes zs k = bytes_at z k"
    if "sorted_wrt (\<lambda>a b. bytes_range a \<inter> bytes_range b = {}) zs" "z \<in> set zs" "k \<in> bytes_range z" for zs z k
    using that by (induction zs) auto
  fix k
  show "listed_bytes xs k = listed_bytes ys k"
  proof (cases "\<exists>x \<in> set xs. k \<in> bytes_range x")
    case True
    then obtain x where "x \<in> set xs" "k \<in> bytes_range x" by blast
    then show ?thesis using in_list [OF assms(2)] in_list [OF assms(3)] assms(1) by metis
  next
    case False
    then have "listed_bytes xs k = None" "listed_bytes ys k = None" using assms(1) by (auto simp: listed_bytes_None)
    then show ?thesis by simp
  qed
qed

lemma sort_memory_bytes_ordered:
  assumes "\<forall>b \<in> set xs. bytes_ok b" "sorted_wrt (\<lambda>a b. bytes_range a \<inter> bytes_range b = {}) xs"
  shows "ordered_bytes (sort_memory_bytes xs)" "listed_bytes (sort_memory_bytes xs) = listed_bytes xs"
    "set (sort_memory_bytes xs) = set xs"
proof -
  show s: "set (sort_memory_bytes xs) = set xs" by (simp add: sort_memory_bytes_def)
  have "distinct (sort_memory_bytes xs) = distinct xs" by (simp add: sort_memory_bytes_def)
  then have d: "sorted_wrt (\<lambda>a b. bytes_range a \<inter> bytes_range b = {}) (sort_memory_bytes xs)"
    using assms s disjoint_distinct [of xs] disjoint_distinct [of "sort_memory_bytes xs"] by simp
  show "ordered_bytes (sort_memory_bytes xs)"
    using sorted_disjoint_ordered [OF _ d] assms(1) s by (simp add: sort_memory_bytes_def)
  show "listed_bytes (sort_memory_bytes xs) = listed_bytes xs"
    by (rule listed_bytes_set [OF s d assms(2)])
qed

section \<open>Chunks\<close>

text \<open>The permissions a chunk is compared by.\<close>

definition plain_perms :: "mapped_map \<Rightarrow> address \<Rightarrow> memory_perms option" where
  "plain_perms m k = map_option (MemoryPerms_ClearPermission kMapped) (perms_at m k)"

definition uniform :: "mapped_map \<Rightarrow> memory_bytes \<Rightarrow> memory_perms \<Rightarrow> bool" where
  "uniform m b p \<longleftrightarrow> (\<forall>k \<in> bytes_range b. plain_perms m k = Some p)"

text \<open>
  The state of the loops when the bytes \<open>g\<close> below \<open>a\<close> are done; \<open>A\<close> is a property of all boundaries.
\<close>

definition chunked ::
    "(address \<Rightarrow> bool) \<Rightarrow> mapped_map \<Rightarrow> (address \<rightharpoonup> byte) \<Rightarrow> address \<Rightarrow> memory_perms \<times> memory_bytes list \<Rightarrow> bool" where
  "chunked A m g a = (\<lambda>(perms, bs). ordered_bytes bs \<and> listed_bytes bs = g \<and>
     (\<forall>b \<in> set bs. mb_limit b \<le> a \<and> (\<exists>p. uniform m b p) \<and> A (mb_start b) \<and> A (mb_limit b)) \<and>
     (bs \<noteq> [] \<longrightarrow> uniform m (last bs) perms))"

lemma chunked_add:
  assumes I: "chunked A m g a (perms, bs)" and c: "bytes_ok c" "mb_start c = a" "uniform m c p" "A (mb_start c)" "A (mb_limit c)"
  shows "returns (\<lambda>(q, bs'). q = p \<and> chunked A m (\<lambda>k. if k \<in> bytes_range c then bytes_at c k else g k) (mb_limit c) (q, bs'))
    (if bs \<noteq> [] \<and> mb_start c = mb_limit (last bs) \<and> p = perms
     then rbind (append_bytes (mb_values c) (last bs)) (\<lambda>l. ret (perms, butlast bs @ [l]))
     else ret (p, bs @ [c]))"
proof -
  let ?g = "\<lambda>k. if k \<in> bytes_range c then bytes_at c k else g k"
  note D = I [unfolded chunked_def prod.case]
  have lt: "a < mb_limit c" using bytes_ok_limit(1) [OF c(1)] c(2) by simp
  have g: "g k = None" if "a \<le> k" for k using listed_bytes_below [of bs a k] D that by auto
  show ?thesis
  proof (cases "bs \<noteq> [] \<and> mb_start c = mb_limit (last bs) \<and> p = perms")
    case True
    define xs x where "xs = butlast bs" and "x = last bs"
    have bs: "bs = xs @ [x]" using True by (simp add: xs_def x_def)
    have x: "bytes_ok x" "mb_limit x = a" "uniform m x p" "A (mb_start x)" "ordered_bytes xs" "\<forall>y \<in> set xs. mb_limit y \<le> mb_start x"
      using D True c(2) unfolding bs ordered_bytes_snoc by (auto simp: x_def)
    obtain y where y: "append_bytes (mb_values c) x = ret y" "bytes_ok y" "mb_start y = mb_start x" "mb_limit y = mb_limit c"
      "\<And>k. bytes_at y k = listed_bytes [x, c] k"
      by (rule append_bytes_joined [OF x(1) c(1)]) (use x c in simp_all)
    have yr: "bytes_range y = bytes_range x \<union> bytes_range c"
      using y(3,4) x(2) c(2) lt bytes_ok_limit(1) [OF x(1)] by (auto simp: bytes_range_def)
    have "ordered_bytes (xs @ [y])" using x y(2,3) by (simp add: ordered_bytes_snoc)
    moreover have "listed_bytes (xs @ [y]) k = ?g k" for k
    proof (cases "k \<in> bytes_range c")
      case True
      then have k: "a \<le> k" using c(2) by (simp add: bytes_range_def)
      then have "k \<notin> bytes_range x" "listed_bytes xs k = None"
        using x(2) D listed_bytes_below [of xs a k] unfolding bs by (auto simp: bytes_range_def)
      then show ?thesis using True yr y(5) by (simp add: listed_bytes_append)
    next
      case False
      have "listed_bytes bs k = g k" using D by simp
      moreover
      have "bytes_at y k = bytes_at x k" "k \<in> bytes_range y \<longleftrightarrow> k \<in> bytes_range x"
        using False yr y(5) [of k] by (auto simp: bytes_at_out)
      then have "listed_bytes [y] k = listed_bytes [x] k" by simp
      ultimately show ?thesis using False unfolding bs by (simp only: listed_bytes_append if_False)
    qed
    moreover have "mb_limit b \<le> mb_limit c" if "b \<in> set xs" for b
      using D that lt unfolding bs by (auto intro: order_trans less_imp_le)
    ultimately show ?thesis
      using True y D c(3,5) x(3,4) yr unfolding bs by (auto simp: chunked_def fun_eq_iff uniform_def)
  next
    case False
    have "ordered_bytes (bs @ [c])" using D c by (auto simp: ordered_bytes_snoc)
    moreover have "listed_bytes (bs @ [c]) k = ?g k" for k
    proof (cases "k \<in> bytes_range c")
      case True
      then have "listed_bytes bs k = None" using D g [of k] c(2) by (simp add: bytes_range_def)
      then show ?thesis using True by (simp add: listed_bytes_append)
    next
      case False
      then show ?thesis using D by (simp add: listed_bytes_append split: option.splits)
    qed
    moreover have "mb_limit b \<le> mb_limit c" if "b \<in> set bs" for b
      using D that lt by (auto intro: order_trans less_imp_le)
    ultimately show ?thesis using False D c(3-5) by (auto simp: chunked_def fun_eq_iff)
  qed
qed

section \<open>The loops\<close>

lemma chunked_cong: "chunked A m g a s \<Longrightarrow> (\<And>k. g k = g' k) \<Longrightarrow> a \<le> a' \<Longrightarrow> chunked A m g' a' s"
  unfolding chunked_def by (auto simp: fun_eq_iff intro: order_trans)

text \<open>What holds of the input: well-formed bytes in mapped memory, boundaries where \<open>A\<close> holds.\<close>

definition normalizable :: "(address \<Rightarrow> bool) \<Rightarrow> mapped_map \<Rightarrow> memory_bytes \<Rightarrow> bool" where
  "normalizable A m b \<longleftrightarrow> bytes_ok b \<and> bytes_range b \<subseteq> dom (perms_at m) \<and> A (mb_start b) \<and> A (mb_limit b)"

abbreviation bytes_below :: "memory_bytes \<Rightarrow> address \<Rightarrow> (address \<rightharpoonup> byte) \<Rightarrow> address \<rightharpoonup> byte" where
  "bytes_below b a g \<equiv> \<lambda>k. if k \<in> bytes_range b \<and> k < a then bytes_at b k else g k"

lemma normalize_chunk_step:
  assumes m: "mapped_map_ok m" "\<forall>e \<in> set m. A (entry_limit e)" and b: "normalizable A m b"
    and a: "mb_start b \<le> a" "a < mb_limit b" "A a" and I: "chunked A m (bytes_below b a g) a (perms, bs)"
  shows "returns (\<lambda>x. case x of Break r \<Rightarrow> False | Continue (a', s') \<Rightarrow>
      a < a' \<and> a' \<le> mb_limit b \<and> A a' \<and> chunked A m (bytes_below b a' g) a' s') (normalize_chunk m b (a, perms, bs))"
proof -
  have ok: "bytes_ok b" "A (mb_limit b)" using b by (simp_all add: normalizable_def)
  have "perms_at m a \<noteq> None" using b a by (auto simp: normalizable_def bytes_range_def)
  then obtain e where e: "e \<in> set m" "entry_start e \<le> a" "a < entry_limit e"
    "MappedMemoryMap_MappingAt a m = ret (Some \<lparr>mm_start = entry_start e,
         mm_num_bytes = entry_limit e - entry_start e, mm_perms = MemoryPerms_ClearPermission kMapped (snd e)\<rparr>)"
    by (cases rule: MappingAt_cases [OF m(1), of a]) blast+
  let ?p = "MemoryPerms_ClearPermission kMapped (snd e)" and ?l = "min (mb_limit b) (entry_limit e)"
  have l: "a < ?l" "?l \<le> mb_limit b" "A ?l" using a e(1,3) ok(2) m(2) by (auto simp: min_def)
  have mid: "mm_limit \<lparr>mm_start = entry_start e, mm_num_bytes = entry_limit e - entry_start e, mm_perms = ?p\<rparr> = entry_limit e"
    by (simp add: mm_limit_def)
  obtain c where c: "MemoryBytes_Range a ?l b = ret c" "bytes_ok c" "mb_start c = a" "mb_limit c = ?l"
    "\<And>k. k \<in> bytes_range c \<Longrightarrow> bytes_at c k = bytes_at b k"
    by (rule MemoryBytes_Range_ok [OF ok(1) a(1) l(1,2)]) blast
  have uni: "uniform m c ?p"
    unfolding uniform_def
  proof
    fix k assume "k \<in> bytes_range c"
    then have "entry_start e \<le> k" "k < entry_limit e" using c(3,4) e(2) by (auto simp: bytes_range_def)
    then show "plain_perms m k = Some ?p" using perms_at_entry [OF m(1) e(1)] by (simp add: plain_perms_def)
  qed
  have whole: "\<exists>c'. (if a = mb_start b \<and> ?l = mb_limit b then ret b else MemoryBytes_Range a ?l b) = ret c' \<and>
    bytes_ok c' \<and> mb_start c' = a \<and> mb_limit c' = ?l \<and> uniform m c' ?p \<and> (\<forall>k \<in> bytes_range c'. bytes_at c' k = bytes_at b k)"
  proof (cases "a = mb_start b \<and> ?l = mb_limit b")
    case True
    then have "bytes_range c = bytes_range b" using c(3,4) by (simp add: bytes_range_def)
    then have "uniform m b ?p" using uni by (simp add: uniform_def)
    then show ?thesis using True ok(1) by auto
  next
    case False
    then show ?thesis using c uni by auto
  qed
  then obtain c' where c': "(if a = mb_start b \<and> ?l = mb_limit b then ret b else MemoryBytes_Range a ?l b) = ret c'"
    "bytes_ok c'" "mb_start c' = a" "mb_limit c' = ?l" "uniform m c' ?p" "\<forall>k \<in> bytes_range c'. bytes_at c' k = bytes_at b k"
    by blast
  have g: "(if k \<in> bytes_range c' then bytes_at c' k else bytes_below b a g k) = bytes_below b ?l g k" for k
    using c'(3,4,6) l a by (auto simp: bytes_range_def)
  have add: "returns (\<lambda>(q, bs'). q = ?p \<and> chunked A m (bytes_below b ?l g) ?l (q, bs'))
    (if bs \<noteq> [] \<and> mb_start c' = mb_limit (last bs) \<and> ?p = perms
     then rbind (append_bytes (mb_values c') (last bs)) (\<lambda>l. ret (perms, butlast bs @ [l]))
     else ret (?p, bs @ [c']))"
    using chunked_add [OF I c'(2,3,5)] a(3) l(3) c'(3,4) unfolding g by simp
  have eq: "normalize_chunk m b (a, perms, bs) =
    rbind (if bs \<noteq> [] \<and> mb_start c' = mb_limit (last bs) \<and> ?p = perms
     then rbind (append_bytes (mb_values c') (last bs)) (\<lambda>l. ret (perms, butlast bs @ [l]))
     else ret (?p, bs @ [c'])) (\<lambda>(q, bs'). ret (Continue (?l, q, bs')))"
    using a(2) unfolding normalize_chunk_def prod.case e(4) rbind_simps option.case Let_def mid memory_mapping.simps c'(1)
    by (simp add: if_distrib [of "\<lambda>x. rbind x _"] rbind_assoc)
  show ?thesis
    unfolding eq by (rule returns_rbind [OF add]) (use l in auto)
qed

lemma normalize_one_returns:
  assumes m: "mapped_map_ok m" "\<forall>e \<in> set m. A (entry_limit e)" and b: "normalizable A m b"
    and I: "chunked A m g (mb_start b) s"
  shows "returns (chunked A m (\<lambda>k. if k \<in> bytes_range b then bytes_at b k else g k) (mb_limit b)) (normalize_one m b s)"
proof -
  obtain perms bs where s: "s = (perms, bs)" by (cases s) auto
  have ok: "bytes_ok b" "A (mb_start b)" "A (mb_limit b)" using b by (simp_all add: normalizable_def)
  let ?I = "\<lambda>(a, s). mb_start b \<le> a \<and> a \<le> mb_limit b \<and> A a \<and> chunked A m (bytes_below b a g) a s"
  have "returns (chunked A m (\<lambda>k. if k \<in> bytes_range b then bytes_at b k else g k) (mb_limit b))
      (rloop (normalize_chunk m b) (mb_start b, perms, bs))"
  proof (rule rloop_returns [where I = ?I and m = "\<lambda>(a, s). unat (mb_limit b) - unat a"])
    fix s assume "?I s"
    then obtain a q cs where a: "s = (a, q, cs)" "mb_start b \<le> a" "a \<le> mb_limit b" "A a"
      "chunked A m (bytes_below b a g) a (q, cs)"
      by (cases s) auto
    show "returns (\<lambda>x. case x of Break r \<Rightarrow> chunked A m (\<lambda>k. if k \<in> bytes_range b then bytes_at b k else g k) (mb_limit b) r
        | Continue s' \<Rightarrow> ?I s' \<and> (case s' of (a, s) \<Rightarrow> unat (mb_limit b) - unat a) < (case s of (a, s) \<Rightarrow> unat (mb_limit b) - unat a))
      (normalize_chunk m b s)"
    proof (cases "a < mb_limit b")
      case True
      show ?thesis
        unfolding a(1)
        by (rule returns_mono [OF normalize_chunk_step [OF m b a(2) True a(4,5)]])
          (use a(2) in \<open>auto simp: word_less_nat_alt word_le_nat_alt split: iter.splits\<close>)
    next
      case False
      have "chunked A m (\<lambda>k. if k \<in> bytes_range b then bytes_at b k else g k) (mb_limit b) (q, cs)"
        by (rule chunked_cong [OF a(5)]) (use False a(3) in \<open>auto simp: bytes_range_def\<close>)
      then show ?thesis using False by (simp add: a(1) normalize_chunk_def)
    qed
  next
    have "chunked A m (bytes_below b (mb_start b) g) (mb_start b) s"
      by (rule chunked_cong [OF I]) (auto simp: bytes_range_def)
    then show "?I (mb_start b, perms, bs)"
      using ok bytes_ok_limit(1) [OF ok(1)] by (simp add: s less_imp_le)
  qed
  then show ?thesis by (simp add: s normalize_one_def)
qed

lemma normalize_all_returns:
  assumes m: "mapped_map_ok m" "\<forall>e \<in> set m. A (entry_limit e)" and bs: "ordered_bytes bs" "\<forall>b \<in> set bs. normalizable A m b"
  shows "returns (\<lambda>s. \<exists>a. chunked A m (listed_bytes bs) a s) (for_each (normalize_one m) bs (MemoryPerms_None, []))"
proof -
  have "returns (\<lambda>s. \<exists>a. chunked A m (\<lambda>k. case g k of Some v \<Rightarrow> Some v | None \<Rightarrow> listed_bytes bs k) a s) (for_each (normalize_one m) bs s)"
    if "chunked A m g a s" "ordered_bytes bs" "\<forall>b \<in> set bs. normalizable A m b \<and> a \<le> mb_start b" for g a s
    using that
  proof (induction bs arbitrary: g a s)
    case Nil
    have "(\<lambda>k. case g k of Some v \<Rightarrow> Some v | None \<Rightarrow> listed_bytes [] k) = g" by (auto simp: fun_eq_iff split: option.splits)
    then show ?case using Nil by auto
  next
    case (Cons b bs)
    let ?g = "\<lambda>k. if k \<in> bytes_range b then bytes_at b k else g k"
    have b: "normalizable A m b" "chunked A m g (mb_start b) s" "bytes_ok b"
      using Cons.prems chunked_cong [OF Cons.prems(1)] by (auto simp: ordered_bytes_def)
    have rest: "ordered_bytes bs" "\<forall>c \<in> set bs. normalizable A m c \<and> mb_limit b \<le> mb_start c"
      using Cons.prems by (auto simp: ordered_bytes_def)
    have none: "g k = None" if "k \<in> bytes_range b" for k
    proof -
      obtain q cs where s: "s = (q, cs)" by (cases s)
      have "listed_bytes cs = g" "\<forall>c \<in> set cs. mb_limit c \<le> mb_start b" using b(2) unfolding s chunked_def by auto
      then show ?thesis using listed_bytes_below [of cs "mb_start b" k] that by (simp add: bytes_range_def)
    qed
    have eq: "(\<lambda>k. case ?g k of Some v \<Rightarrow> Some v | None \<Rightarrow> listed_bytes bs k) =
        (\<lambda>k. case g k of Some v \<Rightarrow> Some v | None \<Rightarrow> listed_bytes (b # bs) k)"
    proof
      fix k
      show "(case ?g k of Some v \<Rightarrow> Some v | None \<Rightarrow> listed_bytes bs k) =
          (case g k of Some v \<Rightarrow> Some v | None \<Rightarrow> listed_bytes (b # bs) k)"
        using none [of k] by (cases "k \<in> bytes_range b") (auto simp: bytes_at_in split: option.splits)
    qed
    show ?case
      using Cons.IH [OF _ rest, of ?g] eq
      by (auto intro!: returns_rbind [OF normalize_one_returns [OF m b(1,2)]] simp del: listed_bytes_simps)
  qed
  from this [of "\<lambda>_. None" 0 "(MemoryPerms_None, [])"] bs show ?thesis
    by (simp add: chunked_def ordered_bytes_def fun_eq_iff)
qed

text \<open>Normalised bytes: in order, with the same content, uniform, and with the same kind of boundaries.\<close>

theorem NormalizeMemoryBytes_list_returns:
  assumes m: "mapped_map_ok m" "\<forall>e \<in> set m. A (entry_limit e)"
    and bs: "sorted_wrt (\<lambda>a b. bytes_range a \<inter> bytes_range b = {}) bs" "\<forall>b \<in> set bs. normalizable A m b"
  shows "returns (\<lambda>cs. ordered_bytes cs \<and> listed_bytes cs = listed_bytes bs \<and>
      (\<forall>c \<in> set cs. (\<exists>p. uniform m c p) \<and> A (mb_start c) \<and> A (mb_limit c))) (NormalizeMemoryBytes_list m bs)"
proof -
  have ok: "\<forall>b \<in> set bs. bytes_ok b" using bs(2) by (simp add: normalizable_def)
  note s = sort_memory_bytes_ordered [OF ok bs(1)]
  show ?thesis
    unfolding NormalizeMemoryBytes_list_def
    by (rule returns_rbind [OF normalize_all_returns [OF m s(1)]])
      (use bs(2) s(2,3) in \<open>auto simp: chunked_def\<close>)
qed

end
