(* ===== verification/Snap_Exit.thy ===== *)
theory Snap_Exit
  imports Mem_Util Reg_Serialize
begin

text \<open>
  How a snap ends, \<open>snap/exit_sequence.h\<close> and the files of both architectures: the instructions that
  are put at the end point, the thunk they jump to, and what they leave on the stack. \<open>MemCopy\<close> and
  \<open>memcpy\<close> copy (lemma \<open>MemCopy_eq\<close>), so a buffer is the list of bytes written; pointers are words.
\<close>

definition kSnapExitAddress :: u64 where "kSnapExitAddress = 0xABCD0000"

section \<open>x86-64\<close>

definition kJumpInsnBytes :: "byte list" where
  "kJumpInsnBytes = [0x66, 0x90, 0xff, 0x25, 0x00, 0x00, 0x00, 0x00]"

definition kCallnsnBytes :: "byte list" where
  "kCallnsnBytes = [0xff, 0x15, 0x00, 0x00, 0x00, 0x00]"

definition WriteJumpOrCall :: "bool \<Rightarrow> u64 \<Rightarrow> byte list" where
  "WriteJumpOrCall is_call target = (if is_call then kCallnsnBytes else kJumpInsnBytes) @ le_store 8 target"

section \<open>AArch64\<close>

definition kExitSequence :: "u32 list" where
  "kExitSequence = [0xa93f7be0, 0xd2b579a0, 0xd63f0000]"

definition kExitThunk :: "u32 list" where
  "kExitThunk = [0x58000040, 0xd61f0000]"

definition u32_bytes :: "u32 list \<Rightarrow> byte list" where
  "u32_bytes ws = concat (map (le_store 4) ws)"

section \<open>By architecture\<close>

definition GetSnapExitSequenceSize :: "architecture_id \<Rightarrow> nat" where
  "GetSnapExitSequenceSize a = (case a of
     ArchX86_64 \<Rightarrow> length kCallnsnBytes + 8
   | ArchAArch64 \<Rightarrow> 4 * length kExitSequence
   | ArchUndefined \<Rightarrow> 0)"

definition WriteSnapExitSequence :: "architecture_id \<Rightarrow> byte list" where
  "WriteSnapExitSequence a = (case a of
     ArchX86_64 \<Rightarrow> WriteJumpOrCall True kSnapExitAddress
   | ArchAArch64 \<Rightarrow> u32_bytes kExitSequence
   | ArchUndefined \<Rightarrow> [])"

definition WriteSnapExitThunk :: "architecture_id \<Rightarrow> u64 \<Rightarrow> byte list" where
  "WriteSnapExitThunk a reentry_address = (case a of
     ArchX86_64 \<Rightarrow> WriteJumpOrCall False reentry_address
   | ArchAArch64 \<Rightarrow> u32_bytes kExitThunk @ le_store 8 reentry_address
   | ArchUndefined \<Rightarrow> [])"

definition FixUpReturnAddress :: "architecture_id \<Rightarrow> u64 \<Rightarrow> u64" where
  "FixUpReturnAddress a return_address = (case a of
     ArchX86_64 \<Rightarrow> return_address - of_nat (length kCallnsnBytes)
   | ArchAArch64 \<Rightarrow> return_address - of_nat (4 * length kExitSequence)
   | ArchUndefined \<Rightarrow> return_address)"

definition ExitSequenceStackBytesSize :: "architecture_id \<Rightarrow> nat" where
  "ExitSequenceStackBytesSize a = (case a of ArchX86_64 \<Rightarrow> 8 | ArchAArch64 \<Rightarrow> 8 * 2 | ArchUndefined \<Rightarrow> 0)"

fun WriteExitSequenceStackBytes :: "gregset \<Rightarrow> byte list" where
  "WriteExitSequenceStackBytes (GRegs_x86 g) = le_store 8 (gx_rip g + of_nat (length kCallnsnBytes))"
| "WriteExitSequenceStackBytes (GRegs_aarch64 g) = le_store 8 (ga_x g ! 0) @ le_store 8 (ga_x g ! 30)"

section \<open>Facts\<close>

lemma exit_sequence_length: "length (WriteSnapExitSequence a) = GetSnapExitSequenceSize a"
  by (cases a) (simp_all add: WriteSnapExitSequence_def GetSnapExitSequenceSize_def WriteJumpOrCall_def
      kCallnsnBytes_def u32_bytes_def kExitSequence_def)

lemma exit_sequence_size: "GetSnapExitSequenceSize ArchX86_64 = 14" "GetSnapExitSequenceSize ArchAArch64 = 12"
  by (simp_all add: GetSnapExitSequenceSize_def kCallnsnBytes_def kExitSequence_def)

text \<open>
  The sequences are the instructions the code names. On x86-64 the address the call jumps to is the word
  after it, and the return address it pushes is fixed up to the end point. On AArch64 the instruction
  at the end of the sequence is a branch with link, so the return address in \<open>x30\<close> is the end of it.
\<close>

lemma exit_targets:
  "WriteSnapExitSequence ArchX86_64 = [0xff, 0x15, 0, 0, 0, 0] @ le_store 8 kSnapExitAddress"
  "le_load (drop 6 (WriteSnapExitSequence ArchX86_64)) = kSnapExitAddress"
  "le_load (drop 8 (WriteSnapExitThunk a reentry)) = (if a = ArchUndefined then 0 else reentry)"
  by (simp_all add: WriteSnapExitSequence_def WriteSnapExitThunk_def WriteJumpOrCall_def kCallnsnBytes_def
      kJumpInsnBytes_def u32_bytes_def kExitThunk_def le_load_store split: architecture_id.splits)

lemma return_address_fixed:
  "FixUpReturnAddress ArchX86_64 (le_load (WriteExitSequenceStackBytes (GRegs_x86 g))) = gx_rip g"
  "FixUpReturnAddress ArchAArch64 (a + of_nat (GetSnapExitSequenceSize ArchAArch64)) = a"
  by (simp_all add: FixUpReturnAddress_def GetSnapExitSequenceSize_def le_load_store)

end
