(* ===== verification/Snapify_Model.thy ===== *)
theory Snapify_Model
  imports Snap_Exit Byte_Runs Snapshot_End_States
begin

text \<open>
  Making a snapshot ready to become a snap: \<open>snap/gen/snapify.cc\<close>, \<open>snap_generator.h\<close> and
  \<open>reserved_memory_mappings.h/.cc\<close>. The reserved mappings depend on the architecture the tool was
  compiled for, the parameter \<open>host\<close>.
\<close>

section \<open>Reserved memory\<close>

definition SILIFUZZ_RUNNER_BASE_ADDRESS :: address where "SILIFUZZ_RUNNER_BASE_ADDRESS = 0x456700000000"

definition host_reserved :: "architecture_id \<Rightarrow> (address \<times> address) list" where
  "host_reserved host = (case host of
     ArchX86_64 \<Rightarrow> [(0x7f0000000000, 0x800000000000), (0x800000000000, 0xffffffffffffffff)]
   | ArchAArch64 \<Rightarrow> [(0x0000ffff80000000, 0x0001000000000000), (0x0001000000000000, 0xffffffffffffffff)]
   | ArchUndefined \<Rightarrow> [])"

definition reserved_ranges :: "architecture_id \<Rightarrow> (address \<times> address) list" where
  "reserved_ranges host =
     [(0x0, 0x10000),
      (kSnapExitAddress, kSnapExitAddress + push_bit 12 1),
      (SILIFUZZ_RUNNER_BASE_ADDRESS, SILIFUZZ_RUNNER_BASE_ADDRESS + push_bit 32 1)] @ host_reserved host"

definition ReservedMemoryMappings :: "architecture_id \<Rightarrow> mapped_map res" where
  "ReservedMemoryMappings host =
     for_each (\<lambda>(start, limit). MappedMemoryMap_Add start limit MemoryPerms_All) (reserved_ranges host) MappedMemoryMap_empty"

fun overlap_loop :: "memory_mapping list \<Rightarrow> mapped_map \<Rightarrow> bool res" where
  "overlap_loop [] reserved = ret False"
| "overlap_loop (m # ms) reserved =
     rbind (MappedMemoryMap_Overlaps (mm_start m) (mm_limit m) reserved) (\<lambda>overlaps.
     if overlaps then ret True else overlap_loop ms reserved)"

definition OverlapReservedMemoryMappings :: "architecture_id \<Rightarrow> memory_mapping list \<Rightarrow> bool res" where
  "OverlapReservedMemoryMappings host ms = rbind (ReservedMemoryMappings host) (overlap_loop ms)"

section \<open>Options and errors\<close>

definition kAny :: nat where "kAny = 49"

record snapify_options =
  opt_allow_undefined_end_state :: bool
  opt_platform_id :: nat
  opt_compress_repeating_bytes :: bool
  opt_support_direct_mmap :: bool

definition default_options :: snapify_options where
  "default_options = \<lparr>opt_allow_undefined_end_state = False, opt_platform_id = kAny,
     opt_compress_repeating_bytes = True, opt_support_direct_mmap = False\<rparr>"

definition MakeOpts :: "architecture_id \<Rightarrow> bool \<Rightarrow> snapify_options" where
  "MakeOpts arch_id allow_undefined_end_state =
     default_options\<lparr>opt_allow_undefined_end_state := allow_undefined_end_state,
       opt_support_direct_mmap := (arch_id = ArchAArch64)\<rparr>"

definition V2InputRunOpts :: "architecture_id \<Rightarrow> snapify_options" where
  "V2InputRunOpts arch_id = MakeOpts arch_id False"

definition V2InputMakeOpts :: "architecture_id \<Rightarrow> snapify_options" where
  "V2InputMakeOpts arch_id = MakeOpts arch_id True"

text \<open>\<open>RETURN_IF_NOT_OK\<close> of a status, and \<open>ASSIGN_OR_RETURN_IF_NOT_OK\<close>, in front of the rest.\<close>

definition return_error :: "status res \<Rightarrow> 'a snap_or res \<Rightarrow> 'a snap_or res" where
  "return_error m rest = rbind m (\<lambda>st. if st \<noteq> OkStatus then ret (Inl (Status_error st)) else rest)"

definition assign_or_return :: "'a snap_or res \<Rightarrow> ('a \<Rightarrow> 'b snap_or res) \<Rightarrow> 'b snap_or res" where
  "assign_or_return m f = rbind m (\<lambda>r. case r of Inl e \<Rightarrow> ret (Inl e) | Inr x \<Rightarrow> f x)"

definition invalid :: "string \<Rightarrow> 'a snap_or res" where
  "invalid msg = ret (Inl (Status_error (InvalidArgument msg)))"

section \<open>The end state\<close>

fun pick_loop :: "nat \<Rightarrow> end_state list \<Rightarrow> end_state snap_or res" where
  "pick_loop platform_id [] = ret (Inl (NotFound ''no expected end state for platform ''))"
| "pick_loop platform_id (es # rest) =
     rbind (EndState_has_platform platform_id es) (\<lambda>has.
     if has \<or> platform_id = kAny
     then return_error (ret (EndState_IsComplete kNormalState es)) (ret (Inr es))
     else pick_loop platform_id rest)"

definition PickEndState :: "snapshot \<Rightarrow> snapify_options \<Rightarrow> end_state snap_or res" where
  "PickEndState s options =
     (if opt_allow_undefined_end_state options
      then if length (snap_expected_end_states s) \<noteq> 1
           then invalid ''want exactly 1 undefined expected endstate, found ''
           else return_error (IsCompleteSomeState s) (ret (Inr (snap_expected_end_states s ! 0)))
      else pick_loop (opt_platform_id options) (snap_expected_end_states s))"

section \<open>CanSnapify\<close>

definition can_snapify_stack :: "end_state \<Rightarrow> snapshot \<Rightarrow> unit snap_or res" where
  "can_snapify_stack e s =
     rbind (ExtractRsp (es_registers e) s) (\<lambda>ending_rsp.
     if ending_rsp < 8 then invalid ''need at least 8 bytes on stack''
     else rbind (MappedMemoryMap_Contains (ending_rsp - 8) ending_rsp (snap_mapped_memory_map s)) (\<lambda>contained.
          if \<not> contained then invalid ''need at least 8 bytes on stack'' else ret (Inr ())))"

definition CanSnapify :: "architecture_id \<Rightarrow> snapshot \<Rightarrow> snapify_options \<Rightarrow> unit snap_or res" where
  "CanSnapify host s opts =
     assign_or_return (PickEndState s opts) (\<lambda>e.
     case es_endpoint e of
       kSignal _ _ _ _ \<Rightarrow> invalid ''endpoint isn't kInstruction''
     | kInstruction ending_rip \<Rightarrow>
         rbind (OverlapReservedMemoryMappings host (snap_memory_mappings s)) (\<lambda>overlap.
         if overlap then invalid ''memory mappings overlap reserved memory mappings''
         else rbind (arch_dispatch (\<lambda>arch. ret (of_nat (GetSnapExitSequenceSize arch))) s) (\<lambda>exit_sequence_size.
         rbind (MappedMemoryMap_Contains ending_rip (ending_rip + exit_sequence_size) (snap_mapped_memory_map s)) (\<lambda>contained.
         if \<not> contained then invalid ''CanSnapify: no room for the exit sequence''
         else if opt_allow_undefined_end_state opts \<and> EndState_IsComplete kUndefinedEndState e = OkStatus
         then ret (Inr ())
         else can_snapify_stack e s))))"

section \<open>Memory bytes\<close>

type_synonym compression_query = "memory_state \<Rightarrow> memory_bytes \<Rightarrow> bool"

definition ShouldAlwaysCompress :: compression_query where
  "ShouldAlwaysCompress st b = True"

definition ShouldCompressNonExecutable :: compression_query where
  "ShouldCompressNonExecutable st b =
     (\<not> MemoryPerms_HasPermission (MappedMemoryMap_PermsAt (mb_start b) (ms_mapped_memory_map st)) kExecutable)"

definition ShouldNeverCompress :: compression_query where
  "ShouldNeverCompress st b = False"

fun compress_loop ::
    "compression_query \<Rightarrow> memory_state \<Rightarrow> memory_bytes list \<Rightarrow> memory_bytes list \<Rightarrow> memory_bytes list snap_or res" where
  "compress_loop should_compress st result [] = ret (Inr result)"
| "compress_loop should_compress st result (b # bs) =
     (if should_compress st b
      then assign_or_return (GetRepeatingByteRuns b) (\<lambda>runs. compress_loop should_compress st (result @ runs) bs)
      else compress_loop should_compress st (result @ [b]) bs)"

definition SnapifyMemoryByteList :: "memory_state \<Rightarrow> compression_query \<Rightarrow> memory_bytes list snap_or res" where
  "SnapifyMemoryByteList st should_compress =
     rbind (memory_bytes_list (ms_written_memory_set st) st) (\<lambda>bs.
     rbind (NormalizeMemoryBytes_list (ms_mapped_memory_map st) bs) (\<lambda>bs.
     compress_loop should_compress st [] bs))"

definition initial_query :: "snapify_options \<Rightarrow> compression_query" where
  "initial_query opts =
     (if opt_compress_repeating_bytes opts
      then if opt_support_direct_mmap opts then ShouldCompressNonExecutable else ShouldAlwaysCompress
      else ShouldNeverCompress)"

text \<open>An operation that gives a status and a new object, in front of the rest.\<close>

definition with_status :: "(status \<times> 's) res \<Rightarrow> ('s \<Rightarrow> 'a snap_or res) \<Rightarrow> 'a snap_or res" where
  "with_status m f = rbind m (\<lambda>(st, s). if st \<noteq> OkStatus then ret (Inl (Status_error st)) else f s)"

definition keep_writable :: "snapshot \<Rightarrow> memory_state \<Rightarrow> memory_state res" where
  "keep_writable s st =
     MappedMemoryMap_Iterate (\<lambda>start limit perms st.
       if \<not> MemoryPerms_HasPermission perms kWritable then RemoveMemoryMapping start limit st else ret st)
       (snap_mapped_memory_map s) st"

definition snapify_end_state :: "snapify_options \<Rightarrow> snapshot \<Rightarrow> end_state \<Rightarrow> end_state snap_or res" where
  "snapify_end_state opts s e =
     (if EndState_IsComplete kNormalState e = OkStatus
      then rbind (MakeInitial s kZeroMappedBytes) (\<lambda>st.
           rbind (SetMemoryBytes_list (es_memory_bytes e) st) (\<lambda>st.
           rbind (keep_writable s st) (\<lambda>st.
           assign_or_return (SnapifyMemoryByteList st
             (if opt_compress_repeating_bytes opts then ShouldAlwaysCompress else ShouldNeverCompress)) (\<lambda>bs.
           with_status (EndState_ReplaceMemoryBytes bs e) (\<lambda>e. ret (Inr e))))))
      else rbind (check (opt_allow_undefined_end_state opts) ''opts.allow_undefined_end_state'') (\<lambda>_. ret (Inr e)))"

fun snapify_end_states :: "snapify_options \<Rightarrow> end_state list \<Rightarrow> snapshot \<Rightarrow> snapshot snap_or res" where
  "snapify_end_states opts [] s = ret (Inr s)"
| "snapify_end_states opts (e # es) s =
     assign_or_return (snapify_end_state opts s e) (\<lambda>e.
     return_error (can_add_expected_end_state e False s)
       (rbind (add_expected_end_state e False s) (snapify_end_states opts es)))"

definition SnapifyMemoryBytes :: "snapify_options \<Rightarrow> snapshot \<Rightarrow> snapshot snap_or res" where
  "SnapifyMemoryBytes opts s =
     rbind (MakeInitial s kZeroMappedBytes) (\<lambda>memory_state.
     assign_or_return (SnapifyMemoryByteList memory_state (initial_query opts)) (\<lambda>bs.
     with_status (ReplaceMemoryBytes bs s) (\<lambda>s.
     let end_states = snap_expected_end_states s in
     rbind (set_expected_end_states [] s) (\<lambda>s.
     snapify_end_states opts end_states s))))"

section \<open>The exit sequence\<close>

definition MergeExitSequence :: "architecture_id \<Rightarrow> address \<Rightarrow> snapshot \<Rightarrow> snapshot snap_or res" where
  "MergeExitSequence arch a s =
     (let placeholder = replicate (GetSnapExitSequenceSize arch) (0 :: byte);
          snap_exit_byte_data = WriteSnapExitSequence arch in
      return_error (ret (CanConstruct a placeholder))
     (rbind (new_memory_bytes a snap_exit_byte_data) (\<lambda>snap_exit_memory_bytes.
      rbind (MappedMemoryMap_Contains (mb_start snap_exit_memory_bytes) (mb_limit snap_exit_memory_bytes)
               (snap_mapped_memory_map s)) (\<lambda>contained.
      if \<not> contained then invalid ''InsertExitSequence(): no room for the exit sequence''
      else rbind (MakeInitial s kZeroMappedBytes) (\<lambda>st.
           rbind (SetMemoryBytes snap_exit_memory_bytes st) (\<lambda>st.
           rbind (memory_bytes_list (ms_written_memory_set st) st) (\<lambda>bs.
           with_status (ReplaceMemoryBytes bs s) (\<lambda>s. ret (Inr s)))))))))"

definition Snapify :: "architecture_id \<Rightarrow> snapshot \<Rightarrow> snapify_options \<Rightarrow> snapshot snap_or res" where
  "Snapify host s opts =
     assign_or_return (CanSnapify host s opts) (\<lambda>_.
     assign_or_return (PickEndState s opts) (\<lambda>e.
     rbind (Snapshot_Copy s) (\<lambda>snapified.
     rbind (NormalizeMemoryMappings snapified) (\<lambda>snapified.
     rbind (set_expected_end_states [e] snapified) (\<lambda>snapified.
     assign_or_return
       (case es_endpoint e of
          kInstruction a \<Rightarrow> arch_dispatch (\<lambda>arch. MergeExitSequence arch a snapified) snapified
        | kSignal _ _ _ _ \<Rightarrow> abort (Check_failed ''type_ == kInstruction'')) (\<lambda>snapified.
     SnapifyMemoryBytes opts snapified))))))"

end
