(* ===== verification/Snapify_Bytes.thy ===== *)
theory Snapify_Bytes
  imports Normalize_Spec Range_Boundaries Snapify_Model
begin

text \<open>
  What \<open>SnapifyMemoryByteList\<close> gives for a memory state whose written bytes are all known and whose contents
  change at multiples of eight only: the same bytes in the order of their addresses, in pieces with uniform
  permissions, the pieces the query selects split into runs. Page-aligned mappings change at pages only, which
  is where such states come from.
\<close>

section \<open>Pages and words\<close>

lemma page_aligned_zero [simp]: "page_aligned 0"
  by (simp add: page_aligned_def)

lemma aligned8_iff: "aligned8 a \<longleftrightarrow> 8 dvd unat a"
  by (simp add: aligned8_def word_unat_eq_iff unat_mod mod_eq_0_iff_dvd)

lemma page_aligned_iff: "page_aligned a \<longleftrightarrow> 4096 dvd unat a"
  by (simp add: page_aligned_def word_unat_eq_iff unat_mod mod_eq_0_iff_dvd)

lemma page_aligned_8: "page_aligned a \<Longrightarrow> aligned8 a"
  unfolding aligned8_iff page_aligned_iff by (rule dvd_trans [of 8 4096]) simp_all

text \<open>Mappings whose ends have a property change there only.\<close>

definition paged :: "memory_mapping list \<Rightarrow> bool" where
  "paged ms \<longleftrightarrow> (\<forall>m \<in> set ms. page_aligned (mm_start m) \<and> page_aligned (mm_limit m))"

lemma inside_before:
  assumes "k \<noteq> s" "k \<noteq> l" "(k :: address) \<noteq> 0"
  shows "s \<le> k \<and> k < l \<longleftrightarrow> s \<le> k - 1 \<and> k - 1 < l"
proof -
  have "unat (k - 1) = unat k - 1" "unat k \<noteq> unat s" "unat k \<noteq> unat l" "0 < unat k"
    using assms by (simp_all only: unat_minus_one unat_gt_0 word_unat_eq_iff [symmetric] not_False_eq_True simp_thms)
  then show ?thesis by (auto simp: word_le_nat_alt word_less_nat_alt)
qed

lemma paged_changes:
  assumes "paged ms"
  shows "changes_at page_aligned (mappings_at ms)"
  unfolding changes_at_def
proof (intro conjI allI impI)
  fix k assume k: "\<not> page_aligned k"
  then have "k \<noteq> 0" by auto
  then have "k \<in> mapping_range m \<longleftrightarrow> k - 1 \<in> mapping_range m" if "m \<in> set ms" for m
    using assms that k inside_before [of k "mm_start m" "mm_limit m"] by (auto simp: paged_def mem_mapping_range)
  then show "mappings_at ms k = mappings_at ms (k - 1)"
    by (induction ms) (simp_all add: mappings_at_Cons)
qed simp

lemma paged_changes8: "paged ms \<Longrightarrow> changes_at aligned8 (mappings_at ms)"
  by (rule changes_at_mono [OF paged_changes page_aligned_8])

lemma aligned_size:
  assumes "bytes_ok b" "aligned8 (mb_start b)" "aligned8 (mb_limit b)"
  shows "8 dvd length (mb_values b)"
  using assms bytes_ok_limit(2) [OF assms(1)] unfolding aligned8_iff by (metis dvd_add_right_iff)

section \<open>The written bytes as a list\<close>

lemma written_bytes:
  assumes st: "has_state f A g st" and dom: "dom g = A"
  defines "bs \<equiv> map (bytes_of_entry st) (ms_written_memory_set st)"
  shows "memory_bytes_list (ms_written_memory_set st) st = ret bs" "ordered_bytes bs" "listed_bytes bs = g"
    "changes_at P (\<lambda>k. k \<in> A) \<Longrightarrow> \<forall>b \<in> set bs. P (mb_start b) \<and> P (mb_limit b)"
proof -
  let ?w = "ms_written_memory_set st"
  have ok: "state_ok st" "bytes_set_ok ?w" "addresses ?w = A" "byte_at (ms_written_memory_bytes st) = g"
    using has_state_ok [OF st] has_state_eqs [OF st] by (simp_all add: state_ok_def)
  have sub: "addresses ?w \<subseteq> dom (byte_at (ms_written_memory_bytes st))" using ok dom by simp
  show "memory_bytes_list ?w st = ret bs" unfolding bs_def by (rule memory_bytes_list_eq [OF ok(1,2) sub])
  have ranges: "mb_start (bytes_of_entry st e) = entry_start e" "mb_limit (bytes_of_entry st e) = entry_limit e"
    if "e \<in> set ?w" for e
  proof -
    have lt: "entry_start e < entry_limit e" by (rule ranges_ok_pos [OF bytes_ranges [OF ok(2)] that])
    show s: "mb_start (bytes_of_entry st e) = entry_start e" by (simp add: bytes_of_entry_def)
    have "unat (mb_limit (bytes_of_entry st e)) = unat (entry_limit e)"
      using bytes_ok_limit(2) [OF bytes_of_entry_ok(2) [OF lt, of st]] range_size(2) [OF lt] s
      by (simp add: bytes_of_entry_def bytes_of_def)
    then show "mb_limit (bytes_of_entry st e) = entry_limit e" by (simp only: word_unat_eq_iff)
  qed
  have "sorted_wrt (\<lambda>e f. entry_limit e \<le> entry_start f) ?w"
    using bytes_ranges [OF ok(2)] by (simp add: ranges_ok_def)
  then have "sorted_wrt (\<lambda>e f. mb_limit (bytes_of_entry st e) \<le> mb_start (bytes_of_entry st f)) ?w"
    by (rule sorted_wrt_mono_rel [rotated]) (simp add: ranges)
  then show ord: "ordered_bytes bs"
    using bytes_of_entries(1) [OF ok(1,2) sub] by (simp add: ordered_bytes_def bs_def sorted_wrt_map)
  have "put_bytes bs (\<lambda>_. None) = g"
    using bytes_of_entries(3) [OF ok(1,2) sub] ok(3,4) dom
    by (simp add: bs_def) (metis restrict_map_def domIff ext)
  then show "listed_bytes bs = g" by (simp add: put_bytes_disjoint [OF ordered_disjoint [OF ord]])
  show "\<forall>b \<in> set bs. P (mb_start b) \<and> P (mb_limit b)" if "changes_at P (\<lambda>k. k \<in> A)"
    using bytes_set_boundaries [OF ok(2)] that ok(3) by (auto simp: bs_def ranges)
qed

section \<open>Compression\<close>

lemma listed_bytes_range: "listed_bytes bs k \<noteq> None \<longleftrightarrow> (\<exists>b \<in> set bs. k \<in> bytes_range b)"
  by (auto simp: listed_bytes_None)

lemma start_in_range: "bytes_ok b \<Longrightarrow> mb_start b \<in> bytes_range b"
  using bytes_ok_limit(1) [of b] by (simp add: bytes_range_def)

lemma runs_of:
  assumes "bytes_ok b" "8 dvd length (mb_values b)"
  shows "returns (\<lambda>r. \<exists>rs. r = Inr rs \<and> ordered_bytes rs \<and> listed_bytes rs = bytes_at b \<and>
      (\<forall>c \<in> set rs. bytes_range c \<subseteq> bytes_range b \<and> compressed [c])) (GetRepeatingByteRuns b)"
proof (rule returns_mono [OF GetRepeatingByteRuns_returns [OF assms]])
  fix r :: "memory_bytes list snap_or"
  assume r: "case r of Inl e \<Rightarrow> False | Inr rs \<Rightarrow> consecutive (mb_start b) rs \<and> all_values rs = mb_values b \<and> compressed rs"
  then obtain rs where rs: "r = Inr rs" "consecutive (mb_start b) rs" "all_values rs = mb_values b" "compressed rs"
    by (cases r) auto
  have len: "unat (mb_start b) + length (all_values rs) < 2 ^ 64" using assms(1) rs(3) by (simp add: bytes_ok_def)
  note c = consecutive_bytes [OF rs(2) len]
  have "bytes_range c \<subseteq> bytes_range b" if "c \<in> set rs" for c
  proof -
    have "unat (mb_limit c) \<le> unat (mb_limit b)"
      using c(3) [OF that] bytes_ok_limit(2) [OF assms(1)] rs(3) by simp
    then show ?thesis using c(3) [OF that] by (auto simp: bytes_range_def word_le_nat_alt word_less_nat_alt)
  qed
  moreover have "listed_bytes rs = bytes_at b" using c(2) unfolding rs(3) by (cases b) simp
  ultimately show "\<exists>rs. r = Inr rs \<and> ordered_bytes rs \<and> listed_bytes rs = bytes_at b \<and>
      (\<forall>c \<in> set rs. bytes_range c \<subseteq> bytes_range b \<and> compressed [c])"
    using rs(1,4) c(1) by (auto simp: compressed_def)
qed

lemma ordered_join:
  assumes "ordered_bytes (b # bs)" "ordered_bytes rs" "listed_bytes rs = bytes_at b" "\<forall>c \<in> set rs. bytes_range c \<subseteq> bytes_range b"
    and cs: "ordered_bytes cs" "listed_bytes cs = listed_bytes bs" "\<forall>c \<in> set cs. \<exists>b \<in> set bs. bytes_range c \<subseteq> bytes_range b"
  shows "ordered_bytes (rs @ cs)" "listed_bytes (rs @ cs) = listed_bytes (b # bs)"
proof -
  have "mb_limit x \<le> mb_start y" if xy: "x \<in> set rs" "y \<in> set cs" for x y
  proof -
    have x: "bytes_ok x" "bytes_range x \<subseteq> bytes_range b" and y: "bytes_ok y"
      using xy assms(2,4) cs(1) by (auto simp: ordered_bytes_def)
    obtain d where d: "d \<in> set bs" "bytes_range y \<subseteq> bytes_range d" using cs(3) xy(2) by blast
    have "mb_start y \<in> bytes_range d" using d start_in_range [OF y] by blast
    then have "mb_start d \<le> mb_start y" by (simp add: bytes_range_def)
    moreover have "mb_limit b \<le> mb_start d" using assms(1) d(1) by (simp add: ordered_bytes_def)
    moreover have "mb_limit x \<le> mb_limit b"
    proof -
      have lt: "mb_start x < mb_limit x" by (rule bytes_ok_limit(1) [OF x(1)])
      have "mb_limit x - 1 \<in> bytes_range b" using x(2) predecessor [OF lt] by (auto simp: bytes_range_def)
      then have "mb_limit x - 1 < mb_limit b" by (simp add: bytes_range_def)
      then show ?thesis by (metis inc_le diff_add_cancel)
    qed
    ultimately show ?thesis by order
  qed
  then show "ordered_bytes (rs @ cs)" using assms(2) cs(1) by (simp add: ordered_bytes_append)
  show "listed_bytes (rs @ cs) = listed_bytes (b # bs)"
    by (auto simp: fun_eq_iff listed_bytes_append assms(3) cs(2) bytes_at_in bytes_at_out split: option.splits)
qed

lemma compress_loop_returns:
  assumes "ordered_bytes bs" "\<forall>b \<in> set bs. 8 dvd length (mb_values b)"
  shows "returns (\<lambda>r. \<exists>cs. r = Inr (acc @ cs) \<and> ordered_bytes cs \<and> listed_bytes cs = listed_bytes bs \<and>
      (\<forall>c \<in> set cs. (\<exists>b \<in> set bs. bytes_range c \<subseteq> bytes_range b) \<and> 8 dvd length (mb_values c) \<and> (q st c \<longrightarrow> compressed [c])))
    (compress_loop q st acc bs)"
  using assms
proof (induction bs arbitrary: acc)
  case (Cons b bs)
  have b: "bytes_ok b" "8 dvd length (mb_values b)" and bs: "ordered_bytes bs" "\<forall>b \<in> set bs. 8 dvd length (mb_values b)"
    using Cons.prems by (simp_all add: ordered_bytes_def)
  have step: "returns (\<lambda>r. \<exists>cs. r = Inr (acc @ cs) \<and> ordered_bytes cs \<and> listed_bytes cs = listed_bytes (b # bs) \<and>
      (\<forall>c \<in> set cs. (\<exists>b \<in> set (b # bs). bytes_range c \<subseteq> bytes_range b) \<and> 8 dvd length (mb_values c) \<and> (q st c \<longrightarrow> compressed [c])))
      (compress_loop q st (acc @ rs) bs)"
    if rs: "ordered_bytes rs" "listed_bytes rs = bytes_at b"
      "\<forall>c \<in> set rs. bytes_range c \<subseteq> bytes_range b \<and> 8 dvd length (mb_values c) \<and> (q st c \<longrightarrow> compressed [c])" for rs
  proof (rule returns_mono [OF Cons.IH [OF bs, of "acc @ rs"]], elim exE conjE)
    fix r cs
    assume cs: "r = Inr ((acc @ rs) @ cs)" "ordered_bytes cs" "listed_bytes cs = listed_bytes bs"
      "\<forall>c \<in> set cs. (\<exists>b \<in> set bs. bytes_range c \<subseteq> bytes_range b) \<and> 8 dvd length (mb_values c) \<and> (q st c \<longrightarrow> compressed [c])"
    have sub: "\<forall>c \<in> set rs. bytes_range c \<subseteq> bytes_range b" "\<forall>c \<in> set cs. \<exists>b \<in> set bs. bytes_range c \<subseteq> bytes_range b"
      using rs(3) cs(4) by blast+
    note j = ordered_join [OF Cons.prems(1) rs(1,2) sub(1) cs(2,3) sub(2)]
    show "\<exists>ds. r = Inr (acc @ ds) \<and> ordered_bytes ds \<and> listed_bytes ds = listed_bytes (b # bs) \<and>
      (\<forall>c \<in> set ds. (\<exists>b \<in> set (b # bs). bytes_range c \<subseteq> bytes_range b) \<and> 8 dvd length (mb_values c) \<and> (q st c \<longrightarrow> compressed [c]))"
      by (rule exI [of _ "rs @ cs"]) (use cs(1,4) rs(3) j in auto)
  qed
  show ?case
  proof (cases "q st b")
    case True
    have "returns (\<lambda>r. \<exists>cs. r = Inr (acc @ cs) \<and> ordered_bytes cs \<and> listed_bytes cs = listed_bytes (b # bs) \<and>
      (\<forall>c \<in> set cs. (\<exists>b \<in> set (b # bs). bytes_range c \<subseteq> bytes_range b) \<and> 8 dvd length (mb_values c) \<and> (q st c \<longrightarrow> compressed [c])))
      (assign_or_return (GetRepeatingByteRuns b) (\<lambda>runs. compress_loop q st (acc @ runs) bs))"
      unfolding assign_or_return_def
      by (rule returns_rbind [OF runs_of [OF b]], elim exE conjE, simp only: sum.case, rule step)
        (auto simp: compressed_def mod_eq_0_iff_dvd)
    then show ?thesis using True by (simp del: listed_bytes_simps)
  next
    case False
    have "listed_bytes [b] = bytes_at b" by (auto simp: fun_eq_iff bytes_at_out)
    then show ?thesis using step [of "[b]"] False b by (simp add: ordered_bytes_def del: listed_bytes_simps)
  qed
qed (simp add: ordered_bytes_def)

section \<open>The whole function\<close>

text \<open>Bytes as a snap holds them, for the content \<open>g\<close> of a memory mapped by \<open>m\<close>.\<close>

definition snap_bytes :: "mapped_map \<Rightarrow> (memory_bytes \<Rightarrow> bool) \<Rightarrow> (address \<rightharpoonup> byte) \<Rightarrow> memory_bytes list \<Rightarrow> bool" where
  "snap_bytes m q g bs \<longleftrightarrow> ordered_bytes bs \<and> listed_bytes bs = g \<and>
     (\<forall>c \<in> set bs. (\<exists>p. uniform m c p) \<and> 8 dvd length (mb_values c) \<and> (q c \<longrightarrow> compressed [c]))"

lemma SnapifyMemoryByteList_returns:
  assumes st: "has_state f A g st" and dom: "dom g = A"
    and ch: "changes_at aligned8 f" "changes_at aligned8 (\<lambda>k. k \<in> A)"
  shows "returns (\<lambda>r. \<exists>bs. r = Inr bs \<and> snap_bytes (ms_mapped_memory_map st) (q st) g bs) (SnapifyMemoryByteList st q)"
proof -
  let ?m = "ms_mapped_memory_map st" and ?bs = "map (bytes_of_entry st) (ms_written_memory_set st)"
  note w = written_bytes [OF st dom]
  have m: "mapped_map_ok ?m" "perms_at ?m = f" using state_mapped [OF st] has_state_eqs(1) [OF st] by simp_all
  have lim: "\<forall>e \<in> set ?m. aligned8 (entry_limit e)" using mapped_map_boundaries(2) [OF m(1)] ch(1) unfolding m(2) by blast
  have "normalizable aligned8 ?m b" if b: "b \<in> set ?bs" for b
  proof -
    have "bytes_range b \<subseteq> A" using listed_bytes_range [of ?bs] w(3) dom b by auto
    then have "bytes_range b \<subseteq> dom (perms_at ?m)" using state_written(1) [OF st] m(2) by simp
    moreover have "bytes_ok b" using w(2) b unfolding ordered_bytes_def by blast
    ultimately show ?thesis using w(4) [OF ch(2)] b unfolding normalizable_def by blast
  qed
  then have norm: "\<forall>b \<in> set ?bs. normalizable aligned8 ?m b" by blast
  show ?thesis
    unfolding SnapifyMemoryByteList_def w(1) rbind_simps
  proof (rule returns_rbind [OF NormalizeMemoryBytes_list_returns [OF m(1) lim ordered_disjoint [OF w(2)] norm]], elim conjE)
    fix cs assume cs: "ordered_bytes cs" "listed_bytes cs = listed_bytes ?bs"
      "\<forall>c \<in> set cs. (\<exists>p. uniform ?m c p) \<and> aligned8 (mb_start c) \<and> aligned8 (mb_limit c)"
    have "\<forall>c \<in> set cs. 8 dvd length (mb_values c)" using cs(1,3) aligned_size by (auto simp: ordered_bytes_def)
    from compress_loop_returns [OF cs(1) this, of "[]" q st]
    show "returns (\<lambda>r. \<exists>bs. r = Inr bs \<and> snap_bytes ?m (q st) g bs) (compress_loop q st [] cs)"
    proof (rule returns_mono, elim exE conjE)
      fix r ds
      assume ds: "r = Inr ([] @ ds)" "ordered_bytes ds" "listed_bytes ds = listed_bytes cs"
        "\<forall>c \<in> set ds. (\<exists>b \<in> set cs. bytes_range c \<subseteq> bytes_range b) \<and> 8 dvd length (mb_values c) \<and> (q st c \<longrightarrow> compressed [c])"
      have "\<exists>p. uniform ?m c p" if "c \<in> set ds" for c
        using ds(4) that cs(3) unfolding uniform_def by blast
      then show "\<exists>bs. r = Inr bs \<and> snap_bytes ?m (q st) g bs" using ds cs(2) w(3) by (auto simp: snap_bytes_def)
    qed
  qed
qed

end
