(* ===== verification/Snapify_Facts.thy ===== *)
theory Snapify_Facts
  imports Snapify_Bytes Snapshot_End_State_Facts
begin

text \<open>
  The steps of \<open>Snapify\<close> on a snapshot that keeps its invariant: the memory it starts with, replacing the
  memory bytes of a snapshot and of an end state, keeping the writable part of a memory state.
\<close>

section \<open>The memory a snapshot starts with\<close>

text \<open>Every mapped address has a byte, zero where the snapshot lists none.\<close>

definition start_memory :: "snapshot \<Rightarrow> address \<rightharpoonup> byte" where
  "start_memory s k = (if k \<in> mapped_addresses (snap_memory_mappings s)
     then Some (case listed_bytes (snap_memory_bytes s) k of Some v \<Rightarrow> v | None \<Rightarrow> 0) else None)"

abbreviation full_perms :: "snapshot \<Rightarrow> address \<rightharpoonup> memory_perms" where
  "full_perms s \<equiv> \<lambda>k. map_option with_mapped (mappings_at (snap_memory_mappings s) k)"

lemma dom_start_memory: "dom (start_memory s) = mapped_addresses (snap_memory_mappings s)"
  by (auto simp: start_memory_def split: if_splits)

lemma dom_full_perms: "dom (full_perms s) = mapped_addresses (snap_memory_mappings s)"
  by (auto simp: mapped_addresses_def)

lemma MakeInitial_returns:
  assumes "snapshot_ok s"
  shows "returns (has_state (full_perms s) (mapped_addresses (snap_memory_mappings s)) (start_memory s)) (MakeInitial s kZeroMappedBytes)"
proof -
  have sub: "addresses (snap_written_memory_set s) \<subseteq> mapped_addresses (snap_memory_mappings s)"
    using assms by (simp add: snapshot_ok_def)
  have "listed_bytes (snap_memory_bytes s) k = None" if "k \<notin> mapped_addresses (snap_memory_mappings s)" for k
    using snapshot_bytes(1) [OF assms] that by (auto simp: listed_bytes_None)
  then have g: "initial_bytes s kZeroMappedBytes (\<lambda>_. None) (\<lambda>_. None) = start_memory s"
    by (auto simp: fun_eq_iff initial_bytes_def start_memory_def newly_mapped_def split: option.splits)
  have f: "initial_perms s (\<lambda>_. None) = full_perms s"
    by (auto simp: fun_eq_iff initial_perms_def split: option.splits)
  show ?thesis
    unfolding MakeInitial_def
    by (rule returns_mono [OF SetInitialState_returns [OF new_memory_state_ok assms, of kZeroMappedBytes]])
      (use sub in \<open>auto simp: f g newly_mapped_def elim!: has_state_cong\<close>)
qed

section \<open>Replacing memory bytes\<close>

definition disjoint_bytes :: "memory_bytes list \<Rightarrow> bool" where
  "disjoint_bytes bs \<longleftrightarrow> (\<forall>b \<in> set bs. bytes_ok b) \<and> sorted_wrt (\<lambda>a b. bytes_range a \<inter> bytes_range b = {}) bs"

lemma ordered_disjoint_bytes: "ordered_bytes bs \<Longrightarrow> disjoint_bytes bs"
  using ordered_disjoint [of bs] by (simp add: disjoint_bytes_def ordered_bytes_def)

lemma replace_loop_returns:
  assumes "snapshot_ok s" "disjoint_bytes (snap_memory_bytes s @ bs)"
    "\<forall>b \<in> set bs. bytes_range b \<subseteq> mapped_addresses (snap_memory_mappings s)"
  shows "returns (\<lambda>(st, t). st = OkStatus \<and> snapshot_ok t \<and>
      (\<exists>w. t = s\<lparr>snap_written_memory_set := w, snap_memory_bytes := snap_memory_bytes s @ bs\<rparr>)) (replace_memory_bytes_loop bs s)"
  using assms
proof (induction bs arbitrary: s)
  case Nil
  then show ?case by (simp add: exI [of _ "snap_written_memory_set s"])
next
  case (Cons b bs)
  have b: "bytes_ok b" "bytes_range b \<subseteq> mapped_addresses (snap_memory_mappings s)"
    "\<forall>c \<in> set (snap_memory_bytes s). bytes_range c \<inter> bytes_range b = {}"
    using Cons.prems(2,3) by (auto simp: disjoint_bytes_def sorted_wrt_append)
  then have can: "can_add_memory_bytes b s = ret OkStatus"
    by (auto simp: can_add_memory_bytes_eq [OF Cons.prems(1) b(1)])
  show ?case
    unfolding replace_memory_bytes_loop.simps can rbind_simps
  proof (simp, rule returns_rbind [OF add_memory_bytes_returns [OF Cons.prems(1) b(1) can]], elim conjE exE)
    fix t w assume t: "snapshot_ok t" "t = s\<lparr>snap_written_memory_set := w, snap_memory_bytes := snap_memory_bytes s @ [b]\<rparr>"
    show "returns (\<lambda>(st, t). st = OkStatus \<and> snapshot_ok t \<and>
        (\<exists>w. t = s\<lparr>snap_written_memory_set := w, snap_memory_bytes := snap_memory_bytes s @ b # bs\<rparr>)) (replace_memory_bytes_loop bs t)"
      using Cons.IH [OF t(1)] Cons.prems(2,3) unfolding t(2) by simp
  qed
qed

lemma ReplaceMemoryBytes_returns:
  assumes "snapshot_ok s" "disjoint_bytes bs" "\<forall>b \<in> set bs. bytes_range b \<subseteq> mapped_addresses (snap_memory_mappings s)"
  shows "returns (\<lambda>(st, t). st = OkStatus \<and> snapshot_ok t \<and> (\<exists>w. t = s\<lparr>snap_written_memory_set := w, snap_memory_bytes := bs\<rparr>))
    (ReplaceMemoryBytes bs s)"
proof -
  let ?s = "s\<lparr>snap_written_memory_set := [], snap_memory_bytes := []\<rparr>"
  have "snapshot_ok ?s" using assms(1) by (simp add: snapshot_ok_def)
  from replace_loop_returns [OF this, of bs] assms(2,3) show ?thesis
    unfolding ReplaceMemoryBytes_def MemoryBytesSet_clear_Nil by simp
qed

lemma EndState_replace_loop_returns:
  assumes "bytes_represent (es_memory_bytes e) (es_changed_memory_set e)" "disjoint_bytes (es_memory_bytes e @ bs)"
  shows "returns (\<lambda>(st, t). st = OkStatus \<and> (\<exists>w. t = e\<lparr>es_changed_memory_set := w, es_memory_bytes := es_memory_bytes e @ bs\<rparr>))
    (EndState_replace_loop bs e)"
  using assms
proof (induction bs arbitrary: e)
  case Nil
  then show ?case by (simp add: exI [of _ "es_changed_memory_set e"])
next
  case (Cons b bs)
  have b: "bytes_ok b" "\<forall>c \<in> set (es_memory_bytes e). bytes_range c \<inter> bytes_range b = {}"
    using Cons.prems(2) by (auto simp: disjoint_bytes_def sorted_wrt_append)
  have w: "bytes_set_ok (es_changed_memory_set e)"
    "addresses (es_changed_memory_set e) = \<Union> (bytes_range ` set (es_memory_bytes e))"
    using Cons.prems(1) by (simp_all add: bytes_represent_def)
  have "addresses (es_changed_memory_set e) \<inter> {mb_start b..<mb_limit b} = {}"
    using b(2) unfolding w(2) bytes_range_def by blast
  then have can: "EndState_can_add_memory_bytes b e = ret OkStatus"
    unfolding EndState_can_add_memory_bytes_def IsDisjoint_eq [OF w(1) bytes_ok_limit(1) [OF b(1)]] by simp
  have add: "returns (\<lambda>t. \<exists>w. bytes_represent (es_memory_bytes e @ [b]) w \<and>
      t = e\<lparr>es_changed_memory_set := w, es_memory_bytes := es_memory_bytes e @ [b]\<rparr>) (EndState_add_memory_bytes b e)"
    unfolding EndState_add_memory_bytes_def can rbind_simps
    by (simp add: dcheck_status_def, rule returns_rbind [OF bytes_represent_add [OF Cons.prems(1) b]]) auto
  show ?case
    unfolding EndState_replace_loop.simps can rbind_simps
  proof (simp, rule returns_rbind [OF add], elim exE conjE)
    fix t w assume t: "bytes_represent (es_memory_bytes e @ [b]) w"
      "t = e\<lparr>es_changed_memory_set := w, es_memory_bytes := es_memory_bytes e @ [b]\<rparr>"
    show "returns (\<lambda>(st, t). st = OkStatus \<and> (\<exists>w. t = e\<lparr>es_changed_memory_set := w, es_memory_bytes := es_memory_bytes e @ b # bs\<rparr>))
      (EndState_replace_loop bs t)"
      using Cons.IH [of t] t(1) Cons.prems(2) unfolding t(2) by simp
  qed
qed

lemma EndState_Replace_returns:
  assumes "disjoint_bytes bs"
  shows "returns (\<lambda>(st, t). st = OkStatus \<and> (\<exists>w. t = e\<lparr>es_changed_memory_set := w, es_memory_bytes := bs\<rparr>))
    (EndState_ReplaceMemoryBytes bs e)"
  using EndState_replace_loop_returns [of "e\<lparr>es_changed_memory_set := [], es_memory_bytes := []\<rparr>" bs] assms
  unfolding EndState_ReplaceMemoryBytes_def MemoryBytesSet_clear_Nil by simp

section \<open>Keeping the writable part\<close>

definition writable_at :: "snapshot \<Rightarrow> address \<Rightarrow> bool" where
  "writable_at s k \<longleftrightarrow> (\<exists>p. mappings_at (snap_memory_mappings s) k = Some p \<and> kWritable \<in> perms_set p)"

lemma keep_writable_returns:
  assumes st: "has_state f A g st" and s: "snapshot_ok s" and dom: "dom f = mapped_addresses (snap_memory_mappings s)"
  shows "returns (has_state (\<lambda>k. if writable_at s k then f k else None) {k \<in> A. writable_at s k}
      (\<lambda>k. if writable_at s k then g k else None)) (keep_writable s st)"
proof -
  let ?m = "snap_mapped_memory_map s" and ?h = "\<lambda>k. (f k, k \<in> A, g k)"
  let ?F = "\<lambda>v h. if kWritable \<in> perms_set v then h else (None, False, None)"
  have m: "mapped_map_ok ?m" "\<And>k. perms_at ?m k = mappings_at (snap_memory_mappings s) k"
    using s by (simp_all add: snapshot_ok_def represents_def)
  have "returns (content (\<lambda>k. case perms_at ?m k of None \<Rightarrow> ?h k | Some v \<Rightarrow> ?F v (?h k))) (keep_writable s st)"
    unfolding keep_writable_def
  proof (rule Iterate_returns [OF m(1), where F = ?F])
    show "content ?h st" using st by (simp add: content_def)
    fix a l v h st assume lt: "a < (l :: address)" and c: "content h st"
    show "returns (content (on_keys a l (\<lambda>k. ?F v (h k)) h))
       (if \<not> MemoryPerms_HasPermission v kWritable then RemoveMemoryMapping a l st else ret st)"
    proof (cases "kWritable \<in> perms_set v")
      case True
      have "on_keys a l h h = h" by (simp add: on_keys_def fun_eq_iff)
      then show ?thesis using True c by (simp add: HasPermission_iff)
    next
      case False
      have "returns (content (on_keys a l (\<lambda>k. (None, False, None)) h)) (RemoveMemoryMapping a l st)"
        using c lt unfolding content_def
        by (intro returns_mono [OF RemoveMemoryMapping_returns])
          (auto elim!: has_state_cong simp: on_keys_def fun_eq_iff split: if_splits)
      then show ?thesis using False by (simp add: HasPermission_iff)
    qed
  qed
  then show ?thesis
  proof (rule content_returns)
    fix k
    let ?x = "case perms_at ?m k of None \<Rightarrow> ?h k | Some v \<Rightarrow> ?F v (?h k)"
    have out: "f k = None \<and> k \<notin> A \<and> g k = None" if "mappings_at (snap_memory_mappings s) k = None"
    proof -
      have "k \<notin> dom f" using that dom by (simp add: mapped_addresses_def)
      then show ?thesis using state_written [OF st] by blast
    qed
    have "?x = (if writable_at s k then ?h k else (None, False, None))"
      using out by (auto simp: m(2) writable_at_def split: option.splits)
    then show "fst ?x = (if writable_at s k then f k else None)" "fst (snd ?x) \<longleftrightarrow> k \<in> {k \<in> A. writable_at s k}"
      "snd (snd ?x) = (if writable_at s k then g k else None)" by simp_all
  qed
qed

section \<open>Bytes ready for a snap\<close>

text \<open>
  In order, with the content \<open>g\<close>; each piece in memory with the same permissions, its size a multiple of eight, and
  a single run or free of runs where \<open>q\<close> asks for compression.
\<close>

definition snap_ready :: "memory_mapping list \<Rightarrow> (memory_bytes \<Rightarrow> bool) \<Rightarrow> (address \<rightharpoonup> byte) \<Rightarrow> memory_bytes list \<Rightarrow> bool" where
  "snap_ready ms q g bs \<longleftrightarrow> ordered_bytes bs \<and> listed_bytes bs = g \<and>
     (\<forall>c \<in> set bs. (\<exists>p. \<forall>k \<in> bytes_range c. mappings_at ms k = Some p) \<and> 8 dvd length (mb_values c) \<and> (q c \<longrightarrow> compressed [c]))"

lemma clear_with_mapped:
  assumes "perms_ok p" "kMapped \<notin> perms_set p"
  shows "MemoryPerms_ClearPermission kMapped (with_mapped p) = p"
  using assms by (subst perms_eq_iff) auto

lemma snap_bytes_ready:
  assumes ms: "mappings_ok ms" and bs: "snap_bytes m q g bs"
    and f: "\<And>k p. perms_at m k = Some p \<Longrightarrow> \<exists>p'. mappings_at ms k = Some p' \<and> p = with_mapped p'"
    and q: "\<And>c. bytes_ok c \<Longrightarrow> bytes_range c \<subseteq> dom (perms_at m) \<Longrightarrow> q' c \<Longrightarrow> q c"
  shows "snap_ready ms q' g bs"
proof -
  have "(\<exists>p. \<forall>k \<in> bytes_range c. mappings_at ms k = Some p) \<and> (q' c \<longrightarrow> compressed [c])" if c: "c \<in> set bs" for c
  proof -
    obtain p where p: "\<forall>k \<in> bytes_range c. plain_perms m k = Some p"
      using bs c unfolding snap_bytes_def uniform_def by blast
    have ok: "bytes_ok c" using bs c by (auto simp: snap_bytes_def ordered_bytes_def)
    have "mappings_at ms k = Some p \<and> k \<in> dom (perms_at m)" if "k \<in> bytes_range c" for k
    proof -
      have "plain_perms m k = Some p" using p that by blast
      then obtain v where v: "perms_at m k = Some v" "p = MemoryPerms_ClearPermission kMapped v"
        by (auto simp: plain_perms_def)
      obtain u where u: "mappings_at ms k = Some u" "v = with_mapped u" using f [OF v(1)] by blast
      then show ?thesis
        using v clear_with_mapped [of u] mappings_at_nonempty [OF ms u(1)] mappings_at_no_kMapped [OF ms u(1)] by auto
    qed
    then show ?thesis using bs c q [OF ok] unfolding snap_bytes_def by blast
  qed
  then show ?thesis using bs by (simp add: snap_ready_def snap_bytes_def)
qed

lemma snap_ready_range:
  assumes "snap_ready ms q g bs" "b \<in> set bs"
  shows "bytes_ok b" "bytes_range b \<subseteq> dom g" "disjoint_bytes bs"
  using assms listed_bytes_range [of bs] ordered_disjoint_bytes [of bs] by (auto simp: snap_ready_def ordered_bytes_def)

end
