(* ===== verification/Snapify_Steps.thy ===== *)
theory Snapify_Steps
  imports Snapify_Facts
begin

text \<open>
  The two halves of \<open>Snapify\<close>: \<open>MergeExitSequence\<close> puts the exit sequence over the starting memory, and
  \<open>SnapifyMemoryBytes\<close> lists the whole starting memory and, for the end state, all writable memory at the end.
\<close>

section \<open>Initial memory bytes\<close>

text \<open>The pieces that are split into runs: all, or with direct mapping those that are not executable.\<close>

definition compressed_initially :: "snapify_options \<Rightarrow> memory_mapping list \<Rightarrow> memory_bytes \<Rightarrow> bool" where
  "compressed_initially opts ms c \<longleftrightarrow> opt_compress_repeating_bytes opts \<and>
     (opt_support_direct_mmap opts \<longrightarrow> \<not> executable_at (mb_start c) ms)"

lemma full_perms_changes:
  assumes "paged (snap_memory_mappings s)"
  shows "changes_at aligned8 (full_perms s)" "changes_at aligned8 (\<lambda>k. k \<in> mapped_addresses (snap_memory_mappings s))"
    "changes_at aligned8 (writable_at s)"
  by (rule changes_at_comp [OF paged_changes8 [OF assms]]; simp add: mapped_addresses_def writable_at_def)+

lemma initial_query_selects:
  assumes "perms_at (ms_mapped_memory_map st) = full_perms s" "mapped_map_ok (ms_mapped_memory_map st)"
    "compressed_initially opts (snap_memory_mappings s) c"
  shows "initial_query opts st c"
proof -
  let ?p = "MappedMemoryMap_PermsAt (mb_start c) (ms_mapped_memory_map st)"
  have "MemoryPerms_HasPermission ?p kExecutable \<longleftrightarrow> executable_at (mb_start c) (snap_memory_mappings s)"
    by (auto simp: HasPermission_iff PermsAt_eq [OF assms(2)] assms(1) executable_at_def split: option.splits)
  then show ?thesis
    using assms(3)
    by (auto simp: compressed_initially_def initial_query_def ShouldCompressNonExecutable_def ShouldAlwaysCompress_def)
qed

lemma snapify_initial_returns:
  assumes s: "snapshot_ok s" "paged (snap_memory_mappings s)"
    and st: "has_state (full_perms s) (mapped_addresses (snap_memory_mappings s)) (start_memory s) st"
  shows "returns (\<lambda>r. \<exists>bs. r = Inr bs \<and>
      snap_ready (snap_memory_mappings s) (compressed_initially opts (snap_memory_mappings s)) (start_memory s) bs)
    (SnapifyMemoryByteList st (initial_query opts))"
proof (rule returns_mono [OF SnapifyMemoryByteList_returns [OF st dom_start_memory full_perms_changes(1,2) [OF s(2)]]], elim exE conjE)
  fix r bs assume r: "r = Inr bs" and bs: "snap_bytes (ms_mapped_memory_map st) (initial_query opts st) (start_memory s) bs"
  have f: "perms_at (ms_mapped_memory_map st) = full_perms s" by (rule has_state_eqs(1) [OF st])
  have "snap_ready (snap_memory_mappings s) (compressed_initially opts (snap_memory_mappings s)) (start_memory s) bs"
    by (rule snap_bytes_ready [OF snapshot_maps(5) [OF s(1)] bs])
      (use initial_query_selects [OF f state_mapped [OF st]] in \<open>auto simp: f\<close>)
  then show "\<exists>bs. r = Inr bs \<and>
      snap_ready (snap_memory_mappings s) (compressed_initially opts (snap_memory_mappings s)) (start_memory s) bs"
    using r by blast
qed

section \<open>The end state\<close>

definition end_memory :: "snapshot \<Rightarrow> end_state \<Rightarrow> address \<rightharpoonup> byte" where
  "end_memory s e k = (if writable_at s k then put_bytes (es_memory_bytes e) (start_memory s) k else None)"

definition end_state_snapified :: "snapify_options \<Rightarrow> snapshot \<Rightarrow> end_state \<Rightarrow> end_state \<Rightarrow> bool" where
  "end_state_snapified opts s e e' \<longleftrightarrow>
     es_endpoint e' = es_endpoint e \<and> es_registers e' = es_registers e \<and> es_platforms e' = es_platforms e \<and>
     es_register_checksum e' = es_register_checksum e \<and>
     (if EndState_IsComplete kNormalState e = OkStatus
      then snap_ready (snap_memory_mappings s) (\<lambda>_. opt_compress_repeating_bytes opts) (end_memory s e) (es_memory_bytes e')
      else e' = e)"

lemma dom_put_bytes: "dom (put_bytes bs g) = dom g \<union> \<Union> (bytes_range ` set bs)"
  by (induction bs arbitrary: g) (auto simp: dom_bytes_at)

lemma permits_writable: "permits kWritable (mb_start b) (mb_limit b) (snap_memory_mappings s) \<longleftrightarrow> (\<forall>k \<in> bytes_range b. writable_at s k)"
  by (auto simp: permits_def writable_at_def bytes_range_def)

lemma writable_mapped: "writable_at s k \<Longrightarrow> k \<in> mapped_addresses (snap_memory_mappings s)"
  by (auto simp: writable_at_def mapped_addresses_def)

lemma end_memory_state_returns:
  assumes s: "snapshot_ok s" and e: "end_state_fits u e s" "\<forall>b \<in> set (es_memory_bytes e). bytes_ok b"
  shows "returns (has_state (\<lambda>k. if writable_at s k then full_perms s k else None) {k. writable_at s k} (end_memory s e))
    (rbind (MakeInitial s kZeroMappedBytes) (\<lambda>st. rbind (SetMemoryBytes_list (es_memory_bytes e) st) (keep_writable s)))"
proof (rule returns_rbind [OF MakeInitial_returns [OF s]])
  fix st assume st: "has_state (full_perms s) (mapped_addresses (snap_memory_mappings s)) (start_memory s) st"
  let ?A = "mapped_addresses (snap_memory_mappings s)" and ?bs = "es_memory_bytes e"
  have w: "\<forall>b \<in> set ?bs. bytes_range b \<subseteq> ?A"
    using e(1) writable_mapped unfolding end_state_fits_def permits_writable by blast
  then have ok: "\<forall>b \<in> set ?bs. bytes_ok b \<and> bytes_range b \<subseteq> dom (full_perms s)" using e(2) unfolding dom_full_perms by blast
  have A: "?A \<union> \<Union> (bytes_range ` set ?bs) = ?A" using w by blast
  show "returns (has_state (\<lambda>k. if writable_at s k then full_perms s k else None) {k. writable_at s k} (end_memory s e))
      (rbind (SetMemoryBytes_list ?bs st) (keep_writable s))"
  proof (rule returns_rbind [OF SetMemoryBytes_list_returns [OF st ok]], unfold A)
    fix x assume x: "has_state (full_perms s) ?A (put_bytes ?bs (start_memory s)) x"
    have "{k \<in> ?A. writable_at s k} = {k. writable_at s k}" using writable_mapped by blast
    then show "returns (has_state (\<lambda>k. if writable_at s k then full_perms s k else None) {k. writable_at s k} (end_memory s e))
        (keep_writable s x)"
      using keep_writable_returns [OF x s dom_full_perms] by (simp add: end_memory_def [abs_def])
  qed
qed

lemma dom_end_memory:
  assumes "snapshot_ok s" "end_state_fits u e s"
  shows "dom (end_memory s e) = {k. writable_at s k}"
proof -
  have "k \<in> dom (put_bytes (es_memory_bytes e) (start_memory s))" if "writable_at s k" for k
    using writable_mapped [OF that] by (simp add: dom_put_bytes dom_start_memory)
  moreover have "k \<in> dom (end_memory s e) \<longleftrightarrow> writable_at s k \<and> k \<in> dom (put_bytes (es_memory_bytes e) (start_memory s))" for k
    by (simp add: end_memory_def dom_def)
  ultimately show ?thesis by blast
qed

lemma snapify_end_state_returns:
  assumes s: "snapshot_ok s" "paged (snap_memory_mappings s)"
    and e: "end_state_fits u e s" "\<forall>b \<in> set (es_memory_bytes e). bytes_ok b"
      "opt_allow_undefined_end_state opts \<or> EndState_IsComplete kNormalState e = OkStatus"
  shows "returns (\<lambda>r. \<exists>e'. r = Inr e' \<and> end_state_snapified opts s e e') (snapify_end_state opts s e)"
proof (cases "EndState_IsComplete kNormalState e = OkStatus")
  case False
  then show ?thesis using e(3) by (simp add: snapify_end_state_def end_state_snapified_def)
next
  case True
  let ?q = "if opt_compress_repeating_bytes opts then ShouldAlwaysCompress else ShouldNeverCompress"
  let ?f = "\<lambda>k. if writable_at s k then full_perms s k else None"
  have eq: "snapify_end_state opts s e =
     rbind (rbind (MakeInitial s kZeroMappedBytes) (\<lambda>st. rbind (SetMemoryBytes_list (es_memory_bytes e) st) (keep_writable s))) (\<lambda>st.
     assign_or_return (SnapifyMemoryByteList st ?q) (\<lambda>bs. with_status (EndState_ReplaceMemoryBytes bs e) (\<lambda>e. ret (Inr e))))"
    by (simp add: snapify_end_state_def True rbind_assoc)
  show ?thesis
    unfolding eq
  proof (rule returns_rbind [OF end_memory_state_returns [OF s(1) e(1,2)]])
    fix st assume st: "has_state ?f {k. writable_at s k} (end_memory s e) st"
    have ch: "changes_at aligned8 ?f" "changes_at aligned8 (\<lambda>k. k \<in> {k. writable_at s k})"
      using changes_at_pair [OF full_perms_changes(3,1) [OF s(2)], of "\<lambda>w p. if w then p else None"]
        full_perms_changes(3) [OF s(2)] by simp_all
    have f: "perms_at (ms_mapped_memory_map st) = ?f" by (rule has_state_eqs(1) [OF st])
    show "returns (\<lambda>r. \<exists>e'. r = Inr e' \<and> end_state_snapified opts s e e')
        (assign_or_return (SnapifyMemoryByteList st ?q) (\<lambda>bs. with_status (EndState_ReplaceMemoryBytes bs e) (\<lambda>e. ret (Inr e))))"
      unfolding assign_or_return_def
    proof (rule returns_rbind [OF SnapifyMemoryByteList_returns [OF st dom_end_memory [OF s(1) e(1)] ch]], elim exE conjE)
      fix r :: "memory_bytes list snap_or" and bs
      assume r: "r = Inr bs" and bs: "snap_bytes (ms_mapped_memory_map st) (?q st) (end_memory s e) bs"
      have ready: "snap_ready (snap_memory_mappings s) (\<lambda>_. opt_compress_repeating_bytes opts) (end_memory s e) bs"
        by (rule snap_bytes_ready [OF snapshot_maps(5) [OF s(1)] bs])
          (auto simp: f ShouldAlwaysCompress_def split: if_splits)
      have "disjoint_bytes bs" using ready by (auto simp: snap_ready_def intro: ordered_disjoint_bytes)
      then have "returns (\<lambda>r. \<exists>e'. r = Inr e' \<and> end_state_snapified opts s e e')
          (with_status (EndState_ReplaceMemoryBytes bs e) (\<lambda>e. ret (Inr e)))"
        unfolding with_status_def
        by (intro returns_rbind [OF EndState_Replace_returns])
          (use True ready in \<open>auto simp: end_state_snapified_def\<close>)
      then show "returns (\<lambda>r. \<exists>e'. r = Inr e' \<and> end_state_snapified opts s e e')
          (case r of Inl e \<Rightarrow> ret (Inl e) | Inr bs \<Rightarrow> with_status (EndState_ReplaceMemoryBytes bs e) (\<lambda>e. ret (Inr e)))"
        using r by simp
    qed
  qed
qed

lemma snapified_fits:
  assumes s: "snapshot_ok s" and e: "end_state_fits u e s" "\<forall>b \<in> set (es_memory_bytes e). bytes_ok b"
    and e': "end_state_snapified opts s e e'"
  shows "end_state_fits u e' s" "\<forall>b \<in> set (es_memory_bytes e'). bytes_ok b"
proof -
  have same: "es_endpoint e' = es_endpoint e" "es_registers e' = es_registers e" "es_register_checksum e' = es_register_checksum e"
    using e' by (simp_all add: end_state_snapified_def)
  have "end_state_fits u e' s \<and> (\<forall>b \<in> set (es_memory_bytes e'). bytes_ok b)"
  proof (cases "EndState_IsComplete kNormalState e = OkStatus")
    case False
    then show ?thesis
      using e e' by (simp_all add: end_state_snapified_def)
  next
    case True
    then have "\<not> RegisterState_IsUnset (es_registers e)"
      by (auto simp: EndState_IsComplete_def RegisterState_IsUnset_def split: if_splits)
    moreover have b: "bytes_ok b" "\<forall>k \<in> bytes_range b. writable_at s k" if "b \<in> set (es_memory_bytes e')" for b
    proof -
      have ready: "snap_ready (snap_memory_mappings s) (\<lambda>_. opt_compress_repeating_bytes opts) (end_memory s e) (es_memory_bytes e')"
        using e' True by (simp add: end_state_snapified_def)
      show "bytes_ok b" "\<forall>k \<in> bytes_range b. writable_at s k"
        using snap_ready_range(1,2) [OF ready that] dom_end_memory [OF s e(1)] by auto
    qed
    ultimately show ?thesis using e(1) same by (simp add: end_state_fits_def permits_writable)
  qed
  then show "end_state_fits u e' s" "\<forall>b \<in> set (es_memory_bytes e'). bytes_ok b" by blast+
qed

end
