(* ===== verification/Snapify_Whole.thy ===== *)
theory Snapify_Whole
  imports Snapify_Steps
begin

text \<open>
  The functions around the two halves: which end state is picked, when \<open>CanSnapify\<close> agrees, and the composition.
\<close>

section \<open>All memory bytes\<close>

lemma snapified_cong:
  assumes "snap_memory_mappings t = snap_memory_mappings s" "start_memory t = start_memory s"
  shows "end_memory t e = end_memory s e" "end_state_snapified opts t e e' \<longleftrightarrow> end_state_snapified opts s e e'"
proof -
  have "writable_at t = writable_at s" by (simp add: writable_at_def [abs_def] assms(1))
  then show e: "end_memory t e = end_memory s e" by (intro ext) (simp only: end_memory_def assms(2))
  show "end_state_snapified opts t e e' \<longleftrightarrow> end_state_snapified opts s e e'"
    by (simp only: end_state_snapified_def assms(1) e)
qed

lemma same_start_memory:
  assumes "snap_memory_mappings t = snap_memory_mappings s" "listed_bytes (snap_memory_bytes t) = start_memory s"
  shows "start_memory t = start_memory s"
  by (auto simp: fun_eq_iff start_memory_def [of t] assms split: option.splits) (auto simp: start_memory_def split: if_splits)

lemma fits_extends:
  assumes "snap_memory_mappings t = snap_memory_mappings s" "snap_architecture t = snap_architecture s"
    "snap_negative_memory_mappings t = snap_negative_memory_mappings s"
  shows "end_state_fits u e s \<Longrightarrow> end_state_fits u e t"
  using end_state_fits_extends [of s t u e] by (simp add: extends_def assms)

lemma snapify_one_end_state:
  assumes s: "snapshot_ok s" "paged (snap_memory_mappings s)" "snap_expected_end_states s = []"
    and e: "end_state_fits False e s" "\<forall>b \<in> set (es_memory_bytes e). bytes_ok b"
      "opt_allow_undefined_end_state opts \<or> EndState_IsComplete kNormalState e = OkStatus"
  shows "returns (\<lambda>r. \<exists>e'. r = Inr (s\<lparr>snap_expected_end_states := [e']\<rparr>) \<and> end_state_snapified opts s e e')
    (snapify_end_states opts [e] s)"
  unfolding snapify_end_states.simps assign_or_return_def
proof (rule returns_rbind [OF snapify_end_state_returns [OF s(1,2) e]], elim exE conjE)
  fix r :: "end_state snap_or" and e'
  assume r: "r = Inr e'" and e': "end_state_snapified opts s e e'"
  note fits = snapified_fits [OF s(1) e(1,2) e']
  have can: "can_add_expected_end_state e' False s = ret OkStatus"
    using can_add_end_state_returns [OF s(1) fits(2), of False False] fits(1) s(3)
    by (auto simp: can_add_expected_end_state_def elim: returnsE)
  show "returns (\<lambda>r. \<exists>e'. r = Inr (s\<lparr>snap_expected_end_states := [e']\<rparr>) \<and> end_state_snapified opts s e e')
      (case r of Inl e \<Rightarrow> ret (Inl e) | Inr e \<Rightarrow> return_error (can_add_expected_end_state e False s)
          (rbind (add_expected_end_state e False s) (\<lambda>s. ret (Inr s))))"
    using e' by (auto simp: r return_error_def can add_expected_end_state_def dcheck_res_def s(3))
qed

lemma SnapifyMemoryBytes_returns:
  assumes s: "snapshot_ok s" "paged (snap_memory_mappings s)" "snap_expected_end_states s = [e]"
    and e: "end_state_fits False e s" "\<forall>b \<in> set (es_memory_bytes e). bytes_ok b"
      "opt_allow_undefined_end_state opts \<or> EndState_IsComplete kNormalState e = OkStatus"
  shows "returns (\<lambda>r. \<exists>w bs e'. r = Inr (s\<lparr>snap_written_memory_set := w, snap_memory_bytes := bs, snap_expected_end_states := [e']\<rparr>) \<and>
      snapshot_ok (s\<lparr>snap_written_memory_set := w, snap_memory_bytes := bs, snap_expected_end_states := [e']\<rparr>) \<and>
      snap_ready (snap_memory_mappings s) (compressed_initially opts (snap_memory_mappings s)) (start_memory s) bs \<and>
      end_state_snapified opts s e e') (SnapifyMemoryBytes opts s)"
    (is "returns ?P _")
  unfolding SnapifyMemoryBytes_def
proof (rule returns_rbind [OF MakeInitial_returns [OF s(1)]])
  fix st assume st: "has_state (full_perms s) (mapped_addresses (snap_memory_mappings s)) (start_memory s) st"
  let ?rest = "\<lambda>s. let end_states = snap_expected_end_states s in
     rbind (set_expected_end_states [] s) (snapify_end_states opts end_states)"
  have rest: "returns ?P (with_status (ReplaceMemoryBytes bs s) ?rest)"
    if bs: "snap_ready (snap_memory_mappings s) (compressed_initially opts (snap_memory_mappings s)) (start_memory s) bs" for bs
  proof -
    have b: "disjoint_bytes bs" "listed_bytes bs = start_memory s"
      using bs ordered_disjoint_bytes by (auto simp: snap_ready_def)
    have range: "\<forall>b \<in> set bs. bytes_range b \<subseteq> mapped_addresses (snap_memory_mappings s)"
      using snap_ready_range(2) [OF bs] by (simp add: dom_start_memory)
    show ?thesis
      unfolding with_status_def
    proof (rule returns_rbind [OF ReplaceMemoryBytes_returns [OF s(1) b(1) range]])
      fix x :: "status \<times> snapshot"
      assume "case x of (st, t) \<Rightarrow> st = OkStatus \<and> snapshot_ok t \<and> (\<exists>w. t = s\<lparr>snap_written_memory_set := w, snap_memory_bytes := bs\<rparr>)"
      then obtain w where x: "x = (OkStatus, s\<lparr>snap_written_memory_set := w, snap_memory_bytes := bs\<rparr>)"
        "snapshot_ok (s\<lparr>snap_written_memory_set := w, snap_memory_bytes := bs\<rparr>)" by (cases x) auto
      let ?t = "s\<lparr>snap_written_memory_set := w, snap_memory_bytes := bs, snap_expected_end_states := []\<rparr>"
      have t: "snapshot_ok ?t" using x(2) by (simp add: snapshot_ok_def)
      have fits: "end_state_fits False e ?t" by (rule fits_extends [OF _ _ _ e(1)]) simp_all
      have "end_state_snapified opts ?t e e' \<longleftrightarrow> end_state_snapified opts s e e'" for e'
        using b(2) by (intro snapified_cong same_start_memory) simp_all
      then have "returns ?P (snapify_end_states opts [e] ?t)"
        using x(2) bs
        by (intro returns_mono [OF snapify_one_end_state [OF t _ _ fits e(2,3)]]) (auto simp: s snapshot_ok_def)
      then show "returns ?P (case x of (st, s) \<Rightarrow> if st \<noteq> OkStatus then ret (Inl (Status_error st)) else ?rest s)"
        unfolding x(1) by (simp add: s(3) set_expected_end_states_def)
    qed
  qed
  show "returns ?P (assign_or_return (SnapifyMemoryByteList st (initial_query opts)) (\<lambda>bs. with_status (ReplaceMemoryBytes bs s) ?rest))"
    unfolding assign_or_return_def
    by (rule returns_rbind [OF snapify_initial_returns [OF s(1,2) st]]) (use rest in \<open>auto simp del: Let_def\<close>)
qed

section \<open>The exit sequence\<close>

definition exit_bytes :: "architecture_id \<Rightarrow> address \<Rightarrow> memory_bytes" where
  "exit_bytes arch a = \<lparr>mb_start = a, mb_values = WriteSnapExitSequence arch\<rparr>"

lemma MergeExitSequence_returns:
  assumes s: "snapshot_ok s" and arch: "arch \<noteq> ArchUndefined" and a: "unat a + GetSnapExitSequenceSize arch < 2 ^ 64"
    and room: "bytes_range (exit_bytes arch a) \<subseteq> mapped_addresses (snap_memory_mappings s)"
  shows "returns (\<lambda>r. \<exists>w bs. r = Inr (s\<lparr>snap_written_memory_set := w, snap_memory_bytes := bs\<rparr>) \<and>
      snapshot_ok (s\<lparr>snap_written_memory_set := w, snap_memory_bytes := bs\<rparr>) \<and>
      listed_bytes bs = start_memory s ++ bytes_at (exit_bytes arch a)) (MergeExitSequence arch a s)"
    (is "returns ?P _")
proof -
  let ?b = "exit_bytes arch a" and ?A = "mapped_addresses (snap_memory_mappings s)"
  have len: "length (WriteSnapExitSequence arch) = GetSnapExitSequenceSize arch" by (rule exit_sequence_length)
  have size: "GetSnapExitSequenceSize arch \<in> {12, 14}" using arch exit_sequence_size by (cases arch) auto
  have ne: "WriteSnapExitSequence arch \<noteq> []" "length (WriteSnapExitSequence arch) < 2 ^ 64"
    "unat a + length (WriteSnapExitSequence arch) < 2 ^ 64"
    using len size a by auto
  have b: "new_memory_bytes a (WriteSnapExitSequence arch) = ret ?b" "bytes_ok ?b"
    unfolding exit_bytes_def by (rule new_memory_bytes_ok [OF ne(2,1,3)])+
  have c: "CanConstruct a (replicate (GetSnapExitSequenceSize arch) 0) = OkStatus"
    using a size by (subst CanConstruct_iff) auto
  have m: "mapped_map_ok (snap_mapped_memory_map s)" "\<And>k. perms_at (snap_mapped_memory_map s) k = mappings_at (snap_memory_mappings s) k"
    using s by (simp_all add: snapshot_ok_def represents_def)
  have "perms_at (snap_mapped_memory_map s) k \<noteq> None" if "mb_start ?b \<le> k" "k < mb_limit ?b" for k
    using room that by (auto simp: m(2) bytes_range_def mapped_addresses_def)
  then have in_map: "MappedMemoryMap_Contains (mb_start ?b) (mb_limit ?b) (snap_mapped_memory_map s) = ret True"
    unfolding Contains_eq [OF m(1) bytes_ok_limit(1) [OF b(2)]] by simp
  have eq: "MergeExitSequence arch a s = rbind (MakeInitial s kZeroMappedBytes) (\<lambda>st. rbind (SetMemoryBytes ?b st) (\<lambda>st.
      rbind (memory_bytes_list (ms_written_memory_set st) st) (\<lambda>bs. with_status (ReplaceMemoryBytes bs s) (\<lambda>s. ret (Inr s)))))"
    by (simp add: MergeExitSequence_def return_error_def c b(1) in_map Let_def)
  show ?thesis
    unfolding eq
  proof (rule returns_rbind [OF MakeInitial_returns [OF s]])
    fix st assume st: "has_state (full_perms s) ?A (start_memory s) st"
    have A: "?A \<union> bytes_range ?b = ?A" using room by blast
    have range: "bytes_range ?b \<subseteq> dom (full_perms s)" using room by (simp only: dom_full_perms)
    show "returns ?P (rbind (SetMemoryBytes ?b st) (\<lambda>st.
      rbind (memory_bytes_list (ms_written_memory_set st) st) (\<lambda>bs. with_status (ReplaceMemoryBytes bs s) (\<lambda>s. ret (Inr s)))))"
    proof (rule returns_rbind [OF SetMemoryBytes_returns [OF st b(2) range]], unfold A)
      fix x assume x: "has_state (full_perms s) ?A (start_memory s ++ bytes_at ?b) x"
      have dom: "dom (start_memory s ++ bytes_at ?b) = ?A" using room by (auto simp: dom_start_memory dom_bytes_at)
      note w = written_bytes [OF x dom]
      let ?bs = "map (bytes_of_entry x) (ms_written_memory_set x)"
      have "\<forall>c \<in> set ?bs. bytes_range c \<subseteq> ?A"
        using dom_listed_bytes [of ?bs] unfolding w(3) dom by blast
      note r = ReplaceMemoryBytes_returns [OF s ordered_disjoint_bytes [OF w(2)] this]
      show "returns ?P (rbind (memory_bytes_list (ms_written_memory_set x) x) (\<lambda>bs. with_status (ReplaceMemoryBytes bs s) (\<lambda>s. ret (Inr s))))"
        unfolding w(1) rbind_simps with_status_def
        by (rule returns_rbind [OF r], clarsimp simp del: listed_bytes_simps) (use w(3) in blast)
    qed
  qed
qed

end
