(* ===== verification/Snapify_Spec.thy ===== *)
theory Snapify_Spec
  imports Snapify_Whole Snapshot_End_State_Properties
begin

text \<open>
  When a snapshot can become a snap, and what \<open>Snapify\<close> then returns.
\<close>

section \<open>Reserved memory\<close>

definition reserved_at :: "architecture_id \<Rightarrow> address \<Rightarrow> bool" where
  "reserved_at host k \<longleftrightarrow> (\<exists>(s, l) \<in> set (reserved_ranges host). s \<le> k \<and> k < l)"

lemma add_ranges_returns:
  assumes "\<forall>(s, l) \<in> set rs. s < l" "mapped_map_ok m"
  shows "returns (\<lambda>m'. mapped_map_ok m' \<and> (\<forall>k. perms_at m' k \<noteq> None \<longleftrightarrow> perms_at m k \<noteq> None \<or> (\<exists>(s, l) \<in> set rs. s \<le> k \<and> k < l)))
    (for_each (\<lambda>(start, limit). MappedMemoryMap_Add start limit MemoryPerms_All) rs m)"
  using assms
proof (induction rs arbitrary: m)
  case (Cons r rs)
  obtain s l where r: "r = (s, l)" "s < l" using Cons.prems(1) by (cases r) auto
  have p: "perms_ok MemoryPerms_All" "\<not> MemoryPerms_IsEmpty MemoryPerms_All"
    by (simp_all add: perms_ok_def MemoryPerms_All_def ToInt_def MemoryPerms_IsEmpty_def)
  have rs: "\<forall>(s, l) \<in> set rs. s < l" using Cons.prems(1) by simp
  show ?case
    unfolding for_each.simps r(1) prod.case
  proof (rule returns_rbind [OF Add_returns [OF Cons.prems(2) r(2) p]])
    fix m' assume m': "holds (on_keys s l (\<lambda>k. add_at MemoryPerms_All (perms_at m k)) (perms_at m)) m'"
    have at: "perms_at m' k \<noteq> None \<longleftrightarrow> perms_at m k \<noteq> None \<or> s \<le> k \<and> k < l" for k
      unfolding holds_at [OF m'] by (auto simp: on_keys_def add_at_def)
    show "returns (\<lambda>m''. mapped_map_ok m'' \<and> (\<forall>k. perms_at m'' k \<noteq> None \<longleftrightarrow> perms_at m k \<noteq> None \<or> (\<exists>(s, l) \<in> set ((s, l) # rs). s \<le> k \<and> k < l)))
        (for_each (\<lambda>(start, limit). MappedMemoryMap_Add start limit MemoryPerms_All) rs m')"
      by (rule returns_mono [OF Cons.IH [OF rs holds_ok [OF m']]]) (simp only: at, auto)
  qed
qed simp

lemma reserved_nonempty: "\<forall>(s, l) \<in> set (reserved_ranges host). s < l"
  by (cases host) (simp_all add: reserved_ranges_def host_reserved_def kSnapExitAddress_def SILIFUZZ_RUNNER_BASE_ADDRESS_def)

lemma ReservedMemoryMappings_returns:
  "returns (\<lambda>m. mapped_map_ok m \<and> (\<forall>k. perms_at m k \<noteq> None \<longleftrightarrow> reserved_at host k)) (ReservedMemoryMappings host)"
  using add_ranges_returns [OF reserved_nonempty [of host] mapped_map_ok_Nil]
  by (simp add: ReservedMemoryMappings_def reserved_at_def MappedMemoryMap_empty_def)

lemma overlap_loop_eq:
  assumes "mapped_map_ok m" "\<forall>x \<in> set ms. mm_start x < mm_limit x"
  shows "overlap_loop ms m = ret (\<exists>k. perms_at m k \<noteq> None \<and> (\<exists>x \<in> set ms. k \<in> mapping_range x))"
  using assms(2)
proof (induction ms)
  case (Cons x ms)
  then show ?case
    using Overlaps_eq [OF assms(1), of "mm_start x" "mm_limit x"] by (auto simp: mem_mapping_range)
qed simp

lemma Overlap_eq:
  assumes "mappings_ok ms"
  shows "OverlapReservedMemoryMappings host ms = ret (\<exists>k \<in> mapped_addresses ms. reserved_at host k)"
proof -
  have pos: "\<forall>x \<in> set ms. mm_start x < mm_limit x" using assms mapping_params(1) by (simp add: mappings_ok_def)
  obtain m where m: "ReservedMemoryMappings host = ret m" "mapped_map_ok m" "\<And>k. perms_at m k \<noteq> None \<longleftrightarrow> reserved_at host k"
    using ReservedMemoryMappings_returns [of host] by (auto elim: returnsE)
  have "k \<in> mapped_addresses ms \<longleftrightarrow> (\<exists>x \<in> set ms. k \<in> mapping_range x)" for k
    by (simp add: mapped_addresses_def mappings_at_None)
  then show ?thesis
    unfolding OverlapReservedMemoryMappings_def m(1) rbind_simps overlap_loop_eq [OF m(2) pos] m(3) by auto
qed

section \<open>The end state picked\<close>

definition platforms_ok :: "snapshot \<Rightarrow> snapify_options \<Rightarrow> bool" where
  "platforms_ok s opts \<longleftrightarrow> opt_platform_id opts \<le> kMaxPlatformId \<and>
     (\<forall>e \<in> set (snap_expected_end_states s). length (es_platforms e) = kMaxPlatformId + 1)"

lemma pick_loop_returns:
  assumes "\<forall>e \<in> set es. p < length (es_platforms e)"
  shows "returns (\<lambda>r. case r of Inl _ \<Rightarrow> True | Inr e \<Rightarrow> e \<in> set es \<and> (es_platforms e ! p \<or> p = kAny) \<and>
      EndState_IsComplete kNormalState e = OkStatus) (pick_loop p es)"
  using assms
proof (induction es)
  case (Cons e es)
  have has: "EndState_has_platform p e = ret (es_platforms e ! p)" using Cons.prems by (simp add: EndState_has_platform_def)
  have "returns (\<lambda>r. case r of Inl _ \<Rightarrow> True | Inr e \<Rightarrow> e \<in> set es \<and> (es_platforms e ! p \<or> p = kAny) \<and>
      EndState_IsComplete kNormalState e = OkStatus) (pick_loop p es)" using Cons by simp
  then show ?case by (auto simp: has return_error_def elim!: returns_mono split: sum.splits)
qed simp

lemma PickEndState_returns:
  assumes "whole_snapshot_ok s" "platforms_ok s opts"
  shows "returns (\<lambda>r. case r of Inl _ \<Rightarrow> True | Inr e \<Rightarrow> e \<in> set (snap_expected_end_states s) \<and>
      (opt_allow_undefined_end_state opts \<or> EndState_IsComplete kNormalState e = OkStatus)) (PickEndState s opts)"
proof (cases "opt_allow_undefined_end_state opts")
  case True
  have "\<exists>st. IsCompleteSomeState s = ret st" using snapshot_complete [OF assms(1)] by blast
  then obtain st where "IsCompleteSomeState s = ret st" ..
  then show ?thesis
    using True nth_mem [of 0 "snap_expected_end_states s"] by (auto simp: PickEndState_def return_error_def invalid_def)
next
  case False
  have "\<forall>e \<in> set (snap_expected_end_states s). opt_platform_id opts < length (es_platforms e)"
    using assms(2) by (auto simp: platforms_ok_def)
  from pick_loop_returns [OF this] show ?thesis
    using False by (auto simp: PickEndState_def elim!: returns_mono split: sum.splits)
qed

section \<open>CanSnapify\<close>

text \<open>The conditions \<open>CanSnapify\<close> checks, for the end state picked.\<close>

definition stack_room :: "snapshot \<Rightarrow> end_state \<Rightarrow> bool" where
  "stack_room s e \<longleftrightarrow> (\<exists>sp. ExtractRsp (es_registers e) s = ret sp \<and> 8 \<le> sp \<and>
     {sp - 8..<sp} \<subseteq> mapped_addresses (snap_memory_mappings s))"

definition snapifiable :: "architecture_id \<Rightarrow> snapshot \<Rightarrow> snapify_options \<Rightarrow> end_state \<Rightarrow> address \<Rightarrow> bool" where
  "snapifiable host s opts e a \<longleftrightarrow> PickEndState s opts = ret (Inr e) \<and> es_endpoint e = kInstruction a \<and>
     (\<forall>k \<in> mapped_addresses (snap_memory_mappings s). \<not> reserved_at host k) \<and>
     bytes_range (exit_bytes (to_architecture_id (snap_architecture s)) a) \<subseteq> mapped_addresses (snap_memory_mappings s) \<and>
     (opt_allow_undefined_end_state opts \<and> EndState_IsComplete kUndefinedEndState e = OkStatus \<or> stack_room s e)"

lemma ExtractRsp_returns:
  assumes "snapshot_ok s" "end_state_fits u e s"
  obtains sp where "ExtractRsp (es_registers e) s = ret sp"
proof (cases "rs_gregs (es_registers e) = []")
  case True
  then show thesis using that by (simp add: ExtractRsp_def extract_register_def arch_dispatch_ok [OF assms(1)])
next
  case False
  then have "registers_decode (es_registers e) s" using assms(2) by (simp add: end_state_fits_def RegisterState_IsUnset_def)
  then obtain g where "DeserializeGRegs (to_architecture_id (snap_architecture s)) (rs_gregs (es_registers e)) = Some g"
    by (auto simp: registers_decode_def)
  then show thesis using that False by (simp add: ExtractRsp_def extract_register_def arch_dispatch_ok [OF assms(1)])
qed

lemma Contains_mapped:
  assumes "snapshot_ok s" "a < b"
  shows "MappedMemoryMap_Contains a b (snap_mapped_memory_map s) = ret ({a..<b} \<subseteq> mapped_addresses (snap_memory_mappings s))"
proof -
  have "mapped_map_ok (snap_mapped_memory_map s)" "\<And>k. perms_at (snap_mapped_memory_map s) k = mappings_at (snap_memory_mappings s) k"
    using assms(1) by (simp_all add: snapshot_ok_def represents_def)
  then show ?thesis using Contains_eq [OF _ assms(2)] by (auto simp: mapped_addresses_def)
qed

lemma below_eight:
  assumes "8 \<le> (sp :: u64)"
  shows "sp - 8 < sp"
proof -
  have "unat (sp - 8) = unat sp - 8" "8 \<le> unat sp" using assms by (simp_all add: unat_sub word_le_nat_alt)
  then show ?thesis by (simp add: word_less_nat_alt)
qed

lemma stack_returns:
  assumes "snapshot_ok s" "end_state_fits u e s"
  shows "returns (\<lambda>r. r = Inr () \<longleftrightarrow> stack_room s e) (can_snapify_stack e s)"
proof -
  obtain sp where sp: "ExtractRsp (es_registers e) s = ret sp" by (rule ExtractRsp_returns [OF assms])
  show ?thesis
  proof (cases "sp < 8")
    case False
    then show ?thesis
      by (simp add: can_snapify_stack_def sp stack_room_def invalid_def Contains_mapped [OF assms(1) below_eight] not_less)
  qed (auto simp: can_snapify_stack_def sp stack_room_def invalid_def)
qed

lemma executable_room:
  assumes "mappings_ok ms" "paged ms" "executable_at a ms"
  shows "unat a + 4096 < 2 ^ 64"
proof -
  obtain m where m: "m \<in> set ms" "a < mm_limit m"
    using assms(3) mappings_at_SomeD [of ms a] by (fastforce simp: executable_at_def mem_mapping_range)
  then have "4096 dvd unat (mm_limit m)" using assms(2) by (simp add: paged_def page_aligned_iff)
  then obtain j where "unat (mm_limit m) = 4096 * j" by (auto elim: dvdE)
  then have "unat (mm_limit m) + 4096 \<le> 2 ^ 64" using unat_u64_lt [of "mm_limit m"] by simp
  then show ?thesis using m(2) by (simp add: word_less_nat_alt)
qed

lemma exit_range:
  assumes "arch \<noteq> ArchUndefined" "unat a + 4096 < 2 ^ 64"
  shows "a < a + of_nat (GetSnapExitSequenceSize arch)" "unat a + GetSnapExitSequenceSize arch < 2 ^ 64"
    "bytes_range (exit_bytes arch a) = {a..<a + of_nat (GetSnapExitSequenceSize arch)}"
proof -
  let ?n = "GetSnapExitSequenceSize arch"
  have n: "0 < ?n" "?n < 4096" using assms(1) exit_sequence_size by (cases arch; simp)+
  then show u: "unat a + ?n < 2 ^ 64" using assms(2) by simp
  have o: "unat (of_nat ?n :: u64) = ?n" using n by (simp add: unat_of_nat_u64)
  then have "unat (a + of_nat ?n) = unat a + ?n" using u by (subst unat_limit) simp_all
  then show "a < a + of_nat ?n" using n by (simp add: word_less_nat_alt)
  show "bytes_range (exit_bytes arch a) = {a..<a + of_nat ?n}"
    by (simp add: bytes_range_def mb_limit_def exit_bytes_def mb_num_bytes_def data_size_def exit_sequence_length)
qed

lemma CanSnapify_returns:
  assumes s: "whole_snapshot_ok s" "paged (snap_memory_mappings s)" "platforms_ok s opts"
  shows "returns (\<lambda>r. r = Inr () \<longleftrightarrow> (\<exists>e a. snapifiable host s opts e a)) (CanSnapify host s opts)"
proof -
  have ok: "snapshot_ok s" "end_states_ok s" using s(1) by (simp_all add: whole_snapshot_ok_def)
  obtain r where r: "PickEndState s opts = ret r" "case r of Inl _ \<Rightarrow> True | Inr e \<Rightarrow> e \<in> set (snap_expected_end_states s)"
    using PickEndState_returns [OF s(1,3)] by (auto elim!: returnsE split: sum.splits)
  show ?thesis
  proof (cases r)
    case (Inl err)
    then show ?thesis using r by (simp add: CanSnapify_def assign_or_return_def snapifiable_def)
  next
    case (Inr e)
    have e: "end_state_fits False e s" using r(2) Inr ok(2) by (auto simp: end_states_ok_def)
    show ?thesis
    proof (cases "es_endpoint e")
      case (kSignal sig cause x y)
      then show ?thesis using r Inr by (simp add: CanSnapify_def assign_or_return_def snapifiable_def invalid_def)
    next
      case (kInstruction a)
      let ?arch = "to_architecture_id (snap_architecture s)"
      have "executable_at a (snap_memory_mappings s)" using e kInstruction by (simp add: end_state_fits_def)
      note x = exit_range [OF snapshot_arch(1) [OF ok(1)] executable_room [OF snapshot_maps(5) [OF ok(1)] s(2) this]]
      have iff: "(\<exists>e a. snapifiable host s opts e a) \<longleftrightarrow>
          \<not> (\<exists>k \<in> mapped_addresses (snap_memory_mappings s). reserved_at host k) \<and>
          {a..<a + of_nat (GetSnapExitSequenceSize ?arch)} \<subseteq> mapped_addresses (snap_memory_mappings s) \<and>
          (opt_allow_undefined_end_state opts \<and> EndState_IsComplete kUndefinedEndState e = OkStatus \<or> stack_room s e)"
        using r(1) Inr kInstruction unfolding x(3) [symmetric] by (auto simp: snapifiable_def)
      show ?thesis
        unfolding CanSnapify_def r(1) Inr assign_or_return_def rbind_simps sum.case kInstruction endpoint.case
          Overlap_eq [OF snapshot_maps(5) [OF ok(1)]] arch_dispatch_ok [OF ok(1)] Contains_mapped [OF ok(1) x(1)] iff
        using stack_returns [OF ok(1) e] by (auto simp: invalid_def elim!: returnsE)
    qed
  qed
qed

section \<open>Snapify\<close>

lemma Snapshot_Copy_eq: "snapshot_ok s \<Longrightarrow> IsValidId (snap_id s) = OkStatus \<Longrightarrow> Snapshot_Copy s = ret s"
  by (cases "snap_architecture s") (simp_all add: Snapshot_Copy_def new_snapshot_def dcheck_status_def
      MappedMemoryMap_Copy_def snapshot_ok_def architecture_descr_def kSupportedArchitectures_def)

text \<open>A snapshot with the same mappings, perhaps in other pieces.\<close>

lemma normalized_returns:
  assumes s: "whole_snapshot_ok s" "paged (snap_memory_mappings s)"
  obtains t where "NormalizeMemoryMappings s = ret t" "snapshot_ok t" "paged (snap_memory_mappings t)" "extends s t"
    "mappings_at (snap_memory_mappings t) = mappings_at (snap_memory_mappings s)"
    "mappings_at (snap_negative_memory_mappings t) = mappings_at (snap_negative_memory_mappings s)"
    "\<exists>ms ns. t = s\<lparr>snap_memory_mappings := ms, snap_negative_memory_mappings := ns\<rparr>"
proof -
  let ?m = "snap_mapped_memory_map s" and ?n = "snap_negative_mapped_memory_map s"
  let ?t = "s\<lparr>snap_memory_mappings := map entry_mapping ?m, snap_negative_memory_mappings := map entry_mapping ?n\<rparr>"
  have ok: "snapshot_ok s" using s(1) by (simp add: whole_snapshot_ok_def)
  have reps: "represents (snap_memory_mappings s) ?m" "represents (snap_negative_memory_mappings s) ?n"
    using ok by (simp_all add: snapshot_ok_def)
  have at: "mappings_at (map entry_mapping ?m) = mappings_at (snap_memory_mappings s)"
    "mappings_at (map entry_mapping ?n) = mappings_at (snap_negative_memory_mappings s)"
    using reps by (auto simp: fun_eq_iff mappings_at_entries represents_def)
  have "paged (map entry_mapping ?m)"
  proof -
    have "perms_at ?m = mappings_at (snap_memory_mappings s)" "mapped_map_ok ?m" using reps(1) by (auto simp: represents_def)
    then show ?thesis using mapped_map_boundaries [of ?m page_aligned] paged_changes [OF s(2)] by (auto simp: paged_def)
  qed
  moreover have "snapshot_ok ?t"
    using ok represents_entries(1) [OF reps(1)] represents_entries(1) [OF reps(2)]
    by (simp add: snapshot_ok_def no_conflict_def mapped_addresses_def at)
  ultimately show thesis
    by (intro that [of ?t]) (auto simp: NormalizeMemoryMappings_def represents_entries(2) [OF reps(1)]
        represents_entries(2) [OF reps(2)] at extends_def)
qed

text \<open>What the result is, for the end state \<open>e\<close> with endpoint \<open>a\<close>.\<close>

definition exit_memory :: "snapshot \<Rightarrow> address \<Rightarrow> address \<rightharpoonup> byte" where
  "exit_memory s a = start_memory s ++ bytes_at (exit_bytes (to_architecture_id (snap_architecture s)) a)"

definition snapified :: "snapify_options \<Rightarrow> snapshot \<Rightarrow> end_state \<Rightarrow> address \<Rightarrow> snapshot \<Rightarrow> bool" where
  "snapified opts s e a t \<longleftrightarrow> whole_snapshot_ok t \<and>
     snap_id t = snap_id s \<and> snap_architecture t = snap_architecture s \<and> snap_registers t = snap_registers s \<and>
     snap_metadata t = snap_metadata s \<and> snap_trace_metadata t = snap_trace_metadata s \<and>
     mappings_at (snap_memory_mappings t) = mappings_at (snap_memory_mappings s) \<and>
     mappings_at (snap_negative_memory_mappings t) = mappings_at (snap_negative_memory_mappings s) \<and>
     snap_ready (snap_memory_mappings t) (compressed_initially opts (snap_memory_mappings t)) (exit_memory s a) (snap_memory_bytes t) \<and>
     start_memory t = exit_memory s a \<and>
     (\<exists>e'. snap_expected_end_states t = [e'] \<and> end_state_snapified opts t e e')"

lemma registers_acceptable_extends:
  "extends s t \<Longrightarrow> registers_acceptable x s \<Longrightarrow> registers_acceptable x t"
  unfolding registers_acceptable_def by (auto simp: extends_facts(1,2) intro: extends_facts(3,4))

lemma start_memory_mappings:
  assumes "mappings_at (snap_memory_mappings t) = mappings_at (snap_memory_mappings s)" "snap_memory_bytes t = snap_memory_bytes s"
  shows "start_memory t = start_memory s"
  by (simp add: fun_eq_iff start_memory_def mapped_addresses_def assms)

lemma snapify_pieces:
  assumes s: "snapshot_ok s" "paged (snap_memory_mappings s)" "snap_expected_end_states s = [e]"
    and e: "end_state_fits False e s" "\<forall>b \<in> set (es_memory_bytes e). bytes_ok b"
      "opt_allow_undefined_end_state opts \<or> EndState_IsComplete kNormalState e = OkStatus"
    and a: "unat a + 4096 < 2 ^ 64"
      "bytes_range (exit_bytes (to_architecture_id (snap_architecture s)) a) \<subseteq> mapped_addresses (snap_memory_mappings s)"
  shows "returns (\<lambda>r. \<exists>w bs e'. r = Inr (s\<lparr>snap_written_memory_set := w, snap_memory_bytes := bs, snap_expected_end_states := [e']\<rparr>) \<and>
      snapshot_ok (s\<lparr>snap_written_memory_set := w, snap_memory_bytes := bs, snap_expected_end_states := [e']\<rparr>) \<and>
      snap_ready (snap_memory_mappings s) (compressed_initially opts (snap_memory_mappings s)) (exit_memory s a) bs \<and>
      end_state_snapified opts (s\<lparr>snap_memory_bytes := bs\<rparr>) e e')
    (assign_or_return (arch_dispatch (\<lambda>arch. MergeExitSequence arch a s) s) (SnapifyMemoryBytes opts))"
    (is "returns ?P _")
proof -
  let ?arch = "to_architecture_id (snap_architecture s)"
  note arch = snapshot_arch(1) [OF s(1)]
  note m = MergeExitSequence_returns [OF s(1) arch exit_range(2) [OF arch a(1)] a(2)]
  show ?thesis
    unfolding assign_or_return_def arch_dispatch_ok [OF s(1)]
  proof (rule returns_rbind [OF m], elim exE conjE)
    fix r :: "snapshot snap_or" and w bs
    let ?u = "s\<lparr>snap_written_memory_set := w, snap_memory_bytes := bs\<rparr>"
    assume r: "r = Inr ?u" and u: "snapshot_ok ?u" and bs: "listed_bytes bs = start_memory s ++ bytes_at (exit_bytes ?arch a)"
    have "dom (listed_bytes bs) = mapped_addresses (snap_memory_mappings s)"
      using a(2) by (auto simp: bs dom_start_memory dom_bytes_at)
    then have mem: "start_memory ?u = exit_memory s a"
      by (auto simp: fun_eq_iff start_memory_def [of ?u] exit_memory_def bs [symmetric] split: option.splits)
    have fits: "end_state_fits False e ?u" by (rule fits_extends [OF _ _ _ e(1)]) simp_all
    have us: "paged (snap_memory_mappings ?u)" "snap_expected_end_states ?u = [e]" using s by simp_all
    have "returns ?P (SnapifyMemoryBytes opts ?u)"
    proof (rule returns_mono [OF SnapifyMemoryBytes_returns [OF u us fits e(2,3)]], elim exE conjE)
      fix x :: "snapshot snap_or" and w' bs' e'
      assume x: "x = Inr (?u\<lparr>snap_written_memory_set := w', snap_memory_bytes := bs', snap_expected_end_states := [e']\<rparr>)"
        "snapshot_ok (?u\<lparr>snap_written_memory_set := w', snap_memory_bytes := bs', snap_expected_end_states := [e']\<rparr>)"
        "snap_ready (snap_memory_mappings ?u) (compressed_initially opts (snap_memory_mappings ?u)) (start_memory ?u) bs'"
        "end_state_snapified opts ?u e e'"
      have "start_memory (s\<lparr>snap_memory_bytes := bs'\<rparr>) = start_memory ?u"
        using x(3) by (intro same_start_memory) (simp_all add: snap_ready_def)
      then have "end_state_snapified opts (s\<lparr>snap_memory_bytes := bs'\<rparr>) e e'"
        using x(4) snapified_cong(2) [of "s\<lparr>snap_memory_bytes := bs'\<rparr>" ?u] by simp
      then show "?P x" using x(1-3) mem by auto
    qed
    then show "returns ?P (case r of Inl e \<Rightarrow> ret (Inl e) | Inr x \<Rightarrow> SnapifyMemoryBytes opts x)" by (simp add: r)
  qed
qed

lemma Snapify_ok:
  assumes s: "whole_snapshot_ok s" "IsValidId (snap_id s) = OkStatus" "paged (snap_memory_mappings s)" "platforms_ok s opts"
    and c: "CanSnapify host s opts = ret (Inr ())" and a: "snapifiable host s opts e a"
  shows "returns (\<lambda>r. \<exists>t. r = Inr t \<and> snapified opts s e a t) (Snapify host s opts)"
proof -
  have ok: "snapshot_ok s" "end_states_ok s" using s(1) by (simp_all add: whole_snapshot_ok_def)
  have p: "PickEndState s opts = ret (Inr e)" "es_endpoint e = kInstruction a" using a by (simp_all add: snapifiable_def)
  have e: "e \<in> set (snap_expected_end_states s)" "opt_allow_undefined_end_state opts \<or> EndState_IsComplete kNormalState e = OkStatus"
    using PickEndState_returns [OF s(1,4)] p(1) by simp_all
  then have fit: "end_state_fits False e s" and b: "\<forall>b \<in> set (es_memory_bytes e). bytes_ok b"
    using ok(2) by (auto simp: end_states_ok_def)
  obtain t where t: "NormalizeMemoryMappings s = ret t" "snapshot_ok t" "paged (snap_memory_mappings t)" "extends s t"
    "mappings_at (snap_memory_mappings t) = mappings_at (snap_memory_mappings s)"
    "mappings_at (snap_negative_memory_mappings t) = mappings_at (snap_negative_memory_mappings s)"
    "\<exists>ms ns. t = s\<lparr>snap_memory_mappings := ms, snap_negative_memory_mappings := ns\<rparr>"
    by (rule normalized_returns [OF s(1,3)])
  let ?u = "t\<lparr>snap_expected_end_states := [e]\<rparr>"
  have tf: "end_state_fits False e (t\<lparr>snap_expected_end_states := []\<rparr>)"
    by (rule fits_extends [of _ t]) (use end_state_fits_extends [OF t(4) fit] in simp_all)
  have t0: "snapshot_ok (t\<lparr>snap_expected_end_states := []\<rparr>)" "snapshot_ok ?u" using t(2) by (simp_all add: snapshot_ok_def)
  have "can_add_expected_end_state e False (t\<lparr>snap_expected_end_states := []\<rparr>) = ret OkStatus"
    using can_add_end_state_returns [OF t0(1) b, of False False] tf
    by (auto simp: can_add_expected_end_state_def elim: returnsE)
  then have set: "set_expected_end_states [e] t = ret ?u"
    by (simp add: set_expected_end_states_def add_expected_end_state_def dcheck_res_def)
  have arch: "to_architecture_id (snap_architecture ?u) = to_architecture_id (snap_architecture s)"
    "mapped_addresses (snap_memory_mappings ?u) = mapped_addresses (snap_memory_mappings s)"
    using t(5,7) by (auto simp: mapped_addresses_def)
  have mem: "exit_memory ?u a = exit_memory s a"
    using start_memory_mappings [of ?u s] t(5,7) by (auto simp: exit_memory_def)
  have ex: "executable_at a (snap_memory_mappings s)" using fit p(2) by (simp add: end_state_fits_def)
  note lim = executable_room [OF snapshot_maps(5) [OF ok(1)] s(3) ex]
  have room: "bytes_range (exit_bytes (to_architecture_id (snap_architecture ?u)) a) \<subseteq> mapped_addresses (snap_memory_mappings ?u)"
    using a unfolding arch by (simp add: snapifiable_def)
  have u: "paged (snap_memory_mappings ?u)" "snap_expected_end_states ?u = [e]" "end_state_fits False e ?u"
    using t(3) fits_extends [of ?u t, OF _ _ _ end_state_fits_extends [OF t(4) fit]] by simp_all
  have eq: "Snapify host s opts = assign_or_return (arch_dispatch (\<lambda>arch. MergeExitSequence arch a ?u) ?u) (SnapifyMemoryBytes opts)"
    by (simp add: Snapify_def c p assign_or_return_def Snapshot_Copy_eq [OF ok(1) s(2)] t(1) set)
  show ?thesis
    unfolding eq
  proof (rule returns_mono [OF snapify_pieces [OF t0(2) u b e(2) lim room]], elim exE conjE, unfold mem)
    fix r :: "snapshot snap_or" and w bs e'
    let ?v = "?u\<lparr>snap_written_memory_set := w, snap_memory_bytes := bs, snap_expected_end_states := [e']\<rparr>"
    assume r: "r = Inr ?v" "snapshot_ok ?v" and
      bs: "snap_ready (snap_memory_mappings ?u) (compressed_initially opts (snap_memory_mappings ?u)) (exit_memory s a) bs" and
      e': "end_state_snapified opts (?u\<lparr>snap_memory_bytes := bs\<rparr>) e e'"
    have dom: "dom (exit_memory s a) = mapped_addresses (snap_memory_mappings s)"
      using a by (auto simp: exit_memory_def dom_start_memory dom_bytes_at snapifiable_def)
    have start: "start_memory x = exit_memory s a" if "snap_memory_mappings x = snap_memory_mappings t" "snap_memory_bytes x = bs" for x
    proof
      fix k
      have "k \<in> mapped_addresses (snap_memory_mappings x) \<longleftrightarrow> k \<in> dom (exit_memory s a)"
        unfolding dom that(1) by (simp add: mapped_addresses_def t(5))
      then show "start_memory x k = exit_memory s a k"
        using bs by (auto simp: start_memory_def that snap_ready_def domIff split: option.splits)
    qed
    have snd: "end_state_snapified opts ?v e e'"
      using e' start [of "?u\<lparr>snap_memory_bytes := bs\<rparr>"] start [of ?v]
        snapified_cong(2) [of ?v "?u\<lparr>snap_memory_bytes := bs\<rparr>"] by simp
    have fv: "end_state_fits False e ?v" by (rule fits_extends [OF _ _ _ u(3)]) simp_all
    have ext: "extends s ?v" using t(4) by (simp add: extends_def)
    have "whole_snapshot_ok ?v"
      using r(2) snapified_fits [OF r(2) fv b snd] s(1) t(7) registers_acceptable_extends [OF ext]
      by (auto simp: whole_snapshot_ok_def end_states_ok_def split: option.splits)
    then show "\<exists>t. r = Inr t \<and> snapified opts s e a t"
      using r(1) bs snd start [of ?v] t(5-7) by (auto simp: snapified_def)
  qed
qed

end
