(* ===== verification/Snapify_Properties.thy ===== *)
theory Snapify_Properties
  imports Snapify_Spec
begin

text \<open>
  The properties of making a snapshot ready to become a snap, with a snapshot of one page that can.
\<close>

section \<open>A snapshot of one page\<close>

definition page_mapping :: memory_mapping where
  "page_mapping = \<lparr>mm_start = 0x10000, mm_num_bytes = 0x1000, mm_perms = MemoryPerms_RWX\<rparr>"

definition page_bytes :: memory_bytes where
  "page_bytes = \<lparr>mb_start = 0x10000, mb_values = [0x1f, 0x20, 0x03, 0xd5]\<rparr>"

definition page_gregs :: gregs_aarch64 where
  "page_gregs = \<lparr>ga_x = replicate 31 7, ga_sp = 0x11000, ga_pc = 0x10004, ga_pstate = 0, ga_tpidr = 1, ga_tpidrro = 2\<rparr>"

definition page_end_state :: "register_state \<Rightarrow> end_state" where
  "page_end_state x = (new_end_state (kInstruction 0x10004) x)\<lparr>es_platforms := replicate 51 True\<rparr>"

definition page_snapshot :: "end_state list \<Rightarrow> snapshot" where
  "page_snapshot es = \<lparr>snap_id = ''page'', snap_architecture = kAArch64,
     snap_mapped_memory_map = [((0x10000, 0x11000), MemoryPerms_RWX)], snap_negative_mapped_memory_map = [],
     snap_written_memory_set = [((0x10000, 0x10004), kDummyMappedValue)],
     snap_memory_mappings = [page_mapping], snap_negative_memory_mappings = [],
     snap_memory_bytes = [page_bytes], snap_registers = None, snap_expected_end_states = es,
     snap_metadata = (0, []), snap_trace_metadata = []\<rparr>"

lemma page_mapping_simps:
  "mapping_range page_mapping = {0x10000..<0x11000}" "mm_perms page_mapping = MemoryPerms_RWX"
  "mm_start page_mapping = 0x10000" "mm_limit page_mapping = 0x11000"
  by (simp_all add: mapping_range_def mm_limit_def page_mapping_def)

lemma page_bytes_simps: "bytes_ok page_bytes" "bytes_range page_bytes = {0x10000..<0x10004}"
  "mb_start page_bytes = 0x10000" "mb_limit page_bytes = 0x10004"
  by (simp_all add: bytes_ok_def bytes_range_def mb_limit_def mb_num_bytes_def data_size_def page_bytes_def)

lemma page_at: "mappings_at [page_mapping] k = (if 0x10000 \<le> k \<and> k < 0x11000 then Some MemoryPerms_RWX else None)"
  by (simp add: mappings_at_Cons page_mapping_simps)

lemma page_ok: "snapshot_ok (page_snapshot es)"
proof -
  have "mapping_ok page_mapping"
    by (simp add: mapping_ok_def HasPermission_iff RWX_perms page_mapping_simps CanMakeSized_def)
      (simp add: page_mapping_def kMaxAddress_def)
  moreover have "mapped_map_ok [((0x10000, 0x11000), MemoryPerms_RWX)]"
    by (simp add: mapped_map_ok_def ranges_ok_def pm.canonical_def)
  ultimately have "represents [page_mapping] [((0x10000, 0x11000), MemoryPerms_RWX)]"
    by (simp add: represents_def mappings_ok_def page_mapping_simps mappings_at_Cons perms_at_def sandbox_mapping_simps(5))
  moreover have "bytes_set_ok [((0x10000, 0x10004), kDummyMappedValue)]"
    by (simp add: bytes_set_ok_def ranges_ok_def bs.canonical_def)
  then have "bytes_represent [page_bytes] [((0x10000, 0x10004), kDummyMappedValue)]"
    by (simp add: bytes_represent_def page_bytes_simps addresses_Cons)
  moreover have "x < 0x11000" if "x < (0x10004 :: address)" for x using that by (rule less_trans) simp
  then have "addresses [((0x10000, 0x10004), kDummyMappedValue)] \<subseteq> mapped_addresses [page_mapping]"
    by (auto simp: addresses_Cons mapped_addresses_def page_at)
  ultimately show ?thesis by (simp add: snapshot_ok_def page_snapshot_def no_conflict_def)
qed

lemma page_registers:
  obtains x where "rs_gregs x \<noteq> []" "rs_fpregs x \<noteq> []" "registers_decode x (page_snapshot es)"
    "ExtractRsp x (page_snapshot es) = ret 0x11000"
proof -
  have ok: "gregs_aarch64_ok page_gregs" "fpregset_ok sample_fpregs"
    by (simp_all add: page_gregs_def sample_fpregs_def gregs_aarch64_ok_def fpregs_aarch64_ok_def)
  obtain gs where gs: "DeserializeGRegs ArchAArch64 gs = Some (GRegs_aarch64 page_gregs)"
    using ga.round_trip ok(1) by fastforce
  obtain fs where fs: "DeserializeFPRegs ArchAArch64 fs = Some sample_fpregs"
    using fa.round_trip ok(2) by (fastforce simp: sample_fpregs_def)
  have "gs \<noteq> []" "fs \<noteq> []" using DeserializeGRegs_may_be [OF gs] DeserializeFPRegs_may_be [OF fs]
    by (auto simp: MayBeSimpleSerialized_def kHeaderSize_def)
  moreover have "to_architecture_id (snap_architecture (page_snapshot es)) = ArchAArch64"
    by (simp add: page_snapshot_def to_architecture_id_def)
  ultimately show thesis
    by (intro that [of "\<lparr>rs_gregs = gs, rs_fpregs = fs\<rparr>"])
      (simp_all only: registers_decode_def ExtractRsp_def extract_register_def arch_dispatch_ok [OF page_ok] register_state.simps
        gs fs option.case option.simps if_False refl GetStackPointer.simps page_gregs_def gregs_aarch64.simps simp_thms)
qed

lemma page_snapifiable:
  obtains x where "whole_snapshot_ok (page_snapshot [page_end_state x])" "platforms_ok (page_snapshot [page_end_state x]) default_options"
    "snapifiable ArchX86_64 (page_snapshot [page_end_state x]) default_options (page_end_state x) 0x10004"
proof -
  obtain x where x: "rs_gregs x \<noteq> []" "rs_fpregs x \<noteq> []" "registers_decode x (page_snapshot [])"
    "ExtractRsp x (page_snapshot []) = ret 0x11000" by (rule page_registers)
  let ?e = "page_end_state x" and ?s = "page_snapshot [page_end_state x]"
  have maps: "snap_memory_mappings ?s = [page_mapping]" "snap_architecture ?s = kAArch64" by (simp_all add: page_snapshot_def)
  have e: "es_endpoint ?e = kInstruction 0x10004" "es_registers ?e = x" "es_memory_bytes ?e = []" "es_platforms ?e = replicate 51 True"
    "es_register_checksum ?e = []" by (simp_all add: page_end_state_def new_end_state_def)
  have same: "registers_decode x ?s" "ExtractRsp x ?s = ret 0x11000"
    using x(3,4) by (simp_all add: registers_decode_def ExtractRsp_def extract_register_def arch_dispatch_def page_snapshot_def)
  have fits: "end_state_fits False ?e ?s"
    using x same by (simp add: end_state_fits_def e maps executable_at_def page_at RWX_perms kMaxAddress_def RegisterState_IsUnset_def)
  have complete: "EndState_IsComplete kNormalState ?e = OkStatus"
    using x by (simp add: EndState_IsComplete_def e EndState_empty_platforms_def)
  have whole: "whole_snapshot_ok ?s"
    using page_ok [of "[?e]"] fits by (simp add: whole_snapshot_ok_def end_states_ok_def e page_snapshot_def)
  have plat: "platforms_ok ?s default_options"
    by (simp add: platforms_ok_def default_options_def kAny_def kMaxPlatformId_def page_snapshot_def e)
  have pick: "PickEndState ?s default_options = ret (Inr ?e)"
    by (simp add: PickEndState_def default_options_def page_snapshot_def kAny_def EndState_has_platform_def e complete return_error_def)
  have mapped: "mapped_addresses [page_mapping] = {0x10000..<0x11000}"
    by (auto simp: mapped_addresses_def page_at)
  have "bytes_range (exit_bytes ArchAArch64 0x10004) = {0x10004..<0x10010}"
    using exit_range(3) [of ArchAArch64 "0x10004"] exit_sequence_size by simp
  moreover have "\<not> reserved_at ArchX86_64 k" if "0x10000 \<le> k" "k < 0x11000" for k
    using that by (auto simp: reserved_at_def reserved_ranges_def host_reserved_def kSnapExitAddress_def
        SILIFUZZ_RUNNER_BASE_ADDRESS_def word_le_nat_alt word_less_nat_alt)
  moreover have "stack_room ?s ?e"
    using same by (auto simp: stack_room_def e maps mapped word_le_nat_alt word_less_nat_alt)
  moreover have "{0x10004..<0x10010} \<subseteq> {0x10000..<0x11000 :: address}" by (auto simp: word_le_nat_alt word_less_nat_alt)
  ultimately have "snapifiable ArchX86_64 ?s default_options ?e 0x10004"
    by (simp add: snapifiable_def pick e maps mapped to_architecture_id_def)
  with whole plat show thesis by (rule that)
qed

lemma page_setup: "IsValidId (snap_id (page_snapshot es)) = OkStatus" "paged (snap_memory_mappings (page_snapshot es))"
  by (simp_all add: IsValidId_def page_snapshot_def UnsetId_def ascii_isalnum_def paged_def page_mapping_simps page_aligned_def)

section \<open>Properties\<close>

text \<open>C15: \<open>Snapify\<close> fails no check on a snapshot that keeps its invariant. When \<open>CanSnapify\<close> refuses, it gives the
  same error. Otherwise the result keeps the invariant, the registers and the mappings; its bytes list all mapped
  memory in order, the starting memory with the exit sequence at the endpoint, in aligned pieces of uniform
  permissions, split into runs as the options ask; and it has one end state, the picked one, whose bytes cover
  exactly the writable memory with what it holds at the end.\<close>

theorem snapify_result:
  assumes "whole_snapshot_ok s" "IsValidId (snap_id s) = OkStatus" "paged (snap_memory_mappings s)" "platforms_ok s opts"
  shows "\<exists>r. Snapify host s opts = ret r \<and>
    (case CanSnapify host s opts of
       Some (Inr (Inr _)) \<Rightarrow> \<exists>e a t. PickEndState s opts = ret (Inr e) \<and> es_endpoint e = kInstruction a \<and>
         r = Inr t \<and> snapified opts s e a t
     | Some (Inr (Inl err)) \<Rightarrow> r = Inl err
     | _ \<Rightarrow> False)"
proof -
  obtain c where c: "CanSnapify host s opts = ret c" "c = Inr () \<longleftrightarrow> (\<exists>e a. snapifiable host s opts e a)"
    using CanSnapify_returns [OF assms(1,3,4), of host] by (rule returnsE)
  show ?thesis
  proof (cases c)
    case (Inl err)
    then have "Snapify host s opts = ret (Inl err)" by (simp add: Snapify_def assign_or_return_def c(1))
    then show ?thesis using c(1) Inl by (simp add: ret_def)
  next
    case (Inr u)
    then obtain e a where a: "snapifiable host s opts e a" using c(2) by auto
    have "returns (\<lambda>r. \<exists>t. r = Inr t \<and> snapified opts s e a t) (Snapify host s opts)"
      by (rule Snapify_ok [OF assms _ a]) (use c(1) Inr in simp)
    then show ?thesis using c(1) Inr a by (auto simp: ret_def snapifiable_def elim!: returnsE)
  qed
qed

theorem snapify_result_witness:
  "\<exists>s e t. Snapify ArchX86_64 s default_options = ret (Inr t) \<and> snapified default_options s e 0x10004 t"
proof -
  obtain x where x: "whole_snapshot_ok (page_snapshot [page_end_state x])" "platforms_ok (page_snapshot [page_end_state x]) default_options"
    "snapifiable ArchX86_64 (page_snapshot [page_end_state x]) default_options (page_end_state x) 0x10004"
    by (rule page_snapifiable)
  have "returns (\<lambda>r. r = Inr ()) (CanSnapify ArchX86_64 (page_snapshot [page_end_state x]) default_options)"
    using CanSnapify_returns [OF x(1) page_setup(2) x(2), of ArchX86_64] x(3) by (auto elim: returns_mono)
  then have "CanSnapify ArchX86_64 (page_snapshot [page_end_state x]) default_options = Some (Inr (Inr ()))"
    by (auto simp: ret_def elim: returnsE)
  moreover have "PickEndState (page_snapshot [page_end_state x]) default_options = ret (Inr (page_end_state x))"
    using x(3) by (simp add: snapifiable_def)
  moreover have "es_endpoint (page_end_state x) = kInstruction 0x10004" by (simp add: page_end_state_def new_end_state_def)
  ultimately show ?thesis
    using snapify_result [OF x(1) page_setup x(2), of ArchX86_64] by (auto simp: ret_def)
qed

text \<open>C16: \<open>CanSnapify\<close> agrees exactly when an end state is picked that ends at an instruction, no mapping meets
  memory reserved for the runner, the exit sequence fits in mapped memory at the endpoint, and the eight bytes
  below the stack pointer of the end state are mapped, which is not asked of an undefined end state.\<close>

theorem can_snapify:
  assumes "whole_snapshot_ok s" "paged (snap_memory_mappings s)" "platforms_ok s opts"
  shows "\<exists>r. CanSnapify host s opts = ret r \<and> (r = Inr () \<longleftrightarrow> (\<exists>e a. PickEndState s opts = ret (Inr e) \<and>
    es_endpoint e = kInstruction a \<and>
    (\<forall>k \<in> mapped_addresses (snap_memory_mappings s). \<forall>(b, l) \<in> set (reserved_ranges host). \<not> (b \<le> k \<and> k < l)) \<and>
    bytes_range (exit_bytes (to_architecture_id (snap_architecture s)) a) \<subseteq> mapped_addresses (snap_memory_mappings s) \<and>
    (opt_allow_undefined_end_state opts \<and> EndState_IsComplete kUndefinedEndState e = OkStatus \<or>
     (\<exists>sp. ExtractRsp (es_registers e) s = ret sp \<and> 8 \<le> sp \<and> {sp - 8..<sp} \<subseteq> mapped_addresses (snap_memory_mappings s)))))"
proof -
  have "(\<forall>k \<in> mapped_addresses (snap_memory_mappings s). \<not> reserved_at host k) \<longleftrightarrow>
     (\<forall>k \<in> mapped_addresses (snap_memory_mappings s). \<forall>(b, l) \<in> set (reserved_ranges host). \<not> (b \<le> k \<and> k < l))"
    unfolding reserved_at_def by blast
  then show ?thesis
    using CanSnapify_returns [OF assms, of host] unfolding snapifiable_def stack_room_def by (auto elim!: returnsE)
qed

theorem can_snapify_witness: "\<exists>s. CanSnapify ArchX86_64 s default_options = ret (Inr ())"
proof -
  obtain x where x: "whole_snapshot_ok (page_snapshot [page_end_state x])" "platforms_ok (page_snapshot [page_end_state x]) default_options"
    "snapifiable ArchX86_64 (page_snapshot [page_end_state x]) default_options (page_end_state x) 0x10004"
    by (rule page_snapifiable)
  let ?s = "page_snapshot [page_end_state x]"
  have "\<forall>k \<in> mapped_addresses (snap_memory_mappings ?s). \<forall>(b, l) \<in> set (reserved_ranges ArchX86_64). \<not> (b \<le> k \<and> k < l)"
    using x(3) unfolding snapifiable_def reserved_at_def by blast
  then have "\<exists>e a. PickEndState ?s default_options = ret (Inr e) \<and> es_endpoint e = kInstruction a \<and>
    (\<forall>k \<in> mapped_addresses (snap_memory_mappings ?s). \<forall>(b, l) \<in> set (reserved_ranges ArchX86_64). \<not> (b \<le> k \<and> k < l)) \<and>
    bytes_range (exit_bytes (to_architecture_id (snap_architecture ?s)) a) \<subseteq> mapped_addresses (snap_memory_mappings ?s) \<and>
    (opt_allow_undefined_end_state default_options \<and> EndState_IsComplete kUndefinedEndState e = OkStatus \<or>
     (\<exists>sp. ExtractRsp (es_registers e) ?s = ret sp \<and> 8 \<le> sp \<and> {sp - 8..<sp} \<subseteq> mapped_addresses (snap_memory_mappings ?s)))"
    using x(3) unfolding snapifiable_def stack_room_def by blast
  then show ?thesis using can_snapify [OF x(1) page_setup(2) x(2), of ArchX86_64] by blast
qed

text \<open>C17: bytes whose number is a multiple of eight are cut into pieces that follow each other and give the same bytes,
  each of a size that is a multiple of eight, and each either one run of at least 16 equal bytes or free of such
  runs at aligned offsets.\<close>

theorem byte_runs:
  assumes "bytes_ok b" "8 dvd length (mb_values b)"
  shows "\<exists>rs. GetRepeatingByteRuns b = ret (Inr rs) \<and> consecutive (mb_start b) rs \<and>
    concat (map mb_values rs) = mb_values b \<and>
    (\<forall>r \<in> set rs. bytes_ok r \<and> 8 dvd length (mb_values r) \<and>
      (16 \<le> length (mb_values r) \<and> (\<forall>i < length (mb_values r). mb_values r ! i = mb_values r ! 0) \<or>
       (\<forall>q. 8 dvd q \<and> q + 16 \<le> length (mb_values r) \<longrightarrow> (\<exists>i < 16. mb_values r ! (q + i) \<noteq> mb_values r ! q))))"
proof -
  obtain r where r: "GetRepeatingByteRuns b = ret r" "case r of Inl e \<Rightarrow> False | Inr rs \<Rightarrow>
      consecutive (mb_start b) rs \<and> all_values rs = mb_values b \<and> compressed rs"
    using GetRepeatingByteRuns_returns [OF assms] by (rule returnsE)
  then obtain rs where rs: "GetRepeatingByteRuns b = ret (Inr rs)" "consecutive (mb_start b) rs" "all_values rs = mb_values b" "compressed rs"
    by (cases r) auto
  have "unat (mb_start b) + length (all_values rs) < 2 ^ 64" using assms(1) rs(3) by (simp add: bytes_ok_def)
  then have "\<forall>r \<in> set rs. bytes_ok r" using consecutive_bytes(1) [OF rs(2)] by (simp add: ordered_bytes_def)
  moreover have "8 dvd length (mb_values r) \<and>
      (16 \<le> length (mb_values r) \<and> (\<forall>i < length (mb_values r). mb_values r ! i = mb_values r ! 0) \<or>
       (\<forall>q. 8 dvd q \<and> q + 16 \<le> length (mb_values r) \<longrightarrow> (\<exists>i < 16. mb_values r ! (q + i) \<noteq> mb_values r ! q)))"
    if "r \<in> set rs" for r
    using rs(4) that by (auto simp: compressed_def IsRepeating_iff run_at_def)
  ultimately show ?thesis using rs(1-3) by (intro exI [of _ rs]) blast
qed

theorem byte_runs_witness:
  "\<exists>rs. GetRepeatingByteRuns \<lparr>mb_start = 0x1000, mb_values = 1 # replicate 31 0\<rparr> = ret (Inr rs) \<and>
     concat (map mb_values rs) = 1 # replicate 31 0"
  using byte_runs [of "\<lparr>mb_start = 0x1000, mb_values = 1 # replicate 31 0\<rparr>"] by (auto simp: bytes_ok_def)

text \<open>C18: copying, filling and comparing memory by words of 64 bits gives what the same operation does byte by
  byte, for every alignment of the addresses and every size.\<close>

theorem mem_util_reference:
  assumes "length d = length s"
  shows "MemCopy dest d src s = s \<and> MemSet dest d c = replicate (length d) c \<and>
    (MemEq dest d src s \<longleftrightarrow> d = s) \<and> (MemAllEqualTo src s c \<longleftrightarrow> (\<forall>b \<in> set s. b = c))"
proof -
  have "s = replicate (length s) c \<longleftrightarrow> (\<forall>b \<in> set s. b = c)"
    by (metis replicate_length_same in_set_replicate)
  then show ?thesis using MemCopy_eq [OF assms] MemSet_eq [of dest d c] MemEq_eq [OF assms] MemAllEqualTo_eq [of src s c] by simp
qed

theorem mem_util_reference_witness: "\<not> MemEq 0x1000 [1, 2, 3, 4, 5, 6, 7, 8] 0x2000 [1, 2, 3, 4, 5, 6, 7, 9]"
  using mem_util_reference [of "[1, 2, 3, 4, 5, 6, 7, 8]" "[1, 2, 3, 4, 5, 6, 7, 9]" "0x1000" "0x2000"] by simp

end
