(* ===== verification/Spec2Isabelle.thy ===== *)
theory Spec2Isabelle
  imports Mutator_Properties Snapshot_Properties Snapshot_End_State_Properties Partition_Properties
    Page_Table_Properties Snapify_Properties
begin

text \<open>
  SiliFuzz looks for defects of processors by running random instruction sequences. This development
  models six parts of it and proves them correct: the fuzzer that produces the sequences
  (\<open>src/fuzzer\<close> with the filter of \<open>src/instruction\<close>), the data that describes a sequence together
  with the memory it runs in (\<open>src/common\<close> with the container of \<open>src/util/range_map.h\<close>), the
  registers it runs with: their serialised form and their checksums (\<open>src/util\<close>), the partition of
  a corpus of snapshots into groups that can share a process (\<open>src/tool_libs\<close>), the preparation of a
  snapshot for the runner (\<open>src/snap\<close>), and the images with page tables in which a memory state runs on a bare
  machine (\<open>src/proxies/page_table\<close>).

  The fuzzer. An input is parsed into a \<open>Program\<close>, a list of instructions whose branches point to
  instruction boundaries; random mutations edit the list; the result is laid out, the displacements of
  the branches are re-encoded, the length is limited and the bytes are written. An instruction is
  accepted only if the static filter accepts it.

  \<^item> \<open>Prelude\<close>: results (a value, a failed check, undefined behaviour, or no return), loops, the random
    source.
  \<^item> \<open>Insn_Filter\<close>, \<open>Filter_Facts\<close>: \<open>static_insn_filter.h/.cc\<close>, \<open>bit_matcher.h\<close>. All tables of both
    architectures; which words are accepted, and what an accepted system register access can name.
  \<^item> \<open>Program_Model\<close>: \<open>program.h\<close>, \<open>program.cc\<close>; a \<open>Program\<close> is a record, a member function that changes
    it returns the changed one. The architecture is a record of functions.
  \<^item> \<open>Program_Invariant\<close>, \<open>Arch_Laws\<close>: consistency (\<open>CheckConsistency\<close>), layout, and the interface of an
    architecture as locales; \<open>Program_Parse\<close>, \<open>Program_Edits\<close>: parsing and the edit operations.
  \<^item> \<open>Program_AArch64\<close>, \<open>Fuzzer_AArch64\<close>, \<open>AArch64_Properties\<close>: \<open>program_aarch64.cc\<close>, the
    interpretation of the locales on it, and what follows.
  \<^item> \<open>Mutation_Ops\<close>, \<open>Program_Mutators\<close>: \<open>program_mutation_ops.h/.cc\<close>, \<open>program_mutator.h\<close>,
    \<open>program_batch_mutator.h/.cc\<close>; \<open>Mutation_Safety\<close>, \<open>Batch_Safety\<close>, \<open>Mutator_Properties\<close>: every
    mutation keeps the invariant, every loop ends, every output is acceptable.

  Snapshots and memory. A \<open>Snapshot\<close> lists memory mappings, negative mappings (permissions that have to
  be missing), memory bytes and end states. A \<open>MemoryState\<close> describes what is mapped and known at one
  moment and computes the commands that lead to another state. Both keep their address ranges in a
  \<open>RangeMap\<close>, a sorted list of disjoint ranges with a value each.

  \<^item> \<open>Range_Map\<close>: \<open>range_map.h\<close>, every operation with its iterators as indices; \<open>Range_Map_Laws\<close>,
    \<open>Range_Map_Ops\<close>, \<open>Range_Map_Sets\<close>, \<open>Range_Map_Equality\<close>: the contract of the methods class as locales, and
    what the operations do to the function from keys to values that a map stands for.
  \<^item> \<open>Memory_Perms\<close>, \<open>Memory_Mapping\<close>: \<open>memory_perms.h/.cc\<close>, \<open>memory_mapping.h/.cc\<close>.
  \<^item> \<open>Mapped_Memory_Map\<close>, \<open>Mapped_Map_Spec\<close>: \<open>mapped_memory_map.h/.cc\<close>, the interpretation of the locales
    for permissions, and each operation as an operation on functions from addresses.
  \<^item> \<open>Memory_Bytes_Set\<close>: \<open>memory_bytes_set.h/.cc\<close> as sets of addresses.
  \<^item> \<open>Snapshot_Data\<close>, \<open>Snapshot_Model\<close>, \<open>Snapshot_Invariant\<close>, \<open>Snapshot_Properties\<close>: \<open>snapshot.h/.cc\<close>; when
    mappings and bytes are accepted, that accepting them keeps the lists, the maps and the written set
    in agreement, and the negative mappings made for a signal.
  \<^item> \<open>Snapshot_End_States\<close>: the operations of \<open>snapshot.cc\<close> that look at registers, end states or the whole
    snapshot. \<open>Snapshot_End_State_Facts\<close>, \<open>Snapshot_Remapping\<close>, \<open>Snapshot_End_State_Properties\<close>: the invariant of
    the whole snapshot (accepted registers and end states stay acceptable), which every operation keeps;
    replacing all mappings is accepted exactly when it keeps it; completeness and equality.
  \<^item> \<open>Memory_State\<close>: \<open>memory_state.h/.cc\<close>. \<open>Memory_State_Spec\<close>, \<open>Memory_Initial\<close>, \<open>Memory_Bytes_At\<close>,
    \<open>Memory_State_Properties\<close>: the invariant, the effect of each operation at each address, the initial
    and the end state of a snapshot, and reading back. \<open>Memory_Deltas\<close>, \<open>Delta_Properties\<close>,
    \<open>Bytes_Delta\<close>: the commands and chunks of the delta functions lead exactly to the state they are
    meant to lead to, and touch no more than they have to. A command that takes negative permissions away is for
    a whole element of a map, so it leaves what all its addresses have; \<open>Range_Boundaries\<close> shows that such an
    element is a maximal run of addresses with the same value.

  Registers. A snapshot holds its registers as serialised strings, and a run is summed up by a checksum of
  registers that a snapshot has no room for.

  \<^item> \<open>Le_Bytes\<close>: little-endian words in memory.
  \<^item> \<open>Crc32c\<close>: \<open>crc32c.h/.cc\<close>, \<open>crc32c_internal.h/.cc\<close>, \<open>gen_crc32c_zero_extension_tables.cc\<close>.
    \<open>Crc32c_Laws\<close>, \<open>Crc32c_Properties\<close>: checksums as a linear machine (a locale), the zero extension, and the
    equivalence of the accelerated implementation, which runs three streams, with the table driven one.
  \<^item> \<open>Reg_Checksum\<close>: \<open>reg_group_bits.h\<close>, \<open>reg_group_set.h\<close>, \<open>reg_checksum.h/.cc\<close>, \<open>reg_checksum_util.h/.cc\<close>,
    \<open>reg_group_io.h/.cc\<close>, \<open>sve_constants.h\<close>.
  \<^item> \<open>Reg_Serialize\<close>, \<open>Reg_Serialize_Properties\<close>: \<open>ucontext_types.h\<close>, \<open>serialize.h\<close>, \<open>simple_serialize.h\<close> and
    \<open>serialize.cc\<close> of both architectures; the round trip is proved once in a locale on the layout of a struct.

  Corpora. Snapshots whose mappings do not conflict are grouped into shards of about the same size.

  \<^item> \<open>Thread_Pool\<close>: \<open>thread_pool.h\<close> as an inductive step relation over the queue, the workers and the memory
    they share. The locale of its clients says what the jobs keep; in it no execution deadlocks, every one
    ends joined, and then all jobs are done.
  \<^item> \<open>Snap_Group\<close>: \<open>snap_group.h/.cc\<close>, \<open>corpus_partitioner_lib.cc\<close>. \<open>Snap_Group_Facts\<close>: the invariant of one group.
    \<open>Snap_Partition\<close>: the jobs of a partition as a client of the pool; they own disjoint ranges, so all
    interleavings agree. \<open>Partition_Properties\<close>: scheduling, the result of a partition and of a corpus.

  Snaps. The runner executes snaps, made from snapshots that end with a jump back to the runner and list all
  the memory that has to be set up and compared.

  \<^item> \<open>Mem_Util\<close>: \<open>mem_util.h/.cc\<close>, equal to the operations byte by byte. \<open>Byte_Runs\<close>: \<open>repeating_byte_runs.h/.cc\<close>.
    \<open>Snap_Exit\<close>: \<open>exit_sequence.h\<close> and \<open>exit_sequence.cc\<close> of both architectures. \<open>Snapify_Model\<close>: \<open>snapify.cc\<close>,
    \<open>snap_generator.h\<close>, \<open>reserved_memory_mappings.h/.cc\<close>.
  \<^item> \<open>Normalize_Spec\<close>: the loops of \<open>Snapshot::NormalizeMemoryBytes\<close> keep the bytes and cut where the permissions
    change. Page-aligned mappings change at pages only (\<open>Range_Boundaries\<close>), so their pieces have sizes that
    are multiples of eight. \<open>Snapify_Bytes\<close>,
    \<open>Snapify_Facts\<close>, \<open>Snapify_Steps\<close>, \<open>Snapify_Whole\<close>, \<open>Snapify_Spec\<close>: the memory at the start and at the end as
    functions of the address, and each step as a change of them. \<open>Snapify_Properties\<close>: the properties.

  Page tables. A proxy that runs a snapshot on a bare machine or an emulator gets the memory state as one
  block of physical memory: a four-level page table followed by the contents of the mapped regions.

  \<^item> \<open>Bit_Struct\<close>: \<open>bit_struct.h\<close>, \<open>physical_address.h\<close>, \<open>virtual_address.h\<close>; a struct is a word, a field its
    shift and width. \<open>Page_Descriptors\<close>: the entries of both architectures (\<open>page_descriptor_entry.h\<close>,
    \<open>table_descriptor_entry.h\<close>, \<open>page_table_entry_util.h/.cc\<close>). \<open>Page_Descriptor_Laws\<close>: the contract of the
    entries as a locale, interpreted on both architectures.
  \<^item> \<open>Page_Table_Creator\<close>: \<open>page_table_creator.h/.cc\<close>, and the walk of \<open>page_table_test_util.h\<close> as the
    specification of what a table means. \<open>Page_Table_Facts\<close>, \<open>Page_Table_Steps\<close>, \<open>Page_Table_Map\<close>,
    \<open>Page_Table_Spec\<close>, \<open>Page_Table_Walk\<close>: the invariant of the creator, the map from virtual pages to physical
    pages and permissions that it stands for, and the walk as the reading of that map.
  \<^item> \<open>Memory_State_Image\<close>: \<open>memory_state_image.h/.cc\<close>. \<open>Memory_Image_Facts\<close>, \<open>Memory_Image_Build\<close>: what a pass
    maps and copies, that both passes need a table of the same size, what \<open>Build\<close> gives.
    \<open>Page_Table_Properties\<close>: the properties of all of these.

  Conventions. A \<open>CHECK\<close> or \<open>DCHECK\<close> that fails is the value \<open>Check_failed\<close> (debug builds are modelled), an
  access out of bounds is \<open>Undefined\<close>, and a loop that does not end is \<open>None\<close>; a theorem that says
  \<open>returns P m\<close> excludes all three. Only the setter of a bit field masks a value that is too wide, as in a
  release build (\<open>field_fits\<close> is its \<open>DCHECK\<close>). Addresses, sizes and encodings are words of their width, so
  wrap-around is part of the model. Loops that are not structural are made with \<open>rloop\<close> or with the
  random-loop combinators of the prelude, which need no fuel; their termination is proved where a
  theorem says that the function returns. The bound of 8191 instructions in the theorems on finished
  programs is where every branch still fits its displacement field.

  Parameters. The Capstone disassembler is a predicate on words, \<open>random\<close> is a stream of numbers, the
  CRC-32C instructions of the processors are functions; every theorem holds for all of them, the ones on the
  accelerated checksum for instructions that do what the manuals of the processors say. The architecture a tool
  runs on, which decides what memory is reserved, is a parameter of \<open>Snapify\<close>.

  Not modelled: the x86-64 side of \<open>program_x86_64.cc\<close> and the instruction wrappers (the XED and Capstone
  libraries are not part of the repository); the runner, the player, the tracers, the other proxies and the
  orchestrator (system calls, machine code and external emulators); the assembly that saves register groups;
  protocol buffer and text conversion of snapshots; text for logging.
\<close>

end
